(* ===== verification/Balii_Prelude.thy ===== *)
theory Balii_Prelude
  imports Main "HOL-Library.Word"
begin

text \<open>
  Shared vocabulary of the development: the Python exceptions the modelled code raises, results and
  state-passing computations that may raise, bytes, big-endian integers as \<^verbatim>\<open>struct\<close> packs them, and
  Python slices. Every component theory imports this one. A Python \<^verbatim>\<open>bytes\<close> is a list of 8-bit words,
  a Python \<^verbatim>\<open>int\<close> is an \<^typ>\<open>int\<close>, a Python \<^verbatim>\<open>str\<close> is the list of its code points (\<open>Py_Text\<close>).
\<close>

named_theorems slice_simps \<open>facts on Python slices\<close>
named_theorems be_simps \<open>facts on big-endian integers\<close>
named_theorems sm_simps \<open>unfolding of the state-and-exception combinators\<close>

section \<open>Exceptions and results\<close>

text \<open>\<open>Blocked\<close> is no Python exception: it marks a computation that still waits for the outside world when
  the given trace of outside events is used up. No modelled code catches it.\<close>

type_synonym ustr = "nat list"

datatype pyexc =
    EOFError
  | SocketTimeout
  | SocketError
  | PipeTimeout
  | NeedRekey
  | SSHException string
  | AuthenticationException string
  | BadAuthenticationType "ustr list"
  | PartialAuthentication "ustr list"
  | ChannelException int
  | SFTPError string
  | BERException
  | IndexError
  | KeyError
  | AttributeError
  | UnboundLocalError
  | ZeroDivisionError
  | TypeError
  | ValueError string
  | StructError
  | OverflowError
  | AssertionError
  | UnicodeError
  | JSONDecodeError
  | TimeoutExpired
  | OSError
  | IOError string
  | OSErr "int option" ustr
  | RuntimeError ustr
  | ConfigParseError ustr
  | CouldNotCanonicalize ustr
  | ImportError
  | HTTPException nat ustr
  | InvalidTag
  | BinasciiError
  | UnknownKeyType
  | InvalidHostKey
  | ProxyCommandFailure
  | Blocked

type_synonym 'a res = "pyexc + 'a"

text \<open>A computation over a state \<open>'s\<close>: an exception leaves the state as it was when it was raised.\<close>

type_synonym ('s, 'a) sm = "'s \<Rightarrow> 'a res \<times> 's"

definition retS :: "'a \<Rightarrow> ('s, 'a) sm" where
  "retS x = (\<lambda>s. (Inr x, s))"

definition raiseS :: "pyexc \<Rightarrow> ('s, 'a) sm" where
  "raiseS e = (\<lambda>s. (Inl e, s))"

definition bindS :: "('s, 'a) sm \<Rightarrow> ('a \<Rightarrow> ('s, 'b) sm) \<Rightarrow> ('s, 'b) sm" where
  "bindS m f = (\<lambda>s. case m s of (Inl e, s') \<Rightarrow> (Inl e, s') | (Inr x, s') \<Rightarrow> f x s')"

definition modS :: "('s \<Rightarrow> 's) \<Rightarrow> ('s, unit) sm" where
  "modS f = (\<lambda>s. (Inr (), f s))"

definition liftR :: "'a res \<Rightarrow> ('s, 'a) sm" where
  "liftR r = (\<lambda>s. (r, s))"

definition bindR :: "'a res \<Rightarrow> ('a \<Rightarrow> 'b res) \<Rightarrow> 'b res" where
  "bindR m f = (case m of Inl e \<Rightarrow> Inl e | Inr x \<Rightarrow> f x)"

lemma bindR_simps [simp]: "bindR (Inl e) f = Inl e" "bindR (Inr x) f = f x"
  by (simp_all add: bindR_def)

lemma bindR_eq_Inr: "bindR m f = Inr y \<longleftrightarrow> (\<exists>x. m = Inr x \<and> f x = Inr y)"
  by (cases m) auto

lemma bindR_assoc: "bindR (bindR m f) g = bindR m (\<lambda>x. bindR (f x) g)"
  by (cases m) auto

lemmas [sm_simps] = retS_def raiseS_def bindS_def modS_def liftR_def

lemma bindS_Inr_iff:
  "bindS m f s = (Inr y, t) \<longleftrightarrow> (\<exists>x u. m s = (Inr x, u) \<and> f x u = (Inr y, t))"
  by (auto simp: bindS_def split: prod.splits sum.splits)

lemma bindS_retS [simp]: "bindS (retS x) f = f x"
  by (simp add: bindS_def retS_def)

lemma bindS_assoc: "bindS (bindS m f) g = bindS m (\<lambda>x. bindS (f x) g)"
  by (auto simp: bindS_def split: prod.splits sum.splits)

lemma bindS_step: "p m = (Inr u, m1) \<Longrightarrow> bindS p f m = f u m1"
  by (simp add: bindS_def)

text \<open>\<open>reading p m f\<close> parses a part of \<open>m\<close> with \<open>p\<close> and goes on with the value and the rest.\<close>

definition reading :: "('m, 'a) sm \<Rightarrow> 'm \<Rightarrow> ('a \<Rightarrow> 'm \<Rightarrow> ('s, 'b) sm) \<Rightarrow> ('s, 'b) sm" where
  "reading p m f = (case p m of (Inl e, _) \<Rightarrow> raiseS e | (Inr x, m') \<Rightarrow> f x m')"

lemma reading_step: "p m = (Inr x, m') \<Longrightarrow> reading p m f s = f x m' s"
  by (simp add: reading_def)

lemma bindS_ret: "bindS m retS = m"
  by (rule ext) (auto simp: bindS_def retS_def split: prod.splits sum.splits)

section \<open>Bytes\<close>

type_synonym byte = "8 word"
type_synonym bytes = "byte list"

lemma byte_uint_bounds: "0 \<le> uint (b :: byte)" "uint (b :: byte) < 256"
  using uint_bounded [of b] by auto

lemma byte_of_int_uint: "0 \<le> n \<Longrightarrow> n < 256 \<Longrightarrow> uint (word_of_int n :: byte) = n"
  by (simp add: uint_word_of_int)

lemma byte_eqI: "uint a = uint b \<Longrightarrow> (a :: byte) = b"
  by (simp add: word_uint_eqI)

section \<open>Big-endian integers\<close>

text \<open>\<open>be_int\<close> reads a byte string as an unsigned big-endian integer; \<open>be_bytes k n\<close> is the big-endian
  form of \<open>n\<close> in \<open>k\<close> bytes. \<open>pack_be\<close> is \<^verbatim>\<open>struct.pack\<close> for an unsigned \<open>k\<close>-byte field: out of range
  raises.\<close>

definition be_int :: "bytes \<Rightarrow> int" where
  "be_int bs = foldl (\<lambda>a b. a * 256 + uint b) 0 bs"

fun be_bytes :: "nat \<Rightarrow> int \<Rightarrow> bytes" where
  "be_bytes 0 n = []"
| "be_bytes (Suc k) n = be_bytes k (n div 256) @ [word_of_int (n mod 256)]"

definition pack_be :: "nat \<Rightarrow> int \<Rightarrow> bytes res" where
  "pack_be k n = (if 0 \<le> n \<and> n < 256 ^ k then Inr (be_bytes k n) else Inl StructError)"

lemma be_int_Nil [simp]: "be_int [] = 0"
  by (simp add: be_int_def)

lemma be_int_snoc [be_simps]: "be_int (xs @ [x]) = be_int xs * 256 + uint x"
  by (simp add: be_int_def)

lemma be_int_append [be_simps]: "be_int (xs @ ys) = be_int xs * 256 ^ length ys + be_int ys"
proof (induction ys rule: rev_induct)
  case (snoc y ys)
  have "be_int (xs @ ys @ [y]) = be_int ((xs @ ys) @ [y])" by simp
  also have "\<dots> = be_int (xs @ ys) * 256 + uint y" by (rule be_int_snoc)
  also have "\<dots> = be_int xs * 256 ^ length (ys @ [y]) + be_int (ys @ [y])"
    using snoc.IH by (simp add: be_int_snoc algebra_simps)
  finally show ?case .
qed simp

lemma be_int_Cons: "be_int (x # xs) = uint x * 256 ^ length xs + be_int xs"
  using be_int_append [of "[x]" xs] by (simp add: be_int_def)

lemma be_int_nonneg [simp]: "0 \<le> be_int bs"
  by (induction bs rule: rev_induct) (auto simp: be_int_snoc)

lemma be_int_less: "be_int bs < 256 ^ length bs"
proof (induction bs rule: rev_induct)
  case (snoc x xs)
  have "uint x < 256" using byte_uint_bounds by blast
  then have "be_int xs * 256 + uint x < (be_int xs + 1) * 256" by simp
  also have "\<dots> \<le> 256 ^ length xs * 256" using snoc.IH by simp
  finally show ?case by (simp add: be_int_snoc mult.commute)
qed simp

lemma length_be_bytes [simp]: "length (be_bytes k n) = k"
  by (induction k arbitrary: n) auto

lemma be_int_be_bytes_mod: "be_int (be_bytes k n) = n mod 256 ^ k"
proof (induction k arbitrary: n)
  case (Suc k)
  have "be_int (be_bytes (Suc k) n) = (n div 256) mod 256 ^ k * 256 + n mod 256"
    using Suc.IH by (simp add: be_int_snoc byte_of_int_uint)
  also have "\<dots> = n mod (256 * 256 ^ k)"
    by (simp add: zmod_zmult2_eq)
  finally show ?case by simp
qed simp

lemma be_int_be_bytes [be_simps]: "0 \<le> n \<Longrightarrow> n < 256 ^ k \<Longrightarrow> be_int (be_bytes k n) = n"
  by (simp add: be_int_be_bytes_mod)

lemma be_bytes_be_int [be_simps]: "be_bytes (length bs) (be_int bs) = bs"
proof (induction bs rule: rev_induct)
  case (snoc x xs)
  have u: "0 \<le> uint x" "uint x < 256" using byte_uint_bounds by blast+
  then have "(be_int xs * 256 + uint x) div 256 = be_int xs"
    and "(be_int xs * 256 + uint x) mod 256 = uint x" by simp_all
  with snoc show ?case by (simp add: be_int_snoc)
qed simp

lemma be_int_inj: "length xs = length ys \<Longrightarrow> be_int xs = be_int ys \<Longrightarrow> xs = ys"
  by (metis be_bytes_be_int)

lemma pack_be_Inr [be_simps]: "0 \<le> n \<Longrightarrow> n < 256 ^ k \<Longrightarrow> pack_be k n = Inr (be_bytes k n)"
  by (simp add: pack_be_def)

lemma pack_be_InrD: "pack_be k n = Inr bs \<Longrightarrow> bs = be_bytes k n \<and> 0 \<le> n \<and> n < 256 ^ k"
  by (auto simp: pack_be_def split: if_splits)

lemma be_int_all_zero: "be_int (replicate n 0) = 0"
  by (induction n) (auto simp: be_int_Cons)

lemma be_bytes_append:
  assumes "0 \<le> n"
  shows "be_bytes (j + k) n = be_bytes j (n div 256 ^ k) @ be_bytes k n"
  using assms
proof (induction k arbitrary: n)
  case (Suc k)
  have "be_bytes (j + k) (n div 256) = be_bytes j (n div 256 div 256 ^ k) @ be_bytes k (n div 256)"
    using Suc.prems by (intro Suc.IH) simp
  moreover have "n div 256 div 256 ^ k = n div 256 ^ Suc k"
    by (simp add: zdiv_zmult2_eq)
  ultimately show ?case by simp
qed simp

section \<open>Python slices\<close>

text \<open>\<open>py_index n i\<close> resolves a slice bound against a sequence of length \<open>n\<close>: a negative bound counts
  from the end, and the result is clamped into the sequence. \<open>py_slice xs i j\<close> is \<^verbatim>\<open>xs[i:j]\<close>.\<close>

definition py_index :: "nat \<Rightarrow> int \<Rightarrow> nat" where
  "py_index n i = (if i < 0 then nat (max 0 (int n + i)) else min n (nat i))"

definition py_slice :: "'a list \<Rightarrow> int \<Rightarrow> int \<Rightarrow> 'a list" where
  "py_slice xs i j = take (py_index (length xs) j - py_index (length xs) i)
                          (drop (py_index (length xs) i) xs)"

lemma py_index_nonneg: "0 \<le> i \<Longrightarrow> py_index n i = min n (nat i)"
  by (simp add: py_index_def)

lemma py_slice_nonneg [slice_simps]:
  assumes "0 \<le> i" "0 \<le> j"
  shows "py_slice xs i j = take (nat j - nat i) (drop (nat i) xs)"
proof (cases "nat i \<le> length xs")
  case True
  with assms show ?thesis
    by (cases "nat j \<le> length xs") (auto simp: py_slice_def py_index_nonneg min_def)
next
  case False
  with assms show ?thesis by (simp add: py_slice_def py_index_nonneg)
qed

lemma py_slice_zero [slice_simps]: "0 \<le> j \<Longrightarrow> py_slice xs 0 j = take (nat j) xs"
  by (simp add: py_slice_nonneg)

text \<open>Element access: a negative index counts from the end, out of range raises.\<close>

definition py_get :: "'a list \<Rightarrow> int \<Rightarrow> 'a res" where
  "py_get xs i =
     (if 0 \<le> i then (if nat i < length xs then Inr (xs ! nat i) else Inl IndexError)
      else if nat (- i) \<le> length xs then Inr (xs ! (length xs - nat (- i)))
      else Inl IndexError)"

lemma py_get_Inr: "0 \<le> i \<Longrightarrow> i < int (length xs) \<Longrightarrow> py_get xs i = Inr (xs ! nat i)"
  by (simp add: py_get_def)

section \<open>Dictionaries\<close>

text \<open>Assigning to a key of a dictionary: a known key keeps its place.\<close>

fun dict_put :: "'k \<Rightarrow> 'v \<Rightarrow> ('k \<times> 'v) list \<Rightarrow> ('k \<times> 'v) list" where
  "dict_put k v [] = [(k, v)]"
| "dict_put k v ((k', v') # d) = (if k = k' then (k, v) # d else (k', v') # dict_put k v d)"

lemma map_of_dict_put: "map_of (dict_put k v d) = (map_of d)(k \<mapsto> v)"
  by (induction d) auto

lemma dict_put_new: "k \<notin> fst ` set d \<Longrightarrow> dict_put k v d = d @ [(k, v)]"
  by (induction d) auto

section \<open>Rounding\<close>

text \<open>Rounding of \<open>a / b\<close> to the nearest integer, ties to even, as Python's \<^verbatim>\<open>round\<close>.\<close>

definition round_quot :: "int \<Rightarrow> int \<Rightarrow> int" where
  "round_quot a b =
     (let q = a div b; r = a mod b
      in if 2 * r < b then q else if 2 * r > b then q + 1 else if even q then q else q + 1)"

lemma round_quot_bounds:
  assumes "0 < b"
  shows "b * (2 * round_quot a b) \<le> 2 * a + b" "2 * a - b \<le> b * (2 * round_quot a b)"
proof -
  obtain q m where qm: "a div b = q" "a mod b = m" by blast
  then have "a = b * q + m" using mult_div_mod_eq [of b a] by simp
  moreover have "0 \<le> m" "m < b" using assms qm by auto
  ultimately show "b * (2 * round_quot a b) \<le> 2 * a + b" "2 * a - b \<le> b * (2 * round_quot a b)"
    unfolding round_quot_def Let_def qm by (auto simp: algebra_simps)
qed

end
