(* ===== verification/Py_Text.thy ===== *)
theory Py_Text
  imports Balii_Prelude
begin

text \<open>
  Python \<^verbatim>\<open>str\<close> as the list of its code points, with the string operations the source uses:
  \<^verbatim>\<open>strip\<close>, \<^verbatim>\<open>splitlines\<close>, \<^verbatim>\<open>startswith\<close>, \<^verbatim>\<open>in\<close>, \<^verbatim>\<open>split\<close>, \<^verbatim>\<open>join\<close>, \<^verbatim>\<open>lower\<close>, and UTF-8 encoding and strict
  decoding. The white-space, line-break and decimal-digit tables are those of Python 3.11
  (\<^verbatim>\<open>str.isspace\<close> and \<^verbatim>\<open>\s\<close>, \<^verbatim>\<open>str.splitlines\<close>, \<^verbatim>\<open>\d\<close>, Unicode 14).
\<close>

named_theorems text_simps \<open>facts on string operations\<close>

section \<open>Characters\<close>

definition lit :: "string \<Rightarrow> ustr" where
  "lit s = map of_char s"

lemma lit_simps [simp]: "lit [] = []" "lit (c # cs) = of_char c # lit cs"
  by (simp_all add: lit_def)

lemma lit_inj [simp]: "lit s = lit t \<longleftrightarrow> s = t"
  by (simp add: lit_def inj_map_eq_map inj_def)

definition is_space :: "nat \<Rightarrow> bool" where
  "is_space c \<longleftrightarrow> 9 \<le> c \<and> c \<le> 13 \<or> 28 \<le> c \<and> c \<le> 32 \<or> c = 133 \<or> c = 160 \<or> c = 5760 \<or>
     8192 \<le> c \<and> c \<le> 8202 \<or> c = 8232 \<or> c = 8233 \<or> c = 8239 \<or> c = 8287 \<or> c = 12288"

definition is_linebreak :: "nat \<Rightarrow> bool" where
  "is_linebreak c \<longleftrightarrow> 10 \<le> c \<and> c \<le> 13 \<or> 28 \<le> c \<and> c \<le> 30 \<or> c = 133 \<or> c = 8232 \<or> c = 8233"

definition digit_zeros :: "nat list" where
  "digit_zeros =
    [48, 1632, 1776, 1984, 2406, 2534, 2662, 2790, 2918, 3046, 3174, 3302, 3430, 3558, 3664,
     3792, 3872, 4160, 4240, 6112, 6160, 6470, 6608, 6784, 6800, 6992, 7088, 7232, 7248, 42528,
     43216, 43264, 43472, 43504, 43600, 44016, 65296, 66720, 68912, 69734, 69872, 69942, 70096,
     70384, 70736, 70864, 71248, 71360, 71472, 71904, 72016, 72784, 73040, 73120, 92768, 92864,
     93008, 120782, 120792, 120802, 120812, 120822, 123200, 123632, 125264, 130032]"

definition is_digit :: "nat \<Rightarrow> bool" where
  "is_digit c \<longleftrightarrow> list_ex (\<lambda>z. z \<le> c \<and> c < z + 10) digit_zeros"

text \<open>\<^verbatim>\<open>str.lower\<close> on the code points whose image holds an ASCII letter: the capitals, the Kelvin sign
  and the dotted capital I. The source only compares lower-cased text with ASCII text, which the
  other code points cannot affect; they are left unchanged.\<close>

definition lower_cp :: "nat \<Rightarrow> ustr" where
  "lower_cp c = (if 65 \<le> c \<and> c \<le> 90 then [c + 32] else if c = 8490 then [107]
                 else if c = 304 then [105, 775] else [c])"

definition py_lower :: "ustr \<Rightarrow> ustr" where
  "py_lower s = concat (map lower_cp s)"

section \<open>Stripping and splitting\<close>

definition strip_by :: "(nat \<Rightarrow> bool) \<Rightarrow> ustr \<Rightarrow> ustr" where
  "strip_by p s = rev (dropWhile p (rev (dropWhile p s)))"

definition py_strip :: "ustr \<Rightarrow> ustr" where
  "py_strip s = strip_by is_space s"

fun split_lines_from :: "ustr \<Rightarrow> ustr \<Rightarrow> ustr list" where
  "split_lines_from acc [] = (if acc = [] then [] else [acc])"
| "split_lines_from acc [c] = (if is_linebreak c then [acc] else [acc @ [c]])"
| "split_lines_from acc (c # d # cs) =
     (if c = 13 \<and> d = 10 then acc # split_lines_from [] cs
      else if is_linebreak c then acc # split_lines_from [] (d # cs)
      else split_lines_from (acc @ [c]) (d # cs))"

definition splitlines :: "ustr \<Rightarrow> ustr list" where
  "splitlines s = split_lines_from [] s"

fun startswith :: "ustr \<Rightarrow> ustr \<Rightarrow> bool" where
  "startswith s [] = True"
| "startswith [] (p # ps) = False"
| "startswith (c # cs) (p # ps) = (c = p \<and> startswith cs ps)"

definition endswith :: "ustr \<Rightarrow> ustr \<Rightarrow> bool" where
  "endswith s p = startswith (rev s) (rev p)"

fun has_sub :: "ustr \<Rightarrow> ustr \<Rightarrow> bool" where
  "has_sub p [] = (p = [])"
| "has_sub p (c # cs) = (startswith (c # cs) p \<or> has_sub p cs)"

fun split_on :: "'a \<Rightarrow> 'a list \<Rightarrow> 'a list list" where
  "split_on d [] = [[]]"
| "split_on d (c # cs) =
     (if c = d then [] # split_on d cs
      else (case split_on d cs of [] \<Rightarrow> [[c]] | w # ws \<Rightarrow> (c # w) # ws))"

fun join :: "'a list \<Rightarrow> 'a list list \<Rightarrow> 'a list" where
  "join sep [] = []"
| "join sep [w] = w"
| "join sep (w # v # ws) = w @ sep @ join sep (v # ws)"

section \<open>Facts\<close>

lemma startswith_iff: "startswith s p \<longleftrightarrow> (\<exists>r. s = p @ r)"
  by (induction s p rule: startswith.induct) auto

lemma startswith_append [text_simps]: "startswith (p @ r) p"
  by (auto simp: startswith_iff)

lemma startswith_drop: "startswith s p \<Longrightarrow> p @ drop (length p) s = s"
  by (auto simp: startswith_iff)

lemma endswith_iff: "endswith s p \<longleftrightarrow> (\<exists>r. s = r @ p)"
  unfolding endswith_def startswith_iff
  by (metis rev_append rev_rev_ident)

lemma strip_by_Nil [simp]: "strip_by p [] = []"
  by (simp add: strip_by_def)

lemma set_strip_by: "set (strip_by p s) \<subseteq> set s"
  unfolding strip_by_def by (metis set_dropWhileD set_rev subsetI)

lemma strip_by_sandwich: "\<exists>a b. s = a @ strip_by p s @ b \<and> (\<forall>c \<in> set a. p c) \<and> (\<forall>c \<in> set b. p c)"
proof -
  let ?t = "dropWhile p s"
  have "s = takeWhile p s @ ?t" by simp
  moreover have "?t = strip_by p s @ rev (takeWhile p (rev ?t))"
    unfolding strip_by_def by (metis rev_append rev_rev_ident takeWhile_dropWhile_id)
  ultimately have "s = takeWhile p s @ strip_by p s @ rev (takeWhile p (rev ?t))" by metis
  then show ?thesis
    by (metis (no_types, lifting) set_rev set_takeWhileD)
qed

lemma strip_by_last: "strip_by p s \<noteq> [] \<Longrightarrow> \<not> p (last (strip_by p s))"
  unfolding strip_by_def by (simp add: last_rev hd_dropWhile)

lemma strip_by_eq_Nil [text_simps]: "strip_by p s = [] \<longleftrightarrow> (\<forall>c \<in> set s. p c)"
proof
  assume e: "strip_by p s = []"
  obtain a b where "s = a @ strip_by p s @ b" "\<forall>c \<in> set a. p c" "\<forall>c \<in> set b. p c"
    using strip_by_sandwich [of s p] by blast
  with e show "\<forall>c \<in> set s. p c" by (metis Un_iff append_Nil set_append)
next
  assume a: "\<forall>c \<in> set s. p c"
  show "strip_by p s = []"
  proof (rule ccontr)
    assume n: "strip_by p s \<noteq> []"
    then have "last (strip_by p s) \<in> set s" using set_strip_by by (meson last_in_set subsetD)
    with a strip_by_last [OF n] show False by blast
  qed
qed

lemma strip_by_hd:
  assumes "strip_by p s \<noteq> []"
  shows "\<not> p (hd (strip_by p s))"
proof -
  let ?t = "dropWhile p s"
  have t: "?t = strip_by p s @ rev (takeWhile p (rev ?t))"
    unfolding strip_by_def by (metis rev_append rev_rev_ident takeWhile_dropWhile_id)
  with assms have "?t \<noteq> []" by (metis append_is_Nil_conv)
  then have h: "\<not> p (hd ?t)" by (rule hd_dropWhile)
  from t assms have "hd ?t = hd (strip_by p s)" by (metis hd_append2)
  with h show ?thesis by simp
qed

lemma strip_by_fix:
  assumes "s \<noteq> []" "\<not> p (hd s)" "\<not> p (last s)"
  shows "strip_by p s = s"
proof -
  have d: "dropWhile p xs = xs" if "xs \<noteq> []" "\<not> p (hd xs)" for xs
    using that by (cases xs) auto
  have "dropWhile p s = s" using assms(1,2) by (rule d)
  moreover have "dropWhile p (rev s) = rev s" using assms by (intro d) (auto simp: hd_rev)
  ultimately show ?thesis by (simp add: strip_by_def)
qed

lemma strip_by_idem [text_simps]: "strip_by p (strip_by p s) = strip_by p s"
proof (cases "strip_by p s = []")
  case False
  show ?thesis
    by (rule strip_by_fix [OF False strip_by_hd [OF False] strip_by_last [OF False]])
qed simp

lemma py_strip_idem [text_simps]: "py_strip (py_strip s) = py_strip s"
  by (simp add: py_strip_def strip_by_idem)

lemma split_on_neq_Nil [simp]: "split_on d s \<noteq> []"
  by (induction s) (auto split: list.splits)

lemma split_on_Cons_neq: "c \<noteq> d \<Longrightarrow> split_on d (c # cs) = (c # hd (split_on d cs)) # tl (split_on d cs)"
  by (cases "split_on d cs") auto

lemma join_split_on [text_simps]: "join [d] (split_on d s) = s"
proof (induction s)
  case (Cons c cs)
  obtain w ws where w: "split_on d cs = w # ws" by (cases "split_on d cs") auto
  with Cons show ?case by (cases ws) auto
qed simp

lemma split_on_no_sep: "w \<in> set (split_on d s) \<Longrightarrow> d \<notin> set w"
proof (induction s arbitrary: w)
  case (Cons c cs)
  obtain v vs where v: "split_on d cs = v # vs" by (cases "split_on d cs") auto
  with Cons show ?case by (auto split: if_splits)
qed simp

lemma length_split_on: "length (split_on d s) = Suc (count_list s d)"
proof (induction s)
  case (Cons c cs)
  obtain v vs where "split_on d cs = v # vs" by (cases "split_on d cs") auto
  with Cons show ?case by auto
qed simp

lemma split_on_append_sep: "d \<notin> set w \<Longrightarrow> split_on d (w @ d # s) = w # split_on d s"
  by (induction w) auto

lemma split_on_single: "d \<notin> set w \<Longrightarrow> split_on d w = [w]"
  by (induction w) auto

lemma split_on_join [text_simps]:
  "ws \<noteq> [] \<Longrightarrow> \<forall>w \<in> set ws. d \<notin> set w \<Longrightarrow> split_on d (join [d] ws) = ws"
  by (induction "[d]" ws rule: join.induct) (auto simp: split_on_single split_on_append_sep)

lemma join_chars: "list_all (\<lambda>h. list_all P h) hs \<Longrightarrow> P d \<Longrightarrow> list_all P (join [d] hs)"
  by (induction "[d]" hs rule: join.induct) auto

section \<open>UTF-8\<close>

text \<open>\<^verbatim>\<open>str.encode("utf8")\<close> and \<^verbatim>\<open>bytes.decode("utf8")\<close> with strict errors: surrogates cannot be encoded, and
  overlong forms, surrogates, truncated and out-of-range sequences cannot be decoded.\<close>

definition scalar :: "nat \<Rightarrow> bool" where
  "scalar c \<longleftrightarrow> c < 0x110000 \<and> \<not> (0xD800 \<le> c \<and> c \<le> 0xDFFF)"

definition utf8_char :: "nat \<Rightarrow> bytes" where
  "utf8_char c =
     (if c < 0x80 then [of_nat c]
      else if c < 0x800 then [of_nat (0xC0 + c div 64), of_nat (0x80 + c mod 64)]
      else if c < 0x10000 then
        [of_nat (0xE0 + c div 4096), of_nat (0x80 + c div 64 mod 64), of_nat (0x80 + c mod 64)]
      else [of_nat (0xF0 + c div 262144), of_nat (0x80 + c div 4096 mod 64),
            of_nat (0x80 + c div 64 mod 64), of_nat (0x80 + c mod 64)])"

definition utf8_encode :: "ustr \<Rightarrow> bytes res" where
  "utf8_encode s = (if list_all scalar s then Inr (concat (map utf8_char s)) else Inl UnicodeError)"

definition cont :: "byte \<Rightarrow> bool" where
  "cont b \<longleftrightarrow> 0x80 \<le> unat b \<and> unat b < 0xC0"

text \<open>One character: its code point and the bytes after it.\<close>

definition utf8_step :: "bytes \<Rightarrow> (nat \<times> bytes) option" where
  "utf8_step bs =
     (case bs of
        [] \<Rightarrow> None
      | a # r \<Rightarrow>
         if unat a < 0x80 then Some (unat a, r)
         else if 0xC0 \<le> unat a \<and> unat a < 0xE0 then
           (case r of b # r' \<Rightarrow>
              let c = (unat a - 0xC0) * 64 + (unat b - 0x80)
              in if cont b \<and> 0x80 \<le> c then Some (c, r') else None
            | _ \<Rightarrow> None)
         else if 0xE0 \<le> unat a \<and> unat a < 0xF0 then
           (case r of b # d # r' \<Rightarrow>
              let c = (unat a - 0xE0) * 4096 + (unat b - 0x80) * 64 + (unat d - 0x80)
              in if cont b \<and> cont d \<and> 0x800 \<le> c \<and> scalar c then Some (c, r') else None
            | _ \<Rightarrow> None)
         else if 0xF0 \<le> unat a \<and> unat a < 0xF8 then
           (case r of b # d # e # r' \<Rightarrow>
              let c = (unat a - 0xF0) * 262144 + (unat b - 0x80) * 4096 + (unat d - 0x80) * 64 + (unat e - 0x80)
              in if cont b \<and> cont d \<and> cont e \<and> 0x10000 \<le> c \<and> scalar c then Some (c, r') else None
            | _ \<Rightarrow> None)
         else None)"

lemma utf8_step_shorter: "utf8_step bs = Some (c, r) \<Longrightarrow> length r < length bs"
  by (auto simp: utf8_step_def Let_def split: list.splits if_splits)

function utf8_decode :: "bytes \<Rightarrow> ustr res" where
  "utf8_decode bs =
     (if bs = [] then Inr []
      else (case utf8_step bs of
              None \<Rightarrow> Inl UnicodeError
            | Some (c, r) \<Rightarrow> bindR (utf8_decode r) (\<lambda>s. Inr (c # s))))"
  by pat_completeness auto
termination by (relation "measure length") (auto dest: utf8_step_shorter)

declare utf8_decode.simps [simp del]

lemma unat_byte: "n < 256 \<Longrightarrow> unat (of_nat n :: byte) = n"
  by (simp add: unat_of_nat)

lemma cont_of_nat: "cont (of_nat (0x80 + n mod 64))" "unat (of_nat (0x80 + n mod 64) :: byte) = 0x80 + n mod 64"
proof -
  have "0x80 + n mod 64 < 256" using mod_less_divisor [of 64 n] by linarith
  then show u: "unat (of_nat (0x80 + n mod 64) :: byte) = 0x80 + n mod 64" by (rule unat_byte)
  show "cont (of_nat (0x80 + n mod 64))" unfolding cont_def u by (simp add: less_imp_le)
qed

lemma split3: "c div 4096 * 4096 + c div 64 mod 64 * 64 + c mod 64 = (c :: nat)"
proof -
  define x y z where "x = c div 64" "y = c div 4096" "z = c mod 64"
  have "c = x * 64 + z" by (simp add: x_y_z_def)
  moreover have "c div 64 div 64 = c div 4096" by (simp flip: div_mult2_eq)
  then have "x = y * 64 + x mod 64" by (metis x_y_z_def(1,2) div_mult_mod_eq)
  ultimately show ?thesis unfolding x_y_z_def [symmetric] by linarith
qed

lemma split4: "c div 262144 * 262144 + c div 4096 mod 64 * 4096 + c div 64 mod 64 * 64 + c mod 64 = (c :: nat)"
proof -
  define x y where "x = c div 4096" "y = c div 262144"
  have "c div 4096 div 64 = c div 262144" by (simp flip: div_mult2_eq)
  then have "x = y * 64 + x mod 64" by (metis x_y_def div_mult_mod_eq)
  then show ?thesis using split3 [of c] unfolding x_y_def [symmetric] by linarith
qed

lemma utf8_step_char: "scalar c \<Longrightarrow> utf8_step (utf8_char c @ r) = Some (c, r)"
proof -
  assume s: "scalar c"
  consider "c < 0x80" | "0x80 \<le> c" "c < 0x800" | "0x800 \<le> c" "c < 0x10000" | "0x10000 \<le> c" by linarith
  then show ?thesis
  proof cases
    case 1
    then show ?thesis by (simp add: utf8_char_def utf8_step_def unat_byte)
  next
    case 2
    then have "unat (of_nat (0xC0 + c div 64) :: byte) = 0xC0 + c div 64" by (intro unat_byte) simp
    moreover have "c div 64 * 64 + c mod 64 = c" "c div 64 < 32" using 2 by simp_all
    ultimately show ?thesis using 2 cont_of_nat [of c] s
      by (simp add: utf8_char_def utf8_step_def Let_def del: of_nat_add of_nat_numeral)
  next
    case 3
    then have "unat (of_nat (0xE0 + c div 4096) :: byte) = 0xE0 + c div 4096" by (intro unat_byte) simp
    moreover have "c div 4096 * 4096 + c div 64 mod 64 * 64 + c mod 64 = c" "c div 4096 < 16" using 3 split3
      by (simp_all add: less_mult_imp_div_less)
    ultimately show ?thesis using 3 cont_of_nat [of c] cont_of_nat [of "c div 64"] s
      by (simp add: utf8_char_def utf8_step_def Let_def del: of_nat_add of_nat_numeral)
  next
    case 4
    have b: "c < 0x110000" using s by (simp add: scalar_def)
    then have "unat (of_nat (0xF0 + c div 262144) :: byte) = 0xF0 + c div 262144" by (intro unat_byte) simp
    moreover have "c div 262144 * 262144 + c div 4096 mod 64 * 4096 + c div 64 mod 64 * 64 + c mod 64 = c"
      by (rule split4)
    moreover have "c div 262144 < 5" using b by (intro less_mult_imp_div_less) simp
    ultimately show ?thesis
      using 4 cont_of_nat [of c] cont_of_nat [of "c div 64"] cont_of_nat [of "c div 4096"] s
      by (simp add: utf8_char_def utf8_step_def Let_def del: of_nat_add of_nat_numeral)
  qed
qed

lemma utf8_char_not_Nil: "utf8_char c \<noteq> []"
  by (simp add: utf8_char_def)

lemma utf8_roundtrip: "utf8_encode s = Inr bs \<Longrightarrow> utf8_decode bs = Inr s"
proof (induction s arbitrary: bs)
  case Nil
  then show ?case by (simp add: utf8_encode_def utf8_decode.simps)
next
  case (Cons c s)
  then have sc: "scalar c" and b: "bs = utf8_char c @ concat (map utf8_char s)"
    and "utf8_encode s = Inr (concat (map utf8_char s))"
    by (auto simp: utf8_encode_def split: if_splits)
  with Cons.IH have "utf8_decode (concat (map utf8_char s)) = Inr s" by blast
  then show ?case unfolding b
    by (subst utf8_decode.simps) (simp add: utf8_char_not_Nil utf8_step_char sc)
qed

section \<open>Numbers\<close>

text \<open>\<^verbatim>\<open>str\<close> of an integer.\<close>

fun dec_digits :: "nat \<Rightarrow> ustr" where
  "dec_digits n = (if n < 10 then [48 + n] else dec_digits (n div 10) @ [48 + n mod 10])"

declare dec_digits.simps [simp del]

definition dec_str :: "int \<Rightarrow> ustr" where
  "dec_str i = (if i < 0 then 45 # dec_digits (nat (- i)) else dec_digits (nat i))"

end
