(* ===== verification/Docx_Model.thy ===== *)
theory Docx_Model
  imports Complex_Main Py_Text
begin

text \<open>
  What the document scripts ask of \<^verbatim>\<open>python-docx\<close>, which is not part of the repository. A document is
  the record of the calls made on it, in call order: the paragraphs, tables and page breaks added to
  the body, each with the attributes the script assigned and the runs it added, and the attributes
  assigned to styles and to the section. An attribute the script never assigned is \<^const>\<open>None\<close>.
  Lengths are rational: points for sizes and spacing, inches for widths and indents.
\<close>

datatype alignment = ALIGN_LEFT | ALIGN_RIGHT | ALIGN_CENTER

record run =
  rtext :: ustr
  rfont :: "string option"
  rsize :: "rat option"
  rcolor :: "string option"
  rbold :: "bool option"

record para =
  pstyle :: "string option"
  palign :: "alignment option"
  space_before :: "rat option"
  space_after :: "rat option"
  line_spacing :: "rat option"
  left_indent :: "rat option"
  right_indent :: "rat option"
  keep_with_next :: "bool option"
  keep_together :: "bool option"
  page_break_before :: "bool option"
  pshade :: "string option"
  pruns :: "run list"

record cell =
  cwidth :: "rat option"
  cdxa :: "int option"
  cvcenter :: bool
  cmargins :: "(string \<times> nat) list"
  cshade :: "string list"
  cpara :: para

record table =
  tstyle :: "string option"
  talign :: "alignment option"
  tautofit :: bool
  twidth :: "int option"
  tmargins :: "(string \<times> nat) list"
  tcols :: nat
  grid :: "int list"
  repeat_header :: bool
  trows :: "cell list list"

datatype body_item = Para para | Tbl table | Page_break

definition new_run :: "ustr \<Rightarrow> run" where
  "new_run t = \<lparr>rtext = t, rfont = None, rsize = None, rcolor = None, rbold = None\<rparr>"

definition new_para :: "string option \<Rightarrow> para" where
  "new_para st = \<lparr>pstyle = st, palign = None, space_before = None, space_after = None,
     line_spacing = None, left_indent = None, right_indent = None, keep_with_next = None,
     keep_together = None, page_break_before = None, pshade = None, pruns = []\<rparr>"

definition new_cell :: cell where
  "new_cell = \<lparr>cwidth = None, cdxa = None, cvcenter = False, cmargins = [], cshade = [],
     cpara = new_para None\<rparr>"

text \<open>\<^verbatim>\<open>document.add_table(rows, cols)\<close> with \<open>rows\<close> and \<open>cols\<close> filled in by the caller.\<close>

definition new_table :: "nat \<Rightarrow> table" where
  "new_table n = \<lparr>tstyle = None, talign = None, tautofit = True, twidth = None, tmargins = [],
     tcols = n, grid = [], repeat_header = False, trows = []\<rparr>"

text \<open>\<^verbatim>\<open>paragraph.add_run(text)\<close>: runs are kept in the order they are added.\<close>

definition add_run :: "para \<Rightarrow> run \<Rightarrow> para" where
  "add_run p r = p\<lparr>pruns := pruns p @ [r]\<rparr>"

text \<open>The text a reader sees in a paragraph, a cell, a table and a body.\<close>

definition para_text :: "para \<Rightarrow> ustr" where
  "para_text p = concat (map rtext (pruns p))"

definition cell_text :: "cell \<Rightarrow> ustr" where
  "cell_text c = para_text (cpara c)"

definition table_texts :: "table \<Rightarrow> ustr list list" where
  "table_texts t = map (map cell_text) (trows t)"

lemma para_text_simps [simp]:
  "para_text (new_para st) = []"
  "para_text (add_run p r) = para_text p @ rtext r"
  "rtext (new_run t) = t"
  "pruns (new_para st) = []"
  "pruns (add_run p r) = pruns p @ [r]"
  by (simp_all add: para_text_def new_para_def add_run_def new_run_def)

lemma para_text_update [simp]:
  "para_text (p\<lparr>pstyle := a\<rparr>) = para_text p"
  "para_text (p\<lparr>palign := b\<rparr>) = para_text p"
  "para_text (p\<lparr>space_before := c\<rparr>) = para_text p"
  "para_text (p\<lparr>space_after := c\<rparr>) = para_text p"
  "para_text (p\<lparr>line_spacing := c\<rparr>) = para_text p"
  "para_text (p\<lparr>left_indent := c\<rparr>) = para_text p"
  "para_text (p\<lparr>right_indent := c\<rparr>) = para_text p"
  "para_text (p\<lparr>keep_with_next := d\<rparr>) = para_text p"
  "para_text (p\<lparr>keep_together := d\<rparr>) = para_text p"
  "para_text (p\<lparr>page_break_before := d\<rparr>) = para_text p"
  "para_text (p\<lparr>pshade := e\<rparr>) = para_text p"
  by (simp_all add: para_text_def)

lemma table_update [simp]:
  "tcols (new_table n) = n" "trows (new_table n) = []"
  by (simp_all add: new_table_def)

end
