(* ===== verification/Md_Blocks.thy ===== *)
theory Md_Blocks
  imports Py_Text
begin

text \<open>
  The Markdown block parser of \<^verbatim>\<open>scripts/markdown_to_docx.py\<close> (\<^verbatim>\<open>parse_blocks\<close> and its three regular
  expressions), shared by both document scripts. The source walks an index over the list of lines;
  the model recurses on the suffix from that index. A line comes from \<^verbatim>\<open>str.splitlines\<close>.

  Main results: no line is lost, duplicated or reordered (\<open>md_blocks_lossless\<close>), every block is well
  formed (\<open>parse_wf_all\<close>), and parsing the canonical text of a list of well-formed blocks gives the
  blocks back (\<open>md_blocks_roundtrip\<close>).
\<close>

section \<open>Regular expressions\<close>

text \<open>The tail \<^verbatim>\<open>\s+(.*)$\<close> shared by the three expressions: at least one white-space character,
  then the group, which reaches the end of the text or a final newline; an inner newline is no match.
  The result is the group and what the match leaves.\<close>

definition rx_ws_tail :: "ustr \<Rightarrow> (ustr \<times> ustr) option" where
  "rx_ws_tail s =
     (let r = dropWhile is_space s
      in if s = [] \<or> \<not> is_space (hd s) then None
         else if 10 \<notin> set r then Some (r, [])
         else if 10 \<notin> set (butlast r) then Some (butlast r, [10])
         else None)"

definition HEADING_RE :: "ustr \<Rightarrow> (nat \<times> ustr) option" where
  "HEADING_RE s =
     (let k = length (takeWhile (\<lambda>c. c = 35) s)
      in if 1 \<le> k \<and> k \<le> 6 then map_option (\<lambda>(t, _). (k, t)) (rx_ws_tail (drop k s)) else None)"

definition BULLET_RE :: "ustr \<Rightarrow> (ustr \<times> ustr) option" where
  "BULLET_RE s =
     (case s of [] \<Rightarrow> None | c # cs \<Rightarrow> if c \<in> {45, 42, 43} then rx_ws_tail cs else None)"

definition NUMBER_RE :: "ustr \<Rightarrow> (ustr \<times> ustr) option" where
  "NUMBER_RE s =
     (let k = length (takeWhile is_digit s)
      in case drop k s of
           [] \<Rightarrow> None
         | c # cs \<Rightarrow> if 1 \<le> k \<and> c = 46 then rx_ws_tail cs else None)"

section \<open>Blocks\<close>

datatype block_kind = Code | Heading | Table | Bullet_list | Number_list | Paragraph

record md_block =
  kind :: block_kind
  blines :: "ustr list"

definition Block :: "block_kind \<Rightarrow> ustr list \<Rightarrow> md_block" where
  "Block k ls = \<lparr>kind = k, blines = ls\<rparr>"

lemma Block_simps [simp]: "kind (Block k ls) = k" "blines (Block k ls) = ls"
  by (simp_all add: Block_def)

definition fence :: "ustr \<Rightarrow> bool" where
  "fence s = startswith s (lit ''```'')"

definition pipe_line :: "ustr \<Rightarrow> bool" where
  "pipe_line s = startswith s (lit ''|'')"

text \<open>A table starts at a \<^verbatim>\<open>|\<close> line whose next line starts with \<^verbatim>\<open>|\<close> and holds \<^verbatim>\<open>---\<close>.\<close>

definition table_head :: "ustr \<Rightarrow> ustr list \<Rightarrow> bool" where
  "table_head s rest \<longleftrightarrow> pipe_line s \<and>
     (case rest of [] \<Rightarrow> False
      | n # _ \<Rightarrow> pipe_line (py_strip n) \<and> has_sub (lit ''---'') (py_strip n))"

definition para_break :: "ustr \<Rightarrow> ustr list \<Rightarrow> bool" where
  "para_break s rest \<longleftrightarrow> s = [] \<or> fence s \<or> HEADING_RE s \<noteq> None \<or> BULLET_RE s \<noteq> None \<or>
     NUMBER_RE s \<noteq> None \<or> table_head s rest"

fun para_lines :: "ustr list \<Rightarrow> ustr list" where
  "para_lines [] = []"
| "para_lines (c # cs) =
     (if para_break (py_strip c) cs then [] else py_strip c # para_lines cs)"

function parse_lines :: "ustr list \<Rightarrow> md_block list" where
  "parse_lines [] = []"
| "parse_lines (line # rest) =
     (let stripped = py_strip line in
      if stripped = [] then parse_lines rest
      else if fence stripped then
        Block Code (takeWhile (\<lambda>l. \<not> fence (py_strip l)) rest)
          # parse_lines (drop 1 (dropWhile (\<lambda>l. \<not> fence (py_strip l)) rest))
      else if HEADING_RE stripped \<noteq> None then Block Heading [stripped] # parse_lines rest
      else if table_head stripped rest then
        (let body = takeWhile (\<lambda>l. pipe_line (py_strip l)) (tl rest)
         in Block Table (stripped # py_strip (hd rest) # map py_strip body)
              # parse_lines (drop (length body) (tl rest)))
      else if BULLET_RE stripped \<noteq> None then
        (let more = takeWhile (\<lambda>l. BULLET_RE (py_strip l) \<noteq> None) rest
         in Block Bullet_list (stripped # map py_strip more) # parse_lines (drop (length more) rest))
      else if NUMBER_RE stripped \<noteq> None then
        (let more = takeWhile (\<lambda>l. NUMBER_RE (py_strip l) \<noteq> None) rest
         in Block Number_list (stripped # map py_strip more) # parse_lines (drop (length more) rest))
      else
        Block Paragraph (stripped # para_lines rest)
          # parse_lines (drop (length (para_lines rest)) rest))"
  by pat_completeness auto
termination
proof (relation "measure length", goal_cases)
  case (3 line rest x)
  have "length (dropWhile (\<lambda>l. \<not> fence (py_strip l)) rest) \<le> length rest"
    by (rule length_dropWhile_le)
  then show ?case by simp
qed (auto simp: table_head_def)

declare parse_lines.simps(2) [simp del]

definition parse_blocks :: "ustr \<Rightarrow> md_block list" where
  "parse_blocks text = parse_lines (splitlines text)"

section \<open>No line is lost\<close>

text \<open>The reference: a one-pass reader that only knows whether it is inside a code fence. Outside it
  keeps every non-blank line, stripped; inside it keeps every line as it is; fences are dropped.\<close>

fun kept_lines :: "bool \<Rightarrow> ustr list \<Rightarrow> ustr list" where
  "kept_lines _ [] = []"
| "kept_lines False (l # ls) =
     (if py_strip l = [] then kept_lines False ls
      else if fence (py_strip l) then kept_lines True ls
      else py_strip l # kept_lines False ls)"
| "kept_lines True (l # ls) =
     (if fence (py_strip l) then kept_lines False ls else l # kept_lines True ls)"

lemma fence_not_Nil [simp]: "\<not> fence []" "\<not> pipe_line []"
  by (simp_all add: fence_def pipe_line_def)

lemma pipe_line_not_fence: "pipe_line s \<Longrightarrow> \<not> fence s"
  by (cases s) (auto simp: pipe_line_def fence_def)

lemma BULLET_hd: "BULLET_RE s = Some t \<Longrightarrow> s \<noteq> [] \<and> hd s \<in> {45, 42, 43}"
  by (cases s) (auto simp: BULLET_RE_def split: if_splits)

lemma BULLET_not_fence: "BULLET_RE s = Some t \<Longrightarrow> s \<noteq> [] \<and> \<not> fence s"
  by (cases s) (auto simp: BULLET_RE_def fence_def split: if_splits)

lemma digit_not_backquote: "is_digit c \<Longrightarrow> c \<noteq> 96 \<and> c \<noteq> 124 \<and> c \<noteq> 35 \<and> c \<notin> {45, 42, 43}"
  by (auto simp: is_digit_def digit_zeros_def)

lemma NUMBER_hd: "NUMBER_RE s \<noteq> None \<Longrightarrow> s \<noteq> [] \<and> is_digit (hd s)"
  by (cases s) (auto simp: NUMBER_RE_def Let_def split: list.splits if_splits)

lemma NUMBER_not_fence: "NUMBER_RE s = Some t \<Longrightarrow> s \<noteq> [] \<and> \<not> fence s"
  using NUMBER_hd [of s] digit_not_backquote [of "hd s"] by (cases s) (auto simp: fence_def)

lemma kept_take:
  assumes "\<And>l. P l \<Longrightarrow> py_strip l \<noteq> [] \<and> \<not> fence (py_strip l)"
  shows "kept_lines False ls =
    map py_strip (takeWhile P ls) @ kept_lines False (drop (length (takeWhile P ls)) ls)"
  using assms by (induction ls) auto

lemma kept_code:
  "kept_lines True ls = takeWhile (\<lambda>l. \<not> fence (py_strip l)) ls @
     kept_lines False (drop 1 (dropWhile (\<lambda>l. \<not> fence (py_strip l)) ls))"
  by (induction ls) auto

lemma kept_para:
  "kept_lines False ls = para_lines ls @ kept_lines False (drop (length (para_lines ls)) ls)"
  by (induction ls) (auto simp: para_break_def)

lemma parse_keeps: "concat (map blines (parse_lines ls)) = kept_lines False ls"
proof (induction ls rule: parse_lines.induct)
  case (2 line rest)
  let ?s = "py_strip line"
  consider "?s = []" | "?s \<noteq> []" "fence ?s" | "?s \<noteq> []" "\<not> fence ?s" "HEADING_RE ?s \<noteq> None"
    | "?s \<noteq> []" "\<not> fence ?s" "HEADING_RE ?s = None" "table_head ?s rest"
    | "?s \<noteq> []" "\<not> fence ?s" "HEADING_RE ?s = None" "\<not> table_head ?s rest" "BULLET_RE ?s \<noteq> None"
    | "?s \<noteq> []" "\<not> fence ?s" "HEADING_RE ?s = None" "\<not> table_head ?s rest" "BULLET_RE ?s = None"
      "NUMBER_RE ?s \<noteq> None"
    | "?s \<noteq> []" "\<not> fence ?s" "HEADING_RE ?s = None" "\<not> table_head ?s rest" "BULLET_RE ?s = None"
      "NUMBER_RE ?s = None"
    by blast
  then show ?case
  proof cases
    case 1
    with 2(1) show ?thesis by (simp add: parse_lines.simps(2))
  next
    case 2
    with "2.IH"(2) kept_code [of rest] show ?thesis by (simp add: parse_lines.simps(2))
  next
    case 3
    with "2.IH"(3) show ?thesis by (simp add: parse_lines.simps(2))
  next
    case 4
    then obtain n ns where r: "rest = n # ns" "pipe_line (py_strip n)"
      by (auto simp: table_head_def split: list.splits)
    have k: "kept_lines False ns = map py_strip (takeWhile (\<lambda>l. pipe_line (py_strip l)) ns) @
        kept_lines False (drop (length (takeWhile (\<lambda>l. pipe_line (py_strip l)) ns)) ns)"
      by (rule kept_take) (auto dest: pipe_line_not_fence)
    from r have "py_strip n \<noteq> []" "\<not> fence (py_strip n)" by (auto dest: pipe_line_not_fence)
    with 4 r k "2.IH"(4) show ?thesis by (simp add: parse_lines.simps(2) Let_def)
  next
    case 5
    have "kept_lines False rest = map py_strip (takeWhile (\<lambda>l. BULLET_RE (py_strip l) \<noteq> None) rest) @
        kept_lines False (drop (length (takeWhile (\<lambda>l. BULLET_RE (py_strip l) \<noteq> None) rest)) rest)"
      by (rule kept_take) (auto dest: BULLET_not_fence)
    with 5 "2.IH"(5) show ?thesis by (simp add: parse_lines.simps(2) Let_def)
  next
    case 6
    have "kept_lines False rest = map py_strip (takeWhile (\<lambda>l. NUMBER_RE (py_strip l) \<noteq> None) rest) @
        kept_lines False (drop (length (takeWhile (\<lambda>l. NUMBER_RE (py_strip l) \<noteq> None) rest)) rest)"
      by (rule kept_take) (auto dest: NUMBER_not_fence)
    with 6 "2.IH"(6) show ?thesis by (simp add: parse_lines.simps(2) Let_def)
  next
    case 7
    with "2.IH"(7) kept_para [of rest] show ?thesis by (simp add: parse_lines.simps(2) Let_def)
  qed
qed simp


section \<open>Every block is well formed\<close>

definition clean :: "ustr \<Rightarrow> bool" where
  "clean s \<longleftrightarrow> py_strip s = s"

fun para_ok :: "ustr list \<Rightarrow> bool" where
  "para_ok [] = True"
| "para_ok (s # ss) = (\<not> para_break s ss \<and> para_ok ss)"

definition wf_block :: "md_block \<Rightarrow> bool" where
  "wf_block b =
     (case kind b of
        Code \<Rightarrow> list_all (\<lambda>l. \<not> fence (py_strip l)) (blines b)
      | Heading \<Rightarrow> length (blines b) = 1 \<and> list_all (\<lambda>s. clean s \<and> HEADING_RE s \<noteq> None) (blines b)
      | Table \<Rightarrow> 2 \<le> length (blines b) \<and> has_sub (lit ''---'') (blines b ! 1) \<and>
                 list_all (\<lambda>s. clean s \<and> pipe_line s) (blines b)
      | Bullet_list \<Rightarrow> blines b \<noteq> [] \<and> list_all (\<lambda>s. clean s \<and> BULLET_RE s \<noteq> None) (blines b)
      | Number_list \<Rightarrow> blines b \<noteq> [] \<and> list_all (\<lambda>s. clean s \<and> NUMBER_RE s \<noteq> None) (blines b)
      | Paragraph \<Rightarrow> blines b \<noteq> [] \<and> list_all clean (blines b) \<and> para_ok (blines b))"

lemma clean_strip [simp]: "clean (py_strip s)"
  by (simp add: clean_def py_strip_idem)

lemma table_head_strip: "table_head s (map py_strip ls) = table_head s ls"
  by (cases ls) (auto simp: table_head_def py_strip_idem)

lemma table_head_cong: "ys \<noteq> [] \<or> \<not> table_head s xs \<Longrightarrow> take 1 ys = map py_strip (take 1 xs) \<or> ys = [] \<Longrightarrow>
    \<not> table_head s xs \<Longrightarrow> \<not> table_head s ys"
  by (cases xs; cases ys) (auto simp: table_head_def py_strip_idem)

lemma para_lines_Cons: "take 1 (para_lines ls) = map py_strip (take 1 ls) \<or> para_lines ls = []"
  by (cases ls) auto

lemma para_break_lines: "\<not> para_break s ls \<Longrightarrow> \<not> para_break s (para_lines ls)"
  using table_head_cong [of "para_lines ls" s ls] para_lines_Cons [of ls]
  by (auto simp: para_break_def)

lemma para_lines_ok: "para_ok (para_lines ls) \<and> list_all clean (para_lines ls)"
  by (induction ls) (auto simp: para_break_lines)

lemma list_all_takeWhile: "(\<And>l. P l \<Longrightarrow> Q (f l)) \<Longrightarrow> list_all Q (map f (takeWhile P ls))"
  by (induction ls) auto

lemma parse_wf_all: "list_all wf_block (parse_lines ls)"
proof (induction ls rule: parse_lines.induct)
  case (2 line rest)
  let ?s = "py_strip line"
  consider "?s = []" | "?s \<noteq> []" "fence ?s" | "?s \<noteq> []" "\<not> fence ?s" "HEADING_RE ?s \<noteq> None"
    | "?s \<noteq> []" "\<not> fence ?s" "HEADING_RE ?s = None" "table_head ?s rest"
    | "?s \<noteq> []" "\<not> fence ?s" "HEADING_RE ?s = None" "\<not> table_head ?s rest" "BULLET_RE ?s \<noteq> None"
    | "?s \<noteq> []" "\<not> fence ?s" "HEADING_RE ?s = None" "\<not> table_head ?s rest" "BULLET_RE ?s = None"
      "NUMBER_RE ?s \<noteq> None"
    | "?s \<noteq> []" "\<not> fence ?s" "HEADING_RE ?s = None" "\<not> table_head ?s rest" "BULLET_RE ?s = None"
      "NUMBER_RE ?s = None"
    by blast
  then show ?case
  proof cases
    case 1
    with 2(1) show ?thesis by (simp add: parse_lines.simps(2))
  next
    case 2
    with "2.IH"(2) show ?thesis
      using list_all_takeWhile [of "\<lambda>l. \<not> fence (py_strip l)" "\<lambda>l. \<not> fence (py_strip l)" id rest]
      by (simp add: parse_lines.simps(2) wf_block_def)
  next
    case 3
    with "2.IH"(3) show ?thesis by (simp add: parse_lines.simps(2) wf_block_def)
  next
    case 4
    then obtain n ns where r: "rest = n # ns" "pipe_line (py_strip n)" "pipe_line ?s"
        "has_sub (lit ''---'') (py_strip n)"
      by (auto simp: table_head_def split: list.splits)
    have "list_all (\<lambda>s. clean s \<and> pipe_line s)
        (map py_strip (takeWhile (\<lambda>l. pipe_line (py_strip l)) ns))"
      by (rule list_all_takeWhile) simp
    with 4 r "2.IH"(4) show ?thesis
      by (simp add: parse_lines.simps(2) Let_def wf_block_def del: lit_simps)
  next
    case 5
    have "list_all (\<lambda>s. clean s \<and> BULLET_RE s \<noteq> None)
        (map py_strip (takeWhile (\<lambda>l. BULLET_RE (py_strip l) \<noteq> None) rest))"
      by (rule list_all_takeWhile) simp
    with 5 "2.IH"(5) show ?thesis by (simp add: parse_lines.simps(2) Let_def wf_block_def)
  next
    case 6
    have "list_all (\<lambda>s. clean s \<and> NUMBER_RE s \<noteq> None)
        (map py_strip (takeWhile (\<lambda>l. NUMBER_RE (py_strip l) \<noteq> None) rest))"
      by (rule list_all_takeWhile) simp
    with 6 "2.IH"(6) show ?thesis by (simp add: parse_lines.simps(2) Let_def wf_block_def)
  next
    case 7
    then have "\<not> para_break ?s (para_lines rest)"
      by (intro para_break_lines) (simp add: para_break_def)
    with 7 "2.IH"(7) para_lines_ok [of rest] show ?thesis
      by (simp add: parse_lines.simps(2) Let_def wf_block_def)
  qed
qed simp

section \<open>Canonical text\<close>

definition unparse_block :: "md_block \<Rightarrow> ustr list" where
  "unparse_block b =
     (if kind b = Code then [lit ''```''] @ blines b @ [lit ''```''] else blines b) @ [[]]"

definition unparse_lines :: "md_block list \<Rightarrow> ustr list" where
  "unparse_lines bs = concat (map unparse_block bs)"

definition unparse :: "md_block list \<Rightarrow> ustr" where
  "unparse bs = concat (map (\<lambda>l. l @ [10]) (unparse_lines bs))"

lemma strip_fence [simp]: "py_strip (lit ''```'') = lit ''```''" "fence (lit ''```'')"
  by (simp_all add: py_strip_def strip_by_def is_space_def fence_def)

lemma py_strip_Nil [simp]: "py_strip [] = []"
  by (simp add: py_strip_def)

lemma RE_Nil [simp]: "BULLET_RE [] = None" "NUMBER_RE [] = None" "HEADING_RE [] = None"
  by (simp_all add: BULLET_RE_def NUMBER_RE_def HEADING_RE_def Let_def)

lemma pipe_line_hd: "pipe_line s \<Longrightarrow> s \<noteq> [] \<and> hd s = 124"
  by (cases s) (auto simp: pipe_line_def)

lemma HEADING_hd: "HEADING_RE s = Some r \<Longrightarrow> s \<noteq> [] \<and> hd s = 35"
  by (cases s) (auto simp: HEADING_RE_def Let_def split: if_splits)

lemma HEADING_not_fence: "HEADING_RE s = Some t \<Longrightarrow> s \<noteq> [] \<and> \<not> fence s"
  using HEADING_hd [of s t] by (cases s) (auto simp: fence_def)

lemma list_kinds_exclusive:
  "pipe_line s \<Longrightarrow> HEADING_RE s = None"
  "BULLET_RE s = Some t \<Longrightarrow> HEADING_RE s = None \<and> \<not> pipe_line s"
  "NUMBER_RE s = Some t \<Longrightarrow> HEADING_RE s = None \<and> \<not> pipe_line s \<and> BULLET_RE s = None"
proof -
  show "HEADING_RE s = None" if "pipe_line s"
    using pipe_line_hd [OF that] HEADING_hd [of s] by (cases "HEADING_RE s") auto
  show "HEADING_RE s = None \<and> \<not> pipe_line s" if "BULLET_RE s = Some t"
    using BULLET_hd [OF that] pipe_line_hd [of s] HEADING_hd [of s]
    by (cases "HEADING_RE s") auto
  show "HEADING_RE s = None \<and> \<not> pipe_line s \<and> BULLET_RE s = None" if "NUMBER_RE s = Some t"
    using NUMBER_hd [of s] that digit_not_backquote [of "hd s"] pipe_line_hd [of s] HEADING_hd [of s]
      BULLET_hd [of s]
    by (cases "HEADING_RE s"; cases "BULLET_RE s") auto
qed

lemma takeWhile_clean:
  "list_all (\<lambda>s. clean s \<and> P s) ls \<Longrightarrow> \<not> P [] \<Longrightarrow>
     takeWhile (\<lambda>l. P (py_strip l)) (ls @ [] # rest) = ls"
  by (induction ls) (auto simp: clean_def)

lemma map_strip_clean: "list_all (\<lambda>s. clean s \<and> P s) ls \<Longrightarrow> map py_strip ls = ls"
  by (induction ls) (auto simp: clean_def)

lemma parse_lines_blank [simp]: "parse_lines ([] # rest) = parse_lines rest"
  by (simp add: parse_lines.simps(2))

lemma para_break_blank:
  "list_all clean ss \<Longrightarrow> para_break s (ss @ [] # rest) = para_break s ss"
  by (cases ss) (auto simp: para_break_def table_head_def clean_def)

lemma para_lines_blank:
  "list_all clean ss \<Longrightarrow> para_ok ss \<Longrightarrow> para_lines (ss @ [] # rest) = ss"
  by (induction ss) (auto simp: para_break_def [of "[]"] para_break_blank clean_def)

lemma takeWhile_not_fence:
  "list_all (\<lambda>l. \<not> fence (py_strip l)) ls \<Longrightarrow>
     takeWhile (\<lambda>l. \<not> fence (py_strip l)) (ls @ lit ''```'' # r) = ls \<and>
     dropWhile (\<lambda>l. \<not> fence (py_strip l)) (ls @ lit ''```'' # r) = lit ''```'' # r"
  by (induction ls) (auto simp del: lit_simps)

lemma parse_unparse_block:
  assumes "wf_block b"
  shows "parse_lines (unparse_block b @ rest) = b # parse_lines rest"
proof -
  have b: "Block k (blines b) = b" if "kind b = k" for k using that by (auto simp: Block_def)
  have ne: "lit ''```'' \<noteq> []" by simp
  show ?thesis
  proof (cases "kind b")
    case Code
    with assms have "list_all (\<lambda>l. \<not> fence (py_strip l)) (blines b)" by (simp add: wf_block_def)
    from takeWhile_not_fence [OF this] Code ne b [OF Code] show ?thesis
      by (simp add: unparse_block_def parse_lines.simps(2) Let_def del: lit_simps)
  next
    case Heading
    with assms obtain s where s: "blines b = [s]" "clean s" "HEADING_RE s \<noteq> None"
      by (auto simp: wf_block_def length_Suc_conv)
    then have "s \<noteq> []" "\<not> fence s" by (auto dest: HEADING_not_fence)
    with s Heading b [OF Heading] show ?thesis by (simp add: unparse_block_def parse_lines.simps(2) clean_def)
  next
    case Table
    then obtain h d body where l: "blines b = h # d # body"
      using assms by (auto simp: wf_block_def numeral_2_eq_2 Suc_le_length_iff)
    with assms Table have w: "clean h" "clean d" "pipe_line h" "pipe_line d"
        "list_all (\<lambda>s. clean s \<and> pipe_line s) body" "has_sub (lit ''---'') d"
      by (auto simp: wf_block_def simp del: lit_simps)
    then have "h \<noteq> []" "\<not> fence h" "HEADING_RE h = None"
      by (auto dest: pipe_line_not_fence list_kinds_exclusive(1))
    moreover have "takeWhile (\<lambda>l. pipe_line (py_strip l)) (body @ [] # rest) = body"
      using w(5) by (rule takeWhile_clean) simp
    ultimately show ?thesis using l w Table b [OF Table] map_strip_clean [OF w(5)]
      by (simp add: unparse_block_def parse_lines.simps(2) clean_def table_head_def Let_def
            del: lit_simps)
  next
    case Bullet_list
    then obtain h body where l: "blines b = h # body"
      using assms by (auto simp: wf_block_def neq_Nil_conv)
    with assms Bullet_list have w: "clean h" "BULLET_RE h \<noteq> None"
        "list_all (\<lambda>s. clean s \<and> BULLET_RE s \<noteq> None) body"
      by (auto simp: wf_block_def)
    then have "h \<noteq> []" "\<not> fence h" "HEADING_RE h = None" "\<not> pipe_line h"
      by (auto dest: BULLET_not_fence list_kinds_exclusive(2))
    moreover have "takeWhile (\<lambda>l. BULLET_RE (py_strip l) \<noteq> None) (body @ [] # rest) = body"
      using w(3) by (rule takeWhile_clean) simp
    ultimately show ?thesis using l w Bullet_list b [OF Bullet_list] map_strip_clean [OF w(3)]
      by (simp add: unparse_block_def parse_lines.simps(2) clean_def table_head_def Let_def)
  next
    case Number_list
    then obtain h body where l: "blines b = h # body"
      using assms by (auto simp: wf_block_def neq_Nil_conv)
    with assms Number_list have w: "clean h" "NUMBER_RE h \<noteq> None"
        "list_all (\<lambda>s. clean s \<and> NUMBER_RE s \<noteq> None) body"
      by (auto simp: wf_block_def)
    then have "h \<noteq> []" "\<not> fence h" "HEADING_RE h = None" "\<not> pipe_line h" "BULLET_RE h = None"
      by (auto dest: NUMBER_not_fence list_kinds_exclusive(3))
    moreover have "takeWhile (\<lambda>l. NUMBER_RE (py_strip l) \<noteq> None) (body @ [] # rest) = body"
      using w(3) by (rule takeWhile_clean) simp
    ultimately show ?thesis using l w Number_list b [OF Number_list] map_strip_clean [OF w(3)]
      by (simp add: unparse_block_def parse_lines.simps(2) clean_def table_head_def Let_def)
  next
    case Paragraph
    then obtain h body where l: "blines b = h # body"
      using assms by (auto simp: wf_block_def neq_Nil_conv)
    with assms Paragraph have w: "clean h" "list_all clean body" "\<not> para_break h body" "para_ok body"
      by (auto simp: wf_block_def)
    moreover have "\<not> para_break h (body @ [] # rest)" using w by (simp add: para_break_blank)
    ultimately show ?thesis using l Paragraph b [OF Paragraph] para_lines_blank [OF w(2,4), of rest]
      by (simp add: unparse_block_def parse_lines.simps(2) clean_def para_break_def Let_def)
  qed
qed

lemma parse_unparse_lines: "list_all wf_block bs \<Longrightarrow> parse_lines (unparse_lines bs) = bs"
  unfolding unparse_lines_def by (induction bs) (simp_all add: parse_unparse_block)

section \<open>Line splitting\<close>

definition one_line :: "ustr \<Rightarrow> bool" where
  "one_line l \<longleftrightarrow> list_all (\<lambda>c. \<not> is_linebreak c) l"

lemma split_lines_one_line:
  "l \<in> set (split_lines_from acc s) \<Longrightarrow> one_line acc \<Longrightarrow> one_line l"
  by (induction acc s rule: split_lines_from.induct) (auto simp: one_line_def split: if_splits)

lemma split_lines_step:
  "one_line l \<Longrightarrow> split_lines_from acc (l @ 10 # s) = (acc @ l) # split_lines_from [] s"
proof (induction l arbitrary: acc)
  case Nil
  show ?case by (cases s) (auto simp: is_linebreak_def)
next
  case (Cons c cs)
  obtain d ds where d: "cs @ 10 # s = d # ds" by (cases cs) auto
  from Cons.prems have "\<not> is_linebreak c" "one_line cs" by (auto simp: one_line_def)
  moreover from this have "c \<noteq> 13" by (auto simp: is_linebreak_def)
  ultimately show ?case using Cons.IH [of "acc @ [c]"] d by simp
qed

lemma splitlines_unlines: "list_all one_line ls \<Longrightarrow> splitlines (concat (map (\<lambda>l. l @ [10]) ls)) = ls"
  unfolding splitlines_def by (induction ls) (auto simp: split_lines_step)

lemma set_kept_lines: "l \<in> set (kept_lines b ls) \<Longrightarrow> \<exists>m \<in> set ls. l = m \<or> l = py_strip m"
  by (induction b ls rule: kept_lines.induct) (auto split: if_splits)

lemma one_line_strip: "one_line m \<Longrightarrow> one_line (py_strip m)"
  using set_strip_by [of is_space m] by (auto simp: one_line_def list_all_iff py_strip_def)

lemma parse_blocks_one_line: "b \<in> set (parse_blocks t) \<Longrightarrow> list_all one_line (blines b)"
proof (unfold list_all_iff, intro ballI)
  fix l assume "b \<in> set (parse_blocks t)" "l \<in> set (blines b)"
  then have "l \<in> set (concat (map blines (parse_blocks t)))" by auto
  then have "l \<in> set (kept_lines False (splitlines t))" by (simp add: parse_blocks_def parse_keeps)
  then obtain m where m: "m \<in> set (splitlines t)" "l = m \<or> l = py_strip m"
    using set_kept_lines by blast
  then have "one_line m"
    using split_lines_one_line [of m "[]" t] by (simp add: splitlines_def one_line_def)
  with m show "one_line l" by (auto intro: one_line_strip)
qed

lemma unparse_one_line: "list_all (\<lambda>b. list_all one_line (blines b)) bs \<Longrightarrow> list_all one_line (unparse_lines bs)"
  by (induction bs) (auto simp: unparse_lines_def unparse_block_def one_line_def is_linebreak_def)

lemma parse_blocks_unparse:
  "list_all wf_block bs \<Longrightarrow> list_all (\<lambda>b. list_all one_line (blines b)) bs \<Longrightarrow>
     parse_blocks (unparse bs) = bs"
  by (simp add: parse_blocks_def unparse_def splitlines_unlines unparse_one_line parse_unparse_lines)

section \<open>Properties\<close>

text \<open>C29. Parsing is lossless: the lines of the parsed blocks, in order, are exactly the lines a one-pass
  reader keeps (every non-blank line outside code fences, stripped, and every line inside a fence as it
  is), and every block the parser returns is well formed for its kind.\<close>

theorem md_blocks_lossless:
  "concat (map blines (parse_blocks text)) = kept_lines False (splitlines text)
   \<and> list_all wf_block (parse_blocks text)"
  by (simp add: parse_blocks_def parse_keeps parse_wf_all)

text \<open>Round trip: the parser reads the canonical text of any list of well-formed blocks back as that
  list. Blocks of the same kind that follow each other stay separate, code may hold any line that is not
  a fence, and what the parser returns is always such a list.\<close>

theorem md_blocks_roundtrip:
  "list_all wf_block bs \<Longrightarrow> list_all (\<lambda>b. list_all one_line (blines b)) bs \<Longrightarrow> parse_blocks (unparse bs) = bs"
  by (rule parse_blocks_unparse)

definition sample_blocks :: "md_block list" where
  "sample_blocks =
     [Block Heading [lit ''# T''], Block Paragraph [lit ''one'', lit ''two''],
      Block Bullet_list [lit ''- a'', lit ''* b''], Block Number_list [lit ''1. x''],
      Block Code [lit ''  code'', [], lit ''# no heading''],
      Block Table [lit ''| a | b |'', lit ''|---|---|'', lit ''| 1 | 2 |'']]"

theorem md_blocks_roundtrip_witness: "parse_blocks (unparse sample_blocks) = sample_blocks"
proof (rule md_blocks_roundtrip)
  show "list_all wf_block sample_blocks"
    by (simp add: sample_blocks_def wf_block_def clean_def py_strip_def strip_by_def is_space_def HEADING_RE_def
        BULLET_RE_def NUMBER_RE_def rx_ws_tail_def is_digit_def digit_zeros_def fence_def pipe_line_def
        para_break_def table_head_def)
  show "list_all (\<lambda>b. list_all one_line (blines b)) sample_blocks"
    by (simp add: sample_blocks_def one_line_def is_linebreak_def)
qed

end
