(* ===== verification/Md_Docx.thy ===== *)
theory Md_Docx
  imports Docx_Model Md_Blocks
begin

text \<open>
  The renderer of \<^verbatim>\<open>scripts/markdown_to_docx.py\<close>: inline markup, headings, paragraphs, lists, code,
  tables with computed column widths, and the driver \<^verbatim>\<open>build_docx\<close>. Column widths are computed in
  exact arithmetic where the source uses floating point. A document is the record of the calls the script makes on it
  (\<open>Docx_Model\<close>); an exception raised by such a call is not modelled. Reading the Markdown file and saving the document
  may fail.
\<close>

section \<open>Inline markup\<close>

text \<open>\<^verbatim>\<open>re.split\<close> with one capturing group alternates plain text and matches. A match of
  \<^verbatim>\<open>\*\*.*?\*\*\<close> or \<^verbatim>\<open>`.*?`\<close> is lazy and never crosses a newline; \<open>lazy_until d s\<close> is the text before
  the first \<open>d\<close>, and the rest after it.\<close>

fun lazy_until :: "ustr \<Rightarrow> ustr \<Rightarrow> (ustr \<times> ustr) option" where
  "lazy_until d [] = None"
| "lazy_until d (c # cs) =
     (if startswith (c # cs) d then Some ([], drop (length d) (c # cs))
      else if c = 10 then None
      else map_option (\<lambda>(b, r). (c # b, r)) (lazy_until d cs))"

definition inline_match :: "ustr \<Rightarrow> (ustr \<times> ustr) option" where
  "inline_match s =
     (if startswith s (lit ''**'') then
        map_option (\<lambda>(b, r). (lit ''**'' @ b @ lit ''**'', r)) (lazy_until (lit ''**'') (drop 2 s))
      else if startswith s (lit ''`'') then
        map_option (\<lambda>(b, r). (lit ''`'' @ b @ lit ''`'', r)) (lazy_until (lit ''`'') (drop 1 s))
      else None)"

lemma lazy_until_Some:
  "lazy_until d s = Some (b, r) \<Longrightarrow> s = b @ d @ r"
  by (induction d s arbitrary: b r rule: lazy_until.induct)
     (auto split: if_splits simp: startswith_iff)

lemma inline_match_Some: "inline_match s = Some (m, r) \<Longrightarrow> s = m @ r \<and> m \<noteq> []"
  unfolding inline_match_def
  by (auto split: if_splits dest!: lazy_until_Some simp: startswith_iff simp del: lit_simps)
     (auto simp: lit_def)

lemma inline_match_shorter: "inline_match s = Some (m, r) \<Longrightarrow> length r < length s"
  by (drule inline_match_Some) (cases m, auto)

function re_split_from :: "ustr \<Rightarrow> ustr \<Rightarrow> ustr list" where
  "re_split_from acc [] = [acc]"
| "re_split_from acc (c # cs) =
     (case inline_match (c # cs) of
        Some (m, r) \<Rightarrow> acc # m # re_split_from [] r
      | None \<Rightarrow> re_split_from (acc @ [c]) cs)"
  by pat_completeness auto
termination
  by (relation "measure (\<lambda>(acc, s). length s)") (auto dest: inline_match_shorter)

definition re_split_inline :: "ustr \<Rightarrow> ustr list" where
  "re_split_inline text = re_split_from [] text"

definition apply_run_font :: "run \<Rightarrow> string \<Rightarrow> rat \<Rightarrow> string option \<Rightarrow> run" where
  "apply_run_font r font_name font_size color =
     r\<lparr>rfont := Some font_name, rsize := Some font_size,
       rcolor := (case color of None \<Rightarrow> rcolor r
                  | Some c \<Rightarrow> if c = [] then rcolor r else Some (filter (\<lambda>x. x \<noteq> CHR ''#'') c))\<rparr>"

definition inline_run :: "string \<Rightarrow> rat \<Rightarrow> ustr \<Rightarrow> run" where
  "inline_run font_name font_size part =
     (if startswith part (lit ''**'') \<and> endswith part (lit ''**'') then
        (apply_run_font (new_run (py_slice part 2 (-2))) font_name font_size None)\<lparr>rbold := Some True\<rparr>
      else if startswith part (lit ''`'') \<and> endswith part (lit ''`'') then
        apply_run_font (new_run (py_slice part 1 (-1))) ''Consolas'' (font_size - 1/2) None
      else apply_run_font (new_run part) font_name font_size None)"

definition add_inline_runs :: "para \<Rightarrow> ustr \<Rightarrow> string \<Rightarrow> rat \<Rightarrow> para" where
  "add_inline_runs p text font_name font_size =
     foldl (\<lambda>p part. if part = [] then p else add_run p (inline_run font_name font_size part))
       p (re_split_inline text)"

section \<open>Headings, paragraphs, lists and code\<close>

definition add_title :: "ustr \<Rightarrow> body_item" where
  "add_title title =
     Para (add_run ((new_para None)\<lparr>palign := Some ALIGN_LEFT, space_before := Some 0,
                                     space_after := Some 10\<rparr>)
       ((apply_run_font (new_run title) ''Calibri'' 22 (Some ''17365D''))\<lparr>rbold := Some True\<rparr>))"

definition heading_style :: "nat \<Rightarrow> string" where
  "heading_style level = (if level = 1 then ''Heading 1'' else if level = 2 then ''Heading 2'' else ''Heading 3'')"

definition render_heading :: "body_item list \<Rightarrow> ustr \<Rightarrow> bool \<Rightarrow> body_item list \<times> bool" where
  "render_heading doc line title_done =
     (case HEADING_RE line of
        None \<Rightarrow> (doc, title_done)
      | Some (level, g) \<Rightarrow>
          (let text = py_strip g in
           if level = 1 \<and> \<not> title_done then (doc @ [add_title text], True)
           else (doc @ [Para (add_run (new_para (Some (heading_style (if level > 3 then 3 else level))))
                               (new_run text))], title_done)))"

definition render_paragraph :: "ustr list \<Rightarrow> body_item" where
  "render_paragraph ls =
     Para (add_inline_runs ((new_para (Some ''Normal''))\<lparr>palign := Some ALIGN_LEFT\<rparr>)
             (join (lit '' '') (map py_strip ls)) ''Calibri'' 11)"

text \<open>\<^verbatim>\<open>RE.sub(r"\1", line)\<close> for an expression anchored at the start: the match gives way to its group,
  what it leaves is kept.\<close>

definition rx_sub :: "(ustr \<Rightarrow> (ustr \<times> ustr) option) \<Rightarrow> ustr \<Rightarrow> ustr" where
  "rx_sub re line = (case re line of None \<Rightarrow> line | Some (g, left) \<Rightarrow> g @ left)"

definition list_item :: "bool \<Rightarrow> ustr \<Rightarrow> body_item" where
  "list_item numbered line =
     Para (add_inline_runs
       ((new_para (Some (if numbered then ''List Number'' else ''List Bullet'')))
          \<lparr>space_after := Some 4, line_spacing := Some (115/100)\<rparr>)
       (if numbered then rx_sub NUMBER_RE line else rx_sub BULLET_RE line) ''Calibri'' 11)"

definition render_list :: "ustr list \<Rightarrow> bool \<Rightarrow> body_item list" where
  "render_list ls numbered = map (list_item numbered) ls"

definition code_line :: "nat \<Rightarrow> ustr \<Rightarrow> body_item" where
  "code_line idx line =
     Para (add_run ((new_para None)\<lparr>space_before := Some (if idx \<noteq> 0 then 0 else 4),
              space_after := Some 0, left_indent := Some (1/5), right_indent := Some (1/5)\<rparr>)
       (apply_run_font (new_run (if line \<noteq> [] then line else lit '' '')) ''Consolas'' (19/2) None))"

definition render_code :: "ustr list \<Rightarrow> body_item list" where
  "render_code ls = map (\<lambda>(i, l). code_line i l) (enumerate 0 ls)"

section \<open>Tables\<close>

definition normalize_table_line :: "ustr \<Rightarrow> ustr list" where
  "normalize_table_line line =
     map py_strip (split_on 124 (strip_by (\<lambda>c. c = 124) (py_strip line)))"

text \<open>One pass of the inner loop over a row: \<^verbatim>\<open>weights[idx] = max(weights[idx], max(len(cell), 6))\<close>.\<close>

fun weigh_row :: "nat \<Rightarrow> nat list \<Rightarrow> ustr list \<Rightarrow> nat list" where
  "weigh_row lo (w # ws) (c # cs) = max w (max (length c) lo) # weigh_row lo ws cs"
| "weigh_row lo ws _ = ws"

definition col_count :: "ustr list list \<Rightarrow> nat" where
  "col_count rows = fold max (map length rows) 0"

definition column_weights :: "ustr list list \<Rightarrow> nat list" where
  "column_weights rows = foldl (weigh_row 6) (replicate (col_count rows) 0) rows"

definition compute_column_widths :: "ustr list list \<Rightarrow> rat \<Rightarrow> rat list res" where
  "compute_column_widths rows total_width =
     (if rows = [] then Inl (ValueError ''max() arg is an empty sequence'')
      else let weights = column_weights rows;
               total_weight = (if sum_list weights \<noteq> 0 then sum_list weights else col_count rows)
           in Inr (map (\<lambda>w. total_width * of_nat w / of_nat total_weight) weights))"

text \<open>\<^verbatim>\<open>set_table_cell_margins\<close> finds or adds one element per side and sets its width.\<close>

definition set_table_cell_margins :: "table \<Rightarrow> table" where
  "set_table_cell_margins t =
     t\<lparr>tmargins := [(''top'', 80), (''start'', 120), (''bottom'', 80), (''end'', 120)]\<rparr>"

definition set_cell_text :: "cell \<Rightarrow> ustr \<Rightarrow> bool \<Rightarrow> cell" where
  "set_cell_text c text bold =
     c\<lparr>cvcenter := True, cpara := add_run ((new_para None)\<lparr>palign := Some ALIGN_LEFT\<rparr>)
        ((new_run text)\<lparr>rbold := Some bold, rfont := Some ''Calibri'', rsize := Some (21/2)\<rparr>)\<rparr>"

definition header_cell :: "rat list \<Rightarrow> nat \<Rightarrow> ustr \<Rightarrow> cell" where
  "header_cell widths idx header =
     (set_cell_text (new_cell\<lparr>cwidth := Some (widths ! idx)\<rparr>) header True)\<lparr>cshade := [''E8EEF5'']\<rparr>"

definition data_cell :: "rat list \<Rightarrow> ustr list \<Rightarrow> nat \<Rightarrow> cell" where
  "data_cell widths data idx =
     set_cell_text (new_cell\<lparr>cwidth := Some (widths ! idx)\<rparr>) (if idx < length data then data ! idx else []) False"

definition render_table :: "ustr list \<Rightarrow> body_item list res" where
  "render_table ls =
     (case map normalize_table_line ls of
        [] \<Rightarrow> Inl IndexError
      | headers # lines \<Rightarrow>
          (let data_rows = drop 1 lines; cols = length headers
           in bindR (compute_column_widths (headers # data_rows) (13/2)) (\<lambda>widths.
                Inr [Tbl ((set_table_cell_margins
                             ((new_table cols)\<lparr>tstyle := Some ''Table Grid'', tautofit := False,
                                               talign := Some ALIGN_LEFT\<rparr>))
                          \<lparr>trows := map (\<lambda>(i, h). header_cell widths i h) (enumerate 0 headers)
                            # map (\<lambda>data. map (data_cell widths data) [0..<cols]) data_rows\<rparr>),
                     Para (new_para None)])))"

section \<open>The driver\<close>

definition render_block :: "body_item list \<times> bool \<Rightarrow> md_block \<Rightarrow> (body_item list \<times> bool) res" where
  "render_block st b =
     (case st of (doc, title_done) \<Rightarrow>
      (case kind b of
         Heading \<Rightarrow> (case blines b of [] \<Rightarrow> Inl IndexError
                      | l # _ \<Rightarrow> Inr (render_heading doc l title_done))
       | Paragraph \<Rightarrow> Inr (doc @ [render_paragraph (blines b)], title_done)
       | Bullet_list \<Rightarrow> Inr (doc @ render_list (blines b) False, title_done)
       | Number_list \<Rightarrow> Inr (doc @ render_list (blines b) True, title_done)
       | Code \<Rightarrow> Inr (doc @ render_code (blines b), title_done)
       | Table \<Rightarrow> bindR (render_table (blines b)) (\<lambda>items. Inr (doc @ items, title_done))))"

fun render_all :: "body_item list \<times> bool \<Rightarrow> md_block list \<Rightarrow> (body_item list \<times> bool) res" where
  "render_all st [] = Inr st"
| "render_all st (b # bs) = bindR (render_block st b) (\<lambda>st'. render_all st' bs)"

text \<open>\<open>read_text\<close> is what reading the file gives, \<open>save\<close> what saving a document (and making its directory) does.\<close>

definition build_docx :: "ustr res \<Rightarrow> (body_item list \<Rightarrow> unit res) \<Rightarrow> body_item list res" where
  "build_docx read_text save =
     bindR read_text (\<lambda>text.
     bindR (render_all ([], False) (parse_blocks text)) (\<lambda>(doc, _). bindR (save doc) (\<lambda>_. Inr doc)))"

section \<open>Inline markup keeps the text\<close>

lemma re_split_from_concat: "concat (re_split_from acc s) = acc @ s"
  by (induction acc s rule: re_split_from.induct)
     (auto split: option.splits prod.splits dest: inline_match_Some)

text \<open>The Markdown a run came from: bold runs between \<^verbatim>\<open>**\<close>, code runs between backquotes.\<close>

definition run_source :: "run \<Rightarrow> ustr" where
  "run_source r = (if rbold r = Some True then lit ''**'' @ rtext r @ lit ''**''
                   else if rfont r = Some ''Consolas'' then lit ''`'' @ rtext r @ lit ''`''
                   else rtext r)"

text \<open>A part that is only half a marker pair.\<close>

definition lone_marker :: "ustr \<Rightarrow> bool" where
  "lone_marker p \<longleftrightarrow> p = lit ''**'' \<or> p = lit ''***'' \<or> p = lit ''`''"

lemma py_slice_trim:
  assumes "k + k \<le> length s" "0 < k"
  shows "py_slice s (int k) (- int k) = take (length s - k - k) (drop k s)"
  using assms by (simp add: py_slice_def py_index_def nat_diff_distrib)

lemma trim_decompose:
  assumes "startswith s p" "endswith s p" "length p = k" "k + k \<le> length s" "0 < k"
  shows "s = p @ py_slice s (int k) (- int k) @ p"
proof -
  obtain r where r: "s = p @ r" using assms(1) by (auto simp: startswith_iff)
  obtain q where q: "s = q @ p" using assms(2) by (auto simp: endswith_iff)
  have lq: "length q = length s - k" "k \<le> length q" using q assms(3,4) by auto
  have "take k q = take k (q @ p)" using lq by simp
  also have "\<dots> = p" using r q assms(3) by (metis append_eq_conv_conj)
  finally have pd: "p @ drop k q = q" by (metis append_take_drop_id)
  have "drop k q = take (length s - k - k) (drop k s)"
    using q lq by simp
  with py_slice_trim [OF assms(4,5)] have "py_slice s (int k) (- int k) = drop k q" by simp
  then have "p @ py_slice s (int k) (- int k) @ p = (p @ drop k q) @ p" by simp
  also have "\<dots> = s" by (simp only: pd q)
  finally show ?thesis by (rule sym)
qed

lemma inline_run_source:
  assumes "\<not> lone_marker p" "f \<noteq> ''Consolas''"
  shows "run_source (inline_run f z p) = p"
proof -
  consider (b) "startswith p (lit ''**'')" "endswith p (lit ''**'')"
    | (c) "\<not> (startswith p (lit ''**'') \<and> endswith p (lit ''**''))" "startswith p (lit ''`'')" "endswith p (lit ''`'')"
    | (n) "\<not> (startswith p (lit ''**'') \<and> endswith p (lit ''**''))" "\<not> (startswith p (lit ''`'') \<and> endswith p (lit ''`''))"
    by blast
  then show ?thesis
  proof cases
    case b
    have "4 \<le> length p"
    proof (rule ccontr)
      assume "\<not> 4 \<le> length p"
      moreover obtain r where "p = lit ''**'' @ r" using b(1) by (auto simp: startswith_iff simp del: lit_simps)
      ultimately have "p = [42, 42] \<or> (\<exists>x. p = [42, 42, x])"
        by (cases r; cases "tl r") auto
      with b(2) have "lone_marker p" by (auto simp: lone_marker_def endswith_def)
      with assms(1) show False ..
    qed
    then have "p = lit ''**'' @ py_slice p 2 (-2) @ lit ''**''"
      using trim_decompose [OF b, of 2] by simp
    with b show ?thesis
      by (simp add: inline_run_def run_source_def apply_run_font_def del: lit_simps)
  next
    case c
    have "2 \<le> length p"
    proof (rule ccontr)
      assume "\<not> 2 \<le> length p"
      with c(2) have "lone_marker p" by (cases p; cases "tl p") (auto simp: lone_marker_def)
      with assms(1) show False ..
    qed
    then have "p = lit ''`'' @ py_slice p 1 (-1) @ lit ''`''"
      using trim_decompose [OF c(2,3), of 1] by simp
    moreover have "inline_run f z p =
        apply_run_font (new_run (py_slice p 1 (-1))) ''Consolas'' (z - 1/2) None"
      using c by (auto simp: inline_run_def simp del: lit_simps)
    ultimately show ?thesis
      by (simp add: run_source_def apply_run_font_def new_run_def del: lit_simps)
  next
    case n
    then have "inline_run f z p = apply_run_font (new_run p) f z None"
      by (auto simp: inline_run_def simp del: lit_simps)
    with assms(2) show ?thesis
      by (simp add: run_source_def apply_run_font_def new_run_def del: lit_simps)
  qed
qed

lemma add_inline_runs_pruns:
  "pruns (add_inline_runs p text f z) =
     pruns p @ map (inline_run f z) (filter (\<lambda>q. q \<noteq> []) (re_split_inline text))"
proof -
  have "pruns (foldl (\<lambda>p part. if part = [] then p else add_run p (inline_run f z part)) p xs) =
      pruns p @ map (inline_run f z) (filter (\<lambda>q. q \<noteq> []) xs)" for xs
    by (induction xs arbitrary: p) auto
  then show ?thesis by (simp add: add_inline_runs_def)
qed

lemma concat_filter_Nil: "concat (filter (\<lambda>q. q \<noteq> []) xs) = concat xs"
  by (induction xs) auto

lemma inline_source:
  assumes "list_all (\<lambda>p. \<not> lone_marker p) (re_split_inline text)" "f \<noteq> ''Consolas''"
  shows "concat (map run_source (pruns (add_inline_runs (new_para st) text f z))) = text"
proof -
  have "map run_source (map (inline_run f z) (filter (\<lambda>q. q \<noteq> []) (re_split_inline text)))
      = filter (\<lambda>q. q \<noteq> []) (re_split_inline text)"
    using assms by (auto simp: list_all_iff inline_run_source intro!: map_idI)
  then show ?thesis
    by (simp add: add_inline_runs_pruns concat_filter_Nil re_split_inline_def re_split_from_concat)
qed

section \<open>Column widths\<close>

lemma length_weigh_row [simp]: "length (weigh_row lo ws cs) = length ws"
  by (induction lo ws cs rule: weigh_row.induct) auto

lemma weigh_row_ge: "i < length ws \<Longrightarrow> ws ! i \<le> weigh_row lo ws cs ! i"
  by (induction lo ws cs arbitrary: i rule: weigh_row.induct) (auto simp: nth_Cons split: nat.splits)

lemma weigh_row_lo: "i < length ws \<Longrightarrow> i < length cs \<Longrightarrow> max (length (cs ! i)) lo \<le> weigh_row lo ws cs ! i"
  by (induction lo ws cs arbitrary: i rule: weigh_row.induct) (auto simp: nth_Cons split: nat.splits)

lemma foldl_weigh_row:
  fixes rows :: "ustr list list"
  shows "length (foldl (weigh_row lo) ws rows) = length ws"
    and "i < length ws \<Longrightarrow> ws ! i \<le> foldl (weigh_row lo) ws rows ! i"
proof (induction rows arbitrary: ws)
  case (Cons r rows)
  { case 1 show ?case using Cons(1) [of "weigh_row lo ws r"] by simp }
  { case 2 show ?case
      using Cons(2) [of "weigh_row lo ws r"] weigh_row_ge [OF 2, of lo r] 2 by (simp add: order_trans) }
qed simp_all

lemma foldl_weigh_row_cell:
  assumes "r \<in> set rows" "i < length r" "i < length ws"
  shows "max (length (r ! i)) lo \<le> foldl (weigh_row lo) ws rows ! i"
  using assms
proof (induction rows arbitrary: ws)
  case (Cons q rows)
  show ?case
  proof (cases "r = q")
    case True
    have "max (length (r ! i)) lo \<le> weigh_row lo ws q ! i"
      using weigh_row_lo True Cons.prems by blast
    also have "\<dots> \<le> foldl (weigh_row lo) (weigh_row lo ws q) rows ! i"
      using Cons.prems(3) by (intro foldl_weigh_row(2)) simp
    finally show ?thesis by simp
  next
    case False
    with Cons show ?thesis by simp
  qed
qed simp

lemma fold_max_ge: "(m :: nat) \<le> fold max ns m"
  by (induction ns arbitrary: m) (auto intro: order_trans [OF max.cobounded2])

lemma fold_max_mem: "n \<in> set ns \<Longrightarrow> (n :: nat) \<le> fold max ns m"
proof (induction ns arbitrary: m)
  case (Cons k ns)
  then show ?case using fold_max_ge [of "max k m" ns] by auto
qed simp

lemma fold_max_in: "fold max ns (m :: nat) = m \<or> fold max ns m \<in> set ns"
proof (induction ns arbitrary: m)
  case (Cons k ns)
  have "fold max ns (max k m) = max k m \<or> fold max ns (max k m) \<in> set ns" by (rule Cons.IH)
  then show ?case by (cases "k \<le> m") (auto simp: max_absorb1 max_absorb2)
qed simp

lemma col_count_ge: "r \<in> set rows \<Longrightarrow> length r \<le> col_count rows"
  unfolding col_count_def by (rule fold_max_mem) simp

lemma col_count_row: "0 < col_count rows \<Longrightarrow> \<exists>r \<in> set rows. length r = col_count rows"
  unfolding col_count_def using fold_max_in [of "map length rows" 0] by auto

lemma length_column_weights [simp]: "length (column_weights rows) = col_count rows"
  by (simp add: column_weights_def foldl_weigh_row(1))

lemma column_weights_ge:
  assumes "w \<in> set (column_weights rows)"
  shows "6 \<le> w"
proof -
  from assms obtain i where i: "i < col_count rows" "w = column_weights rows ! i"
    by (metis in_set_conv_nth length_column_weights)
  then obtain r where "r \<in> set rows" "length r = col_count rows" using col_count_row [of rows] by auto
  with i have "max (length (r ! i)) 6 \<le> w"
    unfolding column_weights_def by (metis foldl_weigh_row_cell length_replicate)
  then show ?thesis by simp
qed

lemma column_weights_sum_pos: "0 < col_count rows \<Longrightarrow> 0 < sum_list (column_weights rows)"
proof -
  assume "0 < col_count rows"
  then obtain w where w: "w \<in> set (column_weights rows)"
    by (metis length_column_weights length_greater_0_conv list.set_sel(1))
  then show ?thesis using column_weights_ge [OF w] member_le_sum_list [OF w] by linarith
qed

lemma sum_list_scaled: "sum_list (map (\<lambda>w. c * of_nat w / d) ws) = c * of_nat (sum_list ws) / (d :: rat)"
  by (induction ws) (auto simp: algebra_simps add_divide_distrib)

lemma compute_column_widths_Inr:
  assumes "rows \<noteq> []" "0 < col_count rows" "compute_column_widths rows t = Inr ws" "0 < t"
  shows "length ws = col_count rows" "sum_list ws = t" "\<forall>w \<in> set ws. 0 < w"
proof -
  let ?W = "column_weights rows"
  have s: "0 < sum_list ?W" using assms(2) by (rule column_weights_sum_pos)
  with assms(1,3) have ws: "ws = map (\<lambda>w. t * of_nat w / of_nat (sum_list ?W)) ?W"
    unfolding compute_column_widths_def Let_def by (auto simp del: sum_list_eq_0_iff)
  then show "length ws = col_count rows" by simp
  from s have "sum_list ?W \<noteq> 0" by linarith
  then have "(of_nat (sum_list ?W) :: rat) \<noteq> 0" by (simp only: of_nat_eq_0_iff not_False_eq_True)
  then have "t * of_nat (sum_list ?W) / of_nat (sum_list ?W) = t"
    by (rule nonzero_mult_div_cancel_right)
  then show "sum_list ws = t" by (simp only: ws sum_list_scaled)
  show "\<forall>w \<in> set ws. 0 < w"
    using s assms(4) column_weights_ge [of _ rows] by (fastforce simp: ws intro!: divide_pos_pos mult_pos_pos)
qed

section \<open>Tables and the driver\<close>

lemma normalize_table_line_cells:
  "normalize_table_line l \<noteq> []"
  "c \<in> set (normalize_table_line l) \<Longrightarrow> py_strip c = c \<and> 124 \<notin> set c"
  using set_strip_by split_on_no_sep
  by (fastforce simp: normalize_table_line_def py_strip_idem py_strip_def text_simps)+

definition pad_row :: "nat \<Rightarrow> ustr list \<Rightarrow> ustr list" where
  "pad_row n row = take n (row @ replicate n [])"

lemma cell_text_simps [simp]:
  "cell_text (header_cell ws i h) = h"
  "cell_text (data_cell ws d i) = (if i < length d then d ! i else [])"
  by (simp_all add: cell_text_def header_cell_def data_cell_def set_cell_text_def para_text_def
        new_para_def add_run_def new_run_def)

lemma map_upt_pad: "map (\<lambda>i. if i < length d then d ! i else []) [0..<n] = pad_row n d"
  by (rule nth_equalityI) (auto simp: pad_row_def nth_append)

lemma render_table_Inr:
  assumes "ls \<noteq> []"
  obtains t where "render_table ls = Inr [Tbl t, Para (new_para None)]"
    "tcols t = length (normalize_table_line (hd ls))"
    "table_texts t = normalize_table_line (hd ls) #
       map (\<lambda>l. pad_row (tcols t) (normalize_table_line l)) (drop 2 ls)"
proof -
  obtain h more where l: "ls = h # more" using assms by (cases ls) auto
  let ?H = "normalize_table_line h" and ?D = "map normalize_table_line (drop 1 more)"
  obtain ws where w: "compute_column_widths (?H # ?D) (13/2) = Inr ws"
    by (simp add: compute_column_widths_def Let_def)
  have hd: "map cell_text (map (\<lambda>(i, x). header_cell ws i x) (enumerate n xs)) = xs" for n xs
    by (induction xs arbitrary: n) auto
  have dd: "map cell_text (map (data_cell ws d) [0..<n]) = pad_row n d" for d n
    by (simp add: o_def map_upt_pad)
  let ?t = "(set_table_cell_margins ((new_table (length ?H))\<lparr>tstyle := Some ''Table Grid'',
        tautofit := False, talign := Some ALIGN_LEFT\<rparr>))
      \<lparr>trows := map (\<lambda>(i, h). header_cell ws i h) (enumerate 0 ?H) #
        map (\<lambda>data. map (data_cell ws data) [0..<length ?H]) ?D\<rparr>"
  have "table_texts ?t = ?H # map (\<lambda>l. pad_row (tcols ?t) (normalize_table_line l)) (drop 2 ls)"
    using hd dd l by (simp add: table_texts_def drop_map o_def numeral_2_eq_2 set_table_cell_margins_def)
  moreover have "render_table ls = Inr [Tbl ?t, Para (new_para None)]"
    using w l by (simp add: render_table_def drop_map Let_def)
  ultimately show ?thesis using l by (intro that [of ?t]) (simp_all add: set_table_cell_margins_def)
qed

lemma render_block_Inr: "wf_block b \<Longrightarrow> \<exists>st'. render_block st b = Inr st'"
proof (cases st)
  case (Pair doc t)
  assume w: "wf_block b"
  show ?thesis
  proof (cases "kind b")
    case Table
    with w have "blines b \<noteq> []" by (auto simp: wf_block_def)
    then obtain t where "render_table (blines b) = Inr [Tbl t, Para (new_para None)]"
      by (rule render_table_Inr)
    with Table Pair show ?thesis by (simp add: render_block_def)
  qed (use w Pair in \<open>auto simp: render_block_def wf_block_def split: list.splits\<close>)
qed

lemma render_all_Inr: "list_all wf_block bs \<Longrightarrow> \<exists>st'. render_all st bs = Inr st'"
proof (induction bs arbitrary: st)
  case (Cons b bs)
  then obtain st1 where "render_block st b = Inr st1" using render_block_Inr by fastforce
  with Cons show ?case by simp
qed simp

section \<open>What the document shows\<close>

text \<open>The specification of the rendered text, block by block: a list of rows, each a list of cell
  texts; a paragraph is a row of one cell. \<open>shown\<close> is the text without its inline markers.\<close>

definition shown :: "ustr \<Rightarrow> ustr" where
  "shown text = concat (map (\<lambda>p. rtext (inline_run ''Calibri'' 11 p)) (re_split_inline text))"

definition item_view :: "body_item \<Rightarrow> ustr list list" where
  "item_view i = (case i of Para p \<Rightarrow> [[para_text p]] | Tbl t \<Rightarrow> table_texts t | Page_break \<Rightarrow> [])"

definition block_view :: "md_block \<Rightarrow> ustr list list" where
  "block_view b =
     (case kind b of
        Heading \<Rightarrow> [[case HEADING_RE (hd (blines b)) of Some (k, g) \<Rightarrow> py_strip g | None \<Rightarrow> []]]
      | Paragraph \<Rightarrow> [[shown (join (lit '' '') (map py_strip (blines b)))]]
      | Bullet_list \<Rightarrow> map (\<lambda>l. [shown (rx_sub BULLET_RE l)]) (blines b)
      | Number_list \<Rightarrow> map (\<lambda>l. [shown (rx_sub NUMBER_RE l)]) (blines b)
      | Code \<Rightarrow> map (\<lambda>l. [if l \<noteq> [] then l else lit '' '']) (blines b)
      | Table \<Rightarrow> (let headers = normalize_table_line (hd (blines b))
                  in headers # map (\<lambda>l. pad_row (length headers) (normalize_table_line l)) (drop 2 (blines b)))
                 @ [[[]]])"

lemma rtext_inline_run: "rtext (inline_run f z p) = rtext (inline_run f' z' p)"
  by (simp add: inline_run_def apply_run_font_def new_run_def)

lemma para_text_inline: "para_text (add_inline_runs p text f z) = para_text p @ shown text"
proof -
  have "concat (map rtext (map (inline_run f z) (filter (\<lambda>q. q \<noteq> []) xs))) =
      concat (map (\<lambda>p. rtext (inline_run ''Calibri'' 11 p)) xs)" for xs
  proof (induction xs)
    case (Cons x xs)
    have "rtext (inline_run f z x) = rtext (inline_run ''Calibri'' 11 x)" by (rule rtext_inline_run)
    moreover have "rtext (inline_run ''Calibri'' 11 []) = []"
      by (simp add: inline_run_def apply_run_font_def new_run_def)
    ultimately show ?case using Cons by simp
  qed simp
  then show ?thesis unfolding para_text_def shown_def add_inline_runs_pruns by simp
qed

lemma rtext_apply_run_font [simp]: "rtext (apply_run_font r f z c) = rtext r" "rtext (r\<lparr>rbold := b\<rparr>) = rtext r"
  by (simp_all add: apply_run_font_def)

lemma item_view_render_code: "concat (map item_view (render_code ls)) = map (\<lambda>l. [if l \<noteq> [] then l else lit '' '']) ls"
proof -
  have "concat (map item_view (map (\<lambda>(i, l). code_line i l) (enumerate n ls)))
      = map (\<lambda>l. [if l \<noteq> [] then l else lit '' '']) ls" for n
    by (induction ls arbitrary: n) (auto simp: code_line_def item_view_def)
  then show ?thesis by (simp add: render_code_def)
qed

lemma item_view_render_list:
  "concat (map item_view (render_list ls b)) =
     map (\<lambda>l. [shown (if b then rx_sub NUMBER_RE l else rx_sub BULLET_RE l)]) ls"
  by (induction ls) (auto simp: render_list_def list_item_def item_view_def para_text_inline)

lemma render_block_view:
  assumes "wf_block b"
  shows "\<exists>items td. render_block (doc, t) b = Inr (doc @ items, td) \<and> concat (map item_view items) = block_view b"
proof (cases "kind b")
  case Code
  then show ?thesis by (simp add: render_block_def block_view_def item_view_render_code)
next
  case Heading
  then obtain l where l: "blines b = [l]" "HEADING_RE l \<noteq> None"
    using assms by (cases "blines b") (auto simp: wf_block_def)
  then show ?thesis using Heading
    by (auto simp: render_block_def block_view_def render_heading_def add_title_def item_view_def Let_def)
next
  case Table
  then have "blines b \<noteq> []" using assms by (auto simp: wf_block_def)
  then obtain t where t: "render_table (blines b) = Inr [Tbl t, Para (new_para None)]"
    "tcols t = length (normalize_table_line (hd (blines b)))"
    "table_texts t = normalize_table_line (hd (blines b)) #
       map (\<lambda>l. pad_row (tcols t) (normalize_table_line l)) (drop 2 (blines b))"
    by (rule render_table_Inr)
  with Table show ?thesis by (simp add: render_block_def block_view_def item_view_def Let_def)
next
  case Bullet_list
  then show ?thesis by (simp add: render_block_def block_view_def item_view_render_list)
next
  case Number_list
  then show ?thesis by (simp add: render_block_def block_view_def item_view_render_list)
next
  case Paragraph
  then show ?thesis by (simp add: render_block_def block_view_def render_paragraph_def item_view_def para_text_inline)
qed

lemma render_all_view:
  "list_all wf_block bs \<Longrightarrow> \<exists>items td. render_all (doc, t) bs = Inr (doc @ items, td) \<and>
     concat (map item_view items) = concat (map block_view bs)"
proof (induction bs arbitrary: doc t)
  case (Cons b bs)
  obtain i td where b: "render_block (doc, t) b = Inr (doc @ i, td)" "concat (map item_view i) = block_view b"
    using render_block_view [of b doc t] Cons.prems by auto
  obtain j te where "render_all (doc @ i, td) bs = Inr (doc @ i @ j, te)"
    "concat (map item_view j) = concat (map block_view bs)"
    using Cons.IH [of "doc @ i" td] Cons.prems by auto
  with b show ?case by (intro exI [of _ "i @ j"] exI [of _ te]) simp
qed simp

text \<open>The text of the document, row by row, is that of its blocks in order: no block is dropped, duplicated or reordered, a
  table keeps its header cells and its data rows cut or padded to the header's width, and code lines are unchanged.
  Nothing fails but reading and saving.\<close>

lemma md_document_content:
  "\<exists>doc. concat (map item_view doc) = concat (map block_view (parse_blocks text)) \<and>
         (\<forall>save. build_docx (Inr text) save = bindR (save doc) (\<lambda>_. Inr doc))"
proof -
  have "list_all wf_block (parse_blocks text)" by (simp add: parse_blocks_def parse_wf_all)
  from render_all_view [OF this, of "[]" False] show ?thesis by (auto simp: build_docx_def)
qed

text \<open>C26. Inline formatting keeps the text: the runs the script adds to a paragraph, with the markers put back around the
  bold and the code runs, give the Markdown text they were made from, in order and without loss. A part that is nothing
  but a marker (a single backquote, \<^verbatim>\<open>**\<close> or \<^verbatim>\<open>***\<close>) is excluded: the script takes it for an empty run and drops it
  (\<open>md_lone_marker_lost\<close>). The font of the text is not that of code.\<close>

theorem md_inline_lossless:
  "list_all (\<lambda>p. \<not> lone_marker p) (re_split_inline text) \<Longrightarrow> f \<noteq> ''Consolas'' \<Longrightarrow>
     concat (map run_source (pruns (add_inline_runs (new_para st) text f z))) = text"
  by (rule inline_source)

theorem md_inline_lossless_witness:
  "concat (map run_source (pruns (add_inline_runs (new_para None) (lit ''a **b** `c` d'') ''Calibri'' 11)))
     = lit ''a **b** `c` d''"
proof (rule md_inline_lossless)
  show "list_all (\<lambda>p. \<not> lone_marker p) (re_split_inline (lit ''a **b** `c` d''))" by code_simp
qed simp

lemma md_lone_marker_lost: "shown (lit ''`'') = []" "shown (lit ''**'') = []" "shown (lit ''***'') = []"
  by code_simp+

text \<open>The column widths of a Markdown table: one per column of the widest row, all positive, and they
  add up to the width asked for.\<close>

theorem md_column_widths:
  "rows \<noteq> [] \<Longrightarrow> 0 < col_count rows \<Longrightarrow> 0 < w \<Longrightarrow>
     \<exists>ws. compute_column_widths rows w = Inr ws \<and> length ws = col_count rows \<and> sum_list ws = w \<and>
          (\<forall>x \<in> set ws. 0 < x)"
  using compute_column_widths_Inr [of rows w] by (auto simp: compute_column_widths_def Let_def)

theorem md_column_widths_witness:
  "\<exists>ws. compute_column_widths [[lit ''a'', lit ''a long cell''], [lit ''b'']] (13/2) = Inr ws \<and> length ws = 2 \<and>
        sum_list ws = 13/2 \<and> (\<forall>x \<in> set ws. 0 < x)"
  using md_column_widths [of "[[lit ''a'', lit ''a long cell''], [lit ''b'']]" "13/2"]
  by (simp add: col_count_def numeral_2_eq_2)

end
