(* ===== verification/Deep_Tech_Docx.thy ===== *)
theory Deep_Tech_Docx
  imports Md_Docx
begin

text \<open>
  The second document script, \<^verbatim>\<open>scripts/create_deep_tech_explainer_docx.py\<close>: it reuses the Markdown
  parser and the inline renderer, and has its own cover, table of contents, tables with integer
  column widths, and driver. The fixed Vietnamese texts are given as code points. In \<open>width_plan\<close> the
  source rounds a floating-point quotient of small integers; below \<^verbatim>\<open>2 ** 52\<close> that rounding is the
  exact half-to-even rounding modelled here.
\<close>

section \<open>Fixed texts\<close>

text \<open>The table-of-contents title, the cover texts, and the two headings that start a new page.\<close>

definition toc_title :: ustr where
  "toc_title =
     [77, 7909, 99, 32, 108, 7909, 99]"

definition cover_box_text :: ustr where
  "cover_box_text =
     [66, 7843, 110, 32, 118, 105, 7871, 116, 32, 108, 7841, 105, 32, 100, 7921, 97, 32, 116, 114,
     234, 110, 32, 109, 227, 32, 110, 103, 117, 7891, 110, 44, 32, 109, 105, 103, 114, 97, 116,
     105, 111, 110, 44, 32, 66, 80, 77, 78, 32, 118, 224, 32, 99, 7845, 117, 32, 104, 236, 110,
     104, 32, 116, 114, 105, 7875, 110, 32, 107, 104, 97, 105, 32, 104, 105, 7879, 110, 32, 116,
     7841, 105, 46, 32, 84, 224, 105, 32, 108, 105, 7879, 117, 32, 112, 104, 226, 110, 32, 98, 105,
     7879, 116, 32, 114, 245, 32, 112, 104, 7847, 110, 32, 273, 227, 32, 116, 114, 105, 7875, 110,
     32, 107, 104, 97, 105, 44, 32, 112, 104, 7847, 110, 32, 99, 243, 32, 109, 244, 32, 112, 104,
     7887, 110, 103, 47, 102, 97, 108, 108, 98, 97, 99, 107, 32, 118, 224, 32, 112, 104, 7847, 110,
     32, 99, 242, 110, 32, 116, 104, 105, 7871, 117, 46]"

definition cover_meta1 :: ustr where
  "cover_meta1 =
     [80, 104, 105, 234, 110, 32, 98, 7843, 110, 32, 107, 104, 7843, 111, 32, 115, 225, 116, 58,
     32, 50, 48, 47, 48, 55, 47, 50, 48, 50, 54, 10]"

definition cover_meta2 :: ustr where
  "cover_meta2 =
     [80, 104, 7841, 109, 32, 118, 105, 58, 32, 102, 114, 111, 110, 116, 101, 110, 100, 44, 32, 98,
     97, 99, 107, 101, 110, 100, 32, 115, 101, 114, 118, 105, 99, 101, 115, 44, 32, 100, 7919, 32,
     108, 105, 7879, 117, 44, 32, 119, 111, 114, 107, 102, 108, 111, 119, 44, 32, 101, 118, 101,
     110, 116, 44, 32, 65, 73, 32, 118, 224, 32, 118, 7853, 110, 32, 104, 224, 110, 104, 10]"

definition cover_meta3 :: ustr where
  "cover_meta3 =
     [78, 103, 244, 110, 32, 110, 103, 7919, 58, 32, 84, 105, 7871, 110, 103, 32, 86, 105, 7879,
     116]"

definition page_break_heading1 :: ustr where
  "page_break_heading1 =
     [51, 46, 32, 65, 80, 73, 32, 71, 97, 116, 101, 119, 97, 121, 44, 32, 120, 225, 99, 32, 116,
     104, 7921, 99, 32, 118, 224, 32, 109, 244, 32, 104, 236, 110, 104, 32, 116, 105, 110, 32, 99,
     7853, 121]"

definition page_break_heading2 :: ustr where
  "page_break_heading2 = lit ''6.2 Transactional outbox''"

section \<open>Fonts, contents and cover\<close>

definition set_font :: "run \<Rightarrow> string \<Rightarrow> rat \<Rightarrow> string option \<Rightarrow> bool \<Rightarrow> run" where
  "set_font r name sz color bold =
     r\<lparr>rfont := Some name, rsize := Some sz, rbold := Some bold,
       rcolor := (case color of None \<Rightarrow> rcolor r | Some c \<Rightarrow> if c = [] then rcolor r else Some c)\<rparr>"

definition toc_entries :: "md_block list \<Rightarrow> ustr list" where
  "toc_entries blocks = concat (map (\<lambda>b.
     if kind b \<noteq> Heading then []
     else case blines b of [] \<Rightarrow> []
          | l # _ \<Rightarrow> (case HEADING_RE l of Some (k, g) \<Rightarrow> if k = 2 then [py_strip g] else []
                      | None \<Rightarrow> [])) blocks)"

definition add_toc :: "md_block list \<Rightarrow> body_item list" where
  "add_toc blocks =
     Para (add_run (new_para (Some ''Heading 1'')) (new_run toc_title))
     # map (\<lambda>t. Para (add_inline_runs ((new_para (Some ''List Number''))\<lparr>space_after := Some 2\<rparr>)
                       t ''Calibri'' (21/2))) (toc_entries blocks)
     @ [Page_break]"

definition add_cover :: "ustr \<Rightarrow> ustr \<Rightarrow> body_item list" where
  "add_cover title subtitle =
     [Para (add_run ((new_para None)\<lparr>space_before := Some 88, space_after := Some 12\<rparr>)
        (set_font (new_run (lit ''BALII SLEEPWEAR'')) ''Calibri'' 12 (Some ''2E74B5'') True)),
      Para (add_run ((new_para None)\<lparr>space_after := Some 18\<rparr>)
        (set_font (new_run title) ''Calibri'' 28 (Some ''17365D'') True)),
      Para ((new_para None)\<lparr>space_after := Some 20\<rparr>),
      Para (add_run ((new_para None)\<lparr>space_after := Some 28\<rparr>)
        (set_font (new_run subtitle) ''Calibri'' 14 (Some ''1F4D78'') False)),
      Para (add_run ((new_para None)\<lparr>left_indent := Some (18/100), right_indent := Some (18/100),
          space_before := Some 12, space_after := Some 18, pshade := Some ''F3F7FB''\<rparr>)
        (set_font (new_run cover_box_text) ''Calibri'' 11 (Some ''17365D'') False)),
      Para (foldl add_run ((new_para None)\<lparr>space_before := Some 72\<rparr>)
        (map (\<lambda>t. set_font (new_run t) ''Calibri'' (21/2) (Some ''666666'') False)
          [cover_meta1, cover_meta2, cover_meta3])),
      Page_break]"

section \<open>Tables\<close>

fun plan_row :: "nat list \<Rightarrow> ustr list \<Rightarrow> nat list" where
  "plan_row (w # ws) (c # cs) = max w (min 42 (length c)) # plan_row ws cs"
| "plan_row ws _ = ws"

definition plan_weights :: "ustr list list \<Rightarrow> nat list" where
  "plan_weights rows = foldl plan_row (replicate (col_count rows) 8) rows"

definition width_plan :: "ustr list list \<Rightarrow> int \<Rightarrow> int list res" where
  "width_plan rows tot =
     (if rows = [] then Inl (ValueError ''max() arg is an empty sequence'')
      else let weights = plan_weights rows; weight_sum = int (sum_list weights);
               result = map (\<lambda>w. round_quot (tot * int w) weight_sum) weights
           in if result = [] then Inl IndexError
              else Inr (butlast result @ [last result + (tot - sum_list result)]))"

definition USABLE_DXA :: int where
  "USABLE_DXA = 9360"

definition dt_cell :: "int list \<Rightarrow> nat \<Rightarrow> ustr list \<Rightarrow> nat \<Rightarrow> cell" where
  "dt_cell widths row_index values col_index =
     (let text = (if col_index < length values then values ! col_index else []);
          p = add_inline_runs ((new_para None)\<lparr>space_after := Some 2\<rparr>) text ''Calibri'' (19/2)
      in new_cell\<lparr>cdxa := Some (widths ! col_index), cwidth := Some (of_int (widths ! col_index) / 1440),
           cvcenter := True,
           cpara := (if row_index = 0 then p\<lparr>pruns := map (rbold_update (\<lambda>_. Some True)) (pruns p)\<rparr> else p),
           cshade := (if row_index = 0 then [''E8EEF5''] else if row_index mod 2 = 0 then [''F8FAFC''] else [])\<rparr>)"

definition dt_render_table :: "ustr list \<Rightarrow> body_item list res" where
  "dt_render_table ls =
     (case map normalize_table_line ls of
        [] \<Rightarrow> Inl IndexError
      | headers # lines \<Rightarrow>
          (let rows = headers # drop 1 lines; column_count = length headers
           in bindR (width_plan rows USABLE_DXA) (\<lambda>widths.
                Inr [Tbl ((new_table column_count)\<lparr>tstyle := Some ''Table Grid'', tautofit := False,
                        talign := Some ALIGN_LEFT, twidth := Some USABLE_DXA,
                        tmargins := [(''top'', 80), (''start'', 120), (''bottom'', 80), (''end'', 120)],
                        grid := widths, repeat_header := True,
                        trows := map (\<lambda>(row_index, values).
                          map (dt_cell widths row_index values) [0..<column_count]) (enumerate 0 rows)\<rparr>),
                     Para ((new_para None)\<lparr>space_after := Some 1\<rparr>)])))"

section \<open>Code, blocks and the driver\<close>

definition dt_render_code :: "ustr list \<Rightarrow> body_item list" where
  "dt_render_code ls = map (\<lambda>(index, line).
     Para (add_run ((new_para None)\<lparr>left_indent := Some (1/5), right_indent := Some (1/5),
         space_before := Some (if index = 0 then 4 else 0),
         space_after := Some (if index = length ls - 1 then 4 else 0),
         keep_together := Some True, pshade := Some ''F2F2F2''\<rparr>)
       (set_font (new_run (if line \<noteq> [] then line else lit '' '')) ''Consolas'' 9 (Some ''17365D'') False)))
     (enumerate 0 ls)"

text \<open>\<^verbatim>\<open>re.sub\<close> of the marker and the white space after it by nothing, at the start of the line.\<close>

definition drop_number_marker :: "ustr \<Rightarrow> ustr" where
  "drop_number_marker line =
     (let k = length (takeWhile is_digit line) in
      case drop k line of
        c # d # cs \<Rightarrow> if 1 \<le> k \<and> c = 46 \<and> is_space d then dropWhile is_space (d # cs) else line
      | _ \<Rightarrow> line)"

definition drop_bullet_marker :: "ustr \<Rightarrow> ustr" where
  "drop_bullet_marker line =
     (case line of
        c # d # cs \<Rightarrow> if c \<in> {45, 42, 43} \<and> is_space d then dropWhile is_space (d # cs) else line
      | _ \<Rightarrow> line)"

definition dt_render_heading :: "ustr \<Rightarrow> body_item list" where
  "dt_render_heading line =
     (case HEADING_RE line of
        None \<Rightarrow> []
      | Some (k, g) \<Rightarrow>
          (let heading_text = py_strip g;
               p = (add_run (new_para (Some (heading_style (min 3 k)))) (new_run heading_text))
                     \<lparr>keep_with_next := Some True, keep_together := Some True\<rparr>
           in [Para (if heading_text = page_break_heading1 \<or> heading_text = page_break_heading2
                     then p\<lparr>page_break_before := Some True\<rparr> else p)]))"

definition dt_render_block :: "md_block \<Rightarrow> body_item list res" where
  "dt_render_block b =
     (case kind b of
        Heading \<Rightarrow> (case blines b of [] \<Rightarrow> Inl IndexError | l # _ \<Rightarrow> Inr (dt_render_heading l))
      | Paragraph \<Rightarrow> Inr [Para (add_inline_runs (new_para None) (join (lit '' '') (blines b)) ''Calibri'' 11)]
      | Bullet_list \<Rightarrow> Inr (map (\<lambda>l. Para (add_inline_runs (new_para (Some ''List Bullet''))
                             (drop_bullet_marker l) ''Calibri'' 11)) (blines b))
      | Number_list \<Rightarrow> Inr (map (\<lambda>l. Para (add_inline_runs (new_para (Some ''List Number''))
                             (drop_number_marker l) ''Calibri'' 11)) (blines b))
      | Code \<Rightarrow> Inr (dt_render_code (blines b))
      | Table \<Rightarrow> dt_render_table (blines b))"

fun dt_render_blocks :: "md_block list \<Rightarrow> body_item list res" where
  "dt_render_blocks [] = Inr []"
| "dt_render_blocks (b # bs) =
     bindR (dt_render_block b) (\<lambda>xs. bindR (dt_render_blocks bs) (\<lambda>ys. Inr (xs @ ys)))"

definition dt_build :: "ustr \<Rightarrow> body_item list res" where
  "dt_build text =
     (case parse_blocks text of
        b0 # b1 # bs \<Rightarrow>
          (if kind b0 \<noteq> Heading \<or> kind b1 \<noteq> Paragraph
           then Inl (ValueError ''Markdown must start with a title and subtitle paragraph'')
           else case blines b0 of [] \<Rightarrow> Inl IndexError
                | l # _ \<Rightarrow>
                    (case HEADING_RE l of
                       None \<Rightarrow> Inl AssertionError
                     | Some (k, g) \<Rightarrow>
                         bindR (dt_render_blocks bs) (\<lambda>body.
                           Inr (add_cover (py_strip g) (join (lit '' '') (blines b1)) @ add_toc bs @ body))))
      | _ \<Rightarrow> Inl (ValueError ''Markdown must start with a title and subtitle paragraph''))"

section \<open>Column widths\<close>

lemma length_plan_row [simp]: "length (plan_row ws cs) = length ws"
  by (induction ws cs rule: plan_row.induct) auto

lemma plan_row_bounds:
  "\<forall>w \<in> set ws. 8 \<le> w \<and> w \<le> 42 \<Longrightarrow> \<forall>w \<in> set (plan_row ws cs). 8 \<le> w \<and> w \<le> (42 :: nat)"
  by (induction ws cs rule: plan_row.induct) auto

lemma plan_weights_bounds:
  "length (plan_weights rows) = col_count rows"
  "\<forall>w \<in> set (plan_weights rows). 8 \<le> w \<and> w \<le> 42"
proof -
  have "length (foldl plan_row ws rs) = length ws" for ws rs
    by (induction rs arbitrary: ws) auto
  then show "length (plan_weights rows) = col_count rows" by (simp add: plan_weights_def)
  have b: "\<forall>w \<in> set (foldl plan_row ws rs). 8 \<le> w \<and> w \<le> 42"
    if "\<forall>w \<in> set ws. 8 \<le> w \<and> w \<le> 42" for ws rs
    using that
  proof (induction rs arbitrary: ws)
    case (Cons r rs)
    from Cons.IH [OF plan_row_bounds [OF Cons.prems]] show ?case by simp
  qed simp
  show "\<forall>w \<in> set (plan_weights rows). 8 \<le> w \<and> w \<le> 42"
    unfolding plan_weights_def by (rule b) auto
qed

lemma sum_list_upper: "\<forall>w \<in> set ws. w \<le> (c :: nat) \<Longrightarrow> sum_list ws \<le> c * length ws"
  by (induction ws) auto

lemma sum_list_lower: "\<forall>w \<in> set ws. (c :: nat) \<le> w \<Longrightarrow> c * length ws \<le> sum_list ws"
  by (induction ws) auto

lemma sum_round_quot:
  assumes "0 < S"
  shows "S * (2 * sum_list (map (\<lambda>w. round_quot (T * int w) S) ws)) \<le> 2 * T * int (sum_list ws) + int (length ws) * S"
proof (induction ws)
  case (Cons w ws)
  have "S * (2 * round_quot (T * int w) S) \<le> 2 * (T * int w) + S"
    using assms by (rule round_quot_bounds)
  with Cons show ?case by (simp add: algebra_simps)
qed simp

lemma width_plan_Inr:
  assumes "width_plan rows tot = Inr ws"
  obtains r where "r \<noteq> []" "r = map (\<lambda>w. round_quot (tot * int w) (int (sum_list (plan_weights rows)))) (plan_weights rows)"
    "ws = butlast r @ [last r + (tot - sum_list r)]"
  using assms by (auto simp: width_plan_def Let_def split: if_splits)

lemma sum_butlast_last: "r \<noteq> [] \<Longrightarrow> sum_list (butlast r) + last r = (sum_list r :: int)"
  by (induction r) auto

lemma width_plan_sum: "width_plan rows tot = Inr ws \<Longrightarrow> sum_list ws = tot"
proof -
  assume "width_plan rows tot = Inr ws"
  then obtain r where r: "r \<noteq> []" "ws = butlast r @ [last r + (tot - sum_list r)]"
    by (rule width_plan_Inr)
  then have "sum_list ws = (sum_list (butlast r) + last r) + (tot - sum_list r)" by simp
  also have "\<dots> = tot" by (simp add: sum_butlast_last [OF r(1)])
  finally show ?thesis .
qed

lemma width_plan_length: "width_plan rows tot = Inr ws \<Longrightarrow> length ws = col_count rows"
  by (erule width_plan_Inr) (simp add: plan_weights_bounds(1) flip: length_0_conv)

lemma width_plan_total: "rows \<noteq> [] \<Longrightarrow> 0 < col_count rows \<Longrightarrow> \<exists>ws. width_plan rows tot = Inr ws"
  using plan_weights_bounds(1) [of rows] by (auto simp: width_plan_def Let_def)

lemma width_plan_pos:
  assumes w: "width_plan rows USABLE_DXA = Inr ws" and n: "col_count rows \<le> 60" and x: "x \<in> set ws"
  shows "0 < x"
proof -
  let ?W = "plan_weights rows" and ?S = "int (sum_list (plan_weights rows))"
  obtain r where r: "r \<noteq> []" "r = map (\<lambda>w. round_quot (9360 * int w) ?S) ?W"
      and ws: "ws = butlast r @ [last r + (9360 - sum_list r)]"
    using width_plan_Inr [OF w] unfolding USABLE_DXA_def by blast
  then have W: "?W \<noteq> []" by auto
  have len: "length ?W \<le> 60" using n plan_weights_bounds(1) by simp
  have b: "8 \<le> w \<and> w \<le> 42" if "w \<in> set ?W" for w using plan_weights_bounds(2) that by blast
  have up: "sum_list ?W \<le> 42 * length ?W" by (rule sum_list_upper) (use b in blast)
  have lo: "8 * length ?W \<le> sum_list ?W" by (rule sum_list_lower) (use b in blast)
  have "0 < length ?W" using W by simp
  then have S: "0 < ?S" "?S \<le> 2520" using up lo len by linarith+
  have pos: "0 < y" if y: "y \<in> set r" for y
  proof -
    obtain v where v: "v \<in> set ?W" "y = round_quot (9360 * int v) ?S" using y r by auto
    have "2 * (9360 * int v) - ?S \<le> ?S * (2 * y)" using round_quot_bounds(2) [OF S(1)] v by blast
    moreover have "8 \<le> int v" using b [OF v(1)] by simp
    ultimately have "0 < ?S * (2 * y)" using S by linarith
    then show "0 < y" using S(1) by (simp add: zero_less_mult_iff)
  qed
  have snoc: "?W = butlast ?W @ [last ?W]" using W by simp
  let ?l = "int (last ?W)" and ?B = "butlast ?W"
  have Ssum: "?S = int (sum_list ?B) + ?l" by (subst snoc) simp
  have l: "8 \<le> ?l" "?l \<le> 42" using b [of "last ?W"] W by auto
  have lenB: "int (length ?B) \<le> 59" using len by simp
  have "sum_list ?B \<le> 42 * length ?B"
    by (rule sum_list_upper) (meson b in_set_butlastD)
  then have B: "int (sum_list ?B) \<le> 42 * int (length ?B)" by linarith
  let ?R = "sum_list (butlast r)"
  have br: "butlast r = map (\<lambda>w. round_quot (9360 * int w) ?S) ?B" using r(2) by (simp add: map_butlast)
  have "?S * (2 * ?R) \<le> 2 * 9360 * int (sum_list ?B) + int (length ?B) * ?S"
    unfolding br by (rule sum_round_quot) (rule S(1))
  moreover have "int (length ?B) * ?S \<le> 59 * ?S" using lenB S by simp
  ultimately have "?S * (2 * ?R) \<le> 18720 * int (sum_list ?B) + 59 * ?S" by linarith
  moreover have "59 * ?S < 18720 * ?l" using Ssum B lenB l by linarith
  ultimately have "?S * (2 * ?R) < 18720 * ?S" using Ssum by linarith
  then have "?S * (9360 - ?R) > 0" by (simp add: algebra_simps)
  then have "?R < 9360" using S(1) by (simp add: zero_less_mult_iff)
  moreover have "last r + (9360 - sum_list r) = 9360 - ?R" using sum_butlast_last [OF r(1)] by linarith
  ultimately have "0 < last r + (9360 - sum_list r)" by linarith
  with x ws pos show ?thesis by (auto dest: in_set_butlastD)
qed

section \<open>Totality of the driver\<close>

lemma dt_render_table_Inr:
  assumes "ls \<noteq> []"
  obtains t ws p where "dt_render_table ls = Inr [Tbl t, p]" "grid t = ws"
    "width_plan (normalize_table_line (hd ls) # map normalize_table_line (drop 2 ls)) USABLE_DXA = Inr ws"
    "tcols t = length (normalize_table_line (hd ls))"
proof -
  obtain h m where l: "ls = h # m" using assms by (cases ls) auto
  let ?rows = "normalize_table_line h # map normalize_table_line (drop 1 m)"
  have "0 < length (normalize_table_line h)" using normalize_table_line_cells(1) by simp
  then have "0 < col_count ?rows" using col_count_ge [of "normalize_table_line h" ?rows]
    by (meson less_le_trans list.set_intros(1))
  then obtain ws where ws: "width_plan ?rows USABLE_DXA = Inr ws"
    using width_plan_total by blast
  with l show ?thesis
    by (intro that) (auto simp: dt_render_table_def drop_map numeral_2_eq_2 Let_def)
qed

lemma dt_render_blocks_Inr: "list_all wf_block bs \<Longrightarrow> \<exists>x. dt_render_blocks bs = Inr x"
proof (induction bs)
  case (Cons b bs)
  then have w: "wf_block b" by simp
  have "\<exists>x. dt_render_block b = Inr x"
  proof (cases "kind b")
    case Table
    with w have "blines b \<noteq> []" by (auto simp: wf_block_def)
    then obtain t ws p where "dt_render_table (blines b) = Inr [Tbl t, p]"
      by (rule dt_render_table_Inr)
    with Table show ?thesis by (simp add: dt_render_block_def)
  qed (use w in \<open>auto simp: dt_render_block_def wf_block_def split: list.splits\<close>)
  with Cons show ?case by auto
qed simp

lemma dt_build_cases:
  "(\<exists>doc. dt_build text = Inr doc) \<or>
   dt_build text = Inl (ValueError ''Markdown must start with a title and subtitle paragraph'')"
proof -
  have w: "list_all wf_block (parse_blocks text)" by (simp add: parse_blocks_def parse_wf_all)
  show ?thesis
  proof (cases "parse_blocks text")
    case (Cons b0 r)
    show ?thesis
    proof (cases r)
      case (Cons b1 bs)
      with w \<open>parse_blocks text = b0 # r\<close> have w': "wf_block b0" "list_all wf_block bs" by auto
      obtain x where x: "dt_render_blocks bs = Inr x" using dt_render_blocks_Inr w'(2) by blast
      show ?thesis
      proof (cases "kind b0 = Heading \<and> kind b1 = Paragraph")
        case True
        with w'(1) obtain l where "blines b0 = [l]" "HEADING_RE l \<noteq> None"
          by (auto simp: wf_block_def length_Suc_conv)
        with True Cons \<open>parse_blocks text = b0 # r\<close> x show ?thesis
          by (auto simp: dt_build_def)
      qed (use Cons \<open>parse_blocks text = b0 # r\<close> in \<open>auto simp: dt_build_def\<close>)
    qed (use Cons in \<open>simp add: dt_build_def\<close>)
  qed (simp add: dt_build_def)
qed

section \<open>The two scripts strip list markers alike\<close>

lemma butlast_newline: "(10 :: nat) \<in> set r \<Longrightarrow> 10 \<notin> set (butlast r) \<Longrightarrow> butlast r @ [10] = r"
  by (cases r rule: rev_cases) auto

lemma drop_bullet_marker_eq:
  assumes "BULLET_RE line = Some x"
  shows "drop_bullet_marker line = rx_sub BULLET_RE line"
proof -
  obtain c cs where l: "line = c # cs" "c \<in> {45, 42, 43}" "rx_ws_tail cs = Some x"
    using assms by (cases line) (auto simp: BULLET_RE_def split: if_splits)
  then obtain d ds where d: "cs = d # ds" "is_space d"
    by (cases cs) (auto simp: rx_ws_tail_def Let_def split: if_splits)
  have "fst x @ snd x = dropWhile is_space cs"
    using l(3) by (auto simp: rx_ws_tail_def Let_def butlast_newline split: if_splits)
  with l d assms show ?thesis by (auto simp: drop_bullet_marker_def rx_sub_def split: prod.splits)
qed

lemma NUMBER_drop_marker_eq:
  assumes "NUMBER_RE line = Some x"
  shows "drop_number_marker line = rx_sub NUMBER_RE line"
proof -
  let ?k = "length (takeWhile is_digit line)"
  obtain cs where l: "drop ?k line = 46 # cs" "1 \<le> ?k" "rx_ws_tail cs = Some x"
    using assms by (auto simp: NUMBER_RE_def Let_def split: list.splits if_splits)
  then obtain d ds where d: "cs = d # ds" "is_space d"
    by (cases cs) (auto simp: rx_ws_tail_def Let_def split: if_splits)
  have "fst x @ snd x = dropWhile is_space cs"
    using l(3) by (auto simp: rx_ws_tail_def Let_def butlast_newline split: if_splits)
  with l d assms show ?thesis by (auto simp: drop_number_marker_def rx_sub_def Let_def split: prod.splits)
qed

section \<open>What the document shows\<close>

text \<open>A table of this script shows its cells without their inline markers; every other block shows what
  the first script shows for it.\<close>

definition dt_block_view :: "md_block \<Rightarrow> ustr list list" where
  "dt_block_view b =
     (if kind b = Table then
        (let headers = normalize_table_line (hd (blines b))
         in map (\<lambda>l. map shown (pad_row (length headers) (normalize_table_line l)))
              (hd (blines b) # drop 2 (blines b))) @ [[[]]]
      else block_view b)"

lemma rtext_set_font [simp]: "rtext (set_font r n z c b) = rtext r"
  by (simp add: set_font_def)

lemma rtext_rbold_update: "map rtext (map (rbold_update f) rs) = map rtext rs"
  by (induction rs) auto

lemma shown_Nil [simp]: "shown [] = []"
  by code_simp

lemma cell_text_dt_cell:
  "cell_text (dt_cell ws r values i) = shown (if i < length values then values ! i else [])"
proof -
  have "para_text (p\<lparr>pruns := map (rbold_update f) (pruns p)\<rparr>) = para_text p" for p f
    by (simp add: para_text_def comp_def)
  then show ?thesis by (simp add: dt_cell_def Let_def cell_text_def para_text_inline)
qed

lemma dt_row_texts: "map cell_text (map (dt_cell ws r values) [0..<n]) = map shown (pad_row n values)"
  by (simp add: cell_text_dt_cell comp_def flip: map_upt_pad)

lemma dt_rows_texts:
  "map (map cell_text) (map (\<lambda>(r, values). map (dt_cell ws r values) [0..<n]) (enumerate k rows))
     = map (\<lambda>values. map shown (pad_row n values)) rows"
proof (induction rows arbitrary: k)
  case (Cons v rows)
  show ?case using Cons [of "Suc k"] dt_row_texts [of ws k v n] by simp
qed simp

lemma item_view_dt_code:
  "concat (map item_view (dt_render_code ls)) = map (\<lambda>l. [if l \<noteq> [] then l else lit '' '']) ls"
proof -
  have "concat (map item_view (map (\<lambda>(index, line). Para (add_run (P index) (set_font (new_run (Q line)) f z c b)))
          (enumerate n ls))) = map (\<lambda>l. [Q l]) ls" if "\<And>i. para_text (P i) = []" for n P Q f z c b
    using that by (induction ls arbitrary: n) (auto simp: item_view_def)
  from this [of "\<lambda>index. (new_para None)\<lparr>left_indent := Some (1/5), right_indent := Some (1/5),
         space_before := Some (if index = 0 then 4 else 0),
         space_after := Some (if index = length ls - 1 then 4 else 0),
         keep_together := Some True, pshade := Some ''F2F2F2''\<rparr>"]
  show ?thesis by (simp add: dt_render_code_def)
qed

lemma map_strip_id: "list_all clean ls \<Longrightarrow> map py_strip ls = ls"
  by (induction ls) (auto simp: clean_def)

lemma item_view_list_items:
  assumes "\<And>l. l \<in> set ls \<Longrightarrow> f l = g l"
  shows "concat (map item_view (map (\<lambda>l. Para (add_inline_runs (new_para st) (f l) n z)) ls)) = map (\<lambda>l. [shown (g l)]) ls"
  using assms by (induction ls) (auto simp: item_view_def para_text_inline)

lemma dt_table_view:
  assumes "kind b = Table" "blines b \<noteq> []"
  shows "\<exists>items. dt_render_table (blines b) = Inr items \<and> concat (map item_view items) = dt_block_view b"
proof -
  obtain h r where b: "blines b = h # r" using assms(2) by (cases "blines b") auto
  let ?rows = "normalize_table_line h # map normalize_table_line (drop 1 r)"
  have "length (normalize_table_line h) \<le> col_count ?rows" by (rule col_count_ge) simp
  then have "0 < col_count ?rows"
    using normalize_table_line_cells(1) [of h] by (metis gr0I le_zero_eq length_0_conv)
  then obtain ws where ws: "width_plan ?rows USABLE_DXA = Inr ws"
    using width_plan_total [of ?rows] by blast
  then show ?thesis
    using assms(1) b dt_rows_texts [of ws "length (normalize_table_line h)" 0 ?rows]
    by (auto simp: dt_render_table_def dt_block_view_def item_view_def table_texts_def Let_def drop_map
        simp del: enumerate_Suc_eq enumerate_simps)
qed

lemma dt_render_block_view:
  assumes "wf_block b"
  shows "\<exists>items. dt_render_block b = Inr items \<and> concat (map item_view items) = dt_block_view b"
proof (cases "kind b")
  case Code
  then show ?thesis by (simp add: dt_render_block_def dt_block_view_def block_view_def item_view_dt_code)
next
  case Heading
  then obtain l where l: "blines b = [l]" "HEADING_RE l \<noteq> None"
    using assms by (cases "blines b") (auto simp: wf_block_def)
  then show ?thesis using Heading
    by (auto simp: dt_render_block_def dt_block_view_def block_view_def dt_render_heading_def item_view_def Let_def)
next
  case Table
  moreover then have "blines b \<noteq> []" using assms by (auto simp: wf_block_def)
  ultimately show ?thesis using dt_table_view by (simp add: dt_render_block_def)
next
  case Bullet_list
  then have "\<And>l. l \<in> set (blines b) \<Longrightarrow> drop_bullet_marker l = rx_sub BULLET_RE l"
    using assms by (auto simp: wf_block_def list_all_iff intro: drop_bullet_marker_eq)
  from item_view_list_items [OF this] Bullet_list show ?thesis
    by (simp add: dt_render_block_def dt_block_view_def block_view_def)
next
  case Number_list
  then have "\<And>l. l \<in> set (blines b) \<Longrightarrow> drop_number_marker l = rx_sub NUMBER_RE l"
    using assms by (auto simp: wf_block_def list_all_iff intro: NUMBER_drop_marker_eq)
  from item_view_list_items [OF this] Number_list show ?thesis
    by (simp add: dt_render_block_def dt_block_view_def block_view_def)
next
  case Paragraph
  then have "map py_strip (blines b) = blines b" using assms by (simp add: wf_block_def map_strip_id)
  with Paragraph show ?thesis
    by (simp add: dt_render_block_def dt_block_view_def block_view_def item_view_def para_text_inline)
qed

lemma dt_render_blocks_view:
  "list_all wf_block bs \<Longrightarrow>
     \<exists>items. dt_render_blocks bs = Inr items \<and> concat (map item_view items) = concat (map dt_block_view bs)"
proof (induction bs)
  case (Cons b bs)
  then show ?case using dt_render_block_view [of b] by fastforce
qed simp

text \<open>The title page of the document: the first two blocks.\<close>

definition has_title_page :: "md_block list \<Rightarrow> bool" where
  "has_title_page bs \<longleftrightarrow> 2 \<le> length bs \<and> kind (bs ! 0) = Heading \<and> kind (bs ! 1) = Paragraph"

definition title_of :: "md_block \<Rightarrow> ustr" where
  "title_of b = (case HEADING_RE (hd (blines b)) of Some (k, g) \<Rightarrow> py_strip g | None \<Rightarrow> [])"

text \<open>The explainer document is built exactly when the text starts with a heading and a paragraph,
  otherwise the script stops with its one error. When built it is the cover made from those two, the
  contents page of the remaining blocks, then a body that shows the remaining blocks in order.\<close>

theorem dt_document_content:
  "dt_build text =
     (let bs = parse_blocks text in
      if has_title_page bs
      then Inr (add_cover (title_of (bs ! 0)) (join (lit '' '') (blines (bs ! 1))) @ add_toc (drop 2 bs)
                  @ (case dt_render_blocks (drop 2 bs) of Inr body \<Rightarrow> body | Inl e \<Rightarrow> []))
      else Inl (ValueError ''Markdown must start with a title and subtitle paragraph''))
   \<and> (\<exists>body. dt_render_blocks (drop 2 (parse_blocks text)) = Inr body \<and>
        concat (map item_view body) = concat (map dt_block_view (drop 2 (parse_blocks text))))"
proof -
  have w: "list_all wf_block (parse_blocks text)" by (simp add: parse_blocks_def parse_wf_all)
  then have "list_all wf_block (drop 2 (parse_blocks text))" by (auto simp: list_all_iff dest: in_set_dropD)
  then obtain body where b: "dt_render_blocks (drop 2 (parse_blocks text)) = Inr body"
    "concat (map item_view body) = concat (map dt_block_view (drop 2 (parse_blocks text)))"
    using dt_render_blocks_view by blast
  have "dt_build text = (let bs = parse_blocks text in
      if has_title_page bs
      then Inr (add_cover (title_of (bs ! 0)) (join (lit '' '') (blines (bs ! 1))) @ add_toc (drop 2 bs) @ body)
      else Inl (ValueError ''Markdown must start with a title and subtitle paragraph''))"
  proof (cases "has_title_page (parse_blocks text)")
    case True
    then obtain b0 b1 bs where p: "parse_blocks text = b0 # b1 # bs" "kind b0 = Heading" "kind b1 = Paragraph"
      by (cases "parse_blocks text"; cases "tl (parse_blocks text)") (auto simp: has_title_page_def)
    with w have "wf_block b0" by simp
    with p(2) obtain l where "blines b0 = [l]" "HEADING_RE l \<noteq> None"
      by (auto simp: wf_block_def length_Suc_conv)
    with p b(1) True show ?thesis by (auto simp: dt_build_def title_of_def)
  next
    case False
    then show ?thesis
      by (auto simp: dt_build_def has_title_page_def split: list.split)
  qed
  with b show ?thesis by (simp add: Let_def)
qed

text \<open>The integer column plan of a table adds up to the usable page width exactly, has one column per
  column of the widest row, and every column is positive for tables of at most 60 columns.\<close>

theorem dt_width_plan:
  "rows \<noteq> [] \<Longrightarrow> 0 < col_count rows \<Longrightarrow>
     \<exists>ws. width_plan rows USABLE_DXA = Inr ws \<and> sum_list ws = 9360 \<and> length ws = col_count rows \<and>
          (col_count rows \<le> 60 \<longrightarrow> (\<forall>w \<in> set ws. 0 < w))"
  using width_plan_total [of rows USABLE_DXA] width_plan_sum width_plan_length width_plan_pos
  by (fastforce simp: USABLE_DXA_def)

theorem dt_width_plan_witness:
  "\<exists>ws. width_plan [[lit ''a'', lit ''a longer cell''], [lit ''b'']] USABLE_DXA = Inr ws \<and> sum_list ws = 9360 \<and>
        length ws = 2 \<and> (\<forall>w \<in> set ws. 0 < w)"
  using dt_width_plan [of "[[lit ''a'', lit ''a longer cell''], [lit ''b'']]"]
  by (simp add: col_count_def numeral_2_eq_2)

end
