(* ===== verification/Lens_Worker.thy ===== *)
theory Lens_Worker
  imports Complex_Main Py_Text
begin

text \<open>
  The Google Lens worker (\<^verbatim>\<open>ai-service/google-lens-worker\<close>): the two HTTP handlers of \<^verbatim>\<open>main.py\<close>, the
  mock mode, and \<^verbatim>\<open>run_real_google_lens\<close> of \<^verbatim>\<open>real_lens.py\<close>, which runs a Node script in a child
  process and manages a temporary file. The outside world is a record: whether the script exists,
  the environment, how the child ends for a given command line, and what writing the temporary file
  does. \<^verbatim>\<open>json.loads\<close> and \<^verbatim>\<open>str\<close> of a non-string JSON value are parameters of that record. The state is
  the list of temporary files on disk.
\<close>

section \<open>JSON values\<close>

datatype json = JNull | JBool bool | JNum rat | JStr ustr | JList "json list" | JObj "(ustr \<times> json) list"

text \<open>Python truth value of a decoded JSON value.\<close>

fun truthy :: "json \<Rightarrow> bool" where
  "truthy JNull = False"
| "truthy (JBool b) = b"
| "truthy (JNum r) = (r \<noteq> 0)"
| "truthy (JStr s) = (s \<noteq> [])"
| "truthy (JList xs) = (xs \<noteq> [])"
| "truthy (JObj kvs) = (kvs \<noteq> [])"

text \<open>\<^verbatim>\<open>value.get(key)\<close>: only a JSON object has the method.\<close>

fun json_get :: "json \<Rightarrow> ustr \<Rightarrow> json res" where
  "json_get (JObj kvs) k = Inr (case map_of kvs k of None \<Rightarrow> JNull | Some v \<Rightarrow> v)"
| "json_get _ k = Inl AttributeError"

section \<open>Small library functions\<close>

text \<open>\<^verbatim>\<open>pathlib.PurePosixPath(s).suffix\<close>: the last path component from its last dot, if the dot is
  neither its first nor its last character.\<close>

definition path_name :: "ustr \<Rightarrow> ustr" where
  "path_name s =
     (let parts = filter (\<lambda>w. w \<noteq> [] \<and> w \<noteq> lit ''.'') (split_on 47 s)
      in if parts = [] then [] else last parts)"

definition path_suffix :: "ustr \<Rightarrow> ustr" where
  "path_suffix s =
     (let name = path_name s; ext = rev (takeWhile (\<lambda>c. c \<noteq> 46) (rev name)); k = length name - length ext
      in if 46 \<in> set name \<and> 1 < k \<and> ext \<noteq> [] then 46 # ext else [])"

section \<open>The world around the worker\<close>

datatype child_result = Child_not_started | Child_timeout | Child_done int ustr ustr

record world =
  use_mock_env :: "ustr option"
  node_script_exists :: bool
  node_script :: ustr
  timeout_ok :: bool
  json_loads :: "ustr \<Rightarrow> json option"
  json_str :: "json \<Rightarrow> ustr"
  temp_name :: "ustr \<Rightarrow> ustr"
  temp_open_ok :: bool
  temp_write_ok :: bool
  child :: "ustr list \<Rightarrow> ustr option \<Rightarrow> child_result"

definition str_of_json :: "world \<Rightarrow> json \<Rightarrow> ustr" where
  "str_of_json w j = (case j of JStr s \<Rightarrow> s | _ \<Rightarrow> json_str w j)"

definition mock_title1 :: ustr where
  "mock_title1 =
     [66, 7897, 32, 273, 7891, 32, 110, 103, 7911, 32, 110, 7919, 32, 108, 7909, 97, 32, 115, 97,
     116, 105, 110, 32, 109, 111, 99, 107]"

definition mock_title2 :: ustr where
  "mock_title2 =
     [75, 7871, 116, 32, 113, 117, 7843, 32, 116, 104, 105, 7871, 117, 32, 112, 114, 111, 100, 117,
     99, 116, 85, 114, 108, 32, 273, 7875, 32, 107, 105, 7875, 109, 32, 116, 104, 7917, 32, 110,
     104, 225, 110, 104, 32, 107, 104, 244, 110, 103, 32, 108, 432, 117]"

definition missing_image_detail :: ustr where
  "missing_image_detail =
     [105, 109, 97, 103, 101, 32, 104, 111, 7863, 99, 32, 105, 109, 97, 103, 101, 85, 114, 108, 32,
     108, 224, 32, 98, 7855, 116, 32, 98, 117, 7897, 99]"

definition unknown_error :: ustr where
  "unknown_error = lit ''Unknown Google Lens error''"

section \<open>Running the Node script\<close>

type_synonym temp_files = "ustr list"

text \<open>The command line: limit, then the image address, then the path of the temporary file.\<close>

definition lens_command :: "world \<Rightarrow> ustr option \<Rightarrow> int \<Rightarrow> ustr option \<Rightarrow> ustr list" where
  "lens_command w image_url limit temp_path =
     [lit ''node'', node_script w, lit ''--limit'', dec_str limit]
     @ (case image_url of Some u \<Rightarrow> if u \<noteq> [] then [lit ''--imageUrl'', u] else [] | None \<Rightarrow> [])
     @ (case temp_path of Some p \<Rightarrow> [lit ''--imagePath'', p] | None \<Rightarrow> [])"

text \<open>The keyword reaches the child through the variable \<^verbatim>\<open>LENS_SEARCH_KEYWORD\<close>.\<close>

definition keyword_env :: "ustr option \<Rightarrow> ustr option" where
  "keyword_env keyword = (case keyword of Some k \<Rightarrow> if k \<noteq> [] then Some k else None | None \<Rightarrow> None)"

definition error_message :: "world \<Rightarrow> ustr \<Rightarrow> ustr res" where
  "error_message w stderr =
     (let error_payload = (if stderr \<noteq> [] then (case json_loads w stderr of Some j \<Rightarrow> j | None \<Rightarrow> JObj [])
                           else JObj [])
      in bindR (json_get error_payload (lit ''error'')) (\<lambda>e.
           Inr (if truthy e then str_of_json w e else if stderr \<noteq> [] then stderr else unknown_error)))"

definition read_result :: "world \<Rightarrow> child_result \<Rightarrow> json list res" where
  "read_result w cr =
     (case cr of
        Child_not_started \<Rightarrow> Inl OSError
      | Child_timeout \<Rightarrow> Inl TimeoutExpired
      | Child_done returncode stdout stderr \<Rightarrow>
          if returncode \<noteq> 0 then
            bindR (error_message w (py_strip stderr)) (\<lambda>m. Inl (RuntimeError m))
          else
            (case json_loads w (if stdout \<noteq> [] then stdout else lit ''{}'') of
               None \<Rightarrow> Inl JSONDecodeError
             | Some payload \<Rightarrow>
                 bindR (json_get payload (lit ''success'')) (\<lambda>ok.
                   if \<not> truthy ok then
                     bindR (json_get payload (lit ''error'')) (\<lambda>e.
                       Inl (RuntimeError (if truthy e then str_of_json w e else unknown_error)))
                   else
                     bindR (json_get payload (lit ''data'')) (\<lambda>d.
                       Inr (case d of JList xs \<Rightarrow> xs | _ \<Rightarrow> [])))))"

text \<open>The \<^verbatim>\<open>finally\<close> clause removes the temporary file when its path was recorded and it still exists.\<close>

definition remove_temp :: "ustr option \<Rightarrow> temp_files \<Rightarrow> temp_files" where
  "remove_temp temp_file_path files =
     (case temp_file_path of
        Some p \<Rightarrow> if p \<noteq> [] \<and> p \<in> set files then removeAll p files else files
      | None \<Rightarrow> files)"

text \<open>\<^verbatim>\<open>Path(image_filename or "upload.jpg").suffix or ".jpg"\<close>\<close>

definition upload_suffix :: "ustr option \<Rightarrow> ustr" where
  "upload_suffix image_filename =
     (let fname = (case image_filename of Some f \<Rightarrow> if f \<noteq> [] then f else lit ''upload.jpg'' | None \<Rightarrow> lit ''upload.jpg'')
      in if path_suffix fname \<noteq> [] then path_suffix fname else lit ''.jpg'')"

definition run_real_google_lens ::
  "world \<Rightarrow> ustr option \<Rightarrow> ustr option \<Rightarrow> int \<Rightarrow> byte list option \<Rightarrow> ustr option \<Rightarrow> (temp_files, json list) sm" where
  "run_real_google_lens w image_url keyword limit image_bytes image_filename = (\<lambda>files.
     if \<not> node_script_exists w then (Inl (RuntimeError (lit ''Node script not found: '' @ node_script w)), files)
     else
       (case image_bytes of
          None \<Rightarrow>
            (if \<not> timeout_ok w then (Inl (ValueError ''invalid literal for int()''), files)
             else (read_result w (child w (lens_command w image_url limit None) (keyword_env keyword)), files))
        | Some data \<Rightarrow>
            (let p = temp_name w (upload_suffix image_filename); files1 = p # files
             in if \<not> temp_open_ok w then (Inl OSError, files)
                else if \<not> temp_write_ok w then (Inl OSError, remove_temp None files1)
                else if \<not> timeout_ok w then
                  (Inl (ValueError ''invalid literal for int()''), remove_temp (Some p) files1)
                else (read_result w (child w (lens_command w image_url limit (Some p)) (keyword_env keyword)),
                      remove_temp (Some p) files1))))"

section \<open>Mock mode and dispatch\<close>

definition use_mock_mode :: "world \<Rightarrow> bool" where
  "use_mock_mode w =
     (py_lower (case use_mock_env w of Some v \<Rightarrow> v | None \<Rightarrow> lit ''false'') = lit ''true'')"

definition json_opt_str :: "ustr option \<Rightarrow> json" where
  "json_opt_str o' = (case o' of Some s \<Rightarrow> JStr s | None \<Rightarrow> JNull)"

definition image_url_or :: "ustr option \<Rightarrow> ustr \<Rightarrow> json" where
  "image_url_or image_url d = JStr (case image_url of Some u \<Rightarrow> if u \<noteq> [] then u else d | None \<Rightarrow> d)"

definition mock_results :: "ustr option \<Rightarrow> ustr option \<Rightarrow> byte list option \<Rightarrow> ustr option \<Rightarrow> json list" where
  "mock_results image_url keyword image_bytes image_filename =
     [JObj [(lit ''title'', JStr mock_title1), (lit ''price'', JNum 129000), (lit ''currency'', JStr (lit ''VND'')),
        (lit ''shopName'', JStr (lit ''Mock Shop'')), (lit ''source'', JStr (lit ''shopee.vn'')),
        (lit ''imageUrl'', image_url_or image_url (lit ''https://example.com/mock-image.jpg'')),
        (lit ''productUrl'', JStr (lit ''https://example.com/mock-product'')),
        (lit ''confidenceScore'', JNum (78/100)),
        (lit ''rawData'', JObj [(lit ''mock'', JBool True), (lit ''keyword'', json_opt_str keyword),
           (lit ''imageFilename'', json_opt_str image_filename),
           (lit ''imageBytesLength'', JNum (of_nat (length (case image_bytes of Some b \<Rightarrow> b | None \<Rightarrow> []))))])],
      JObj [(lit ''title'', JStr mock_title2), (lit ''price'', JNull), (lit ''currency'', JStr (lit ''VND'')),
        (lit ''shopName'', JStr (lit ''Mock Shop 2'')), (lit ''source'', JStr (lit ''google_lens_mock'')),
        (lit ''imageUrl'', image_url_or image_url (lit ''https://example.com/mock-image-2.jpg'')),
        (lit ''productUrl'', JNull), (lit ''confidenceScore'', JNum (51/100)),
        (lit ''rawData'', JObj [(lit ''mock'', JBool True), (lit ''missingProductUrl'', JBool True)])]]"

definition search_google_lens ::
  "world \<Rightarrow> ustr option \<Rightarrow> ustr option \<Rightarrow> int \<Rightarrow> byte list option \<Rightarrow> ustr option \<Rightarrow> (temp_files, json list) sm" where
  "search_google_lens w image_url keyword limit image_bytes image_filename =
     (if use_mock_mode w
      then retS (py_slice (mock_results image_url keyword image_bytes image_filename) 0 limit)
      else run_real_google_lens w image_url keyword limit image_bytes image_filename)"

section \<open>The HTTP handlers\<close>

text \<open>\<^verbatim>\<open>except RuntimeError\<close>: other exceptions pass through.\<close>

definition http_error :: "pyexc \<Rightarrow> pyexc" where
  "http_error e =
     (case e of
        RuntimeError message \<Rightarrow>
          HTTPException (if has_sub (lit ''blocking automated requests'') (py_lower message) then 503 else 502)
            message
      | _ \<Rightarrow> e)"

definition ok_body :: "json list \<Rightarrow> json" where
  "ok_body results = JObj [(lit ''success'', JBool True), (lit ''data'', JList results)]"

definition catch_runtime :: "(temp_files, json list) sm \<Rightarrow> (temp_files, json) sm" where
  "catch_runtime m = (\<lambda>files.
     case m files of (Inl e, f) \<Rightarrow> (Inl (http_error e), f) | (Inr x, f) \<Rightarrow> (Inr (ok_body x), f))"

record upload =
  filename :: "ustr option"
  content :: "byte list"

definition search_by_image ::
  "world \<Rightarrow> upload option \<Rightarrow> ustr option \<Rightarrow> ustr option \<Rightarrow> int \<Rightarrow> (temp_files, json) sm" where
  "search_by_image w img imageUrl keyword limit =
     (if img = None \<and> (imageUrl = None \<or> imageUrl = Some [])
      then raiseS (HTTPException 400 missing_image_detail)
      else catch_runtime (search_google_lens w imageUrl keyword limit (map_option content img)
             (case img of Some i \<Rightarrow> filename i | None \<Rightarrow> None)))"

record search_request =
  req_imageUrl :: "ustr option"
  req_keyword :: "ustr option"
  req_limit :: int

text \<open>The bounds the request model declares on \<^verbatim>\<open>limit\<close>; the framework rejects other bodies before the
  handler runs.\<close>

definition valid_request :: "search_request \<Rightarrow> bool" where
  "valid_request r \<longleftrightarrow> 1 \<le> req_limit r \<and> req_limit r \<le> 20"

definition search_by_image_json :: "world \<Rightarrow> search_request \<Rightarrow> (temp_files, json) sm" where
  "search_by_image_json w payload =
     catch_runtime (search_google_lens w (req_imageUrl payload) (req_keyword payload) (req_limit payload)
       None None)"

section \<open>Facts\<close>

lemma remove_temp_created: "p \<noteq> [] \<Longrightarrow> p \<notin> set files \<Longrightarrow> remove_temp (Some p) (p # files) = files"
  by (simp add: remove_temp_def)

lemma run_real_files:
  assumes "\<And>sfx. temp_name w sfx \<noteq> []" "\<And>sfx. temp_name w sfx \<notin> set files"
  shows "snd (run_real_google_lens w u k l b f files) =
     (if node_script_exists w \<and> b \<noteq> None \<and> temp_open_ok w \<and> \<not> temp_write_ok w then temp_name w (upload_suffix f) # files else files)"
  using assms remove_temp_created
  by (auto simp: run_real_google_lens_def Let_def remove_temp_def [of None] split: option.splits)

lemma read_result_errors:
  "read_result w cr = Inl e \<Longrightarrow> (\<exists>m. e = RuntimeError m) \<or> e = OSError \<or> e = TimeoutExpired \<or> e = JSONDecodeError \<or> e = AttributeError"
proof -
  have g: "json_get j k = Inl x \<Longrightarrow> x = AttributeError" for j k x by (cases j) auto
  then show "read_result w cr = Inl e \<Longrightarrow> ?thesis"
    by (auto simp: read_result_def error_message_def Let_def bindR_def
        split: child_result.splits option.splits sum.splits if_splits dest: g)
qed

lemma catch_runtime_files: "snd (catch_runtime m files) = snd (m files)"
  by (auto simp: catch_runtime_def split: prod.splits sum.splits)

lemma http_error_no_runtime: "http_error e \<noteq> RuntimeError m"
  by (cases e) (auto simp: http_error_def)

lemma catch_runtime_no_runtime: "fst (catch_runtime m files) \<noteq> Inl (RuntimeError t)"
  by (auto simp: catch_runtime_def http_error_no_runtime split: prod.splits sum.splits)

lemma length_mock: "0 \<le> limit \<Longrightarrow> length (py_slice (mock_results u k b f) 0 limit) = min (nat limit) 2"
  by (simp add: slice_simps mock_results_def)

section \<open>Properties\<close>

text \<open>The exceptions of the child-process code that neither handler turns into an HTTP error.\<close>

definition uncaught :: "pyexc \<Rightarrow> bool" where
  "uncaught e \<longleftrightarrow> e \<in> {OSError, TimeoutExpired, JSONDecodeError, AttributeError,
                         ValueError ''invalid literal for int()''}"

lemma run_real_errors:
  "fst (run_real_google_lens w u k l b f files) = Inl e \<Longrightarrow> (\<exists>m. e = RuntimeError m) \<or> uncaught e"
  by (auto simp: run_real_google_lens_def uncaught_def Let_def split: option.splits if_splits
      dest: read_result_errors)

lemma catch_runtime_errors:
  assumes "\<And>e. fst (m files) = Inl e \<Longrightarrow> (\<exists>t. e = RuntimeError t) \<or> uncaught e"
  shows "(\<exists>xs. catch_runtime m files = (Inr (ok_body xs), snd (m files)))
       \<or> (\<exists>t. catch_runtime m files = (Inl (HTTPException 502 t), snd (m files)))
       \<or> (\<exists>t. catch_runtime m files = (Inl (HTTPException 503 t), snd (m files)))
       \<or> (\<exists>e. uncaught e \<and> catch_runtime m files = (Inl e, snd (m files)))"
proof (cases "m files")
  case (Pair r s)
  show ?thesis
  proof (cases r)
    case (Inl e)
    with Pair assms [of e] consider t where "e = RuntimeError t" | "uncaught e" by auto
    then show ?thesis using Pair Inl
      by cases (auto simp: catch_runtime_def http_error_def uncaught_def)
  qed (use Pair in \<open>auto simp: catch_runtime_def\<close>)
qed

text \<open>C30. The temporary files: both handlers leave the set of temporary files as they found it, whatever the child process
  does (success, failure, bad output, time-out) and whether or not the file can be created, except in one case: when an
  upload is searched for with the real script and the temporary file is created but writing it fails, exactly that file
  stays behind, for its name is recorded after the write. Names of temporary files are fresh and not empty.\<close>

theorem lens_temp_files:
  assumes "\<And>sfx. temp_name w sfx \<noteq> []" "\<And>sfx. temp_name w sfx \<notin> set files"
  shows "snd (search_by_image w img url keyword limit files) =
       (case img of
          None \<Rightarrow> files
        | Some i \<Rightarrow>
            if \<not> use_mock_mode w \<and> node_script_exists w \<and> temp_open_ok w \<and> \<not> temp_write_ok w
            then temp_name w (upload_suffix (filename i)) # files else files) \<and>
     snd (search_by_image_json w payload files) = files"
  using run_real_files [OF assms]
  by (auto simp: search_by_image_def search_by_image_json_def search_google_lens_def catch_runtime_files sm_simps split: option.split)

definition sample_world :: world where
  "sample_world = \<lparr>use_mock_env = None, node_script_exists = True, node_script = lit ''lens.cjs'', timeout_ok = True,
     json_loads = (\<lambda>s. if s = lit ''ok'' then Some (JObj [(lit ''success'', JBool True), (lit ''data'', JList [JNull])])
                       else None),
     json_str = (\<lambda>_. []), temp_name = (\<lambda>sfx. lit ''/tmp/x'' @ sfx), temp_open_ok = True, temp_write_ok = True,
     child = (\<lambda>_ _. Child_done 0 (lit ''ok'') [])\<rparr>"

theorem lens_temp_files_witness:
  "snd (search_by_image sample_world (Some \<lparr>filename = Some (lit ''a.png''), content = [1, 2]\<rparr>) None None 10 []) = [] \<and>
   snd (search_by_image (sample_world\<lparr>temp_write_ok := False\<rparr>) (Some \<lparr>filename = None, content = [1, 2]\<rparr>) None None 10 []) =
     [lit ''/tmp/x.jpg'']"
proof -
  have m: "\<not> use_mock_mode (sample_world\<lparr>temp_write_ok := False\<rparr>)"
    by (simp add: sample_world_def use_mock_mode_def py_lower_def lower_cp_def)
  have s: "upload_suffix None = lit ''.jpg''" by code_simp
  show ?thesis
    using lens_temp_files [of sample_world "[]" "Some \<lparr>filename = Some (lit ''a.png''), content = [1, 2]\<rparr>" None None 10]
      lens_temp_files [of "sample_world\<lparr>temp_write_ok := False\<rparr>" "[]" "Some \<lparr>filename = None, content = [1, 2]\<rparr>" None None 10] m s
    by (simp add: sample_world_def)
qed

text \<open>The outcomes of the form handler, for every world: status 400 exactly when there is neither a
  picture nor an address, and then nothing is run; otherwise a success body with the list of results, or
  status 502 or 503 for an error the search reports, or one of the five exceptions of the child-process
  code the handler does not catch; a reported error never reaches the caller as it is.\<close>

theorem search_by_image_outcomes:
  "if img = None \<and> (url = None \<or> url = Some [])
   then search_by_image w img url keyword limit files = (Inl (HTTPException 400 missing_image_detail), files)
   else (\<exists>xs. fst (search_by_image w img url keyword limit files) = Inr (ok_body xs))
      \<or> (\<exists>c t. c \<in> {502, 503} \<and> fst (search_by_image w img url keyword limit files) = Inl (HTTPException c t))
      \<or> (\<exists>e. uncaught e \<and> fst (search_by_image w img url keyword limit files) = Inl e)"
proof -
  let ?m = "search_google_lens w url keyword limit (map_option content img)
             (case img of Some i \<Rightarrow> filename i | None \<Rightarrow> None)"
  have "(\<exists>t. e = RuntimeError t) \<or> uncaught e" if "fst (?m files) = Inl e" for e
    using that by (auto simp: search_google_lens_def retS_def dest: run_real_errors split: if_splits)
  then have "(\<exists>xs. catch_runtime ?m files = (Inr (ok_body xs), snd (?m files)))
       \<or> (\<exists>t. catch_runtime ?m files = (Inl (HTTPException 502 t), snd (?m files)))
       \<or> (\<exists>t. catch_runtime ?m files = (Inl (HTTPException 503 t), snd (?m files)))
       \<or> (\<exists>e. uncaught e \<and> catch_runtime ?m files = (Inl e, snd (?m files)))"
    by (rule catch_runtime_errors [of ?m files])
  then
  have "(\<exists>xs. fst (catch_runtime ?m files) = Inr (ok_body xs))
      \<or> (\<exists>c t. c \<in> {502, 503} \<and> fst (catch_runtime ?m files) = Inl (HTTPException c t))
      \<or> (\<exists>e. uncaught e \<and> fst (catch_runtime ?m files) = Inl e)"
    by (elim disjE exE conjE) auto
  then show ?thesis unfolding search_by_image_def by (simp add: raiseS_def)
qed

text \<open>The two sides of a child that ran: an exit status of zero with a success payload, and any other.\<close>

lemma read_result_success:
  assumes "json_loads w (if out \<noteq> [] then out else lit ''{}'') = Some (JObj kvs)"
    and "map_of kvs (lit ''success'') = Some ok" "truthy ok" "map_of kvs (lit ''data'') = Some (JList xs)"
  shows "read_result w (Child_done 0 out err) = Inr xs"
  using assms by (simp add: read_result_def del: lit_simps)

lemma read_result_failure:
  assumes "code \<noteq> 0" "json_loads w (py_strip err) = Some (JObj kvs)" "py_strip err \<noteq> []"
    "map_of kvs (lit ''error'') = Some (JStr m)" "m \<noteq> []"
  shows "read_result w (Child_done code out err) = Inl (RuntimeError m)"
  using assms by (simp add: read_result_def error_message_def str_of_json_def Let_def del: lit_simps)

text \<open>What the JSON handler answers for a child that ran and exited: with status zero and a success
  payload, exactly the payload's list of data; with another status and an error payload on its error
  output, that message with status 503 when it says that requests are being blocked and 502 otherwise.\<close>

theorem search_json_child_result:
  assumes "\<not> use_mock_mode w" "node_script_exists w" "timeout_ok w"
    and "child w (lens_command w (req_imageUrl r) (req_limit r) None) (keyword_env (req_keyword r)) = Child_done code out err"
    and "json_loads w (if code \<noteq> 0 then py_strip err else if out \<noteq> [] then out else lit ''{}'') = Some (JObj kvs)"
    and "if code = 0 then (\<exists>ok. map_of kvs (lit ''success'') = Some ok \<and> truthy ok) \<and> map_of kvs (lit ''data'') = Some (JList xs)
         else py_strip err \<noteq> [] \<and> m \<noteq> [] \<and> map_of kvs (lit ''error'') = Some (JStr m)"
  shows "search_by_image_json w r files =
     (if code = 0 then Inr (ok_body xs)
      else Inl (HTTPException (if has_sub (lit ''blocking automated requests'') (py_lower m) then 503 else 502) m), files)"
proof -
  have run: "search_by_image_json w r files = catch_runtime (\<lambda>files. (read_result w (Child_done code out err), files)) files"
    using assms(1-4) by (simp add: search_by_image_json_def search_google_lens_def run_real_google_lens_def catch_runtime_def)
  show ?thesis
  proof (cases "code = 0")
    case True
    then obtain ok where "json_loads w (if out \<noteq> [] then out else lit ''{}'') = Some (JObj kvs)"
      "map_of kvs (lit ''success'') = Some ok" "truthy ok" "map_of kvs (lit ''data'') = Some (JList xs)"
      using assms(5,6) by (auto simp del: lit_simps)
    then have "read_result w (Child_done code out err) = Inr xs" using True read_result_success by metis
    with True show ?thesis unfolding run by (simp add: catch_runtime_def)
  next
    case False
    then have "json_loads w (py_strip err) = Some (JObj kvs)" "py_strip err \<noteq> []"
      "map_of kvs (lit ''error'') = Some (JStr m)" "m \<noteq> []" using assms(5,6) by simp_all
    from read_result_failure [OF False this] False show ?thesis unfolding run
      by (simp add: catch_runtime_def http_error_def del: lit_simps)
  qed
qed

theorem search_json_child_result_witness:
  "search_by_image_json sample_world \<lparr>req_imageUrl = Some (lit ''u''), req_keyword = None, req_limit = 10\<rparr> []
     = (Inr (ok_body [JNull]), [])"
proof -
  have "\<not> use_mock_mode sample_world" "node_script_exists sample_world" "timeout_ok sample_world"
    by (simp_all add: sample_world_def use_mock_mode_def py_lower_def lower_cp_def)
  moreover have "child sample_world c k = Child_done 0 (lit ''ok'') []" for c k by (simp add: sample_world_def)
  ultimately show ?thesis
    using search_json_child_result [of sample_world "\<lparr>req_imageUrl = Some (lit ''u''), req_keyword = None, req_limit = 10\<rparr>"
        0 "lit ''ok''" "[]" "[(lit ''success'', JBool True), (lit ''data'', JList [JNull])]" "[JNull]" "[]" "[]"]
    by (simp add: sample_world_def)
qed

text \<open>In mock mode both handlers answer with the first \<open>limit\<close> of the two canned results and touch no
  file, for every limit the request model accepts.\<close>

theorem mock_mode_results:
  "use_mock_mode w \<Longrightarrow> valid_request r \<Longrightarrow>
     \<exists>xs. search_by_image_json w r files = (Inr (ok_body xs), files) \<and> length xs = min (nat (req_limit r)) 2 \<and>
          xs = take (nat (req_limit r)) (mock_results (req_imageUrl r) (req_keyword r) None None)"
  by (simp add: search_by_image_json_def search_google_lens_def catch_runtime_def retS_def valid_request_def
      mock_results_def slice_simps)

theorem mock_mode_results_witness:
  "\<exists>xs. search_by_image_json (sample_world\<lparr>use_mock_env := Some (lit ''TRUE'')\<rparr>)
      \<lparr>req_imageUrl = None, req_keyword = None, req_limit = 1\<rparr> [] = (Inr (ok_body xs), []) \<and> length xs = 1"
  using mock_mode_results [of "sample_world\<lparr>use_mock_env := Some (lit ''TRUE'')\<rparr>"
      "\<lparr>req_imageUrl = None, req_keyword = None, req_limit = 1\<rparr>" "[]"]
  by (auto simp: use_mock_mode_def valid_request_def py_lower_def lower_cp_def)

end
