(* ===== verification/Gender_Age.thy ===== *)
theory Gender_Age
  imports Complex_Main Py_Text
begin

text \<open>
  The gender and age service (\<^verbatim>\<open>ai-service/ai-gender-age-service\<close>): preparation of the label table
  (\<^verbatim>\<open>prepare_fairface.py\<close>), label lookup (\<^verbatim>\<open>dataset.py\<close>), the shape of the two heads (\<^verbatim>\<open>model.py\<close>),
  prediction (\<^verbatim>\<open>inference.py\<close>), the HTTP handlers (\<^verbatim>\<open>app.py\<close>) and the training loop with its best
  checkpoint (\<^verbatim>\<open>train.py\<close>). The tensor library is outside the repository: the network, one epoch of
  optimisation, the image pipeline and \<^verbatim>\<open>softmax\<close> are arguments of the definitions. Scores are exact
  rationals where the program has floats. A missing CSV value is \<open>None\<close>.
\<close>

section \<open>Preparing the label table (prepare\_fairface.py)\<close>

record raw_row =
  raw_file :: "ustr option"
  raw_age :: "ustr option"
  raw_gender :: "ustr option"

record label_row =
  lr_file :: "ustr option"
  lr_gender :: "ustr option"
  lr_age_group :: "ustr option"

text \<open>\<^verbatim>\<open>str\<close> of a cell: a missing value is the float \<^verbatim>\<open>nan\<close>.\<close>

definition str_cell :: "ustr option \<Rightarrow> ustr" where
  "str_cell v = (case v of Some s \<Rightarrow> s | None \<Rightarrow> lit ''nan'')"

definition map_age_group :: "ustr option \<Rightarrow> ustr" where
  "map_age_group age =
     (let a = str_cell age
      in if a \<in> {lit ''0-2'', lit ''3-9'', lit ''10-19''} then lit ''under_18''
         else if a = lit ''20-29'' then lit ''18_25''
         else if a = lit ''30-39'' then lit ''26_35''
         else lit ''36_plus'')"

definition relabel :: "raw_row \<Rightarrow> label_row" where
  "relabel r = \<lparr>lr_file = raw_file r, lr_gender = Some (py_lower (str_cell (raw_gender r))),
                lr_age_group = Some (map_age_group (raw_age r))\<rparr>"

definition complete_row :: "label_row \<Rightarrow> bool" where
  "complete_row r \<longleftrightarrow> lr_file r \<noteq> None \<and> lr_gender r \<noteq> None \<and> lr_age_group r \<noteq> None"

text \<open>The rows written to the output table; \<open>sample_rows\<close> is the data frame's random sample.\<close>

definition prepare_csv ::
  "(nat \<Rightarrow> label_row list \<Rightarrow> label_row list) \<Rightarrow> raw_row list \<Rightarrow> nat \<Rightarrow> label_row list" where
  "prepare_csv sample_rows df max_samples =
     (let df2 = filter complete_row (map relabel df)
      in if length df2 > max_samples then sample_rows max_samples df2 else df2)"

definition TRAIN_SAMPLES :: nat where
  "TRAIN_SAMPLES = 30000"

definition VAL_SAMPLES :: nat where
  "VAL_SAMPLES = 5000"

section \<open>Label lookup (dataset.py)\<close>

definition GENDER_MAP :: "(ustr \<times> nat) list" where
  "GENDER_MAP = [(lit ''male'', 0), (lit ''female'', 1)]"

definition AGE_MAP :: "(ustr \<times> nat) list" where
  "AGE_MAP = [(lit ''under_18'', 0), (lit ''18_25'', 1), (lit ''26_35'', 2), (lit ''36_plus'', 3)]"

definition lookup_key :: "(ustr \<times> nat) list \<Rightarrow> ustr \<Rightarrow> nat res" where
  "lookup_key m k = (case map_of m k of Some v \<Rightarrow> Inr v | None \<Rightarrow> Inl KeyError)"

text \<open>One item: \<open>load_image\<close> stands for joining the path, opening the picture and the transforms.\<close>

definition getitem ::
  "(ustr \<Rightarrow> 'img res) \<Rightarrow> label_row list \<Rightarrow> int \<Rightarrow> ('img \<times> nat \<times> nat) res" where
  "getitem load_image df idx =
     bindR (py_get df idx) (\<lambda>row.
     bindR (case lr_file row of Some f \<Rightarrow> load_image f | None \<Rightarrow> Inl TypeError) (\<lambda>img.
     bindR (lookup_key GENDER_MAP (py_lower (str_cell (lr_gender row)))) (\<lambda>gender.
     bindR (lookup_key AGE_MAP (str_cell (lr_age_group row))) (\<lambda>age.
       Inr (img, gender, age)))))"

section \<open>The two heads (model.py)\<close>

text \<open>A layer is described by its sizes; \<open>head_out\<close> is the width of what a stack of layers returns on an
  input of width \<open>n\<close>, \<open>None\<close> when the widths do not fit.\<close>

datatype layer = Linear nat nat | ReLU | Dropout rat

definition gender_head :: "nat \<Rightarrow> layer list" where
  "gender_head in_features = [Linear in_features 256, ReLU, Dropout (3/10), Linear 256 2]"

definition age_head :: "nat \<Rightarrow> layer list" where
  "age_head in_features = [Linear in_features 256, ReLU, Dropout (3/10), Linear 256 4]"

fun head_out :: "layer list \<Rightarrow> nat \<Rightarrow> nat option" where
  "head_out [] n = Some n"
| "head_out (Linear i k # ls) n = (if n = i then head_out ls k else None)"
| "head_out (ReLU # ls) n = head_out ls n"
| "head_out (Dropout p # ls) n = head_out ls n"

section \<open>Prediction (inference.py)\<close>

definition GENDER_CLASSES :: "ustr list" where
  "GENDER_CLASSES = [lit ''male'', lit ''female'']"

definition AGE_CLASSES :: "ustr list" where
  "AGE_CLASSES = [lit ''under_18'', lit ''18_25'', lit ''26_35'', lit ''36_plus'']"

text \<open>\<^verbatim>\<open>argmax\<close> of a row: the first index of the largest entry. \<open>round4\<close> is \<^verbatim>\<open>round(p, 4)\<close>.\<close>

fun argmax_from :: "nat \<Rightarrow> nat \<Rightarrow> rat \<Rightarrow> rat list \<Rightarrow> nat" where
  "argmax_from i best b [] = best"
| "argmax_from i best b (x # xs) =
     (if x > b then argmax_from (Suc i) i x xs else argmax_from (Suc i) best b xs)"

fun argmax :: "rat list \<Rightarrow> nat" where
  "argmax [] = 0"
| "argmax (x # xs) = argmax_from 1 0 x xs"

definition round4 :: "rat \<Rightarrow> rat" where
  "round4 p = (case quotient_of p of (a, b) \<Rightarrow> of_int (round_quot (a * 10000) b) / 10000)"

record prediction =
  pr_gender :: ustr
  pr_gender_conf :: rat
  pr_age_group :: ustr
  pr_age_conf :: rat

definition predict_gender_age ::
  "(rat list \<Rightarrow> rat list) \<Rightarrow> ('img \<Rightarrow> rat list \<times> rat list) \<Rightarrow> 'img \<Rightarrow> prediction res" where
  "predict_gender_age softmax net img =
     (case net img of (gender_logits, age_logits) \<Rightarrow>
        let gender_probs = softmax gender_logits; age_probs = softmax age_logits;
            gender_idx = argmax gender_probs; age_idx = argmax age_probs
        in bindR (py_get GENDER_CLASSES (int gender_idx)) (\<lambda>g.
           bindR (py_get AGE_CLASSES (int age_idx)) (\<lambda>a.
             Inr \<lparr>pr_gender = g, pr_gender_conf = round4 (gender_probs ! gender_idx),
                  pr_age_group = a, pr_age_conf = round4 (age_probs ! age_idx)\<rparr>)))"

section \<open>The HTTP handlers (app.py)\<close>

record picture =
  pic_width :: nat
  pic_height :: nat

record analysis =
  an_prediction :: prediction
  imageWidth :: nat
  imageHeight :: nat

definition health_check :: "bool \<times> ustr" where
  "health_check = (True, lit ''Gender Age AI Service is running'')"

text \<open>\<open>open_image\<close> decodes the upload and converts it to RGB.\<close>

definition analyze_person ::
  "(byte list \<Rightarrow> 'a picture_scheme res) \<Rightarrow> (rat list \<Rightarrow> rat list) \<Rightarrow>
   ('a picture_scheme \<Rightarrow> rat list \<times> rat list) \<Rightarrow> byte list \<Rightarrow> (bool \<times> analysis) res" where
  "analyze_person open_image softmax net image_bytes =
     bindR (open_image image_bytes) (\<lambda>pil_image.
     bindR (predict_gender_age softmax net pil_image) (\<lambda>result.
       Inr (True, \<lparr>an_prediction = result, imageWidth = pic_width pil_image,
                   imageHeight = pic_height pil_image\<rparr>)))"

section \<open>Training (train.py)\<close>

definition BATCH_SIZE :: nat where
  "BATCH_SIZE = 32"

definition EPOCHS :: nat where
  "EPOCHS = 15"

text \<open>The loader's batches in order, the last one possibly short.\<close>

function batches :: "nat \<Rightarrow> 'a list \<Rightarrow> 'a list list" where
  "batches n xs = (if xs = [] \<or> n = 0 then [] else take n xs # batches n (drop n xs))"
  by pat_completeness auto
termination by (relation "measure (\<lambda>(n, xs). length xs)") auto

declare batches.simps [simp del]

definition calculate_accuracy :: "rat list list \<Rightarrow> nat list \<Rightarrow> rat" where
  "calculate_accuracy logits labels =
     of_nat (length (filter (\<lambda>(l, y). argmax l = y) (zip logits labels))) / of_nat (length labels)"

record checkpoint =
  ck_gender_classes :: "ustr list"
  ck_age_classes :: "ustr list"
  ck_best_score :: rat

type_synonym 'img sample = "'img \<times> nat \<times> nat"

text \<open>The two sums over the validation batches, then the division by the number of batches.\<close>

definition val_sums ::
  "('img \<Rightarrow> rat list \<times> rat list) \<Rightarrow> 'img sample list list \<Rightarrow> rat \<times> rat" where
  "val_sums net val_loader =
     foldl (\<lambda>(val_gender_acc, val_age_acc) batch.
              (val_gender_acc
                 + calculate_accuracy (map (\<lambda>(x, g, a). fst (net x)) batch) (map (\<lambda>(x, g, a). g) batch),
               val_age_acc
                 + calculate_accuracy (map (\<lambda>(x, g, a). snd (net x)) batch) (map (\<lambda>(x, g, a). a) batch)))
       (0, 0) val_loader"

definition epoch_score ::
  "('img \<Rightarrow> rat list \<times> rat list) \<Rightarrow> 'img sample list list \<Rightarrow> rat res" where
  "epoch_score net val_loader =
     (case val_sums net val_loader of (g, a) \<Rightarrow>
        if val_loader = [] then Inl ZeroDivisionError
        else Inr (g / of_nat (length val_loader) * (3/5) + a / of_nat (length val_loader) * (2/5)))"

text \<open>The state of \<^verbatim>\<open>main\<close>: the network's weights, the best score so far and the saved checkpoint with
  the weights in it. \<open>train_epoch\<close> is one pass of the optimiser, \<open>apply_net\<close> the network on one picture.\<close>

record 'm train_state =
  ts_model :: 'm
  ts_best :: rat
  ts_saved :: "('m \<times> checkpoint) option"

definition make_checkpoint :: "rat \<Rightarrow> checkpoint" where
  "make_checkpoint b =
     \<lparr>ck_gender_classes = [lit ''male'', lit ''female''],
      ck_age_classes = [lit ''under_18'', lit ''18_25'', lit ''26_35'', lit ''36_plus''],
      ck_best_score = b\<rparr>"

definition run_epoch ::
  "(nat \<Rightarrow> 'm \<Rightarrow> 'm) \<Rightarrow> ('m \<Rightarrow> 'img \<Rightarrow> rat list \<times> rat list) \<Rightarrow> 'img sample list list \<Rightarrow>
   nat \<Rightarrow> ('m train_state, unit) sm" where
  "run_epoch train_epoch apply_net val_loader epoch = (\<lambda>st.
     let m = train_epoch epoch (ts_model st); st1 = st\<lparr>ts_model := m\<rparr>
     in case epoch_score (apply_net m) val_loader of
          Inl e \<Rightarrow> (Inl e, st1)
        | Inr score \<Rightarrow>
            (Inr (), if score > ts_best st
                     then st1\<lparr>ts_best := score, ts_saved := Some (m, make_checkpoint score)\<rparr>
                     else st1))"

fun run_epochs ::
  "(nat \<Rightarrow> 'm \<Rightarrow> 'm) \<Rightarrow> ('m \<Rightarrow> 'img \<Rightarrow> rat list \<times> rat list) \<Rightarrow> 'img sample list list \<Rightarrow>
   nat list \<Rightarrow> ('m train_state, unit) sm" where
  "run_epochs te net val [] = retS ()"
| "run_epochs te net val (e # es) = bindS (run_epoch te net val e) (\<lambda>_. run_epochs te net val es)"

definition train_main ::
  "(nat \<Rightarrow> 'm \<Rightarrow> 'm) \<Rightarrow> ('m \<Rightarrow> 'img \<Rightarrow> rat list \<times> rat list) \<Rightarrow> 'img sample list \<Rightarrow>
   'm \<Rightarrow> unit res \<times> 'm train_state" where
  "train_main train_epoch apply_net val_dataset m0 =
     run_epochs train_epoch apply_net (batches BATCH_SIZE val_dataset) [0..<EPOCHS]
       \<lparr>ts_model = m0, ts_best = 0, ts_saved = None\<rparr>"

section \<open>Labels and predictions\<close>

lemma GENDER_MAP_eq: "map_of GENDER_MAP k =
   (if k = lit ''male'' then Some 0 else if k = lit ''female'' then Some 1 else None)"
  by (simp add: GENDER_MAP_def del: lit_simps)

lemma AGE_MAP_eq: "map_of AGE_MAP k =
   (if k = lit ''under_18'' then Some 0 else if k = lit ''18_25'' then Some 1
    else if k = lit ''26_35'' then Some 2 else if k = lit ''36_plus'' then Some 3 else None)"
  by (simp add: AGE_MAP_def del: lit_simps)

lemma less2: "n < 2 \<Longrightarrow> n = 0 \<or> n = (1::nat)" by auto
lemma less4: "n < 4 \<Longrightarrow> n = 0 \<or> n = 1 \<or> n = 2 \<or> n = (3::nat)" by auto

lemma lookup_gender:
  "lookup_key GENDER_MAP k = Inr n \<longleftrightarrow> n < 2 \<and> GENDER_CLASSES ! n = k"
  by (auto simp: lookup_key_def GENDER_MAP_eq GENDER_CLASSES_def dest!: less2 simp del: lit_simps)

lemma lookup_age:
  "lookup_key AGE_MAP k = Inr n \<longleftrightarrow> n < 4 \<and> AGE_CLASSES ! n = k"
  by (auto simp: lookup_key_def AGE_MAP_eq AGE_CLASSES_def dest!: less4 simp del: lit_simps)

lemma lookup_key_errors: "lookup_key m k = Inl e \<Longrightarrow> e = KeyError"
  by (auto simp: lookup_key_def split: option.splits)

lemma map_age_group_known: "\<exists>n. lookup_key AGE_MAP (map_age_group a) = Inr n"
  by (auto simp: map_age_group_def Let_def lookup_key_def AGE_MAP_eq simp del: lit_simps)

lemma prepare_csv_rows:
  assumes "\<And>n xs. set (sample_rows n xs) \<subseteq> set xs"
    and "r \<in> set (prepare_csv sample_rows df k)"
  obtains q where "q \<in> set df" "r = relabel q" "raw_file q \<noteq> None"
proof -
  have "r \<in> set (filter complete_row (map relabel df))"
    using assms by (auto simp: prepare_csv_def Let_def simp del: filter_map set_filter split: if_splits)
  then show thesis by (auto simp: relabel_def complete_row_def intro: that)
qed

lemma prepare_csv_length:
  assumes "\<And>n xs. n \<le> length xs \<Longrightarrow> length (sample_rows n xs) = n"
  shows "length (prepare_csv sample_rows df k) = min k (length (filter (\<lambda>q. raw_file q \<noteq> None) df))"
proof -
  have "length (filter complete_row (map relabel df)) = length (filter (\<lambda>q. raw_file q \<noteq> None) df)"
    by (simp add: filter_map o_def complete_row_def relabel_def)
  then show ?thesis using assms by (auto simp: prepare_csv_def Let_def)
qed


definition first_max :: "rat list \<Rightarrow> nat \<Rightarrow> nat \<Rightarrow> bool" where
  "first_max ys n m \<longleftrightarrow> m < n \<and> (\<forall>k<n. ys ! k \<le> ys ! m) \<and> (\<forall>k<m. ys ! k < ys ! m)"

lemma first_max_Suc:
  assumes "first_max ys i m"
  shows "first_max ys (Suc i) (if ys ! i > ys ! m then i else m)"
  using assms by (auto simp: first_max_def less_Suc_eq)

lemma argmax_from_spec:
  assumes "first_max ys i best" "i \<le> length ys"
  shows "first_max ys (length ys) (argmax_from i best (ys ! best) (drop i ys))"
  using assms
proof (induction "length ys - i" arbitrary: i best)
  case 0
  then show ?case by simp
next
  case (Suc n)
  then have d: "drop i ys = ys ! i # drop (Suc i) ys" by (metis Cons_nth_drop_Suc Suc_diff_le diff_is_0_eq leI nat.distinct(1))
  have "i < length ys" "n = length ys - Suc i" using Suc.hyps by auto
  then have "first_max ys (length ys) (argmax_from (Suc i) b (ys ! b) (drop (Suc i) ys))"
    if "first_max ys (Suc i) b" for b
    using Suc.hyps(1) that by simp
  from this [OF first_max_Suc [OF Suc.prems(1)]] show ?case by (auto simp: d)
qed

lemma argmax_first_max: "xs \<noteq> [] \<Longrightarrow> first_max xs (length xs) (argmax xs)"
proof (cases xs)
  case (Cons x ys)
  have "first_max xs 1 0" by (simp add: first_max_def)
  from argmax_from_spec [OF this] Cons show ?thesis by simp
qed simp

lemma argmax_less: "xs \<noteq> [] \<Longrightarrow> argmax xs < length xs"
  using argmax_first_max by (simp add: first_max_def)

lemma argmax_max: "x \<in> set xs \<Longrightarrow> x \<le> xs ! argmax xs"
  using argmax_first_max [of xs] by (cases "xs = []") (auto simp: first_max_def in_set_conv_nth)

lemma predict_gender_age_Inr:
  assumes "\<And>l. length (softmax l) = length l"
    and "net img = (gl, al)" "length gl = 2" "length al = 4"
  shows "predict_gender_age softmax net img =
    Inr \<lparr>pr_gender = GENDER_CLASSES ! argmax (softmax gl), pr_gender_conf = round4 (softmax gl ! argmax (softmax gl)),
         pr_age_group = AGE_CLASSES ! argmax (softmax al), pr_age_conf = round4 (softmax al ! argmax (softmax al))\<rparr>"
proof -
  have "argmax (softmax gl) < 2" "argmax (softmax al) < 4"
    using argmax_less [of "softmax gl"] argmax_less [of "softmax al"] assms
    by (auto simp flip: length_greater_0_conv simp del: length_greater_0_conv)
  then show ?thesis using assms(2)
    by (simp add: predict_gender_age_def Let_def py_get_Inr GENDER_CLASSES_def AGE_CLASSES_def del: lit_simps)
qed

lemma length_CLASSES: "length GENDER_CLASSES = 2" "length AGE_CLASSES = 4"
  by (simp_all add: GENDER_CLASSES_def AGE_CLASSES_def)

lemma predict_classes_labels:
  assumes "predict_gender_age softmax net img = Inr p"
  shows "\<exists>g a. lookup_key GENDER_MAP (pr_gender p) = Inr g \<and> lookup_key AGE_MAP (pr_age_group p) = Inr a"
  using assms
  by (fastforce simp: predict_gender_age_def Let_def bindR_eq_Inr py_get_def lookup_gender lookup_age length_CLASSES
      split: prod.splits if_splits)

section \<open>Training\<close>

lemma concat_batches: "n > 0 \<Longrightarrow> concat (batches n xs) = xs"
  by (induction n xs rule: batches.induct) (subst batches.simps, auto)

lemma batches_nonempty: "b \<in> set (batches n xs) \<Longrightarrow> b \<noteq> [] \<and> length b \<le> n"
proof (induction n xs rule: batches.induct)
  case (1 n xs)
  from 1(2) have "xs \<noteq> []" "n \<noteq> 0" "b = take n xs \<or> b \<in> set (batches n (drop n xs))"
    by (simp_all add: batches.simps [of n xs] split: if_splits)
  with 1(1) show ?case by auto
qed

lemma calculate_accuracy_bounds: "length logits = length labels \<Longrightarrow>
  0 \<le> calculate_accuracy logits labels \<and> calculate_accuracy logits labels \<le> 1"
proof -
  assume "length logits = length labels"
  moreover have "length (filter (\<lambda>(l, y). argmax l = y) (zip logits labels)) \<le> length (zip logits labels)"
    by (rule length_filter_le)
  ultimately show ?thesis
    by (simp add: calculate_accuracy_def divide_simps)
qed

lemma val_sums_bounds:
  "fst (val_sums net bs) \<in> {0 .. of_nat (length bs)} \<and> snd (val_sums net bs) \<in> {0 .. of_nat (length bs)}"
proof (induction bs rule: rev_induct)
  case (snoc b bs)
  note calculate_accuracy_bounds [of "map (\<lambda>(x, g, a). fst (net x)) b" "map (\<lambda>(x, g, a). g) b"]
    calculate_accuracy_bounds [of "map (\<lambda>(x, g, a). snd (net x)) b" "map (\<lambda>(x, g, a). a) b"]
  with snoc show ?case by (auto simp: val_sums_def split: prod.splits)
qed (simp add: val_sums_def)

lemma epoch_score_bounds: "epoch_score net bs = Inr s \<Longrightarrow> 0 \<le> s \<and> s \<le> 1"
proof -
  assume e: "epoch_score net bs = Inr s"
  obtain g a where ga: "val_sums net bs = (g, a)" by fastforce
  define n where "n = (of_nat (length bs) :: rat)"
  from e ga have "bs \<noteq> []" and s: "s = g / n * (3/5) + a / n * (2/5)"
    by (auto simp: epoch_score_def n_def split: if_splits)
  then have n: "0 < n" by (simp add: n_def)
  have "0 \<le> g / n" "g / n \<le> 1" "0 \<le> a / n" "a / n \<le> 1"
    using val_sums_bounds [of net bs] ga n by (auto simp: n_def divide_simps)
  then show ?thesis unfolding s by simp
qed

text \<open>The weights after \<open>k\<close> epochs and the score of epoch \<open>k\<close>, without any book-keeping.\<close>

fun model_after :: "(nat \<Rightarrow> 'm \<Rightarrow> 'm) \<Rightarrow> 'm \<Rightarrow> nat \<Rightarrow> 'm" where
  "model_after te m 0 = m"
| "model_after te m (Suc k) = te k (model_after te m k)"

definition score_at ::
  "(nat \<Rightarrow> 'm \<Rightarrow> 'm) \<Rightarrow> ('m \<Rightarrow> 'img \<Rightarrow> rat list \<times> rat list) \<Rightarrow> 'img sample list list \<Rightarrow> 'm \<Rightarrow> nat \<Rightarrow> rat" where
  "score_at te net val m k =
     (case epoch_score (net (model_after te m (Suc k))) val of Inr s \<Rightarrow> s | Inl e \<Rightarrow> 0)"

text \<open>The best checkpoint of the first \<open>n\<close> epochs: the earliest epoch with the largest score, if that
  score is positive.\<close>

definition best_of_epochs ::
  "(nat \<Rightarrow> 'm \<Rightarrow> 'm) \<Rightarrow> ('m \<Rightarrow> 'img \<Rightarrow> rat list \<times> rat list) \<Rightarrow> 'img sample list list \<Rightarrow> 'm \<Rightarrow> nat \<Rightarrow>
   'm train_state \<Rightarrow> bool" where
  "best_of_epochs te net val m n st \<longleftrightarrow>
     ts_model st = model_after te m n \<and>
     (case ts_saved st of
        None \<Rightarrow> ts_best st = 0 \<and> (\<forall>k<n. score_at te net val m k \<le> 0)
      | Some (w, c) \<Rightarrow>
          c = make_checkpoint (ts_best st) \<and> 0 < ts_best st \<and>
          (\<exists>k<n. w = model_after te m (Suc k) \<and> ts_best st = score_at te net val m k \<and>
                 (\<forall>j<n. score_at te net val m j \<le> ts_best st) \<and>
                 (\<forall>j<k. score_at te net val m j < ts_best st)))"

lemma run_epochs_snoc:
  "run_epochs te net val (es @ [e]) = bindS (run_epochs te net val es) (\<lambda>_. run_epoch te net val e)"
proof (induction es)
  case Nil
  show ?case by (auto simp: sm_simps fun_eq_iff split: prod.splits sum.splits)
next
  case (Cons a es)
  then show ?case by (auto simp: bindS_def fun_eq_iff split: prod.splits sum.splits)
qed

lemma run_epoch_best:
  assumes "val \<noteq> []" "best_of_epochs te net val m n st"
  shows "\<exists>st'. run_epoch te net val n st = (Inr (), st') \<and> best_of_epochs te net val m (Suc n) st'"
proof -
  obtain s where s: "epoch_score (net (model_after te m (Suc n))) val = Inr s"
    using assms(1)
    by (cases "val_sums (net (model_after te m (Suc n))) val") (simp add: epoch_score_def)
  then have sc: "score_at te net val m n = s" by (simp add: score_at_def)
  have m: "ts_model st = model_after te m n" using assms(2) by (simp add: best_of_epochs_def)
  show ?thesis
  proof (cases "s > ts_best st")
    case True
    have "\<forall>k<n. score_at te net val m k < s" "0 < s"
      using assms(2) True by (fastforce simp: best_of_epochs_def split: option.splits)+
    with True s sc m show ?thesis
      by (auto simp: run_epoch_def Let_def best_of_epochs_def less_Suc_eq intro!: exI [of _ n])
  next
    case False
    then show ?thesis using assms(2) s sc m
      by (auto simp: run_epoch_def Let_def best_of_epochs_def less_Suc_eq split: option.splits)
  qed
qed

lemma run_epochs_best:
  assumes "val \<noteq> []"
  shows "\<exists>st. run_epochs te net val [0..<n] \<lparr>ts_model = m, ts_best = 0, ts_saved = None\<rparr> = (Inr (), st) \<and>
              best_of_epochs te net val m n st"
proof (induction n)
  case 0
  show ?case by (simp add: retS_def best_of_epochs_def)
next
  case (Suc n)
  then obtain st where st: "run_epochs te net val [0..<n] \<lparr>ts_model = m, ts_best = 0, ts_saved = None\<rparr> = (Inr (), st)"
    "best_of_epochs te net val m n st" by blast
  then show ?case using run_epoch_best [OF assms st(2)]
    by (auto simp: run_epochs_snoc bindS_def)
qed
lemma py_lower_idem: "py_lower (py_lower s) = py_lower s"
proof (induction s)
  case (Cons c s)
  have "concat (map lower_cp (lower_cp c)) = lower_cp c" by (auto simp: lower_cp_def)
  with Cons show ?case by (simp add: py_lower_def)
qed (simp add: py_lower_def)

lemma str_cell_Some [simp]: "str_cell (Some x) = x"
  by (simp add: str_cell_def)

section \<open>Properties\<close>

text \<open>Every item of a prepared data set has a usable age label, the one the inference classes give
  back as the row's age group; its gender label exists exactly when the lower-cased gender of the source
  row is male or female. Any other value, a missing gender among them, is kept by the preparation and
  makes the item raise \<^verbatim>\<open>KeyError\<close>.\<close>

theorem prepared_labels:
  assumes "\<And>n xs. set (sample_rows n xs) \<subseteq> set xs"
    and "0 \<le> i" "i < int (length (prepare_csv sample_rows df k))"
    and "\<And>f. load_image f = Inr img"
  shows "\<exists>q \<in> set df. raw_file q \<noteq> None \<and>
     (\<exists>a<4. AGE_CLASSES ! a = map_age_group (raw_age q) \<and>
       getitem load_image (prepare_csv sample_rows df k) i =
         (if py_lower (str_cell (raw_gender q)) = lit ''male'' then Inr (img, 0, a)
          else if py_lower (str_cell (raw_gender q)) = lit ''female'' then Inr (img, 1, a)
          else Inl KeyError))"
proof -
  let ?df = "prepare_csv sample_rows df k"
  have "?df ! nat i \<in> set ?df" using assms(2,3) by simp
  then obtain q where q: "q \<in> set df" "?df ! nat i = relabel q" "raw_file q \<noteq> None"
    by (rule prepare_csv_rows [of sample_rows, rotated]) (auto intro: that assms(1) [THEN subsetD])
  obtain a where a: "lookup_key AGE_MAP (map_age_group (raw_age q)) = Inr a" using map_age_group_known by blast
  then have "a < 4" "AGE_CLASSES ! a = map_age_group (raw_age q)" by (simp_all add: lookup_age)
  moreover have "getitem load_image ?df i =
      (if py_lower (str_cell (raw_gender q)) = lit ''male'' then Inr (img, 0, a)
       else if py_lower (str_cell (raw_gender q)) = lit ''female'' then Inr (img, 1, a) else Inl KeyError)"
  proof -
    obtain f where f: "raw_file q = Some f" using q(3) by blast
    have "py_get ?df i = Inr (relabel q)" using assms(2,3) q(2) by (simp add: py_get_Inr)
    then have "getitem load_image ?df i =
        bindR (lookup_key GENDER_MAP (py_lower (str_cell (raw_gender q)))) (\<lambda>gender. Inr (img, gender, a))"
      using f a assms(4) by (simp add: getitem_def relabel_def py_lower_idem)
    then show ?thesis by (simp add: lookup_key_def GENDER_MAP_eq del: lit_simps)
  qed
  ultimately show ?thesis using q by blast
qed

theorem prepared_labels_witness:
  "\<exists>a<4. getitem (\<lambda>f. Inr (5 :: nat))
     (prepare_csv take [\<lparr>raw_file = Some (lit ''1.jpg''), raw_age = Some (lit ''20-29''),
        raw_gender = Some (lit ''Female'')\<rparr>] 3) 0 = Inr (5, 1, a)"
  using prepared_labels [of take 0 "[\<lparr>raw_file = Some (lit ''1.jpg''), raw_age = Some (lit ''20-29''),
        raw_gender = Some (lit ''Female'')\<rparr>]" 3 "\<lambda>f. Inr (5 :: nat)" 5]
  by (auto simp: set_take_subset prepare_csv_def complete_row_def relabel_def str_cell_def py_lower_def lower_cp_def)

text \<open>A missing gender, the case the preparation means to drop.\<close>

lemma missing_gender_key_error:
  "getitem (\<lambda>f. Inr ()) (prepare_csv take [\<lparr>raw_file = Some f, raw_age = a, raw_gender = None\<rparr>] 3) 0 = Inl KeyError"
  by (simp add: prepare_csv_def complete_row_def relabel_def getitem_def py_get_def str_cell_def py_lower_def
      lower_cp_def lookup_key_def GENDER_MAP_def)

text \<open>Preparation keeps every row that has a file, up to the sample size: with \<open>n\<close> such rows the
  table has the smaller of \<open>n\<close> and \<open>max_samples\<close> rows.\<close>

theorem prepare_csv_size:
  "(\<And>n xs. n \<le> length xs \<Longrightarrow> length (sample_rows n xs) = n) \<Longrightarrow>
     length (prepare_csv sample_rows df max_samples) =
       min max_samples (length (filter (\<lambda>q. raw_file q \<noteq> None) df))"
  by (rule prepare_csv_length)

theorem prepare_csv_size_witness:
  "length (prepare_csv take (replicate 3 \<lparr>raw_file = Some (lit ''x''), raw_age = None, raw_gender = None\<rparr>) 2) = 2"
  using prepare_csv_size [of take "replicate 3 \<lparr>raw_file = Some (lit ''x''), raw_age = None, raw_gender = None\<rparr>" 2]
  by simp

text \<open>C31. Training over a non-empty validation set runs to the end and keeps the best epoch: the saved
  weights are those of the earliest epoch with the highest score, saved with that score and with the
  classes inference uses, and nothing is saved exactly when no epoch scores above zero.\<close>

theorem train_keeps_best:
  "val_dataset \<noteq> [] \<Longrightarrow>
     \<exists>st. train_main te net val_dataset m0 = (Inr (), st) \<and>
          best_of_epochs te net (batches BATCH_SIZE val_dataset) m0 EPOCHS st \<and>
          (\<forall>m c. ts_saved st = Some (m, c) \<longrightarrow>
             ck_gender_classes c = GENDER_CLASSES \<and> ck_age_classes c = AGE_CLASSES \<and>
             0 < ck_best_score c \<and> ck_best_score c \<le> 1)"
proof -
  assume "val_dataset \<noteq> []"
  then have ne: "batches BATCH_SIZE val_dataset \<noteq> []" by (subst batches.simps) (simp add: BATCH_SIZE_def)
  obtain st where st: "train_main te net val_dataset m0 = (Inr (), st)"
    "best_of_epochs te net (batches BATCH_SIZE val_dataset) m0 EPOCHS st"
    using run_epochs_best [OF ne] unfolding train_main_def by metis
  have "score_at te net v m0 j \<le> 1" for v j
    using epoch_score_bounds by (auto simp: score_at_def split: sum.split)
  with st(2) have "\<forall>m c. ts_saved st = Some (m, c) \<longrightarrow>
             ck_gender_classes c = GENDER_CLASSES \<and> ck_age_classes c = AGE_CLASSES \<and>
             0 < ck_best_score c \<and> ck_best_score c \<le> 1"
    by (auto simp: best_of_epochs_def make_checkpoint_def GENDER_CLASSES_def AGE_CLASSES_def)
  with st show ?thesis by blast
qed

theorem train_keeps_best_witness:
  "\<exists>st. train_main (\<lambda>k m. Suc m) (\<lambda>m x. ([1, 0], [1, 0, 0, 0])) [((), 0, 0)] (0 :: nat) = (Inr (), st) \<and>
        best_of_epochs (\<lambda>k m. Suc m) (\<lambda>m x. ([1, 0], [1, 0, 0, 0])) (batches BATCH_SIZE [((), 0, 0)]) 0 EPOCHS st"
  using train_keeps_best [of "[((), 0, 0)]" "\<lambda>k m. Suc m" "\<lambda>m x. ([1, 0], [1, 0, 0, 0])" 0] by blast

text \<open>A prediction names the class with the highest probability of each head, the first one on a
  tie, for every pair of heads with two and four outputs, so class lookup never goes out of range.\<close>

theorem predict_picks_best:
  assumes "\<And>l. length (softmax l) = length l"
    and "head_out (gender_head n) n = Some (length gl)" "head_out (age_head n) n = Some (length al)"
    and "net img = (gl, al)"
  shows "\<exists>p g a. predict_gender_age softmax net img = Inr p \<and>
     g < 2 \<and> pr_gender p = GENDER_CLASSES ! g \<and> pr_gender_conf p = round4 (softmax gl ! g) \<and>
     first_max (softmax gl) 2 g \<and>
     a < 4 \<and> pr_age_group p = AGE_CLASSES ! a \<and> pr_age_conf p = round4 (softmax al ! a) \<and>
     first_max (softmax al) 4 a"
proof -
  have l: "length gl = 2" "length al = 4" using assms(2,3) by (simp_all add: gender_head_def age_head_def)
  then have f: "first_max (softmax gl) 2 (argmax (softmax gl))" "first_max (softmax al) 4 (argmax (softmax al))"
    using argmax_first_max [of "softmax gl"] argmax_first_max [of "softmax al"] assms(1) [of gl] assms(1) [of al]
    by fastforce+
  with predict_gender_age_Inr [of softmax net img gl al, OF assms(1,4) l] show ?thesis
    by (intro exI [of _ "\<lparr>pr_gender = GENDER_CLASSES ! argmax (softmax gl),
         pr_gender_conf = round4 (softmax gl ! argmax (softmax gl)),
         pr_age_group = AGE_CLASSES ! argmax (softmax al),
         pr_age_conf = round4 (softmax al ! argmax (softmax al))\<rparr>"]) (auto simp: first_max_def)
qed

theorem predict_picks_best_witness:
  "\<exists>p. predict_gender_age (\<lambda>l. l) (\<lambda>_. ([1/4, 3/4], [1/10, 2/5, 2/5, 1/10])) () = Inr p \<and> pr_gender p = lit ''female''"
proof -
  have *: "first_max [1/4, 3/4 :: rat] 2 g \<Longrightarrow> g = 1" for g
    by (cases g) (auto simp: first_max_def less_Suc_eq dest: spec [of _ 1])
  show ?thesis
    using predict_picks_best [of "\<lambda>l. l" 576 "[1/4, 3/4]" "[1/10, 2/5, 2/5, 1/10]"
        "\<lambda>_. ([1/4, 3/4], [1/10, 2/5, 2/5, 1/10])" "()"]
    by (auto simp: gender_head_def age_head_def GENDER_CLASSES_def dest: * simp del: lit_simps)
qed

end
