(* ===== verification/Ssh_Util.thy ===== *)
theory Ssh_Util
  imports Py_Text
begin

text \<open>
  \<^verbatim>\<open>paramiko/util.py\<close>: the conversion between integers and their normalised two's-complement byte
  strings (\<open>inflate_long\<close>, \<open>deflate_long\<close>), modular inverse, constant-time comparison, clamping, the
  printable forms of binary data and the derivation of key bytes. Both conversions are written with the
  32-bit word loops of the source. The hash function of \<open>generate_key_bytes\<close> is a parameter.
\<close>

unbundle bit_operations_syntax

section \<open>Integers and byte strings\<close>

text \<open>The loop of \<^verbatim>\<open>inflate_long\<close> over the 4-byte words of the padded string.\<close>

function inflate_words :: "bytes \<Rightarrow> int \<Rightarrow> int" where
  "inflate_words s out =
     (if s = [] then out else inflate_words (drop 4 s) (push_bit 32 out + be_int (take 4 s)))"
  by pat_completeness auto
termination by (relation "measure (\<lambda>(s, _). length s)") auto

declare inflate_words.simps [simp del]

definition inflate_long :: "bytes \<Rightarrow> bool \<Rightarrow> int" where
  "inflate_long s always_positive =
     (let negative = (\<not> always_positive \<and> length s > 0 \<and> uint (s ! 0) \<ge> 0x80);
          filler = (if negative then 0xFF else 0);
          s' = (if length s mod 4 \<noteq> 0 then replicate (4 - length s mod 4) filler @ s else s);
          out = inflate_words s' 0
      in if negative then out - push_bit (8 * length s') 1 else out)"

text \<open>The loop of \<^verbatim>\<open>deflate_long\<close>: the words of \<open>n\<close> from the right, and the sign that is left.\<close>

function deflate_words :: "int \<Rightarrow> bytes \<Rightarrow> bytes \<times> int" where
  "deflate_words n s =
     (if n \<noteq> 0 \<and> n \<noteq> - 1 then deflate_words (drop_bit 32 n) (be_bytes 4 (n AND 0xFFFFFFFF) @ s)
      else (s, n))"
  by pat_completeness auto
termination
proof (relation "measure (\<lambda>(n, _). nat \<bar>n\<bar>)", goal_cases)
  case (2 n s)
  then have "\<bar>n div 4294967296\<bar> < \<bar>n\<bar>" by (cases "0 < n") (auto simp: abs_if)
  then show ?case by (simp add: drop_bit_eq_div)
qed simp

declare deflate_words.simps [simp del]

definition deflate_long :: "int \<Rightarrow> bool \<Rightarrow> bytes" where
  "deflate_long n add_sign_padding =
     (case deflate_words n [] of (s, sg) \<Rightarrow>
        let fill = (if sg = 0 then 0 else 0xFF :: byte);
            stripped = dropWhile (\<lambda>b. b = fill) s;
            s1 = (if stripped = [] then [fill] else stripped)
        in if add_sign_padding \<and> sg = 0 \<and> uint (s1 ! 0) \<ge> 0x80 then 0 # s1
           else if add_sign_padding \<and> sg = - 1 \<and> uint (s1 ! 0) < 0x80 then 0xFF # s1
           else s1)"

section \<open>Comparison, clamping, modular inverse\<close>

definition constant_time_bytes_eq :: "bytes \<Rightarrow> bytes \<Rightarrow> bool" where
  "constant_time_bytes_eq a b =
     (if length a \<noteq> length b then False
      else foldl (\<lambda>res i. res OR (a ! i XOR b ! i)) 0 [0..<length a] = 0)"

definition clamp_value :: "int \<Rightarrow> int \<Rightarrow> int \<Rightarrow> int" where
  "clamp_value minimum val maximum = max minimum (min val maximum)"

function mod_inverse_loop :: "int \<Rightarrow> int \<Rightarrow> int \<Rightarrow> int \<Rightarrow> int \<Rightarrow> int \<Rightarrow> int" where
  "mod_inverse_loop u1 u2 u3 v1 v2 v3 =
     (if v3 > 0 then
        (let q = u3 div v3 in mod_inverse_loop v1 v2 v3 (u1 - v1 * q) (u2 - v2 * q) (u3 - v3 * q))
      else u2)"
  by pat_completeness auto
termination
proof (relation "measure (\<lambda>(u1, u2, u3, v1, v2, v3). nat v3)", goal_cases)
  case (2 u1 u2 u3 v1 v2 v3 x)
  then show ?case by (simp add: minus_mult_div_eq_mod)
qed simp

declare mod_inverse_loop.simps [simp del]

definition mod_inverse :: "int \<Rightarrow> int \<Rightarrow> int" where
  "mod_inverse x m =
     (let u2 = mod_inverse_loop 1 0 m 0 1 x in if u2 < 0 then u2 + m else u2)"

section \<open>Printable forms\<close>

definition hex_digit :: "nat \<Rightarrow> char" where
  "hex_digit d = (if d < 10 then char_of (48 + d) else char_of (55 + d))"

definition hex2 :: "byte \<Rightarrow> string" where
  "hex2 c = [hex_digit (unat c div 16), hex_digit (unat c mod 16)]"

text \<open>\<^verbatim>\<open>".{:c}..".format(c)[(c + 63) // 95]\<close>: the character itself where it is printable, else a dot.\<close>

definition dot_char :: "byte \<Rightarrow> string" where
  "dot_char c = [(''.'' @ [char_of (unat c)] @ ''..'') ! ((unat c + 63) div 95)]"

definition pad_to :: "nat \<Rightarrow> string \<Rightarrow> string" where
  "pad_to n s = s @ replicate (n - length s) CHR '' ''"

definition format_binary_line :: "bytes \<Rightarrow> string" where
  "format_binary_line data =
     pad_to 50 (join '' '' (map hex2 data)) @ '' '' @ concat (map dot_char data)"

function format_chunks :: "bytes \<Rightarrow> string list" where
  "format_chunks data =
     (if 16 < length data then format_binary_line (take 16 data) # format_chunks (drop 16 data)
      else if data \<noteq> [] then [format_binary_line data] else [])"
  by pat_completeness auto
termination by (relation "measure length") auto

declare format_chunks.simps [simp del]

definition format_binary :: "bytes \<Rightarrow> string \<Rightarrow> string list" where
  "format_binary data prefix = map (\<lambda>line. prefix @ line) (format_chunks data)"

definition safe_byte :: "byte \<Rightarrow> bytes" where
  "safe_byte c = (if 32 \<le> unat c \<and> unat c \<le> 127 then [c] else map (\<lambda>d. of_nat (of_char d)) (CHR ''%'' # hex2 c))"

definition safe_string :: "bytes \<Rightarrow> bytes" where
  "safe_string s = foldl (\<lambda>out c. out @ safe_byte c) [] s"

section \<open>Key bytes\<close>

text \<open>\<open>hash_alg\<close> maps all the data fed to a fresh hash object to its digest. The loop may only end if
  digests are not empty, so it has fuel; \<open>None\<close> means the fuel ran out.\<close>

fun key_bytes_loop :: "(bytes \<Rightarrow> bytes) \<Rightarrow> bytes \<Rightarrow> bytes \<Rightarrow> nat \<Rightarrow> bytes \<Rightarrow> bytes \<Rightarrow> nat \<Rightarrow> bytes option" where
  "key_bytes_loop hash_alg salt key 0 keydata digest nbytes = (if nbytes > 0 then None else Some keydata)"
| "key_bytes_loop hash_alg salt key (Suc fuel) keydata digest nbytes =
     (if nbytes > 0 then
        (let digest' = hash_alg (digest @ key @ salt); sz = min nbytes (length digest')
         in key_bytes_loop hash_alg salt key fuel (keydata @ take sz digest') digest' (nbytes - sz))
      else Some keydata)"

definition generate_key_bytes :: "(bytes \<Rightarrow> bytes) \<Rightarrow> bytes \<Rightarrow> bytes \<Rightarrow> nat \<Rightarrow> nat \<Rightarrow> bytes option" where
  "generate_key_bytes hash_alg salt key nbytes fuel =
     key_bytes_loop hash_alg (if length salt > 8 then take 8 salt else salt) key fuel [] [] nbytes"

section \<open>Two's complement\<close>

text \<open>The reference: the value of a byte string in two's complement.\<close>

definition tc_val :: "bytes \<Rightarrow> int" where
  "tc_val s = be_int s - (if s \<noteq> [] \<and> uint (hd s) \<ge> 128 then 256 ^ length s else 0)"

lemma uint_FF [simp]: "uint (0xFF :: byte) = 255"
  by simp

lemma mod4_drop: "length s mod 4 = 0 \<Longrightarrow> s \<noteq> [] \<Longrightarrow> 4 \<le> length s \<and> length (drop 4 s) mod 4 = 0"
  by (cases "length s < 4") (auto simp: le_mod_geq)

lemma inflate_words_eq: "length s mod 4 = 0 \<Longrightarrow> inflate_words s out = out * 256 ^ length s + be_int s"
proof (induction s out rule: inflate_words.induct)
  case (1 s out)
  show ?case
  proof (cases "s = []")
    case False
    then have l: "4 \<le> length s" "length (drop 4 s) mod 4 = 0" using mod4_drop [OF 1(2) False] by auto
    have "be_int s = be_int (take 4 s) * 256 ^ (length s - 4) + be_int (drop 4 s)"
      using be_int_append [of "take 4 s" "drop 4 s"] by simp
    moreover have "(256 :: int) ^ length s = 256 ^ 4 * 256 ^ (length s - 4)"
      using l(1) by (simp only: le_add_diff_inverse flip: power_add)
    moreover have "inflate_words s out = inflate_words (drop 4 s) (push_bit 32 out + be_int (take 4 s))"
      using False by (subst inflate_words.simps) simp
    ultimately show ?thesis using 1(1) [OF False l(2)]
      by (simp add: push_bit_eq_mult algebra_simps)
  qed (simp add: inflate_words.simps)
qed

lemma be_int_fill_FF: "be_int (replicate k 0xFF @ s) = be_int s + (256 ^ k - 1) * 256 ^ length s"
proof (induction k)
  case (Suc k)
  then show ?case by (simp only: replicate_Suc append_Cons be_int_Cons uint_FF length_append length_replicate)
      (simp add: algebra_simps power_add)
qed simp

lemma be_int_fill_0: "be_int (replicate k 0 @ s) = be_int s"
  by (induction k) (auto simp: be_int_Cons)

definition pad4 :: "byte \<Rightarrow> bytes \<Rightarrow> bytes" where
  "pad4 f s = (if length s mod 4 \<noteq> 0 then replicate (4 - length s mod 4) f @ s else s)"

lemma pad4_length: "length (pad4 f s) mod 4 = 0"
proof -
  have "length s mod 4 < 4" by simp
  then have "(4 - length s mod 4 + length s) mod 4 = 0" by presburger
  then show ?thesis by (simp add: pad4_def)
qed

lemma be_int_pad4: "be_int (pad4 0 s) = be_int s"
  "be_int (pad4 0xFF s) = be_int s + 256 ^ length (pad4 0xFF s) - 256 ^ length s"
proof -
  show "be_int (pad4 0 s) = be_int s" by (simp add: pad4_def be_int_fill_0)
  obtain k where "4 - length s mod 4 = k" by blast
  then show "be_int (pad4 0xFF s) = be_int s + 256 ^ length (pad4 0xFF s) - 256 ^ length s"
    unfolding pad4_def by (simp only: be_int_fill_FF length_append length_replicate split: if_split)
      (simp add: algebra_simps power_add)
qed

lemma inflate_long_pad4:
  "inflate_long s ap =
     (let negative = (\<not> ap \<and> length s > 0 \<and> uint (s ! 0) \<ge> 0x80); p = pad4 (if negative then 0xFF else 0) s
      in if negative then be_int p - 256 ^ length p else be_int p)"
  unfolding inflate_long_def Let_def pad4_def [symmetric]
  by (simp add: inflate_words_eq [OF pad4_length] push_bit_eq_mult power_mult)

lemma inflate_long_unsigned: "inflate_long s True = be_int s"
  by (simp add: inflate_long_pad4 be_int_pad4)

lemma inflate_long_signed: "inflate_long s False = tc_val s"
  by (auto simp: inflate_long_pad4 be_int_pad4 tc_val_def hd_conv_nth Let_def simp del: uint_FF)

text \<open>The value a string of words stands for when the remaining sign is \<open>f\<close>.\<close>

lemma deflate_words_val:
  "deflate_words n s = (t, f) \<Longrightarrow>
     (f = 0 \<or> f = - 1) \<and> f * 256 ^ length t + be_int t = n * 256 ^ length s + be_int s"
proof (induction n s rule: deflate_words.induct)
  case (1 n s)
  show ?case
  proof (cases "n \<noteq> 0 \<and> n \<noteq> - 1")
    case True
    let ?w = "be_bytes 4 (n AND 0xFFFFFFFF)"
    from True 1(2) have "deflate_words (drop_bit 32 n) (?w @ s) = (t, f)"
      by (subst (asm) deflate_words.simps) simp
    from 1(1) [OF True this] have IH: "f = 0 \<or> f = - 1"
      "f * 256 ^ length t + be_int t = drop_bit 32 n * 256 ^ length (?w @ s) + be_int (?w @ s)" by auto
    have "n AND 0xFFFFFFFF = n mod 4294967296"
      using take_bit_eq_mask [of 32 n] by (simp add: take_bit_eq_mod mask_eq_exp_minus_1)
    then have w: "be_int ?w = n mod 4294967296" by (simp add: be_int_be_bytes_mod)
    obtain q m where q: "n div 4294967296 = q" "n mod 4294967296 = m" by blast
    then have n: "n = q * 4294967296 + m" using div_mult_mod_eq [of n 4294967296] by simp
    have "drop_bit 32 n * 256 ^ length (?w @ s) + be_int (?w @ s) = n * 256 ^ length s + be_int s"
      by (simp add: be_int_append w drop_bit_eq_div q power_add) (simp add: n algebra_simps)
    then show ?thesis using IH by simp
  next
    case False
    with 1(2) show ?thesis by (subst (asm) deflate_words.simps) auto
  qed
qed

text \<open>Dropping leading filler bytes keeps the value.\<close>

lemma strip_fill_val:
  assumes "f = 0 \<and> uint fill = 0 \<or> f = - 1 \<and> uint fill = 255"
  shows "f * 256 ^ length (dropWhile (\<lambda>b. b = fill) t) + be_int (dropWhile (\<lambda>b. b = fill) t)
           = f * 256 ^ length t + be_int t"
  using assms by (induction t) (auto simp: be_int_Cons algebra_simps)

definition normalized :: "bytes \<Rightarrow> bool" where
  "normalized s \<longleftrightarrow> s \<noteq> [] \<and>
     (2 \<le> length s \<longrightarrow> \<not> (uint (s ! 0) = 0 \<and> uint (s ! 1) < 128) \<and> \<not> (uint (s ! 0) = 255 \<and> uint (s ! 1) \<ge> 128))"

lemma deflate_long_parts:
  obtains s1 f fill where "f = 0 \<and> fill = (0 :: byte) \<and> uint fill = 0 \<or> f = - 1 \<and> fill = 0xFF \<and> uint fill = 255"
    "s1 \<noteq> []" "f * 256 ^ length s1 + be_int s1 = n" "hd s1 = fill \<longrightarrow> s1 = [fill]"
    "deflate_long n p =
      (if p \<and> f = 0 \<and> uint (hd s1) \<ge> 128 then 0 # s1
       else if p \<and> f = - 1 \<and> uint (hd s1) < 128 then 0xFF # s1 else s1)"
proof -
  obtain t f where tf: "deflate_words n [] = (t, f)" by fastforce
  from deflate_words_val [OF this] have f: "f = 0 \<or> f = - 1" "f * 256 ^ length t + be_int t = n" by auto
  define fill where "fill = (if f = 0 then 0 else 0xFF :: byte)"
  then have fl: "f = 0 \<and> fill = 0 \<and> uint fill = 0 \<or> f = - 1 \<and> fill = 0xFF \<and> uint fill = 255" using f(1) by auto
  define s0 where "s0 = dropWhile (\<lambda>b. b = fill) t"
  have v0: "f * 256 ^ length s0 + be_int s0 = n"
    using strip_fill_val [of f fill t] fl f(2) unfolding s0_def by blast
  define s1 where "s1 = (if s0 = [] then [fill] else s0)"
  have "s1 \<noteq> []" "hd s1 = fill \<longrightarrow> s1 = [fill]"
    using hd_dropWhile [of "\<lambda>b. b = fill" t] by (auto simp: s1_def s0_def)
  moreover have "f * 256 ^ length s1 + be_int s1 = n"
    using v0 fl by (auto simp: s1_def be_int_Cons)
  moreover have "deflate_long n p =
      (if p \<and> f = 0 \<and> uint (hd s1) \<ge> 128 then 0 # s1
       else if p \<and> f = - 1 \<and> uint (hd s1) < 128 then 0xFF # s1 else s1)"
    unfolding deflate_long_def tf prod.case Let_def fill_def [symmetric] s0_def [symmetric] s1_def [symmetric]
      hd_conv_nth [OF \<open>s1 \<noteq> []\<close>] by auto
  ultimately show thesis using fl that by blast
qed

lemma deflate_long_val: "tc_val (deflate_long n True) = n"
proof (rule deflate_long_parts [of n True])
  fix s1 f and fill :: byte
  assume a: "f = 0 \<and> fill = 0 \<and> uint fill = 0 \<or> f = - 1 \<and> fill = 0xFF \<and> uint fill = 255" "s1 \<noteq> []"
    "f * 256 ^ length s1 + be_int s1 = n"
    "deflate_long n True = (if True \<and> f = 0 \<and> uint (hd s1) \<ge> 128 then 0 # s1
       else if True \<and> f = - 1 \<and> uint (hd s1) < 128 then 0xFF # s1 else s1)"
  from a(1) consider (z) "f = 0" "uint (hd s1) \<ge> 128" | (z') "f = 0" "uint (hd s1) < 128"
    | (m) "f = - 1" "uint (hd s1) < 128" | (m') "f = - 1" "uint (hd s1) \<ge> 128" by linarith
  then show ?thesis
  proof cases
    case m
    then have "deflate_long n True = 0xFF # s1" using a(4) by simp
    then show ?thesis using m a(3) by (simp only: tc_val_def be_int_Cons list.sel uint_FF) simp
  qed (use a in \<open>auto simp: tc_val_def be_int_Cons\<close>)
qed

lemma deflate_long_nonneg: "0 \<le> n \<Longrightarrow> be_int (deflate_long n False) = n"
proof (rule deflate_long_parts [of n False])
  fix s1 f and fill :: byte
  assume a: "0 \<le> n" "f = 0 \<and> fill = 0 \<and> uint fill = 0 \<or> f = - 1 \<and> fill = 0xFF \<and> uint fill = 255"
    "f * 256 ^ length s1 + be_int s1 = n"
    "deflate_long n False = (if False \<and> f = 0 \<and> uint (hd s1) \<ge> 128 then 0 # s1
       else if False \<and> f = - 1 \<and> uint (hd s1) < 128 then 0xFF # s1 else s1)"
  with be_int_less [of s1] have "f = 0" by auto
  with a show ?thesis by simp
qed

lemma deflate_long_normalized: "normalized (deflate_long n True)"
proof (rule deflate_long_parts [of n True])
  fix s1 f and fill :: byte
  assume a: "f = 0 \<and> fill = 0 \<and> uint fill = 0 \<or> f = - 1 \<and> fill = 0xFF \<and> uint fill = 255" "s1 \<noteq> []"
    "hd s1 = fill \<longrightarrow> s1 = [fill]"
    "deflate_long n True = (if True \<and> f = 0 \<and> uint (hd s1) \<ge> 128 then 0 # s1
       else if True \<and> f = - 1 \<and> uint (hd s1) < 128 then 0xFF # s1 else s1)"
  from a(2) obtain b r where s1: "s1 = b # r" by (cases s1) auto
  have b: "uint b = uint fill \<longrightarrow> r = []" using a(3) s1 byte_eqI by auto
  show ?thesis
  proof (cases "f = 0")
    case True
    with a(1,4) s1 b show ?thesis by (auto simp: normalized_def)
  next
    case nz: False
    then have f: "f = - 1" "uint fill = 255" using a(1) by auto
    show ?thesis
    proof (cases "uint b < 128")
      case True
      then have "deflate_long n True = 0xFF # b # r" using a(4) f s1 by simp
      then show ?thesis using True by (simp only: normalized_def nth_Cons_0 uint_FF) simp
    next
      case False
      then have "deflate_long n True = b # r" using a(4) nz s1 by (auto split: if_splits)
      then show ?thesis using b f False by (auto simp: normalized_def)
    qed
  qed
qed

lemma tc_val_bounds:
  assumes "s \<noteq> []"
  shows "- 128 * 256 ^ (length s - 1) \<le> tc_val s \<and> tc_val s < 128 * 256 ^ (length s - 1)"
proof -
  obtain a r where s: "s = a # r" using assms by (cases s) auto
  then have l: "length s - 1 = length r" by simp
  let ?H = "256 ^ length r :: int"
  have r: "0 \<le> be_int r" "be_int r < ?H" by (simp_all add: be_int_less)
  show ?thesis
  proof (cases "uint a < 128")
    case True
    then have "uint a * ?H \<le> 127 * ?H" by (intro mult_right_mono) auto
    moreover have "0 \<le> uint a * ?H" using byte_uint_bounds [of a] by simp
    moreover have "tc_val s = uint a * ?H + be_int r" using True s by (simp add: tc_val_def be_int_Cons)
    ultimately show ?thesis using r unfolding l by linarith
  next
    case False
    then have "128 * ?H \<le> uint a * ?H" by (intro mult_right_mono) auto
    moreover have "uint a * ?H \<le> 255 * ?H" using byte_uint_bounds(2) [of a] by (intro mult_right_mono) auto
    moreover have "tc_val s = uint a * ?H + be_int r - 256 * ?H" using False s by (simp add: tc_val_def be_int_Cons)
    ultimately show ?thesis using r unfolding l by linarith
  qed
qed

lemma normalized_large:
  assumes "normalized s" "2 \<le> length s"
  shows "tc_val s \<ge> 128 * 256 ^ (length s - 2) \<or> tc_val s < - 128 * 256 ^ (length s - 2)"
proof -
  obtain a b r where s: "s = a # b # r" using assms(2) by (cases s; cases "tl s") auto
  then have l: "length s - 2 = length r" by simp
  let ?H = "256 ^ length r :: int"
  have r: "0 \<le> be_int r" "be_int r < ?H" by (simp_all add: be_int_less)
  obtain A B where A: "uint a = A" "uint b = B" by blast
  have ab: "0 \<le> A" "A < 256" "0 \<le> B" "B < 256" using byte_uint_bounds A by blast+
  have n: "\<not> (A = 0 \<and> B < 128)" "\<not> (A = 255 \<and> B \<ge> 128)" using assms s A by (auto simp: normalized_def)
  define v where "v = A * 256 + B - (if A \<ge> 128 then 65536 else 0)"
  have "tc_val s = v * ?H + be_int r" using s by (simp add: tc_val_def be_int_Cons v_def A algebra_simps)
  moreover have "128 \<le> v \<or> v \<le> - 129" using n ab by (cases "A \<ge> 128") (auto simp: v_def)
  then have "128 * ?H \<le> v * ?H \<or> v * ?H \<le> - 129 * ?H"
    by (elim disjE) (rule disjI1, erule mult_right_mono, simp, rule disjI2, erule mult_right_mono, simp)
  ultimately show ?thesis using r unfolding l by linarith
qed

lemma normalized_shorter_neq:
  assumes "s \<noteq> []" "normalized t" "length s < length t"
  shows "tc_val s \<noteq> tc_val t"
proof
  assume eq: "tc_val s = tc_val t"
  have "(256 :: int) ^ (length s - 1) \<le> 256 ^ (length t - 2)"
    using assms(3) by (intro power_increasing) auto
  then have "- 128 * 256 ^ (length t - 2) \<le> tc_val s" "tc_val s < 128 * 256 ^ (length t - 2)"
    using tc_val_bounds [OF assms(1)] by linarith+
  moreover have "2 \<le> length t" using assms by (cases s) auto
  ultimately show False using normalized_large [OF assms(2)] eq by linarith
qed

lemma normalized_unique:
  assumes "normalized s" "normalized t" "tc_val s = tc_val t"
  shows "s = t"
proof -
  have ne: "s \<noteq> []" "t \<noteq> []" using assms by (auto simp: normalized_def)
  then have l: "length s = length t"
    using normalized_shorter_neq [of s t] normalized_shorter_neq [of t s] assms by (metis linorder_neqE_nat)
  have "be_int u mod 256 ^ length u = be_int u" for u using be_int_less [of u] by simp
  moreover have "tc_val u mod 256 ^ length u = be_int u mod 256 ^ length u" for u
    by (simp add: tc_val_def mod_diff_right_eq)
  ultimately have "be_int s = be_int t" using assms(3) l by metis
  with l show ?thesis by (rule be_int_inj)
qed

lemma deflate_inflate: "normalized s \<Longrightarrow> deflate_long (inflate_long s False) True = s"
  using normalized_unique [OF deflate_long_normalized] by (simp add: deflate_long_val inflate_long_signed)

section \<open>Modular inverse\<close>

lemma mod_inverse_loop_spec:
  assumes "(u2 * x) mod m = u3 mod m" "(v2 * x) mod m = v3 mod m" "gcd u3 v3 = 1" "0 \<le> u3" "0 \<le> v3"
    "\<bar>u2\<bar> * v3 + \<bar>v2\<bar> * u3 = m" "u2 * v2 \<le> 0" "v3 = 0 \<or> 2 \<le> u3" "2 * \<bar>u2\<bar> \<le> m"
  shows "(mod_inverse_loop u1 u2 u3 v1 v2 v3 * x) mod m = 1 mod m \<and> 2 * \<bar>mod_inverse_loop u1 u2 u3 v1 v2 v3\<bar> \<le> m"
  using assms
proof (induction u1 u2 u3 v1 v2 v3 rule: mod_inverse_loop.induct)
  case (1 u1 u2 u3 v1 v2 v3)
  show ?case
  proof (cases "v3 > 0")
    case False
    then have "v3 = 0" "u3 = 1" using 1(4-7) by auto
    with 1 False show ?thesis by (subst (1 2) mod_inverse_loop.simps) simp
  next
    case True
    define q where "q = u3 div v3"
    have q: "0 \<le> q" "u3 - v3 * q = u3 mod v3" using True 1(5) by (auto simp: q_def pos_imp_zdiv_nonneg_iff minus_mult_div_eq_mod)
    have "((u2 - v2 * q) * x) mod m = (u2 * x - v2 * x * q) mod m" by (simp add: algebra_simps)
    also have "\<dots> = (u3 - v3 * q) mod m" using 1(2,3) by (metis mod_diff_cong mod_mult_cong)
    finally have c: "((u2 - v2 * q) * x) mod m = (u3 - v3 * q) mod m" .
    have ab: "\<bar>u2 - v2 * q\<bar> = \<bar>u2\<bar> + \<bar>v2\<bar> * q"
    proof -
      have "0 \<le> u2 \<and> v2 \<le> 0 \<or> u2 \<le> 0 \<and> 0 \<le> v2" using 1(8) by (auto simp: mult_le_0_iff)
      then show ?thesis
      proof (elim disjE conjE)
        assume a: "0 \<le> u2" "v2 \<le> 0"
        have "v2 * q \<le> 0" using a(2) q(1) by (rule mult_nonpos_nonneg)
        then have "\<bar>u2 - v2 * q\<bar> = u2 - v2 * q" using a(1) by linarith
        then show ?thesis using a by simp
      next
        assume a: "u2 \<le> 0" "0 \<le> v2"
        have "0 \<le> v2 * q" using a(2) q(1) by (rule mult_nonneg_nonneg)
        then have "\<bar>u2 - v2 * q\<bar> = v2 * q - u2" using a(1) by linarith
        then show ?thesis using a by simp
      qed
    qed
    have e: "\<bar>v2\<bar> * (u3 - v3 * q) + \<bar>u2 - v2 * q\<bar> * v3 = m" unfolding ab using 1(7) by (simp add: algebra_simps)
    have s: "v2 * (u2 - v2 * q) \<le> 0"
    proof -
      have "0 \<le> v2 * v2 * q" using q(1) by simp
      then show ?thesis using 1(8) by (simp add: algebra_simps)
    qed
    have g: "gcd v3 (u3 - v3 * q) = 1" using 1(4) q(2) by (metis gcd.commute gcd_red_int)
    have p: "0 \<le> u3 - v3 * q" "u3 - v3 * q < v3" using q(2) True by auto
    have two: "2 \<le> u3" using 1(9) True by auto
    have "\<bar>v2\<bar> * 2 \<le> \<bar>v2\<bar> * u3" using two by (intro mult_left_mono) auto
    also have "\<dots> \<le> m" using 1(7) True mult_nonneg_nonneg [of "\<bar>u2\<bar>" v3] by linarith
    finally have h: "2 * \<bar>v2\<bar> \<le> m" by simp
    have "mod_inverse_loop u1 u2 u3 v1 v2 v3 = mod_inverse_loop v1 v2 v3 (u1 - v1 * q) (u2 - v2 * q) (u3 - v3 * q)"
      using True by (subst mod_inverse_loop.simps) (simp add: q_def Let_def)
    moreover have "u3 - v3 * q = 0 \<or> 2 \<le> v3" using p by linarith
    ultimately show ?thesis
      using 1(1) [OF True q_def 1(3) c g 1(6) p(1) e s _ h] by simp
  qed
qed

lemma mod_inverse_spec:
  assumes "2 \<le> m" "0 \<le> x" "coprime x m"
  shows "(x * mod_inverse x m) mod m = 1 \<and> 0 \<le> mod_inverse x m \<and> mod_inverse x m < m"
proof -
  let ?r = "mod_inverse_loop 1 0 m 0 1 x"
  have "(?r * x) mod m = 1 mod m \<and> 2 * \<bar>?r\<bar> \<le> m"
    using assms by (intro mod_inverse_loop_spec) (auto simp: coprime_iff_gcd_eq_1 gcd.commute)
  moreover have "1 mod m = 1" using assms(1) by simp
  moreover have "(x * (?r + m)) mod m = (?r * x) mod m" by (simp add: distrib_left mult.commute)
  ultimately show ?thesis using assms(1) by (auto simp: mod_inverse_def Let_def mult.commute)
qed

section \<open>Comparison\<close>

lemma or_xor_zero: "foldl (\<lambda>res i. res OR (a ! i XOR b ! i)) r is = (0 :: byte) \<longleftrightarrow> r = 0 \<and> (\<forall>i \<in> set is. a ! i = b ! i)"
proof (induction "is" arbitrary: r)
  case (Cons i xs)
  have "x XOR y = 0 \<longleftrightarrow> x = y" for x y :: byte
    by (auto simp: bit_eq_iff bit_xor_iff)
  moreover have "x OR y = 0 \<longleftrightarrow> x = 0 \<and> y = 0" for x y :: byte
    by (auto simp: bit_eq_iff bit_or_iff)
  ultimately have "r OR (a ! i XOR b ! i) = 0 \<longleftrightarrow> r = 0 \<and> a ! i = b ! i" by simp
  with Cons show ?case by simp
qed simp

lemma constant_time_bytes_eq_iff: "constant_time_bytes_eq a b \<longleftrightarrow> a = b"
  by (auto simp: constant_time_bytes_eq_def or_xor_zero intro: nth_equalityI)

section \<open>Key bytes\<close>

lemma key_bytes_loop_total:
  assumes "\<And>d. hash d \<noteq> []" "n \<le> fuel"
  shows "\<exists>kd. key_bytes_loop hash salt key fuel keydata digest n = Some (keydata @ kd) \<and> length kd = n"
  using assms(2)
proof (induction fuel arbitrary: keydata digest n)
  case (Suc fuel)
  show ?case
  proof (cases "n = 0")
    case False
    let ?d = "hash (digest @ key @ salt)" and ?s = "min n (length (hash (digest @ key @ salt)))"
    have "0 < length ?d" using assms(1) by simp
    then have "n - ?s \<le> fuel" using Suc.prems False by linarith
    from Suc.IH [OF this, of "keydata @ take ?s ?d" ?d] False show ?thesis by (auto simp: Let_def)
  qed simp
qed simp

lemma generate_key_bytes_total:
  assumes "\<And>d. hash d \<noteq> []"
  shows "\<exists>kd. generate_key_bytes hash salt key n n = Some kd \<and> length kd = n"
  using key_bytes_loop_total [of hash n n "if length salt > 8 then take 8 salt else salt" key "[]" "[]"] assms
  by (auto simp: generate_key_bytes_def)

section \<open>Properties\<close>

text \<open>C32. The byte form of integers is canonical: for every integer the two conversions are inverse to
  each other, the byte string is the shortest two's-complement one, and every shortest byte string is the
  form of the integer it stands for.\<close>

theorem mpint_bytes_canonical:
  "inflate_long (deflate_long n True) False = n \<and> normalized (deflate_long n True) \<and>
   (normalized s \<longrightarrow> deflate_long (inflate_long s False) True = s)"
  using deflate_inflate [of s] by (simp add: inflate_long_signed deflate_long_val deflate_long_normalized)

theorem mpint_bytes_canonical_witness:
  "deflate_long (inflate_long [0xFF, 0x7F] False) True = [0xFF, 0x7F]"
  using mpint_bytes_canonical [of 0 "[0xFF, 0x7F]"] by (simp add: normalized_def)

text \<open>The modular inverse is one: for coprime arguments and a modulus of at least two, the result is a
  residue whose product with the argument is one.\<close>

theorem mod_inverse_correct:
  "2 \<le> m \<Longrightarrow> 0 \<le> x \<Longrightarrow> coprime x m \<Longrightarrow>
     (x * mod_inverse x m) mod m = 1 \<and> 0 \<le> mod_inverse x m \<and> mod_inverse x m < m"
  by (rule mod_inverse_spec)

theorem mod_inverse_correct_witness: "(3 * mod_inverse 3 11) mod 11 = 1"
proof -
  have "coprime 3 (11 :: int)" by (simp add: coprime_iff_gcd_eq_1 gcd_non_0_int)
  from mod_inverse_correct [OF _ _ this] show ?thesis by simp
qed

end
