(* ===== verification/Ssh_Ber.thy ===== *)
theory Ssh_Ber
  imports Ssh_Util
begin

text \<open>
  \<^verbatim>\<open>paramiko/ber.py\<close>: the small BER encoder and decoder used for private keys. A decoder is the part of its
  contents from its index on. \<open>read_tlv\<close> is the first half of \<^verbatim>\<open>decode_next\<close>, up to the switch on the
  identifier; \<open>decode_sequence\<close> is the loop over the elements of a sequence.
\<close>

datatype ber_value = BInt int | BSeq "ber_value list" | BBool bool | BStr ustr

section \<open>Decoding\<close>

text \<open>The long form of an identifier: seven bits per byte while the top bit is set.\<close>

fun long_ident :: "int \<Rightarrow> bytes \<Rightarrow> int \<times> bytes" where
  "long_ident ident [] = (ident, [])"
| "long_ident ident (t # r) =
     (let ident' = ident * 128 + uint t mod 128
      in if uint t \<ge> 128 then long_ident ident' r else (ident', r))"

text \<open>The identifier, the contents and the rest; or no element, and what is left then.\<close>

definition read_tlv :: "bytes \<Rightarrow> bytes + (int \<times> bytes \<times> bytes)" where
  "read_tlv bs =
     (case bs of
        [] \<Rightarrow> Inl []
      | i # r \<Rightarrow>
         (case (if uint i mod 32 = 31 then long_ident 0 r else (uint i, r)) of
            (ident, r1) \<Rightarrow>
              (case r1 of
                 [] \<Rightarrow> Inl []
               | s # r2 \<Rightarrow>
                  (let t = nat (uint s mod 128) in
                   if uint s \<ge> 128 \<and> t > length r2 then Inl r2
                   else
                    (case (if uint s \<ge> 128 then (inflate_long (take t r2) True, drop t r2) else (uint s, r2)) of
                       (sz, r3) \<Rightarrow>
                         if sz > int (length r3) then Inl r3
                         else Inr (ident, take (nat sz) r3, drop (nat sz) r3))))))"

lemma long_ident_length: "length (snd (long_ident i r)) \<le> length r"
  by (induction i r rule: long_ident.induct) (auto simp: Let_def)

lemma read_tlv_shorter:
  assumes "read_tlv bs = Inr (i, d, r)"
  shows "length d + length r < length bs"
proof -
  obtain b bs' where b: "bs = b # bs'" using assms by (auto simp: read_tlv_def split: list.splits)
  obtain ident r1 where r1: "(if uint b mod 32 = 31 then long_ident 0 bs' else (uint b, bs')) = (ident, r1)"
    by fastforce
  have "length r1 \<le> length bs'" using r1 long_ident_length [of 0 bs'] by (auto split: if_splits)
  moreover obtain s r2 where s: "r1 = s # r2" using assms b r1 by (cases r1) (auto simp: read_tlv_def)
  moreover obtain sz r3 where r3: "(if uint s \<ge> 128 then (inflate_long (take (nat (uint s mod 128)) r2) True,
      drop (nat (uint s mod 128)) r2) else (uint s, r2)) = (sz, r3)" by fastforce
  moreover have "length r3 \<le> length r2" using r3 by (auto split: if_splits)
  moreover have "d = take (nat sz) r3 \<and> r = drop (nat sz) r3"
    using assms unfolding b read_tlv_def list.case r1 prod.case s Let_def r3 by (auto split: if_splits)
  ultimately show ?thesis using b by auto
qed

function decode_sequence :: "bytes \<Rightarrow> ber_value list res" where
  "decode_sequence bs =
     (case read_tlv bs of
        Inl _ \<Rightarrow> Inr []
      | Inr (ident, data, rest) \<Rightarrow>
          bindR (if ident = 0x30 then bindR (decode_sequence data) (\<lambda>l. Inr (BSeq l))
                 else if ident = 2 then Inr (BInt (inflate_long data False))
                 else Inl BERException)
            (\<lambda>x. bindR (decode_sequence rest) (\<lambda>xs. Inr (x # xs))))"
  by pat_completeness auto
termination
  by (relation "measure length") (auto dest: read_tlv_shorter)

declare decode_sequence.simps [simp del]

text \<open>\<^verbatim>\<open>decode_next\<close>: the next value, \<open>None\<close> when there is none, and the rest of the contents.\<close>

definition decode_next :: "(bytes, ber_value option) sm" where
  "decode_next = (\<lambda>bs.
     case read_tlv bs of
       Inl r \<Rightarrow> (Inr None, r)
     | Inr (ident, data, rest) \<Rightarrow>
         (if ident = 0x30 then bindR (decode_sequence data) (\<lambda>l. Inr (Some (BSeq l)))
          else if ident = 2 then Inr (Some (BInt (inflate_long data False)))
          else Inl BERException, rest))"

section \<open>Encoding\<close>

definition byte_chr :: "int \<Rightarrow> bytes res" where
  "byte_chr c = pack_be 1 c"

definition encode_tlv :: "int \<Rightarrow> bytes \<Rightarrow> bytes res" where
  "encode_tlv ident val =
     bindR (byte_chr ident) (\<lambda>i.
     bindR (if length val > 0x7F
            then (let lenstr = deflate_long (int (length val)) True
                  in bindR (byte_chr (0x80 + int (length lenstr))) (\<lambda>c. Inr (c @ lenstr)))
            else byte_chr (int (length val)))
       (\<lambda>l. Inr (i @ l @ val)))"

text \<open>A \<^verbatim>\<open>str\<close> cannot be added to the bytes of the encoder.\<close>

fun ber_encode :: "ber_value \<Rightarrow> bytes res"
and ber_encode_sequence :: "ber_value list \<Rightarrow> bytes res" where
  "ber_encode (BBool b) = encode_tlv 1 (if b then [0xFF] else [0])"
| "ber_encode (BInt n) = encode_tlv 2 (deflate_long n True)"
| "ber_encode (BStr s) = Inl TypeError"
| "ber_encode (BSeq l) = bindR (ber_encode_sequence l) (\<lambda>b. encode_tlv 0x30 b)"
| "ber_encode_sequence [] = Inr []"
| "ber_encode_sequence (x # xs) =
     bindR (ber_encode x) (\<lambda>b. bindR (ber_encode_sequence xs) (\<lambda>bs. Inr (b @ bs)))"

section \<open>Round trip\<close>

text \<open>The values the decoder knows.\<close>

fun plain :: "ber_value \<Rightarrow> bool" where
  "plain (BInt n) = True"
| "plain (BSeq l) = list_all plain l"
| "plain (BBool b) = False"
| "plain (BStr s) = False"

lemma byte_chr_Inr: "byte_chr c = Inr b \<Longrightarrow> \<exists>x. b = [x] \<and> uint x = c \<and> 0 \<le> c \<and> c < 256"
proof -
  assume "byte_chr c = Inr b"
  then have "b = be_bytes 1 c" "0 \<le> c" "c < 256" by (auto simp: byte_chr_def dest: pack_be_InrD)
  then show ?thesis by (simp add: byte_of_int_uint)
qed

lemma read_tlv_encode:
  assumes "encode_tlv ident val = Inr bs" "ident mod 32 \<noteq> 31"
  shows "read_tlv (bs @ rest) = Inr (ident, val, rest)"
proof -
  obtain i l where i: "byte_chr ident = Inr i" and bs: "bs = i @ l @ val"
    and l: "(if length val > 0x7F
            then (let lenstr = deflate_long (int (length val)) True
                  in bindR (byte_chr (0x80 + int (length lenstr))) (\<lambda>c. Inr (c @ lenstr)))
            else byte_chr (int (length val))) = Inr l"
    using assms(1) by (auto simp: encode_tlv_def bindR_eq_Inr)
  obtain x where x: "i = [x]" "uint x = ident" using byte_chr_Inr [OF i] by blast
  show ?thesis
  proof (cases "length val > 0x7F")
    case False
    then obtain y where "l = [y]" "uint y = int (length val)" using l byte_chr_Inr by auto
    with False x bs assms(2) show ?thesis by (simp add: read_tlv_def Let_def)
  next
    case True
    define ls where "ls = deflate_long (int (length val)) True"
    from True l obtain c where c: "byte_chr (0x80 + int (length ls)) = Inr c" "l = c @ ls"
      by (auto simp: ls_def Let_def bindR_eq_Inr)
    from byte_chr_Inr [OF c(1)] obtain y where y: "c = [y]" "uint y = 128 + int (length ls)" "int (length ls) < 128" by auto
    have "tc_val ls = int (length val)" by (simp add: ls_def deflate_long_val)
    then have "be_int ls = int (length val)"
    proof -
      assume t: "tc_val ls = int (length val)"
      have "be_int ls < 256 ^ length ls" by (rule be_int_less)
      with t show ?thesis by (auto simp: tc_val_def split: if_splits)
    qed
    moreover have "nat (uint y mod 128) = length ls" using y(2,3) by (simp add: mod_add_left_eq [symmetric])
    ultimately show ?thesis using x bs c(2) y assms(2)
      by (simp add: read_tlv_def Let_def inflate_long_unsigned)
  qed
qed

lemma encode_decode:
  "plain v \<Longrightarrow> ber_encode v = Inr bs \<Longrightarrow> decode_next (bs @ rest) = (Inr (Some v), rest)"
  "list_all plain vs \<Longrightarrow> ber_encode_sequence vs = Inr bs' \<Longrightarrow> decode_sequence bs' = Inr vs"
proof (induction v and vs arbitrary: bs rest and bs' rule: ber_encode_ber_encode_sequence.induct)
  case (2 n)
  then have "read_tlv (bs @ rest) = Inr (2, deflate_long n True, rest)" by (intro read_tlv_encode) auto
  then show ?case by (simp add: decode_next_def inflate_long_signed deflate_long_val)
next
  case (4 l)
  then obtain b where b: "ber_encode_sequence l = Inr b" "encode_tlv 0x30 b = Inr bs"
    by (auto simp: bindR_eq_Inr)
  then have "read_tlv (bs @ rest) = Inr (0x30, b, rest)" by (intro read_tlv_encode) auto
  moreover have "decode_sequence b = Inr l" using 4 b(1) by simp
  ultimately show ?case by (simp add: decode_next_def)
next
  case 5
  then show ?case by (subst decode_sequence.simps) (simp add: read_tlv_def)
next
  case (6 x xs)
  then obtain b c where b: "ber_encode x = Inr b" "ber_encode_sequence xs = Inr c" "bs' = b @ c"
    by (auto simp: bindR_eq_Inr)
  then have x: "decode_next (b @ c) = (Inr (Some x), c)" and xs: "decode_sequence c = Inr xs"
    using 6 by auto
  show ?case using x xs unfolding b(3)
    by (subst decode_sequence.simps)
      (auto simp: decode_next_def bindR_eq_Inr split: sum.splits if_splits)
qed auto

section \<open>Properties\<close>

text \<open>C34. What the encoder writes for an integer or a nested sequence of integers is decoded as the same
  value, and exactly the encoded bytes are consumed, whatever follows them.\<close>

theorem ber_roundtrip:
  "plain v \<Longrightarrow> ber_encode v = Inr bs \<Longrightarrow> decode_next (bs @ rest) = (Inr (Some v), rest)"
  by (rule encode_decode(1))

theorem ber_roundtrip_witness:
  "decode_next [0x30, 8, 2, 1, 0, 0x30, 0, 2, 1, 0, 7] = (Inr (Some (BSeq [BInt 0, BSeq [], BInt 0])), [7])"
proof -
  have z: "deflate_long 0 True = [0]" by (simp add: deflate_long_def deflate_words.simps)
  have "ber_encode (BSeq [BInt 0, BSeq [], BInt 0]) = Inr [0x30, 8, 2, 1, 0, 0x30, 0, 2, 1, 0]"
    by (simp add: z encode_tlv_def byte_chr_def pack_be_def)
  from ber_roundtrip [OF _ this, of "[7]"] show ?thesis by simp
qed

text \<open>The decoder ends on every input and consumes from the front: it gives a value and has consumed at
  least its header, or finds no further element, or stops with its one exception, on an element of a kind
  it does not know.\<close>

theorem ber_decode_total:
  "case decode_next bs of
     (Inl e, r) \<Rightarrow> e = BERException
   | (Inr None, r) \<Rightarrow> True
   | (Inr (Some v), r) \<Rightarrow> length r < length bs"
proof -
  have d: "case decode_sequence b of Inl e \<Rightarrow> e = BERException | Inr l \<Rightarrow> True" for b
  proof (induction b rule: decode_sequence.induct)
    case (1 b)
    show ?case
    proof (cases "read_tlv b")
      case (Inr t)
      obtain i d r where t: "t = (i, d, r)" by (cases t) auto
      have "case decode_sequence r of Inl e \<Rightarrow> e = BERException | Inr l \<Rightarrow> True"
        if "i = 0x30 \<or> i = 2" using that 1 Inr t by (auto simp: bindR_def split: sum.splits)
      moreover have "case decode_sequence d of Inl e \<Rightarrow> e = BERException | Inr l \<Rightarrow> True"
        if "i = 0x30" using that 1 Inr t by auto
      ultimately show ?thesis using Inr t
        by (subst decode_sequence.simps) (auto simp: bindR_def split: sum.splits)
    qed (subst decode_sequence.simps, simp)
  qed
  show ?thesis
  proof (cases "read_tlv bs")
    case (Inr t)
    obtain i b r where "t = (i, b, r)" by (cases t) auto
    then show ?thesis using Inr d [of b]
      by (auto simp: decode_next_def bindR_def split: sum.splits dest: read_tlv_shorter)
  qed (simp add: decode_next_def)
qed

end
