(* ===== verification/Ssh_Common.thy ===== *)
theory Ssh_Common
  imports Balii_Prelude
begin

text \<open>
  \<^verbatim>\<open>paramiko/common.py\<close>: message numbers, the table of their names, window and packet limits.
\<close>

section \<open>Message numbers\<close>

definition MSG_DISCONNECT :: byte where "MSG_DISCONNECT = 1"
definition MSG_IGNORE :: byte where "MSG_IGNORE = 2"
definition MSG_UNIMPLEMENTED :: byte where "MSG_UNIMPLEMENTED = 3"
definition MSG_DEBUG :: byte where "MSG_DEBUG = 4"
definition MSG_SERVICE_REQUEST :: byte where "MSG_SERVICE_REQUEST = 5"
definition MSG_SERVICE_ACCEPT :: byte where "MSG_SERVICE_ACCEPT = 6"
definition MSG_EXT_INFO :: byte where "MSG_EXT_INFO = 7"
definition MSG_KEXINIT :: byte where "MSG_KEXINIT = 20"
definition MSG_NEWKEYS :: byte where "MSG_NEWKEYS = 21"
definition MSG_USERAUTH_REQUEST :: byte where "MSG_USERAUTH_REQUEST = 50"
definition MSG_USERAUTH_FAILURE :: byte where "MSG_USERAUTH_FAILURE = 51"
definition MSG_USERAUTH_SUCCESS :: byte where "MSG_USERAUTH_SUCCESS = 52"
definition MSG_USERAUTH_BANNER :: byte where "MSG_USERAUTH_BANNER = 53"
definition MSG_USERAUTH_PK_OK :: byte where "MSG_USERAUTH_PK_OK = 60"
definition MSG_USERAUTH_INFO_REQUEST :: byte where "MSG_USERAUTH_INFO_REQUEST = 60"
definition MSG_USERAUTH_INFO_RESPONSE :: byte where "MSG_USERAUTH_INFO_RESPONSE = 61"
definition HIGHEST_USERAUTH_MESSAGE_ID :: nat where "HIGHEST_USERAUTH_MESSAGE_ID = 79"
definition MSG_GLOBAL_REQUEST :: byte where "MSG_GLOBAL_REQUEST = 80"
definition MSG_REQUEST_SUCCESS :: byte where "MSG_REQUEST_SUCCESS = 81"
definition MSG_REQUEST_FAILURE :: byte where "MSG_REQUEST_FAILURE = 82"
definition MSG_CHANNEL_OPEN :: byte where "MSG_CHANNEL_OPEN = 90"
definition MSG_CHANNEL_OPEN_SUCCESS :: byte where "MSG_CHANNEL_OPEN_SUCCESS = 91"
definition MSG_CHANNEL_OPEN_FAILURE :: byte where "MSG_CHANNEL_OPEN_FAILURE = 92"
definition MSG_CHANNEL_WINDOW_ADJUST :: byte where "MSG_CHANNEL_WINDOW_ADJUST = 93"
definition MSG_CHANNEL_DATA :: byte where "MSG_CHANNEL_DATA = 94"
definition MSG_CHANNEL_EXTENDED_DATA :: byte where "MSG_CHANNEL_EXTENDED_DATA = 95"
definition MSG_CHANNEL_EOF :: byte where "MSG_CHANNEL_EOF = 96"
definition MSG_CHANNEL_CLOSE :: byte where "MSG_CHANNEL_CLOSE = 97"
definition MSG_CHANNEL_REQUEST :: byte where "MSG_CHANNEL_REQUEST = 98"
definition MSG_CHANNEL_SUCCESS :: byte where "MSG_CHANNEL_SUCCESS = 99"
definition MSG_CHANNEL_FAILURE :: byte where "MSG_CHANNEL_FAILURE = 100"

lemmas msg_defs = MSG_DISCONNECT_def MSG_IGNORE_def MSG_UNIMPLEMENTED_def MSG_DEBUG_def MSG_SERVICE_REQUEST_def
  MSG_SERVICE_ACCEPT_def MSG_EXT_INFO_def MSG_KEXINIT_def MSG_NEWKEYS_def MSG_USERAUTH_REQUEST_def
  MSG_USERAUTH_FAILURE_def MSG_USERAUTH_SUCCESS_def MSG_USERAUTH_BANNER_def MSG_USERAUTH_PK_OK_def
  MSG_USERAUTH_INFO_REQUEST_def MSG_USERAUTH_INFO_RESPONSE_def MSG_GLOBAL_REQUEST_def MSG_REQUEST_SUCCESS_def
  MSG_REQUEST_FAILURE_def MSG_CHANNEL_OPEN_def MSG_CHANNEL_OPEN_SUCCESS_def MSG_CHANNEL_OPEN_FAILURE_def
  MSG_CHANNEL_WINDOW_ADJUST_def MSG_CHANNEL_DATA_def MSG_CHANNEL_EXTENDED_DATA_def MSG_CHANNEL_EOF_def
  MSG_CHANNEL_CLOSE_def MSG_CHANNEL_REQUEST_def MSG_CHANNEL_SUCCESS_def MSG_CHANNEL_FAILURE_def

text \<open>The numbers \<^verbatim>\<open>MSG_NAMES\<close> has a name for.\<close>

definition MSG_NAMES :: "nat list" where
  "MSG_NAMES = [1, 2, 3, 4, 5, 6, 20, 7, 21, 30, 31, 32, 33, 34, 40, 41, 50, 51, 52, 53, 60, 61, 80, 81, 82,
     90, 91, 92, 93, 94, 95, 96, 97, 98, 99, 100, 63, 64, 65, 66]"

section \<open>Limits\<close>

definition xffffffff :: int where "xffffffff = 0xFFFFFFFF"
definition DEFAULT_WINDOW_SIZE :: int where "DEFAULT_WINDOW_SIZE = 64 * 2 ^ 15"
definition DEFAULT_MAX_PACKET_SIZE :: int where "DEFAULT_MAX_PACKET_SIZE = 2 ^ 15"
definition MIN_WINDOW_SIZE :: int where "MIN_WINDOW_SIZE = 2 ^ 15"
definition MIN_PACKET_SIZE :: int where "MIN_PACKET_SIZE = 2 ^ 12"
definition MAX_WINDOW_SIZE :: int where "MAX_WINDOW_SIZE = 2 ^ 32 - 1"

end
