(* ===== verification/Ssh_Message.thy ===== *)
theory Ssh_Message
  imports Ssh_Util
begin

text \<open>
  \<^verbatim>\<open>paramiko/message.py\<close>: an SSH2 message is a byte stream with a position. \<open>message\<close> holds the contents
  of the \<^verbatim>\<open>BytesIO\<close> and its position; every method is a computation on it. Writing overwrites at the
  position, as the stream does. The locale \<open>message_field\<close> is the contract of one kind of field, an
  \<open>add\<close> and a \<open>get\<close> method that fit together; each kind of field is an interpretation of it.
\<close>

section \<open>The stream\<close>

record message =
  mbuf :: bytes
  mpos :: nat

definition new_message :: "bytes option \<Rightarrow> message" where
  "new_message c = \<lparr>mbuf = (case c of Some b \<Rightarrow> b | None \<Rightarrow> []), mpos = 0\<rparr>"

definition stream_write :: "bytes \<Rightarrow> message \<Rightarrow> message" where
  "stream_write b m =
     m\<lparr>mbuf := take (mpos m) (mbuf m) @ replicate (mpos m - length (mbuf m)) 0 @ b
                @ drop (mpos m + length b) (mbuf m),
       mpos := mpos m + length b\<rparr>"

definition stream_read :: "nat \<Rightarrow> message \<Rightarrow> bytes \<times> message" where
  "stream_read n m =
     (let b = take n (drop (mpos m) (mbuf m)) in (b, m\<lparr>mpos := mpos m + length b\<rparr>))"

definition asbytes :: "message \<Rightarrow> bytes" where
  "asbytes m = mbuf m"

definition rewind :: "message \<Rightarrow> message" where
  "rewind m = m\<lparr>mpos := 0\<rparr>"

definition get_remainder :: "message \<Rightarrow> bytes" where
  "get_remainder m = drop (mpos m) (mbuf m)"

definition get_so_far :: "message \<Rightarrow> bytes \<times> message" where
  "get_so_far m = stream_read (mpos m) (rewind m)"

section \<open>Reading fields\<close>

definition get_bytes :: "nat \<Rightarrow> (message, bytes) sm" where
  "get_bytes n = (\<lambda>m.
     case stream_read n m of (b, m') \<Rightarrow>
       (Inr (if length b < n \<and> n < 2 ^ 20 then b @ replicate (n - length b) 0 else b), m'))"

text \<open>\<^verbatim>\<open>struct.unpack\<close> of an unsigned field of \<open>k\<close> bytes: another length raises.\<close>

definition unpack_be :: "nat \<Rightarrow> bytes \<Rightarrow> int res" where
  "unpack_be k b = (if length b = k then Inr (be_int b) else Inl StructError)"

definition get_byte :: "(message, bytes) sm" where
  "get_byte = get_bytes 1"

definition get_boolean :: "(message, bool) sm" where
  "get_boolean = bindS (get_bytes 1) (\<lambda>b. retS (b \<noteq> [0]))"

definition get_int :: "(message, int) sm" where
  "get_int = bindS (get_bytes 4) (\<lambda>b. liftR (unpack_be 4 b))"

definition get_int64 :: "(message, int) sm" where
  "get_int64 = bindS (get_bytes 8) (\<lambda>b. liftR (unpack_be 8 b))"

definition get_binary :: "(message, bytes) sm" where
  "get_binary = bindS get_int (\<lambda>n. get_bytes (nat n))"

definition get_string :: "(message, bytes) sm" where
  "get_string = bindS get_int (\<lambda>n. get_bytes (nat n))"

definition get_mpint :: "(message, int) sm" where
  "get_mpint = bindS get_binary (\<lambda>b. retS (inflate_long b False))"

definition get_adaptive_int :: "(message, int) sm" where
  "get_adaptive_int =
     bindS (get_bytes 1) (\<lambda>b.
       if b = [0xFF] then bindS get_binary (\<lambda>s. retS (inflate_long s False))
       else bindS (get_bytes 3) (\<lambda>b3. liftR (unpack_be 4 (b @ b3))))"

definition get_text :: "(message, ustr) sm" where
  "get_text = bindS get_string (\<lambda>b. liftR (utf8_decode b))"

definition get_list :: "(message, ustr list) sm" where
  "get_list = bindS get_text (\<lambda>s. retS (split_on 44 s))"

section \<open>Writing fields\<close>

definition add_bytes :: "bytes \<Rightarrow> (message, unit) sm" where
  "add_bytes b = modS (stream_write b)"

definition add_byte :: "bytes \<Rightarrow> (message, unit) sm" where
  "add_byte b = modS (stream_write b)"

definition add_boolean :: "bool \<Rightarrow> (message, unit) sm" where
  "add_boolean b = modS (stream_write (if b then [1] else [0]))"

definition add_int :: "int \<Rightarrow> (message, unit) sm" where
  "add_int n = bindS (liftR (pack_be 4 n)) (\<lambda>b. modS (stream_write b))"

definition add_int64 :: "int \<Rightarrow> (message, unit) sm" where
  "add_int64 n = bindS (liftR (pack_be 8 n)) (\<lambda>b. modS (stream_write b))"

definition add_string :: "bytes \<Rightarrow> (message, unit) sm" where
  "add_string s = bindS (add_int (int (length s))) (\<lambda>_. modS (stream_write s))"

text \<open>\<^verbatim>\<open>add_string\<close> on a \<^verbatim>\<open>str\<close>: \<^verbatim>\<open>util.asbytes\<close> encodes it first.\<close>

definition add_text :: "ustr \<Rightarrow> (message, unit) sm" where
  "add_text s = bindS (liftR (utf8_encode s)) add_string"

definition big_int :: int where
  "big_int = 0xFF000000"

definition add_adaptive_int :: "int \<Rightarrow> (message, unit) sm" where
  "add_adaptive_int n =
     (if n \<ge> big_int then bindS (modS (stream_write [0xFF])) (\<lambda>_. add_string (deflate_long n True))
      else bindS (liftR (pack_be 4 n)) (\<lambda>b. modS (stream_write b)))"

definition add_mpint :: "int \<Rightarrow> (message, unit) sm" where
  "add_mpint z = add_string (deflate_long z True)"

definition add_list :: "ustr list \<Rightarrow> (message, unit) sm" where
  "add_list l = add_text (join [44] l)"

text \<open>\<^verbatim>\<open>add\<close> chooses by the type of the value.\<close>

datatype pyval = PBool bool | PInt int | PList "ustr list" | PBytes bytes | PStr ustr

fun add_item :: "pyval \<Rightarrow> (message, unit) sm" where
  "add_item (PBool b) = add_boolean b"
| "add_item (PInt i) = add_adaptive_int i"
| "add_item (PList l) = add_list l"
| "add_item (PBytes s) = add_string s"
| "add_item (PStr s) = add_text s"

fun add_seq :: "pyval list \<Rightarrow> (message, unit) sm" where
  "add_seq [] = retS ()"
| "add_seq (x # xs) = bindS (add_item x) (\<lambda>_. add_seq xs)"

section \<open>Basic facts\<close>

text \<open>Appending at the end, and reading a known prefix of what is left.\<close>

definition at_end :: "message \<Rightarrow> bool" where
  "at_end m \<longleftrightarrow> mpos m = length (mbuf m)"

definition append_bytes :: "message \<Rightarrow> bytes \<Rightarrow> message" where
  "append_bytes m b = m\<lparr>mbuf := mbuf m @ b, mpos := mpos m + length b\<rparr>"

definition advance :: "message \<Rightarrow> nat \<Rightarrow> message" where
  "advance m k = m\<lparr>mpos := mpos m + k\<rparr>"

lemma stream_write_end: "at_end m \<Longrightarrow> stream_write b m = append_bytes m b"
  by (simp add: at_end_def stream_write_def append_bytes_def)

lemma append_bytes_simps [simp]:
  "at_end m \<Longrightarrow> at_end (append_bytes m b)"
  "append_bytes (append_bytes m a) b = append_bytes m (a @ b)"
  "append_bytes m [] = m"
  by (simp_all add: at_end_def append_bytes_def)

lemma advance_simps [simp]:
  "advance (advance m j) k = advance m (j + k)" "advance m 0 = m"
  "get_remainder (advance m k) = drop k (get_remainder m)"
  by (simp_all add: advance_def get_remainder_def add.commute)

lemma get_bytes_prefix:
  "get_remainder m = b @ r \<Longrightarrow> n = length b \<Longrightarrow> get_bytes n m = (Inr b, advance m n)"
proof -
  assume a: "get_remainder m = b @ r" "n = length b"
  then have "take n (drop (mpos m) (mbuf m)) = b" by (simp add: get_remainder_def)
  with a(2) show "get_bytes n m = (Inr b, advance m n)"
    by (simp only: get_bytes_def stream_read_def advance_def Let_def prod.case) simp
qed

lemma get_bytes_result:
  "get_bytes n m =
     (let b = take n (get_remainder m)
      in (Inr (if length b < n \<and> n < 2 ^ 20 then b @ replicate (n - length b) 0 else b), advance m (length b)))"
  by (simp add: get_bytes_def stream_read_def get_remainder_def advance_def Let_def)

section \<open>The contract of a field\<close>

locale message_field =
  fixes ok :: "'a \<Rightarrow> bool" and enc :: "'a \<Rightarrow> bytes"
    and put :: "'a \<Rightarrow> (message, unit) sm" and get :: "(message, 'a) sm"
  assumes put_end: "ok x \<Longrightarrow> at_end m \<Longrightarrow> put x m = (Inr (), append_bytes m (enc x))"
    and get_prefix: "ok x \<Longrightarrow> get_remainder m = enc x @ r \<Longrightarrow> get m = (Inr x, advance m (length (enc x)))"
begin

lemma get_left:
  assumes "ok x" "get_remainder m = enc x @ r" "get m = (y, m')"
  shows "y = Inr x \<and> get_remainder m' = r"
  using assms get_prefix by auto

lemma put_get:
  assumes "ok x" "put x (new_message None) = (y, m)"
  shows "y = Inr () \<and> fst (get (rewind m)) = Inr x"
proof -
  have e: "at_end (new_message None)" by (simp add: at_end_def new_message_def)
  have m: "y = Inr ()" "m = append_bytes (new_message None) (enc x)"
    using put_end [OF assms(1) e] assms(2) by auto
  then have "get_remainder (rewind m) = enc x @ []"
    by (simp add: get_remainder_def rewind_def append_bytes_def new_message_def)
  from get_prefix [OF assms(1) this] m(1) show ?thesis by simp
qed

end

text \<open>A field wrapped by a pair of conversions is a field again.\<close>

locale message_field_wrap = message_field +
  fixes fwd :: "'b \<Rightarrow> 'a res" and bwd :: "'a \<Rightarrow> 'b res" and ok' :: "'b \<Rightarrow> bool"
  assumes to_ok: "ok' y \<Longrightarrow> \<exists>x. fwd y = Inr x \<and> ok x \<and> bwd x = Inr y"
begin

definition enc' :: "'b \<Rightarrow> bytes" where
  "enc' y = (case fwd y of Inr x \<Rightarrow> enc x | Inl e \<Rightarrow> [])"

sublocale wrapped: message_field ok' enc' "\<lambda>y. bindS (liftR (fwd y)) put" "bindS get (\<lambda>x. liftR (bwd x))"
proof
  fix y m assume "ok' y" "at_end m"
  with to_ok obtain x where "fwd y = Inr x" "ok x" by blast
  with put_end \<open>at_end m\<close> show "bindS (liftR (fwd y)) put m = (Inr (), append_bytes m (enc' y))"
    by (simp add: bindS_def liftR_def enc'_def)
next
  fix y m r assume "ok' y" "get_remainder m = enc' y @ r"
  with to_ok obtain x where "fwd y = Inr x" "ok x" "bwd x = Inr y" by blast
  with get_prefix [of x m r] \<open>get_remainder m = enc' y @ r\<close>
  show "bindS get (\<lambda>x. liftR (bwd x)) m = (Inr y, advance m (length (enc' y)))"
    by (simp add: bindS_def liftR_def enc'_def)
qed

end

section \<open>The fields\<close>

definition ok_string :: "bytes \<Rightarrow> bool" where
  "ok_string s \<longleftrightarrow> length s < 2 ^ 32"

definition enc_string :: "bytes \<Rightarrow> bytes" where
  "enc_string s = be_bytes 4 (int (length s)) @ s"

lemma length_enc_string [simp]: "length (enc_string s) = 4 + length s"
  by (simp add: enc_string_def)

lemma get_int_prefix:
  "get_remainder m = b @ r \<Longrightarrow> length b = 4 \<Longrightarrow> get_int m = (Inr (be_int b), advance m 4)"
  by (simp add: get_int_def bindS_def get_bytes_prefix liftR_def unpack_be_def)

interpretation f_int: message_field "\<lambda>n. 0 \<le> n \<and> n < 2 ^ 32" "be_bytes 4" add_int get_int
proof
  show "add_int n m = (Inr (), append_bytes m (be_bytes 4 n))" if "0 \<le> n \<and> n < 2 ^ 32" "at_end m" for n m
    using that by (simp add: add_int_def sm_simps pack_be_Inr stream_write_end)
  show "get_int m = (Inr n, advance m (length (be_bytes 4 n)))"
    if "0 \<le> n \<and> n < 2 ^ 32" "get_remainder m = be_bytes 4 n @ r" for n m r
    using that by (simp add: get_int_prefix be_int_be_bytes)
qed

interpretation f_int64: message_field "\<lambda>n. 0 \<le> n \<and> n < 2 ^ 64" "be_bytes 8" add_int64 get_int64
proof
  show "add_int64 n m = (Inr (), append_bytes m (be_bytes 8 n))" if "0 \<le> n \<and> n < 2 ^ 64" "at_end m" for n m
    using that by (simp add: add_int64_def sm_simps pack_be_Inr stream_write_end)
  show "get_int64 m = (Inr n, advance m (length (be_bytes 8 n)))"
    if "0 \<le> n \<and> n < 2 ^ 64" "get_remainder m = be_bytes 8 n @ r" for n m r
    using that by (simp add: get_int64_def bindS_def get_bytes_prefix liftR_def unpack_be_def be_int_be_bytes)
qed

interpretation f_boolean: message_field "\<lambda>_. True" "\<lambda>b. if b then [1] else [0]" add_boolean get_boolean
proof
  show "add_boolean b m = (Inr (), append_bytes m (if b then [1] else [0]))" if "at_end m" for b m
    using that by (simp add: add_boolean_def modS_def stream_write_end)
  show "get_boolean m = (Inr b, advance m (length (if b then [1] else [0 :: byte])))"
    if "get_remainder m = (if b then [1] else [0]) @ r" for b m r
    using that by (simp add: get_boolean_def bindS_def retS_def get_bytes_prefix split: if_splits)
qed

interpretation f_byte: message_field "\<lambda>b. length b = 1" "\<lambda>b. b" add_byte get_byte
  by unfold_locales (simp_all add: add_byte_def modS_def stream_write_end get_byte_def get_bytes_prefix)

interpretation f_string: message_field ok_string enc_string add_string get_string
proof
  show "add_string s m = (Inr (), append_bytes m (enc_string s))" if "ok_string s" "at_end m" for s m
    using that f_int.put_end [of "int (length s)" m]
    by (simp add: ok_string_def add_string_def bindS_def modS_def stream_write_end enc_string_def)
  show "get_string m = (Inr s, advance m (length (enc_string s)))"
    if "ok_string s" "get_remainder m = enc_string s @ r" for s m r
  proof -
    have "get_int m = (Inr (int (length s)), advance m 4)"
      using that f_int.get_prefix [of "int (length s)" m "s @ r"] by (simp add: enc_string_def ok_string_def)
    moreover have "get_remainder (advance m 4) = s @ r" using that by (simp add: enc_string_def)
    ultimately show ?thesis by (simp add: get_string_def bindS_def get_bytes_prefix)
  qed
qed

lemma get_binary_eq: "get_binary = get_string"
  by (simp add: get_binary_def get_string_def)

lemma bindS_retS_right: "bindS m (\<lambda>x. retS (f x)) = bindS m (\<lambda>x. liftR (Inr (f x)))"
  by (simp add: retS_def liftR_def)

interpretation w_mpint: message_field_wrap ok_string enc_string add_string get_string
    "\<lambda>z. Inr (deflate_long z True)" "\<lambda>s. Inr (inflate_long s False)" "\<lambda>z. ok_string (deflate_long z True)"
  by unfold_locales (simp add: inflate_long_signed deflate_long_val)

interpretation w_text: message_field_wrap ok_string enc_string add_string get_string
    utf8_encode utf8_decode "\<lambda>s. \<exists>b. utf8_encode s = Inr b \<and> ok_string b"
  by unfold_locales (auto dest: utf8_roundtrip)

lemma add_mpint_eq: "add_mpint = (\<lambda>z. bindS (liftR (Inr (deflate_long z True))) add_string)"
  by (simp add: add_mpint_def bindS_def liftR_def fun_eq_iff)

lemma get_mpint_eq: "get_mpint = bindS get_string (\<lambda>s. liftR (Inr (inflate_long s False)))"
  by (simp add: get_mpint_def get_binary_eq bindS_retS_right)

interpretation f_mpint: message_field "\<lambda>z. ok_string (deflate_long z True)" w_mpint.enc' add_mpint get_mpint
  unfolding add_mpint_eq get_mpint_eq by (rule w_mpint.wrapped.message_field_axioms)

lemma add_text_eq: "add_text = (\<lambda>s. bindS (liftR (utf8_encode s)) add_string)"
  by (simp add: add_text_def fun_eq_iff)

interpretation f_text: message_field "\<lambda>s. \<exists>b. utf8_encode s = Inr b \<and> ok_string b" w_text.enc' add_text get_text
  unfolding add_text_eq get_text_def by (rule w_text.wrapped.message_field_axioms)

text \<open>A list of names: not empty, and no comma in a name.\<close>

definition ok_list :: "ustr list \<Rightarrow> bool" where
  "ok_list l \<longleftrightarrow> l \<noteq> [] \<and> (\<forall>s \<in> set l. 44 \<notin> set s) \<and> (\<exists>b. utf8_encode (join [44] l) = Inr b \<and> ok_string b)"

interpretation w_list: message_field_wrap "\<lambda>s. \<exists>b. utf8_encode s = Inr b \<and> ok_string b" w_text.enc' add_text get_text
    "\<lambda>l. Inr (join [44] l)" "\<lambda>s. Inr (split_on 44 s)" ok_list
  by unfold_locales (auto simp: ok_list_def split_on_join)

lemma add_list_eq: "add_list = (\<lambda>l. bindS (liftR (Inr (join [44] l))) add_text)"
  by (simp add: add_list_def bindS_def liftR_def fun_eq_iff)

lemma get_list_eq: "get_list = bindS get_text (\<lambda>s. liftR (Inr (split_on 44 s)))"
  by (simp add: get_list_def bindS_retS_right)

interpretation f_list: message_field ok_list w_list.enc' add_list get_list
  unfolding add_list_eq get_list_eq by (rule w_list.wrapped.message_field_axioms)

definition ok_adaptive :: "int \<Rightarrow> bool" where
  "ok_adaptive n \<longleftrightarrow> 0 \<le> n \<and> (n \<ge> big_int \<longrightarrow> ok_string (deflate_long n True))"

definition enc_adaptive :: "int \<Rightarrow> bytes" where
  "enc_adaptive n = (if n \<ge> big_int then 0xFF # enc_string (deflate_long n True) else be_bytes 4 n)"

lemma be_bytes_4_hd:
  assumes "0 \<le> n" "n < big_int"
  shows "\<exists>a b3. be_bytes 4 n = a # b3 \<and> length b3 = 3 \<and> a \<noteq> 0xFF"
proof -
  have "be_bytes 4 n = be_bytes 1 (n div 256 ^ 3) @ be_bytes 3 n" using be_bytes_append [of n 1 3] assms(1) by simp
  moreover have "be_bytes 1 (n div 256 ^ 3) = [word_of_int (n div 16777216)]"
  proof -
    have "n div 16777216 < 255" using assms(2) by (simp add: big_int_def)
    moreover have "0 \<le> n div 16777216" using assms(1) by simp
    ultimately show ?thesis by simp
  qed
  moreover have "word_of_int (n div 16777216) \<noteq> (0xFF :: byte)"
  proof
    assume "word_of_int (n div 16777216) = (0xFF :: byte)"
    then have "uint (word_of_int (n div 16777216) :: byte) = 255" by (simp only: uint_FF)
    moreover have "0 \<le> n div 16777216" "n div 16777216 < 255" using assms by (simp_all add: big_int_def)
    then have "uint (word_of_int (n div 16777216) :: byte) = n div 16777216" by (intro byte_of_int_uint) auto
    ultimately show False using \<open>n div 16777216 < 255\<close> by linarith
  qed
  ultimately show ?thesis by simp
qed

interpretation f_adaptive: message_field ok_adaptive enc_adaptive add_adaptive_int get_adaptive_int
proof
  show "add_adaptive_int n m = (Inr (), append_bytes m (enc_adaptive n))" if "ok_adaptive n" "at_end m" for n m
  proof (cases "n \<ge> big_int")
    case True
    with that show ?thesis using f_string.put_end [of "deflate_long n True" "append_bytes m [0xFF]"]
      by (simp add: add_adaptive_int_def sm_simps ok_adaptive_def enc_adaptive_def stream_write_end)
  next
    case False
    with that show ?thesis
      by (simp add: add_adaptive_int_def sm_simps ok_adaptive_def enc_adaptive_def pack_be_Inr big_int_def stream_write_end)
  qed
  show "get_adaptive_int m = (Inr n, advance m (length (enc_adaptive n)))"
    if "ok_adaptive n" "get_remainder m = enc_adaptive n @ r" for n m r
  proof (cases "n \<ge> big_int")
    case True
    with that have r: "get_remainder m = [0xFF] @ enc_string (deflate_long n True) @ r" by (simp add: enc_adaptive_def)
    then have "get_string (advance m 1) = (Inr (deflate_long n True), advance m (5 + length (deflate_long n True)))"
      using f_string.get_prefix [of "deflate_long n True" "advance m 1" r] that True by (simp add: ok_adaptive_def)
    then show ?thesis using True get_bytes_prefix [OF r, of 1]
      by (simp add: get_adaptive_int_def bindS_def retS_def get_binary_eq inflate_long_signed deflate_long_val enc_adaptive_def)
  next
    case False
    have n: "0 \<le> n" "n < big_int" using that(1) False by (simp_all add: ok_adaptive_def)
    obtain a b3 where ab: "be_bytes 4 n = a # b3" "length b3 = 3" "a \<noteq> 0xFF" using be_bytes_4_hd [OF n] by blast
    with that False have r: "get_remainder m = [a] @ b3 @ r" by (simp add: enc_adaptive_def)
    then have "get_bytes 3 (advance m 1) = (Inr b3, advance m 4)"
      using get_bytes_prefix [of "advance m 1" b3 r 3] ab(2) by simp
    moreover have "be_int (a # b3) = n" using ab(1) n be_int_be_bytes [of n 4] by (simp add: big_int_def)
    ultimately show ?thesis using False ab get_bytes_prefix [OF r, of 1]
      by (simp add: get_adaptive_int_def bindS_def liftR_def unpack_be_def enc_adaptive_def)
  qed
qed

section \<open>Sequences of fields\<close>

datatype field = FByte byte | FBool bool | FInt int | FInt64 int | FAdaptive int | FMpint int
  | FString bytes | FText ustr | FList "ustr list"

fun put_field :: "field \<Rightarrow> (message, unit) sm" where
  "put_field (FByte b) = add_byte [b]"
| "put_field (FBool b) = add_boolean b"
| "put_field (FInt n) = add_int n"
| "put_field (FInt64 n) = add_int64 n"
| "put_field (FAdaptive n) = add_adaptive_int n"
| "put_field (FMpint z) = add_mpint z"
| "put_field (FString s) = add_string s"
| "put_field (FText s) = add_text s"
| "put_field (FList l) = add_list l"

text \<open>Read a field of the same kind as the given one.\<close>

fun get_like :: "field \<Rightarrow> (message, field) sm" where
  "get_like (FByte _) = bindS get_byte (\<lambda>b. retS (FByte (hd b)))"
| "get_like (FBool _) = bindS get_boolean (\<lambda>b. retS (FBool b))"
| "get_like (FInt _) = bindS get_int (\<lambda>n. retS (FInt n))"
| "get_like (FInt64 _) = bindS get_int64 (\<lambda>n. retS (FInt64 n))"
| "get_like (FAdaptive _) = bindS get_adaptive_int (\<lambda>n. retS (FAdaptive n))"
| "get_like (FMpint _) = bindS get_mpint (\<lambda>z. retS (FMpint z))"
| "get_like (FString _) = bindS get_string (\<lambda>s. retS (FString s))"
| "get_like (FText _) = bindS get_text (\<lambda>s. retS (FText s))"
| "get_like (FList _) = bindS get_list (\<lambda>l. retS (FList l))"

fun ok_field :: "field \<Rightarrow> bool" where
  "ok_field (FByte b) = True"
| "ok_field (FBool b) = True"
| "ok_field (FInt n) = (0 \<le> n \<and> n < 2 ^ 32)"
| "ok_field (FInt64 n) = (0 \<le> n \<and> n < 2 ^ 64)"
| "ok_field (FAdaptive n) = ok_adaptive n"
| "ok_field (FMpint z) = ok_string (deflate_long z True)"
| "ok_field (FString s) = ok_string s"
| "ok_field (FText s) = (\<exists>b. utf8_encode s = Inr b \<and> ok_string b)"
| "ok_field (FList l) = ok_list l"

definition enc_field :: "field \<Rightarrow> bytes" where
  "enc_field f =
     (case f of FByte b \<Rightarrow> [b] | FBool b \<Rightarrow> (if b then [1] else [0]) | FInt n \<Rightarrow> be_bytes 4 n | FInt64 n \<Rightarrow> be_bytes 8 n
      | FAdaptive n \<Rightarrow> enc_adaptive n | FMpint z \<Rightarrow> w_mpint.enc' z | FString s \<Rightarrow> enc_string s
      | FText s \<Rightarrow> w_text.enc' s | FList l \<Rightarrow> w_list.enc' l)"

lemma put_field_end: "ok_field f \<Longrightarrow> at_end m \<Longrightarrow> put_field f m = (Inr (), append_bytes m (enc_field f))"
  by (cases f) (simp_all add: enc_field_def f_byte.put_end f_boolean.put_end f_int.put_end f_int64.put_end
      f_adaptive.put_end f_mpint.put_end f_string.put_end f_text.put_end f_list.put_end)

lemma get_byte_Cons: "get_remainder m = b # r \<Longrightarrow> get_byte m = (Inr [b], advance m 1)"
  using f_byte.get_prefix [of "[b]" m r] by simp

lemma get_like_prefix:
  "ok_field f \<Longrightarrow> get_remainder m = enc_field f @ r \<Longrightarrow> get_like f m = (Inr f, advance m (length (enc_field f)))"
  by (cases f) (simp_all add: enc_field_def bindS_def retS_def get_byte_Cons f_boolean.get_prefix f_int.get_prefix
      f_int64.get_prefix f_adaptive.get_prefix f_mpint.get_prefix f_string.get_prefix f_text.get_prefix
      f_list.get_prefix)

fun put_fields :: "field list \<Rightarrow> (message, unit) sm" where
  "put_fields [] = retS ()"
| "put_fields (f # fs) = bindS (put_field f) (\<lambda>_. put_fields fs)"

lemma put_fields_append: "put_fields (xs @ ys) = bindS (put_fields xs) (\<lambda>_. put_fields ys)"
  by (induction xs) (simp_all add: bindS_assoc)

fun get_like_all :: "field list \<Rightarrow> (message, field list) sm" where
  "get_like_all [] = retS []"
| "get_like_all (f # fs) = bindS (get_like f) (\<lambda>x. bindS (get_like_all fs) (\<lambda>xs. retS (x # xs)))"

lemma put_fields_end:
  "list_all ok_field fs \<Longrightarrow> at_end m \<Longrightarrow>
     put_fields fs m = (Inr (), append_bytes m (concat (map enc_field fs)))"
  by (induction fs arbitrary: m) (simp_all add: retS_def bindS_def put_field_end)

lemma get_fields_prefix:
  "list_all ok_field fs \<Longrightarrow> get_remainder m = concat (map enc_field fs) @ r \<Longrightarrow>
     get_like_all fs m = (Inr fs, advance m (length (concat (map enc_field fs))))"
proof (induction fs arbitrary: m)
  case (Cons f fs)
  have "get_like f m = (Inr f, advance m (length (enc_field f)))"
    using Cons.prems get_like_prefix [of f m "concat (map enc_field fs) @ r"] by simp
  then show ?case using Cons by (simp add: bindS_def retS_def)
qed (simp add: retS_def)

section \<open>Reading a known message\<close>

lemma at_end_new [simp]: "at_end (new_message None)"
  by (simp add: at_end_def new_message_def)

lemma enc_field_simps [simp]:
  "enc_field (FByte b) = [b]" "enc_field (FInt n) = be_bytes 4 n" "enc_field (FString s) = enc_string s"
  "enc_field (FBool x) = (if x then [1] else [0])"
  by (simp_all add: enc_field_def)

definition utf8_of :: "ustr \<Rightarrow> bytes" where
  "utf8_of s = (case utf8_encode s of Inr b \<Rightarrow> b | Inl _ \<Rightarrow> [])"

text \<open>Reading one field of a message that starts with it.\<close>

lemma read_int:
  "get_remainder m = be_bytes 4 n @ r \<Longrightarrow> 0 \<le> n \<and> n < 2 ^ 32 \<Longrightarrow>
     (\<And>m'. get_remainder m' = r \<Longrightarrow> fst (f n m') = x) \<Longrightarrow> fst (bindS get_int f m) = x"
  using f_int.get_prefix [of n m r] by (simp add: bindS_def)

lemma read_string:
  "get_remainder m = enc_string s @ r \<Longrightarrow> ok_string s \<Longrightarrow>
     (\<And>m'. get_remainder m' = r \<Longrightarrow> fst (f s m') = x) \<Longrightarrow> fst (bindS get_string f m) = x"
  using f_string.get_prefix [of s m r] by (simp add: bindS_def)

lemma read_binary:
  "get_remainder m = enc_string s @ r \<Longrightarrow> ok_string s \<Longrightarrow>
     (\<And>m'. get_remainder m' = r \<Longrightarrow> fst (f s m') = x) \<Longrightarrow> fst (bindS get_binary f m) = x"
  using read_string [of m s r f x] by (simp add: get_string_def get_binary_def)

lemma enc_text: "\<exists>b. utf8_encode s = Inr b \<and> ok_string b \<Longrightarrow>
    enc_field (FText s) = enc_string (utf8_of s) \<and> ok_string (utf8_of s) \<and> utf8_decode (utf8_of s) = Inr s"
  using utf8_roundtrip [of s] by (auto simp: enc_field_def w_text.enc'_def utf8_of_def)

lemma read_text:
  "get_remainder m = enc_string (utf8_of s) @ r \<Longrightarrow> \<exists>b. utf8_encode s = Inr b \<and> ok_string b \<Longrightarrow>
     (\<And>m'. get_remainder m' = r \<Longrightarrow> fst (f s m') = x) \<Longrightarrow> fst (bindS get_text f m) = x"
  using f_text.get_prefix [of s m r] enc_text [of s] by (simp add: bindS_def enc_field_def)

lemma read_boolean:
  "get_remainder m = (if b then [1] else [0]) @ r \<Longrightarrow>
     (\<And>m'. get_remainder m' = r \<Longrightarrow> fst (f b m') = x) \<Longrightarrow> fst (bindS get_boolean f m) = x"
  using f_boolean.get_prefix [where x = b and m = m and r = r] by (simp add: bindS_def)

lemmas read_steps = read_int read_string read_binary read_text read_boolean

section \<open>Properties\<close>

text \<open>C33. A message made of any sequence of fields (bytes, booleans, 32-bit, 64-bit, adaptive and
  multiple-precision integers, strings, texts and name lists) is read back field by field: every value
  comes out as it went in, and the whole message has been consumed.\<close>

theorem message_roundtrip:
  "list_all ok_field fs \<Longrightarrow>
     fst (put_fields fs (new_message None)) = Inr () \<and>
     get_like_all fs (new_message (Some (asbytes (snd (put_fields fs (new_message None)))))) =
       (Inr fs, \<lparr>mbuf = asbytes (snd (put_fields fs (new_message None))),
                 mpos = length (asbytes (snd (put_fields fs (new_message None))))\<rparr>)"
proof -
  assume ok: "list_all ok_field fs"
  have "at_end (new_message None)" by (simp add: at_end_def new_message_def)
  from put_fields_end [OF ok this]
  have p: "put_fields fs (new_message None) = (Inr (), \<lparr>mbuf = concat (map enc_field fs), mpos = length (concat (map enc_field fs))\<rparr>)"
    by (simp add: append_bytes_def new_message_def)
  have "get_remainder (new_message (Some (concat (map enc_field fs)))) = concat (map enc_field fs) @ []"
    by (simp add: get_remainder_def new_message_def)
  from get_fields_prefix [OF ok this] show ?thesis unfolding p
    by (simp add: asbytes_def advance_def new_message_def)
qed

theorem message_roundtrip_witness:
  "fst (get_like_all [FBool True, FInt 7, FMpint (- 5), FString [1, 2], FAdaptive 300]
     (new_message (Some (asbytes (snd (put_fields [FBool True, FInt 7, FMpint (- 5), FString [1, 2], FAdaptive 300]
        (new_message None))))))) = Inr [FBool True, FInt 7, FMpint (- 5), FString [1, 2], FAdaptive 300]"
proof -
  have "deflate_long (- 5) True = [0xFB]"
    using deflate_inflate [of "[0xFB]"] by (simp add: inflate_long_signed tc_val_def be_int_Cons normalized_def)
  then have "list_all ok_field [FBool True, FInt 7, FMpint (- 5), FString [1, 2], FAdaptive 300]"
    by (simp add: ok_string_def ok_adaptive_def big_int_def)
  from message_roundtrip [OF this] show ?thesis by simp
qed

text \<open>Reading never invents more than a megabyte and never moves past the end: \<open>get_bytes n\<close> returns
  exactly \<open>n\<close> bytes, the bytes left and then zeros, whenever \<open>n\<close> is below one megabyte, and otherwise
  only bytes that are there; what has been read and what is left always make up the message.\<close>

theorem get_bytes_bounded:
  "\<exists>b m'. get_bytes n m = (Inr b, m') \<and>
     b = take n (get_remainder m) @ replicate (if n < 2 ^ 20 then n - length (get_remainder m) else 0) 0 \<and>
     mbuf m' = mbuf m \<and> get_remainder m' = drop n (get_remainder m) \<and>
     fst (get_so_far m') @ get_remainder m' = asbytes m'"
  by (auto simp: get_bytes_result Let_def advance_def get_remainder_def get_so_far_def stream_read_def rewind_def
      asbytes_def min_def add.commute)

end
