(* ===== verification/Ssh_Packet.thy ===== *)
theory Ssh_Packet
  imports Ssh_Common Ssh_Message
begin

text \<open>
  \<^verbatim>\<open>paramiko/packet.py\<close>: the SSH binary packet protocol over a socket. The socket is a trace of what its
  calls meet: chunks of arriving bytes, time-outs, errors, and steps of other threads (closing, the
  handshake timer); a chunk longer than what \<^verbatim>\<open>recv\<close> asked for stays in front of the trace. Bytes written
  are collected in \<open>wire\<close>. Ciphers, the hash of the MAC, compression and random padding come from
  libraries and are a record of functions (\<open>crypto\<close>); cipher objects are stateful, so are its functions.
\<close>

section \<open>Outside world\<close>

datatype recv_event = Recv bytes | Recv_timeout int | Recv_again int | Recv_error | Other_close | Timer_fires

datatype send_event = Sent nat | Send_timeout | Send_again | Send_error | Send_proxy_failure

record ('e, 'm, 'c) crypto =
  upd :: "'e \<Rightarrow> bytes \<Rightarrow> bytes \<times> 'e"
  aead_encrypt :: "'e \<Rightarrow> bytes \<Rightarrow> bytes \<Rightarrow> bytes \<Rightarrow> bytes"
  aead_decrypt :: "'e \<Rightarrow> bytes \<Rightarrow> bytes \<Rightarrow> bytes \<Rightarrow> bytes res"
  hmac :: "'m \<Rightarrow> bytes \<Rightarrow> bytes \<Rightarrow> bytes"
  compress :: "'c \<Rightarrow> bytes \<Rightarrow> bytes \<times> 'c"
  decompress :: "'c \<Rightarrow> bytes \<Rightarrow> bytes \<times> 'c"
  urandom :: "nat \<Rightarrow> bytes"

section \<open>The packetizer\<close>

record ('e, 'm, 'c) packetizer =
  sock_in :: "recv_event list"
  sock_out :: "send_event list"
  wire :: bytes
  pk_closed :: bool
  need_rekey :: bool
  init_count :: nat
  remainder :: bytes
  initial_kex_done :: bool
  sent_bytes :: nat
  sent_packets :: nat
  received_bytes :: int
  received_packets :: nat
  received_bytes_overflow :: int
  received_packets_overflow :: nat
  block_size_out :: nat
  block_size_in :: nat
  mac_size_out :: nat
  mac_size_in :: nat
  block_engine_out :: "'e option"
  block_engine_in :: "'e option"
  sdctr_out :: bool
  mac_engine_out :: "'m option"
  mac_engine_in :: "'m option"
  mac_key_out :: bytes
  mac_key_in :: bytes
  compress_engine_out :: "'c option"
  compress_engine_in :: "'c option"
  sequence_number_out :: int
  sequence_number_in :: int
  etm_out :: bool
  etm_in :: bool
  aead_out :: bool
  aead_in :: bool
  iv_out :: bytes
  iv_in :: bytes
  keepalive_interval :: int
  keepalive_last :: int
  keepalive_calls :: nat
  pk_timer :: bool
  handshake_complete :: bool
  timer_expired :: bool

definition REKEY_PACKETS :: nat where "REKEY_PACKETS = 2 ^ 29"
definition REKEY_BYTES :: nat where "REKEY_BYTES = 2 ^ 29"
definition REKEY_PACKETS_OVERFLOW_MAX :: nat where "REKEY_PACKETS_OVERFLOW_MAX = 2 ^ 29"
definition REKEY_BYTES_OVERFLOW_MAX :: nat where "REKEY_BYTES_OVERFLOW_MAX = 2 ^ 29"

text \<open>A new packetizer on a socket, at time \<open>now\<close>.\<close>

definition new_packetizer :: "recv_event list \<Rightarrow> send_event list \<Rightarrow> int \<Rightarrow> ('e, 'm, 'c) packetizer" where
  "new_packetizer si so now =
     \<lparr>sock_in = si, sock_out = so, wire = [], pk_closed = False, need_rekey = False, init_count = 0,
      remainder = [], initial_kex_done = False, sent_bytes = 0, sent_packets = 0, received_bytes = 0,
      received_packets = 0, received_bytes_overflow = 0, received_packets_overflow = 0, block_size_out = 8,
      block_size_in = 8, mac_size_out = 0, mac_size_in = 0, block_engine_out = None, block_engine_in = None,
      sdctr_out = False, mac_engine_out = None, mac_engine_in = None, mac_key_out = [], mac_key_in = [],
      compress_engine_out = None, compress_engine_in = None, sequence_number_out = 0, sequence_number_in = 0,
      etm_out = False, etm_in = False, aead_out = False, aead_in = False, iv_out = [], iv_in = [],
      keepalive_interval = 0, keepalive_last = now, keepalive_calls = 0, pk_timer = False,
      handshake_complete = False, timer_expired = False\<rparr>"

definition reset_seqno_out :: "('e, 'm, 'c) packetizer \<Rightarrow> ('e, 'm, 'c) packetizer" where
  "reset_seqno_out p = p\<lparr>sequence_number_out := 0\<rparr>"

definition reset_seqno_in :: "('e, 'm, 'c) packetizer \<Rightarrow> ('e, 'm, 'c) packetizer" where
  "reset_seqno_in p = p\<lparr>sequence_number_in := 0\<rparr>"

text \<open>\<^verbatim>\<open>__init_count |= bit\<close>, and the rekey flag is cleared when both directions have been reset.\<close>

definition count_init :: "nat \<Rightarrow> ('e, 'm, 'c) packetizer \<Rightarrow> ('e, 'm, 'c) packetizer" where
  "count_init b p =
     (let c = init_count p OR b
      in if c = 3 then p\<lparr>init_count := 0, need_rekey := False\<rparr> else p\<lparr>init_count := c\<rparr>)"

definition set_outbound_cipher ::
  "'e option \<Rightarrow> nat \<Rightarrow> 'm option \<Rightarrow> nat \<Rightarrow> bytes \<Rightarrow> bool \<Rightarrow> bool \<Rightarrow> bool \<Rightarrow> bytes \<Rightarrow>
   ('e, 'm, 'c) packetizer \<Rightarrow> ('e, 'm, 'c) packetizer" where
  "set_outbound_cipher block_engine block_size mac_engine mac_size mac_key sdctr etm aead iv p =
     count_init 1 (p\<lparr>block_engine_out := block_engine, sdctr_out := sdctr, block_size_out := block_size,
       mac_engine_out := mac_engine, mac_size_out := mac_size, mac_key_out := mac_key, sent_bytes := 0,
       sent_packets := 0, etm_out := etm, aead_out := aead, iv_out := iv\<rparr>)"

definition set_inbound_cipher ::
  "'e option \<Rightarrow> nat \<Rightarrow> 'm option \<Rightarrow> nat \<Rightarrow> bytes \<Rightarrow> bool \<Rightarrow> bool \<Rightarrow> bytes \<Rightarrow>
   ('e, 'm, 'c) packetizer \<Rightarrow> ('e, 'm, 'c) packetizer" where
  "set_inbound_cipher block_engine block_size mac_engine mac_size mac_key etm aead iv p =
     count_init 2 (p\<lparr>block_engine_in := block_engine, block_size_in := block_size,
       mac_engine_in := mac_engine, mac_size_in := mac_size, mac_key_in := mac_key, received_bytes := 0,
       received_packets := 0, received_bytes_overflow := 0, received_packets_overflow := 0,
       etm_in := etm, aead_in := aead, iv_in := iv\<rparr>)"

definition pk_close :: "('e, 'm, 'c) packetizer \<Rightarrow> ('e, 'm, 'c) packetizer" where
  "pk_close p = p\<lparr>pk_closed := True\<rparr>"

definition set_keepalive :: "int \<Rightarrow> int \<Rightarrow> ('e, 'm, 'c) packetizer \<Rightarrow> ('e, 'm, 'c) packetizer" where
  "set_keepalive interval now p = p\<lparr>keepalive_interval := interval, keepalive_last := now\<rparr>"

definition read_timer :: "('e, 'm, 'c) packetizer \<Rightarrow> ('e, 'm, 'c) packetizer" where
  "read_timer p = p\<lparr>timer_expired := True\<rparr>"

definition start_handshake :: "('e, 'm, 'c) packetizer \<Rightarrow> ('e, 'm, 'c) packetizer" where
  "start_handshake p = (if \<not> pk_timer p then p\<lparr>pk_timer := True\<rparr> else p)"

definition handshake_timed_out :: "('e, 'm, 'c) packetizer \<Rightarrow> bool" where
  "handshake_timed_out p =
     (if \<not> pk_timer p then False else if handshake_complete p then False else timer_expired p)"

definition complete_handshake :: "('e, 'm, 'c) packetizer \<Rightarrow> ('e, 'm, 'c) packetizer" where
  "complete_handshake p = (if pk_timer p then p\<lparr>timer_expired := False, handshake_complete := True\<rparr> else p)"

definition trigger_rekey :: "('e, 'm, 'c) packetizer \<Rightarrow> ('e, 'm, 'c) packetizer" where
  "trigger_rekey p = p\<lparr>need_rekey := True\<rparr>"

definition check_keepalive :: "int \<Rightarrow> ('e, 'm, 'c) packetizer \<Rightarrow> ('e, 'm, 'c) packetizer" where
  "check_keepalive now p =
     (if keepalive_interval p = 0 \<or> block_engine_out p = None \<or> need_rekey p then p
      else if now > keepalive_last p + keepalive_interval p
      then p\<lparr>keepalive_calls := Suc (keepalive_calls p), keepalive_last := now\<rparr> else p)"

section \<open>Reading from the socket\<close>

text \<open>One \<^verbatim>\<open>recv(n)\<close>: steps of other threads happen while it blocks.\<close>

datatype recv_result = Got bytes | Got_timeout int | Got_again int | Got_error

fun sock_recv :: "nat \<Rightarrow> recv_event list \<Rightarrow> ('e, 'm, 'c) packetizer \<Rightarrow>
    (recv_result \<times> recv_event list \<times> ('e, 'm, 'c) packetizer) option" where
  "sock_recv n [] p = None"
| "sock_recv n (Recv x # es) p =
     Some (Got (take n x), if n < length x then Recv (drop n x) # es else es, p)"
| "sock_recv n (Recv_timeout t # es) p = Some (Got_timeout t, es, p)"
| "sock_recv n (Recv_again t # es) p = Some (Got_again t, es, p)"
| "sock_recv n (Recv_error # es) p = Some (Got_error, es, p)"
| "sock_recv n (Other_close # es) p = sock_recv n es (pk_close p)"
| "sock_recv n (Timer_fires # es) p = sock_recv n es (read_timer p)"

text \<open>What is left to do on a trace: used to see that the loops end.\<close>

fun events_left :: "recv_event list \<Rightarrow> nat" where
  "events_left [] = 0"
| "events_left (Recv x # es) = Suc (length x + events_left es)"
| "events_left (e # es) = Suc (events_left es)"

lemma sock_recv_less:
  "sock_recv n es p = Some (r, es', p') \<Longrightarrow> 0 < n \<Longrightarrow> events_left es' < events_left es"
  by (induction n es p rule: sock_recv.induct) (auto split: if_splits)

text \<open>The loop of \<^verbatim>\<open>read_all\<close>; \<open>out\<close> is what has been read, \<open>n\<close> what is still wanted.\<close>

definition on_timeout ::
  "bool \<Rightarrow> int \<Rightarrow> bytes \<Rightarrow> ('e, 'm, 'c) packetizer \<Rightarrow> pyexc option \<times> ('e, 'm, 'c) packetizer" where
  "on_timeout check_rekey now out p =
     (if pk_closed p then (Some EOFError, p)
      else if check_rekey \<and> length out = 0 \<and> need_rekey p then (Some NeedRekey, p)
      else (None, check_keepalive now p))"

function read_loop :: "recv_event list \<Rightarrow> nat \<Rightarrow> bool \<Rightarrow> bytes \<Rightarrow> ('e, 'm, 'c) packetizer \<Rightarrow>
    bytes res \<times> ('e, 'm, 'c) packetizer" where
  "read_loop es n check_rekey out p =
     (if n = 0 then (Inr out, p\<lparr>sock_in := es\<rparr>)
      else if handshake_timed_out p then (Inl EOFError, p\<lparr>sock_in := es\<rparr>)
      else (case sock_recv n es p of
              None \<Rightarrow> (Inl Blocked, p\<lparr>sock_in := []\<rparr>)
            | Some (Got x, es', p') \<Rightarrow>
                if x = [] then (Inl EOFError, p'\<lparr>sock_in := es'\<rparr>)
                else read_loop es' (n - length x) check_rekey (out @ x) p'
            | Some (Got_timeout t, es', p') \<Rightarrow>
                (case on_timeout check_rekey t out p' of
                   (Some e, p2) \<Rightarrow> (Inl e, p2\<lparr>sock_in := es'\<rparr>)
                 | (None, p2) \<Rightarrow> read_loop es' n check_rekey out p2)
            | Some (Got_again t, es', p') \<Rightarrow>
                (case on_timeout check_rekey t out p' of
                   (Some e, p2) \<Rightarrow> (Inl e, p2\<lparr>sock_in := es'\<rparr>)
                 | (None, p2) \<Rightarrow> read_loop es' n check_rekey out p2)
            | Some (Got_error, es', p') \<Rightarrow>
                (Inl (if pk_closed p' then EOFError else SocketError), p'\<lparr>sock_in := es'\<rparr>)))"
  by pat_completeness auto
termination
  by (relation "measure (\<lambda>(es, n, c, out, p). events_left es)") (auto dest: sock_recv_less)

declare read_loop.simps [simp del]

definition read_all :: "int \<Rightarrow> bool \<Rightarrow> (('e, 'm, 'c) packetizer, bytes) sm" where
  "read_all n check_rekey = (\<lambda>p.
     if length (remainder p) > 0 then
       (let out = py_slice (remainder p) 0 n; rest = py_slice (remainder p) n (int (length (remainder p)))
        in read_loop (sock_in p) (nat (n - int (length out))) check_rekey out (p\<lparr>remainder := rest\<rparr>))
     else read_loop (sock_in p) (nat n) check_rekey [] p)"

text \<open>\<^verbatim>\<open>_read_timeout\<close>: the time of a time-out event is the time passed since the call.\<close>

fun read_timeout :: "recv_event list \<Rightarrow> int \<Rightarrow> ('e, 'm, 'c) packetizer \<Rightarrow>
    bytes res \<times> recv_event list \<times> ('e, 'm, 'c) packetizer" where
  "read_timeout [] timeout p = (Inl Blocked, [], p)"
| "read_timeout (Recv x # es) timeout p =
     (if x = [] then (Inl EOFError, es, p)
      else (Inr (take 128 x), if 128 < length x then Recv (drop 128 x) # es else es, p))"
| "read_timeout (Recv_timeout t # es) timeout p =
     (if pk_closed p then (Inl EOFError, es, p)
      else if t \<ge> timeout then (Inl SocketTimeout, es, p)
      else read_timeout es timeout p)"
| "read_timeout (Recv_again t # es) timeout p = (Inl SocketError, es, p)"
| "read_timeout (Recv_error # es) timeout p = (Inl SocketError, es, p)"
| "read_timeout (Other_close # es) timeout p = read_timeout es timeout (pk_close p)"
| "read_timeout (Timer_fires # es) timeout p = read_timeout es timeout (read_timer p)"

lemma read_timeout_less:
  "read_timeout es t p = (Inr x, es', p') \<Longrightarrow> events_left es' < events_left es \<and> x \<noteq> []"
  by (induction es t p rule: read_timeout.induct) (auto split: if_splits)

function readline_loop :: "bytes \<Rightarrow> recv_event list \<Rightarrow> int \<Rightarrow> ('e, 'm, 'c) packetizer \<Rightarrow>
    bytes res \<times> ('e, 'm, 'c) packetizer" where
  "readline_loop buf es timeout p =
     (if 10 \<in> set buf then (Inr buf, p\<lparr>sock_in := es\<rparr>)
      else (case read_timeout es timeout p of
              (Inl e, es', p') \<Rightarrow> (Inl e, p'\<lparr>sock_in := es'\<rparr>)
            | (Inr x, es', p') \<Rightarrow> readline_loop (buf @ x) es' timeout p'))"
  by pat_completeness auto
termination
  by (relation "measure (\<lambda>(buf, es, t, p). events_left es)") (auto dest: read_timeout_less [OF sym])

declare readline_loop.simps [simp del]

definition chop_cr :: "bytes \<Rightarrow> bytes" where
  "chop_cr buf = (if length buf > 0 \<and> last buf = 13 then butlast buf else buf)"

definition readline :: "int \<Rightarrow> (('e, 'm, 'c) packetizer, ustr) sm" where
  "readline timeout = (\<lambda>p.
     case readline_loop (remainder p) (sock_in p) timeout p of
       (Inl e, p') \<Rightarrow> (Inl e, p')
     | (Inr buf, p') \<Rightarrow>
         (let n = length (takeWhile (\<lambda>b. b \<noteq> 10) buf)
          in (utf8_decode (chop_cr (take n buf)), p'\<lparr>remainder := drop (Suc n) buf\<rparr>)))"

section \<open>Writing to the socket\<close>

text \<open>The loop of \<^verbatim>\<open>write_all\<close>; \<open>zeros\<close> counts the rounds that were no retry. A negative result of the
  round raises \<^verbatim>\<open>EOFError\<close>; a send takes at most what it was given.\<close>

fun write_loop :: "send_event list \<Rightarrow> nat \<Rightarrow> bytes \<Rightarrow> ('e, 'm, 'c) packetizer \<Rightarrow>
    unit res \<times> ('e, 'm, 'c) packetizer" where
  "write_loop es zeros [] p = (Inr (), p\<lparr>sock_out := es\<rparr>)"
| "write_loop [] zeros out p = (Inl Blocked, p\<lparr>sock_out := []\<rparr>)"
| "write_loop (Sent k # es) zeros out p =
     (let n = min k (length out) in
      if n = 0 \<and> zeros > 10 then (Inl EOFError, p\<lparr>sock_out := es\<rparr>)
      else write_loop es (Suc zeros) (drop n out) (p\<lparr>wire := wire p @ take n out\<rparr>))"
| "write_loop (Send_timeout # es) zeros out p =
     (if pk_closed p then (Inl EOFError, p\<lparr>sock_out := es\<rparr>) else write_loop es zeros out p)"
| "write_loop (Send_again # es) zeros out p =
     (if pk_closed p then (Inl EOFError, p\<lparr>sock_out := es\<rparr>) else write_loop es zeros out p)"
| "write_loop (Send_error # es) zeros out p = (Inl EOFError, p\<lparr>sock_out := es\<rparr>)"
| "write_loop (Send_proxy_failure # es) zeros out p = (Inl ProxyCommandFailure, p\<lparr>sock_out := es\<rparr>)"

definition write_all :: "int \<Rightarrow> bytes \<Rightarrow> (('e, 'm, 'c) packetizer, unit) sm" where
  "write_all now out = (\<lambda>p. write_loop (sock_out p) 0 out (p\<lparr>keepalive_last := now\<rparr>))"

section \<open>Sending a message\<close>

text \<open>\<^verbatim>\<open>int.to_bytes(8)\<close> overflows after the last counter value.\<close>

definition inc_iv_counter :: "bytes \<Rightarrow> bytes res" where
  "inc_iv_counter iv =
     (let c = be_int (drop 4 iv) + 1
      in if c < 256 ^ 8 then Inr (take 4 iv @ be_bytes 8 c) else Inl OverflowError)"

definition build_packet :: "('e, 'm, 'c) crypto \<Rightarrow> bytes \<Rightarrow> ('e, 'm, 'c) packetizer \<Rightarrow> bytes res" where
  "build_packet cr payload p =
     (let bsize = block_size_out p;
          addlen = (if etm_out p \<or> aead_out p then 4 else 8);
          padding = 3 + bsize - (length payload + addlen) mod bsize
      in bindR (pack_be 4 (int (length payload + padding + 1))) (\<lambda>len.
         bindR (pack_be 1 (int padding)) (\<lambda>pad.
           Inr (len @ pad @ payload @
                (if sdctr_out p \<or> block_engine_out p = None then replicate padding 0 else urandom cr padding)))))"

text \<open>The encrypted packet; the cipher object and the counter of an AEAD cipher move on.\<close>

definition encrypt_packet ::
  "('e, 'm, 'c) crypto \<Rightarrow> bytes \<Rightarrow> (('e, 'm, 'c) packetizer, bytes) sm" where
  "encrypt_packet cr packet = (\<lambda>p.
     case block_engine_out p of
       None \<Rightarrow> (Inr packet, p)
     | Some e \<Rightarrow>
         if etm_out p then
           (case upd cr e (drop 4 packet) of (c, e') \<Rightarrow> (Inr (take 4 packet @ c), p\<lparr>block_engine_out := Some e'\<rparr>))
         else if aead_out p then
           (case inc_iv_counter (iv_out p) of
              Inl x \<Rightarrow> (Inl x, p)
            | Inr iv' \<Rightarrow>
               (Inr (take 4 packet @ aead_encrypt cr e (iv_out p) (drop 4 packet) (take 4 packet)), p\<lparr>iv_out := iv'\<rparr>))
         else (case upd cr e packet of (c, e') \<Rightarrow> (Inr c, p\<lparr>block_engine_out := Some e'\<rparr>)))"

text \<open>The MAC of a packet with its sequence number; \<open>out\<close> is the encrypted packet.\<close>

definition compute_mac_out ::
  "('e, 'm, 'c) crypto \<Rightarrow> bytes \<Rightarrow> bytes \<Rightarrow> ('e, 'm, 'c) packetizer \<Rightarrow> bytes res" where
  "compute_mac_out cr packet out p =
     (if block_engine_out p \<noteq> None \<and> \<not> aead_out p then
        bindR (pack_be 4 (sequence_number_out p)) (\<lambda>packed.
          case mac_engine_out p of
            None \<Rightarrow> Inl TypeError
          | Some m \<Rightarrow> Inr (take (mac_size_out p) (hmac cr m (mac_key_out p) (packed @ (if etm_out p then out else packet)))))
      else Inr [])"

definition next_seq :: "int \<Rightarrow> int" where
  "next_seq n = (n + 1) AND 0xFFFFFFFF"

definition rolled_over :: pyexc where
  "rolled_over = SSHException ''Sequence number rolled over during initial kex!''"

text \<open>After the write: counters, and the request for a new key exchange.\<close>

definition count_sent :: "nat \<Rightarrow> ('e, 'm, 'c) packetizer \<Rightarrow> ('e, 'm, 'c) packetizer" where
  "count_sent k p0 =
     (let p = p0\<lparr>sent_bytes := sent_bytes p0 + k, sent_packets := sent_packets p0 + 1\<rparr>
      in if (sent_packets p \<ge> REKEY_PACKETS \<or> sent_bytes p \<ge> REKEY_BYTES) \<and> \<not> need_rekey p
         then trigger_rekey (p\<lparr>received_bytes_overflow := 0, received_packets_overflow := 0\<rparr>) else p)"

definition send_message :: "('e, 'm, 'c) crypto \<Rightarrow> int \<Rightarrow> bytes \<Rightarrow> (('e, 'm, 'c) packetizer, unit) sm" where
  "send_message cr now data = (\<lambda>p.
     if data = [] then (Inl IndexError, p)
     else
       (case (case compress_engine_out p of
                None \<Rightarrow> (data, p)
              | Some c \<Rightarrow> (case compress cr c data of (d, c') \<Rightarrow> (d, p\<lparr>compress_engine_out := Some c'\<rparr>))) of
          (data', p1) \<Rightarrow>
            (case build_packet cr data' p1 of
               Inl e \<Rightarrow> (Inl e, p1)
             | Inr packet \<Rightarrow>
                 bindS (encrypt_packet cr packet) (\<lambda>out p2.
                   case compute_mac_out cr packet out p2 of
                     Inl e \<Rightarrow> (Inl e, p2)
                   | Inr mac \<Rightarrow>
                       (if next_seq (sequence_number_out p2) = 0 \<and> \<not> initial_kex_done p2 then (Inl rolled_over, p2)
                        else
                          bindS (write_all now (out @ mac))
                            (\<lambda>_. modS (count_sent (length (out @ mac))))
                            (p2\<lparr>sequence_number_out := next_seq (sequence_number_out p2)\<rparr>))) p1)))"

section \<open>Reading a message\<close>

definition mismatched_mac :: pyexc where
  "mismatched_mac = SSHException ''Mismatched MAC''"

definition check_mac :: "('e, 'm, 'c) crypto \<Rightarrow> int \<Rightarrow> bytes \<Rightarrow> bytes \<Rightarrow> ('e, 'm, 'c) packetizer \<Rightarrow> unit res" where
  "check_mac cr packet_size packet mac p =
     bindR (pack_be 4 (sequence_number_in p)) (\<lambda>s.
     bindR (pack_be 4 packet_size) (\<lambda>n.
       case mac_engine_in p of
         None \<Rightarrow> Inl TypeError
       | Some m \<Rightarrow>
           if constant_time_bytes_eq (take (mac_size_in p) (hmac cr m (mac_key_in p) (s @ n @ packet))) mac
           then Inr () else Inl mismatched_mac))"

text \<open>Encrypt-then-MAC: the rest of the packet and its MAC are read, and checked, before decryption.\<close>

definition etm_part ::
  "('e, 'm, 'c) crypto \<Rightarrow> bytes \<Rightarrow> (('e, 'm, 'c) packetizer, bytes \<times> int) sm" where
  "etm_part cr header = (\<lambda>p.
     if etm_in p then
       bindS (liftR (unpack_be 4 (take 4 header))) (\<lambda>packet_size.
       bindS (read_all (packet_size - int (block_size_in p) + 4) False) (\<lambda>rest.
       bindS (read_all (int (mac_size_in p)) False) (\<lambda>mac p'.
         case check_mac cr packet_size (drop 4 header @ rest) mac p' of
           Inl e \<Rightarrow> (Inl e, p')
         | Inr _ \<Rightarrow> (Inr (drop 4 header @ rest, packet_size), p')))) p
     else (Inr (header, 0), p))"

definition aead_part ::
  "('e, 'm, 'c) crypto \<Rightarrow> bytes \<times> int \<Rightarrow> (('e, 'm, 'c) packetizer, bytes \<times> int) sm" where
  "aead_part cr hp = (\<lambda>p.
     case hp of (header, packet_size0) \<Rightarrow>
       if aead_in p then
         bindS (liftR (unpack_be 4 (take 4 header))) (\<lambda>packet_size.
         bindS (read_all (packet_size - int (block_size_in p) + 4 + int (mac_size_in p)) False) (\<lambda>rest p'.
           case block_engine_in p' of
             None \<Rightarrow> (Inl AttributeError, p')
           | Some e \<Rightarrow>
               (case aead_decrypt cr e (iv_in p') (drop 4 header @ rest) (take 4 header) of
                  Inl x \<Rightarrow> (Inl x, p')
                | Inr plain_text \<Rightarrow>
                    (case inc_iv_counter (iv_in p') of
                       Inl x \<Rightarrow> (Inl x, p')
                     | Inr iv' \<Rightarrow> (Inr (plain_text, packet_size), p'\<lparr>iv_in := iv'\<rparr>))))) p
       else (Inr (header, packet_size0), p))"

definition decrypt_in :: "('e, 'm, 'c) crypto \<Rightarrow> bytes \<Rightarrow> (('e, 'm, 'c) packetizer, bytes) sm" where
  "decrypt_in cr data = (\<lambda>p.
     case block_engine_in p of
       None \<Rightarrow> (Inr data, p)
     | Some e \<Rightarrow> (case upd cr e data of (d, e') \<Rightarrow> (Inr d, p\<lparr>block_engine_in := Some e'\<rparr>)))"

text \<open>The older layout: the header tells the length, the MAC comes last and covers the plain packet.\<close>

definition plain_part ::
  "('e, 'm, 'c) crypto \<Rightarrow> bytes \<Rightarrow> (('e, 'm, 'c) packetizer, bytes \<times> int) sm" where
  "plain_part cr header = (\<lambda>p.
     bindS (liftR (unpack_be 4 (take 4 header))) (\<lambda>packet_size.
       let leftover = drop 4 header; missing = packet_size - int (length leftover)
       in if missing mod int (block_size_in p) \<noteq> 0
          then raiseS (SSHException ''Invalid packet blocking'')
          else
            bindS (read_all (packet_size + int (mac_size_in p) - int (length leftover)) False) (\<lambda>buf.
            bindS (decrypt_in cr (py_slice buf 0 missing)) (\<lambda>body p'.
              let packet = leftover @ body; post_packet = py_slice buf missing (int (length buf))
              in if mac_size_in p' > 0 then
                   (case check_mac cr packet_size packet (take (mac_size_in p') post_packet) p' of
                      Inl e \<Rightarrow> (Inl e, p')
                    | Inr _ \<Rightarrow> (Inr (packet, packet_size), p'))
                 else (Inr (packet, packet_size), p')))) p)"

definition ignoring_rekey :: pyexc where
  "ignoring_rekey = SSHException ''Remote transport is ignoring rekey requests''"

text \<open>Counting a received packet: the request for new keys, and giving up on a peer that ignores it.\<close>

definition count_received :: "int \<Rightarrow> (('e, 'm, 'c) packetizer, unit) sm" where
  "count_received raw = (\<lambda>p0.
     let p = p0\<lparr>received_bytes := received_bytes p0 + raw, received_packets := received_packets p0 + 1\<rparr>
     in if need_rekey p then
          (let q = p\<lparr>received_bytes_overflow := received_bytes_overflow p + raw,
                     received_packets_overflow := received_packets_overflow p + 1\<rparr>
           in if received_packets_overflow q \<ge> REKEY_PACKETS_OVERFLOW_MAX
                 \<or> received_bytes_overflow q \<ge> int REKEY_BYTES_OVERFLOW_MAX
              then (Inl ignoring_rekey, q) else (Inr (), q))
        else if received_packets p \<ge> REKEY_PACKETS \<or> received_bytes p \<ge> int REKEY_BYTES
        then (Inr (), trigger_rekey (p\<lparr>received_bytes_overflow := 0, received_packets_overflow := 0\<rparr>))
        else (Inr (), p))"

record in_message =
  im_cmd :: byte
  im_msg :: message
  im_seqno :: int

text \<open>From the packet to the message: padding, decompression, sequence number and counters.\<close>

definition unwrap ::
  "('e, 'm, 'c) crypto \<Rightarrow> bytes \<times> int \<Rightarrow> (('e, 'm, 'c) packetizer, in_message) sm" where
  "unwrap cr pp = (\<lambda>p.
     case pp of (packet, packet_size) \<Rightarrow>
       (case packet of
          [] \<Rightarrow> (Inl IndexError, p)
        | b # _ \<Rightarrow>
           (case (let payload = py_slice packet 1 (packet_size - uint b) in
                  case compress_engine_in p of
                    None \<Rightarrow> (payload, p)
                  | Some c \<Rightarrow> (case decompress cr c payload of (d, c') \<Rightarrow> (d, p\<lparr>compress_engine_in := Some c'\<rparr>))) of
              (payload, p1) \<Rightarrow>
                let seqno = sequence_number_in p1
                in if next_seq seqno = 0 \<and> \<not> initial_kex_done p1 then (Inl rolled_over, p1)
                   else
                     bindS (count_received (packet_size + int (mac_size_in p1) + 4)) (\<lambda>_ p2.
                       case payload of
                         [] \<Rightarrow> (Inl IndexError, p2)
                       | cmd # rest \<Rightarrow>
                           (Inr \<lparr>im_cmd = cmd, im_msg = new_message (Some rest), im_seqno = seqno\<rparr>, p2))
                     (p1\<lparr>sequence_number_in := next_seq seqno\<rparr>))))"

definition read_message :: "('e, 'm, 'c) crypto \<Rightarrow> (('e, 'm, 'c) packetizer, in_message) sm" where
  "read_message cr = (\<lambda>p.
     bindS (read_all (int (block_size_in p)) True) (\<lambda>header.
     bindS (etm_part cr header) (\<lambda>hp.
     bindS (aead_part cr hp) (\<lambda>hp2.
     bindS (\<lambda>q. if block_engine_in q \<noteq> None \<and> \<not> aead_in q then decrypt_in cr (fst hp2) q else (Inr (fst hp2), q))
       (\<lambda>header3.
     bindS (\<lambda>q. if etm_in q \<or> aead_in q then (Inr (header3, snd hp2), q) else plain_part cr header3 q) (\<lambda>pp.
       unwrap cr pp))))) p)"

end
