(* ===== verification/Ssh_Packet_Link.thy ===== *)
theory Ssh_Packet_Link
  imports Ssh_Packet
begin

text \<open>
  Two packetizers connected by a wire: what one sends, the other reads, whatever the chunks and time-outs of
  the socket in between, in all four modes (no cipher, cipher with MAC, encrypt-then-MAC, AEAD).
\<close>

section \<open>Reading from a quiet socket\<close>

text \<open>A trace without end of file, errors or steps of others, and the bytes it carries. \<open>erase\<close> forgets
  the trace and the keep-alive book-keeping, all that reading changes besides.\<close>

fun quiet :: "recv_event list \<Rightarrow> bool" where
  "quiet [] = True"
| "quiet (Recv x # es) = (x \<noteq> [] \<and> quiet es)"
| "quiet (Recv_timeout t # es) = quiet es"
| "quiet (Recv_again t # es) = quiet es"
| "quiet (_ # es) = False"

fun carried :: "recv_event list \<Rightarrow> bytes" where
  "carried [] = []"
| "carried (Recv x # es) = x @ carried es"
| "carried (_ # es) = carried es"

definition erase :: "('e, 'm, 'c) packetizer \<Rightarrow> ('e, 'm, 'c) packetizer" where
  "erase p = p\<lparr>sock_in := [], keepalive_last := 0, keepalive_calls := 0\<rparr>"

definition ready :: "bytes \<Rightarrow> ('e, 'm, 'c) packetizer \<Rightarrow> bool" where
  "ready bs p \<longleftrightarrow> quiet (sock_in p) \<and> carried (sock_in p) = bs \<and> \<not> pk_closed p \<and> \<not> handshake_timed_out p \<and>
     remainder p = []"

lemma erase_upd [simp]:
  "erase (p\<lparr>sock_in := es\<rparr>) = erase p" "erase (p\<lparr>keepalive_last := a\<rparr>) = erase p"
  "erase (p\<lparr>keepalive_calls := n\<rparr>) = erase p" "erase (check_keepalive t p) = erase p"
  by (auto simp: erase_def check_keepalive_def)

lemma check_keepalive_same [simp]:
  "pk_closed (check_keepalive t p) = pk_closed p" "need_rekey (check_keepalive t p) = need_rekey p"
  "handshake_timed_out (check_keepalive t p) = handshake_timed_out p"
  "remainder (check_keepalive t p) = remainder p" "sock_in (check_keepalive t p) = sock_in p"
  by (auto simp: check_keepalive_def handshake_timed_out_def)

lemma handshake_timed_out_sock [simp]: "handshake_timed_out (p\<lparr>sock_in := es\<rparr>) = handshake_timed_out p"
  by (simp add: handshake_timed_out_def)

lemma read_loop_quiet:
  assumes "quiet es" "n \<le> length (carried es)" "\<not> pk_closed p" "\<not> handshake_timed_out p"
    "\<not> (check_rekey \<and> need_rekey p)" "remainder p = []"
  shows "\<exists>p'. read_loop es n check_rekey out p = (Inr (out @ take n (carried es)), p') \<and>
           ready (drop n (carried es)) p' \<and> erase p' = erase p"
  using assms
proof (induction es n check_rekey out p rule: read_loop.induct)
  case (1 es n check_rekey out p)
  show ?case
  proof (cases "n = 0")
    case True
    then show ?thesis using "1.prems" by (subst read_loop.simps) (auto simp: ready_def)
  next
    case False
    note hs = \<open>\<not> handshake_timed_out p\<close>
    from 1(5) False obtain e es' where es: "es = e # es'" by (cases es) auto
    show ?thesis
    proof (cases e)
      case (Recv x)
      with 1(4) es have x: "x \<noteq> []" "quiet es'" by auto
      let ?es = "if n < length x then Recv (drop n x) # es' else es'"
      have rv: "sock_recv n es p = Some (Got (take n x), ?es, p)" using es Recv by simp
      have q: "quiet ?es" "carried ?es = drop n x @ carried es'" using x by auto
      have le: "n - length (take n x) \<le> length (carried ?es)" using 1(5) es Recv q by auto
      obtain p' where p': "read_loop ?es (n - length (take n x)) check_rekey (out @ take n x) p
          = (Inr ((out @ take n x) @ take (n - length (take n x)) (carried ?es)), p')"
        "ready (drop (n - length (take n x)) (carried ?es)) p'" "erase p' = erase p"
        using 1(1) [OF False hs rv refl refl, of _ p] x(1) False q le 1(6-) by (auto simp: q(2))
      have "take n (carried es) = take n x @ take (n - length (take n x)) (carried ?es)"
        "drop n (carried es) = drop (n - length (take n x)) (carried ?es)"
        using es Recv q(2) by (auto simp: min_def)
      moreover have "read_loop es n check_rekey out p
          = read_loop ?es (n - length (take n x)) check_rekey (out @ take n x) p"
        using False hs rv x(1) by (subst read_loop.simps) simp
      ultimately show ?thesis using p' by auto
    next
      case (Recv_timeout t)
      with 1(4) es have x: "quiet es'" "carried es = carried es'" by auto
      have rv: "sock_recv n es p = Some (Got_timeout t, es', p)" using es Recv_timeout by simp
      have ot: "on_timeout check_rekey t out p = (None, check_keepalive t p)"
        using 1(6,8) by (auto simp: on_timeout_def)
      have "read_loop es n check_rekey out p = read_loop es' n check_rekey out (check_keepalive t p)"
        using False hs rv ot by (subst read_loop.simps) simp
      then show ?thesis using 1(2) [OF False hs rv refl refl _ ot [symmetric]] x "1.prems" by auto
    next
      case (Recv_again t)
      with 1(4) es have x: "quiet es'" "carried es = carried es'" by auto
      have rv: "sock_recv n es p = Some (Got_again t, es', p)" using es Recv_again by simp
      have ot: "on_timeout check_rekey t out p = (None, check_keepalive t p)"
        using 1(6,8) by (auto simp: on_timeout_def)
      have "read_loop es n check_rekey out p = read_loop es' n check_rekey out (check_keepalive t p)"
        using False hs rv ot by (subst read_loop.simps) simp
      then show ?thesis using 1(3) [OF False hs rv refl refl _ ot [symmetric]] x "1.prems" by auto
    qed (use 1(4) es in auto)
  qed
qed

lemma read_all_ready:
  assumes "ready bs p" "n \<le> length bs" "\<not> (check_rekey \<and> need_rekey p)"
  shows "\<exists>p'. read_all (int n) check_rekey p = (Inr (take n bs), p') \<and> ready (drop n bs) p' \<and> erase p' = erase p"
  using read_loop_quiet [of "sock_in p" n p check_rekey "[]"] assms
  by (auto simp: read_all_def ready_def)

text \<open>The inbound side of two packetizers that \<open>erase\<close> makes equal.\<close>

lemma erase_inbound:
  assumes "erase p = erase q"
  shows "need_rekey p = need_rekey q" "block_size_in p = block_size_in q" "mac_size_in p = mac_size_in q"
    "block_engine_in p = block_engine_in q" "mac_engine_in p = mac_engine_in q" "mac_key_in p = mac_key_in q"
    "compress_engine_in p = compress_engine_in q" "sequence_number_in p = sequence_number_in q"
    "etm_in p = etm_in q" "aead_in p = aead_in q" "iv_in p = iv_in q" "initial_kex_done p = initial_kex_done q"
  using arg_cong [OF assms, of need_rekey] arg_cong [OF assms, of block_size_in] arg_cong [OF assms, of mac_size_in]
    arg_cong [OF assms, of block_engine_in] arg_cong [OF assms, of mac_engine_in] arg_cong [OF assms, of mac_key_in]
    arg_cong [OF assms, of compress_engine_in] arg_cong [OF assms, of sequence_number_in]
    arg_cong [OF assms, of etm_in] arg_cong [OF assms, of aead_in] arg_cong [OF assms, of iv_in]
    arg_cong [OF assms, of initial_kex_done]
  by (simp_all add: erase_def)

section \<open>What a packet looks like\<close>

text \<open>The laws of the libraries: ciphers keep lengths and undo each other block by block, an AEAD tag has the
  MAC's size, a MAC is long enough to be cut, random padding has the length asked for. \<open>E\<close> relates an
  encrypting cipher object to the decrypting one in the same state.\<close>

definition good_crypto :: "('e, 'm, 'c) crypto \<Rightarrow> ('e \<Rightarrow> 'e \<Rightarrow> bool) \<Rightarrow> nat \<Rightarrow> nat \<Rightarrow> bool" where
  "good_crypto cr E bsize msize \<longleftrightarrow>
     (\<forall>e d x. E e d \<and> bsize dvd length x \<longrightarrow>
        length (fst (upd cr e x)) = length x \<and> fst (upd cr d (fst (upd cr e x))) = x \<and>
        E (snd (upd cr e x)) (snd (upd cr d (fst (upd cr e x))))) \<and>
     (\<forall>d a b. bsize dvd length a \<longrightarrow>
        length (fst (upd cr d a)) = length a \<and>
        upd cr d (a @ b) = (fst (upd cr d a) @ fst (upd cr (snd (upd cr d a)) b),
                            snd (upd cr (snd (upd cr d a)) b))) \<and>
     (\<forall>e d iv x a. E e d \<longrightarrow> aead_decrypt cr d iv (aead_encrypt cr e iv x a) a = Inr x \<and>
        length (aead_encrypt cr e iv x a) = length x + msize) \<and>
     (\<forall>m k x. msize \<le> length (hmac cr m k x)) \<and> (\<forall>n. length (urandom cr n) = n)"

text \<open>A sender and a receiver with the same keys, sizes and counters.\<close>

definition synced ::
  "('e \<Rightarrow> 'e \<Rightarrow> bool) \<Rightarrow> ('e, 'm, 'c) packetizer \<Rightarrow> ('e, 'm, 'c) packetizer \<Rightarrow> bool" where
  "synced E s r \<longleftrightarrow>
     block_size_out s = block_size_in r \<and> 8 \<le> block_size_in r \<and>
     mac_size_out s = mac_size_in r \<and> mac_key_out s = mac_key_in r \<and> mac_engine_out s = mac_engine_in r \<and>
     etm_out s = etm_in r \<and> aead_out s = aead_in r \<and> \<not> (etm_in r \<and> aead_in r) \<and>
     sequence_number_out s = sequence_number_in r \<and> iv_out s = iv_in r \<and>
     compress_engine_out s = None \<and> compress_engine_in r = None \<and>
     (case (block_engine_out s, block_engine_in r) of
        (None, None) \<Rightarrow> mac_size_in r = 0 \<and> \<not> etm_in r \<and> \<not> aead_in r
      | (Some e, Some d) \<Rightarrow> E e d
      | _ \<Rightarrow> False)"

definition pad_len :: "nat \<Rightarrow> nat \<Rightarrow> bool \<Rightarrow> nat" where
  "pad_len bsize n short = 3 + bsize - (n + (if short then 4 else 8)) mod bsize"

lemma pad_len_bounds: "0 < bsize \<Longrightarrow> 4 \<le> pad_len bsize n short \<and> pad_len bsize n short \<le> 3 + bsize"
proof -
  assume "0 < bsize"
  then have "(n + (if short then 4 else 8)) mod bsize < bsize" by (rule mod_less_divisor)
  then show ?thesis unfolding pad_len_def by linarith
qed

lemma pad_len_aligned:
  assumes "0 < bsize"
  shows "bsize dvd (if short then 1 else 5) + n + pad_len bsize n short"
proof -
  let ?a = "n + (if short then 4 else 8)"
  have "(if short then 1 else 5) + n + pad_len bsize n short = ?a div bsize * bsize + bsize"
  proof -
    obtain q m where "?a div bsize * bsize = q" "?a mod bsize = m" by blast
    moreover have "?a mod bsize < bsize" using assms by (rule mod_less_divisor)
    moreover have "?a div bsize * bsize + ?a mod bsize = ?a" by (rule div_mult_mod_eq)
    ultimately show ?thesis unfolding pad_len_def by (cases short) simp_all
  qed
  then show ?thesis by simp
qed

lemma build_packet_shape:
  assumes "build_packet cr data p = Inr packet" "\<And>n. length (urandom cr n) = n"
  obtains pad fill where "pad = pad_len (block_size_out p) (length data) (etm_out p \<or> aead_out p)"
    "length fill = pad" "pad < 256" "length data + pad + 1 < 2 ^ 32"
    "packet = be_bytes 4 (int (length data + pad + 1)) @ [of_nat pad] @ data @ fill"
proof -
  define pad where "pad = pad_len (block_size_out p) (length data) (etm_out p \<or> aead_out p)"
  define fill where "fill = (if sdctr_out p \<or> block_engine_out p = None then replicate pad 0 else urandom cr pad)"
  have e: "3 + block_size_out p - (length data + (if etm_out p \<or> aead_out p then 4 else 8)) mod block_size_out p = pad"
    by (simp add: pad_def pad_len_def)
  have "bindR (pack_be 4 (int (length data + pad + 1))) (\<lambda>len. bindR (pack_be 1 (int pad)) (\<lambda>b. Inr (len @ b @ data @ fill)))
      = Inr packet"
    using assms(1) unfolding build_packet_def Let_def e fill_def .
  then have "packet = be_bytes 4 (int (length data + pad + 1)) @ be_bytes 1 (int pad) @ data @ fill"
    "int (length data + pad + 1) < 256 ^ 4" "int pad < 256 ^ 1"
    by (auto simp: bindR_eq_Inr dest!: pack_be_InrD)
  moreover have "length fill = pad" by (simp add: fill_def assms(2))
  ultimately show thesis using pad_def by (intro that [of pad fill]) auto
qed

lemma write_loop_Inr:
  "write_loop es z out p = (Inr (), p') \<Longrightarrow> \<exists>es'. p' = p\<lparr>sock_out := es', wire := wire p @ out\<rparr>"
proof (induction es z out p rule: write_loop.induct)
  case (3 k es zeros b bs p)
  let ?out = "b # bs" and ?n = "min k (length (b # bs))"
  from 3(2) have nz: "\<not> (?n = 0 \<and> zeros > 10)" by (auto simp: Let_def split: if_splits)
  with 3(2) have "write_loop es (Suc zeros) (drop ?n ?out) (p\<lparr>wire := wire p @ take ?n ?out\<rparr>) = (Inr (), p')"
    by (simp only: write_loop.simps Let_def if_False)
  from 3(1) [OF refl nz this] obtain es' where
    "p' = p\<lparr>wire := wire p @ take ?n ?out, sock_out := es', wire := wire (p\<lparr>wire := wire p @ take ?n ?out\<rparr>) @ drop ?n ?out\<rparr>"
    by blast
  moreover have "wire (p\<lparr>wire := wire p @ take ?n ?out\<rparr>) @ drop ?n ?out = wire p @ ?out"
  proof -
    have w: "wire (p\<lparr>wire := x\<rparr>) = x" for x by simp
    show ?thesis by (simp only: w append_assoc append_take_drop_id)
  qed
  ultimately show ?case by (intro exI [of _ es']) simp
qed (auto split: if_splits)

text \<open>What a successful send puts on the wire and how it leaves the outbound side.\<close>

lemma send_message_Inr:
  assumes "send_message cr now data s = (Inr (), s')" "compress_engine_out s = None"
  obtains packet out mac s2 where "data \<noteq> []" "build_packet cr data s = Inr packet"
    "encrypt_packet cr packet s = (Inr out, s2)" "compute_mac_out cr packet out s2 = Inr mac"
    "wire s' = wire s @ out @ mac" "block_engine_out s' = block_engine_out s2" "iv_out s' = iv_out s2"
    "sequence_number_out s' = next_seq (sequence_number_out s)" "block_size_out s' = block_size_out s"
    "mac_size_out s' = mac_size_out s" "mac_key_out s' = mac_key_out s" "mac_engine_out s' = mac_engine_out s"
    "etm_out s' = etm_out s" "aead_out s' = aead_out s" "compress_engine_out s' = None"
    "next_seq (sequence_number_out s) = 0 \<Longrightarrow> initial_kex_done s"
proof -
  from assms have d: "data \<noteq> []" by (auto simp: send_message_def)
  with assms obtain packet where b: "build_packet cr data s = Inr packet"
    by (auto simp: send_message_def split: sum.splits)
  obtain r s2 where e0: "encrypt_packet cr packet s = (r, s2)" by fastforce
  with assms d b obtain out where r: "r = Inr out"
    by (cases r) (auto simp: send_message_def bindS_def)
  note e = e0 [unfolded r]
  from assms d b e obtain mac where m: "compute_mac_out cr packet out s2 = Inr mac"
    by (auto simp: send_message_def bindS_def split: sum.splits)
  let ?s3 = "s2\<lparr>sequence_number_out := next_seq (sequence_number_out s2)\<rparr>"
  from assms d b e m have nr: "\<not> (next_seq (sequence_number_out s2) = 0 \<and> \<not> initial_kex_done s2)"
    by (auto simp: send_message_def bindS_def split: if_splits)
  have w0: "bindS (write_all now (out @ mac)) (\<lambda>_. modS (count_sent (length (out @ mac)))) ?s3 = (Inr (), s')"
    using assms d b e m nr by (simp add: send_message_def bindS_def)
  then obtain s4 where w: "write_all now (out @ mac) ?s3 = (Inr (), s4)" "s' = count_sent (length (out @ mac)) s4"
    by (auto simp: bindS_def modS_def split: prod.splits sum.splits)
  from w(1) obtain es' where s4: "s4 = ?s3\<lparr>keepalive_last := now, sock_out := es', wire := wire s2 @ out @ mac\<rparr>"
    unfolding write_all_def by (auto dest: write_loop_Inr)
  have s2: "wire s2 = wire s" "sequence_number_out s2 = sequence_number_out s" "block_size_out s2 = block_size_out s"
    "mac_size_out s2 = mac_size_out s" "mac_key_out s2 = mac_key_out s" "mac_engine_out s2 = mac_engine_out s"
    "etm_out s2 = etm_out s" "aead_out s2 = aead_out s" "compress_engine_out s2 = None"
    "initial_kex_done s2 = initial_kex_done s"
    using e assms(2) by (auto simp: encrypt_packet_def split: option.splits if_splits prod.splits sum.splits)
  show thesis
    by (rule that [OF d b e m])
      (use nr in \<open>auto simp: w(2) s4 s2 count_sent_def trigger_rekey_def Let_def\<close>)
qed

section \<open>Unwrapping\<close>

definition wanted :: "bytes \<Rightarrow> ('e, 'm, 'c) packetizer \<Rightarrow> in_message" where
  "wanted data r = \<lparr>im_cmd = hd data, im_msg = new_message (Some (tl data)), im_seqno = sequence_number_in r\<rparr>"

lemma unwrap_packet:
  assumes "compress_engine_in r = None" "\<not> need_rekey r" "data \<noteq> []" "length fill = pad" "pad < 256"
    "next_seq (sequence_number_in r) = 0 \<longrightarrow> initial_kex_done r"
  shows "\<exists>r'. unwrap cr ([of_nat pad] @ data @ fill, int (length data + pad + 1)) r = (Inr (wanted data r), r') \<and>
     sock_in r' = sock_in r \<and> pk_closed r' = pk_closed r \<and> handshake_timed_out r' = handshake_timed_out r \<and>
     remainder r' = remainder r \<and> block_size_in r' = block_size_in r \<and> mac_size_in r' = mac_size_in r \<and>
     block_engine_in r' = block_engine_in r \<and> mac_engine_in r' = mac_engine_in r \<and> mac_key_in r' = mac_key_in r \<and>
     compress_engine_in r' = None \<and> sequence_number_in r' = next_seq (sequence_number_in r) \<and>
     etm_in r' = etm_in r \<and> aead_in r' = aead_in r \<and> iv_in r' = iv_in r \<and> initial_kex_done r' = initial_kex_done r"
proof -
  have u: "uint (of_nat pad :: byte) = int pad"
    using assms(5) by (simp add: uint_nat unat_of_nat)
  have "py_slice ([of_nat pad] @ data @ fill) 1 (int (length data + pad + 1) - uint (of_nat pad :: byte)) = data"
    unfolding u by (simp add: slice_simps)
  moreover obtain d ds where d: "data = d # ds" using assms(3) by (cases data) auto
  ultimately show ?thesis using assms
    by (auto simp: unwrap_def Let_def bindS_def count_received_def trigger_rekey_def wanted_def handshake_timed_out_def)
qed

section \<open>The four modes\<close>

text \<open>A packet as the receiver finds it: the length field and the rest, a multiple of the block size long.\<close>

lemma take_drop_4:
  assumes "length lenf = 4" "4 \<le> n"
  shows "take 4 (take n (lenf @ body)) = lenf" "drop 4 (take n (lenf @ body)) = take (n - 4) body"
  using assms by simp_all

lemma unpack_len: "m < 2 ^ 32 \<Longrightarrow> unpack_be 4 (be_bytes 4 (int m)) = Inr (int m)"
  by (simp add: unpack_be_def be_int_be_bytes)

lemma check_mac_erase: "erase p = erase q \<Longrightarrow> check_mac cr n x m p = check_mac cr n x m q"
  using erase_inbound [of p q] by (simp add: check_mac_def cong: option.case_cong)

text \<open>The cipher object after reading \<open>c\<close>.\<close>

definition moved :: "('e, 'm, 'c) crypto \<Rightarrow> bytes \<Rightarrow> ('e, 'm, 'c) packetizer \<Rightarrow> ('e, 'm, 'c) packetizer" where
  "moved cr c r = r\<lparr>block_engine_in := map_option (\<lambda>d. snd (upd cr d c)) (block_engine_in r)\<rparr>"

definition decrypted :: "('e, 'm, 'c) crypto \<Rightarrow> bytes \<Rightarrow> ('e, 'm, 'c) packetizer \<Rightarrow> bytes" where
  "decrypted cr c r = (case block_engine_in r of None \<Rightarrow> c | Some d \<Rightarrow> fst (upd cr d c))"

lemma decrypt_in_eq: "decrypt_in cr c r = (Inr (decrypted cr c r), moved cr c r)"
  by (cases "block_engine_in r") (auto simp: decrypt_in_def decrypted_def moved_def split: prod.split)

lemma moved_simps [simp]:
  "check_mac cr n x m (moved cr c r) = check_mac cr n x m r" "ready bs (moved cr c r) = ready bs r"
  "mac_size_in (moved cr c r) = mac_size_in r"
  by (simp_all add: moved_def check_mac_def ready_def handshake_timed_out_def cong: option.case_cong)

lemma erase_moved: "erase p = erase q \<Longrightarrow> erase (moved cr c p) = erase (moved cr c q)"
proof -
  assume e: "erase p = erase q"
  have u: "erase (p\<lparr>block_engine_in := x\<rparr>) = (erase p)\<lparr>block_engine_in := x\<rparr>" for p :: "('e, 'm, 'c) packetizer" and x
    by (simp add: erase_def)
  show ?thesis unfolding moved_def u e erase_inbound(4) [OF e] ..
qed

lemma plain_part_reads:
  assumes "ready (c2 @ mac @ rst) r" "decrypted cr c2 r = drop (b - 4) body" "length c2 = 4 + length body - b"
    "mac_size_in r = length mac" "block_size_in r = b" "mac \<noteq> [] \<longrightarrow> check_mac cr (int (length body)) body mac r = Inr ()"
    "4 \<le> b" "b dvd 4 + length body" "length body < 2 ^ 32" "body \<noteq> []"
  shows "\<exists>r'. plain_part cr (take b (be_bytes 4 (int (length body)) @ body)) r = (Inr (body, int (length body)), r') \<and>
     ready rst r' \<and> erase r' = erase (moved cr c2 r)"
proof -
  have bl: "b \<le> 4 + length body" using assms(8) by (auto intro: dvd_imp_le)
  define h0 where "h0 = take b (be_bytes 4 (int (length body)) @ body)"
  have h: "take 4 h0 = be_bytes 4 (int (length body))" "drop 4 h0 = take (b - 4) body"
    unfolding h0_def using take_drop_4 [of "be_bytes 4 (int (length body))" b body] assms(7) by simp_all
  have left: "length (drop 4 h0) = b - 4" using h(2) bl by simp
  have miss: "int (length body) - int (length (drop 4 h0)) = int (length c2)"
    "int (length body) + int (length mac) - int (length (drop 4 h0)) = int (length (c2 @ mac))"
    using left bl assms(3,7) by simp_all
  have blk: "int (length c2) mod int b = 0"
  proof -
    have "b dvd length c2" unfolding assms(3) using assms(8) by (intro dvd_diff_nat) auto
    then have "length c2 mod b = 0" by simp
    then show ?thesis by (simp flip: of_nat_mod)
  qed
  obtain r' where r': "read_all (int (length (c2 @ mac))) False r = (Inr (c2 @ mac), r')"
    "ready rst r'" "erase r' = erase r"
    using read_all_ready [OF assms(1), of "length (c2 @ mac)" False] by auto
  have sl: "py_slice (c2 @ mac) 0 (int (length c2)) = c2"
    "py_slice (c2 @ mac) (int (length c2)) (int (length (c2 @ mac))) = mac"
    by (simp_all add: slice_simps)
  have d: "decrypted cr c2 r' = drop (b - 4) body" using assms(2) erase_inbound(4) [OF r'(3)] by (simp add: decrypted_def)
  have joined: "drop 4 h0 @ drop (b - 4) body = body" unfolding h(2) by simp
  have ck: "mac \<noteq> [] \<longrightarrow> check_mac cr (int (length body)) body mac r' = Inr ()"
    using assms(6) check_mac_erase [OF r'(3)] by metis
  have ms: "mac_size_in r' = length mac" using assms(4) erase_inbound(3) [OF r'(3)] by simp
  have "plain_part cr h0 r = (Inr (body, int (length body)), moved cr c2 r')"
    unfolding plain_part_def h(1) unpack_len [OF assms(9)] Let_def liftR_def
    unfolding bindS_def assms(4,5)
    unfolding prod.case sum.case miss blk
    by (simp add: r'(1) decrypt_in_eq sl d joined ms ck del: length_append)
  then show ?thesis using r' erase_moved [OF r'(3)] unfolding h0_def by auto
qed

lemma etm_part_reads:
  assumes "ready (drop (b - 4) c @ mac @ rst) r" "etm_in r" "block_size_in r = b" "mac_size_in r = length mac"
    "check_mac cr (int (length c)) c mac r = Inr ()" "4 \<le> b" "b \<le> 4 + length c" "length c < 2 ^ 32"
  shows "\<exists>r'. etm_part cr (take b (be_bytes 4 (int (length c)) @ c)) r = (Inr (c, int (length c)), r') \<and>
     ready rst r' \<and> erase r' = erase r"
proof -
  define h0 where "h0 = take b (be_bytes 4 (int (length c)) @ c)"
  have h: "take 4 h0 = be_bytes 4 (int (length c))" "drop 4 h0 = take (b - 4) c"
    unfolding h0_def using take_drop_4 [of "be_bytes 4 (int (length c))" b c] assms(6) by simp_all
  have n: "int (length c) - int b + 4 = int (length (drop (b - 4) c))" using assms(6,7) by simp
  obtain r1 where r1: "read_all (int (length (drop (b - 4) c))) False r = (Inr (drop (b - 4) c), r1)"
    "ready (mac @ rst) r1" "erase r1 = erase r"
    using read_all_ready [OF assms(1), of "length (drop (b - 4) c)" False] by auto
  obtain r2 where r2: "read_all (int (length mac)) False r1 = (Inr mac, r2)" "ready rst r2" "erase r2 = erase r1"
    using read_all_ready [OF r1(2), of "length mac" False] by auto
  have e: "erase r2 = erase r" using r1(3) r2(3) by simp
  have ck: "check_mac cr (int (length c)) c mac r2 = Inr ()" using check_mac_erase [OF e] assms(5) by metis
  have j: "drop 4 h0 @ drop (b - 4) c = c" unfolding h(2) by simp
  have "etm_part cr h0 r = (Inr (c, int (length c)), r2)"
    unfolding etm_part_def h(1) unpack_len [OF assms(8)] liftR_def
    using assms(2) by (simp add: bindS_def assms(3,4) n r1(1) r2(1) j ck del: length_drop)
  then show ?thesis using r2(2) e unfolding h0_def by blast
qed

lemma aead_part_reads:
  assumes "ready (drop (b - 4) c @ rst) r" "aead_in r" "block_size_in r = b" "length c = n + mac_size_in r"
    "block_engine_in r = Some d" "aead_decrypt cr d (iv_in r) c (be_bytes 4 (int n)) = Inr body"
    "inc_iv_counter (iv_in r) = Inr iv'" "4 \<le> b" "b \<le> 4 + n" "n < 2 ^ 32"
  shows "\<exists>r'. aead_part cr (take b (be_bytes 4 (int n) @ c), k) r = (Inr (body, int n), r') \<and>
     ready rst r' \<and> erase r' = erase (r\<lparr>iv_in := iv'\<rparr>)"
proof -
  define h0 where "h0 = take b (be_bytes 4 (int n) @ c)"
  have h: "take 4 h0 = be_bytes 4 (int n)" "drop 4 h0 = take (b - 4) c"
    unfolding h0_def using take_drop_4 [of "be_bytes 4 (int n)" b c] assms(8) by simp_all
  have n: "int n - int b + 4 + int (mac_size_in r) = int (length (drop (b - 4) c))" using assms(4,8,9) by simp
  obtain r1 where r1: "read_all (int (length (drop (b - 4) c))) False r = (Inr (drop (b - 4) c), r1)"
    "ready rst r1" "erase r1 = erase r"
    using read_all_ready [OF assms(1), of "length (drop (b - 4) c)" False] by auto
  note i = erase_inbound [OF r1(3)]
  have j: "drop 4 h0 @ drop (b - 4) c = c" unfolding h(2) by simp
  have "aead_part cr (h0, k) r = (Inr (body, int n), r1\<lparr>iv_in := iv'\<rparr>)"
    unfolding aead_part_def h(1) unpack_len [OF assms(10)] liftR_def prod.case
    using assms(2) by (simp add: bindS_def assms(3,5,6,7) n r1(1) j i h(1) del: length_drop)
  moreover have "erase (r1\<lparr>iv_in := iv'\<rparr>) = erase (r\<lparr>iv_in := iv'\<rparr>)"
  proof -
    have u: "erase (p\<lparr>iv_in := x\<rparr>) = (erase p)\<lparr>iv_in := x\<rparr>" for p :: "('a, 'b, 'c) packetizer" and x
      by (simp add: erase_def)
    show ?thesis unfolding u r1(3) ..
  qed
  moreover have "ready rst (r1\<lparr>iv_in := iv'\<rparr>)" using r1(2) by (auto simp: ready_def handshake_timed_out_def split: if_splits)
  ultimately show ?thesis unfolding h0_def by blast
qed

section \<open>One message over the link\<close>

lemma split_decrypt:
  assumes g: "good_crypto cr E b ms" and ed: "E e d" and p: "b dvd length x" "b dvd k" "k \<le> length x"
  defines "c \<equiv> fst (upd cr e x)"
  shows "length c = length x" "fst (upd cr d (take k c)) = take k x"
    "fst (upd cr (snd (upd cr d (take k c))) (drop k c)) = drop k x"
    "E (snd (upd cr e x)) (snd (upd cr (snd (upd cr d (take k c))) (drop k c)))"
proof -
  have r: "length c = length x" "fst (upd cr d c) = x" "E (snd (upd cr e x)) (snd (upd cr d c))"
    using g ed p(1) unfolding good_crypto_def c_def by blast+
  have t: "b dvd length (take k c)" using p(2,3) r(1) by (simp add: min_absorb2)
  then have "length (fst (upd cr d (take k c))) = length (take k c)"
    and u: "upd cr d (take k c @ drop k c) = (fst (upd cr d (take k c)) @ fst (upd cr (snd (upd cr d (take k c))) (drop k c)),
          snd (upd cr (snd (upd cr d (take k c))) (drop k c)))"
    using g unfolding good_crypto_def by blast+
  then have l: "length (fst (upd cr d (take k c))) = k" using r(1) p(3) by simp
  have "fst (upd cr d (take k c)) @ fst (upd cr (snd (upd cr d (take k c))) (drop k c)) = take k x @ drop k x"
    using u r(2) by simp
  then show "fst (upd cr d (take k c)) = take k x" "fst (upd cr (snd (upd cr d (take k c))) (drop k c)) = drop k x"
    using l p(3) by (simp_all add: append_eq_append_conv del: append_take_drop_id)
  show "length c = length x" by (rule r(1))
  show "E (snd (upd cr e x)) (snd (upd cr (snd (upd cr d (take k c))) (drop k c)))" using r(3) u by simp
qed

lemma check_mac_ok:
  assumes "mac_engine_in r = Some m" "pack_be 4 (sequence_number_in r) = Inr sq" "length x < 2 ^ 32"
    "mac = take (mac_size_in r) (hmac cr m (mac_key_in r) (sq @ be_bytes 4 (int (length x)) @ x))"
  shows "check_mac cr (int (length x)) x mac r = Inr ()"
  using assms by (simp add: check_mac_def pack_be_Inr constant_time_bytes_eq_iff)

text \<open>What \<^verbatim>\<open>read_message\<close> has found before it unwraps the packet.\<close>

definition reads_packet ::
  "('e, 'm, 'c) crypto \<Rightarrow> ('e, 'm, 'c) packetizer \<Rightarrow> bytes \<Rightarrow> bytes \<Rightarrow> ('e, 'm, 'c) packetizer \<Rightarrow> bool" where
  "reads_packet cr r body rst r1 \<longleftrightarrow>
     (\<exists>r2. read_message cr r = unwrap cr (body, int (length body)) r2 \<and> ready rst r2 \<and> erase r2 = erase r1)"

lemma read_plain_packet:
  assumes "ready (be_bytes 4 (int (length body)) @ body @ rst) r" "\<not> need_rekey r" "\<not> etm_in r" "\<not> aead_in r"
    "block_engine_in r = None" "mac_size_in r = 0" "4 \<le> block_size_in r" "block_size_in r dvd 4 + length body"
    "length body < 2 ^ 32" "body \<noteq> []"
  shows "reads_packet cr r body rst r"
proof -
  let ?b = "block_size_in r" and ?p = "be_bytes 4 (int (length body)) @ body"
  have bl: "?b \<le> length ?p" using assms(8) by (auto intro: dvd_imp_le)
  obtain r1 where r1: "read_all (int ?b) True r = (Inr (take ?b ?p), r1)" "ready (drop (?b - 4) body @ rst) r1"
    "erase r1 = erase r"
    using read_all_ready [of "?p @ rst" r ?b True] assms(1,2,7) bl by auto
  note i = erase_inbound [OF r1(3)]
  obtain r2 where r2: "plain_part cr (take ?b ?p) r1 = (Inr (body, int (length body)), r2)" "ready rst r2"
    "erase r2 = erase (moved cr (drop (?b - 4) body) r1)"
    using plain_part_reads [of "drop (?b - 4) body" "[]" rst r1 cr ?b body] r1(2) assms i bl
    by (auto simp: decrypted_def add.commute)
  have m: "moved cr (drop (?b - 4) body) r1 = r1" using i assms(5) by (simp add: moved_def)
  have "read_message cr r = unwrap cr (body, int (length body)) r2"
    unfolding read_message_def using assms(3,4,5) i r1(1) r2(1)
    by (simp add: bindS_def etm_part_def aead_part_def del: take_append)
  then show ?thesis unfolding reads_packet_def using r2(2,3) r1(3) m by auto
qed

lemma read_cipher_packet:
  assumes "good_crypto cr E (block_size_in r) (mac_size_in r)" "E e d" "block_engine_in r = Some d"
    "c = fst (upd cr e (be_bytes 4 (int (length body)) @ body))"
    "ready (c @ mac @ rst) r" "\<not> need_rekey r" "\<not> etm_in r" "\<not> aead_in r"
    "mac_size_in r = length mac" "mac \<noteq> [] \<longrightarrow> check_mac cr (int (length body)) body mac r = Inr ()"
    "4 \<le> block_size_in r" "block_size_in r dvd 4 + length body" "length body < 2 ^ 32" "body \<noteq> []"
  shows "\<exists>d'. E (snd (upd cr e (be_bytes 4 (int (length body)) @ body))) d' \<and>
     reads_packet cr r body rst (r\<lparr>block_engine_in := Some d'\<rparr>)"
proof -
  let ?b = "block_size_in r" and ?p = "be_bytes 4 (int (length body)) @ body"
  have bl: "?b \<le> length ?p" "?b dvd length ?p" using assms(12) by (auto intro: dvd_imp_le)
  note sp = split_decrypt [OF assms(1,2) bl(2) dvd_refl bl(1), folded assms(4)]
  define d1 where "d1 = snd (upd cr d (take ?b c))"
  define d2 where "d2 = snd (upd cr d1 (drop ?b c))"
  have u1: "upd cr d (take ?b c) = (take ?b ?p, d1)" using sp(2) by (simp add: d1_def prod_eq_iff del: take_append)
  have u2: "fst (upd cr d1 (drop ?b c)) = drop (?b - 4) body" using sp(3) assms(11) by (simp add: d1_def)
  have ready': "ready (take ?b c @ drop ?b c @ mac @ rst) r" using assms(5) by (simp flip: append_assoc)
  obtain r1 where r1: "read_all (int ?b) True r = (Inr (take ?b c), r1)" "ready (drop ?b c @ mac @ rst) r1"
    "erase r1 = erase r"
    using read_all_ready [OF ready', of ?b True] assms(6) sp(1) bl(1) by auto
  note i = erase_inbound [OF r1(3)]
  have mv: "decrypt_in cr (take ?b c) r1 = (Inr (take ?b ?p), moved cr (take ?b c) r1)"
    using i assms(3) u1 by (simp add: decrypt_in_eq decrypted_def del: take_append)
  let ?r1 = "moved cr (take ?b c) r1"
  have e1: "block_engine_in ?r1 = Some d1" "block_size_in ?r1 = ?b" "etm_in ?r1 = etm_in r" "aead_in ?r1 = aead_in r"
    using i assms(3) by (simp_all add: moved_def d1_def)
  have ck: "mac \<noteq> [] \<longrightarrow> check_mac cr (int (length body)) body mac ?r1 = Inr ()"
    using assms(10) check_mac_erase [OF r1(3)] by (metis moved_simps(1))
  obtain r2 where r2: "plain_part cr (take ?b ?p) ?r1 = (Inr (body, int (length body)), r2)" "ready rst r2"
    "erase r2 = erase (moved cr (drop ?b c) ?r1)"
    using plain_part_reads [of "drop ?b c" mac rst ?r1 cr ?b body] r1(2) assms(9,11-) i bl e1 u2 sp(1) ck
    by (auto simp: decrypted_def add.commute)
  have "erase (moved cr (drop ?b c) ?r1) = erase (r\<lparr>block_engine_in := Some d2\<rparr>)"
  proof -
    have "moved cr (drop ?b c) ?r1 = r1\<lparr>block_engine_in := Some d2\<rparr>"
      using i assms(3) by (simp add: moved_def d2_def d1_def)
    moreover have u: "erase (p\<lparr>block_engine_in := x\<rparr>) = (erase p)\<lparr>block_engine_in := x\<rparr>" for p :: "('a, 'b, 'c) packetizer" and x
      by (simp add: erase_def)
    ultimately show ?thesis by (simp only: u r1(3))
  qed
  moreover have "read_message cr r = unwrap cr (body, int (length body)) r2"
    unfolding read_message_def using assms(3,7,8) i e1 r1(1) r2(1) mv
    by (simp add: bindS_def etm_part_def aead_part_def del: take_append)
  ultimately have "reads_packet cr r body rst (r\<lparr>block_engine_in := Some d2\<rparr>)"
    unfolding reads_packet_def using r2(2,3) by auto
  then show ?thesis using sp(4) unfolding d2_def d1_def by blast
qed

lemma read_etm_packet:
  assumes "good_crypto cr E (block_size_in r) (mac_size_in r)" "E e d" "block_engine_in r = Some d"
    "c = fst (upd cr e body)"
    "ready (be_bytes 4 (int (length body)) @ c @ mac @ rst) r" "\<not> need_rekey r" "etm_in r" "\<not> aead_in r"
    "mac_size_in r = length mac" "check_mac cr (int (length c)) c mac r = Inr ()"
    "4 \<le> block_size_in r" "block_size_in r dvd length body" "length body < 2 ^ 32" "body \<noteq> []"
  shows "\<exists>d'. E (snd (upd cr e body)) d' \<and> reads_packet cr r body rst (r\<lparr>block_engine_in := Some d'\<rparr>)"
proof -
  let ?b = "block_size_in r"
  have bl: "?b \<le> length body" using assms(12,14) by (auto intro: dvd_imp_le)
  have g: "length c = length body" "fst (upd cr d c) = body" "E (snd (upd cr e body)) (snd (upd cr d c))"
    using assms(1,2,4,12) unfolding good_crypto_def by blast+
  let ?w = "be_bytes 4 (int (length c)) @ c"
  have rd: "ready (?w @ mac @ rst) r" using assms(5) g(1) by simp
  obtain r1 where r1: "read_all (int ?b) True r = (Inr (take ?b ?w), r1)" "ready (drop (?b - 4) c @ mac @ rst) r1"
    "erase r1 = erase r"
    using read_all_ready [OF rd, of ?b True] assms(6,11) bl g(1) by auto
  note i = erase_inbound [OF r1(3)]
  obtain r2 where r2: "etm_part cr (take ?b ?w) r1 = (Inr (c, int (length c)), r2)" "ready rst r2" "erase r2 = erase r1"
    using etm_part_reads [OF r1(2), of cr] assms(7,9,10,11,13) i bl g(1) check_mac_erase [OF r1(3)] by auto
  have e2: "erase r2 = erase r" using r2(3) r1(3) by simp
  note i2 = erase_inbound [OF e2]
  let ?r3 = "moved cr c r2"
  have mv: "decrypt_in cr c r2 = (Inr body, ?r3)" using i2 assms(3) g(2) by (simp add: decrypt_in_eq decrypted_def)
  have "read_message cr r = unwrap cr (body, int (length body)) ?r3"
    unfolding read_message_def using r1(1) r2(1) mv i2 assms(3,7,8) g(1)
    by (simp add: bindS_def aead_part_def moved_def del: take_append)
  moreover have "erase ?r3 = erase (r\<lparr>block_engine_in := Some (snd (upd cr d c))\<rparr>)"
    using erase_moved [OF e2, of cr c] assms(3) by (simp add: moved_def)
  moreover have "ready rst ?r3" using r2(2) by simp
  ultimately show ?thesis using g(3) unfolding reads_packet_def by blast
qed

lemma read_aead_packet:
  assumes "good_crypto cr E (block_size_in r) (mac_size_in r)" "E e d" "block_engine_in r = Some d"
    "c = aead_encrypt cr e (iv_in r) body (be_bytes 4 (int (length body)))"
    "ready (be_bytes 4 (int (length body)) @ c @ rst) r" "\<not> need_rekey r" "\<not> etm_in r" "aead_in r"
    "inc_iv_counter (iv_in r) = Inr iv'"
    "4 \<le> block_size_in r" "block_size_in r dvd length body" "length body < 2 ^ 32" "body \<noteq> []"
  shows "reads_packet cr r body rst (r\<lparr>iv_in := iv'\<rparr>)"
proof -
  let ?b = "block_size_in r"
  have bl: "?b \<le> length body" using assms(11,13) by (auto intro: dvd_imp_le)
  have g: "aead_decrypt cr d (iv_in r) c (be_bytes 4 (int (length body))) = Inr body"
    "length c = length body + mac_size_in r"
    using assms(1,2,4) unfolding good_crypto_def by blast+
  let ?w = "be_bytes 4 (int (length body)) @ c"
  have rd: "ready (?w @ rst) r" using assms(5) by simp
  obtain r1 where r1: "read_all (int ?b) True r = (Inr (take ?b ?w), r1)" "ready (drop (?b - 4) c @ rst) r1"
    "erase r1 = erase r"
    using read_all_ready [OF rd, of ?b True] assms(6,10) bl g(2) by auto
  note i = erase_inbound [OF r1(3)]
  have *: "\<exists>r'. aead_part cr (take ?b (be_bytes 4 (int (length body)) @ c), k) r1 = (Inr (body, int (length body)), r') \<and>
     ready rst r' \<and> erase r' = erase (r1\<lparr>iv_in := iv'\<rparr>)" for k
    using r1(2) assms(3,8-) i bl g by (intro aead_part_reads) auto
  obtain r2 where r2: "aead_part cr (take ?b ?w, 0) r1 = (Inr (body, int (length body)), r2)" "ready rst r2"
    "erase r2 = erase (r1\<lparr>iv_in := iv'\<rparr>)"
    using * [of 0] by blast
  have e2: "erase r2 = erase (r\<lparr>iv_in := iv'\<rparr>)"
  proof -
    have u: "erase (p\<lparr>iv_in := x\<rparr>) = (erase p)\<lparr>iv_in := x\<rparr>" for p :: "('a, 'b, 'c) packetizer" and x
      by (simp add: erase_def)
    show ?thesis unfolding r2(3) u r1(3) ..
  qed
  have "aead_in r2" using erase_inbound(10) [OF e2] assms(8) by simp
  moreover have "read_message cr r = unwrap cr (body, int (length body)) r2"
    unfolding read_message_def using r1(1) r2(1) i assms(7,8) \<open>aead_in r2\<close>
    by (simp add: bindS_def etm_part_def del: take_append)
  ultimately show ?thesis unfolding reads_packet_def using r2(2) e2 by blast
qed

lemma reads_packet_message:
  assumes "reads_packet cr r ([of_nat pad] @ data @ fill) rst r1" "compress_engine_in r1 = None" "\<not> need_rekey r1"
    "data \<noteq> []" "length fill = pad" "pad < 256" "next_seq (sequence_number_in r1) = 0 \<longrightarrow> initial_kex_done r1"
  obtains r' where "read_message cr r = (Inr (wanted data r1), r')" "ready rst r'"
    "block_size_in r' = block_size_in r1" "mac_size_in r' = mac_size_in r1" "block_engine_in r' = block_engine_in r1"
    "mac_engine_in r' = mac_engine_in r1" "mac_key_in r' = mac_key_in r1" "compress_engine_in r' = None"
    "sequence_number_in r' = next_seq (sequence_number_in r1)" "etm_in r' = etm_in r1" "aead_in r' = aead_in r1"
    "iv_in r' = iv_in r1" "initial_kex_done r' = initial_kex_done r1"
proof -
  obtain r2 where r2: "read_message cr r = unwrap cr ([of_nat pad] @ data @ fill, int (length ([of_nat pad] @ data @ fill))) r2"
    "ready rst r2" "erase r2 = erase r1"
    using assms(1) unfolding reads_packet_def by blast
  note i = erase_inbound [OF r2(3)]
  have l: "length ([of_nat pad :: byte] @ data @ fill) = length data + pad + 1" using assms(5) by simp
  have w: "wanted data r2 = wanted data r1" using i by (simp add: wanted_def)
  obtain r' where r': "unwrap cr ([of_nat pad] @ data @ fill, int (length data + pad + 1)) r2 = (Inr (wanted data r2), r')"
    and f: "sock_in r' = sock_in r2" "pk_closed r' = pk_closed r2" "handshake_timed_out r' = handshake_timed_out r2"
    "remainder r' = remainder r2" "block_size_in r' = block_size_in r2" "mac_size_in r' = mac_size_in r2"
    "block_engine_in r' = block_engine_in r2" "mac_engine_in r' = mac_engine_in r2" "mac_key_in r' = mac_key_in r2"
    "compress_engine_in r' = None" "sequence_number_in r' = next_seq (sequence_number_in r2)"
    "etm_in r' = etm_in r2" "aead_in r' = aead_in r2" "iv_in r' = iv_in r2" "initial_kex_done r' = initial_kex_done r2"
    using unwrap_packet [of r2 data fill pad cr] assms i by auto
  have "ready rst r'" using r2(2) f by (simp add: ready_def)
  moreover have "read_message cr r = (Inr (wanted data r1), r')" using r2(1) r' w unfolding l by simp
  ultimately show thesis using that f i by simp
qed

lemma link_step:
  assumes g: "good_crypto cr E (block_size_in r) (mac_size_in r)" and y: "synced E s r"
    and snd: "send_message cr now data s = (Inr (), s')" and w: "wire s' = wire s @ sent"
    and rd: "ready (sent @ rst) r" and nr: "\<not> need_rekey r"
    and sq: "next_seq (sequence_number_in r) = 0 \<longrightarrow> initial_kex_done r"
  shows "\<exists>r'. read_message cr r = (Inr (wanted data r), r') \<and> ready rst r' \<and> synced E s' r'"
proof -
  have ur: "\<And>n. length (urandom cr n) = n" using g by (simp add: good_crypto_def)
  have cs: "compress_engine_out s = None" "compress_engine_in r = None" using y by (simp_all add: synced_def)
  obtain packet out mac s2 where p: "data \<noteq> []" "build_packet cr data s = Inr packet"
    "encrypt_packet cr packet s = (Inr out, s2)" "compute_mac_out cr packet out s2 = Inr mac"
    and s': "wire s' = wire s @ out @ mac" "block_engine_out s' = block_engine_out s2" "iv_out s' = iv_out s2"
    "sequence_number_out s' = next_seq (sequence_number_out s)" "block_size_out s' = block_size_out s"
    "mac_size_out s' = mac_size_out s" "mac_key_out s' = mac_key_out s" "mac_engine_out s' = mac_engine_out s"
    "etm_out s' = etm_out s" "aead_out s' = aead_out s" "compress_engine_out s' = None"
    by (rule send_message_Inr [OF snd cs(1)]) (rule that)
  have sent: "sent = out @ mac" using w s'(1) by simp
  obtain pad fill where f: "pad = pad_len (block_size_out s) (length data) (etm_out s \<or> aead_out s)"
    "length fill = pad" "pad < 256" "length data + pad + 1 < 2 ^ 32"
    "packet = be_bytes 4 (int (length data + pad + 1)) @ [of_nat pad] @ data @ fill"
    by (rule build_packet_shape [OF p(2) ur]) (rule that)
  define body where "body = [of_nat pad :: byte] @ data @ fill"
  have lb: "length body = length data + pad + 1" "body \<noteq> []" "length body < 2 ^ 32" using f(2,4) by (simp_all add: body_def)
  have pk: "packet = be_bytes 4 (int (length body)) @ body" using f(5) lb(1) by (simp add: body_def)
  let ?b = "block_size_in r"
  have b: "block_size_out s = ?b" "8 \<le> ?b" using y by (simp_all add: synced_def)
  have al: "?b dvd (if etm_out s \<or> aead_out s then 0 else 4) + length body"
    using pad_len_aligned [of ?b "etm_out s \<or> aead_out s" "length data"] b f(1) lb(1) by (auto simp: ac_simps split: if_splits)
  have fl: "mac_size_out s = mac_size_in r" "mac_key_out s = mac_key_in r" "mac_engine_out s = mac_engine_in r"
    "etm_out s = etm_in r" "aead_out s = aead_in r" "\<not> (etm_in r \<and> aead_in r)"
    "sequence_number_out s = sequence_number_in r" "iv_out s = iv_in r"
    using y by (simp_all add: synced_def)
  have fin: "\<exists>r'. read_message cr r = (Inr (wanted data r), r') \<and> ready rst r' \<and> synced E s' r'"
    if fa: "reads_packet cr r body rst (r\<lparr>block_engine_in := x, iv_in := v\<rparr>)" and fb: "iv_out s' = v"
      and fc: "case (block_engine_out s', x) of (None, None) \<Rightarrow> mac_size_in r = 0 \<and> \<not> etm_in r \<and> \<not> aead_in r
       | (Some e, Some d) \<Rightarrow> E e d | _ \<Rightarrow> False" for x v
  proof -
    let ?r1 = "r\<lparr>block_engine_in := x, iv_in := v\<rparr>"
    have side: "compress_engine_in ?r1 = None" "\<not> need_rekey ?r1"
      "next_seq (sequence_number_in ?r1) = 0 \<longrightarrow> initial_kex_done ?r1"
      using cs(2) nr sq by simp_all
    obtain r' where r': "read_message cr r = (Inr (wanted data ?r1), r')" "ready rst r'"
      "block_size_in r' = block_size_in ?r1" "mac_size_in r' = mac_size_in ?r1" "block_engine_in r' = block_engine_in ?r1"
      "mac_engine_in r' = mac_engine_in ?r1" "mac_key_in r' = mac_key_in ?r1" "compress_engine_in r' = None"
      "sequence_number_in r' = next_seq (sequence_number_in ?r1)" "etm_in r' = etm_in ?r1" "aead_in r' = aead_in ?r1"
      "iv_in r' = iv_in ?r1"
      by (rule reads_packet_message [OF fa [unfolded body_def] side(1,2) p(1) f(2,3) side(3)]) (rule that)
    have "wanted data ?r1 = wanted data r" by (simp add: wanted_def)
    moreover have "synced E s' r'"
      unfolding synced_def r'(3-) s'(4-) using fb fc b fl y
      by (simp add: r'(3-) s'(4-) synced_def split: option.splits)
    ultimately show ?thesis using r'(1,2) by auto
  qed
  show ?thesis
  proof (cases "block_engine_out s")
    case None
    then have n: "block_engine_in r = None" "mac_size_in r = 0" "\<not> etm_in r" "\<not> aead_in r"
      using y by (auto simp: synced_def split: option.splits)
    have o: "out = packet" "s2 = s" using p(3) None by (auto simp: encrypt_packet_def)
    then have "mac = []" using p(4) None by (simp add: compute_mac_out_def)
    then have "reads_packet cr r body rst r"
      using rd sent o pk nr n b(2) al fl lb by (intro read_plain_packet) auto
    moreover have "r\<lparr>block_engine_in := None, iv_in := iv_in r\<rparr> = r" using n(1) by (cases r) simp
    ultimately have "reads_packet cr r body rst (r\<lparr>block_engine_in := None, iv_in := iv_in r\<rparr>)" by simp
    then show ?thesis by (rule fin) (use s' o fl n None in auto)
  next
    case (Some e)
    then obtain d where d: "block_engine_in r = Some d" "E e d" using y by (auto simp: synced_def split: option.splits)
    have hm: "mac_size_in r \<le> length (hmac cr m k x)" for m k x using g by (simp add: good_crypto_def)
    consider (etm) "etm_in r" "\<not> aead_in r" | (aead) "aead_in r" "\<not> etm_in r" | (std) "\<not> etm_in r" "\<not> aead_in r"
      using fl(6) by blast
    then show ?thesis
    proof cases
      case etm
      define c where "c = fst (upd cr e body)"
      have al': "?b dvd length body" using al etm fl by simp
      have lc: "length c = length body" using g d(2) al' unfolding good_crypto_def c_def by blast
      have o: "out = be_bytes 4 (int (length body)) @ c" "s2 = s\<lparr>block_engine_out := Some (snd (upd cr e body))\<rparr>"
        using p(3) Some etm fl pk by (auto simp: encrypt_packet_def c_def split: prod.splits)
      obtain sq m where m: "pack_be 4 (sequence_number_in r) = Inr sq" "mac_engine_in r = Some m"
        "mac = take (mac_size_in r) (hmac cr m (mac_key_in r) (sq @ out))"
        using p(4) etm fl o(2) by (auto simp: compute_mac_out_def bindR_eq_Inr split: option.splits)
      have lm: "mac_size_in r = length mac" using m(3) hm [of m "mac_key_in r" "sq @ out"] by (simp add: min_absorb2)
      have "check_mac cr (int (length c)) c mac r = Inr ()"
        using m lb(3) lc o(1) by (intro check_mac_ok) auto
      then obtain d' where "E (snd (upd cr e body)) d'" "reads_packet cr r body rst (r\<lparr>block_engine_in := Some d'\<rparr>)"
        using read_etm_packet [OF g d(2,1) c_def, of mac rst] rd sent o(1) nr etm lm b(2) al' lb by auto
      then show ?thesis using fin [where x = "Some d'" and v = "iv_in r"] s' o(2) fl by simp
    next
      case aead
      define c where "c = aead_encrypt cr e (iv_in r) body (be_bytes 4 (int (length body)))"
      have al': "?b dvd length body" using al aead fl by simp
      obtain iv' where o: "inc_iv_counter (iv_in r) = Inr iv'" "out = be_bytes 4 (int (length body)) @ c" "s2 = s\<lparr>iv_out := iv'\<rparr>"
        using p(3) Some aead fl pk by (auto simp: encrypt_packet_def c_def split: sum.splits)
      have mac: "mac = []" using p(4) aead fl o(3) by (simp add: compute_mac_out_def)
      have "reads_packet cr r body rst (r\<lparr>iv_in := iv'\<rparr>)"
        using read_aead_packet [OF g d(2,1) c_def, of rst iv'] rd sent o(1,2) mac nr aead b(2) al' lb by auto
      moreover have "r\<lparr>block_engine_in := Some d, iv_in := iv'\<rparr> = r\<lparr>iv_in := iv'\<rparr>" using d(1) by (cases r) simp
      ultimately have "reads_packet cr r body rst (r\<lparr>block_engine_in := Some d, iv_in := iv'\<rparr>)" by (simp only:)
      then show ?thesis by (rule fin) (use s' o(3) d Some in auto)
    next
      case std
      define c where "c = fst (upd cr e (be_bytes 4 (int (length body)) @ body))"
      have al': "?b dvd 4 + length body" using al std fl by simp
      have o: "out = c" "s2 = s\<lparr>block_engine_out := Some (snd (upd cr e (be_bytes 4 (int (length body)) @ body)))\<rparr>"
        using p(3) Some std fl pk by (auto simp: encrypt_packet_def c_def split: prod.splits)
      obtain sq m where m: "pack_be 4 (sequence_number_in r) = Inr sq" "mac_engine_in r = Some m"
        "mac = take (mac_size_in r) (hmac cr m (mac_key_in r) (sq @ packet))"
        using p(4) std fl o(2) by (auto simp: compute_mac_out_def bindR_eq_Inr split: option.splits)
      have lm: "mac_size_in r = length mac" using m(3) hm [of m "mac_key_in r" "sq @ packet"] by (simp add: min_absorb2)
      have "check_mac cr (int (length body)) body mac r = Inr ()"
        using m lb(3) pk by (intro check_mac_ok) auto
      then obtain d' where "E (snd (upd cr e (be_bytes 4 (int (length body)) @ body))) d'"
        "reads_packet cr r body rst (r\<lparr>block_engine_in := Some d'\<rparr>)"
        using read_cipher_packet [OF g d(2,1) c_def, of mac rst] rd sent o(1) nr std lm b(2) al' lb by auto
      then show ?thesis using fin [where x = "Some d'" and v = "iv_in r"] s' o(2) fl by simp
    qed
  qed
qed

section \<open>Properties\<close>

text \<open>C5. The link delivers: what one packetizer has sent is read by its peer as the same message, with the
  command byte, the payload and the sequence number, in each of the four modes (no cipher, cipher with MAC,
  encrypt-then-MAC, AEAD), for every splitting of the bytes into socket chunks and every sequence of
  time-outs between them; exactly the bytes of the message are consumed, and the two sides stay in step.\<close>

theorem link_delivers:
  assumes "good_crypto cr E (block_size_in r) (mac_size_in r)" "synced E s r"
    and "send_message cr now data s = (Inr (), s')" "wire s' = wire s @ sent"
    and "ready (sent @ rst) r" "\<not> need_rekey r"
    and "next_seq (sequence_number_in r) = 0 \<longrightarrow> initial_kex_done r"
  shows "\<exists>r'. read_message cr r = (Inr (wanted data r), r') \<and> ready rst r' \<and> synced E s' r'"
  using assms by (rule link_step)

definition null_crypto :: "(unit, unit, unit) crypto" where
  "null_crypto = \<lparr>upd = (\<lambda>e x. (x, e)), aead_encrypt = (\<lambda>e iv x a. x), aead_decrypt = (\<lambda>e iv x a. Inr x),
     hmac = (\<lambda>m k x. []), compress = (\<lambda>c x. (x, c)), decompress = (\<lambda>c x. (x, c)), urandom = (\<lambda>n. replicate n 0)\<rparr>"

lemma be_bytes_4: "be_bytes 4 n = [word_of_int (n div 256 div 256 div 256 mod 256), word_of_int (n div 256 div 256 mod 256),
    word_of_int (n div 256 mod 256), word_of_int (n mod 256)]"
  by (simp add: eval_nat_numeral)

lemma be_bytes_1: "be_bytes (Suc 0) n = [word_of_int (n mod 256)]"
  by simp

lemma replicate_8: "replicate 8 x = [x, x, x, x, x, x, x, x]" "replicate 10 x = [x, x, x, x, x, x, x, x, x, x]"
  by (simp_all add: eval_nat_numeral)

lemma built_null:
  "build_packet null_crypto [5, 1, 2] (new_packetizer [] so 0) = Inr ([0, 0, 0, 12, 8, 5, 1, 2] @ replicate 8 0)"
  "build_packet null_crypto [7] (new_packetizer [] so 0) = Inr ([0, 0, 0, 12, 10, 7] @ replicate 10 0)"
  by (simp_all add: build_packet_def new_packetizer_def pack_be_def be_bytes_4 be_bytes_1 bindR_def)

lemma sent_null:
  "\<exists>s'. send_message null_crypto 0 [5, 1, 2] (new_packetizer [] [Sent 100] 0 :: (unit, unit, unit) packetizer) = (Inr (), s') \<and>
     wire s' = [0, 0, 0, 12, 8, 5, 1, 2, 0, 0, 0, 0, 0, 0, 0, 0]"
proof -
  let ?s = "new_packetizer [] [Sent 100] 0 :: (unit, unit, unit) packetizer"
  have "encrypt_packet null_crypto out ?s = (Inr out, ?s)" "compute_mac_out null_crypto out out' ?s = Inr []"
    "compress_engine_out ?s = None" "next_seq (sequence_number_out ?s) = 1" for out out'
    by (simp_all add: encrypt_packet_def compute_mac_out_def new_packetizer_def next_seq_def)
  then show ?thesis
    by (simp add: send_message_def built_null replicate_8 bindS_def modS_def write_all_def count_sent_def
        REKEY_PACKETS_def REKEY_BYTES_def Let_def) (simp add: new_packetizer_def)
qed

theorem link_delivers_witness:
  "\<exists>r'. read_message null_crypto
      (new_packetizer [Recv [0, 0, 0], Recv_timeout 1, Recv [12, 8, 5, 1, 2, 0, 0, 0, 0, 0], Recv [0, 0, 0, 9]] [] 0) =
      (Inr \<lparr>im_cmd = 5, im_msg = new_message (Some [1, 2]), im_seqno = 0\<rparr>, r') \<and> ready [9] r'"
proof -
  let ?r = "new_packetizer [Recv [0, 0, 0], Recv_timeout 1, Recv [12, 8, 5, 1, 2, 0, 0, 0, 0, 0], Recv [0, 0, 0, 9]] [] 0
      :: (unit, unit, unit) packetizer"
  let ?s = "new_packetizer [] [Sent 100] 0 :: (unit, unit, unit) packetizer"
  have "good_crypto null_crypto (\<lambda>_ _. True) (block_size_in ?r) (mac_size_in ?r)"
    by (simp add: good_crypto_def null_crypto_def new_packetizer_def)
  moreover have "synced (\<lambda>_ _. True) ?s ?r" by (simp add: synced_def new_packetizer_def)
  moreover obtain s' where "send_message null_crypto 0 [5, 1, 2] ?s = (Inr (), s')"
    "wire s' = wire ?s @ [0, 0, 0, 12, 8, 5, 1, 2, 0, 0, 0, 0, 0, 0, 0, 0]"
    using sent_null by (auto simp: new_packetizer_def)
  moreover have "ready ([0, 0, 0, 12, 8, 5, 1, 2, 0, 0, 0, 0, 0, 0, 0, 0] @ [9]) ?r"
    by (simp add: ready_def new_packetizer_def handshake_timed_out_def)
  moreover have "\<not> need_rekey ?r" "next_seq (sequence_number_in ?r) = 0 \<longrightarrow> initial_kex_done ?r"
    "wanted [5, 1, 2] ?r = \<lparr>im_cmd = 5, im_msg = new_message (Some [1, 2]), im_seqno = 0\<rparr>"
    by (simp_all add: new_packetizer_def next_seq_def wanted_def)
  ultimately show ?thesis using link_delivers [of null_crypto "\<lambda>_ _. True" ?r ?s 0 "[5, 1, 2]" s'] by metis
qed

text \<open>C36. Packet layout: a built packet is the length field, the padding length, the payload and the padding;
  the padding has at least four and at most three more bytes than a block, fits its length byte, and what
  the cipher sees (all of it, or all but the length field for encrypt-then-MAC and AEAD) is a whole number
  of blocks.\<close>

theorem packet_layout:
  assumes "build_packet cr payload p = Inr packet" "\<And>n. length (urandom cr n) = n" "0 < block_size_out p"
  shows "\<exists>pad fill. packet = be_bytes 4 (int (1 + length payload + pad)) @ [of_nat pad] @ payload @ fill \<and>
     length fill = pad \<and> 4 \<le> pad \<and> pad \<le> block_size_out p + 3 \<and> pad < 256 \<and>
     block_size_out p dvd length packet - (if etm_out p \<or> aead_out p then 4 else 0)"
proof -
  obtain pad fill where f: "pad = pad_len (block_size_out p) (length payload) (etm_out p \<or> aead_out p)"
    "length fill = pad" "pad < 256" "length payload + pad + 1 < 2 ^ 32"
    "packet = be_bytes 4 (int (length payload + pad + 1)) @ [of_nat pad] @ payload @ fill"
    by (rule build_packet_shape [OF assms(1,2)]) (rule that)
  have "block_size_out p dvd length packet - (if etm_out p \<or> aead_out p then 4 else 0)"
    using pad_len_aligned [OF assms(3), of "etm_out p \<or> aead_out p" "length payload"] f
    by (auto simp: add.assoc split: if_splits)
  with f pad_len_bounds [OF assms(3), of "length payload" "etm_out p \<or> aead_out p"] show ?thesis
    by (intro exI [of _ pad] exI [of _ fill]) (auto simp: add.commute)
qed

theorem packet_layout_witness:
  "\<exists>pad fill. [0, 0, 0, 12, 10, 7] @ replicate 10 0 = be_bytes 4 (int (1 + length [7 :: byte] + pad)) @ [of_nat pad] @ [7] @ fill \<and>
     length fill = pad \<and> 4 \<le> pad \<and> pad \<le> 11 \<and> pad < 256 \<and> 8 dvd length ([0, 0, 0, 12, 10, 7 :: byte] @ replicate 10 0)"
proof -
  let ?s = "new_packetizer [] [] 0 :: (unit, unit, unit) packetizer"
  have "build_packet null_crypto [7] ?s = Inr ([0, 0, 0, 12, 10, 7] @ replicate 10 0)"
    by (rule built_null)
  from packet_layout [OF this] show ?thesis by (simp add: null_crypto_def new_packetizer_def)
qed

lemma write_loop_prefix:
  "case write_loop es z out p of (res, p') \<Rightarrow>
     (\<exists>k. wire p' = wire p @ take k out \<and> (res = Inr () \<longrightarrow> k = length out)) \<and>
     res \<in> {Inr (), Inl EOFError, Inl ProxyCommandFailure, Inl Blocked}"
proof (induction es z out p rule: write_loop.induct)
  case (3 k es zeros b bs p)
  let ?n = "min k (length (b # bs))"
  show ?case
  proof (cases "?n = 0 \<and> zeros > 10")
    case True
    then have "write_loop (Sent k # es) zeros (b # bs) p = (Inl EOFError, p\<lparr>sock_out := es\<rparr>)"
      by (simp add: Let_def)
    then show ?thesis by (auto intro: exI [of _ 0])
  next
    case False
    obtain res p' where r: "write_loop es (Suc zeros) (drop ?n (b # bs)) (p\<lparr>wire := wire p @ take ?n (b # bs)\<rparr>) = (res, p')"
      by fastforce
    then obtain j where j: "wire p' = wire p @ take ?n (b # bs) @ take j (drop ?n (b # bs))"
      "res = Inr () \<longrightarrow> j = length (drop ?n (b # bs))" "res \<in> {Inr (), Inl EOFError, Inl ProxyCommandFailure, Inl Blocked}"
      using 3 [OF refl False] by (auto simp del: take_Cons' drop_Cons')
    have "wire p' = wire p @ take (?n + j) (b # bs)" using j(1) by (simp only: take_add)
    moreover have "res = Inr () \<longrightarrow> ?n + j = length (b # bs)" using j(2) by auto
    moreover have "write_loop (Sent k # es) zeros (b # bs) p = (res, p')"
      using False r by (simp only: write_loop.simps Let_def if_False)
    ultimately show ?thesis using j(3) by (simp only: prod.case) blast
  qed
qed (auto intro: exI [of _ 0])

text \<open>Writing: whatever the socket does, what has reached the wire is a prefix of the data, in order and
  without gaps; when \<open>write_all\<close> returns it is all of it, and otherwise the only exceptions are the end of
  file and the failure of a proxy command, unless the socket still blocks.\<close>

theorem write_all_prefix:
  "case write_all now out p of (res, p') \<Rightarrow>
     (\<exists>k. wire p' = wire p @ take k out \<and> (res = Inr () \<longrightarrow> k = length out)) \<and>
     res \<in> {Inr (), Inl EOFError, Inl ProxyCommandFailure, Inl Blocked}"
  using write_loop_prefix [where es = "sock_out p" and z = 0 and out = out and p = "p\<lparr>keepalive_last := now\<rparr>"] by (simp add: write_all_def)

theorem write_all_prefix_witness:
  "\<exists>p'. write_all 0 [1, 2, 3] (new_packetizer [] [Sent 2, Send_timeout, Sent 5] 0 :: (unit, unit, unit) packetizer) = (Inr (), p') \<and>
     wire p' = [1, 2, 3]"
proof -
  let ?p = "new_packetizer [] [Sent 2, Send_timeout, Sent 5] 0 :: (unit, unit, unit) packetizer"
  have "fst (write_all 0 [1, 2, 3] ?p) = Inr ()" by (simp add: write_all_def new_packetizer_def)
  with write_all_prefix [where now = 0 and out = "[1, 2, 3]" and p = ?p] show ?thesis
    by (cases "write_all 0 [1, 2, 3] ?p") (auto simp: new_packetizer_def)
qed

end
