(* ===== verification/Buffered_Pipe.thy ===== *)
theory Buffered_Pipe
  imports Complex_Main Balii_Prelude
begin

text \<open>
  \<^verbatim>\<open>paramiko/buffered_pipe.py\<close>: the byte buffer between the transport thread, which feeds it, and the
  readers of a channel. Every method runs under the pipe's lock, so a method is one step; only \<^verbatim>\<open>read\<close>
  gives the lock up, while it waits, and there the steps other threads take in the meantime are an
  explicit argument. The attached event is \<open>None\<close> when there is none, else whether it is set.

  The locale \<open>byte_queue\<close> is the contract the clients of such a buffer rely on; the channel's two
  buffers are used through it.
\<close>

section \<open>The contract of a byte queue\<close>

datatype queue_op = QFeed bytes | QTake nat | QEmpty | QClose

locale byte_queue =
  fixes contents :: "'q \<Rightarrow> bytes" and is_closed :: "'q \<Rightarrow> bool"
    and feed :: "bytes \<Rightarrow> 'q \<Rightarrow> 'q" and take_out :: "nat \<Rightarrow> 'q \<Rightarrow> bytes \<times> 'q"
    and empty_out :: "'q \<Rightarrow> bytes \<times> 'q" and shut :: "'q \<Rightarrow> 'q"
  assumes contents_feed: "contents (feed b q) = contents q @ b"
    and closed_feed: "is_closed (feed b q) = is_closed q"
    and fst_take: "fst (take_out n q) = take n (contents q)"
    and contents_take: "contents (snd (take_out n q)) = drop n (contents q)"
    and closed_take: "is_closed (snd (take_out n q)) = is_closed q"
    and fst_empty: "fst (empty_out q) = contents q"
    and contents_empty: "contents (snd (empty_out q)) = []"
    and closed_empty: "is_closed (snd (empty_out q)) = is_closed q"
    and contents_shut: "contents (shut q) = contents q"
    and closed_shut: "is_closed (shut q)"
begin

text \<open>One operation: the bytes that came out, and the new queue.\<close>

definition apply_op :: "queue_op \<Rightarrow> 'q \<Rightarrow> bytes \<times> 'q" where
  "apply_op x q = (case x of QFeed b \<Rightarrow> ([], feed b q) | QTake n \<Rightarrow> take_out n q | QEmpty \<Rightarrow> empty_out q
                   | QClose \<Rightarrow> ([], shut q))"

primrec run_ops :: "queue_op list \<Rightarrow> 'q \<Rightarrow> bytes \<times> 'q" where
  "run_ops [] q = ([], q)"
| "run_ops (x # xs) q = (case apply_op x q of (b, q') \<Rightarrow> case run_ops xs q' of (c, q'') \<Rightarrow> (b @ c, q''))"

definition fed :: "queue_op list \<Rightarrow> bytes" where
  "fed xs = concat (map (\<lambda>x. case x of QFeed b \<Rightarrow> b | _ \<Rightarrow> []) xs)"

lemma apply_op_fifo:
  "fst (apply_op x q) @ contents (snd (apply_op x q)) = contents q @ (case x of QFeed b \<Rightarrow> b | _ \<Rightarrow> [])"
  by (cases x) (simp_all add: apply_op_def contents_feed fst_take contents_take fst_empty contents_empty contents_shut)

lemma apply_op_closed: "is_closed q \<Longrightarrow> is_closed (snd (apply_op x q))"
  by (cases x) (simp_all add: apply_op_def closed_feed closed_take closed_empty closed_shut)

lemma run_ops_fifo: "fst (run_ops xs q) @ contents (snd (run_ops xs q)) = contents q @ fed xs"
proof (induction xs arbitrary: q)
  case (Cons x xs)
  obtain b q1 where x: "apply_op x q = (b, q1)" by fastforce
  obtain c q2 where xs: "run_ops xs q1 = (c, q2)" by fastforce
  have "b @ contents q1 = contents q @ (case x of QFeed b \<Rightarrow> b | _ \<Rightarrow> [])" using apply_op_fifo [of x q] x by simp
  moreover have "c @ contents q2 = contents q1 @ fed xs" using Cons.IH [of q1] xs by simp
  ultimately show ?case using x xs by (simp add: fed_def)
qed (simp add: fed_def)

lemma run_ops_closed: "is_closed q \<Longrightarrow> is_closed (snd (run_ops xs q))"
proof (induction xs arbitrary: q)
  case (Cons x xs)
  obtain b q1 where x: "apply_op x q = (b, q1)" by fastforce
  have "is_closed q1" using apply_op_closed [OF Cons.prems, of x] x by simp
  from Cons.IH [OF this] x show ?case by (cases "run_ops xs q1") simp
qed simp

end

section \<open>The pipe\<close>

record pipe =
  pbuffer :: bytes
  pclosed :: bool
  pevent :: "bool option"

definition new_pipe :: pipe where
  "new_pipe = \<lparr>pbuffer = [], pclosed = False, pevent = None\<rparr>"

text \<open>\<^verbatim>\<open>event.set()\<close> and \<^verbatim>\<open>event.clear()\<close> when an event is attached.\<close>

definition put_event :: "bool \<Rightarrow> pipe \<Rightarrow> pipe" where
  "put_event e p = (case pevent p of None \<Rightarrow> p | Some _ \<Rightarrow> p\<lparr>pevent := Some e\<rparr>)"

definition set_event :: "pipe \<Rightarrow> pipe" where
  "set_event p = p\<lparr>pevent := Some (pclosed p \<or> length (pbuffer p) > 0)\<rparr>"

definition pipe_feed :: "bytes \<Rightarrow> pipe \<Rightarrow> pipe" where
  "pipe_feed data p = (put_event True p)\<lparr>pbuffer := pbuffer p @ data\<rparr>"

definition read_ready :: "pipe \<Rightarrow> bool" where
  "read_ready p = (if length (pbuffer p) = 0 then False else True)"

text \<open>The end of \<^verbatim>\<open>read\<close>, once something is in the buffer or the pipe is closed.\<close>

definition pipe_take :: "nat \<Rightarrow> pipe \<Rightarrow> bytes \<times> pipe" where
  "pipe_take nbytes p =
     (if length (pbuffer p) \<le> nbytes
      then (pbuffer p, (if \<not> pclosed p then put_event False p else p)\<lparr>pbuffer := []\<rparr>)
      else (take nbytes (pbuffer p), p\<lparr>pbuffer := drop nbytes (pbuffer p)\<rparr>))"

definition pipe_empty :: "pipe \<Rightarrow> bytes \<times> pipe" where
  "pipe_empty p = (pbuffer p, (if \<not> pclosed p then put_event False p else p)\<lparr>pbuffer := []\<rparr>)"

definition pipe_close :: "pipe \<Rightarrow> pipe" where
  "pipe_close p = put_event True (p\<lparr>pclosed := True\<rparr>)"

definition pipe_len :: "pipe \<Rightarrow> nat" where
  "pipe_len p = length (pbuffer p)"

text \<open>\<^verbatim>\<open>read\<close>: a wake-up from \<^verbatim>\<open>wait\<close> is the time that has passed and the steps of the other threads meanwhile.
  \<open>None\<close> means that the reader is still waiting when the wake-ups are used up.\<close>

type_synonym wake = "rat \<times> (pipe \<Rightarrow> pipe)"

fun pipe_wait :: "nat \<Rightarrow> rat option \<Rightarrow> wake list \<Rightarrow> pipe \<Rightarrow> (bytes res \<times> pipe) option" where
  "pipe_wait nbytes timeout wakes p =
     (if length (pbuffer p) = 0 \<and> \<not> pclosed p then
        (case wakes of
           [] \<Rightarrow> None
         | (passed, others) # ws \<Rightarrow>
             (case timeout of
                None \<Rightarrow> pipe_wait nbytes None ws (others p)
              | Some t \<Rightarrow> if t - passed \<le> 0 then Some (Inl PipeTimeout, others p)
                          else pipe_wait nbytes (Some (t - passed)) ws (others p)))
      else (case pipe_take nbytes p of (out, p') \<Rightarrow> Some (Inr out, p')))"

declare pipe_wait.simps [simp del]

definition pipe_read :: "nat \<Rightarrow> rat option \<Rightarrow> wake list \<Rightarrow> pipe \<Rightarrow> (bytes res \<times> pipe) option" where
  "pipe_read nbytes timeout wakes p =
     (if length (pbuffer p) = 0 \<and> pclosed p then Some (Inr [], p)
      else if length (pbuffer p) = 0 \<and> timeout = Some 0 then Some (Inl PipeTimeout, p)
      else pipe_wait nbytes timeout wakes p)"

section \<open>The pipe keeps the contract\<close>

lemma put_event_simps [simp]:
  "pbuffer (put_event e p) = pbuffer p" "pclosed (put_event e p) = pclosed p"
  "pevent (put_event e p) = (if pevent p = None then None else Some e)"
  by (auto simp: put_event_def split: option.split)

interpretation bp: byte_queue pbuffer pclosed pipe_feed pipe_take pipe_empty pipe_close
  by unfold_locales (simp_all add: pipe_feed_def pipe_take_def pipe_empty_def pipe_close_def)

section \<open>The event\<close>

text \<open>An attached event is set whenever a reader would find something; it is clear when there is nothing to
  find, as long as no empty string was fed.\<close>

definition event_live :: "pipe \<Rightarrow> bool" where
  "event_live p \<longleftrightarrow> pevent p \<noteq> None \<longrightarrow> pclosed p \<or> pbuffer p \<noteq> [] \<longrightarrow> pevent p = Some True"

definition event_exact :: "pipe \<Rightarrow> bool" where
  "event_exact p \<longleftrightarrow> pevent p \<noteq> None \<longrightarrow> pevent p = Some (pclosed p \<or> pbuffer p \<noteq> [])"

lemmas event_defs = event_live_def event_exact_def pipe_feed_def pipe_take_def pipe_empty_def pipe_close_def
  set_event_def bp.apply_op_def

lemma set_event_exact: "event_exact (set_event p)" "event_live (set_event p)"
  by (auto simp: event_defs)

lemma apply_op_live: "event_live p \<Longrightarrow> event_live (snd (bp.apply_op x p))"
  by (cases x) (auto simp: event_defs split: if_splits)

lemma apply_op_exact: "event_exact p \<Longrightarrow> x \<noteq> QFeed [] \<Longrightarrow> event_exact (snd (bp.apply_op x p))"
  by (cases x) (auto simp: event_defs split: if_splits)

lemma run_ops_events:
  "event_live p \<Longrightarrow> event_live (snd (bp.run_ops xs p))"
  "event_exact p \<Longrightarrow> QFeed [] \<notin> set xs \<Longrightarrow> event_exact (snd (bp.run_ops xs p))"
proof (induction xs arbitrary: p)
  case (Cons x xs)
  { case 1
    then show ?case using Cons.IH(1) [of "snd (bp.apply_op x p)"] apply_op_live [of p x]
      by (auto split: prod.splits)
  next
    case 2
    then show ?case using Cons.IH(2) [of "snd (bp.apply_op x p)"] apply_op_exact [of p x]
      by (auto split: prod.splits) }
qed auto

section \<open>Reading\<close>

lemma pipe_wait_result:
  "pipe_wait n t ws p = Some (Inr b, p') \<Longrightarrow> n > 0 \<Longrightarrow> b = [] \<Longrightarrow> pclosed p' \<and> pbuffer p' = []"
proof (induction n t ws p rule: pipe_wait.induct)
  case (1 n t ws p)
  show ?case
  proof (cases "length (pbuffer p) = 0 \<and> \<not> pclosed p")
    case True
    with 1 show ?thesis by (subst (asm) (3) pipe_wait.simps) (auto split: list.splits option.splits if_splits)
  next
    case False
    with "1.prems" show ?thesis by (subst (asm) pipe_wait.simps) (auto simp: pipe_take_def split: if_splits)
  qed
qed

lemma pipe_read_ready: "pbuffer p \<noteq> [] \<Longrightarrow> pipe_read n t ws p = Some (Inr (take n (pbuffer p)), snd (pipe_take n p))"
  by (simp add: pipe_read_def pipe_wait.simps pipe_take_def)

section \<open>Properties\<close>

text \<open>C35. The pipe is a first-in first-out queue: in any interleaving of feeds, reads, drains and closes,
  the bytes handed out followed by the bytes still buffered are the bytes fed, in order, nothing lost and
  nothing twice; and a closed pipe stays closed.\<close>

theorem pipe_fifo:
  "fst (bp.run_ops xs new_pipe) @ pbuffer (snd (bp.run_ops xs new_pipe)) = bp.fed xs \<and>
   pclosed (snd (bp.run_ops (QClose # xs) p))"
  using bp.run_ops_fifo [of xs new_pipe] bp.run_ops_closed [of "pipe_close p" xs]
  by (simp add: new_pipe_def bp.apply_op_def bp.closed_shut split: prod.split)

text \<open>The attached event: after any interleaving it is set whenever the pipe is closed or holds data,
  so a waiting selector is never left asleep, and when no empty string is fed it is set only then.\<close>

theorem pipe_event_invariant:
  "event_live (snd (bp.run_ops xs (set_event p))) \<and>
   (QFeed [] \<notin> set xs \<longrightarrow> event_exact (snd (bp.run_ops xs (set_event p))))"
  using run_ops_events set_event_exact by blast

theorem pipe_event_invariant_witness:
  "event_exact (snd (bp.run_ops [QFeed [1, 2], QTake 1, QTake 5, QClose, QEmpty] (set_event new_pipe)))"
  using pipe_event_invariant [of "[QFeed [1, 2], QTake 1, QTake 5, QClose, QEmpty]" new_pipe] by simp

text \<open>Feeding an empty string sets the event of an empty open pipe.\<close>

lemma empty_feed_sets_event:
  "pevent (pipe_feed [] (set_event new_pipe)) = Some True \<and> \<not> read_ready (pipe_feed [] (set_event new_pipe))"
  by (simp add: event_defs new_pipe_def read_ready_def)

text \<open>Reading: data that is there is returned at once, as much of it as asked for; a non-empty read that
  returns nothing has found the pipe closed and drained; and a read of a closed pipe never waits.\<close>

theorem pipe_read_semantics:
  "(pbuffer p \<noteq> [] \<longrightarrow> pipe_read n t ws p = Some (Inr (take n (pbuffer p)), snd (pipe_take n p))) \<and>
   (pclosed p \<longrightarrow> (\<exists>b p'. pipe_read n t ws p = Some (Inr b, p'))) \<and>
   (0 < n \<longrightarrow> (\<forall>p'. pipe_read n t ws p = Some (Inr [], p') \<longrightarrow> pclosed p' \<and> pbuffer p' = []))"
proof (intro conjI impI allI)
  show "\<exists>b p'. pipe_read n t ws p = Some (Inr b, p')" if "pclosed p"
    using that by (auto simp: pipe_read_def pipe_wait.simps pipe_take_def)
  fix p' assume n: "0 < n" and r: "pipe_read n t ws p = Some (Inr [], p')"
  have "pclosed p' \<and> pbuffer p' = []"
    using r n pipe_wait_result [of n t ws p "[]" p'] by (auto simp: pipe_read_def split: if_splits)
  then show "pclosed p'" "pbuffer p' = []" by simp_all
qed (rule pipe_read_ready)

theorem pipe_read_semantics_witness:
  "pipe_read 2 (Some 1) [] (pipe_feed [1, 2, 3] new_pipe) = Some (Inr [1, 2], \<lparr>pbuffer = [3], pclosed = False, pevent = None\<rparr>)"
  using pipe_read_semantics [of "pipe_feed [1, 2, 3] new_pipe" 2 "Some 1" "[]"]
  by (simp add: pipe_feed_def pipe_take_def new_pipe_def put_event_def)

end
