(* ===== verification/Ssh_Channel.thy ===== *)
theory Ssh_Channel
  imports Ssh_Common Ssh_Message Buffered_Pipe
begin

text \<open>
  \<^verbatim>\<open>paramiko/channel.py\<close>: one channel of an SSH connection. What the methods hand to
  \<^verbatim>\<open>transport._send_user_message\<close> is collected in \<open>outbox\<close>. Methods that wait take the steps other
  threads make in the meantime as an argument: for a condition with a time-out a list of wake-ups (the time
  passed and the steps), for an event a list of steps. A wait that is not over when they are used up is
  \<open>Blocked\<close>. The select pipe of \<^verbatim>\<open>fileno\<close> and the log are left out.
\<close>

section \<open>The channel\<close>

record channel =
  chanid :: int
  remote_chanid :: int
  ch_active :: bool
  eof_received :: bool
  eof_sent :: bool
  in_buffer :: pipe
  in_stderr_buffer :: pipe
  ch_timeout :: "rat option"
  ch_closed :: bool
  in_window_size :: int
  out_window_size :: int
  in_max_packet_size :: int
  out_max_packet_size :: int
  in_window_threshold :: int
  in_window_sofar :: int
  status_event :: bool
  ch_event :: bool
  event_ready :: bool
  combine_stderr :: bool
  exit_status :: int
  outbox :: "bytes list"
  linked :: bool
  saved_exception :: "pyexc option"
  x11_handler_set :: bool
  agent_handler_set :: bool

definition new_channel :: "int \<Rightarrow> channel" where
  "new_channel cid =
     \<lparr>chanid = cid, remote_chanid = 0, ch_active = False, eof_received = False, eof_sent = False,
      in_buffer = new_pipe, in_stderr_buffer = new_pipe, ch_timeout = None, ch_closed = False,
      in_window_size = 0, out_window_size = 0, in_max_packet_size = 0, out_max_packet_size = 0,
      in_window_threshold = 0, in_window_sofar = 0, status_event = False, ch_event = False,
      event_ready = False, combine_stderr = False, exit_status = - 1, outbox = [], linked = True,
      saved_exception = None, x11_handler_set = False, agent_handler_set = False\<rparr>"

type_synonym chan_step = "channel \<Rightarrow> channel"
type_synonym chan_wake = "rat \<times> chan_step"

section \<open>Messages\<close>

text \<open>\<^verbatim>\<open>m = Message(); m.add_byte(...); m.add_int(...); ...\<close>: the bytes of a message built from fields.\<close>

definition built :: "field list \<Rightarrow> bytes res" where
  "built fs = (case put_fields fs (new_message None) of (Inl e, m) \<Rightarrow> Inl e | (Inr _, m) \<Rightarrow> Inr (asbytes m))"

definition send_user :: "bytes \<Rightarrow> channel \<Rightarrow> channel" where
  "send_user b c = c\<lparr>outbox := outbox c @ [b]\<rparr>"

definition send_fields :: "field list \<Rightarrow> (channel, unit) sm" where
  "send_fields fs = bindS (liftR (built fs)) (\<lambda>b. modS (send_user b))"

text \<open>\<^verbatim>\<open>for m in msgs: if m is not None: self.transport._send_user_message(m)\<close>\<close>

fun send_all_user :: "bytes option list \<Rightarrow> channel \<Rightarrow> channel" where
  "send_all_user [] c = c"
| "send_all_user (None # ms) c = send_all_user ms c"
| "send_all_user (Some b # ms) c = send_all_user ms (send_user b c)"

section \<open>Window sizes\<close>

definition sanitize_window_size :: "int \<Rightarrow> int option \<Rightarrow> int" where
  "sanitize_window_size default_window_size window_size =
     clamp_value MIN_WINDOW_SIZE (case window_size of None \<Rightarrow> default_window_size | Some w \<Rightarrow> w) MAX_WINDOW_SIZE"

definition sanitize_packet_size :: "int \<Rightarrow> int option \<Rightarrow> int" where
  "sanitize_packet_size default_max_packet_size max_packet_size =
     clamp_value MIN_PACKET_SIZE (case max_packet_size of None \<Rightarrow> default_max_packet_size | Some w \<Rightarrow> w) MAX_WINDOW_SIZE"

definition set_window :: "int \<Rightarrow> int \<Rightarrow> channel \<Rightarrow> channel" where
  "set_window window_size max_packet_size c =
     c\<lparr>in_window_size := window_size, in_max_packet_size := max_packet_size,
       in_window_threshold := window_size div 10, in_window_sofar := 0\<rparr>"

definition set_remote_channel :: "int \<Rightarrow> int \<Rightarrow> int \<Rightarrow> channel \<Rightarrow> channel" where
  "set_remote_channel cid window_size max_packet_size c =
     c\<lparr>remote_chanid := cid, out_window_size := window_size,
       out_max_packet_size := sanitize_packet_size DEFAULT_MAX_PACKET_SIZE (Some max_packet_size), ch_active := True\<rparr>"

section \<open>Closing\<close>

definition set_closed :: "channel \<Rightarrow> channel" where
  "set_closed c =
     c\<lparr>ch_closed := True, in_buffer := pipe_close (in_buffer c), in_stderr_buffer := pipe_close (in_stderr_buffer c),
       ch_event := True, status_event := True\<rparr>"

text \<open>\<^verbatim>\<open>_send_eof\<close> and \<^verbatim>\<open>_close_internal\<close> return the messages to send once the lock is released.\<close>

definition send_eof :: "(channel, bytes option) sm" where
  "send_eof = (\<lambda>c.
     if eof_sent c then (Inr None, c)
     else bindS (liftR (built [FByte MSG_CHANNEL_EOF, FInt (remote_chanid c)]))
            (\<lambda>b c. (Inr (Some b), c\<lparr>eof_sent := True\<rparr>)) c)"

definition close_internal :: "(channel, bytes option list) sm" where
  "close_internal = (\<lambda>c.
     if \<not> ch_active c \<or> ch_closed c then (Inr [None, None], c)
     else bindS send_eof (\<lambda>m1.
            bindS (liftR (built [FByte MSG_CHANNEL_CLOSE, FInt (remote_chanid c)])) (\<lambda>m2.
            bindS (modS set_closed) (\<lambda>_. retS [m1, Some m2]))) c)"

definition ch_close :: "(channel, unit) sm" where
  "ch_close = (\<lambda>c.
     if \<not> ch_active c \<or> ch_closed c then (Inr (), c)
     else bindS close_internal (\<lambda>ms. modS (send_all_user ms)) c)"

definition request_failed :: "(channel, unit) sm" where
  "request_failed = bindS close_internal (\<lambda>ms. modS (send_all_user ms))"

definition handle_close :: "(channel, unit) sm" where
  "handle_close =
     bindS close_internal (\<lambda>ms. bindS (modS (\<lambda>c. c\<lparr>linked := False\<rparr>)) (\<lambda>_. modS (send_all_user ms)))"

definition ch_unlink :: "channel \<Rightarrow> channel" where
  "ch_unlink c = (if ch_closed c then c else (set_closed c)\<lparr>linked := False\<rparr>)"

definition handle_eof :: "channel \<Rightarrow> channel" where
  "handle_eof c =
     (if \<not> eof_received c
      then c\<lparr>eof_received := True, in_buffer := pipe_close (in_buffer c), in_stderr_buffer := pipe_close (in_stderr_buffer c)\<rparr>
      else c)"

definition shutdown :: "int \<Rightarrow> (channel, unit) sm" where
  "shutdown how =
     bindS (modS (\<lambda>c. if how = 0 \<or> how = 2 then c\<lparr>eof_received := True\<rparr> else c)) (\<lambda>_.
       if how = 1 \<or> how = 2 then bindS send_eof (\<lambda>m. modS (send_all_user [m])) else retS ())"

definition shutdown_read :: "(channel, unit) sm" where "shutdown_read = shutdown 0"
definition shutdown_write :: "(channel, unit) sm" where "shutdown_write = shutdown 1"

section \<open>Requests\<close>

definition open_only :: "(channel, 'a) sm \<Rightarrow> (channel, 'a) sm" where
  "open_only f = (\<lambda>c.
     if ch_closed c \<or> eof_received c \<or> eof_sent c \<or> \<not> ch_active c
     then (Inl (SSHException ''Channel is not open''), c) else f c)"

definition event_pending :: "channel \<Rightarrow> channel" where
  "event_pending c = c\<lparr>ch_event := False, event_ready := False\<rparr>"

fun wait_for_event :: "chan_step list \<Rightarrow> (channel, unit) sm" where
  "wait_for_event others c =
     (if ch_event c then
        (if event_ready c then (Inr (), c)
         else (Inl (case saved_exception c of None \<Rightarrow> SSHException ''Channel closed.'' | Some e \<Rightarrow> e),
               c\<lparr>saved_exception := None\<rparr>))
      else (case others of [] \<Rightarrow> (Inl Blocked, c) | f # fs \<Rightarrow> wait_for_event fs (f c)))"

declare wait_for_event.simps [simp del]

definition request_head :: "string \<Rightarrow> bool \<Rightarrow> channel \<Rightarrow> field list" where
  "request_head key want_reply c =
     [FByte MSG_CHANNEL_REQUEST, FInt (remote_chanid c), FText (lit key), FBool want_reply]"

text \<open>The two forms of a request: one that waits for the reply, one that does not.\<close>

definition ask_begin :: "string \<Rightarrow> field list \<Rightarrow> (channel, unit) sm" where
  "ask_begin key fs = (\<lambda>c.
     bindS (liftR (built (request_head key True c @ fs))) (\<lambda>b.
     bindS (modS event_pending) (\<lambda>_. modS (send_user b))) c)"

definition ask :: "string \<Rightarrow> field list \<Rightarrow> chan_step list \<Rightarrow> (channel, unit) sm" where
  "ask key fs others = bindS (ask_begin key fs) (\<lambda>_. wait_for_event others)"

definition tell :: "string \<Rightarrow> field list \<Rightarrow> (channel, unit) sm" where
  "tell key fs = (\<lambda>c. send_fields (request_head key False c @ fs) c)"

definition get_pty :: "ustr \<Rightarrow> int \<Rightarrow> int \<Rightarrow> int \<Rightarrow> int \<Rightarrow> chan_step list \<Rightarrow> (channel, unit) sm" where
  "get_pty term width height width_pixels height_pixels others =
     open_only (ask ''pty-req''
       [FText term, FInt width, FInt height, FInt width_pixels, FInt height_pixels, FString []] others)"

definition invoke_shell :: "chan_step list \<Rightarrow> (channel, unit) sm" where
  "invoke_shell others = open_only (ask ''shell'' [] others)"

definition exec_command :: "ustr \<Rightarrow> chan_step list \<Rightarrow> (channel, unit) sm" where
  "exec_command command others = open_only (ask ''exec'' [FText command] others)"

definition invoke_subsystem :: "ustr \<Rightarrow> chan_step list \<Rightarrow> (channel, unit) sm" where
  "invoke_subsystem subsystem others = open_only (ask ''subsystem'' [FText subsystem] others)"

definition resize_pty :: "int \<Rightarrow> int \<Rightarrow> int \<Rightarrow> int \<Rightarrow> (channel, unit) sm" where
  "resize_pty width height width_pixels height_pixels =
     open_only (tell ''window-change'' [FInt width, FInt height, FInt width_pixels, FInt height_pixels])"

definition set_environment_variable :: "ustr \<Rightarrow> ustr \<Rightarrow> (channel, unit) sm" where
  "set_environment_variable name value = open_only (tell ''env'' [FText name, FText value])"

text \<open>The loop of \<^verbatim>\<open>update_environment\<close>; the name that the new exception also carries is left out.\<close>

fun update_env_loop :: "(ustr \<times> ustr) list \<Rightarrow> (channel, unit) sm" where
  "update_env_loop [] c = (Inr (), c)"
| "update_env_loop ((name, value) # env) c =
     (case set_environment_variable name value c of
        (Inr _, c') \<Rightarrow> update_env_loop env c'
      | (Inl (SSHException _), c') \<Rightarrow> (Inl (SSHException ''Failed to set environment variable''), c')
      | (Inl e, c') \<Rightarrow> (Inl e, c'))"

definition update_environment :: "(ustr \<times> ustr) list \<Rightarrow> (channel, unit) sm" where
  "update_environment env = open_only (update_env_loop env)"

definition hex_low :: "nat \<Rightarrow> byte" where
  "hex_low d = of_nat (if d < 10 then 48 + d else 87 + d)"

definition hexlify :: "bytes \<Rightarrow> bytes" where
  "hexlify bs = concat (map (\<lambda>x. [hex_low (unat x div 16), hex_low (unat x mod 16)]) bs)"

text \<open>\<open>random\<close> is what \<^verbatim>\<open>os.urandom(16)\<close> returns.\<close>

definition request_x11 ::
  "bytes \<Rightarrow> int \<Rightarrow> ustr option \<Rightarrow> bytes option \<Rightarrow> bool \<Rightarrow> chan_step list \<Rightarrow> (channel, bytes) sm" where
  "request_x11 random screen_number auth_protocol auth_cookie single_connection others =
     open_only
       (let proto = (case auth_protocol of None \<Rightarrow> lit ''MIT-MAGIC-COOKIE-1'' | Some p \<Rightarrow> p);
            cookie = (case auth_cookie of None \<Rightarrow> hexlify random | Some x \<Rightarrow> x)
        in bindS (ask ''x11-req'' [FBool single_connection, FText proto, FString cookie, FInt screen_number] others)
             (\<lambda>_. bindS (modS (\<lambda>c. c\<lparr>x11_handler_set := True\<rparr>)) (\<lambda>_. retS cookie)))"

definition request_forward_agent :: "(channel, bool) sm" where
  "request_forward_agent =
     open_only (bindS (tell ''auth-agent-req@openssh.com'' [])
       (\<lambda>_. bindS (modS (\<lambda>c. c\<lparr>agent_handler_set := True\<rparr>)) (\<lambda>_. retS True)))"

definition send_exit_status :: "int \<Rightarrow> (channel, unit) sm" where
  "send_exit_status status = tell ''exit-status'' [FInt status]"

definition exit_status_ready :: "channel \<Rightarrow> bool" where
  "exit_status_ready c \<longleftrightarrow> ch_closed c \<or> status_event c"

fun recv_exit_status :: "chan_step list \<Rightarrow> (channel, int) sm" where
  "recv_exit_status others c =
     (if status_event c then (Inr (exit_status c), c)
      else (case others of [] \<Rightarrow> (Inl Blocked, c) | f # fs \<Rightarrow> recv_exit_status fs (f c)))"

definition request_success :: "channel \<Rightarrow> channel" where
  "request_success c = c\<lparr>event_ready := True, ch_event := True\<rparr>"

section \<open>Receiving\<close>

definition feed_data :: "bytes \<Rightarrow> channel \<Rightarrow> channel" where
  "feed_data s c = c\<lparr>in_buffer := pipe_feed s (in_buffer c)\<rparr>"

definition ch_feed :: "message \<Rightarrow> (channel, unit) sm" where
  "ch_feed m = (case get_binary m of (Inl e, _) \<Rightarrow> raiseS e | (Inr s, _) \<Rightarrow> modS (feed_data s))"

definition feed_extended :: "message \<Rightarrow> (channel, unit) sm" where
  "feed_extended m =
     (case bindS get_int (\<lambda>code. bindS get_binary (\<lambda>s. retS (code, s))) m of
        (Inl e, _) \<Rightarrow> raiseS e
      | (Inr (code, s), _) \<Rightarrow>
          if code \<noteq> 1 then retS ()
          else modS (\<lambda>c. if combine_stderr c then feed_data s c
                         else c\<lparr>in_stderr_buffer := pipe_feed s (in_stderr_buffer c)\<rparr>))"

definition window_adjust :: "message \<Rightarrow> (channel, unit) sm" where
  "window_adjust m =
     (case get_int m of
        (Inl e, _) \<Rightarrow> raiseS e
      | (Inr nbytes, _) \<Rightarrow> modS (\<lambda>c. c\<lparr>out_window_size := out_window_size c + nbytes\<rparr>))"

text \<open>The two halves of \<^verbatim>\<open>set_combine_stderr\<close>, under the lock and after it.\<close>

definition combine_locked :: "bool \<Rightarrow> channel \<Rightarrow> (bool \<times> bytes) \<times> channel" where
  "combine_locked combine c =
     (let old = combine_stderr c; c1 = c\<lparr>combine_stderr := combine\<rparr>
      in if combine \<and> \<not> old
         then (case pipe_empty (in_stderr_buffer c1) of (data, p) \<Rightarrow> ((old, data), c1\<lparr>in_stderr_buffer := p\<rparr>))
         else ((old, []), c1))"

definition set_combine_stderr :: "bool \<Rightarrow> chan_step \<Rightarrow> channel \<Rightarrow> bool \<times> channel" where
  "set_combine_stderr combine others c =
     (case combine_locked combine c of
        ((old, data), c1) \<Rightarrow> (old, if length data > 0 then feed_data data (others c1) else others c1))"

definition check_add_window :: "nat \<Rightarrow> channel \<Rightarrow> int \<times> channel" where
  "check_add_window n c =
     (if ch_closed c \<or> eof_received c \<or> \<not> ch_active c then (0, c)
      else
        (let sofar = in_window_sofar c + int n
         in if sofar \<le> in_window_threshold c then (0, c\<lparr>in_window_sofar := sofar\<rparr>)
            else (sofar, c\<lparr>in_window_sofar := 0\<rparr>)))"

definition adjust_fields :: "int \<Rightarrow> channel \<Rightarrow> field list" where
  "adjust_fields ack c = [FByte MSG_CHANNEL_WINDOW_ADJUST, FInt (remote_chanid c), FInt ack]"

text \<open>\<^verbatim>\<open>recv\<close> and \<^verbatim>\<open>recv_stderr\<close>: \<open>wakes\<close> are the steps on the buffer while the reader waits, \<open>others\<close> what
  happens to the rest of the channel meanwhile and until the window is counted.\<close>

definition send_ack :: "int \<Rightarrow> (channel, unit) sm" where
  "send_ack ack = (\<lambda>c. if ack > 0 then send_fields (adjust_fields ack c) c else (Inr (), c))"

definition count_read :: "bytes res \<Rightarrow> (channel, bytes) sm" where
  "count_read r = (\<lambda>c.
     case r of
       Inl PipeTimeout \<Rightarrow> (Inl SocketTimeout, c)
     | Inl e \<Rightarrow> (Inl e, c)
     | Inr out \<Rightarrow>
         (case check_add_window (length out) c of
            (ack, c') \<Rightarrow> bindS (send_ack ack) (\<lambda>_. retS out) c'))"

definition recv :: "nat \<Rightarrow> wake list \<Rightarrow> chan_step \<Rightarrow> (channel, bytes) sm" where
  "recv nbytes wakes others = (\<lambda>c.
     case pipe_read nbytes (ch_timeout c) wakes (in_buffer c) of
       None \<Rightarrow> (Inl Blocked, c)
     | Some (r, p) \<Rightarrow> count_read r (others (c\<lparr>in_buffer := p\<rparr>)))"

definition recv_stderr :: "nat \<Rightarrow> wake list \<Rightarrow> chan_step \<Rightarrow> (channel, bytes) sm" where
  "recv_stderr nbytes wakes others = (\<lambda>c.
     case pipe_read nbytes (ch_timeout c) wakes (in_stderr_buffer c) of
       None \<Rightarrow> (Inl Blocked, c)
     | Some (r, p) \<Rightarrow> count_read r (others (c\<lparr>in_stderr_buffer := p\<rparr>)))"

definition recv_ready :: "channel \<Rightarrow> bool" where
  "recv_ready c = read_ready (in_buffer c)"

definition recv_stderr_ready :: "channel \<Rightarrow> bool" where
  "recv_stderr_ready c = read_ready (in_stderr_buffer c)"

definition settimeout :: "rat option \<Rightarrow> channel \<Rightarrow> channel" where
  "settimeout t c = c\<lparr>ch_timeout := t\<rparr>"

definition setblocking :: "bool \<Rightarrow> channel \<Rightarrow> channel" where
  "setblocking blocking c = (if blocking then settimeout None c else settimeout (Some 0) c)"

section \<open>Sending\<close>

definition send_ready :: "channel \<Rightarrow> bool" where
  "send_ready c = (if ch_closed c \<or> eof_sent c then True else out_window_size c > 0)"

text \<open>The waiting loop: true once the window has opened, false when the stream is closed.\<close>

fun window_wait :: "rat option \<Rightarrow> chan_wake list \<Rightarrow> (channel, bool) sm" where
  "window_wait timeout wakes c =
     (if out_window_size c = 0 then
        (if ch_closed c \<or> eof_sent c then (Inr False, c)
         else (case wakes of
                 [] \<Rightarrow> (Inl Blocked, c)
               | (passed, others) # ws \<Rightarrow>
                   (case timeout of
                      None \<Rightarrow> window_wait None ws (others c)
                    | Some t \<Rightarrow> if t - passed \<le> 0 then (Inl SocketTimeout, others c)
                                else window_wait (Some (t - passed)) ws (others c))))
      else (Inr True, c))"

declare window_wait.simps [simp del]

definition take_window :: "int \<Rightarrow> (channel, int) sm" where
  "take_window nsize = (\<lambda>c.
     if ch_closed c \<or> eof_sent c then (Inr 0, c)
     else
       (let size1 = (if out_window_size c < nsize then out_window_size c else nsize);
            size2 = (if out_max_packet_size c - 64 < size1 then out_max_packet_size c - 64 else size1)
        in (Inr size2, c\<lparr>out_window_size := out_window_size c - size2\<rparr>)))"

definition wait_for_send_window :: "int \<Rightarrow> chan_wake list \<Rightarrow> (channel, int) sm" where
  "wait_for_send_window nsize wakes = (\<lambda>c.
     if ch_closed c \<or> eof_sent c then (Inr 0, c)
     else if out_window_size c = 0 \<and> ch_timeout c = Some 0 then (Inl SocketTimeout, c)
     else bindS (window_wait (ch_timeout c) wakes) (\<lambda>ok. if ok then take_window nsize else retS 0) c)"

text \<open>\<^verbatim>\<open>_send\<close>: under the lock a part of the window is taken and the message is built; it is handed over
  after the lock has been released.\<close>

definition send_locked :: "bytes \<Rightarrow> field list \<Rightarrow> chan_wake list \<Rightarrow> (channel, int \<times> bytes option) sm" where
  "send_locked s hdr wakes = (\<lambda>c.
     if ch_closed c then (Inl SocketError, c)
     else bindS (wait_for_send_window (int (length s)) wakes) (\<lambda>nsize.
            if nsize = 0 then retS (0, None)
            else bindS (liftR (built (hdr @ [FString (py_slice s 0 nsize)]))) (\<lambda>b. retS (nsize, Some b))) c)"

definition ch_send_with :: "bytes \<Rightarrow> field list \<Rightarrow> chan_wake list \<Rightarrow> chan_step \<Rightarrow> (channel, int) sm" where
  "ch_send_with s hdr wakes others =
     bindS (liftR (built hdr)) (\<lambda>_.
     bindS (send_locked s hdr wakes) (\<lambda>(nsize, m).
     bindS (modS others) (\<lambda>_.
     bindS (modS (send_all_user [m])) (\<lambda>_. retS nsize))))"

definition data_head :: "channel \<Rightarrow> field list" where
  "data_head c = [FByte MSG_CHANNEL_DATA, FInt (remote_chanid c)]"

definition stderr_head :: "channel \<Rightarrow> field list" where
  "stderr_head c = [FByte MSG_CHANNEL_EXTENDED_DATA, FInt (remote_chanid c), FInt 1]"

definition ch_send :: "bytes \<Rightarrow> chan_wake list \<Rightarrow> chan_step \<Rightarrow> (channel, int) sm" where
  "ch_send s wakes others = (\<lambda>c. ch_send_with s (data_head c) wakes others c)"

definition send_stderr :: "bytes \<Rightarrow> chan_wake list \<Rightarrow> chan_step \<Rightarrow> (channel, int) sm" where
  "send_stderr s wakes others = (\<lambda>c. ch_send_with s (stderr_head c) wakes others c)"

text \<open>\<^verbatim>\<open>sendall\<close> may not return; the environment of its \<open>i\<close>-th call of \<^verbatim>\<open>send\<close> is \<open>env i\<close>.\<close>

partial_function (option) send_loop ::
  "(bytes \<Rightarrow> chan_wake list \<Rightarrow> chan_step \<Rightarrow> (channel, int) sm) \<Rightarrow> (nat \<Rightarrow> chan_wake list \<times> chan_step) \<Rightarrow> nat \<Rightarrow>
   bytes \<Rightarrow> channel \<Rightarrow> (unit res \<times> channel) option" where
  "send_loop snd1 env i s c =
     (if s = [] then Some (Inr (), c)
      else (case snd1 s (fst (env i)) (snd (env i)) c of
              (Inl e, c') \<Rightarrow> Some (Inl e, c')
            | (Inr sent, c') \<Rightarrow> send_loop snd1 env (Suc i) (py_slice s sent (int (length s))) c'))"

definition sendall :: "(nat \<Rightarrow> chan_wake list \<times> chan_step) \<Rightarrow> bytes \<Rightarrow> channel \<Rightarrow> (unit res \<times> channel) option" where
  "sendall env s c = send_loop ch_send env 0 s c"

definition sendall_stderr :: "(nat \<Rightarrow> chan_wake list \<times> chan_step) \<Rightarrow> bytes \<Rightarrow> channel \<Rightarrow> (unit res \<times> channel) option" where
  "sendall_stderr env s c = send_loop send_stderr env 0 s c"

section \<open>Requests of the other side\<close>

datatype ch_request = Pty bytes int int int int bytes | Shell | Env bytes bytes | Exec bytes | Subsystem ustr
  | Window_change int int int int | X11 bool ustr bytes int | Forward_agent

datatype incoming = Exit_status int | Xon_xoff | For_server ch_request | Unhandled

text \<open>The fields each request is parsed into.\<close>

definition read_request :: "ustr \<Rightarrow> (message, incoming) sm" where
  "read_request key =
     (if key = lit ''exit-status'' then bindS get_int (\<lambda>n. retS (Exit_status n))
      else if key = lit ''xon-xoff'' then retS Xon_xoff
      else if key = lit ''pty-req'' then
        bindS get_string (\<lambda>term. bindS get_int (\<lambda>width. bindS get_int (\<lambda>height. bindS get_int (\<lambda>pixelwidth.
        bindS get_int (\<lambda>pixelheight. bindS get_string (\<lambda>modes.
          retS (For_server (Pty term width height pixelwidth pixelheight modes))))))))
      else if key = lit ''shell'' then retS (For_server Shell)
      else if key = lit ''env'' then
        bindS get_string (\<lambda>name. bindS get_string (\<lambda>value. retS (For_server (Env name value))))
      else if key = lit ''exec'' then bindS get_string (\<lambda>cmd. retS (For_server (Exec cmd)))
      else if key = lit ''subsystem'' then bindS get_text (\<lambda>name. retS (For_server (Subsystem name)))
      else if key = lit ''window-change'' then
        bindS get_int (\<lambda>width. bindS get_int (\<lambda>height. bindS get_int (\<lambda>pixelwidth. bindS get_int (\<lambda>pixelheight.
          retS (For_server (Window_change width height pixelwidth pixelheight))))))
      else if key = lit ''x11-req'' then
        bindS get_boolean (\<lambda>single. bindS get_text (\<lambda>proto. bindS get_binary (\<lambda>cookie. bindS get_int (\<lambda>screen.
          retS (For_server (X11 single proto cookie screen))))))
      else if key = lit ''auth-agent-req@openssh.com'' then retS (For_server Forward_agent)
      else retS Unhandled)"

text \<open>\<open>server\<close> is the server object's answer to a request, or \<open>None\<close> on a client.\<close>

definition handle_request :: "(ch_request \<Rightarrow> bool) option \<Rightarrow> message \<Rightarrow> (channel, unit) sm" where
  "handle_request server m = (\<lambda>c.
     case bindS get_text (\<lambda>key. bindS get_boolean (\<lambda>want. bindS (read_request key) (\<lambda>r. retS (want, r)))) m of
       (Inl e, _) \<Rightarrow> (Inl e, c)
     | (Inr (want_reply, r), _) \<Rightarrow>
         (case (case r of
                  Exit_status n \<Rightarrow> (True, c\<lparr>exit_status := n, status_event := True\<rparr>)
                | Xon_xoff \<Rightarrow> (True, c)
                | For_server q \<Rightarrow> (case server of None \<Rightarrow> False | Some f \<Rightarrow> f q, c)
                | Unhandled \<Rightarrow> (False, c)) of
            (ok, c1) \<Rightarrow>
              if want_reply
              then send_fields [FByte (if ok then MSG_CHANNEL_SUCCESS else MSG_CHANNEL_FAILURE), FInt (remote_chanid c1)] c1
              else (Inr (), c1)))"

section \<open>Facts on messages and windows\<close>

lemma add_string_InrD: "add_string s m = (Inr (), m') \<Longrightarrow> at_end m \<Longrightarrow> m' = append_bytes m (enc_string s)"
  by (auto simp: add_string_def add_int_def bindS_def liftR_def modS_def enc_string_def stream_write_end
      split: sum.splits dest!: pack_be_InrD)

lemma add_int_InrD: "add_int n m = (Inr (), m') \<Longrightarrow> at_end m \<Longrightarrow> m' = append_bytes m (be_bytes 4 n) \<and> 0 \<le> n \<and> n < 2 ^ 32"
  by (auto simp: add_int_def bindS_def liftR_def modS_def stream_write_end split: sum.splits dest!: pack_be_InrD)

lemma add_text_InrD: "add_text s m = (Inr (), m') \<Longrightarrow> at_end m \<Longrightarrow> \<exists>b. m' = append_bytes m (enc_string b)"
  by (auto simp: add_text_def bindS_def liftR_def split: sum.splits dest!: add_string_InrD)

text \<open>The fields a channel writes, and the bytes of each.\<close>

fun chan_field :: "field \<Rightarrow> bool" where
  "chan_field (FByte _) = True"
| "chan_field (FBool _) = True"
| "chan_field (FInt _) = True"
| "chan_field (FString _) = True"
| "chan_field (FText _) = True"
| "chan_field _ = False"

lemma put_field_InrD:
  "put_field f m = (Inr (), m') \<Longrightarrow> at_end m \<Longrightarrow> chan_field f \<Longrightarrow> m' = append_bytes m (enc_field f)"
  by (cases f) (auto simp: enc_field_def add_byte_def add_boolean_def modS_def stream_write_end w_text.enc'_def
      add_text_def bindS_def liftR_def split: sum.splits dest: add_string_InrD add_int_InrD)

lemma put_fields_InrD:
  "put_fields fs m = (Inr (), m') \<Longrightarrow> at_end m \<Longrightarrow> list_all chan_field fs \<Longrightarrow>
     m' = append_bytes m (concat (map enc_field fs))"
proof (induction fs arbitrary: m)
  case (Cons f fs)
  then obtain m1 where "put_field f m = (Inr (), m1)" "put_fields fs m1 = (Inr (), m')"
    by (auto simp: bindS_def split: prod.splits sum.splits)
  moreover from this have "m1 = append_bytes m (enc_field f)" using Cons.prems put_field_InrD by simp
  ultimately show ?case using Cons.IH [of "append_bytes m (enc_field f)"] Cons.prems by simp
qed (simp add: retS_def)

lemma built_InrD: "built fs = Inr b \<Longrightarrow> list_all chan_field fs \<Longrightarrow> b = concat (map enc_field fs)"
  by (auto simp: built_def asbytes_def split: prod.splits sum.splits dest!: put_fields_InrD)
     (simp add: append_bytes_def new_message_def)

lemma built_ok: "list_all ok_field fs \<Longrightarrow> built fs = Inr (concat (map enc_field fs))"
  by (simp add: built_def put_fields_end [OF _ at_end_new]) (simp add: asbytes_def append_bytes_def new_message_def)

text \<open>What a message means for the flow of data: the bytes of data it carries, and the window it grants.\<close>

definition data_len :: "bytes \<Rightarrow> nat" where
  "data_len b = (if b = [] then 0 else if hd b = MSG_CHANNEL_DATA then length b - 9
                 else if hd b = MSG_CHANNEL_EXTENDED_DATA then length b - 13 else 0)"

definition grant :: "bytes \<Rightarrow> int" where
  "grant b = (if b \<noteq> [] \<and> hd b = MSG_CHANNEL_WINDOW_ADJUST then be_int (take 4 (drop 5 b)) else 0)"

definition is_msg :: "byte \<Rightarrow> bytes \<Rightarrow> bool" where
  "is_msg t b \<longleftrightarrow> b \<noteq> [] \<and> hd b = t"

lemmas flow_defs = data_len_def grant_def is_msg_def msg_defs

lemma sanitized_packet: "4096 \<le> sanitize_packet_size d w \<and> sanitize_packet_size d w \<le> 2 ^ 32 - 1"
  by (auto simp: sanitize_packet_size_def clamp_value_def MIN_PACKET_SIZE_def MAX_WINDOW_SIZE_def max_def min_def)

lemma sanitized_window: "32768 \<le> sanitize_window_size d w \<and> sanitize_window_size d w \<le> 2 ^ 32 - 1"
  by (auto simp: sanitize_window_size_def clamp_value_def MIN_WINDOW_SIZE_def MAX_WINDOW_SIZE_def max_def min_def)

lemma length_py_slice_0: "0 \<le> k \<Longrightarrow> k \<le> int (length s) \<Longrightarrow> length (py_slice s 0 k) = nat k"
  by (simp add: py_slice_zero)

text \<open>Taking a part of the window.\<close>

lemma take_window_spec:
  assumes "take_window k c = (Inr n, c')" "0 \<le> k" "0 \<le> out_window_size c" "64 < out_max_packet_size c"
  shows "0 \<le> n \<and> n \<le> k \<and> n \<le> out_window_size c \<and> n \<le> out_max_packet_size c - 64 \<and>
     c' = c\<lparr>out_window_size := out_window_size c - n\<rparr> \<and> (n \<noteq> 0 \<longrightarrow> \<not> ch_closed c \<and> \<not> eof_sent c) \<and>
     (0 < k \<longrightarrow> 0 < out_window_size c \<longrightarrow> \<not> ch_closed c \<longrightarrow> \<not> eof_sent c \<longrightarrow> 0 < n)"
proof (cases "ch_closed c \<or> eof_sent c")
  case True
  with assms show ?thesis by (auto simp: take_window_def intro!: channel.equality)
next
  case False
  with assms show ?thesis by (auto simp: take_window_def Let_def split: if_splits)
qed

section \<open>Requests are understood\<close>

text \<open>The requests a client can make, the call that makes each, and what the server is asked.\<close>

datatype call = C_pty ustr int int int int | C_shell | C_exec ustr | C_subsystem ustr | C_resize int int int int
  | C_env ustr ustr | C_x11 bool ustr bytes int | C_agent

fun issue :: "call \<Rightarrow> (channel, unit) sm" where
  "issue (C_pty t w h pw ph) = get_pty t w h pw ph []"
| "issue C_shell = invoke_shell []"
| "issue (C_exec s) = exec_command s []"
| "issue (C_subsystem s) = invoke_subsystem s []"
| "issue (C_resize w h pw ph) = resize_pty w h pw ph"
| "issue (C_env n v) = set_environment_variable n v"
| "issue (C_x11 single proto cookie screen) =
     bindS (request_x11 [] screen (Some proto) (Some cookie) single []) (\<lambda>_. retS ())"
| "issue C_agent = bindS request_forward_agent (\<lambda>_. retS ())"

fun call_key :: "call \<Rightarrow> string" where
  "call_key (C_pty t w h pw ph) = ''pty-req''"
| "call_key C_shell = ''shell''"
| "call_key (C_exec s) = ''exec''"
| "call_key (C_subsystem s) = ''subsystem''"
| "call_key (C_resize w h pw ph) = ''window-change''"
| "call_key (C_env n v) = ''env''"
| "call_key (C_x11 single proto cookie screen) = ''x11-req''"
| "call_key C_agent = ''auth-agent-req@openssh.com''"

fun call_fields :: "call \<Rightarrow> field list" where
  "call_fields (C_pty t w h pw ph) = [FText t, FInt w, FInt h, FInt pw, FInt ph, FString []]"
| "call_fields C_shell = []"
| "call_fields (C_exec s) = [FText s]"
| "call_fields (C_subsystem s) = [FText s]"
| "call_fields (C_resize w h pw ph) = [FInt w, FInt h, FInt pw, FInt ph]"
| "call_fields (C_env n v) = [FText n, FText v]"
| "call_fields (C_x11 single proto cookie screen) = [FBool single, FText proto, FString cookie, FInt screen]"
| "call_fields C_agent = []"

fun wants_reply :: "call \<Rightarrow> bool" where
  "wants_reply (C_resize _ _ _ _) = False"
| "wants_reply (C_env _ _) = False"
| "wants_reply C_agent = False"
| "wants_reply _ = True"

fun meant :: "call \<Rightarrow> ch_request" where
  "meant (C_pty t w h pw ph) = Pty (utf8_of t) w h pw ph []"
| "meant C_shell = Shell"
| "meant (C_exec s) = Exec (utf8_of s)"
| "meant (C_subsystem s) = Subsystem s"
| "meant (C_resize w h pw ph) = Window_change w h pw ph"
| "meant (C_env n v) = Env (utf8_of n) (utf8_of v)"
| "meant (C_x11 single proto cookie screen) = X11 single proto cookie screen"
| "meant C_agent = Forward_agent"

lemma read_request_meant:
  assumes "list_all ok_field (call_fields q)" "get_remainder m = concat (map enc_field (call_fields q)) @ r"
  shows "fst (read_request (lit (call_key q)) m) = Inr (For_server (meant q))"
  using assms
  by (cases q) (auto simp: read_request_def enc_text retS_def simp del: lit_simps intro!: read_steps)


lemma request_head_ok: "0 \<le> remote_chanid c \<Longrightarrow> remote_chanid c < 2 ^ 32 \<Longrightarrow> list_all ok_field (request_head (call_key q) w c)"
  by (cases q) (simp_all add: request_head_def utf8_encode_def utf8_char_def ok_string_def scalar_def)


lemma fst_bindS_retS: "fst (g m) = Inr x \<Longrightarrow> fst (bindS g (\<lambda>r. retS (f r)) m) = Inr (f x)"
  by (cases "g m") (simp add: bindS_def retS_def)

lemma parse_call:
  assumes "list_all ok_field (call_fields q)"
    "get_remainder m = enc_field (FText (lit (call_key q))) @ enc_field (FBool w) @ concat (map enc_field (call_fields q))"
    "ok_field (FText (lit (call_key q)))"
  shows "fst (bindS get_text (\<lambda>key. bindS get_boolean (\<lambda>want. bindS (read_request key) (\<lambda>r. retS (want, r)))) m) =
     Inr (w, For_server (meant q))"
proof -
  have t: "\<exists>b. utf8_encode (lit (call_key q)) = Inr b \<and> ok_string b" using assms(3) by simp
  have "get_remainder m = enc_string (utf8_of (lit (call_key q))) @ (if w then [1] else [0]) @
      concat (map enc_field (call_fields q)) @ []"
    using assms(2) enc_text [OF t] by simp
  then show ?thesis
    by (rule read_text [OF _ t])
       (rule read_boolean, assumption, rule fst_bindS_retS, rule read_request_meant [OF assms(1)])
qed

lemma handle_request_eq:
  "handle_request server m c =
     (case fst (bindS get_text (\<lambda>key. bindS get_boolean (\<lambda>want. bindS (read_request key) (\<lambda>r. retS (want, r)))) m) of
        Inl e \<Rightarrow> (Inl e, c)
      | Inr (want_reply, r) \<Rightarrow>
         (case (case r of
                  Exit_status n \<Rightarrow> (True, c\<lparr>exit_status := n, status_event := True\<rparr>)
                | Xon_xoff \<Rightarrow> (True, c)
                | For_server q \<Rightarrow> (case server of None \<Rightarrow> False | Some f \<Rightarrow> f q, c)
                | Unhandled \<Rightarrow> (False, c)) of
            (ok, c1) \<Rightarrow>
              if want_reply
              then send_fields [FByte (if ok then MSG_CHANNEL_SUCCESS else MSG_CHANNEL_FAILURE), FInt (remote_chanid c1)] c1
              else (Inr (), c1)))"
  by (simp add: handle_request_def split: prod.split sum.split)

definition call_message :: "call \<Rightarrow> channel \<Rightarrow> bytes" where
  "call_message q c =
     MSG_CHANNEL_REQUEST # be_bytes 4 (remote_chanid c) @ enc_field (FText (lit (call_key q))) @
     enc_field (FBool (wants_reply q)) @ concat (map enc_field (call_fields q))"

lemma ask_sends:
  "list_all ok_field (request_head k True c) \<Longrightarrow> list_all ok_field fs \<Longrightarrow> ask k fs [] c =
     (Inl Blocked, (event_pending c)\<lparr>outbox := outbox c @ [concat (map enc_field (request_head k True c @ fs))]\<rparr>)"
  by (simp add: ask_def ask_begin_def built_ok bindS_def liftR_def modS_def event_pending_def send_user_def
      wait_for_event.simps)

lemma tell_sends:
  "list_all ok_field (request_head k False c) \<Longrightarrow> list_all ok_field fs \<Longrightarrow> tell k fs c =
     (Inr (), c\<lparr>outbox := outbox c @ [concat (map enc_field (request_head k False c @ fs))]\<rparr>)"
  by (simp add: tell_def send_fields_def built_ok bindS_def liftR_def modS_def send_user_def)

lemma open_only_open: "\<not> ch_closed c \<Longrightarrow> \<not> eof_received c \<Longrightarrow> \<not> eof_sent c \<Longrightarrow> ch_active c \<Longrightarrow> open_only f c = f c"
  by (simp add: open_only_def)

lemma issue_sends:
  assumes "\<not> ch_closed c" "\<not> eof_received c" "\<not> eof_sent c" "ch_active c"
    "0 \<le> remote_chanid c" "remote_chanid c < 2 ^ 32" "list_all ok_field (call_fields q)"
  shows "fst (issue q c) = (if wants_reply q then Inl Blocked else Inr ()) \<and>
     outbox (snd (issue q c)) = outbox c @ [call_message q c]"
proof -
  note defs = get_pty_def invoke_shell_def exec_command_def invoke_subsystem_def resize_pty_def
    set_environment_variable_def request_x11_def request_forward_agent_def
  note ok = request_head_ok [OF assms(5,6), of q]
  show ?thesis using assms(7) ok
    by (cases q) (simp_all add: open_only_open [OF assms(1-4)] defs call_message_def request_head_def ask_sends tell_sends
        bindS_def modS_def retS_def event_pending_def del: lit_simps)
qed


lemma handle_call:
  assumes "list_all ok_field (call_fields q)" "0 \<le> remote_chanid c" "remote_chanid c < 2 ^ 32"
    "0 \<le> remote_chanid d" "remote_chanid d < 2 ^ 32"
  shows "handle_request (Some srv) (snd (get_int (new_message (Some (tl (call_message q c)))))) d =
     (Inr (), if wants_reply q
              then d\<lparr>outbox := outbox d @ [(if srv (meant q) then MSG_CHANNEL_SUCCESS else MSG_CHANNEL_FAILURE) #
                                        be_bytes 4 (remote_chanid d)]\<rparr>
              else d)"
proof -
  let ?r = "enc_field (FText (lit (call_key q))) @ enc_field (FBool (wants_reply q)) @ concat (map enc_field (call_fields q))"
  let ?m = "snd (get_int (new_message (Some (tl (call_message q c)))))"
  have k: "ok_field (FText (lit (call_key q)))"
    using request_head_ok [OF assms(2,3), of q True] by (simp add: request_head_def)
  have r: "get_remainder (new_message (Some (tl (call_message q c)))) = be_bytes 4 (remote_chanid c) @ ?r"
    by (simp add: call_message_def new_message_def get_remainder_def)
  from f_int.get_prefix [OF _ r] have "get_remainder ?m = ?r" using assms(2,3) by (simp add: r)
  from parse_call [OF assms(1) this k] show ?thesis
    using assms(4,5) built_ok [of "[FByte t, FInt (remote_chanid d)]" for t]
    by (simp add: handle_request_eq send_fields_def bindS_def liftR_def modS_def send_user_def)
qed

section \<open>Properties\<close>

text \<open>C18. Requests are understood: each request a client makes on an open channel (pseudo-terminal, shell,
  command, subsystem, window change, environment variable, X11, agent forwarding) is one message, from which
  the other side's handler asks its server for exactly that with the same arguments, and answers with success
  or failure as the server says if, and only if, the client waits for a reply.\<close>

theorem requests_understood:
  assumes "\<not> ch_closed c" "\<not> eof_received c" "\<not> eof_sent c" "ch_active c" "list_all ok_field (call_fields q)"
    and "0 \<le> remote_chanid c" "remote_chanid c < 2 ^ 32" "0 \<le> remote_chanid d" "remote_chanid d < 2 ^ 32"
  shows "\<exists>b. outbox (snd (issue q c)) = outbox c @ [MSG_CHANNEL_REQUEST # b] \<and>
     fst (issue q c) = (if wants_reply q then Inl Blocked else Inr ()) \<and>
     handle_request (Some srv) (snd (get_int (new_message (Some b)))) d =
       (Inr (), if wants_reply q
                then d\<lparr>outbox := outbox d @ [(if srv (meant q) then MSG_CHANNEL_SUCCESS else MSG_CHANNEL_FAILURE) #
                                          be_bytes 4 (remote_chanid d)]\<rparr>
                else d)"
proof (intro exI [of _ "tl (call_message q c)"] conjI)
  have "call_message q c = MSG_CHANNEL_REQUEST # tl (call_message q c)" by (simp add: call_message_def)
  then show "outbox (snd (issue q c)) = outbox c @ [MSG_CHANNEL_REQUEST # tl (call_message q c)]"
    using issue_sends [OF assms(1-4) assms(6,7,5)] by simp
qed (use issue_sends [OF assms(1-4) assms(6,7,5)] handle_call [OF assms(5-9)] in simp_all)

theorem requests_understood_witness:
  "\<exists>b d'. outbox (snd (exec_command (lit ''ls'') [] (set_remote_channel 7 9 9 (new_channel 0)))) = [MSG_CHANNEL_REQUEST # b] \<and>
     handle_request (Some (\<lambda>r. r = Exec [108, 115])) (snd (get_int (new_message (Some b)))) (new_channel 3) =
       (Inr (), d') \<and> outbox d' = [MSG_CHANNEL_SUCCESS # be_bytes 4 0]"
proof -
  have u: "utf8_encode (lit ''ls'') = Inr [108, 115]" by (simp add: utf8_encode_def utf8_char_def scalar_def)
  show ?thesis
    using requests_understood [of "set_remote_channel 7 9 9 (new_channel 0)" "C_exec (lit ''ls'')" "new_channel 3"
        "\<lambda>r. r = Exec [108, 115]"]
    by (auto simp: set_remote_channel_def new_channel_def u utf8_of_def ok_string_def simp del: lit_simps)
qed

text \<open>An exit status sent is the exit status received.\<close>

lemma exit_status_delivered:
  assumes "0 \<le> n" "n < 2 ^ 32" "0 \<le> remote_chanid c" "remote_chanid c < 2 ^ 32"
  shows "\<exists>b. outbox (snd (send_exit_status n c)) = outbox c @ [MSG_CHANNEL_REQUEST # b] \<and>
     handle_request srv (snd (get_int (new_message (Some b)))) d = (Inr (), d\<lparr>exit_status := n, status_event := True\<rparr>)"
proof -
  have "\<exists>u. utf8_encode (lit ''exit-status'') = Inr u \<and> ok_string u"
    by (simp add: utf8_encode_def utf8_char_def scalar_def ok_string_def)
  note k = this enc_text [OF this]
  let ?r = "enc_string (utf8_of (lit ''exit-status'')) @ [0] @ be_bytes 4 n @ []"
  let ?m = "snd (get_int (new_message (Some (be_bytes 4 (remote_chanid c) @ ?r))))"
  have "get_remainder ?m = ?r"
    using f_int.get_prefix [of "remote_chanid c" "new_message (Some (be_bytes 4 (remote_chanid c) @ ?r))" ?r] assms(3,4)
    by (simp add: new_message_def get_remainder_def advance_def)
  then have "fst (bindS get_text (\<lambda>key. bindS get_boolean (\<lambda>want. bindS (read_request key) (\<lambda>r. retS (want, r)))) ?m) =
      Inr (False, Exit_status n)"
    by (rule read_text [OF _ k(1)])
       (rule read_boolean [where b = False], simp, rule fst_bindS_retS,
         auto simp: read_request_def intro!: read_int [where n = n and r = "[]"], use assms in \<open>auto simp: retS_def\<close>)
  then have "handle_request srv ?m d = (Inr (), d\<lparr>exit_status := n, status_event := True\<rparr>)"
    by (simp add: handle_request_eq)
  moreover have "send_exit_status n c = (Inr (), c\<lparr>outbox := outbox c @
      [MSG_CHANNEL_REQUEST # be_bytes 4 (remote_chanid c) @ ?r]\<rparr>)"
    using assms k unfolding send_exit_status_def by (subst tell_sends) (simp_all add: request_head_def del: lit_simps)
  ultimately show ?thesis by auto
qed

end
