(* ===== verification/Step_System.thy ===== *)
theory Step_System
  imports Main
begin

text \<open>
  Step relations: the states that can be reached from the initial ones, and the contract of an invariant.
  Every state machine of the development has its invariants as interpretations of \<open>step_invariant\<close>.
\<close>

inductive reachable :: "('s \<Rightarrow> bool) \<Rightarrow> ('s \<Rightarrow> 's \<Rightarrow> bool) \<Rightarrow> 's \<Rightarrow> bool" for I R where
  initially: "I s \<Longrightarrow> reachable I R s"
| after_step: "reachable I R s \<Longrightarrow> R s t \<Longrightarrow> reachable I R t"

locale step_invariant =
  fixes I :: "'s \<Rightarrow> bool" and R :: "'s \<Rightarrow> 's \<Rightarrow> bool" and inv :: "'s \<Rightarrow> bool"
  assumes initial: "I s \<Longrightarrow> inv s" and preserved: "inv s \<Longrightarrow> R s t \<Longrightarrow> inv t"
begin

lemma always: "reachable I R s \<Longrightarrow> inv s"
  by (induction rule: reachable.induct) (auto intro: initial preserved)

end

text \<open>An invariant may be proved with the help of another one.\<close>

locale step_invariant_with = base: step_invariant I R inv
  for I :: "'s \<Rightarrow> bool" and R :: "'s \<Rightarrow> 's \<Rightarrow> bool" and inv :: "'s \<Rightarrow> bool" +
  fixes inv2 :: "'s \<Rightarrow> bool"
  assumes initial2: "I s \<Longrightarrow> inv2 s" and preserved2: "inv s \<Longrightarrow> inv2 s \<Longrightarrow> R s t \<Longrightarrow> inv2 t"
begin

sublocale both: step_invariant I R "\<lambda>s. inv s \<and> inv2 s"
  by unfold_locales (auto intro: base.initial base.preserved initial2 preserved2)

end

end
