(* ===== verification/Ssh_Channel_Flow.thy ===== *)
theory Ssh_Channel_Flow
  imports Ssh_Channel Step_System "HOL-Library.Multiset"
begin

text \<open>
  Flow control of a channel. First \<^verbatim>\<open>sendall\<close>; then the channel as a state machine, in which every part of a
  method that runs under a lock is one step, so that the threads of a program and the transport's thread
  interleave between the lock and the handing over of a message. The state keeps, beside the channel, the
  messages that are built but not yet handed over and the data that is read but not yet counted.
\<close>

section \<open>Sending everything\<close>

definition data_message :: "int \<Rightarrow> bytes \<Rightarrow> bytes" where
  "data_message rid s = MSG_CHANNEL_DATA # be_bytes 4 rid @ enc_string s"

definition chunk :: "channel \<Rightarrow> bytes \<Rightarrow> nat" where
  "chunk c s = min (length s) (min (nat (out_window_size c)) (nat (out_max_packet_size c - 64)))"

lemma ch_send_open:
  assumes "\<not> ch_closed c" "\<not> eof_sent c" "0 < out_window_size c" "64 < out_max_packet_size c" "s \<noteq> []"
    "0 \<le> remote_chanid c" "remote_chanid c < 2 ^ 32" "length s < 2 ^ 32"
  shows "ch_send s [] (\<lambda>c. c) c =
    (Inr (int (chunk c s)),
     c\<lparr>out_window_size := out_window_size c - int (chunk c s),
       outbox := outbox c @ [data_message (remote_chanid c) (take (chunk c s) s)]\<rparr>)"
proof -
  have w: "wait_for_send_window (int (length s)) [] c =
      (Inr (int (chunk c s)), c\<lparr>out_window_size := out_window_size c - int (chunk c s)\<rparr>)"
    using assms by (auto simp: wait_for_send_window_def window_wait.simps take_window_def Let_def bindS_def chunk_def)
  have n: "chunk c s \<noteq> 0" "chunk c s \<le> length s" using assms by (auto simp: chunk_def)
  then have "list_all ok_field (data_head c @ [FString (take (chunk c s) s)])"
    using assms by (simp add: data_head_def ok_string_def)
  from built_ok [OF this] have b: "built (data_head c @ [FString (py_slice s 0 (int (chunk c s)))]) =
      Inr (data_message (remote_chanid c) (take (chunk c s) s))"
    using n by (simp add: data_head_def data_message_def py_slice_zero)
  have h: "built (data_head c) = Inr (concat (map enc_field (data_head c)))"
    using assms by (intro built_ok) (simp add: data_head_def)
  have l: "send_locked s (data_head c) [] c = (Inr (int (chunk c s), Some (data_message (remote_chanid c) (take (chunk c s) s))),
      c\<lparr>out_window_size := out_window_size c - int (chunk c s)\<rparr>)"
    using assms(1) n(1) b by (simp add: send_locked_def bindS_def liftR_def retS_def w)
  show ?thesis
    by (simp add: ch_send_def ch_send_with_def h l bindS_def liftR_def modS_def retS_def send_user_def)
qed

lemma send_loop_open:
  assumes "\<not> ch_closed c" "\<not> eof_sent c" "int (length s) \<le> out_window_size c" "64 < out_max_packet_size c"
    "0 \<le> remote_chanid c" "remote_chanid c < 2 ^ 32" "length s < 2 ^ 32" "\<And>i. env i = ([], \<lambda>c. c)"
  shows "\<exists>chunks. concat chunks = s \<and> list_all (\<lambda>x. x \<noteq> [] \<and> int (length x) \<le> out_max_packet_size c - 64) chunks \<and>
     send_loop ch_send env i s c =
       Some (Inr (), c\<lparr>out_window_size := out_window_size c - int (length s),
                       outbox := outbox c @ map (data_message (remote_chanid c)) chunks\<rparr>)"
  using assms(1-7)
proof (induction "length s" arbitrary: s c i rule: less_induct)
  case less
  show ?case
  proof (cases "s = []")
    case True
    then show ?thesis by (intro exI [of _ "[]"]) (simp add: send_loop.simps)
  next
    case False
    let ?n = "chunk c s"
    let ?c = "c\<lparr>out_window_size := out_window_size c - int ?n,
      outbox := outbox c @ [data_message (remote_chanid c) (take ?n s)]\<rparr>"
    have pos: "0 < out_window_size c" using less.prems(3) False by (cases s) auto
    have n: "?n \<noteq> 0" "?n \<le> length s" "int ?n \<le> out_max_packet_size c - 64"
      using less.prems False pos by (auto simp: chunk_def)
    have s: "send_loop ch_send env i s c = send_loop ch_send env (Suc i) (drop ?n s) ?c"
      using False less.prems ch_send_open [OF less.prems(1,2) _ less.prems(4) False less.prems(5,6,7)] n pos
      by (subst send_loop.simps) (simp add: assms(8) py_slice_def py_index_def)
    have "length (drop ?n s) < length s" using n by simp
    then obtain chunks where k: "concat chunks = drop ?n s"
      "list_all (\<lambda>x. x \<noteq> [] \<and> int (length x) \<le> out_max_packet_size c - 64) chunks"
      "send_loop ch_send env (Suc i) (drop ?n s) ?c =
       Some (Inr (), ?c\<lparr>out_window_size := out_window_size ?c - int (length (drop ?n s)),
                        outbox := outbox ?c @ map (data_message (remote_chanid ?c)) chunks\<rparr>)"
      using less.hyps [of "drop ?n s" ?c "Suc i"] less.prems n by (auto simp: of_nat_diff)
    show ?thesis
      using k n False by (intro exI [of _ "take ?n s # chunks"]) (auto simp: s of_nat_diff)
  qed
qed

lemma py_slice_all: "py_slice s 0 (int (length s)) = s"
  by (simp add: py_slice_def py_index_def)

lemma send_loop_stuck:
  "send_loop snd1 env i s c = Some y \<Longrightarrow> (\<forall>i. snd1 s (fst (env i)) (snd (env i)) c = (Inr 0, c)) \<longrightarrow> s = []"
proof (erule send_loop.raw_induct [rotated], intro impI, rule ccontr, goal_cases)
  case (1 loop snd1 env i s c y)
  then have "loop snd1 env (Suc i) s c = Some y" by (simp add: py_slice_all split: if_splits)
  with 1 show False by blast
qed

text \<open>\<^verbatim>\<open>sendall\<close> delivers: on an open channel whose window takes the data, it returns, and it has handed over
  the data cut into non-empty messages of at most the peer's packet size less the 64 bytes reserved, in order
  and without loss, and the window has shrunk by exactly the length of the data.\<close>

theorem sendall_delivers:
  assumes "\<not> ch_closed c" "\<not> eof_sent c" "int (length s) \<le> out_window_size c" "64 < out_max_packet_size c"
    and "0 \<le> remote_chanid c" "remote_chanid c < 2 ^ 32" "length s < 2 ^ 32"
  shows "\<exists>chunks. concat chunks = s \<and> list_all (\<lambda>x. x \<noteq> [] \<and> int (length x) \<le> out_max_packet_size c - 64) chunks \<and>
     sendall (\<lambda>_. ([], \<lambda>c. c)) s c =
       Some (Inr (), c\<lparr>out_window_size := out_window_size c - int (length s),
                       outbox := outbox c @ map (data_message (remote_chanid c)) chunks\<rparr>)"
  unfolding sendall_def using assms by (intro send_loop_open) simp_all

theorem sendall_delivers_witness:
  "\<exists>c'. sendall (\<lambda>_. ([], \<lambda>c. c)) [1, 2, 3] (set_remote_channel 7 100 5000 (new_channel 0)) = Some (Inr (), c') \<and>
     out_window_size c' = 97"
proof -
  let ?c = "set_remote_channel 7 100 5000 (new_channel 0)"
  have "\<not> ch_closed ?c" "\<not> eof_sent ?c" "int (length [1, 2, 3 :: byte]) \<le> out_window_size ?c" "64 < out_max_packet_size ?c"
    "0 \<le> remote_chanid ?c" "remote_chanid ?c < 2 ^ 32" "out_window_size ?c = 100"
    by (simp_all add: set_remote_channel_def new_channel_def sanitize_packet_size_def clamp_value_def MIN_PACKET_SIZE_def
        MAX_WINDOW_SIZE_def)
  from sendall_delivers [OF this(1-6)] this(7) show ?thesis by auto
qed

text \<open>\<^verbatim>\<open>sendall\<close> after \<^verbatim>\<open>shutdown_write\<close>: the channel is not closed, \<^verbatim>\<open>send\<close> takes nothing and reports no
  error, and the loop never returns.\<close>

theorem sendall_after_shutdown:
  assumes "\<not> ch_closed c" "s \<noteq> []" "0 \<le> remote_chanid c" "remote_chanid c < 2 ^ 32"
  shows "sendall (\<lambda>_. (wakes, \<lambda>c. c)) s (snd (shutdown_write c)) = None"
proof -
  let ?c = "snd (shutdown_write c)"
  have "built [FByte MSG_CHANNEL_EOF, FInt (remote_chanid c)] = Inr (concat (map enc_field [FByte MSG_CHANNEL_EOF, FInt (remote_chanid c)]))"
    using assms by (intro built_ok) simp
  then have c: "\<not> ch_closed ?c" "eof_sent ?c" "remote_chanid ?c = remote_chanid c"
    using assms(1)
    by (auto simp: shutdown_write_def shutdown_def send_eof_def bindS_def modS_def liftR_def send_user_def)
  have "built (data_head ?c) = Inr (concat (map enc_field (data_head ?c)))"
    using assms c by (intro built_ok) (simp add: data_head_def)
  then have "ch_send s wakes (\<lambda>c. c) ?c = (Inr 0, ?c)"
    using c by (simp add: ch_send_def ch_send_with_def send_locked_def wait_for_send_window_def bindS_def liftR_def modS_def retS_def)
  with send_loop_stuck [of ch_send "\<lambda>_. (wakes, \<lambda>c. c)" 0 s ?c] assms(2) show ?thesis
    by (cases "sendall (\<lambda>_. (wakes, \<lambda>c. c)) s ?c") (auto simp: sendall_def)
qed

theorem sendall_after_shutdown_witness:
  "sendall (\<lambda>_. ([], \<lambda>c. c)) [1] (snd (shutdown_write (set_remote_channel 7 100 5000 (new_channel 0)))) = None"
  by (rule sendall_after_shutdown) (simp_all add: set_remote_channel_def new_channel_def)

section \<open>The channel as a state machine\<close>

text \<open>\<open>pending\<close>: messages built under the lock and not yet handed to the transport. \<open>held\<close>: the lengths of
  what readers have taken from a buffer and not yet counted. \<open>moving\<close>: error output on its way from one
  buffer to the other. The rest is history, which no step depends on: \<open>built_log\<close> has all messages in the
  order they were built, \<open>announced\<close> is the packet size the peer has announced, \<open>granted\<close> the window it has given, \<open>received\<close> the data the peer has sent,
  \<open>discarded\<close> what was thrown away of it, \<open>lost\<close> what was read without being counted, and \<open>polite\<close> tells
  that the peer has never sent more than its window.\<close>

record chan_sys =
  chan :: channel
  pending :: "bytes list"
  held :: "nat list"
  moving :: "bytes list"
  built_log :: "bytes list"
  announced :: int
  granted :: int
  received :: int
  discarded :: int
  lost :: int
  polite :: bool

definition note_msg :: "bytes option \<Rightarrow> chan_sys \<Rightarrow> chan_sys" where
  "note_msg m s = (case m of None \<Rightarrow> s | Some b \<Rightarrow> s\<lparr>pending := pending s @ [b], built_log := built_log s @ [b]\<rparr>)"

text \<open>A step that hands its messages over at once.\<close>

definition direct :: "channel \<Rightarrow> chan_sys \<Rightarrow> chan_sys" where
  "direct c s = s\<lparr>chan := c, built_log := built_log s @ drop (length (outbox (chan s))) (outbox c)\<rparr>"

definition counting :: "channel \<Rightarrow> bool" where
  "counting c \<longleftrightarrow> ch_active c \<and> \<not> ch_closed c \<and> \<not> eof_received c"

text \<open>The window the peer still has, by the messages that were handed over.\<close>

definition peer_window :: "chan_sys \<Rightarrow> int" where
  "peer_window s = in_window_size (chan s) - received s + sum_list (map grant (outbox (chan s)))"

definition arrived :: "nat \<Rightarrow> chan_sys \<Rightarrow> chan_sys" where
  "arrived n s = s\<lparr>received := received s + int n, polite := (polite s \<and> int n \<le> peer_window s)\<rparr>"

inductive chan_step :: "chan_sys \<Rightarrow> chan_sys \<Rightarrow> bool" where
  s_send: "send_locked d (data_head (chan s)) [] (chan s) = (Inr (n, m), c) \<Longrightarrow>
     chan_step s (note_msg m (s\<lparr>chan := c\<rparr>))"
| s_send_stderr: "send_locked d (stderr_head (chan s)) [] (chan s) = (Inr (n, m), c) \<Longrightarrow>
     chan_step s (note_msg m (s\<lparr>chan := c\<rparr>))"
| s_close: "close_internal (chan s) = (Inr [m1, m2], c) \<Longrightarrow>
     chan_step s (note_msg m2 (note_msg m1 (s\<lparr>chan := c\<rparr>)))"
| s_peer_close: "close_internal (chan s) = (Inr [m1, m2], c) \<Longrightarrow>
     chan_step s (note_msg m2 (note_msg m1 (s\<lparr>chan := c\<lparr>linked := False\<rparr>\<rparr>)))"
| s_shutdown_write: "send_eof (chan s) = (Inr m, c) \<Longrightarrow> chan_step s (note_msg m (s\<lparr>chan := c\<rparr>))"
| s_shutdown_read: "chan_step s (s\<lparr>chan := (chan s)\<lparr>eof_received := True\<rparr>\<rparr>)"
| s_unlink: "chan_step s (s\<lparr>chan := ch_unlink (chan s)\<rparr>)"
| s_peer_eof: "chan_step s (s\<lparr>chan := handle_eof (chan s)\<rparr>)"
| s_hand_over: "pending s = xs @ b # ys \<Longrightarrow> chan_step s (s\<lparr>chan := send_user b (chan s), pending := xs @ ys\<rparr>)"
| s_read: "pipe_read n (ch_timeout (chan s)) [] (in_buffer (chan s)) = Some (Inr out, p) \<Longrightarrow>
     chan_step s (s\<lparr>chan := (chan s)\<lparr>in_buffer := p\<rparr>, held := held s @ [length out]\<rparr>)"
| s_read_stderr: "pipe_read n (ch_timeout (chan s)) [] (in_stderr_buffer (chan s)) = Some (Inr out, p) \<Longrightarrow>
     chan_step s (s\<lparr>chan := (chan s)\<lparr>in_stderr_buffer := p\<rparr>, held := held s @ [length out]\<rparr>)"
| s_count: "held s = xs @ k # ys \<Longrightarrow> check_add_window k (chan s) = (ack, c) \<Longrightarrow> \<not> ack > 0 \<Longrightarrow>
     chan_step s (s\<lparr>chan := c, held := xs @ ys, lost := lost s + (if counting (chan s) then 0 else int k)\<rparr>)"
| s_acknowledge: "held s = xs @ k # ys \<Longrightarrow> check_add_window k (chan s) = (ack, c) \<Longrightarrow> ack > 0 \<Longrightarrow>
     built (adjust_fields ack c) = Inr b \<Longrightarrow> chan_step s (note_msg (Some b) (s\<lparr>chan := c, held := xs @ ys\<rparr>))"
| s_acknowledge_fails: "held s = xs @ k # ys \<Longrightarrow> check_add_window k (chan s) = (ack, c) \<Longrightarrow> ack > 0 \<Longrightarrow>
     built (adjust_fields ack c) = Inl e \<Longrightarrow> chan_step s (s\<lparr>chan := c, held := xs @ ys, lost := lost s + ack\<rparr>)"
| s_data: "get_binary m = (Inr d, m') \<Longrightarrow> ch_feed m (chan s) = (Inr (), c) \<Longrightarrow>
     chan_step s ((arrived (length d) s)\<lparr>chan := c\<rparr>)"
| s_extended: "bindS get_int (\<lambda>code. bindS get_binary (\<lambda>d. retS (code, d))) m = (Inr (code, d), m') \<Longrightarrow>
     feed_extended m (chan s) = (Inr (), c) \<Longrightarrow>
     chan_step s ((arrived (length d) s)\<lparr>chan := c,
       discarded := discarded s + (if code = 1 then 0 else int (length d))\<rparr>)"
| s_adjust: "get_int m = (Inr n, m') \<Longrightarrow> window_adjust m (chan s) = (Inr (), c) \<Longrightarrow>
     chan_step s (s\<lparr>chan := c, granted := granted s + n\<rparr>)"
| s_combine: "combine_locked b (chan s) = ((old, d), c) \<Longrightarrow> chan_step s (s\<lparr>chan := c, moving := moving s @ [d]\<rparr>)"
| s_combined: "moving s = xs @ d # ys \<Longrightarrow> 
     chan_step s (s\<lparr>chan := (if length d > 0 then feed_data d (chan s) else chan s), moving := xs @ ys\<rparr>)"
| s_request: "handle_request server m (chan s) = (r, c) \<Longrightarrow> chan_step s (direct c s)"
| s_ask: "open_only (ask_begin key fs) (chan s) = (r, c) \<Longrightarrow> list_all chan_field fs \<Longrightarrow> chan_step s (direct c s)"
| s_tell: "tell key fs (chan s) = (r, c) \<Longrightarrow> list_all chan_field fs \<Longrightarrow> chan_step s (direct c s)"
| s_success: "chan_step s (s\<lparr>chan := request_success (chan s)\<rparr>)"
| s_timeout: "chan_step s (s\<lparr>chan := settimeout t (chan s)\<rparr>)"

text \<open>A channel as it is when the transport has opened it.\<close>

definition chan_init :: "chan_sys \<Rightarrow> bool" where
  "chan_init s \<longleftrightarrow>
     (\<exists>cid rid w mp ow omp.
        s = \<lparr>chan = set_remote_channel rid ow omp (set_window (sanitize_window_size DEFAULT_WINDOW_SIZE w) mp (new_channel cid)),
             pending = [], held = [], moving = [], built_log = [], announced = omp, granted = ow, received = 0, discarded = 0, lost = 0,
             polite = True\<rparr> \<and>
        0 \<le> rid \<and> rid < 2 ^ 32 \<and> 0 \<le> ow)"

abbreviation chan_reachable :: "chan_sys \<Rightarrow> bool" where
  "chan_reachable \<equiv> reachable chan_init chan_step"

section \<open>What the operations leave alone\<close>

text \<open>The part of a channel the sending side depends on, and the part the receiving side depends on.\<close>

definition send_view :: "channel \<Rightarrow> int \<times> int \<times> int \<times> bool \<times> bool \<times> bool" where
  "send_view c = (remote_chanid c, out_window_size c, out_max_packet_size c, eof_sent c, ch_closed c, ch_active c)"

definition recv_view :: "channel \<Rightarrow> (bytes \<times> bytes) \<times> (int \<times> int \<times> int) \<times> int \<times> bool" where
  "recv_view c = ((pbuffer (in_buffer c), pbuffer (in_stderr_buffer c)),
     (in_window_size c, in_window_threshold c, in_window_sofar c), remote_chanid c, counting c)"

text \<open>Messages that are neither data nor window nor end of stream.\<close>

definition neutral :: "bytes \<Rightarrow> bool" where
  "neutral b \<longleftrightarrow> b \<noteq> [] \<and> hd b \<in> {MSG_CHANNEL_REQUEST, MSG_CHANNEL_SUCCESS, MSG_CHANNEL_FAILURE}"

lemma neutral_flow: "neutral b \<Longrightarrow> data_len b = 0 \<and> grant b = 0 \<and> \<not> is_msg MSG_CHANNEL_EOF b \<and>
    \<not> is_msg MSG_CHANNEL_CLOSE b \<and> \<not> is_msg MSG_CHANNEL_DATA b \<and> \<not> is_msg MSG_CHANNEL_EXTENDED_DATA b"
  by (auto simp: neutral_def flow_defs)

definition says_neutral :: "channel \<Rightarrow> channel \<Rightarrow> bool" where
  "says_neutral c c' \<longleftrightarrow> send_view c' = send_view c \<and> recv_view c' = recv_view c \<and>
     (\<exists>bs. outbox c' = outbox c @ bs \<and> list_all neutral bs)"

lemma counting_simps [simp]:
  "counting (c\<lparr>outbox := x\<rparr>) = counting c" "counting (c\<lparr>ch_event := e\<rparr>) = counting c"
  "counting (c\<lparr>event_ready := r\<rparr>) = counting c" "counting (c\<lparr>exit_status := n\<rparr>) = counting c"
  "counting (c\<lparr>status_event := e\<rparr>) = counting c" "counting (c\<lparr>in_buffer := p\<rparr>) = counting c"
  "counting (c\<lparr>in_stderr_buffer := p\<rparr>) = counting c" "counting (c\<lparr>out_window_size := w\<rparr>) = counting c"
  "counting (c\<lparr>in_window_sofar := w\<rparr>) = counting c" "counting (c\<lparr>eof_sent := b\<rparr>) = counting c"
  "counting (c\<lparr>combine_stderr := b\<rparr>) = counting c" "counting (c\<lparr>ch_timeout := t\<rparr>) = counting c"
  "counting (c\<lparr>linked := b\<rparr>) = counting c"
  by (simp_all add: counting_def)

lemma says_neutral_refl: "send_view c' = send_view c \<Longrightarrow> recv_view c' = recv_view c \<Longrightarrow> outbox c' = outbox c \<Longrightarrow> says_neutral c c'"
  by (auto simp: says_neutral_def)

lemma send_fields_neutral:
  assumes "send_fields (FByte t # fs) c = (r, c')" "list_all chan_field fs"
    "t \<in> {MSG_CHANNEL_REQUEST, MSG_CHANNEL_SUCCESS, MSG_CHANNEL_FAILURE}"
  shows "says_neutral c c'"
proof (cases "built (FByte t # fs)")
  case (Inl e)
  with assms show ?thesis by (simp add: send_fields_def bindS_def liftR_def says_neutral_refl)
next
  case (Inr b)
  with built_InrD [OF Inr] assms(2,3) have "neutral b" by (auto simp: neutral_def)
  with assms(1) Inr show ?thesis
    by (auto simp: send_fields_def bindS_def liftR_def modS_def send_user_def says_neutral_def send_view_def recv_view_def)
qed

lemma tell_neutral: "tell key fs c = (r, c') \<Longrightarrow> list_all chan_field fs \<Longrightarrow> says_neutral c c'"
  by (rule send_fields_neutral [of MSG_CHANNEL_REQUEST "[FInt (remote_chanid c), FText (lit key), FBool False] @ fs" c r c'])
     (simp_all add: tell_def request_head_def)

lemma ask_neutral: "open_only (ask_begin key fs) c = (r, c') \<Longrightarrow> list_all chan_field fs \<Longrightarrow> says_neutral c c'"
proof -
  assume a: "open_only (ask_begin key fs) c = (r, c')" "list_all chan_field fs"
  show "says_neutral c c'"
  proof (cases "built (request_head key True c @ fs)")
    case (Inl e)
    with a show ?thesis
      by (auto simp: open_only_def ask_begin_def bindS_def liftR_def says_neutral_refl split: if_splits)
  next
    case (Inr b)
    with built_InrD [OF Inr] a(2) have "neutral b" by (auto simp: neutral_def request_head_def)
    with a(1) Inr show ?thesis
      by (auto simp: open_only_def ask_begin_def bindS_def liftR_def modS_def send_user_def event_pending_def
          says_neutral_def send_view_def recv_view_def split: if_splits)
  qed
qed

lemma handle_request_neutral: "handle_request server m c = (r, c') \<Longrightarrow> says_neutral c c'"
proof -
  assume h: "handle_request server m c = (r, c')"
  let ?p = "fst (bindS get_text (\<lambda>key. bindS get_boolean (\<lambda>want. bindS (read_request key) (\<lambda>r. retS (want, r)))) m)"
  show "says_neutral c c'"
  proof (cases ?p)
    case (Inl e)
    with h show ?thesis by (simp add: handle_request_eq says_neutral_refl)
  next
    case (Inr p)
    obtain want q where p: "p = (want, q)" by fastforce
    obtain ok c1 where c1: "(case q of Exit_status n \<Rightarrow> (True, c\<lparr>exit_status := n, status_event := True\<rparr>)
                | Xon_xoff \<Rightarrow> (True, c) | For_server q \<Rightarrow> (case server of None \<Rightarrow> False | Some f \<Rightarrow> f q, c)
                | Unhandled \<Rightarrow> (False, c)) = (ok, c1)" by fastforce
    have n: "says_neutral c c1 \<and> outbox c1 = outbox c"
      using c1 by (auto simp: says_neutral_def send_view_def recv_view_def split: incoming.splits)
    show ?thesis
    proof (cases want)
      case True
      then have "send_fields [FByte (if ok then MSG_CHANNEL_SUCCESS else MSG_CHANNEL_FAILURE), FInt (remote_chanid c1)] c1 = (r, c')"
        using h Inr p c1 by (simp add: handle_request_eq)
      then have "says_neutral c1 c'" by (rule send_fields_neutral) simp_all
      with n show ?thesis by (auto simp: says_neutral_def)
    next
      case False
      with h Inr p c1 n show ?thesis by (simp add: handle_request_eq)
    qed
  qed
qed

lemmas neutral_ops = tell_neutral ask_neutral handle_request_neutral

section \<open>The sending side\<close>

text \<open>What a channel may say: data while it streams, the end of the stream once, the close once and after the
  end; other messages at any time.\<close>

datatype out_phase = Streaming | Ended | Finished

definition is_data :: "bytes \<Rightarrow> bool" where
  "is_data b \<longleftrightarrow> is_msg MSG_CHANNEL_DATA b \<or> is_msg MSG_CHANNEL_EXTENDED_DATA b"

definition accept_msg :: "out_phase \<Rightarrow> bytes \<Rightarrow> out_phase option" where
  "accept_msg ph b =
     (if is_data b then (if ph = Streaming then Some Streaming else None)
      else if is_msg MSG_CHANNEL_EOF b then (if ph = Streaming then Some Ended else None)
      else if is_msg MSG_CHANNEL_CLOSE b then (if ph = Ended then Some Finished else None)
      else Some ph)"

fun accepts :: "out_phase \<Rightarrow> bytes list \<Rightarrow> out_phase option" where
  "accepts ph [] = Some ph"
| "accepts ph (b # bs) = (case accept_msg ph b of None \<Rightarrow> None | Some ph' \<Rightarrow> accepts ph' bs)"

lemma accepts_append: "accepts ph (xs @ ys) = (case accepts ph xs of None \<Rightarrow> None | Some ph' \<Rightarrow> accepts ph' ys)"
  by (induction xs arbitrary: ph) (auto split: option.split)

text \<open>Messages the sending side does not count.\<close>

definition aside :: "bytes \<Rightarrow> bool" where
  "aside b \<longleftrightarrow> data_len b = 0 \<and> \<not> is_data b \<and> \<not> is_msg MSG_CHANNEL_EOF b \<and> \<not> is_msg MSG_CHANNEL_CLOSE b"

lemma neutral_aside: "neutral b \<Longrightarrow> aside b"
  using neutral_flow [of b] by (simp add: aside_def is_data_def)

lemma accepts_aside: "list_all aside bs \<Longrightarrow> accepts ph bs = Some ph"
  by (induction bs) (auto simp: accept_msg_def aside_def)

lemma data_len_aside: "list_all aside bs \<Longrightarrow> sum_list (map data_len bs) = 0"
  by (induction bs) (auto simp: aside_def)

text \<open>The packet size a channel goes by, for the one its peer has announced.\<close>

definition sent_by :: "int \<Rightarrow> int \<Rightarrow> bool" where
  "sent_by peer_size limit \<longleftrightarrow> limit = sanitize_packet_size DEFAULT_MAX_PACKET_SIZE (Some peer_size)"

definition send_inv :: "chan_sys \<Rightarrow> bool" where
  "send_inv s \<longleftrightarrow>
     out_window_size (chan s) + int (sum_list (map data_len (built_log s))) = granted s \<and>
     0 \<le> out_window_size (chan s) \<and> 64 < out_max_packet_size (chan s) \<and>
     sent_by (announced s) (out_max_packet_size (chan s)) \<and>
     0 \<le> remote_chanid (chan s) \<and> remote_chanid (chan s) < 2 ^ 32 \<and>
     (\<forall>b \<in> set (built_log s). int (data_len b) \<le> out_max_packet_size (chan s) - 64) \<and>
     (\<exists>ph. accepts Streaming (built_log s) = Some ph \<and> (eof_sent (chan s) \<longleftrightarrow> ph \<noteq> Streaming) \<and>
           (ph = Finished \<longrightarrow> ch_closed (chan s))) \<and>
     mset (outbox (chan s)) + mset (pending s) = mset (built_log s)"

lemmas send_inv_defs = send_inv_def note_msg_def accepts_append

text \<open>A step that does nothing the sending side counts.\<close>

definition send_quiet :: "chan_sys \<Rightarrow> chan_sys \<Rightarrow> bool" where
  "send_quiet s t \<longleftrightarrow>
     remote_chanid (chan t) = remote_chanid (chan s) \<and> out_window_size (chan t) = out_window_size (chan s) \<and>
     out_max_packet_size (chan t) = out_max_packet_size (chan s) \<and> eof_sent (chan t) = eof_sent (chan s) \<and>
     (ch_closed (chan s) \<longrightarrow> ch_closed (chan t)) \<and> announced t = announced s \<and> granted t = granted s \<and>
     (\<exists>bs. list_all aside bs \<and> built_log t = built_log s @ bs \<and>
       mset (outbox (chan t)) + mset (pending t) = mset (outbox (chan s)) + mset (pending s) + mset bs)"

lemma send_quiet_inv: "send_quiet s t \<Longrightarrow> send_inv s \<Longrightarrow> send_inv t"
proof -
  assume q: "send_quiet s t" and i: "send_inv s"
  from q obtain bs where bs: "list_all aside bs" "built_log t = built_log s @ bs"
    "mset (outbox (chan t)) + mset (pending t) = mset (outbox (chan s)) + mset (pending s) + mset bs"
    by (auto simp: send_quiet_def)
  have "\<forall>b \<in> set bs. data_len b = 0" using bs(1) by (auto simp: list_all_iff aside_def)
  with q i bs show "send_inv t"
    unfolding send_inv_def send_quiet_def
    by (auto simp: accepts_append accepts_aside data_len_aside)
qed

lemma send_quietI:
  "send_view (chan t) = send_view (chan s) \<Longrightarrow> outbox (chan t) = outbox (chan s) \<Longrightarrow> pending t = pending s \<Longrightarrow>
     built_log t = built_log s \<Longrightarrow> announced t = announced s \<Longrightarrow> granted t = granted s \<Longrightarrow> send_quiet s t"
  by (auto simp: send_quiet_def send_view_def intro!: exI [of _ "[]"])

lemma direct_quiet: "says_neutral (chan s) c \<Longrightarrow> send_quiet s (direct c s)"
  by (auto simp: says_neutral_def send_quiet_def direct_def send_view_def list_all_iff neutral_aside)

text \<open>The messages that do count.\<close>

lemma enc_string_length: "length (enc_string s) = 4 + length s"
  by (simp add: enc_string_def)

lemma data_len_message:
  "data_len (MSG_CHANNEL_DATA # be_bytes 4 rid @ enc_string d) = length d"
  "data_len (MSG_CHANNEL_EXTENDED_DATA # be_bytes 4 rid @ be_bytes 4 n @ enc_string d) = length d"
  "is_data (MSG_CHANNEL_DATA # xs)" "is_data (MSG_CHANNEL_EXTENDED_DATA # xs)"
  by (simp_all add: data_len_def enc_string_length msg_defs is_data_def is_msg_def)

lemma take_window_zero: "take_window k c = (Inr 0, c') \<Longrightarrow> c' = c"
  by (auto simp: take_window_def Let_def split: if_splits)

lemma wait_for_send_window_spec:
  assumes "wait_for_send_window k [] c = (Inr n, c')" "0 \<le> k" "0 \<le> out_window_size c" "64 < out_max_packet_size c"
  shows "0 \<le> n \<and> n \<le> k \<and> n \<le> out_window_size c \<and> n \<le> out_max_packet_size c - 64 \<and>
     c' = c\<lparr>out_window_size := out_window_size c - n\<rparr> \<and> (n \<noteq> 0 \<longrightarrow> \<not> ch_closed c \<and> \<not> eof_sent c)"
proof -
  have "n = 0 \<and> c' = c \<or> take_window k c = (Inr n, c')"
    using assms(1) by (auto simp: wait_for_send_window_def window_wait.simps bindS_def retS_def split: if_splits)
  with take_window_spec [of k c n c'] assms(2-4) show ?thesis by auto
qed

lemma send_locked_spec:
  assumes "send_locked d hdr [] c = (Inr (n, m), c')" "0 \<le> out_window_size c" "64 < out_max_packet_size c"
    "list_all chan_field hdr"
  shows "m = None \<and> c' = c \<or>
     (\<exists>k. m = Some (concat (map enc_field hdr) @ enc_string (take k d)) \<and> 0 < k \<and> k \<le> length d \<and>
        int k \<le> out_window_size c \<and> int k \<le> out_max_packet_size c - 64 \<and> \<not> ch_closed c \<and> \<not> eof_sent c \<and>
        c' = c\<lparr>out_window_size := out_window_size c - int k\<rparr>)"
proof -
  obtain k c1 where k: "wait_for_send_window (int (length d)) [] c = (Inr k, c1)" "\<not> ch_closed c"
    using assms(1) by (auto simp: send_locked_def bindS_def split: if_splits prod.splits sum.splits)
  have w: "0 \<le> k" "k \<le> int (length d)" "k \<le> out_window_size c" "k \<le> out_max_packet_size c - 64"
    "c1 = c\<lparr>out_window_size := out_window_size c - k\<rparr>" "k \<noteq> 0 \<longrightarrow> \<not> ch_closed c \<and> \<not> eof_sent c"
    using wait_for_send_window_spec [OF k(1) _ assms(2,3)] by auto
  show ?thesis
  proof (cases "k = 0")
    case True
    with assms(1) k w(5) show ?thesis by (simp add: send_locked_def bindS_def retS_def)
  next
    case False
    then obtain b where b: "built (hdr @ [FString (py_slice d 0 k)]) = Inr b" "m = Some b" "c' = c1"
      using assms(1) k by (auto simp: send_locked_def bindS_def retS_def liftR_def split: sum.splits)
    have "b = concat (map enc_field hdr) @ enc_string (py_slice d 0 k)"
      using built_InrD [OF b(1)] assms(4) by simp
    moreover have "py_slice d 0 k = take (nat k) d" using w by (simp add: py_slice_zero)
    ultimately show ?thesis
      using b w False by (intro disjI2 exI [of _ "nat k"]) auto
  qed
qed

lemma accept_msgs:
  "accept_msg Streaming (MSG_CHANNEL_EOF # xs) = Some Ended"
  "accept_msg Ended (MSG_CHANNEL_CLOSE # xs) = Some Finished"
  "is_data b \<Longrightarrow> accept_msg Streaming b = Some Streaming"
  "data_len (MSG_CHANNEL_EOF # xs) = 0" "data_len (MSG_CHANNEL_CLOSE # xs) = 0"
  by (simp_all add: accept_msg_def is_data_def is_msg_def data_len_def msg_defs)

lemma note_simps [simp]:
  "chan (note_msg m s) = chan s" "announced (note_msg m s) = announced s" "granted (note_msg m s) = granted s"
  "built_log (note_msg m s) = built_log s @ (case m of None \<Rightarrow> [] | Some b \<Rightarrow> [b])"
  "pending (note_msg m s) = pending s @ (case m of None \<Rightarrow> [] | Some b \<Rightarrow> [b])"
  by (simp_all add: note_msg_def split: option.split)

lemma phase_streaming: "send_inv s \<Longrightarrow> \<not> eof_sent (chan s) \<Longrightarrow> accepts Streaming (built_log s) = Some Streaming"
  by (auto simp: send_inv_def)

lemma note_data:
  assumes "send_inv s" "send_locked d hdr [] (chan s) = (Inr (n, m), c)"
    and "hdr = data_head (chan s) \<or> hdr = stderr_head (chan s)"
  shows "send_inv (note_msg m (s\<lparr>chan := c\<rparr>))"
proof -
  have f: "list_all chan_field hdr" using assms(3) by (auto simp: data_head_def stderr_head_def)
  have i: "0 \<le> out_window_size (chan s)" "64 < out_max_packet_size (chan s)" using assms(1) by (auto simp: send_inv_def)
  from send_locked_spec [OF assms(2) i f] show ?thesis
  proof
    assume "m = None \<and> c = chan s"
    with assms(1) show ?thesis by (simp add: send_inv_def)
  next
    assume "\<exists>k. m = Some (concat (map enc_field hdr) @ enc_string (take k d)) \<and> 0 < k \<and> k \<le> length d \<and>
        int k \<le> out_window_size (chan s) \<and> int k \<le> out_max_packet_size (chan s) - 64 \<and> \<not> ch_closed (chan s) \<and>
        \<not> eof_sent (chan s) \<and> c = (chan s)\<lparr>out_window_size := out_window_size (chan s) - int k\<rparr>"
    then obtain k where k: "m = Some (concat (map enc_field hdr) @ enc_string (take k d))" "k \<le> length d"
      "int k \<le> out_window_size (chan s)" "int k \<le> out_max_packet_size (chan s) - 64" "\<not> eof_sent (chan s)"
      "c = (chan s)\<lparr>out_window_size := out_window_size (chan s) - int k\<rparr>" by blast
    let ?b = "concat (map enc_field hdr) @ enc_string (take k d)"
    have b: "data_len ?b = k" "is_data ?b"
      using assms(3) k(2) data_len_message by (auto simp: data_head_def stderr_head_def)
    show ?thesis
      using assms(1) k b phase_streaming [OF assms(1) k(5)]
      by (auto simp: send_inv_def accepts_append accept_msgs)
  qed
qed

lemma send_eof_spec:
  "send_eof c = (Inr m, c') \<Longrightarrow>
     (m = None \<and> c' = c \<and> eof_sent c) \<or>
     (m = Some (MSG_CHANNEL_EOF # be_bytes 4 (remote_chanid c)) \<and> \<not> eof_sent c \<and> c' = c\<lparr>eof_sent := True\<rparr>)"
  by (auto simp: send_eof_def bindS_def liftR_def split: if_splits sum.splits dest: built_InrD)

lemma note_eof: "send_inv s \<Longrightarrow> send_eof (chan s) = (Inr m, c) \<Longrightarrow> send_inv (note_msg m (s\<lparr>chan := c\<rparr>)) \<and> eof_sent c"
proof -
  assume i: "send_inv s" and e: "send_eof (chan s) = (Inr m, c)"
  from send_eof_spec [OF e] show ?thesis
  proof (elim disjE conjE)
    assume "m = None" "c = chan s" "eof_sent (chan s)"
    with i show ?thesis by (simp add: send_inv_def)
  next
    assume "m = Some (MSG_CHANNEL_EOF # be_bytes 4 (remote_chanid (chan s)))" "\<not> eof_sent (chan s)"
      "c = (chan s)\<lparr>eof_sent := True\<rparr>"
    with i phase_streaming [OF i] show ?thesis by (auto simp: send_inv_def accepts_append accept_msgs)
  qed
qed

lemma close_internal_spec:
  assumes "close_internal c = (Inr [m1, m2], c')"
  shows "(m1 = None \<and> m2 = None \<and> c' = c) \<or>
     (\<exists>c1. \<not> ch_closed c \<and> send_eof c = (Inr m1, c1) \<and> m2 = Some (MSG_CHANNEL_CLOSE # be_bytes 4 (remote_chanid c)) \<and>
           c' = set_closed c1)"
  using assms
  by (auto simp: close_internal_def bindS_def liftR_def modS_def retS_def split: if_splits prod.splits sum.splits dest: built_InrD)

lemma note_close:
  assumes "send_inv s" "close_internal (chan s) = (Inr [m1, m2], c)"
  shows "send_inv (note_msg m2 (note_msg m1 (s\<lparr>chan := c\<rparr>)))"
  using close_internal_spec [OF assms(2)]
proof (elim disjE exE conjE)
  assume "m1 = None" "m2 = None" "c = chan s"
  with assms(1) show ?thesis by (simp add: send_inv_def)
next
  fix c1 assume c: "\<not> ch_closed (chan s)" "send_eof (chan s) = (Inr m1, c1)"
    "m2 = Some (MSG_CHANNEL_CLOSE # be_bytes 4 (remote_chanid (chan s)))" "c = set_closed c1"
  have e: "send_inv (note_msg m1 (s\<lparr>chan := c1\<rparr>))" "eof_sent c1" using note_eof [OF assms(1) c(2)] by auto
  have "\<not> ch_closed c1" using send_eof_spec [OF c(2)] c(1) by auto
  with e have "accepts Streaming (built_log s @ (case m1 of None \<Rightarrow> [] | Some b \<Rightarrow> [b])) = Some Ended"
    by (auto simp: send_inv_def split: out_phase.splits) (metis out_phase.exhaust)
  with e c show ?thesis
    by (auto simp: send_inv_def accepts_append accept_msgs set_closed_def split: option.splits)
qed

lemma list_split_mset: "mset (xs @ b # ys) = mset (xs @ ys) + {#b#}"
  by simp

text \<open>The operations of the receiving side are no business of the sending side.\<close>

lemma check_add_window_view: "check_add_window k c = (ack, c') \<Longrightarrow> send_view c' = send_view c \<and> outbox c' = outbox c"
  by (auto simp: check_add_window_def Let_def send_view_def split: if_splits)

lemma built_adjust: "built (adjust_fields ack c) = Inr b \<Longrightarrow>
    b = MSG_CHANNEL_WINDOW_ADJUST # be_bytes 4 (remote_chanid c) @ be_bytes 4 ack"
  by (auto simp: adjust_fields_def dest: built_InrD)

lemma adjust_aside: "aside (MSG_CHANNEL_WINDOW_ADJUST # xs)"
  by (simp add: aside_def is_data_def flow_defs)

lemma feed_view:
  "send_view (feed_data d c) = send_view c" "outbox (feed_data d c) = outbox c"
  "ch_feed m c = (r, c') \<Longrightarrow> send_view c' = send_view c \<and> outbox c' = outbox c"
  "feed_extended m c = (r, c') \<Longrightarrow> send_view c' = send_view c \<and> outbox c' = outbox c"
  "combine_locked b c = (x, c') \<Longrightarrow> send_view c' = send_view c \<and> outbox c' = outbox c"
  by (auto simp: feed_data_def send_view_def ch_feed_def feed_extended_def raiseS_def retS_def modS_def combine_locked_def
      Let_def split: sum.splits prod.splits if_splits)

lemma arrived_simps [simp]:
  "chan (arrived n s) = chan s" "pending (arrived n s) = pending s" "built_log (arrived n s) = built_log s"
  "announced (arrived n s) = announced s" "granted (arrived n s) = granted s" "held (arrived n s) = held s" "moving (arrived n s) = moving s"
  "received (arrived n s) = received s + int n" "discarded (arrived n s) = discarded s" "lost (arrived n s) = lost s"
  "polite (arrived n s) = (polite s \<and> int n \<le> peer_window s)"
  by (simp_all add: arrived_def)

lemma get_int_range: "get_int m = (Inr n, m') \<Longrightarrow> 0 \<le> n"
  by (auto simp: get_int_def bindS_def liftR_def unpack_be_def be_int_nonneg split: prod.splits sum.splits if_splits)

inductive_cases chan_stepE: "chan_step s t"

interpretation chan_send: step_invariant chan_init chan_step send_inv
proof
  fix s assume "chan_init s"
  moreover have "64 < sanitize_packet_size d w" for d w using sanitized_packet [of d w] by linarith
  ultimately show "send_inv s"
    by (auto simp: chan_init_def send_inv_def sent_by_def set_remote_channel_def set_window_def new_channel_def)
next
  fix s t assume i: "send_inv s" and "chan_step s t"
  from this(2) show "send_inv t"
  proof cases
    case (s_peer_close m1 m2 c)
    have "send_quiet (note_msg m2 (note_msg m1 (s\<lparr>chan := c\<rparr>))) t"
      unfolding s_peer_close by (rule send_quietI) (simp_all add: send_view_def)
    from send_quiet_inv [OF this note_close [OF i s_peer_close(2)]] show ?thesis .
  next
    case (s_hand_over xs b ys)
    then show ?thesis using i by (auto simp: send_inv_def send_user_def)
  next
    case (s_adjust m n m' c)
    then have "0 \<le> n" "c = (chan s)\<lparr>out_window_size := out_window_size (chan s) + n\<rparr>"
      by (auto simp: get_int_range window_adjust_def modS_def)
    with i s_adjust show ?thesis by (auto simp: send_inv_def)
  next
    case (s_acknowledge xs k ys ack c b)
    have "aside b" using built_adjust [OF s_acknowledge(5)] adjust_aside by simp
    with check_add_window_view [OF s_acknowledge(3)] have "send_quiet s t"
      unfolding s_acknowledge by (auto simp: send_quiet_def send_view_def intro!: exI [of _ "[b]"])
    with i show ?thesis by (rule send_quiet_inv [rotated])
  next
    case (s_request server m r c)
    show ?thesis unfolding s_request by (rule send_quiet_inv [OF direct_quiet i]) (rule neutral_ops(3) [OF s_request(2)])
  next
    case (s_ask key fs r c)
    show ?thesis unfolding s_ask by (rule send_quiet_inv [OF direct_quiet i]) (rule neutral_ops(2) [OF s_ask(2,3)])
  next
    case (s_tell key fs r c)
    show ?thesis unfolding s_tell by (rule send_quiet_inv [OF direct_quiet i]) (rule neutral_ops(1) [OF s_tell(2,3)])
  next
    case (s_unlink)
    have "send_quiet s t" unfolding s_unlink
      by (auto simp: send_quiet_def ch_unlink_def set_closed_def intro!: exI [of _ "[]"])
    with i show ?thesis by (rule send_quiet_inv [rotated])
  qed (use i in \<open>auto simp: note_data note_close note_eof send_view_def feed_data_def handle_eof_def request_success_def settimeout_def
         dest!: check_add_window_view feed_view(3-5) intro!: send_quiet_inv [OF send_quietI i]\<close>)
qed

section \<open>The receiving side\<close>

definition grants :: "bytes list \<Rightarrow> int" where
  "grants bs = sum_list (map grant bs)"

lemma grants_simps [simp]: "grants [] = 0" "grants (b # bs) = grant b + grants bs" "grants (xs @ ys) = grants xs + grants ys"
  by (simp_all add: grants_def)

lemma grant_nonneg: "0 \<le> grant b"
  by (simp add: grant_def be_int_nonneg)

lemma grants_nonneg: "0 \<le> grants bs"
  by (induction bs) (simp_all add: grant_nonneg)

lemma grants_mset: "mset xs + mset ys = mset zs \<Longrightarrow> grants xs + grants ys = grants zs"
proof -
  assume "mset xs + mset ys = mset zs"
  then have "sum_mset (image_mset grant (mset (xs @ ys))) = sum_mset (image_mset grant (mset zs))" by simp
  then show ?thesis unfolding grants_def mset_map [symmetric] sum_mset_sum_list by simp
qed

text \<open>The data that has arrived and is neither acknowledged nor given up.\<close>

definition in_store :: "chan_sys \<Rightarrow> int" where
  "in_store s = int (length (pbuffer (in_buffer (chan s)))) + int (length (pbuffer (in_stderr_buffer (chan s)))) +
     int (sum_list (held s)) + int (sum_list (map length (moving s))) + in_window_sofar (chan s)"

definition recv_inv :: "chan_sys \<Rightarrow> bool" where
  "recv_inv s \<longleftrightarrow>
     received s = in_store s + grants (built_log s) + discarded s + lost s \<and>
     0 \<le> in_window_sofar (chan s) \<and> in_window_sofar (chan s) \<le> in_window_threshold (chan s) \<and>
     in_window_threshold (chan s) = in_window_size (chan s) div 10 \<and>
     0 < in_window_size (chan s) \<and> in_window_size (chan s) < 2 ^ 32 \<and> 0 \<le> discarded s \<and> 0 \<le> lost s \<and>
     (polite s \<longrightarrow> received s \<le> in_window_size (chan s) + grants (outbox (chan s))) \<and>
     (polite s \<and> counting (chan s) \<longrightarrow> lost s = 0)"

text \<open>Steps that move no data.\<close>

definition recv_quiet :: "chan_sys \<Rightarrow> chan_sys \<Rightarrow> bool" where
  "recv_quiet s t \<longleftrightarrow>
     pbuffer (in_buffer (chan t)) = pbuffer (in_buffer (chan s)) \<and>
     pbuffer (in_stderr_buffer (chan t)) = pbuffer (in_stderr_buffer (chan s)) \<and>
     in_window_size (chan t) = in_window_size (chan s) \<and> in_window_threshold (chan t) = in_window_threshold (chan s) \<and>
     in_window_sofar (chan t) = in_window_sofar (chan s) \<and> (counting (chan t) \<longrightarrow> counting (chan s)) \<and>
     held t = held s \<and> moving t = moving s \<and> received t = received s \<and> discarded t = discarded s \<and> lost t = lost s \<and>
     polite t = polite s \<and> grants (built_log t) = grants (built_log s) \<and> grants (outbox (chan s)) \<le> grants (outbox (chan t))"

lemma recv_quiet_inv: "recv_quiet s t \<Longrightarrow> recv_inv s \<Longrightarrow> recv_inv t"
  by (auto simp: recv_quiet_def recv_inv_def in_store_def)

lemma note_ghosts [simp]:
  "held (note_msg m s) = held s" "moving (note_msg m s) = moving s" "received (note_msg m s) = received s"
  "discarded (note_msg m s) = discarded s" "lost (note_msg m s) = lost s" "polite (note_msg m s) = polite s"
  by (simp_all add: note_msg_def split: option.split)

text \<open>What one operation of the sending side leaves as it was.\<close>

definition no_grant :: "bytes option \<Rightarrow> bool" where
  "no_grant m \<longleftrightarrow> (case m of None \<Rightarrow> True | Some b \<Rightarrow> grant b = 0)"

definition recv_same :: "channel \<Rightarrow> channel \<Rightarrow> bool" where
  "recv_same c c' \<longleftrightarrow> fst (recv_view c') = fst (recv_view c) \<and> fst (snd (recv_view c')) = fst (snd (recv_view c)) \<and>
     (counting c' \<longrightarrow> counting c) \<and> outbox c' = outbox c"

lemma recv_same_refl [simp]: "recv_same c c"
  by (simp add: recv_same_def)

lemma note_quiet: "recv_same (chan s) c \<Longrightarrow> no_grant m \<Longrightarrow> recv_quiet s (note_msg m (s\<lparr>chan := c\<rparr>))"
  by (auto simp: recv_same_def recv_quiet_def recv_view_def no_grant_def split: option.splits)

lemma note2_quiet:
  "recv_same (chan s) c \<Longrightarrow> no_grant m1 \<Longrightarrow> no_grant m2 \<Longrightarrow> recv_quiet s (note_msg m2 (note_msg m1 (s\<lparr>chan := c\<rparr>)))"
  by (auto simp: recv_same_def recv_quiet_def recv_view_def no_grant_def split: option.splits)

lemma chan_quiet: "recv_same (chan s) c \<Longrightarrow> recv_quiet s (s\<lparr>chan := c\<rparr>)"
  by (auto simp: recv_same_def recv_quiet_def recv_view_def)

lemma granted_quiet: "recv_same (chan s) c \<Longrightarrow> recv_quiet s (s\<lparr>chan := c, granted := g\<rparr>)"
  by (auto simp: recv_same_def recv_quiet_def recv_view_def)

lemma grants_neutral: "list_all neutral bs \<Longrightarrow> grants bs = 0"
  by (induction bs) (auto dest: neutral_flow)

lemma direct_recv_quiet: "says_neutral (chan s) c \<Longrightarrow> recv_quiet s (direct c s)"
  by (auto simp: says_neutral_def recv_quiet_def direct_def recv_view_def grants_neutral)

lemma grant_other:
  "grant (MSG_CHANNEL_DATA # xs) = 0" "grant (MSG_CHANNEL_EXTENDED_DATA # xs) = 0" "grant (MSG_CHANNEL_EOF # xs) = 0"
  "grant (MSG_CHANNEL_CLOSE # xs) = 0"
  by (simp_all add: grant_def msg_defs)

lemma grant_adjust: "0 \<le> n \<Longrightarrow> n < 2 ^ 32 \<Longrightarrow> grant (MSG_CHANNEL_WINDOW_ADJUST # be_bytes 4 rid @ be_bytes 4 n) = n"
  by (simp add: grant_def be_int_be_bytes)

lemma pipe_close_buffer [simp]: "pbuffer (pipe_close p) = pbuffer p"
  by (rule bp.contents_shut)

lemma set_closed_same: "recv_same c (set_closed c)"
  by (auto simp: recv_same_def recv_view_def set_closed_def counting_def)

lemma send_eof_same: "send_eof c = (Inr m, c') \<Longrightarrow> recv_same c c' \<and> no_grant m"
  by (auto dest!: send_eof_spec simp: recv_same_def recv_view_def no_grant_def grant_other)

lemma close_same:
  assumes "close_internal c = (Inr [m1, m2], c')"
  shows "recv_same c c' \<and> no_grant m1 \<and> no_grant m2"
  using close_internal_spec [OF assms]
proof (elim disjE exE conjE)
  fix c1 assume "send_eof c = (Inr m1, c1)" "m2 = Some (MSG_CHANNEL_CLOSE # be_bytes 4 (remote_chanid c))" "c' = set_closed c1"
  moreover from this have "recv_same c c1 \<and> no_grant m1" by (auto dest: send_eof_same)
  ultimately show ?thesis using set_closed_same [of c1]
    by (auto simp: recv_same_def no_grant_def grant_other)
qed (simp add: no_grant_def)

lemma send_locked_same:
  assumes "send_locked d hdr [] c = (Inr (n, m), c')" "0 \<le> out_window_size c" "64 < out_max_packet_size c"
    "hdr = data_head c \<or> hdr = stderr_head c"
  shows "recv_same c c' \<and> no_grant m"
proof -
  have "list_all chan_field hdr" using assms(4) by (auto simp: data_head_def stderr_head_def)
  from send_locked_spec [OF assms(1-3) this] assms(4) show ?thesis
    by (auto simp: recv_same_def recv_view_def no_grant_def data_head_def stderr_head_def grant_other)
qed

text \<open>Reading from a buffer.\<close>

lemma pipe_read_split: "pipe_read n t [] p = Some (Inr out, p') \<Longrightarrow> out @ pbuffer p' = pbuffer p"
  by (auto simp: pipe_read_def pipe_wait.simps pipe_take_def split: if_splits)

lemma pipe_feed_buffer [simp]: "pbuffer (pipe_feed d p) = pbuffer p @ d"
  by (rule bp.contents_feed)

lemma pipe_empty_buffer: "pipe_empty p = (d, p') \<Longrightarrow> d = pbuffer p \<and> pbuffer p' = []"
  using bp.fst_empty [of p] bp.contents_empty [of p] by simp

lemma check_add_window_spec:
  "check_add_window k c = (ack, c') \<Longrightarrow> 0 \<le> in_window_sofar c \<Longrightarrow> 0 \<le> in_window_threshold c \<Longrightarrow>
     (\<not> counting c \<and> ack = 0 \<and> c' = c) \<or>
     (counting c \<and> ack = 0 \<and> c' = c\<lparr>in_window_sofar := in_window_sofar c + int k\<rparr> \<and>
        in_window_sofar c + int k \<le> in_window_threshold c) \<or>
     (counting c \<and> 0 < ack \<and> ack = in_window_sofar c + int k \<and> c' = c\<lparr>in_window_sofar := 0\<rparr>)"
  by (auto simp: check_add_window_def counting_def Let_def split: if_splits)

lemma outbox_grants: "send_inv s \<Longrightarrow> grants (outbox (chan s)) \<le> grants (built_log s)"
  using grants_mset [of "outbox (chan s)" "pending s" "built_log s"] grants_nonneg [of "pending s"]
  by (simp add: send_inv_def)

lemma put_fields_ints: "put_fields fs m = (Inr (), m') \<Longrightarrow> FInt n \<in> set fs \<Longrightarrow> 0 \<le> n \<and> n < 2 ^ 32"
proof (induction fs arbitrary: m)
  case (Cons f fs)
  then obtain m1 where m1: "put_field f m = (Inr (), m1)" "put_fields fs m1 = (Inr (), m')"
    by (auto simp: bindS_def split: prod.splits sum.splits)
  show ?case
  proof (cases "f = FInt n")
    case True
    with m1(1) show ?thesis
      by (auto simp: add_int_def bindS_def liftR_def split: sum.splits dest!: pack_be_InrD)
  next
    case False
    with Cons m1(2) show ?thesis by auto
  qed
qed simp

lemma built_ints: "built fs = Inr b \<Longrightarrow> FInt n \<in> set fs \<Longrightarrow> 0 \<le> n \<and> n < 2 ^ 32"
  by (auto simp: built_def split: prod.splits sum.splits dest: put_fields_ints)

text \<open>Counting what a reader has taken.\<close>

lemma count_inv:
  assumes "send_inv s" "recv_inv s" "held s = xs @ k # ys" "check_add_window k (chan s) = (ack, c)"
  shows "\<not> ack > 0 \<Longrightarrow> recv_inv (s\<lparr>chan := c, held := xs @ ys, lost := lost s + (if counting (chan s) then 0 else int k)\<rparr>)"
    and "ack > 0 \<Longrightarrow> built (adjust_fields ack c) = Inr b \<Longrightarrow> recv_inv (note_msg (Some b) (s\<lparr>chan := c, held := xs @ ys\<rparr>))"
    and "ack > 0 \<Longrightarrow> built (adjust_fields ack c) = Inl e \<Longrightarrow> recv_inv (s\<lparr>chan := c, held := xs @ ys, lost := lost s + ack\<rparr>)"
proof -
  have c: "(\<not> counting (chan s) \<and> ack = 0 \<and> c = chan s) \<or>
     (counting (chan s) \<and> ack = 0 \<and> c = (chan s)\<lparr>in_window_sofar := in_window_sofar (chan s) + int k\<rparr> \<and>
        in_window_sofar (chan s) + int k \<le> in_window_threshold (chan s)) \<or>
     (counting (chan s) \<and> 0 < ack \<and> ack = in_window_sofar (chan s) + int k \<and> c = (chan s)\<lparr>in_window_sofar := 0\<rparr>)"
    using assms(2) by (intro check_add_window_spec [OF assms(4)]) (auto simp: recv_inv_def)
  show "recv_inv (s\<lparr>chan := c, held := xs @ ys, lost := lost s + (if counting (chan s) then 0 else int k)\<rparr>)" if "\<not> ack > 0"
    using c
  proof (elim disjE conjE)
    assume "\<not> counting (chan s)" "c = chan s"
    with assms(2,3) show ?thesis by (auto simp: recv_inv_def in_store_def)
  next
    assume "counting (chan s)" "c = (chan s)\<lparr>in_window_sofar := in_window_sofar (chan s) + int k\<rparr>"
      "in_window_sofar (chan s) + int k \<le> in_window_threshold (chan s)"
    with assms(2,3) show ?thesis by (auto simp: recv_inv_def in_store_def)
  qed (use that in simp)
  { assume a: "ack > 0"
    with c have c: "counting (chan s)" "ack = in_window_sofar (chan s) + int k" "c = (chan s)\<lparr>in_window_sofar := 0\<rparr>" by auto
    show "recv_inv (note_msg (Some b) (s\<lparr>chan := c, held := xs @ ys\<rparr>))" if b: "built (adjust_fields ack c) = Inr b"
    proof -
      have "ack < 2 ^ 32"
        using built_ints [OF b, of ack] by (simp add: adjust_fields_def)
      then have "grant b = ack" using a built_adjust [OF b] grant_adjust by simp
      then show ?thesis using c assms(2,3) by (auto simp: recv_inv_def in_store_def)
    qed
    show "recv_inv (s\<lparr>chan := c, held := xs @ ys, lost := lost s + ack\<rparr>)" if e: "built (adjust_fields ack c) = Inl e"
    proof -
      have "\<not> polite s"
      proof
        assume "polite s"
        then have "received s \<le> in_window_size (chan s) + grants (built_log s)"
          using assms(2) outbox_grants [OF assms(1)] by (auto simp: recv_inv_def)
        then have "ack \<le> in_window_size (chan s)" using assms(2,3) c(2) by (auto simp: recv_inv_def in_store_def)
        then have "list_all ok_field (adjust_fields ack c)"
          using a c(3) assms(1,2) by (auto simp: adjust_fields_def send_inv_def recv_inv_def)
        from built_ok [OF this] e show False by simp
      qed
      then show ?thesis using a c assms(2,3) by (auto simp: recv_inv_def in_store_def)
    qed }
qed

text \<open>Data arriving, and moving between the buffers.\<close>

lemma peer_window_grants: "peer_window s = in_window_size (chan s) - received s + grants (outbox (chan s))"
  by (simp add: peer_window_def grants_def)

lemma data_inv:
  assumes "recv_inv s" "get_binary m = (Inr d, m')" "ch_feed m (chan s) = (Inr (), c)"
  shows "recv_inv ((arrived (length d) s)\<lparr>chan := c\<rparr>)"
proof -
  have "c = feed_data d (chan s)" using assms(2,3) by (simp add: ch_feed_def modS_def)
  with assms(1) show ?thesis
    by (auto simp: recv_inv_def in_store_def feed_data_def peer_window_grants)
qed

lemma extended_inv:
  assumes "recv_inv s" "bindS get_int (\<lambda>code. bindS get_binary (\<lambda>d. retS (code, d))) m = (Inr (code, d), m')"
    "feed_extended m (chan s) = (Inr (), c)"
  shows "recv_inv ((arrived (length d) s)\<lparr>chan := c, discarded := discarded s + (if code = 1 then 0 else int (length d))\<rparr>)"
proof -
  have "c = (if code \<noteq> 1 then chan s else if combine_stderr (chan s) then feed_data d (chan s)
      else (chan s)\<lparr>in_stderr_buffer := pipe_feed d (in_stderr_buffer (chan s))\<rparr>)"
    using assms(2,3) by (auto simp: feed_extended_def modS_def retS_def split: if_splits)
  with assms(1) show ?thesis
    by (auto simp: recv_inv_def in_store_def feed_data_def peer_window_grants)
qed

lemma combine_inv:
  assumes "recv_inv s" "combine_locked b (chan s) = ((old, d), c)"
  shows "recv_inv (s\<lparr>chan := c, moving := moving s @ [d]\<rparr>)"
proof -
  obtain d' p' where p: "pipe_empty (in_stderr_buffer (chan s)) = (d', p')" by fastforce
  show ?thesis
  proof (cases "b \<and> \<not> combine_stderr (chan s)")
    case True
    then have "c = (chan s)\<lparr>combine_stderr := b, in_stderr_buffer := p'\<rparr>" "d = d'"
      using assms(2) by (auto simp: combine_locked_def Let_def p)
    with assms(1) pipe_empty_buffer [OF p] show ?thesis by (auto simp: recv_inv_def in_store_def)
  next
    case False
    then have "c = (chan s)\<lparr>combine_stderr := b\<rparr>" "d = []"
      using assms(2) by (auto simp: combine_locked_def Let_def split: if_splits)
    with assms(1) show ?thesis by (auto simp: recv_inv_def in_store_def)
  qed
qed

interpretation chan_recv: step_invariant_with chan_init chan_step send_inv recv_inv
proof
  fix s assume "chan_init s"
  moreover have "0 < sanitize_window_size d w" "0 \<le> sanitize_window_size d w" "sanitize_window_size d w < 2 ^ 32" for d w
    using sanitized_window [of d w] by linarith+
  ultimately show "recv_inv s"
    by (auto simp: chan_init_def recv_inv_def in_store_def set_remote_channel_def set_window_def new_channel_def new_pipe_def
        pos_imp_zdiv_nonneg_iff)
next
  fix s t assume si: "send_inv s" and i: "recv_inv s" and "chan_step s t"
  have w: "0 \<le> out_window_size (chan s)" "64 < out_max_packet_size (chan s)" using si by (auto simp: send_inv_def)
  from \<open>chan_step s t\<close> show "recv_inv t"
  proof cases
    case (s_send d n m c)
    with send_locked_same [OF s_send(2) w] i show ?thesis by (auto intro: recv_quiet_inv [OF note_quiet])
  next
    case (s_send_stderr d n m c)
    with send_locked_same [OF s_send_stderr(2) w] i show ?thesis by (auto intro: recv_quiet_inv [OF note_quiet])
  next
    case (s_close m1 m2 c)
    with close_same [OF s_close(2)] i show ?thesis by (auto intro: recv_quiet_inv [OF note2_quiet])
  next
    case (s_peer_close m1 m2 c)
    have "recv_same (chan s) (c\<lparr>linked := False\<rparr>)"
      using close_same [OF s_peer_close(2)] by (simp add: recv_same_def recv_view_def)
    with s_peer_close close_same [OF s_peer_close(2)] i show ?thesis by (auto intro: recv_quiet_inv [OF note2_quiet])
  next
    case (s_shutdown_write m c)
    with send_eof_same [OF s_shutdown_write(2)] i show ?thesis by (auto intro: recv_quiet_inv [OF note_quiet])
  next
    case s_shutdown_read
    then show ?thesis using i by (auto simp: recv_same_def recv_view_def counting_def intro!: recv_quiet_inv [OF chan_quiet])
  next
    case s_unlink
    then show ?thesis using i set_closed_same [of "chan s"]
      by (auto simp: ch_unlink_def recv_same_def recv_view_def intro!: recv_quiet_inv [OF chan_quiet])
  next
    case s_peer_eof
    then show ?thesis using i
      by (auto simp: handle_eof_def recv_same_def recv_view_def counting_def intro!: recv_quiet_inv [OF chan_quiet])
  next
    case (s_hand_over xs b ys)
    have "recv_quiet s t" using grant_nonneg [of b]
      unfolding s_hand_over by (simp add: recv_quiet_def send_user_def)
    with i show ?thesis by (rule recv_quiet_inv [rotated])
  next
    case (s_read n out p)
    with arg_cong [OF pipe_read_split [OF s_read(2)], of length] i show ?thesis
      by (auto simp: recv_inv_def in_store_def)
  next
    case (s_read_stderr n out p)
    with arg_cong [OF pipe_read_split [OF s_read_stderr(2)], of length] i show ?thesis
      by (auto simp: recv_inv_def in_store_def)
  next
    case (s_count xs k ys ack c)
    then show ?thesis using count_inv(1) [OF si i] by blast
  next
    case (s_acknowledge xs k ys ack c b)
    then show ?thesis using count_inv(2) [OF si i] by blast
  next
    case (s_acknowledge_fails xs k ys ack c e)
    then show ?thesis using count_inv(3) [OF si i] by blast
  next
    case (s_data m d m' c)
    then show ?thesis using data_inv [OF i] by blast
  next
    case (s_extended m code d m' c)
    then show ?thesis using extended_inv [OF i] by blast
  next
    case (s_adjust m n m' c)
    then show ?thesis using i
      by (auto simp: window_adjust_def modS_def recv_same_def recv_view_def intro!: recv_quiet_inv [OF granted_quiet])
  next
    case (s_combine b old d c)
    then show ?thesis using combine_inv [OF i] by blast
  next
    case (s_combined xs d ys)
    then show ?thesis using i by (auto simp: recv_inv_def in_store_def feed_data_def)
  next
    case (s_request server m r c)
    show ?thesis unfolding s_request by (rule recv_quiet_inv [OF direct_recv_quiet i]) (rule neutral_ops(3) [OF s_request(2)])
  next
    case (s_ask key fs r c)
    show ?thesis unfolding s_ask by (rule recv_quiet_inv [OF direct_recv_quiet i]) (rule neutral_ops(2) [OF s_ask(2,3)])
  next
    case (s_tell key fs r c)
    show ?thesis unfolding s_tell by (rule recv_quiet_inv [OF direct_recv_quiet i]) (rule neutral_ops(1) [OF s_tell(2,3)])
  next
    case s_success
    then show ?thesis using i
      by (auto simp: request_success_def recv_same_def recv_view_def intro!: recv_quiet_inv [OF chan_quiet])
  next
    case (s_timeout tm)
    then show ?thesis using i
      by (auto simp: settimeout_def recv_same_def recv_view_def intro!: recv_quiet_inv [OF chan_quiet])
  qed
qed

section \<open>A run\<close>

text \<open>A channel on which one thread is about to send a byte when another one closes it.\<close>

definition demo_chan :: channel where
  "demo_chan = set_remote_channel 7 100 5000 (set_window (sanitize_window_size DEFAULT_WINDOW_SIZE None) 32768 (new_channel 0))"

definition demo_sys :: "channel \<Rightarrow> bytes list \<Rightarrow> bytes list \<Rightarrow> chan_sys" where
  "demo_sys c p l = \<lparr>chan = c, pending = p, held = [], moving = [], built_log = l, announced = 5000, granted = 100, received = 0,
     discarded = 0, lost = 0, polite = True\<rparr>"

definition demo_data :: bytes where "demo_data = MSG_CHANNEL_DATA # be_bytes 4 7 @ enc_string [1]"
definition demo_eof :: bytes where "demo_eof = MSG_CHANNEL_EOF # be_bytes 4 7"
definition demo_close :: bytes where "demo_close = MSG_CHANNEL_CLOSE # be_bytes 4 7"

definition demo_sent :: channel where "demo_sent = demo_chan\<lparr>out_window_size := 99\<rparr>"
definition demo_closed :: channel where "demo_closed = set_closed (demo_sent\<lparr>eof_sent := True\<rparr>)"

lemma demo_chan_simps [simp]:
  "remote_chanid demo_chan = 7" "out_window_size demo_chan = 100" "out_max_packet_size demo_chan = 5000"
  "\<not> ch_closed demo_chan" "\<not> eof_sent demo_chan" "ch_active demo_chan" "outbox demo_chan = []"
  "remote_chanid demo_sent = 7" "\<not> ch_closed demo_sent" "\<not> eof_sent demo_sent" "ch_active demo_sent" "outbox demo_sent = []"
  by (simp_all add: demo_sent_def demo_chan_def set_remote_channel_def set_window_def new_channel_def
      sanitize_packet_size_def clamp_value_def MIN_PACKET_SIZE_def MAX_WINDOW_SIZE_def)

lemma demo_sys_simps:
  "chan (demo_sys c p l) = c" "pending (demo_sys c p l) = p" "built_log (demo_sys c p l) = l"
  by (simp_all add: demo_sys_def)

lemma window_starts_open: "1 \<le> peer_window (demo_sys demo_chan [] [])"
  using sanitized_window [of DEFAULT_WINDOW_SIZE None]
  by (simp add: peer_window_def demo_sys_def demo_chan_def set_remote_channel_def set_window_def new_channel_def)

lemma demo_init: "chan_reachable (demo_sys demo_chan [] [])"
  by (rule reachable.initially)
     (unfold chan_init_def demo_sys_def demo_chan_def,
       rule exI [of _ 0], rule exI [of _ 7], rule exI [of _ None], rule exI [of _ 32768], rule exI [of _ 100],
       rule exI [of _ 5000], simp)

lemma demo_send: "send_locked [1] (data_head demo_chan) [] demo_chan = (Inr (1, Some demo_data), demo_sent)"
proof -
  have "list_all ok_field (data_head demo_chan @ [FString [1]])" by (simp add: data_head_def ok_string_def)
  from built_ok [OF this] show ?thesis
    by (simp add: send_locked_def wait_for_send_window_def window_wait.simps take_window_def bindS_def liftR_def retS_def
        demo_data_def data_head_def demo_sent_def py_slice_def py_index_def)
qed

lemma demo_close_internal: "close_internal demo_sent = (Inr [Some demo_eof, Some demo_close], demo_closed)"
proof -
  have "list_all ok_field [FByte t, FInt 7]" for t by simp
  note b = built_ok [OF this]
  show ?thesis
    by (simp add: close_internal_def send_eof_def bindS_def liftR_def modS_def retS_def b demo_closed_def
        demo_eof_def demo_close_def)
qed

lemma demo_sending: "chan_reachable (demo_sys demo_sent [demo_data] [demo_data])"
  by (rule reachable.after_step [OF demo_init])
     (use s_send [where d = "[1]" and s = "demo_sys demo_chan [] []", unfolded demo_sys_simps(1), OF demo_send] in
       \<open>simp add: demo_sys_def note_msg_def\<close>)

lemma demo_closing:
  "chan_reachable (demo_sys demo_closed [demo_data, demo_eof, demo_close] [demo_data, demo_eof, demo_close])"
  by (rule reachable.after_step [OF demo_sending])
     (use s_close [where s = "demo_sys demo_sent [demo_data] [demo_data]", unfolded demo_sys_simps(1), OF demo_close_internal] in
       \<open>simp add: demo_sys_def note_msg_def\<close>)

text \<open>The lock is released before a message is handed over: a run in which data follows the close.\<close>

lemma data_after_close: "\<exists>s. chan_reachable s \<and> outbox (chan s) = [demo_eof, demo_close, demo_data] \<and> is_data demo_data"
proof -
  let ?l = "[demo_data, demo_eof, demo_close]"
  let ?c1 = "send_user demo_eof demo_closed"
  let ?c2 = "send_user demo_close ?c1"
  have "chan_reachable (demo_sys ?c1 [demo_data, demo_close] ?l)"
    by (rule reachable.after_step [OF demo_closing])
       (use s_hand_over [of "demo_sys demo_closed ?l ?l" "[demo_data]" demo_eof "[demo_close]"] in \<open>simp add: demo_sys_def\<close>)
  then have "chan_reachable (demo_sys ?c2 [demo_data] ?l)"
    by (rule reachable.after_step)
       (use s_hand_over [of "demo_sys ?c1 [demo_data, demo_close] ?l" "[demo_data]" demo_close "[]"] in \<open>simp add: demo_sys_def\<close>)
  then have "chan_reachable (demo_sys (send_user demo_data ?c2) [] ?l)"
    by (rule reachable.after_step)
       (use s_hand_over [of "demo_sys ?c2 [demo_data] ?l" "[]" demo_data "[]"] in \<open>simp add: demo_sys_def\<close>)
  moreover have "outbox demo_closed = []" by (simp add: demo_closed_def set_closed_def)
  ultimately show ?thesis
    by (intro exI [of _ "demo_sys (send_user demo_data ?c2) [] ?l"])
       (simp add: demo_sys_def send_user_def demo_data_def data_len_message)
qed

section \<open>What is handed over\<close>

text \<open>The automaton accepts one end of the stream and one close; handing over may change the order of the messages but
  not their number.\<close>

definition count_msg :: "byte \<Rightarrow> bytes list \<Rightarrow> nat" where
  "count_msg t bs = length (filter (is_msg t) bs)"

lemma count_simps [simp]: "count_msg t [] = 0" "count_msg t (b # bs) = (if is_msg t b then 1 else 0) + count_msg t bs"
  by (simp_all add: count_msg_def)

definition ends_in :: "out_phase \<Rightarrow> nat" where "ends_in ph = (if ph = Streaming then 0 else 1)"
definition closes_in :: "out_phase \<Rightarrow> nat" where "closes_in ph = (if ph = Finished then 1 else 0)"

lemma accept_msg_counts:
  "accept_msg ph b = Some ph' \<Longrightarrow>
     ends_in ph' = ends_in ph + (if is_msg MSG_CHANNEL_EOF b then 1 else 0) \<and>
     closes_in ph' = closes_in ph + (if is_msg MSG_CHANNEL_CLOSE b then 1 else 0)"
  by (cases "b = []") (auto simp: accept_msg_def is_data_def is_msg_def ends_in_def closes_in_def msg_defs split: if_splits)

lemma accepts_counts:
  "accepts ph bs = Some ph' \<Longrightarrow>
     ends_in ph' = ends_in ph + count_msg MSG_CHANNEL_EOF bs \<and> closes_in ph' = closes_in ph + count_msg MSG_CHANNEL_CLOSE bs"
proof (induction bs arbitrary: ph)
  case (Cons b bs)
  then obtain q where "accept_msg ph b = Some q" "accepts q bs = Some ph'" by (auto split: option.splits)
  with Cons.IH [of q] accept_msg_counts [of ph b q] show ?case by auto
qed simp

lemma count_mset: "mset xs + mset ys = mset zs \<Longrightarrow> count_msg t xs + count_msg t ys = count_msg t zs"
proof -
  assume "mset xs + mset ys = mset zs"
  then have "mset (xs @ ys) = mset zs" by simp
  then have "mset (filter (is_msg t) (xs @ ys)) = mset (filter (is_msg t) zs)" by (simp only: mset_filter)
  then have "length (filter (is_msg t) (xs @ ys)) = length (filter (is_msg t) zs)" by (rule mset_eq_length)
  then show ?thesis by (simp add: count_msg_def)
qed

text \<open>Runs in which a method hands over its messages, in their order, before anything else happens on the channel: those
  of a program that uses the channel from one thread and does not close it from the transport's thread meanwhile.\<close>

definition prompt_step :: "chan_sys \<Rightarrow> chan_sys \<Rightarrow> bool" where
  "prompt_step s t \<longleftrightarrow> chan_step s t \<and>
     (pending s = [] \<or> (\<exists>b ys. pending s = b # ys \<and> t = s\<lparr>chan := send_user b (chan s), pending := ys\<rparr>))"

abbreviation promptly_reachable :: "chan_sys \<Rightarrow> bool" where
  "promptly_reachable \<equiv> reachable chan_init prompt_step"

definition in_order :: "chan_sys \<Rightarrow> bool" where
  "in_order s \<longleftrightarrow> built_log s = outbox (chan s) @ pending s"

lemma send_eof_outbox: "send_eof c = (Inr m, c') \<Longrightarrow> outbox c' = outbox c"
  by (auto dest: send_eof_spec)

lemma close_outbox: "close_internal c = (Inr [m1, m2], c') \<Longrightarrow> outbox c' = outbox c"
  by (auto simp: set_closed_def dest!: close_internal_spec send_eof_outbox)

lemma send_locked_outbox:
  assumes "send_inv s" "send_locked d hdr [] (chan s) = (Inr (n, m), c)" "hdr = data_head (chan s) \<or> hdr = stderr_head (chan s)"
  shows "outbox c = outbox (chan s)"
proof -
  have f: "list_all chan_field hdr" using assms(3) by (auto simp: data_head_def stderr_head_def)
  from send_locked_spec [OF assms(2) _ _ f] assms(1) show ?thesis by (auto simp: send_inv_def)
qed

lemma direct_in_order: "says_neutral (chan s) c \<Longrightarrow> pending s = [] \<Longrightarrow> in_order s \<Longrightarrow> in_order (direct c s)"
  by (auto simp: in_order_def direct_def says_neutral_def)

lemma prompt_in_order:
  assumes "send_inv s" "in_order s" "chan_step s t" "pending s = []"
  shows "in_order t"
  using assms(3)
proof cases
  case (s_request server m r c)
  show ?thesis unfolding s_request by (rule direct_in_order [OF neutral_ops(3) [OF s_request(2)] assms(4,2)])
next
  case (s_ask key fs r c)
  show ?thesis unfolding s_ask by (rule direct_in_order [OF neutral_ops(2) [OF s_ask(2,3)] assms(4,2)])
next
  case (s_tell key fs r c)
  show ?thesis unfolding s_tell by (rule direct_in_order [OF neutral_ops(1) [OF s_tell(2,3)] assms(4,2)])
next
  case (s_send d n m c)
  with send_locked_outbox [OF assms(1) s_send(2)] assms(2,4) show ?thesis by (simp add: in_order_def)
next
  case (s_send_stderr d n m c)
  with send_locked_outbox [OF assms(1) s_send_stderr(2)] assms(2,4) show ?thesis by (simp add: in_order_def)
next
  case (s_adjust m n m' c)
  with assms(2,4) show ?thesis by (auto simp: in_order_def window_adjust_def modS_def bindS_def split: prod.splits sum.splits)
qed (use assms(2,4) in \<open>auto simp: in_order_def feed_data_def handle_eof_def request_success_def settimeout_def ch_unlink_def set_closed_def
       dest!: close_outbox send_eof_outbox check_add_window_view feed_view(3-5)\<close>)

interpretation chan_prompt: step_invariant_with chan_init prompt_step send_inv in_order
proof
  fix s t assume "send_inv s" "prompt_step s t"
  then show "send_inv t" by (auto simp: prompt_step_def intro: chan_send.preserved)
next
  fix s t assume a: "send_inv s" "in_order s" "prompt_step s t"
  show "in_order t"
  proof (cases "pending s = []")
    case True
    with a show ?thesis using prompt_in_order by (auto simp: prompt_step_def)
  next
    case False
    with a show ?thesis by (auto simp: prompt_step_def in_order_def send_user_def)
  qed
next
  fix s assume "chan_init s"
  then show "in_order s" by (auto simp: chan_init_def in_order_def set_remote_channel_def set_window_def new_channel_def)
qed (rule chan_send.initial)

section \<open>Properties of the flow\<close>

text \<open>C16. Flow control when sending: in every interleaving of the program's threads with the transport, the data
  handed over never exceeds the window the peer has granted, and no message carries more data than the packet size the
  channel goes by, less 64 bytes. That size is the one the peer has announced, but raised to 4096 when it announced less
  (and lowered to \<open>2 ^ 32 - 1\<close>): a peer that announces at least 4096 is never sent more than it announced less 64
  bytes, a peer that announces less may be (\<open>small_packet_exceeded\<close>).\<close>

theorem sends_within_window:
  "chan_reachable s \<Longrightarrow>
     int (sum_list (map data_len (outbox (chan s)))) + out_window_size (chan s) \<le> granted s \<and>
     0 \<le> out_window_size (chan s) \<and>
     out_max_packet_size (chan s) = max 4096 (min (announced s) (2 ^ 32 - 1)) \<and>
     (\<forall>b \<in> set (outbox (chan s)). int (data_len b) \<le> max 4096 (min (announced s) (2 ^ 32 - 1)) - 64)"
proof -
  assume "chan_reachable s"
  then have i: "send_inv s" by (rule chan_send.always)
  then have m: "mset (outbox (chan s)) + mset (pending s) = mset (built_log s)" by (simp add: send_inv_def)
  then have "sum_mset (image_mset data_len (mset (outbox (chan s) @ pending s))) = sum_mset (image_mset data_len (mset (built_log s)))"
    by simp
  then have "sum_list (map data_len (outbox (chan s))) + sum_list (map data_len (pending s)) = sum_list (map data_len (built_log s))"
    unfolding mset_map [symmetric] sum_mset_sum_list by simp
  moreover have "set (outbox (chan s)) \<subseteq> set (built_log s)" using arg_cong [OF m, of set_mset] by auto
  moreover have "out_max_packet_size (chan s) = max 4096 (min (announced s) (2 ^ 32 - 1))"
    using i by (simp add: send_inv_def sent_by_def sanitize_packet_size_def clamp_value_def MIN_PACKET_SIZE_def MAX_WINDOW_SIZE_def)
  ultimately show ?thesis using i by (auto simp: send_inv_def)
qed

theorem sends_within_window_witness:
  "int (sum_list (map data_len (outbox demo_sent))) + out_window_size demo_sent \<le> 100"
  using sends_within_window [OF demo_sending] by (simp add: demo_sys_def)

text \<open>C15. What a channel hands to the transport: whatever the threads and the transport interleave, the end of the stream
  is built and handed over once at most, and when nothing is under way it has been handed over exactly when
  \<^verbatim>\<open>eof_sent\<close> says so; the close is handed over once at most, and only by a channel that is closed. The order is
  kept only in the runs in which each method hands its messages over before anything else happens on the channel
  (\<open>promptly_reachable\<close>): there the messages handed over follow the protocol, data first, then the end of the stream,
  then the close. In other runs data may follow the close (\<open>data_after_close\<close>), for the lock is released before the
  message is handed over.\<close>

theorem stream_order:
  "chan_reachable s \<Longrightarrow>
     count_msg MSG_CHANNEL_EOF (outbox (chan s)) + count_msg MSG_CHANNEL_EOF (pending s) = (if eof_sent (chan s) then 1 else 0) \<and>
     count_msg MSG_CHANNEL_CLOSE (outbox (chan s)) \<le> (if ch_closed (chan s) then 1 else 0) \<and>
     (promptly_reachable s \<longrightarrow> (\<exists>ph. accepts Streaming (outbox (chan s)) = Some ph))"
proof -
  assume "chan_reachable s"
  then have i: "send_inv s" by (rule chan_send.always)
  then obtain ph where ph: "accepts Streaming (built_log s) = Some ph" "eof_sent (chan s) \<longleftrightarrow> ph \<noteq> Streaming"
    "ph = Finished \<longrightarrow> ch_closed (chan s)" by (auto simp: send_inv_def)
  have m: "count_msg t (outbox (chan s)) + count_msg t (pending s) = count_msg t (built_log s)" for t
    using i by (intro count_mset) (simp add: send_inv_def)
  have "\<exists>ph. accepts Streaming (outbox (chan s)) = Some ph" if "promptly_reachable s"
    using chan_prompt.both.always [OF that] ph(1) by (auto simp: in_order_def accepts_append split: option.splits)
  with accepts_counts [OF ph(1)] ph(2,3) m [of MSG_CHANNEL_EOF] m [of MSG_CHANNEL_CLOSE] show ?thesis
    by (auto simp: ends_in_def closes_in_def split: if_splits)
qed

lemma demo_hand_over:
  "prompt_step (demo_sys c (b # ys) l) (demo_sys (send_user b c) ys l)"
  using s_hand_over [of "demo_sys c (b # ys) l" "[]" b ys] by (auto simp: prompt_step_def demo_sys_def)

lemma demo_prompt:
  "promptly_reachable (demo_sys (send_user demo_data demo_sent) [] [demo_data])"
proof (rule reachable.after_step [OF reachable.after_step [OF reachable.initially]])
  show "chan_init (demo_sys demo_chan [] [])"
    unfolding chan_init_def demo_sys_def demo_chan_def
    by (rule exI [of _ 0], rule exI [of _ 7], rule exI [of _ None], rule exI [of _ 32768], rule exI [of _ 100],
       rule exI [of _ 5000]) simp
  show "prompt_step (demo_sys demo_chan [] []) (demo_sys demo_sent [demo_data] [demo_data])"
    using s_send [where d = "[1]" and s = "demo_sys demo_chan [] []", unfolded demo_sys_simps(1), OF demo_send]
    by (simp add: prompt_step_def demo_sys_def note_msg_def)
  show "prompt_step (demo_sys demo_sent [demo_data] [demo_data]) (demo_sys (send_user demo_data demo_sent) [] [demo_data])"
    by (rule demo_hand_over)
qed

theorem stream_order_witness:
  "\<exists>ph. accepts Streaming (outbox (send_user demo_data demo_sent)) = Some ph"
proof -
  have "chan_reachable (demo_sys (send_user demo_data demo_sent) [] [demo_data])"
    by (rule reachable.after_step [OF demo_sending]) (use demo_hand_over in \<open>simp add: prompt_step_def\<close>)
  from stream_order [OF this] demo_prompt show ?thesis by (simp add: demo_sys_def)
qed

text \<open>A peer that has announced packets of 100 bytes is sent a byte more than that.\<close>

definition small_chan :: channel where
  "small_chan = set_remote_channel 7 200 100 (set_window (sanitize_window_size DEFAULT_WINDOW_SIZE None) 32768 (new_channel 0))"

lemma small_packet_exceeded:
  "\<exists>s b. chan_reachable s \<and> announced s = 100 \<and> b \<in> set (outbox (chan s)) \<and> int (data_len b) = announced s + 1"
proof -
  let ?s = "\<lparr>chan = small_chan, pending = [], held = [], moving = [], built_log = [], announced = 100, granted = 200, received = 0,
     discarded = 0, lost = 0, polite = True\<rparr>"
  let ?b = "MSG_CHANNEL_DATA # be_bytes 4 7 @ enc_string (replicate 101 1)"
  let ?c = "small_chan\<lparr>out_window_size := 99\<rparr>"
  have c: "remote_chanid small_chan = 7" "out_window_size small_chan = 200" "out_max_packet_size small_chan = 4096"
    "\<not> ch_closed small_chan" "\<not> eof_sent small_chan"
    by (simp_all add: small_chan_def set_remote_channel_def set_window_def new_channel_def
      sanitize_packet_size_def clamp_value_def MIN_PACKET_SIZE_def MAX_WINDOW_SIZE_def)
  have "chan_init ?s"
    unfolding chan_init_def small_chan_def
    by (rule exI [of _ 0], rule exI [of _ 7], rule exI [of _ None], rule exI [of _ 32768], rule exI [of _ 200],
       rule exI [of _ 100]) simp
  then have 0: "chan_reachable ?s" by (rule reachable.initially)
  have "list_all ok_field (data_head small_chan @ [FString (replicate 101 1)])" using c by (simp add: data_head_def ok_string_def)
  from built_ok [OF this] have "send_locked (replicate 101 1) (data_head small_chan) [] small_chan = (Inr (101, Some ?b), ?c)"
    using c by (simp add: send_locked_def wait_for_send_window_def window_wait.simps take_window_def bindS_def liftR_def retS_def
        data_head_def py_slice_def py_index_def)
  from s_send [where s = ?s and d = "replicate 101 1", simplified, OF this]
  have "chan_step ?s (?s\<lparr>chan := ?c, pending := [?b], built_log := [?b]\<rparr>)" by (simp add: note_msg_def)
  with 0 have 1: "chan_reachable (?s\<lparr>chan := ?c, pending := [?b], built_log := [?b]\<rparr>)" by (rule reachable.after_step)
  from s_hand_over [of "?s\<lparr>chan := ?c, pending := [?b], built_log := [?b]\<rparr>" "[]" ?b "[]"]
  have "chan_step (?s\<lparr>chan := ?c, pending := [?b], built_log := [?b]\<rparr>) (?s\<lparr>chan := send_user ?b ?c, pending := [], built_log := [?b]\<rparr>)" by simp
  with 1 have "chan_reachable (?s\<lparr>chan := send_user ?b ?c, pending := [], built_log := [?b]\<rparr>)" by (rule reachable.after_step)
  moreover have "data_len ?b = 101" by (simp add: data_len_message)
  ultimately show ?thesis
    by (intro exI [of _ "?s\<lparr>chan := send_user ?b ?c, pending := [], built_log := [?b]\<rparr>"] exI [of _ ?b]) (simp add: send_user_def)
qed

text \<open>C17. No deadlock of the window: whenever the reader has taken everything that arrived, nothing is in flight
  and the stream is open, a peer that has kept to its window (and whose data was not of an unknown kind) may send
  at least nine tenths of the whole window.\<close>

theorem window_never_starves:
  assumes "chan_reachable s" "counting (chan s)" "polite s" "discarded s = 0"
    and "pbuffer (in_buffer (chan s)) = []" "pbuffer (in_stderr_buffer (chan s)) = []"
    and "held s = []" "moving s = []" "pending s = []"
  shows "in_window_size (chan s) - in_window_size (chan s) div 10 \<le> peer_window s \<and> 0 < peer_window s"
proof -
  have i: "send_inv s" "recv_inv s" using chan_recv.both.always [OF assms(1)] by auto
  have "grants (built_log s) = grants (outbox (chan s))"
    using i(1) assms(9) grants_mset [of "outbox (chan s)" "[]" "built_log s"] by (simp add: send_inv_def)
  then show ?thesis
    using i(2) assms(2-8) by (auto simp: recv_inv_def in_store_def peer_window_grants)
qed

theorem window_never_starves_witness: "0 < peer_window (demo_sys demo_chan [] [])"
  using window_never_starves [OF demo_init]
  by (simp add: demo_sys_def counting_def demo_chan_def set_remote_channel_def set_window_def new_channel_def new_pipe_def)

text \<open>Data of an unknown extended type is thrown away without being counted: what was discarded is missing from
  the peer's window for ever, whatever happens afterwards.\<close>

theorem discarded_window_lost:
  "chan_reachable s \<Longrightarrow> peer_window s \<le> in_window_size (chan s) - discarded s"
proof -
  assume "chan_reachable s"
  then have i: "send_inv s" "recv_inv s" using chan_recv.both.always by auto
  have "0 \<le> in_store s" using i(2) by (auto simp: in_store_def recv_inv_def)
  then show ?thesis using i(2) outbox_grants [OF i(1)] by (auto simp: recv_inv_def peer_window_grants)
qed

definition demo_discard :: chan_sys where
  "demo_discard = (demo_sys demo_chan [] [])\<lparr>received := 1, discarded := 1\<rparr>"

lemma demo_discarding: "chan_reachable demo_discard"
proof (rule reachable.after_step [OF demo_init])
  let ?m = "new_message (Some (be_bytes 4 2 @ enc_string [9]))"
  have r: "get_remainder ?m = be_bytes 4 2 @ enc_string [9]" by (simp add: get_remainder_def new_message_def)
  then have "fst (bindS get_int (\<lambda>code. bindS get_binary (\<lambda>d. retS (code, d))) ?m) = Inr (2, [9])"
    by (rule read_int) (simp, rule read_binary [where s = "[9]" and r = "[]"], simp_all add: ok_string_def retS_def)
  then obtain m' where m: "bindS get_int (\<lambda>code. bindS get_binary (\<lambda>d. retS (code, d))) ?m = (Inr (2, [9]), m')"
    by (cases "bindS get_int (\<lambda>code. bindS get_binary (\<lambda>d. retS (code, d))) ?m") simp
  then have "feed_extended ?m demo_chan = (Inr (), demo_chan)" by (simp add: feed_extended_def retS_def)
  from s_extended [where s = "demo_sys demo_chan [] []", unfolded demo_sys_simps(1), OF m this]
  have s: "chan_step (demo_sys demo_chan [] [])
      (arrived 1 (demo_sys demo_chan [] [])\<lparr>chan := demo_chan, discarded := discarded (demo_sys demo_chan [] []) + 1\<rparr>)" by simp
  have "1 \<le> peer_window (demo_sys demo_chan [] [])"
    using window_starts_open by simp
  then have "arrived 1 (demo_sys demo_chan [] [])\<lparr>chan := demo_chan, discarded := discarded (demo_sys demo_chan [] []) + 1\<rparr>
      = demo_discard"
    by (simp add: arrived_def demo_discard_def demo_sys_def)
  with s show "chan_step (demo_sys demo_chan [] []) demo_discard" by simp
qed

theorem discarded_window_lost_witness: "peer_window demo_discard \<le> in_window_size demo_chan - 1"
  using discarded_window_lost [OF demo_discarding] by (simp add: demo_discard_def demo_sys_def)

text \<open>\<^verbatim>\<open>shutdown_read\<close> does not close the buffer, and makes the channel ignore the peer's end of stream: a reader
  that finds the buffer empty waits, even when the peer has ended the stream.\<close>

lemma shutdown_read_waits:
  assumes "pbuffer (in_buffer c) = []" "\<not> pclosed (in_buffer c)" "ch_timeout c = None" "\<not> eof_received c"
  shows "fst (recv n [] (\<lambda>c. c) (handle_eof (snd (shutdown_read c)))) = Inl Blocked \<and>
     fst (recv n [] (\<lambda>c. c) (handle_eof c)) = Inr []"
  using assms
  by (simp add: shutdown_read_def shutdown_def bindS_def modS_def retS_def handle_eof_def recv_def pipe_read_def
      pipe_wait.simps count_read_def check_add_window_def send_ack_def bp.closed_shut)

end
