(* ===== verification/Sftp.thy ===== *)
theory Sftp
  imports Ssh_Common Ssh_Message
begin

text \<open>
  \<^verbatim>\<open>paramiko/sftp.py\<close>: framing of SFTP packets over a stream, and the version handshake. The stream is a
  trace: \<open>sk_in\<close> holds what the calls of \<^verbatim>\<open>recv\<close> meet, \<open>sk_out\<close> what the calls of \<^verbatim>\<open>send\<close> return, and
  \<open>sk_wire\<close> collects what was sent. A chunk longer than what was asked for stays in front of the trace, an
  empty chunk is the end of the stream. Waiting with \<^verbatim>\<open>select\<close> and the log are left out.
\<close>

section \<open>The stream\<close>

datatype sock_event = Arrives bytes | Fails pyexc

record sftp_sock =
  sk_in :: "sock_event list"
  sk_out :: "(pyexc + int) list"
  sk_wire :: bytes

definition new_sock :: "sock_event list \<Rightarrow> (pyexc + int) list \<Rightarrow> sftp_sock" where
  "new_sock si so = \<lparr>sk_in = si, sk_out = so, sk_wire = []\<rparr>"

text \<open>\<^verbatim>\<open>_write_all\<close>: a send takes at most what it was given.\<close>

fun sftp_write_loop :: "(pyexc + int) list \<Rightarrow> bytes \<Rightarrow> bytes \<Rightarrow> unit res \<times> (pyexc + int) list \<times> bytes" where
  "sftp_write_loop evs wire [] = (Inr (), evs, wire)"
| "sftp_write_loop [] wire out = (Inl Blocked, [], wire)"
| "sftp_write_loop (Inl e # evs) wire out = (Inl e, evs, wire)"
| "sftp_write_loop (Inr k # evs) wire out =
     (if k \<le> 0 then (Inl EOFError, evs, wire)
      else let n = min (nat k) (length out)
           in if n = length out then (Inr (), evs, wire @ out)
              else sftp_write_loop evs (wire @ take n out) (drop n out))"

definition sftp_write_all :: "bytes \<Rightarrow> (sftp_sock, unit) sm" where
  "sftp_write_all out = (\<lambda>s.
     case sftp_write_loop (sk_out s) (sk_wire s) out of
       (r, evs, wire) \<Rightarrow> (r, s\<lparr>sk_out := evs, sk_wire := wire\<rparr>))"

text \<open>\<^verbatim>\<open>_read_all\<close>\<close>

fun sftp_left :: "sock_event list \<Rightarrow> nat" where
  "sftp_left [] = 0"
| "sftp_left (Arrives x # es) = Suc (length x + sftp_left es)"
| "sftp_left (Fails e # es) = Suc (sftp_left es)"

function sftp_read_loop :: "sock_event list \<Rightarrow> bytes \<Rightarrow> nat \<Rightarrow> bytes res \<times> sock_event list" where
  "sftp_read_loop evs out 0 = (Inr out, evs)"
| "sftp_read_loop [] out (Suc n) = (Inl Blocked, [])"
| "sftp_read_loop (Fails e # evs) out (Suc n) = (Inl e, evs)"
| "sftp_read_loop (Arrives x # evs) out (Suc n) =
     (if x = [] then (Inl EOFError, evs)
      else if Suc n < length x then (Inr (out @ take (Suc n) x), Arrives (drop (Suc n) x) # evs)
      else sftp_read_loop evs (out @ x) (Suc n - length x))"
  by pat_completeness auto
termination by (relation "measure (\<lambda>(evs, out, n). sftp_left evs)") auto

definition sftp_read_all :: "nat \<Rightarrow> (sftp_sock, bytes) sm" where
  "sftp_read_all n = (\<lambda>s. case sftp_read_loop (sk_in s) [] n of (r, evs) \<Rightarrow> (r, s\<lparr>sk_in := evs\<rparr>))"

section \<open>Packets\<close>

definition CMD_INIT :: int where "CMD_INIT = 1"
definition CMD_VERSION :: int where "CMD_VERSION = 2"
definition SFTP_VERSION :: int where "SFTP_VERSION = 3"

definition send_packet :: "int \<Rightarrow> message \<Rightarrow> (sftp_sock, unit) sm" where
  "send_packet t packet =
     bindS (liftR (pack_be 4 (int (length (asbytes packet)) + 1))) (\<lambda>len.
     bindS (liftR (pack_be 1 t)) (\<lambda>tb.
       sftp_write_all (len @ tb @ asbytes packet)))"

definition read_packet :: "(sftp_sock, byte \<times> bytes) sm" where
  "read_packet =
     bindS (sftp_read_all 4) (\<lambda>x.
       if x ! 0 \<noteq> 0 then raiseS (SFTPError ''Garbage packet received'')
       else
         bindS (liftR (unpack_be 4 x)) (\<lambda>n.
         bindS (sftp_read_all (nat n)) (\<lambda>data.
           case data of [] \<Rightarrow> retS (0, []) | t # rest \<Rightarrow> retS (t, rest))))"

definition incompatible :: pyexc where "incompatible = SFTPError ''Incompatible sftp protocol''"

text \<open>\<^verbatim>\<open>_send_version\<close> is two exchanges: the packet out, and the answer.\<close>

definition version_message :: "pyval list \<Rightarrow> message res" where
  "version_message pairs =
     (case bindS (add_int SFTP_VERSION) (\<lambda>_. add_seq pairs) (new_message None) of
        (Inl e, m) \<Rightarrow> Inl e | (Inr _, m) \<Rightarrow> Inr m)"

definition expect_version :: "int \<Rightarrow> (sftp_sock, int) sm" where
  "expect_version cmd =
     bindS read_packet (\<lambda>(t, data).
       if uint t \<noteq> cmd then raiseS incompatible else liftR (unpack_be 4 (take 4 data)))"

definition send_version :: "(sftp_sock, int) sm" where
  "send_version =
     bindS (liftR (version_message [])) (\<lambda>m.
     bindS (send_packet CMD_INIT m) (\<lambda>_. expect_version CMD_VERSION))"

definition extension_pairs :: "pyval list" where
  "extension_pairs = [PStr (lit ''check-file''), PStr (lit ''md5,sha1'')]"

definition send_server_version :: "(sftp_sock, int) sm" where
  "send_server_version =
     bindS (expect_version CMD_INIT) (\<lambda>version.
     bindS (liftR (version_message extension_pairs)) (\<lambda>m.
     bindS (send_packet CMD_VERSION m) (\<lambda>_. retS version)))"

section \<open>Delivery\<close>

definition smooth :: "sock_event list \<Rightarrow> bool" where
  "smooth es \<longleftrightarrow> list_all (\<lambda>e. case e of Arrives x \<Rightarrow> x \<noteq> [] | Fails _ \<Rightarrow> False) es"

fun arrives :: "sock_event list \<Rightarrow> bytes" where
  "arrives [] = []"
| "arrives (Arrives x # es) = x @ arrives es"
| "arrives (Fails e # es) = arrives es"

lemma sftp_read_loop_smooth:
  "smooth evs \<Longrightarrow> n \<le> length (arrives evs) \<Longrightarrow>
     \<exists>evs'. sftp_read_loop evs out n = (Inr (out @ take n (arrives evs)), evs') \<and> smooth evs' \<and> arrives evs' = drop n (arrives evs)"
proof (induction evs out n rule: sftp_read_loop.induct)
  case (4 x evs out n)
  have x: "x \<noteq> []" "smooth evs" using "4.prems"(1) by (simp_all add: smooth_def)
  show ?case
  proof (cases "Suc n < length x")
    case True
    with x show ?thesis by (simp add: smooth_def)
  next
    case False
    have "\<exists>evs'. sftp_read_loop evs (out @ x) (Suc n - length x) =
        (Inr ((out @ x) @ take (Suc n - length x) (arrives evs)), evs') \<and> smooth evs' \<and>
        arrives evs' = drop (Suc n - length x) (arrives evs)"
      using "4.prems"(2) False by (intro "4.IH" x(1) x(2)) auto
    with False x show ?thesis by auto
  qed
qed (auto simp: smooth_def)

lemma sftp_read_all_smooth:
  assumes "smooth (sk_in s)" "arrives (sk_in s) = bs @ r" "length bs = n"
  obtains s' where "sftp_read_all n s = (Inr bs, s')" "smooth (sk_in s')" "arrives (sk_in s') = r"
    "sk_out s' = sk_out s" "sk_wire s' = sk_wire s"
  using sftp_read_loop_smooth [of "sk_in s" n "[]"] assms by (auto simp: sftp_read_all_def)

lemma sftp_write_loop_Inr: "sftp_write_loop evs wire out = (Inr (), evs', wire') \<Longrightarrow> wire' = wire @ out"
  by (induction evs wire out rule: sftp_write_loop.induct) (auto simp: Let_def split: if_splits)

lemma send_packet_Inr:
  assumes "send_packet t m s = (Inr (), s')"
  shows "sk_wire s' = sk_wire s @ be_bytes 4 (int (length (asbytes m)) + 1) @ [word_of_int t] @ asbytes m \<and>
     sk_in s' = sk_in s \<and> 0 \<le> t \<and> t < 256 \<and> int (length (asbytes m)) + 1 < 2 ^ 32"
  using assms
  by (auto simp: send_packet_def sftp_write_all_def bindS_def liftR_def split: sum.splits prod.splits
      dest!: sftp_write_loop_Inr pack_be_InrD)

lemma be_bytes_4_zero: "0 \<le> n \<Longrightarrow> n < 2 ^ 32 \<Longrightarrow> be_bytes 4 n ! 0 = 0 \<longleftrightarrow> n < 2 ^ 24"
proof -
  assume n: "0 \<le> n" "n < 2 ^ 32"
  have "be_bytes 4 n ! 0 = word_of_int (n div 256 div 256 div 256 mod 256)"
    by (simp add: eval_nat_numeral nth_append)
  moreover have "n div 256 div 256 div 256 mod 256 = n div 2 ^ 24"
    using n by (simp add: zdiv_zmult2_eq [symmetric])
  moreover have "(word_of_int (n div 2 ^ 24) :: byte) = 0 \<longleftrightarrow> n div 2 ^ 24 mod 2 ^ 8 = 0"
    by (simp add: word_of_int_eq_0_iff dvd_eq_mod_eq_0)
  ultimately show ?thesis using n by (auto simp: zdiv_eq_0_iff)
qed

lemma read_packet_smooth:
  assumes "smooth (sk_in r)" "arrives (sk_in r) = be_bytes 4 (int (length d) + 1) @ [b] @ d @ rst"
    "int (length d) + 1 < 2 ^ 32"
  shows "\<exists>r'. read_packet r = (if length d + 1 < 2 ^ 24 then Inr (b, d) else Inl (SFTPError ''Garbage packet received''), r') \<and>
     (length d + 1 < 2 ^ 24 \<longrightarrow> smooth (sk_in r') \<and> arrives (sk_in r') = rst)"
proof -
  let ?n = "int (length d) + 1"
  obtain r1 where r1: "sftp_read_all 4 r = (Inr (be_bytes 4 ?n), r1)" "smooth (sk_in r1)" "arrives (sk_in r1) = (b # d) @ rst"
    by (rule sftp_read_all_smooth [OF assms(1,2), of 4]) (simp, rule that, simp_all)
  have z: "be_bytes 4 ?n ! 0 = 0 \<longleftrightarrow> length d + 1 < 2 ^ 24" using be_bytes_4_zero [of ?n] assms(3) by auto
  show ?thesis
  proof (cases "length d + 1 < 2 ^ 24")
    case True
    obtain r2 where r2: "sftp_read_all (length (b # d)) r1 = (Inr (b # d), r2)" "smooth (sk_in r2)" "arrives (sk_in r2) = rst"
      by (rule sftp_read_all_smooth [OF r1(2,3) refl]) (rule that)
    have "unpack_be 4 (be_bytes 4 ?n) = Inr ?n" using assms(3) by (simp add: unpack_be_def be_int_be_bytes)
    with True z r1(1) r2 show ?thesis
      by (auto simp: read_packet_def bindS_def liftR_def retS_def nat_add_distrib)
  next
    case False
    with z r1(1) show ?thesis by (auto simp: read_packet_def bindS_def raiseS_def)
  qed
qed

section \<open>Properties\<close>

text \<open>C28. Framing: a packet that was sent is read with its type and contents from the bytes it put on the stream,
  however they arrive in pieces, and exactly its bytes are used up; a packet of 16 MB or more, which the sender
  does not refuse, is refused by the reader as garbage.\<close>

theorem sftp_framing:
  assumes "send_packet t m s = (Inr (), s')" "sk_wire s' = sk_wire s @ sent"
    and "smooth (sk_in r)" "arrives (sk_in r) = sent @ rst"
  shows "\<exists>r'. read_packet r =
       (if length (asbytes m) + 1 < 2 ^ 24 then Inr (word_of_int t, asbytes m) else Inl (SFTPError ''Garbage packet received''), r') \<and>
     (length (asbytes m) + 1 < 2 ^ 24 \<longrightarrow> smooth (sk_in r') \<and> arrives (sk_in r') = rst)"
proof (rule read_packet_smooth [OF assms(3)])
  from send_packet_Inr [OF assms(1)] assms(2,4)
  show "arrives (sk_in r) = be_bytes 4 (int (length (asbytes m)) + 1) @ [word_of_int t] @ asbytes m @ rst"
    "int (length (asbytes m)) + 1 < 2 ^ 32" by simp_all
qed

theorem sftp_framing_witness:
  "\<exists>r'. read_packet (new_sock [Arrives [0, 0], Arrives [0, 3, 101], Arrives [7, 8, 9]] []) = (Inr (101, [7, 8]), r') \<and>
     arrives (sk_in r') = [9]"
proof -
  let ?m = "new_message (Some [7, 8])" and ?s = "new_sock [] [Inr 4, Inr 100]"
  have b: "be_bytes 4 3 = [0, 0, 0, 3]" by (simp add: eval_nat_numeral)
  have "\<exists>s'. send_packet 101 ?m ?s = (Inr (), s') \<and> sk_wire s' = sk_wire ?s @ [0, 0, 0, 3, 101, 7, 8]"
    by (simp add: send_packet_def bindS_def liftR_def pack_be_def b sftp_write_all_def new_sock_def new_message_def asbytes_def)
  then obtain s' where "send_packet 101 ?m ?s = (Inr (), s')" "sk_wire s' = sk_wire ?s @ [0, 0, 0, 3, 101, 7, 8]" by blast
  from sftp_framing [OF this, of "new_sock [Arrives [0, 0], Arrives [0, 3, 101], Arrives [7, 8, 9]] []" "[9]"]
  show ?thesis by (auto simp: smooth_def new_sock_def new_message_def asbytes_def)
qed

end
