(* ===== verification/Sftp_Attr.thy ===== *)
theory Sftp_Attr
  imports Complex_Main Sftp
begin

text \<open>
  \<^verbatim>\<open>paramiko/sftp_attr.py\<close>: file attributes and their wire form. The dictionary of extended attributes is an
  association list in insertion order. Times may have a fraction, which packing cuts off. The date in the long
  listing comes from the library's clock and calendar and is a parameter.
\<close>

section \<open>Attributes\<close>

definition FLAG_SIZE :: int where "FLAG_SIZE = 1"
definition FLAG_UIDGID :: int where "FLAG_UIDGID = 2"
definition FLAG_PERMISSIONS :: int where "FLAG_PERMISSIONS = 4"
definition FLAG_AMTIME :: int where "FLAG_AMTIME = 8"
definition FLAG_EXTENDED :: int where "FLAG_EXTENDED = 0x80000000"

record sftp_attributes =
  at_flags :: int
  st_size :: "int option"
  st_uid :: "int option"
  st_gid :: "int option"
  st_mode :: "int option"
  st_atime :: "rat option"
  st_mtime :: "rat option"
  attr :: "(bytes \<times> bytes) list"
  at_filename :: "ustr option"
  at_longname :: "ustr option"

definition new_attributes :: sftp_attributes where
  "new_attributes = \<lparr>at_flags = 0, st_size = None, st_uid = None, st_gid = None, st_mode = None, st_atime = None,
     st_mtime = None, attr = [], at_filename = None, at_longname = None\<rparr>"

text \<open>What \<^verbatim>\<open>os.stat\<close> gives.\<close>

record stat_result =
  os_size :: int
  os_uid :: int
  os_gid :: int
  os_mode :: int
  os_atime :: rat
  os_mtime :: rat

definition from_stat :: "stat_result \<Rightarrow> ustr option \<Rightarrow> sftp_attributes" where
  "from_stat obj filename =
     new_attributes\<lparr>st_size := Some (os_size obj), st_uid := Some (os_uid obj), st_gid := Some (os_gid obj),
       st_mode := Some (os_mode obj), st_atime := Some (os_atime obj), st_mtime := Some (os_mtime obj),
       at_filename := filename\<rparr>"

definition flag_if :: "bool \<Rightarrow> int \<Rightarrow> int \<Rightarrow> int" where
  "flag_if c f flags = (if c then flags OR f else flags)"

definition pack_flags :: "sftp_attributes \<Rightarrow> int" where
  "pack_flags a =
     flag_if (attr a \<noteq> []) FLAG_EXTENDED
      (flag_if (st_atime a \<noteq> None \<and> st_mtime a \<noteq> None) FLAG_AMTIME
       (flag_if (st_mode a \<noteq> None) FLAG_PERMISSIONS
        (flag_if (st_uid a \<noteq> None \<and> st_gid a \<noteq> None) FLAG_UIDGID
         (flag_if (st_size a \<noteq> None) FLAG_SIZE 0))))"

definition py_int_of :: "rat \<Rightarrow> int" where
  "py_int_of q = (if q \<ge> 0 then \<lfloor>q\<rfloor> else \<lceil>q\<rceil>)"

text \<open>\<^verbatim>\<open>if self._flags & f\<close>\<close>

definition has_flag :: "int \<Rightarrow> int \<Rightarrow> bool" where
  "has_flag flags f \<longleftrightarrow> flags AND f \<noteq> 0"

definition whenS :: "bool \<Rightarrow> ('s, unit) sm \<Rightarrow> ('s, unit) sm" where
  "whenS c m = (if c then m else retS ())"

fun pack_pairs :: "(bytes \<times> bytes) list \<Rightarrow> (message, unit) sm" where
  "pack_pairs [] = retS ()"
| "pack_pairs ((key, val) # d) =
     bindS (add_string key) (\<lambda>_. bindS (add_string val) (\<lambda>_. pack_pairs d))"

text \<open>\<^verbatim>\<open>_pack\<close>; the flags are also stored in the object.\<close>

definition attr_pack :: "sftp_attributes \<Rightarrow> (message, unit) sm" where
  "attr_pack a =
     (let flags = pack_flags a in
      bindS (add_int flags) (\<lambda>_.
      bindS (whenS (has_flag flags FLAG_SIZE) (add_int64 (the (st_size a)))) (\<lambda>_.
      bindS (whenS (has_flag flags FLAG_UIDGID)
               (bindS (add_int (the (st_uid a))) (\<lambda>_. add_int (the (st_gid a))))) (\<lambda>_.
      bindS (whenS (has_flag flags FLAG_PERMISSIONS) (add_int (the (st_mode a)))) (\<lambda>_.
      bindS (whenS (has_flag flags FLAG_AMTIME)
               (bindS (add_int (py_int_of (the (st_atime a)))) (\<lambda>_. add_int (py_int_of (the (st_mtime a)))))) (\<lambda>_.
        whenS (has_flag flags FLAG_EXTENDED)
          (bindS (add_int (int (length (attr a)))) (\<lambda>_. pack_pairs (attr a)))))))))"

definition packed :: "sftp_attributes \<Rightarrow> sftp_attributes" where
  "packed a = a\<lparr>at_flags := pack_flags a\<rparr>"

text \<open>\<^verbatim>\<open>self.attr[msg.get_string()] = msg.get_string()\<close>: Python evaluates the right-hand side first, so the first
  string that is read becomes the value and the second one the key.\<close>

fun unpack_pairs :: "nat \<Rightarrow> (bytes \<times> bytes) list \<Rightarrow> (message, (bytes \<times> bytes) list) sm" where
  "unpack_pairs 0 d = retS d"
| "unpack_pairs (Suc n) d =
     bindS get_string (\<lambda>val. bindS get_string (\<lambda>key. unpack_pairs n (dict_put key val d)))"

definition when_flag :: "int \<Rightarrow> int \<Rightarrow> (message, sftp_attributes \<Rightarrow> sftp_attributes) sm \<Rightarrow> sftp_attributes \<Rightarrow>
    (message, sftp_attributes) sm" where
  "when_flag flags f m a = (if has_flag flags f then bindS m (\<lambda>upd. retS (upd a)) else retS a)"

definition attr_unpack :: "sftp_attributes \<Rightarrow> (message, sftp_attributes) sm" where
  "attr_unpack a0 =
     bindS get_int (\<lambda>flags.
     bindS (when_flag flags FLAG_SIZE (bindS get_int64 (\<lambda>n. retS (\<lambda>a. a\<lparr>st_size := Some n\<rparr>)))
              (a0\<lparr>at_flags := flags\<rparr>)) (\<lambda>a1.
     bindS (when_flag flags FLAG_UIDGID
              (bindS get_int (\<lambda>u. bindS get_int (\<lambda>g. retS (\<lambda>a. a\<lparr>st_uid := Some u, st_gid := Some g\<rparr>)))) a1) (\<lambda>a2.
     bindS (when_flag flags FLAG_PERMISSIONS (bindS get_int (\<lambda>n. retS (\<lambda>a. a\<lparr>st_mode := Some n\<rparr>))) a2) (\<lambda>a3.
     bindS (when_flag flags FLAG_AMTIME
              (bindS get_int (\<lambda>x. bindS get_int (\<lambda>y.
                 retS (\<lambda>a. a\<lparr>st_atime := Some (of_int x), st_mtime := Some (of_int y)\<rparr>)))) a3) (\<lambda>a4.
       when_flag flags FLAG_EXTENDED
         (bindS get_int (\<lambda>count. bindS (unpack_pairs (nat count) (attr a4)) (\<lambda>d. retS (\<lambda>a. a\<lparr>attr := d\<rparr>)))) a4)))))"

definition from_msg :: "ustr option \<Rightarrow> ustr option \<Rightarrow> (message, sftp_attributes) sm" where
  "from_msg filename longname =
     bindS (attr_unpack new_attributes) (\<lambda>a.
       retS (a\<lparr>at_filename := (case filename of None \<Rightarrow> at_filename a | Some f \<Rightarrow> Some f),
               at_longname := (case longname of None \<Rightarrow> at_longname a | Some f \<Rightarrow> Some f)\<rparr>))"

section \<open>Packing and unpacking\<close>

lemma has_flag_if: "has_flag (flag_if c f x) g = (has_flag x g \<or> c \<and> has_flag f g)"
  by (auto simp: has_flag_def flag_if_def bit.conj_disj_distrib2 or_eq_0_iff)

lemma has_flag_consts:
  "\<not> has_flag 0 g"
  "has_flag FLAG_SIZE g = (g AND 1 \<noteq> 0)" "has_flag FLAG_UIDGID g = (g AND 2 \<noteq> 0)"
  "has_flag FLAG_PERMISSIONS g = (g AND 4 \<noteq> 0)" "has_flag FLAG_AMTIME g = (g AND 8 \<noteq> 0)"
  "has_flag FLAG_EXTENDED g = (g AND 0x80000000 \<noteq> 0)"
  by (simp_all add: has_flag_def FLAG_SIZE_def FLAG_UIDGID_def FLAG_PERMISSIONS_def FLAG_AMTIME_def FLAG_EXTENDED_def
      and.commute)

lemma packed_flags:
  "has_flag (pack_flags a) FLAG_SIZE = (st_size a \<noteq> None)"
  "has_flag (pack_flags a) FLAG_UIDGID = (st_uid a \<noteq> None \<and> st_gid a \<noteq> None)"
  "has_flag (pack_flags a) FLAG_PERMISSIONS = (st_mode a \<noteq> None)"
  "has_flag (pack_flags a) FLAG_AMTIME = (st_atime a \<noteq> None \<and> st_mtime a \<noteq> None)"
  "has_flag (pack_flags a) FLAG_EXTENDED = (attr a \<noteq> [])"
  by (simp_all add: pack_flags_def has_flag_if has_flag_consts)
     (simp_all add: FLAG_SIZE_def FLAG_UIDGID_def FLAG_PERMISSIONS_def FLAG_AMTIME_def FLAG_EXTENDED_def)

lemma flag_if_range: "0 \<le> x \<Longrightarrow> x < 2 ^ 32 \<Longrightarrow> 0 \<le> f \<Longrightarrow> f < 2 ^ 32 \<Longrightarrow> 0 \<le> flag_if c f x \<and> flag_if c f x < 2 ^ 32"
  using OR_upper [of x 32 f] by (auto simp: flag_if_def)

lemma pack_flags_range: "0 \<le> pack_flags a \<and> pack_flags a < 2 ^ 32"
  unfolding pack_flags_def
  by (intro conjI conjunct1 [OF flag_if_range] conjunct2 [OF flag_if_range])
     (simp_all add: FLAG_SIZE_def FLAG_UIDGID_def FLAG_PERMISSIONS_def FLAG_AMTIME_def FLAG_EXTENDED_def)


text \<open>The fields a packed object is made of.\<close>

definition pair_fields :: "(bytes \<times> bytes) list \<Rightarrow> field list" where
  "pair_fields d = concat (map (\<lambda>(k, v). [FString k, FString v]) d)"

definition attr_fields :: "sftp_attributes \<Rightarrow> field list" where
  "attr_fields a =
     [FInt (pack_flags a)] @
     (if st_size a \<noteq> None then [FInt64 (the (st_size a))] else []) @
     (if st_uid a \<noteq> None \<and> st_gid a \<noteq> None then [FInt (the (st_uid a)), FInt (the (st_gid a))] else []) @
     (if st_mode a \<noteq> None then [FInt (the (st_mode a))] else []) @
     (if st_atime a \<noteq> None \<and> st_mtime a \<noteq> None
      then [FInt (py_int_of (the (st_atime a))), FInt (py_int_of (the (st_mtime a)))] else []) @
     (if attr a \<noteq> [] then FInt (int (length (attr a))) # pair_fields (attr a) else [])"

lemma put_fields_if: "put_fields (if c then xs else []) = whenS c (put_fields xs)"
  by (simp add: whenS_def)

lemma pack_pairs_fields: "pack_pairs d = put_fields (pair_fields d)"
  by (induction d rule: pack_pairs.induct) (simp_all add: pair_fields_def bindS_assoc)

lemma attr_pack_fields: "attr_pack a = put_fields (attr_fields a)"
  by (simp add: attr_pack_def attr_fields_def put_fields_append put_fields_if packed_flags pack_pairs_fields
      bindS_assoc bindS_ret Let_def del: if_not_P if_P)

text \<open>The objects the wire can carry, and what the other side makes of one: a user without a group is dropped,
  so is one time without the other, fractions are cut off, and the extended attributes are turned around.\<close>

definition packable :: "sftp_attributes \<Rightarrow> bool" where
  "packable a \<longleftrightarrow> list_all ok_field (attr_fields a)"

definition as_received :: "sftp_attributes \<Rightarrow> sftp_attributes" where
  "as_received a =
     new_attributes\<lparr>at_flags := pack_flags a, st_size := st_size a,
       st_uid := (if st_uid a \<noteq> None \<and> st_gid a \<noteq> None then st_uid a else None),
       st_gid := (if st_uid a \<noteq> None \<and> st_gid a \<noteq> None then st_gid a else None),
       st_mode := st_mode a,
       st_atime := (if st_atime a \<noteq> None \<and> st_mtime a \<noteq> None then Some (of_int (py_int_of (the (st_atime a)))) else None),
       st_mtime := (if st_atime a \<noteq> None \<and> st_mtime a \<noteq> None then Some (of_int (py_int_of (the (st_mtime a)))) else None),
       attr := fold (\<lambda>(k, v). dict_put v k) (attr a) []\<rparr>"

lemma read_int64:
  "get_remainder m = be_bytes 8 n @ r \<Longrightarrow> 0 \<le> n \<and> n < 2 ^ 64 \<Longrightarrow>
     (\<And>m'. get_remainder m' = r \<Longrightarrow> fst (f n m') = x) \<Longrightarrow> fst (bindS get_int64 f m) = x"
  using f_int64.get_prefix [of n m r] by (simp add: bindS_def)

lemma read_pairs:
  "get_remainder m = concat (map enc_field (pair_fields d)) @ r \<Longrightarrow> list_all ok_field (pair_fields d) \<Longrightarrow>
     (\<And>m'. get_remainder m' = r \<Longrightarrow> fst (f (fold (\<lambda>(k, v). dict_put v k) d d0) m') = x) \<Longrightarrow>
     fst (bindS (unpack_pairs (length d) d0) f m) = x"
proof (induction d arbitrary: m d0)
  case (Cons p d)
  obtain k v where p: "p = (k, v)" by fastforce
  have m: "get_remainder m = enc_string k @ enc_string v @ concat (map enc_field (pair_fields d)) @ r" "ok_string k" "ok_string v"
    using Cons.prems(1,2) by (simp_all add: p pair_fields_def)
  have "fst (bindS get_string (\<lambda>val. bindS get_string (\<lambda>key. bindS (unpack_pairs (length d) (dict_put key val d0)) f)) m) = x"
    using m(1) m(2)
  proof (rule read_string)
    fix m' assume "get_remainder m' = enc_string v @ concat (map enc_field (pair_fields d)) @ r"
    then show "fst (bindS get_string (\<lambda>key. bindS (unpack_pairs (length d) (dict_put key k d0)) f) m') = x"
      using m(3)
    proof (rule read_string)
      fix m'' assume "get_remainder m'' = concat (map enc_field (pair_fields d)) @ r"
      then show "fst (bindS (unpack_pairs (length d) (dict_put v k d0)) f m'') = x"
        using Cons.prems(2,3) by (intro Cons.IH) (simp_all add: p pair_fields_def)
    qed
  qed
  then show ?case by (simp add: p bindS_assoc)
qed (simp add: retS_def bindS_def pair_fields_def)

text \<open>A reader that reads the bytes \<open>e\<close> as the value \<open>u\<close>.\<close>

definition reads :: "(message, 'a) sm \<Rightarrow> bytes \<Rightarrow> 'a \<Rightarrow> bool" where
  "reads p e u \<longleftrightarrow> (\<forall>m r. get_remainder m = e @ r \<longrightarrow> (\<exists>m'. p m = (Inr u, m') \<and> get_remainder m' = r))"

lemma readsI: "(\<And>m r. get_remainder m = e @ r \<Longrightarrow> fst (bindS p (\<lambda>x m. (Inr (x, get_remainder m), m)) m) = Inr (u, r)) \<Longrightarrow> reads p e u"
  unfolding reads_def
proof (intro allI impI)
  fix m r assume a: "\<And>m r. get_remainder m = e @ r \<Longrightarrow> fst (bindS p (\<lambda>x m. (Inr (x, get_remainder m), m)) m) = Inr (u, r)"
    and m: "get_remainder m = e @ r"
  from a [OF m] show "\<exists>m'. p m = (Inr u, m') \<and> get_remainder m' = r"
    by (cases "p m") (auto simp: bindS_def split: sum.splits)
qed

lemma read_when:
  assumes "has_flag flags f = c" "get_remainder m = (if c then e else []) @ r" "c \<Longrightarrow> reads p e u"
    and "\<And>m. get_remainder m = r \<Longrightarrow> fst (g (if c then u a else a) m) = x"
  shows "fst (bindS (when_flag flags f p a) g m) = x"
proof (cases c)
  case True
  with assms(2,3) obtain m' where "p m = (Inr u, m')" "get_remainder m' = r" by (auto simp: reads_def)
  with True assms(1,4) show ?thesis by (auto simp: when_flag_def bindS_def retS_def)
next
  case False
  with assms(1,2) assms(4) [of m] show ?thesis by (simp add: when_flag_def)
qed

lemma reads_int: "0 \<le> n \<Longrightarrow> n < 2 ^ 32 \<Longrightarrow> reads (bindS get_int (\<lambda>n. retS (f n))) (be_bytes 4 n) (f n)"
  by (rule readsI) (auto simp: bindS_assoc retS_def bindS_def [of "\<lambda>s. (Inr x, s)" for x] intro: read_int [of _ n])

lemma reads_int2:
  "0 \<le> k \<Longrightarrow> k < 2 ^ 32 \<Longrightarrow> 0 \<le> n \<Longrightarrow> n < 2 ^ 32 \<Longrightarrow>
     reads (bindS get_int (\<lambda>k. bindS get_int (\<lambda>n. retS (f k n)))) (be_bytes 4 k @ be_bytes 4 n) (f k n)"
proof (rule readsI, unfold bindS_assoc append_assoc, goal_cases)
  case (1 m r)
  show ?case
  proof (rule read_int [OF 1(5)])
    fix m' assume "get_remainder m' = be_bytes 4 n @ r"
    then show "fst (bindS get_int (\<lambda>x. bindS (retS (f k x)) (\<lambda>x m. (Inr (x, get_remainder m), m))) m') = Inr (f k n, r)"
      using 1 by (intro read_int [of m' n r]) auto
  qed (use 1 in simp)
qed

lemma reads_int64: "0 \<le> n \<Longrightarrow> n < 2 ^ 64 \<Longrightarrow> reads (bindS get_int64 (\<lambda>n. retS (f n))) (be_bytes 8 n) (f n)"
  by (rule readsI) (auto simp: bindS_assoc retS_def bindS_def [of "\<lambda>s. (Inr x, s)" for x] intro: read_int64 [of _ n])

lemma reads_pairs:
  "list_all ok_field (pair_fields d) \<Longrightarrow> length d < 2 ^ 32 \<Longrightarrow>
     reads (bindS get_int (\<lambda>count. bindS (unpack_pairs (nat count) []) (\<lambda>d. retS (f d))))
       (be_bytes 4 (int (length d)) @ concat (map enc_field (pair_fields d))) (f (fold (\<lambda>(k, v). dict_put v k) d []))"
proof (rule readsI, unfold bindS_assoc append_assoc)
  fix m r assume d: "list_all ok_field (pair_fields d)" "length d < 2 ^ 32"
    "get_remainder m = be_bytes 4 (int (length d)) @ concat (map enc_field (pair_fields d)) @ r"
  show "fst (bindS get_int (\<lambda>count. bindS (unpack_pairs (nat count) []) (\<lambda>d. bindS (retS (f d)) (\<lambda>x m. (Inr (x, get_remainder m), m)))) m) =
      Inr (f (fold (\<lambda>(k, v). dict_put v k) d []), r)"
  proof (rule read_int [OF d(3)])
    fix m' assume "get_remainder m' = concat (map enc_field (pair_fields d)) @ r"
    then show "fst (bindS (unpack_pairs (nat (int (length d))) []) (\<lambda>d. bindS (retS (f d)) (\<lambda>x m. (Inr (x, get_remainder m), m))) m') =
        Inr (f (fold (\<lambda>(k, v). dict_put v k) d []), r)"
      using d(1) unfolding nat_int by (rule read_pairs) simp
  qed (use d(2) in simp)
qed

lemma reads_pairs_from:
  "d0 = [] \<Longrightarrow> list_all ok_field (pair_fields d) \<Longrightarrow> length d < 2 ^ 32 \<Longrightarrow>
     reads (bindS get_int (\<lambda>count. bindS (unpack_pairs (nat count) d0) (\<lambda>d. retS (f d))))
       (be_bytes 4 (int (length d)) @ concat (map enc_field (pair_fields d))) (f (fold (\<lambda>(k, v). dict_put v k) d []))"
  using reads_pairs by simp

text \<open>What an object with its names set is.\<close>

definition named :: "ustr option \<Rightarrow> ustr option \<Rightarrow> sftp_attributes \<Rightarrow> sftp_attributes" where
  "named filename longname a =
     a\<lparr>at_filename := (case filename of None \<Rightarrow> at_filename a | Some f \<Rightarrow> Some f),
       at_longname := (case longname of None \<Rightarrow> at_longname a | Some f \<Rightarrow> Some f)\<rparr>"

lemma named_None [simp]: "named None None a = a"
  by (simp add: named_def)

lemma reads_attributes:
  assumes "packable a"
  shows "reads (attr_unpack new_attributes) (concat (map enc_field (attr_fields a))) (as_received a)"
proof (rule readsI)
  fix m r assume m: "get_remainder m = concat (map enc_field (attr_fields a)) @ r"
  have r: "get_remainder m = be_bytes 4 (pack_flags a) @
     (if st_size a \<noteq> None then be_bytes 8 (the (st_size a)) else []) @
     (if st_uid a \<noteq> None \<and> st_gid a \<noteq> None then be_bytes 4 (the (st_uid a)) @ be_bytes 4 (the (st_gid a)) else []) @
     (if st_mode a \<noteq> None then be_bytes 4 (the (st_mode a)) else []) @
     (if st_atime a \<noteq> None \<and> st_mtime a \<noteq> None
      then be_bytes 4 (py_int_of (the (st_atime a))) @ be_bytes 4 (py_int_of (the (st_mtime a))) else []) @
     (if attr a \<noteq> [] then be_bytes 4 (int (length (attr a))) @ concat (map enc_field (pair_fields (attr a))) else []) @ r"
    using m by (simp add: attr_fields_def enc_field_def)
  note ok = assms [unfolded packable_def attr_fields_def]
  have at: "attr new_attributes = []" by (simp add: new_attributes_def)
  show "fst (bindS (attr_unpack new_attributes) (\<lambda>x m. (Inr (x, get_remainder m), m)) m) = Inr (as_received a, r)"
    unfolding attr_unpack_def bindS_assoc
  proof (rule read_int [OF r pack_flags_range],
      rule read_when [OF packed_flags(1)], assumption, rule reads_int64, goal_cases)
    case (3 m0 m1)
    show ?case
    proof (rule read_when [OF packed_flags(2) 3(2)], rule reads_int2, goal_cases)
      case (5 m2)
      show ?case
      proof (rule read_when [OF packed_flags(3) 5], rule reads_int, goal_cases)
        case (3 m3)
        show ?case
        proof (rule read_when [OF packed_flags(4) 3], rule reads_int2, goal_cases)
          case (5 m4)
          show ?case
          proof (rule read_when [OF packed_flags(5) 5], rule reads_pairs_from, goal_cases)
            case (4 m5)
            then show ?case by (auto simp: as_received_def new_attributes_def)
          qed (use ok at in auto)
        qed (use ok in auto)
      qed (use ok in auto)
    qed (use ok in auto)
  qed (use ok in auto)
qed

lemma reads_from_msg:
  assumes "packable a"
  shows "reads (from_msg filename longname) (concat (map enc_field (attr_fields a))) (named filename longname (as_received a))"
  using reads_attributes [OF assms] unfolding reads_def from_msg_def named_def by (fastforce simp: bindS_def retS_def)

section \<open>Properties\<close>

text \<open>C27. File attributes survive the wire: packing an object whose values fit their fields succeeds, and
  unpacking gives the size, mode, owner and times that were set (an owner or a group alone, and one time alone, are
  dropped, and fractions of a second are cut off); of the extended attributes every pair arrives, but with key and
  value exchanged.\<close>

theorem attributes_on_the_wire:
  assumes "packable a"
  shows "\<exists>m. attr_pack a (new_message None) = (Inr (), m) \<and>
     fst (from_msg None None (new_message (Some (asbytes m)))) = Inr (as_received a)"
proof -
  let ?b = "concat (map enc_field (attr_fields a))"
  have p: "attr_pack a (new_message None) = (Inr (), append_bytes (new_message None) ?b)"
    using assms put_fields_end [OF _ at_end_new] by (simp add: attr_pack_fields packable_def at_end_def)
  have "get_remainder (new_message (Some ?b)) = ?b @ []" by (simp add: get_remainder_def new_message_def)
  with reads_from_msg [OF assms, of None None] have "fst (from_msg None None (new_message (Some ?b))) = Inr (as_received a)"
    unfolding reads_def named_None by (metis fst_conv)
  then show ?thesis unfolding p by (simp add: asbytes_def append_bytes_def new_message_def)
qed

theorem attributes_on_the_wire_witness:
  "\<exists>m. attr_pack (new_attributes\<lparr>st_size := Some 7, st_uid := Some 1, attr := [([107], [118])]\<rparr>) (new_message None) = (Inr (), m) \<and>
     (\<exists>a. fst (from_msg None None (new_message (Some (asbytes m)))) = Inr a \<and>
        st_size a = Some 7 \<and> st_uid a = None \<and> attr a = [([118], [107])])"
proof -
  let ?a = "new_attributes\<lparr>st_size := Some 7, st_uid := Some 1, attr := [([107], [118])]\<rparr>"
  have "packable ?a"
    using pack_flags_range [of ?a]
    by (simp add: packable_def attr_fields_def pair_fields_def ok_string_def) (simp add: new_attributes_def)
  from attributes_on_the_wire [OF this] show ?thesis
    by (auto simp: as_received_def new_attributes_def)
qed

section \<open>The long listing\<close>

definition rwx :: "int \<Rightarrow> bool \<Rightarrow> bool \<Rightarrow> ustr" where
  "rwx n suid sticky =
     (let s = (if suid then 2 else 0 :: nat) in
      [lit ''-r'' ! nat (drop_bit 2 n), lit ''-w'' ! nat (drop_bit 1 n AND 1),
       (if sticky then lit ''-xTt'' else lit ''-xSs'') ! (s + nat (n AND 1))])"

text \<open>\<^verbatim>\<open>stat.S_IFMT\<close> keeps the bits of the kind.\<close>

definition kind_char :: "int \<Rightarrow> ustr" where
  "kind_char mode =
     (let k = mode AND 0xF000 in
      if k = 0x1000 then lit ''p'' else if k = 0x2000 then lit ''c'' else if k = 0x4000 then lit ''d''
      else if k = 0x6000 then lit ''b'' else if k = 0x8000 then lit ''-'' else if k = 0xA000 then lit ''l''
      else if k = 0xC000 then lit ''s'' else lit ''?'')"

definition mode_string :: "int option \<Rightarrow> ustr" where
  "mode_string st =
     (case st of
        None \<Rightarrow> lit ''?---------''
      | Some mode \<Rightarrow>
          kind_char mode @ rwx (drop_bit 6 (mode AND 0x1C0)) (mode AND 0x800 \<noteq> 0) False @
          rwx (drop_bit 3 (mode AND 0x38)) (mode AND 0x400 \<noteq> 0) False @
          rwx (mode AND 7) (mode AND 0x200 \<noteq> 0) True)"

text \<open>\<open>strftime\<close> formats a time in the local calendar, \<open>now\<close> is the clock.\<close>

definition date_string :: "(string \<Rightarrow> rat \<Rightarrow> ustr) \<Rightarrow> rat \<Rightarrow> rat option \<Rightarrow> ustr" where
  "date_string strftime now mtime =
     (case mtime of
        None \<Rightarrow> lit ''(unknown date)''
      | Some t \<Rightarrow>
          if t = of_int xffffffff then lit ''(unknown date)''
          else if \<bar>now - t\<bar> > 15552000 then strftime ''%d %b %Y'' t else strftime ''%d %b %H:%M'' t)"

definition ljust :: "nat \<Rightarrow> ustr \<Rightarrow> ustr" where "ljust n s = s @ replicate (n - length s) 32"
definition rjust :: "nat \<Rightarrow> ustr \<Rightarrow> ustr" where "rjust n s = replicate (n - length s) 32 @ s"

definition long_listing :: "(string \<Rightarrow> rat \<Rightarrow> ustr) \<Rightarrow> rat \<Rightarrow> sftp_attributes \<Rightarrow> ustr" where
  "long_listing strftime now a =
     (let or0 = (\<lambda>x. case x of None \<Rightarrow> 0 | Some n \<Rightarrow> n) in
      mode_string (st_mode a) @ lit ''   1 '' @ ljust 8 (dec_str (or0 (st_uid a))) @ lit '' '' @
      ljust 8 (dec_str (or0 (st_gid a))) @ lit '' '' @ rjust 8 (dec_str (or0 (st_size a))) @ lit '' '' @
      ljust 12 (date_string strftime now (st_mtime a)) @ lit '' '' @
      (case at_filename a of None \<Rightarrow> lit ''?'' | Some f \<Rightarrow> f))"

definition attr_asbytes :: "(string \<Rightarrow> rat \<Rightarrow> ustr) \<Rightarrow> rat \<Rightarrow> sftp_attributes \<Rightarrow> bytes res" where
  "attr_asbytes strftime now a = utf8_encode (long_listing strftime now a)"

lemma octal_cases: "(0 :: int) \<le> n \<Longrightarrow> n < 8 \<Longrightarrow> n \<in> {0, 1, 2, 3, 4, 5, 6, 7}"
  by (simp add: numeral_eq_Suc) linarith

text \<open>The three letters of a class show its bits and its special bit, and nothing is shown twice.\<close>

lemma rwx_faithful:
  assumes "0 \<le> n" "n < 8" "0 \<le> k" "k < 8" "rwx n s t = rwx k s' t"
  shows "n = k \<and> s = s'"
  using octal_cases [OF assms(1,2)] octal_cases [OF assms(3,4)] assms(5)
  by (cases s; cases s'; cases t) (auto simp: rwx_def drop_bit_eq_div)

end
