(* ===== verification/Buffered_File.thy ===== *)
theory Buffered_File
  imports Sftp
begin

text \<open>
  \<^verbatim>\<open>paramiko/file.py\<close>: \<^verbatim>\<open>BufferedFile\<close>, the base of the files over channels and over SFTP. What a subclass
  supplies as \<^verbatim>\<open>_read\<close> and \<^verbatim>\<open>_write\<close> is a trace: \<open>bf_src\<close> holds what the reads meet (a chunk longer than
  asked for stays in front; the end of the trace, an empty chunk and \<^verbatim>\<open>EOFError\<close> are the end of the file),
  \<open>bf_dst\<close> how many bytes each write takes, and \<open>bf_out\<close> collects what was written. The flags are one
  truth value each.
\<close>

section \<open>The file\<close>

datatype newlines = No_newlines | One_kind bytes | Kinds "bytes list"

record bfile =
  bf_src :: "sock_event list"
  bf_dst :: "(pyexc + nat) list"
  bf_out :: bytes
  bf_newlines :: newlines
  fl_read :: bool
  fl_write :: bool
  fl_append :: bool
  fl_binary :: bool
  fl_buffered :: bool
  fl_line_buffered :: bool
  fl_universal :: bool
  bf_bufsize :: nat
  bf_wbuffer :: bytes
  bf_rbuffer :: bytes
  bf_at_trailing_cr :: bool
  bf_closed :: bool
  bf_pos :: int
  bf_realpos :: int
  bf_size :: int

definition DEFAULT_BUFSIZE :: nat where "DEFAULT_BUFSIZE = 8192"

definition new_file :: "sock_event list \<Rightarrow> (pyexc + nat) list \<Rightarrow> bfile" where
  "new_file src dst =
     \<lparr>bf_src = src, bf_dst = dst, bf_out = [], bf_newlines = No_newlines, fl_read = False, fl_write = False,
      fl_append = False, fl_binary = False, fl_buffered = False, fl_line_buffered = False, fl_universal = False,
      bf_bufsize = DEFAULT_BUFSIZE, bf_wbuffer = [], bf_rbuffer = [], bf_at_trailing_cr = False, bf_closed = False,
      bf_pos = 0, bf_realpos = 0, bf_size = 0\<rparr>"

text \<open>\<^verbatim>\<open>_set_mode\<close>; \<open>get_size\<close> is what the subclass reports as the size of the file.\<close>

definition set_bufsize :: "int \<Rightarrow> bfile \<Rightarrow> bfile" where
  "set_bufsize bufsize0 f0 =
     (let f = f0\<lparr>bf_bufsize := DEFAULT_BUFSIZE\<rparr>; bufsize = (if bufsize0 < 0 then 0 else bufsize0)
      in if bufsize = 1 then f\<lparr>fl_buffered := True, fl_line_buffered := True\<rparr>
         else if bufsize > 1 then f\<lparr>bf_bufsize := nat bufsize, fl_buffered := True, fl_line_buffered := False\<rparr>
         else f\<lparr>fl_buffered := False, fl_line_buffered := False\<rparr>)"

definition set_mode :: "string \<Rightarrow> int \<Rightarrow> int \<Rightarrow> bfile \<Rightarrow> bfile" where
  "set_mode mode bufsize get_size f0 =
     (let f1 = set_bufsize bufsize f0;
          f2 = (if CHR ''r'' \<in> set mode \<or> CHR ''+'' \<in> set mode then f1\<lparr>fl_read := True\<rparr> else f1);
          f3 = (if CHR ''w'' \<in> set mode \<or> CHR ''+'' \<in> set mode then f2\<lparr>fl_write := True\<rparr> else f2);
          f4 = (if CHR ''a'' \<in> set mode
                then f3\<lparr>fl_write := True, fl_append := True, bf_size := get_size, bf_pos := get_size, bf_realpos := get_size\<rparr>
                else f3);
          f5 = (if CHR ''b'' \<in> set mode then f4\<lparr>fl_binary := True\<rparr> else f4)
      in if CHR ''U'' \<in> set mode then f5\<lparr>fl_universal := True, bf_newlines := No_newlines\<rparr> else f5)"

section \<open>Writing\<close>

fun bf_write_loop :: "(pyexc + nat) list \<Rightarrow> bytes \<Rightarrow> bfile \<Rightarrow> unit res \<times> bfile" where
  "bf_write_loop evs [] f = (Inr (), f\<lparr>bf_dst := evs\<rparr>)"
| "bf_write_loop [] data f = (Inl Blocked, f\<lparr>bf_dst := []\<rparr>)"
| "bf_write_loop (Inl e # evs) data f = (Inl e, f\<lparr>bf_dst := evs\<rparr>)"
| "bf_write_loop (Inr k # evs) data f =
     (let count = min k (length data);
          f1 = f\<lparr>bf_out := bf_out f @ take count data\<rparr>;
          f2 = (if fl_append f1
                then f1\<lparr>bf_size := bf_size f1 + int count, bf_pos := bf_size f1 + int count, bf_realpos := bf_size f1 + int count\<rparr>
                else f1\<lparr>bf_pos := bf_pos f1 + int count, bf_realpos := bf_realpos f1 + int count\<rparr>)
      in bf_write_loop evs (drop count data) f2)"

definition bf_write_all :: "bytes \<Rightarrow> (bfile, unit) sm" where
  "bf_write_all data = (\<lambda>f. bf_write_loop (bf_dst f) data f)"

definition bf_flush :: "(bfile, unit) sm" where
  "bf_flush = (\<lambda>f. bindS (bf_write_all (bf_wbuffer f)) (\<lambda>_. modS (\<lambda>f. f\<lparr>bf_wbuffer := []\<rparr>)) f)"

definition bf_close :: "(bfile, unit) sm" where
  "bf_close = bindS bf_flush (\<lambda>_. modS (\<lambda>f. f\<lparr>bf_closed := True\<rparr>))"

text \<open>The position after the last line feed of \<open>data\<close>, or 0.\<close>

definition after_last_lf :: "bytes \<Rightarrow> nat" where
  "after_last_lf data = length data - length (takeWhile (\<lambda>b. b \<noteq> 10) (rev data))"

definition bf_write :: "bytes \<Rightarrow> (bfile, unit) sm" where
  "bf_write data = (\<lambda>f.
     if bf_closed f then (Inl (IOError ''File is closed''), f)
     else if \<not> fl_write f then (Inl (IOError ''File not open for writing''), f)
     else if \<not> fl_buffered f then bf_write_all data f
     else
       (let f1 = f\<lparr>bf_wbuffer := bf_wbuffer f @ data\<rparr>
        in if fl_line_buffered f1 then
             (if after_last_lf data > 0 then
                (let wbuf = bf_wbuffer f1; cut = after_last_lf data + (length wbuf - length data)
                 in bindS (bf_write_all (take cut wbuf)) (\<lambda>_. modS (\<lambda>f. f\<lparr>bf_wbuffer := drop cut wbuf\<rparr>)) f1)
              else (Inr (), f1))
           else if length (bf_wbuffer f1) \<ge> bf_bufsize f1 then bf_flush f1
           else (Inr (), f1)))"

definition bf_write_text :: "ustr \<Rightarrow> (bfile, unit) sm" where
  "bf_write_text s = bindS (liftR (utf8_encode s)) bf_write"

fun bf_writelines :: "bytes list \<Rightarrow> (bfile, unit) sm" where
  "bf_writelines [] = retS ()"
| "bf_writelines (l # ls) = bindS (bf_write l) (\<lambda>_. bf_writelines ls)"

section \<open>Reading\<close>

text \<open>One \<^verbatim>\<open>_read\<close>: \<open>None\<close> at the end of the file.\<close>

definition bf_raw :: "nat \<Rightarrow> bfile \<Rightarrow> bytes option res \<times> bfile" where
  "bf_raw n f =
     (case bf_src f of
        [] \<Rightarrow> (Inr None, f)
      | Fails e # es \<Rightarrow> (if e = EOFError then Inr None else Inl e, f\<lparr>bf_src := es\<rparr>)
      | Arrives x # es \<Rightarrow>
          (let d = take n x
           in (Inr (if d = [] then None else Some d), f\<lparr>bf_src := (if n < length x then Arrives (drop n x) # es else es)\<rparr>)))"

lemma bf_raw_less: "bf_raw n f = (Inr (Some d), f') \<Longrightarrow> sftp_left (bf_src f') < sftp_left (bf_src f) \<and> d \<noteq> []"
  by (auto simp: bf_raw_def Let_def split: list.splits sock_event.splits if_splits)

text \<open>\<^verbatim>\<open>read()\<close> of everything, and of at most \<open>n\<close> bytes.\<close>

function bf_slurp :: "bytes \<Rightarrow> bfile \<Rightarrow> bytes res \<times> bfile" where
  "bf_slurp acc f =
     (case bf_raw DEFAULT_BUFSIZE f of
        (Inl e, f') \<Rightarrow> (Inl e, f')
      | (Inr None, f') \<Rightarrow> (Inr acc, f')
      | (Inr (Some d), f') \<Rightarrow>
          bf_slurp (acc @ d) (f'\<lparr>bf_realpos := bf_realpos f' + int (length d), bf_pos := bf_pos f' + int (length d)\<rparr>))"
  by pat_completeness auto
termination by (relation "measure (\<lambda>(acc, f). sftp_left (bf_src f))") (auto dest: bf_raw_less [OF sym])

declare bf_slurp.simps [simp del]

function bf_fill :: "nat \<Rightarrow> bfile \<Rightarrow> unit res \<times> bfile" where
  "bf_fill n f =
     (if length (bf_rbuffer f) < n then
        (let read_size = (if fl_buffered f then max (bf_bufsize f) (n - length (bf_rbuffer f)) else n - length (bf_rbuffer f))
         in case bf_raw read_size f of
              (Inl e, f') \<Rightarrow> (Inl e, f')
            | (Inr None, f') \<Rightarrow> (Inr (), f')
            | (Inr (Some d), f') \<Rightarrow>
                bf_fill n (f'\<lparr>bf_rbuffer := bf_rbuffer f' @ d, bf_realpos := bf_realpos f' + int (length d)\<rparr>))
      else (Inr (), f))"
  by pat_completeness auto
termination by (relation "measure (\<lambda>(n, f). sftp_left (bf_src f))") (auto dest: bf_raw_less [OF sym])

declare bf_fill.simps [simp del]

text \<open>\<open>result = rbuffer[:size]; rbuffer = rbuffer[size:]; pos += len(result)\<close>\<close>

definition bf_take :: "nat \<Rightarrow> (bfile, bytes) sm" where
  "bf_take n = (\<lambda>f.
     (Inr (take n (bf_rbuffer f)),
      f\<lparr>bf_rbuffer := drop n (bf_rbuffer f), bf_pos := bf_pos f + int (length (take n (bf_rbuffer f)))\<rparr>))"

definition bf_read :: "int option \<Rightarrow> (bfile, bytes) sm" where
  "bf_read sz = (\<lambda>f.
     if bf_closed f then (Inl (IOError ''File is closed''), f)
     else if \<not> fl_read f then (Inl (IOError ''File is not open for reading''), f)
     else
       (case sz of
          Some n \<Rightarrow>
            if n < 0 then bf_slurp (bf_rbuffer f) (f\<lparr>bf_rbuffer := [], bf_pos := bf_pos f + int (length (bf_rbuffer f))\<rparr>)
            else if n \<le> int (length (bf_rbuffer f)) then bf_take (nat n) f
            else bindS (bf_fill (nat n)) (\<lambda>_. bf_take (nat n)) f
        | None \<Rightarrow> bf_slurp (bf_rbuffer f) (f\<lparr>bf_rbuffer := [], bf_pos := bf_pos f + int (length (bf_rbuffer f))\<rparr>)))"

text \<open>\<^verbatim>\<open>_record_newline\<close>\<close>

definition record_newline :: "bytes \<Rightarrow> bfile \<Rightarrow> bfile" where
  "record_newline nl f =
     (if \<not> fl_universal f then f
      else (case bf_newlines f of
              No_newlines \<Rightarrow> f\<lparr>bf_newlines := One_kind nl\<rparr>
            | One_kind k \<Rightarrow> if k \<noteq> nl then f\<lparr>bf_newlines := Kinds [k, nl]\<rparr> else f
            | Kinds ks \<Rightarrow> if nl \<notin> set ks then f\<lparr>bf_newlines := Kinds (ks @ [nl])\<rparr> else f))"

text \<open>The newline that was cut in two by the last line, at the start of the loop of \<^verbatim>\<open>readline\<close>.\<close>

definition eat_trailing :: "bytes \<Rightarrow> bfile \<Rightarrow> bytes \<times> bfile" where
  "eat_trailing line f =
     (if bf_at_trailing_cr f \<and> fl_universal f \<and> line \<noteq> [] then
        (if hd line = 10 then (tl line, (record_newline [13, 10] f)\<lparr>bf_at_trailing_cr := False\<rparr>)
         else (line, (record_newline [13] f)\<lparr>bf_at_trailing_cr := False\<rparr>))
      else (line, f))"

definition has_newline :: "bytes \<Rightarrow> bfile \<Rightarrow> bool" where
  "has_newline line f \<longleftrightarrow> 10 \<in> set line \<or> fl_universal f \<and> 13 \<in> set line"

text \<open>Whether the loop can stop with what it has, and how much it asks for otherwise.\<close>

definition line_done :: "int option \<Rightarrow> bytes \<Rightarrow> bfile \<Rightarrow> ((bytes \<times> bool) \<times> bfile) option" where
  "line_done sz line f =
     (case sz of
        Some n \<Rightarrow>
          if n \<ge> 0 \<and> int (length line) \<ge> n
          then Some ((take (nat n) line, True), f\<lparr>bf_rbuffer := drop (nat n) line\<rparr>)
          else if has_newline line f then Some ((line, False), f) else None
      | None \<Rightarrow> if has_newline line f then Some ((line, False), f) else None)"

definition line_want :: "int option \<Rightarrow> bytes \<Rightarrow> bfile \<Rightarrow> nat" where
  "line_want sz line f =
     (case sz of Some n \<Rightarrow> if n \<ge> 0 then nat n - length line else bf_bufsize f | None \<Rightarrow> bf_bufsize f)"

text \<open>The loop: \<open>Inl line\<close> when the file has ended, \<open>Inr (line, truncated)\<close> when a line is to be cut off.\<close>

lemma eat_trailing_src: "eat_trailing line f = (line', f') \<Longrightarrow> bf_src f' = bf_src f"
  by (auto simp: eat_trailing_def record_newline_def split: if_splits newlines.splits)

function bf_line_loop :: "int option \<Rightarrow> bytes \<Rightarrow> bfile \<Rightarrow> (bytes + bytes \<times> bool) res \<times> bfile" where
  "bf_line_loop sz line0 f0 =
     (case eat_trailing line0 f0 of
        (line, f) \<Rightarrow>
          (case line_done sz line f of
             Some (r, f') \<Rightarrow> (Inr (Inr r), f')
           | None \<Rightarrow>
               (case bf_raw (line_want sz line f) f of
                  (Inl e, f') \<Rightarrow> (Inl e, f')
                | (Inr None, f') \<Rightarrow> (Inr (Inl line), f'\<lparr>bf_rbuffer := []\<rparr>)
                | (Inr (Some d), f') \<Rightarrow>
                    bf_line_loop sz (line @ d) (f'\<lparr>bf_realpos := bf_realpos f' + int (length d)\<rparr>))))"
  by pat_completeness auto
termination
  by (relation "measure (\<lambda>(sz, line, f). sftp_left (bf_src f))")
     (auto dest: bf_raw_less [OF sym] simp: eat_trailing_src [OF sym])

declare bf_line_loop.simps [simp del]

text \<open>Where the first newline of a line starts, if it has one.\<close>

definition newline_pos :: "bytes \<Rightarrow> bfile \<Rightarrow> nat option" where
  "newline_pos line f =
     (let p = length (takeWhile (\<lambda>b. \<not> (b = 10 \<or> fl_universal f \<and> b = 13)) line)
      in if p < length line then Some p else None)"

definition cut_line :: "bytes \<Rightarrow> bool \<Rightarrow> nat \<Rightarrow> bfile \<Rightarrow> bytes \<times> bfile" where
  "cut_line line truncated pos f =
     (let xpos = (if line ! pos = 13 \<and> pos + 1 < length line \<and> line ! (pos + 1) = 10 then pos + 2 else pos + 1);
          f1 = f\<lparr>bf_rbuffer := (if truncated then drop xpos line @ bf_rbuffer f else drop xpos line)\<rparr>;
          lf = drop pos (take xpos line);
          line' = take pos line @ [10];
          f2 = (if bf_rbuffer f1 = [] \<and> lf = [13] then f1\<lparr>bf_at_trailing_cr := True\<rparr> else record_newline lf f1)
      in (line', f2\<lparr>bf_pos := bf_pos f2 + int (length line')\<rparr>))"

text \<open>\<^verbatim>\<open>readline\<close>, as bytes; \<open>bf_readline_text\<close> decodes the line of a file that is not binary.\<close>

definition bf_readline :: "int option \<Rightarrow> (bfile, bytes) sm" where
  "bf_readline sz = (\<lambda>f.
     if bf_closed f then (Inl (IOError ''File is closed''), f)
     else if \<not> fl_read f then (Inl (IOError ''File not open for reading''), f)
     else
       (case bf_line_loop sz (bf_rbuffer f) f of
          (Inl e, f') \<Rightarrow> (Inl e, f')
        | (Inr (Inl line), f') \<Rightarrow> (Inr line, f'\<lparr>bf_pos := bf_pos f' + int (length line)\<rparr>)
        | (Inr (Inr (line, truncated)), f') \<Rightarrow>
            (case newline_pos line f' of
               None \<Rightarrow> (Inr line, f'\<lparr>bf_pos := bf_pos f' + int (length line)\<rparr>)
             | Some pos \<Rightarrow> (case cut_line line truncated pos f' of (line', f2) \<Rightarrow> (Inr line', f2)))))"

definition bf_readline_text :: "int option \<Rightarrow> (bfile, bytes + ustr) sm" where
  "bf_readline_text sz = bindS (bf_readline sz) (\<lambda>line f.
     if fl_binary f then (Inr (Inl line), f)
     else (case utf8_decode line of Inl e \<Rightarrow> (Inl e, f) | Inr s \<Rightarrow> (Inr (Inr s), f)))"

text \<open>\<^verbatim>\<open>__next__\<close>: \<open>None\<close> is \<^verbatim>\<open>StopIteration\<close>.\<close>

definition bf_next :: "(bfile, bytes option) sm" where
  "bf_next = bindS (bf_readline None) (\<lambda>line. retS (if line = [] then None else Some line))"

definition bf_seek :: "int \<Rightarrow> int \<Rightarrow> (bfile, unit) sm" where
  "bf_seek offset whence = raiseS (IOError ''File does not support seeking.'')"

definition bf_tell :: "bfile \<Rightarrow> int" where "bf_tell f = bf_pos f"

definition bf_readable :: "bfile \<Rightarrow> bool" where "bf_readable f = fl_read f"
definition bf_writable :: "bfile \<Rightarrow> bool" where "bf_writable f = fl_write f"

text \<open>\<^verbatim>\<open>readlines\<close>; whether the loop ends is a question of its own.\<close>

partial_function (option) bf_lines_loop ::
  "int option \<Rightarrow> bytes list \<Rightarrow> int \<Rightarrow> bfile \<Rightarrow> (bytes list res \<times> bfile) option" where
  "bf_lines_loop sizehint acc byte_count f =
     (case bf_readline None f of
        (Inl e, f') \<Rightarrow> Some (Inl e, f')
      | (Inr line, f') \<Rightarrow>
          (if line = [] then Some (Inr acc, f')
           else if (case sizehint of None \<Rightarrow> False | Some h \<Rightarrow> byte_count + int (length line) \<ge> h)
                then Some (Inr (acc @ [line]), f')
                else bf_lines_loop sizehint (acc @ [line]) (byte_count + int (length line)) f'))"

definition bf_readlines :: "int option \<Rightarrow> bfile \<Rightarrow> (bytes list res \<times> bfile) option" where
  "bf_readlines sizehint f = bf_lines_loop sizehint [] 0 f"

section \<open>Reading is reading from the contents\<close>

text \<open>What is left to read, and the files the reference below speaks of: open for reading, without newline
  translation, over a source that does not fail.\<close>

definition contents :: "bfile \<Rightarrow> bytes" where
  "contents f = bf_rbuffer f @ arrives (bf_src f)"

definition plain_file :: "bfile \<Rightarrow> bool" where
  "plain_file f \<longleftrightarrow> \<not> bf_closed f \<and> fl_read f \<and> \<not> fl_universal f \<and> 0 < bf_bufsize f \<and> smooth (bf_src f)"

definition line_of :: "bytes \<Rightarrow> bytes" where
  "line_of bs = take (Suc (length (takeWhile (\<lambda>b. b \<noteq> 10) bs))) bs"

text \<open>\<open>stepped f f' n\<close>: the file is as it was, but for \<open>n\<close> bytes that have been read.\<close>

definition stepped :: "bfile \<Rightarrow> bfile \<Rightarrow> nat \<Rightarrow> bool" where
  "stepped f f' n \<longleftrightarrow> plain_file f' \<and> contents f' = drop n (contents f) \<and> bf_tell f' = bf_tell f + int n"

lemma bf_raw_plain:
  assumes "smooth (bf_src f)" "0 < n"
  shows "(arrives (bf_src f) = [] \<and> bf_raw n f = (Inr None, f)) \<or>
     (\<exists>d es. d \<noteq> [] \<and> bf_raw n f = (Inr (Some d), f\<lparr>bf_src := es\<rparr>) \<and> smooth es \<and> arrives (bf_src f) = d @ arrives es)"
proof (cases "bf_src f")
  case (Cons e es)
  then obtain x where x: "e = Arrives x" "x \<noteq> []" "smooth es" using assms(1) by (cases e) (auto simp: smooth_def)
  let ?es = "if n < length x then Arrives (drop n x) # es else es"
  have "take n x \<noteq> []" "bf_raw n f = (Inr (Some (take n x)), f\<lparr>bf_src := ?es\<rparr>)" "smooth ?es"
    "arrives (bf_src f) = take n x @ arrives ?es"
    using Cons x assms(2) by (auto simp: bf_raw_def Let_def smooth_def append_assoc [symmetric] simp del: append_assoc)
  then show ?thesis by blast
qed (simp add: bf_raw_def)

lemma bf_fill_plain:
  assumes "plain_file f" "0 < n"
  shows "\<exists>f'. bf_fill n f = (Inr (), f') \<and> plain_file f' \<and> contents f' = contents f \<and> bf_tell f' = bf_tell f \<and>
     (n \<le> length (bf_rbuffer f') \<or> arrives (bf_src f') = [])"
  using assms
proof (induction "sftp_left (bf_src f)" arbitrary: f rule: less_induct)
  case less
  let ?k = "if fl_buffered f then max (bf_bufsize f) (n - length (bf_rbuffer f)) else n - length (bf_rbuffer f)"
  show ?case
  proof (cases "length (bf_rbuffer f) < n")
    case True
    have sm: "smooth (bf_src f)" "0 < ?k" using less.prems True by (auto simp: plain_file_def)
    show ?thesis
      using bf_raw_plain [OF sm]
    proof (elim disjE exE conjE)
      assume "arrives (bf_src f) = []" "bf_raw ?k f = (Inr None, f)"
      with True less.prems show ?thesis by (subst bf_fill.simps) (simp add: Let_def)
    next
      fix d es assume d: "d \<noteq> []" "bf_raw ?k f = (Inr (Some d), f\<lparr>bf_src := es\<rparr>)" "smooth es" "arrives (bf_src f) = d @ arrives es"
      let ?f = "f\<lparr>bf_src := es, bf_rbuffer := bf_rbuffer f @ d, bf_realpos := bf_realpos f + int (length d)\<rparr>"
      have f: "plain_file ?f" "contents ?f = contents f" "bf_tell ?f = bf_tell f"
        using less.prems d by (auto simp: plain_file_def contents_def bf_tell_def)
      have e: "bf_fill n f = bf_fill n ?f" using True d by (subst bf_fill.simps) (simp add: Let_def)
      have "\<exists>f'. bf_fill n ?f = (Inr (), f') \<and> plain_file f' \<and> contents f' = contents ?f \<and> bf_tell f' = bf_tell ?f \<and>
          (n \<le> length (bf_rbuffer f') \<or> arrives (bf_src f') = [])"
        using less.hyps [of ?f] bf_raw_less [OF d(2)] f(1) less.prems(2) by simp
      with e f show ?thesis by simp
    qed
  next
    case False
    with less.prems show ?thesis by (subst bf_fill.simps) auto
  qed
qed

lemma bf_read_plain:
  assumes "plain_file f"
  shows "\<exists>f'. bf_read (Some (int n)) f = (Inr (take n (contents f)), f') \<and> stepped f f' (min n (length (contents f)))"
proof (cases "n \<le> length (bf_rbuffer f)")
  case True
  with assms show ?thesis
    by (auto simp: bf_read_def bf_take_def stepped_def plain_file_def contents_def bf_tell_def min_def)
next
  case False
  then have "0 < n" by simp
  from bf_fill_plain [OF assms this] obtain f1 where f1: "bf_fill n f = (Inr (), f1)" "plain_file f1" "contents f1 = contents f"
    "bf_tell f1 = bf_tell f" "n \<le> length (bf_rbuffer f1) \<or> arrives (bf_src f1) = []" by blast
  have t: "take n (bf_rbuffer f1) = take n (contents f)" "drop n (bf_rbuffer f1) @ arrives (bf_src f1) = drop n (contents f)"
    using f1(5) unfolding f1(3) [symmetric] by (auto simp: contents_def)
  let ?f2 = "f1\<lparr>bf_rbuffer := drop n (bf_rbuffer f1), bf_pos := bf_pos f1 + int (length (take n (bf_rbuffer f1)))\<rparr>"
  have "bf_read (Some (int n)) f = (Inr (take n (bf_rbuffer f1)), ?f2)"
    using False assms f1(1) by (simp add: bf_read_def bf_take_def bindS_def plain_file_def)
  then have r: "bf_read (Some (int n)) f = (Inr (take n (contents f)), ?f2)" by (simp only: t(1))
  have "length (take n (bf_rbuffer f1)) = min n (length (contents f))" unfolding t(1) by (simp add: min_def)
  then have "bf_tell ?f2 = bf_tell f + int (min n (length (contents f)))" using f1(4) by (simp add: bf_tell_def)
  moreover have "contents ?f2 = drop n (contents f)" using t(2) by (simp add: contents_def)
  moreover have "plain_file ?f2" using f1(2) by (simp add: plain_file_def)
  moreover have "drop n (contents f) = drop (min n (length (contents f))) (contents f)" by (simp add: min_def)
  ultimately show ?thesis unfolding r stepped_def by simp
qed

lemma bf_line_loop_plain:
  assumes "plain_file f"
  shows "\<exists>f'. plain_file f' \<and> bf_tell f' = bf_tell f \<and>
     (if 10 \<in> set (line @ arrives (bf_src f))
      then \<exists>l. bf_line_loop None line f = (Inr (Inr (l, False)), f') \<and> 10 \<in> set l \<and> l @ arrives (bf_src f') = line @ arrives (bf_src f)
      else bf_line_loop None line f = (Inr (Inl (line @ arrives (bf_src f))), f') \<and> contents f' = [])"
  using assms
proof (induction "sftp_left (bf_src f)" arbitrary: line f rule: less_induct)
  case less
  have u: "\<not> fl_universal f" "smooth (bf_src f)" "0 < bf_bufsize f" using less.prems by (auto simp: plain_file_def)
  then have e: "eat_trailing line f = (line, f)" by (simp add: eat_trailing_def)
  show ?case
  proof (cases "10 \<in> set line")
    case True
    with u e less.prems show ?thesis
      by (intro exI [of _ f]) (subst bf_line_loop.simps, simp add: line_done_def has_newline_def)
  next
    case False
    then have n: "line_done None line f = None" using u by (simp add: line_done_def has_newline_def)
    have w: "line_want None line f = bf_bufsize f" by (simp add: line_want_def)
    show ?thesis
      using bf_raw_plain [OF u(2,3)]
    proof (elim disjE exE conjE)
      assume "arrives (bf_src f) = []" "bf_raw (bf_bufsize f) f = (Inr None, f)"
      with False e n w less.prems show ?thesis
        by (intro exI [of _ "f\<lparr>bf_rbuffer := []\<rparr>"]) (subst bf_line_loop.simps, simp add: plain_file_def contents_def bf_tell_def)
    next
      fix d es assume d: "d \<noteq> []" "bf_raw (bf_bufsize f) f = (Inr (Some d), f\<lparr>bf_src := es\<rparr>)" "smooth es"
        "arrives (bf_src f) = d @ arrives es"
      let ?f = "f\<lparr>bf_src := es, bf_realpos := bf_realpos f + int (length d)\<rparr>"
      have l: "bf_line_loop None line f = bf_line_loop None (line @ d) ?f"
        by (subst bf_line_loop.simps) (simp add: e n w d(2))
      have "sftp_left (bf_src ?f) < sftp_left (bf_src f)" "plain_file ?f"
        using bf_raw_less [OF d(2)] less.prems d(3) by (auto simp: plain_file_def)
      then obtain f' where "plain_file f'" "bf_tell f' = bf_tell ?f"
        "if 10 \<in> set ((line @ d) @ arrives (bf_src ?f))
         then \<exists>l. bf_line_loop None (line @ d) ?f = (Inr (Inr (l, False)), f') \<and> 10 \<in> set l \<and>
                l @ arrives (bf_src f') = (line @ d) @ arrives (bf_src ?f)
         else bf_line_loop None (line @ d) ?f = (Inr (Inl ((line @ d) @ arrives (bf_src ?f))), f') \<and> contents f' = []"
        using less.hyps by blast
      then show ?thesis unfolding l by (intro exI [of _ f']) (auto simp: d(4) bf_tell_def split: if_splits)
    qed
  qed
qed

lemma line_of_cases:
  "10 \<in> set bs \<Longrightarrow> line_of bs = takeWhile (\<lambda>b. b \<noteq> 10) bs @ [10]"
  "10 \<notin> set bs \<Longrightarrow> line_of bs = bs"
proof -
  assume "10 \<in> set bs"
  then obtain xs ys where "bs = xs @ 10 # ys" "10 \<notin> set xs" by (meson split_list_first)
  then show "line_of bs = takeWhile (\<lambda>b. b \<noteq> 10) bs @ [10]" by (auto simp: line_of_def takeWhile_append)
next
  assume "10 \<notin> set bs"
  then have t: "takeWhile (\<lambda>b. b \<noteq> 10) bs = bs" by (auto simp: takeWhile_eq_all_conv)
  show "line_of bs = bs" unfolding line_of_def t by simp
qed

lemma bf_readline_plain:
  assumes "plain_file f"
  shows "\<exists>f'. bf_readline None f = (Inr (line_of (contents f)), f') \<and> stepped f f' (length (line_of (contents f)))"
proof -
  have u: "\<not> bf_closed f" "fl_read f" using assms by (auto simp: plain_file_def)
  obtain f1 where f1: "plain_file f1" "bf_tell f1 = bf_tell f"
     "if 10 \<in> set (contents f)
      then \<exists>l. bf_line_loop None (bf_rbuffer f) f = (Inr (Inr (l, False)), f1) \<and> 10 \<in> set l \<and> l @ arrives (bf_src f1) = contents f
      else bf_line_loop None (bf_rbuffer f) f = (Inr (Inl (contents f)), f1) \<and> contents f1 = []"
    using bf_line_loop_plain [OF assms, of "bf_rbuffer f"] unfolding contents_def by blast
  show ?thesis
  proof (cases "10 \<in> set (contents f)")
    case True
    then obtain l where l: "bf_line_loop None (bf_rbuffer f) f = (Inr (Inr (l, False)), f1)" "10 \<in> set l"
      "l @ arrives (bf_src f1) = contents f" using f1(3) by auto
    obtain xs ys where xs: "l = xs @ 10 # ys" "10 \<notin> set xs" using l(2) by (meson split_list_first)
    have nu: "\<not> fl_universal f1" using f1(1) by (simp add: plain_file_def)
    have p: "newline_pos l f1 = Some (length xs)"
      using xs nu by (auto simp: newline_pos_def Let_def takeWhile_append takeWhile_eq_all_conv)
    have c: "cut_line l False (length xs) f1 =
        (xs @ [10], f1\<lparr>bf_rbuffer := ys, bf_pos := bf_pos f1 + int (length (xs @ [10]))\<rparr>)"
      using xs nu by (simp add: cut_line_def Let_def record_newline_def nth_append)
    have lo: "line_of (contents f) = xs @ [10]"
      using True xs l(3) line_of_cases(1) [of "contents f"] by (auto simp: l(3) [symmetric] takeWhile_append takeWhile_eq_all_conv)
    let ?f2 = "f1\<lparr>bf_rbuffer := ys, bf_pos := bf_pos f1 + int (length (xs @ [10]))\<rparr>"
    have r: "bf_readline None f = (Inr (xs @ [10]), ?f2)"
      using u l(1) p c by (simp add: bf_readline_def)
    have "contents ?f2 = ys @ arrives (bf_src f1)" by (simp add: contents_def)
    moreover have "contents f = (xs @ [10]) @ ys @ arrives (bf_src f1)" using l(3) xs(1) by simp
    moreover have "plain_file ?f2" "bf_tell ?f2 = bf_tell f + int (length (xs @ [10]))"
      using f1 by (auto simp: plain_file_def bf_tell_def)
    ultimately show ?thesis unfolding r lo stepped_def by simp
  next
    case False
    then show ?thesis
      using u f1 line_of_cases(2) [OF False]
      by (auto simp: bf_readline_def stepped_def plain_file_def bf_tell_def contents_def)
  qed
qed


section \<open>The reference\<close>

text \<open>The same operations on a plain list of bytes: what they return, and what is left.\<close>

datatype read_op = Read nat | Readline

fun ref_read :: "read_op list \<Rightarrow> bytes \<Rightarrow> bytes list \<times> bytes" where
  "ref_read [] bs = ([], bs)"
| "ref_read (Read n # ops) bs = (case ref_read ops (drop n bs) of (outs, r) \<Rightarrow> (take n bs # outs, r))"
| "ref_read (Readline # ops) bs =
     (case ref_read ops (drop (length (line_of bs)) bs) of (outs, r) \<Rightarrow> (line_of bs # outs, r))"

definition file_op :: "read_op \<Rightarrow> (bfile, bytes) sm" where
  "file_op x = (case x of Read n \<Rightarrow> bf_read (Some (int n)) | Readline \<Rightarrow> bf_readline None)"

fun file_ops :: "read_op list \<Rightarrow> (bfile, bytes list) sm" where
  "file_ops [] = retS []"
| "file_ops (x # xs) = bindS (file_op x) (\<lambda>b. bindS (file_ops xs) (\<lambda>bs. retS (b # bs)))"

lemma drop_min: "drop (min n (length xs)) xs = drop n xs"
  by (simp add: min_def)

lemma ref_read_length: "ref_read ops bs = (outs, r) \<Longrightarrow> length (concat outs) + length r = length bs"
proof (induction ops arbitrary: bs outs r)
  case (Cons x xs)
  define k where "k = (case x of Read n \<Rightarrow> min n (length bs) | Readline \<Rightarrow> length (line_of bs))"
  have k: "k \<le> length bs" by (cases x) (auto simp: k_def line_of_def)
  obtain b outs1 where "ref_read xs (drop k bs) = (outs1, r)" "outs = b # outs1" "length b = k"
    using Cons.prems by (cases x) (auto simp: k_def drop_min split: prod.splits)
  with Cons.IH [of "drop k bs" outs1 r] k show ?case by simp
qed simp

lemma file_ops_ref:
  "plain_file f \<Longrightarrow> ref_read ops (contents f) = (outs, r) \<Longrightarrow>
     \<exists>f'. file_ops ops f = (Inr outs, f') \<and> contents f' = r \<and> plain_file f' \<and> bf_tell f' = bf_tell f + int (length (concat outs))"
proof (induction ops arbitrary: f outs)
  case (Cons x xs)
  obtain b k where b: "case x of Read n \<Rightarrow> b = take n (contents f) \<and> k = min n (length (contents f))
      | Readline \<Rightarrow> b = line_of (contents f) \<and> k = length (line_of (contents f))" by (cases x) auto
  obtain f1 where f1: "file_op x f = (Inr b, f1)" "stepped f f1 k"
    using b bf_read_plain [OF Cons.prems(1)] bf_readline_plain [OF Cons.prems(1)]
    by (cases x) (auto simp: file_op_def)
  have kb: "length b = k" using b by (cases x) auto
  obtain outs1 where o: "outs = b # outs1" "ref_read xs (drop k (contents f)) = (outs1, r)"
    using Cons.prems(2) b by (cases x) (auto split: prod.splits simp: drop_min)
  have s: "plain_file f1" "contents f1 = drop k (contents f)" "bf_tell f1 = bf_tell f + int k"
    using f1(2) by (auto simp: stepped_def)
  from Cons.IH [OF s(1), of outs1] o(2) s(2) obtain f2 where
    "file_ops xs f1 = (Inr outs1, f2)" "contents f2 = r" "plain_file f2" "bf_tell f2 = bf_tell f1 + int (length (concat outs1))"
    by auto
  with f1(1) o(1) kb s(3) show ?case by (simp add: bindS_def retS_def)
qed (simp add: retS_def)

text \<open>The lines of a file.\<close>

function lines_of :: "bytes \<Rightarrow> bytes list" where
  "lines_of bs = (if bs = [] then [] else line_of bs # lines_of (drop (length (line_of bs)) bs))"
  by pat_completeness auto
termination by (relation "measure length") (auto simp: line_of_def)

declare lines_of.simps [simp del]

lemma line_of_Nil: "line_of bs = [] \<longleftrightarrow> bs = []"
  by (simp add: line_of_def)

lemma bf_lines_loop_plain:
  assumes "plain_file f"
  shows "\<exists>f'. bf_lines_loop None acc k f = Some (Inr (acc @ lines_of (contents f)), f') \<and> contents f' = []"
  using assms
proof (induction "length (contents f)" arbitrary: acc k f rule: less_induct)
  case less
  let ?l = "line_of (contents f)"
  obtain f1 where f1: "bf_readline None f = (Inr ?l, f1)" "plain_file f1" "contents f1 = drop (length ?l) (contents f)"
    using bf_readline_plain [OF less.prems] by (auto simp: stepped_def)
  show ?case
  proof (cases "contents f = []")
    case True
    with f1 show ?thesis by (subst bf_lines_loop.simps) (simp add: line_of_Nil lines_of.simps)
  next
    case False
    then have "length (contents f1) < length (contents f)" using f1(3) line_of_Nil [of "contents f"] by simp
    from less.hyps [OF this f1(2), of "acc @ [?l]" "k + int (length ?l)"] False f1 show ?thesis
      by (subst bf_lines_loop.simps) (simp add: line_of_Nil lines_of.simps [of "contents f"])
  qed
qed

section \<open>Properties\<close>

text \<open>C22. Buffered reading is reading: for every sequence of \<^verbatim>\<open>read(n)\<close> and \<^verbatim>\<open>readline()\<close> on an open file (without
  newline translation) whose source does not fail, the results are those of the same operations on the plain
  sequence of bytes that was still to come, whatever the buffer size and however the source delivers the bytes; the
  bytes returned and the bytes left make up that sequence, and \<^verbatim>\<open>tell\<close> counts exactly the bytes returned.\<close>

theorem reads_are_reference:
  "plain_file f \<Longrightarrow>
     (case ref_read ops (contents f) of (outs, r) \<Rightarrow>
        (\<exists>f'. file_ops ops f = (Inr outs, f') \<and> contents f' = r \<and> bf_tell f' = bf_tell f + int (length (concat outs))) \<and>
        length (concat outs) + length r = length (contents f))"
  using file_ops_ref [of f ops] ref_read_length [of ops "contents f"] by (auto split: prod.splits)

theorem reads_are_reference_witness:
  "\<exists>f'. file_ops [Readline, Read 2, Readline, Readline]
       (set_mode ''rb'' 4 0 (new_file [Arrives [1, 10, 2], Arrives [3], Arrives [4, 4, 10, 5]] [])) =
     (Inr [[1, 10], [2, 3], [4, 4, 10], [5]], f')"
  using reads_are_reference [of "set_mode ''rb'' 4 0 (new_file [Arrives [1, 10, 2], Arrives [3], Arrives [4, 4, 10, 5]] [])"
      "[Readline, Read 2, Readline, Readline]"]
  by (auto simp: plain_file_def set_mode_def set_bufsize_def new_file_def smooth_def contents_def line_of_def)

text \<open>\<^verbatim>\<open>readlines\<close> ends and returns the lines of the file: all of what was still to come, cut after every line
  feed, whatever the buffer size and the pieces in which it arrives.\<close>

theorem readlines_returns_lines:
  "plain_file f \<Longrightarrow> \<exists>f'. bf_readlines None f = Some (Inr (lines_of (contents f)), f') \<and> contents f' = []"
  using bf_lines_loop_plain [of f "[]" 0] by (simp add: bf_readlines_def)

theorem readlines_returns_lines_witness:
  "\<exists>f'. bf_readlines None (set_mode ''rb'' (- 1) 0 (new_file [Arrives [1, 10, 2], Arrives [10]] [])) =
     Some (Inr [[1, 10], [2, 10]], f')"
  using readlines_returns_lines [of "set_mode ''rb'' (- 1) 0 (new_file [Arrives [1, 10, 2], Arrives [10]] [])"]
  by (auto simp: plain_file_def set_mode_def set_bufsize_def new_file_def smooth_def contents_def line_of_def lines_of.simps
      DEFAULT_BUFSIZE_def)

section \<open>Writing keeps the order\<close>

lemma bf_write_loop_out:
  "bf_write_loop evs data f = (r, f') \<Longrightarrow>
     bf_wbuffer f' = bf_wbuffer f \<and> (\<exists>k. bf_out f' = bf_out f @ take k data \<and> (r = Inr () \<longrightarrow> k = length data))"
proof (induction evs data f rule: bf_write_loop.induct)
  case (4 k evs b bs f)
  let ?n = "min k (length (b # bs))"
  let ?f1 = "f\<lparr>bf_out := bf_out f @ take ?n (b # bs)\<rparr>"
  let ?f2 = "if fl_append ?f1
      then ?f1\<lparr>bf_size := bf_size ?f1 + int ?n, bf_pos := bf_size ?f1 + int ?n, bf_realpos := bf_size ?f1 + int ?n\<rparr>
      else ?f1\<lparr>bf_pos := bf_pos ?f1 + int ?n, bf_realpos := bf_realpos ?f1 + int ?n\<rparr>"
  have s: "bf_out ?f2 = bf_out f @ take ?n (b # bs)" "bf_wbuffer ?f2 = bf_wbuffer f" by simp_all
  have "bf_write_loop evs (drop ?n (b # bs)) ?f2 = (r, f')"
    using "4.prems" by (simp only: bf_write_loop.simps Let_def)
  from "4.IH" [OF refl refl refl this] obtain j where j: "bf_wbuffer f' = bf_wbuffer f"
    "bf_out f' = bf_out f @ take ?n (b # bs) @ take j (drop ?n (b # bs))"
    "r = Inr () \<longrightarrow> j = length (drop ?n (b # bs))" unfolding s by auto
  have "bf_out f' = bf_out f @ take (?n + j) (b # bs)" using j(2) by (simp only: take_add)
  moreover have "r = Inr () \<longrightarrow> ?n + j = length (b # bs)" using j(3) by auto
  ultimately show ?case using j(1) by blast
qed (auto intro: exI [of _ 0])

lemma bf_write_all_out:
  "bf_write_all data f = (Inr (), f') \<Longrightarrow> bf_out f' = bf_out f @ data \<and> bf_wbuffer f' = bf_wbuffer f"
  using bf_write_loop_out [of "bf_dst f" data f "Inr ()" f'] by (auto simp: bf_write_all_def)

lemma bf_flush_out: "bf_flush f = (Inr (), f') \<Longrightarrow> bf_out f' = bf_out f @ bf_wbuffer f \<and> bf_wbuffer f' = []"
  by (auto simp: bf_flush_def bindS_Inr_iff modS_def dest!: bf_write_all_out)

lemma after_last_lf_le: "after_last_lf data \<le> length data"
  by (simp add: after_last_lf_def)

lemma bf_write_out:
  assumes "bf_write data f = (Inr (), f')" "fl_buffered f \<or> bf_wbuffer f = []"
  shows "bf_out f' @ bf_wbuffer f' = bf_out f @ bf_wbuffer f @ data"
proof -
  have o: "\<not> bf_closed f" "fl_write f" using assms(1) by (auto simp: bf_write_def split: if_splits)
  let ?f1 = "f\<lparr>bf_wbuffer := bf_wbuffer f @ data\<rparr>"
  let ?cut = "after_last_lf data + (length (bf_wbuffer ?f1) - length data)"
  show ?thesis
  proof (cases "fl_buffered f")
    case False
    with assms o show ?thesis by (auto simp: bf_write_def dest!: bf_write_all_out)
  next
    case True
    consider "fl_line_buffered f" "after_last_lf data > 0" | "fl_line_buffered f" "\<not> after_last_lf data > 0"
      | "\<not> fl_line_buffered f" "length (bf_wbuffer ?f1) \<ge> bf_bufsize f" | "\<not> fl_line_buffered f" "\<not> length (bf_wbuffer ?f1) \<ge> bf_bufsize f"
      by blast
    then show ?thesis
    proof cases
      case 1
      then obtain f2 where "bf_write_all (take ?cut (bf_wbuffer ?f1)) ?f1 = (Inr (), f2)"
        "f' = f2\<lparr>bf_wbuffer := drop ?cut (bf_wbuffer ?f1)\<rparr>"
        using assms o True by (auto simp: bf_write_def bindS_Inr_iff modS_def Let_def)
      with bf_write_all_out [of "take ?cut (bf_wbuffer ?f1)" ?f1 f2] show ?thesis
        by (simp del: take_append drop_append)
    qed (use assms o True in \<open>auto simp: bf_write_def Let_def dest!: bf_flush_out\<close>)
  qed
qed

lemma bf_write_loop_flags: "fl_buffered (snd (bf_write_loop evs data f)) = fl_buffered f"
  by (induction evs data f rule: bf_write_loop.induct) (auto simp: Let_def)

lemma bf_write_all_flags: "bf_write_all data f = (r, f') \<Longrightarrow> fl_buffered f' = fl_buffered f"
  using bf_write_loop_flags [of "bf_dst f" data f] by (simp add: bf_write_all_def)

lemma bf_write_keeps:
  assumes "bf_write data f = (Inr (), f')" "fl_buffered f \<or> bf_wbuffer f = []"
  shows "fl_buffered f' \<or> bf_wbuffer f' = []"
proof (cases "fl_buffered f")
  case True
  with assms(1) have "fl_buffered f'"
    by (auto simp: bf_write_def bf_flush_def bindS_Inr_iff modS_def Let_def split: if_splits dest!: bf_write_all_flags)
  then show ?thesis by blast
next
  case False
  with assms show ?thesis by (auto simp: bf_write_def split: if_splits dest!: bf_write_all_out)
qed

lemma bf_writelines_out:
  "bf_writelines ls f = (Inr (), f') \<Longrightarrow> fl_buffered f \<or> bf_wbuffer f = [] \<Longrightarrow>
     bf_out f' @ bf_wbuffer f' = bf_out f @ bf_wbuffer f @ concat ls"
proof (induction ls arbitrary: f)
  case (Cons l ls)
  then obtain f1 where f1: "bf_write l f = (Inr (), f1)" "bf_writelines ls f1 = (Inr (), f')"
    by (auto simp: bindS_Inr_iff)
  with Cons.IH [OF f1(2) bf_write_keeps [OF f1(1) Cons.prems(2)]] bf_write_out [OF f1(1) Cons.prems(2)] show ?case
    by (simp add: append_assoc [symmetric] del: append_assoc)
qed (simp add: retS_def)

text \<open>A line-buffered file whose data has no line feed never writes, however much the buffer holds.\<close>

lemma line_buffered_never_flushes:
  "fl_line_buffered f \<Longrightarrow> fl_buffered f \<Longrightarrow> fl_write f \<Longrightarrow> \<not> bf_closed f \<Longrightarrow> 10 \<notin> set data \<Longrightarrow>
     bf_write data f = (Inr (), f\<lparr>bf_wbuffer := bf_wbuffer f @ data\<rparr>)"
proof -
  assume a: "fl_line_buffered f" "fl_buffered f" "fl_write f" "\<not> bf_closed f" "10 \<notin> set data"
  then have t: "takeWhile (\<lambda>b. b \<noteq> 10) (rev data) = rev data" by (auto simp: takeWhile_eq_all_conv)
  have "after_last_lf data = 0" unfolding after_last_lf_def t by simp
  with a show "bf_write data f = (Inr (), f\<lparr>bf_wbuffer := bf_wbuffer f @ data\<rparr>)" by (simp add: bf_write_def Let_def)
qed

text \<open>Writing keeps everything in order: after any sequence of writes that succeed, whatever the buffering and
  however much the stream takes at a time, what has reached the stream followed by what is still buffered is what was
  written, without loss, repetition or exchange; flushing, or closing, then leaves nothing in the buffer.\<close>

theorem writes_in_order:
  assumes "bf_writelines ls f = (Inr (), f')" "fl_buffered f \<or> bf_wbuffer f = []" "bf_flush f' = (Inr (), f'')"
  shows "bf_out f' @ bf_wbuffer f' = bf_out f @ bf_wbuffer f @ concat ls \<and>
     bf_out f'' = bf_out f @ bf_wbuffer f @ concat ls \<and> bf_wbuffer f'' = []"
  using bf_writelines_out [OF assms(1,2)] bf_flush_out [OF assms(3)] by simp

theorem writes_in_order_witness:
  "\<exists>f'. bf_writelines [[1, 10], [2]] (set_mode ''wb'' 1 0 (new_file [] [Inr 1, Inr 9, Inr 9])) = (Inr (), f') \<and>
     bf_out f' @ bf_wbuffer f' = [1, 10, 2]"
proof -
  let ?f = "set_mode ''wb'' 1 0 (new_file [] [Inr 1, Inr 9, Inr 9])"
  have "\<exists>f'. bf_writelines [[1, 10], [2]] ?f = (Inr (), f') \<and> (\<exists>f''. bf_flush f' = (Inr (), f''))"
    by (simp add: bf_write_def bf_write_all_def bf_flush_def set_mode_def set_bufsize_def new_file_def bindS_def modS_def
        retS_def after_last_lf_def Let_def)
  then obtain f' f'' where w: "bf_writelines [[1, 10], [2]] ?f = (Inr (), f')" "bf_flush f' = (Inr (), f'')" by blast
  have "fl_buffered ?f \<or> bf_wbuffer ?f = []" "bf_out ?f = []" "bf_wbuffer ?f = []"
    by (simp_all add: set_mode_def set_bufsize_def new_file_def)
  with writes_in_order [OF w(1) _ w(2)] w(1) show ?thesis by simp
qed

end
