(* ===== verification/Py_Base64.thy ===== *)
theory Py_Base64
  imports Balii_Prelude
begin

text \<open>
  Python's \<^verbatim>\<open>base64.encodebytes\<close> and \<^verbatim>\<open>base64.decodebytes\<close>, as the host key file uses them. Encoding cuts
  the data into pieces of 57 bytes and ends each line with a line feed. Decoding skips characters outside the
  alphabet, stops at a complete padding, and fails when the last group is incomplete.
\<close>

section \<open>Encoding\<close>

definition b64_char :: "nat \<Rightarrow> byte" where
  "b64_char n = of_nat (if n < 26 then 65 + n else if n < 52 then 71 + n else if n < 62 then n - 4
                        else if n = 62 then 43 else 47)"

fun b64_raw :: "bytes \<Rightarrow> bytes" where
  "b64_raw [] = []"
| "b64_raw [a] = [b64_char (unat a div 4), b64_char (unat a mod 4 * 16), 61, 61]"
| "b64_raw [a, b] = [b64_char (unat a div 4), b64_char (unat a mod 4 * 16 + unat b div 16), b64_char (unat b mod 16 * 4), 61]"
| "b64_raw (a # b # c # r) =
     b64_char (unat a div 4) # b64_char (unat a mod 4 * 16 + unat b div 16) #
     b64_char (unat b mod 16 * 4 + unat c div 64) # b64_char (unat c mod 64) # b64_raw r"

function encodebytes :: "bytes \<Rightarrow> bytes" where
  "encodebytes bs = (if bs = [] then [] else b64_raw (take 57 bs) @ 10 # encodebytes (drop 57 bs))"
  by pat_completeness auto
termination by (relation "measure length") auto

declare encodebytes.simps [simp del]

section \<open>Decoding\<close>

definition b64_val :: "byte \<Rightarrow> nat option" where
  "b64_val ch =
     (let n = unat ch in
      if 65 \<le> n \<and> n \<le> 90 then Some (n - 65) else if 97 \<le> n \<and> n \<le> 122 then Some (n - 71)
      else if 48 \<le> n \<and> n \<le> 57 then Some (n + 4) else if n = 43 then Some 62 else if n = 47 then Some 63 else None)"

text \<open>The place in the group of four, the bits left over, and the padding seen.\<close>

fun b64_loop :: "nat \<Rightarrow> nat \<Rightarrow> nat \<Rightarrow> bytes \<Rightarrow> bytes res" where
  "b64_loop q l p [] = (if q = 0 then Inr [] else Inl BinasciiError)"
| "b64_loop q l p (ch # r) =
     (if ch = 61 then
        (if q \<ge> 2 then (if q + p + 1 \<ge> 4 then Inr [] else b64_loop q l (p + 1) r) else b64_loop q l p r)
      else
        (case b64_val ch of
           None \<Rightarrow> b64_loop q l p r
         | Some v \<Rightarrow>
             (if q = 0 then b64_loop 1 v 0 r
              else if q = 1 then bindR (b64_loop 2 (v mod 16) 0 r) (\<lambda>bs. Inr (of_nat (l * 4 + v div 16) # bs))
              else if q = 2 then bindR (b64_loop 3 (v mod 4) 0 r) (\<lambda>bs. Inr (of_nat (l * 16 + v div 4) # bs))
              else bindR (b64_loop 0 0 0 r) (\<lambda>bs. Inr (of_nat (l * 64 + v) # bs)))))"

definition decodebytes :: "bytes \<Rightarrow> bytes res" where
  "decodebytes bs = b64_loop 0 0 0 bs"

section \<open>What is encoded is decoded\<close>

lemma unat_b64_char: "n < 64 \<Longrightarrow>
    unat (b64_char n) = (if n < 26 then 65 + n else if n < 52 then 71 + n else if n < 62 then n - 4
                        else if n = 62 then 43 else 47)"
  by (auto simp: b64_char_def unat_of_nat take_bit_eq_mod)

lemma b64_val_char: "n < 64 \<Longrightarrow> b64_val (b64_char n) = Some n"
  by (auto simp: b64_val_def Let_def unat_b64_char)

lemma b64_char_neq: "n < 64 \<Longrightarrow> unat (b64_char n) = k \<Longrightarrow> k \<noteq> 61 \<and> k \<noteq> 10 \<and> k \<noteq> 32 \<and> k \<noteq> 9 \<and> k < 128 \<and> 0 < k"
  by (auto simp: unat_b64_char split: if_splits)

lemma b64_char_neqs [simp]: "n < 64 \<Longrightarrow> b64_char n \<noteq> 61" "n < 64 \<Longrightarrow> b64_char n \<noteq> 10"
  by (auto dest: b64_char_neq [of n 61] b64_char_neq [of n 10])

lemma byte_quot: "unat (a :: byte) div 4 < 64" "unat (a :: byte) div 16 < 16" "unat (a :: byte) div 64 < 4"
proof -
  have "unat a < 256" using unsigned_less [of a] by simp
  then show "unat a div 4 < 64" "unat a div 16 < 16" "unat a div 64 < 4" by (auto intro: less_mult_imp_div_less)
qed

lemma b64_sextets [simp]:
  "unat (a :: byte) div 4 < 64" "unat (a :: byte) mod 4 * 16 < 64"
  "unat (a :: byte) mod 4 * 16 + unat (b :: byte) div 16 < 64" "unat (b :: byte) mod 16 * 4 < 64"
  "unat (b :: byte) mod 16 * 4 + unat (c :: byte) div 64 < 64" "unat (c :: byte) mod 64 < 64"
proof -
  have m: "unat a mod 4 < 4" "unat b mod 16 < 16" "unat c mod 64 < 64" by (rule mod_less_divisor, simp)+
  note q = byte_quot(1) [of a] byte_quot(2) [of b] byte_quot(3) [of c]
  show "unat a div 4 < 64" "unat c mod 64 < 64" by (rule q(1), rule m(3))
  show "unat a mod 4 * 16 < 64" "unat a mod 4 * 16 + unat b div 16 < 64" using m(1) q(2) by linarith+
  show "unat b mod 16 * 4 < 64" "unat b mod 16 * 4 + unat c div 64 < 64" using m(2) q(3) by linarith+
qed

lemma byte_quot_simps [simp]:
  "unat (b :: byte) div 16 div 16 = 0" "unat (b :: byte) div 16 mod 16 = unat b div 16"
  "unat (b :: byte) div 64 div 4 = 0" "unat (b :: byte) div 64 mod 4 = unat b div 64"
  using byte_quot(2,3) [of b] by simp_all

lemma b64_loop_char:
  "n < 64 \<Longrightarrow> b64_loop q l p (b64_char n # r) =
     (if q = 0 then b64_loop 1 n 0 r
      else if q = 1 then bindR (b64_loop 2 (n mod 16) 0 r) (\<lambda>bs. Inr (of_nat (l * 4 + n div 16) # bs))
      else if q = 2 then bindR (b64_loop 3 (n mod 4) 0 r) (\<lambda>bs. Inr (of_nat (l * 16 + n div 4) # bs))
      else bindR (b64_loop 0 0 0 r) (\<lambda>bs. Inr (of_nat (l * 64 + n) # bs)))"
  by (simp add: b64_val_char)

lemma b64_loop_state: "b64_loop 0 l p (b64_raw bs) = b64_loop 0 0 0 (b64_raw bs)"
  by (induction bs rule: b64_raw.induct) (simp_all add: b64_loop_char del: b64_loop.simps(2) of_nat_add of_nat_mult)

lemma decode_raw: "decodebytes (b64_raw bs) = Inr bs"
  unfolding decodebytes_def
  by (induction bs rule: b64_raw.induct) (simp_all add: b64_loop_char b64_val_char del: of_nat_add of_nat_mult)

text \<open>The lines of \<^verbatim>\<open>encodebytes\<close> put together are the plain encoding, for 57 is a multiple of three.\<close>

lemma raw_append: "3 dvd length xs \<Longrightarrow> b64_raw (xs @ ys) = b64_raw xs @ b64_raw ys"
proof (induction xs rule: b64_raw.induct)
  case (4 a b c r)
  then have "3 dvd length r" by (simp add: nat_dvd_1_iff_1) presburger
  with 4 show ?case by simp
qed (auto dest: dvd_imp_le)

lemma raw_no_lf: "10 \<notin> set (b64_raw bs)"
  by (induction bs rule: b64_raw.induct) (auto dest: sym [of 10])

lemma encodebytes_joined: "filter (\<lambda>b. b \<noteq> 10) (encodebytes bs) = b64_raw bs"
proof (induction bs rule: encodebytes.induct)
  case (1 bs)
  have f: "filter (\<lambda>b. b \<noteq> 10) (b64_raw xs) = b64_raw xs" for xs
    using raw_no_lf [of xs] by (auto simp: filter_id_conv)
  show ?case
  proof (cases "57 \<le> length bs")
    case True
    then have "b64_raw bs = b64_raw (take 57 bs) @ b64_raw (drop 57 bs)"
      using raw_append [of "take 57 bs" "drop 57 bs"] by simp
    with 1 True f show ?thesis by (subst encodebytes.simps) auto
  next
    case False
    with f show ?thesis by (subst encodebytes.simps) (simp add: encodebytes.simps)
  qed
qed

end
