(* ===== verification/Public_Keys.thy ===== *)
theory Public_Keys
  imports Ssh_Message Py_Base64
begin

text \<open>
  The public side of \<^verbatim>\<open>paramiko/pkey.py\<close>, \<^verbatim>\<open>rsakey.py\<close>, \<^verbatim>\<open>ed25519key.py\<close> and \<^verbatim>\<open>ecdsakey.py\<close>: making a key
  object from its wire form, plain or inside an OpenSSH certificate, and writing the wire form back. What the
  cryptography library decides (which RSA numbers it accepts, which byte strings are points of a curve, the size of
  an RSA key) is the record \<open>backend\<close>.
\<close>

section \<open>Curves\<close>

datatype digest_kind = SHA256 | SHA384 | SHA512

record ecdsa_curve =
  nist_name :: ustr
  key_length :: nat
  key_format_identifier :: ustr
  hash_object :: digest_kind

definition make_curve :: "nat \<Rightarrow> string \<Rightarrow> ecdsa_curve" where
  "make_curve key_size name =
     \<lparr>nist_name = lit name, key_length = key_size, key_format_identifier = lit ''ecdsa-sha2-'' @ lit name,
      hash_object = (if key_size \<le> 256 then SHA256 else if key_size \<le> 384 then SHA384 else SHA512)\<rparr>"

definition ECDSA_CURVES :: "ecdsa_curve list" where
  "ECDSA_CURVES = [make_curve 256 ''nistp256'', make_curve 384 ''nistp384'', make_curve 521 ''nistp521'']"

definition get_key_format_identifier_list :: "ecdsa_curve list \<Rightarrow> ustr list" where
  "get_key_format_identifier_list cs = map key_format_identifier cs"

definition get_by_key_format_identifier :: "ecdsa_curve list \<Rightarrow> ustr \<Rightarrow> ecdsa_curve option" where
  "get_by_key_format_identifier cs i = find (\<lambda>c. key_format_identifier c = i) cs"

definition get_by_key_length :: "ecdsa_curve list \<Rightarrow> nat \<Rightarrow> ecdsa_curve option" where
  "get_by_key_length cs n = find (\<lambda>c. key_length c = n) cs"

section \<open>Keys\<close>

datatype numbers = Rsa int int | Ed25519 bytes | Ecdsa ecdsa_curve int int

record public_blob =
  pb_type :: ustr
  pb_blob :: bytes
  pb_comment :: "ustr option"

record pkey =
  pk_numbers :: numbers
  pk_public_blob :: "public_blob option"

record backend =
  rsa_accepts :: "int \<Rightarrow> int \<Rightarrow> bool"
  rsa_key_size :: "int \<Rightarrow> nat"
  ec_point :: "nat \<Rightarrow> bytes \<Rightarrow> (int \<times> int) option"

definition cert_suffix :: ustr where "cert_suffix = lit ''-cert-v01@openssh.com''"

definition RSA_HASHES :: "(ustr \<times> digest_kind) list" where
  "RSA_HASHES =
     [(lit ''rsa-sha2-256'', SHA256), (lit ''rsa-sha2-256-cert-v01@openssh.com'', SHA256),
      (lit ''rsa-sha2-512'', SHA512), (lit ''rsa-sha2-512-cert-v01@openssh.com'', SHA512)]"

definition rsa_name :: ustr where "rsa_name = lit ''ssh-rsa''"
definition ed25519_name :: ustr where "ed25519_name = lit ''ssh-ed25519''"

definition rsa_identifiers :: "ustr list" where
  "rsa_identifiers = map fst RSA_HASHES @ [rsa_name, rsa_name @ cert_suffix]"

fun numbers_name :: "numbers \<Rightarrow> ustr" where
  "numbers_name (Rsa e n) = rsa_name"
| "numbers_name (Ed25519 v) = ed25519_name"
| "numbers_name (Ecdsa c x y) = key_format_identifier c"

definition get_name :: "pkey \<Rightarrow> ustr" where
  "get_name k = numbers_name (pk_numbers k)"

section \<open>Public blobs and certificates\<close>

definition blob_from_message :: "(message, public_blob) sm" where
  "blob_from_message =
     bindS get_text (\<lambda>t. (\<lambda>m. (Inr \<lparr>pb_type = t, pb_blob = asbytes m, pb_comment = None\<rparr>, m)))"

text \<open>\<^verbatim>\<open>str.split(None, k)\<close>\<close>

fun split_ws :: "nat \<Rightarrow> ustr \<Rightarrow> ustr list" where
  "split_ws 0 s = (let t = dropWhile is_space s in if t = [] then [] else [t])"
| "split_ws (Suc k) s =
     (let t = dropWhile is_space s
      in if t = [] then [] else takeWhile (\<lambda>c. \<not> is_space c) t # split_ws k (dropWhile (\<lambda>c. \<not> is_space c) t))"

definition blob_from_string :: "ustr \<Rightarrow> public_blob res" where
  "blob_from_string s =
     (case split_ws 2 s of
        key_type # field # rest \<Rightarrow>
          bindR (utf8_encode field) (\<lambda>fb.
          bindR (decodebytes fb) (\<lambda>key_blob.
            (let comment = (case rest of [] \<Rightarrow> None | c # _ \<Rightarrow> Some (py_strip c))
             in bindR (fst (get_text (new_message (Some key_blob)))) (\<lambda>blob_type.
                  if blob_type \<noteq> key_type then Inl (ValueError ''Invalid PublicBlob contents'')
                  else Inr \<lparr>pb_type = key_type, pb_blob = key_blob, pb_comment = comment\<rparr>))))
      | _ \<Rightarrow> Inl (ValueError ''Not enough fields for public blob''))"

text \<open>\<^verbatim>\<open>load_certificate\<close> of a key with the given name: from a message, or from the text of a file.\<close>

definition check_blob :: "ustr \<Rightarrow> public_blob \<Rightarrow> public_blob res" where
  "check_blob name blob =
     (if \<not> startswith (pb_type blob) name then Inl (ValueError ''PublicBlob type incompatible with key type'')
      else Inr blob)"

definition load_certificate_message :: "ustr \<Rightarrow> message \<Rightarrow> public_blob res" where
  "load_certificate_message name m = bindR (fst (blob_from_message m)) (check_blob name)"

definition load_certificate_string :: "pkey \<Rightarrow> ustr \<Rightarrow> pkey res" where
  "load_certificate_string k s =
     bindR (blob_from_string s) (\<lambda>b. bindR (check_blob (get_name k) b) (\<lambda>b. Inr (k\<lparr>pk_public_blob := Some b\<rparr>)))"

text \<open>\<^verbatim>\<open>_check_type_and_load_cert\<close>: gives the blob of a certificate, and leaves the message at the numbers.\<close>

definition check_type_and_load_cert :: "ustr list \<Rightarrow> ustr list \<Rightarrow> ustr \<Rightarrow> (message, public_blob option) sm" where
  "check_type_and_load_cert key_types cert_types name =
     bindS (modS rewind) (\<lambda>_.
     bindS get_text (\<lambda>t.
       if t \<in> set key_types then retS None
       else if t \<in> set cert_types then
         bindS (\<lambda>m. (load_certificate_message name (new_message (Some (asbytes m))), m)) (\<lambda>blob.
         bindS get_string (\<lambda>nonce. retS (Some blob)))
       else raiseS (SSHException ''Invalid key'')))"

section \<open>Making key objects\<close>

definition rsa_from_message :: "backend \<Rightarrow> (message, pkey) sm" where
  "rsa_from_message be =
     bindS (check_type_and_load_cert [rsa_name] [rsa_name @ cert_suffix] rsa_name) (\<lambda>blob.
     bindS get_mpint (\<lambda>e.
     bindS get_mpint (\<lambda>n.
       if rsa_accepts be e n then retS \<lparr>pk_numbers = Rsa e n, pk_public_blob = blob\<rparr>
       else raiseS (ValueError ''RSA numbers''))))"

definition ed25519_from_message :: "(message, pkey) sm" where
  "ed25519_from_message =
     bindS (check_type_and_load_cert [ed25519_name] [ed25519_name @ cert_suffix] ed25519_name) (\<lambda>blob.
     bindS get_binary (\<lambda>v.
       if length v \<noteq> 32 then raiseS (ValueError ''The key must be exactly 32 bytes long'')
       else retS \<lparr>pk_numbers = Ed25519 v, pk_public_blob = blob\<rparr>))"

definition strip_cert :: "ustr \<Rightarrow> ustr" where
  "strip_cert t = (if endswith t cert_suffix then take (length t - length cert_suffix) t else t)"

definition ecdsa_from_message :: "backend \<Rightarrow> (message, pkey) sm" where
  "ecdsa_from_message be =
     bindS get_text (\<lambda>t.
       (let curve = get_by_key_format_identifier ECDSA_CURVES (strip_cert t);
            key_types = get_key_format_identifier_list ECDSA_CURVES
        in bindS (check_type_and_load_cert key_types (map (\<lambda>x. x @ cert_suffix) key_types)
                   (case curve of Some c \<Rightarrow> key_format_identifier c | None \<Rightarrow> [])) (\<lambda>blob.
           bindS get_text (\<lambda>curvename.
             (case curve of
                None \<Rightarrow> raiseS AttributeError
              | Some c \<Rightarrow>
                  if curvename \<noteq> nist_name c then raiseS (SSHException ''Can't handle curve'')
                  else
                    bindS get_binary (\<lambda>pointinfo.
                      (case ec_point be (key_length c) pointinfo of
                         None \<Rightarrow> raiseS (SSHException ''Invalid public key'')
                       | Some (x, y) \<Rightarrow> retS \<lparr>pk_numbers = Ecdsa c x y, pk_public_blob = blob\<rparr>)))))))"

definition from_type_string :: "backend \<Rightarrow> ustr \<Rightarrow> bytes \<Rightarrow> pkey res" where
  "from_type_string be key_type key_bytes =
     (let m = new_message (Some key_bytes) in
      if key_type \<in> set rsa_identifiers then fst (rsa_from_message be m)
      else if key_type = ed25519_name then fst (ed25519_from_message m)
      else if key_type \<in> set (get_key_format_identifier_list ECDSA_CURVES) then fst (ecdsa_from_message be m)
      else Inl UnknownKeyType)"

section \<open>The wire form\<close>

definition coordinate :: "nat \<Rightarrow> int \<Rightarrow> bytes" where
  "coordinate size_bytes x = (let b = deflate_long x False in replicate (size_bytes - length b) 0 @ b)"

definition point_str :: "ecdsa_curve \<Rightarrow> int \<Rightarrow> int \<Rightarrow> bytes" where
  "point_str c x y = (let n = (key_length c + 7) div 8 in 4 # coordinate n x @ coordinate n y)"

fun add_numbers :: "numbers \<Rightarrow> (message, unit) sm" where
  "add_numbers (Rsa e n) = bindS (add_text rsa_name) (\<lambda>_. bindS (add_mpint e) (\<lambda>_. add_mpint n))"
| "add_numbers (Ed25519 v) = bindS (add_text ed25519_name) (\<lambda>_. add_string v)"
| "add_numbers (Ecdsa c x y) =
     bindS (add_text (key_format_identifier c)) (\<lambda>_.
     bindS (add_text (nist_name c)) (\<lambda>_. add_string (point_str c x y)))"

definition key_bytes :: "pkey \<Rightarrow> bytes res" where
  "key_bytes k = (case add_numbers (pk_numbers k) (new_message None) of (Inl e, m) \<Rightarrow> Inl e | (Inr _, m) \<Rightarrow> Inr (asbytes m))"

definition key_bits :: "backend \<Rightarrow> pkey \<Rightarrow> nat" where
  "key_bits be k = (case pk_numbers k of Rsa e n \<Rightarrow> rsa_key_size be n | Ed25519 v \<Rightarrow> 256 | Ecdsa c x y \<Rightarrow> key_length c)"

text \<open>\<^verbatim>\<open>get_base64\<close>: decoding the encoded bytes as text is reading ASCII.\<close>

definition ascii :: "bytes \<Rightarrow> ustr" where "ascii bs = map unat bs"

definition get_base64 :: "pkey \<Rightarrow> ustr res" where
  "get_base64 k = bindR (key_bytes k) (\<lambda>b. Inr (filter (\<lambda>c. c \<noteq> 10) (ascii (encodebytes b))))"

definition get_fingerprint :: "(bytes \<Rightarrow> bytes) \<Rightarrow> pkey \<Rightarrow> bytes res" where
  "get_fingerprint md5 k = bindR (key_bytes k) (\<lambda>b. Inr (md5 b))"

definition fingerprint :: "(bytes \<Rightarrow> bytes) \<Rightarrow> pkey \<Rightarrow> ustr res" where
  "fingerprint sha256 k =
     bindR (key_bytes k) (\<lambda>b.
       (let cleaned = rev (dropWhile (\<lambda>c. c = 61) (rev (py_strip (ascii (encodebytes (sha256 b))))))
        in Inr (lit ''SHA256:'' @ cleaned)))"

section \<open>Round trip\<close>

lemma deflate_long_fits:
  assumes "0 \<le> n" "n < 256 ^ k" "0 < k"
  shows "length (deflate_long n False) \<le> k"
proof (rule deflate_long_parts [of n False])
  fix s1 f and fill :: byte
  assume a: "f = 0 \<and> fill = 0 \<and> uint fill = 0 \<or> f = - 1 \<and> fill = 0xFF \<and> uint fill = 255" "s1 \<noteq> []"
    "f * 256 ^ length s1 + be_int s1 = n" "hd s1 = fill \<longrightarrow> s1 = [fill]"
    "deflate_long n False = (if False \<and> f = 0 \<and> uint (hd s1) \<ge> 128 then 0 # s1
       else if False \<and> f = - 1 \<and> uint (hd s1) < 128 then 0xFF # s1 else s1)"
  with assms(1) be_int_less [of s1] have f: "f = 0" "fill = 0" "be_int s1 = n" by auto
  obtain b r where s1: "s1 = b # r" using a(2) by (cases s1) auto
  have "length s1 \<le> k"
  proof (cases "b = 0")
    case True
    with a(4) f s1 assms(3) show ?thesis by simp
  next
    case False
    then have "1 \<le> uint b" using byte_uint_bounds(1) [of b] by (metis int_one_le_iff_zero_less order_le_less unsigned_eq_0_iff)
    then have "256 ^ length r \<le> uint b * 256 ^ length r" using mult_right_mono [of 1 "uint b" "256 ^ length r"] by simp
    moreover have "uint b * 256 ^ length r + be_int r = n" using f(3) s1 by (simp add: be_int_Cons)
    ultimately have "256 ^ length r \<le> n" using be_int_nonneg [of r] by linarith
    with assms(2) have "(256 :: int) ^ length r < 256 ^ k" by linarith
    then have "length r < k" by (rule power_less_imp_less_exp [rotated]) simp
    with s1 show ?thesis by simp
  qed
  with a(5) show ?thesis by simp
qed

lemma coordinate_be_bytes: "0 \<le> x \<Longrightarrow> x < 256 ^ n \<Longrightarrow> 0 < n \<Longrightarrow> coordinate n x = be_bytes n x"
proof -
  assume x: "0 \<le> x" "x < 256 ^ n" "0 < n"
  have "length (coordinate n x) = n" using deflate_long_fits [OF x] by (simp add: coordinate_def Let_def)
  moreover have "be_int (coordinate n x) = x"
    using deflate_long_nonneg [OF x(1)] by (simp add: coordinate_def Let_def be_int_fill_0)
  ultimately show ?thesis using be_bytes_be_int [of "coordinate n x"] by simp
qed

text \<open>The numbers the library and the wire form accept.\<close>

definition backend_ok :: "backend \<Rightarrow> numbers \<Rightarrow> bool" where
  "backend_ok be k =
     (case k of
        Rsa e n \<Rightarrow> rsa_accepts be e n \<and> ok_string (deflate_long e True) \<and> ok_string (deflate_long n True)
      | Ed25519 v \<Rightarrow> length v = 32
      | Ecdsa c x y \<Rightarrow>
          (let n = (key_length c + 7) div 8
           in c \<in> set ECDSA_CURVES \<and> 0 \<le> x \<and> x < 256 ^ n \<and> 0 \<le> y \<and> y < 256 ^ n \<and>
              ec_point be (key_length c) (4 # be_bytes n x @ be_bytes n y) = Some (x, y)))"

lemma utf8_ascii: "list_all (\<lambda>c. c < 128) s \<Longrightarrow> utf8_encode s = Inr (map of_nat s)"
  by (induction s) (auto simp: utf8_encode_def scalar_def utf8_char_def split: if_splits)

lemma ascii_text: "list_all (\<lambda>c. c < 128) s \<Longrightarrow> length s < 2 ^ 32 \<Longrightarrow> \<exists>b. utf8_encode s = Inr b \<and> ok_string b"
  by (simp add: utf8_ascii ok_string_def)

lemma curve_names:
  "c \<in> set ECDSA_CURVES \<Longrightarrow> (\<exists>b. utf8_encode (key_format_identifier c) = Inr b \<and> ok_string b) \<and>
     (\<exists>b. utf8_encode (nist_name c) = Inr b \<and> ok_string b)"
  by (auto simp: ECDSA_CURVES_def make_curve_def intro!: ascii_text)

lemma key_names: "\<exists>b. utf8_encode rsa_name = Inr b \<and> ok_string b" "\<exists>b. utf8_encode ed25519_name = Inr b \<and> ok_string b"
  by (auto simp: rsa_name_def ed25519_name_def intro!: ascii_text)

lemma curve_found: "c \<in> set ECDSA_CURVES \<Longrightarrow> get_by_key_format_identifier ECDSA_CURVES (strip_cert (key_format_identifier c)) = Some c"
proof -
  have "list_all (\<lambda>c. get_by_key_format_identifier ECDSA_CURVES (strip_cert (key_format_identifier c)) = Some c) ECDSA_CURVES"
    by code_simp
  then show "c \<in> set ECDSA_CURVES \<Longrightarrow> get_by_key_format_identifier ECDSA_CURVES (strip_cert (key_format_identifier c)) = Some c"
    by (simp add: list_all_iff)
qed

definition number_fields :: "numbers \<Rightarrow> field list" where
  "number_fields k =
     (case k of
        Rsa e n \<Rightarrow> [FText rsa_name, FMpint e, FMpint n]
      | Ed25519 v \<Rightarrow> [FText ed25519_name, FString v]
      | Ecdsa c x y \<Rightarrow> [FText (key_format_identifier c), FText (nist_name c), FString (point_str c x y)])"

lemma add_numbers_fields: "add_numbers k = put_fields (number_fields k)"
  by (cases k) (simp_all add: number_fields_def bindS_def retS_def fun_eq_iff split: prod.splits sum.splits)

lemma point_str_fits: "backend_ok be (Ecdsa c x y) \<Longrightarrow>
    point_str c x y = 4 # be_bytes ((key_length c + 7) div 8) x @ be_bytes ((key_length c + 7) div 8) y \<and>
    ok_string (point_str c x y)"
  by (auto simp: backend_ok_def Let_def point_str_def coordinate_be_bytes ECDSA_CURVES_def make_curve_def ok_string_def)

lemma fields_ok: "backend_ok be k \<Longrightarrow> list_all ok_field (number_fields k)"
proof (cases k)
  case (Ecdsa c x y)
  assume "backend_ok be k"
  with point_str_fits [of be c x y] curve_names [of c] Ecdsa show ?thesis
    by (auto simp: number_fields_def backend_ok_def Let_def)
next
  case (Ed25519 v)
  assume "backend_ok be k"
  then have "ok_string v" using Ed25519 by (simp add: backend_ok_def ok_string_def)
  with Ed25519 key_names show ?thesis by (simp add: number_fields_def)
qed (use key_names in \<open>simp add: number_fields_def backend_ok_def\<close>)

lemma key_bytes_ok:
  "backend_ok be (pk_numbers k) \<Longrightarrow> key_bytes k = Inr (concat (map enc_field (number_fields (pk_numbers k))))"
  using put_fields_end [OF fields_ok at_end_new]
  by (simp add: key_bytes_def add_numbers_fields append_bytes_def asbytes_def new_message_def)

text \<open>Reading the type of a message: plain, or a certificate.\<close>

lemma read_rewind: "fst (f () (rewind m)) = x \<Longrightarrow> fst (bindS (modS rewind) f m) = x"
  by (simp add: bindS_def modS_def)

lemma read_plain:
  assumes "get_remainder (rewind m) = enc_string (utf8_of t) @ r" "\<exists>b. utf8_encode t = Inr b \<and> ok_string b" "t \<in> set key_types"
    and "\<And>m'. get_remainder m' = r \<Longrightarrow> fst (f None m') = x"
  shows "fst (bindS (check_type_and_load_cert key_types cert_types name) f m) = x"
  unfolding check_type_and_load_cert_def bindS_assoc
  using assms by (intro read_rewind read_text [OF assms(1)]) auto

lemma blob_from_message_at:
  "get_remainder m = enc_string (utf8_of t) @ r \<Longrightarrow> \<exists>b. utf8_encode t = Inr b \<and> ok_string b \<Longrightarrow>
     fst (blob_from_message m) = Inr \<lparr>pb_type = t, pb_blob = mbuf m, pb_comment = None\<rparr>"
  using f_text.get_prefix [of t m r] enc_text [of t]
  by (simp add: blob_from_message_def bindS_def asbytes_def advance_def enc_field_def)

lemma read_cert:
  assumes "get_remainder (rewind m) = enc_string (utf8_of t) @ enc_string nonce @ r" "\<exists>b. utf8_encode t = Inr b \<and> ok_string b"
    "t \<notin> set key_types" "t \<in> set cert_types" "startswith t name" "ok_string nonce"
    and "\<And>m'. get_remainder m' = r \<Longrightarrow> fst (f (Some \<lparr>pb_type = t, pb_blob = mbuf m, pb_comment = None\<rparr>) m') = x"
  shows "fst (bindS (check_type_and_load_cert key_types cert_types name) f m) = x"
proof -
  let ?b = "\<lparr>pb_type = t, pb_blob = mbuf m, pb_comment = None\<rparr>"
  have m: "mbuf m = enc_string (utf8_of t) @ enc_string nonce @ r"
    using assms(1) by (simp add: get_remainder_def rewind_def)
  then have "get_remainder (new_message (Some (mbuf m))) = enc_string (utf8_of t) @ enc_string nonce @ r"
    by (simp add: get_remainder_def new_message_def)
  from blob_from_message_at [OF this assms(2)] have b: "load_certificate_message name (new_message (Some (mbuf m))) = Inr ?b"
    using assms(5) by (simp add: load_certificate_message_def check_blob_def new_message_def)
  let ?m1 = "advance (rewind m) (length (enc_string (utf8_of t)))"
  have t: "get_text (rewind m) = (Inr t, ?m1)"
    using f_text.get_prefix [of t "rewind m" "enc_string nonce @ r"] assms(1,2) enc_text [OF assms(2)] by (simp add: enc_field_def)
  have "mbuf ?m1 = mbuf m" by (simp add: advance_def rewind_def)
  then have l: "(\<lambda>m. (load_certificate_message name (new_message (Some (asbytes m))), m)) ?m1 = (Inr ?b, ?m1)"
    using b by (simp add: asbytes_def)
  then have l': "bindS (\<lambda>m. (load_certificate_message name (new_message (Some (asbytes m))), m)) g ?m1 = g ?b ?m1" for g
    by (simp add: bindS_def)
  have r1: "get_remainder ?m1 = enc_string nonce @ r" using assms(1) by simp
  have "fst (bindS get_string (\<lambda>n. bindS (retS (Some ?b)) f) ?m1) = x"
    using r1 assms(6) by (rule read_string) (use assms(7) in simp)
  then show ?thesis unfolding check_type_and_load_cert_def bindS_assoc
    by (intro read_rewind) (use assms(3,4) in \<open>simp add: bindS_step [where p = get_text, OF t] bindS_assoc l' del: length_enc_string\<close>)
qed

lemma read_mpint:
  "get_remainder m = enc_field (FMpint z) @ r \<Longrightarrow> ok_field (FMpint z) \<Longrightarrow>
     (\<And>m'. get_remainder m' = r \<Longrightarrow> fst (f z m') = x) \<Longrightarrow> fst (bindS get_mpint f m) = x"
  using f_mpint.get_prefix [of z m r] by (simp add: bindS_def enc_field_def)

text \<open>The wire form of the numbers of a key, with the type or certificate in front of it.\<close>

definition key_material :: "numbers \<Rightarrow> bytes" where
  "key_material k = concat (map enc_field (tl (number_fields k)))"

definition cert_wire :: "numbers \<Rightarrow> bytes \<Rightarrow> bytes \<Rightarrow> bytes" where
  "cert_wire k nonce after =
     enc_string (utf8_of (numbers_name k @ cert_suffix)) @ enc_string nonce @ key_material k @ after"

lemma rsa_reads:
  assumes "backend_ok be (Rsa e n)"
    and "\<And>f (x :: pkey res). (\<And>m'. get_remainder m' = key_material (Rsa e n) @ after \<Longrightarrow> fst (f blob m') = x) \<Longrightarrow>
       fst (bindS (check_type_and_load_cert [rsa_name] [rsa_name @ cert_suffix] rsa_name) f m) = x"
  shows "fst (rsa_from_message be m) = Inr \<lparr>pk_numbers = Rsa e n, pk_public_blob = blob\<rparr>"
  unfolding rsa_from_message_def
proof (rule assms(2))
  fix m' assume m: "get_remainder m' = key_material (Rsa e n) @ after"
  have "get_remainder m' = enc_field (FMpint e) @ enc_field (FMpint n) @ after" using m by (simp add: key_material_def number_fields_def)
  then show "fst (bindS get_mpint (\<lambda>e. bindS get_mpint (\<lambda>n. if rsa_accepts be e n
        then retS \<lparr>pk_numbers = Rsa e n, pk_public_blob = blob\<rparr> else raiseS (ValueError ''RSA numbers''))) m') =
      Inr \<lparr>pk_numbers = Rsa e n, pk_public_blob = blob\<rparr>"
    by (rule read_mpint) (use assms(1) in \<open>auto simp: backend_ok_def retS_def intro: read_mpint\<close>)
qed

lemma ed25519_reads:
  assumes "backend_ok be (Ed25519 v)"
    and "\<And>f (x :: pkey res). (\<And>m'. get_remainder m' = key_material (Ed25519 v) @ after \<Longrightarrow> fst (f blob m') = x) \<Longrightarrow>
       fst (bindS (check_type_and_load_cert [ed25519_name] [ed25519_name @ cert_suffix] ed25519_name) f m) = x"
  shows "fst (ed25519_from_message m) = Inr \<lparr>pk_numbers = Ed25519 v, pk_public_blob = blob\<rparr>"
  unfolding ed25519_from_message_def
proof (rule assms(2))
  fix m' assume m: "get_remainder m' = key_material (Ed25519 v) @ after"
  then have "get_remainder m' = enc_string v @ after" by (simp add: key_material_def number_fields_def)
  then show "fst (bindS get_binary (\<lambda>v. if length v \<noteq> 32 then raiseS (ValueError ''The key must be exactly 32 bytes long'')
        else retS \<lparr>pk_numbers = Ed25519 v, pk_public_blob = blob\<rparr>) m') = Inr \<lparr>pk_numbers = Ed25519 v, pk_public_blob = blob\<rparr>"
    by (rule read_binary) (use assms(1) in \<open>auto simp: backend_ok_def retS_def ok_string_def\<close>)
qed

lemma ecdsa_reads:
  assumes ok: "backend_ok be (Ecdsa c x y)" and t: "t \<in> {key_format_identifier c, key_format_identifier c @ cert_suffix}"
    and m: "get_remainder m = enc_string (utf8_of t) @ r" "mpos m = 0"
    and "\<And>f (z :: pkey res) m1. rewind m1 = m \<Longrightarrow> (\<And>m'. get_remainder m' = key_material (Ecdsa c x y) @ after \<Longrightarrow> fst (f blob m') = z) \<Longrightarrow>
       fst (bindS (check_type_and_load_cert (get_key_format_identifier_list ECDSA_CURVES)
          (map (\<lambda>x. x @ cert_suffix) (get_key_format_identifier_list ECDSA_CURVES)) (key_format_identifier c)) f m1) = z"
  shows "fst (ecdsa_from_message be m) = Inr \<lparr>pk_numbers = Ecdsa c x y, pk_public_blob = blob\<rparr>"
proof -
  have c: "c \<in> set ECDSA_CURVES" using ok by (simp add: backend_ok_def Let_def)
  have s: "strip_cert t = key_format_identifier c \<or> strip_cert t = strip_cert (key_format_identifier c)"
    using t by (auto simp: strip_cert_def endswith_iff)
  have "list_all (\<lambda>c. strip_cert (key_format_identifier c) = key_format_identifier c) ECDSA_CURVES" by code_simp
  then have "strip_cert t = key_format_identifier c" using s c by (auto simp: list_all_iff)
  then have g: "get_by_key_format_identifier ECDSA_CURVES (strip_cert t) = Some c"
    using curve_found [OF c] \<open>list_all _ _\<close> c by (simp add: list_all_iff)
  have u: "\<exists>b. utf8_encode t = Inr b \<and> ok_string b"
    using t curve_names [OF c] c by (auto simp: ECDSA_CURVES_def make_curve_def cert_suffix_def intro!: ascii_text)
  let ?m1 = "advance m (length (enc_string (utf8_of t)))"
  have gt: "get_text m = (Inr t, ?m1)" using f_text.get_prefix [of t m r] m(1) u enc_text [OF u] by (simp add: enc_field_def)
  have rw: "rewind ?m1 = m" using m(2) by (simp add: rewind_def advance_def)
  have p: "point_str c x y = 4 # be_bytes ((key_length c + 7) div 8) x @ be_bytes ((key_length c + 7) div 8) y"
    "ok_string (point_str c x y)" using point_str_fits [OF ok] by auto
  have "fst (bindS (check_type_and_load_cert (get_key_format_identifier_list ECDSA_CURVES)
        (map (\<lambda>x. x @ cert_suffix) (get_key_format_identifier_list ECDSA_CURVES)) (key_format_identifier c))
      (\<lambda>blob. bindS get_text (\<lambda>curvename.
             (case Some c of
                None \<Rightarrow> raiseS AttributeError
              | Some c \<Rightarrow>
                  if curvename \<noteq> nist_name c then raiseS (SSHException ''Can't handle curve'')
                  else
                    bindS get_binary (\<lambda>pointinfo.
                      (case ec_point be (key_length c) pointinfo of
                         None \<Rightarrow> raiseS (SSHException ''Invalid public key'')
                       | Some (x, y) \<Rightarrow> retS \<lparr>pk_numbers = Ecdsa c x y, pk_public_blob = blob\<rparr>))))) ?m1) =
    Inr \<lparr>pk_numbers = Ecdsa c x y, pk_public_blob = blob\<rparr>"
  proof (rule assms(5) [OF rw], rule read_text [where s = "nist_name c" and r = "enc_string (point_str c x y) @ after"])
    fix m' m'' assume "get_remainder m'' = enc_string (point_str c x y) @ after"
    then show "fst ((case Some c of
                None \<Rightarrow> raiseS AttributeError
              | Some ca \<Rightarrow>
                  if nist_name c \<noteq> nist_name ca then raiseS (SSHException ''Can't handle curve'')
                  else
                    bindS get_binary (\<lambda>pointinfo.
                      (case ec_point be (key_length ca) pointinfo of
                         None \<Rightarrow> raiseS (SSHException ''Invalid public key'')
                       | Some (x, y) \<Rightarrow> retS \<lparr>pk_numbers = Ecdsa ca x y, pk_public_blob = blob\<rparr>))) m'') =
        Inr \<lparr>pk_numbers = Ecdsa c x y, pk_public_blob = blob\<rparr>"
      using p ok by (auto intro!: read_binary simp: backend_ok_def Let_def retS_def)
  qed (use enc_text [of "nist_name c"] curve_names [OF c] in \<open>auto simp: key_material_def number_fields_def\<close>)
  then show ?thesis unfolding ecdsa_from_message_def bindS_step [where p = get_text, OF gt] Let_def g by simp
qed

lemma cert_neq: "t @ cert_suffix \<noteq> t" by (simp add: cert_suffix_def)

lemma curves_cert_free:
  "c \<in> set ECDSA_CURVES \<Longrightarrow> key_format_identifier c @ cert_suffix \<notin> set (get_key_format_identifier_list ECDSA_CURVES) \<and>
     key_format_identifier c \<in> set (get_key_format_identifier_list ECDSA_CURVES)"
proof -
  have "list_all (\<lambda>c. key_format_identifier c @ cert_suffix \<notin> set (get_key_format_identifier_list ECDSA_CURVES)) ECDSA_CURVES"
    by code_simp
  then show "c \<in> set ECDSA_CURVES \<Longrightarrow> ?thesis"
    by (simp add: list_all_iff get_key_format_identifier_list_def)
qed

lemma cert_names: "backend_ok be k \<Longrightarrow> \<exists>b. utf8_encode (numbers_name k @ cert_suffix) = Inr b \<and> ok_string b"
  by (cases k) (auto simp: backend_ok_def Let_def ECDSA_CURVES_def make_curve_def cert_suffix_def rsa_name_def ed25519_name_def
      intro!: ascii_text)

lemma plain_names: "backend_ok be k \<Longrightarrow> \<exists>b. utf8_encode (numbers_name k) = Inr b \<and> ok_string b"
  by (cases k) (auto simp: backend_ok_def Let_def key_names curve_names)

lemma key_wire: "backend_ok be k \<Longrightarrow>
    concat (map enc_field (number_fields k)) = enc_string (utf8_of (numbers_name k)) @ key_material k"
  using enc_text [OF plain_names, of be k] by (cases k) (auto simp: number_fields_def key_material_def)

lemma new_message_at [simp]: "get_remainder (new_message (Some b)) = b" "rewind (new_message (Some b)) = new_message (Some b)"
  "mpos (new_message (Some b)) = 0" "mbuf (new_message (Some b)) = b"
  by (simp_all add: get_remainder_def rewind_def new_message_def)

lemma rewind_mbuf: "rewind m1 = m \<Longrightarrow> mbuf m1 = mbuf m"
  by (auto simp: rewind_def)

lemma type_dispatch:
  "rsa_name \<in> set rsa_identifiers" "ed25519_name \<notin> set rsa_identifiers"
  "c \<in> set ECDSA_CURVES \<Longrightarrow> key_format_identifier c \<notin> set rsa_identifiers \<and> key_format_identifier c \<noteq> ed25519_name"
proof -
  have "rsa_name \<in> set rsa_identifiers \<and> ed25519_name \<notin> set rsa_identifiers \<and>
      list_all (\<lambda>c. key_format_identifier c \<notin> set rsa_identifiers \<and> key_format_identifier c \<noteq> ed25519_name) ECDSA_CURVES"
    by code_simp
  then show "rsa_name \<in> set rsa_identifiers" "ed25519_name \<notin> set rsa_identifiers"
    "c \<in> set ECDSA_CURVES \<Longrightarrow> key_format_identifier c \<notin> set rsa_identifiers \<and> key_format_identifier c \<noteq> ed25519_name"
    by (auto simp: list_all_iff)
qed

lemma from_plain:
  assumes ok: "backend_ok be k"
  shows "from_type_string be (numbers_name k) (enc_string (utf8_of (numbers_name k)) @ key_material k) =
     Inr \<lparr>pk_numbers = k, pk_public_blob = None\<rparr>"
proof (cases k)
  case (Rsa e n)
  have "fst (rsa_from_message be (new_message (Some (enc_string (utf8_of rsa_name) @ key_material (Rsa e n))))) =
      Inr \<lparr>pk_numbers = Rsa e n, pk_public_blob = None\<rparr>"
    by (rule rsa_reads [OF ok [unfolded Rsa], where after = "[]"], rule read_plain [where t = rsa_name]) (use key_names in auto)
  then show ?thesis using type_dispatch by (simp add: from_type_string_def Let_def Rsa)
next
  case (Ed25519 v)
  have "fst (ed25519_from_message (new_message (Some (enc_string (utf8_of ed25519_name) @ key_material (Ed25519 v))))) =
      Inr \<lparr>pk_numbers = Ed25519 v, pk_public_blob = None\<rparr>"
    by (rule ed25519_reads [OF ok [unfolded Ed25519], where after = "[]"], rule read_plain [where t = ed25519_name]) (use key_names in auto)
  then show ?thesis using type_dispatch by (simp add: from_type_string_def Let_def Ed25519)
next
  case (Ecdsa c x y)
  have c: "c \<in> set ECDSA_CURVES" using ok Ecdsa by (simp add: backend_ok_def Let_def)
  let ?m = "new_message (Some (enc_string (utf8_of (key_format_identifier c)) @ key_material (Ecdsa c x y)))"
  have "fst (ecdsa_from_message be ?m) = Inr \<lparr>pk_numbers = Ecdsa c x y, pk_public_blob = None\<rparr>"
    by (rule ecdsa_reads [OF ok [unfolded Ecdsa], where after = "[]" and t = "key_format_identifier c"], simp, simp, simp)
       (rule read_plain [where t = "key_format_identifier c"], use curve_names [OF c] curves_cert_free [OF c] in auto)
  then show ?thesis using type_dispatch(3) [OF c] curves_cert_free [OF c] by (simp add: from_type_string_def Let_def Ecdsa)
qed

lemma from_cert:
  assumes ok: "backend_ok be k" and n: "ok_string nonce"
  shows "from_type_string be (numbers_name k) (cert_wire k nonce after) =
     Inr \<lparr>pk_numbers = k, pk_public_blob = Some \<lparr>pb_type = numbers_name k @ cert_suffix, pb_blob = cert_wire k nonce after, pb_comment = None\<rparr>\<rparr>"
proof (cases k)
  case (Rsa e n')
  let ?w = "cert_wire (Rsa e n') nonce after" and ?t = "rsa_name @ cert_suffix"
  have "fst (rsa_from_message be (new_message (Some ?w))) =
      Inr \<lparr>pk_numbers = Rsa e n', pk_public_blob = Some \<lparr>pb_type = ?t, pb_blob = ?w, pb_comment = None\<rparr>\<rparr>"
  proof (rule rsa_reads [OF ok [unfolded Rsa], where after = after], goal_cases)
    case (1 f z)
    show ?case
      using read_cert [where t = ?t and nonce = nonce and m = "new_message (Some ?w)" and f = f and x = z and name = rsa_name
          and r = "key_material (Rsa e n') @ after" and key_types = "[rsa_name]"] 1 n cert_names [OF ok] cert_neq [of rsa_name]
      by (auto simp: Rsa cert_wire_def startswith_append)
  qed
  then show ?thesis using type_dispatch by (simp add: from_type_string_def Let_def Rsa)
next
  case (Ed25519 v)
  let ?w = "cert_wire (Ed25519 v) nonce after" and ?t = "ed25519_name @ cert_suffix"
  have "fst (ed25519_from_message (new_message (Some ?w))) =
      Inr \<lparr>pk_numbers = Ed25519 v, pk_public_blob = Some \<lparr>pb_type = ?t, pb_blob = ?w, pb_comment = None\<rparr>\<rparr>"
  proof (rule ed25519_reads [OF ok [unfolded Ed25519], where after = after], goal_cases)
    case (1 f z)
    show ?case
      using read_cert [where t = ?t and nonce = nonce and m = "new_message (Some ?w)" and f = f and x = z and name = ed25519_name
          and r = "key_material (Ed25519 v) @ after" and key_types = "[ed25519_name]"] 1 n cert_names [OF ok] cert_neq [of ed25519_name]
      by (auto simp: Ed25519 cert_wire_def startswith_append)
  qed
  then show ?thesis using type_dispatch by (simp add: from_type_string_def Let_def Ed25519)
next
  case (Ecdsa c x y)
  have c: "c \<in> set ECDSA_CURVES" using ok Ecdsa by (simp add: backend_ok_def Let_def)
  let ?w = "cert_wire (Ecdsa c x y) nonce after" and ?t = "key_format_identifier c @ cert_suffix"
  have "fst (ecdsa_from_message be (new_message (Some ?w))) =
      Inr \<lparr>pk_numbers = Ecdsa c x y, pk_public_blob = Some \<lparr>pb_type = ?t, pb_blob = ?w, pb_comment = None\<rparr>\<rparr>"
  proof (rule ecdsa_reads [OF ok [unfolded Ecdsa], where after = after and t = ?t and r = "enc_string nonce @ key_material (Ecdsa c x y) @ after"], goal_cases)
    case (4 f z m1)
    show ?case
      using read_cert [where t = ?t and nonce = nonce and m = m1 and f = f and x = z and name = "key_format_identifier c"
          and r = "key_material (Ecdsa c x y) @ after" and key_types = "get_key_format_identifier_list ECDSA_CURVES"]
        4 n cert_names [OF ok] curves_cert_free [OF c] rewind_mbuf [OF 4(1)]
      by (auto simp: Ecdsa cert_wire_def startswith_append)
  qed (auto simp: cert_wire_def)
  then show ?thesis using type_dispatch(3) [OF c] curves_cert_free [OF c] by (simp add: from_type_string_def Let_def Ecdsa)
qed

section \<open>Properties\<close>

text \<open>C25. A public key survives its wire form: for numbers the library accepts, the bytes a key object is written to make
  the same key again, without a certificate; and the same key material inside an OpenSSH certificate, whatever its
  nonce and whatever follows the numbers, makes the same key with the whole certificate kept as its public blob.\<close>

theorem public_key_roundtrip:
  assumes "backend_ok be k" "ok_string nonce"
  shows "(\<exists>wire. key_bytes \<lparr>pk_numbers = k, pk_public_blob = b\<rparr> = Inr wire \<and>
       from_type_string be (numbers_name k) wire = Inr \<lparr>pk_numbers = k, pk_public_blob = None\<rparr>) \<and>
     from_type_string be (numbers_name k) (cert_wire k nonce after) =
       Inr \<lparr>pk_numbers = k, pk_public_blob = Some \<lparr>pb_type = numbers_name k @ cert_suffix, pb_blob = cert_wire k nonce after, pb_comment = None\<rparr>\<rparr>"
  using from_plain [OF assms(1)] from_cert [OF assms] assms(1) by (simp add: key_bytes_ok key_wire)

theorem public_key_roundtrip_witness:
  "\<exists>wire. key_bytes \<lparr>pk_numbers = Rsa 3 33, pk_public_blob = None\<rparr> = Inr wire \<and>
     from_type_string \<lparr>rsa_accepts = (\<lambda>e n. 3 \<le> e \<and> e < n), rsa_key_size = (\<lambda>n. 6), ec_point = (\<lambda>l b. None)\<rparr> (lit ''ssh-rsa'') wire =
       Inr \<lparr>pk_numbers = Rsa 3 33, pk_public_blob = None\<rparr>"
proof -
  have d: "deflate_long n True = [word_of_int n]" if "0 < n" "n < 128" for n
    using deflate_inflate [of "[word_of_int n]"] that
    by (simp add: inflate_long_signed tc_val_def be_int_Cons byte_of_int_uint normalized_def)
  have "backend_ok \<lparr>rsa_accepts = (\<lambda>e n. 3 \<le> e \<and> e < n), rsa_key_size = (\<lambda>n. 6), ec_point = (\<lambda>l b. None)\<rparr> (Rsa 3 33)"
    by (simp add: backend_ok_def d ok_string_def)
  from public_key_roundtrip [OF this, of "[]" None "[]"] show ?thesis by (auto simp: ok_string_def rsa_name_def)
qed

end
