(* ===== verification/Host_Keys.thy ===== *)
theory Host_Keys
  imports Public_Keys
begin

text \<open>
  \<^verbatim>\<open>paramiko/hostkeys.py\<close>: the table of known hosts. Entries are objects that a table and the dictionaries \<^verbatim>\<open>lookup\<close>
  hands out share, so the state has a store of entries (\<open>hk_heap\<close>) and the list of the addresses of the table's own
  entries (\<open>hk_entries\<close>); a \<open>sub_dict\<close> has a list of addresses of its own. The keyed hash HMAC-SHA1 is the
  parameter \<open>hmac\<close>, a salt from the system's random source an argument.
\<close>

unbundle bit_operations_syntax

section \<open>Entries\<close>

record hostkey_entry =
  he_valid :: bool
  hostnames :: "ustr list"
  he_key :: "pkey option"

definition new_entry :: "ustr list \<Rightarrow> pkey option \<Rightarrow> hostkey_entry" where
  "new_entry names key = \<lparr>he_valid = (key \<noteq> None), hostnames = names, he_key = key\<rparr>"

text \<open>\<^verbatim>\<open>e.key.get_name()\<close>\<close>

definition entry_name :: "hostkey_entry \<Rightarrow> ustr res" where
  "entry_name e = (case he_key e of None \<Rightarrow> Inl AttributeError | Some k \<Rightarrow> Inr (get_name k))"

text \<open>\<^verbatim>\<open>re.split(" |\t", line)\<close>\<close>

fun split_fields :: "ustr \<Rightarrow> ustr list" where
  "split_fields [] = [[]]"
| "split_fields (c # cs) =
     (if c = 32 \<or> c = 9 then [] # split_fields cs
      else (case split_fields cs of [] \<Rightarrow> [[c]] | w # ws \<Rightarrow> (c # w) # ws))"

definition from_line :: "backend \<Rightarrow> ustr \<Rightarrow> hostkey_entry option res" where
  "from_line be line =
     (case split_fields line of
        names # key_type # key # _ \<Rightarrow>
          (case bindR (utf8_encode key) decodebytes of
             Inl e \<Rightarrow> Inl (if e = BinasciiError then InvalidHostKey else e)
           | Inr kb \<Rightarrow>
               (case from_type_string be key_type kb of
                  Inl e \<Rightarrow> if e = UnknownKeyType then Inr None else Inl e
                | Inr k \<Rightarrow> Inr (Some (new_entry (split_on 44 names) (Some k)))))
      | _ \<Rightarrow> Inr None)"

definition to_line :: "hostkey_entry \<Rightarrow> ustr option res" where
  "to_line e =
     (if he_valid e then
        (case he_key e of
           None \<Rightarrow> Inl AttributeError
         | Some k \<Rightarrow> bindR (get_base64 k) (\<lambda>b. Inr (Some (join [44] (hostnames e) @ [32] @ get_name k @ [32] @ b @ [10]))))
      else Inr None)"

section \<open>Hashed host names\<close>

definition hash_mark :: ustr where "hash_mark = lit ''|1|''"

definition salt_field :: "ustr \<Rightarrow> ustr" where
  "salt_field salt = (if startswith salt hash_mark then split_on 124 salt ! 2 else salt)"

definition hash_with_salt :: "(bytes \<Rightarrow> bytes \<Rightarrow> bytes) \<Rightarrow> ustr \<Rightarrow> bytes \<Rightarrow> ustr res" where
  "hash_with_salt hmac hostname salt =
     (if length salt \<noteq> 20 then Inl AssertionError
      else bindR (utf8_encode hostname) (\<lambda>hb.
        Inr (filter (\<lambda>c. c \<noteq> 10) (hash_mark @ ascii (encodebytes salt) @ [124] @ ascii (encodebytes (hmac salt hb))))))"

text \<open>\<^verbatim>\<open>hash_host\<close>; \<open>urandom\<close> is what the random source gives when there is no salt.\<close>

definition hash_host :: "(bytes \<Rightarrow> bytes \<Rightarrow> bytes) \<Rightarrow> bytes \<Rightarrow> ustr \<Rightarrow> ustr option \<Rightarrow> ustr res" where
  "hash_host hmac urandom hostname salt =
     (case salt of
        None \<Rightarrow> hash_with_salt hmac hostname urandom
      | Some s \<Rightarrow> bindR (utf8_encode (salt_field s)) (\<lambda>sb. bindR (decodebytes sb) (hash_with_salt hmac hostname)))"

text \<open>\<^verbatim>\<open>constant_time_bytes_eq\<close> on texts: \<^verbatim>\<open>byte_ord\<close> gives code points.\<close>

definition constant_time_text_eq :: "ustr \<Rightarrow> ustr \<Rightarrow> bool" where
  "constant_time_text_eq a b =
     (if length a \<noteq> length b then False
      else foldl (\<lambda>res i. res OR (a ! i XOR b ! i)) 0 [0..<length a] = 0)"

fun match_names :: "(bytes \<Rightarrow> bytes \<Rightarrow> bytes) \<Rightarrow> ustr \<Rightarrow> ustr list \<Rightarrow> bool res" where
  "match_names hmac hostname [] = Inr False"
| "match_names hmac hostname (h # hs) =
     (if h = hostname then Inr True
      else if startswith h hash_mark \<and> \<not> startswith hostname hash_mark then
        bindR (hash_host hmac [] hostname (Some h)) (\<lambda>x.
          if constant_time_text_eq x h then Inr True else match_names hmac hostname hs)
      else match_names hmac hostname hs)"

definition hostname_matches :: "(bytes \<Rightarrow> bytes \<Rightarrow> bytes) \<Rightarrow> ustr \<Rightarrow> hostkey_entry \<Rightarrow> bool res" where
  "hostname_matches hmac hostname e = match_names hmac hostname (hostnames e)"

section \<open>The table\<close>

record hostkeys =
  hk_heap :: "hostkey_entry list"
  hk_entries :: "nat list"

definition empty_hostkeys :: hostkeys where
  "empty_hostkeys = \<lparr>hk_heap = [], hk_entries = []\<rparr>"

definition entry_at :: "hostkeys \<Rightarrow> nat \<Rightarrow> hostkey_entry" where
  "entry_at s a = hk_heap s ! a"

definition table :: "hostkeys \<Rightarrow> hostkey_entry list" where
  "table s = map (entry_at s) (hk_entries s)"

definition set_key :: "nat \<Rightarrow> pkey \<Rightarrow> hostkeys \<Rightarrow> hostkeys" where
  "set_key a k s = s\<lparr>hk_heap := (hk_heap s)[a := (entry_at s a)\<lparr>he_key := Some k\<rparr>]\<rparr>"

definition append_entry :: "hostkey_entry \<Rightarrow> hostkeys \<Rightarrow> hostkeys" where
  "append_entry e s = s\<lparr>hk_heap := hk_heap s @ [e], hk_entries := hk_entries s @ [length (hk_heap s)]\<rparr>"

text \<open>The first entry with the host name written out and a key of the given type.\<close>

fun find_named :: "hostkeys \<Rightarrow> ustr \<Rightarrow> ustr \<Rightarrow> nat list \<Rightarrow> nat option res" where
  "find_named s hostname keytype [] = Inr None"
| "find_named s hostname keytype (a # as) =
     (if hostname \<in> set (hostnames (entry_at s a))
      then bindR (entry_name (entry_at s a)) (\<lambda>n. if n = keytype then Inr (Some a) else find_named s hostname keytype as)
      else find_named s hostname keytype as)"

definition hk_add :: "ustr \<Rightarrow> ustr \<Rightarrow> pkey \<Rightarrow> (hostkeys, unit) sm" where
  "hk_add hostname keytype key = (\<lambda>s.
     case find_named s hostname keytype (hk_entries s) of
       Inl e \<Rightarrow> (Inl e, s)
     | Inr (Some a) \<Rightarrow> (Inr (), set_key a key s)
     | Inr None \<Rightarrow> (Inr (), append_entry (new_entry [hostname] (Some key)) s))"

section \<open>Looking up\<close>

record sub_dict =
  sd_hostname :: ustr
  sd_entries :: "nat list"

fun matching :: "(bytes \<Rightarrow> bytes \<Rightarrow> bytes) \<Rightarrow> hostkeys \<Rightarrow> ustr \<Rightarrow> nat list \<Rightarrow> nat list res" where
  "matching hmac s hostname [] = Inr []"
| "matching hmac s hostname (a # as) =
     bindR (hostname_matches hmac hostname (entry_at s a)) (\<lambda>m.
     bindR (matching hmac s hostname as) (\<lambda>r. Inr (if m then a # r else r)))"

definition hk_lookup :: "(bytes \<Rightarrow> bytes \<Rightarrow> bytes) \<Rightarrow> ustr \<Rightarrow> hostkeys \<Rightarrow> sub_dict option res" where
  "hk_lookup hmac hostname s =
     bindR (matching hmac s hostname (hk_entries s)) (\<lambda>es.
       Inr (if es = [] then None else Some \<lparr>sd_hostname = hostname, sd_entries = es\<rparr>))"

text \<open>The first entry of a dictionary with a key of the given type: \<^verbatim>\<open>__getitem__\<close> and \<^verbatim>\<open>__delitem__\<close> need every key
  they meet, \<^verbatim>\<open>__setitem__\<close> passes over entries without one.\<close>

fun find_key :: "hostkeys \<Rightarrow> ustr \<Rightarrow> nat list \<Rightarrow> nat option res" where
  "find_key s keytype [] = Inr None"
| "find_key s keytype (a # as) =
     bindR (entry_name (entry_at s a)) (\<lambda>n. if n = keytype then Inr (Some a) else find_key s keytype as)"

definition sd_getitem :: "hostkeys \<Rightarrow> sub_dict \<Rightarrow> ustr \<Rightarrow> pkey res" where
  "sd_getitem s d keytype =
     bindR (find_key s keytype (sd_entries d)) (\<lambda>r.
       case r of None \<Rightarrow> Inl KeyError
       | Some a \<Rightarrow> (case he_key (entry_at s a) of None \<Rightarrow> Inl AttributeError | Some k \<Rightarrow> Inr k))"

definition sd_delitem :: "hostkeys \<Rightarrow> sub_dict \<Rightarrow> ustr \<Rightarrow> sub_dict res" where
  "sd_delitem s d keytype =
     bindR (find_key s keytype (sd_entries d)) (\<lambda>r.
       case r of None \<Rightarrow> Inl KeyError | Some a \<Rightarrow> Inr (d\<lparr>sd_entries := remove1 a (sd_entries d)\<rparr>))"

definition sd_setitem :: "hostkeys \<Rightarrow> sub_dict \<Rightarrow> ustr \<Rightarrow> pkey \<Rightarrow> hostkeys \<times> sub_dict" where
  "sd_setitem s d keytype val =
     (case find (\<lambda>a. entry_name (entry_at s a) = Inr keytype) (sd_entries d) of
        Some a \<Rightarrow> (set_key a val s, d)
      | None \<Rightarrow> (append_entry (new_entry [sd_hostname d] (Some val)) s, d\<lparr>sd_entries := sd_entries d @ [length (hk_heap s)]\<rparr>))"

definition sd_keys :: "hostkeys \<Rightarrow> sub_dict \<Rightarrow> ustr list" where
  "sd_keys s d = map get_name (List.map_filter (\<lambda>a. he_key (entry_at s a)) (sd_entries d))"

definition hk_check :: "(bytes \<Rightarrow> bytes \<Rightarrow> bytes) \<Rightarrow> ustr \<Rightarrow> pkey \<Rightarrow> hostkeys \<Rightarrow> bool res" where
  "hk_check hmac hostname key s =
     bindR (hk_lookup hmac hostname s) (\<lambda>k.
       case k of
         None \<Rightarrow> Inr False
       | Some d \<Rightarrow>
           (case sd_getitem s d (get_name key) of
              Inl e \<Rightarrow> if e = KeyError then Inr False else Inl e
            | Inr host_key \<Rightarrow> bindR (key_bytes host_key) (\<lambda>a. bindR (key_bytes key) (\<lambda>b. Inr (a = b)))))"

section \<open>The rest of the mapping\<close>

definition hk_clear :: "hostkeys \<Rightarrow> hostkeys" where
  "hk_clear s = s\<lparr>hk_entries := []\<rparr>"

definition hk_getitem :: "(bytes \<Rightarrow> bytes \<Rightarrow> bytes) \<Rightarrow> ustr \<Rightarrow> hostkeys \<Rightarrow> sub_dict res" where
  "hk_getitem hmac key s =
     bindR (hk_lookup hmac key s) (\<lambda>r. case r of None \<Rightarrow> Inl KeyError | Some d \<Rightarrow> Inr d)"

fun first_matching :: "(bytes \<Rightarrow> bytes \<Rightarrow> bytes) \<Rightarrow> hostkeys \<Rightarrow> ustr \<Rightarrow> nat \<Rightarrow> nat list \<Rightarrow> nat option res" where
  "first_matching hmac s key i [] = Inr None"
| "first_matching hmac s key i (a # as) =
     bindR (hostname_matches hmac key (entry_at s a)) (\<lambda>m.
       if m then Inr (Some i) else first_matching hmac s key (Suc i) as)"

definition hk_delitem :: "(bytes \<Rightarrow> bytes \<Rightarrow> bytes) \<Rightarrow> ustr \<Rightarrow> (hostkeys, unit) sm" where
  "hk_delitem hmac key = (\<lambda>s.
     case first_matching hmac s key 0 (hk_entries s) of
       Inl e \<Rightarrow> (Inl e, s)
     | Inr None \<Rightarrow> (Inl KeyError, s)
     | Inr (Some i) \<Rightarrow> (Inr (), s\<lparr>hk_entries := take i (hk_entries s) @ drop (Suc i) (hk_entries s)\<rparr>))"

text \<open>\<^verbatim>\<open>__setitem__\<close> with a dictionary from key types to keys: every entry found is replaced.\<close>

fun replace_named :: "ustr \<Rightarrow> ustr \<Rightarrow> pkey \<Rightarrow> bool \<Rightarrow> nat list \<Rightarrow> hostkeys \<Rightarrow> bool res \<times> hostkeys" where
  "replace_named hostname key_type val found [] s = (Inr found, s)"
| "replace_named hostname key_type val found (a # as) s =
     (if hostname \<in> set (hostnames (entry_at s a)) then
        (case entry_name (entry_at s a) of
           Inl e \<Rightarrow> (Inl e, s)
         | Inr n \<Rightarrow>
             if n = key_type then replace_named hostname key_type val True as (set_key a val s)
             else replace_named hostname key_type val found as s)
      else replace_named hostname key_type val found as s)"

fun set_types :: "ustr \<Rightarrow> (ustr \<times> pkey) list \<Rightarrow> (hostkeys, unit) sm" where
  "set_types hostname [] = retS ()"
| "set_types hostname ((t, val) # ts) =
     bindS (\<lambda>s. replace_named hostname t val False (hk_entries s) s) (\<lambda>found.
     bindS (modS (\<lambda>s. if found then s else append_entry (new_entry [hostname] (Some val)) s)) (\<lambda>_.
       set_types hostname ts))"

definition hk_setitem :: "ustr \<Rightarrow> (ustr \<times> pkey) list \<Rightarrow> (hostkeys, unit) sm" where
  "hk_setitem hostname entry =
     (if entry = [] then modS (append_entry (new_entry [hostname] None)) else set_types hostname entry)"

definition hk_keys :: "hostkeys \<Rightarrow> ustr list" where
  "hk_keys s = foldl (\<lambda>ret h. if h \<in> set ret then ret else ret @ [h]) [] (concat (map hostnames (table s)))"

definition hk_len :: "hostkeys \<Rightarrow> nat" where "hk_len s = length (hk_keys s)"

fun lookup_all :: "(bytes \<Rightarrow> bytes \<Rightarrow> bytes) \<Rightarrow> ustr list \<Rightarrow> hostkeys \<Rightarrow> sub_dict option list res" where
  "lookup_all hmac [] s = Inr []"
| "lookup_all hmac (k # ks) s = bindR (hk_lookup hmac k s) (\<lambda>d. bindR (lookup_all hmac ks s) (\<lambda>ds. Inr (d # ds)))"

definition hk_values :: "(bytes \<Rightarrow> bytes \<Rightarrow> bytes) \<Rightarrow> hostkeys \<Rightarrow> sub_dict option list res" where
  "hk_values hmac s = lookup_all hmac (hk_keys s) s"

section \<open>Files\<close>

text \<open>The names of a new entry that are already known are taken out of the list the loop runs over, by its index.\<close>

function prune_names :: "(ustr \<Rightarrow> bool res) \<Rightarrow> nat \<Rightarrow> ustr list \<Rightarrow> ustr list res" where
  "prune_names known i names =
     (if i < length names then
        (case known (names ! i) of
           Inl e \<Rightarrow> Inl e
         | Inr k \<Rightarrow> prune_names known (Suc i) (if k then remove1 (names ! i) names else names))
      else Inr names)"
  by pat_completeness auto
termination by (relation "measure (\<lambda>(known, i, names). length names - i)") (auto simp: length_remove1)

declare prune_names.simps [simp del]

definition load_line :: "backend \<Rightarrow> (bytes \<Rightarrow> bytes \<Rightarrow> bytes) \<Rightarrow> ustr \<Rightarrow> (hostkeys, unit) sm" where
  "load_line be hmac raw_line = (\<lambda>s.
     let line = py_strip raw_line in
     if line = [] \<or> line ! 0 = 35 then (Inr (), s)
     else
       (case from_line be line of
          Inl e \<Rightarrow> (case e of SSHException _ \<Rightarrow> (Inr (), s) | _ \<Rightarrow> (Inl e, s))
        | Inr None \<Rightarrow> (Inr (), s)
        | Inr (Some e) \<Rightarrow>
            (case prune_names (\<lambda>h. case he_key e of None \<Rightarrow> Inl AttributeError | Some k \<Rightarrow> hk_check hmac h k s) 0 (hostnames e) of
               Inl x \<Rightarrow> (Inl x, s)
             | Inr names \<Rightarrow> (Inr (), if names = [] then s else append_entry (e\<lparr>hostnames := names\<rparr>) s))))"

fun hk_load :: "backend \<Rightarrow> (bytes \<Rightarrow> bytes \<Rightarrow> bytes) \<Rightarrow> ustr list \<Rightarrow> (hostkeys, unit) sm" where
  "hk_load be hmac [] = retS ()"
| "hk_load be hmac (l # ls) = bindS (load_line be hmac l) (\<lambda>_. hk_load be hmac ls)"

fun save_lines :: "hostkey_entry list \<Rightarrow> ustr list res" where
  "save_lines [] = Inr []"
| "save_lines (e # es) =
     bindR (to_line e) (\<lambda>line.
     bindR (save_lines es) (\<lambda>ls. Inr (case line of None \<Rightarrow> ls | Some l \<Rightarrow> if l = [] then ls else l # ls)))"

definition hk_save :: "hostkeys \<Rightarrow> ustr list res" where
  "hk_save s = save_lines (table s)"

section \<open>Adding and checking\<close>

lemma constant_time_text_eq: "constant_time_text_eq a b \<longleftrightarrow> a = b"
proof -
  have z: "foldl (\<lambda>res i. res OR (f i)) r xs = 0 \<longleftrightarrow> r = (0 :: nat) \<and> (\<forall>i \<in> set xs. f i = 0)" for f r xs
    by (induction xs arbitrary: r) (auto simp: or_eq_0_iff)
  have x: "(m XOR n = 0) = (m = n)" for m n :: nat
    by (metis xor.left_neutral xor.assoc xor_self_eq)
  have "a = b \<longleftrightarrow> length a = length b \<and> (\<forall>i \<in> set [0..<length a]. a ! i = b ! i)"
    by (auto intro: nth_equalityI)
  then show ?thesis unfolding constant_time_text_eq_def z x by simp
qed

text \<open>Every entry has a key, and its names can be compared with the host name \<open>h\<close> (a malformed hash raises).\<close>

definition usable :: "(bytes \<Rightarrow> bytes \<Rightarrow> bytes) \<Rightarrow> ustr \<Rightarrow> hostkeys \<Rightarrow> bool" where
  "usable hmac h s \<longleftrightarrow>
     list_all (\<lambda>e. he_key e \<noteq> None \<and> hostname_matches hmac h e \<in> {Inr True, Inr False}) (table s)"

text \<open>The entry that answers for \<open>h\<close> and a type of key: the first that is known by the name, written out or by its hash.\<close>

definition answers :: "(bytes \<Rightarrow> bytes \<Rightarrow> bytes) \<Rightarrow> ustr \<Rightarrow> ustr \<Rightarrow> hostkeys \<Rightarrow> nat \<Rightarrow> bool" where
  "answers hmac h t s a \<longleftrightarrow> hostname_matches hmac h (entry_at s a) = Inr True \<and> entry_name (entry_at s a) = Inr t"

text \<open>It has the name only by its hash.\<close>

definition hidden_by_hash :: "(bytes \<Rightarrow> bytes \<Rightarrow> bytes) \<Rightarrow> ustr \<Rightarrow> ustr \<Rightarrow> hostkeys \<Rightarrow> bool" where
  "hidden_by_hash hmac h t s \<longleftrightarrow>
     (case find (answers hmac h t s) (hk_entries s) of None \<Rightarrow> False | Some a \<Rightarrow> h \<notin> set (hostnames (entry_at s a)))"

definition hk_wf :: "hostkeys \<Rightarrow> bool" where
  "hk_wf s \<longleftrightarrow> list_all (\<lambda>a. a < length (hk_heap s)) (hk_entries s) \<and> distinct (hk_entries s)"

lemma hk_wf_ops:
  "hk_wf empty_hostkeys" "hk_wf s \<Longrightarrow> hk_wf (set_key a k s)" "hk_wf s \<Longrightarrow> hk_wf (append_entry e s)" "hk_wf s \<Longrightarrow> hk_wf (hk_clear s)"
  by (auto simp: hk_wf_def empty_hostkeys_def set_key_def append_entry_def hk_clear_def list_all_iff)

lemma entry_at_simps:
  "a < length (hk_heap s) \<Longrightarrow> entry_at (set_key a k s) b = (if b = a then (entry_at s a)\<lparr>he_key := Some k\<rparr> else entry_at s b)"
  "b < length (hk_heap s) \<Longrightarrow> entry_at (append_entry e s) b = entry_at s b"
  "entry_at (append_entry e s) (length (hk_heap s)) = e"
  by (auto simp: entry_at_def set_key_def append_entry_def nth_append)

lemma hk_entries_simps [simp]:
  "hk_entries (set_key a k s) = hk_entries s" "hk_entries (append_entry e s) = hk_entries s @ [length (hk_heap s)]"
  by (simp_all add: set_key_def append_entry_def)

lemma find_named_None:
  "find_named s h t as = Inr None \<Longrightarrow> a \<in> set as \<Longrightarrow> h \<in> set (hostnames (entry_at s a)) \<Longrightarrow>
     \<exists>n. entry_name (entry_at s a) = Inr n \<and> n \<noteq> t"
  by (induction as) (auto simp: bindR_def split: if_splits sum.splits)

lemma find_named_Some:
  "find_named s h t as = Inr (Some a) \<Longrightarrow>
     \<exists>xs ys. as = xs @ a # ys \<and> h \<in> set (hostnames (entry_at s a)) \<and> entry_name (entry_at s a) = Inr t \<and>
       (\<forall>x \<in> set xs. h \<in> set (hostnames (entry_at s x)) \<longrightarrow> (\<exists>n. entry_name (entry_at s x) = Inr n \<and> n \<noteq> t))"
proof (induction as)
  case (Cons b as)
  show ?case
  proof (cases "h \<in> set (hostnames (entry_at s b)) \<and> entry_name (entry_at s b) = Inr t")
    case True
    with Cons.prems have "a = b" by simp
    with True show ?thesis by (intro exI [of _ "[]"] exI [of _ as]) auto
  next
    case False
    then have "find_named s h t as = Inr (Some a)"
      and n: "h \<in> set (hostnames (entry_at s b)) \<longrightarrow> (\<exists>n. entry_name (entry_at s b) = Inr n \<and> n \<noteq> t)"
      using Cons.prems by (auto simp: bindR_eq_Inr split: if_splits)
    from Cons.IH [OF this(1)] obtain xs ys where "as = xs @ a # ys" "h \<in> set (hostnames (entry_at s a))"
      "entry_name (entry_at s a) = Inr t"
      "\<forall>x \<in> set xs. h \<in> set (hostnames (entry_at s x)) \<longrightarrow> (\<exists>n. entry_name (entry_at s x) = Inr n \<and> n \<noteq> t)" by blast
    with n show ?thesis by (intro exI [of _ "b # xs"] exI [of _ ys]) auto
  qed
qed simp

lemma written_name: "h \<in> set hs \<Longrightarrow> match_names hmac h hs = Inr m \<Longrightarrow> m"
  by (induction hs) (auto simp: bindR_eq_Inr split: if_splits)

lemma usable_at: "usable hmac h s \<longleftrightarrow>
    (\<forall>a \<in> set (hk_entries s). he_key (entry_at s a) \<noteq> None \<and> hostname_matches hmac h (entry_at s a) \<in> {Inr True, Inr False})"
  by (simp add: usable_def table_def list_all_iff)

lemma answers_written:
  "usable hmac h s \<Longrightarrow> a \<in> set (hk_entries s) \<Longrightarrow> h \<in> set (hostnames (entry_at s a)) \<Longrightarrow> entry_name (entry_at s a) = Inr t \<Longrightarrow>
     answers hmac h t s a"
  unfolding usable_at answers_def hostname_matches_def using written_name [of h "hostnames (entry_at s a)" hmac] by auto

lemma matching_usable:
  "\<forall>a \<in> set as. hostname_matches hmac h (entry_at s a) \<in> {Inr True, Inr False} \<Longrightarrow>
     matching hmac s h as = Inr (filter (\<lambda>a. hostname_matches hmac h (entry_at s a) = Inr True) as)"
  by (induction as) auto

lemma find_key_answer:
  "\<forall>a \<in> set as. he_key (entry_at s a) \<noteq> None \<Longrightarrow>
     find_key s t (filter (\<lambda>a. hostname_matches hmac h (entry_at s a) = Inr True) as) = Inr (find (answers hmac h t s) as)"
  by (induction as) (auto simp: answers_def entry_name_def)

lemma check_answer:
  assumes "usable hmac h s"
  shows "hk_check hmac h k s =
     (case find (answers hmac h (get_name k) s) (hk_entries s) of
        None \<Rightarrow> Inr False
      | Some a \<Rightarrow> bindR (key_bytes (the (he_key (entry_at s a)))) (\<lambda>x. bindR (key_bytes k) (\<lambda>y. Inr (x = y))))"
proof -
  let ?f = "filter (\<lambda>a. hostname_matches hmac h (entry_at s a) = Inr True) (hk_entries s)"
  have m: "matching hmac s h (hk_entries s) = Inr ?f" using assms by (intro matching_usable) (simp add: usable_at)
  have k: "find_key s (get_name k) ?f = Inr (find (answers hmac h (get_name k) s) (hk_entries s))"
    using assms by (intro find_key_answer) (simp add: usable_at)
  show ?thesis
  proof (cases "find (answers hmac h (get_name k) s) (hk_entries s)")
    case None
    with m k show ?thesis by (simp add: hk_check_def hk_lookup_def sd_getitem_def)
  next
    case (Some a)
    then have "a \<in> set (hk_entries s)" "answers hmac h (get_name k) s a" by (auto simp: find_Some_iff)
    then have "?f \<noteq> []" "he_key (entry_at s a) \<noteq> None" using assms by (auto simp: usable_at answers_def filter_empty_conv)
    with m k Some show ?thesis by (auto simp: hk_check_def hk_lookup_def sd_getitem_def)
  qed
qed

lemma hk_add_cases:
  assumes "hk_add h t k s = (Inr (), s')"
  obtains (replaced) a where "find_named s h t (hk_entries s) = Inr (Some a)" "s' = set_key a k s"
  | (appended) "find_named s h t (hk_entries s) = Inr None" "s' = append_entry (new_entry [h] (Some k)) s"
  using assms by (auto simp: hk_add_def split: sum.splits option.splits)

lemma find_cong_on: "\<forall>x \<in> set xs. P x = Q x \<Longrightarrow> find P xs = find Q xs"
  by (induction xs) auto

lemma find_snoc: "find P (xs @ [x]) = (case find P xs of None \<Rightarrow> if P x then Some x else None | Some y \<Rightarrow> Some y)"
  by (induction xs) auto

text \<open>The entry that \<open>find_named\<close> gives is the first one that answers, if that one has the name written out.\<close>

lemma find_named_answer:
  assumes "usable hmac h s" "find_named s h t (hk_entries s) = Inr r" "find (answers hmac h t s) (hk_entries s) = Some x"
    and "h \<in> set (hostnames (entry_at s x))"
  shows "r = Some x"
proof -
  have x: "x \<in> set (hk_entries s)" "entry_name (entry_at s x) = Inr t" using assms(3) by (auto simp: find_Some_iff answers_def)
  show ?thesis
  proof (cases r)
    case None
    with find_named_None [of s h t "hk_entries s" x] assms(2,4) x show ?thesis by simp
  next
    case (Some a)
    with find_named_Some [of s h t "hk_entries s" a] assms(2) obtain xs ys where a: "hk_entries s = xs @ a # ys"
      "h \<in> set (hostnames (entry_at s a))" "entry_name (entry_at s a) = Inr t"
      "\<forall>y \<in> set xs. h \<in> set (hostnames (entry_at s y)) \<longrightarrow> (\<exists>n. entry_name (entry_at s y) = Inr n \<and> n \<noteq> t)" by blast
    have "answers hmac h t s a" using answers_written [OF assms(1) _ a(2,3)] a(1) by simp
    moreover have "x \<notin> set xs" using a(4) assms(4) x(2) by auto
    ultimately have "x = a" using assms(3) unfolding a(1)
      by (induction xs) (auto split: if_splits)
    with Some show ?thesis by simp
  qed
qed

lemma added_check:
  assumes wf: "hk_wf s" and u: "usable hmac h s" and add: "hk_add h (get_name k) k s = (Inr (), s')"
    and b: "key_bytes k = Inr b" "key_bytes k' = Inr b'" "get_name k' = get_name k"
  shows "hk_check hmac h k' s' = (if hidden_by_hash hmac h (get_name k) s then hk_check hmac h k' s else Inr (b = b'))"
  using add
proof (cases rule: hk_add_cases)
  case (replaced a)
  from find_named_Some [OF replaced(1)] have a: "a \<in> set (hk_entries s)" "h \<in> set (hostnames (entry_at s a))"
    "entry_name (entry_at s a) = Inr (get_name k)" by auto
  then have l: "a < length (hk_heap s)" using wf by (auto simp: hk_wf_def list_all_iff)
  note at = entry_at_simps(1) [OF l]
  have m: "hostname_matches hmac h (entry_at s' x) = hostname_matches hmac h (entry_at s x)" for x
    by (simp add: replaced(2) at hostname_matches_def)
  have u': "usable hmac h s'" using u by (simp add: usable_at m) (simp add: replaced(2) at)
  have "answers hmac h t s' x = answers hmac h t s x" if "t = get_name k" for t x
    using a(3) that by (simp add: answers_def m) (simp add: replaced(2) at entry_name_def)
  then have f: "find (answers hmac h (get_name k) s') (hk_entries s') = find (answers hmac h (get_name k) s) (hk_entries s)"
    using replaced(2) by (simp add: find_cong_on)
  have "answers hmac h (get_name k) s a" by (rule answers_written [OF u a])
  then obtain x where x: "find (answers hmac h (get_name k) s) (hk_entries s) = Some x"
    using a(1) by (cases "find (answers hmac h (get_name k) s) (hk_entries s)") (auto simp: find_None_iff)
  show ?thesis
  proof (cases "x = a")
    case True
    with x a have "\<not> hidden_by_hash hmac h (get_name k) s" by (simp add: hidden_by_hash_def)
    then show ?thesis using True b check_answer [OF u', of k'] f x by (simp add: replaced(2) at)
  next
    case False
    then have "h \<notin> set (hostnames (entry_at s x))" using find_named_answer [OF u replaced(1) x] by auto
    with x have "hidden_by_hash hmac h (get_name k) s" by (simp add: hidden_by_hash_def)
    then show ?thesis using False b check_answer [OF u', of k'] check_answer [OF u, of k'] f x by (simp add: replaced(2) at)
  qed
next
  case appended
  let ?a = "length (hk_heap s)"
  have l: "x < ?a" if "x \<in> set (hk_entries s)" for x using wf that by (simp add: hk_wf_def list_all_iff)
  then have e: "entry_at s' x = entry_at s x" if "x \<in> set (hk_entries s)" for x using that by (simp add: appended(2) entry_at_simps)
  have n: "entry_at s' ?a = new_entry [h] (Some k)" by (simp add: appended(2) entry_at_simps)
  then have na: "answers hmac h (get_name k) s' ?a" by (simp add: answers_def new_entry_def hostname_matches_def entry_name_def)
  have u': "usable hmac h s'" using u e n
    by (auto simp: usable_at appended(2) new_entry_def hostname_matches_def)
  have "find (answers hmac h (get_name k) s') (hk_entries s) = find (answers hmac h (get_name k) s) (hk_entries s)"
    by (rule find_cong_on) (simp add: answers_def e)
  then have f: "find (answers hmac h (get_name k) s') (hk_entries s') =
      (case find (answers hmac h (get_name k) s) (hk_entries s) of None \<Rightarrow> Some ?a | Some y \<Rightarrow> Some y)"
    using na by (simp add: appended(2) find_snoc)
  show ?thesis
  proof (cases "find (answers hmac h (get_name k) s) (hk_entries s)")
    case None
    then show ?thesis using b check_answer [OF u', of k'] f n by (simp add: hidden_by_hash_def new_entry_def)
  next
    case (Some x)
    then have "x \<in> set (hk_entries s)" by (auto simp: find_Some_iff)
    moreover have "hidden_by_hash hmac h (get_name k) s"
      using find_named_answer [OF u appended(1) Some] Some by (auto simp: hidden_by_hash_def)
    ultimately show ?thesis using b check_answer [OF u', of k'] check_answer [OF u, of k'] f Some e by simp
  qed
qed

text \<open>What the check of another host depends on.\<close>

lemma matching_cong:
  "\<forall>a \<in> set as. hostnames (entry_at s' a) = hostnames (entry_at s a) \<Longrightarrow> matching hmac s' h as = matching hmac s h as"
  by (induction as) (auto simp: hostname_matches_def)

lemma matching_result:
  "matching hmac s h as = Inr r \<Longrightarrow> x \<in> set r \<Longrightarrow> x \<in> set as \<and> hostname_matches hmac h (entry_at s x) = Inr True"
  by (induction as arbitrary: r) (auto simp: bindR_eq_Inr split: if_splits)

lemma matching_snoc: "hostname_matches hmac h (entry_at s n) = Inr False \<Longrightarrow> matching hmac s h (as @ [n]) = matching hmac s h as"
  by (induction as) auto

lemma find_key_cong: "\<forall>a \<in> set as. entry_at s' a = entry_at s a \<Longrightarrow> find_key s' t as = find_key s t as"
  by (induction as) (auto cong: if_cong)

lemma find_key_result: "find_key s t as = Inr (Some a) \<Longrightarrow> a \<in> set as"
  by (induction as) (auto simp: bindR_eq_Inr split: if_splits)

lemma check_cong:
  assumes "matching hmac s' h (hk_entries s') = matching hmac s h (hk_entries s)"
    and "\<And>r x. matching hmac s h (hk_entries s) = Inr r \<Longrightarrow> x \<in> set r \<Longrightarrow> entry_at s' x = entry_at s x"
  shows "hk_check hmac h k s' = hk_check hmac h k s"
proof (cases "matching hmac s h (hk_entries s)")
  case (Inr r)
  have e: "find_key s' t r = find_key s t r" for t using assms(2) [OF Inr] by (intro find_key_cong) auto
  have "sd_getitem s' \<lparr>sd_hostname = h, sd_entries = r\<rparr> t = sd_getitem s \<lparr>sd_hostname = h, sd_entries = r\<rparr> t" for t
    using assms(2) [OF Inr] find_key_result [of s t r]
    by (cases "find_key s t r") (auto simp: sd_getitem_def e split: option.splits)
  then show ?thesis using Inr assms(1) by (simp add: hk_check_def hk_lookup_def)
qed (use assms(1) in \<open>simp add: hk_check_def hk_lookup_def\<close>)

lemma added_others:
  assumes wf: "hk_wf s" and add: "hk_add h t k s = (Inr (), s')"
    and h: "h2 \<noteq> h" "\<not> startswith h hash_mark"
    and o: "\<forall>a \<in> set (hk_entries s). h \<in> set (hostnames (entry_at s a)) \<longrightarrow> hostname_matches hmac h2 (entry_at s a) = Inr False"
  shows "hk_check hmac h2 k2 s' = hk_check hmac h2 k2 s"
  using add
proof (cases rule: hk_add_cases)
  case (replaced a)
  from find_named_Some [OF replaced(1)] have a: "a \<in> set (hk_entries s)" "h \<in> set (hostnames (entry_at s a))" by auto
  then have l: "a < length (hk_heap s)" using wf by (auto simp: hk_wf_def list_all_iff)
  show ?thesis
  proof (rule check_cong)
    show "matching hmac s' h2 (hk_entries s') = matching hmac s h2 (hk_entries s)"
      unfolding replaced(2) hk_entries_simps by (rule matching_cong) (simp add: entry_at_simps(1) [OF l])
    fix r x assume "matching hmac s h2 (hk_entries s) = Inr r" "x \<in> set r"
    from matching_result [OF this] o a have "x \<noteq> a" by auto
    then show "entry_at s' x = entry_at s x" by (simp add: replaced(2) entry_at_simps(1) [OF l])
  qed
next
  case appended
  have l: "\<forall>x \<in> set (hk_entries s). x < length (hk_heap s)" using wf by (simp add: hk_wf_def list_all_iff)
  have "hostname_matches hmac h2 (entry_at s' (length (hk_heap s))) = Inr False"
    using h by (simp add: appended(2) entry_at_simps new_entry_def hostname_matches_def)
  from matching_snoc [OF this] have "matching hmac s' h2 (hk_entries s') = matching hmac s' h2 (hk_entries s)"
    by (simp add: appended(2))
  also have "\<dots> = matching hmac s h2 (hk_entries s)"
    by (rule matching_cong) (use l in \<open>simp add: appended(2) entry_at_simps\<close>)
  finally show ?thesis
    by (rule check_cong) (use l matching_result in \<open>fastforce simp: appended(2) entry_at_simps\<close>)
qed

text \<open>An entry known by its hash hides a key that is added later; and of two known names in a row the second stays.\<close>

lemma hashed_hides_added:
  assumes "hk_heap s = [e]" "hk_entries s = [0]" "hostname_matches hmac h e = Inr True" "h \<notin> set (hostnames e)"
    "he_key e = Some k0" "get_name k0 = get_name k" "key_bytes k0 = Inr b0" "key_bytes k = Inr b" "b0 \<noteq> b"
  shows "\<exists>s'. hk_add h (get_name k) k s = (Inr (), s') \<and> hk_check hmac h k s' = Inr False"
proof -
  let ?s = "append_entry (new_entry [h] (Some k)) s"
  have "entry_at s 0 = e" using assms(1) by (simp add: entry_at_def)
  moreover from this have "entry_at ?s 0 = e" "entry_at ?s 1 = new_entry [h] (Some k)"
    using assms(1) by (simp_all add: entry_at_def append_entry_def)
  ultimately show ?thesis using assms
    by (simp add: hk_add_def hk_check_def hk_lookup_def sd_getitem_def hostname_matches_def new_entry_def entry_name_def)
qed

lemma prune_skips: "x \<noteq> y \<Longrightarrow> prune_names (\<lambda>_. Inr True) 0 [x, y] = Inr [y]"
  by (simp add: prune_names.simps)

section \<open>Saving and loading\<close>

text \<open>Entries a file can hold: a key without certificate, and names without white space or commas that do not make
  the line look like a comment.\<close>

definition savable :: "backend \<Rightarrow> hostkey_entry \<Rightarrow> bool" where
  "savable be e \<longleftrightarrow>
     he_valid e \<and>
     (case he_key e of None \<Rightarrow> False | Some k \<Rightarrow> pk_public_blob k = None \<and> backend_ok be (pk_numbers k)) \<and>
     list_all (\<lambda>h. list_all (\<lambda>c. \<not> is_space c \<and> c \<noteq> 44) h) (hostnames e) \<and>
     join [44] (hostnames e) \<noteq> [] \<and> hd (join [44] (hostnames e)) \<noteq> 35"

text \<open>An earlier entry that answers to a name of a later one has a key of another type.\<close>

definition separate :: "(bytes \<Rightarrow> bytes \<Rightarrow> bytes) \<Rightarrow> hostkey_entry list \<Rightarrow> bool" where
  "separate hmac es \<longleftrightarrow>
     sorted_wrt (\<lambda>e e'. \<forall>h \<in> set (hostnames e'). \<exists>m. hostname_matches hmac h e = Inr m \<and> (m \<longrightarrow> entry_name e \<noteq> entry_name e')) es"

lemma split_fields_word: "list_all (\<lambda>c. c \<noteq> 32 \<and> c \<noteq> 9) w \<Longrightarrow> split_fields (w @ 32 # r) = w # split_fields r"
  by (induction w) auto

lemma split_fields_last: "list_all (\<lambda>c. c \<noteq> 32 \<and> c \<noteq> 9) w \<Longrightarrow> split_fields w = [w]"
  by (induction w) auto

lemma strip_line: "l \<noteq> [] \<Longrightarrow> \<not> is_space (hd l) \<Longrightarrow> \<not> is_space (last l) \<Longrightarrow> py_strip (l @ [10]) = l"
proof -
  assume l: "l \<noteq> []" "\<not> is_space (hd l)" "\<not> is_space (last l)"
  have d: "dropWhile is_space xs = xs" if "xs \<noteq> []" "\<not> is_space (hd xs)" for xs
    using that by (cases xs) auto
  have "dropWhile is_space (l @ [10]) = l @ [10]" using l by (intro d) auto
  moreover have "dropWhile is_space (rev l) = rev l" using l by (intro d) (auto simp: hd_rev)
  ultimately show ?thesis by (simp add: py_strip_def strip_by_def is_space_def [of 10])
qed

lemma raw_set: "set (b64_raw bs) \<subseteq> insert 61 (b64_char ` {..<64})"
  by (induction bs rule: b64_raw.induct) (auto intro!: imageI)

lemma raw_chars: "b \<in> set (b64_raw bs) \<Longrightarrow> unat b < 128 \<and> unat b \<noteq> 32 \<and> unat b \<noteq> 9 \<and> \<not> is_space (unat b)"
proof -
  have c: "unat (b64_char n) < 128 \<and> unat (b64_char n) \<noteq> 32 \<and> unat (b64_char n) \<noteq> 9 \<and> \<not> is_space (unat (b64_char n))"
    if "n < 64" for n using that by (auto simp: unat_b64_char is_space_def)
  assume "b \<in> set (b64_raw bs)"
  then have "b = 61 \<or> b \<in> b64_char ` {..<64}" using raw_set by blast
  then show ?thesis using c by (auto simp: is_space_def)
qed

lemma base64_text: "key_bytes k = Inr kb \<Longrightarrow> get_base64 k = Inr (ascii (b64_raw kb))"
proof -
  have "(unat b \<noteq> 10) = (b \<noteq> 10)" for b :: byte by (simp add: word_unat_eq_iff)
  then have "filter (\<lambda>c. c \<noteq> 10) (ascii bs) = ascii (filter (\<lambda>b. b \<noteq> 10) bs)" for bs
    by (simp add: ascii_def filter_map comp_def)
  then show "key_bytes k = Inr kb \<Longrightarrow> ?thesis" by (simp add: get_base64_def encodebytes_joined)
qed

lemma raw_decoded: "bindR (utf8_encode (ascii (b64_raw kb))) decodebytes = Inr kb"
proof -
  have "utf8_encode (ascii (b64_raw kb)) = Inr (b64_raw kb)"
    using raw_chars [of _ kb] by (subst utf8_ascii) (auto simp: list_all_iff ascii_def comp_def)
  then show ?thesis by (simp add: decode_raw)
qed

lemma key_name_chars: "backend_ok be k \<Longrightarrow> list_all (\<lambda>c. c \<noteq> 32 \<and> c \<noteq> 9) (numbers_name k)"
  by (cases k) (auto simp: backend_ok_def Let_def ECDSA_CURVES_def make_curve_def rsa_name_def ed25519_name_def)

lemma line_roundtrip:
  assumes "savable be e"
  obtains l where "to_line e = Inr (Some (l @ [10]))" "py_strip (l @ [10]) = l" "l \<noteq> []" "l ! 0 \<noteq> 35" "from_line be l = Inr (Some e)"
proof -
  obtain k where k: "he_key e = Some k" "pk_public_blob k = None" "backend_ok be (pk_numbers k)" "he_valid e"
    using assms by (auto simp: savable_def split: option.splits)
  have be4: "be_bytes 4 n \<noteq> []" for n by (metis length_be_bytes list.size(3) zero_neq_numeral)
  obtain kb where kb: "key_bytes k = Inr kb" "kb \<noteq> []" "from_type_string be (get_name k) kb = Inr k"
    using be4 key_bytes_ok [OF k(3)] key_wire [OF k(3)] from_plain [OF k(3)] k(2) by (auto simp: get_name_def enc_string_def)
  let ?n = "join [44] (hostnames e)" and ?b = "ascii (b64_raw kb)"
  let ?l = "?n @ 32 # get_name k @ 32 # ?b"
  have hn: "list_all (\<lambda>h. list_all (\<lambda>c. \<not> is_space c \<and> c \<noteq> 44) h) (hostnames e)" using assms by (simp add: savable_def)
  have sp: "list_all (\<lambda>c. \<not> is_space c) ?n"
  proof (rule join_chars)
    show "list_all (list_all (\<lambda>c. \<not> is_space c)) (hostnames e)" using hn by (auto elim!: list.pred_mono_strong)
  qed (simp add: is_space_def)
  have nb: "?n \<noteq> []" "hd ?n \<noteq> 35" using assms by (auto simp: savable_def)
  have r: "b64_raw kb \<noteq> []" using kb(2) by (cases kb rule: b64_raw.cases) auto
  have b: "?b \<noteq> []" "\<not> is_space (last ?b)" "list_all (\<lambda>c. c \<noteq> 32 \<and> c \<noteq> 9) ?b"
    using r raw_chars [of "last (b64_raw kb)" kb] raw_chars [of _ kb] by (simp_all add: ascii_def list_all_iff last_map)
  have t: "to_line e = Inr (Some (?l @ [10]))" using k base64_text [OF kb(1)] by (simp add: to_line_def)
  have p: "py_strip (?l @ [10]) = ?l"
  proof (rule strip_line)
    have "hd ?l = hd ?n" using nb(1) by (rule hd_append2)
    moreover have "\<not> is_space (hd ?n)" using sp unfolding list_all_iff by (rule bspec) (rule hd_in_set [OF nb(1)])
    ultimately show "\<not> is_space (hd ?l)" by simp
    show "\<not> is_space (last ?l)" using b by simp
  qed simp
  have "split_on 44 ?n = hostnames e"
  proof (rule split_on_join)
    show "hostnames e \<noteq> []" using nb(1) by auto
    show "\<forall>w \<in> set (hostnames e). 44 \<notin> set w" using hn by (simp add: list_all_iff) blast
  qed
  moreover have sp9: "is_space 32" "is_space 9" by (simp_all add: is_space_def)
  have n9: "list_all (\<lambda>c. c \<noteq> 32 \<and> c \<noteq> 9) ?n"
    using sp by (rule list.pred_mono_strong) (use sp9 in blast)
  have "split_fields ?l = [?n, get_name k, ?b]"
    using split_fields_word [OF n9] split_fields_word [OF key_name_chars [OF k(3)]] split_fields_last [OF b(3)]
    by (simp add: get_name_def)
  ultimately have "from_line be ?l = Inr (Some e)"
    using raw_decoded [of kb] kb(3) k by (simp add: from_line_def new_entry_def)
  with t p nb show thesis using that [of ?l] by (cases ?n) auto
qed

text \<open>The names of a saved entry are not known yet when its line is loaded.\<close>

lemma matching_defined:
  "\<forall>a \<in> set as. \<exists>m. hostname_matches hmac h (entry_at s a) = Inr m \<Longrightarrow> \<exists>r. matching hmac s h as = Inr r"
  by (induction as) auto

lemma find_key_none: "\<forall>a \<in> set as. \<exists>n. entry_name (entry_at s a) = Inr n \<and> n \<noteq> t \<Longrightarrow> find_key s t as = Inr None"
  by (induction as) auto

lemma unknown_name:
  assumes "\<forall>e \<in> set (table s). \<exists>m. hostname_matches hmac h e = Inr m \<and> (m \<longrightarrow> entry_name e \<noteq> Inr (get_name k))"
    and "\<forall>e \<in> set (table s). he_key e \<noteq> None"
  shows "hk_check hmac h k s = Inr False"
proof -
  obtain r where r: "matching hmac s h (hk_entries s) = Inr r"
    using matching_defined [of "hk_entries s" hmac h s] assms(1) by (auto simp: table_def)
  have "find_key s (get_name k) r = Inr None"
  proof (rule find_key_none, rule ballI)
    fix a assume "a \<in> set r"
    from matching_result [OF r this] have a: "entry_at s a \<in> set (table s)" "hostname_matches hmac h (entry_at s a) = Inr True"
      by (auto simp: table_def)
    then have "entry_name (entry_at s a) \<noteq> Inr (get_name k)" using assms(1) by force
    moreover have "he_key (entry_at s a) \<noteq> None" using assms(2) a(1) by blast
    ultimately show "\<exists>n. entry_name (entry_at s a) = Inr n \<and> n \<noteq> get_name k" by (auto simp: entry_name_def)
  qed
  with r show ?thesis by (simp add: hk_check_def hk_lookup_def sd_getitem_def)
qed

lemma prune_nothing: "\<forall>h \<in> set names. known h = Inr False \<Longrightarrow> prune_names known i names = Inr names"
proof (induction known i names rule: prune_names.induct)
  case (1 known i names)
  show ?case
  proof (cases "i < length names")
    case True
    then have "known (names ! i) = Inr False" using 1(2) by simp
    from 1(1) [OF True this] 1(2) True this show ?thesis by (subst prune_names.simps) simp
  qed (simp add: prune_names.simps)
qed

lemma table_append: "hk_wf s \<Longrightarrow> table (append_entry e s) = table s @ [e]"
  by (auto simp: table_def hk_wf_def list_all_iff entry_at_simps)

lemma load_saved:
  "hk_wf s0 \<Longrightarrow> list_all (savable be) es \<Longrightarrow> \<forall>e \<in> set (table s0). he_key e \<noteq> None \<Longrightarrow> separate hmac (table s0 @ es) \<Longrightarrow>
     \<exists>ls s'. save_lines es = Inr ls \<and> hk_load be hmac ls s0 = (Inr (), s') \<and> table s' = table s0 @ es"
proof (induction es arbitrary: s0)
  case (Cons e es)
  have se: "savable be e" using Cons.prems(2) by simp
  obtain l where l: "to_line e = Inr (Some (l @ [10]))" "py_strip (l @ [10]) = l" "l \<noteq> []" "l ! 0 \<noteq> 35" "from_line be l = Inr (Some e)"
    by (rule line_roundtrip [OF se])
  obtain k where k: "he_key e = Some k" using se by (auto simp: savable_def split: option.splits)
  have ne: "hostnames e \<noteq> []" using se by (auto simp: savable_def)
  have "hk_check hmac h k s0 = Inr False" if "h \<in> set (hostnames e)" for h
    by (rule unknown_name) (use Cons.prems(3,4) that k in \<open>auto simp: separate_def sorted_wrt_append entry_name_def\<close>)
  then have p: "prune_names (\<lambda>h. hk_check hmac h k s0) 0 (hostnames e) = Inr (hostnames e)"
    by (intro prune_nothing) auto
  let ?s1 = "append_entry e s0"
  have ll: "load_line be hmac (l @ [10]) s0 = (Inr (), ?s1)"
    using l p ne k by (simp add: load_line_def Let_def)
  have "\<exists>ls s'. save_lines es = Inr ls \<and> hk_load be hmac ls ?s1 = (Inr (), s') \<and> table s' = table ?s1 @ es"
    using Cons.prems k by (intro Cons.IH) (auto simp: hk_wf_ops table_append)
  then obtain ls s' where "save_lines es = Inr ls" "hk_load be hmac ls ?s1 = (Inr (), s')" "table s' = table ?s1 @ es" by blast
  with l(1) ll show ?case
    by (intro exI [of _ "(l @ [10]) # ls"] exI [of _ s']) (simp add: bindS_def table_append [OF Cons.prems(1)])
qed (simp add: retS_def)

section \<open>Properties\<close>

text \<open>C24. Host keys survive the file: for a table whose entries hold plain keys the library accepts (no certificates) and whose
  names have no white space or commas and do not look like a comment (\<open>savable\<close>), in which an earlier entry that answers
  to a name of a later one, written out or by its hash, has a key of another type (\<open>separate\<close>), saving succeeds, and
  loading the lines into an empty table succeeds and gives the same entries in the same order, names, keys and all. An
  entry with several names is one line of the file and one entry again after loading: it is not split, which the
  documentation of \<^verbatim>\<open>save\<close> says of combined lines.\<close>

theorem host_keys_file_roundtrip:
  assumes "list_all (savable be) (table s)" "separate hmac (table s)"
  shows "\<exists>ls s'. hk_save s = Inr ls \<and> hk_load be hmac ls empty_hostkeys = (Inr (), s') \<and> table s' = table s"
  using load_saved [of empty_hostkeys be "table s" hmac] assms hk_wf_ops(1)
  by (simp add: hk_save_def table_def [of empty_hostkeys] empty_hostkeys_def [THEN arg_cong [of _ _ hk_entries]])

text \<open>C23. Adding a host key takes effect for that host alone. After \<^verbatim>\<open>add\<close> a key of that type checks for the host exactly if its
  bytes are those of the new key, unless the first entry of the type that answers for the host is known by a hashed name
  only (\<open>hidden_by_hash\<close>): then the new key is hidden, and the check of any key of the type has the outcome it had before.
  The check of any other host, as long as it shares no entry with the first, has the outcome it had before, errors
  included. The entries of the table have keys and hashed names that can be compared (\<open>usable\<close>), and the host is not
  itself given by a hashed name.\<close>

theorem host_key_added:
  assumes "hk_wf s" "usable hmac h s" "hk_add h (get_name k) k s = (Inr (), s')"
    and "key_bytes k = Inr b" "key_bytes k1 = Inr b1" "get_name k1 = get_name k"
    and "h2 \<noteq> h" "\<not> startswith h hash_mark"
    and "\<forall>a \<in> set (hk_entries s). h \<in> set (hostnames (entry_at s a)) \<longrightarrow> hostname_matches hmac h2 (entry_at s a) = Inr False"
  shows "hk_check hmac h k1 s' = (if hidden_by_hash hmac h (get_name k) s then hk_check hmac h k1 s else Inr (b = b1)) \<and>
     hk_check hmac h2 k2 s' = hk_check hmac h2 k2 s"
  using added_check [OF assms(1-6)] added_others [OF assms(1,3,7-9)] by blast

definition sample_key :: "nat \<Rightarrow> pkey" where
  "sample_key n = \<lparr>pk_numbers = Ed25519 (replicate 32 (of_nat n)), pk_public_blob = None\<rparr>"

lemma sample_key_ok: "backend_ok be (pk_numbers (sample_key n))" "pk_public_blob (sample_key n) = None" "get_name (sample_key n) = ed25519_name"
  by (simp_all add: sample_key_def backend_ok_def get_name_def)

definition sample_table :: hostkeys where
  "sample_table = \<lparr>hk_heap = [new_entry [[97], [98]] (Some (sample_key 1)), new_entry [[99]] (Some (sample_key 2))], hk_entries = [0, 1]\<rparr>"

lemma sample_entries: "table sample_table = [new_entry [[97], [98]] (Some (sample_key 1)), new_entry [[99]] (Some (sample_key 2))]"
  by (simp add: table_def sample_table_def entry_at_def)

lemma sample_matches: "hash_mark = [124, 49, 124]"
  "hostname_matches hmac h (new_entry [[97], [98]] k) = Inr (h = [97] \<or> h = [98])"
  "hostname_matches hmac h (new_entry [[99]] k) = Inr (h = [99])"
  by (auto simp: hash_mark_def hostname_matches_def new_entry_def)

theorem host_keys_file_roundtrip_witness:
  "\<exists>ls s'. hk_save sample_table = Inr ls \<and>
     hk_load \<lparr>rsa_accepts = (\<lambda>e n. False), rsa_key_size = (\<lambda>n. 0), ec_point = (\<lambda>l b. None)\<rparr> (\<lambda>k m. []) ls empty_hostkeys = (Inr (), s') \<and>
     table s' = table sample_table"
proof (rule host_keys_file_roundtrip)
  show "list_all (savable \<lparr>rsa_accepts = (\<lambda>e n. False), rsa_key_size = (\<lambda>n. 0), ec_point = (\<lambda>l b. None)\<rparr>) (table sample_table)"
    by (simp add: sample_entries savable_def new_entry_def sample_key_ok is_space_def)
  show "separate (\<lambda>k m. []) (table sample_table)"
    by (simp add: sample_entries separate_def sample_matches) (simp add: new_entry_def)
qed

theorem host_key_added_witness:
  "\<exists>s'. hk_add [97] ed25519_name (sample_key 3) sample_table = (Inr (), s') \<and>
     hk_check (\<lambda>k m. []) [97] (sample_key 3) s' = Inr True \<and>
     hk_check (\<lambda>k m. []) [99] (sample_key 2) s' = hk_check (\<lambda>k m. []) [99] (sample_key 2) sample_table"
proof -
  have at: "entry_at sample_table 0 = new_entry [[97], [98]] (Some (sample_key 1))" "entry_at sample_table 1 = new_entry [[99]] (Some (sample_key 2))"
    by (simp_all add: entry_at_def sample_table_def)
  have e: "hk_entries sample_table = [0, 1]" by (simp add: sample_table_def)
  have wf: "hk_wf sample_table" by (simp add: hk_wf_def sample_table_def)
  have p: "usable (\<lambda>k m. []) [97] sample_table"
    by (simp add: usable_def sample_entries sample_matches) (simp add: new_entry_def)
  have h: "\<not> hidden_by_hash (\<lambda>k m. []) [97] ed25519_name sample_table"
    by (simp add: hidden_by_hash_def answers_def e at sample_matches) (simp add: new_entry_def entry_name_def sample_key_ok)
  have a: "hk_add [97] (get_name (sample_key 3)) (sample_key 3) sample_table = (Inr (), set_key 0 (sample_key 3) sample_table)"
    by (simp add: hk_add_def e at) (simp add: new_entry_def entry_name_def sample_key_ok)
  obtain b where b: "key_bytes (sample_key 3) = Inr b" using key_bytes_ok [OF sample_key_ok(1)] by blast
  have o: "\<forall>x \<in> set (hk_entries sample_table). [97] \<in> set (hostnames (entry_at sample_table x)) \<longrightarrow>
      hostname_matches (\<lambda>k m. []) [99] (entry_at sample_table x) = Inr False"
    using at by (simp add: e sample_matches) (simp add: new_entry_def)
  from host_key_added [OF wf p a b b refl _ _ o] a h show ?thesis by (simp add: sample_key_ok sample_matches(1))
qed

end
