(* ===== verification/Ssh_Kex.thy ===== *)
theory Ssh_Kex
  imports Ssh_Common Public_Keys
begin

text \<open>
  Key exchange negotiation of \<^verbatim>\<open>paramiko/transport.py\<close>: the preferences of a transport, the KEXINIT message it
  announces, and what each side chooses from the other's. The record \<open>kex\<close> is the part of a transport these methods
  use. The exchange itself (\<^verbatim>\<open>kex_engine\<close>) is named by its algorithm; the random cookie is an argument.
\<close>

section \<open>Tables\<close>

definition PREFERRED_CIPHERS :: "ustr list" where
  "PREFERRED_CIPHERS = map lit [''aes128-ctr'', ''aes192-ctr'', ''aes256-ctr'', ''aes128-cbc'', ''aes192-cbc'',
     ''aes256-cbc'', ''3des-cbc'', ''aes128-gcm@openssh.com'', ''aes256-gcm@openssh.com'']"

definition PREFERRED_MACS :: "ustr list" where
  "PREFERRED_MACS = map lit [''hmac-sha2-256'', ''hmac-sha2-512'', ''hmac-sha2-256-etm@openssh.com'',
     ''hmac-sha2-512-etm@openssh.com'', ''hmac-sha1'', ''hmac-md5'', ''hmac-sha1-96'', ''hmac-md5-96'']"

definition PREFERRED_KEYS :: "ustr list" where
  "PREFERRED_KEYS = map lit [''ssh-ed25519'', ''ecdsa-sha2-nistp256'', ''ecdsa-sha2-nistp384'',
     ''ecdsa-sha2-nistp521'', ''rsa-sha2-512'', ''rsa-sha2-256'']"

definition PREFERRED_PUBKEYS :: "ustr list" where
  "PREFERRED_PUBKEYS = map lit [''ssh-ed25519'', ''ecdsa-sha2-nistp256'', ''ecdsa-sha2-nistp384'',
     ''ecdsa-sha2-nistp521'', ''rsa-sha2-512'', ''rsa-sha2-256'']"

definition PREFERRED_KEX :: "bool \<Rightarrow> ustr list" where
  "PREFERRED_KEX curve25519 =
     (if curve25519 then [lit ''curve25519-sha256@libssh.org''] else []) @
     map lit [''ecdh-sha2-nistp256'', ''ecdh-sha2-nistp384'', ''ecdh-sha2-nistp521'', ''diffie-hellman-group16-sha512'',
       ''diffie-hellman-group-exchange-sha256'', ''diffie-hellman-group14-sha256'']"

definition PREFERRED_COMPRESSION :: "ustr list" where
  "PREFERRED_COMPRESSION = [lit ''none'']"

definition KEX_INFO :: "bool \<Rightarrow> ustr list" where
  "KEX_INFO curve25519 =
     map lit [''diffie-hellman-group-exchange-sha256'', ''diffie-hellman-group14-sha256'', ''diffie-hellman-group16-sha512'',
       ''ecdh-sha2-nistp256'', ''ecdh-sha2-nistp384'', ''ecdh-sha2-nistp521''] @
     (if curve25519 then [lit ''curve25519-sha256@libssh.org''] else [])"

section \<open>The state\<close>

datatype algorithm_type = Ciphers | Macs | Keys | Pubkeys | Kex | Compression

record kex =
  server_mode :: bool
  curve25519_available :: bool
  preferred :: "algorithm_type \<Rightarrow> ustr list"
  disabled_algorithms :: "algorithm_type \<Rightarrow> ustr list"
  has_modulus_pack :: bool
  server_key_dict :: "(ustr \<times> pkey) list"
  advertise_strict_kex :: bool
  agreed_on_strict_kex :: bool
  kex_done_once :: bool
  in_kex :: bool
  clear_to_send :: bool
  local_kex_init :: "bytes option"
  remote_kex_init :: "bytes option"
  remote_ext_info :: "ustr option"
  kex_engine :: "ustr option"
  host_key_type :: "ustr option"
  local_cipher :: ustr
  remote_cipher :: ustr
  local_mac :: ustr
  remote_mac :: ustr
  local_compression :: ustr
  remote_compression :: ustr

definition default_preferences :: "bool \<Rightarrow> algorithm_type \<Rightarrow> ustr list" where
  "default_preferences curve25519 ty =
     (case ty of Ciphers \<Rightarrow> PREFERRED_CIPHERS | Macs \<Rightarrow> PREFERRED_MACS | Keys \<Rightarrow> PREFERRED_KEYS
      | Pubkeys \<Rightarrow> PREFERRED_PUBKEYS | Kex \<Rightarrow> PREFERRED_KEX curve25519 | Compression \<Rightarrow> PREFERRED_COMPRESSION)"

definition new_kex :: "bool \<Rightarrow> (algorithm_type \<Rightarrow> ustr list) \<Rightarrow> bool \<Rightarrow> kex" where
  "new_kex curve25519 disabled strict =
     \<lparr>server_mode = False, curve25519_available = curve25519, preferred = default_preferences curve25519,
      disabled_algorithms = disabled, has_modulus_pack = False, server_key_dict = [], advertise_strict_kex = strict,
      agreed_on_strict_kex = False, kex_done_once = False, in_kex = False, clear_to_send = False, local_kex_init = None,
      remote_kex_init = None, remote_ext_info = None, kex_engine = None, host_key_type = None, local_cipher = [],
      remote_cipher = [], local_mac = [], remote_mac = [], local_compression = [], remote_compression = []\<rparr>"

definition filter_algorithm :: "algorithm_type \<Rightarrow> kex \<Rightarrow> ustr list" where
  "filter_algorithm ty t = filter (\<lambda>x. x \<notin> set (disabled_algorithms t ty)) (preferred t ty)"

text \<open>\<^verbatim>\<open>preferred_keys\<close>: the names, and then their certificate variants.\<close>

definition preferred_keys :: "kex \<Rightarrow> ustr list" where
  "preferred_keys t = (let f = filter_algorithm Keys t in f @ map (\<lambda>x. x @ cert_suffix) f)"

definition is_rsa :: "pkey \<Rightarrow> bool" where
  "is_rsa k = (case pk_numbers k of Rsa e n \<Rightarrow> True | _ \<Rightarrow> False)"

definition add_server_key :: "pkey \<Rightarrow> kex \<Rightarrow> kex" where
  "add_server_key key t =
     (let d = dict_put (get_name key) key (server_key_dict t)
      in t\<lparr>server_key_dict :=
            (if is_rsa key then dict_put (lit ''rsa-sha2-512'') key (dict_put (lit ''rsa-sha2-256'') key d) else d)\<rparr>)"

definition get_server_key :: "kex \<Rightarrow> pkey option" where
  "get_server_key t = (case host_key_type t of None \<Rightarrow> None | Some h \<Rightarrow> map_of (server_key_dict t) h)"

text \<open>\<^verbatim>\<open>SecurityOptions._set\<close> for the key exchange algorithms.\<close>

definition set_kex_option :: "ustr list \<Rightarrow> (kex, unit) sm" where
  "set_kex_option x = (\<lambda>t.
     if list_all (\<lambda>n. n \<in> set (KEX_INFO (curve25519_available t))) x
     then (Inr (), t\<lparr>preferred := (preferred t)(Kex := x)\<rparr>)
     else (Inl (ValueError ''unknown cipher''), t))"

section \<open>Announcing\<close>

definition gex_prefix :: ustr where "gex_prefix = lit ''diffie-hellman-group-exchange-sha''"

definition strict_mark :: "bool \<Rightarrow> ustr" where
  "strict_mark server = lit ''kex-strict-'' @ lit (if server then ''s'' else ''c'') @ lit ''-v00@openssh.com''"

definition available_server_keys :: "kex \<Rightarrow> ustr list" where
  "available_server_keys t = filter (\<lambda>x. x \<in> set (map fst (server_key_dict t))) (preferred_keys t)"

definition announced_kex :: "kex \<Rightarrow> ustr list" where
  "announced_kex t =
     filter_algorithm Kex t @ (if server_mode t then [] else [lit ''ext-info-c'']) @
     (if advertise_strict_kex t then [strict_mark (server_mode t)] else [])"

definition announced_keys :: "kex \<Rightarrow> ustr list" where
  "announced_keys t = (if server_mode t then available_server_keys t else preferred_keys t)"

text \<open>Without a file of primes a server takes group exchange out of its preferences.\<close>

definition drop_group_exchange :: "(kex, unit) sm" where
  "drop_group_exchange = (\<lambda>t.
     if server_mode t \<and> \<not> has_modulus_pack t \<and> list_ex (\<lambda>k. startswith k gex_prefix) (filter_algorithm Kex t)
     then set_kex_option (filter (\<lambda>k. \<not> startswith k gex_prefix) (preferred t Kex)) t
     else (Inr (), t))"

definition kexinit_message :: "bytes \<Rightarrow> ustr list \<Rightarrow> ustr list \<Rightarrow> kex \<Rightarrow> (message, unit) sm" where
  "kexinit_message cookie kex_algos keys t =
     bindS (add_byte [MSG_KEXINIT]) (\<lambda>_. bindS (add_bytes cookie) (\<lambda>_.
     bindS (add_list kex_algos) (\<lambda>_. bindS (add_list keys) (\<lambda>_.
     bindS (add_list (filter_algorithm Ciphers t)) (\<lambda>_. bindS (add_list (filter_algorithm Ciphers t)) (\<lambda>_.
     bindS (add_list (filter_algorithm Macs t)) (\<lambda>_. bindS (add_list (filter_algorithm Macs t)) (\<lambda>_.
     bindS (add_list (filter_algorithm Compression t)) (\<lambda>_. bindS (add_list (filter_algorithm Compression t)) (\<lambda>_.
     bindS (add_string []) (\<lambda>_. bindS (add_string []) (\<lambda>_. bindS (add_boolean False) (\<lambda>_. add_int 0)))))))))))))"

definition send_kex_init :: "bytes \<Rightarrow> (kex, bytes) sm" where
  "send_kex_init cookie = (\<lambda>t0.
     let t = t0\<lparr>clear_to_send := False, in_kex := True\<rparr>; kex_algos = announced_kex t
     in bindS drop_group_exchange (\<lambda>_. (\<lambda>t.
          case kexinit_message cookie kex_algos (announced_keys t) t (new_message None) of
            (Inl e, m) \<Rightarrow> (Inl e, t)
          | (Inr _, m) \<Rightarrow> (Inr (asbytes m), t\<lparr>local_kex_init := Some (asbytes m)\<rparr>))) t)"

section \<open>Reading the other side\<close>

record kex_lists =
  kex_algo_list :: "ustr list"
  server_key_algo_list :: "ustr list"
  client_encrypt_algo_list :: "ustr list"
  server_encrypt_algo_list :: "ustr list"
  client_mac_algo_list :: "ustr list"
  server_mac_algo_list :: "ustr list"
  client_compress_algo_list :: "ustr list"
  server_compress_algo_list :: "ustr list"
  client_lang_list :: "ustr list"
  server_lang_list :: "ustr list"
  kex_follows :: bool

definition really_parse_kex_init :: "bool \<Rightarrow> (message, kex_lists) sm" where
  "really_parse_kex_init ignore_first_byte =
     bindS (if ignore_first_byte then bindS get_byte (\<lambda>_. retS ()) else retS ()) (\<lambda>_.
     bindS (get_bytes 16) (\<lambda>_.
     bindS get_list (\<lambda>ka. bindS get_list (\<lambda>ska. bindS get_list (\<lambda>ce. bindS get_list (\<lambda>se.
     bindS get_list (\<lambda>cm. bindS get_list (\<lambda>sm. bindS get_list (\<lambda>cc. bindS get_list (\<lambda>sc.
     bindS get_list (\<lambda>cl. bindS get_list (\<lambda>sl. bindS get_boolean (\<lambda>kf. bindS get_int (\<lambda>_.
       retS \<lparr>kex_algo_list = ka, server_key_algo_list = ska, client_encrypt_algo_list = ce, server_encrypt_algo_list = se,
             client_mac_algo_list = cm, server_mac_algo_list = sm, client_compress_algo_list = cc,
             server_compress_algo_list = sc, client_lang_list = cl, server_lang_list = sl, kex_follows = kf\<rparr>))))))))))))))"

text \<open>Markers that are no algorithms: an extension marker is recorded, a strict marker settles the strict mode, and
  both are popped from the list (from the back, so that the places of the others stay).\<close>

definition is_ext_mark :: "ustr \<Rightarrow> bool" where "is_ext_mark a = startswith a (lit ''ext-info-'')"
definition is_strict_mark :: "ustr \<Rightarrow> bool" where "is_strict_mark a = startswith a (lit ''kex-strict-'')"

definition note_mark :: "ustr \<Rightarrow> kex \<Rightarrow> kex" where
  "note_mark algo t =
     (if is_ext_mark algo then t\<lparr>remote_ext_info := Some algo\<rparr>
      else if is_strict_mark algo
      then t\<lparr>agreed_on_strict_kex := (algo = strict_mark (\<not> server_mode t) \<and> advertise_strict_kex t)\<rparr>
      else t)"

definition strip_marks :: "ustr list \<Rightarrow> ustr list" where
  "strip_marks algos = filter (\<lambda>a. \<not> is_ext_mark a \<and> \<not> is_strict_mark a) algos"

text \<open>A server goes by the order of the client's list, a client by its own.\<close>

definition agreed_list :: "bool \<Rightarrow> ustr list \<Rightarrow> ustr list \<Rightarrow> ustr list" where
  "agreed_list server mine theirs =
     (if server then filter (\<lambda>x. x \<in> set mine) theirs else filter (\<lambda>x. x \<in> set theirs) mine)"

definition first_agreed :: "string \<Rightarrow> ustr list \<Rightarrow> ustr res" where
  "first_agreed what xs = (case xs of [] \<Rightarrow> Inl (SSHException what) | x # _ \<Rightarrow> Inr x)"

definition set_pair :: "string \<Rightarrow> ustr list \<Rightarrow> ustr list \<Rightarrow> (ustr \<Rightarrow> ustr \<Rightarrow> kex \<Rightarrow> kex) \<Rightarrow> (kex, unit) sm" where
  "set_pair what locals remotes f =
     bindS (liftR (first_agreed what locals)) (\<lambda>l. bindS (liftR (first_agreed what remotes)) (\<lambda>r. modS (f l r)))"

definition choose_kex :: "ustr list \<Rightarrow> (kex, unit) sm" where
  "choose_kex algos = (\<lambda>t.
     bindS (liftR (first_agreed ''no acceptable kex algorithm'' (agreed_list (server_mode t) (filter_algorithm Kex t) algos)))
       (\<lambda>k. if k \<in> set (KEX_INFO (curve25519_available t)) then modS (\<lambda>t. t\<lparr>kex_engine := Some k\<rparr>) else raiseS KeyError) t)"

definition choose_host_key :: "ustr list \<Rightarrow> (kex, unit) sm" where
  "choose_host_key algos = (\<lambda>t.
     bindS (liftR (first_agreed ''no acceptable host key''
         (agreed_list (server_mode t) (if server_mode t then available_server_keys t else preferred_keys t) algos)))
       (\<lambda>k. bindS (modS (\<lambda>t. t\<lparr>host_key_type := Some k\<rparr>)) (\<lambda>_. (\<lambda>t.
          if server_mode t \<and> get_server_key t = None
          then (Inl (SSHException ''can't match requested host key type''), t) else (Inr (), t)))) t)"

text \<open>The lists of the two directions: what a server sends is what the client receives.\<close>

definition choose_pair :: "string \<Rightarrow> algorithm_type \<Rightarrow> ustr list \<Rightarrow> ustr list \<Rightarrow> (ustr \<Rightarrow> ustr \<Rightarrow> kex \<Rightarrow> kex) \<Rightarrow> (kex, unit) sm" where
  "choose_pair what ty from_client from_server f = (\<lambda>t.
     let mine = filter_algorithm ty t; server = server_mode t
     in set_pair what (agreed_list server mine (if server then from_server else from_client))
          (agreed_list server mine (if server then from_client else from_server)) f t)"

definition choose_algorithms :: "kex_lists \<Rightarrow> (kex, unit) sm" where
  "choose_algorithms ls =
     bindS (choose_kex (strip_marks (kex_algo_list ls))) (\<lambda>_.
     bindS (choose_host_key (server_key_algo_list ls)) (\<lambda>_.
     bindS (choose_pair ''no acceptable ciphers'' Ciphers (client_encrypt_algo_list ls) (server_encrypt_algo_list ls)
              (\<lambda>l r t. t\<lparr>local_cipher := l, remote_cipher := r\<rparr>)) (\<lambda>_.
     bindS (choose_pair ''no acceptable macs'' Macs (client_mac_algo_list ls) (server_mac_algo_list ls)
              (\<lambda>l r t. t\<lparr>local_mac := l, remote_mac := r\<rparr>)) (\<lambda>_.
       choose_pair ''no acceptable compression'' Compression (client_compress_algo_list ls) (server_compress_algo_list ls)
              (\<lambda>l r t. t\<lparr>local_compression := l, remote_compression := r\<rparr>)))))"

definition negotiate :: "int \<Rightarrow> kex_lists \<Rightarrow> (kex, unit) sm" where
  "negotiate seqno ls =
     bindS (modS (\<lambda>t. t\<lparr>remote_ext_info := None\<rparr>)) (\<lambda>_.
     bindS (modS (fold note_mark (kex_algo_list ls))) (\<lambda>_. (\<lambda>t.
       if agreed_on_strict_kex t \<and> \<not> kex_done_once t \<and> seqno \<noteq> 0
       then (Inl (SSHException ''In strict-kex mode, but KEXINIT was not the first packet!''), t)
       else choose_algorithms ls t)))"

definition parse_kex_init :: "int \<Rightarrow> message \<Rightarrow> (kex, unit) sm" where
  "parse_kex_init seqno m = (\<lambda>t.
     case really_parse_kex_init False m of
       (Inl e, m') \<Rightarrow> (Inl e, t)
     | (Inr ls, m') \<Rightarrow>
         bindS (negotiate seqno ls) (\<lambda>_. modS (\<lambda>t. t\<lparr>remote_kex_init := Some (MSG_KEXINIT # fst (get_so_far m'))\<rparr>)) t)"

text \<open>\<^verbatim>\<open>_negotiate_keys\<close>: gives the own KEXINIT to send, when it had not been sent.\<close>

definition negotiate_keys :: "bytes \<Rightarrow> int \<Rightarrow> message \<Rightarrow> (kex, bytes option) sm" where
  "negotiate_keys cookie seqno m = (\<lambda>t0.
     let t = t0\<lparr>clear_to_send := False\<rparr>
     in bindS (if local_kex_init t = None then bindS (send_kex_init cookie) (\<lambda>b. retS (Some b)) else retS None)
          (\<lambda>out. bindS (parse_kex_init seqno m) (\<lambda>_. retS out)) t)"

end
