(* ===== verification/Ssh_Kex_Agree.thy ===== *)
theory Ssh_Kex_Agree
  imports Ssh_Kex
begin

text \<open>
  Two transports negotiate: a client and a server read each other's KEXINIT. Shown: they come to the same result, up
  to the exchange of the two directions, or fail for the same reason. The proof runs both sides in step.
\<close>

section \<open>The announcement on the wire\<close>

text \<open>An empty list is read back as a list of one empty name.\<close>

definition wire_list :: "ustr list \<Rightarrow> ustr list" where
  "wire_list l = (if l = [] then [[]] else l)"

definition names_ok :: "ustr list \<Rightarrow> bool" where
  "names_ok l \<longleftrightarrow> list_all (\<lambda>x. x \<noteq> [] \<and> list_all (\<lambda>c. c < 128 \<and> c \<noteq> 44) x) l \<and> length (join [44] l) < 2 ^ 32"

lemma names_ok_join: "names_ok l \<Longrightarrow> \<exists>b. utf8_encode (join [44] l) = Inr b \<and> ok_string b"
proof -
  assume l: "names_ok l"
  have "list_all (\<lambda>c. c < 128) (join [44] l)"
    using l by (intro join_chars) (auto simp: names_ok_def list_all_iff)
  with l show ?thesis by (intro ascii_text) (auto simp: names_ok_def)
qed

lemma wire_list_ok: "names_ok l \<Longrightarrow> ok_field (FList (wire_list l))"
  using names_ok_join [of l] by (auto simp: wire_list_def ok_list_def names_ok_def list_all_iff)

lemma add_list_wire: "add_list l = put_field (FList (wire_list l))"
  by (simp add: add_list_def wire_list_def)

definition announcement :: "ustr list \<Rightarrow> ustr list \<Rightarrow> kex \<Rightarrow> field list" where
  "announcement ka keys t =
     map (\<lambda>l. FList (wire_list l)) [ka, keys, filter_algorithm Ciphers t, filter_algorithm Ciphers t, filter_algorithm Macs t,
       filter_algorithm Macs t, filter_algorithm Compression t, filter_algorithm Compression t] @
     [FString [], FString [], FBool False, FInt 0]"

lemma kexinit_fields:
  "kexinit_message cookie ka keys t =
     bindS (add_byte [MSG_KEXINIT]) (\<lambda>_. bindS (add_bytes cookie) (\<lambda>_. put_fields (announcement ka keys t)))"
  by (simp add: kexinit_message_def announcement_def add_list_wire del: put_field.simps(9))
     (simp add: bindS_ret)

lemma announcement_ok:
  assumes "names_ok ka" "names_ok keys" "\<And>ty. names_ok (filter_algorithm ty t)"
  shows "list_all ok_field (announcement ka keys t)"
  using assms by (auto simp: announcement_def ok_string_def simp del: ok_field.simps(9) intro!: wire_list_ok)

definition wire_of :: "bytes \<Rightarrow> field list \<Rightarrow> bytes" where
  "wire_of cookie fs = MSG_KEXINIT # cookie @ concat (map enc_field fs)"

lemma kexinit_sent:
  "list_all ok_field (announcement ka keys t) \<Longrightarrow>
     \<exists>m. kexinit_message cookie ka keys t (new_message None) = (Inr (), m) \<and> asbytes m = wire_of cookie (announcement ka keys t)"
proof -
  assume ok: "list_all ok_field (announcement ka keys t)"
  let ?m = "append_bytes (append_bytes (new_message None) [MSG_KEXINIT]) cookie"
  have "at_end ?m" by simp
  from put_fields_end [OF ok this] show ?thesis
    by (simp add: kexinit_fields bindS_def add_byte_def add_bytes_def modS_def stream_write_end)
       (simp add: asbytes_def append_bytes_def new_message_def wire_of_def)
qed

text \<open>What the other side parses.\<close>

definition announced_lists :: "ustr list \<Rightarrow> ustr list \<Rightarrow> kex \<Rightarrow> kex_lists" where
  "announced_lists ka keys t =
     (let c = wire_list (filter_algorithm Ciphers t); m = wire_list (filter_algorithm Macs t);
          z = wire_list (filter_algorithm Compression t)
      in \<lparr>kex_algo_list = wire_list ka, server_key_algo_list = wire_list keys, client_encrypt_algo_list = c,
          server_encrypt_algo_list = c, client_mac_algo_list = m, server_mac_algo_list = m, client_compress_algo_list = z,
          server_compress_algo_list = z, client_lang_list = [[]], server_lang_list = [[]], kex_follows = False\<rparr>)"

lemma enc_empty: "enc_string [] = enc_field (FList [[]])"
proof -
  have "enc_field (FList [[]]) = enc_field (FText [])" by (simp add: enc_field_def w_list.enc'_def)
  also have "\<dots> = enc_string (utf8_of [])" using enc_text [of "[]"] by (simp add: utf8_encode_def ok_string_def)
  finally show ?thesis by (simp add: utf8_of_def utf8_encode_def)
qed

lemma ok_empty: "ok_field (FList [[]])"
  by (simp add: ok_list_def utf8_encode_def ok_string_def)

text \<open>\<open>unread B r m\<close>: the stream over \<open>B\<close> has \<open>r\<close> left to read.\<close>

definition unread :: "bytes \<Rightarrow> bytes \<Rightarrow> message \<Rightarrow> bool" where
  "unread B r m \<longleftrightarrow> mbuf m = B \<and> get_remainder m = r"

lemma unread_advance: "unread B (b @ r) m \<Longrightarrow> unread B r (advance m (length b))"
  by (simp add: unread_def) (simp add: advance_def)

lemma unread_list:
  "unread B (enc_field (FList l) @ r) m \<Longrightarrow> ok_field (FList l) \<Longrightarrow> (\<And>m'. unread B r m' \<Longrightarrow> Q (f l m')) \<Longrightarrow> Q (bindS get_list f m)"
  using f_list.get_prefix [of l m r] unread_advance [of B "enc_field (FList l)" r m] by (simp add: unread_def bindS_def enc_field_def)

lemma unread_bytes:
  "unread B (b @ r) m \<Longrightarrow> length b = n \<Longrightarrow> (\<And>m'. unread B r m' \<Longrightarrow> Q (f b m')) \<Longrightarrow> Q (bindS (get_bytes n) f m)"
  using get_bytes_prefix [of m b r n] unread_advance [of B b r m] by (simp add: unread_def bindS_def)

lemma unread_false:
  "unread B ([0] @ r) m \<Longrightarrow> (\<And>m'. unread B r m' \<Longrightarrow> Q (f False m')) \<Longrightarrow> Q (bindS get_boolean f m)"
  using f_boolean.get_prefix [where x = False and m = m and r = r] unread_advance [of B "[0]" r m] by (simp add: unread_def bindS_def)

lemma unread_zero:
  "unread B (be_bytes 4 0 @ r) m \<Longrightarrow> (\<And>m'. unread B r m' \<Longrightarrow> Q (f 0 m')) \<Longrightarrow> Q (bindS get_int f m)"
  using f_int.get_prefix [of 0 m r] unread_advance [of B "be_bytes 4 0" r m] by (simp add: unread_def bindS_def)

lemma so_far_all: "unread B [] m \<Longrightarrow> fst (get_so_far m) = B"
  by (auto simp: unread_def get_so_far_def stream_read_def rewind_def get_remainder_def Let_def)

lemma announcement_read:
  assumes "list_all ok_field (announcement ka keys t)" "length cookie = 16"
  shows "\<exists>m'. really_parse_kex_init False (new_message (Some (tl (wire_of cookie (announcement ka keys t))))) =
       (Inr (announced_lists ka keys t), m') \<and> fst (get_so_far m') = tl (wire_of cookie (announcement ka keys t))"
proof -
  let ?B = "tl (wire_of cookie (announcement ka keys t))"
  let ?m = "new_message (Some ?B)"
  let ?F = "\<lambda>l. enc_field (FList l)"
  let ?c = "wire_list (filter_algorithm Ciphers t)" and ?a = "wire_list (filter_algorithm Macs t)"
    and ?z = "wire_list (filter_algorithm Compression t)"
  let ?Q = "\<lambda>p. \<exists>m'. p = (Inr (announced_lists ka keys t), m') \<and> unread ?B [] m'"
  have "get_remainder ?m = cookie @ ?F (wire_list ka) @ ?F (wire_list keys) @ ?F ?c @ ?F ?c @ ?F ?a @ ?F ?a @ ?F ?z @ ?F ?z @
      ?F [[]] @ ?F [[]] @ [0] @ be_bytes 4 0 @ []"
    by (simp only: wire_of_def list.sel announcement_def new_message_at enc_empty list.map append.simps concat.simps append_assoc
        append_Nil2 enc_field_simps if_False map_append concat_append)
  then have r: "unread ?B (cookie @ ?F (wire_list ka) @ ?F (wire_list keys) @ ?F ?c @ ?F ?c @ ?F ?a @ ?F ?a @ ?F ?z @ ?F ?z @
      ?F [[]] @ ?F [[]] @ [0] @ be_bytes 4 0 @ []) ?m" by (simp only: unread_def) (simp add: new_message_def)
  have ok: "ok_field (FList (wire_list ka))" "ok_field (FList (wire_list keys))" "ok_field (FList ?c)" "ok_field (FList ?a)" "ok_field (FList ?z)"
    using assms(1) by (simp_all add: announcement_def)
  note step = unread_list [OF _ ok(1)] unread_list [OF _ ok(2)] unread_list [OF _ ok(3)] unread_list [OF _ ok(4)]
    unread_list [OF _ ok(5)] unread_list [OF _ ok_empty]
  have "?Q (really_parse_kex_init False ?m)" unfolding really_parse_kex_init_def if_False bindS_retS announced_lists_def Let_def
    apply (rule unread_bytes [where Q = ?Q, unfolded announced_lists_def Let_def, OF r assms(2)])
    apply (erule step(1), erule step(2), erule step(3), erule step(3), erule step(4), erule step(4), erule step(5), erule step(5),
        erule step(6), erule step(6), erule unread_false, erule unread_zero)
    apply (simp add: retS_def)
    done
  then show ?thesis using so_far_all by blast
qed

section \<open>Running both sides in step\<close>

text \<open>\<open>in_step P m n Q\<close>: from states related by \<open>P\<close>, the client's \<open>m\<close> and the server's \<open>n\<close> either raise the same
  exception or both succeed, in states related by \<open>Q\<close>.\<close>

definition in_step :: "(kex \<Rightarrow> kex \<Rightarrow> bool) \<Rightarrow> (kex, unit) sm \<Rightarrow> (kex, unit) sm \<Rightarrow> (kex \<Rightarrow> kex \<Rightarrow> bool) \<Rightarrow> bool" where
  "in_step P m n Q \<longleftrightarrow>
     (\<forall>c s. P c s \<longrightarrow> fst (m c) = fst (n s) \<and> (fst (m c) = Inr () \<longrightarrow> Q (snd (m c)) (snd (n s))))"

lemma in_step_bind:
  assumes "in_step P m n Q" "in_step Q m' n' R"
  shows "in_step P (bindS m (\<lambda>_. m')) (bindS n (\<lambda>_. n')) R"
  unfolding in_step_def
proof (intro allI impI)
  fix c s assume "P c s"
  with assms(1) have a: "fst (m c) = fst (n s)" "fst (m c) = Inr () \<Longrightarrow> Q (snd (m c)) (snd (n s))" by (auto simp: in_step_def)
  show "fst (bindS m (\<lambda>_. m') c) = fst (bindS n (\<lambda>_. n') s) \<and>
      (fst (bindS m (\<lambda>_. m') c) = Inr () \<longrightarrow> R (snd (bindS m (\<lambda>_. m') c)) (snd (bindS n (\<lambda>_. n') s)))"
  proof (cases "fst (m c)")
    case (Inl e)
    with a(1) show ?thesis by (cases "m c"; cases "n s") (simp add: bindS_def)
  next
    case (Inr u)
    with a assms(2) show ?thesis by (cases "m c"; cases "n s") (auto simp: bindS_def in_step_def)
  qed
qed

text \<open>What a transport keeps during the negotiation.\<close>

definition same_side :: "kex \<Rightarrow> kex \<Rightarrow> bool" where
  "same_side t0 t \<longleftrightarrow>
     server_mode t = server_mode t0 \<and> curve25519_available t = curve25519_available t0 \<and> preferred t = preferred t0 \<and>
     disabled_algorithms t = disabled_algorithms t0 \<and> server_key_dict t = server_key_dict t0 \<and>
     advertise_strict_kex t = advertise_strict_kex t0 \<and> kex_done_once t = kex_done_once t0 \<and>
     local_kex_init t = local_kex_init t0"

lemma same_side_lists:
  "same_side t0 t \<Longrightarrow> filter_algorithm ty t = filter_algorithm ty t0 \<and> preferred_keys t = preferred_keys t0 \<and>
     available_server_keys t = available_server_keys t0"
  by (simp add: same_side_def filter_algorithm_def preferred_keys_def available_server_keys_def)

lemma note_marks_side: "same_side t0 t \<Longrightarrow> same_side t0 (fold note_mark as t)"
  by (induction as arbitrary: t) (simp_all add: note_mark_def same_side_def)

lemma no_empty_name: "[] \<notin> set C \<Longrightarrow> filter (\<lambda>x. x = []) C = []"
  by (simp add: filter_empty_conv) metis

lemma agreed_both: "[] \<notin> set S \<Longrightarrow> [] \<notin> set C \<Longrightarrow> agreed_list True S (wire_list C) = agreed_list False C (wire_list S)"
  by (cases "C = []"; cases "S = []") (auto simp: agreed_list_def wire_list_def no_empty_name)

lemma strip_marks_none: "\<forall>a \<in> set as. \<not> is_ext_mark a \<and> \<not> is_strict_mark a \<Longrightarrow> strip_marks as = as"
  by (simp add: strip_marks_def filter_id_conv)

lemma marks: "is_ext_mark (lit ''ext-info-c'')" "is_strict_mark (strict_mark b)" "\<not> is_ext_mark (strict_mark b)"
  "\<not> is_ext_mark []" "\<not> is_strict_mark []" "\<not> is_strict_mark (lit ''ext-info-c'')"
  by (cases b; simp add: is_ext_mark_def is_strict_mark_def strict_mark_def)+

lemma strip_wire:
  assumes "\<forall>a \<in> set k. \<not> is_ext_mark a \<and> \<not> is_strict_mark a" "\<forall>a \<in> set ms. is_ext_mark a \<or> is_strict_mark a"
  shows "strip_marks (wire_list (k @ ms)) = k \<or> k = [] \<and> strip_marks (wire_list (k @ ms)) = [[]]"
proof (cases "k @ ms = []")
  case True
  then show ?thesis by (simp add: wire_list_def strip_marks_def marks)
next
  case False
  then have "strip_marks (wire_list (k @ ms)) = strip_marks k @ strip_marks ms" by (simp add: wire_list_def strip_marks_def)
  moreover have "strip_marks ms = []" using assms(2) by (auto simp: strip_marks_def filter_empty_conv)
  ultimately show ?thesis using strip_marks_none [OF assms(1)] by simp
qed

lemma agreed_stripped:
  assumes "[] \<notin> set S" "[] \<notin> set C" "C' = C \<or> C = [] \<and> C' = [[]]" "S' = S \<or> S = [] \<and> S' = [[]]"
  shows "agreed_list True S C' = agreed_list False C S'"
  using assms by (auto simp: agreed_list_def no_empty_name)

text \<open>The relations between the two sides after each choice: \<open>c0\<close> and \<open>s0\<close> are the sides as they were when they had
  announced.\<close>

definition sides :: "kex \<Rightarrow> kex \<Rightarrow> kex \<Rightarrow> kex \<Rightarrow> bool" where
  "sides c0 s0 c s \<longleftrightarrow> same_side c0 c \<and> same_side s0 s \<and> \<not> server_mode c0 \<and> server_mode s0"

definition strict_agreed :: "kex \<Rightarrow> kex \<Rightarrow> kex \<Rightarrow> kex \<Rightarrow> bool" where
  "strict_agreed c0 s0 c s \<longleftrightarrow>
     agreed_on_strict_kex c = (advertise_strict_kex c0 \<and> advertise_strict_kex s0) \<and>
     agreed_on_strict_kex s = (advertise_strict_kex c0 \<and> advertise_strict_kex s0) \<and>
     remote_ext_info s = Some (lit ''ext-info-c'')"

definition allowed_by :: "kex \<Rightarrow> kex \<Rightarrow> algorithm_type \<Rightarrow> ustr \<Rightarrow> bool" where
  "allowed_by c0 s0 ty a \<longleftrightarrow> a \<in> set (filter_algorithm ty c0) \<and> a \<in> set (filter_algorithm ty s0)"

definition kex_agreed :: "kex \<Rightarrow> kex \<Rightarrow> kex \<Rightarrow> kex \<Rightarrow> bool" where
  "kex_agreed c0 s0 c s \<longleftrightarrow> kex_engine c = kex_engine s \<and> (\<exists>k. kex_engine c = Some k \<and> allowed_by c0 s0 Kex k)"

definition host_key_agreed :: "kex \<Rightarrow> kex \<Rightarrow> kex \<Rightarrow> kex \<Rightarrow> bool" where
  "host_key_agreed c0 s0 c s \<longleftrightarrow>
     host_key_type c = host_key_type s \<and>
     (\<exists>h k. host_key_type c = Some h \<and> h \<in> set (preferred_keys c0) \<and> h \<in> set (preferred_keys s0) \<and> get_server_key s = Some k)"

definition ciphers_agreed :: "kex \<Rightarrow> kex \<Rightarrow> kex \<Rightarrow> kex \<Rightarrow> bool" where
  "ciphers_agreed c0 s0 c s \<longleftrightarrow> local_cipher c = remote_cipher s \<and> remote_cipher c = local_cipher s \<and>
     allowed_by c0 s0 Ciphers (local_cipher c) \<and> allowed_by c0 s0 Ciphers (remote_cipher c)"

definition macs_agreed :: "kex \<Rightarrow> kex \<Rightarrow> kex \<Rightarrow> kex \<Rightarrow> bool" where
  "macs_agreed c0 s0 c s \<longleftrightarrow> local_mac c = remote_mac s \<and> remote_mac c = local_mac s \<and>
     allowed_by c0 s0 Macs (local_mac c) \<and> allowed_by c0 s0 Macs (remote_mac c)"

definition compression_agreed :: "kex \<Rightarrow> kex \<Rightarrow> kex \<Rightarrow> kex \<Rightarrow> bool" where
  "compression_agreed c0 s0 c s \<longleftrightarrow> local_compression c = remote_compression s \<and> remote_compression c = local_compression s \<and>
     allowed_by c0 s0 Compression (local_compression c) \<and> allowed_by c0 s0 Compression (remote_compression c)"

lemmas agreed_defs = sides_def same_side_def strict_agreed_def kex_agreed_def host_key_agreed_def ciphers_agreed_def
  macs_agreed_def compression_agreed_def

text \<open>A later choice keeps what was agreed before.\<close>

lemma choices_keep:
  "sides c0 s0 (c\<lparr>host_key_type := h\<rparr>) (s\<lparr>host_key_type := i\<rparr>) = sides c0 s0 c s"
  "sides c0 s0 (c\<lparr>local_cipher := a, remote_cipher := a\<rparr>) (s\<lparr>local_cipher := b, remote_cipher := b\<rparr>) = sides c0 s0 c s"
  "sides c0 s0 (c\<lparr>local_mac := a, remote_mac := a\<rparr>) (s\<lparr>local_mac := b, remote_mac := b\<rparr>) = sides c0 s0 c s"
  "sides c0 s0 (c\<lparr>local_compression := a, remote_compression := a\<rparr>) (s\<lparr>local_compression := b, remote_compression := b\<rparr>) = sides c0 s0 c s"
  "strict_agreed c0 s0 (c\<lparr>host_key_type := h\<rparr>) (s\<lparr>host_key_type := i\<rparr>) = strict_agreed c0 s0 c s"
  "strict_agreed c0 s0 (c\<lparr>local_cipher := a, remote_cipher := a\<rparr>) (s\<lparr>local_cipher := b, remote_cipher := b\<rparr>) = strict_agreed c0 s0 c s"
  "strict_agreed c0 s0 (c\<lparr>local_mac := a, remote_mac := a\<rparr>) (s\<lparr>local_mac := b, remote_mac := b\<rparr>) = strict_agreed c0 s0 c s"
  "strict_agreed c0 s0 (c\<lparr>local_compression := a, remote_compression := a\<rparr>) (s\<lparr>local_compression := b, remote_compression := b\<rparr>) = strict_agreed c0 s0 c s"
  "kex_agreed c0 s0 (c\<lparr>host_key_type := h\<rparr>) (s\<lparr>host_key_type := i\<rparr>) = kex_agreed c0 s0 c s"
  "kex_agreed c0 s0 (c\<lparr>local_cipher := a, remote_cipher := a\<rparr>) (s\<lparr>local_cipher := b, remote_cipher := b\<rparr>) = kex_agreed c0 s0 c s"
  "kex_agreed c0 s0 (c\<lparr>local_mac := a, remote_mac := a\<rparr>) (s\<lparr>local_mac := b, remote_mac := b\<rparr>) = kex_agreed c0 s0 c s"
  "kex_agreed c0 s0 (c\<lparr>local_compression := a, remote_compression := a\<rparr>) (s\<lparr>local_compression := b, remote_compression := b\<rparr>) = kex_agreed c0 s0 c s"
  "host_key_agreed c0 s0 (c\<lparr>local_cipher := a, remote_cipher := a\<rparr>) (s\<lparr>local_cipher := b, remote_cipher := b\<rparr>) = host_key_agreed c0 s0 c s"
  "host_key_agreed c0 s0 (c\<lparr>local_mac := a, remote_mac := a\<rparr>) (s\<lparr>local_mac := b, remote_mac := b\<rparr>) = host_key_agreed c0 s0 c s"
  "host_key_agreed c0 s0 (c\<lparr>local_compression := a, remote_compression := a\<rparr>) (s\<lparr>local_compression := b, remote_compression := b\<rparr>) = host_key_agreed c0 s0 c s"
  "ciphers_agreed c0 s0 (c\<lparr>local_mac := a, remote_mac := a\<rparr>) (s\<lparr>local_mac := b, remote_mac := b\<rparr>) = ciphers_agreed c0 s0 c s"
  "ciphers_agreed c0 s0 (c\<lparr>local_compression := a, remote_compression := a\<rparr>) (s\<lparr>local_compression := b, remote_compression := b\<rparr>) = ciphers_agreed c0 s0 c s"
  "macs_agreed c0 s0 (c\<lparr>local_compression := a, remote_compression := a\<rparr>) (s\<lparr>local_compression := b, remote_compression := b\<rparr>) = macs_agreed c0 s0 c s"
  by (simp_all add: agreed_defs get_server_key_def del: lit_simps cong: option.case_cong)

lemma first_agreed_cases:
  "first_agreed w xs = (if xs = [] then Inl (SSHException w) else Inr (hd xs))"
  by (simp add: first_agreed_def split: list.splits)

lemma agreed_list_hd: "agreed_list b mine theirs \<noteq> [] \<Longrightarrow> hd (agreed_list b mine theirs) \<in> set mine \<and> hd (agreed_list b mine theirs) \<in> set theirs"
proof -
  assume "agreed_list b mine theirs \<noteq> []"
  then have "hd (agreed_list b mine theirs) \<in> set (agreed_list b mine theirs)" by (rule hd_in_set)
  then show ?thesis by (auto simp: agreed_list_def split: if_splits)
qed

lemma choose_kex_step:
  assumes "agreed_list False (filter_algorithm Kex c0) ls = A" "agreed_list True (filter_algorithm Kex s0) lc = A"
    and "set (filter_algorithm Kex c0) \<subseteq> set (KEX_INFO (curve25519_available c0))"
    and "set (filter_algorithm Kex s0) \<subseteq> set (KEX_INFO (curve25519_available s0))"
  shows "in_step (\<lambda>c s. sides c0 s0 c s \<and> strict_agreed c0 s0 c s) (choose_kex ls) (choose_kex lc)
     (\<lambda>c s. sides c0 s0 c s \<and> strict_agreed c0 s0 c s \<and> kex_agreed c0 s0 c s)"
  unfolding in_step_def
proof (intro allI impI)
  fix c s assume p: "sides c0 s0 c s \<and> strict_agreed c0 s0 c s"
  then have f: "filter_algorithm Kex c = filter_algorithm Kex c0" "filter_algorithm Kex s = filter_algorithm Kex s0"
    "\<not> server_mode c" "server_mode s" "curve25519_available c = curve25519_available c0" "curve25519_available s = curve25519_available s0"
    using same_side_lists [of c0 c Kex] same_side_lists [of s0 s Kex] by (simp_all add: sides_def same_side_def)
  show "fst (choose_kex ls c) = fst (choose_kex lc s) \<and> (fst (choose_kex ls c) = Inr () \<longrightarrow>
      sides c0 s0 (snd (choose_kex ls c)) (snd (choose_kex lc s)) \<and> strict_agreed c0 s0 (snd (choose_kex ls c)) (snd (choose_kex lc s)) \<and>
      kex_agreed c0 s0 (snd (choose_kex ls c)) (snd (choose_kex lc s)))"
  proof (cases "A = []")
    case True
    with f assms(1,2) show ?thesis by (simp add: choose_kex_def first_agreed_cases liftR_def bindS_def)
  next
    case False
    then have h: "hd A \<in> set (filter_algorithm Kex c0)" "hd A \<in> set (filter_algorithm Kex s0)"
      using agreed_list_hd [of False "filter_algorithm Kex c0" ls] agreed_list_hd [of True "filter_algorithm Kex s0" lc] assms(1,2) by auto
    then have "hd A \<in> set (KEX_INFO (curve25519_available c0))" "hd A \<in> set (KEX_INFO (curve25519_available s0))"
      using assms(3,4) by auto
    with h f assms(1,2) p False show ?thesis
      by (simp add: choose_kex_def first_agreed_cases liftR_def bindS_def modS_def agreed_defs allowed_by_def)
  qed
qed

lemma choose_host_key_step:
  assumes "agreed_list False (preferred_keys c0) ls = A" "agreed_list True (available_server_keys s0) lc = A"
  shows "in_step (\<lambda>c s. sides c0 s0 c s \<and> strict_agreed c0 s0 c s \<and> kex_agreed c0 s0 c s) (choose_host_key ls) (choose_host_key lc)
     (\<lambda>c s. sides c0 s0 c s \<and> strict_agreed c0 s0 c s \<and> kex_agreed c0 s0 c s \<and> host_key_agreed c0 s0 c s)"
  unfolding in_step_def
proof (intro allI impI)
  fix c s assume p: "sides c0 s0 c s \<and> strict_agreed c0 s0 c s \<and> kex_agreed c0 s0 c s"
  then have f: "preferred_keys c = preferred_keys c0" "available_server_keys s = available_server_keys s0"
    "\<not> server_mode c" "server_mode s" "server_key_dict s = server_key_dict s0"
    using same_side_lists [of c0 c Kex] same_side_lists [of s0 s Kex] by (simp_all add: sides_def same_side_def)
  show "fst (choose_host_key ls c) = fst (choose_host_key lc s) \<and> (fst (choose_host_key ls c) = Inr () \<longrightarrow>
      sides c0 s0 (snd (choose_host_key ls c)) (snd (choose_host_key lc s)) \<and>
      strict_agreed c0 s0 (snd (choose_host_key ls c)) (snd (choose_host_key lc s)) \<and>
      kex_agreed c0 s0 (snd (choose_host_key ls c)) (snd (choose_host_key lc s)) \<and>
      host_key_agreed c0 s0 (snd (choose_host_key ls c)) (snd (choose_host_key lc s)))"
  proof (cases "A = []")
    case True
    with f assms show ?thesis by (simp add: choose_host_key_def first_agreed_cases liftR_def bindS_def)
  next
    case False
    then have h: "hd A \<in> set (preferred_keys c0)" "hd A \<in> set (available_server_keys s0)"
      using agreed_list_hd [of False "preferred_keys c0" ls] agreed_list_hd [of True "available_server_keys s0" lc] assms by auto
    then have "hd A \<in> set (map fst (server_key_dict s0))" "hd A \<in> set (preferred_keys s0)" by (auto simp: available_server_keys_def)
    then obtain k where "map_of (server_key_dict s0) (hd A) = Some k"
      by (metis image_set map_of_eq_None_iff not_None_eq)
    with f assms False have r: "choose_host_key ls c = (Inr (), c\<lparr>host_key_type := Some (hd A)\<rparr>)"
      "choose_host_key lc s = (Inr (), s\<lparr>host_key_type := Some (hd A)\<rparr>)"
      by (simp_all add: choose_host_key_def first_agreed_cases liftR_def bindS_def modS_def get_server_key_def)
    from h \<open>hd A \<in> set (preferred_keys s0)\<close> f(5) \<open>map_of _ _ = Some k\<close>
    have "host_key_agreed c0 s0 (c\<lparr>host_key_type := Some (hd A)\<rparr>) (s\<lparr>host_key_type := Some (hd A)\<rparr>)"
      by (simp add: host_key_agreed_def get_server_key_def)
    with p r show ?thesis by (simp add: choices_keep)
  qed
qed

lemma choose_pair_step:
  assumes A: "agreed_list False (filter_algorithm ty c0) ls = A" "agreed_list True (filter_algorithm ty s0) lc = A"
    and P: "\<And>c s. P c s \<Longrightarrow> sides c0 s0 c s" "\<And>c s a. P c s \<Longrightarrow> allowed_by c0 s0 ty a \<Longrightarrow> Q (f a a c) (f a a s)"
  shows "in_step P (choose_pair w ty ls ls f) (choose_pair w ty lc lc f) Q"
  unfolding in_step_def
proof (intro allI impI)
  fix c s assume p: "P c s"
  from P(1) [OF p] have m: "filter_algorithm ty c = filter_algorithm ty c0" "filter_algorithm ty s = filter_algorithm ty s0"
    "\<not> server_mode c" "server_mode s"
    using same_side_lists [of c0 c ty] same_side_lists [of s0 s ty] by (simp_all add: sides_def same_side_def)
  show "fst (choose_pair w ty ls ls f c) = fst (choose_pair w ty lc lc f s) \<and> (fst (choose_pair w ty ls ls f c) = Inr () \<longrightarrow>
      Q (snd (choose_pair w ty ls ls f c)) (snd (choose_pair w ty lc lc f s)))"
  proof (cases "A = []")
    case True
    with m A show ?thesis by (simp add: choose_pair_def set_pair_def Let_def first_agreed_cases liftR_def bindS_def)
  next
    case False
    then have "allowed_by c0 s0 ty (hd A)"
      using agreed_list_hd [of False "filter_algorithm ty c0" ls] agreed_list_hd [of True "filter_algorithm ty s0" lc] A
      by (simp add: allowed_by_def)
    with m A False P(2) [OF p] show ?thesis
      by (simp add: choose_pair_def set_pair_def Let_def first_agreed_cases liftR_def bindS_def modS_def)
  qed
qed

text \<open>Both announcements, as the negotiation needs them.\<close>

definition well_configured :: "kex \<Rightarrow> bool" where
  "well_configured t \<longleftrightarrow>
     (\<forall>ty \<in> {Ciphers, Macs, Compression, Kex}. names_ok (filter_algorithm ty t)) \<and>
     names_ok (announced_kex t) \<and> names_ok (announced_keys t) \<and> names_ok (preferred_keys t) \<and>
     set (filter_algorithm Kex t) \<subseteq> set (KEX_INFO (curve25519_available t)) \<and>
     (\<forall>a \<in> set (filter_algorithm Kex t). \<not> is_ext_mark a \<and> \<not> is_strict_mark a)"

text \<open>The key exchange algorithm on which the two lists agree first, in the order of the client's, is a group exchange.\<close>

definition first_common_is_gex :: "kex \<Rightarrow> kex \<Rightarrow> bool" where
  "first_common_is_gex c s \<longleftrightarrow>
     (case filter (\<lambda>k. k \<in> set (filter_algorithm Kex s)) (filter_algorithm Kex c) of
        [] \<Rightarrow> False | k # _ \<Rightarrow> startswith k gex_prefix)"

lemma names_ok_nonempty: "names_ok l \<Longrightarrow> [] \<notin> set l"
  by (auto simp: names_ok_def list_all_iff)

lemma agreed_wire:
  "names_ok S \<Longrightarrow> names_ok C \<Longrightarrow> agreed_list True S (wire_list C) = agreed_list False C (wire_list S)"
  using agreed_both names_ok_nonempty by blast

lemma marks_folded:
  assumes "\<forall>a \<in> set as. \<not> is_ext_mark a \<and> \<not> is_strict_mark a"
  shows "fold note_mark as t = t"
  using assms by (induction as) (simp_all add: note_mark_def)

lemma announced_marks:
  assumes "\<forall>a \<in> set (filter_algorithm Kex u). \<not> is_ext_mark a \<and> \<not> is_strict_mark a" "server_mode t = (\<not> server_mode u)"
  shows "fold note_mark (wire_list (announced_kex u)) t =
     (let t1 = (if server_mode u then t else t\<lparr>remote_ext_info := Some (lit ''ext-info-c'')\<rparr>)
      in if advertise_strict_kex u then t1\<lparr>agreed_on_strict_kex := advertise_strict_kex t\<rparr> else t1)"
proof (cases "announced_kex u = []")
  case True
  then have "server_mode u" "\<not> advertise_strict_kex u" by (auto simp: announced_kex_def simp del: lit_simps split: if_splits)
  with True show ?thesis by (simp add: wire_list_def note_mark_def marks del: lit_simps)
next
  case False
  then have w: "wire_list (announced_kex u) = announced_kex u" by (simp add: wire_list_def)
  note [simp] = marks_folded [OF assms(1)] marks and [simp del] = lit_simps
  show ?thesis
  proof (cases "server_mode u")
    case True
    with w assms(2) show ?thesis by (simp add: announced_kex_def note_mark_def)
  next
    case False
    with w assms(2) show ?thesis by (simp add: announced_kex_def note_mark_def)
  qed
qed

lemma note_marks_done [simp]: "kex_done_once (fold note_mark as t) = kex_done_once t"
  by (induction as arbitrary: t) (simp_all add: note_mark_def)

lemma negotiate_start:
  "seqno = 0 \<or> kex_done_once t \<Longrightarrow>
     negotiate seqno ls t = choose_algorithms ls (fold note_mark (kex_algo_list ls) (t\<lparr>remote_ext_info := None\<rparr>))"
  by (auto simp: negotiate_def bindS_def modS_def)

lemma kex_list_read:
  assumes "well_configured u"
  shows "strip_marks (kex_algo_list (announced_lists (announced_kex u) ks t)) = filter_algorithm Kex u \<or>
     filter_algorithm Kex u = [] \<and> strip_marks (kex_algo_list (announced_lists (announced_kex u) ks t)) = [[]]"
  unfolding announced_lists_def Let_def kex_lists.simps announced_kex_def
  using assms [unfolded well_configured_def] by (intro strip_wire) (auto simp: marks simp del: lit_simps)

lemma sides_mirrored:
  assumes "\<not> server_mode c0" "server_mode s0" "well_configured c0" "well_configured s0"
    and "agreed_on_strict_kex c0 = agreed_on_strict_kex s0" "agreed_on_strict_kex c0 \<longrightarrow> advertise_strict_kex c0 \<and> advertise_strict_kex s0"
    and seq: "seqc = 0 \<or> kex_done_once c0" "seqs = 0 \<or> kex_done_once s0"
  shows "in_step (\<lambda>c s. c = c0 \<and> s = s0)
     (negotiate seqc (announced_lists (announced_kex s0) (announced_keys s0) s0))
     (negotiate seqs (announced_lists (announced_kex c0) (announced_keys c0) c0))
     (\<lambda>c s. sides c0 s0 c s \<and> strict_agreed c0 s0 c s \<and> kex_agreed c0 s0 c s \<and> host_key_agreed c0 s0 c s \<and>
        ciphers_agreed c0 s0 c s \<and> macs_agreed c0 s0 c s \<and> compression_agreed c0 s0 c s)"
proof -
  let ?ls = "announced_lists (announced_kex s0) (announced_keys s0) s0" and ?lc = "announced_lists (announced_kex c0) (announced_keys c0) c0"
  note wc = assms(3) [unfolded well_configured_def] and ws = assms(4) [unfolded well_configured_def]
  let ?P = "\<lambda>c s. sides c0 s0 c s \<and> strict_agreed c0 s0 c s"
  have marks': "?P (fold note_mark (kex_algo_list ?ls) (c0\<lparr>remote_ext_info := None\<rparr>)) (fold note_mark (kex_algo_list ?lc) (s0\<lparr>remote_ext_info := None\<rparr>))"
    using announced_marks [of s0 "c0\<lparr>remote_ext_info := None\<rparr>"] announced_marks [of c0 "s0\<lparr>remote_ext_info := None\<rparr>"] wc ws assms
    by (auto simp: announced_lists_def Let_def sides_def same_side_def strict_agreed_def)
  define pair where "pair = (\<lambda>what ty lc ls f. choose_pair what ty lc ls f :: (kex, unit) sm)"
  have strip: "agreed_list True (filter_algorithm Kex s0) (strip_marks (kex_algo_list ?lc)) =
      agreed_list False (filter_algorithm Kex c0) (strip_marks (kex_algo_list ?ls))"
  proof (rule agreed_stripped)
    show "[] \<notin> set (filter_algorithm Kex s0)" "[] \<notin> set (filter_algorithm Kex c0)" using wc ws names_ok_nonempty by blast+
    show "strip_marks (kex_algo_list ?lc) = filter_algorithm Kex c0 \<or> filter_algorithm Kex c0 = [] \<and> strip_marks (kex_algo_list ?lc) = [[]]"
      "strip_marks (kex_algo_list ?ls) = filter_algorithm Kex s0 \<or> filter_algorithm Kex s0 = [] \<and> strip_marks (kex_algo_list ?ls) = [[]]"
      by (rule kex_list_read [OF assms(3)], rule kex_list_read [OF assms(4)])
  qed
  have keys: "agreed_list True (available_server_keys s0) (server_key_algo_list ?lc) = agreed_list False (preferred_keys c0) (server_key_algo_list ?ls)"
    using agreed_wire [of "announced_keys s0" "announced_keys c0"] wc ws assms(1,2) by (simp add: announced_lists_def Let_def announced_keys_def)
  have dirs: "client_encrypt_algo_list l = server_encrypt_algo_list l" "client_mac_algo_list l = server_mac_algo_list l"
    "client_compress_algo_list l = server_compress_algo_list l" if "l = ?ls \<or> l = ?lc" for l
    using that by (auto simp: announced_lists_def Let_def)
  have wire: "agreed_list True (filter_algorithm ty s0) (wire_list (filter_algorithm ty c0)) =
      agreed_list False (filter_algorithm ty c0) (wire_list (filter_algorithm ty s0))" if "ty \<in> {Ciphers, Macs, Compression}" for ty
    using wc ws that by (intro agreed_wire) auto
  have el: "server_encrypt_algo_list ?lc = wire_list (filter_algorithm Ciphers c0)" "server_encrypt_algo_list ?ls = wire_list (filter_algorithm Ciphers s0)"
    "server_mac_algo_list ?lc = wire_list (filter_algorithm Macs c0)" "server_mac_algo_list ?ls = wire_list (filter_algorithm Macs s0)"
    "server_compress_algo_list ?lc = wire_list (filter_algorithm Compression c0)"
    "server_compress_algo_list ?ls = wire_list (filter_algorithm Compression s0)"
    by (simp_all add: announced_lists_def Let_def)
  let ?K = "\<lambda>c s. ?P c s \<and> kex_agreed c0 s0 c s \<and> host_key_agreed c0 s0 c s"
  have chain: "in_step ?P (choose_algorithms ?ls) (choose_algorithms ?lc)
     (\<lambda>c s. ?K c s \<and> ciphers_agreed c0 s0 c s \<and> macs_agreed c0 s0 c s \<and> compression_agreed c0 s0 c s)"
    unfolding choose_algorithms_def dirs(1) [OF disjI1 [OF refl]] dirs(1) [OF disjI2 [OF refl]] dirs(2) [OF disjI1 [OF refl]] dirs(2) [OF disjI2 [OF refl]]
      dirs(3) [OF disjI1 [OF refl]] dirs(3) [OF disjI2 [OF refl]] el
    apply (rule in_step_bind [OF choose_kex_step [OF refl strip]])
    subgoal using wc by blast
    subgoal using ws by blast
    apply (rule in_step_bind [OF choose_host_key_step [OF refl keys]])
    apply (rule in_step_bind [where Q = "\<lambda>c s. ?K c s \<and> ciphers_agreed c0 s0 c s"])
     apply (rule choose_pair_step [OF refl wire])
       apply simp
      apply blast
     apply (simp add: choices_keep ciphers_agreed_def)
    apply (rule in_step_bind [where Q = "\<lambda>c s. ?K c s \<and> ciphers_agreed c0 s0 c s \<and> macs_agreed c0 s0 c s"])
     apply (rule choose_pair_step [OF refl wire])
       apply simp
      apply blast
     apply (simp add: choices_keep macs_agreed_def)
    apply (rule choose_pair_step [OF refl wire])
      apply simp
     apply blast
    apply (simp add: choices_keep compression_agreed_def)
    done
  show ?thesis
    using chain marks' unfolding in_step_def by (auto simp: negotiate_start [OF seq(1)] negotiate_start [OF seq(2)])
qed

section \<open>A server that takes group exchange back\<close>

text \<open>What \<open>drop_group_exchange\<close> makes of the server's preferences. The negotiation reads them once more, to choose the key
  exchange: the rest of it does not see the change.\<close>

definition without_gex :: "kex \<Rightarrow> kex" where
  "without_gex t = t\<lparr>preferred := (preferred t)(Kex := filter (\<lambda>k. \<not> startswith k gex_prefix) (preferred t Kex))\<rparr>"

definition unseen :: "(kex, unit) sm \<Rightarrow> bool" where
  "unseen m \<longleftrightarrow> (\<forall>t. m (without_gex t) = apsnd without_gex (m t))"

lemma unseen_bind: "unseen m \<Longrightarrow> unseen n \<Longrightarrow> unseen (bindS m (\<lambda>_. n))"
  by (auto simp: unseen_def bindS_def split: prod.splits sum.splits)

lemma without_gex_lists:
  "ty \<noteq> Kex \<Longrightarrow> filter_algorithm ty (without_gex t) = filter_algorithm ty t"
  "filter_algorithm Kex (without_gex t) = filter (\<lambda>k. \<not> startswith k gex_prefix) (filter_algorithm Kex t)"
  "preferred_keys (without_gex t) = preferred_keys t" "available_server_keys (without_gex t) = available_server_keys t"
  "server_mode (without_gex t) = server_mode t" "get_server_key (without_gex t) = get_server_key t"
  "curve25519_available (without_gex t) = curve25519_available t"
  by (simp_all add: without_gex_def filter_algorithm_def preferred_keys_def available_server_keys_def get_server_key_def conj_commute
      del: lit_simps cong: option.case_cong)

lemma without_gex_updates:
  "(without_gex t)\<lparr>kex_engine := k\<rparr> = without_gex (t\<lparr>kex_engine := k\<rparr>)"
  "(without_gex t)\<lparr>host_key_type := h\<rparr> = without_gex (t\<lparr>host_key_type := h\<rparr>)"
  "(without_gex t)\<lparr>local_cipher := l, remote_cipher := r\<rparr> = without_gex (t\<lparr>local_cipher := l, remote_cipher := r\<rparr>)"
  "(without_gex t)\<lparr>local_mac := l, remote_mac := r\<rparr> = without_gex (t\<lparr>local_mac := l, remote_mac := r\<rparr>)"
  "(without_gex t)\<lparr>local_compression := l, remote_compression := r\<rparr> = without_gex (t\<lparr>local_compression := l, remote_compression := r\<rparr>)"
  "(without_gex t)\<lparr>remote_ext_info := e\<rparr> = without_gex (t\<lparr>remote_ext_info := e\<rparr>)"
  by (simp_all add: without_gex_def)

lemma unseen_host_key: "unseen (choose_host_key algos)"
  unfolding unseen_def
proof
  fix t
  show "choose_host_key algos (without_gex t) = apsnd without_gex (choose_host_key algos t)"
    by (auto simp: choose_host_key_def first_agreed_cases liftR_def bindS_def modS_def without_gex_lists without_gex_updates)
qed

lemma unseen_pair:
  "ty \<noteq> Kex \<Longrightarrow> (\<And>l r t. f l r (without_gex t) = without_gex (f l r t)) \<Longrightarrow> unseen (choose_pair w ty lc ls f)"
  by (simp add: unseen_def choose_pair_def set_pair_def Let_def first_agreed_cases liftR_def bindS_def modS_def without_gex_lists)

lemma unseen_marks: "fold note_mark as (without_gex t) = without_gex (fold note_mark as t)"
proof (induction as arbitrary: t)
  case (Cons a as)
  have "note_mark a (without_gex t) = without_gex (note_mark a t)" by (simp add: note_mark_def without_gex_def)
  with Cons show ?case by simp
qed simp

lemma choose_kex_unseen:
  assumes "server_mode t" "agreed_list True (filter_algorithm Kex t) algos = A" "A = [] \<or> \<not> startswith (hd A) gex_prefix"
  shows "choose_kex algos (without_gex t) = apsnd without_gex (choose_kex algos t)"
proof -
  let ?P = "\<lambda>k. \<not> startswith k gex_prefix"
  have "agreed_list True (filter_algorithm Kex (without_gex t)) algos = filter ?P A"
    using assms(2) by (auto simp: agreed_list_def without_gex_lists conj_commute)
  moreover have "filter ?P A = [] \<longleftrightarrow> A = []" "A \<noteq> [] \<longrightarrow> hd (filter ?P A) = hd A" using assms(3) by (cases A; simp)+
  ultimately show ?thesis using assms(1,2)
    by (simp add: choose_kex_def first_agreed_cases liftR_def bindS_def modS_def raiseS_def without_gex_lists without_gex_updates)
qed

lemma choices_after_kex:
  "\<exists>rest. choose_algorithms ls = bindS (choose_kex (strip_marks (kex_algo_list ls))) (\<lambda>_. rest) \<and> unseen rest"
  unfolding choose_algorithms_def
  by (rule exI, rule conjI, rule refl) (intro unseen_bind unseen_host_key unseen_pair; simp add: without_gex_updates)

lemma negotiate_unseen:
  assumes "server_mode t" "seqno = 0 \<or> kex_done_once t"
    and A: "agreed_list True (filter_algorithm Kex t) (strip_marks (kex_algo_list ls)) = A" "A = [] \<or> \<not> startswith (hd A) gex_prefix"
  shows "negotiate seqno ls (without_gex t) = apsnd without_gex (negotiate seqno ls t)"
proof -
  let ?t = "fold note_mark (kex_algo_list ls) (t\<lparr>remote_ext_info := None\<rparr>)"
  have "same_side t (t\<lparr>remote_ext_info := None\<rparr>)" by (simp add: same_side_def)
  then have side: "same_side t ?t" by (rule note_marks_side)
  have "server_mode ?t" using side assms(1) by (simp add: same_side_def)
  moreover have "filter_algorithm Kex ?t = filter_algorithm Kex t" using same_side_lists [OF side] by simp
  ultimately have k: "choose_kex (strip_marks (kex_algo_list ls)) (without_gex ?t) =
      apsnd without_gex (choose_kex (strip_marks (kex_algo_list ls)) ?t)"
    using A by (intro choose_kex_unseen) simp_all
  obtain rest where rest: "choose_algorithms ls = bindS (choose_kex (strip_marks (kex_algo_list ls))) (\<lambda>_. rest)" "unseen rest"
    using choices_after_kex by blast
  have "choose_algorithms ls (without_gex ?t) = apsnd without_gex (choose_algorithms ls ?t)"
    using rest(2) k unfolding rest(1) unseen_def by (auto simp: bindS_def split: prod.splits sum.splits)
  moreover have "kex_done_once (without_gex t) = kex_done_once t" by (simp add: without_gex_def)
  ultimately show ?thesis using assms(2) by (simp add: negotiate_start without_gex_updates unseen_marks)
qed

section \<open>The result\<close>

definition negotiated :: "kex \<Rightarrow> kex \<Rightarrow> kex \<Rightarrow> kex \<Rightarrow> bool" where
  "negotiated c0 s0 c s \<longleftrightarrow>
     strict_agreed c0 s0 c s \<and> kex_agreed c0 s0 c s \<and> host_key_agreed c0 s0 c s \<and> ciphers_agreed c0 s0 c s \<and>
     macs_agreed c0 s0 c s \<and> compression_agreed c0 s0 c s \<and>
     local_kex_init c = remote_kex_init s \<and> local_kex_init s = remote_kex_init c"

definition announcing :: "bytes \<Rightarrow> kex \<Rightarrow> bytes" where
  "announcing cookie t = wire_of cookie (announcement (announced_kex t) (announced_keys t) t)"

lemma well_configured_fields: "well_configured t \<Longrightarrow> list_all ok_field (announcement (announced_kex t) (announced_keys t) t)"
  by (auto simp: announcement_def well_configured_def ok_string_def simp del: ok_field.simps(9) intro!: wire_list_ok)

text \<open>What sending leaves: the state with the announcement recorded.\<close>

definition announced :: "bytes \<Rightarrow> kex \<Rightarrow> kex" where
  "announced cookie t = t\<lparr>clear_to_send := False, in_kex := True, local_kex_init := Some (announcing cookie t)\<rparr>"

lemma announced_same:
  "filter_algorithm ty (announced k t) = filter_algorithm ty t" "preferred_keys (announced k t) = preferred_keys t"
  "announced_kex (announced k t) = announced_kex t" "announced_keys (announced k t) = announced_keys t"
  "well_configured (announced k t) = well_configured t" "announcing k' (announced k t) = announcing k' t"
  by (simp_all add: announced_def filter_algorithm_def preferred_keys_def announced_kex_def announced_keys_def
      available_server_keys_def well_configured_def announcing_def announcement_def del: lit_simps cong: if_cong)

lemma announced_fields:
  "server_mode (announced k t) = server_mode t" "agreed_on_strict_kex (announced k t) = agreed_on_strict_kex t"
  "advertise_strict_kex (announced k t) = advertise_strict_kex t" "kex_done_once (announced k t) = kex_done_once t"
  by (simp_all add: announced_def)

text \<open>The preferences a transport goes on with.\<close>

definition after_announcing :: "kex \<Rightarrow> kex" where
  "after_announcing t =
     (if server_mode t \<and> \<not> has_modulus_pack t \<and> list_ex (\<lambda>k. startswith k gex_prefix) (filter_algorithm Kex t) then without_gex t else t)"

lemma send_kex_init_announces:
  assumes "well_configured t" "\<not> server_mode t \<or> has_modulus_pack t \<or> set (preferred t Kex) \<subseteq> set (KEX_INFO (curve25519_available t))"
  shows "send_kex_init cookie t = (Inr (announcing cookie t), after_announcing (announced cookie t))"
proof -
  let ?t = "t\<lparr>clear_to_send := False, in_kex := True\<rparr>"
  have same: "announced_kex ?t = announced_kex t" "announced_keys ?t = announced_keys t" "\<And>ty. filter_algorithm ty ?t = filter_algorithm ty t"
    by (simp_all add: announced_kex_def announced_keys_def filter_algorithm_def available_server_keys_def preferred_keys_def
        del: lit_simps cong: if_cong)
  have drop: "drop_group_exchange ?t = (Inr (), after_announcing ?t)"
    using assms(2) by (auto simp: drop_group_exchange_def after_announcing_def set_kex_option_def without_gex_def list_all_iff)
  obtain m where m: "kexinit_message cookie (announced_kex t) (announced_keys t) t (new_message None) = (Inr (), m)"
    "asbytes m = announcing cookie t"
    using kexinit_sent [OF well_configured_fields [OF assms(1)]] by (auto simp: announcing_def)
  have lists: "filter_algorithm ty (after_announcing ?t) = filter_algorithm ty t" if "ty \<noteq> Kex" for ty
    using that by (simp add: after_announcing_def without_gex_lists same(3))
  have "announced_keys (without_gex u) = announced_keys u" for u by (simp add: announced_keys_def without_gex_lists)
  then have "announced_keys (after_announcing ?t) = announced_keys t" by (simp add: after_announcing_def same(2))
  moreover have "kexinit_message cookie a b (after_announcing ?t) = kexinit_message cookie a b t" for a b
    by (simp only: kexinit_message_def lists algorithm_type.distinct not_False_eq_True)
  moreover have "(after_announcing ?t)\<lparr>local_kex_init := x\<rparr> = after_announcing (?t\<lparr>local_kex_init := x\<rparr>)" for x
    by (simp add: after_announcing_def without_gex_def filter_algorithm_def)
  ultimately show ?thesis by (simp add: send_kex_init_def Let_def same(1) bindS_def drop m announced_def)
qed

lemma parse_announcement:
  assumes "well_configured u" "length cookie = 16"
  shows "parse_kex_init seqno (new_message (Some (tl (announcing cookie u)))) t =
     bindS (negotiate seqno (announced_lists (announced_kex u) (announced_keys u) u))
       (\<lambda>_. modS (\<lambda>t. t\<lparr>remote_kex_init := Some (announcing cookie u)\<rparr>)) t"
proof -
  have "MSG_KEXINIT # tl (announcing cookie u) = announcing cookie u" by (simp add: announcing_def wire_of_def)
  then show ?thesis using announcement_read [OF well_configured_fields [OF assms(1)] assms(2)]
    by (auto simp: parse_kex_init_def announcing_def)
qed

lemma agreed_before_sending:
  "strict_agreed (announced kc c0) (announced ks s0) c s = strict_agreed c0 s0 c s"
  "kex_agreed (announced kc c0) (announced ks s0) c s = kex_agreed c0 s0 c s"
  "host_key_agreed (announced kc c0) (announced ks s0) c s = host_key_agreed c0 s0 c s"
  "ciphers_agreed (announced kc c0) (announced ks s0) c s = ciphers_agreed c0 s0 c s"
  "macs_agreed (announced kc c0) (announced ks s0) c s = macs_agreed c0 s0 c s"
  "compression_agreed (announced kc c0) (announced ks s0) c s = compression_agreed c0 s0 c s"
  by (simp_all only: strict_agreed_def kex_agreed_def host_key_agreed_def ciphers_agreed_def macs_agreed_def compression_agreed_def
      allowed_by_def announced_same announced_fields)

lemma agreed_recorded:
  "strict_agreed c0 s0 (c\<lparr>remote_kex_init := a\<rparr>) (s\<lparr>remote_kex_init := b\<rparr>) = strict_agreed c0 s0 c s"
  "kex_agreed c0 s0 (c\<lparr>remote_kex_init := a\<rparr>) (s\<lparr>remote_kex_init := b\<rparr>) = kex_agreed c0 s0 c s"
  "host_key_agreed c0 s0 (c\<lparr>remote_kex_init := a\<rparr>) (s\<lparr>remote_kex_init := b\<rparr>) = host_key_agreed c0 s0 c s"
  "ciphers_agreed c0 s0 (c\<lparr>remote_kex_init := a\<rparr>) (s\<lparr>remote_kex_init := b\<rparr>) = ciphers_agreed c0 s0 c s"
  "macs_agreed c0 s0 (c\<lparr>remote_kex_init := a\<rparr>) (s\<lparr>remote_kex_init := b\<rparr>) = macs_agreed c0 s0 c s"
  "compression_agreed c0 s0 (c\<lparr>remote_kex_init := a\<rparr>) (s\<lparr>remote_kex_init := b\<rparr>) = compression_agreed c0 s0 c s"
  by (simp_all add: agreed_defs get_server_key_def del: lit_simps cong: option.case_cong)

lemma agreed_without_gex: "negotiated c0 s0 c (without_gex s) = negotiated c0 s0 c s"
  by (simp add: negotiated_def agreed_defs get_server_key_def without_gex_def del: lit_simps cong: option.case_cong)

lemma agreed_after_announcing:
  "negotiated c0 s0 (c\<lparr>remote_kex_init := a\<rparr>) ((without_gex s)\<lparr>remote_kex_init := b\<rparr>) =
     negotiated c0 s0 (c\<lparr>remote_kex_init := a\<rparr>) (s\<lparr>remote_kex_init := b\<rparr>)"
proof -
  have "(without_gex s)\<lparr>remote_kex_init := b\<rparr> = without_gex (s\<lparr>remote_kex_init := b\<rparr>)" by (simp add: without_gex_def)
  then show ?thesis by (simp add: agreed_without_gex)
qed

text \<open>A server without primes announces group exchange and drops it afterwards: it chooses as if it had not, unless group
  exchange is what comes first.\<close>

lemma server_after_announcing:
  assumes "server_mode s" "well_configured s" "well_configured c" "seqs = 0 \<or> kex_done_once s"
    and "has_modulus_pack s \<or> \<not> first_common_is_gex c s"
    and "negotiate seqs (announced_lists (announced_kex c) (announced_keys c) c) (announced ks s) = (r, s')"
  shows "\<exists>s''. negotiate seqs (announced_lists (announced_kex c) (announced_keys c) c) (after_announcing (announced ks s)) = (r, s'') \<and>
     (s'' = s' \<or> s'' = without_gex s')"
proof (cases "after_announcing (announced ks s) = announced ks s")
  case True
  then show ?thesis using assms(6) by simp
next
  case False
  then have a: "after_announcing (announced ks s) = without_gex (announced ks s)" "\<not> has_modulus_pack s"
    by (auto simp: after_announcing_def announced_def split: if_splits)
  let ?C = "filter_algorithm Kex c" and ?S = "filter_algorithm Kex s"
  let ?A = "agreed_list True ?S (strip_marks (kex_algo_list (announced_lists (announced_kex c) (announced_keys c) c)))"
  have "[] \<notin> set ?S" using assms(2) names_ok_nonempty by (auto simp: well_configured_def)
  then have "?A = filter (\<lambda>k. k \<in> set ?S) ?C"
    using kex_list_read [OF assms(3), of "announced_keys c" c] by (elim disjE) (simp_all add: agreed_list_def)
  with a(2) assms(5) have "?A = [] \<or> \<not> startswith (hd ?A) gex_prefix"
    by (auto simp: first_common_is_gex_def split: list.splits)
  then have "negotiate seqs (announced_lists (announced_kex c) (announced_keys c) c) (without_gex (announced ks s)) = (r, without_gex s')"
    using negotiate_unseen [of "announced ks s" seqs "announced_lists (announced_kex c) (announced_keys c) c" ?A] assms(1,4,6)
    by (simp add: announced_same announced_fields)
  then show ?thesis using a(1) by auto
qed

text \<open>C6. A client and a server that read each other's KEXINIT come to the same result: both raise the same exception, or
  both choose the same key exchange and host key algorithm, ciphers, MACs and compression that mirror each other, each
  of them enabled on both sides, and each has recorded exactly the bytes the other sent. This holds for a server that
  has a file of primes, and for a server without one (which announces group exchange and then takes it out of its own
  preferences) unless the first algorithm of the client's list that the server announces is a group exchange. In that
  excluded case the sides do disagree: the client takes the group exchange, which the server refuses
  (\<open>group_exchange_announced_and_refused\<close>). The lists are well formed (ASCII names without commas, known key exchange
  algorithms), the cookies have 16 bytes, and strict key exchange, when it had been agreed, is still advertised.\<close>

theorem negotiation_mirrored:
  assumes "\<not> server_mode c" "server_mode s" "well_configured c" "well_configured s"
    and "has_modulus_pack s \<or> \<not> first_common_is_gex c s \<and> set (preferred s Kex) \<subseteq> set (KEX_INFO (curve25519_available s))"
    and "length kc = 16" "length ks = 16"
    and "agreed_on_strict_kex c = agreed_on_strict_kex s" "agreed_on_strict_kex c \<longrightarrow> advertise_strict_kex c \<and> advertise_strict_kex s"
    and "seqc = 0 \<or> kex_done_once c" "seqs = 0 \<or> kex_done_once s"
  shows "\<exists>mc ms c1 s1 c2 s2 r.
     send_kex_init kc c = (Inr mc, c1) \<and> send_kex_init ks s = (Inr ms, s1) \<and>
     parse_kex_init seqc (new_message (Some (tl ms))) c1 = (r, c2) \<and> parse_kex_init seqs (new_message (Some (tl mc))) s1 = (r, s2) \<and>
     (r = Inr () \<longrightarrow> negotiated c s c2 s2)"
proof -
  let ?c = "announced kc c" and ?s = "announced ks s"
  let ?ls = "announced_lists (announced_kex s) (announced_keys s) s" and ?lc = "announced_lists (announced_kex c) (announced_keys c) c"
  have l: "announced_lists (announced_kex ?s) (announced_keys ?s) ?s = ?ls" "announced_lists (announced_kex ?c) (announced_keys ?c) ?c = ?lc"
    by (simp_all add: announced_lists_def announced_same)
  have "after_announcing ?c = ?c" using assms(1) by (simp add: after_announcing_def announced_def)
  then have sent: "send_kex_init kc c = (Inr (announcing kc c), ?c)" "send_kex_init ks s = (Inr (announcing ks s), after_announcing ?s)"
    using send_kex_init_announces [of c kc] send_kex_init_announces [of s ks] assms(1,3-5) by auto
  obtain rc c' rs s' where n: "negotiate seqc ?ls ?c = (rc, c')" "negotiate seqs ?lc ?s = (rs, s')" by (metis surj_pair)
  obtain s'' where n': "negotiate seqs ?lc (after_announcing ?s) = (rs, s'')" "s'' = s' \<or> s'' = without_gex s'"
    using server_after_announcing [OF assms(2,4,3,11) _ n(2)] assms(5) by blast
  have "in_step (\<lambda>c' s'. c' = ?c \<and> s' = ?s) (negotiate seqc ?ls) (negotiate seqs ?lc)
     (\<lambda>c' s'. sides ?c ?s c' s' \<and> strict_agreed ?c ?s c' s' \<and> kex_agreed ?c ?s c' s' \<and> host_key_agreed ?c ?s c' s' \<and>
        ciphers_agreed ?c ?s c' s' \<and> macs_agreed ?c ?s c' s' \<and> compression_agreed ?c ?s c' s')"
    by (rule sides_mirrored [of ?c ?s seqc seqs, unfolded l])
      (use assms in \<open>simp_all add: announced_same announced_fields\<close>)
  with n have r: "rs = rc" and ok: "rc = Inr () \<Longrightarrow> sides ?c ?s c' s' \<and> strict_agreed ?c ?s c' s' \<and> kex_agreed ?c ?s c' s' \<and>
      host_key_agreed ?c ?s c' s' \<and> ciphers_agreed ?c ?s c' s' \<and> macs_agreed ?c ?s c' s' \<and> compression_agreed ?c ?s c' s'"
    by (simp_all add: in_step_def)
  show ?thesis
  proof (cases rc)
    case (Inl e)
    with r n n' show ?thesis by (simp add: sent parse_announcement assms bindS_def)
  next
    case (Inr u)
    let ?c2 = "c'\<lparr>remote_kex_init := Some (announcing ks s)\<rparr>" and ?s2 = "s'\<lparr>remote_kex_init := Some (announcing kc c)\<rparr>"
    have "negotiated c s ?c2 ?s2"
      using ok Inr unfolding negotiated_def agreed_before_sending agreed_recorded by (simp add: sides_def same_side_def announced_def)
    then have "negotiated c s ?c2 (s''\<lparr>remote_kex_init := Some (announcing kc c)\<rparr>)"
      using n'(2) agreed_after_announcing by auto
    then show ?thesis using r n(1) n'(1) Inr by (simp add: sent parse_announcement assms bindS_def modS_def)
  qed
qed

text \<open>In the excluded case the sides can disagree: a server without primes announces group exchange, from the list made
  before it is dropped, and refuses it when the client has chosen it.\<close>

lemma group_exchange_announced_and_refused:
  assumes "server_mode t" "\<not> has_modulus_pack t" "k \<in> set (filter_algorithm Kex t)" "startswith k gex_prefix"
    and "set (preferred t Kex) \<subseteq> set (KEX_INFO (curve25519_available t))" "send_kex_init cookie t = (Inr b, t')"
  shows "k \<in> set (announced_kex t) \<and> k \<notin> set (filter_algorithm Kex t')"
proof -
  let ?p = "filter (\<lambda>k. \<not> startswith k gex_prefix) (preferred t Kex)"
  have "list_ex (\<lambda>k. startswith k gex_prefix) (filter_algorithm Kex t)" using assms(3,4) by (auto simp: list_ex_iff)
  moreover have "list_all (\<lambda>n. n \<in> set (KEX_INFO (curve25519_available t))) ?p" using assms(5) by (auto simp: list_all_iff)
  ultimately have "preferred t' Kex = ?p"
    using assms(1,2,6) by (auto simp: send_kex_init_def Let_def bindS_def drop_group_exchange_def set_kex_option_def
        filter_algorithm_def split: sum.splits prod.splits)
  then show ?thesis using assms(3,4) by (auto simp: announced_kex_def filter_algorithm_def simp del: lit_simps)
qed

text \<open>A witness: a client with two algorithms of each kind, and a server with one Ed25519 key and the same algorithms, but
  also a group exchange, and without primes.\<close>

definition plain_client :: kex where
  "plain_client = (new_kex False (\<lambda>ty. []) True)\<lparr>preferred := \<lambda>ty. take 2 (default_preferences False ty)\<rparr>"

definition plain_server :: kex where
  "plain_server = add_server_key \<lparr>pk_numbers = Ed25519 (replicate 32 7), pk_public_blob = None\<rparr>
     (plain_client\<lparr>server_mode := True, preferred := (\<lambda>ty. take (if ty = Kex then 5 else 2) (default_preferences False ty))\<rparr>)"

text \<open>An executable check that implies the configuration hypotheses.\<close>

definition names_fit :: "ustr list \<Rightarrow> bool" where
  "names_fit l \<longleftrightarrow> list_all (\<lambda>x. x \<noteq> [] \<and> list_all (\<lambda>c. c < 128 \<and> c \<noteq> 44) x) l \<and> length (join [44] l) < 1000"

definition config_fits :: "kex \<Rightarrow> bool" where
  "config_fits t \<longleftrightarrow>
     list_all (\<lambda>ty. names_fit (filter_algorithm ty t)) [Ciphers, Macs, Compression, Kex] \<and>
     list_all names_fit [announced_kex t, announced_keys t, preferred_keys t] \<and>
     list_all (\<lambda>a. a \<in> set (KEX_INFO (curve25519_available t)) \<and> \<not> is_ext_mark a \<and> \<not> is_strict_mark a) (filter_algorithm Kex t)"

lemma config_fits_well: "config_fits t \<Longrightarrow> well_configured t"
  by (auto simp: config_fits_def names_fit_def well_configured_def names_ok_def list_all_iff simp del: lit_simps)

lemma plain_modes:
  "\<not> server_mode plain_client" "server_mode plain_server" "\<not> agreed_on_strict_kex plain_client" "\<not> agreed_on_strict_kex plain_server"
  by (simp_all add: plain_client_def plain_server_def new_kex_def add_server_key_def Let_def)

lemma plain_lists:
  "filter_algorithm ty plain_client = take 2 (default_preferences False ty)"
  "filter_algorithm ty plain_server = take (if ty = Kex then 5 else 2) (default_preferences False ty)"
  by (simp_all add: filter_algorithm_def plain_client_def plain_server_def new_kex_def add_server_key_def Let_def)

lemma plain_tables:
  "take 2 (default_preferences False Ciphers) = map lit [''aes128-ctr'', ''aes192-ctr'']"
  "take 2 (default_preferences False Macs) = map lit [''hmac-sha2-256'', ''hmac-sha2-512'']"
  "take 2 (default_preferences False Kex) = map lit [''ecdh-sha2-nistp256'', ''ecdh-sha2-nistp384'']"
  "take 5 (default_preferences False Kex) = map lit [''ecdh-sha2-nistp256'', ''ecdh-sha2-nistp384'', ''ecdh-sha2-nistp521'',
     ''diffie-hellman-group16-sha512'', ''diffie-hellman-group-exchange-sha256'']"
  "take 2 (default_preferences False Compression) = map lit [''none'']"
  "take 2 (default_preferences False Keys) = map lit [''ssh-ed25519'', ''ecdsa-sha2-nistp256'']"
  by (simp_all add: default_preferences_def PREFERRED_CIPHERS_def PREFERRED_MACS_def PREFERRED_KEX_def PREFERRED_COMPRESSION_def
      PREFERRED_KEYS_def del: lit_simps)

lemma plain_server_keys: "map fst (server_key_dict plain_server) = [lit ''ssh-ed25519'']"
  by (simp add: plain_server_def plain_client_def new_kex_def add_server_key_def Let_def is_rsa_def get_name_def
      ed25519_name_def)

lemma plain_fits: "config_fits plain_client" "config_fits plain_server" "\<not> first_common_is_gex plain_client plain_server"
  by (simp_all add: config_fits_def names_fit_def plain_modes plain_lists plain_tables announced_kex_def announced_keys_def
      available_server_keys_def preferred_keys_def plain_server_keys KEX_INFO_def is_ext_mark_def is_strict_mark_def strict_mark_def
      first_common_is_gex_def gex_prefix_def cert_suffix_def Let_def)

lemma plain_server_known: "set (preferred plain_server Kex) \<subseteq> set (KEX_INFO (curve25519_available plain_server))"
  by (simp add: plain_server_def plain_client_def new_kex_def add_server_key_def Let_def plain_tables KEX_INFO_def)

theorem negotiation_mirrored_witness:
  "\<exists>mc ms c1 s1 c2 s2 r.
     send_kex_init (replicate 16 1) plain_client = (Inr mc, c1) \<and> send_kex_init (replicate 16 2) plain_server = (Inr ms, s1) \<and>
     parse_kex_init 0 (new_message (Some (tl ms))) c1 = (r, c2) \<and> parse_kex_init 0 (new_message (Some (tl mc))) s1 = (r, s2) \<and>
     (r = Inr () \<longrightarrow> negotiated plain_client plain_server c2 s2)"
  by (rule negotiation_mirrored) (simp_all add: plain_fits plain_modes config_fits_well plain_server_known)

end
