(* ===== verification/Ssh_Keying.thy ===== *)
theory Ssh_Keying
  imports Ssh_Kex_Agree Ssh_Packet_Link Ssh_Channel
begin

text \<open>
  Key derivation and the switch to new keys of \<^verbatim>\<open>paramiko/transport.py\<close>: \<^verbatim>\<open>_compute_key\<close>, \<^verbatim>\<open>_activate_inbound\<close>,
  \<^verbatim>\<open>_activate_outbound\<close>, \<^verbatim>\<open>_auth_trigger\<close> and \<^verbatim>\<open>_parse_newkeys\<close>, on a transport that consists of the negotiation state
  and the packetizer. Ciphers and hash functions are library code: \<open>engines\<close> makes cipher objects and \<open>digest\<close>
  computes hashes.
\<close>

section \<open>Tables\<close>

datatype cipher_class = AES | TripleDES | AESGCM
datatype cipher_mode = CTR | CBC
datatype hash_class = Sha1 | Sha256 | Sha384 | Sha512 | Md5

record cipher_info =
  ci_class :: cipher_class
  ci_mode :: "cipher_mode option"
  ci_block_size :: nat
  ci_key_size :: nat
  ci_iv_size :: "nat option"
  ci_is_aead :: bool

definition stream_cipher :: "cipher_class \<Rightarrow> cipher_mode \<Rightarrow> nat \<Rightarrow> nat \<Rightarrow> cipher_info" where
  "stream_cipher cls mode block key =
     \<lparr>ci_class = cls, ci_mode = Some mode, ci_block_size = block, ci_key_size = key, ci_iv_size = None, ci_is_aead = False\<rparr>"

definition gcm_cipher :: "nat \<Rightarrow> cipher_info" where
  "gcm_cipher key =
     \<lparr>ci_class = AESGCM, ci_mode = None, ci_block_size = 16, ci_key_size = key, ci_iv_size = Some 12, ci_is_aead = True\<rparr>"

definition CIPHER_INFO :: "(ustr \<times> cipher_info) list" where
  "CIPHER_INFO =
     [(lit ''aes128-ctr'', stream_cipher AES CTR 16 16), (lit ''aes192-ctr'', stream_cipher AES CTR 16 24),
      (lit ''aes256-ctr'', stream_cipher AES CTR 16 32), (lit ''aes128-cbc'', stream_cipher AES CBC 16 16),
      (lit ''aes192-cbc'', stream_cipher AES CBC 16 24), (lit ''aes256-cbc'', stream_cipher AES CBC 16 32),
      (lit ''3des-cbc'', stream_cipher TripleDES CBC 8 24), (lit ''aes128-gcm@openssh.com'', gcm_cipher 16),
      (lit ''aes256-gcm@openssh.com'', gcm_cipher 32)]"

definition MAC_INFO :: "(ustr \<times> hash_class \<times> nat) list" where
  "MAC_INFO =
     [(lit ''hmac-sha1'', Sha1, 20), (lit ''hmac-sha1-96'', Sha1, 12), (lit ''hmac-sha2-256'', Sha256, 32),
      (lit ''hmac-sha2-256-etm@openssh.com'', Sha256, 32), (lit ''hmac-sha2-512'', Sha512, 64),
      (lit ''hmac-sha2-512-etm@openssh.com'', Sha512, 64), (lit ''hmac-md5'', Md5, 16), (lit ''hmac-md5-96'', Md5, 12)]"

text \<open>\<^verbatim>\<open>hashlib\<close>'s \<^verbatim>\<open>digest_size\<close>.\<close>

fun digest_size :: "hash_class \<Rightarrow> nat" where
  "digest_size Sha1 = 20"
| "digest_size Sha256 = 32"
| "digest_size Sha384 = 48"
| "digest_size Sha512 = 64"
| "digest_size Md5 = 16"

text \<open>\<^verbatim>\<open>_compression_info\<close>: whether there is a compressor.\<close>

definition COMPRESSION_INFO :: "(ustr \<times> bool) list" where
  "COMPRESSION_INFO = [(lit ''zlib@openssh.com'', True), (lit ''zlib'', True), (lit ''none'', False)]"

text \<open>\<^verbatim>\<open>hash_algo\<close> of the engine class of each key exchange algorithm.\<close>

definition KEX_HASH :: "(ustr \<times> hash_class) list" where
  "KEX_HASH =
     [(lit ''diffie-hellman-group-exchange-sha256'', Sha256), (lit ''diffie-hellman-group14-sha256'', Sha256),
      (lit ''diffie-hellman-group16-sha512'', Sha512), (lit ''ecdh-sha2-nistp256'', Sha256),
      (lit ''ecdh-sha2-nistp384'', Sha384), (lit ''ecdh-sha2-nistp521'', Sha512),
      (lit ''curve25519-sha256@libssh.org'', Sha256)]"

definition lookup :: "(ustr \<times> 'a) list \<Rightarrow> ustr \<Rightarrow> 'a res" where
  "lookup table name = (case map_of table name of None \<Rightarrow> Inl KeyError | Some x \<Rightarrow> Inr x)"

section \<open>The transport\<close>

record ('e, 'c) engines =
  cipher_engine :: "cipher_class \<Rightarrow> cipher_mode option \<Rightarrow> bytes \<Rightarrow> bytes \<Rightarrow> bool \<Rightarrow> 'e"
  aead_engine :: "cipher_class \<Rightarrow> bytes \<Rightarrow> 'e"
  new_compressor :: 'c
  new_decompressor :: 'c
  digest :: "hash_class \<Rightarrow> bytes \<Rightarrow> bytes"

record ('e, 'c) conn =
  neg :: kex
  packets :: "('e, hash_class, 'c) packetizer"
  shared_key :: "int option"
  exchange_hash :: "bytes option"
  session_id :: "bytes option"
  is_authed :: bool
  server_sig_algs :: bool
  expected_packet :: "byte list"
  has_auth_handler :: bool
  completion_event :: "bool option"
  local_version :: ustr
  remote_version :: ustr
  host_key :: "pkey option"

definition set_K_H :: "int \<Rightarrow> bytes \<Rightarrow> ('e, 'c) conn \<Rightarrow> ('e, 'c) conn" where
  "set_K_H k h t =
     t\<lparr>shared_key := Some k, exchange_hash := Some h,
       session_id := (case session_id t of None \<Rightarrow> Some h | Some s \<Rightarrow> Some s)\<rparr>"

definition expect_packet :: "byte list \<Rightarrow> ('e, 'c) conn \<Rightarrow> ('e, 'c) conn" where
  "expect_packet ptypes t = t\<lparr>expected_packet := ptypes\<rparr>"

text \<open>Running an operation of the packetizer.\<close>

definition on_packets :: "(('e, hash_class, 'c) packetizer, 'a) sm \<Rightarrow> (('e, 'c) conn, 'a) sm" where
  "on_packets f = (\<lambda>t. case f (packets t) of (r, p) \<Rightarrow> (r, t\<lparr>packets := p\<rparr>))"

section \<open>Key derivation\<close>

definition hash_algo :: "('e, 'c) conn \<Rightarrow> hash_class" where
  "hash_algo t =
     (case kex_engine (neg t) of None \<Rightarrow> Sha1
      | Some k \<Rightarrow> (case map_of KEX_HASH k of None \<Rightarrow> Sha1 | Some h \<Rightarrow> h))"

definition needed :: "'a option \<Rightarrow> 'a res" where
  "needed x = (case x of None \<Rightarrow> Inl TypeError | Some y \<Rightarrow> Inr y)"

definition key_message :: "int \<Rightarrow> bytes \<Rightarrow> bytes list \<Rightarrow> bytes res" where
  "key_message k h parts =
     (case bindS (add_mpint k) (\<lambda>_. bindS (add_bytes h) (\<lambda>_. modS (\<lambda>m. fold stream_write parts m))) (new_message None) of
        (Inl e, m) \<Rightarrow> Inl e
      | (Inr _, m) \<Rightarrow> Inr (asbytes m))"

text \<open>The loop that lengthens the key. A hash value is not empty, so \<open>nbytes\<close> rounds are enough (lemma
  \<open>key_loop_length\<close>); with an empty hash the code would not return, which is \<open>Blocked\<close>.\<close>

fun key_loop :: "(bytes \<Rightarrow> bytes) \<Rightarrow> int \<Rightarrow> bytes \<Rightarrow> nat \<Rightarrow> nat \<Rightarrow> bytes \<Rightarrow> bytes res" where
  "key_loop hash k h nbytes fuel sofar =
     (if nbytes \<le> length sofar then Inr (take nbytes sofar)
      else (case fuel of
              0 \<Rightarrow> Inl Blocked
            | Suc f \<Rightarrow> bindR (key_message k h [sofar]) (\<lambda>m. key_loop hash k h nbytes f (sofar @ hash m))))"

declare key_loop.simps [simp del]

definition compute_key :: "('e, 'c) engines \<Rightarrow> byte \<Rightarrow> nat \<Rightarrow> ('e, 'c) conn \<Rightarrow> bytes res" where
  "compute_key lib ident nbytes t =
     bindR (needed (shared_key t)) (\<lambda>k. bindR (needed (exchange_hash t)) (\<lambda>h. bindR (needed (session_id t)) (\<lambda>sid.
     bindR (key_message k h [[ident], sid]) (\<lambda>m.
       let hash = digest lib (hash_algo t) in key_loop hash k h nbytes nbytes (hash m)))))"

section \<open>The switch to new keys\<close>

definition get_engine ::
  "('e, 'c) engines \<Rightarrow> ustr \<Rightarrow> bytes \<Rightarrow> bytes \<Rightarrow> bool \<Rightarrow> bool \<Rightarrow> 'e res" where
  "get_engine lib name key iv encrypt aead =
     (case map_of CIPHER_INFO name of
        None \<Rightarrow> Inl (SSHException ''Unknown cipher'')
      | Some info \<Rightarrow> Inr (if aead then aead_engine lib (ci_class info) key
                         else cipher_engine lib (ci_class info) (ci_mode info) key iv encrypt))"

definition substring_in :: "ustr \<Rightarrow> ustr \<Rightarrow> bool" where
  "substring_in sub s \<longleftrightarrow> list_ex (\<lambda>i. take (length sub) (drop i s) = sub) [0..<Suc (length s)]"

text \<open>The parameters of one direction: the letters of initial vector, key and MAC key are those of the side that
  sends in that direction.\<close>

record 'e direction =
  dir_engine :: 'e
  dir_block_size :: nat
  dir_mac :: "hash_class option"
  dir_mac_size :: nat
  dir_mac_key :: bytes
  dir_etm :: bool
  dir_aead :: bool
  dir_iv :: bytes

definition letters :: "bool \<Rightarrow> byte \<times> byte \<times> byte" where
  "letters sent_by_server = (if sent_by_server then (66, 68, 70) else (65, 67, 69))"

definition iv_size :: "cipher_info \<Rightarrow> nat" where
  "iv_size info = (case ci_iv_size info of None \<Rightarrow> ci_block_size info | Some n \<Rightarrow> n)"

definition make_direction ::
  "cipher_info \<Rightarrow> 'e \<Rightarrow> bytes \<Rightarrow> ustr \<Rightarrow> hash_class \<Rightarrow> nat \<Rightarrow> bytes \<Rightarrow> 'e direction" where
  "make_direction info engine iv mac mac_class mac_size mac_key =
     (let aead = ci_is_aead info
      in \<lparr>dir_engine = engine, dir_block_size = ci_block_size info, dir_mac = (if aead then None else Some mac_class),
          dir_mac_size = (if aead then 16 else mac_size), dir_mac_key = (if aead then [] else mac_key),
          dir_etm = (\<not> aead \<and> substring_in (lit ''etm@openssh.com'') mac), dir_aead = aead, dir_iv = (if aead then iv else [])\<rparr>)"

definition derive_direction ::
  "('e, 'c) engines \<Rightarrow> bool \<Rightarrow> bool \<Rightarrow> ustr \<Rightarrow> ustr \<Rightarrow> ('e, 'c) conn \<Rightarrow> 'e direction res" where
  "derive_direction lib sent_by_server encrypt cipher mac t =
     (case letters sent_by_server of (iv_id, key_id, mac_id) \<Rightarrow>
       bindR (lookup CIPHER_INFO cipher) (\<lambda>info.
       bindR (compute_key lib iv_id (iv_size info) t) (\<lambda>iv.
       bindR (compute_key lib key_id (ci_key_size info) t) (\<lambda>key.
       bindR (get_engine lib cipher key iv encrypt (ci_is_aead info)) (\<lambda>engine.
       bindR (lookup MAC_INFO mac) (\<lambda>(mac_class, mac_size).
       bindR (compute_key lib mac_id (digest_size mac_class) t) (\<lambda>mac_key.
         Inr (make_direction info engine iv mac mac_class mac_size mac_key))))))))"

definition compression_on :: "ustr \<Rightarrow> bool \<Rightarrow> bool res" where
  "compression_on name authed =
     bindR (lookup COMPRESSION_INFO name) (\<lambda>some. Inr (some \<and> (name \<noteq> lit ''zlib@openssh.com'' \<or> authed)))"

definition set_outbound_compressor :: "'c \<Rightarrow> ('e, 'm, 'c) packetizer \<Rightarrow> ('e, 'm, 'c) packetizer" where
  "set_outbound_compressor z p = p\<lparr>compress_engine_out := Some z\<rparr>"

definition set_inbound_compressor :: "'c \<Rightarrow> ('e, 'm, 'c) packetizer \<Rightarrow> ('e, 'm, 'c) packetizer" where
  "set_inbound_compressor z p = p\<lparr>compress_engine_in := Some z\<rparr>"

definition activate_inbound :: "('e, 'c) engines \<Rightarrow> (('e, 'c) conn, unit) sm" where
  "activate_inbound lib = (\<lambda>t.
     bindS (liftR (derive_direction lib (\<not> server_mode (neg t)) False (remote_cipher (neg t)) (remote_mac (neg t)) t)) (\<lambda>d.
     bindS (on_packets (modS (set_inbound_cipher (Some (dir_engine d)) (dir_block_size d) (dir_mac d) (dir_mac_size d)
              (dir_mac_key d) (dir_etm d) (dir_aead d) (dir_iv d)))) (\<lambda>_.
     bindS (liftR (compression_on (remote_compression (neg t)) (is_authed t))) (\<lambda>z.
     bindS (if z then on_packets (modS (set_inbound_compressor (new_decompressor lib))) else retS ()) (\<lambda>_.
       if agreed_on_strict_kex (neg t) then on_packets (modS reset_seqno_in) else retS ())))) t)"

definition switch_outbound :: "('e, 'c) engines \<Rightarrow> (('e, 'c) conn, unit) sm" where
  "switch_outbound lib = (\<lambda>t.
     bindS (if agreed_on_strict_kex (neg t) then on_packets (modS reset_seqno_out) else retS ()) (\<lambda>_.
     bindS (liftR (derive_direction lib (server_mode (neg t)) True (local_cipher (neg t)) (local_mac (neg t)) t)) (\<lambda>d.
     bindS (on_packets (modS (set_outbound_cipher (Some (dir_engine d)) (dir_block_size d) (dir_mac d) (dir_mac_size d)
              (dir_mac_key d) (endswith (local_cipher (neg t)) (lit ''-ctr'')) (dir_etm d) (dir_aead d) (dir_iv d)))) (\<lambda>_.
     bindS (liftR (compression_on (local_compression (neg t)) (is_authed t))) (\<lambda>z.
       if z then on_packets (modS (set_outbound_compressor (new_compressor lib))) else retS ())))) t)"

definition ext_info_message :: "kex \<Rightarrow> bytes res" where
  "ext_info_message t =
     built [FByte MSG_EXT_INFO, FInt 1, FText (lit ''server-sig-algs''), FText (join [44] (filter_algorithm Pubkeys t))]"

definition activate_outbound :: "('e, hash_class, 'c) crypto \<Rightarrow> ('e, 'c) engines \<Rightarrow> int \<Rightarrow> (('e, 'c) conn, unit) sm" where
  "activate_outbound cr lib now =
     bindS (on_packets (send_message cr now [MSG_NEWKEYS])) (\<lambda>_.
     bindS (switch_outbound lib) (\<lambda>_.
     bindS (modS (\<lambda>t. if \<not> need_rekey (packets t) then t\<lparr>neg := (neg t)\<lparr>in_kex := False\<rparr>\<rparr> else t)) (\<lambda>_.
     bindS (\<lambda>t. if server_mode (neg t) \<and> server_sig_algs t \<and> remote_ext_info (neg t) = Some (lit ''ext-info-c'')
                then bindS (liftR (ext_info_message (neg t))) (\<lambda>b. on_packets (send_message cr now b)) t
                else (Inr (), t)) (\<lambda>_.
       modS (expect_packet [MSG_NEWKEYS])))))"

definition auth_trigger :: "('e, 'c) engines \<Rightarrow> ('e, 'c) conn \<Rightarrow> ('e, 'c) conn" where
  "auth_trigger lib t0 =
     (let t = t0\<lparr>is_authed := True\<rparr>;
          t1 = (if local_compression (neg t) = lit ''zlib@openssh.com''
                then t\<lparr>packets := set_outbound_compressor (new_compressor lib) (packets t)\<rparr> else t)
      in if remote_compression (neg t1) = lit ''zlib@openssh.com''
         then t1\<lparr>packets := set_inbound_compressor (new_decompressor lib) (packets t1)\<rparr> else t1)"

definition parse_newkeys :: "('e, 'c) engines \<Rightarrow> (('e, 'c) conn, unit) sm" where
  "parse_newkeys lib =
     bindS (activate_inbound lib) (\<lambda>_. modS (\<lambda>t.
       t\<lparr>neg := (neg t)\<lparr>local_kex_init := None, remote_kex_init := None, kex_engine := None, kex_done_once := True,
                 in_kex := (if \<not> need_rekey (packets t) then False else in_kex (neg t)), clear_to_send := True\<rparr>,
         shared_key := None, has_auth_handler := has_auth_handler t \<or> server_mode (neg t),
         packets := (if kex_done_once (neg t) then packets t else (packets t)\<lparr>initial_kex_done := True\<rparr>),
         completion_event := map_option (\<lambda>_. True) (completion_event t)\<rparr>))"

section \<open>Deriving keys\<close>

lemma key_message_bytes:
  "length (deflate_long k True) < 2 ^ 32 \<Longrightarrow> key_message k h parts = Inr (enc_string (deflate_long k True) @ h @ concat parts)"
proof -
  assume k: "length (deflate_long k True) < 2 ^ 32"
  have parts: "at_end m \<Longrightarrow> fold stream_write parts m = append_bytes m (concat parts)" for m
    by (induction parts arbitrary: m) (simp_all add: stream_write_end)
  have "put_field (FMpint k) (new_message None) = (Inr (), append_bytes (new_message None) (enc_field (FMpint k)))"
    by (rule put_field_end) (use k in \<open>simp_all add: ok_string_def\<close>)
  then show ?thesis
    by (simp add: key_message_def bindS_def add_bytes_def modS_def stream_write_end parts)
       (simp add: asbytes_def append_bytes_def new_message_def enc_field_def w_mpint.enc'_def)
qed

text \<open>The reference: RFC 4253, section 7.2.\<close>

fun rfc_blocks :: "(bytes \<Rightarrow> bytes) \<Rightarrow> bytes \<Rightarrow> nat \<Rightarrow> bytes \<Rightarrow> bytes" where
  "rfc_blocks hash pre 0 sofar = sofar"
| "rfc_blocks hash pre (Suc n) sofar = rfc_blocks hash pre n (sofar @ hash (pre @ sofar))"

lemma rfc_blocks_extend: "take (length sofar) (rfc_blocks hash pre n sofar) = sofar"
proof (induction n arbitrary: sofar)
  case (Suc n)
  have "take (length sofar) (rfc_blocks hash pre (Suc n) sofar) =
      take (length sofar) (take (length (sofar @ hash (pre @ sofar))) (rfc_blocks hash pre n (sofar @ hash (pre @ sofar))))"
    by simp
  then show ?case unfolding Suc by simp
qed simp

lemma rfc_blocks_length: "(\<And>x. hash x \<noteq> []) \<Longrightarrow> n + length sofar \<le> length (rfc_blocks hash pre n sofar)"
proof (induction n arbitrary: sofar)
  case (Suc n)
  have "Suc 0 \<le> length (hash (pre @ sofar))" using Suc.prems by (simp add: Suc_le_eq)
  moreover have "n + (length sofar + length (hash (pre @ sofar))) \<le> length (rfc_blocks hash pre (Suc n) sofar)"
    using Suc.IH [of "sofar @ hash (pre @ sofar)"] Suc.prems by simp
  ultimately show ?case by linarith
qed simp

lemma key_loop_length:
  assumes "\<And>x. hash x \<noteq> []" "length (deflate_long k True) < 2 ^ 32" "nbytes \<le> fuel + length sofar"
  shows "key_loop hash k h nbytes fuel sofar = Inr (take nbytes (rfc_blocks hash (enc_string (deflate_long k True) @ h) fuel sofar))"
  using assms(3)
proof (induction fuel arbitrary: sofar)
  case 0
  then show ?case by (simp add: key_loop.simps)
next
  case (Suc f)
  let ?pre = "enc_string (deflate_long k True) @ h"
  show ?case
  proof (cases "nbytes \<le> length sofar")
    case True
    have "take nbytes (rfc_blocks hash ?pre (Suc f) sofar) = take nbytes (take (length sofar) (rfc_blocks hash ?pre (Suc f) sofar))"
      using True by simp
    also have "\<dots> = take nbytes sofar" by (simp only: rfc_blocks_extend)
    finally show ?thesis using True by (simp add: key_loop.simps)
  next
    case False
    have "Suc 0 \<le> length (hash (?pre @ sofar))" using assms(1) by (simp add: Suc_le_eq)
    then have "nbytes \<le> f + length (sofar @ hash (?pre @ sofar))" using Suc.prems unfolding length_append by linarith
    from Suc.IH [OF this] False assms(2) show ?thesis
      by (subst key_loop.simps) (simp add: key_message_bytes bindR_def)
  qed
qed

definition rfc_key :: "(bytes \<Rightarrow> bytes) \<Rightarrow> int \<Rightarrow> bytes \<Rightarrow> bytes \<Rightarrow> byte \<Rightarrow> nat \<Rightarrow> bytes" where
  "rfc_key hash k h sid ident n =
     (let pre = enc_string (deflate_long k True) @ h in take n (rfc_blocks hash pre n (hash (pre @ [ident] @ sid))))"

definition has_secrets :: "int \<Rightarrow> bytes \<Rightarrow> bytes \<Rightarrow> ('e, 'c) conn \<Rightarrow> bool" where
  "has_secrets k h sid t \<longleftrightarrow>
     shared_key t = Some k \<and> exchange_hash t = Some h \<and> session_id t = Some sid \<and> length (deflate_long k True) < 2 ^ 32"

lemma compute_key_rfc:
  assumes "has_secrets k h sid t" "\<And>c x. digest lib c x \<noteq> []"
  shows "compute_key lib ident n t = Inr (rfc_key (digest lib (hash_algo t)) k h sid ident n)"
  using assms by (simp add: compute_key_def has_secrets_def needed_def key_message_bytes key_loop_length Let_def rfc_key_def bindR_def)

text \<open>Key derivation: with the secrets of an exchange every key comes out with exactly the length asked for, it is
  the key of RFC 4253 (hash blocks over the shared secret, the exchange hash and what has been produced so far), and a
  shorter key is a prefix of a longer one, so the loop needs no more than one round a byte and always ends.\<close>

theorem derived_keys:
  assumes "has_secrets k h sid t" "\<And>c x. digest lib c x \<noteq> []"
  shows "\<exists>key. compute_key lib ident n t = Inr key \<and> length key = n \<and>
     key = rfc_key (digest lib (hash_algo t)) k h sid ident n \<and>
     (\<forall>m \<le> n. \<exists>z. compute_key lib ident m t = Inr z \<and> z = take m key)"
proof -
  let ?hash = "digest lib (hash_algo t)"
  let ?pre = "enc_string (deflate_long k True) @ h"
  let ?b = "\<lambda>n. rfc_blocks ?hash ?pre n (?hash (?pre @ [ident] @ sid))"
  have more: "take m (rfc_blocks hash pre n s) = take m (rfc_blocks hash pre m s)" if "m \<le> n" "\<And>x. hash x \<noteq> []" for hash pre m n and s :: bytes
    using that(1)
  proof (induction n)
    case (Suc n)
    have snoc: "rfc_blocks hash pre (Suc n) s = rfc_blocks hash pre n s @ hash (pre @ rfc_blocks hash pre n s)" for n s
    proof (induction n arbitrary: s)
      case (Suc n)
      from Suc.IH [of "s @ hash (pre @ s)"] show ?case by (simp only: rfc_blocks.simps(2))
    qed simp
    show ?case
    proof (cases "m = Suc n")
      case False
      with Suc show ?thesis using rfc_blocks_length [of hash n s pre] that(2) by (simp add: snoc del: rfc_blocks.simps(2))
    qed simp
  qed simp
  have "n \<le> length (?b n)" using rfc_blocks_length [of ?hash n] assms(2) by (meson le_add1 order_trans)
  then have len: "length (rfc_key ?hash k h sid ident n) = n" by (simp add: rfc_key_def)
  have shorter: "rfc_key ?hash k h sid ident m = take m (rfc_key ?hash k h sid ident n)" if "m \<le> n" for m
  proof -
    have e: "take m (?b n) = take m (?b m)" by (rule more [OF that assms(2)])
    show ?thesis unfolding rfc_key_def Let_def take_take min_absorb1 [OF that] e ..
  qed
  show ?thesis
  proof (intro exI conjI allI impI)
    fix m assume "m \<le> n"
    then show "rfc_key ?hash k h sid ident m = take m (rfc_key ?hash k h sid ident n)" by (rule shorter)
  qed (rule compute_key_rfc [OF assms] len refl)+
qed


text \<open>Two sides with the same secrets, one of which sends to the other.\<close>

definition faces :: "('e, 'c) conn \<Rightarrow> ('e, 'c) conn \<Rightarrow> bool" where
  "faces c s \<longleftrightarrow>
     local_cipher (neg c) = remote_cipher (neg s) \<and> local_mac (neg c) = remote_mac (neg s) \<and>
     local_compression (neg c) = remote_compression (neg s) \<and> server_mode (neg c) = (\<not> server_mode (neg s)) \<and>
     kex_engine (neg c) = kex_engine (neg s) \<and> agreed_on_strict_kex (neg c) = agreed_on_strict_kex (neg s)"

lemma negotiated_faces:
  assumes "negotiated c0 s0 (neg c) (neg s)" "server_mode (neg c) = (\<not> server_mode (neg s))"
  shows "faces c s" "faces s c"
  using assms by (auto simp: negotiated_def faces_def strict_agreed_def kex_agreed_def ciphers_agreed_def macs_agreed_def
      compression_agreed_def simp del: lit_simps)

lemma cipher_block_sizes: "map_of CIPHER_INFO name = Some info \<Longrightarrow> 8 \<le> ci_block_size info"
proof -
  assume "map_of CIPHER_INFO name = Some info"
  then have "info \<in> snd ` set CIPHER_INFO" by (force dest: map_of_SomeD)
  moreover have "\<forall>i \<in> snd ` set CIPHER_INFO. 8 \<le> ci_block_size i" by (simp add: CIPHER_INFO_def stream_cipher_def gcm_cipher_def del: lit_simps)
  ultimately show ?thesis by blast
qed

text \<open>What both sides derive for the direction from \<open>c\<close> to \<open>s\<close>.\<close>

lemma derive_both:
  assumes "has_secrets k h sid c" "has_secrets k h sid s" "hash_algo c = hash_algo s" "\<And>cls x. digest lib cls x \<noteq> []"
    and "map_of CIPHER_INFO ci = Some info" "map_of MAC_INFO ma = Some mi"
    and E: "\<And>cls mode key iv. E (cipher_engine lib cls mode key iv True) (cipher_engine lib cls mode key iv False)"
      "\<And>cls key. E (aead_engine lib cls key) (aead_engine lib cls key)"
  obtains d d' where "derive_direction lib b True ci ma c = Inr d" "derive_direction lib b False ci ma s = Inr d'"
    "E (dir_engine d) (dir_engine d')" "d' = d\<lparr>dir_engine := dir_engine d'\<rparr>" "dir_block_size d = ci_block_size info"
    "\<not> (dir_etm d \<and> dir_aead d)"
proof -
  have k: "compute_key lib i n c = compute_key lib i n s" "\<exists>key. compute_key lib i n s = Inr key" for i n
    using compute_key_rfc [OF assms(1), of lib i n] compute_key_rfc [OF assms(2), of lib i n] assms(3,4) by simp_all
  obtain li lk lm where l: "letters b = (li, lk, lm)" by (metis prod_cases3)
  obtain mc ms where m: "mi = (mc, ms)" by fastforce
  obtain iv key mkey where keys: "compute_key lib li (iv_size info) s = Inr iv" "compute_key lib lk (ci_key_size info) s = Inr key"
    "compute_key lib lm (digest_size mc) s = Inr mkey" using k(2) by blast
  let ?eng = "\<lambda>b. if ci_is_aead info then aead_engine lib (ci_class info) key
      else cipher_engine lib (ci_class info) (ci_mode info) key iv b"
  let ?d = "\<lambda>b. make_direction info (?eng b) iv ma mc ms mkey"
  have "derive_direction lib b True ci ma c = Inr (?d True)" "derive_direction lib b False ci ma s = Inr (?d False)"
    using assms(5,6) keys by (simp_all add: derive_direction_def l m lookup_def bindR_def k(1) get_engine_def)
  moreover have "E (dir_engine (?d True)) (dir_engine (?d False))" using E by (simp add: make_direction_def Let_def)
  ultimately show thesis by (rule that) (simp_all add: make_direction_def Let_def del: lit_simps)
qed


lemma synced_outbound:
  assumes "synced E p r" and "E e d" "8 \<le> bs" "\<not> (etm \<and> aead)"
  shows "synced E (set_outbound_cipher (Some e) bs me ms mk sd etm aead iv p) (set_inbound_cipher (Some d) bs me ms mk etm aead iv r)"
  using assms by (simp add: synced_def set_outbound_cipher_def set_inbound_cipher_def count_init_def Let_def)

lemma synced_reset: "synced E p r \<Longrightarrow> synced E (reset_seqno_out p) (reset_seqno_in r)"
  by (simp add: synced_def reset_seqno_out_def reset_seqno_in_def cong: option.case_cong)

lemma reset_after_cipher:
  "reset_seqno_in (set_inbound_cipher e bs me ms mk etm aead iv r) = set_inbound_cipher e bs me ms mk etm aead iv (reset_seqno_in r)"
  by (simp add: set_inbound_cipher_def reset_seqno_in_def count_init_def Let_def)

definition engine_laws :: "('e, 'c) engines \<Rightarrow> ('e \<Rightarrow> 'e \<Rightarrow> bool) \<Rightarrow> bool" where
  "engine_laws lib E \<longleftrightarrow>
     (\<forall>cls mode key iv. E (cipher_engine lib cls mode key iv True) (cipher_engine lib cls mode key iv False)) \<and>
     (\<forall>cls key. E (aead_engine lib cls key) (aead_engine lib cls key)) \<and> (\<forall>cls x. digest lib cls x \<noteq> [])"

lemma switch_synced:
  assumes "faces c s" "has_secrets k h sid c" "has_secrets k h sid s" "engine_laws lib E"
    and "local_cipher (neg c) \<in> set (map fst CIPHER_INFO)" "local_mac (neg c) \<in> set (map fst MAC_INFO)"
    and "local_compression (neg c) = lit ''none''" "synced E (packets c) (packets s)"
  shows "\<exists>c' s'. switch_outbound lib c = (Inr (), c') \<and> activate_inbound lib s = (Inr (), s') \<and>
     synced E (packets c') (packets s') \<and> c' = c\<lparr>packets := packets c'\<rparr> \<and> s' = s\<lparr>packets := packets s'\<rparr> \<and>
     wire (packets c') = wire (packets c) \<and> (\<forall>bs. ready bs (packets s') = ready bs (packets s))"
proof -
  obtain info mi where t: "map_of CIPHER_INFO (local_cipher (neg c)) = Some info" "map_of MAC_INFO (local_mac (neg c)) = Some mi"
    using assms(5,6) by (metis image_set map_of_eq_None_iff not_None_eq)
  have f: "remote_cipher (neg s) = local_cipher (neg c)" "remote_mac (neg s) = local_mac (neg c)"
    "remote_compression (neg s) = local_compression (neg c)" "server_mode (neg s) = (\<not> server_mode (neg c))"
    "hash_algo c = hash_algo s" "agreed_on_strict_kex (neg s) = agreed_on_strict_kex (neg c)"
    using assms(1) by (auto simp: faces_def hash_algo_def)
  note laws = assms(4) [unfolded engine_laws_def]
  obtain d d' where d: "derive_direction lib (server_mode (neg c)) True (local_cipher (neg c)) (local_mac (neg c)) c = Inr d"
    "derive_direction lib (server_mode (neg c)) False (local_cipher (neg c)) (local_mac (neg c)) s = Inr d'"
    "E (dir_engine d) (dir_engine d')" "d' = d\<lparr>dir_engine := dir_engine d'\<rparr>" "dir_block_size d = ci_block_size info"
    "\<not> (dir_etm d \<and> dir_aead d)"
    by (rule derive_both [OF assms(2,3) f(5) _ t, of lib E "server_mode (neg c)"]) (use laws in blast)+
  obtain e' where e': "d' = d\<lparr>dir_engine := e'\<rparr>" "E (dir_engine d) e'" using d(3,4) by metis
  have b: "8 \<le> dir_block_size d" using cipher_block_sizes [OF t(1)] d(5) by simp
  have z: "compression_on (lit ''none'') a = Inr False" for a by (simp add: compression_on_def lookup_def COMPRESSION_INFO_def bindR_def)
  let ?p = "if agreed_on_strict_kex (neg c) then reset_seqno_out (packets c) else packets c"
  let ?r = "if agreed_on_strict_kex (neg c) then reset_seqno_in (packets s) else packets s"
  let ?p' = "set_outbound_cipher (Some (dir_engine d)) (dir_block_size d) (dir_mac d) (dir_mac_size d) (dir_mac_key d)
      (endswith (local_cipher (neg c)) (lit ''-ctr'')) (dir_etm d) (dir_aead d) (dir_iv d) ?p"
  let ?r' = "set_inbound_cipher (Some e') (dir_block_size d) (dir_mac d) (dir_mac_size d) (dir_mac_key d)
      (dir_etm d) (dir_aead d) (dir_iv d) ?r"
  have out: "switch_outbound lib c = (Inr (), c\<lparr>packets := ?p'\<rparr>)"
    using d(1) assms(7) by (simp add: switch_outbound_def bindS_def liftR_def on_packets_def modS_def retS_def z del: lit_simps)
  have inb: "activate_inbound lib s = (Inr (), s\<lparr>packets := ?r'\<rparr>)"
    using d(2) e'(1) assms(7)
    by (simp add: activate_inbound_def f bindS_def liftR_def on_packets_def modS_def retS_def z reset_after_cipher del: lit_simps)
  have "synced E ?p ?r" using assms(8) synced_reset by auto
  then have "synced E ?p' ?r'" using e'(2) b d(6) by (rule synced_outbound)
  moreover have "wire ?p' = wire (packets c)" "ready bs ?r' = ready bs (packets s)" for bs
    by (simp_all add: set_outbound_cipher_def set_inbound_cipher_def count_init_def Let_def reset_seqno_out_def reset_seqno_in_def
        ready_def handshake_timed_out_def)
  ultimately show ?thesis using out inb by simp
qed


lemma switch_outbound_only:
  "switch_outbound lib t = (Inr (), t') \<Longrightarrow> t' = t\<lparr>packets := packets t'\<rparr> \<and> wire (packets t') = wire (packets t)"
  by (auto simp: switch_outbound_def bindS_def liftR_def on_packets_def modS_def retS_def set_outbound_cipher_def count_init_def
      Let_def reset_seqno_out_def set_outbound_compressor_def simp del: lit_simps split: sum.splits if_splits)

lemma activate_outbound_quiet:
  assumes "send_message cr now [MSG_NEWKEYS] (packets c) = (Inr (), p)" "switch_outbound lib (c\<lparr>packets := p\<rparr>) = (Inr (), c2)"
    and "\<not> (server_mode (neg c) \<and> server_sig_algs c \<and> remote_ext_info (neg c) = Some (lit ''ext-info-c''))"
  shows "\<exists>c'. activate_outbound cr lib now c = (Inr (), c') \<and> packets c' = packets c2"
proof -
  have c2: "c2 = c\<lparr>packets := packets c2\<rparr>" using switch_outbound_only [OF assms(2)] by simp
  have "neg c2 = neg c" "server_sig_algs c2 = server_sig_algs c"
    using arg_cong [OF c2, of neg] arg_cong [OF c2, of server_sig_algs] by simp_all
  with assms(3) have "\<not> (server_mode (neg c2) \<and> server_sig_algs c2 \<and> remote_ext_info (neg c2) = Some (lit ''ext-info-c''))"
    by (simp del: lit_simps)
  then have "activate_outbound cr lib now c =
      (Inr (), expect_packet [MSG_NEWKEYS] (if \<not> need_rekey (packets c2) then c2\<lparr>neg := (neg c2)\<lparr>in_kex := False\<rparr>\<rparr> else c2))"
    using assms(1,2) by (simp add: activate_outbound_def bindS_def on_packets_def modS_def del: lit_simps) blast
  then show ?thesis by (simp add: expect_packet_def)
qed

text \<open>C8. The change of keys is seamless in both directions: after a negotiation, when two sides that hold the same secrets
  are in step and one of them sends NEWKEYS and switches its outbound side, the other reads exactly that message,
  still under the old keys, switches its inbound side on it, and the two are in step again under the new keys, so that
  by the delivery theorem of the link every later message is read.\<close>

theorem new_keys_in_step:
  assumes "good_crypto cr E (block_size_in (packets s)) (mac_size_in (packets s))" "engine_laws lib E" "synced E (packets c) (packets s)"
    and "faces c s" "has_secrets k h sid c" "has_secrets k h sid s"
    and "local_cipher (neg c) \<in> set (map fst CIPHER_INFO)" "local_mac (neg c) \<in> set (map fst MAC_INFO)"
    and "local_compression (neg c) = lit ''none''"
    and "activate_outbound cr lib now c = (Inr (), c')" "wire (packets c') = wire (packets c) @ sent"
    and "\<not> (server_mode (neg c) \<and> server_sig_algs c \<and> remote_ext_info (neg c) = Some (lit ''ext-info-c''))"
    and "ready (sent @ rest) (packets s)" "\<not> need_rekey (packets s)"
    and "next_seq (sequence_number_in (packets s)) = 0 \<longrightarrow> initial_kex_done (packets s)"
  shows "\<exists>r s'. read_message cr (packets s) = (Inr (wanted [MSG_NEWKEYS] (packets s)), r) \<and>
     parse_newkeys lib (s\<lparr>packets := r\<rparr>) = (Inr (), s') \<and> synced E (packets c') (packets s') \<and> ready rest (packets s')"
proof -
  obtain p where p: "send_message cr now [MSG_NEWKEYS] (packets c) = (Inr (), p)"
    using assms(10) by (auto simp: activate_outbound_def bindS_def on_packets_def split: prod.splits sum.splits)
  let ?c1 = "c\<lparr>packets := p\<rparr>"
  have neg2: "packets c' = packets c2" if "switch_outbound lib ?c1 = (Inr (), c2)" for c2
    using activate_outbound_quiet [OF p that assms(12)] assms(10) by auto
  have faces': "faces ?c1 t" if "neg t = neg s" for t :: "('a, 'b) conn" using assms(4) that by (simp add: faces_def)
  have secrets: "has_secrets k h sid ?c1" "has_secrets k h sid (s\<lparr>packets := r\<rparr>)" for r using assms(5,6) by (simp_all add: has_secrets_def)
  have sw: "\<exists>c' s'. switch_outbound lib ?c1 = (Inr (), c') \<and> activate_inbound lib (s\<lparr>packets := r\<rparr>) = (Inr (), s') \<and>
     synced E (packets c') (packets s') \<and> c' = ?c1\<lparr>packets := packets c'\<rparr> \<and> s' = s\<lparr>packets := r, packets := packets s'\<rparr> \<and>
     wire (packets c') = wire p \<and> (\<forall>bs. ready bs (packets s') = ready bs r)" if "synced E p r" for r
    using switch_synced [OF faces' secrets(1) secrets(2) [of r] assms(2)] assms(7,8,9) that by (simp del: lit_simps)
  have "wire p = wire (packets c) @ sent"
  proof -
    obtain c2 where "switch_outbound lib ?c1 = (Inr (), c2)"
      using assms(10) p by (auto simp: activate_outbound_def bindS_def on_packets_def split: prod.splits sum.splits)
    moreover have "c2 = ?c1\<lparr>packets := packets c2\<rparr> \<and> wire (packets c2) = wire p" if "switch_outbound lib ?c1 = (Inr (), c2)" for c2
      using switch_outbound_only [OF that] by simp
    ultimately have "wire (packets c') = wire p" using neg2 by metis
    then show ?thesis using assms(11) by simp
  qed
  from link_step [OF assms(1,3) p this assms(13-15)] obtain r where r: "ready rest r" "synced E p r"
    "read_message cr (packets s) = (Inr (wanted [MSG_NEWKEYS] (packets s)), r)" by blast
  from sw [OF r(2)] obtain c2 s2 where s2: "switch_outbound lib ?c1 = (Inr (), c2)" "activate_inbound lib (s\<lparr>packets := r\<rparr>) = (Inr (), s2)"
    "synced E (packets c2) (packets s2)" "c2 = ?c1\<lparr>packets := packets c2\<rparr>" "\<And>bs. ready bs (packets s2) = ready bs r" by blast
  obtain s' where s': "parse_newkeys lib (s\<lparr>packets := r\<rparr>) = (Inr (), s')"
    "packets s' = packets s2 \<or> packets s' = (packets s2)\<lparr>initial_kex_done := True\<rparr>"
    using s2(2) by (auto simp: parse_newkeys_def bindS_def modS_def)
  have "synced E (packets c2) ((packets s2)\<lparr>initial_kex_done := True\<rparr>) = synced E (packets c2) (packets s2)"
    "ready rest ((packets s2)\<lparr>initial_kex_done := True\<rparr>) = ready rest (packets s2)"
    by (simp_all add: synced_def ready_def handshake_timed_out_def cong: option.case_cong)
  then have "synced E (packets c') (packets s')" "ready rest (packets s')"
    using s'(2) s2(3,5) r(1) neg2 [OF s2(1)] by auto
  with r(3) s'(1) show ?thesis by blast
qed

text \<open>A witness: two sides without ciphers yet; the bytes of NEWKEYS arrive in two chunks.\<close>

definition plain_crypto :: "(unit, hash_class, unit) crypto" where
  "plain_crypto = \<lparr>upd = (\<lambda>e x. (x, e)), aead_encrypt = (\<lambda>e iv x a. x), aead_decrypt = (\<lambda>e iv x a. Inr x),
     hmac = (\<lambda>m k x. replicate 64 0), compress = (\<lambda>c x. (x, c)), decompress = (\<lambda>c x. (x, c)), urandom = (\<lambda>n. replicate n 0)\<rparr>"

definition plain_engines :: "(unit, unit) engines" where
  "plain_engines = \<lparr>cipher_engine = (\<lambda>cls mode key iv encrypt. ()), aead_engine = (\<lambda>cls key. ()), new_compressor = (),
     new_decompressor = (), digest = (\<lambda>cls x. [0, 1])\<rparr>"

definition plain_conn :: "bool \<Rightarrow> recv_event list \<Rightarrow> (unit, unit) conn" where
  "plain_conn server arriving =
     \<lparr>neg = plain_client\<lparr>server_mode := server, local_cipher := lit ''aes128-ctr'', remote_cipher := lit ''aes128-ctr'',
        local_mac := lit ''hmac-sha2-256'', remote_mac := lit ''hmac-sha2-256'', local_compression := lit ''none'',
        remote_compression := lit ''none''\<rparr>,
      packets = new_packetizer arriving [Sent 100] 0, shared_key = Some 5, exchange_hash = Some [1], session_id = Some [1],
      is_authed = False, server_sig_algs = True, expected_packet = [], has_auth_handler = False, completion_event = None, local_version = lit ''SSH-2.0-a'', remote_version = lit ''SSH-2.0-a'', host_key = None\<rparr>"

definition newkeys_packet :: bytes where
  "newkeys_packet = [0, 0, 0, 12, 10, MSG_NEWKEYS] @ replicate 10 0"

lemma newkeys_sent:
  "\<exists>p. send_message plain_crypto 0 [MSG_NEWKEYS] (packets (plain_conn False [])) = (Inr (), p) \<and> wire p = newkeys_packet \<and>
     block_engine_out p = None \<and> compress_engine_out p = None"
proof -
  let ?s = "new_packetizer [] [Sent 100] 0 :: (unit, hash_class, unit) packetizer"
  have b: "build_packet plain_crypto [MSG_NEWKEYS] ?s = Inr newkeys_packet"
    by (simp add: build_packet_def new_packetizer_def pack_be_def be_bytes_4 be_bytes_1 bindR_def newkeys_packet_def)
  have "encrypt_packet plain_crypto out ?s = (Inr out, ?s)" "compute_mac_out plain_crypto out out' ?s = Inr []"
    "compress_engine_out ?s = None" "next_seq (sequence_number_out ?s) = 1" for out out'
    by (simp_all add: encrypt_packet_def compute_mac_out_def new_packetizer_def next_seq_def)
  with b show ?thesis
    by (simp add: plain_conn_def send_message_def bindS_def modS_def write_all_def count_sent_def newkeys_packet_def replicate_8
        REKEY_PACKETS_def REKEY_BYTES_def Let_def) (simp add: new_packetizer_def)
qed

lemma plain_laws: "engine_laws plain_engines (\<lambda>_ _. True)" "good_crypto plain_crypto (\<lambda>_ _. True) 8 0"
  by (simp_all add: engine_laws_def plain_engines_def good_crypto_def plain_crypto_def)

lemma plain_secrets: "has_secrets 5 [1] [1] (plain_conn b es)"
proof -
  have "length (deflate_long 5 True) < 2 ^ 32"
    using deflate_inflate [of "[5]"] by (simp add: inflate_long_signed tc_val_def be_int_Cons normalized_def)
  then show ?thesis by (simp add: has_secrets_def plain_conn_def)
qed

lemma plain_faces: "faces (plain_conn False es) (plain_conn True es')"
  by (simp add: faces_def plain_conn_def plain_client_def new_kex_def del: lit_simps)

theorem new_keys_in_step_witness:
  "\<exists>c' r s'. activate_outbound plain_crypto plain_engines 0 (plain_conn False []) = (Inr (), c') \<and>
     read_message plain_crypto (packets (plain_conn True [Recv [0, 0, 0], Recv (drop 3 newkeys_packet @ [9])])) =
       (Inr (wanted [MSG_NEWKEYS] (packets (plain_conn True []))), r) \<and>
     parse_newkeys plain_engines ((plain_conn True [Recv [0, 0, 0], Recv (drop 3 newkeys_packet @ [9])])\<lparr>packets := r\<rparr>) = (Inr (), s') \<and>
     synced (\<lambda>_ _. True) (packets c') (packets s') \<and> ready [9] (packets s')"
proof -
  let ?c = "plain_conn False []" and ?s = "plain_conn True [Recv [0, 0, 0], Recv (drop 3 newkeys_packet @ [9])]"
  obtain p where p: "send_message plain_crypto 0 [MSG_NEWKEYS] (packets ?c) = (Inr (), p)" "wire p = newkeys_packet"
    using newkeys_sent by blast
  have law: "good_crypto plain_crypto (\<lambda>_ _. True) (block_size_in (packets ?s)) (mac_size_in (packets ?s))"
    using plain_laws(2) by (simp add: plain_conn_def new_packetizer_def)
  have sync: "synced (\<lambda>_ _. True) (packets ?c) (packets ?s)" by (simp add: synced_def plain_conn_def new_packetizer_def)
  have rd: "ready (newkeys_packet @ [9]) (packets ?s)" "\<not> need_rekey (packets ?s)"
    "next_seq (sequence_number_in (packets ?s)) = 0 \<longrightarrow> initial_kex_done (packets ?s)"
    by (simp_all add: ready_def plain_conn_def new_packetizer_def handshake_timed_out_def next_seq_def newkeys_packet_def)
  have algs: "local_cipher (neg ?c) \<in> set (map fst CIPHER_INFO)" "local_mac (neg ?c) \<in> set (map fst MAC_INFO)"
    "local_compression (neg ?c) = lit ''none''"
    by (simp_all add: plain_conn_def CIPHER_INFO_def MAC_INFO_def del: lit_simps)
  from link_step [OF law sync p(1) _ rd] p(2) obtain r where r: "synced (\<lambda>_ _. True) p r"
    by (auto simp: plain_conn_def new_packetizer_def)
  obtain c2 where c2: "switch_outbound plain_engines (?c\<lparr>packets := p\<rparr>) = (Inr (), c2)" "wire (packets c2) = newkeys_packet"
    using switch_synced [of "?c\<lparr>packets := p\<rparr>" "?s\<lparr>packets := r\<rparr>" 5 "[1]" "[1]" plain_engines "\<lambda>_ _. True"] plain_faces [of "[]"]
      plain_secrets plain_laws(1) algs r p(2) by (auto simp: faces_def has_secrets_def simp del: lit_simps)
  have noext: "\<not> (server_mode (neg ?c) \<and> server_sig_algs ?c \<and> remote_ext_info (neg ?c) = Some (lit ''ext-info-c''))"
    by (simp add: plain_conn_def)
  obtain c' where c': "activate_outbound plain_crypto plain_engines 0 ?c = (Inr (), c')" "packets c' = packets c2"
    using activate_outbound_quiet [OF p(1) c2(1) noext] by blast
  have "wire (packets c') = wire (packets ?c) @ newkeys_packet" using c'(2) c2(2) by (simp add: plain_conn_def new_packetizer_def)
  from new_keys_in_step [OF law plain_laws(1) sync plain_faces plain_secrets plain_secrets algs c'(1) this noext rd]
  show ?thesis using c'(1) by (auto simp: wanted_def plain_conn_def new_packetizer_def)
qed

theorem derived_keys_witness:
  "\<exists>key. compute_key plain_engines 65 16 (plain_conn True []) = Inr key \<and> length key = 16 \<and>
     key = rfc_key (\<lambda>x. [0, 1]) 5 [1] [1] 65 16"
proof -
  have "digest plain_engines cls x \<noteq> []" "digest plain_engines cls = (\<lambda>x. [0, 1])" for cls x by (simp_all add: plain_engines_def)
  with derived_keys [OF plain_secrets, of plain_engines 65 16] show ?thesis by fastforce
qed

end
