(* ===== verification/Signatures.thy ===== *)
theory Signatures
  imports Public_Keys
begin

text \<open>
  Signatures of \<^verbatim>\<open>paramiko/rsakey.py\<close>, \<^verbatim>\<open>ecdsakey.py\<close> and \<^verbatim>\<open>ed25519key.py\<close>: how a signature is wrapped in a message and
  how a received one is taken apart and checked, and the table that gives the key class of an algorithm name
  (\<^verbatim>\<open>Transport._key_info\<close>). Signing and verifying themselves are library code, the record \<open>signer\<close>: its functions are
  indexed by the numbers of the key, of which the library holds the private half.
\<close>

record signer =
  rsa_sign :: "int \<Rightarrow> int \<Rightarrow> digest_kind \<Rightarrow> bytes \<Rightarrow> bytes"
  rsa_verify :: "int \<Rightarrow> int \<Rightarrow> digest_kind \<Rightarrow> bytes \<Rightarrow> bytes \<Rightarrow> bool"
  ec_sign :: "ecdsa_curve \<Rightarrow> int \<Rightarrow> int \<Rightarrow> bytes \<Rightarrow> int \<times> int"
  ec_verify :: "ecdsa_curve \<Rightarrow> int \<Rightarrow> int \<Rightarrow> int \<times> int \<Rightarrow> bytes \<Rightarrow> bool"
  ed_sign :: "bytes \<Rightarrow> bytes \<Rightarrow> bytes"
  ed_verify :: "bytes \<Rightarrow> bytes \<Rightarrow> bytes \<Rightarrow> bool res"

section \<open>Wrapping a signature\<close>

text \<open>\<^verbatim>\<open>str.replace(pattern, "")\<close> for a pattern that is not empty.\<close>

function remove_all :: "ustr \<Rightarrow> ustr \<Rightarrow> ustr" where
  "remove_all p s =
     (if s = [] \<or> p = [] then s else if startswith s p then remove_all p (drop (length p) s) else hd s # remove_all p (tl s))"
  by auto
termination by (relation "measure (\<lambda>(p, s). length s)") auto

declare remove_all.simps [simp del]

definition sig_message :: "ustr \<Rightarrow> bytes \<Rightarrow> (message, unit) sm" where
  "sig_message name sig = bindS (add_text name) (\<lambda>_. add_string sig)"

definition message_of :: "(message, unit) sm \<Rightarrow> bytes res" where
  "message_of f = (case f (new_message None) of (Inl e, m) \<Rightarrow> Inl e | (Inr _, m) \<Rightarrow> Inr (asbytes m))"

definition sigencode :: "int \<times> int \<Rightarrow> bytes res" where
  "sigencode rs = message_of (bindS (add_mpint (fst rs)) (\<lambda>_. add_mpint (snd rs)))"

definition sigdecode :: "bytes \<Rightarrow> (int \<times> int) res" where
  "sigdecode sig = fst (bindS get_mpint (\<lambda>r. bindS get_mpint (\<lambda>s. retS (r, s))) (new_message (Some sig)))"

definition rsa_hash :: "ustr \<Rightarrow> digest_kind res" where
  "rsa_hash algorithm = (case map_of RSA_HASHES algorithm of None \<Rightarrow> Inl KeyError | Some h \<Rightarrow> Inr h)"

text \<open>The bytes of the message \<^verbatim>\<open>sign_ssh_data\<close> returns, of a key object that has the private half.\<close>

fun sign_ssh_data :: "signer \<Rightarrow> numbers \<Rightarrow> bytes \<Rightarrow> ustr option \<Rightarrow> bytes res" where
  "sign_ssh_data lib (Rsa e n) data algorithm =
     (let algo = (case algorithm of None \<Rightarrow> rsa_name | Some a \<Rightarrow> a)
      in bindR (rsa_hash algo) (\<lambda>h. message_of (sig_message (remove_all cert_suffix algo) (rsa_sign lib e n h data))))"
| "sign_ssh_data lib (Ecdsa c x y) data algorithm =
     bindR (sigencode (ec_sign lib c x y data)) (\<lambda>sig. message_of (sig_message (key_format_identifier c) sig))"
| "sign_ssh_data lib (Ed25519 v) data algorithm = message_of (sig_message ed25519_name (ed_sign lib v data))"

text \<open>Where a key object comes from: its public wire form (\<^verbatim>\<open>msg\<close> or \<^verbatim>\<open>data\<close>), or a private key file. An \<^verbatim>\<open>Ed25519Key\<close> of the
  second kind has no \<^verbatim>\<open>_verifying_key\<close>, and \<^verbatim>\<open>None\<close> has no method \<^verbatim>\<open>verify\<close>.\<close>

datatype key_source = From_wire | From_private_file

fun verify_ssh_sig :: "signer \<Rightarrow> backend \<Rightarrow> key_source \<Rightarrow> numbers \<Rightarrow> bytes \<Rightarrow> (message, bool) sm" where
  "verify_ssh_sig lib be src (Rsa e n) data =
     bindS get_text (\<lambda>algo.
       (case map_of RSA_HASHES algo of
          None \<Rightarrow> retS False
        | Some h \<Rightarrow> bindS get_binary (\<lambda>sign.
            let diff = int (rsa_key_size be n) - int (length sign) * 8;
                padded = (if diff > 0 then replicate (nat ((diff + 7) div 8)) 0 @ sign else sign)
            in retS (rsa_verify lib e n h padded data))))"
| "verify_ssh_sig lib be src (Ecdsa c x y) data =
     bindS get_text (\<lambda>algo.
       if algo \<noteq> key_format_identifier c then retS False
       else bindS get_binary (\<lambda>sig. bindS (liftR (sigdecode sig)) (\<lambda>rs. retS (ec_verify lib c x y rs data))))"
| "verify_ssh_sig lib be src (Ed25519 v) data =
     bindS get_text (\<lambda>algo.
       if algo \<noteq> ed25519_name then retS False
       else if src = From_private_file then raiseS AttributeError
       else bindS get_binary (\<lambda>sig. liftR (ed_verify lib v data sig)))"

section \<open>Key classes\<close>

datatype key_class = RSAKey | ECDSAKey | Ed25519Key

definition KEY_INFO :: "(ustr \<times> key_class) list" where
  "KEY_INFO =
     concat (map (\<lambda>(n, c). [(lit n, c), (lit n @ cert_suffix, c)])
       [(''rsa-sha2-256'', RSAKey), (''rsa-sha2-512'', RSAKey), (''ecdsa-sha2-nistp256'', ECDSAKey),
        (''ecdsa-sha2-nistp384'', ECDSAKey), (''ecdsa-sha2-nistp521'', ECDSAKey), (''ssh-ed25519'', Ed25519Key)])"

fun key_from_message :: "backend \<Rightarrow> key_class \<Rightarrow> (message, pkey) sm" where
  "key_from_message be RSAKey = rsa_from_message be"
| "key_from_message be ECDSAKey = ecdsa_from_message be"
| "key_from_message be Ed25519Key = ed25519_from_message"

fun class_of :: "numbers \<Rightarrow> key_class" where
  "class_of (Rsa e n) = RSAKey"
| "class_of (Ecdsa c x y) = ECDSAKey"
| "class_of (Ed25519 v) = Ed25519Key"

lemma key_read_back:
  assumes "backend_ok be k"
  shows "fst (key_from_message be (class_of k) (new_message (Some (concat (map enc_field (number_fields k)))))) =
     Inr \<lparr>pk_numbers = k, pk_public_blob = None\<rparr>"
proof -
  have w: "concat (map enc_field (number_fields k)) = enc_string (utf8_of (numbers_name k)) @ key_material k"
    using key_wire [OF assms] key_bytes_ok [of be "\<lparr>pk_numbers = k, pk_public_blob = None\<rparr>"] assms by simp
  have c: "c \<in> set ECDSA_CURVES" if "k = Ecdsa c x y" for c x y using assms that by (simp add: backend_ok_def Let_def)
  show ?thesis using from_plain [OF assms] type_dispatch c unfolding w
    by (cases k) (auto simp: from_type_string_def Let_def split: if_splits)
qed

section \<open>What was signed is verified\<close>

lemma message_of_fields: "list_all ok_field fs \<Longrightarrow> message_of (put_fields fs) = Inr (concat (map enc_field fs))"
  by (simp add: message_of_def put_fields_end [OF _ at_end_new]) (simp add: asbytes_def append_bytes_def new_message_def)

lemma sig_message_fields: "sig_message name sig = put_fields [FText name, FString sig]"
  by (simp add: sig_message_def bindS_ret)

lemma sigencode_fields: "sigencode rs = message_of (put_fields [FMpint (fst rs), FMpint (snd rs)])"
  by (simp add: sigencode_def bindS_ret)

definition signer_laws :: "signer \<Rightarrow> backend \<Rightarrow> bool" where
  "signer_laws lib be \<longleftrightarrow>
     (\<forall>e n h d. let s = rsa_sign lib e n h d in rsa_verify lib e n h s d \<and> ok_string s \<and> rsa_key_size be n \<le> 8 * length s) \<and>
     (\<forall>c x y d. let (r, s) = ec_sign lib c x y d
                in ec_verify lib c x y (r, s) d \<and> length (deflate_long r True) < 2 ^ 31 - 4 \<and> length (deflate_long s True) < 2 ^ 31 - 4) \<and>
     (\<forall>v d. ed_verify lib v d (ed_sign lib v d) = Inr True \<and> ok_string (ed_sign lib v d))"

definition signs_with :: "numbers \<Rightarrow> ustr option \<Rightarrow> bool" where
  "signs_with k algorithm \<longleftrightarrow> (case k of Rsa e n \<Rightarrow> (\<exists>a \<in> set (map fst RSA_HASHES). algorithm = Some a) | Ecdsa c x y \<Rightarrow> c \<in> set ECDSA_CURVES | Ed25519 v \<Rightarrow> True)"

lemma rsa_algorithms:
  "list_all (\<lambda>(a, h). map_of RSA_HASHES a = Some h \<and> map_of RSA_HASHES (remove_all cert_suffix a) = Some h \<and>
     list_all (\<lambda>c. c < 128) (remove_all cert_suffix a) \<and> length (remove_all cert_suffix a) < 100) RSA_HASHES"
  by code_simp


lemma signed_bytes:
  assumes "list_all (\<lambda>c. c < 128) name" "length name < 100" "ok_string sig"
  shows "message_of (sig_message name sig) = Inr (enc_string (utf8_of name) @ enc_string sig) \<and>
     (\<exists>b. utf8_encode name = Inr b \<and> ok_string b)"
proof -
  have n: "\<exists>b. utf8_encode name = Inr b \<and> ok_string b" using assms(1,2) by (intro ascii_text) auto
  with assms(3) show ?thesis using enc_text [OF n]
    by (simp add: sig_message_fields message_of_fields del: put_fields.simps)
qed

lemma sigdecode_encode:
  assumes "length (deflate_long r True) < 2 ^ 31 - 4" "length (deflate_long s True) < 2 ^ 31 - 4"
  shows "\<exists>b. sigencode (r, s) = Inr b \<and> ok_string b \<and> sigdecode b = Inr (r, s)"
proof -
  let ?b = "enc_field (FMpint r) @ enc_field (FMpint s)"
  have ok: "ok_field (FMpint r)" "ok_field (FMpint s)" using assms by (simp_all add: ok_string_def)
  then have "sigencode (r, s) = Inr ?b" by (simp add: sigencode_fields message_of_fields del: put_fields.simps)
  moreover have "ok_string ?b" using assms by (simp add: ok_string_def enc_field_def w_mpint.enc'_def)
  moreover have "sigdecode ?b = Inr (r, s)" unfolding sigdecode_def
    by (rule read_mpint [where r = "enc_field (FMpint s)"], simp, rule ok, rule read_mpint [where r = "[]"], simp, rule ok, simp add: retS_def)
  ultimately show ?thesis by blast
qed

lemma signature_verified:
  assumes "signer_laws lib be" "signs_with k algorithm"
  shows "\<exists>b. sign_ssh_data lib k data algorithm = Inr b \<and> fst (verify_ssh_sig lib be From_wire k data (new_message (Some b))) = Inr True \<and>
     fst (verify_ssh_sig lib be From_private_file k data (new_message (Some b))) =
       (case k of Ed25519 v \<Rightarrow> Inl AttributeError | _ \<Rightarrow> Inr True)"
proof (cases k)
  case (Rsa e n)
  with assms(2) obtain a h where a: "algorithm = Some a" "(a, h) \<in> set RSA_HASHES" by (auto simp: signs_with_def)
  let ?s = "rsa_sign lib e n h data" and ?a = "remove_all cert_suffix a"
  have r: "map_of RSA_HASHES a = Some h" "map_of RSA_HASHES ?a = Some h" "list_all (\<lambda>c. c < 128) ?a" "length ?a < 100"
    using rsa_algorithms a(2) by (auto simp: list_all_iff)
  have l0: "rsa_verify lib e n h ?s data" "ok_string ?s" "rsa_key_size be n \<le> 8 * length ?s"
    using assms(1) by (auto simp: signer_laws_def Let_def)
  then have l: "rsa_verify lib e n h ?s data" "ok_string ?s" "\<not> int (length ?s) * 8 < int (rsa_key_size be n)" by simp_all
  note w = signed_bytes [OF r(3,4) l(2)]
  have "fst (verify_ssh_sig lib be src k data (new_message (Some (enc_string (utf8_of ?a) @ enc_string ?s)))) = Inr True" for src
    unfolding Rsa verify_ssh_sig.simps
    by (rule read_text [where r = "enc_string ?s"], simp, use w in blast)
       (auto simp: r(2) retS_def Let_def l intro!: read_binary [where r = "[]"])
  moreover have "sign_ssh_data lib k data algorithm = Inr (enc_string (utf8_of ?a) @ enc_string ?s)"
    using w by (simp add: Rsa a(1) rsa_hash_def r(1) bindR_def)
  ultimately show ?thesis using Rsa by auto
next
  case (Ecdsa c x y)
  obtain r s where rs: "ec_sign lib c x y data = (r, s)" by fastforce
  have "case ec_sign lib c x y data of (r, s) \<Rightarrow>
      ec_verify lib c x y (r, s) data \<and> length (deflate_long r True) < 2 ^ 31 - 4 \<and> length (deflate_long s True) < 2 ^ 31 - 4"
    using assms(1) [unfolded signer_laws_def Let_def, THEN conjunct2, THEN conjunct1] by (elim allE)
  then have l: "ec_verify lib c x y (r, s) data" "length (deflate_long r True) < 2 ^ 31 - 4" "length (deflate_long s True) < 2 ^ 31 - 4"
    unfolding rs by simp_all
  from sigdecode_encode [OF l(2,3)] obtain b where b: "sigencode (r, s) = Inr b" "ok_string b" "sigdecode b = Inr (r, s)" by blast
  have "list_all (\<lambda>c. list_all (\<lambda>x. x < 128) (key_format_identifier c) \<and> length (key_format_identifier c) < 100) ECDSA_CURVES"
    by code_simp
  then have c: "list_all (\<lambda>x. x < 128) (key_format_identifier c)" "length (key_format_identifier c) < 100"
    using assms(2) Ecdsa by (auto simp: signs_with_def list_all_iff)
  note w = signed_bytes [OF c b(2)]
  have "fst (verify_ssh_sig lib be src k data (new_message (Some (enc_string (utf8_of (key_format_identifier c)) @ enc_string b)))) = Inr True" for src
    unfolding Ecdsa verify_ssh_sig.simps
    by (rule read_text [where r = "enc_string b"], simp, use w in blast)
       (auto simp: b l liftR_def bindS_def retS_def intro!: read_binary [where r = "[]", unfolded bindS_def])
  moreover have "sign_ssh_data lib k data algorithm = Inr (enc_string (utf8_of (key_format_identifier c)) @ enc_string b)"
    using w by (simp add: Ecdsa rs b bindR_def)
  ultimately show ?thesis using Ecdsa by auto
next
  case (Ed25519 v)
  let ?s = "ed_sign lib v data"
  have l: "ed_verify lib v data ?s = Inr True" "ok_string ?s" using assms(1) by (auto simp: signer_laws_def)
  have "list_all (\<lambda>c. c < 128) ed25519_name" "length ed25519_name < 100" by (simp_all add: ed25519_name_def)
  note w = signed_bytes [OF this l(2)]
  have "fst (verify_ssh_sig lib be From_wire k data (new_message (Some (enc_string (utf8_of ed25519_name) @ enc_string ?s)))) = Inr True"
    unfolding Ed25519 verify_ssh_sig.simps
    by (rule read_text [where r = "enc_string ?s"], simp, use w in blast)
       (auto simp: l liftR_def intro!: read_binary [where r = "[]"])
  moreover have "fst (verify_ssh_sig lib be From_private_file k data (new_message (Some (enc_string (utf8_of ed25519_name) @ enc_string ?s)))) =
      Inl AttributeError"
    unfolding Ed25519 verify_ssh_sig.simps
    by (rule read_text [where r = "enc_string ?s"], simp, use w in blast) (simp add: raiseS_def)
  moreover have "sign_ssh_data lib k data algorithm = Inr (enc_string (utf8_of ed25519_name) @ enc_string ?s)"
    using w by (simp add: Ed25519)
  ultimately show ?thesis using Ed25519 by auto
qed

text \<open>C37. A signature verifies: what a key signs over some data, with any algorithm it supports, plain or named as a
  certificate, is wrapped into a message that the public key, read from its wire form, takes apart and accepts, for each of
  the three kinds of keys. The key object that was loaded from the private key file accepts it too for RSA and ECDSA; an
  Ed25519 key object of that origin has no verifying key and raises \<^verbatim>\<open>AttributeError\<close> instead.\<close>

theorem signature_verifies:
  assumes "signer_laws lib be" "signs_with k algorithm"
  shows "\<exists>b. sign_ssh_data lib k data algorithm = Inr b \<and> fst (verify_ssh_sig lib be From_wire k data (new_message (Some b))) = Inr True \<and>
     fst (verify_ssh_sig lib be From_private_file k data (new_message (Some b))) =
       (case k of Ed25519 v \<Rightarrow> Inl AttributeError | _ \<Rightarrow> Inr True)"
  using assms by (rule signature_verified)

text \<open>Without an algorithm an RSA key cannot sign: the default is a name that is not in the table.\<close>

lemma rsa_default_algorithm: "sign_ssh_data lib (Rsa e n) data None = Inl KeyError"
proof -
  have "rsa_name \<notin> set (map fst RSA_HASHES)" by code_simp
  then have "map_of RSA_HASHES rsa_name = None" by (metis image_set map_of_eq_None_iff)
  then show ?thesis by (simp add: rsa_hash_def bindR_def)
qed

text \<open>A witness: signatures that repeat the beginning of the data.\<close>

definition sample_signer :: signer where
  "sample_signer =
     \<lparr>rsa_sign = (\<lambda>e n h d. 1 # take 3 d), rsa_verify = (\<lambda>e n h s d. s = 1 # take 3 d), ec_sign = (\<lambda>c x y d. (1, 2)),
      ec_verify = (\<lambda>c x y rs d. rs = (1, 2)), ed_sign = (\<lambda>v d. take 3 d), ed_verify = (\<lambda>v d s. Inr (s = take 3 d))\<rparr>"

definition sample_backend :: backend where
  "sample_backend = \<lparr>rsa_accepts = (\<lambda>e n. True), rsa_key_size = (\<lambda>n. 8), ec_point = (\<lambda>l b. None)\<rparr>"

lemma sample_laws: "signer_laws sample_signer sample_backend"
proof -
  have "length (deflate_long 1 True) < 100" "length (deflate_long 2 True) < 100"
    using deflate_inflate [of "[1]"] deflate_inflate [of "[2]"]
    by (simp_all add: inflate_long_signed tc_val_def be_int_Cons normalized_def)
  then show ?thesis by (simp add: signer_laws_def sample_signer_def sample_backend_def Let_def ok_string_def min_less_iff_disj)
qed

theorem signature_verifies_witness:
  "\<exists>b. sign_ssh_data sample_signer (Rsa 3 33) [5, 6] (Some (lit ''rsa-sha2-512'')) = Inr b \<and>
     fst (verify_ssh_sig sample_signer sample_backend From_wire (Rsa 3 33) [5, 6] (new_message (Some b))) = Inr True"
proof -
  have "signs_with (Rsa 3 33) (Some (lit ''rsa-sha2-512''))" by (simp add: signs_with_def RSA_HASHES_def)
  from signature_verifies [OF sample_laws this, of "[5, 6]"] show ?thesis by blast
qed

end
