(* ===== verification/Ssh_Dh.thy ===== *)
theory Ssh_Dh
  imports Ssh_Keying Signatures
begin

text \<open>
  Diffie-Hellman key exchange over a fixed group: \<^verbatim>\<open>paramiko/kex_group14.py\<close> and \<^verbatim>\<open>kex_group16.py\<close>, with
  \<^verbatim>\<open>Transport._verify_key\<close>. The state is the transport and the numbers \<open>x\<close>, \<open>e\<close>, \<open>f\<close> of the engine object. Shown: a client
  and a server that read each other's messages end with the same secrets.
\<close>

section \<open>Groups\<close>

record dh_group =
  gp_P :: int
  gp_G :: int
  gp_name :: ustr
  gp_hash :: hash_class

definition GROUP14 :: dh_group where
  "GROUP14 =
     \<lparr>gp_P = 0xFFFFFFFFFFFFFFFFC90FDAA22168C234C4C6628B80DC1CD129024E088A67CC74020BBEA63B139B22514A08798E3404DDEF9519B3CD3A431B302B0A6DF25F14374FE1356D6D51C245E485B576625E7EC6F44C42E9A637ED6B0BFF5CB6F406B7EDEE386BFB5A899FA5AE9F24117C4B1FE649286651ECE45B3DC2007CB8A163BF0598DA48361C55D39A69163FA8FD24CF5F83655D23DCA3AD961C62F356208552BB9ED529077096966D670C354E4ABC9804F1746C08CA18217C32905E462E36CE3BE39E772C180E86039B2783A2EC07A28FB5C55DF06F4C52C9DE2BCBF6955817183995497CEA956AE515D2261898FA051015728E5A8AACAA68FFFFFFFFFFFFFFFF,
      gp_G = 2, gp_name = lit ''diffie-hellman-group14-sha256'', gp_hash = Sha256\<rparr>"

definition GROUP16 :: dh_group where
  "GROUP16 =
     \<lparr>gp_P = 0xFFFFFFFFFFFFFFFFC90FDAA22168C234C4C6628B80DC1CD129024E088A67CC74020BBEA63B139B22514A08798E3404DDEF9519B3CD3A431B302B0A6DF25F14374FE1356D6D51C245E485B576625E7EC6F44C42E9A637ED6B0BFF5CB6F406B7EDEE386BFB5A899FA5AE9F24117C4B1FE649286651ECE45B3DC2007CB8A163BF0598DA48361C55D39A69163FA8FD24CF5F83655D23DCA3AD961C62F356208552BB9ED529077096966D670C354E4ABC9804F1746C08CA18217C32905E462E36CE3BE39E772C180E86039B2783A2EC07A28FB5C55DF06F4C52C9DE2BCBF6955817183995497CEA956AE515D2261898FA051015728E5A8AAAC42DAD33170D04507A33A85521ABDF1CBA64ECFB850458DBEF0A8AEA71575D060C7DB3970F85A6E1E4C7ABF5AE8CDB0933D71E8C94E04A25619DCEE3D2261AD2EE6BF12FFA06D98A0864D87602733EC86A64521F2B18177B200CBBE117577A615D6C770988C0BAD946E208E24FA074E5AB3143DB5BFCE0FD108E4B82D120A92108011A723C12A787E6D788719A10BDBA5B2699C327186AF4E23C1A946834B6150BDA2583E9CA2AD44CE8DBBBC2DB04DE8EF92E8EFC141FBECAA6287C59474E6BC05D99B2964FA090C3A2233BA186515BE7ED1F612970CEE2D7AFB81BDD762170481CD0069127D5B05AA993B4EA988D8FDDC186FFB7DC90A6C08F4DF435C934063199FFFFFFFFFFFFFFFF,
      gp_G = 2, gp_name = lit ''diffie-hellman-group16-sha512'', gp_hash = Sha512\<rparr>"

section \<open>The engine\<close>

text \<open>What the exchange uses from outside: the libraries, and the time at which it sends.\<close>

record ('e, 'c) world =
  w_crypto :: "('e, hash_class, 'c) crypto"
  w_engines :: "('e, 'c) engines"
  w_signer :: signer
  w_backend :: backend
  w_now :: int

record ('e, 'c) dh =
  tport :: "('e, 'c) conn"
  dh_x :: int
  dh_e :: int
  dh_f :: int

definition MSG_KEXDH_INIT :: byte where "MSG_KEXDH_INIT = 30"
definition MSG_KEXDH_REPLY :: byte where "MSG_KEXDH_REPLY = 31"

text \<open>\<^verbatim>\<open>pow(b, x, p)\<close> for an exponent that is not negative.\<close>

definition mod_pow :: "int \<Rightarrow> int \<Rightarrow> int \<Rightarrow> int" where
  "mod_pow b x p = b ^ nat x mod p"

definition on_tport :: "(('e, 'c) conn, 'a) sm \<Rightarrow> (('e, 'c) dh, 'a) sm" where
  "on_tport f = (\<lambda>d. case f (tport d) of (r, t) \<Rightarrow> (r, d\<lparr>tport := t\<rparr>))"

definition transport_send :: "('e, 'c) world \<Rightarrow> bytes \<Rightarrow> (('e, 'c) conn, unit) sm" where
  "transport_send w b = on_packets (send_message (w_crypto w) (w_now w) b)"

text \<open>The loop over random draws of 128 bytes; when the draws given are used up it has not ended yet.\<close>

fun generate_x :: "bytes list \<Rightarrow> int res" where
  "generate_x [] = Inl Blocked"
| "generate_x (r # draws) =
     (let x_bytes = (hd r AND 0x7F) # tl r
      in if take 8 x_bytes \<noteq> 0x7F # replicate 7 0xFF \<and> take 8 x_bytes \<noteq> replicate 8 0 then Inr (inflate_long x_bytes False)
         else generate_x draws)"

definition init_message :: "int \<Rightarrow> bytes res" where
  "init_message e = message_of (bindS (add_byte [MSG_KEXDH_INIT]) (\<lambda>_. add_mpint e))"

definition start_kex :: "('e, 'c) world \<Rightarrow> dh_group \<Rightarrow> bytes list \<Rightarrow> (('e, 'c) dh, unit) sm" where
  "start_kex w g draws = (\<lambda>d.
     bindS (liftR (generate_x draws)) (\<lambda>x. bindS (modS (\<lambda>d. d\<lparr>dh_x := x\<rparr>)) (\<lambda>_.
       if server_mode (neg (tport d)) then
         bindS (modS (\<lambda>d. d\<lparr>dh_f := mod_pow (gp_G g) x (gp_P g)\<rparr>)) (\<lambda>_. on_tport (modS (expect_packet [MSG_KEXDH_INIT])))
       else
         bindS (modS (\<lambda>d. d\<lparr>dh_e := mod_pow (gp_G g) x (gp_P g)\<rparr>)) (\<lambda>_.
         bindS (liftR (init_message (mod_pow (gp_G g) x (gp_P g)))) (\<lambda>b.
         bindS (on_tport (transport_send w b)) (\<lambda>_. on_tport (modS (expect_packet [MSG_KEXDH_REPLY]))))))) d)"

text \<open>What is hashed: client and server version, client and server KEXINIT, host key, \<open>e\<close>, \<open>f\<close>, \<open>K\<close>.\<close>

definition hash_input :: "ustr \<Rightarrow> ustr \<Rightarrow> bytes option \<Rightarrow> bytes option \<Rightarrow> bytes \<Rightarrow> int list \<Rightarrow> bytes res" where
  "hash_input vc vs ic iss key numbers =
     message_of (
       bindS (add_seq [PStr vc, PStr vs]) (\<lambda>_. bindS (liftR (needed ic)) (\<lambda>i. bindS (add_string i) (\<lambda>_.
       bindS (liftR (needed iss)) (\<lambda>i. bindS (add_string i) (\<lambda>_. bindS (add_string key) (\<lambda>_. put_fields (map FMpint numbers))))))))"

definition verify_key :: "('e, 'c) world \<Rightarrow> bytes \<Rightarrow> bytes \<Rightarrow> (('e, 'c) conn, unit) sm" where
  "verify_key w key_wire sig = (\<lambda>t.
     bindS (liftR (needed (host_key_type (neg t)))) (\<lambda>h.
     bindS (liftR (lookup KEY_INFO h)) (\<lambda>cls.
     bindS (liftR (fst (key_from_message (w_backend w) cls (new_message (Some key_wire))))) (\<lambda>key.
     bindS (liftR (needed (exchange_hash t))) (\<lambda>H.
     bindS (liftR (fst (verify_ssh_sig (w_signer w) (w_backend w) From_wire (pk_numbers key) H (new_message (Some sig))))) (\<lambda>good.
       if \<not> good then raiseS (SSHException ''Signature verification failed'')
       else modS (\<lambda>t. t\<lparr>host_key := Some key\<rparr>)))))) t)"

text \<open>The client's side, up to the switch of keys.\<close>

definition check_reply :: "('e, 'c) world \<Rightarrow> dh_group \<Rightarrow> message \<Rightarrow> (('e, 'c) dh, unit) sm" where
  "check_reply w g m = (\<lambda>d.
     case get_string m of
       (Inl e, _) \<Rightarrow> (Inl e, d)
     | (Inr key, m1) \<Rightarrow>
         (case get_mpint m1 of
            (Inl e, _) \<Rightarrow> (Inl e, d)
          | (Inr f, m2) \<Rightarrow>
              bindS (modS (\<lambda>d. d\<lparr>dh_f := f\<rparr>)) (\<lambda>_.
                if f < 1 \<or> f > gp_P g - 1 then raiseS (SSHException ''Server kex f is out of range'')
                else
                  bindS (liftR (fst (get_binary m2))) (\<lambda>sig. (\<lambda>d.
                    let t = tport d; K = mod_pow f (dh_x d) (gp_P g)
                    in bindS (liftR (hash_input (local_version t) (remote_version t) (local_kex_init (neg t))
                               (remote_kex_init (neg t)) key [dh_e d, f, K])) (\<lambda>hm.
                       bindS (on_tport (modS (set_K_H K (digest (w_engines w) (gp_hash g) hm)))) (\<lambda>_.
                         on_tport (verify_key w key sig))) d))) d))"

text \<open>The server's side, up to sending the reply that it gives.\<close>

definition reply_message :: "bytes \<Rightarrow> int \<Rightarrow> bytes \<Rightarrow> bytes res" where
  "reply_message key f sig =
     message_of (bindS (add_byte [MSG_KEXDH_REPLY]) (\<lambda>_. bindS (add_string key) (\<lambda>_. bindS (add_mpint f) (\<lambda>_. add_string sig))))"

definition answer_init :: "('e, 'c) world \<Rightarrow> dh_group \<Rightarrow> message \<Rightarrow> (('e, 'c) dh, bytes) sm" where
  "answer_init w g m =
     bindS (liftR (fst (get_mpint m))) (\<lambda>e. bindS (modS (\<lambda>d. d\<lparr>dh_e := e\<rparr>)) (\<lambda>_.
       if e < 1 \<or> e > gp_P g - 1 then raiseS (SSHException ''Client kex e is out of range'')
       else (\<lambda>d.
         let t = tport d; K = mod_pow e (dh_x d) (gp_P g)
         in (case get_server_key (neg t) of
               None \<Rightarrow> (Inl AttributeError, d)
             | Some sk \<Rightarrow>
                 bindS (liftR (key_bytes sk)) (\<lambda>key.
                 bindS (liftR (hash_input (remote_version t) (local_version t) (remote_kex_init (neg t)) (local_kex_init (neg t))
                          key [e, dh_f d, K])) (\<lambda>hm.
                   let H = digest (w_engines w) (gp_hash g) hm
                   in bindS (on_tport (modS (set_K_H K H))) (\<lambda>_.
                      bindS (liftR (sign_ssh_data (w_signer w) (pk_numbers sk) H (host_key_type (neg t)))) (\<lambda>sig.
                        liftR (reply_message key (dh_f d) sig))))) d))))"

definition parse_kexdh_reply :: "('e, 'c) world \<Rightarrow> dh_group \<Rightarrow> message \<Rightarrow> (('e, 'c) dh, unit) sm" where
  "parse_kexdh_reply w g m =
     bindS (check_reply w g m) (\<lambda>_. on_tport (activate_outbound (w_crypto w) (w_engines w) (w_now w)))"

definition parse_kexdh_init :: "('e, 'c) world \<Rightarrow> dh_group \<Rightarrow> message \<Rightarrow> (('e, 'c) dh, unit) sm" where
  "parse_kexdh_init w g m =
     bindS (answer_init w g m) (\<lambda>b. bindS (on_tport (transport_send w b)) (\<lambda>_.
       on_tport (activate_outbound (w_crypto w) (w_engines w) (w_now w))))"

definition parse_next :: "('e, 'c) world \<Rightarrow> dh_group \<Rightarrow> byte \<Rightarrow> message \<Rightarrow> (('e, 'c) dh, unit) sm" where
  "parse_next w g ptype m = (\<lambda>d.
     if server_mode (neg (tport d)) \<and> ptype = MSG_KEXDH_INIT then parse_kexdh_init w g m d
     else if \<not> server_mode (neg (tport d)) \<and> ptype = MSG_KEXDH_REPLY then parse_kexdh_reply w g m d
     else (Inl (SSHException ''KexGroup14SHA256 asked to handle packet type''), d))"

section \<open>Agreement\<close>

lemma mod_pow_range:
  assumes "1 < p" "coprime b p"
  shows "1 \<le> mod_pow b x p" "mod_pow b x p \<le> p - 1"
proof -
  have "coprime (b ^ nat x) p" using assms(2) by simp
  then have "\<not> p dvd b ^ nat x" using assms(1) coprime_common_divisor [of "b ^ nat x" p p] by (auto simp: zdvd1_eq)
  then have "b ^ nat x mod p \<noteq> 0" by (simp add: dvd_eq_mod_eq_0)
  moreover have "0 \<le> b ^ nat x mod p" "b ^ nat x mod p < p" using assms(1) by simp_all
  ultimately show "1 \<le> mod_pow b x p" "mod_pow b x p \<le> p - 1" by (simp_all add: mod_pow_def)
qed

lemma mod_pow_swap: "mod_pow (mod_pow b x p) y p = mod_pow (mod_pow b y p) x p"
  by (simp add: mod_pow_def power_mod power_mult [symmetric] mult.commute)

lemma deflate_long_signed_fits:
  assumes "0 \<le> n" "n < 256 ^ k" "0 < k"
  shows "length (deflate_long n True) \<le> Suc k"
proof -
  have "length (deflate_long n True) \<le> Suc (length (deflate_long n False))"
    by (simp add: deflate_long_def Let_def split: prod.splits)
  with deflate_long_fits [OF assms] show ?thesis by linarith
qed

definition group_ok :: "dh_group \<Rightarrow> bool" where
  "group_ok g \<longleftrightarrow> 1 < gp_P g \<and> coprime (gp_G g) (gp_P g) \<and> gp_P g < 256 ^ 1000"

lemma group_number:
  assumes "group_ok g" "0 \<le> n" "n < gp_P g"
  shows "ok_field (FMpint n)"
proof -
  have "length (deflate_long n True) \<le> Suc 1000"
    by (rule deflate_long_signed_fits) (use assms in \<open>auto simp: group_ok_def\<close>)
  then show ?thesis by (simp add: ok_string_def)
qed

text \<open>The groups of the code.\<close>

lemma groups_ok: "group_ok GROUP14" "group_ok GROUP16"
  unfolding group_ok_def GROUP14_def GROUP16_def dh_group.simps by (simp_all add: coprime_left_2_iff_odd)

text \<open>A client and a server after the negotiation, before the exchange.\<close>

definition dh_peers :: "backend \<Rightarrow> pkey \<Rightarrow> ('e, 'c) conn \<Rightarrow> ('e, 'c) conn \<Rightarrow> bool" where
  "dh_peers be sk c s \<longleftrightarrow>
     \<not> server_mode (neg c) \<and> server_mode (neg s) \<and>
     local_version c = remote_version s \<and> remote_version c = local_version s \<and>
     (\<forall>v \<in> {local_version c, remote_version c}. \<exists>b. utf8_encode v = Inr b \<and> ok_string b) \<and>
     local_kex_init (neg c) = remote_kex_init (neg s) \<and> remote_kex_init (neg c) = local_kex_init (neg s) \<and>
     (\<forall>k \<in> {local_kex_init (neg c), remote_kex_init (neg c)}. \<exists>b. k = Some b \<and> ok_string b) \<and>
     session_id c = session_id s \<and> host_key_type (neg c) = host_key_type (neg s) \<and> get_server_key (neg s) = Some sk \<and>
     backend_ok be (pk_numbers sk) \<and>
     (\<exists>h. host_key_type (neg s) = Some h \<and> map_of KEY_INFO h = Some (class_of (pk_numbers sk)) \<and> signs_with (pk_numbers sk) (Some h))"

text \<open>What the exchange leaves alone.\<close>

definition same_peer :: "('e, 'c) conn \<Rightarrow> ('e, 'c) conn \<Rightarrow> bool" where
  "same_peer t0 t \<longleftrightarrow> neg t = neg t0 \<and> local_version t = local_version t0 \<and> remote_version t = remote_version t0 \<and> session_id t = session_id t0"

lemma dh_peers_same:
  assumes "dh_peers be sk c s" "same_peer c c'" "same_peer s s'"
  shows "dh_peers be sk c' s'"
proof -
  have e: "neg c' = neg c" "local_version c' = local_version c" "remote_version c' = remote_version c" "session_id c' = session_id c"
    "neg s' = neg s" "local_version s' = local_version s" "remote_version s' = remote_version s" "session_id s' = session_id s"
    using assms(2,3) by (simp_all add: same_peer_def)
  show ?thesis using assms(1) unfolding dh_peers_def e .
qed

text \<open>The server's view of the peers.\<close>

lemma dh_peers_server:
  assumes "dh_peers be sk c s"
  shows "\<exists>b. remote_kex_init (neg s) = Some b \<and> ok_string b" "\<exists>b. local_kex_init (neg s) = Some b \<and> ok_string b"
    "\<exists>b. utf8_encode (remote_version s) = Inr b \<and> ok_string b" "\<exists>b. utf8_encode (local_version s) = Inr b \<and> ok_string b"
proof -
  have e: "remote_kex_init (neg s) = local_kex_init (neg c)" "local_kex_init (neg s) = remote_kex_init (neg c)"
    "remote_version s = local_version c" "local_version s = remote_version c" using assms by (simp_all add: dh_peers_def)
  show "\<exists>b. remote_kex_init (neg s) = Some b \<and> ok_string b" "\<exists>b. local_kex_init (neg s) = Some b \<and> ok_string b"
    "\<exists>b. utf8_encode (remote_version s) = Inr b \<and> ok_string b" "\<exists>b. utf8_encode (local_version s) = Inr b \<and> ok_string b"
    unfolding e using assms unfolding dh_peers_def by blast+
qed

lemma sent_same: "transport_send w b t = (r, t') \<Longrightarrow> same_peer t t'"
  by (auto simp: transport_send_def on_packets_def same_peer_def split: prod.splits)

lemma start_client:
  assumes "start_kex w g draws d0 = (Inr (), d)" "\<not> server_mode (neg (tport d0))"
  shows "dh_e d = mod_pow (gp_G g) (dh_x d) (gp_P g) \<and> same_peer (tport d0) (tport d)"
  using assms by (auto simp: start_kex_def bindS_def liftR_def modS_def on_tport_def expect_packet_def same_peer_def
      split: sum.splits prod.splits dest!: sent_same)

lemma start_server:
  assumes "start_kex w g draws d0 = (Inr (), d)" "server_mode (neg (tport d0))"
  shows "dh_f d = mod_pow (gp_G g) (dh_x d) (gp_P g) \<and> same_peer (tport d0) (tport d)"
  using assms by (auto simp: start_kex_def bindS_def liftR_def modS_def on_tport_def expect_packet_def same_peer_def
      split: sum.splits prod.splits)

lemma init_message_bytes: "ok_field (FMpint e) \<Longrightarrow> init_message e = Inr (MSG_KEXDH_INIT # enc_field (FMpint e))"
  using message_of_fields [of "[FByte MSG_KEXDH_INIT, FMpint e]"] by (simp add: init_message_def bindS_ret)

lemma reply_message_bytes:
  "ok_string key \<Longrightarrow> ok_field (FMpint f) \<Longrightarrow> ok_string sig \<Longrightarrow>
     reply_message key f sig = Inr (MSG_KEXDH_REPLY # enc_string key @ enc_field (FMpint f) @ enc_string sig)"
  using message_of_fields [of "[FByte MSG_KEXDH_REPLY, FString key, FMpint f, FString sig]"] by (simp add: reply_message_def bindS_ret)

lemma hash_input_total:
  assumes "\<exists>b. utf8_encode vc = Inr b \<and> ok_string b" "\<exists>b. utf8_encode vs = Inr b \<and> ok_string b"
    and "ok_string ic" "ok_string iss" "ok_string key" "\<forall>n \<in> set ns. ok_field (FMpint n)"
  shows "\<exists>b. hash_input vc vs (Some ic) (Some iss) key ns = Inr b"
proof -
  have "hash_input vc vs (Some ic) (Some iss) key ns =
      message_of (put_fields ([FText vc, FText vs, FString ic, FString iss, FString key] @ map FMpint ns))"
    by (simp add: hash_input_def needed_def liftR_def bindS_assoc) (simp add: bindS_def retS_def)
  also have "\<dots> = Inr (concat (map enc_field ([FText vc, FText vs, FString ic, FString iss, FString key] @ map FMpint ns)))"
    by (rule message_of_fields) (use assms in \<open>simp add: list_all_iff\<close>)
  finally show ?thesis by blast
qed

text \<open>Key and signature fit their fields.\<close>

definition fits_wire :: "signer \<Rightarrow> pkey \<Rightarrow> ustr \<Rightarrow> bool" where
  "fits_wire sg sk h \<longleftrightarrow>
     (\<forall>b. key_bytes sk = Inr b \<longrightarrow> ok_string b) \<and> (\<forall>d b. sign_ssh_data sg (pk_numbers sk) d (Some h) = Inr b \<longrightarrow> ok_string b)"

lemma get_mpint_all: "ok_field (FMpint e) \<Longrightarrow> fst (get_mpint (new_message (Some (enc_field (FMpint e))))) = Inr e"
  using f_mpint.get_prefix [of e "new_message (Some (enc_field (FMpint e)))" "[]"] by (simp add: enc_field_def)

lemma server_answers:
  assumes g: "group_ok g" and p: "dh_peers (w_backend w) sk c (tport s)" "signer_laws (w_signer w) (w_backend w)"
    and wd: "\<And>h. host_key_type (neg (tport s)) = Some h \<Longrightarrow> fits_wire (w_signer w) sk h"
    and f: "dh_f s = mod_pow (gp_G g) (dh_x s) (gp_P g)" and e: "1 \<le> e" "e \<le> gp_P g - 1"
  obtains key hm H sig where "key_bytes sk = Inr key" "ok_string key"
    "hash_input (remote_version (tport s)) (local_version (tport s)) (remote_kex_init (neg (tport s))) (local_kex_init (neg (tport s)))
       key [e, dh_f s, mod_pow e (dh_x s) (gp_P g)] = Inr hm"
    "H = digest (w_engines w) (gp_hash g) hm"
    "fst (verify_ssh_sig (w_signer w) (w_backend w) From_wire (pk_numbers sk) H (new_message (Some sig))) = Inr True" "ok_string sig"
    "answer_init w g (new_message (Some (enc_field (FMpint e)))) s =
       (Inr (MSG_KEXDH_REPLY # enc_string key @ enc_field (FMpint (dh_f s)) @ enc_string sig),
        s\<lparr>dh_e := e, tport := set_K_H (mod_pow e (dh_x s) (gp_P g)) H (tport s)\<rparr>)"
proof -
  let ?t = "tport s" and ?K = "mod_pow e (dh_x s) (gp_P g)"
  obtain h where h: "host_key_type (neg ?t) = Some h" "signs_with (pk_numbers sk) (Some h)" "get_server_key (neg ?t) = Some sk"
    "backend_ok (w_backend w) (pk_numbers sk)"
    using p(1) by (auto simp: dh_peers_def)
  obtain key where key: "key_bytes sk = Inr key" "ok_string key" using key_bytes_ok [OF h(4)] wd [OF h(1)] by (auto simp: fits_wire_def)
  have fr: "1 \<le> dh_f s" "dh_f s \<le> gp_P g - 1" using mod_pow_range g by (simp_all add: f group_ok_def)
  have Kr: "0 \<le> ?K" "?K < gp_P g" using g by (simp_all add: mod_pow_def group_ok_def)
  have nums: "ok_field (FMpint e)" "ok_field (FMpint (dh_f s))" "ok_field (FMpint ?K)"
    using e fr Kr by (intro group_number [OF g]; simp)+
  obtain ic iss where ki: "remote_kex_init (neg ?t) = Some ic" "local_kex_init (neg ?t) = Some iss" "ok_string ic" "ok_string iss"
    using dh_peers_server(1,2) [OF p(1)] by blast
  obtain hm where hm: "hash_input (remote_version ?t) (local_version ?t) (remote_kex_init (neg ?t)) (local_kex_init (neg ?t))
      key [e, dh_f s, ?K] = Inr hm"
    using hash_input_total [OF dh_peers_server(3,4) [OF p(1)] ki(3,4) key(2), of "[e, dh_f s, ?K]"] nums ki(1,2) by auto
  define H where "H = digest (w_engines w) (gp_hash g) hm"
  obtain sig where sig: "sign_ssh_data (w_signer w) (pk_numbers sk) H (Some h) = Inr sig"
    "fst (verify_ssh_sig (w_signer w) (w_backend w) From_wire (pk_numbers sk) H (new_message (Some sig))) = Inr True"
    using signature_verified [OF p(2) h(2)] by blast
  then have ok: "ok_string sig" using wd [OF h(1)] by (simp add: fits_wire_def)
  have "answer_init w g (new_message (Some (enc_field (FMpint e)))) s =
       (Inr (MSG_KEXDH_REPLY # enc_string key @ enc_field (FMpint (dh_f s)) @ enc_string sig),
        s\<lparr>dh_e := e, tport := set_K_H ?K H ?t\<rparr>)"
    unfolding answer_init_def get_mpint_all [OF nums(1)] using e h(1,3) key(1) hm sig(1) reply_message_bytes [OF key(2) nums(2) ok]
    by (simp add: bindS_def liftR_def modS_def on_tport_def Let_def H_def [symmetric])
  with key hm H_def sig(2) ok that show thesis by blast
qed

lemma get_string_at: "ok_string b \<Longrightarrow> get_remainder m = enc_string b @ r \<Longrightarrow> \<exists>m'. get_string m = (Inr b, m') \<and> get_remainder m' = r"
  using f_string.get_prefix [of b m r] by simp

lemma get_mpint_at: "ok_field (FMpint n) \<Longrightarrow> get_remainder m = enc_field (FMpint n) @ r \<Longrightarrow> \<exists>m'. get_mpint m = (Inr n, m') \<and> get_remainder m' = r"
  using f_mpint.get_prefix [of n m r] by (simp add: enc_field_def)

lemma client_accepts:
  assumes g: "group_ok g" and p: "dh_peers (w_backend w) sk (tport c) s" and key: "key_bytes sk = Inr key" "ok_string key" "ok_string sig"
    and f: "1 \<le> f" "f \<le> gp_P g - 1"
    and hm: "hash_input (local_version (tport c)) (remote_version (tport c)) (local_kex_init (neg (tport c))) (remote_kex_init (neg (tport c)))
       key [dh_e c, f, mod_pow f (dh_x c) (gp_P g)] = Inr hm"
    and H: "H = digest (w_engines w) (gp_hash g) hm"
    and sig: "fst (verify_ssh_sig (w_signer w) (w_backend w) From_wire (pk_numbers sk) H (new_message (Some sig))) = Inr True"
  shows "check_reply w g (new_message (Some (enc_string key @ enc_field (FMpint f) @ enc_string sig))) c =
     (Inr (), c\<lparr>dh_f := f, tport := (set_K_H (mod_pow f (dh_x c) (gp_P g)) H (tport c))
        \<lparr>host_key := Some \<lparr>pk_numbers = pk_numbers sk, pk_public_blob = None\<rparr>\<rparr>\<rparr>)"
proof -
  let ?m = "new_message (Some (enc_string key @ enc_field (FMpint f) @ enc_string sig))" and ?t = "tport c"
    and ?K = "mod_pow f (dh_x c) (gp_P g)"
  have fo: "ok_field (FMpint f)" using f by (intro group_number [OF g]) auto
  obtain m1 where m1: "get_string ?m = (Inr key, m1)" "get_remainder m1 = enc_field (FMpint f) @ enc_string sig"
    using get_string_at [OF key(2), of ?m] by auto
  obtain m2 where m2: "get_mpint m1 = (Inr f, m2)" "get_remainder m2 = enc_string sig @ []"
    using get_mpint_at [OF fo m1(2)] by auto
  have m3: "fst (get_binary m2) = Inr sig" using f_string.get_prefix [OF key(3) m2(2)] by (simp add: get_binary_eq)
  obtain h where h: "host_key_type (neg ?t) = Some h" "map_of KEY_INFO h = Some (class_of (pk_numbers sk))"
    "backend_ok (w_backend w) (pk_numbers sk)" using p by (auto simp: dh_peers_def)
  have kb: "fst (key_from_message (w_backend w) (class_of (pk_numbers sk)) (new_message (Some key))) =
      Inr \<lparr>pk_numbers = pk_numbers sk, pk_public_blob = None\<rparr>"
    using key_read_back [OF h(3)] key_bytes_ok [OF h(3)] key(1) by simp
  have vk: "verify_key w key sig (set_K_H ?K H ?t) =
      (Inr (), (set_K_H ?K H ?t)\<lparr>host_key := Some \<lparr>pk_numbers = pk_numbers sk, pk_public_blob = None\<rparr>\<rparr>)"
    using h(1,2) kb sig by (simp add: verify_key_def set_K_H_def needed_def lookup_def liftR_def bindS_def modS_def)
  show ?thesis unfolding check_reply_def m1(1) prod.case sum.case m2(1) m3
    using f hm vk by (simp add: bindS_def liftR_def modS_def on_tport_def Let_def H [symmetric])
qed

text \<open>C7. Key agreement: over a group whose generator is coprime to its modulus, a negotiated client and server that have
  started the exchange understand each other: the server's answer to the client's message and the client's check of that
  answer both succeed, both sides then hold the same shared secret (\<open>G\<close> to the product of the two private exponents),
  the same exchange hash and session id, and the client has recorded exactly the server's host key.\<close>

theorem dh_agreement:
  assumes "group_ok g" "dh_peers (w_backend w) sk (tport c0) (tport s0)" "signer_laws (w_signer w) (w_backend w)"
    and "\<And>h. host_key_type (neg (tport s0)) = Some h \<Longrightarrow> fits_wire (w_signer w) sk h"
    and "start_kex w g draws_c c0 = (Inr (), c)" "start_kex w g draws_s s0 = (Inr (), s)"
  shows "\<exists>m reply s' c' K H sid.
     init_message (dh_e c) = Inr (MSG_KEXDH_INIT # m) \<and>
     answer_init w g (new_message (Some m)) s = (Inr (MSG_KEXDH_REPLY # reply), s') \<and>
     check_reply w g (new_message (Some reply)) c = (Inr (), c') \<and>
     K = gp_G g ^ (nat (dh_x c) * nat (dh_x s)) mod gp_P g \<and>
     has_secrets K H sid (tport c') \<and> has_secrets K H sid (tport s') \<and>
     host_key (tport c') = Some \<lparr>pk_numbers = pk_numbers sk, pk_public_blob = None\<rparr>"
proof -
  have modes: "\<not> server_mode (neg (tport c0))" "server_mode (neg (tport s0))" using assms(2) by (simp_all add: dh_peers_def)
  have c: "dh_e c = mod_pow (gp_G g) (dh_x c) (gp_P g)" "same_peer (tport c0) (tport c)" using start_client [OF assms(5) modes(1)] by simp_all
  have s: "dh_f s = mod_pow (gp_G g) (dh_x s) (gp_P g)" "same_peer (tport s0) (tport s)" using start_server [OF assms(6) modes(2)] by simp_all
  have p: "dh_peers (w_backend w) sk (tport c) (tport s)" by (rule dh_peers_same [OF assms(2) c(2) s(2)])
  have wd: "host_key_type (neg (tport s)) = Some h \<Longrightarrow> fits_wire (w_signer w) sk h" for h
    using assms(4) s(2) by (simp add: same_peer_def)
  have r: "1 \<le> dh_e c" "dh_e c \<le> gp_P g - 1" "1 \<le> dh_f s" "dh_f s \<le> gp_P g - 1"
    using mod_pow_range assms(1) by (simp_all add: c(1) s(1) group_ok_def)
  let ?K = "mod_pow (dh_e c) (dh_x s) (gp_P g)"
  have K: "mod_pow (dh_f s) (dh_x c) (gp_P g) = ?K" by (simp only: c(1) s(1) mod_pow_swap)
  have K': "?K = gp_G g ^ (nat (dh_x c) * nat (dh_x s)) mod gp_P g" by (simp add: c(1) mod_pow_def power_mod power_mult)
  from server_answers [OF assms(1) p assms(3) wd s(1) r(1,2)] obtain key hm H sig where a: "key_bytes sk = Inr key" "ok_string key"
    "hash_input (remote_version (tport s)) (local_version (tport s)) (remote_kex_init (neg (tport s))) (local_kex_init (neg (tport s)))
       key [dh_e c, dh_f s, ?K] = Inr hm"
    "H = digest (w_engines w) (gp_hash g) hm"
    "fst (verify_ssh_sig (w_signer w) (w_backend w) From_wire (pk_numbers sk) H (new_message (Some sig))) = Inr True" "ok_string sig"
    "answer_init w g (new_message (Some (enc_field (FMpint (dh_e c))))) s =
       (Inr (MSG_KEXDH_REPLY # enc_string key @ enc_field (FMpint (dh_f s)) @ enc_string sig),
        s\<lparr>dh_e := dh_e c, tport := set_K_H ?K H (tport s)\<rparr>)" by blast
  have same: "local_version (tport c) = remote_version (tport s)" "remote_version (tport c) = local_version (tport s)"
    "local_kex_init (neg (tport c)) = remote_kex_init (neg (tport s))" "remote_kex_init (neg (tport c)) = local_kex_init (neg (tport s))"
    "session_id (tport c) = session_id (tport s)" using p by (simp_all add: dh_peers_def)
  have hm: "hash_input (local_version (tport c)) (remote_version (tport c)) (local_kex_init (neg (tport c))) (remote_kex_init (neg (tport c)))
      key [dh_e c, dh_f s, mod_pow (dh_f s) (dh_x c) (gp_P g)] = Inr hm" unfolding same K by (rule a(3))
  note acc = client_accepts [OF assms(1) p a(1,2,6) r(3,4) hm a(4,5), unfolded K]
  have eo: "ok_field (FMpint (dh_e c))" and "ok_field (FMpint ?K)"
    using r assms(1) by (auto intro!: group_number [OF assms(1)] simp: mod_pow_def group_ok_def simp del: ok_field.simps)
  then have Ko: "length (deflate_long ?K True) < 2 ^ 32" by (simp add: ok_string_def)
  have sec: "has_secrets ?K H (case session_id (tport s) of None \<Rightarrow> H | Some i \<Rightarrow> i) t"
    if "t = set_K_H ?K H (tport s) \<or> t = (set_K_H ?K H (tport c))\<lparr>host_key := k\<rparr>" for t k
    using that Ko same(5) by (auto simp: has_secrets_def set_K_H_def split: option.splits)
  let ?sid = "case session_id (tport s) of None \<Rightarrow> H | Some i \<Rightarrow> i"
  let ?c' = "c\<lparr>dh_f := dh_f s, tport := (set_K_H ?K H (tport c))\<lparr>host_key := Some \<lparr>pk_numbers = pk_numbers sk, pk_public_blob = None\<rparr>\<rparr>\<rparr>"
  let ?s' = "s\<lparr>dh_e := dh_e c, tport := set_K_H ?K H (tport s)\<rparr>"
  have "has_secrets ?K H ?sid (tport ?c')" by (rule sec [where k = "Some \<lparr>pk_numbers = pk_numbers sk, pk_public_blob = None\<rparr>"]) simp
  moreover have "has_secrets ?K H ?sid (tport ?s')" by (rule sec [where k = "Some \<lparr>pk_numbers = pk_numbers sk, pk_public_blob = None\<rparr>"]) simp
  moreover have "host_key (tport ?c') = Some \<lparr>pk_numbers = pk_numbers sk, pk_public_blob = None\<rparr>" by simp
  ultimately show ?thesis using init_message_bytes [OF eo] a(7) acc K' by blast
qed

text \<open>A witness: a small group, and a server with an Ed25519 key.\<close>

definition small_group :: dh_group where
  "small_group = \<lparr>gp_P = 23, gp_G = 5, gp_name = lit ''diffie-hellman-group14-sha256'', gp_hash = Sha256\<rparr>"

definition plain_key :: pkey where
  "plain_key = \<lparr>pk_numbers = Ed25519 (replicate 32 7), pk_public_blob = None\<rparr>"

definition plain_world :: "(unit, unit) world" where
  "plain_world = \<lparr>w_crypto = plain_crypto, w_engines = plain_engines, w_signer = sample_signer, w_backend = sample_backend, w_now = 0\<rparr>"

definition plain_side :: "bool \<Rightarrow> (unit, unit) dh" where
  "plain_side server =
     \<lparr>tport = (plain_conn server [])
        \<lparr>neg := (neg (plain_conn server []))
           \<lparr>local_kex_init := Some [20], remote_kex_init := Some [20], host_key_type := Some ed25519_name,
            server_key_dict := [(ed25519_name, plain_key)]\<rparr>,
         packets := new_packetizer [] [Sent 2000] 0\<rparr>,
      dh_x = 0, dh_e = 0, dh_f = 0\<rparr>"

definition plain_draws :: "bytes list" where
  "plain_draws = [64 # replicate 127 0]"

lemma plain_sends:
  assumes "data \<noteq> []" "length data < 1000"
  shows "\<exists>p. send_message plain_crypto 0 data (new_packetizer [] [Sent 2000] 0 :: (unit, hash_class, unit) packetizer) = (Inr (), p)"
proof -
  let ?s = "new_packetizer [] [Sent 2000] 0 :: (unit, hash_class, unit) packetizer"
  have "\<exists>packet. build_packet plain_crypto data ?s = Inr packet \<and> length packet \<le> 2000"
    using assms(2) by (auto simp: build_packet_def new_packetizer_def pack_be_def bindR_def Let_def simp del: be_bytes.simps)
  then obtain packet where b: "build_packet plain_crypto data ?s = Inr packet" and l: "length packet \<le> 2000" by blast
  have "encrypt_packet plain_crypto out ?s = (Inr out, ?s)" "compute_mac_out plain_crypto out out' ?s = Inr []"
    "compress_engine_out ?s = None" "next_seq (sequence_number_out ?s) = 1" for out out'
    by (simp_all add: encrypt_packet_def compute_mac_out_def new_packetizer_def next_seq_def)
  moreover have "\<exists>q. write_loop [Sent 2000] 0 out p = (Inr (), q)" if "length out \<le> 2000" for out and p :: "(unit, hash_class, unit) packetizer"
    using that by (cases out) (auto simp: Let_def min_def)
  then have "\<exists>q. write_all 0 packet (?s\<lparr>sequence_number_out := 1\<rparr>) = (Inr (), q)"
    using l by (simp add: write_all_def new_packetizer_def)
  ultimately show ?thesis using assms(1) b by (auto simp: send_message_def bindS_def modS_def)
qed

lemma plain_setup:
  "group_ok small_group" "dh_peers sample_backend plain_key (tport (plain_side False)) (tport (plain_side True))"
  "host_key_type (neg (tport (plain_side b))) = Some ed25519_name" "server_mode (neg (tport (plain_side b))) = b"
  "packets (tport (plain_side b)) = new_packetizer [] [Sent 2000] 0"
proof -
  show "group_ok small_group" by (simp add: group_ok_def small_group_def) (simp add: coprime_iff_gcd_eq_1 gcd_non_0_int)
  have v: "\<exists>b. utf8_encode (lit ''SSH-2.0-a'') = Inr b \<and> ok_string b" by (rule ascii_text) simp_all
  have "map_of KEY_INFO ed25519_name = Some Ed25519Key" by code_simp
  then show "dh_peers sample_backend plain_key (tport (plain_side False)) (tport (plain_side True))"
    using v by (simp add: dh_peers_def plain_side_def plain_conn_def plain_client_def new_kex_def get_server_key_def plain_key_def
        backend_ok_def signs_with_def ok_string_def del: lit_simps)
qed (simp_all add: plain_side_def plain_conn_def)

lemma plain_key_fits: "fits_wire sample_signer plain_key ed25519_name"
proof -
  have n: "list_all (\<lambda>c. c < 128) ed25519_name" "length ed25519_name < 100" by (simp_all add: ed25519_name_def)
  have s: "ok_string (take 3 d)" for d :: bytes by (simp add: ok_string_def min_less_iff_disj)
  have l: "length (utf8_of ed25519_name) < 100" using n by (simp add: utf8_of_def utf8_ascii)
  have "message_of (sig_message ed25519_name (take 3 d)) = Inr (enc_string (utf8_of ed25519_name) @ enc_string (take 3 d))" for d
    using signed_bytes [OF n s] by blast
  moreover have "ok_string (enc_string (utf8_of ed25519_name) @ enc_string (take 3 d))" for d using l by (simp add: ok_string_def)
  moreover have "key_bytes plain_key = Inr (enc_string (utf8_of ed25519_name) @ enc_string (replicate 32 7))"
  proof -
    have ok: "backend_ok sample_backend (pk_numbers plain_key)" by (simp add: backend_ok_def plain_key_def)
    show ?thesis unfolding key_bytes_ok [OF ok] using enc_text [OF key_names(2)]
      by (simp add: plain_key_def number_fields_def)
  qed
  ultimately show ?thesis using l by (simp add: fits_wire_def plain_key_def sample_signer_def ok_string_def)
qed

lemma plain_starts:
  "\<exists>c. start_kex plain_world small_group plain_draws (plain_side False) = (Inr (), c)"
  "\<exists>s. start_kex plain_world small_group plain_draws (plain_side True) = (Inr (), s)"
proof -
  obtain x where x: "generate_x plain_draws = Inr x" by (simp add: plain_draws_def Let_def replicate_8)
  let ?e = "mod_pow (gp_G small_group) x (gp_P small_group)"
  have r: "0 \<le> ?e" "?e < 256 ^ 1" by (simp_all add: small_group_def mod_pow_def)
  have e: "length (deflate_long ?e True) \<le> 2" using deflate_long_signed_fits [OF r] by simp
  then have "init_message ?e = Inr (MSG_KEXDH_INIT # enc_field (FMpint ?e))"
    by (intro init_message_bytes) (simp add: ok_string_def)
  moreover have "length (enc_field (FMpint ?e)) < 900" using e by (simp add: enc_field_def w_mpint.enc'_def)
  moreover obtain p where "send_message plain_crypto 0 (MSG_KEXDH_INIT # enc_field (FMpint ?e))
      (new_packetizer [] [Sent 2000] 0 :: (unit, hash_class, unit) packetizer) = (Inr (), p)"
    using plain_sends [of "MSG_KEXDH_INIT # enc_field (FMpint ?e)"] \<open>length _ < 900\<close> by auto
  ultimately show "\<exists>c. start_kex plain_world small_group plain_draws (plain_side False) = (Inr (), c)"
    using x plain_setup(4,5) [of False]
    by (simp add: start_kex_def bindS_def liftR_def modS_def on_tport_def transport_send_def on_packets_def plain_world_def)
  show "\<exists>s. start_kex plain_world small_group plain_draws (plain_side True) = (Inr (), s)"
    using x plain_setup(4) [of True] by (simp add: start_kex_def bindS_def liftR_def modS_def on_tport_def)
qed

theorem dh_agreement_witness:
  "\<exists>c s m reply s' c' K H sid.
     start_kex plain_world small_group plain_draws (plain_side False) = (Inr (), c) \<and>
     start_kex plain_world small_group plain_draws (plain_side True) = (Inr (), s) \<and>
     answer_init plain_world small_group (new_message (Some m)) s = (Inr (MSG_KEXDH_REPLY # reply), s') \<and>
     check_reply plain_world small_group (new_message (Some reply)) c = (Inr (), c') \<and>
     has_secrets K H sid (tport c') \<and> has_secrets K H sid (tport s') \<and>
     host_key (tport c') = Some \<lparr>pk_numbers = pk_numbers plain_key, pk_public_blob = None\<rparr>"
proof -
  obtain c s where cs: "start_kex plain_world small_group plain_draws (plain_side False) = (Inr (), c)"
    "start_kex plain_world small_group plain_draws (plain_side True) = (Inr (), s)" using plain_starts by blast
  have w: "w_signer plain_world = sample_signer" "w_backend plain_world = sample_backend" by (simp_all add: plain_world_def)
  have f: "fits_wire (w_signer plain_world) plain_key h" if "host_key_type (neg (tport (plain_side True))) = Some h" for h
    using that plain_key_fits plain_setup(3) [of True] w(1) by simp
  from dh_agreement [of small_group plain_world plain_key "plain_side False" "plain_side True", OF plain_setup(1) _ _ f cs, unfolded w]
  show ?thesis using cs plain_setup(2) sample_laws by blast
qed

end
