(* ===== verification/Ssh_Auth.thy ===== *)
theory Ssh_Auth
  imports Ssh_Keying Signatures Step_System
begin

text \<open>
  User authentication: \<^verbatim>\<open>paramiko/auth_handler.py\<close>, both sides of it. The state is the handler's, with the attributes of
  the transport that it reads or writes (mode, session id, public key algorithms, extensions of the server, the
  saved exception, whether the session is active) and the list of messages it has given to \<^verbatim>\<open>_send_message\<close>. What
  the server's application decides is the argument \<open>server_object\<close>; it may depend on everything it has been asked
  before, which \<open>au_calls\<close> records.
\<close>

section \<open>What the application decides\<close>

datatype auth_result = AUTH_SUCCESSFUL | AUTH_PARTIALLY_SUCCESSFUL | AUTH_FAILED

record interactive_query =
  q_name :: ustr
  q_instructions :: ustr
  q_prompts :: "(ustr \<times> bool) list"

datatype reaction = Result auth_result | Query interactive_query

text \<open>A password is a \<^verbatim>\<open>str\<close>, or the bytes when they are no UTF-8.\<close>

datatype secret = Text ustr | Raw bytes

datatype server_call =
    Check_none ustr
  | Check_password ustr secret
  | Check_publickey ustr pkey
  | Check_interactive ustr bytes
  | Check_response "ustr list"

record server_object =
  judge :: "server_call list \<Rightarrow> server_call \<Rightarrow> reaction"
  allowed_auths :: "server_call list \<Rightarrow> ustr option \<Rightarrow> ustr"
  auth_banner :: "ustr option \<times> ustr"

section \<open>The state\<close>

record auth =
  au_server :: bool
  au_session_id :: "bytes option"
  au_pubkeys :: "ustr list"
  au_extensions :: "(ustr \<times> bytes) list"
  au_active :: bool
  au_saved :: "pyexc option"
  au_agreed :: "ustr option"
  au_triggered :: bool
  au_sent :: "bytes list"
  au_calls :: "server_call list"
  au_username :: "ustr option"
  au_authed :: bool
  au_event :: "bool option"
  au_method :: ustr
  au_banner :: "bytes option"
  au_password :: "secret option"
  au_key :: "pkey option"
  au_handler :: "(ustr \<Rightarrow> ustr \<Rightarrow> (ustr \<times> bool) list \<Rightarrow> ustr list) option"
  au_submethods :: "ustr option"
  au_auth_username :: "ustr option"
  au_fail_count :: nat

definition new_auth :: "bool \<Rightarrow> bytes option \<Rightarrow> ustr list \<Rightarrow> auth" where
  "new_auth server sid pubkeys =
     \<lparr>au_server = server, au_session_id = sid, au_pubkeys = pubkeys, au_extensions = [], au_active = True, au_saved = None,
      au_agreed = None, au_triggered = False, au_sent = [], au_calls = [], au_username = None, au_authed = False,
      au_event = None, au_method = [], au_banner = None, au_password = None, au_key = None, au_handler = None,
      au_submethods = None, au_auth_username = None, au_fail_count = 0\<rparr>"

definition DISCONNECT_SERVICE_NOT_AVAILABLE :: int where "DISCONNECT_SERVICE_NOT_AVAILABLE = 7"
definition DISCONNECT_NO_MORE_AUTH_METHODS_AVAILABLE :: int where "DISCONNECT_NO_MORE_AUTH_METHODS_AVAILABLE = 14"

definition au_send :: "field list \<Rightarrow> (auth, unit) sm" where
  "au_send fs = bindS (liftR (built fs)) (\<lambda>b. modS (\<lambda>a. a\<lparr>au_sent := au_sent a @ [b]\<rparr>))"

definition fire_event :: "auth \<Rightarrow> auth" where
  "fire_event a = a\<lparr>au_event := map_option (\<lambda>_. True) (au_event a)\<rparr>"

section \<open>Starting to authenticate\<close>

definition request_auth :: "(auth, unit) sm" where
  "request_auth = au_send [FByte MSG_SERVICE_REQUEST, FText (lit ''ssh-userauth'')]"

definition auth_none :: "ustr \<Rightarrow> (auth, unit) sm" where
  "auth_none user =
     bindS (modS (\<lambda>a. a\<lparr>au_event := Some False, au_method := lit ''none'', au_username := Some user\<rparr>)) (\<lambda>_. request_auth)"

definition auth_publickey :: "ustr \<Rightarrow> pkey \<Rightarrow> (auth, unit) sm" where
  "auth_publickey user key =
     bindS (modS (\<lambda>a. a\<lparr>au_event := Some False, au_method := lit ''publickey'', au_username := Some user, au_key := Some key\<rparr>))
       (\<lambda>_. request_auth)"

definition auth_password :: "ustr \<Rightarrow> secret \<Rightarrow> (auth, unit) sm" where
  "auth_password user password =
     bindS (modS (\<lambda>a. a\<lparr>au_event := Some False, au_method := lit ''password'', au_username := Some user,
                        au_password := Some password\<rparr>)) (\<lambda>_. request_auth)"

definition auth_interactive ::
  "ustr \<Rightarrow> (ustr \<Rightarrow> ustr \<Rightarrow> (ustr \<times> bool) list \<Rightarrow> ustr list) \<Rightarrow> ustr \<Rightarrow> (auth, unit) sm" where
  "auth_interactive user handler submethods =
     bindS (modS (\<lambda>a. a\<lparr>au_event := Some False, au_method := lit ''keyboard-interactive'', au_username := Some user,
                        au_handler := Some handler, au_submethods := Some submethods\<rparr>)) (\<lambda>_. request_auth)"

definition abort :: "auth \<Rightarrow> auth" where
  "abort a = fire_event a"

definition get_username :: "auth \<Rightarrow> ustr option" where
  "get_username a = (if au_server a then au_auth_username a else au_username a)"

section \<open>Helpers\<close>

text \<open>\<^verbatim>\<open>transport.close()\<close>, as far as this state goes.\<close>

definition close_transport :: "auth \<Rightarrow> auth" where
  "close_transport a = a\<lparr>au_active := False\<rparr>"

definition disconnect_with :: "int \<Rightarrow> string \<Rightarrow> (auth, unit) sm" where
  "disconnect_with code desc =
     bindS (au_send [FByte MSG_DISCONNECT, FInt code, FText (lit desc), FText (lit ''en'')]) (\<lambda>_. modS close_transport)"

definition disconnect_service_not_available :: "(auth, unit) sm" where
  "disconnect_service_not_available = disconnect_with DISCONNECT_SERVICE_NOT_AVAILABLE ''Service not available''"

definition disconnect_no_more_auth :: "(auth, unit) sm" where
  "disconnect_no_more_auth = disconnect_with DISCONNECT_NO_MORE_AUTH_METHODS_AVAILABLE ''No more auth methods available''"

definition get_key_type_and_bits :: "pkey \<Rightarrow> ustr \<times> bytes res" where
  "get_key_type_and_bits key =
     (case pk_public_blob key of Some blob \<Rightarrow> (pb_type blob, Inr (pb_blob blob)) | None \<Rightarrow> (get_name key, key_bytes key))"

definition get_session_blob :: "bytes option \<Rightarrow> pkey \<Rightarrow> ustr \<Rightarrow> ustr \<Rightarrow> ustr \<Rightarrow> bytes res" where
  "get_session_blob sid key service user algorithm =
     bindR (needed sid) (\<lambda>s.
     message_of (bindS (put_fields [FString s, FByte MSG_USERAUTH_REQUEST, FText user, FText service,
                          FText (lit ''publickey''), FBool True, FText algorithm]) (\<lambda>_.
                 bindS (liftR (snd (get_key_type_and_bits key))) add_string)))"

definition generate_key_from_request :: "backend \<Rightarrow> ustr list \<Rightarrow> ustr \<Rightarrow> bytes \<Rightarrow> pkey res option" where
  "generate_key_from_request be pubkeys algorithm keyblob =
     (if remove_all cert_suffix algorithm \<notin> set pubkeys then None
      else Some (bindR (lookup KEY_INFO algorithm) (\<lambda>cls. fst (key_from_message be cls (new_message (Some keyblob))))))"

text \<open>Which algorithm to sign with: an RSA key takes one that the server accepts.\<close>

definition choose_rsa_algorithm :: "ustr list \<Rightarrow> ustr \<Rightarrow> ustr res" where
  "choose_rsa_algorithm my_algos server_algo_str =
     (if server_algo_str \<noteq> [] then
        (let agreement = filter (\<lambda>x. x \<in> set (split_on 44 server_algo_str)) my_algos
         in if agreement \<noteq> [] then Inr (hd agreement)
            else Inl (AuthenticationException ''Unable to agree on a pubkey algorithm''))
      else Inr (hd my_algos))"

definition finalize_pubkey_algorithm :: "ustr \<Rightarrow> (auth, ustr) sm" where
  "finalize_pubkey_algorithm key_type = (\<lambda>a.
     if \<not> substring_in (lit ''rsa'') key_type then (Inr key_type, a)
     else
       (let my_algos = filter (substring_in (lit ''rsa'')) (au_pubkeys a)
        in if my_algos = [] then (Inl (SSHException ''no RSA pubkey algorithms are configured''), a)
           else
             (let offered = (case map_of (au_extensions a) (lit ''server-sig-algs'') of None \<Rightarrow> [] | Some x \<Rightarrow> x)
              in bindS (liftR (bindR (utf8_decode offered) (choose_rsa_algorithm my_algos))) (\<lambda>algo.
                   let final = (if endswith key_type cert_suffix then algo @ cert_suffix else algo)
                   in bindS (modS (\<lambda>a. a\<lparr>au_agreed := Some final\<rparr>)) (\<lambda>_. retS final)) a)))"

section \<open>The client's answers\<close>

text \<open>The fields of a request after the method name.\<close>

definition publickey_fields :: "signer \<Rightarrow> ustr \<Rightarrow> pkey \<Rightarrow> (auth, field list) sm" where
  "publickey_fields lib user key =
     (case get_key_type_and_bits key of
        (key_type, bits) \<Rightarrow>
          bindS (finalize_pubkey_algorithm key_type) (\<lambda>algorithm.
          bindS (liftR (built [FText algorithm])) (\<lambda>_.
          bindS (liftR bits) (\<lambda>bits.
          (\<lambda>a. bindS (liftR (get_session_blob (au_session_id a) key (lit ''ssh-connection'') user algorithm)) (\<lambda>blob.
               bindS (liftR (sign_ssh_data lib (pk_numbers key) blob (Some algorithm))) (\<lambda>sig.
                 retS [FBool True, FText algorithm, FString bits, FString sig])) a)))))"

definition password_bytes :: "secret \<Rightarrow> bytes res" where
  "password_bytes p = (case p of Text s \<Rightarrow> utf8_encode s | Raw b \<Rightarrow> Inr b)"

definition method_fields :: "signer \<Rightarrow> ustr \<Rightarrow> (auth, field list) sm" where
  "method_fields lib user = (\<lambda>a.
     if au_method a = lit ''password'' then
       bindS (liftR (bindR (needed (au_password a)) password_bytes)) (\<lambda>p. retS [FBool False, FString p]) a
     else if au_method a = lit ''publickey'' then
       (case au_key a of None \<Rightarrow> (Inl AttributeError, a) | Some key \<Rightarrow> publickey_fields lib user key a)
     else if au_method a = lit ''keyboard-interactive'' then
       bindS (liftR (needed (au_submethods a))) (\<lambda>s. retS [FText [], FText s]) a
     else if au_method a = lit ''none'' then (Inr [], a)
     else (Inl (SSHException ''Unknown auth method''), a))"

definition request_head_fields :: "ustr \<Rightarrow> ustr \<Rightarrow> field list" where
  "request_head_fields user how = [FByte MSG_USERAUTH_REQUEST, FText user, FText (lit ''ssh-connection''), FText how]"

definition parse_service_accept :: "signer \<Rightarrow> message \<Rightarrow> (auth, unit) sm" where
  "parse_service_accept lib m =
     reading get_text m (\<lambda>service _.
       if service = lit ''ssh-userauth'' then (\<lambda>a.
         bindS (liftR (needed (au_username a))) (\<lambda>user.
         bindS (liftR (built (request_head_fields user (au_method a)))) (\<lambda>_.
         bindS (method_fields lib user) (\<lambda>fs. au_send (request_head_fields user (au_method a) @ fs)))) a)
       else retS ())"

definition parse_userauth_success :: "message \<Rightarrow> (auth, unit) sm" where
  "parse_userauth_success m = modS (\<lambda>a. fire_event (a\<lparr>au_authed := True, au_triggered := True\<rparr>))"

definition parse_userauth_failure :: "message \<Rightarrow> (auth, unit) sm" where
  "parse_userauth_failure m =
     reading get_list m (\<lambda>authlist m. reading get_boolean m (\<lambda>partial _.
       modS (\<lambda>a.
         let a1 = (if partial then a\<lparr>au_saved := Some (PartialAuthentication authlist)\<rparr>
                   else if au_method a \<notin> set authlist then a\<lparr>au_saved := Some (BadAuthenticationType authlist)\<rparr>
                   else a)
         in fire_event (a1\<lparr>au_authed := False, au_username := None\<rparr>))))"

definition parse_userauth_banner :: "message \<Rightarrow> (auth, unit) sm" where
  "parse_userauth_banner m = reading get_string m (\<lambda>banner _. modS (\<lambda>a. a\<lparr>au_banner := Some banner\<rparr>))"

fun get_prompts :: "nat \<Rightarrow> (message, (ustr \<times> bool) list) sm" where
  "get_prompts 0 = retS []"
| "get_prompts (Suc n) = bindS get_text (\<lambda>p. bindS get_boolean (\<lambda>e. bindS (get_prompts n) (\<lambda>ps. retS ((p, e) # ps))))"

definition parse_userauth_info_request :: "message \<Rightarrow> (auth, unit) sm" where
  "parse_userauth_info_request m = (\<lambda>a.
     if au_method a \<noteq> lit ''keyboard-interactive'' then (Inl (SSHException ''Illegal info request from server''), a)
     else
       reading get_text m (\<lambda>title m. reading get_text m (\<lambda>instructions m. reading get_binary m (\<lambda>_ m.
       reading get_int m (\<lambda>prompts m. reading (get_prompts (nat prompts)) m (\<lambda>prompt_list _.
         bindS (liftR (needed (au_handler a))) (\<lambda>handler.
           let response_list = handler title instructions prompt_list
           in au_send ([FByte MSG_USERAUTH_INFO_RESPONSE, FInt (int (length response_list))] @ map FText response_list))))))) a)"

section \<open>The server's answers\<close>

definition ask_server :: "server_object \<Rightarrow> server_call \<Rightarrow> (auth, reaction) sm" where
  "ask_server srv q = (\<lambda>a. (Inr (judge srv (au_calls a) q), a\<lparr>au_calls := au_calls a @ [q]\<rparr>))"

definition parse_service_request :: "server_object \<Rightarrow> message \<Rightarrow> (auth, unit) sm" where
  "parse_service_request srv m =
     reading get_text m (\<lambda>service _. (\<lambda>a.
       if au_server a \<and> service = lit ''ssh-userauth'' then
         bindS (au_send [FByte MSG_SERVICE_ACCEPT, FText service]) (\<lambda>_.
           case auth_banner srv of
             (None, language) \<Rightarrow> retS ()
           | (Some banner, language) \<Rightarrow>
               if banner \<noteq> [] then au_send [FByte MSG_USERAUTH_BANNER, FText banner, FText language] else retS ()) a
       else disconnect_service_not_available a))"

text \<open>The failure count grows after the list of allowed methods has been written.\<close>

definition send_auth_result :: "server_object \<Rightarrow> ustr option \<Rightarrow> reaction \<Rightarrow> (auth, unit) sm" where
  "send_auth_result srv user r =
     bindS (if r = Result AUTH_SUCCESSFUL
            then bindS (modS (\<lambda>a. a\<lparr>au_authed := True\<rparr>)) (\<lambda>_. au_send [FByte MSG_USERAUTH_SUCCESS])
            else (\<lambda>a.
              let allowed = allowed_auths srv (au_calls a) user
              in bindS (liftR (built [FByte MSG_USERAUTH_FAILURE, FText allowed])) (\<lambda>_.
                 if r = Result AUTH_PARTIALLY_SUCCESSFUL
                 then au_send [FByte MSG_USERAUTH_FAILURE, FText allowed, FBool True]
                 else bindS (modS (\<lambda>a. a\<lparr>au_fail_count := au_fail_count a + 1\<rparr>)) (\<lambda>_.
                        au_send [FByte MSG_USERAUTH_FAILURE, FText allowed, FBool False])) a)) (\<lambda>_.
     bindS (\<lambda>a. if au_fail_count a \<ge> 10 then disconnect_no_more_auth a else (Inr (), a)) (\<lambda>_.
       if r = Result AUTH_SUCCESSFUL then modS (\<lambda>a. a\<lparr>au_triggered := True\<rparr>) else retS ()))"

definition send_interactive_query :: "interactive_query \<Rightarrow> (auth, unit) sm" where
  "send_interactive_query q =
     au_send ([FByte MSG_USERAUTH_INFO_REQUEST, FText (q_name q), FText (q_instructions q), FString [],
               FInt (int (length (q_prompts q)))] @ concat (map (\<lambda>(p, e). [FText p, FBool e]) (q_prompts q)))"

definition decode_password :: "bytes \<Rightarrow> secret" where
  "decode_password p = (case utf8_decode p of Inr s \<Rightarrow> Text s | Inl _ \<Rightarrow> Raw p)"

definition check_password :: "server_object \<Rightarrow> ustr \<Rightarrow> message \<Rightarrow> (auth, unit) sm" where
  "check_password srv user m =
     reading get_boolean m (\<lambda>changereq m. reading get_binary m (\<lambda>p m.
       if changereq then reading get_binary m (\<lambda>newpassword _. send_auth_result srv (Some user) (Result AUTH_FAILED))
       else bindS (ask_server srv (Check_password user (decode_password p))) (send_auth_result srv (Some user))))"

definition check_publickey ::
  "server_object \<Rightarrow> signer \<Rightarrow> backend \<Rightarrow> ustr \<Rightarrow> ustr \<Rightarrow> message \<Rightarrow> (auth, unit) sm" where
  "check_publickey srv lib be user service m =
     reading get_boolean m (\<lambda>sig_attached m. reading get_text m (\<lambda>algorithm m. reading get_binary m (\<lambda>keyblob m. (\<lambda>a.
       case generate_key_from_request be (au_pubkeys a) algorithm keyblob of
         Some (Inr key) \<Rightarrow>
           bindS (ask_server srv (Check_publickey user key)) (\<lambda>r.
             if r = Result AUTH_FAILED then send_auth_result srv (Some user) r
             else if \<not> sig_attached then au_send [FByte MSG_USERAUTH_PK_OK, FText algorithm, FString keyblob]
             else
               reading get_binary m (\<lambda>sig _.
               bindS (liftR (get_session_blob (au_session_id a) key service user algorithm)) (\<lambda>blob.
               bindS (liftR (fst (verify_ssh_sig lib be From_wire (pk_numbers key) blob (new_message (Some sig))))) (\<lambda>good.
                 send_auth_result srv (Some user) (if good then r else Result AUTH_FAILED))))) a
       | _ \<Rightarrow> disconnect_no_more_auth a))))"

definition check_interactive :: "server_object \<Rightarrow> ustr \<Rightarrow> message \<Rightarrow> (auth, unit) sm" where
  "check_interactive srv user m =
     reading get_string m (\<lambda>submethods _.
       bindS (ask_server srv (Check_interactive user submethods)) (\<lambda>r.
         case r of Query q \<Rightarrow> send_interactive_query q | Result _ \<Rightarrow> send_auth_result srv (Some user) r))"

definition check_method ::
  "server_object \<Rightarrow> signer \<Rightarrow> backend \<Rightarrow> ustr \<Rightarrow> ustr \<Rightarrow> ustr \<Rightarrow> message \<Rightarrow> (auth, unit) sm" where
  "check_method srv lib be user service how m =
     (if how = lit ''none'' then bindS (ask_server srv (Check_none user)) (send_auth_result srv (Some user))
      else if how = lit ''password'' then check_password srv user m
      else if how = lit ''publickey'' then check_publickey srv lib be user service m
      else if how = lit ''keyboard-interactive'' then check_interactive srv user m
      else bindS (ask_server srv (Check_none user)) (send_auth_result srv (Some user)))"

definition parse_userauth_request ::
  "server_object \<Rightarrow> signer \<Rightarrow> backend \<Rightarrow> message \<Rightarrow> (auth, unit) sm" where
  "parse_userauth_request srv lib be m = (\<lambda>a.
     if \<not> au_server a then au_send [FByte MSG_USERAUTH_FAILURE, FText (lit ''none''), FBool False] a
     else if au_authed a then (Inr (), a)
     else
       reading get_text m (\<lambda>user m. reading get_text m (\<lambda>service m. reading get_text m (\<lambda>how m.
         if service \<noteq> lit ''ssh-connection'' then disconnect_service_not_available
         else (\<lambda>a.
           if au_auth_username a \<noteq> None \<and> au_auth_username a \<noteq> Some user then disconnect_no_more_auth a
           else check_method srv lib be user service how m (a\<lparr>au_auth_username := Some user\<rparr>))))) a)"

fun get_texts :: "nat \<Rightarrow> (message, ustr list) sm" where
  "get_texts 0 = retS []"
| "get_texts (Suc n) = bindS get_text (\<lambda>t. bindS (get_texts n) (\<lambda>ts. retS (t # ts)))"

definition parse_userauth_info_response :: "server_object \<Rightarrow> message \<Rightarrow> (auth, unit) sm" where
  "parse_userauth_info_response srv m = (\<lambda>a.
     if \<not> au_server a then (Inl (SSHException ''Illegal info response from server''), a)
     else
       reading get_int m (\<lambda>n m. reading (get_texts (nat n)) m (\<lambda>responses _.
         bindS (ask_server srv (Check_response responses)) (\<lambda>r.
           case r of Query q \<Rightarrow> send_interactive_query q | Result _ \<Rightarrow> send_auth_result srv (au_auth_username a) r))) a)"

section \<open>Handler tables\<close>

definition server_handler ::
  "server_object \<Rightarrow> signer \<Rightarrow> backend \<Rightarrow> byte \<Rightarrow> (message \<Rightarrow> (auth, unit) sm) option" where
  "server_handler srv lib be ptype =
     (if ptype = MSG_SERVICE_REQUEST then Some (parse_service_request srv)
      else if ptype = MSG_USERAUTH_REQUEST then Some (parse_userauth_request srv lib be)
      else if ptype = MSG_USERAUTH_INFO_RESPONSE then Some (parse_userauth_info_response srv)
      else None)"

definition client_handler :: "signer \<Rightarrow> bool \<Rightarrow> byte \<Rightarrow> (message \<Rightarrow> (auth, unit) sm) option" where
  "client_handler lib auth_only ptype =
     (if ptype = MSG_SERVICE_ACCEPT \<and> \<not> auth_only then Some (parse_service_accept lib)
      else if ptype = MSG_USERAUTH_SUCCESS then Some parse_userauth_success
      else if ptype = MSG_USERAUTH_FAILURE then Some parse_userauth_failure
      else if ptype = MSG_USERAUTH_BANNER then Some parse_userauth_banner
      else if ptype = MSG_USERAUTH_INFO_REQUEST then Some parse_userauth_info_request
      else None)"

definition auth_handler ::
  "server_object \<Rightarrow> signer \<Rightarrow> backend \<Rightarrow> bool \<Rightarrow> byte \<Rightarrow> auth \<Rightarrow> (message \<Rightarrow> (auth, unit) sm) option" where
  "auth_handler srv lib be auth_only ptype a =
     (if au_server a then server_handler srv lib be ptype else client_handler lib auth_only ptype)"

section \<open>Waiting for the result\<close>

text \<open>One entry of the list for every pass of the loop: whether the deadline has passed by then, and what the
  transport's thread has done in the meantime.\<close>

definition get_exception :: "auth \<Rightarrow> pyexc option \<times> auth" where
  "get_exception a = (au_saved a, a\<lparr>au_saved := None\<rparr>)"

definition wait_result :: "(auth, ustr list) sm" where
  "wait_result = (\<lambda>a.
     if au_authed a then (Inr [], a)
     else (case get_exception a of
             (None, a') \<Rightarrow> (Inl (AuthenticationException ''Authentication failed.''), a')
           | (Some (PartialAuthentication allowed), a') \<Rightarrow> (Inr allowed, a')
           | (Some e, a') \<Rightarrow> (Inl e, a')))"

definition shut_down :: "pyexc" where
  "shut_down = AuthenticationException ''Authentication failed: transport shut down or saw EOF''"

fun wait_for_response :: "(bool \<times> (auth \<Rightarrow> auth)) list \<Rightarrow> (auth, ustr list) sm" where
  "wait_for_response [] a = (Inl Blocked, a)"
| "wait_for_response ((late, others) # ws) a0 =
     (let a = others a0 in
      if \<not> au_active a then
        (case get_exception a of
           (None, a') \<Rightarrow> (Inl shut_down, a')
         | (Some EOFError, a') \<Rightarrow> (Inl shut_down, a')
         | (Some e, a') \<Rightarrow> (Inl e, a'))
      else if au_event a = Some True then wait_result a
      else if late then (Inl (AuthenticationException ''Authentication timeout.''), a)
      else wait_for_response ws a)"

section \<open>Authentication without the service request: \<open>AuthOnlyHandler\<close>\<close>

text \<open>\<open>between\<close> is what the transport's thread does after the message was sent and before the event is made.\<close>

definition send_auth_request ::
  "ustr \<Rightarrow> ustr \<Rightarrow> (auth, field list) sm option \<Rightarrow> (auth \<Rightarrow> auth) \<Rightarrow> (bool \<times> (auth \<Rightarrow> auth)) list \<Rightarrow> (auth, ustr list) sm" where
  "send_auth_request user how finish between waits =
     bindS (modS (\<lambda>a. a\<lparr>au_method := how, au_username := Some user\<rparr>)) (\<lambda>_.
     bindS (liftR (built (request_head_fields user how))) (\<lambda>_.
     bindS (case finish of None \<Rightarrow> raiseS TypeError | Some f \<Rightarrow> f) (\<lambda>fs.
     bindS (au_send (request_head_fields user how @ fs)) (\<lambda>_.
     bindS (modS between) (\<lambda>_.
     bindS (modS (\<lambda>a. a\<lparr>au_event := Some False\<rparr>)) (\<lambda>_. wait_for_response waits))))))"

definition only_auth_none :: "ustr \<Rightarrow> (auth \<Rightarrow> auth) \<Rightarrow> (bool \<times> (auth \<Rightarrow> auth)) list \<Rightarrow> (auth, ustr list) sm" where
  "only_auth_none user = send_auth_request user (lit ''none'') None"

definition only_auth_password :: "ustr \<Rightarrow> secret \<Rightarrow> (auth \<Rightarrow> auth) \<Rightarrow> (bool \<times> (auth \<Rightarrow> auth)) list \<Rightarrow> (auth, ustr list) sm" where
  "only_auth_password user password =
     send_auth_request user (lit ''password'')
       (Some (bindS (liftR (password_bytes password)) (\<lambda>p. retS [FBool False, FString p])))"

text \<open>The algorithm and the blob are settled first; signing happens while the message is built.\<close>

definition only_auth_publickey ::
  "signer \<Rightarrow> ustr \<Rightarrow> pkey \<Rightarrow> (auth \<Rightarrow> auth) \<Rightarrow> (bool \<times> (auth \<Rightarrow> auth)) list \<Rightarrow> (auth, ustr list) sm" where
  "only_auth_publickey lib user key between waits =
     (case get_key_type_and_bits key of
        (key_type, bits) \<Rightarrow>
          bindS (finalize_pubkey_algorithm key_type) (\<lambda>algorithm. (\<lambda>a.
          bindS (liftR (get_session_blob (au_session_id a) key (lit ''ssh-connection'') user algorithm)) (\<lambda>blob.
            send_auth_request user (lit ''publickey'')
              (Some (bindS (liftR (built [FText algorithm])) (\<lambda>_. bindS (liftR bits) (\<lambda>bits.
                     bindS (liftR (sign_ssh_data lib (pk_numbers key) blob (Some algorithm))) (\<lambda>sig.
                       retS [FBool True, FText algorithm, FString bits, FString sig])))))
              between waits) a)))"

definition only_auth_interactive ::
  "ustr \<Rightarrow> (ustr \<Rightarrow> ustr \<Rightarrow> (ustr \<times> bool) list \<Rightarrow> ustr list) \<Rightarrow> ustr \<Rightarrow> (auth \<Rightarrow> auth) \<Rightarrow> (bool \<times> (auth \<Rightarrow> auth)) list \<Rightarrow>
   (auth, ustr list) sm" where
  "only_auth_interactive user handler submethods between waits =
     bindS (modS (\<lambda>a. a\<lparr>au_method := lit ''keyboard_interactive'', au_handler := Some handler\<rparr>)) (\<lambda>_.
       send_auth_request user (lit ''keyboard-interactive'') (Some (retS [FText [], FText submethods])) between waits)"

end
