(* ===== verification/Ssh_Connection.thy ===== *)
theory Ssh_Connection
  imports Ssh_Auth
begin

text \<open>
  The connection layer of \<^verbatim>\<open>paramiko/transport.py\<close>: the table of channels, the opening of channels by either side,
  global requests, and one pass of the loop of \<^verbatim>\<open>Transport.run\<close> that hands a message to its handler. What lies below,
  key exchange and packets, is the argument \<open>lower\<close>, a record of the operations that this part of the class calls;
  \<open>cx_sent\<close> logs the messages given to \<^verbatim>\<open>_send_message\<close>. Channel objects live in a store, since the table, the queue
  of \<^verbatim>\<open>accept\<close> and the application share them; an address is the identity of an object, and also names the event
  of the thread that waits for it to be opened.
\<close>

section \<open>What lies below\<close>

record 'k lower =
  lw_kexinit :: "int \<Rightarrow> message \<Rightarrow> ('k, unit) sm"
  lw_next :: "byte \<Rightarrow> message \<Rightarrow> ('k, unit) sm"
  lw_newkeys :: "('k, unit) sm"
  lw_send :: "bytes \<Rightarrow> ('k, unit) sm"
  lw_trigger :: "'k \<Rightarrow> 'k"
  lw_expected :: "'k \<Rightarrow> byte list"
  lw_expect_none :: "'k \<Rightarrow> 'k"
  lw_strict :: "'k \<Rightarrow> bool"
  lw_done :: "'k \<Rightarrow> bool"
  lw_clear :: "'k \<Rightarrow> bool"
  lw_session_id :: "'k \<Rightarrow> bytes option"
  lw_pubkeys :: "'k \<Rightarrow> ustr list"
  lw_event :: "'k \<Rightarrow> bool option"
  lw_set_event :: "bool option \<Rightarrow> 'k \<Rightarrow> 'k"

section \<open>The application\<close>

datatype conn_call =
    Check_channel ustr int
  | Check_direct int "ustr \<times> int" "ustr \<times> int"
  | Check_forward ustr int
  | Cancel_forward ustr int
  | Check_global ustr message

datatype answer = Deny | Allow | Allow_with "pyval list"

text \<open>\<open>app_open\<close> answers the questions about channels with a reason (\<open>0\<close> is success), \<open>app_forward\<close> gives a port.\<close>

record application =
  app_auth :: server_object
  app_open :: "conn_call list \<Rightarrow> conn_call \<Rightarrow> int"
  app_forward :: "conn_call list \<Rightarrow> ustr \<Rightarrow> int \<Rightarrow> int option"
  app_global :: "conn_call list \<Rightarrow> ustr \<Rightarrow> message \<Rightarrow> answer"
  app_request :: "conn_call list \<Rightarrow> int \<Rightarrow> ch_request \<Rightarrow> bool"

definition OPEN_SUCCEEDED :: int where "OPEN_SUCCEEDED = 0"
definition OPEN_FAILED_ADMINISTRATIVELY_PROHIBITED :: int where "OPEN_FAILED_ADMINISTRATIVELY_PROHIBITED = 1"

section \<open>The state\<close>

text \<open>A handler for channels the other side opens: the default one queues them for \<^verbatim>\<open>accept\<close>.\<close>

datatype handler = Queueing | User

datatype delivery = To_agent nat | To_x11 nat "ustr \<times> int" | To_tcp nat "ustr \<times> int" "ustr \<times> int"

record 'k connection =
  cx_lower :: 'k
  cx_server :: bool
  cx_active :: bool
  cx_auth :: "auth option"
  cx_store :: "channel list"
  cx_map :: "(int \<times> nat) list"
  cx_events :: "(int \<times> nat) list"
  cx_fired :: "nat list"
  cx_seen :: "int list"
  cx_counter :: int
  cx_window :: int
  cx_packet :: int
  cx_agent :: "handler option"
  cx_x11 :: "handler option"
  cx_tcp :: "handler option"
  cx_accepts :: "nat list"
  cx_delivered :: "delivery list"
  cx_extensions :: "(ustr \<times> bytes) list"
  cx_response :: "message option"
  cx_saved :: "pyexc option"
  cx_calls :: "conn_call list"
  cx_sent :: "bytes list"

definition new_connection :: "'k \<Rightarrow> bool \<Rightarrow> 'k connection" where
  "new_connection k server =
     \<lparr>cx_lower = k, cx_server = server, cx_active = True, cx_auth = None, cx_store = [], cx_map = [], cx_events = [],
      cx_fired = [], cx_seen = [], cx_counter = 0, cx_window = DEFAULT_WINDOW_SIZE, cx_packet = DEFAULT_MAX_PACKET_SIZE,
      cx_agent = None, cx_x11 = None, cx_tcp = None, cx_accepts = [], cx_delivered = [], cx_extensions = [],
      cx_response = None, cx_saved = None, cx_calls = [], cx_sent = []\<rparr>"

section \<open>The table of channels\<close>

text \<open>\<^verbatim>\<open>ChannelMap\<close>: \<^verbatim>\<open>put\<close>, \<^verbatim>\<open>get\<close>, \<^verbatim>\<open>delete\<close>.\<close>

definition cm_put :: "int \<Rightarrow> nat \<Rightarrow> (int \<times> nat) list \<Rightarrow> (int \<times> nat) list" where
  "cm_put cid a m = dict_put cid a m"

definition cm_get :: "int \<Rightarrow> (int \<times> nat) list \<Rightarrow> nat option" where
  "cm_get cid m = map_of m cid"

definition cm_delete :: "int \<Rightarrow> (int \<times> nat) list \<Rightarrow> (int \<times> nat) list" where
  "cm_delete cid m = filter (\<lambda>(i, a). i \<noteq> cid) m"

text \<open>The loop that looks for a free number, with as many passes as there are channels (enough by lemma
  \<open>next_free_enough\<close> unless all numbers are taken, when the code would not return).\<close>

fun next_free :: "nat \<Rightarrow> (int \<times> nat) list \<Rightarrow> int \<Rightarrow> int option" where
  "next_free n m c =
     (if cm_get c m = None then Some c
      else (case n of 0 \<Rightarrow> None | Suc k \<Rightarrow> next_free k m ((c + 1) mod 2 ^ 24)))"

declare next_free.simps [simp del]

definition next_channel :: "('k connection, int) sm" where
  "next_channel = (\<lambda>t.
     case next_free (length (cx_map t)) (cx_map t) (cx_counter t) of
       None \<Rightarrow> (Inl Blocked, t)
     | Some c \<Rightarrow> (Inr c, t\<lparr>cx_counter := (c + 1) mod 2 ^ 24\<rparr>))"

text \<open>\<^verbatim>\<open>self._channels.put(chanid, chan)\<close> with a new object \<open>c\<close>, of which the address is returned.\<close>

definition add_channel :: "int \<Rightarrow> channel \<Rightarrow> 'k connection \<Rightarrow> 'k connection" where
  "add_channel cid c t =
     t\<lparr>cx_store := cx_store t @ [c], cx_map := cm_put cid (length (cx_store t)) (cx_map t), cx_seen := cid # cx_seen t\<rparr>"

section \<open>Sending\<close>

definition on_lower :: "('k, 'a) sm \<Rightarrow> ('k connection, 'a) sm" where
  "on_lower f = (\<lambda>t. case f (cx_lower t) of (r, k) \<Rightarrow> (r, t\<lparr>cx_lower := k\<rparr>))"

definition cx_send :: "'k lower \<Rightarrow> bytes \<Rightarrow> ('k connection, unit) sm" where
  "cx_send lw b = bindS (on_lower (lw_send lw b)) (\<lambda>_. modS (\<lambda>t. t\<lparr>cx_sent := cx_sent t @ [b]\<rparr>))"

definition cx_reply :: "'k lower \<Rightarrow> field list \<Rightarrow> ('k connection, unit) sm" where
  "cx_reply lw fs = bindS (liftR (built fs)) (cx_send lw)"

text \<open>A message of the user waits until no key exchange is going on; it is dropped when the connection is dead.
  Every pass of the loop has an entry: whether the time is up, and what other threads have done.\<close>

fun send_user_message ::
  "'k lower \<Rightarrow> bytes \<Rightarrow> (bool \<times> ('k connection \<Rightarrow> 'k connection)) list \<Rightarrow> ('k connection, unit) sm" where
  "send_user_message lw b [] t = (Inl Blocked, t)"
| "send_user_message lw b ((late, others) # ws) t0 =
     (let t = others t0 in
      if \<not> cx_active t then (Inr (), t)
      else if lw_clear lw (cx_lower t) then cx_send lw b t
      else if late then (Inl (SSHException ''Key-exchange timed out waiting for key negotiation''), t)
      else send_user_message lw b ws t)"

section \<open>Working on a channel\<close>

text \<open>An operation of the channel object at \<open>a\<close>: what it sends, saves and unlinks goes to the transport.\<close>

definition on_channel :: "nat \<Rightarrow> (channel, 'a) sm \<Rightarrow> ('k connection, 'a) sm" where
  "on_channel a f = (\<lambda>t.
     case f ((cx_store t ! a)\<lparr>outbox := [], linked := True, saved_exception := cx_saved t\<rparr>) of
       (r, c) \<Rightarrow>
         (r, t\<lparr>cx_store := (cx_store t)[a := c\<lparr>outbox := []\<rparr>], cx_sent := cx_sent t @ outbox c, cx_saved := saved_exception c,
               cx_map := (if linked c then cx_map t else cm_delete (chanid c) (cx_map t))\<rparr>))"

definition channel_handler :: "(ch_request \<Rightarrow> bool) option \<Rightarrow> byte \<Rightarrow> (message \<Rightarrow> (channel, unit) sm) option" where
  "channel_handler server ptype =
     (if ptype = MSG_CHANNEL_SUCCESS then Some (\<lambda>m. modS request_success)
      else if ptype = MSG_CHANNEL_FAILURE then Some (\<lambda>m. request_failed)
      else if ptype = MSG_CHANNEL_DATA then Some ch_feed
      else if ptype = MSG_CHANNEL_EXTENDED_DATA then Some feed_extended
      else if ptype = MSG_CHANNEL_WINDOW_ADJUST then Some window_adjust
      else if ptype = MSG_CHANNEL_REQUEST then Some (handle_request server)
      else if ptype = MSG_CHANNEL_EOF then Some (\<lambda>m. modS handle_eof)
      else if ptype = MSG_CHANNEL_CLOSE then Some (\<lambda>m. handle_close)
      else None)"

text \<open>\<^verbatim>\<open>for chan in list(self._channels.values()): chan._unlink()\<close>\<close>

definition unlink_all :: "'k connection \<Rightarrow> 'k connection" where
  "unlink_all t = fold (\<lambda>a t. snd (on_channel a (modS ch_unlink) t)) (map snd (cx_map t)) t"

definition cx_close :: "'k connection \<Rightarrow> 'k connection" where
  "cx_close t = (if \<not> cx_active t then t else unlink_all (t\<lparr>cx_active := False\<rparr>))"

text \<open>The table refers to its channels weakly: an object that nobody else holds is closed and leaves the table.\<close>

definition collect :: "nat \<Rightarrow> 'k connection \<Rightarrow> 'k connection" where
  "collect a t = (let t1 = snd (on_channel a ch_close t) in t1\<lparr>cx_map := filter (\<lambda>(i, b). b \<noteq> a) (cx_map t1)\<rparr>)"

section \<open>Authentication\<close>

definition is_authenticated :: "'k connection \<Rightarrow> bool" where
  "is_authenticated t \<longleftrightarrow> cx_active t \<and> (case cx_auth t of None \<Rightarrow> False | Some a \<Rightarrow> au_authed a)"

text \<open>An operation of the authentication handler, which shares attributes with the transport.\<close>

definition on_auth :: "'k lower \<Rightarrow> auth \<Rightarrow> (auth, 'a) sm \<Rightarrow> ('k connection, 'a) sm" where
  "on_auth lw a f = (\<lambda>t.
     case f (a\<lparr>au_active := cx_active t, au_saved := cx_saved t, au_extensions := cx_extensions t, au_sent := []\<rparr>) of
       (r, a') \<Rightarrow>
         (let t1 = t\<lparr>cx_auth := Some a', cx_saved := au_saved a', cx_sent := cx_sent t @ au_sent a',
                     cx_lower := (if au_triggered a' \<and> \<not> au_triggered a then lw_trigger lw (cx_lower t) else cx_lower t)\<rparr>
          in (r, if cx_active t \<and> \<not> au_active a' then cx_close t1 else t1)))"

text \<open>Messages other than those of the authentication are refused before it has succeeded; \<open>Some b\<close> is the answer.
  For some types the answer is an empty message.\<close>

definition ensure_authed :: "byte \<Rightarrow> message \<Rightarrow> 'k connection \<Rightarrow> bytes option res" where
  "ensure_authed ptype m t =
     (if \<not> cx_server t \<or> unat ptype \<le> HIGHEST_USERAUTH_MESSAGE_ID \<or> is_authenticated t then Inr None
      else if ptype = MSG_GLOBAL_REQUEST then Inr (Some [MSG_REQUEST_FAILURE])
      else if ptype = MSG_CHANNEL_OPEN then
        bindR (fst (bindS get_text (\<lambda>_. get_int) m)) (\<lambda>chanid.
        bindR (built [FByte MSG_CHANNEL_OPEN_FAILURE, FInt chanid, FInt OPEN_FAILED_ADMINISTRATIVELY_PROHIBITED,
                      FText [], FText (lit ''en'')]) (\<lambda>b. Inr (Some b)))
      else Inr (Some []))"

section \<open>Handlers\<close>

definition fire_completion :: "'k lower \<Rightarrow> 'k connection \<Rightarrow> 'k connection" where
  "fire_completion lw t = t\<lparr>cx_lower := lw_set_event lw (map_option (\<lambda>_. True) (lw_event lw (cx_lower t))) (cx_lower t)\<rparr>"

fun read_extensions :: "nat \<Rightarrow> (ustr \<times> bytes) list \<Rightarrow> (message, (ustr \<times> bytes) list) sm" where
  "read_extensions 0 d = retS d"
| "read_extensions (Suc n) d = bindS get_text (\<lambda>name. bindS get_string (\<lambda>val. read_extensions n (dict_put name val d)))"

definition parse_ext_info :: "message \<Rightarrow> ('k connection, unit) sm" where
  "parse_ext_info m =
     reading get_int m (\<lambda>n m. reading (read_extensions (nat n) []) m (\<lambda>d _. modS (\<lambda>t. t\<lparr>cx_extensions := d\<rparr>)))"

definition cx_newkeys :: "'k lower \<Rightarrow> ('k connection, unit) sm" where
  "cx_newkeys lw =
     bindS (on_lower (lw_newkeys lw)) (\<lambda>_. modS (\<lambda>t.
       if cx_server t \<and> cx_auth t = None
       then t\<lparr>cx_auth := Some (new_auth True (lw_session_id lw (cx_lower t)) (lw_pubkeys lw (cx_lower t)))\<rparr> else t))"

definition ask_app :: "conn_call \<Rightarrow> ('k connection, unit) sm" where
  "ask_app q = modS (\<lambda>t. t\<lparr>cx_calls := cx_calls t @ [q]\<rparr>)"

text \<open>\<open>judge_global\<close> gives what becomes of \<^verbatim>\<open>ok\<close> and \<^verbatim>\<open>extra\<close>.\<close>

definition judge_global :: "application \<Rightarrow> ustr \<Rightarrow> message \<Rightarrow> ('k connection, answer) sm" where
  "judge_global app which m = (\<lambda>t.
     if \<not> cx_server t then (Inr Deny, t)
     else if which = lit ''tcpip-forward'' then
       reading get_text m (\<lambda>address m. reading get_int m (\<lambda>port _.
         bindS (ask_app (Check_forward address port)) (\<lambda>_.
           retS (case app_forward app (cx_calls t) address port of
                   None \<Rightarrow> Deny | Some p \<Rightarrow> if p = 0 then Deny else Allow_with [PInt p])))) t
     else if which = lit ''cancel-tcpip-forward'' then
       reading get_text m (\<lambda>address m. reading get_int m (\<lambda>port _.
         bindS (ask_app (Cancel_forward address port)) (\<lambda>_. retS Allow))) t
     else bindS (ask_app (Check_global which m)) (\<lambda>_. retS (app_global app (cx_calls t) which m)) t)"

definition success_message :: "pyval list \<Rightarrow> bytes res" where
  "success_message extra = message_of (bindS (add_byte [MSG_REQUEST_SUCCESS]) (\<lambda>_. add_seq extra))"

definition parse_global_request :: "'k lower \<Rightarrow> application \<Rightarrow> message \<Rightarrow> ('k connection, unit) sm" where
  "parse_global_request lw app m =
     reading get_text m (\<lambda>which m. reading get_boolean m (\<lambda>want_reply m.
       bindS (judge_global app which m) (\<lambda>ok.
         if want_reply then
           (case ok of
              Deny \<Rightarrow> cx_reply lw [FByte MSG_REQUEST_FAILURE]
            | Allow \<Rightarrow> cx_reply lw [FByte MSG_REQUEST_SUCCESS]
            | Allow_with extra \<Rightarrow> bindS (liftR (success_message extra)) (cx_send lw))
         else retS ())))"

definition parse_request_success :: "'k lower \<Rightarrow> message \<Rightarrow> ('k connection, unit) sm" where
  "parse_request_success lw m = modS (\<lambda>t. fire_completion lw (t\<lparr>cx_response := Some m\<rparr>))"

definition parse_request_failure :: "'k lower \<Rightarrow> message \<Rightarrow> ('k connection, unit) sm" where
  "parse_request_failure lw m = modS (\<lambda>t. fire_completion lw (t\<lparr>cx_response := None\<rparr>))"

definition end_open :: "int \<Rightarrow> 'k connection \<Rightarrow> 'k connection" where
  "end_open cid t =
     (case map_of (cx_events t) cid of
        None \<Rightarrow> t
      | Some a \<Rightarrow> t\<lparr>cx_fired := a # cx_fired t, cx_events := cm_delete cid (cx_events t)\<rparr>)"

definition parse_channel_open_success :: "message \<Rightarrow> ('k connection, unit) sm" where
  "parse_channel_open_success m =
     reading get_int m (\<lambda>cid m. reading get_int m (\<lambda>server_chanid m. reading get_int m (\<lambda>window m. reading get_int m (\<lambda>packet _.
       (\<lambda>t. case cm_get cid (cx_map t) of
              None \<Rightarrow> (Inr (), t)
            | Some a \<Rightarrow>
                bindS (on_channel a (modS (set_remote_channel server_chanid window packet))) (\<lambda>_. modS (end_open cid)) t)))))"

definition parse_channel_open_failure :: "message \<Rightarrow> ('k connection, unit) sm" where
  "parse_channel_open_failure m =
     reading get_int m (\<lambda>cid m. reading get_int m (\<lambda>reason m. reading get_text m (\<lambda>_ m. reading get_text m (\<lambda>_ _.
       modS (\<lambda>t.
         let t1 = t\<lparr>cx_saved := Some (ChannelException reason)\<rparr>
         in if map_of (cx_events t1) cid \<noteq> None then end_open cid (t1\<lparr>cx_map := cm_delete cid (cx_map t1)\<rparr>) else t1)))))"

definition queue_incoming :: "nat \<Rightarrow> ('k connection, unit) sm" where
  "queue_incoming a = modS (\<lambda>t. t\<lparr>cx_accepts := cx_accepts t @ [a]\<rparr>)"

text \<open>Calling a handler: the default ones queue the channel, those of the user are recorded; \<^verbatim>\<open>None\<close> cannot be called.\<close>

definition call_handler :: "handler option \<Rightarrow> nat \<Rightarrow> delivery \<Rightarrow> ('k connection, unit) sm" where
  "call_handler h a d =
     (case h of
        None \<Rightarrow> raiseS TypeError
      | Some Queueing \<Rightarrow> queue_incoming a
      | Some User \<Rightarrow> modS (\<lambda>t. t\<lparr>cx_delivered := cx_delivered t @ [d]\<rparr>))"

text \<open>\<open>origin\<close> and \<open>dest\<close> are the local variables of the addresses, which only some branches have bound.\<close>

definition deliver_channel ::
  "ustr \<Rightarrow> nat \<Rightarrow> (ustr \<times> int) option \<Rightarrow> (ustr \<times> int) option \<Rightarrow> ('k connection, unit) sm" where
  "deliver_channel which a origin dest = (\<lambda>t.
     if which = lit ''auth-agent@openssh.com'' then call_handler (cx_agent t) a (To_agent a) t
     else if which = lit ''x11'' then
       (case origin of None \<Rightarrow> (Inl UnboundLocalError, t) | Some x \<Rightarrow> call_handler (cx_x11 t) a (To_x11 a x) t)
     else if which = lit ''forwarded-tcpip'' then
       (case (origin, dest) of
          (Some x, Some y) \<Rightarrow> call_handler (cx_tcp t) a (To_tcp a x y) t
        | _ \<Rightarrow> (Inl UnboundLocalError, t))
     else queue_incoming a t)"

definition refuse_open :: "'k lower \<Rightarrow> int \<Rightarrow> int \<Rightarrow> ('k connection, unit) sm" where
  "refuse_open lw rid reason =
     cx_reply lw [FByte MSG_CHANNEL_OPEN_FAILURE, FInt rid, FInt reason, FText [], FText (lit ''en'')]"

text \<open>Making the channel object, telling the other side, and handing the channel on.\<close>

definition accept_open ::
  "'k lower \<Rightarrow> ustr \<Rightarrow> int \<Rightarrow> int \<Rightarrow> int \<Rightarrow> int \<Rightarrow> (ustr \<times> int) option \<Rightarrow> (ustr \<times> int) option \<Rightarrow> ('k connection, unit) sm" where
  "accept_open lw which rid my_chanid window packet origin dest = (\<lambda>t.
     bindS (modS (add_channel my_chanid
              (set_remote_channel rid window packet (set_window (cx_window t) (cx_packet t) (new_channel my_chanid))))) (\<lambda>_.
     bindS (cx_reply lw [FByte MSG_CHANNEL_OPEN_SUCCESS, FInt rid, FInt my_chanid, FInt (cx_window t), FInt (cx_packet t)]) (\<lambda>_.
       deliver_channel which (length (cx_store t)) origin dest)) t)"

text \<open>The server's branch: asking the application.\<close>

definition ask_open ::
  "'k lower \<Rightarrow> application \<Rightarrow> ustr \<Rightarrow> int \<Rightarrow> int \<Rightarrow> int \<Rightarrow> int \<Rightarrow> conn_call \<Rightarrow> (ustr \<times> int) option \<Rightarrow> ('k connection, unit) sm" where
  "ask_open lw app which rid my_chanid window packet q origin = (\<lambda>t.
     let reason = app_open app (cx_calls t) q
     in bindS (ask_app q) (\<lambda>_.
          if reason \<noteq> OPEN_SUCCEEDED then refuse_open lw rid reason
          else accept_open lw which rid my_chanid window packet origin None) t)"

text \<open>The rest of the message depends on the kind; \<open>open_kind\<close> is what happens after the four fields all kinds have.\<close>

definition open_kind :: "'k lower \<Rightarrow> application \<Rightarrow> ustr \<Rightarrow> int \<Rightarrow> int \<Rightarrow> int \<Rightarrow> message \<Rightarrow> ('k connection, unit) sm" where
  "open_kind lw app which rid window packet m = (\<lambda>t.
     if which = lit ''auth-agent@openssh.com'' \<and> cx_agent t \<noteq> None then
       bindS next_channel (\<lambda>my. accept_open lw which rid my window packet None None) t
     else if which = lit ''x11'' \<and> cx_x11 t \<noteq> None then
       reading get_text m (\<lambda>addr m. reading get_int m (\<lambda>port _.
         bindS next_channel (\<lambda>my. accept_open lw which rid my window packet (Some (addr, port)) None))) t
     else if which = lit ''forwarded-tcpip'' \<and> cx_tcp t \<noteq> None then
       reading get_text m (\<lambda>saddr m. reading get_int m (\<lambda>sport m. reading get_text m (\<lambda>addr m. reading get_int m (\<lambda>port _.
         bindS next_channel (\<lambda>my. accept_open lw which rid my window packet (Some (addr, port)) (Some (saddr, sport))))))) t
     else if \<not> cx_server t then refuse_open lw rid OPEN_FAILED_ADMINISTRATIVELY_PROHIBITED t
     else
       bindS next_channel (\<lambda>my.
         if which = lit ''direct-tcpip'' then
           reading get_text m (\<lambda>daddr m. reading get_int m (\<lambda>dport m. reading get_text m (\<lambda>addr m. reading get_int m (\<lambda>port _.
             ask_open lw app which rid my window packet (Check_direct my (addr, port) (daddr, dport)) (Some (addr, port))))))
         else ask_open lw app which rid my window packet (Check_channel which my) None) t)"

definition parse_channel_open :: "'k lower \<Rightarrow> application \<Rightarrow> message \<Rightarrow> ('k connection, unit) sm" where
  "parse_channel_open lw app m =
     reading get_text m (\<lambda>which m. reading get_int m (\<lambda>rid m. reading get_int m (\<lambda>window m. reading get_int m (\<lambda>packet m.
       open_kind lw app which rid window packet m))))"

definition parse_debug :: "message \<Rightarrow> ('k connection, unit) sm" where
  "parse_debug m = reading get_boolean m (\<lambda>_ m. reading get_string m (\<lambda>_ m. reading get_string m (\<lambda>_ _. retS ())))"

definition parse_disconnect :: "message \<Rightarrow> ('k connection, unit) sm" where
  "parse_disconnect m = reading get_int m (\<lambda>_ m. reading get_text m (\<lambda>_ _. retS ()))"

section \<open>The loop\<close>

text \<open>\<^verbatim>\<open>_handler_table\<close>\<close>

definition transport_handler ::
  "'k lower \<Rightarrow> application \<Rightarrow> int \<Rightarrow> byte \<Rightarrow> (message \<Rightarrow> ('k connection, unit) sm) option" where
  "transport_handler lw app seqno ptype =
     (if ptype = MSG_EXT_INFO then Some parse_ext_info
      else if ptype = MSG_NEWKEYS then Some (\<lambda>m. cx_newkeys lw)
      else if ptype = MSG_GLOBAL_REQUEST then Some (parse_global_request lw app)
      else if ptype = MSG_REQUEST_SUCCESS then Some (parse_request_success lw)
      else if ptype = MSG_REQUEST_FAILURE then Some (parse_request_failure lw)
      else if ptype = MSG_CHANNEL_OPEN_SUCCESS then Some parse_channel_open_success
      else if ptype = MSG_CHANNEL_OPEN_FAILURE then Some parse_channel_open_failure
      else if ptype = MSG_CHANNEL_OPEN then Some (parse_channel_open lw app)
      else if ptype = MSG_KEXINIT then Some (\<lambda>m. on_lower (lw_kexinit lw seqno m))
      else None)"

definition enforce_strict_kex :: "'k lower \<Rightarrow> ('k connection, unit) sm" where
  "enforce_strict_kex lw = (\<lambda>t.
     if lw_strict lw (cx_lower t) \<and> \<not> lw_done lw (cx_lower t) then (Inl (SSHException ''In strict-kex mode''), t) else (Inr (), t))"

datatype pass = Go_on | Stop

text \<open>The parts of the loop's body after the messages that are handled anywhere: the kinds of tables in turn.\<close>

definition handle_channel_message ::
  "application \<Rightarrow> byte \<Rightarrow> message \<Rightarrow> ('k connection, pass) sm" where
  "handle_channel_message app ptype m =
     reading get_int m (\<lambda>cid m. (\<lambda>t.
       case cm_get cid (cx_map t) of
         Some a \<Rightarrow>
           (case channel_handler (if cx_server t then Some (app_request app (cx_calls t) cid) else None) ptype of
              Some h \<Rightarrow> bindS (on_channel a (h m)) (\<lambda>_. retS Go_on) t
            | None \<Rightarrow> (Inl KeyError, t))
       | None \<Rightarrow> (Inr (if cid \<in> set (cx_seen t) then Go_on else Stop), t)))"

definition unimplemented :: "'k lower \<Rightarrow> int \<Rightarrow> byte \<Rightarrow> ('k connection, pass) sm" where
  "unimplemented lw seqno ptype =
     (if unat ptype \<notin> set MSG_NAMES then raiseS KeyError
      else if ptype \<noteq> MSG_UNIMPLEMENTED then bindS (cx_reply lw [FByte MSG_UNIMPLEMENTED, FInt seqno]) (\<lambda>_. retS Go_on)
      else retS Go_on)"

definition by_tables ::
  "'k lower \<Rightarrow> application \<Rightarrow> signer \<Rightarrow> backend \<Rightarrow> bool \<Rightarrow> byte \<Rightarrow> int \<Rightarrow> message \<Rightarrow> ('k connection, pass) sm" where
  "by_tables lw app lib be auth_only ptype seqno m = (\<lambda>t.
     case transport_handler lw app seqno ptype of
       Some h \<Rightarrow>
         bindS (liftR (ensure_authed ptype m t)) (\<lambda>e.
           bindS (case e of Some b \<Rightarrow> cx_send lw b | None \<Rightarrow> h m) (\<lambda>_. retS Go_on)) t
     | None \<Rightarrow>
         (if channel_handler None ptype \<noteq> None then handle_channel_message app ptype m t
          else
              (case (case cx_auth t of None \<Rightarrow> None
                     | Some a \<Rightarrow> map_option (\<lambda>h. (a, h)) (auth_handler (app_auth app) lib be auth_only ptype a)) of
                 Some (a, h) \<Rightarrow> bindS (on_auth lw a (h m)) (\<lambda>_. retS Go_on) t
               | None \<Rightarrow> unimplemented lw seqno ptype t)))"

definition dispatch ::
  "'k lower \<Rightarrow> application \<Rightarrow> signer \<Rightarrow> backend \<Rightarrow> bool \<Rightarrow> byte \<Rightarrow> int \<Rightarrow> message \<Rightarrow> ('k connection, pass) sm" where
  "dispatch lw app lib be auth_only ptype seqno m = (\<lambda>t.
     if ptype = MSG_IGNORE then bindS (enforce_strict_kex lw) (\<lambda>_. retS Go_on) t
     else if ptype = MSG_DISCONNECT then bindS (parse_disconnect m) (\<lambda>_. retS Stop) t
     else if ptype = MSG_DEBUG then bindS (enforce_strict_kex lw) (\<lambda>_. bindS (parse_debug m) (\<lambda>_. retS Go_on)) t
     else if lw_expected lw (cx_lower t) \<noteq> [] then
       (if ptype \<notin> set (lw_expected lw (cx_lower t)) then (Inl (SSHException ''Expecting packet''), t)
        else
          bindS (modS (\<lambda>t. t\<lparr>cx_lower := lw_expect_none lw (cx_lower t)\<rparr>)) (\<lambda>_.
            if 30 \<le> ptype \<and> ptype \<le> 41 then bindS (on_lower (lw_next lw ptype m)) (\<lambda>_. retS Go_on)
            else by_tables lw app lib be auth_only ptype seqno m) t)
     else by_tables lw app lib be auth_only ptype seqno m t)"

text \<open>What the thread does when the loop has ended.\<close>

definition finish :: "'k lower \<Rightarrow> 'k connection \<Rightarrow> 'k connection" where
  "finish lw t0 =
     (let t = unlink_all t0
      in if cx_active t
         then (fire_completion lw (t\<lparr>cx_active := False\<rparr>))
                \<lparr>cx_auth := map_option abort (cx_auth t), cx_fired := map snd (cx_events t) @ cx_fired t\<rparr>
         else t)"

definition receive ::
  "'k lower \<Rightarrow> application \<Rightarrow> signer \<Rightarrow> backend \<Rightarrow> bool \<Rightarrow> byte \<times> int \<times> message \<Rightarrow> 'k connection \<Rightarrow> 'k connection" where
  "receive lw app lib be auth_only x t =
     (case x of (ptype, seqno, m) \<Rightarrow>
        (case dispatch lw app lib be auth_only ptype seqno m t of
           (Inl e, t') \<Rightarrow> finish lw (t'\<lparr>cx_saved := Some e\<rparr>)
         | (Inr Stop, t') \<Rightarrow> finish lw t'
         | (Inr Go_on, t') \<Rightarrow> if cx_active t' then t' else finish lw t'))"

section \<open>What the user calls\<close>

definition open_fields :: "ustr \<Rightarrow> (ustr \<times> int) option \<Rightarrow> (ustr \<times> int) option \<Rightarrow> field list res" where
  "open_fields which dest src =
     (if which = lit ''forwarded-tcpip'' \<or> which = lit ''direct-tcpip'' then
        bindR (needed dest) (\<lambda>(da, dp). bindR (needed src) (\<lambda>(sa, sp). Inr [FText da, FInt dp, FText sa, FInt sp]))
      else if which = lit ''x11'' then bindR (needed src) (\<lambda>(sa, sp). Inr [FText sa, FInt sp])
      else Inr [])"

text \<open>\<^verbatim>\<open>open_channel\<close> up to the message; the result is the number and the address of the new channel, and the message.\<close>

definition open_begin ::
  "ustr \<Rightarrow> (ustr \<times> int) option \<Rightarrow> (ustr \<times> int) option \<Rightarrow> int option \<Rightarrow> int option \<Rightarrow> ('k connection, int \<times> nat \<times> bytes) sm" where
  "open_begin which dest src window packet = (\<lambda>t.
     if \<not> cx_active t then (Inl (SSHException ''SSH session not active''), t)
     else
       (let w = sanitize_window_size (cx_window t) window; p = sanitize_packet_size (cx_packet t) packet; a = length (cx_store t)
        in bindS next_channel (\<lambda>cid.
           bindS (liftR (open_fields which dest src)) (\<lambda>fs.
           bindS (liftR (built ([FByte MSG_CHANNEL_OPEN, FText which, FInt cid, FInt w, FInt p] @ fs))) (\<lambda>b.
           bindS (modS (\<lambda>t. (add_channel cid (set_window w p (new_channel cid)) t)\<lparr>cx_events := cm_put cid a (cx_events t)\<rparr>)) (\<lambda>_.
             retS (cid, a, b))))) t))"

definition raise_saved :: "('k connection, 'a) sm" where
  "raise_saved = (\<lambda>t. (Inl (case cx_saved t of None \<Rightarrow> SSHException ''Unable to open channel.'' | Some e \<Rightarrow> e), t\<lparr>cx_saved := None\<rparr>))"

fun open_wait :: "int \<Rightarrow> nat \<Rightarrow> (bool \<times> ('k connection \<Rightarrow> 'k connection)) list \<Rightarrow> ('k connection, nat) sm" where
  "open_wait cid a [] t = (Inl Blocked, t)"
| "open_wait cid a ((late, others) # ws) t0 =
     (let t = others t0 in
      if \<not> cx_active t then raise_saved t
      else if a \<in> set (cx_fired t) then (case cm_get cid (cx_map t) of Some x \<Rightarrow> (Inr x, t) | None \<Rightarrow> raise_saved t)
      else if late then (Inl (SSHException ''Timeout opening channel.''), t)
      else open_wait cid a ws t)"

definition open_channel ::
  "'k lower \<Rightarrow> ustr \<Rightarrow> (ustr \<times> int) option \<Rightarrow> (ustr \<times> int) option \<Rightarrow> int option \<Rightarrow> int option \<Rightarrow>
   (bool \<times> ('k connection \<Rightarrow> 'k connection)) list \<Rightarrow> (bool \<times> ('k connection \<Rightarrow> 'k connection)) list \<Rightarrow> ('k connection, nat) sm" where
  "open_channel lw which dest src window packet sending waiting =
     bindS (open_begin which dest src window packet) (\<lambda>(cid, a, b).
     bindS (send_user_message lw b sending) (\<lambda>_. open_wait cid a waiting))"

definition open_session where "open_session lw window packet = open_channel lw (lit ''session'') None None window packet"
definition open_x11_channel where "open_x11_channel lw src = open_channel lw (lit ''x11'') None src None None"
definition open_forward_agent_channel where
  "open_forward_agent_channel lw = open_channel lw (lit ''auth-agent@openssh.com'') None None None None"
definition open_forwarded_tcpip_channel where
  "open_forwarded_tcpip_channel lw src dest = open_channel lw (lit ''forwarded-tcpip'') (Some dest) (Some src) None None"

definition accept :: "('k connection \<Rightarrow> 'k connection) \<Rightarrow> 'k connection \<Rightarrow> nat option \<times> 'k connection" where
  "accept others t =
     (case cx_accepts t of
        a # as \<Rightarrow> (Some a, t\<lparr>cx_accepts := as\<rparr>)
      | [] \<Rightarrow> (let t1 = others t in
                 case cx_accepts t1 of a # as \<Rightarrow> (Some a, t1\<lparr>cx_accepts := as\<rparr>) | [] \<Rightarrow> (None, t1)))"

fun response_wait :: "'k lower \<Rightarrow> ('k connection \<Rightarrow> 'k connection) list \<Rightarrow> ('k connection, message option) sm" where
  "response_wait lw [] t = (Inl Blocked, t)"
| "response_wait lw (others # ws) t0 =
     (let t = others t0 in
      if \<not> cx_active t then (Inr None, t)
      else if lw_event lw (cx_lower t) = Some True then (Inr (cx_response t), t)
      else response_wait lw ws t)"

definition global_request ::
  "'k lower \<Rightarrow> ustr \<Rightarrow> pyval list option \<Rightarrow> bool \<Rightarrow> (bool \<times> ('k connection \<Rightarrow> 'k connection)) list \<Rightarrow>
   ('k connection \<Rightarrow> 'k connection) list \<Rightarrow> ('k connection, message option) sm" where
  "global_request lw which data wait sending waiting =
     bindS (modS (\<lambda>t. if wait then t\<lparr>cx_lower := lw_set_event lw (Some False) (cx_lower t)\<rparr> else t)) (\<lambda>_.
     bindS (liftR (message_of (bindS (put_fields [FByte MSG_GLOBAL_REQUEST, FText which, FBool wait])
                    (\<lambda>_. case data of None \<Rightarrow> retS () | Some d \<Rightarrow> add_seq d)))) (\<lambda>b.
     bindS (send_user_message lw b sending) (\<lambda>_.
       if wait then response_wait lw waiting else retS None)))"

definition request_port_forward ::
  "'k lower \<Rightarrow> ustr \<Rightarrow> int \<Rightarrow> handler \<Rightarrow> (bool \<times> ('k connection \<Rightarrow> 'k connection)) list \<Rightarrow>
   ('k connection \<Rightarrow> 'k connection) list \<Rightarrow> ('k connection, int) sm" where
  "request_port_forward lw address port h sending waiting = (\<lambda>t.
     if \<not> cx_active t then (Inl (SSHException ''SSH session not active''), t)
     else
       bindS (global_request lw (lit ''tcpip-forward'') (Some [PStr address, PInt port]) True sending waiting) (\<lambda>response.
         case response of
           None \<Rightarrow> raiseS (SSHException ''TCP forwarding request denied'')
         | Some m \<Rightarrow>
             bindS (liftR (if port = 0 then fst (get_int m) else Inr port)) (\<lambda>p.
             bindS (modS (\<lambda>t. t\<lparr>cx_tcp := Some h\<rparr>)) (\<lambda>_. retS p))) t)"

definition cancel_port_forward ::
  "'k lower \<Rightarrow> ustr \<Rightarrow> int \<Rightarrow> (bool \<times> ('k connection \<Rightarrow> 'k connection)) list \<Rightarrow>
   ('k connection \<Rightarrow> 'k connection) list \<Rightarrow> ('k connection, unit) sm" where
  "cancel_port_forward lw address port sending waiting = (\<lambda>t.
     if \<not> cx_active t then (Inr (), t)
     else
       bindS (modS (\<lambda>t. t\<lparr>cx_tcp := None\<rparr>)) (\<lambda>_.
       bindS (global_request lw (lit ''cancel-tcpip-forward'') (Some [PStr address, PInt port]) True sending waiting) (\<lambda>_. retS ())) t)"

definition set_x11_handler :: "handler \<Rightarrow> 'k connection \<Rightarrow> 'k connection" where
  "set_x11_handler h t = t\<lparr>cx_x11 := Some h\<rparr>"

definition set_forward_agent_handler :: "handler \<Rightarrow> 'k connection \<Rightarrow> 'k connection" where
  "set_forward_agent_handler h t = t\<lparr>cx_agent := Some h\<rparr>"

definition send_ignore ::
  "'k lower \<Rightarrow> bytes \<Rightarrow> (bool \<times> ('k connection \<Rightarrow> 'k connection)) list \<Rightarrow> ('k connection, unit) sm" where
  "send_ignore lw random sending = send_user_message lw (MSG_IGNORE # random) sending"

end
