(* ===== verification/Ssh_Fields.thy ===== *)
theory Ssh_Fields
  imports Ssh_Message
begin

text \<open>
  Reading the fields of a message in order: \<open>holds_fields m fs\<close> says that what is left of \<open>m\<close> is the wire form of the
  fields \<open>fs\<close>, and each rule takes the next field off.
\<close>

section \<open>Reading the fields of a message\<close>

definition holds_fields :: "message \<Rightarrow> field list \<Rightarrow> bool" where
  "holds_fields m fs \<longleftrightarrow> get_remainder m = concat (map enc_field fs) \<and> list_all ok_field fs"

lemma holds_built: "list_all ok_field fs \<Longrightarrow> holds_fields (new_message (Some (concat (map enc_field fs)))) fs"
  by (simp add: holds_fields_def get_remainder_def new_message_def)

lemma holds_tail: "list_all ok_field fs \<Longrightarrow> holds_fields (new_message (Some (tl (concat (map enc_field (FByte t # fs)))))) fs"
  by (simp add: holds_fields_def get_remainder_def new_message_def)

lemma reading_field:
  assumes "holds_fields m (f # fs)" "p m = (Inr x, advance m (length (enc_field f)))"
  shows "\<exists>m'. holds_fields m' fs \<and> reading p m g a = g x m' a"
proof -
  have "holds_fields (advance m (length (enc_field f))) fs" using assms(1) by (simp add: holds_fields_def)
  then show ?thesis using assms(2) by (auto simp: reading_def)
qed

lemma reading_text:
  assumes "holds_fields m (FText s # fs)" "\<And>m'. holds_fields m' fs \<Longrightarrow> f s m' a = x"
  shows "reading get_text m f a = x"
proof -
  have "get_text m = (Inr s, advance m (length (enc_field (FText s))))"
    using assms(1) f_text.get_prefix [of s m "concat (map enc_field fs)"] by (simp add: holds_fields_def enc_field_def)
  from reading_field [where p = get_text, OF assms(1) this, of f a] assms(2) show ?thesis by auto
qed

lemma reading_boolean:
  assumes "holds_fields m (FBool b # fs)" "\<And>m'. holds_fields m' fs \<Longrightarrow> f b m' a = x"
  shows "reading get_boolean m f a = x"
proof -
  have "get_boolean m = (Inr b, advance m (length (enc_field (FBool b))))"
    using assms(1) f_boolean.get_prefix [where x = b and m = m and r = "concat (map enc_field fs)"] by (simp add: holds_fields_def enc_field_def)
  from reading_field [where p = get_boolean, OF assms(1) this, of f a] assms(2) show ?thesis by auto
qed

lemma reading_int:
  assumes "holds_fields m (FInt n # fs)" "\<And>m'. holds_fields m' fs \<Longrightarrow> f n m' a = x"
  shows "reading get_int m f a = x"
proof -
  have "get_int m = (Inr n, advance m (length (enc_field (FInt n))))"
    using assms(1) f_int.get_prefix [of n m "concat (map enc_field fs)"] by (simp add: holds_fields_def enc_field_def)
  from reading_field [where p = get_int, OF assms(1) this, of f a] assms(2) show ?thesis by auto
qed

lemma reading_string:
  assumes "holds_fields m (FString s # fs)" "\<And>m'. holds_fields m' fs \<Longrightarrow> f s m' a = x"
  shows "reading get_string m f a = x"
proof -
  have "get_string m = (Inr s, advance m (length (enc_field (FString s))))"
    using assms(1) f_string.get_prefix [of s m "concat (map enc_field fs)"] by (simp add: holds_fields_def enc_field_def)
  from reading_field [where p = get_string, OF assms(1) this, of f a] assms(2) show ?thesis by auto
qed

lemma reading_binary:
  assumes "holds_fields m (FString s # fs)" "\<And>m'. holds_fields m' fs \<Longrightarrow> f s m' a = x"
  shows "reading get_binary m f a = x"
  unfolding get_binary_eq using assms by (rule reading_string)

lemma reading_list:
  assumes "holds_fields m (FText s # fs)" "\<And>m'. holds_fields m' fs \<Longrightarrow> f (split_on 44 s) m' a = x"
  shows "reading get_list m f a = x"
proof -
  have "get_text m = (Inr s, advance m (length (enc_field (FText s))))"
    using assms(1) f_text.get_prefix [of s m "concat (map enc_field fs)"] by (simp add: holds_fields_def enc_field_def)
  then have "get_list m = (Inr (split_on 44 s), advance m (length (enc_field (FText s))))"
    by (simp add: get_list_def bindS_def retS_def)
  from reading_field [where p = get_list, OF assms(1) this, of f a] assms(2) show ?thesis by auto
qed

lemmas reading_steps = reading_text reading_boolean reading_int reading_binary reading_list

end
