(* ===== verification/Ssh_Auth_Agree.thy ===== *)
theory Ssh_Auth_Agree
  imports Ssh_Auth Ssh_Fields
begin

text \<open>
  Both sides of the authentication together: what the server's application decides is what the client's call returns.
  The messages of one side are handed to the handlers of the other (\<open>handle_all\<close>, the part of the transport's loop
  that concerns these messages).
\<close>

declare lit_simps [simp del]

section \<open>Handing over messages\<close>

fun handle_all ::
  "server_object \<Rightarrow> signer \<Rightarrow> backend \<Rightarrow> bytes list \<Rightarrow> (auth, unit) sm" where
  "handle_all srv lib be [] a = (Inr (), a)"
| "handle_all srv lib be (b # bs) a =
     (case auth_handler srv lib be False (hd b) a of
        None \<Rightarrow> (Inl KeyError, a)
      | Some h \<Rightarrow> bindS (h (new_message (Some (tl b)))) (\<lambda>_. handle_all srv lib be bs) a)"

text \<open>The messages that \<open>a'\<close> has sent since \<open>a\<close>.\<close>

definition sent_since :: "auth \<Rightarrow> auth \<Rightarrow> bytes list" where
  "sent_since a a' = drop (length (au_sent a)) (au_sent a')"

datatype credential = By_none | By_password ustr | By_publickey pkey

fun how_named :: "credential \<Rightarrow> ustr" where
  "how_named By_none = lit ''none''"
| "how_named (By_password p) = lit ''password''"
| "how_named (By_publickey k) = lit ''publickey''"

fun start_with :: "credential \<Rightarrow> ustr \<Rightarrow> (auth, unit) sm" where
  "start_with By_none user = auth_none user"
| "start_with (By_password p) user = auth_password user (Text p)"
| "start_with (By_publickey k) user = auth_publickey user k"

text \<open>What the server's application is asked.\<close>

fun asked :: "credential \<Rightarrow> ustr \<Rightarrow> server_call" where
  "asked By_none user = Check_none user"
| "asked (By_password p) user = Check_password user (Text p)"
| "asked (By_publickey k) user = Check_publickey user k"

text \<open>What the client's call comes to.\<close>

definition outcome :: "ustr \<Rightarrow> ustr \<Rightarrow> reaction \<Rightarrow> ustr list res" where
  "outcome how allowed r =
     (if r = Result AUTH_SUCCESSFUL then Inr []
      else if r = Result AUTH_PARTIALLY_SUCCESSFUL then Inr (split_on 44 allowed)
      else if how \<in> set (split_on 44 allowed) then Inl (AuthenticationException ''Authentication failed.'')
      else Inl (BadAuthenticationType (split_on 44 allowed)))"

section \<open>The client's request\<close>

lemma au_send_ok: "list_all ok_field fs \<Longrightarrow> au_send fs a = (Inr (), a\<lparr>au_sent := au_sent a @ [concat (map enc_field fs)]\<rparr>)"
  by (simp add: au_send_def built_ok bindS_def liftR_def modS_def)

lemma words_ok:
  "ok_field (FText (lit ''ssh-userauth''))" "ok_field (FText (lit ''ssh-connection''))" "ok_field (FText (lit ''publickey''))"
  "ok_field (FText (lit ''password''))" "ok_field (FText (lit ''none''))" "ok_field (FText (lit ''keyboard-interactive''))"
  "ok_field (FText (lit ''Service not available''))" "ok_field (FText (lit ''No more auth methods available''))"
  "ok_field (FText (lit ''en''))"
  by (simp_all add: lit_simps utf8_encode_def utf8_char_def ok_string_def scalar_def)

lemmas words_fit [simp] = words_ok [simplified]

lemma how_ok [simp]: "ok_field (FText (how_named cred))"
  by (cases cred) simp_all

definition session_blob :: "bytes \<Rightarrow> pkey \<Rightarrow> ustr \<Rightarrow> ustr \<Rightarrow> bytes \<Rightarrow> bytes" where
  "session_blob sid key user algorithm bits =
     concat (map enc_field [FString sid, FByte MSG_USERAUTH_REQUEST, FText user, FText (lit ''ssh-connection''),
       FText (lit ''publickey''), FBool True, FText algorithm, FString bits])"

lemma session_blob_eq:
  assumes "ok_string sid" "ok_field (FText user)" "ok_field (FText algorithm)" "ok_string bits"
    "snd (get_key_type_and_bits key) = Inr bits"
  shows "get_session_blob (Some sid) key (lit ''ssh-connection'') user algorithm = Inr (session_blob sid key user algorithm bits)"
proof -
  let ?fs = "[FString sid, FByte MSG_USERAUTH_REQUEST, FText user, FText (lit ''ssh-connection''),
       FText (lit ''publickey''), FBool True, FText algorithm]"
  have "bindS (put_fields ?fs) (\<lambda>_. bindS (liftR (Inr bits)) add_string) = put_fields (?fs @ [FString bits])"
    unfolding put_fields_append by (simp add: liftR_def bindS_def retS_def fun_eq_iff split: prod.split sum.split)
  moreover have "list_all ok_field (?fs @ [FString bits])" using assms(1-4) words_ok by simp
  ultimately show ?thesis using assms(5)
    by (simp add: get_session_blob_def needed_def session_blob_def message_of_fields del: put_fields.simps ok_field.simps)
qed

text \<open>What a public key needs: numbers that the library accepts and an algorithm that both sides support.\<close>

definition key_usable :: "signer \<Rightarrow> backend \<Rightarrow> pkey \<Rightarrow> auth \<Rightarrow> auth \<Rightarrow> bool" where
  "key_usable lib be k c s \<longleftrightarrow>
     pk_public_blob k = None \<and> backend_ok be (pk_numbers k) \<and> signer_laws lib be \<and>
     (\<forall>b. key_bytes k = Inr b \<longrightarrow> ok_string b) \<and>
     (\<exists>algo. fst (finalize_pubkey_algorithm (get_name k) c) = Inr algo \<and> map_of KEY_INFO algo = Some (class_of (pk_numbers k)) \<and>
        remove_all cert_suffix algo \<in> set (au_pubkeys s) \<and>
        (\<forall>d b. sign_ssh_data lib (pk_numbers k) d (Some algo) = Inr b \<longrightarrow> ok_string b))"

fun credential_ok :: "signer \<Rightarrow> backend \<Rightarrow> credential \<Rightarrow> auth \<Rightarrow> auth \<Rightarrow> bool" where
  "credential_ok lib be By_none c s = True"
| "credential_ok lib be (By_password p) c s = ok_field (FText p)"
| "credential_ok lib be (By_publickey k) c s = key_usable lib be k c s"

text \<open>The fields that prove who the client is.\<close>

fun proves :: "signer \<Rightarrow> backend \<Rightarrow> ustr list \<Rightarrow> bytes \<Rightarrow> ustr \<Rightarrow> credential \<Rightarrow> field list \<Rightarrow> bool" where
  "proves lib be pubkeys sid user By_none fs = (fs = [])"
| "proves lib be pubkeys sid user (By_password p) fs = (fs = [FBool False, FString (utf8_of p)] \<and> utf8_decode (utf8_of p) = Inr p)"
| "proves lib be pubkeys sid user (By_publickey k) fs =
     (\<exists>algo bits sig. fs = [FBool True, FText algo, FString bits, FString sig] \<and> key_bytes k = Inr bits \<and>
        generate_key_from_request be pubkeys algo bits = Some (Inr k) \<and>
        get_session_blob (Some sid) k (lit ''ssh-connection'') user algo = Inr (session_blob sid k user algo bits) \<and>
        fst (verify_ssh_sig lib be From_wire (pk_numbers k) (session_blob sid k user algo bits) (new_message (Some sig))) = Inr True)"

lemma key_info_names:
  "list_all (\<lambda>(a, c). list_all (\<lambda>x. x < 128) a \<and> length a < 100 \<and> (c = RSAKey \<longrightarrow> a \<in> set (map fst RSA_HASHES))) KEY_INFO"
  by code_simp

lemma key_info_signs:
  assumes "map_of KEY_INFO algo = Some (class_of k)" "backend_ok be k"
  shows "signs_with k (Some algo)" "ok_field (FText algo)"
proof -
  have a: "list_all (\<lambda>x. x < 128) algo" "length algo < 100" "class_of k = RSAKey \<longrightarrow> algo \<in> set (map fst RSA_HASHES)"
    using key_info_names map_of_SomeD [OF assms(1)] by (auto simp: list_all_iff)
  show "signs_with k (Some algo)" using a(3) assms(2) by (cases k) (auto simp: signs_with_def backend_ok_def Let_def)
  show "ok_field (FText algo)" using ascii_text [OF a(1)] a(2) by simp
qed

lemma publickey_fields_prove:
  assumes u: "key_usable lib be k c s" and sid: "au_session_id c = Some sid" "ok_string sid" and user: "ok_field (FText user)"
  shows "\<exists>fs x. publickey_fields lib user k c = (Inr fs, c\<lparr>au_agreed := x\<rparr>) \<and> list_all ok_field fs \<and>
     proves lib be (au_pubkeys s) sid user (By_publickey k) fs"
proof -
  from u obtain algo where k: "pk_public_blob k = None" "backend_ok be (pk_numbers k)" "signer_laws lib be"
    and f: "fst (finalize_pubkey_algorithm (get_name k) c) = Inr algo" and i: "map_of KEY_INFO algo = Some (class_of (pk_numbers k))"
    and p: "remove_all cert_suffix algo \<in> set (au_pubkeys s)"
    and short: "\<And>b. key_bytes k = Inr b \<Longrightarrow> ok_string b" "\<And>d b. sign_ssh_data lib (pk_numbers k) d (Some algo) = Inr b \<Longrightarrow> ok_string b"
    unfolding key_usable_def by blast
  note sw = key_info_signs [OF i k(2)]
  let ?bits = "concat (map enc_field (number_fields (pk_numbers k)))" and ?blob = "session_blob sid k user algo (concat (map enc_field (number_fields (pk_numbers k))))"
  have bits: "key_bytes k = Inr ?bits" using key_bytes_ok [OF k(2)] .
  have kk: "k = \<lparr>pk_numbers = pk_numbers k, pk_public_blob = None\<rparr>" using k(1) by (cases k) simp
  have kt: "get_key_type_and_bits k = (get_name k, Inr ?bits)" by (simp add: get_key_type_and_bits_def k(1) bits)
  obtain x where fx: "finalize_pubkey_algorithm (get_name k) c = (Inr algo, c\<lparr>au_agreed := x\<rparr>)"
  proof -
    have "\<exists>x. snd (finalize_pubkey_algorithm (get_name k) c) = c\<lparr>au_agreed := x\<rparr>"
      by (auto simp: finalize_pubkey_algorithm_def sm_simps Let_def split: sum.split intro: exI [of _ "au_agreed c"])
    with f that show ?thesis by (metis prod.collapse)
  qed
  have blob: "get_session_blob (Some sid) k (lit ''ssh-connection'') user algo = Inr ?blob"
    by (rule session_blob_eq [OF sid(2) user sw(2) short(1) [OF bits]]) (simp add: kt)
  obtain sig where sig: "sign_ssh_data lib (pk_numbers k) ?blob (Some algo) = Inr sig"
      "fst (verify_ssh_sig lib be From_wire (pk_numbers k) ?blob (new_message (Some sig))) = Inr True"
    using signature_verified [OF k(3) sw(1)] by blast
  have "generate_key_from_request be (au_pubkeys s) algo ?bits = Some (Inr k)"
    using key_read_back [OF k(2)] p i kk by (simp add: generate_key_from_request_def lookup_def bindR_def)
  then have "proves lib be (au_pubkeys s) sid user (By_publickey k) [FBool True, FText algo, FString ?bits, FString sig]"
    using bits blob sig(2) by auto
  moreover have "publickey_fields lib user k c = (Inr [FBool True, FText algo, FString ?bits, FString sig], c\<lparr>au_agreed := x\<rparr>)"
    using built_ok [of "[FText algo]"] sw(2) by (simp add: publickey_fields_def kt fx bindS_def liftR_def retS_def sid(1) blob sig(1))
  moreover have "list_all ok_field [FBool True, FText algo, FString ?bits, FString sig]"
    using sw(2) short(1) [OF bits] short(2) [OF sig(1)] by simp
  ultimately show ?thesis by blast
qed

lemma head_ok: "ok_field (FText user) \<Longrightarrow> list_all ok_field (request_head_fields user (how_named cred))"
  using how_ok [of cred] words_ok by (simp add: request_head_fields_def del: ok_field.simps(8))

text \<open>A client that has started, and the message with which the server accepts the service.\<close>

fun started :: "credential \<Rightarrow> ustr \<Rightarrow> auth \<Rightarrow> bool" where
  "started By_none user c \<longleftrightarrow> au_method c = lit ''none'' \<and> au_username c = Some user"
| "started (By_password p) user c \<longleftrightarrow> au_method c = lit ''password'' \<and> au_username c = Some user \<and> au_password c = Some (Text p)"
| "started (By_publickey k) user c \<longleftrightarrow> au_method c = lit ''publickey'' \<and> au_username c = Some user \<and> au_key c = Some k"

lemma started_named: "started cred user c \<Longrightarrow> au_method c = how_named cred \<and> au_username c = Some user"
  by (cases cred) simp_all

lemma method_fields_prove:
  assumes "started cred user c" "credential_ok lib be cred c s" "au_session_id c = Some sid" "ok_string sid" "ok_field (FText user)"
  shows "\<exists>fs x. method_fields lib user c = (Inr fs, c\<lparr>au_agreed := x\<rparr>) \<and> list_all ok_field fs \<and>
     proves lib be (au_pubkeys s) sid user cred fs"
proof (cases cred)
  case By_none
  have "method_fields lib user c = (Inr [], c\<lparr>au_agreed := au_agreed c\<rparr>)" using assms(1) By_none by (simp add: method_fields_def)
  with By_none show ?thesis by (intro exI [of _ "[]"] exI [of _ "au_agreed c"]) simp
next
  case (By_password p)
  have u: "\<exists>b. utf8_encode p = Inr b \<and> ok_string b" using assms(2) By_password by simp
  then have e: "utf8_encode p = Inr (utf8_of p)" by (auto simp: utf8_of_def)
  have "method_fields lib user c = (Inr [FBool False, FString (utf8_of p)], c\<lparr>au_agreed := au_agreed c\<rparr>)"
    using assms(1) By_password by (simp add: method_fields_def needed_def password_bytes_def e bindR_def bindS_def liftR_def retS_def)
  with By_password enc_text [OF u] show ?thesis by (intro exI [of _ "[FBool False, FString (utf8_of p)]"] exI [of _ "au_agreed c"]) simp
next
  case (By_publickey k)
  then have "method_fields lib user c = publickey_fields lib user k c" using assms(1) by (simp add: method_fields_def)
  with publickey_fields_prove [OF _ assms(3-5), of lib be k s] assms(2) By_publickey show ?thesis by simp
qed

lemma client_requests:
  assumes "started cred user c" "credential_ok lib be cred c s" "au_session_id c = Some sid" "ok_string sid" "ok_field (FText user)"
    and "holds_fields m (FText (lit ''ssh-userauth'') # rest)"
  shows "\<exists>fs x. parse_service_accept lib m c =
       (Inr (), c\<lparr>au_agreed := x, au_sent := au_sent c @ [concat (map enc_field (request_head_fields user (how_named cred) @ fs))]\<rparr>) \<and>
     list_all ok_field fs \<and> proves lib be (au_pubkeys s) sid user cred fs"
proof -
  obtain fs x where f: "method_fields lib user c = (Inr fs, c\<lparr>au_agreed := x\<rparr>)" "list_all ok_field fs"
      "proves lib be (au_pubkeys s) sid user cred fs"
    using method_fields_prove [OF assms(1-5)] by blast
  have "list_all ok_field (request_head_fields user (how_named cred) @ fs)" using head_ok [OF assms(5)] f(2) by simp
  from au_send_ok [OF this] have "parse_service_accept lib m c =
      (Inr (), c\<lparr>au_agreed := x, au_sent := au_sent c @ [concat (map enc_field (request_head_fields user (how_named cred) @ fs))]\<rparr>)"
    unfolding parse_service_accept_def using started_named [OF assms(1)] built_ok [OF head_ok [OF assms(5)]] f(1)
    by (intro reading_text [OF assms(6)]) (simp add: needed_def bindS_def liftR_def)
  with f show ?thesis by blast
qed

section \<open>The server's verdict\<close>

definition reply_fields :: "ustr \<Rightarrow> reaction \<Rightarrow> field list" where
  "reply_fields allowed r =
     (if r = Result AUTH_SUCCESSFUL then [FByte MSG_USERAUTH_SUCCESS]
      else [FByte MSG_USERAUTH_FAILURE, FText allowed, FBool (r = Result AUTH_PARTIALLY_SUCCESSFUL)])"

definition after_verdict :: "ustr \<Rightarrow> reaction \<Rightarrow> auth \<Rightarrow> auth" where
  "after_verdict allowed r s =
     s\<lparr>au_authed := r = Result AUTH_SUCCESSFUL \<or> au_authed s, au_triggered := r = Result AUTH_SUCCESSFUL \<or> au_triggered s,
       au_fail_count := (if r = Result AUTH_SUCCESSFUL \<or> r = Result AUTH_PARTIALLY_SUCCESSFUL then au_fail_count s else au_fail_count s + 1),
       au_sent := au_sent s @ [concat (map enc_field (reply_fields allowed r))]\<rparr>"

lemma send_auth_result_sends:
  assumes "ok_field (FText (allowed_auths srv (au_calls s) user))" "au_fail_count s < 9"
  shows "send_auth_result srv user r s = (Inr (), after_verdict (allowed_auths srv (au_calls s) user) r s)"
proof -
  have b: "built [FByte MSG_USERAUTH_FAILURE, FText (allowed_auths srv (au_calls s) user)] =
      Inr (concat (map enc_field [FByte MSG_USERAUTH_FAILURE, FText (allowed_auths srv (au_calls s) user)]))"
    by (rule built_ok) (use assms(1) in simp)
  show ?thesis using assms
    by (simp add: send_auth_result_def after_verdict_def reply_fields_def au_send_ok b bindS_def modS_def retS_def liftR_def del: enc_field_simps)
qed

lemma check_method_asks:
  assumes "proves lib be (au_pubkeys s) sid user cred fs" "holds_fields m fs" "au_session_id s = Some sid"
  shows "check_method srv lib be user (lit ''ssh-connection'') (how_named cred) m s =
     send_auth_result srv (Some user) (judge srv (au_calls s) (asked cred user)) (s\<lparr>au_calls := au_calls s @ [asked cred user]\<rparr>)"
proof (cases cred)
  case By_none
  then show ?thesis by (simp add: check_method_def ask_server_def bindS_def)
next
  case (By_password p)
  then have h: "holds_fields m [FBool False, FString (utf8_of p)]" and d: "decode_password (utf8_of p) = Text p"
    using assms by (simp_all add: decode_password_def)
  have "check_password srv user m s = bindS (ask_server srv (Check_password user (Text p))) (send_auth_result srv (Some user)) s"
    unfolding check_password_def by (rule reading_boolean [OF h], erule reading_binary) (simp add: d)
  with By_password show ?thesis by (simp add: check_method_def ask_server_def bindS_def)
next
  case (By_publickey k)
  with assms(1) obtain algo bits sig where fs: "fs = [FBool True, FText algo, FString bits, FString sig]" "key_bytes k = Inr bits"
    and g: "generate_key_from_request be (au_pubkeys s) algo bits = Some (Inr k)"
    and b: "get_session_blob (Some sid) k (lit ''ssh-connection'') user algo = Inr (session_blob sid k user algo bits)"
    and v: "fst (verify_ssh_sig lib be From_wire (pk_numbers k) (session_blob sid k user algo bits) (new_message (Some sig))) = Inr True"
    by auto
  let ?r = "judge srv (au_calls s) (Check_publickey user k)" and ?s = "s\<lparr>au_calls := au_calls s @ [Check_publickey user k]\<rparr>"
  have "check_publickey srv lib be user (lit ''ssh-connection'') m s = send_auth_result srv (Some user) ?r ?s"
    unfolding check_publickey_def
    by (rule reading_boolean [OF assms(2) [unfolded fs(1)]], erule reading_text, erule reading_binary)
       (auto simp: g bindS_def ask_server_def intro!: reading_binary, simp add: assms(3) b v liftR_def)
  with By_publickey show ?thesis by (simp add: check_method_def)
qed

lemma user_request_parsed:
  assumes "proves lib be (au_pubkeys s) sid user cred fs" "au_session_id s = Some sid" "list_all ok_field fs" "ok_field (FText user)"
    "au_server s" "\<not> au_authed s" "au_auth_username s = None \<or> au_auth_username s = Some user"
    "m = new_message (Some (tl (concat (map enc_field (request_head_fields user (how_named cred) @ fs)))))"
  shows "parse_userauth_request srv lib be m s =
     send_auth_result srv (Some user) (judge srv (au_calls s) (asked cred user))
       (s\<lparr>au_auth_username := Some user, au_calls := au_calls s @ [asked cred user]\<rparr>)"
proof -
  have "list_all ok_field ([FText user, FText (lit ''ssh-connection''), FText (how_named cred)] @ fs)"
    using head_ok [OF assms(4), of cred] assms(3) by (simp add: request_head_fields_def)
  from holds_tail [OF this] have h: "holds_fields m (FText user # FText (lit ''ssh-connection'') # FText (how_named cred) # fs)"
    using assms(8) by (simp add: request_head_fields_def del: ok_field.simps)
  have "check_method srv lib be user (lit ''ssh-connection'') (how_named cred) m' (s\<lparr>au_auth_username := Some user\<rparr>) =
      send_auth_result srv (Some user) (judge srv (au_calls s) (asked cred user))
        (s\<lparr>au_auth_username := Some user, au_calls := au_calls s @ [asked cred user]\<rparr>)" if "holds_fields m' fs" for m'
    using check_method_asks [OF _ that, of lib be "s\<lparr>au_auth_username := Some user\<rparr>" sid user cred srv] assms(1,2) by simp
  then have "reading get_text m (\<lambda>user m. reading get_text m (\<lambda>service m. reading get_text m (\<lambda>how m.
         if service \<noteq> lit ''ssh-connection'' then disconnect_service_not_available
         else (\<lambda>a.
           if au_auth_username a \<noteq> None \<and> au_auth_username a \<noteq> Some user then disconnect_no_more_auth a
           else check_method srv lib be user service how m (a\<lparr>au_auth_username := Some user\<rparr>))))) s =
      send_auth_result srv (Some user) (judge srv (au_calls s) (asked cred user))
       (s\<lparr>au_auth_username := Some user, au_calls := au_calls s @ [asked cred user]\<rparr>)"
    using assms(7) by (intro reading_text [OF h], elim reading_text) auto
  then show ?thesis using assms(5,6) by (simp add: parse_userauth_request_def)
qed

lemma handle_one:
  "auth_handler srv lib be False (hd b) a = Some h \<Longrightarrow> h (new_message (Some (tl b))) a = (Inr (), a') \<Longrightarrow>
     handle_all srv lib be (b # bs) a = handle_all srv lib be bs a'"
  by (simp add: bindS_def)

lemma server_handlers:
  "au_server s \<Longrightarrow> auth_handler srv lib be False MSG_SERVICE_REQUEST s = Some (parse_service_request srv)"
  "au_server s \<Longrightarrow> auth_handler srv lib be False MSG_USERAUTH_REQUEST s = Some (parse_userauth_request srv lib be)"
  by (simp_all add: auth_handler_def server_handler_def msg_defs)

lemma client_handlers:
  "\<not> au_server c \<Longrightarrow> auth_handler srv lib be False MSG_SERVICE_ACCEPT c = Some (parse_service_accept lib)"
  "\<not> au_server c \<Longrightarrow> auth_handler srv lib be False MSG_USERAUTH_SUCCESS c = Some parse_userauth_success"
  "\<not> au_server c \<Longrightarrow> auth_handler srv lib be False MSG_USERAUTH_FAILURE c = Some parse_userauth_failure"
  "\<not> au_server c \<Longrightarrow> auth_handler srv lib be False MSG_USERAUTH_BANNER c = Some parse_userauth_banner"
  by (simp_all add: auth_handler_def client_handler_def msg_defs)

text \<open>The client reads the verdict.\<close>

lemma client_reads_verdict:
  assumes "\<not> au_server c" "au_active c" "au_event c = Some e" "au_saved c = None" "au_method c = how" "r = Result AUTH_SUCCESSFUL \<or> ok_field (FText allowed)"
  shows "\<exists>c'. handle_all srv lib be [concat (map enc_field (reply_fields allowed r))] c = (Inr (), c') \<and>
     fst (wait_for_response [(False, \<lambda>_. c')] c0) = outcome how allowed r"
proof (cases "r = Result AUTH_SUCCESSFUL")
  case True
  let ?c = "fire_event (c\<lparr>au_authed := True, au_triggered := True\<rparr>)"
  have "handle_all srv lib be [concat (map enc_field (reply_fields allowed r))] c = (Inr (), ?c)"
    using client_handlers(2) [OF assms(1)] True
    by (subst handle_one [where h = parse_userauth_success and a' = ?c]) (simp_all add: reply_fields_def parse_userauth_success_def modS_def)
  moreover have "fst (wait_for_response [(False, \<lambda>_. ?c)] c0) = outcome how allowed r"
    using assms(2,3) True by (simp add: fire_event_def wait_result_def outcome_def)
  ultimately show ?thesis by blast
next
  case False
  let ?p = "r = Result AUTH_PARTIALLY_SUCCESSFUL" and ?l = "split_on 44 allowed"
  let ?c = "fire_event ((if ?p then c\<lparr>au_saved := Some (PartialAuthentication ?l)\<rparr>
      else if au_method c \<notin> set ?l then c\<lparr>au_saved := Some (BadAuthenticationType ?l)\<rparr> else c)\<lparr>au_authed := False, au_username := None\<rparr>)"
  let ?b = "concat (map enc_field (reply_fields allowed r))"
  have b: "hd ?b = MSG_USERAUTH_FAILURE" "holds_fields (new_message (Some (tl ?b))) [FText allowed, FBool ?p]"
    using False holds_tail [of "[FText allowed, FBool ?p]"] assms(6) by (simp_all add: reply_fields_def del: enc_field_simps(4))
  have "parse_userauth_failure (new_message (Some (tl ?b))) c = (Inr (), ?c)"
    unfolding parse_userauth_failure_def
    by (rule reading_list [OF b(2)], erule reading_boolean) (simp add: modS_def Let_def)
  with client_handlers(3) [OF assms(1)] b(1) have "handle_all srv lib be [?b] c = (Inr (), ?c)"
    by (subst handle_one [where h = parse_userauth_failure and a' = ?c]) simp_all
  moreover have "fst (wait_for_response [(False, \<lambda>_. ?c)] c0) = outcome how allowed r"
    using assms(2-5) False by (simp add: fire_event_def wait_result_def outcome_def get_exception_def)
  ultimately show ?thesis by blast
qed

section \<open>The whole exchange\<close>

definition banner_ok :: "server_object \<Rightarrow> bool" where
  "banner_ok srv \<longleftrightarrow> (case auth_banner srv of (None, l) \<Rightarrow> True | (Some b, l) \<Rightarrow> ok_field (FText b) \<and> ok_field (FText l))"

definition accept_messages :: "server_object \<Rightarrow> bytes list" where
  "accept_messages srv =
     concat (map enc_field [FByte MSG_SERVICE_ACCEPT, FText (lit ''ssh-userauth'')]) #
     (case auth_banner srv of
        (Some b, l) \<Rightarrow> if b \<noteq> [] then [concat (map enc_field [FByte MSG_USERAUTH_BANNER, FText b, FText l])] else []
      | (None, l) \<Rightarrow> [])"

definition service_request :: bytes where
  "service_request = concat (map enc_field [FByte MSG_SERVICE_REQUEST, FText (lit ''ssh-userauth'')])"

lemma starts:
  "\<exists>c1. start_with cred user c = (Inr (), c1) \<and> started cred user c1 \<and> au_sent c1 = au_sent c @ [service_request] \<and>
     au_event c1 = Some False \<and> au_server c1 = au_server c \<and> au_session_id c1 = au_session_id c \<and> au_saved c1 = au_saved c \<and>
     au_active c1 = au_active c \<and> au_pubkeys c1 = au_pubkeys c \<and> au_extensions c1 = au_extensions c"
proof -
  have "list_all ok_field [FByte MSG_SERVICE_REQUEST, FText (lit ''ssh-userauth'')]" using words_ok by (simp del: ok_field.simps(8))
  note r = au_send_ok [OF this]
  show ?thesis
    by (cases cred) (simp_all add: auth_none_def auth_password_def auth_publickey_def request_auth_def r bindS_def modS_def service_request_def del: enc_field_simps)
qed

lemma service_accepted:
  assumes "au_server s" "banner_ok srv"
  shows "handle_all srv lib be [service_request] s = (Inr (), s\<lparr>au_sent := au_sent s @ accept_messages srv\<rparr>)"
proof -
  have h: "holds_fields (new_message (Some (tl service_request))) [FText (lit ''ssh-userauth'')]"
    using holds_tail [of "[FText (lit ''ssh-userauth'')]" MSG_SERVICE_REQUEST] by (simp add: service_request_def)
  have ok: "list_all ok_field [FByte MSG_SERVICE_ACCEPT, FText (lit ''ssh-userauth'')]" using words_ok by (simp del: ok_field.simps(8))
  have "parse_service_request srv (new_message (Some (tl service_request))) s = (Inr (), s\<lparr>au_sent := au_sent s @ accept_messages srv\<rparr>)"
    unfolding parse_service_request_def
    by (rule reading_text [OF h], use assms ok in \<open>auto simp: accept_messages_def banner_ok_def au_send_ok bindS_def retS_def
        simp del: enc_field_simps split: prod.split option.split\<close>)
  then show ?thesis using server_handlers(1) [OF assms(1)]
    by (subst handle_one [where h = "parse_service_request srv"]) (auto simp: service_request_def)
qed

lemma banner_read:
  assumes "\<not> au_server c" "banner_ok srv"
  shows "\<exists>x. handle_all srv lib be (tl (accept_messages srv)) c = (Inr (), c\<lparr>au_banner := x\<rparr>)"
proof (cases "auth_banner srv")
  case (Pair bn l)
  show ?thesis
  proof (cases bn)
    case None
    with Pair show ?thesis by (auto simp: accept_messages_def intro!: exI [of _ "au_banner c"])
  next
    case (Some b)
    let ?m = "new_message (Some (tl (concat (map enc_field [FByte MSG_USERAUTH_BANNER, FText b, FText l]))))"
    have ok: "\<exists>x. utf8_encode b = Inr x \<and> ok_string x" and "ok_field (FText l)"
      using assms(2) Pair Some by (simp_all add: banner_ok_def)
    then have h: "holds_fields ?m [FString (utf8_of b), FText l]"
      using holds_tail [of "[FText b, FText l]" MSG_USERAUTH_BANNER] enc_text [OF ok] by (simp add: holds_fields_def)
    have "parse_userauth_banner ?m c = (Inr (), c\<lparr>au_banner := Some (utf8_of b)\<rparr>)"
      unfolding parse_userauth_banner_def by (rule reading_string [OF h]) (simp add: modS_def)
    then have "handle_all srv lib be [concat (map enc_field [FByte MSG_USERAUTH_BANNER, FText b, FText l])] c =
        (Inr (), c\<lparr>au_banner := Some (utf8_of b)\<rparr>)"
      using client_handlers(4) [OF assms(1)] by (subst handle_one [where h = parse_userauth_banner]) auto
    with Pair Some show ?thesis by (auto simp: accept_messages_def intro: exI [of _ "au_banner c"])
  qed
qed

text \<open>The client's answer to the acceptance, with the banner that may follow.\<close>

lemma client_goes_on:
  assumes "started cred user c" "credential_ok lib be cred c s" "au_session_id c = Some sid" "ok_string sid" "ok_field (FText user)"
    and "\<not> au_server c" "banner_ok srv"
  shows "\<exists>fs x y. handle_all srv lib be (accept_messages srv) c =
       (Inr (), c\<lparr>au_agreed := x, au_banner := y, au_sent := au_sent c @ [concat (map enc_field (request_head_fields user (how_named cred) @ fs))]\<rparr>) \<and>
     list_all ok_field fs \<and> proves lib be (au_pubkeys s) sid user cred fs"
proof -
  let ?a = "concat (map enc_field [FByte MSG_SERVICE_ACCEPT, FText (lit ''ssh-userauth'')])"
  have "holds_fields (new_message (Some (tl ?a))) [FText (lit ''ssh-userauth'')]"
    using holds_tail [of "[FText (lit ''ssh-userauth'')]" MSG_SERVICE_ACCEPT] by simp
  from client_requests [OF assms(1-5) this] obtain fs x where f: "list_all ok_field fs" "proves lib be (au_pubkeys s) sid user cred fs"
      "parse_service_accept lib (new_message (Some (tl ?a))) c =
        (Inr (), c\<lparr>au_agreed := x, au_sent := au_sent c @ [concat (map enc_field (request_head_fields user (how_named cred) @ fs))]\<rparr>)"
    by blast
  let ?c = "c\<lparr>au_agreed := x, au_sent := au_sent c @ [concat (map enc_field (request_head_fields user (how_named cred) @ fs))]\<rparr>"
  have "\<not> au_server ?c" using assms(6) by simp
  from banner_read [OF this assms(7)] obtain y where y: "handle_all srv lib be (tl (accept_messages srv)) ?c = (Inr (), ?c\<lparr>au_banner := y\<rparr>)"
    by blast
  have "handle_all srv lib be (?a # tl (accept_messages srv)) c = (Inr (), ?c\<lparr>au_banner := y\<rparr>)"
    using handle_one [where h = "parse_service_accept lib" and b = ?a and a = c and a' = ?c and bs = "tl (accept_messages srv)" and srv = srv
        and lib = lib and be = be] client_handlers(1) [OF assms(6)] f(3) y by simp
  moreover have "?a # tl (accept_messages srv) = accept_messages srv" by (simp add: accept_messages_def)
  ultimately have "handle_all srv lib be (accept_messages srv) c = (Inr (), ?c\<lparr>au_banner := y\<rparr>)" by (simp only:)
  then show ?thesis using f(1,2) by (intro exI [of _ fs] exI [of _ x] exI [of _ y]) simp
qed

lemma sent_since_new: "au_sent a' = au_sent a @ ms \<Longrightarrow> sent_since a a' = ms"
  by (simp add: sent_since_def)

lemma finalize_same: "au_pubkeys c1 = au_pubkeys c \<Longrightarrow> au_extensions c1 = au_extensions c \<Longrightarrow>
    fst (finalize_pubkey_algorithm kt c1) = fst (finalize_pubkey_algorithm kt c)"
  by (simp add: finalize_pubkey_algorithm_def sm_simps Let_def split: sum.split)

lemma credential_ok_same: "au_pubkeys c1 = au_pubkeys c \<Longrightarrow> au_extensions c1 = au_extensions c \<Longrightarrow> au_pubkeys s1 = au_pubkeys s \<Longrightarrow>
    credential_ok lib be cred c1 s1 = credential_ok lib be cred c s"
  by (cases cred) (simp_all add: key_usable_def finalize_same [of c1 c])

section \<open>Properties\<close>

text \<open>C4. The application's verdict is the client's result: when a client and a server share a session and the client
  authenticates with nothing, a password or a public key, the exchange of messages (service request, acceptance and
  banner, request, verdict) raises nothing on either side; the server's application is asked exactly one thing, about
  this user and this password or key, the key's signature being verified; and the client's call gives an empty list,
  the methods that remain, a failure or a wrong-type error just as the application decides, the server counting as
  authenticated if and only if the application says so.\<close>

theorem authentication_outcome:
  assumes "\<not> au_server c" "au_active c" "au_saved c = None" "au_session_id c = Some sid" "ok_string sid"
    and "au_server s" "\<not> au_authed s" "au_session_id s = Some sid" "au_fail_count s < 9"
    and "au_auth_username s = None \<or> au_auth_username s = Some user"
    and "ok_field (FText user)" "credential_ok lib be cred c s" "banner_ok srv"
    and "ok_field (FText (allowed_auths srv (au_calls s @ [asked cred user]) (Some user)))"
  shows "\<exists>c1 s1 c2 s2 c3.
     start_with cred user c = (Inr (), c1) \<and>
     handle_all srv lib be (sent_since c c1) s = (Inr (), s1) \<and>
     handle_all srv lib be (sent_since s s1) c1 = (Inr (), c2) \<and>
     handle_all srv lib be (sent_since c1 c2) s1 = (Inr (), s2) \<and>
     handle_all srv lib be (sent_since s1 s2) c2 = (Inr (), c3) \<and>
     fst (wait_for_response [(False, \<lambda>_. c3)] c1) =
       outcome (how_named cred) (allowed_auths srv (au_calls s @ [asked cred user]) (Some user)) (judge srv (au_calls s) (asked cred user)) \<and>
     au_authed s2 = (judge srv (au_calls s) (asked cred user) = Result AUTH_SUCCESSFUL) \<and>
     au_calls s2 = au_calls s @ [asked cred user] \<and> get_username s2 = Some user"
proof -
  let ?r = "judge srv (au_calls s) (asked cred user)" and ?allowed = "allowed_auths srv (au_calls s @ [asked cred user]) (Some user)"
  obtain c1 where c1: "start_with cred user c = (Inr (), c1)" "started cred user c1" "au_sent c1 = au_sent c @ [service_request]"
      "au_event c1 = Some False" "au_server c1 = au_server c" "au_session_id c1 = au_session_id c" "au_saved c1 = au_saved c"
      "au_active c1 = au_active c" "au_pubkeys c1 = au_pubkeys c" "au_extensions c1 = au_extensions c"
    using starts [of cred user c] by blast
  let ?s1 = "s\<lparr>au_sent := au_sent s @ accept_messages srv\<rparr>"
  have cred: "credential_ok lib be cred c1 ?s1" using assms(12) c1(9,10) credential_ok_same [of c1 c ?s1 s] by simp
  obtain fs x y where f: "list_all ok_field fs" "proves lib be (au_pubkeys ?s1) sid user cred fs" and
      cc: "handle_all srv lib be (accept_messages srv) c1 =
        (Inr (), c1\<lparr>au_agreed := x, au_banner := y, au_sent := au_sent c1 @ [concat (map enc_field (request_head_fields user (how_named cred) @ fs))]\<rparr>)"
    using client_goes_on [OF c1(2) cred _ assms(5,11) _ assms(13)] c1(5,6) assms(1,4) by auto
  let ?b = "concat (map enc_field (request_head_fields user (how_named cred) @ fs))"
  let ?c2 = "c1\<lparr>au_agreed := x, au_banner := y, au_sent := au_sent c1 @ [?b]\<rparr>"
  let ?q = "?s1\<lparr>au_auth_username := Some user, au_calls := au_calls s @ [asked cred user]\<rparr>"
  let ?s2 = "after_verdict ?allowed ?r ?q"
  have "parse_userauth_request srv lib be (new_message (Some (tl ?b))) ?s1 = send_auth_result srv (Some user) ?r ?q"
    using user_request_parsed [OF f(2) _ f(1) assms(11), of "new_message (Some (tl ?b))" srv] assms(6-8,10) by simp
  also have "\<dots> = (Inr (), ?s2)"
    using send_auth_result_sends [of srv ?q "Some user" ?r] assms(9,14) by simp
  finally have "handle_all srv lib be [?b] ?s1 = (Inr (), ?s2)"
    using server_handlers(2) [of ?s1 srv lib be] assms(6)
    by (subst handle_one [where h = "parse_userauth_request srv lib be" and a' = ?s2]) (simp_all add: request_head_fields_def)
  moreover obtain c3 where "handle_all srv lib be [concat (map enc_field (reply_fields ?allowed ?r))] ?c2 = (Inr (), c3)"
      "fst (wait_for_response [(False, \<lambda>_. c3)] c1) = outcome (how_named cred) ?allowed ?r"
    using client_reads_verdict [of ?c2 False "how_named cred" ?r ?allowed srv lib be c1] started_named [OF c1(2)] c1(4,5,7,8) assms(1-3,14)
    by auto
  moreover have "sent_since c c1 = [service_request]" "sent_since s ?s1 = accept_messages srv" "sent_since c1 ?c2 = [?b]"
      "sent_since ?s1 ?s2 = [concat (map enc_field (reply_fields ?allowed ?r))]"
    using c1(3) by (auto intro!: sent_since_new simp: after_verdict_def)
  moreover have "au_authed ?s2 = (?r = Result AUTH_SUCCESSFUL) \<and> au_calls ?s2 = au_calls s @ [asked cred user] \<and> get_username ?s2 = Some user"
    using assms(6,7) by (simp add: after_verdict_def get_username_def)
  ultimately show ?thesis
    using c1(1) service_accepted [OF assms(6,13), of lib be] cc
    by (intro exI [of _ c1] exI [of _ ?s1] exI [of _ ?c2] exI [of _ ?s2] exI [of _ c3]) simp
qed

text \<open>A server that knows one password, and one key.\<close>

definition sample_server :: server_object where
  "sample_server =
     \<lparr>judge = (\<lambda>calls q. Result (if q = Check_password [117] (Text [112]) \<or> q = Check_publickey [117] \<lparr>pk_numbers = Rsa 3 33, pk_public_blob = None\<rparr>
                                 then AUTH_SUCCESSFUL else AUTH_FAILED)),
      allowed_auths = (\<lambda>calls user. [112, 97]), auth_banner = (Some [104, 105], [101])\<rparr>"

theorem authentication_outcome_witness:
  "\<exists>c1 s1 c2 s2 c3.
     start_with (By_password [112]) [117] (new_auth False (Some [1, 2]) []) = (Inr (), c1) \<and>
     handle_all sample_server sample_signer sample_backend (sent_since (new_auth False (Some [1, 2]) []) c1) (new_auth True (Some [1, 2]) []) = (Inr (), s1) \<and>
     handle_all sample_server sample_signer sample_backend (sent_since (new_auth True (Some [1, 2]) []) s1) c1 = (Inr (), c2) \<and>
     handle_all sample_server sample_signer sample_backend (sent_since c1 c2) s1 = (Inr (), s2) \<and>
     handle_all sample_server sample_signer sample_backend (sent_since s1 s2) c2 = (Inr (), c3) \<and>
     fst (wait_for_response [(False, \<lambda>_. c3)] c1) = Inr [] \<and> au_authed s2"
proof -
  have t: "ok_field (FText [117])" "ok_field (FText [112])" "ok_field (FText [112, 97])" "ok_field (FText [104, 105])" "ok_field (FText [101])"
    by (simp_all add: utf8_encode_def utf8_char_def ok_string_def scalar_def)
  have b: "banner_ok sample_server" using t by (simp add: banner_ok_def sample_server_def)
  have r: "judge sample_server [] (asked (By_password [112]) [117]) = Result AUTH_SUCCESSFUL"
    "ok_field (FText (allowed_auths sample_server q u))" for q u
    using t(3) by (simp_all add: sample_server_def)
  have n: "au_server (new_auth x y z) = x" "au_active (new_auth x y z)" "au_saved (new_auth x y z) = None" "au_session_id (new_auth x y z) = y"
    "\<not> au_authed (new_auth x y z)" "au_fail_count (new_auth x y z) = 0" "au_auth_username (new_auth x y z) = None"
    "au_calls (new_auth x y z) = []" for x y z by (simp_all add: new_auth_def)
  let ?c = "new_auth False (Some [1, 2]) []" and ?s = "new_auth True (Some [1, 2]) []" and ?p = "By_password [112]"
  have p: "\<not> au_server ?c" "au_active ?c" "au_saved ?c = None" "au_session_id ?c = Some [1, 2]" "ok_string [1, 2]"
    "au_server ?s" "\<not> au_authed ?s" "au_session_id ?s = Some [1, 2]" "au_fail_count ?s < 9"
    "au_auth_username ?s = None \<or> au_auth_username ?s = Some [117]" "credential_ok sample_signer sample_backend ?p ?c ?s"
    using t(2) by (simp_all add: n ok_string_def)
  have o: "outcome a d (Result AUTH_SUCCESSFUL) = Inr []" for a d by (simp add: outcome_def)
  from authentication_outcome [OF p(1-10) t(1) p(11) b r(2)] show ?thesis unfolding n r(1) o by blast
qed

end
