(* ===== verification/Sm_Hoare.thy ===== *)
theory Sm_Hoare
  imports Balii_Prelude
begin

text \<open>
  Reasoning about computations that may raise: \<open>triple P f Q E\<close> says that \<open>f\<close>, started where \<open>P\<close> holds, ends where
  \<open>Q\<close> holds of its value, or raises where \<open>E\<close> holds.
\<close>

definition triple :: "('s \<Rightarrow> bool) \<Rightarrow> ('s, 'a) sm \<Rightarrow> ('a \<Rightarrow> 's \<Rightarrow> bool) \<Rightarrow> ('s \<Rightarrow> bool) \<Rightarrow> bool" where
  "triple P f Q E \<longleftrightarrow> (\<forall>s. P s \<longrightarrow> (case f s of (Inr x, s') \<Rightarrow> Q x s' | (Inl e, s') \<Rightarrow> E s'))"

named_theorems triple_rules \<open>rules that take a computation apart\<close>

lemma tripleI: "(\<And>s x s'. P s \<Longrightarrow> f s = (Inr x, s') \<Longrightarrow> Q x s') \<Longrightarrow> (\<And>s e s'. P s \<Longrightarrow> f s = (Inl e, s') \<Longrightarrow> E s') \<Longrightarrow>
    triple P f Q E"
  by (auto simp: triple_def split: prod.split sum.split)

lemma triple_Inr: "triple P f Q E \<Longrightarrow> P s \<Longrightarrow> f s = (Inr x, s') \<Longrightarrow> Q x s'"
  unfolding triple_def by (auto dest: spec [of _ s])

lemma triple_Inl: "triple P f Q E \<Longrightarrow> P s \<Longrightarrow> f s = (Inl e, s') \<Longrightarrow> E s'"
  unfolding triple_def by (auto dest: spec [of _ s])

lemma triple_bind [triple_rules]: "triple P f R E \<Longrightarrow> (\<And>x. triple (R x) (g x) Q E) \<Longrightarrow> triple P (bindS f g) Q E"
  unfolding triple_def bindS_def by (fastforce split: prod.splits sum.splits)

lemma triple_ret: "(\<And>s. P s \<Longrightarrow> Q x s) \<Longrightarrow> triple P (retS x) Q E"
  by (simp add: triple_def retS_def)

lemma triple_raise: "(\<And>s. P s \<Longrightarrow> E s) \<Longrightarrow> triple P (raiseS e) Q E"
  by (simp add: triple_def raiseS_def)

lemma triple_mod: "(\<And>s. P s \<Longrightarrow> Q () (f s)) \<Longrightarrow> triple P (modS f) Q E"
  by (simp add: triple_def modS_def)

lemma triple_lift: "(\<And>s x. P s \<Longrightarrow> r = Inr x \<Longrightarrow> Q x s) \<Longrightarrow> (\<And>s. P s \<Longrightarrow> E s) \<Longrightarrow> triple P (liftR r) Q E"
  by (auto simp: triple_def liftR_def split: sum.split)

lemma triple_reading:
  "(\<And>x m'. p m = (Inr x, m') \<Longrightarrow> triple P (f x m') Q E) \<Longrightarrow> (\<And>s. P s \<Longrightarrow> E s) \<Longrightarrow> triple P (reading p m f) Q E"
  by (cases "p m", cases "fst (p m)") (auto simp: reading_def intro: triple_raise)

text \<open>A computation that looks at the state and then goes on as \<open>g\<close>.\<close>

lemma triple_by_state: "(\<And>s. P s \<Longrightarrow> \<exists>g. f s = g s \<and> triple P g Q E) \<Longrightarrow> triple P f Q E"
  unfolding triple_def by metis

lemma triple_at: "(\<And>s. P s \<Longrightarrow> \<exists>g. f s = g s \<and> triple (\<lambda>t. t = s) g Q E) \<Longrightarrow> triple P f Q E"
  unfolding triple_def by metis

lemma triple_if [triple_rules]: "(b \<Longrightarrow> triple P f Q E) \<Longrightarrow> (\<not> b \<Longrightarrow> triple P g Q E) \<Longrightarrow> triple P (if b then f else g) Q E"
  by simp

lemma triple_conseq: "triple P' f Q' E' \<Longrightarrow> (\<And>s. P s \<Longrightarrow> P' s) \<Longrightarrow> (\<And>x s. Q' x s \<Longrightarrow> Q x s) \<Longrightarrow> (\<And>s. E' s \<Longrightarrow> E s) \<Longrightarrow> triple P f Q E"
  unfolding triple_def by (fastforce split: prod.splits sum.splits)

lemma triple_pre: "triple P' f Q E \<Longrightarrow> (\<And>s. P s \<Longrightarrow> P' s) \<Longrightarrow> triple P f Q E"
  by (rule triple_conseq)

text \<open>A computation that keeps \<open>P\<close>, whether it raises or not.\<close>

definition keeps :: "('s \<Rightarrow> bool) \<Rightarrow> ('s, 'a) sm \<Rightarrow> bool" where
  "keeps P f \<longleftrightarrow> triple P f (\<lambda>_. P) P"

named_theorems keeps_rules \<open>rules that take a computation that keeps a predicate apart\<close>

lemma keepsI: "(\<And>s. P s \<Longrightarrow> P (snd (f s))) \<Longrightarrow> keeps P f"
  unfolding keeps_def triple_def by (auto split: prod.split sum.split) (metis snd_conv)+

lemma keepsD: "keeps P f \<Longrightarrow> P s \<Longrightarrow> P (snd (f s))"
  unfolding keeps_def triple_def by (drule spec [of _ s], cases "f s", cases "fst (f s)") auto

lemma keeps_bind [keeps_rules]: "keeps P f \<Longrightarrow> (\<And>x. keeps P (g x)) \<Longrightarrow> keeps P (bindS f g)"
  unfolding keeps_def by (rule triple_bind)

lemma keeps_ret [keeps_rules]: "keeps P (retS x)" and keeps_raise [keeps_rules]: "keeps P (raiseS e)"
  and keeps_lift [keeps_rules]: "keeps P (liftR r)"
  unfolding keeps_def by (simp_all add: triple_ret triple_raise triple_lift)

lemma keeps_mod: "(\<And>s. P s \<Longrightarrow> P (f s)) \<Longrightarrow> keeps P (modS f)"
  unfolding keeps_def by (rule triple_mod)

lemma keeps_reading [keeps_rules]: "(\<And>x m'. keeps P (f x m')) \<Longrightarrow> keeps P (reading p m f)"
  unfolding keeps_def by (rule triple_reading)

lemma keeps_if [keeps_rules]: "(b \<Longrightarrow> keeps P f) \<Longrightarrow> (\<not> b \<Longrightarrow> keeps P g) \<Longrightarrow> keeps P (if b then f else g)"
  by simp

lemma keeps_state: "(\<And>s. keeps P (f s)) \<Longrightarrow> keeps P (\<lambda>s. f s s)"
  unfolding keeps_def triple_def by (simp add: split_beta)

end
