(* ===== verification/Ssh_Auth_Safe.thy ===== *)
theory Ssh_Auth_Safe
  imports Ssh_Auth_Agree Sm_Hoare
begin

text \<open>
  The server's side of the authentication as a state machine: the messages of a client, whatever they are, handled one
  after the other while the session is active. Shown: it counts as authenticated only after the application has
  granted it, for a public key only with a signature, and only for the one user it has been asked about; and it gives
  a client no more than ten failures.
\<close>

declare lit_simps [simp del]

section \<open>The state machine\<close>

text \<open>The state is the messages received so far and the handler; a handler that raises ends the session.\<close>

inductive auth_step :: "server_object \<Rightarrow> signer \<Rightarrow> backend \<Rightarrow> message list \<times> auth \<Rightarrow> message list \<times> auth \<Rightarrow> bool"
  for srv lib be where
  handled: "au_active s \<Longrightarrow> server_handler srv lib be t = Some h \<Longrightarrow> h m s = (Inr (), s') \<Longrightarrow>
    auth_step srv lib be (rcv, s) (m # rcv, s')"
| failed: "au_active s \<Longrightarrow> server_handler srv lib be t = Some h \<Longrightarrow> h m s = (Inl e, s') \<Longrightarrow>
    auth_step srv lib be (rcv, s) (m # rcv, close_transport (s'\<lparr>au_saved := Some e\<rparr>))"

definition auth_init :: "bytes option \<Rightarrow> ustr list \<Rightarrow> message list \<times> auth \<Rightarrow> bool" where
  "auth_init sid pubkeys x \<longleftrightarrow> x = ([], new_auth True sid pubkeys)"

inductive_cases auth_step_cases: "auth_step srv lib be (rcv, s) x"

section \<open>What is granted\<close>

text \<open>The parts of a signed request.\<close>

definition signed_parts :: "message \<Rightarrow> (ustr \<times> ustr \<times> ustr \<times> bool \<times> ustr \<times> bytes \<times> bytes) res" where
  "signed_parts m =
     fst (bindS get_text (\<lambda>user. bindS get_text (\<lambda>service. bindS get_text (\<lambda>how. bindS get_boolean (\<lambda>flag.
          bindS get_text (\<lambda>algo. bindS get_binary (\<lambda>keyblob. bindS get_binary (\<lambda>sig.
            retS (user, service, how, flag, algo, keyblob, sig)))))))) m)"

definition proved_by :: "signer \<Rightarrow> backend \<Rightarrow> bytes option \<Rightarrow> message \<Rightarrow> ustr \<Rightarrow> pkey \<Rightarrow> bool" where
  "proved_by lib be sid m user key \<longleftrightarrow>
     (\<exists>algo keyblob sig blob.
        signed_parts m = Inr (user, lit ''ssh-connection'', lit ''publickey'', True, algo, keyblob, sig) \<and>
        get_session_blob sid key (lit ''ssh-connection'') user algo = Inr blob \<and>
        fst (verify_ssh_sig lib be From_wire (pk_numbers key) blob (new_message (Some sig))) = Inr True)"

fun call_user :: "server_call \<Rightarrow> ustr option" where
  "call_user (Check_none u) = Some u"
| "call_user (Check_password u p) = Some u"
| "call_user (Check_publickey u k) = Some u"
| "call_user (Check_interactive u b) = Some u"
| "call_user (Check_response r) = None"

fun evidence :: "signer \<Rightarrow> backend \<Rightarrow> bytes option \<Rightarrow> message list \<Rightarrow> server_call \<Rightarrow> bool" where
  "evidence lib be sid rcv (Check_publickey u k) = (\<exists>m \<in> set rcv. proved_by lib be sid m u k)"
| "evidence lib be sid rcv q = True"

definition granted :: "server_object \<Rightarrow> signer \<Rightarrow> backend \<Rightarrow> bytes option \<Rightarrow> message list \<Rightarrow> server_call list \<Rightarrow> bool" where
  "granted srv lib be sid rcv calls \<longleftrightarrow>
     (\<exists>i < length calls. judge srv (take i calls) (calls ! i) = Result AUTH_SUCCESSFUL \<and> evidence lib be sid rcv (calls ! i))"

definition core :: "server_object \<Rightarrow> signer \<Rightarrow> backend \<Rightarrow> bytes option \<Rightarrow> message list \<Rightarrow> auth \<Rightarrow> bool" where
  "core srv lib be sid rcv s \<longleftrightarrow>
     au_server s \<and> au_session_id s = sid \<and> (\<forall>q \<in> set (au_calls s). \<forall>u. call_user q = Some u \<longrightarrow> au_auth_username s = Some u) \<and>
     (au_authed s \<longrightarrow> granted srv lib be sid rcv (au_calls s)) \<and> au_fail_count s \<le> 10 \<and> (au_triggered s \<longrightarrow> au_authed s)"

definition steady :: "server_object \<Rightarrow> signer \<Rightarrow> backend \<Rightarrow> bytes option \<Rightarrow> message list \<Rightarrow> auth \<Rightarrow> bool" where
  "steady srv lib be sid rcv s \<longleftrightarrow> core srv lib be sid rcv s \<and> (au_active s \<longrightarrow> au_fail_count s < 10)"

lemma granted_append:
  assumes "granted srv lib be sid rcv calls"
  shows "granted srv lib be sid rcv (calls @ qs)"
proof -
  from assms obtain i where "i < length calls" "judge srv (take i calls) (calls ! i) = Result AUTH_SUCCESSFUL"
    "evidence lib be sid rcv (calls ! i)" unfolding granted_def by blast
  then show ?thesis unfolding granted_def by (intro exI [of _ i]) (simp add: nth_append)
qed

lemma evidence_more: "evidence lib be sid rcv q \<Longrightarrow> evidence lib be sid (m # rcv) q"
  by (cases q) auto

lemma core_more: "core srv lib be sid rcv s \<Longrightarrow> core srv lib be sid (m # rcv) s"
  unfolding core_def granted_def using evidence_more by blast

lemma granted_last: "judge srv calls q = Result AUTH_SUCCESSFUL \<Longrightarrow> evidence lib be sid rcv q \<Longrightarrow> granted srv lib be sid rcv (calls @ [q])"
  unfolding granted_def by (intro exI [of _ "length calls"]) simp

section \<open>Every handler keeps it\<close>

lemma triple_send: "(\<And>s x. P s \<Longrightarrow> Q () (s\<lparr>au_sent := x\<rparr>)) \<Longrightarrow> (\<And>s. P s \<Longrightarrow> E s) \<Longrightarrow> triple P (au_send fs) Q E"
  unfolding au_send_def by (rule triple_bind [OF triple_lift [where Q = "\<lambda>_. P"] triple_mod]) auto

lemma core_sent [simp]: "core srv lib be sid rcv (s\<lparr>au_sent := x\<rparr>) = core srv lib be sid rcv s"
  by (simp add: core_def)

lemma core_closed [simp]: "core srv lib be sid rcv (close_transport s) = core srv lib be sid rcv s"
  "core srv lib be sid rcv (s\<lparr>au_saved := e\<rparr>) = core srv lib be sid rcv s"
  by (simp_all add: core_def close_transport_def)

lemma disconnect_keeps: "triple (core srv lib be sid rcv) (disconnect_with n d) (\<lambda>_. steady srv lib be sid rcv) (core srv lib be sid rcv)"
  unfolding disconnect_with_def
  by (rule triple_bind [OF triple_send [where Q = "\<lambda>_. core srv lib be sid rcv"] triple_mod])
     (auto simp: steady_def, simp add: close_transport_def)

lemma verdict_keeps:
  "triple (\<lambda>s. core srv lib be sid rcv s \<and> au_fail_count s < 10 \<and> (r = Result AUTH_SUCCESSFUL \<longrightarrow> granted srv lib be sid rcv (au_calls s)))
     (send_auth_result srv user r) (\<lambda>_. steady srv lib be sid rcv) (core srv lib be sid rcv)"
  (is "triple ?P _ _ ?E")
proof -
  let ?R = "\<lambda>s. core srv lib be sid rcv s \<and> (r = Result AUTH_SUCCESSFUL \<longrightarrow> au_authed s)"
  have one: "triple ?P (if r = Result AUTH_SUCCESSFUL
            then bindS (modS (\<lambda>a. a\<lparr>au_authed := True\<rparr>)) (\<lambda>_. au_send [FByte MSG_USERAUTH_SUCCESS])
            else (\<lambda>a.
              let allowed = allowed_auths srv (au_calls a) user
              in bindS (liftR (built [FByte MSG_USERAUTH_FAILURE, FText allowed])) (\<lambda>_.
                 if r = Result AUTH_PARTIALLY_SUCCESSFUL
                 then au_send [FByte MSG_USERAUTH_FAILURE, FText allowed, FBool True]
                 else bindS (modS (\<lambda>a. a\<lparr>au_fail_count := au_fail_count a + 1\<rparr>)) (\<lambda>_.
                        au_send [FByte MSG_USERAUTH_FAILURE, FText allowed, FBool False])) a)) (\<lambda>_. ?R) ?E"
    by (auto simp: triple_def core_def sm_simps au_send_def Let_def split: prod.split sum.split)
  have two: "triple ?R (\<lambda>a. if au_fail_count a \<ge> 10 then disconnect_no_more_auth a else (Inr (), a))
      (\<lambda>_ s. steady srv lib be sid rcv s \<and> (r = Result AUTH_SUCCESSFUL \<longrightarrow> au_authed s)) ?E"
    by (auto simp: triple_def steady_def core_def sm_simps au_send_def disconnect_no_more_auth_def disconnect_with_def close_transport_def
        split: prod.split sum.split)
  have three: "triple (\<lambda>s. steady srv lib be sid rcv s \<and> (r = Result AUTH_SUCCESSFUL \<longrightarrow> au_authed s))
      (if r = Result AUTH_SUCCESSFUL then modS (\<lambda>a. a\<lparr>au_triggered := True\<rparr>) else retS ()) (\<lambda>_. steady srv lib be sid rcv) ?E"
    by (auto simp: triple_def steady_def core_def sm_simps)
  show ?thesis unfolding send_auth_result_def by (intro triple_bind [OF one] triple_bind [OF two] three)
qed

text \<open>The state after the application has been asked.\<close>

definition answered :: "server_object \<Rightarrow> signer \<Rightarrow> backend \<Rightarrow> bytes option \<Rightarrow> message list \<Rightarrow> server_call \<Rightarrow> reaction \<Rightarrow> auth \<Rightarrow> bool" where
  "answered srv lib be sid rcv q r s \<longleftrightarrow> core srv lib be sid rcv s \<and> au_fail_count s < 10 \<and>
     (r = Result AUTH_SUCCESSFUL \<longrightarrow> evidence lib be sid rcv q \<longrightarrow> granted srv lib be sid rcv (au_calls s))"

definition begun :: "server_object \<Rightarrow> signer \<Rightarrow> backend \<Rightarrow> bytes option \<Rightarrow> message list \<Rightarrow> ustr \<Rightarrow> auth \<Rightarrow> bool" where
  "begun srv lib be sid rcv u s \<longleftrightarrow> core srv lib be sid rcv s \<and> au_fail_count s < 10 \<and> au_auth_username s = Some u"

lemma begun_core: "begun srv lib be sid rcv u s \<Longrightarrow> core srv lib be sid rcv s" and
  answered_core: "answered srv lib be sid rcv q r s \<Longrightarrow> core srv lib be sid rcv s"
  by (simp_all add: begun_def answered_def)

lemma ask_answers:
  assumes "\<And>u. call_user q = Some u \<Longrightarrow> user = Some u"
  shows "triple (\<lambda>s. core srv lib be sid rcv s \<and> au_fail_count s < 10 \<and> (user = None \<or> au_auth_username s = user))
     (ask_server srv q) (answered srv lib be sid rcv q) E"
  using assms by (auto simp: triple_def ask_server_def answered_def core_def intro: granted_append granted_last)

lemma begun_asks:
  assumes "call_user q = Some u"
  shows "triple (begun srv lib be sid rcv u) (ask_server srv q) (answered srv lib be sid rcv q) E"
  by (rule triple_pre [OF ask_answers [of q "Some u"]]) (use assms in \<open>auto simp: begun_def\<close>)

lemma answered_verdict:
  assumes "evidence lib be sid rcv q \<or> r' \<noteq> Result AUTH_SUCCESSFUL" "r' = Result AUTH_SUCCESSFUL \<Longrightarrow> r = Result AUTH_SUCCESSFUL"
  shows "triple (answered srv lib be sid rcv q r) (send_auth_result srv user r') (\<lambda>_. steady srv lib be sid rcv) (core srv lib be sid rcv)"
  by (rule triple_pre [OF verdict_keeps]) (use assms in \<open>auto simp: answered_def\<close>)

lemma query_keeps:
  "triple (answered srv lib be sid rcv q r) (send_interactive_query x) (\<lambda>_. steady srv lib be sid rcv) (core srv lib be sid rcv)"
  unfolding send_interactive_query_def by (rule triple_send) (auto simp: answered_def steady_def core_def)

lemma plain_check:
  assumes "call_user q = Some u" "evidence lib be sid rcv q"
  shows "triple (begun srv lib be sid rcv u) (bindS (ask_server srv q) (send_auth_result srv (Some u)))
     (\<lambda>_. steady srv lib be sid rcv) (core srv lib be sid rcv)"
  by (rule triple_bind [OF begun_asks [OF assms(1)] answered_verdict]) (use assms(2) in auto)

lemma password_keeps:
  "triple (begun srv lib be sid rcv u) (check_password srv u m) (\<lambda>_. steady srv lib be sid rcv) (core srv lib be sid rcv)"
  unfolding check_password_def
  by (intro triple_reading triple_if plain_check, rule triple_pre [OF verdict_keeps]) (auto simp: begun_def)

lemma interactive_keeps:
  "triple (begun srv lib be sid rcv u) (check_interactive srv u m) (\<lambda>_. steady srv lib be sid rcv) (core srv lib be sid rcv)"
  unfolding check_interactive_def
proof (intro triple_reading)
  fix submethods and m' :: message
  show "triple (begun srv lib be sid rcv u) (bindS (ask_server srv (Check_interactive u submethods))
      (\<lambda>r. case r of Result _ \<Rightarrow> send_auth_result srv (Some u) r | Query q \<Rightarrow> send_interactive_query q))
      (\<lambda>_. steady srv lib be sid rcv) (core srv lib be sid rcv)"
    by (rule triple_bind [OF begun_asks]) (auto split: reaction.split intro: answered_verdict query_keeps)
qed (simp add: begun_core)

text \<open>A public key: the parts that have been read are those of the message.\<close>

lemma signed_parts_read:
  assumes "get_text m = (Inr user, m1)" "get_text m1 = (Inr service, m2)" "get_text m2 = (Inr how, m3)" "get_boolean m3 = (Inr flag, m4)"
    "get_text m4 = (Inr algo, m5)" "get_binary m5 = (Inr keyblob, m6)" "get_binary m6 = (Inr sig, m7)"
  shows "signed_parts m = Inr (user, service, how, flag, algo, keyblob, sig)"
  by (simp add: signed_parts_def bindS_def retS_def assms)

lemma publickey_keeps:
  assumes "get_text m = (Inr u, m1)" "get_text m1 = (Inr (lit ''ssh-connection''), m2)" "get_text m2 = (Inr (lit ''publickey''), m3)"
    and "m \<in> set rcv"
  shows "triple (begun srv lib be sid rcv u) (check_publickey srv lib be u (lit ''ssh-connection'') m3)
     (\<lambda>_. steady srv lib be sid rcv) (core srv lib be sid rcv)"
  unfolding check_publickey_def
proof (intro triple_reading)
  fix flag m4 algo m5 keyblob and m6 :: message
  assume rd: "get_boolean m3 = (Inr flag, m4)" "get_text m4 = (Inr algo, m5)" "get_binary m5 = (Inr keyblob, m6)"
  let ?body = "\<lambda>key s. bindS (ask_server srv (Check_publickey u key)) (\<lambda>r.
             if r = Result AUTH_FAILED then send_auth_result srv (Some u) r
             else if \<not> flag then au_send [FByte MSG_USERAUTH_PK_OK, FText algo, FString keyblob]
             else
               reading get_binary m6 (\<lambda>sig _.
               bindS (liftR (get_session_blob (au_session_id s) key (lit ''ssh-connection'') u algo)) (\<lambda>blob.
               bindS (liftR (fst (verify_ssh_sig lib be From_wire (pk_numbers key) blob (new_message (Some sig))))) (\<lambda>good.
                 send_auth_result srv (Some u) (if good then r else Result AUTH_FAILED)))))"
  have keyed: "triple (begun srv lib be sid rcv u) (?body key s) (\<lambda>_. steady srv lib be sid rcv) (core srv lib be sid rcv)"
    if "au_session_id s = sid" for key s
  proof (rule triple_bind [OF begun_asks], simp, intro triple_if triple_reading)
    fix r sig and m7 :: message
    assume fl: "\<not> \<not> flag" and sg: "get_binary m6 = (Inr sig, m7)"
    let ?A = "answered srv lib be sid rcv (Check_publickey u key) r"
    show "triple ?A (bindS (liftR (get_session_blob (au_session_id s) key (lit ''ssh-connection'') u algo)) (\<lambda>blob.
               bindS (liftR (fst (verify_ssh_sig lib be From_wire (pk_numbers key) blob (new_message (Some sig))))) (\<lambda>good.
                 send_auth_result srv (Some u) (if good then r else Result AUTH_FAILED))))
        (\<lambda>_. steady srv lib be sid rcv) (core srv lib be sid rcv)"
    proof (rule triple_bind [OF triple_lift [where Q = "\<lambda>blob s'. ?A s' \<and> get_session_blob sid key (lit ''ssh-connection'') u algo = Inr blob"]])
      fix blob
      let ?v = "fst (verify_ssh_sig lib be From_wire (pk_numbers key) blob (new_message (Some sig)))"
      show "triple (\<lambda>s'. ?A s' \<and> get_session_blob sid key (lit ''ssh-connection'') u algo = Inr blob)
          (bindS (liftR ?v) (\<lambda>good. send_auth_result srv (Some u) (if good then r else Result AUTH_FAILED)))
          (\<lambda>_. steady srv lib be sid rcv) (core srv lib be sid rcv)"
      proof (rule triple_bind [OF triple_lift [where Q = "\<lambda>good s'. ?A s' \<and> (good \<longrightarrow> evidence lib be sid rcv (Check_publickey u key))"]])
        fix s' good
        assume a: "?A s' \<and> get_session_blob sid key (lit ''ssh-connection'') u algo = Inr blob" "?v = Inr good"
        have "signed_parts m = Inr (u, lit ''ssh-connection'', lit ''publickey'', True, algo, keyblob, sig)"
          using signed_parts_read [OF assms(1-3) rd(1) rd(2,3) sg] fl by simp
        then have "good \<Longrightarrow> proved_by lib be sid m u key"
          unfolding proved_by_def using a by (intro exI conjI) auto
        with a(1) assms(4) show "?A s' \<and> (good \<longrightarrow> evidence lib be sid rcv (Check_publickey u key))" by auto
      next
        show "triple (\<lambda>s'. ?A s' \<and> (good \<longrightarrow> evidence lib be sid rcv (Check_publickey u key)))
            (send_auth_result srv (Some u) (if good then r else Result AUTH_FAILED)) (\<lambda>_. steady srv lib be sid rcv) (core srv lib be sid rcv)"
          for good
          by (rule triple_pre [OF verdict_keeps]) (auto simp: answered_def split: if_splits)
      qed (auto dest: answered_core)
    qed (use that in \<open>auto dest: answered_core simp: answered_def core_def\<close>)
  qed (auto dest: answered_core simp: steady_def answered_def intro: answered_verdict triple_send)
  show "triple (begun srv lib be sid rcv u)
     (\<lambda>s. case generate_key_from_request be (au_pubkeys s) algo keyblob of
         Some (Inr key) \<Rightarrow> ?body key s s | _ \<Rightarrow> disconnect_no_more_auth s)
     (\<lambda>_. steady srv lib be sid rcv) (core srv lib be sid rcv)"
  proof (rule triple_by_state)
    fix s assume b: "begun srv lib be sid rcv u s"
    let ?k = "generate_key_from_request be (au_pubkeys s) algo keyblob"
    have gone: "triple (begun srv lib be sid rcv u) disconnect_no_more_auth (\<lambda>_. steady srv lib be sid rcv) (core srv lib be sid rcv)"
      unfolding disconnect_no_more_auth_def by (rule triple_pre [OF disconnect_keeps begun_core])
    show "\<exists>g. (case ?k of Some (Inr key) \<Rightarrow> ?body key s s | _ \<Rightarrow> disconnect_no_more_auth s) = g s \<and>
        triple (begun srv lib be sid rcv u) g (\<lambda>_. steady srv lib be sid rcv) (core srv lib be sid rcv)"
    proof (cases "\<exists>key. ?k = Some (Inr key)")
      case True
      then obtain key where "?k = Some (Inr key)" by blast
      with b keyed [of s key] show ?thesis by (intro exI [of _ "?body key s"]) (simp add: begun_def core_def)
    next
      case False
      then show ?thesis by (intro exI [of _ disconnect_no_more_auth]) (auto simp: gone split: option.split sum.split)
    qed
  qed
qed (simp_all add: begun_core)

lemma method_keeps:
  assumes "get_text m = (Inr u, m1)" "get_text m1 = (Inr (lit ''ssh-connection''), m2)" "get_text m2 = (Inr how, m3)" "m \<in> set rcv"
  shows "triple (begun srv lib be sid rcv u) (check_method srv lib be u (lit ''ssh-connection'') how m3)
     (\<lambda>_. steady srv lib be sid rcv) (core srv lib be sid rcv)"
  unfolding check_method_def using assms
  by (intro triple_if plain_check password_keeps publickey_keeps interactive_keeps) auto

lemma request_keeps:
  assumes "m \<in> set rcv"
  shows "triple (\<lambda>s. steady srv lib be sid rcv s \<and> au_active s) (parse_userauth_request srv lib be m)
     (\<lambda>_. steady srv lib be sid rcv) (core srv lib be sid rcv)"
  (is "triple ?P _ ?Q ?E")
proof -
  have core: "core srv lib be sid rcv s" if "?P s" for s using that by (simp add: steady_def)
  have gone: "triple ?P disconnect_no_more_auth ?Q ?E" "triple ?P disconnect_service_not_available ?Q ?E"
    unfolding disconnect_no_more_auth_def disconnect_service_not_available_def
    by (rule triple_pre [OF disconnect_keeps], erule core)+
  have named: "triple ?P (\<lambda>a. if au_auth_username a \<noteq> None \<and> au_auth_username a \<noteq> Some u then disconnect_no_more_auth a
           else check_method srv lib be u (lit ''ssh-connection'') how m3 (a\<lparr>au_auth_username := Some u\<rparr>)) ?Q ?E"
    if r: "get_text m = (Inr u, m1)" "get_text m1 = (Inr (lit ''ssh-connection''), m2)" "get_text m2 = (Inr how, m3)" for u how m1 m2 m3
  proof (rule triple_at)
    fix s assume p: "?P s"
    let ?g = "bindS (modS (\<lambda>a. a\<lparr>au_auth_username := Some u\<rparr>)) (\<lambda>_. check_method srv lib be u (lit ''ssh-connection'') how m3)"
    show "\<exists>g. (if au_auth_username s \<noteq> None \<and> au_auth_username s \<noteq> Some u then disconnect_no_more_auth s
           else check_method srv lib be u (lit ''ssh-connection'') how m3 (s\<lparr>au_auth_username := Some u\<rparr>)) = g s \<and>
         triple (\<lambda>t. t = s) g ?Q ?E"
    proof (cases "au_auth_username s \<noteq> None \<and> au_auth_username s \<noteq> Some u")
      case True
      with p show ?thesis by (intro exI [of _ disconnect_no_more_auth]) (auto intro: triple_pre [OF gone(1)])
    next
      case False
      have "triple (\<lambda>t. t = s) ?g ?Q ?E"
        by (rule triple_bind [OF triple_mod method_keeps [OF r assms]]) (use p False in \<open>auto simp: begun_def steady_def core_def\<close>)
      with False show ?thesis by (intro exI [of _ ?g]) (auto simp: bindS_def modS_def)
    qed
  qed
  show ?thesis
  proof (rule triple_by_state)
    fix s assume p: "?P s"
    let ?g = "reading get_text m (\<lambda>user m. reading get_text m (\<lambda>service m. reading get_text m (\<lambda>how m.
         if service \<noteq> lit ''ssh-connection'' then disconnect_service_not_available
         else (\<lambda>a.
           if au_auth_username a \<noteq> None \<and> au_auth_username a \<noteq> Some user then disconnect_no_more_auth a
           else check_method srv lib be user service how m (a\<lparr>au_auth_username := Some user\<rparr>)))))"
    have g: "triple ?P ?g ?Q ?E"
      by (intro triple_reading triple_if gone core) (use named in auto)
    have "parse_userauth_request srv lib be m s = (if au_authed s then retS () else ?g) s"
      using p by (auto simp: parse_userauth_request_def steady_def core_def retS_def)
    moreover have "triple ?P (if au_authed s then retS () else ?g) ?Q ?E"
      by (rule triple_if [OF triple_ret g]) simp
    ultimately show "\<exists>g. parse_userauth_request srv lib be m s = g s \<and> triple ?P g ?Q ?E" by blast
  qed
qed

lemma service_keeps:
  "triple (\<lambda>s. steady srv lib be sid rcv s \<and> au_active s) (parse_service_request srv m)
     (\<lambda>_. steady srv lib be sid rcv) (core srv lib be sid rcv)"
  by (auto simp: triple_def parse_service_request_def reading_def disconnect_service_not_available_def disconnect_with_def
      au_send_def sm_simps close_transport_def steady_def core_def split: prod.split sum.split option.split)

lemma response_keeps:
  "triple (\<lambda>s. steady srv lib be sid rcv s \<and> au_active s) (parse_userauth_info_response srv m)
     (\<lambda>_. steady srv lib be sid rcv) (core srv lib be sid rcv)"
  (is "triple ?P _ ?Q ?E")
proof (rule triple_at)
  fix s assume p: "?P s"
  let ?g = "reading get_int m (\<lambda>n m. reading (get_texts (nat n)) m (\<lambda>responses _.
         bindS (ask_server srv (Check_response responses)) (\<lambda>r.
           case r of Query q \<Rightarrow> send_interactive_query q | Result _ \<Rightarrow> send_auth_result srv (au_auth_username s) r)))"
  have "triple (\<lambda>t. t = s) ?g ?Q ?E"
    by (intro triple_reading, rule triple_bind [OF triple_pre [OF ask_answers [where user = None]]])
       (use p in \<open>auto simp: steady_def split: reaction.split intro: answered_verdict query_keeps\<close>)
  then show "\<exists>g. parse_userauth_info_response srv m s = g s \<and> triple (\<lambda>t. t = s) g ?Q ?E"
    using p by (intro exI [of _ ?g]) (simp add: steady_def core_def parse_userauth_info_response_def)
qed

lemma handler_keeps:
  assumes "server_handler srv lib be t = Some h" "m \<in> set rcv"
  shows "triple (\<lambda>s. steady srv lib be sid rcv s \<and> au_active s) (h m) (\<lambda>_. steady srv lib be sid rcv) (core srv lib be sid rcv)"
  using assms service_keeps request_keeps response_keeps by (auto simp: server_handler_def split: if_splits)

lemma steady_more: "steady srv lib be sid rcv s \<Longrightarrow> steady srv lib be sid (m # rcv) s"
  by (simp add: steady_def core_more)

interpretation auth_machine: step_invariant "auth_init sid pubkeys" "auth_step srv lib be" "\<lambda>(rcv, s). steady srv lib be sid rcv s"
  for sid pubkeys srv lib be
proof
  show "case x of (rcv, s) \<Rightarrow> steady srv lib be sid rcv s" if "auth_init sid pubkeys x" for x
    using that by (simp add: auth_init_def new_auth_def steady_def core_def)
next
  fix x y assume x: "case x of (rcv, s) \<Rightarrow> steady srv lib be sid rcv s" and "auth_step srv lib be x y"
  then obtain rcv s where s: "x = (rcv, s)" "steady srv lib be sid rcv s" "auth_step srv lib be (rcv, s) y" by (cases x) auto
  from s(3) show "case y of (rcv, s) \<Rightarrow> steady srv lib be sid rcv s"
  proof (rule auth_step_cases)
    fix t h m s' assume h: "server_handler srv lib be t = Some h" "h m s = (Inr (), s')" "au_active s" and y: "y = (m # rcv, s')"
    from triple_Inr [OF handler_keeps [OF h(1), of m "m # rcv" sid] _ h(2)] steady_more [OF s(2)] h(3) y show ?thesis by simp
  next
    fix t h m e s' assume h: "server_handler srv lib be t = Some h" "h m s = (Inl e, s')" "au_active s"
      and y: "y = (m # rcv, close_transport (s'\<lparr>au_saved := Some e\<rparr>))"
    from triple_Inl [OF handler_keeps [OF h(1), of m "m # rcv" sid] _ h(2)] steady_more [OF s(2)] h(3) y show ?thesis
      by (simp add: steady_def) (simp add: close_transport_def)
  qed
qed

section \<open>Properties\<close>

text \<open>C3. Nobody is authenticated without being granted it: whatever messages a client sends and in whatever order, when
  the server's handler counts it as authenticated (or has told the transport so), the application has answered
  success to a question about this very user, or to responses, and if the question was about a public key, one of
  the messages received is a request whose signature over the session's id, the user and the key was verified with
  that key. And a client is given at most ten failures: at the tenth the session is closed.\<close>

theorem authenticated_only_if_granted:
  assumes "reachable (auth_init sid pubkeys) (auth_step srv lib be) (rcv, s)"
  shows "(au_authed s \<or> au_triggered s \<longrightarrow>
       (\<exists>i < length (au_calls s). judge srv (take i (au_calls s)) (au_calls s ! i) = Result AUTH_SUCCESSFUL \<and>
          (case au_calls s ! i of
             Check_publickey u k \<Rightarrow> au_auth_username s = Some u \<and> (\<exists>m \<in> set rcv. proved_by lib be sid m u k)
           | Check_response r \<Rightarrow> True
           | Check_none u \<Rightarrow> au_auth_username s = Some u
           | Check_password u p \<Rightarrow> au_auth_username s = Some u
           | Check_interactive u b \<Rightarrow> au_auth_username s = Some u))) \<and>
     au_fail_count s \<le> 10 \<and> (au_active s \<longrightarrow> au_fail_count s < 10)"
proof -
  have inv: "steady srv lib be sid rcv s" using auth_machine.always [OF assms] by simp
  show ?thesis
  proof (intro conjI impI)
    assume "au_authed s \<or> au_triggered s"
    then have "granted srv lib be sid rcv (au_calls s)" using inv by (auto simp: steady_def core_def)
    then obtain i where i: "i < length (au_calls s)" "judge srv (take i (au_calls s)) (au_calls s ! i) = Result AUTH_SUCCESSFUL"
      "evidence lib be sid rcv (au_calls s ! i)" unfolding granted_def by blast
    have "\<And>u. call_user (au_calls s ! i) = Some u \<Longrightarrow> au_auth_username s = Some u"
      using inv nth_mem [OF i(1)] by (auto simp: steady_def core_def)
    then show "\<exists>i < length (au_calls s). judge srv (take i (au_calls s)) (au_calls s ! i) = Result AUTH_SUCCESSFUL \<and>
          (case au_calls s ! i of
             Check_publickey u k \<Rightarrow> au_auth_username s = Some u \<and> (\<exists>m \<in> set rcv. proved_by lib be sid m u k)
           | Check_response r \<Rightarrow> True
           | Check_none u \<Rightarrow> au_auth_username s = Some u
           | Check_password u p \<Rightarrow> au_auth_username s = Some u
           | Check_interactive u b \<Rightarrow> au_auth_username s = Some u)"
      using i by (intro exI [of _ i]) (cases "au_calls s ! i"; auto)
  qed (use inv in \<open>auto simp: steady_def core_def\<close>)
qed

definition open_server :: server_object where
  "open_server = \<lparr>judge = (\<lambda>calls q. Result AUTH_SUCCESSFUL), allowed_auths = (\<lambda>calls user. []), auth_banner = (None, [])\<rparr>"

text \<open>A request without credentials, which this application grants.\<close>

definition none_request :: message where
  "none_request = new_message (Some (tl (concat (map enc_field (request_head_fields [117] (how_named By_none) @ [])))))"

definition none_granted :: auth where
  "none_granted = after_verdict [] (Result AUTH_SUCCESSFUL)
     ((new_auth True (Some [1]) [])\<lparr>au_auth_username := Some [117], au_calls := [Check_none [117]]\<rparr>)"

lemma none_request_granted:
  "parse_userauth_request open_server sample_signer sample_backend none_request (new_auth True (Some [1]) []) = (Inr (), none_granted)"
proof -
  let ?s = "new_auth True (Some [1]) []"
  have ok: "ok_field (FText [117])" "ok_field (FText [])" by (simp_all add: utf8_encode_def utf8_char_def ok_string_def scalar_def)
  have j: "judge open_server c q = Result AUTH_SUCCESSFUL" "allowed_auths open_server c u = []" for c q u by (simp_all add: open_server_def)
  have n: "au_server ?s" "\<not> au_authed ?s" "au_auth_username ?s = None" "au_session_id ?s = Some [1]" "au_active ?s" "au_calls ?s = []"
    "au_fail_count ?s = 0" by (simp_all add: new_auth_def)
  have "parse_userauth_request open_server sample_signer sample_backend none_request ?s =
      send_auth_result open_server (Some [117]) (Result AUTH_SUCCESSFUL) (?s\<lparr>au_auth_username := Some [117], au_calls := [Check_none [117]]\<rparr>)"
    using user_request_parsed [of sample_signer sample_backend ?s "[1]" "[117]" By_none "[]" none_request open_server] ok(1) n
    by (simp add: j none_request_def)
  also have "\<dots> = (Inr (), none_granted)"
    using send_auth_result_sends [of open_server "?s\<lparr>au_auth_username := Some [117], au_calls := [Check_none [117]]\<rparr>" "Some [117]"] ok(2) n
    by (simp add: j none_granted_def)
  finally show ?thesis .
qed

theorem authenticated_only_if_granted_witness:
  "\<exists>rcv s. reachable (auth_init (Some [1]) []) (auth_step open_server sample_signer sample_backend) (rcv, s) \<and>
     au_authed s \<and> (\<exists>i < length (au_calls s). judge open_server (take i (au_calls s)) (au_calls s ! i) = Result AUTH_SUCCESSFUL)"
proof -
  let ?s = "new_auth True (Some [1]) []"
  have "server_handler open_server sample_signer sample_backend MSG_USERAUTH_REQUEST =
      Some (parse_userauth_request open_server sample_signer sample_backend)"
    by (simp add: server_handler_def msg_defs)
  moreover have "au_active ?s" by (simp add: new_auth_def)
  ultimately have st: "auth_step open_server sample_signer sample_backend ([], ?s) ([none_request], none_granted)"
    using none_request_granted by (intro auth_step.handled)
  have r: "reachable (auth_init (Some [1]) []) (auth_step open_server sample_signer sample_backend) ([none_request], none_granted)"
    by (rule after_step [where R = "auth_step open_server sample_signer sample_backend", OF _ st], rule initially) (simp add: auth_init_def)
  moreover have "au_authed none_granted" by (simp add: after_verdict_def none_granted_def)
  moreover from this authenticated_only_if_granted [OF r] obtain i where "i < length (au_calls none_granted)"
      "judge open_server (take i (au_calls none_granted)) (au_calls none_granted ! i) = Result AUTH_SUCCESSFUL" by blast
  ultimately show ?thesis by blast
qed

text \<open>A response is handed to the application even when no request came before it: then success makes the server
  count nobody in particular as authenticated.\<close>

lemma unrequested_response:
  assumes "judge srv [] (Check_response []) = Result AUTH_SUCCESSFUL"
  shows "\<exists>s. parse_userauth_info_response srv (new_message (Some [0, 0, 0, 0])) (new_auth True sid pubkeys) = (Inr (), s) \<and>
     au_authed s \<and> get_username s = None"
proof -
  have "get_int (new_message (Some [0, 0, 0, 0])) = (Inr 0, advance (new_message (Some [0, 0, 0, 0])) 4)"
    using get_int_prefix [of "new_message (Some [0, 0, 0, 0])" "[0, 0, 0, 0]" "[]"] by (simp add: be_int_Cons)
  then show ?thesis using assms
    by (simp add: parse_userauth_info_response_def reading_def new_auth_def ask_server_def send_auth_result_def au_send_def sm_simps
        built_def put_fields.simps add_byte_def stream_write_def new_message_def get_username_def)
qed

text \<open>The two calls of \<open>AuthOnlyHandler\<close> that do not work: authenticating with nothing always raises, and a verdict that
  is handled before the event exists is missed.\<close>

lemma only_auth_none_raises: "fst (only_auth_none user between waits a) \<in> {Inl TypeError} \<or> (\<exists>e. built (request_head_fields user (lit ''none'')) = Inl e)"
  by (cases "built (request_head_fields user (lit ''none''))") (auto simp: only_auth_none_def send_auth_request_def sm_simps)

lemma early_verdict_missed:
  assumes "send_auth_request user how (Some f) (\<lambda>a. snd (parse_userauth_success m a)) [(True, id)] a = (r, a')"
    and "built (request_head_fields user how @ fs) = Inr b" "built (request_head_fields user how) = Inr b'" "f = retS fs" "au_active a"
  shows "r = Inl (AuthenticationException ''Authentication timeout.'') \<and> au_authed a'"
  using assms by (auto simp: send_auth_request_def sm_simps au_send_def parse_userauth_success_def fire_event_def)

end
