(* ===== verification/Ssh_Connection_Table.thy ===== *)
theory Ssh_Connection_Table
  imports Ssh_Connection Ssh_Auth_Safe
begin

text \<open>
  The table of channels is well formed in every state that messages, the application and other threads can bring a
  connection to: no number and no channel object is in it twice, every entry leads to an object that has this number,
  the numbers have 24 bits and are remembered as seen. And the loop that looks for a free number ends with one.
\<close>

declare lit_simps [simp del]

section \<open>A free number\<close>

lemma next_free_None:
  assumes "next_free n m c = None" "i \<le> n"
  shows "(c + int i) mod 2 ^ 24 \<in> fst ` set m \<or> (i = 0 \<and> c \<in> fst ` set m)"
  using assms
proof (induction n arbitrary: c i)
  case 0
  then show ?case by (auto simp: next_free.simps cm_get_def map_of_eq_None_iff split: if_splits)
next
  case (Suc n)
  from Suc.prems(1) have c: "c \<in> fst ` set m" "next_free n m ((c + 1) mod 2 ^ 24) = None"
    by (auto simp: next_free.simps [of "Suc n"] cm_get_def map_of_eq_None_iff split: if_splits)
  show ?case
  proof (cases i)
    case 0
    with c(1) show ?thesis by simp
  next
    case (Suc j)
    have "((c + 1) mod 2 ^ 24 + int j) mod 2 ^ 24 = (c + int i) mod 2 ^ 24"
      using Suc by (simp add: mod_add_left_eq add.assoc)
    moreover have "(c + 1) mod 2 ^ 24 = (c + int i) mod 2 ^ 24" if "j = 0" using that Suc by simp
    moreover have "j \<le> n" using Suc Suc.prems(2) by simp
    note Suc.IH [OF c(2) this]
    ultimately show ?thesis by (metis)
  qed
qed

lemma next_free_Some: "next_free n m c = Some d \<Longrightarrow> 0 \<le> c \<and> c < 2 ^ 24 \<Longrightarrow> cm_get d m = None \<and> 0 \<le> d \<and> d < 2 ^ 24"
  by (induction n m c rule: next_free.induct) (subst (asm) (2) next_free.simps, auto split: if_splits nat.splits)

lemma next_free_enough:
  assumes "length m \<le> n" "length m < 2 ^ 24" "0 \<le> c" "c < 2 ^ 24"
  shows "\<exists>d. next_free n m c = Some d"
proof (rule ccontr)
  assume "\<not> (\<exists>d. next_free n m c = Some d)"
  then have none: "next_free n m c = None" by simp
  let ?f = "\<lambda>i :: nat. (c + int i) mod 2 ^ 24" and ?I = "{.. length m}"
  have "inj_on ?f ?I"
  proof (rule inj_onI)
    fix i j assume ij: "i \<in> ?I" "j \<in> ?I" "?f i = ?f j"
    then have "(int i - int j) mod 2 ^ 24 = 0" by (simp add: mod_eq_dvd_iff mod_0_imp_dvd)
    then obtain k where k: "int i - int j = 2 ^ 24 * k" by (auto elim: dvdE)
    have "\<bar>int i - int j\<bar> < 2 ^ 24" using ij(1,2) assms(2) by (simp add: abs_less_iff)
    with k have "\<bar>k\<bar> < 1" by (simp add: abs_mult)
    with k show "i = j" by simp
  qed
  moreover have "?f ` ?I \<subseteq> fst ` set m"
  proof (rule image_subsetI)
    fix i assume "i \<in> ?I"
    then have "i \<le> n" using assms(1) by simp
    from next_free_None [OF none this] assms(3,4) show "?f i \<in> fst ` set m" by (force simp: mod_pos_pos_trivial)
  qed
  ultimately have "card ?I \<le> card (fst ` set m)" by (metis card_image card_mono finite_imageI finite_set)
  also have "\<dots> \<le> length m" by (metis card_length length_map list.set_map)
  finally show False by simp
qed

section \<open>The invariant\<close>

definition table_ok :: "'k connection \<Rightarrow> bool" where
  "table_ok t \<longleftrightarrow>
     distinct (map fst (cx_map t)) \<and> distinct (map snd (cx_map t)) \<and>
     (\<forall>(i, a) \<in> set (cx_map t). a < length (cx_store t) \<and> chanid (cx_store t ! a) = i \<and> 0 \<le> i \<and> i < 2 ^ 24 \<and> i \<in> set (cx_seen t)) \<and>
     0 \<le> cx_counter t \<and> cx_counter t < 2 ^ 24 \<and>
     (\<forall>a \<in> set (cx_accepts t). a < length (cx_store t)) \<and> (\<forall>(i, a) \<in> set (cx_events t). a < length (cx_store t))"

lemma table_irrelevant [simp]:
  "table_ok (t\<lparr>cx_lower := k\<rparr>) = table_ok t" "table_ok (t\<lparr>cx_active := b\<rparr>) = table_ok t" "table_ok (t\<lparr>cx_auth := u\<rparr>) = table_ok t"
  "table_ok (t\<lparr>cx_fired := fs\<rparr>) = table_ok t" "table_ok (t\<lparr>cx_agent := h\<rparr>) = table_ok t" "table_ok (t\<lparr>cx_x11 := h\<rparr>) = table_ok t"
  "table_ok (t\<lparr>cx_tcp := h\<rparr>) = table_ok t" "table_ok (t\<lparr>cx_delivered := ds\<rparr>) = table_ok t" "table_ok (t\<lparr>cx_extensions := es\<rparr>) = table_ok t"
  "table_ok (t\<lparr>cx_response := m\<rparr>) = table_ok t" "table_ok (t\<lparr>cx_saved := e\<rparr>) = table_ok t" "table_ok (t\<lparr>cx_calls := cs\<rparr>) = table_ok t"
  "table_ok (t\<lparr>cx_sent := ms\<rparr>) = table_ok t"
  by (simp_all add: table_ok_def)

lemma table_saved [simp]: "table_ok (t\<lparr>cx_saved := e, cx_map := m\<rparr>) = table_ok (t\<lparr>cx_map := m\<rparr>)"
  by (simp add: table_ok_def)

lemma cm_delete_table: "table_ok t \<Longrightarrow> table_ok (t\<lparr>cx_map := filter P (cx_map t)\<rparr>)"
  by (auto simp: table_ok_def distinct_map_filter)

lemma cm_delete_ok: "table_ok t \<Longrightarrow> table_ok (t\<lparr>cx_map := cm_delete i (cx_map t)\<rparr>)"
  "table_ok t \<Longrightarrow> table_ok (t\<lparr>cx_events := cm_delete i (cx_events t)\<rparr>)"
  by (simp_all add: cm_delete_def cm_delete_table) (auto simp: table_ok_def)

text \<open>Operations of a channel keep its number.\<close>

definition same_number :: "(channel, 'a) sm \<Rightarrow> bool" where
  "same_number f \<longleftrightarrow> (\<forall>i. keeps (\<lambda>c. chanid c = i) f)"

lemma same_number_mod: "(\<And>c. chanid (f c) = chanid c) \<Longrightarrow> same_number (modS f)"
  by (simp add: same_number_def keeps_mod)

lemma send_all_user_number [simp]: "chanid (send_all_user ms c) = chanid c"
  by (induction ms c rule: send_all_user.induct) (simp_all add: send_user_def)

lemma close_internal_number: "same_number close_internal"
  by (auto simp: same_number_def close_internal_def send_eof_def set_closed_def sm_simps intro!: keepsI split: prod.split sum.split)

lemma closing_number: "same_number request_failed" "same_number handle_close" "same_number ch_close"
proof -
  note k = close_internal_number [unfolded same_number_def, rule_format]
  show "same_number request_failed" "same_number handle_close"
    unfolding same_number_def request_failed_def handle_close_def by (intro allI keeps_bind k keeps_mod; simp)+
  have "keeps (\<lambda>c. chanid c = i) (bindS close_internal (\<lambda>ms. modS (send_all_user ms)))" for i
    by (intro keeps_bind k keeps_mod) simp
  from keepsD [OF this] show "same_number ch_close"
    unfolding same_number_def ch_close_def by (auto intro!: keepsI)
qed

lemma handler_number:
  assumes "channel_handler server ptype = Some h"
  shows "same_number (h m)"
proof -
  have "same_number (ch_feed m)" "same_number (feed_extended m)" "same_number (window_adjust m)" "same_number (handle_request server m)"
    by (auto simp: same_number_def ch_feed_def feed_extended_def window_adjust_def handle_request_def feed_data_def send_fields_def send_user_def
        sm_simps intro!: keepsI split: prod.split sum.split incoming.split)
  moreover have "same_number (modS request_success)" "same_number (modS handle_eof)"
    by (auto intro!: same_number_mod simp: request_success_def handle_eof_def)
  ultimately show ?thesis using assms closing_number by (auto simp: channel_handler_def split: if_splits)
qed

lemma on_channel_table:
  assumes "table_ok t" "same_number f" "a < length (cx_store t)"
  shows "table_ok (snd (on_channel a f t))"
proof -
  let ?c0 = "(cx_store t ! a)\<lparr>outbox := [], linked := True, saved_exception := cx_saved t\<rparr>"
  obtain r c where f: "f ?c0 = (r, c)" by fastforce
  have n: "chanid c = chanid (cx_store t ! a)"
    using keepsD [OF assms(2) [unfolded same_number_def, rule_format], of ?c0 "chanid ?c0"] f by simp
  have "table_ok (t\<lparr>cx_store := (cx_store t)[a := c\<lparr>outbox := []\<rparr>]\<rparr>)"
    using assms(1,3) n by (auto simp: table_ok_def nth_list_update split: if_splits)
  from cm_delete_ok(1) [OF this, of "chanid c"] this show ?thesis
    by (auto simp: on_channel_def f) (simp add: table_ok_def)+
qed

lemma next_channel_table: "table_ok t \<Longrightarrow> next_channel t = (Inr c, t') \<Longrightarrow> table_ok t' \<and> cm_get c (cx_map t') = None \<and> 0 \<le> c \<and> c < 2 ^ 24"
  using next_free_Some [of "length (cx_map t)" "cx_map t" "cx_counter t" c]
  by (auto simp: next_channel_def table_ok_def split: option.splits)

lemma add_channel_table:
  assumes "table_ok t" "cm_get cid (cx_map t) = None" "0 \<le> cid" "cid < 2 ^ 24" "chanid c = cid"
  shows "table_ok (add_channel cid c t)"
proof -
  have new: "cid \<notin> fst ` set (cx_map t)" using assms(2) by (simp add: cm_get_def map_of_eq_None_iff)
  moreover have "length (cx_store t) \<notin> snd ` set (cx_map t)" using assms(1) by (auto simp: table_ok_def)
  ultimately show ?thesis using assms
    by (auto simp: table_ok_def add_channel_def cm_put_def dict_put_new nth_append less_SucI)
qed

section \<open>Every handler keeps it\<close>

lemma on_lower_keeps: "keeps table_ok (on_lower f)"
  by (auto simp: on_lower_def intro!: keepsI split: prod.split)

lemma cx_send_keeps: "keeps table_ok (cx_send lw b)" and cx_reply_keeps: "keeps table_ok (cx_reply lw fs)"
  unfolding cx_reply_def cx_send_def by (intro keeps_rules on_lower_keeps keeps_mod; simp)+

lemma fire_completion_table [simp]: "table_ok (fire_completion lw t) = table_ok t"
  by (simp add: fire_completion_def)

lemma end_open_table: "table_ok t \<Longrightarrow> table_ok (end_open cid t)"
  by (cases "map_of (cx_events t) cid") (simp_all add: end_open_def table_ok_def cm_delete_def)

lemma cm_get_address:
  assumes "table_ok t" "cm_get cid (cx_map t) = Some a"
  shows "a < length (cx_store t)"
proof -
  have "(cid, a) \<in> set (cx_map t)" using assms(2) by (simp add: cm_get_def map_of_SomeD)
  with assms(1) show ?thesis by (auto simp: table_ok_def)
qed

lemma on_channel_length [simp]: "length (cx_store (snd (on_channel a f t))) = length (cx_store t)"
  by (simp add: on_channel_def split: prod.split)

lemma unlink_all_table: "table_ok t \<Longrightarrow> table_ok (unlink_all t)"
proof -
  have "table_ok u \<Longrightarrow> \<forall>a \<in> set as. a < length (cx_store u) \<Longrightarrow> table_ok (fold (\<lambda>a t. snd (on_channel a (modS ch_unlink) t)) as u)" for u :: "'k connection" and as
  proof (induction as arbitrary: u)
    case (Cons a as)
    have "same_number (modS ch_unlink)" by (rule same_number_mod) (simp add: ch_unlink_def set_closed_def)
    from on_channel_table [OF Cons.prems(1) this] Cons.prems(2) have "table_ok (snd (on_channel a (modS ch_unlink) u))" by simp
    from Cons.IH [OF this] Cons.prems(2) show ?case by simp
  qed simp
  moreover assume "table_ok t"
  moreover from this have "\<forall>a \<in> set (map snd (cx_map t)). a < length (cx_store t)" by (auto simp: table_ok_def)
  ultimately show "table_ok (unlink_all t)" unfolding unlink_all_def by blast
qed

lemma cx_close_table: "table_ok t \<Longrightarrow> table_ok (cx_close t)"
  by (simp add: cx_close_def unlink_all_table)

lemma finish_table: "table_ok t \<Longrightarrow> table_ok (finish lw t)"
  using unlink_all_table [of t] by (simp add: finish_def Let_def)

lemma collect_table: "table_ok t \<Longrightarrow> a < length (cx_store t) \<Longrightarrow> table_ok (collect a t)"
  using cm_delete_table [OF on_channel_table [OF _ closing_number(3)]] by (simp add: collect_def Let_def)

lemma on_auth_keeps: "keeps table_ok (on_auth lw a f)"
  by (rule keepsI) (auto simp: on_auth_def Let_def intro: cx_close_table split: prod.split)

lemma call_handler_keeps:
  "keeps (\<lambda>t. table_ok t \<and> a < length (cx_store t)) (call_handler h a d)"
  "keeps (\<lambda>t. table_ok t \<and> a < length (cx_store t)) (queue_incoming a)"
proof -
  show q: "keeps (\<lambda>t. table_ok t \<and> a < length (cx_store t)) (queue_incoming a)"
    by (auto simp: queue_incoming_def table_ok_def intro!: keeps_mod)
  show "keeps (\<lambda>t. table_ok t \<and> a < length (cx_store t)) (call_handler h a d)"
    unfolding call_handler_def by (auto simp: q intro!: keeps_mod keeps_raise split: option.split handler.split)
qed

lemma deliver_keeps: "keeps (\<lambda>t. table_ok t \<and> a < length (cx_store t)) (deliver_channel which a origin dest)"
  by (rule keepsI) (auto simp: deliver_channel_def keepsD [OF call_handler_keeps(1)] keepsD [OF call_handler_keeps(2)] split: option.split)

lemma cx_reply_length: "keeps (\<lambda>t. table_ok t \<and> a < length (cx_store t)) (cx_reply lw fs)"
  by (auto simp: cx_reply_def cx_send_def on_lower_def sm_simps intro!: keepsI split: prod.split sum.split)

lemma accept_open_table:
  assumes "table_ok t" "cm_get my (cx_map t) = None" "0 \<le> my" "my < 2 ^ 24"
  shows "table_ok (snd (accept_open lw which rid my window packet origin dest t))"
proof -
  let ?c = "set_remote_channel rid window packet (set_window (cx_window t) (cx_packet t) (new_channel my))"
  let ?a = "length (cx_store t)"
  have "table_ok (add_channel my ?c t) \<and> ?a < length (cx_store (add_channel my ?c t))"
    using add_channel_table [OF assms] by (simp add: add_channel_def set_remote_channel_def set_window_def new_channel_def)
  moreover have "keeps (\<lambda>t. table_ok t \<and> ?a < length (cx_store t))
      (bindS (cx_reply lw fs) (\<lambda>_. deliver_channel which ?a origin dest))" for fs
    by (intro keeps_bind cx_reply_length deliver_keeps)
  ultimately show ?thesis using keepsD by (fastforce simp: accept_open_def bindS_def modS_def)
qed

lemma refuse_keeps: "keeps table_ok (refuse_open lw rid reason)"
  unfolding refuse_open_def by (rule cx_reply_keeps)

definition free_number :: "int \<Rightarrow> 'k connection \<Rightarrow> bool" where
  "free_number my t \<longleftrightarrow> table_ok t \<and> cm_get my (cx_map t) = None \<and> 0 \<le> my \<and> my < 2 ^ 24"

lemma ask_open_table: "free_number my t \<Longrightarrow> table_ok (snd (ask_open lw app which rid my window packet q origin t))"
  using keepsD [OF refuse_keeps, of "t\<lparr>cx_calls := cx_calls t @ [q]\<rparr>"] accept_open_table [of "t\<lparr>cx_calls := cx_calls t @ [q]\<rparr>" my]
  by (simp add: free_number_def ask_open_def Let_def bindS_def ask_app_def modS_def)

lemma numbered:
  assumes "\<And>my t. free_number my t \<Longrightarrow> table_ok (snd (f my t))"
  shows "keeps table_ok (bindS next_channel f)"
proof (rule keepsI)
  fix t :: "'a connection" assume t: "table_ok t"
  show "table_ok (snd (bindS next_channel f t))"
  proof (cases "next_channel t")
    case (Pair r t')
    show ?thesis
    proof (cases r)
      case (Inl e)
      with Pair t show ?thesis by (auto simp: bindS_def next_channel_def split: option.splits)
    next
      case (Inr my)
      with next_channel_table [OF t] Pair assms show ?thesis by (simp add: bindS_def free_number_def)
    qed
  qed
qed

lemma free_table: "free_number my t \<Longrightarrow> table_ok t" by (simp add: free_number_def)

lemma reading_table:
  "(\<And>x m'. table_ok (snd (f x m' t))) \<Longrightarrow> table_ok t \<Longrightarrow> table_ok (snd (reading p m f t))"
  by (auto simp: reading_def raiseS_def split: prod.split sum.split)

lemma parse_channel_open_keeps: "keeps table_ok (parse_channel_open lw app m)"
proof -
  have acc: "keeps table_ok (bindS next_channel (\<lambda>my. accept_open lw which rid my window packet origin dest))"
    for which rid window packet origin dest
    by (rule numbered) (simp add: free_number_def accept_open_table)
  have direct: "keeps table_ok (bindS next_channel (\<lambda>my. 
           if which = lit ''direct-tcpip'' then
             reading get_text m (\<lambda>daddr m. reading get_int m (\<lambda>dport m. reading get_text m (\<lambda>addr m. reading get_int m (\<lambda>port _.
               ask_open lw app which rid my window packet (Check_direct my (addr, port) (daddr, dport)) (Some (addr, port))))))
           else ask_open lw app which rid my window packet (Check_channel which my) None))" for which rid window packet m
    by (rule numbered) (auto intro!: reading_table simp: ask_open_table free_table)
  show ?thesis unfolding parse_channel_open_def open_kind_def
    by (intro keeps_reading keepsI)
       (simp split: if_split, auto intro!: reading_table keepsD [OF acc] keepsD [OF direct] keepsD [OF refuse_keeps])
qed

lemma parse_global_request_keeps: "keeps table_ok (parse_global_request lw app m)"
proof -
  have "keeps table_ok (judge_global app which m)" for which and m :: message
    by (rule keepsI) (auto intro!: reading_table simp: judge_global_def ask_app_def bindS_def modS_def retS_def)
  then show ?thesis unfolding parse_global_request_def
    by (intro keeps_reading keeps_bind) (auto intro!: keeps_rules cx_send_keeps cx_reply_keeps split: answer.split)
qed

lemma open_success_keeps: "keeps table_ok (parse_channel_open_success m)"
proof -
  have n: "same_number (modS (set_remote_channel r w p))" for r w p
    by (rule same_number_mod) (simp add: set_remote_channel_def)
  have "table_ok (snd (bindS (on_channel a (modS (set_remote_channel r w p))) (\<lambda>_. modS (end_open cid)) t))"
    if "table_ok t" "cm_get cid (cx_map t) = Some a" for t :: "'a connection" and cid a r w p
    using on_channel_table [OF that(1) n cm_get_address [OF that], of r w p]
    by (auto simp: bindS_def modS_def intro: end_open_table split: prod.split sum.split)
  then show ?thesis unfolding parse_channel_open_success_def
    by (intro keeps_reading keepsI) (simp split: option.split)
qed

lemma open_failure_keeps: "keeps table_ok (parse_channel_open_failure m)"
  unfolding parse_channel_open_failure_def
  by (intro keeps_reading keeps_mod) (auto simp: Let_def intro!: end_open_table cm_delete_ok)

lemma ext_info_keeps: "keeps table_ok (parse_ext_info m)"
  unfolding parse_ext_info_def by (intro keeps_reading keeps_mod) simp

lemma newkeys_keeps: "keeps table_ok (cx_newkeys lw)"
  unfolding cx_newkeys_def by (intro keeps_bind on_lower_keeps keeps_mod) simp

lemma transport_handler_keeps: "transport_handler lw app seqno ptype = Some h \<Longrightarrow> keeps table_ok (h m)"
  by (auto simp: transport_handler_def parse_request_success_def parse_request_failure_def ext_info_keeps newkeys_keeps
      parse_global_request_keeps open_success_keeps open_failure_keeps parse_channel_open_keeps on_lower_keeps
      intro!: keeps_mod split: if_splits)

lemma channel_message_keeps: "keeps table_ok (handle_channel_message app ptype m)"
proof -
  have "table_ok (snd (bindS (on_channel a (h m)) (\<lambda>_. retS Go_on) t))"
    if "table_ok t" "cm_get cid (cx_map t) = Some a" "channel_handler s ptype = Some h" for t :: "'a connection" and cid a s h and m :: message
    using on_channel_table [OF that(1) handler_number [OF that(3)] cm_get_address [OF that(1,2)], of m]
    by (auto simp: bindS_def retS_def split: prod.split sum.split)
  then show ?thesis unfolding handle_channel_message_def
    by (intro keeps_reading keepsI) (simp split: option.split)
qed

lemma by_tables_keeps: "keeps table_ok (by_tables lw app lib be auth_only ptype seqno m)"
proof -
  have a: "keeps table_ok (bindS (on_auth lw a h) (\<lambda>_. retS Go_on))" for a h by (intro keeps_bind on_auth_keeps keeps_ret)
  have b: "keeps table_ok (bindS (liftR r) (\<lambda>e. bindS (case e of Some b \<Rightarrow> cx_send lw b | None \<Rightarrow> h m) (\<lambda>_. retS Go_on)))"
    if "transport_handler lw app seqno ptype = Some h" for r h
    by (intro keeps_bind keeps_lift keeps_ret) (simp split: option.split add: cx_send_keeps transport_handler_keeps [OF that])
  have c: "keeps table_ok (unimplemented lw seqno ptype)"
    unfolding unimplemented_def by (intro keeps_if keeps_bind keeps_raise keeps_ret cx_reply_keeps)
  show ?thesis unfolding by_tables_def
    by (rule keepsI) (auto simp: keepsD [OF a] keepsD [OF b] keepsD [OF c] keepsD [OF channel_message_keeps] split: option.split prod.split)
qed

lemma dispatch_keeps: "keeps table_ok (dispatch lw app lib be auth_only ptype seqno m)"
proof -
  have e: "keeps table_ok (enforce_strict_kex lw)" by (auto simp: enforce_strict_kex_def intro: keepsI)
  have d: "keeps table_ok (parse_disconnect m)" "keeps table_ok (parse_debug m)"
    unfolding parse_disconnect_def parse_debug_def by (intro keeps_reading keeps_ret)+
  have p: "keeps table_ok (bindS (enforce_strict_kex lw) (\<lambda>_. retS Go_on))" "keeps table_ok (bindS (parse_disconnect m) (\<lambda>_. retS Stop))"
    "keeps table_ok (bindS (enforce_strict_kex lw) (\<lambda>_. bindS (parse_debug m) (\<lambda>_. retS Go_on)))"
    by (intro keeps_bind e d keeps_ret)+
  have x: "keeps table_ok (bindS (modS (\<lambda>t. t\<lparr>cx_lower := lw_expect_none lw (cx_lower t)\<rparr>)) (\<lambda>_.
            if 30 \<le> ptype \<and> ptype \<le> 41 then bindS (on_lower (lw_next lw ptype m)) (\<lambda>_. retS Go_on)
            else by_tables lw app lib be auth_only ptype seqno m))"
    by (intro keeps_bind keeps_if keeps_mod on_lower_keeps keeps_ret by_tables_keeps) simp
  show ?thesis unfolding dispatch_def
    by (rule keepsI) (auto simp: keepsD [OF p(1)] keepsD [OF p(2)] keepsD [OF p(3)] keepsD [OF x] keepsD [OF by_tables_keeps])
qed

lemma receive_table: "table_ok t \<Longrightarrow> table_ok (receive lw app lib be auth_only x t)"
  using keepsD [OF dispatch_keeps, of t lw app lib be auth_only "fst x" "fst (snd x)" "snd (snd x)"]
  by (auto simp: receive_def intro: finish_table split: prod.split sum.split pass.split)

lemma open_begin_table: "table_ok t \<Longrightarrow> table_ok (snd (open_begin which dest src window packet t))"
proof -
  assume t: "table_ok t"
  have "table_ok ((add_channel my (set_window w p (new_channel my)) t)\<lparr>cx_events := cm_put my (length (cx_store t)) (cx_events t)\<rparr>)"
    if "free_number my t" for my w p t
  proof -
    let ?u = "add_channel my (set_window w p (new_channel my)) t"
    have "table_ok ?u" using that by (intro add_channel_table) (auto simp: free_number_def set_window_def new_channel_def)
    moreover have "set (cm_put i a es) \<subseteq> insert (i, a) (set es)" for i and a :: nat and es
      by (induction es) (auto simp: cm_put_def split: if_splits)
    ultimately show ?thesis using that by (fastforce simp: table_ok_def free_number_def add_channel_def)
  qed
  note n = this
  have "table_ok (snd (bindS next_channel (\<lambda>cid.
           bindS (liftR (open_fields which dest src)) (\<lambda>fs.
           bindS (liftR (built ([FByte MSG_CHANNEL_OPEN, FText which, FInt cid, FInt w, FInt p] @ fs))) (\<lambda>b.
           bindS (modS (\<lambda>t. (add_channel cid (set_window w p (new_channel cid)) t)\<lparr>cx_events := cm_put cid a (cx_events t)\<rparr>)) (\<lambda>_.
             retS (cid, a, b))))) t))" if "a = length (cx_store t)" for a w p
  proof (cases "next_channel t")
    case (Pair r t1)
    show ?thesis
    proof (cases r)
      case (Inl e)
      with Pair t show ?thesis by (auto simp: bindS_def next_channel_def split: option.splits)
    next
      case (Inr my)
      have "length (cx_store t1) = length (cx_store t)" using Pair by (auto simp: next_channel_def split: option.splits)
      with n [of my t1] next_channel_table [OF t] Pair Inr that show ?thesis
        by (auto simp: bindS_def liftR_def modS_def retS_def free_number_def split: sum.split)
    qed
  qed
  with t show ?thesis by (simp add: open_begin_def Let_def)
qed

lemma send_user_table: "(\<And>t. table_ok t \<Longrightarrow> table_ok (others t)) \<Longrightarrow> table_ok t \<Longrightarrow> table_ok (snd (send_user_message lw b [(late, others)] t))"
  by (simp add: Let_def keepsD [OF cx_send_keeps])

section \<open>The state machine\<close>

text \<open>What the application and other threads do, apart from opening channels: they wait for a channel, send a message,
  accept, use, drop or close channels, set handlers, and (a client) work with the authentication; and the layer below
  moves on.\<close>

inductive user_step :: "'k lower \<Rightarrow> 'k connection \<Rightarrow> 'k connection \<Rightarrow> bool" for lw where
  c_opened: "open_wait cid a [(late, id)] t = (r, t') \<Longrightarrow> user_step lw t t'"
| c_send: "send_user_message lw b [(late, id)] t = (r, t') \<Longrightarrow> user_step lw t t'"
| c_accept: "accept id t = (r, t') \<Longrightarrow> user_step lw t t'"
| c_use: "same_number (f :: (channel, unit) sm) \<Longrightarrow> a < length (cx_store t) \<Longrightarrow> on_channel a f t = (r, t') \<Longrightarrow> user_step lw t t'"
| c_drop: "a < length (cx_store t) \<Longrightarrow> user_step lw t (collect a t)"
| c_close: "user_step lw t (cx_close t)"
| c_agent: "user_step lw t (set_forward_agent_handler h t)"
| c_x11: "user_step lw t (set_x11_handler h t)"
| c_tcp: "user_step lw t (t\<lparr>cx_tcp := h'\<rparr>)"
| c_auth: "\<not> cx_server t \<Longrightarrow> on_auth lw u (f :: (auth, unit) sm) t = (r, t') \<Longrightarrow> user_step lw t t'"
| c_lower: "user_step lw t (t\<lparr>cx_lower := k\<rparr>)"

text \<open>Together with the messages that arrive, and with the channels that the user opens.\<close>

inductive conn_step ::
  "'k lower \<Rightarrow> application \<Rightarrow> signer \<Rightarrow> backend \<Rightarrow> bool \<Rightarrow> 'k connection \<Rightarrow> 'k connection \<Rightarrow> bool"
  for lw app lib be auth_only where
  c_receive: "cx_active t \<Longrightarrow> conn_step lw app lib be auth_only t (receive lw app lib be auth_only x t)"
| c_open: "open_begin which dest src window packet t = (r, t') \<Longrightarrow> conn_step lw app lib be auth_only t t'"
| c_user: "user_step lw t t' \<Longrightarrow> conn_step lw app lib be auth_only t t'"

definition conn_init :: "'k connection \<Rightarrow> bool" where
  "conn_init t \<longleftrightarrow> (\<exists>k server. t = new_connection k server)"

lemma accept_table: "table_ok t \<Longrightarrow> table_ok (snd (accept id t))"
  by (auto simp: accept_def Let_def table_ok_def split: list.split)

lemma raise_saved_table: "table_ok t \<Longrightarrow> table_ok (snd (raise_saved t))"
  by (simp add: raise_saved_def)

lemma open_wait_table: "table_ok t \<Longrightarrow> table_ok (snd (open_wait cid a [(late, id)] t))"
  by (cases "cm_get cid (cx_map t)") (auto simp: Let_def raise_saved_table)

lemma table_snd: "x = (r, u) \<Longrightarrow> table_ok (snd x) \<Longrightarrow> table_ok u"
  by simp

lemma user_step_table:
  assumes "user_step lw t u" and t: "table_ok t"
  shows "table_ok u"
  using assms(1)
proof cases
  case c_opened from table_snd [OF c_opened(1) open_wait_table [OF t]] show ?thesis .
next
  case c_send from table_snd [OF c_send(1) send_user_table [OF _ t]] show ?thesis by simp
next
  case c_accept from table_snd [OF c_accept(1) accept_table [OF t]] show ?thesis .
next
  case (c_use f a r) from table_snd [OF c_use(3) on_channel_table [OF t c_use(1,2)]] show ?thesis .
next
  case (c_auth w f r) from table_snd [OF c_auth(2) keepsD [OF on_auth_keeps t]] show ?thesis .
qed (use t in \<open>auto simp: set_forward_agent_handler_def set_x11_handler_def intro: collect_table cx_close_table\<close>)

interpretation table: step_invariant conn_init "conn_step lw app lib be auth_only" table_ok
  for lw :: "'k lower" and app lib be auth_only
proof
  show "table_ok t" if "conn_init t" for t :: "'k connection"
    using that by (auto simp: conn_init_def new_connection_def table_ok_def)
next
  show "table_ok u" if t: "table_ok t" and "conn_step lw app lib be auth_only t u" for t u :: "'k connection"
    using that(2)
  proof cases
    case c_receive with receive_table [OF t] show ?thesis by simp
  next
    case c_open from table_snd [OF c_open open_begin_table [OF t]] show ?thesis .
  next
    case c_user from user_step_table [OF c_user t] show ?thesis .
  qed
qed

section \<open>What the table promises\<close>

text \<open>C9. In every state a connection can come to, the table of channels is a one-to-one map from numbers of 24 bits to
  channel objects that have these numbers, the numbers are remembered as seen, and every channel that waits to be
  accepted or to be opened is an object of the store.\<close>

theorem channel_table_well_typed:
  assumes "reachable conn_init (conn_step lw app lib be auth_only) t"
  shows "distinct (map fst (cx_map t)) \<and> distinct (map snd (cx_map t)) \<and>
    (\<forall>(i, a) \<in> set (cx_map t).
       a < length (cx_store t) \<and> chanid (cx_store t ! a) = i \<and> 0 \<le> i \<and> i < 2 ^ 24 \<and> i \<in> set (cx_seen t)) \<and>
    (\<forall>a \<in> set (cx_accepts t). a < length (cx_store t)) \<and> (\<forall>(i, a) \<in> set (cx_events t). a < length (cx_store t))"
  using table.always [OF assms] by (simp add: table_ok_def)

text \<open>A layer below that does nothing but accept what it is given.\<close>

definition bare_lower :: "unit lower" where
  "bare_lower =
     \<lparr>lw_kexinit = \<lambda>_ _. retS (), lw_next = \<lambda>_ _. retS (), lw_newkeys = retS (), lw_send = \<lambda>_. retS (), lw_trigger = id,
      lw_expected = \<lambda>_. [], lw_expect_none = id, lw_strict = \<lambda>_. False, lw_done = \<lambda>_. True, lw_clear = \<lambda>_. True,
      lw_session_id = \<lambda>_. Some [1], lw_pubkeys = \<lambda>_. [], lw_event = \<lambda>_. None, lw_set_event = \<lambda>_. id\<rparr>"

definition quiet_app :: application where
  "quiet_app =
     \<lparr>app_auth = open_server, app_open = \<lambda>_ _. 0, app_forward = \<lambda>_ _ _. None, app_global = \<lambda>_ _ _. Deny,
      app_request = \<lambda>_ _ _. False\<rparr>"

lemma open_begin_sends:
  assumes "cx_active t" "next_free (length (cx_map t)) (cx_map t) (cx_counter t) = Some i" "open_fields which dest src = Inr fs"
    and "w = sanitize_window_size (cx_window t) window" "p = sanitize_packet_size (cx_packet t) packet"
    and "list_all ok_field ([FByte MSG_CHANNEL_OPEN, FText which, FInt i, FInt w, FInt p] @ fs)"
  shows "open_begin which dest src window packet t =
    (Inr (i, length (cx_store t), concat (map enc_field ([FByte MSG_CHANNEL_OPEN, FText which, FInt i, FInt w, FInt p] @ fs))),
     (add_channel i (set_window w p (new_channel i)) (t\<lparr>cx_counter := (i + 1) mod 2 ^ 24\<rparr>))
       \<lparr>cx_events := cm_put i (length (cx_store t)) (cx_events t)\<rparr>)"
  using built_ok [OF assms(6)] assms(1-5)
  by (simp add: open_begin_def Let_def bindS_def liftR_def modS_def retS_def next_channel_def add_channel_def)

lemma session_opened:
  assumes "cx_active t" "cx_map t = []" "cx_counter t = 0" "cx_store t = []" "cx_events t = []"
    and "cx_window t = DEFAULT_WINDOW_SIZE" "cx_packet t = DEFAULT_MAX_PACKET_SIZE"
  shows "open_begin (lit ''session'') None None None None t =
     (Inr (0, 0, concat (map enc_field [FByte MSG_CHANNEL_OPEN, FText (lit ''session''), FInt 0, FInt 2097152, FInt 32768])),
      (add_channel 0 (set_window 2097152 32768 (new_channel 0)) (t\<lparr>cx_counter := 1\<rparr>))\<lparr>cx_events := [(0, 0)]\<rparr>)"
proof -
  have "ok_field (FText (lit ''session''))" by (simp add: utf8_encode_def utf8_char_def ok_string_def scalar_def lit_simps)
  moreover have "sanitize_window_size DEFAULT_WINDOW_SIZE None = 2097152" "sanitize_packet_size DEFAULT_MAX_PACKET_SIZE None = 32768"
    by code_simp+
  moreover have "next_free 0 [] 0 = Some 0" "open_fields (lit ''session'') None None = Inr []"
    by (simp_all add: next_free.simps cm_get_def open_fields_def lit_simps)
  ultimately show ?thesis
    using open_begin_sends [of t 0 "lit ''session''" None None "[]" 2097152 None 32768 None] assms by (simp add: cm_put_def)
qed

theorem channel_table_well_typed_witness:
  "\<exists>t :: unit connection. reachable conn_init (conn_step bare_lower quiet_app sample_signer sample_backend False) t \<and>
     (0, 0) \<in> set (cx_map t) \<and> chanid (cx_store t ! 0) = 0 \<and> 0 \<in> set (cx_seen t)"
proof -
  have "reachable conn_init (conn_step bare_lower quiet_app sample_signer sample_backend False)
      (snd (open_begin (lit ''session'') None None None None (new_connection () False)))" (is "reachable _ _ ?t")
    by (rule after_step [where R = "conn_step bare_lower quiet_app sample_signer sample_backend False", OF _ c_open [OF surjective_pairing]],
        rule initially) (auto simp: conn_init_def)
  moreover from channel_table_well_typed [OF this] have "(0, 0) \<in> set (cx_map ?t) \<Longrightarrow> chanid (cx_store ?t ! 0) = 0 \<and> 0 \<in> set (cx_seen ?t)"
    by fastforce
  moreover have "(0, 0) \<in> set (cx_map ?t)" by (subst session_opened) (simp_all add: add_channel_def cm_put_def new_connection_def)
  ultimately show ?thesis by blast
qed

text \<open>C38. A number is always found: as long as fewer than \<open>2 ^ 24\<close> channels are open, the loop of \<^verbatim>\<open>_next_channel\<close> ends,
  after no more passes than there are channels, with a number of 24 bits that no open channel has, and the
  counter goes on behind it, wrapping around.\<close>

theorem next_channel_finds:
  assumes "reachable conn_init (conn_step lw app lib be auth_only) t" "length (cx_map t) < 2 ^ 24"
  shows "\<exists>c. next_channel t = (Inr c, t\<lparr>cx_counter := (c + 1) mod 2 ^ 24\<rparr>) \<and> 0 \<le> c \<and> c < 2 ^ 24 \<and>
     (\<forall>a. (c, a) \<notin> set (cx_map t))"
proof -
  have ok: "table_ok t" by (rule table.always [OF assms(1)])
  then have "0 \<le> cx_counter t" "cx_counter t < 2 ^ 24" by (auto simp: table_ok_def)
  from next_free_enough [OF order.refl assms(2) this] obtain c
    where c: "next_free (length (cx_map t)) (cx_map t) (cx_counter t) = Some c" by blast
  then have n: "next_channel t = (Inr c, t\<lparr>cx_counter := (c + 1) mod 2 ^ 24\<rparr>)" by (simp add: next_channel_def)
  from next_channel_table [OF ok n] have "cm_get c (cx_map t) = None" "0 \<le> c" "c < 2 ^ 24" by simp_all
  with n show ?thesis by (force simp: cm_get_def map_of_eq_None_iff)
qed

theorem next_channel_finds_witness:
  "\<exists>c t'. next_channel (new_connection () False) = (Inr c, t') \<and> c < 2 ^ 24"
proof -
  have "reachable conn_init (conn_step bare_lower quiet_app sample_signer sample_backend False) (new_connection () False)"
    by (rule initially) (auto simp: conn_init_def)
  from next_channel_finds [OF this] show ?thesis by (auto simp: new_connection_def)
qed

end
