(* ===== verification/Ssh_Connection_Open.thy ===== *)
theory Ssh_Connection_Open
  imports Ssh_Connection_Table
begin

text \<open>
  The opening of a channel as both sides see it: the message that one side's user sends, handled by the other side's
  loop, and the answer handled by the first side's loop, give two channels that name each other.
\<close>

declare lit_simps [simp del]

section \<open>The layer below\<close>

text \<open>A layer below that takes what it is given, and that expects nothing in particular.\<close>

definition carries :: "'k lower \<Rightarrow> bool" where
  "carries lw \<longleftrightarrow> (\<forall>b k. fst (lw_send lw b k) = Inr () \<and> lw_expected lw (snd (lw_send lw b k)) = lw_expected lw k)"

lemma cx_send_carries:
  assumes "carries lw"
  shows "\<exists>k. cx_send lw b t = (Inr (), t\<lparr>cx_lower := k, cx_sent := cx_sent t @ [b]\<rparr>) \<and> lw_expected lw k = lw_expected lw (cx_lower t)"
proof -
  obtain r k where k: "lw_send lw b (cx_lower t) = (r, k)" by fastforce
  with assms have "r = Inr ()" "lw_expected lw k = lw_expected lw (cx_lower t)" by (auto simp: carries_def dest!: spec [of _ b] spec [of _ "cx_lower t"])
  with k show ?thesis by (intro exI [of _ k]) (simp add: cx_send_def on_lower_def bindS_def modS_def)
qed

lemma cx_reply_carries:
  assumes "carries lw" "list_all ok_field fs"
  shows "\<exists>k. cx_reply lw fs t = (Inr (), t\<lparr>cx_lower := k, cx_sent := cx_sent t @ [concat (map enc_field fs)]\<rparr>) \<and>
     lw_expected lw k = lw_expected lw (cx_lower t)"
  using cx_send_carries [OF assms(1), of "concat (map enc_field fs)" t] built_ok [OF assms(2)]
  by (simp add: cx_reply_def bindS_def liftR_def)

section \<open>The side that is asked\<close>

definition question :: "ustr \<Rightarrow> (ustr \<times> int) option \<Rightarrow> (ustr \<times> int) option \<Rightarrow> int \<Rightarrow> conn_call" where
  "question which dest src j = (if which = lit ''direct-tcpip'' then Check_direct j (the src) (the dest) else Check_channel which j)"

definition willing ::
  "application \<Rightarrow> ustr \<Rightarrow> (ustr \<times> int) option \<Rightarrow> (ustr \<times> int) option \<Rightarrow> int \<Rightarrow> 'k connection \<Rightarrow> bool" where
  "willing app which dest src j u \<longleftrightarrow>
     (if which = lit ''auth-agent@openssh.com'' then cx_agent u \<noteq> None
      else if which = lit ''x11'' then cx_x11 u \<noteq> None
      else if which = lit ''forwarded-tcpip'' then cx_tcp u \<noteq> None
      else cx_server u \<and> app_open app (cx_calls u) (question which dest src j) = OPEN_SUCCEEDED)"

definition handed :: "ustr \<Rightarrow> (ustr \<times> int) option \<Rightarrow> (ustr \<times> int) option \<Rightarrow> nat \<Rightarrow> delivery" where
  "handed which dest src c =
     (if which = lit ''auth-agent@openssh.com'' then To_agent c
      else if which = lit ''x11'' then To_x11 c (the src) else To_tcp c (the src) (the dest))"

lemma kinds_differ [simp]:
  "lit ''auth-agent@openssh.com'' \<noteq> lit ''x11''" "lit ''auth-agent@openssh.com'' \<noteq> lit ''forwarded-tcpip''"
  "lit ''auth-agent@openssh.com'' \<noteq> lit ''direct-tcpip''" "lit ''x11'' \<noteq> lit ''forwarded-tcpip''" "lit ''x11'' \<noteq> lit ''direct-tcpip''"
  "lit ''forwarded-tcpip'' \<noteq> lit ''direct-tcpip''" "lit ''direct-tcpip'' \<noteq> lit ''auth-agent@openssh.com''"
  "lit ''direct-tcpip'' \<noteq> lit ''x11''" "lit ''direct-tcpip'' \<noteq> lit ''forwarded-tcpip''" "lit ''x11'' \<noteq> lit ''auth-agent@openssh.com''"
  "lit ''forwarded-tcpip'' \<noteq> lit ''auth-agent@openssh.com''" "lit ''forwarded-tcpip'' \<noteq> lit ''x11''"
  by code_simp+

text \<open>What the other side knows after it has accepted: its channel \<open>c\<close> with the number \<open>j\<close>, linked to \<open>i\<close>.\<close>

definition opened_at ::
  "ustr \<Rightarrow> (ustr \<times> int) option \<Rightarrow> (ustr \<times> int) option \<Rightarrow> int \<Rightarrow> int \<Rightarrow> int \<Rightarrow> int \<Rightarrow> 'k connection \<Rightarrow> 'k connection \<Rightarrow> bool" where
  "opened_at which dest src i j w p u u' \<longleftrightarrow>
     (let c = length (cx_store u) in
      cx_map u' = cm_put j c (cx_map u) \<and>
      cx_store u' = cx_store u @ [set_remote_channel i w p (set_window (cx_window u) (cx_packet u) (new_channel j))] \<and>
      cx_active u' = cx_active u \<and>
      cx_sent u' = cx_sent u @ [concat (map enc_field [FByte MSG_CHANNEL_OPEN_SUCCESS, FInt i, FInt j, FInt (cx_window u), FInt (cx_packet u)])] \<and>
      (cx_accepts u' = cx_accepts u @ [c] \<and> cx_delivered u' = cx_delivered u \<or>
       cx_accepts u' = cx_accepts u \<and> cx_delivered u' = cx_delivered u @ [handed which dest src c]))"

lemma delivered:
  assumes "willing app which dest src j u0" "cx_agent u = cx_agent u0" "cx_x11 u = cx_x11 u0" "cx_tcp u = cx_tcp u0"
    and "which = lit ''x11'' \<or> which = lit ''forwarded-tcpip'' \<longrightarrow> origin = Some (the src)"
    and "which = lit ''forwarded-tcpip'' \<longrightarrow> dst = Some (the dest)"
  shows "deliver_channel which c origin dst u \<in>
     {(Inr (), u\<lparr>cx_accepts := cx_accepts u @ [c]\<rparr>), (Inr (), u\<lparr>cx_delivered := cx_delivered u @ [handed which dest src c]\<rparr>)}"
proof -
  have h: "call_handler h c d u \<in> {(Inr (), u\<lparr>cx_accepts := cx_accepts u @ [c]\<rparr>), (Inr (), u\<lparr>cx_delivered := cx_delivered u @ [d]\<rparr>)}"
    if "h \<noteq> None" for h d
    using that by (auto simp: call_handler_def queue_incoming_def modS_def split: handler.split)
  show ?thesis
  proof (cases "which = lit ''auth-agent@openssh.com'' \<or> which = lit ''x11'' \<or> which = lit ''forwarded-tcpip''")
    case True
    then show ?thesis
      using assms h [of "cx_agent u" "To_agent c"] h [of "cx_x11 u" "To_x11 c (the src)"] h [of "cx_tcp u" "To_tcp c (the src) (the dest)"]
      by (elim disjE) (simp_all add: deliver_channel_def willing_def handed_def)
  next
    case False
    then show ?thesis by (simp add: deliver_channel_def queue_incoming_def modS_def)
  qed
qed

lemma accept_open_opens:
  assumes "carries lw" "willing app which dest src j u0" "cx_agent u = cx_agent u0" "cx_x11 u = cx_x11 u0" "cx_tcp u = cx_tcp u0"
    and "which = lit ''x11'' \<or> which = lit ''forwarded-tcpip'' \<longrightarrow> origin = Some (the src)"
    and "which = lit ''forwarded-tcpip'' \<longrightarrow> dst = Some (the dest)"
    and "list_all ok_field [FInt i, FInt j, FInt (cx_window u), FInt (cx_packet u)]"
  shows "\<exists>u'. accept_open lw which i j w p origin dst u = (Inr (), u') \<and> opened_at which dest src i j w p u u'"
proof -
  let ?c = "set_remote_channel i w p (set_window (cx_window u) (cx_packet u) (new_channel j))"
  let ?fs = "[FByte MSG_CHANNEL_OPEN_SUCCESS, FInt i, FInt j, FInt (cx_window u), FInt (cx_packet u)]"
  have "list_all ok_field ?fs" using assms(8) by simp
  from cx_reply_carries [OF assms(1) this, of "add_channel j ?c u"] obtain k where
    k: "cx_reply lw ?fs (add_channel j ?c u) = (Inr (), (add_channel j ?c u)\<lparr>cx_lower := k, cx_sent := cx_sent u @ [concat (map enc_field ?fs)]\<rparr>)"
    (is "_ = (_, ?u)") by (auto simp: add_channel_def)
  have "accept_open lw which i j w p origin dst u = deliver_channel which (length (cx_store u)) origin dst ?u"
    by (simp add: accept_open_def bindS_def modS_def k)
  moreover have "deliver_channel which (length (cx_store u)) origin dst ?u \<in>
     {(Inr (), ?u\<lparr>cx_accepts := cx_accepts ?u @ [length (cx_store u)]\<rparr>),
      (Inr (), ?u\<lparr>cx_delivered := cx_delivered ?u @ [handed which dest src (length (cx_store u))]\<rparr>)}"
    by (rule delivered [OF assms(2)]) (use assms(3-7) in \<open>simp_all add: add_channel_def\<close>)
  ultimately show ?thesis by (auto simp: opened_at_def Let_def add_channel_def)
qed

lemma opened_at_ignores [simp]:
  "opened_at which dest src i j w p (u\<lparr>cx_counter := n\<rparr>) u' = opened_at which dest src i j w p u u'"
  "opened_at which dest src i j w p (u\<lparr>cx_calls := qs\<rparr>) u' = opened_at which dest src i j w p u u'"
  "opened_at which dest src i j w p (u\<lparr>cx_counter := n, cx_calls := qs\<rparr>) u' = opened_at which dest src i j w p u u'"
  by (simp_all add: opened_at_def)

lemma parse_channel_open_opens:
  assumes "carries lw" "willing app which dest src j u" "open_fields which dest src = Inr fs"
    and m: "holds_fields m ([FText which, FInt i, FInt w, FInt p] @ fs)"
    and n: "next_free (length (cx_map u)) (cx_map u) (cx_counter u) = Some j"
    and "list_all ok_field [FInt i, FInt j, FInt (cx_window u), FInt (cx_packet u)]"
  shows "\<exists>u'. parse_channel_open lw app m u = (Inr (), u') \<and> opened_at which dest src i j w p u u'"
proof -
  let ?u = "u\<lparr>cx_counter := (j + 1) mod 2 ^ 24\<rparr>"
  have nx: "next_channel u = (Inr j, ?u)" by (simp add: next_channel_def n)
  note acc = accept_open_opens [OF assms(1,2)]
  show ?thesis
  proof (cases "which = lit ''auth-agent@openssh.com'' \<or> which = lit ''x11'' \<or> which = lit ''forwarded-tcpip''")
    case True
    let ?origin = "if which = lit ''auth-agent@openssh.com'' then None else Some (the src)"
    and ?dst = "if which = lit ''forwarded-tcpip'' then Some (the dest) else None"
    from acc [of ?u ?origin ?dst i w p] assms(6) obtain u' where
      u': "accept_open lw which i j w p ?origin ?dst ?u = (Inr (), u')" "opened_at which dest src i j w p u u'" by auto
    have "open_kind lw app which i w p m' u = (Inr (), u')" if "holds_fields m' fs" for m'
      using True assms(2,3) that u'(1)
      by (elim disjE)
         (auto simp: open_kind_def willing_def open_fields_def needed_def bindR_def bindS_def nx split: option.splits
           intro!: reading_text reading_int)
    then show ?thesis using u'(2) m by (auto simp: parse_channel_open_def intro!: reading_text reading_int)
  next
    case False
    let ?q = "question which dest src j"
    let ?v = "?u\<lparr>cx_calls := cx_calls u @ [?q]\<rparr>" and ?origin = "if which = lit ''direct-tcpip'' then src else None"
    from acc [of ?v ?origin None i w p] False assms(6) obtain u' where
      u': "accept_open lw which i j w p ?origin None ?v = (Inr (), u')" "opened_at which dest src i j w p u u'" by auto
    have srv: "cx_server u" "app_open app (cx_calls u) ?q = OPEN_SUCCEEDED" using assms(2) False by (auto simp: willing_def)
    have ask: "ask_open lw app which i j w p ?q ?origin ?u = (Inr (), u')"
      using srv(2) u'(1) by (simp add: ask_open_def Let_def bindS_def ask_app_def modS_def)
    have "open_kind lw app which i w p m' u = (Inr (), u')" if f: "holds_fields m' fs" for m'
    proof (cases "which = lit ''direct-tcpip''")
      case True
      with assms(3) obtain da dp sa sp where d: "dest = Some (da, dp)" "src = Some (sa, sp)" "fs = [FText da, FInt dp, FText sa, FInt sp]"
        by (auto simp: open_fields_def needed_def bindR_def split: option.splits)
      have "reading get_text m' (\<lambda>daddr m. reading get_int m (\<lambda>dport m. reading get_text m (\<lambda>addr m. reading get_int m (\<lambda>port _.
          ask_open lw app which i j w p (Check_direct j (addr, port) (daddr, dport)) (Some (addr, port)))))) ?u = (Inr (), u')"
        by (rule reading_text [OF f [unfolded d(3)]], rule reading_int, assumption, rule reading_text, assumption, rule reading_int, assumption)
           (use ask in \<open>simp add: question_def True d\<close>)
      with True False srv(1) show ?thesis by (simp add: open_kind_def bindS_def nx)
    next
      case direct: False
      with False srv(1) ask show ?thesis by (simp add: open_kind_def bindS_def nx question_def)
    qed
    then show ?thesis using u'(2) m by (auto simp: parse_channel_open_def intro!: reading_text reading_int)
  qed
qed

section \<open>One pass of the loop\<close>

lemma receive_handled:
  assumes "cx_active t" "lw_expected lw (cx_lower t) = []" "transport_handler lw app n ptype = Some h"
    and "ptype \<notin> {MSG_IGNORE, MSG_DISCONNECT, MSG_DEBUG}" "ensure_authed ptype m t = Inr None"
    and "h m t = (Inr (), u)" "cx_active u"
  shows "receive lw app lib be auth_only (ptype, n, m) t = u"
  using assms by (simp add: receive_def dispatch_def by_tables_def bindS_def liftR_def retS_def)

lemma open_handlers:
  "transport_handler lw app n MSG_CHANNEL_OPEN = Some (parse_channel_open lw app)"
  "transport_handler lw app n MSG_CHANNEL_OPEN_SUCCESS = Some parse_channel_open_success"
  "MSG_CHANNEL_OPEN \<notin> {MSG_IGNORE, MSG_DISCONNECT, MSG_DEBUG}" "MSG_CHANNEL_OPEN_SUCCESS \<notin> {MSG_IGNORE, MSG_DISCONNECT, MSG_DEBUG}"
  by (simp_all add: transport_handler_def msg_defs)

lemma authed_passes: "\<not> cx_server t \<or> is_authenticated t \<Longrightarrow> ensure_authed ptype m t = Inr None"
  by (auto simp: ensure_authed_def)

section \<open>The side that has asked\<close>

definition linked_up :: "int \<Rightarrow> int \<Rightarrow> int \<Rightarrow> pyexc option \<Rightarrow> channel \<Rightarrow> channel" where
  "linked_up j w p e c = (set_remote_channel j w p c)\<lparr>outbox := [], linked := True, saved_exception := e\<rparr>"

lemma success_linked:
  assumes "holds_fields m [FInt i, FInt j, FInt w, FInt p]" "cm_get i (cx_map t) = Some a" "map_of (cx_events t) i = Some a"
    and "a < length (cx_store t)"
  shows "\<exists>t'. parse_channel_open_success m t = (Inr (), t') \<and> cx_map t' = cx_map t \<and> cx_active t' = cx_active t \<and>
     a \<in> set (cx_fired t') \<and> cx_store t' = (cx_store t)[a := linked_up j w p (cx_saved t) (cx_store t ! a)]"
proof -
  let ?u = "snd (bindS (on_channel a (modS (set_remote_channel j w p))) (\<lambda>_. modS (end_open i)) t)"
  have "parse_channel_open_success m t = (Inr (), ?u)" unfolding parse_channel_open_success_def
    by (rule reading_int [OF assms(1)], (rule reading_int, assumption)+)
       (simp add: assms(2) bindS_def on_channel_def modS_def)
  moreover have "cx_map ?u = cx_map t \<and> cx_active ?u = cx_active t \<and> a \<in> set (cx_fired ?u) \<and>
     cx_store ?u = (cx_store t)[a := linked_up j w p (cx_saved t) (cx_store t ! a)]"
    using assms(3) by (cases "cx_store t ! a") (simp add: bindS_def on_channel_def modS_def end_open_def set_remote_channel_def linked_up_def)
  ultimately show ?thesis by blast
qed

section \<open>Properties\<close>

text \<open>C2. Opening a channel, both sides: the message of \<^verbatim>\<open>open_channel\<close>, handled by the loop of a side that is willing (its
  application allows it, or it has a handler for channels of this kind), and the answer handled by the loop of the
  first side, give two channel objects with each other's numbers, each with the other's window and packet size to
  send by. The opener's wait returns its channel, the other side has queued its own or handed it to the handler.\<close>

theorem channel_opened:
  fixes t :: "'k connection" and u :: "'l connection"
  assumes "reachable conn_init (conn_step lw app lib be ao) t" "reachable conn_init (conn_step lw' app' lib' be' ao') u"
    and "cx_active t" "lw_expected lw (cx_lower t) = []" "\<not> cx_server t \<or> is_authenticated t" "length (cx_map t) < 2 ^ 24"
    and "cx_active u" "lw_expected lw' (cx_lower u) = []" "\<not> cx_server u \<or> is_authenticated u" "carries lw'"
    and "next_channel u = (Inr j, u0)" "willing app' which dest src j u"
    and "open_fields which dest src = Inr fs" "list_all ok_field (FText which # fs)"
    and "list_all ok_field [FInt (cx_window u), FInt (cx_packet u)]"
  shows "\<exists>i b t1 u1 b2 t2.
     open_begin which dest src window packet t = (Inr (i, length (cx_store t), b), t1) \<and>
     receive lw' app' lib' be' ao' (hd b, n, new_message (Some (tl b))) u = u1 \<and> cx_sent u1 = cx_sent u @ [b2] \<and>
     receive lw app lib be ao (hd b2, n', new_message (Some (tl b2))) t1 = t2 \<and>
     open_wait i (length (cx_store t)) [(False, id)] t2 = (Inr (length (cx_store t)), t2) \<and>
     cx_store t2 ! length (cx_store t) =
       (set_remote_channel j (cx_window u) (cx_packet u)
          (set_window (sanitize_window_size (cx_window t) window) (sanitize_packet_size (cx_packet t) packet) (new_channel i)))
       \<lparr>saved_exception := cx_saved t\<rparr> \<and>
     cm_get j (cx_map u1) = Some (length (cx_store u)) \<and>
     cx_store u1 ! length (cx_store u) =
       set_remote_channel i (sanitize_window_size (cx_window t) window) (sanitize_packet_size (cx_packet t) packet)
          (set_window (cx_window u) (cx_packet u) (new_channel j)) \<and>
     (length (cx_store u) \<in> set (cx_accepts u1) \<or> handed which dest src (length (cx_store u)) \<in> set (cx_delivered u1))"
proof -
  let ?w = "sanitize_window_size (cx_window t) window" and ?p = "sanitize_packet_size (cx_packet t) packet"
  let ?a = "length (cx_store t)" and ?c = "length (cx_store u)"
  from next_channel_finds [OF assms(1,6)] obtain i where
    i: "next_free (length (cx_map t)) (cx_map t) (cx_counter t) = Some i" "0 \<le> i" "i < 2 ^ 24"
    by (auto simp: next_channel_def split: option.splits)
  have j: "next_free (length (cx_map u)) (cx_map u) (cx_counter u) = Some j" "0 \<le> j" "j < 2 ^ 24"
    using next_channel_table [OF table.always [OF assms(2)] assms(11)] assms(11) by (auto simp: next_channel_def split: option.splits)
  let ?fs = "[FText which, FInt i, FInt ?w, FInt ?p] @ fs"
  have ok: "list_all ok_field ?fs" using assms(14) i sanitized_window [of "cx_window t" window] sanitized_packet [of "cx_packet t" packet] by simp
  let ?t1 = "(add_channel i (set_window ?w ?p (new_channel i)) (t\<lparr>cx_counter := (i + 1) mod 2 ^ 24\<rparr>))\<lparr>cx_events := cm_put i ?a (cx_events t)\<rparr>"
  let ?b = "concat (map enc_field (FByte MSG_CHANNEL_OPEN # ?fs))"
  have begins: "open_begin which dest src window packet t = (Inr (i, ?a, ?b), ?t1)"
    using open_begin_sends [OF assms(3) i(1) assms(13) refl refl] ok by simp
  have hb: "hd ?b = MSG_CHANNEL_OPEN" "holds_fields (new_message (Some (tl ?b))) ?fs"
    using holds_tail [OF ok, of MSG_CHANNEL_OPEN] by (simp_all add: enc_field_def)
  have "list_all ok_field [FInt i, FInt j, FInt (cx_window u), FInt (cx_packet u)]" using i j assms(15) by simp
  from parse_channel_open_opens [OF assms(10,12,13) hb(2) j(1) this] obtain u1 where
    u1: "parse_channel_open lw' app' (new_message (Some (tl ?b))) u = (Inr (), u1)" "opened_at which dest src i j ?w ?p u u1" by blast
  have ru: "receive lw' app' lib' be' ao' (hd ?b, n, new_message (Some (tl ?b))) u = u1"
    unfolding hb(1) by (rule receive_handled [OF assms(7,8) open_handlers(1,3) authed_passes [OF assms(9)] u1(1)])
      (use u1(2) assms(7) in \<open>simp add: opened_at_def Let_def\<close>)
  let ?gs = "[FInt i, FInt j, FInt (cx_window u), FInt (cx_packet u)]"
  let ?b2 = "concat (map enc_field (FByte MSG_CHANNEL_OPEN_SUCCESS # ?gs))"
  have ok2: "list_all ok_field ?gs" using i j assms(15) by simp
  have hb2: "hd ?b2 = MSG_CHANNEL_OPEN_SUCCESS" "holds_fields (new_message (Some (tl ?b2))) ?gs"
    using holds_tail [OF ok2, of MSG_CHANNEL_OPEN_SUCCESS] by (simp_all add: enc_field_def)
  have put: "cm_get i (cx_map ?t1) = Some ?a" "map_of (cx_events ?t1) i = Some ?a" "?a < length (cx_store ?t1)"
    by (simp_all add: cm_get_def cm_put_def add_channel_def map_of_dict_put)
  from success_linked [OF hb2(2) put] obtain t2 where
    t2: "parse_channel_open_success (new_message (Some (tl ?b2))) ?t1 = (Inr (), t2)" "cx_map t2 = cx_map ?t1" "cx_active t2 = cx_active ?t1"
      "?a \<in> set (cx_fired t2)"
      "cx_store t2 = (cx_store ?t1)[?a := linked_up j (cx_window u) (cx_packet u) (cx_saved ?t1) (cx_store ?t1 ! ?a)]" by blast
  have au: "\<not> cx_server ?t1 \<or> is_authenticated ?t1" using assms(5) by (simp add: add_channel_def is_authenticated_def)
  have rt: "receive lw app lib be ao (hd ?b2, n', new_message (Some (tl ?b2))) ?t1 = t2"
    unfolding hb2(1) by (rule receive_handled [OF _ _ open_handlers(2,4) authed_passes [OF au] t2(1)])
      (use assms(3,4) t2(3) in \<open>simp_all add: add_channel_def\<close>)
  have "open_wait i ?a [(False, id)] t2 = (Inr ?a, t2)"
    using assms(3) t2(2,3,4) put(1) by (simp add: Let_def add_channel_def)
  moreover have "cx_store t2 ! ?a = (set_remote_channel j (cx_window u) (cx_packet u) (set_window ?w ?p (new_channel i)))\<lparr>saved_exception := cx_saved t\<rparr>"
    using t2(5) by (simp add: add_channel_def linked_up_def set_remote_channel_def set_window_def new_channel_def)
  moreover have "cm_get j (cx_map u1) = Some ?c" "cx_store u1 ! ?c = set_remote_channel i ?w ?p (set_window (cx_window u) (cx_packet u) (new_channel j))"
    "?c \<in> set (cx_accepts u1) \<or> handed which dest src ?c \<in> set (cx_delivered u1)" "cx_sent u1 = cx_sent u @ [?b2]"
    using u1(2) by (auto simp: opened_at_def Let_def cm_get_def cm_put_def map_of_dict_put)
  ultimately show ?thesis using begins ru rt by blast
qed

text \<open>A server that has authenticated its client: it has received the message that ends the key exchange and a request.\<close>

definition served :: "unit connection" where
  "served = (new_connection () True)
     \<lparr>cx_auth := Some none_granted, cx_saved := au_saved none_granted, cx_sent := au_sent none_granted\<rparr>"

lemma served_start:
  "receive bare_lower quiet_app lib be ao (MSG_NEWKEYS, n, m) (new_connection () True) =
     (new_connection () True)\<lparr>cx_auth := Some (new_auth True (Some [1]) [])\<rparr>"
  by (rule receive_handled [where h = "\<lambda>m. cx_newkeys bare_lower"])
     (simp_all add: new_connection_def bare_lower_def transport_handler_def msg_defs ensure_authed_def HIGHEST_USERAUTH_MESSAGE_ID_def
       cx_newkeys_def on_lower_def sm_simps)

lemma served_request:
  "receive bare_lower quiet_app sample_signer sample_backend ao (MSG_USERAUTH_REQUEST, n, none_request)
     ((new_connection () True)\<lparr>cx_auth := Some (new_auth True (Some [1]) [])\<rparr>) = served"
proof -
  let ?s = "new_auth True (Some [1]) []"
  let ?t = "(new_connection () True)\<lparr>cx_auth := Some ?s\<rparr>"
  let ?p = "parse_userauth_request open_server sample_signer sample_backend"
  have "?s\<lparr>au_active := cx_active ?t, au_saved := cx_saved ?t, au_extensions := cx_extensions ?t, au_sent := []\<rparr> = ?s"
    by (simp add: new_auth_def new_connection_def)
  then have "on_auth bare_lower ?s (?p none_request) ?t = (Inr (), served)"
    unfolding on_auth_def by (simp add: none_request_granted Let_def)
      (simp add: served_def new_connection_def none_granted_def after_verdict_def new_auth_def)
  then have h: "bindS (on_auth bare_lower ?s (?p none_request)) (\<lambda>_. retS Go_on) ?t = (Inr Go_on, served)"
    by (simp add: bindS_def retS_def)
  have a: "auth_handler (app_auth quiet_app) sample_signer sample_backend ao MSG_USERAUTH_REQUEST ?s = Some ?p"
    by (simp add: auth_handler_def server_handler_def msg_defs new_auth_def quiet_app_def)
  have t: "transport_handler bare_lower quiet_app n MSG_USERAUTH_REQUEST = None" "channel_handler None MSG_USERAUTH_REQUEST = None"
    "MSG_USERAUTH_REQUEST \<noteq> MSG_IGNORE" "MSG_USERAUTH_REQUEST \<noteq> MSG_DISCONNECT" "MSG_USERAUTH_REQUEST \<noteq> MSG_DEBUG"
    "lw_expected bare_lower () = []" "cx_auth ?t = Some ?s" "cx_active served"
    by (simp_all add: transport_handler_def channel_handler_def msg_defs bare_lower_def served_def new_connection_def)
  show ?thesis by (simp add: receive_def dispatch_def by_tables_def t(1-6) t(7) [simplified] a h t(8))
qed

lemma served_reachable: "reachable conn_init (conn_step bare_lower quiet_app sample_signer sample_backend ao) served"
proof -
  note step = after_step [where R = "conn_step bare_lower quiet_app sample_signer sample_backend ao"]
  let ?t = "new_connection () True"
  have "conn_step bare_lower quiet_app sample_signer sample_backend ao ?t (?t\<lparr>cx_auth := Some (new_auth True (Some [1]) [])\<rparr>)"
    using c_receive [of ?t bare_lower quiet_app sample_signer sample_backend ao "(MSG_NEWKEYS, 0, none_request)"]
    by (simp only: served_start) (simp add: new_connection_def)
  moreover have "conn_step bare_lower quiet_app sample_signer sample_backend ao (?t\<lparr>cx_auth := Some (new_auth True (Some [1]) [])\<rparr>) served"
    using c_receive [of "?t\<lparr>cx_auth := Some (new_auth True (Some [1]) [])\<rparr>" bare_lower quiet_app sample_signer sample_backend ao
        "(MSG_USERAUTH_REQUEST, 0, none_request)"]
    by (simp only: served_request) (simp add: new_connection_def)
  moreover have "reachable conn_init (conn_step bare_lower quiet_app sample_signer sample_backend ao) ?t"
    by (rule initially) (auto simp: conn_init_def)
  ultimately show ?thesis by (blast intro: step)
qed

theorem channel_opened_witness:
  "\<exists>i t1 u1 t2 b b2.
     open_begin (lit ''session'') None None None None (new_connection () False) = (Inr (i, 0, b), t1) \<and>
     receive bare_lower quiet_app sample_signer sample_backend False (hd b, 0, new_message (Some (tl b))) served = u1 \<and>
     receive bare_lower quiet_app sample_signer sample_backend False (hd b2, 0, new_message (Some (tl b2))) t1 = t2 \<and>
     open_wait i 0 [(False, id)] t2 = (Inr 0, t2) \<and> cm_get 0 (cx_map u1) = Some 0"
proof -
  let ?s = "lit ''session''"
  have "reachable conn_init (conn_step bare_lower quiet_app sample_signer sample_backend False) (new_connection () False)"
    by (rule initially) (auto simp: conn_init_def)
  note o = channel_opened [OF this served_reachable [of False]]
  have next0: "next_channel served = (Inr 0, served\<lparr>cx_counter := 1\<rparr>)"
    by (simp add: next_channel_def next_free.simps cm_get_def served_def new_connection_def)
  have w: "willing quiet_app ?s None None 0 served"
    by (simp add: willing_def quiet_app_def OPEN_SUCCEEDED_def served_def new_connection_def lit_simps)
  have f: "open_fields ?s None None = Inr []" by (simp add: open_fields_def lit_simps)
  have k: "list_all ok_field (FText ?s # [])" by (simp add: utf8_encode_def utf8_char_def ok_string_def scalar_def lit_simps)
  have z: "list_all ok_field [FInt (cx_window served), FInt (cx_packet served)]"
    by (simp add: served_def new_connection_def DEFAULT_WINDOW_SIZE_def DEFAULT_MAX_PACKET_SIZE_def)
  have c: "carries bare_lower" by (simp add: carries_def bare_lower_def retS_def)
  have g: "cx_active (new_connection () False)" "lw_expected bare_lower (cx_lower (new_connection () False)) = []"
    "\<not> cx_server (new_connection () False) \<or> is_authenticated (new_connection () False)" "length (cx_map (new_connection () False)) < 2 ^ 24"
    "cx_active served" "lw_expected bare_lower (cx_lower served) = []" "\<not> cx_server served \<or> is_authenticated served"
    by (simp_all add: new_connection_def bare_lower_def served_def is_authenticated_def none_granted_def after_verdict_def)
  have l: "length (cx_store (new_connection () False)) = 0" "length (cx_store served) = 0" by (simp_all add: new_connection_def served_def)
  from o [OF g c next0 w f k z, where packet = None and window = None and n = 0 and n' = 0, unfolded l] show ?thesis by blast
qed

end
