(* ===== verification/Ssh_Connection_Safe.thy ===== *)
theory Ssh_Connection_Safe
  imports Ssh_Connection_Open
begin

text \<open>
  A server that has not authenticated its client opens nothing for it: the transport and its authentication handler
  together, against any messages in any order, with the application and other threads at work. And what the loop
  does with messages that a strict key exchange does not expect.
\<close>

declare lit_simps [simp del]

section \<open>The state machine\<close>

text \<open>The state is the messages received so far and the connection. The application opens channels only to a client
  that is authenticated.\<close>

inductive serve_step ::
  "'k lower \<Rightarrow> application \<Rightarrow> signer \<Rightarrow> backend \<Rightarrow> message list \<times> 'k connection \<Rightarrow> message list \<times> 'k connection \<Rightarrow> bool"
  for lw app lib be where
  v_receive: "cx_active t \<Longrightarrow> serve_step lw app lib be (rcv, t) (m # rcv, receive lw app lib be auth_only (ptype, seqno, m) t)"
| v_open: "is_authenticated t \<Longrightarrow> open_begin which dest src window packet t = (r, t') \<Longrightarrow> serve_step lw app lib be (rcv, t) (rcv, t')"
| v_user: "user_step lw t t' \<Longrightarrow> serve_step lw app lib be (rcv, t) (rcv, t')"

definition serve_init :: "message list \<times> 'k connection \<Rightarrow> bool" where
  "serve_init x \<longleftrightarrow> (\<exists>k. x = ([], new_connection k True))"

inductive_cases serve_step_cases: "serve_step lw app lib be (rcv, t) x"

section \<open>The invariant\<close>

text \<open>What there is only for a client that is authenticated.\<close>

definition untouched :: "'k connection \<Rightarrow> bool" where
  "untouched t \<longleftrightarrow> cx_store t = [] \<and> cx_map t = [] \<and> cx_accepts t = [] \<and> cx_delivered t = [] \<and> cx_calls t = []"

definition authed :: "'k connection \<Rightarrow> bool" where
  "authed t \<longleftrightarrow> (\<exists>a. cx_auth t = Some a \<and> au_authed a)"

definition sound :: "application \<Rightarrow> signer \<Rightarrow> backend \<Rightarrow> message list \<Rightarrow> bool \<Rightarrow> auth option \<Rightarrow> bool" where
  "sound app lib be rcv active au \<longleftrightarrow>
     (case au of None \<Rightarrow> True
      | Some a \<Rightarrow> core (app_auth app) lib be (au_session_id a) rcv a \<and> (active \<longrightarrow> au_fail_count a < 10))"

definition safe :: "application \<Rightarrow> signer \<Rightarrow> backend \<Rightarrow> message list \<Rightarrow> 'k connection \<Rightarrow> bool" where
  "safe app lib be rcv t \<longleftrightarrow> cx_server t \<and> sound app lib be rcv (cx_active t) (cx_auth t) \<and> (untouched t \<or> authed t)"

section \<open>What the handlers leave alone\<close>

definition auth_view :: "'k connection \<Rightarrow> bool \<times> bool \<times> auth option" where
  "auth_view t = (cx_server t, cx_active t, cx_auth t)"

definition same_auth :: "('k connection, 'a) sm \<Rightarrow> bool" where
  "same_auth f \<longleftrightarrow> (\<forall>t. auth_view (snd (f t)) = auth_view t)"

lemma same_authI:
  assumes "\<And>v. keeps (\<lambda>t. auth_view t = v) f"
  shows "same_auth f"
  unfolding same_auth_def
proof
  fix t show "auth_view (snd (f t)) = auth_view t" by (rule keepsD [OF assms]) (rule refl)
qed

lemma same_auth_keeps: "same_auth f \<Longrightarrow> keeps (\<lambda>t. auth_view t = v) f"
  unfolding same_auth_def by (rule keepsI) simp

lemma same_authD: "same_auth f \<Longrightarrow> auth_view (snd (f t)) = auth_view t"
  by (simp add: same_auth_def)

lemma same_auth_bind: "same_auth f \<Longrightarrow> (\<And>x. same_auth (g x)) \<Longrightarrow> same_auth (bindS f g)"
  by (rule same_authI, rule keeps_bind, erule same_auth_keeps) (rule same_auth_keeps, simp)

lemma same_auth_reading: "(\<And>x m'. same_auth (h x m')) \<Longrightarrow> same_auth (reading p m h)"
  by (rule same_authI, rule keeps_reading, rule same_auth_keeps)

lemma same_auth_basic: "same_auth (retS x)" "same_auth (raiseS e)" "same_auth (liftR r)"
  by (simp_all add: same_auth_def retS_def raiseS_def liftR_def split: sum.split)

lemma same_auth_if: "(b \<Longrightarrow> same_auth f) \<Longrightarrow> (\<not> b \<Longrightarrow> same_auth g) \<Longrightarrow> same_auth (if b then f else g)"
  by simp

lemmas same_auth_rules = same_auth_bind same_auth_reading same_auth_basic same_auth_if

lemma view_bind: "same_auth f \<Longrightarrow> (\<And>x. same_auth (g x)) \<Longrightarrow> auth_view (snd (bindS f g t)) = auth_view t"
  by (rule same_authD, rule same_auth_bind)

lemma view_reading:
  "(\<And>x m'. auth_view (snd (h x m' t)) = auth_view t) \<Longrightarrow> auth_view (snd (reading p m h t)) = auth_view t"
  by (simp add: reading_def raiseS_def split: prod.split sum.split)

lemma same_auth_mod: "(\<And>t. auth_view (f t) = auth_view t) \<Longrightarrow> same_auth (modS f)"
  by (simp add: same_auth_def modS_def)

lemma view_simps [simp]:
  "auth_view (t\<lparr>cx_lower := k\<rparr>) = auth_view t" "auth_view (t\<lparr>cx_map := cm\<rparr>) = auth_view t" "auth_view (t\<lparr>cx_calls := cs\<rparr>) = auth_view t"
  "auth_view (t\<lparr>cx_sent := ms\<rparr>) = auth_view t" "auth_view (t\<lparr>cx_saved := e\<rparr>) = auth_view t" "auth_view (t\<lparr>cx_store := st\<rparr>) = auth_view t"
  "auth_view (t\<lparr>cx_accepts := ac\<rparr>) = auth_view t" "auth_view (t\<lparr>cx_delivered := ds\<rparr>) = auth_view t" "auth_view (t\<lparr>cx_counter := n\<rparr>) = auth_view t"
  "auth_view (t\<lparr>cx_seen := sn\<rparr>) = auth_view t" "auth_view (t\<lparr>cx_fired := fs\<rparr>) = auth_view t" "auth_view (t\<lparr>cx_events := es\<rparr>) = auth_view t"
  "auth_view (t\<lparr>cx_response := rs\<rparr>) = auth_view t" "auth_view (t\<lparr>cx_extensions := xs\<rparr>) = auth_view t"
  by (simp_all add: auth_view_def)

lemma on_lower_auth: "same_auth (on_lower f)"
  by (simp add: same_auth_def on_lower_def split: prod.split)

lemma cx_send_auth: "same_auth (cx_send lw b)" and cx_reply_auth: "same_auth (cx_reply lw fs)"
  unfolding cx_reply_def cx_send_def by (intro same_auth_rules on_lower_auth same_auth_mod; simp)+

lemma on_channel_auth: "same_auth (on_channel a f)"
  by (simp add: same_auth_def on_channel_def split: prod.split)

lemma next_channel_auth: "same_auth next_channel"
  by (simp add: same_auth_def next_channel_def split: option.split)

lemma ask_app_auth: "same_auth (ask_app q)"
  unfolding ask_app_def by (rule same_auth_mod) simp

lemma call_handler_auth: "same_auth (call_handler h a d)" "same_auth (queue_incoming a)"
  unfolding call_handler_def queue_incoming_def
  by (auto split: option.split handler.split intro!: same_auth_mod same_auth_rules)

lemma deliver_auth: "same_auth (deliver_channel which a origin dest)"
  unfolding deliver_channel_def
  by (subst same_auth_def) (simp add: call_handler_auth [THEN same_authD] split: option.split prod.split)

lemma accept_open_auth: "same_auth (accept_open lw which rid my window packet origin dest)"
proof -
  have "same_auth (modS (add_channel my c))" for c by (rule same_auth_mod) (simp add: add_channel_def)
  then show ?thesis unfolding accept_open_def
    by (subst same_auth_def) (intro allI view_bind same_auth_bind cx_reply_auth deliver_auth)
qed

lemma refuse_auth: "same_auth (refuse_open lw rid reason)"
  unfolding refuse_open_def by (rule cx_reply_auth)

lemma ask_open_auth: "same_auth (ask_open lw app which rid my window packet q origin)"
  unfolding ask_open_def Let_def
  by (subst same_auth_def) (intro allI view_bind same_auth_if ask_app_auth refuse_auth accept_open_auth)

lemmas opening_auth = next_channel_auth ask_app_auth accept_open_auth refuse_auth ask_open_auth cx_reply_auth cx_send_auth

lemma parse_channel_open_auth: "same_auth (parse_channel_open lw app m)"
proof -
  have branch: "same_auth (bindS next_channel (\<lambda>my. accept_open lw which rid my window packet origin dest))"
    for which rid window packet origin dest by (intro same_auth_rules opening_auth)
  show ?thesis unfolding parse_channel_open_def open_kind_def
    by (intro same_auth_reading, subst same_auth_def)
       (simp split: if_split, intro conjI impI allI view_reading view_bind same_auth_rules opening_auth branch [THEN same_authD]
        opening_auth [THEN same_authD])
qed

lemma parse_global_request_auth: "same_auth (parse_global_request lw app m)"
proof -
  have "same_auth (judge_global app which m)" for which and m :: message
    unfolding judge_global_def
    by (subst same_auth_def) (simp split: if_split, intro conjI impI allI view_reading view_bind same_auth_rules opening_auth)
  then show ?thesis unfolding parse_global_request_def
    by (intro same_auth_rules) (auto intro!: same_auth_rules opening_auth split: answer.split)
qed

lemma end_open_view [simp]: "auth_view (end_open cid t) = auth_view t"
  by (simp add: end_open_def split: option.split)

lemma open_result_auth: "same_auth (parse_channel_open_success m)" "same_auth (parse_channel_open_failure m)"
proof -
  have "same_auth (modS (end_open cid))" for cid by (rule same_auth_mod) simp
  then show "same_auth (parse_channel_open_success m)" unfolding parse_channel_open_success_def
    by (intro same_auth_reading, subst same_auth_def) (auto intro!: view_bind on_channel_auth split: option.split)
  show "same_auth (parse_channel_open_failure m)" unfolding parse_channel_open_failure_def
    by (intro same_auth_reading same_auth_mod) (simp add: Let_def)
qed

lemma guarded_auth:
  assumes "transport_handler lw app seqno ptype = Some h" "HIGHEST_USERAUTH_MESSAGE_ID < unat ptype"
  shows "same_auth (h m)"
  using assms open_result_auth parse_channel_open_auth parse_global_request_auth
  by (auto simp: transport_handler_def msg_defs HIGHEST_USERAUTH_MESSAGE_ID_def parse_request_success_def parse_request_failure_def
      fire_completion_def intro!: same_auth_mod split: if_splits)

section \<open>The authentication handler\<close>

lemma authed_kept:
  assumes "server_handler srv lib be ptype = Some h"
  shows "keeps au_authed (h m)"
proof -
  have send: "keeps au_authed (au_send fs)" for fs
    unfolding au_send_def by (intro keeps_rules keeps_mod) simp
  have asks: "keeps au_authed (ask_server srv q)" for q by (auto simp: ask_server_def intro: keepsI)
  have gone: "keeps au_authed (disconnect_with n d)" for n d
    unfolding disconnect_with_def by (intro keeps_rules keeps_mod send) (simp add: close_transport_def)
  have failure: "keeps au_authed (bindS (liftR (built [FByte MSG_USERAUTH_FAILURE, FText w])) (\<lambda>_.
      if r = Result AUTH_PARTIALLY_SUCCESSFUL then au_send [FByte MSG_USERAUTH_FAILURE, FText w, FBool True]
      else bindS (modS (\<lambda>a. a\<lparr>au_fail_count := au_fail_count a + 1\<rparr>)) (\<lambda>_. au_send [FByte MSG_USERAUTH_FAILURE, FText w, FBool False])))"
    for w r by (intro keeps_rules keeps_mod send) simp
  have verdict: "keeps au_authed (send_auth_result srv user r)" for user r
    unfolding send_auth_result_def disconnect_no_more_auth_def Let_def
    by (intro keeps_bind keeps_if keeps_mod keeps_ret send; (simp; fail)?; rule keepsI; simp add: keepsD [OF gone] keepsD [OF failure])
  have service: "keeps au_authed (parse_service_request srv m)"
    by (rule keepsI) (auto simp: parse_service_request_def reading_def disconnect_service_not_available_def disconnect_with_def
      au_send_def sm_simps close_transport_def split: prod.split sum.split option.split)
  have response: "keeps au_authed (parse_userauth_info_response srv m)"
  proof (rule keepsI)
    fix s :: auth assume s: "au_authed s"
    have "keeps au_authed (reading get_int m (\<lambda>n m. reading (get_texts (nat n)) m (\<lambda>responses _.
         bindS (ask_server srv (Check_response responses)) (\<lambda>r.
           case r of Query q \<Rightarrow> send_interactive_query q | Result _ \<Rightarrow> send_auth_result srv (au_auth_username s) r))))"
      by (intro keeps_rules asks) (auto simp: send_interactive_query_def intro: send verdict split: reaction.split)
    from keepsD [OF this s] show "au_authed (snd (parse_userauth_info_response srv m s))"
      using s by (simp add: parse_userauth_info_response_def raiseS_def)
  qed
  have request: "keeps au_authed (parse_userauth_request srv lib be m)"
  proof (rule keepsI)
    fix s :: auth assume s: "au_authed s"
    show "au_authed (snd (parse_userauth_request srv lib be m s))"
      using s by (simp add: parse_userauth_request_def keepsD [OF send s])
  qed
  show ?thesis using assms service request response by (auto simp: server_handler_def split: if_splits)
qed

section \<open>Every message keeps the invariant\<close>

text \<open>What still holds when a handler has raised.\<close>

definition safe0 :: "application \<Rightarrow> signer \<Rightarrow> backend \<Rightarrow> message list \<Rightarrow> 'k connection \<Rightarrow> bool" where
  "safe0 app lib be rcv t \<longleftrightarrow> cx_server t \<and> sound app lib be rcv False (cx_auth t) \<and> (untouched t \<or> authed t)"

lemma safe_safe0: "safe app lib be rcv t \<Longrightarrow> safe0 app lib be rcv t"
  by (auto simp: safe_def safe0_def sound_def split: option.splits)

lemma safe_more: "safe app lib be rcv t \<Longrightarrow> safe app lib be (m # rcv) t"
  by (auto simp: safe_def sound_def core_more split: option.splits)

lemma view_safe:
  assumes "safe app lib be rcv t" "auth_view t' = auth_view t" "untouched t \<Longrightarrow> \<not> authed t \<Longrightarrow> untouched t'"
  shows "safe app lib be rcv t'"
  using assms by (auto simp: safe_def auth_view_def authed_def)

definition good :: "application \<Rightarrow> signer \<Rightarrow> backend \<Rightarrow> message list \<Rightarrow> 'a res \<times> 'k connection \<Rightarrow> bool" where
  "good app lib be rcv x \<longleftrightarrow> safe0 app lib be rcv (snd x) \<and> (case fst x of Inr _ \<Rightarrow> safe app lib be rcv (snd x) | Inl _ \<Rightarrow> True)"

lemma goodI: "safe app lib be rcv (snd x) \<Longrightarrow> good app lib be rcv x"
  by (simp add: good_def safe_safe0 split: sum.split)

definition calm :: "('k connection, 'a) sm \<Rightarrow> bool" where
  "calm f \<longleftrightarrow> same_auth f \<and> keeps untouched f"

lemma calm_bind: "calm f \<Longrightarrow> (\<And>x. calm (g x)) \<Longrightarrow> calm (bindS f g)"
  by (simp add: calm_def same_auth_bind keeps_bind)

lemma calm_reading: "(\<And>x m'. calm (h x m')) \<Longrightarrow> calm (reading p m h)"
  by (simp add: calm_def same_auth_reading keeps_reading)

lemma calm_basic: "calm (retS x)" "calm (raiseS e)" "calm (liftR r)"
  by (simp_all add: calm_def same_auth_basic keeps_ret keeps_raise keeps_lift)

lemma calm_if: "(b \<Longrightarrow> calm f) \<Longrightarrow> (\<not> b \<Longrightarrow> calm g) \<Longrightarrow> calm (if b then f else g)"
  by simp

lemma calm_mod: "(\<And>t. auth_view (f t) = auth_view t) \<Longrightarrow> (\<And>t. untouched t \<Longrightarrow> untouched (f t)) \<Longrightarrow> calm (modS f)"
  by (simp add: calm_def same_auth_mod keeps_mod)

lemmas calm_rules = calm_bind calm_reading calm_basic calm_if

lemma calm_on_lower: "calm (on_lower f)"
  unfolding calm_def by (intro conjI on_lower_auth keepsI) (simp add: on_lower_def untouched_def split: prod.split)

lemma calm_send: "calm (cx_send lw b)" and calm_reply: "calm (cx_reply lw fs)"
  unfolding cx_reply_def cx_send_def by (intro calm_rules calm_on_lower calm_mod; simp add: untouched_def)+

lemma calm_strict: "calm (enforce_strict_kex lw)"
  by (simp add: calm_def same_auth_def enforce_strict_kex_def) (rule keepsI, simp)

lemma calm_ext_info: "calm (parse_ext_info m)"
  unfolding parse_ext_info_def by (intro calm_rules calm_mod) (simp_all add: untouched_def)

lemma calm_unimplemented: "calm (unimplemented lw seqno ptype)"
  unfolding unimplemented_def by (intro calm_rules calm_reply)

lemma calm_channel_message: "calm (handle_channel_message app ptype m)"
  unfolding handle_channel_message_def calm_def
proof (intro conjI same_auth_reading keeps_reading)
  fix cid and m' :: message
  let ?f = "\<lambda>t. case cm_get cid (cx_map t) of
         Some a \<Rightarrow>
           (case channel_handler (if cx_server t then Some (app_request app (cx_calls t) cid) else None) ptype of
              Some h \<Rightarrow> bindS (on_channel a (h m')) (\<lambda>_. retS Go_on) t
            | None \<Rightarrow> (Inl KeyError, t))
       | None \<Rightarrow> (Inr (if cid \<in> set (cx_seen t) then Go_on else Stop), t)"
  show "same_auth ?f"
    by (subst same_auth_def) (simp add: view_bind on_channel_auth same_auth_basic split: option.split)
  show "keeps untouched ?f"
    by (rule keepsI) (simp add: untouched_def cm_get_def)
qed

lemma calm_good: "calm f \<Longrightarrow> safe app lib be rcv t \<Longrightarrow> good app lib be rcv (f t)"
  by (rule goodI, erule view_safe) (auto simp: calm_def same_authD intro: keepsD)

lemma calm_then:
  assumes "calm f" "safe app lib be rcv t" "cx_active t" "\<And>x u. safe app lib be rcv u \<Longrightarrow> cx_active u \<Longrightarrow> good app lib be rcv (g x u)"
  shows "good app lib be rcv (bindS f g t)"
proof (cases "f t")
  case (Pair r u)
  from calm_good [OF assms(1,2)] have g: "good app lib be rcv (r, u)" by (simp add: Pair)
  have "auth_view u = auth_view t" using assms(1) same_authD [of f t] by (simp add: calm_def Pair)
  with assms(3) have "cx_active u" by (simp add: auth_view_def)
  with g assms(4) Pair show ?thesis by (cases r) (auto simp: bindS_def good_def)
qed

lemma then_calm:
  assumes "good app lib be rcv (f t)" "\<And>x. calm (g x)"
  shows "good app lib be rcv (bindS f g t)"
proof (cases "f t")
  case (Pair r u)
  with assms(1) calm_good [OF assms(2), of app lib be rcv u] show ?thesis by (cases r) (auto simp: bindS_def good_def)
qed

lemma newkeys_good:
  assumes "safe app lib be rcv t" "cx_active t"
  shows "good app lib be rcv (cx_newkeys lw t)"
  unfolding cx_newkeys_def
proof (rule calm_then [OF calm_on_lower assms])
  fix x and u :: "'a connection" assume u: "safe app lib be rcv u" "cx_active u"
  let ?u = "u\<lparr>cx_auth := Some (new_auth True (lw_session_id lw (cx_lower u)) (lw_pubkeys lw (cx_lower u)))\<rparr>"
  have "safe app lib be rcv ?u" if "cx_auth u = None"
    using u that by (simp add: safe_def sound_def core_def new_auth_def untouched_def authed_def)
  with u show "good app lib be rcv (modS (\<lambda>t. if cx_server t \<and> cx_auth t = None
       then t\<lparr>cx_auth := Some (new_auth True (lw_session_id lw (cx_lower t)) (lw_pubkeys lw (cx_lower t)))\<rparr> else t) u)"
    by (auto simp: modS_def intro: goodI)
qed

lemma unlink_all_view: "auth_view (unlink_all t) = auth_view t"
proof -
  have "auth_view (fold (\<lambda>a t. snd (on_channel a (modS ch_unlink) t)) as t) = auth_view t" for as
    by (induction as arbitrary: t) (simp_all add: same_authD [OF on_channel_auth])
  then show ?thesis by (simp add: unlink_all_def)
qed

lemma unlink_all_untouched: "untouched t \<Longrightarrow> unlink_all t = t"
  by (simp add: unlink_all_def untouched_def)

lemma close_safe0:
  assumes "safe0 app lib be rcv t" "\<not> cx_active t"
  shows "safe app lib be rcv t"
  using assms by (simp add: safe_def safe0_def)

lemma inactive_safe0: "safe0 app lib be rcv (t\<lparr>cx_active := False\<rparr>) = safe0 app lib be rcv t"
  by (simp add: safe0_def untouched_def authed_def)

lemma unlink_safe0:
  assumes "safe0 app lib be rcv t"
  shows "safe0 app lib be rcv (unlink_all t)"
  using assms unlink_all_view [of t] unlink_all_untouched [of t] by (auto simp: safe0_def auth_view_def authed_def)

lemma cx_close_safe: "safe0 app lib be rcv t \<Longrightarrow> cx_active t \<Longrightarrow> safe app lib be rcv (cx_close t)"
  using unlink_all_view [of "t\<lparr>cx_active := False\<rparr>"]
  by (intro close_safe0) (simp_all add: cx_close_def unlink_safe0 inactive_safe0, simp add: auth_view_def)

lemma finish_safe: "safe0 app lib be rcv t \<Longrightarrow> safe app lib be rcv (finish lw t)"
proof -
  assume "safe0 app lib be rcv t"
  from unlink_safe0 [OF this] have u: "safe0 app lib be rcv (unlink_all t)" .
  show ?thesis
  proof (cases "cx_active (unlink_all t)")
    case True
    with u show ?thesis
      by (auto simp: finish_def Let_def safe_def safe0_def sound_def core_def untouched_def authed_def fire_completion_def abort_def
          fire_event_def split: option.splits)
  next
    case False
    with u close_safe0 show ?thesis by (simp add: finish_def Let_def)
  qed
qed

lemma on_auth_good:
  assumes s: "safe app lib be rcv t" "cx_active t" and a: "cx_auth t = Some a"
    and h: "server_handler (app_auth app) lib be ptype = Some h" "m \<in> set rcv"
  shows "good app lib be rcv (on_auth lw a (h m) t)"
proof -
  let ?a = "a\<lparr>au_active := cx_active t, au_saved := cx_saved t, au_extensions := cx_extensions t, au_sent := []\<rparr>"
  and ?sid = "au_session_id a"
  obtain r a' where r: "h m ?a = (r, a')" by fastforce
  have st: "steady (app_auth app) lib be ?sid rcv ?a \<and> au_active ?a"
    using s a by (simp add: safe_def sound_def steady_def core_def)
  note tr = handler_keeps [OF h, of ?sid]
  have c: "core (app_auth app) lib be ?sid rcv a' \<and> (\<forall>x. r = Inr x \<longrightarrow> au_active a' \<longrightarrow> au_fail_count a' < 10)"
  proof (cases r)
    case (Inl e)
    with triple_Inl [OF tr st] r show ?thesis by simp
  next
    case (Inr x)
    with triple_Inr [OF tr st] r show ?thesis by (simp add: steady_def)
  qed
  then have sid: "au_session_id a' = ?sid" by (simp add: core_def)
  have "au_authed a \<Longrightarrow> au_authed a'" using keepsD [OF authed_kept [OF h(1), of m], of ?a] r by simp
  then have keep: "untouched t \<or> au_authed a'" using s(1) a by (auto simp: safe_def authed_def)
  let ?t = "t\<lparr>cx_auth := Some a', cx_saved := au_saved a', cx_sent := cx_sent t @ au_sent a',
     cx_lower := (if au_triggered a' \<and> \<not> au_triggered ?a then lw_trigger lw (cx_lower t) else cx_lower t)\<rparr>"
  have s0: "safe0 app lib be rcv ?t"
    using s(1) c sid keep by (auto simp: safe_def safe0_def sound_def untouched_def authed_def)
  show ?thesis
  proof (cases "au_active a'")
    case True
    then have "on_auth lw a (h m) t = (r, ?t)" by (simp add: on_auth_def r Let_def)
    moreover have "safe app lib be rcv ?t" if "r = Inr x" for x
      using s0 that c sid True by (auto simp: safe_def safe0_def sound_def)
    ultimately show ?thesis using s0 by (auto simp: good_def split: sum.split)
  next
    case False
    then have "on_auth lw a (h m) t = (r, cx_close ?t)" using s(2) r by (simp add: on_auth_def Let_def)
    moreover have "safe app lib be rcv (cx_close ?t)" using cx_close_safe [OF s0] s(2) by simp
    ultimately show ?thesis by (intro goodI) simp
  qed
qed

lemma handler_good:
  assumes s: "safe app lib be rcv t" "cx_active t" and h: "transport_handler lw app seqno ptype = Some h"
    and e: "ensure_authed ptype m t = Inr None"
  shows "good app lib be rcv (h m t)"
proof (cases "HIGHEST_USERAUTH_MESSAGE_ID < unat ptype")
  case True
  with e s have "authed t" by (auto simp: safe_def ensure_authed_def is_authenticated_def authed_def bindR_def split: if_splits option.splits sum.splits)
  with s guarded_auth [OF h True, of m] show ?thesis by (intro goodI) (auto elim!: view_safe simp: same_authD)
next
  case False
  then have "h = parse_ext_info \<or> h = (\<lambda>m. cx_newkeys lw) \<or> h = (\<lambda>m. on_lower (lw_kexinit lw seqno m))"
    using h by (auto simp: transport_handler_def msg_defs HIGHEST_USERAUTH_MESSAGE_ID_def split: if_splits)
  then show ?thesis
    using calm_good [OF calm_ext_info s(1)] calm_good [OF calm_on_lower s(1)] newkeys_good [OF s] by auto
qed

lemma bindS_lift: "bindS (liftR r) f t = (case r of Inl e \<Rightarrow> (Inl e, t) | Inr x \<Rightarrow> f x t)"
  by (simp add: bindS_def liftR_def split: sum.split)

lemma by_tables_good:
  assumes s: "safe app lib be rcv t" "cx_active t" and m: "m \<in> set rcv"
  shows "good app lib be rcv (by_tables lw app lib be auth_only ptype seqno m t)"
proof (cases "transport_handler lw app seqno ptype")
  case (Some h)
  have "good app lib be rcv (bindS (case e of Some b \<Rightarrow> cx_send lw b | None \<Rightarrow> h m) (\<lambda>_. retS Go_on) t)"
    if "ensure_authed ptype m t = Inr e" for e
    by (intro then_calm calm_basic) (use that handler_good [OF s Some] calm_good [OF calm_send s(1)] in \<open>simp split: option.split\<close>)
  with s(1) Some show ?thesis
    by (cases "ensure_authed ptype m t") (auto simp: by_tables_def bindS_lift intro: goodI)
next
  case None
  note transport = this
  show ?thesis
  proof (cases "channel_handler None ptype = None")
    case False
    with transport calm_good [OF calm_channel_message s(1)] show ?thesis by (auto simp: by_tables_def)
  next
    case True
    note un = calm_good [OF calm_unimplemented s(1)]
    have "good app lib be rcv (bindS (on_auth lw a (h m)) (\<lambda>_. retS Go_on) t)"
      if "cx_auth t = Some a" "auth_handler (app_auth app) lib be auth_only ptype a = Some h" for a h
    proof (intro then_calm calm_basic)
      have "au_server a" using s(1) that(1) by (simp add: safe_def sound_def core_def)
      with that(2) have "server_handler (app_auth app) lib be ptype = Some h" by (simp add: auth_handler_def)
      from on_auth_good [OF s that(1) this m] show "good app lib be rcv (on_auth lw a (h m) t)" .
    qed
    with transport True un show ?thesis by (auto simp: by_tables_def split: option.split)
  qed
qed

lemma dispatch_good:
  assumes s: "safe app lib be rcv t" "cx_active t" and m: "m \<in> set rcv"
  shows "good app lib be rcv (dispatch lw app lib be auth_only ptype seqno m t)"
proof -
  have d: "calm (parse_disconnect m)" "calm (parse_debug m)"
    unfolding parse_disconnect_def parse_debug_def by (intro calm_rules)+
  have p: "calm (bindS (enforce_strict_kex lw) (\<lambda>_. retS Go_on))" "calm (bindS (parse_disconnect m) (\<lambda>_. retS Stop))"
    "calm (bindS (enforce_strict_kex lw) (\<lambda>_. bindS (parse_debug m) (\<lambda>_. retS Go_on)))"
    by (intro calm_rules calm_strict d)+
  have x: "calm (modS (\<lambda>t. t\<lparr>cx_lower := lw_expect_none lw (cx_lower t)\<rparr>))" by (rule calm_mod) (simp_all add: untouched_def)
  have n: "calm (bindS (on_lower (lw_next lw ptype m)) (\<lambda>_. retS Go_on))" by (intro calm_rules calm_on_lower)
  have "good app lib be rcv (bindS (modS (\<lambda>t. t\<lparr>cx_lower := lw_expect_none lw (cx_lower t)\<rparr>)) (\<lambda>_.
            if 30 \<le> ptype \<and> ptype \<le> 41 then bindS (on_lower (lw_next lw ptype m)) (\<lambda>_. retS Go_on)
            else by_tables lw app lib be auth_only ptype seqno m) t)"
    by (rule calm_then [OF x s]) (simp add: calm_good [OF n] by_tables_good m)
  with by_tables_good [OF s m] calm_good [OF p(1) s(1)] calm_good [OF p(2) s(1)] calm_good [OF p(3) s(1)] s(1)
  show ?thesis by (auto simp: dispatch_def intro: goodI)
qed

lemma receive_safe:
  assumes s: "safe app lib be rcv t" "cx_active t"
  shows "safe app lib be (m # rcv) (receive lw app lib be auth_only (ptype, seqno, m) t)"
proof -
  obtain r u where u: "dispatch lw app lib be auth_only ptype seqno m t = (r, u)" by fastforce
  have "m \<in> set (m # rcv)" by simp
  from dispatch_good [OF safe_more [OF s(1)] s(2) this] have g: "good app lib be (m # rcv) (r, u)" by (simp add: u [symmetric])
  have e: "safe0 app lib be rcv' (u\<lparr>cx_saved := e\<rparr>) = safe0 app lib be rcv' u" for rcv' e
    by (simp add: safe0_def untouched_def authed_def)
  show ?thesis using g finish_safe [of app lib be "m # rcv" u lw] finish_safe [of app lib be "m # rcv" "u\<lparr>cx_saved := e\<rparr>" lw for e]
    by (auto simp: receive_def u good_def e split: sum.split pass.split)
qed

section \<open>Everything else keeps it\<close>

lemma on_channel_untouched: "a < length (cx_store t) \<Longrightarrow> \<not> untouched t"
  by (auto simp: untouched_def)

lemma touched_safe:
  assumes "safe app lib be rcv t" "a < length (cx_store t)" "auth_view u = auth_view t"
  shows "safe app lib be rcv u"
  using assms on_channel_untouched [OF assms(2)] by (blast intro: view_safe)

lemma send_user_calm: "calm (send_user_message lw b [(late, id)])"
proof -
  have "auth_view (snd (send_user_message lw b [(late, id)] t)) = auth_view t \<and>
      (untouched t \<longrightarrow> untouched (snd (send_user_message lw b [(late, id)] t)))" for t
    using calm_send [of lw b] keepsD [of untouched "cx_send lw b" t] by (simp add: calm_def same_authD)
  then show ?thesis by (auto simp: calm_def same_auth_def intro: keepsI)
qed

lemma user_step_safe:
  assumes "user_step lw t u" and s: "safe app lib be rcv t"
  shows "safe app lib be rcv u"
  using assms(1)
proof cases
  case (c_opened cid a late r)
  then have "u = t \<or> u = t\<lparr>cx_saved := None\<rparr>" by (auto simp: Let_def raise_saved_def split: if_splits option.splits)
  with s show ?thesis by (auto elim!: view_safe simp: untouched_def)
next
  case (c_send b late r)
  have "u = snd (send_user_message lw b [(late, id)] t)" using c_send by simp
  with s send_user_calm [of lw b late] show ?thesis by (auto elim!: view_safe simp: calm_def same_authD simp del: send_user_message.simps intro: keepsD)
next
  case (c_accept r)
  then have "u = t \<or> (cx_accepts t \<noteq> [] \<and> u = t\<lparr>cx_accepts := tl (cx_accepts t)\<rparr>)"
    by (auto simp: accept_def Let_def split: list.splits)
  with s show ?thesis by (auto elim!: view_safe simp: untouched_def)
next
  case (c_use f a r)
  then have "u = snd (on_channel a f t)" by simp
  with touched_safe [OF s c_use(2), of u] show ?thesis by (simp add: same_authD [OF on_channel_auth])
next
  case (c_drop a)
  with touched_safe [OF s c_drop(2), of u] show ?thesis by (simp add: collect_def Let_def same_authD [OF on_channel_auth])
next
  case c_close
  with s cx_close_safe [OF safe_safe0 [OF s]] show ?thesis by (cases "cx_active t") (simp_all add: cx_close_def)
qed (use s in \<open>auto elim!: view_safe simp: set_forward_agent_handler_def set_x11_handler_def untouched_def safe_def auth_view_def authed_def\<close>)

lemma open_begin_auth: "auth_view (snd (open_begin which dest src window packet t)) = auth_view t"
proof -
  have m: "same_auth (modS (\<lambda>t. (add_channel cid c t)\<lparr>cx_events := cm_put cid a (cx_events t)\<rparr>))" for cid c a
    by (rule same_auth_mod) (simp add: add_channel_def)
  show ?thesis unfolding open_begin_def Let_def
    by (simp, intro impI view_bind same_auth_rules next_channel_auth m)
qed

interpretation serving: step_invariant serve_init "serve_step lw app lib be" "\<lambda>(rcv, t). safe app lib be rcv t"
  for lw :: "'k lower" and app lib be
proof
  show "case x of (rcv, t) \<Rightarrow> safe app lib be rcv t" if "serve_init x" for x :: "message list \<times> 'k connection"
    using that by (auto simp: serve_init_def new_connection_def safe_def sound_def untouched_def)
next
  fix x y :: "message list \<times> 'k connection"
  assume x: "case x of (rcv, t) \<Rightarrow> safe app lib be rcv t" and step: "serve_step lw app lib be x y"
  obtain rcv t where t: "x = (rcv, t)" "safe app lib be rcv t" using x by (cases x) auto
  from step [unfolded t(1)] show "case y of (rcv, t) \<Rightarrow> safe app lib be rcv t"
  proof cases
    case v_receive with receive_safe [OF t(2)] show ?thesis by simp
  next
    case (v_open which dest src window packet r u)
    then have "authed t" by (auto simp: is_authenticated_def authed_def split: option.splits)
    moreover have "auth_view u = auth_view t" using open_begin_auth [of which dest src window packet t] v_open by simp
    ultimately show ?thesis using t(2) v_open by (auto elim: view_safe)
  next
    case v_user with user_step_safe [OF _ t(2)] show ?thesis by simp
  qed
qed

section \<open>Properties\<close>

text \<open>C1. A server opens nothing before the client is authenticated: whatever messages of whatever types arrive and in
  whatever order, whenever there is a channel in the table, one that the application can accept or has been handed,
  or a question about a channel, a forwarding or a global request has been put to the application, then the application
  has granted this client's authentication, for a public key with a signature in one of the messages received.\<close>

theorem nothing_before_authentication:
  assumes "reachable serve_init (serve_step lw app lib be) (rcv, t)"
    and "cx_map t \<noteq> [] \<or> cx_accepts t \<noteq> [] \<or> cx_delivered t \<noteq> [] \<or> cx_calls t \<noteq> []"
  shows "\<exists>a. cx_auth t = Some a \<and> au_authed a \<and>
     (\<exists>i < length (au_calls a).
        judge (app_auth app) (take i (au_calls a)) (au_calls a ! i) = Result AUTH_SUCCESSFUL \<and>
        (\<forall>u k. au_calls a ! i = Check_publickey u k \<longrightarrow> (\<exists>m \<in> set rcv. proved_by lib be (au_session_id a) m u k)))"
proof -
  have inv: "safe app lib be rcv t" using serving.always [OF assms(1)] by simp
  with assms(2) obtain a where a: "cx_auth t = Some a" "au_authed a" by (auto simp: safe_def untouched_def authed_def)
  with inv have "granted (app_auth app) lib be (au_session_id a) rcv (au_calls a)"
    by (simp add: safe_def sound_def core_def)
  then obtain i where "i < length (au_calls a)" "judge (app_auth app) (take i (au_calls a)) (au_calls a ! i) = Result AUTH_SUCCESSFUL"
    "evidence lib be (au_session_id a) rcv (au_calls a ! i)" by (auto simp: granted_def)
  then show ?thesis using a by (intro exI [of _ a] conjI exI [of _ i]) auto
qed

theorem nothing_before_authentication_witness:
  "\<exists>rcv t. reachable serve_init (serve_step bare_lower quiet_app sample_signer sample_backend) (rcv, t) \<and> cx_map t \<noteq> [] \<and>
     (\<exists>a. cx_auth t = Some a \<and> au_authed a)"
proof -
  let ?R = "serve_step bare_lower quiet_app sample_signer sample_backend"
  let ?t0 = "new_connection () True"
  let ?t1 = "?t0\<lparr>cx_auth := Some (new_auth True (Some [1]) [])\<rparr>"
  let ?u = "snd (open_begin (lit ''session'') None None None None served)"
  note step = after_step [where R = ?R]
  have "?R ([], ?t0) ([none_request], ?t1)"
    using v_receive [of ?t0 bare_lower quiet_app sample_signer sample_backend "[]" none_request False MSG_NEWKEYS 0]
    by (simp only: served_start) (simp add: new_connection_def)
  moreover have "?R ([none_request], ?t1) ([none_request, none_request], served)"
    using v_receive [of ?t1 bare_lower quiet_app sample_signer sample_backend "[none_request]" none_request False MSG_USERAUTH_REQUEST 0]
    by (simp only: served_request) (simp add: new_connection_def)
  moreover have "?R ([none_request, none_request], served) ([none_request, none_request], ?u)"
    by (rule v_open [OF _ surjective_pairing])
      (simp add: is_authenticated_def served_def new_connection_def none_granted_def after_verdict_def)
  moreover have "reachable serve_init ?R ([], ?t0)" by (rule initially) (auto simp: serve_init_def)
  ultimately have r: "reachable serve_init ?R ([none_request, none_request], ?u)" by (blast intro: step)
  have m: "cx_map ?u \<noteq> []"
    by (subst session_opened) (simp_all add: served_def new_connection_def add_channel_def cm_put_def)
  from nothing_before_authentication [OF r] m have "\<exists>a. cx_auth ?u = Some a \<and> au_authed a" by blast
  with r m show ?thesis by blast
qed

lemma unlink_all_view2:
  "cx_sent (unlink_all t) = cx_sent t" "cx_saved (unlink_all t) = cx_saved t" "cx_accepts (unlink_all t) = cx_accepts t"
  "cx_calls (unlink_all t) = cx_calls t" "cx_events (unlink_all t) = cx_events t"
proof -
  have one: "cx_sent u = cx_sent t \<and> cx_saved u = cx_saved t \<and> cx_accepts u = cx_accepts t \<and> cx_calls u = cx_calls t \<and> cx_events u = cx_events t"
    if "u = snd (on_channel a (modS ch_unlink) t)" for a and t u :: "'a connection"
    using that by (simp add: on_channel_def modS_def ch_unlink_def set_closed_def)
  have "(let u = fold (\<lambda>a t. snd (on_channel a (modS ch_unlink) t)) as t in
      cx_sent u = cx_sent t \<and> cx_saved u = cx_saved t \<and> cx_accepts u = cx_accepts t \<and> cx_calls u = cx_calls t \<and> cx_events u = cx_events t)" for as
    by (induction as arbitrary: t) (simp_all add: Let_def one [OF refl])
  then show "cx_sent (unlink_all t) = cx_sent t" "cx_saved (unlink_all t) = cx_saved t" "cx_accepts (unlink_all t) = cx_accepts t"
    "cx_calls (unlink_all t) = cx_calls t" "cx_events (unlink_all t) = cx_events t"
    by (simp_all add: unlink_all_def Let_def)
qed

text \<open>C39. A strict key exchange: until the first one is done, the session survives only the messages that it expects.
  A message that is not expected, an ignored one and one for debugging end it, without any answer; the exception is kept
  for the user, and whoever waits for a channel is woken up.\<close>

theorem strict_kex_refuses:
  assumes "cx_active t" "lw_strict lw (cx_lower t)" "\<not> lw_done lw (cx_lower t)" "lw_expected lw (cx_lower t) \<noteq> []"
    and "ptype \<notin> set (lw_expected lw (cx_lower t)) \<or> ptype = MSG_IGNORE \<or> ptype = MSG_DEBUG" "ptype \<noteq> MSG_DISCONNECT"
    and "receive lw app lib be auth_only (ptype, seqno, m) t = u"
  shows "\<not> cx_active u \<and> cx_sent u = cx_sent t \<and> cx_accepts u = cx_accepts t \<and> cx_calls u = cx_calls t \<and>
     (\<exists>text. cx_saved u = Some (SSHException text)) \<and> snd ` set (cx_events t) \<subseteq> set (cx_fired u)"
proof -
  have "\<exists>text. dispatch lw app lib be auth_only ptype seqno m t = (Inl (SSHException text), t)"
    using assms(2-6) by (auto simp: dispatch_def enforce_strict_kex_def bindS_def)
  then obtain msg where "dispatch lw app lib be auth_only ptype seqno m t = (Inl (SSHException msg), t)" ..
  then have u: "u = finish lw (t\<lparr>cx_saved := Some (SSHException msg)\<rparr>)" using assms(7) by (simp add: receive_def)
  have "cx_active (unlink_all (t\<lparr>cx_saved := Some (SSHException msg)\<rparr>))"
    using unlink_all_view [of "t\<lparr>cx_saved := Some (SSHException msg)\<rparr>"] assms(1) by (simp add: auth_view_def)
  then show ?thesis unfolding u by (auto simp: finish_def Let_def fire_completion_def unlink_all_view2)
qed

theorem strict_kex_refuses_witness:
  "\<not> cx_active (receive (bare_lower\<lparr>lw_strict := \<lambda>_. True, lw_done := \<lambda>_. False, lw_expected := \<lambda>_. [MSG_KEXINIT]\<rparr>)
       quiet_app sample_signer sample_backend False (MSG_IGNORE, 0, none_request) (new_connection () False))"
proof -
  let ?lw = "bare_lower\<lparr>lw_strict := \<lambda>_. True, lw_done := \<lambda>_. False, lw_expected := \<lambda>_. [MSG_KEXINIT]\<rparr>"
  have "cx_active (new_connection () False)" "lw_strict ?lw (cx_lower (new_connection () False))"
    "\<not> lw_done ?lw (cx_lower (new_connection () False))" "lw_expected ?lw (cx_lower (new_connection () False)) \<noteq> []"
    "MSG_IGNORE \<notin> set (lw_expected ?lw (cx_lower (new_connection () False))) \<or> MSG_IGNORE = MSG_IGNORE \<or> MSG_IGNORE = MSG_DEBUG"
    "MSG_IGNORE \<noteq> MSG_DISCONNECT"
    by (simp_all add: new_connection_def msg_defs)
  from strict_kex_refuses [OF this refl] show ?thesis by blast
qed

section \<open>A hazard\<close>

text \<open>A server whose application allows a channel of a kind that only handlers serve, and that has no handler, does not
  get as far as queueing it: the name of the address is not bound on this path, or the handler called is \<^verbatim>\<open>None\<close>,
  and the exception ends the session, after the other side has been told that the channel is open.\<close>

lemma allowed_without_handler:
  assumes "carries lw" "list_all ok_field [FInt i, FInt j, FInt (cx_window u), FInt (cx_packet u)]" "app_open app (cx_calls u) q = OPEN_SUCCEEDED"
  shows "which = lit ''x11'' \<Longrightarrow> fst (ask_open lw app which i j w p q None u) = Inl UnboundLocalError"
    "which = lit ''forwarded-tcpip'' \<Longrightarrow> fst (ask_open lw app which i j w p q None u) = Inl UnboundLocalError"
    "which = lit ''auth-agent@openssh.com'' \<Longrightarrow> cx_agent u = None \<Longrightarrow> fst (ask_open lw app which i j w p q None u) = Inl TypeError"
proof -
  let ?fs = "[FByte MSG_CHANNEL_OPEN_SUCCESS, FInt i, FInt j, FInt (cx_window u), FInt (cx_packet u)]"
  let ?v = "add_channel j (set_remote_channel i w p (set_window (cx_window u) (cx_packet u) (new_channel j))) (u\<lparr>cx_calls := cx_calls u @ [q]\<rparr>)"
  have "list_all ok_field ?fs" using assms(2) by simp
  from cx_reply_carries [OF assms(1) this, of ?v] obtain k where
    "cx_reply lw ?fs ?v = (Inr (), ?v\<lparr>cx_lower := k, cx_sent := cx_sent ?v @ [concat (map enc_field ?fs)]\<rparr>)" by blast
  then have e: "ask_open lw app which i j w p q None u =
      deliver_channel which (length (cx_store u)) None None (?v\<lparr>cx_lower := k, cx_sent := cx_sent ?v @ [concat (map enc_field ?fs)]\<rparr>)"
    using assms(3) by (simp add: ask_open_def accept_open_def Let_def bindS_def ask_app_def modS_def)
  show "which = lit ''x11'' \<Longrightarrow> fst (ask_open lw app which i j w p q None u) = Inl UnboundLocalError"
    "which = lit ''forwarded-tcpip'' \<Longrightarrow> fst (ask_open lw app which i j w p q None u) = Inl UnboundLocalError"
    "which = lit ''auth-agent@openssh.com'' \<Longrightarrow> cx_agent u = None \<Longrightarrow> fst (ask_open lw app which i j w p q None u) = Inl TypeError"
    unfolding e by (simp_all add: deliver_channel_def call_handler_def raiseS_def add_channel_def)
qed

end
