(* ===== verification/Sftp_Server.thy ===== *)
theory Sftp_Server
  imports Sftp_Attr Ssh_Fields Sm_Hoare
begin

text \<open>
  \<^verbatim>\<open>paramiko/sftp_server.py\<close>: the server's side of SFTP. What an application supplies is the record \<open>sftp_si\<close>, the
  methods of \<^verbatim>\<open>SFTPServerInterface\<close> and of the handles it opens, over a state \<open>'f\<close> of its own and handles \<open>'h\<close>. The
  server keeps the tables of open files and folders and collects the packets it sends; framing them is \<open>Sftp\<close>. The log
  is left out. The numbers of the flags of \<^verbatim>\<open>os.open\<close> are those of Linux.
\<close>

declare lit_simps [simp del]

section \<open>Numbers and texts of the protocol\<close>

definition CMD_OPEN :: int where "CMD_OPEN = 3"
definition CMD_CLOSE :: int where "CMD_CLOSE = 4"
definition CMD_READ :: int where "CMD_READ = 5"
definition CMD_WRITE :: int where "CMD_WRITE = 6"
definition CMD_LSTAT :: int where "CMD_LSTAT = 7"
definition CMD_FSTAT :: int where "CMD_FSTAT = 8"
definition CMD_SETSTAT :: int where "CMD_SETSTAT = 9"
definition CMD_FSETSTAT :: int where "CMD_FSETSTAT = 10"
definition CMD_OPENDIR :: int where "CMD_OPENDIR = 11"
definition CMD_READDIR :: int where "CMD_READDIR = 12"
definition CMD_REMOVE :: int where "CMD_REMOVE = 13"
definition CMD_MKDIR :: int where "CMD_MKDIR = 14"
definition CMD_RMDIR :: int where "CMD_RMDIR = 15"
definition CMD_REALPATH :: int where "CMD_REALPATH = 16"
definition CMD_STAT :: int where "CMD_STAT = 17"
definition CMD_RENAME :: int where "CMD_RENAME = 18"
definition CMD_READLINK :: int where "CMD_READLINK = 19"
definition CMD_SYMLINK :: int where "CMD_SYMLINK = 20"
definition CMD_STATUS :: int where "CMD_STATUS = 101"
definition CMD_HANDLE :: int where "CMD_HANDLE = 102"
definition CMD_DATA :: int where "CMD_DATA = 103"
definition CMD_NAME :: int where "CMD_NAME = 104"
definition CMD_ATTRS :: int where "CMD_ATTRS = 105"
definition CMD_EXTENDED :: int where "CMD_EXTENDED = 200"
definition CMD_EXTENDED_REPLY :: int where "CMD_EXTENDED_REPLY = 201"

lemmas cmd_defs = CMD_INIT_def CMD_VERSION_def CMD_OPEN_def CMD_CLOSE_def CMD_READ_def CMD_WRITE_def CMD_LSTAT_def
  CMD_FSTAT_def CMD_SETSTAT_def CMD_FSETSTAT_def CMD_OPENDIR_def CMD_READDIR_def CMD_REMOVE_def CMD_MKDIR_def
  CMD_RMDIR_def CMD_REALPATH_def CMD_STAT_def CMD_RENAME_def CMD_READLINK_def CMD_SYMLINK_def CMD_STATUS_def
  CMD_HANDLE_def CMD_DATA_def CMD_NAME_def CMD_ATTRS_def CMD_EXTENDED_def CMD_EXTENDED_REPLY_def

text \<open>The commands with a name, which are all that are known.\<close>

definition CMD_NAMES :: "int set" where
  "CMD_NAMES = set [1..20] \<union> set [101..105] \<union> set [200..201]"

definition SFTP_OK :: int where "SFTP_OK = 0"
definition SFTP_EOF :: int where "SFTP_EOF = 1"
definition SFTP_NO_SUCH_FILE :: int where "SFTP_NO_SUCH_FILE = 2"
definition SFTP_PERMISSION_DENIED :: int where "SFTP_PERMISSION_DENIED = 3"
definition SFTP_FAILURE :: int where "SFTP_FAILURE = 4"
definition SFTP_BAD_MESSAGE :: int where "SFTP_BAD_MESSAGE = 5"
definition SFTP_OP_UNSUPPORTED :: int where "SFTP_OP_UNSUPPORTED = 8"

lemmas sftp_code_defs = SFTP_OK_def SFTP_EOF_def SFTP_NO_SUCH_FILE_def SFTP_PERMISSION_DENIED_def SFTP_FAILURE_def
  SFTP_BAD_MESSAGE_def SFTP_OP_UNSUPPORTED_def

definition SFTP_DESC :: "string list" where
  "SFTP_DESC = [''Success'', ''End of file'', ''No such file'', ''Permission denied'', ''Failure'', ''Bad message'',
     ''No connection'', ''Connection lost'', ''Operation unsupported'']"

definition SFTP_FLAG_READ :: int where "SFTP_FLAG_READ = 1"
definition SFTP_FLAG_WRITE :: int where "SFTP_FLAG_WRITE = 2"
definition SFTP_FLAG_APPEND :: int where "SFTP_FLAG_APPEND = 4"
definition SFTP_FLAG_CREATE :: int where "SFTP_FLAG_CREATE = 8"
definition SFTP_FLAG_TRUNC :: int where "SFTP_FLAG_TRUNC = 16"
definition SFTP_FLAG_EXCL :: int where "SFTP_FLAG_EXCL = 32"

definition O_RDONLY :: int where "O_RDONLY = 0"
definition O_WRONLY :: int where "O_WRONLY = 1"
definition O_RDWR :: int where "O_RDWR = 2"
definition O_CREAT :: int where "O_CREAT = 64"
definition O_EXCL :: int where "O_EXCL = 128"
definition O_TRUNC :: int where "O_TRUNC = 512"
definition O_APPEND :: int where "O_APPEND = 1024"

definition convert_pflags :: "int \<Rightarrow> int" where
  "convert_pflags pflags =
     (let flags = (if has_flag pflags SFTP_FLAG_READ \<and> has_flag pflags SFTP_FLAG_WRITE then O_RDWR
                   else if has_flag pflags SFTP_FLAG_WRITE then O_WRONLY else O_RDONLY);
          flags = flag_if (has_flag pflags SFTP_FLAG_APPEND) O_APPEND flags;
          flags = flag_if (has_flag pflags SFTP_FLAG_CREATE) O_CREAT flags;
          flags = flag_if (has_flag pflags SFTP_FLAG_TRUNC) O_TRUNC flags
      in flag_if (has_flag pflags SFTP_FLAG_EXCL) O_EXCL flags)"

definition EACCES :: int where "EACCES = 13"
definition ENOENT :: int where "ENOENT = 2"
definition ENOTDIR :: int where "ENOTDIR = 20"

definition convert_errno :: "int \<Rightarrow> int" where
  "convert_errno e =
     (if e = EACCES then SFTP_PERMISSION_DENIED
      else if e = ENOENT \<or> e = ENOTDIR then SFTP_NO_SUCH_FILE
      else SFTP_FAILURE)"

section \<open>The application and the server\<close>

text \<open>What a method of the application gives: the value, or an error code.\<close>

datatype 'a app_value = Given 'a | Code int

record ('f, 'h) sftp_si =
  si_open :: "ustr \<Rightarrow> int \<Rightarrow> sftp_attributes \<Rightarrow> ('f, 'h app_value) sm"
  si_list_folder :: "ustr \<Rightarrow> ('f, sftp_attributes list app_value) sm"
  si_stat :: "ustr \<Rightarrow> ('f, sftp_attributes app_value) sm"
  si_lstat :: "ustr \<Rightarrow> ('f, sftp_attributes app_value) sm"
  si_remove :: "ustr \<Rightarrow> ('f, int) sm"
  si_rename :: "ustr \<Rightarrow> ustr \<Rightarrow> ('f, int) sm"
  si_posix_rename :: "ustr \<Rightarrow> ustr \<Rightarrow> ('f, int) sm"
  si_mkdir :: "ustr \<Rightarrow> sftp_attributes \<Rightarrow> ('f, int) sm"
  si_rmdir :: "ustr \<Rightarrow> ('f, int) sm"
  si_chattr :: "ustr \<Rightarrow> sftp_attributes \<Rightarrow> ('f, int) sm"
  si_symlink :: "ustr \<Rightarrow> ustr \<Rightarrow> ('f, int) sm"
  si_readlink :: "ustr \<Rightarrow> ('f, ustr app_value) sm"
  si_canonicalize :: "ustr \<Rightarrow> ('f, ustr) sm"
  h_read :: "'h \<Rightarrow> int \<Rightarrow> int \<Rightarrow> ('f, bytes app_value) sm"
  h_write :: "'h \<Rightarrow> int \<Rightarrow> bytes \<Rightarrow> ('f, int) sm"
  h_stat :: "'h \<Rightarrow> ('f, sftp_attributes app_value) sm"
  h_chattr :: "'h \<Rightarrow> sftp_attributes \<Rightarrow> ('f, int) sm"
  h_close :: "'h \<Rightarrow> ('f, unit) sm"

text \<open>The outside of the server: the calendar and the clock of the long listing, and the hash functions.\<close>

record sftp_env =
  env_strftime :: "string \<Rightarrow> rat \<Rightarrow> ustr"
  env_now :: rat
  env_sha1 :: "bytes \<Rightarrow> bytes"
  env_md5 :: "bytes \<Rightarrow> bytes"

text \<open>Of the object of a folder only the rest of its listing is used.\<close>

record ('f, 'h) sftp_server =
  sv_fs :: 'f
  next_handle :: nat
  file_table :: "(bytes \<times> 'h) list"
  folder_table :: "(bytes \<times> sftp_attributes list) list"
  sv_sent :: "(int \<times> bytes) list"

definition new_server :: "'f \<Rightarrow> ('f, 'h) sftp_server" where
  "new_server fs = \<lparr>sv_fs = fs, next_handle = 1, file_table = [], folder_table = [], sv_sent = []\<rparr>"

definition app :: "('f, 'a) sm \<Rightarrow> (('f, 'h) sftp_server, 'a) sm" where
  "app f = (\<lambda>s. case f (sv_fs s) of (r, fs) \<Rightarrow> (r, s\<lparr>sv_fs := fs\<rparr>))"

definition dict_del :: "'k \<Rightarrow> ('k \<times> 'v) list \<Rightarrow> ('k \<times> 'v) list" where
  "dict_del k d = filter (\<lambda>p. fst p \<noteq> k) d"

section \<open>Answers\<close>

text \<open>The arguments of a request or an answer, told apart by their type.\<close>

datatype sftp_item = IInt int | IInt64 int | IBytes bytes | IText ustr | IAttr sftp_attributes

fun add_sftp_items :: "sftp_item list \<Rightarrow> (message, unit) sm" where
  "add_sftp_items [] = retS ()"
| "add_sftp_items (IInt64 n # xs) = bindS (add_int64 n) (\<lambda>_. add_sftp_items xs)"
| "add_sftp_items (IInt n # xs) = bindS (add_int n) (\<lambda>_. add_sftp_items xs)"
| "add_sftp_items (IBytes b # xs) = bindS (add_string b) (\<lambda>_. add_sftp_items xs)"
| "add_sftp_items (IText s # xs) = bindS (add_text s) (\<lambda>_. add_sftp_items xs)"
| "add_sftp_items (IAttr a # xs) = bindS (attr_pack a) (\<lambda>_. add_sftp_items xs)"

text \<open>A message that is built and sent in one packet; \<open>framed\<close> is what \<^verbatim>\<open>_send_packet\<close> checks before it writes.\<close>

definition framed :: "int \<Rightarrow> message \<Rightarrow> (int \<times> bytes) res" where
  "framed t m =
     bindR (pack_be 4 (int (length (asbytes m)) + 1)) (\<lambda>_. bindR (pack_be 1 t) (\<lambda>_. Inr (t, asbytes m)))"

definition sftp_packet :: "int \<Rightarrow> (message, unit) sm \<Rightarrow> (int \<times> bytes) res" where
  "sftp_packet t build = (case build (new_message None) of (Inl e, _) \<Rightarrow> Inl e | (Inr _, m) \<Rightarrow> framed t m)"

definition sv_send :: "int \<Rightarrow> (message, unit) sm \<Rightarrow> (('f, 'h) sftp_server, unit) sm" where
  "sv_send t build = bindS (liftR (sftp_packet t build)) (\<lambda>p. modS (\<lambda>s. s\<lparr>sv_sent := sv_sent s @ [p]\<rparr>))"

definition response :: "int \<Rightarrow> int \<Rightarrow> sftp_item list \<Rightarrow> (('f, 'h) sftp_server, unit) sm" where
  "response request_number t items = sv_send t (bindS (add_int request_number) (\<lambda>_. add_sftp_items items))"

definition send_status :: "int \<Rightarrow> int \<Rightarrow> ustr option \<Rightarrow> (('f, 'h) sftp_server, unit) sm" where
  "send_status request_number code desc =
     (let d = (case desc of
                 Some d \<Rightarrow> d
               | None \<Rightarrow> (case py_get SFTP_DESC code of Inr d \<Rightarrow> lit d | Inl _ \<Rightarrow> lit ''Unknown''))
      in response request_number CMD_STATUS [IInt code, IText d, IText []])"

definition handle_name :: "nat \<Rightarrow> bytes" where
  "handle_name n = [104, 120] @ map of_nat (dec_str (int n))"

definition send_handle_response :: "int \<Rightarrow> 'h app_value \<Rightarrow> (('f, 'h) sftp_server, unit) sm" where
  "send_handle_response request_number handle =
     (case handle of
        Code c \<Rightarrow> send_status request_number c None
      | Given h \<Rightarrow> (\<lambda>s.
          let name = handle_name (next_handle s)
          in bindS (modS (\<lambda>s. s\<lparr>next_handle := next_handle s + 1, file_table := dict_put name h (file_table s)\<rparr>))
               (\<lambda>_. response request_number CMD_HANDLE [IBytes name]) s))"

definition open_folder :: "('f, 'h) sftp_si \<Rightarrow> int \<Rightarrow> ustr \<Rightarrow> (('f, 'h) sftp_server, unit) sm" where
  "open_folder si request_number path =
     bindS (app (si_list_folder si path)) (\<lambda>resp.
       case resp of
         Code c \<Rightarrow> send_status request_number c None
       | Given files \<Rightarrow> (\<lambda>s.
           let name = handle_name (next_handle s)
           in bindS (modS (\<lambda>s. s\<lparr>next_handle := next_handle s + 1, folder_table := dict_put name files (folder_table s)\<rparr>))
                (\<lambda>_. response request_number CMD_HANDLE [IBytes name]) s))"

fun add_names :: "sftp_env \<Rightarrow> sftp_attributes list \<Rightarrow> (message, unit) sm" where
  "add_names env [] = retS ()"
| "add_names env (a # fs) =
     (case at_filename a of
        None \<Rightarrow> raiseS AttributeError
      | Some f \<Rightarrow>
          bindS (add_text f) (\<lambda>_.
          bindS (liftR (attr_asbytes (env_strftime env) (env_now env) a)) (\<lambda>l.
          bindS (add_string l) (\<lambda>_. bindS (attr_pack a) (\<lambda>_. add_names env fs)))))"

definition read_folder :: "sftp_env \<Rightarrow> int \<Rightarrow> bytes \<Rightarrow> sftp_attributes list \<Rightarrow> (('f, 'h) sftp_server, unit) sm" where
  "read_folder env request_number handle files =
     bindS (modS (\<lambda>s. s\<lparr>folder_table := dict_put handle (drop 16 files) (folder_table s)\<rparr>)) (\<lambda>_.
       if take 16 files = [] then send_status request_number SFTP_EOF None
       else sv_send CMD_NAME
              (bindS (add_int request_number) (\<lambda>_.
               bindS (add_int (int (length (take 16 files)))) (\<lambda>_. add_names env (take 16 files)))))"

section \<open>The check-file extension\<close>

text \<open>The loops of \<^verbatim>\<open>_check_file\<close>, which need not end: \<open>None\<close>. \<open>hash_block\<close> gives the data of a block and the new
  offset, which the source moves by all that was read of the block so far, each time a part is read.\<close>

partial_function (option) hash_block ::
  "(int \<Rightarrow> int \<Rightarrow> ('f, bytes app_value) sm) \<Rightarrow> int \<Rightarrow> int \<Rightarrow> int \<Rightarrow> int \<Rightarrow> bytes \<Rightarrow> 'f \<Rightarrow> ((bytes \<times> int) app_value res \<times> 'f) option" where
  "hash_block read blocklen chunklen offset count hashed fs =
     (if count < blocklen then
        (case read offset chunklen fs of
           (Inl e, fs') \<Rightarrow> Some (Inl e, fs')
         | (Inr (Code c), fs') \<Rightarrow> Some (Inr (Code c), fs')
         | (Inr (Given data), fs') \<Rightarrow>
             hash_block read blocklen chunklen (offset + (count + int (length data))) (count + int (length data)) (hashed @ data) fs')
      else Some (Inr (Given (hashed, offset)), fs))"

partial_function (option) hash_blocks ::
  "(bytes \<Rightarrow> bytes) \<Rightarrow> (int \<Rightarrow> int \<Rightarrow> ('f, bytes app_value) sm) \<Rightarrow> int \<Rightarrow> int \<Rightarrow> int \<Rightarrow> bytes \<Rightarrow> 'f \<Rightarrow> (bytes app_value res \<times> 'f) option" where
  "hash_blocks alg read stop block_size offset sum_out fs =
     (if offset < stop then
        (case hash_block read (min block_size (stop - offset)) (min (min block_size (stop - offset)) 65536) offset 0 [] fs of
           None \<Rightarrow> None
         | Some (Inl e, fs') \<Rightarrow> Some (Inl e, fs')
         | Some (Inr (Code c), fs') \<Rightarrow> Some (Inr (Code c), fs')
         | Some (Inr (Given (hashed, offset')), fs') \<Rightarrow> hash_blocks alg read stop block_size offset' (sum_out @ alg hashed) fs')
      else Some (Inr (Given sum_out), fs))"

text \<open>A loop that does not end leaves the request waiting.\<close>

definition or_blocked :: "('s \<Rightarrow> ('a res \<times> 's) option) \<Rightarrow> ('s, 'a) sm" where
  "or_blocked f = (\<lambda>s. case f s of None \<Rightarrow> (Inl Blocked, s) | Some p \<Rightarrow> p)"

definition sftp_hash_class :: "sftp_env \<Rightarrow> ustr \<Rightarrow> (bytes \<Rightarrow> bytes) option" where
  "sftp_hash_class env x =
     (if x = lit ''sha1'' then Some (env_sha1 env) else if x = lit ''md5'' then Some (env_md5 env) else None)"

definition check_blocks :: "sftp_env \<Rightarrow> ('f, 'h) sftp_si \<Rightarrow> int \<Rightarrow> 'h \<Rightarrow> ustr \<Rightarrow> (bytes \<Rightarrow> bytes) \<Rightarrow> int \<Rightarrow> int \<Rightarrow> int \<Rightarrow>
    (('f, 'h) sftp_server, unit) sm" where
  "check_blocks env si request_number f algname alg start len block_size =
     (let block_size = (if block_size = 0 then len else block_size)
      in if block_size < 256 then send_status request_number SFTP_FAILURE (Some (lit ''Block size too small''))
         else
           bindS (app (or_blocked (hash_blocks alg (h_read si f) (start + len) block_size start []))) (\<lambda>r.
             case r of
               Code c \<Rightarrow> send_status request_number c (Some (lit ''Unable to hash file''))
             | Given sum_out \<Rightarrow>
                 sv_send CMD_EXTENDED_REPLY
                   (bindS (add_int request_number) (\<lambda>_. bindS (add_text (lit ''check-file'')) (\<lambda>_.
                    bindS (add_text algname) (\<lambda>_. add_bytes sum_out))))))"

definition with_file :: "int \<Rightarrow> bytes \<Rightarrow> ('h \<Rightarrow> (('f, 'h) sftp_server, unit) sm) \<Rightarrow> (('f, 'h) sftp_server, unit) sm" where
  "with_file request_number handle k = (\<lambda>s.
     case map_of (file_table s) handle of
       None \<Rightarrow> send_status request_number SFTP_BAD_MESSAGE (Some (lit ''Invalid handle'')) s
     | Some f \<Rightarrow> k f s)"

definition check_file :: "sftp_env \<Rightarrow> ('f, 'h) sftp_si \<Rightarrow> int \<Rightarrow> message \<Rightarrow> (('f, 'h) sftp_server, unit) sm" where
  "check_file env si request_number msg =
     reading get_binary msg (\<lambda>handle msg. reading get_list msg (\<lambda>alg_list msg. reading get_int64 msg (\<lambda>start msg.
     reading get_int64 msg (\<lambda>len msg. reading get_int msg (\<lambda>block_size msg.
       with_file request_number handle (\<lambda>f.
         case find (\<lambda>x. sftp_hash_class env x \<noteq> None) alg_list of
           None \<Rightarrow> send_status request_number SFTP_FAILURE (Some (lit ''No supported hash types found''))
         | Some algname \<Rightarrow>
             if len = 0 then
               bindS (app (h_stat si f)) (\<lambda>st.
                 case st of
                   Code c \<Rightarrow> send_status request_number c (Some (lit ''Unable to stat file''))
                 | Given a \<Rightarrow>
                     (case st_size a of
                        None \<Rightarrow> raiseS TypeError
                      | Some n \<Rightarrow> check_blocks env si request_number f algname (the (sftp_hash_class env algname)) start (n - start) block_size))
             else check_blocks env si request_number f algname (the (sftp_hash_class env algname)) start len block_size))))))"

section \<open>Requests\<close>

definition send_attrs :: "int \<Rightarrow> sftp_attributes app_value \<Rightarrow> (('f, 'h) sftp_server, unit) sm" where
  "send_attrs request_number resp =
     (case resp of
        Given a \<Rightarrow> response request_number CMD_ATTRS [IAttr a]
      | Code c \<Rightarrow> send_status request_number c None)"

definition app_status :: "int \<Rightarrow> ('f, int) sm \<Rightarrow> (('f, 'h) sftp_server, unit) sm" where
  "app_status request_number f = bindS (app f) (\<lambda>c. send_status request_number c None)"

definition process_close :: "('f, 'h) sftp_si \<Rightarrow> int \<Rightarrow> bytes \<Rightarrow> (('f, 'h) sftp_server, unit) sm" where
  "process_close si request_number handle = (\<lambda>s.
     if handle \<in> fst ` set (folder_table s) then
       bindS (modS (\<lambda>s. s\<lparr>folder_table := dict_del handle (folder_table s)\<rparr>)) (\<lambda>_. send_status request_number SFTP_OK None) s
     else
       with_file request_number handle (\<lambda>f.
         bindS (app (h_close si f)) (\<lambda>_.
         bindS (modS (\<lambda>s. s\<lparr>file_table := dict_del handle (file_table s)\<rparr>)) (\<lambda>_.
           send_status request_number SFTP_OK None))) s)"

definition process_read :: "('f, 'h) sftp_si \<Rightarrow> int \<Rightarrow> bytes \<Rightarrow> int \<Rightarrow> int \<Rightarrow> (('f, 'h) sftp_server, unit) sm" where
  "process_read si request_number handle offset len =
     with_file request_number handle (\<lambda>f.
       bindS (app (h_read si f offset len)) (\<lambda>data.
         case data of
           Given d \<Rightarrow> if d = [] then send_status request_number SFTP_EOF None
                      else response request_number CMD_DATA [IBytes d]
         | Code c \<Rightarrow> send_status request_number c None))"

definition process_readdir :: "sftp_env \<Rightarrow> int \<Rightarrow> bytes \<Rightarrow> (('f, 'h) sftp_server, unit) sm" where
  "process_readdir env request_number handle = (\<lambda>s.
     case map_of (folder_table s) handle of
       None \<Rightarrow> send_status request_number SFTP_BAD_MESSAGE (Some (lit ''Invalid handle'')) s
     | Some files \<Rightarrow> read_folder env request_number handle files s)"

text \<open>An unknown handle of an fsetstat is answered with the error code in the place of the packet's type.\<close>

definition process_fsetstat :: "('f, 'h) sftp_si \<Rightarrow> int \<Rightarrow> bytes \<Rightarrow> sftp_attributes \<Rightarrow> (('f, 'h) sftp_server, unit) sm" where
  "process_fsetstat si request_number handle a = (\<lambda>s.
     case map_of (file_table s) handle of
       None \<Rightarrow> response request_number SFTP_BAD_MESSAGE [IText (lit ''Invalid handle'')] s
     | Some f \<Rightarrow> app_status request_number (h_chattr si f a) s)"

definition send_name :: "int \<Rightarrow> ustr \<Rightarrow> (('f, 'h) sftp_server, unit) sm" where
  "send_name request_number path = response request_number CMD_NAME [IInt 1, IText path, IText [], IAttr new_attributes]"

definition process_extended :: "sftp_env \<Rightarrow> ('f, 'h) sftp_si \<Rightarrow> int \<Rightarrow> message \<Rightarrow> (('f, 'h) sftp_server, unit) sm" where
  "process_extended env si request_number msg =
     reading get_text msg (\<lambda>tag msg.
       if tag = lit ''check-file'' then check_file env si request_number msg
       else if tag = lit ''posix-rename@openssh.com'' then
         reading get_text msg (\<lambda>oldpath msg. reading get_text msg (\<lambda>newpath msg.
           app_status request_number (si_posix_rename si oldpath newpath)))
       else send_status request_number SFTP_OP_UNSUPPORTED None)"

definition process :: "sftp_env \<Rightarrow> ('f, 'h) sftp_si \<Rightarrow> int \<Rightarrow> int \<Rightarrow> message \<Rightarrow> (('f, 'h) sftp_server, unit) sm" where
  "process env si t request_number msg =
     (if t \<notin> CMD_NAMES then raiseS KeyError
      else if t = CMD_OPEN then
        reading get_text msg (\<lambda>path msg. reading get_int msg (\<lambda>pflags msg. reading (from_msg None None) msg (\<lambda>a msg.
          bindS (app (si_open si path (convert_pflags pflags) a)) (send_handle_response request_number))))
      else if t = CMD_CLOSE then reading get_binary msg (\<lambda>handle msg. process_close si request_number handle)
      else if t = CMD_READ then
        reading get_binary msg (\<lambda>handle msg. reading get_int64 msg (\<lambda>offset msg. reading get_int msg (\<lambda>len msg.
          process_read si request_number handle offset len)))
      else if t = CMD_WRITE then
        reading get_binary msg (\<lambda>handle msg. reading get_int64 msg (\<lambda>offset msg. reading get_binary msg (\<lambda>data msg.
          with_file request_number handle (\<lambda>f. app_status request_number (h_write si f offset data)))))
      else if t = CMD_REMOVE then reading get_text msg (\<lambda>path msg. app_status request_number (si_remove si path))
      else if t = CMD_RENAME then
        reading get_text msg (\<lambda>oldpath msg. reading get_text msg (\<lambda>newpath msg.
          app_status request_number (si_rename si oldpath newpath)))
      else if t = CMD_MKDIR then
        reading get_text msg (\<lambda>path msg. reading (from_msg None None) msg (\<lambda>a msg.
          app_status request_number (si_mkdir si path a)))
      else if t = CMD_RMDIR then reading get_text msg (\<lambda>path msg. app_status request_number (si_rmdir si path))
      else if t = CMD_OPENDIR then reading get_text msg (\<lambda>path msg. open_folder si request_number path)
      else if t = CMD_READDIR then reading get_binary msg (\<lambda>handle msg. process_readdir env request_number handle)
      else if t = CMD_STAT then
        reading get_text msg (\<lambda>path msg. bindS (app (si_stat si path)) (send_attrs request_number))
      else if t = CMD_LSTAT then
        reading get_text msg (\<lambda>path msg. bindS (app (si_lstat si path)) (send_attrs request_number))
      else if t = CMD_FSTAT then
        reading get_binary msg (\<lambda>handle msg.
          with_file request_number handle (\<lambda>f. bindS (app (h_stat si f)) (send_attrs request_number)))
      else if t = CMD_SETSTAT then
        reading get_text msg (\<lambda>path msg. reading (from_msg None None) msg (\<lambda>a msg.
          app_status request_number (si_chattr si path a)))
      else if t = CMD_FSETSTAT then
        reading get_binary msg (\<lambda>handle msg. reading (from_msg None None) msg (\<lambda>a msg.
          process_fsetstat si request_number handle a))
      else if t = CMD_READLINK then
        reading get_text msg (\<lambda>path msg. bindS (app (si_readlink si path)) (\<lambda>resp.
          case resp of Given link \<Rightarrow> send_name request_number link | Code c \<Rightarrow> send_status request_number c None))
      else if t = CMD_SYMLINK then
        reading get_text msg (\<lambda>target_path msg. reading get_text msg (\<lambda>path msg.
          app_status request_number (si_symlink si target_path path)))
      else if t = CMD_REALPATH then
        reading get_text msg (\<lambda>path msg. bindS (app (si_canonicalize si path)) (send_name request_number))
      else if t = CMD_EXTENDED then process_extended env si request_number msg
      else send_status request_number SFTP_OP_UNSUPPORTED None)"

text \<open>The body of the loop of \<^verbatim>\<open>start_subsystem\<close>: whatever goes wrong is answered as a failure. \<open>Blocked\<close> is no
  exception, so it is not caught.\<close>

definition serve_packet :: "sftp_env \<Rightarrow> ('f, 'h) sftp_si \<Rightarrow> int \<Rightarrow> bytes \<Rightarrow> (('f, 'h) sftp_server, unit) sm" where
  "serve_packet env si t data =
     reading get_int (new_message (Some data)) (\<lambda>request_number msg s.
       case process env si t request_number msg s of
         (Inr _, s') \<Rightarrow> (Inr (), s')
       | (Inl Blocked, s') \<Rightarrow> (Inl Blocked, s')
       | (Inl _, s') \<Rightarrow> (Inr (), snd (send_status request_number SFTP_FAILURE None s')))"

text \<open>The loop over what reading packets gives: any exception there ends the session.\<close>

fun serve_packets :: "sftp_env \<Rightarrow> ('f, 'h) sftp_si \<Rightarrow> (pyexc + int \<times> bytes) list \<Rightarrow> (('f, 'h) sftp_server, unit) sm" where
  "serve_packets env si [] = raiseS Blocked"
| "serve_packets env si (Inl e # es) = retS ()"
| "serve_packets env si (Inr (t, data) # es) = bindS (serve_packet env si t data) (\<lambda>_. serve_packets env si es)"

fun close_all :: "('f, 'h) sftp_si \<Rightarrow> 'h list \<Rightarrow> ('f, unit) sm" where
  "close_all si [] = retS ()"
| "close_all si (h # hs) = bindS (h_close si h) (\<lambda>_. close_all si hs)"

text \<open>The folders' handles have nothing to close.\<close>

definition finish_subsystem :: "('f, 'h) sftp_si \<Rightarrow> (('f, 'h) sftp_server, unit) sm" where
  "finish_subsystem si = (\<lambda>s.
     bindS (app (close_all si (map snd (file_table s)))) (\<lambda>_.
       modS (\<lambda>s. s\<lparr>file_table := [], folder_table := []\<rparr>)) s)"

section \<open>One answer for each request\<close>

text \<open>Building a message only appends to it.\<close>

definition begins :: "bytes \<Rightarrow> message \<Rightarrow> bool" where
  "begins B m \<longleftrightarrow> at_end m \<and> (\<exists>b. mbuf m = B @ b)"

lemma keeps_write: "keeps (begins B) (modS (stream_write b))"
  by (rule keeps_mod) (auto simp: begins_def stream_write_end append_bytes_def at_end_def)

lemma keeps_fields [keeps_rules]:
  "keeps (begins B) (add_bytes b)" "keeps (begins B) (add_int n)" "keeps (begins B) (add_int64 n)"
  "keeps (begins B) (add_string b)" "keeps (begins B) (add_text s)"
  unfolding add_bytes_def add_int_def add_int64_def add_text_def add_string_def
  by (intro keeps_rules keeps_write)+

lemma keeps_pairs [keeps_rules]: "keeps (begins B) (pack_pairs d)"
  by (induction d rule: pack_pairs.induct) (simp_all add: keeps_rules)

lemma keeps_attr_pack [keeps_rules]: "keeps (begins B) (attr_pack a)"
  by (simp add: attr_pack_def Let_def whenS_def keeps_rules)

lemma keeps_items [keeps_rules]: "keeps (begins B) (add_sftp_items xs)"
  by (induction xs rule: add_sftp_items.induct) (simp_all add: keeps_rules)

lemma keeps_names [keeps_rules]: "keeps (begins B) (add_names env fs)"
  by (induction env fs rule: add_names.induct) (auto intro!: keeps_rules split: option.split)

text \<open>\<open>replies n S f\<close>: started with the packets \<open>S\<close> sent, \<open>f\<close> sends one more, the answer to request \<open>n\<close>; where it
  raises it has sent none.\<close>

definition answer_to :: "int \<Rightarrow> (int \<times> bytes) \<Rightarrow> bool" where
  "answer_to n p \<longleftrightarrow> (\<exists>b. snd p = be_bytes 4 n @ b)"

definition replies :: "int \<Rightarrow> (int \<times> bytes) list \<Rightarrow> (('f, 'h) sftp_server, unit) sm \<Rightarrow> bool" where
  "replies n S f \<longleftrightarrow>
     triple (\<lambda>s. sv_sent s = S) f (\<lambda>_ s. \<exists>p. sv_sent s = S @ [p] \<and> answer_to n p) (\<lambda>s. sv_sent s = S)"

named_theorems replies_rules \<open>computations of the server that send one app_value\<close>

lemma sftp_packet_answer:
  assumes "sftp_packet t (bindS (add_int n) (\<lambda>_. build)) = Inr p" "\<And>B. keeps (begins B) build"
  shows "answer_to n p"
proof -
  obtain m where m: "bindS (add_int n) (\<lambda>_. build) (new_message None) = (Inr (), m)" "framed t m = Inr p"
    using assms(1) unfolding sftp_packet_def by (auto split: prod.splits sum.splits)
  then obtain m1 where m1: "add_int n (new_message None) = (Inr (), m1)" "build m1 = (Inr (), m)"
    by (auto simp: bindS_Inr_iff)
  then have "begins (be_bytes 4 n) m1"
    by (auto simp: add_int_def bindS_def liftR_def modS_def stream_write_end append_bytes_def begins_def at_end_def
        new_message_def split: sum.splits dest!: pack_be_InrD)
  from keepsD [OF assms(2) this] m1(2) have "begins (be_bytes 4 n) m" by simp
  with m(2) show ?thesis
    by (auto simp: framed_def bindR_eq_Inr begins_def answer_to_def asbytes_def)
qed

lemma replies_send [replies_rules]:
  assumes "\<And>B. keeps (begins B) build"
  shows "replies n S (sv_send t (bindS (add_int n) (\<lambda>_. build)))"
  unfolding replies_def sv_send_def
  by (rule triple_bind [where R = "\<lambda>p s. sv_sent s = S \<and> answer_to n p"], rule triple_lift)
     (auto intro: triple_mod dest: sftp_packet_answer [OF _ assms])

lemma replies_response [replies_rules]: "replies n S (response n t items)"
  unfolding response_def by (intro replies_rules keeps_rules)

lemma replies_status [replies_rules]: "replies n S (send_status n code desc)"
  unfolding send_status_def Let_def by (rule replies_rules)

lemma replies_raise [replies_rules]: "replies n S (raiseS e)"
  by (simp add: replies_def triple_raise)

lemma replies_bind: "triple (\<lambda>s. sv_sent s = S) f (\<lambda>_ s. sv_sent s = S) (\<lambda>s. sv_sent s = S) \<Longrightarrow>
    (\<And>x. replies n S (g x)) \<Longrightarrow> replies n S (bindS f g)"
  unfolding replies_def by (rule triple_bind)

lemma replies_app [replies_rules]: "(\<And>x. replies n S (g x)) \<Longrightarrow> replies n S (bindS (app f) g)"
  by (rule replies_bind) (auto simp: triple_def app_def split: prod.split sum.split)

lemma replies_mod [replies_rules]: "(\<And>s. sv_sent (u s) = sv_sent s) \<Longrightarrow> replies n S g \<Longrightarrow> replies n S (bindS (modS u) (\<lambda>_. g))"
  by (rule replies_bind) (auto intro: triple_mod)

lemma replies_reading [replies_rules]: "(\<And>x m'. replies n S (f x m')) \<Longrightarrow> replies n S (reading p m f)"
  unfolding replies_def by (rule triple_reading)

lemma replies_if [replies_rules]: "replies n S f \<Longrightarrow> replies n S g \<Longrightarrow> replies n S (if b then f else g)"
  by simp

text \<open>Computations that look at the state first.\<close>

lemma replies_option [replies_rules]:
  "replies n S A \<Longrightarrow> (\<And>x. replies n S (B x)) \<Longrightarrow> replies n S (\<lambda>s. case g s of None \<Rightarrow> A s | Some x \<Rightarrow> B x s)"
  unfolding replies_def triple_def by (simp split: option.split)

lemma replies_cond [replies_rules]: "replies n S A \<Longrightarrow> replies n S B \<Longrightarrow> replies n S (\<lambda>s. if c s then A s else B s)"
  unfolding replies_def triple_def by simp

lemma replies_let [replies_rules]: "(\<And>x. replies n S (F x)) \<Longrightarrow> replies n S (\<lambda>s. let x = g s in F x s)"
  unfolding replies_def triple_def Let_def by simp

lemma replies_file [replies_rules]: "(\<And>f. replies n S (k f)) \<Longrightarrow> replies n S (with_file n h k)"
  unfolding with_file_def by (intro replies_rules)

lemma replies_answer [replies_rules]:
  "(\<And>x. replies n S (f x)) \<Longrightarrow> (\<And>c. replies n S (g c)) \<Longrightarrow> replies n S (case r of Given x \<Rightarrow> f x | Code c \<Rightarrow> g c)"
  by (cases r) auto

lemma replies_some [replies_rules]:
  "replies n S A \<Longrightarrow> (\<And>x. replies n S (B x)) \<Longrightarrow> replies n S (case v of None \<Rightarrow> A | Some x \<Rightarrow> B x)"
  by (cases v) auto

lemma replies_check_blocks [replies_rules]: "replies n S (check_blocks env si n f algname alg start len bs)"
  unfolding check_blocks_def Let_def by (intro replies_rules keeps_rules)

lemma replies_check_file [replies_rules]: "replies n S (check_file env si n m)"
  unfolding check_file_def by (intro replies_rules)

lemma replies_handlers [replies_rules]:
  "replies n S (send_handle_response n h)" "replies n S (open_folder si n path)" "replies n S (read_folder env n hdl files)"
  "replies n S (send_attrs n a)" "replies n S (app_status n f)" "replies n S (process_close si n hdl)"
  "replies n S (process_read si n hdl off len)" "replies n S (process_readdir env n hdl)" "replies n S (process_fsetstat si n hdl av)"
  "replies n S (send_name n path)" "replies n S (process_extended env si n m)"
  unfolding send_handle_response_def open_folder_def read_folder_def send_attrs_def app_status_def process_close_def
    process_read_def process_readdir_def process_fsetstat_def send_name_def process_extended_def
  by (intro replies_rules keeps_rules; simp)+

lemma replies_process: "replies n S (process env si t n m)"
  unfolding process_def by (intro replies_rules)

text \<open>The fields that items are made of, and what sending them comes to.\<close>

fun item_fields :: "sftp_item \<Rightarrow> field list" where
  "item_fields (IInt n) = [FInt n]"
| "item_fields (IInt64 n) = [FInt64 n]"
| "item_fields (IBytes b) = [FString b]"
| "item_fields (IText s) = [FText s]"
| "item_fields (IAttr a) = attr_fields a"

lemma add_items_fields: "add_sftp_items xs = put_fields (concat (map item_fields xs))"
  by (induction xs rule: add_sftp_items.induct) (simp_all add: put_fields_append attr_pack_fields)

definition wire :: "field list \<Rightarrow> bytes" where
  "wire fs = concat (map enc_field fs)"

definition sendable :: "field list \<Rightarrow> bool" where
  "sendable fs \<longleftrightarrow> list_all ok_field fs \<and> length (wire fs) + 1 < 2 ^ 32"

lemma sftp_packet_fields:
  assumes "sendable fs" "0 \<le> t" "t < 256"
  shows "sftp_packet t (put_fields fs) = Inr (t, wire fs)"
proof -
  have "put_fields fs (new_message None) = (Inr (), append_bytes (new_message None) (wire fs))"
    using assms(1) by (simp add: put_fields_end sendable_def wire_def)
  then show ?thesis
    using assms by (simp add: sftp_packet_def framed_def asbytes_def append_bytes_def new_message_def sendable_def pack_be_def)
qed

lemma items_packet:
  assumes "sendable (FInt n # concat (map item_fields xs))" "0 \<le> t" "t < 256"
  shows "sftp_packet t (bindS (add_int n) (\<lambda>_. add_sftp_items xs)) = Inr (t, wire (FInt n # concat (map item_fields xs)))"
  using sftp_packet_fields [OF assms] by (simp add: add_items_fields)

lemma liftR_Inr: "liftR (Inr p) = retS p"
  by (simp add: liftR_def retS_def)

lemma response_sends:
  assumes "sendable (FInt n # concat (map item_fields xs))" "0 \<le> t" "t < 256"
  shows "response n t xs s = (Inr (), s\<lparr>sv_sent := sv_sent s @ [(t, wire (FInt n # concat (map item_fields xs)))]\<rparr>)"
  by (simp add: response_def sv_send_def items_packet [OF assms] liftR_Inr modS_def)

definition status_fields :: "int \<Rightarrow> int \<Rightarrow> ustr \<Rightarrow> field list" where
  "status_fields n code d = [FInt n, FInt code, FText d, FText []]"

definition status_text :: "int \<Rightarrow> ustr" where
  "status_text code = (case py_get SFTP_DESC code of Inr d \<Rightarrow> lit d | Inl _ \<Rightarrow> lit ''Unknown'')"

lemma desc_cases: "py_get SFTP_DESC c = Inr d \<Longrightarrow> d \<in> set SFTP_DESC"
  unfolding py_get_def by (auto split: if_splits)

lemma short_text: "list_all (\<lambda>c. c < 128) s \<Longrightarrow> length s < 100 \<Longrightarrow>
    ok_field (FText s) \<and> length (enc_field (FText s)) < 104"
proof -
  assume a: "list_all (\<lambda>c. c < 128) s" "length s < 100"
  from a(1) have "list_all scalar s" "concat (map utf8_char s) = map of_nat s"
    by (induction s) (auto simp: utf8_char_def scalar_def)
  then have "utf8_encode s = Inr (map of_nat s)" by (simp add: utf8_encode_def)
  with a(2) show ?thesis by (simp add: ok_string_def enc_field_def w_text.enc'_def)
qed

lemma desc_short: "d \<in> insert ''Unknown'' (set SFTP_DESC) \<Longrightarrow> list_all (\<lambda>c. c < 128) (lit d) \<and> length (lit d) < 100"
  unfolding SFTP_DESC_def by (auto simp: lit_simps)

lemma status_text_short: "ok_field (FText (status_text c)) \<and> length (enc_field (FText (status_text c))) < 104"
  unfolding status_text_def by (rule short_text; cases "py_get SFTP_DESC c") (auto dest: desc_cases desc_short [OF insertI2] intro: desc_short [THEN conjunct1] desc_short [THEN conjunct2])

lemma send_status_sends:
  assumes "0 \<le> n" "n < 2 ^ 32" "0 \<le> c" "c < 2 ^ 32"
  shows "send_status n c None s = (Inr (), s\<lparr>sv_sent := sv_sent s @ [(CMD_STATUS, wire (status_fields n c (status_text c)))]\<rparr>)"
proof -
  have "sendable (status_fields n c (status_text c))"
    using assms status_text_short [of c] short_text [of "[]"] by (simp add: sendable_def status_fields_def wire_def)
  then show ?thesis
    using response_sends [of n "[IInt c, IText (status_text c), IText []]" CMD_STATUS s]
    by (simp add: send_status_def status_text_def [symmetric] status_fields_def CMD_STATUS_def)
qed

text \<open>The number of a request: its first four bytes, filled up with zeros.\<close>

definition request_number :: "bytes \<Rightarrow> int" where
  "request_number data = be_int (take 4 data @ replicate (4 - length data) 0)"

lemma get_number: "\<exists>m. get_int (new_message (Some data)) = (Inr (request_number data), m)"
proof -
  have "\<exists>m. get_bytes 4 (new_message (Some data)) = (Inr (take 4 data @ replicate (4 - length data) 0), m)"
    by (auto simp: get_bytes_result get_remainder_def new_message_def Let_def min_def)
  then show ?thesis by (auto simp: get_int_def bindS_def liftR_def unpack_be_def request_number_def)
qed

lemma request_number_range: "0 \<le> request_number data \<and> request_number data < 2 ^ 32"
  using be_int_less [of "take 4 data @ replicate (4 - length data) 0"] by (simp add: request_number_def min_def split: if_splits)

lemma serve_packet_answers:
  assumes "serve_packet env si t data s = (Inr (), s')"
  shows "\<exists>p. sv_sent s' = sv_sent s @ [p] \<and> answer_to (request_number data) p"
proof -
  let ?n = "request_number data"
  obtain m where m: "get_int (new_message (Some data)) = (Inr ?n, m)" using get_number by blast
  obtain r s1 where r: "process env si t ?n m s = (r, s1)" by fastforce
  show ?thesis
  proof (cases r)
    case (Inr u)
    with assms m r triple_Inr [OF replies_process [of ?n "sv_sent s" env si t m, unfolded replies_def], of s u s1] show ?thesis
      by (auto simp: serve_packet_def reading_def)
  next
    case (Inl e)
    have s1: "sv_sent s1 = sv_sent s"
      using r Inl by (auto intro: triple_Inl [OF replies_process [unfolded replies_def]])
    have "s' = snd (send_status ?n SFTP_FAILURE None s1)"
      using assms m r Inl by (cases e) (auto simp: serve_packet_def reading_def)
    with s1 send_status_sends [of ?n SFTP_FAILURE s1] request_number_range [of data] show ?thesis
      by (auto simp: SFTP_FAILURE_def answer_to_def wire_def status_fields_def)
  qed
qed

section \<open>The tables\<close>

text \<open>Names of handles differ.\<close>

definition digits_val :: "bytes \<Rightarrow> nat" where
  "digits_val bs = foldl (\<lambda>a b. a * 10 + (unat b - 48)) 0 bs"

lemma digits_val_dec: "digits_val (map of_nat (dec_digits n)) = n"
proof (induction n rule: dec_digits.induct)
  case (1 n)
  have d: "unat (48 + word_of_nat k :: byte) = 48 + k" if "k < 10" for k
    using that unat_of_nat [where 'a = 8, of "48 + k"] by simp
  show ?case
  proof (cases "n < 10")
    case True
    then show ?thesis using d [of n] by (simp add: dec_digits.simps [of n] digits_val_def)
  next
    case False
    then show ?thesis using 1 d [of "n mod 10"] by (simp add: dec_digits.simps [of n] digits_val_def)
  qed
qed

lemma handle_name_inj: "handle_name i = handle_name j \<longleftrightarrow> i = j"
proof
  assume "handle_name i = handle_name j"
  then have "digits_val (map of_nat (dec_digits i)) = digits_val (map of_nat (dec_digits j))"
    by (simp add: handle_name_def dec_str_def)
  then show "i = j" by (simp add: digits_val_dec)
qed simp

text \<open>Every open handle was given out once, and no handle is both a file and a folder.\<close>

definition tables_ok :: "('f, 'h) sftp_server \<Rightarrow> bool" where
  "tables_ok s \<longleftrightarrow>
     distinct (map fst (file_table s) @ map fst (folder_table s)) \<and>
     set (map fst (file_table s) @ map fst (folder_table s)) \<subseteq> handle_name ` {1..<next_handle s} \<and> 1 \<le> next_handle s"

text \<open>\<open>s'\<close> may have closed handles of \<open>s\<close> and opened others, but a name that \<open>s\<close> has given out means what it meant.\<close>

definition same_handles :: "('f, 'h) sftp_server \<Rightarrow> ('f, 'h) sftp_server \<Rightarrow> bool" where
  "same_handles s s' \<longleftrightarrow> tables_ok s' \<and> next_handle s \<le> next_handle s' \<and>
     (\<forall>i < next_handle s.
        (\<forall>f. map_of (file_table s') (handle_name i) = Some f \<longrightarrow> map_of (file_table s) (handle_name i) = Some f) \<and>
        (handle_name i \<in> fst ` set (folder_table s') \<longrightarrow> handle_name i \<in> fst ` set (folder_table s)))"

lemma same_handles_refl: "tables_ok s \<Longrightarrow> same_handles s s"
  by (simp add: same_handles_def)

lemma same_handles_other [simp]:
  "same_handles s (s'\<lparr>sv_sent := x\<rparr>) = same_handles s s'" "same_handles s (s'\<lparr>sv_fs := f\<rparr>) = same_handles s s'"
  by (simp_all add: same_handles_def tables_ok_def)

lemma dict_del_keys: "map fst (dict_del k d) = filter (\<lambda>x. x \<noteq> k) (map fst d)"
  by (simp add: dict_del_def filter_map comp_def)

lemma dict_del_dom: "fst ` set (dict_del k d) = fst ` set d - {k}"
  by (auto simp: dict_del_def)

lemma map_of_dict_del: "map_of (dict_del k d) x = (if x = k then None else map_of d x)"
  by (induction d) (auto simp: dict_del_def)

lemma same_handles_del:
  assumes "same_handles s s'"
  shows "same_handles s (s'\<lparr>file_table := dict_del h (file_table s')\<rparr>)"
    and "same_handles s (s'\<lparr>folder_table := dict_del h (folder_table s')\<rparr>)"
proof -
  have t: "tables_ok s'" using assms by (simp add: same_handles_def)
  with assms show "same_handles s (s'\<lparr>folder_table := dict_del h (folder_table s')\<rparr>)"
    by (auto simp: same_handles_def tables_ok_def dict_del_keys dict_del_dom)
  from assms t show "same_handles s (s'\<lparr>file_table := dict_del h (file_table s')\<rparr>)"
    by (auto simp: same_handles_def tables_ok_def dict_del_keys dict_del_dom map_of_dict_del)
qed

lemma fresh_name: "tables_ok s \<Longrightarrow> handle_name (next_handle s) \<notin> fst ` set (file_table s) \<union> fst ` set (folder_table s)"
  by (auto simp: tables_ok_def handle_name_inj)

lemma same_handles_new:
  assumes "same_handles s s'"
  shows "same_handles s (s'\<lparr>next_handle := next_handle s' + 1, file_table := dict_put (handle_name (next_handle s')) f (file_table s')\<rparr>)"
    and "same_handles s (s'\<lparr>next_handle := next_handle s' + 1, folder_table := dict_put (handle_name (next_handle s')) l (folder_table s')\<rparr>)"
  using assms fresh_name [of s']
  by (auto simp: same_handles_def tables_ok_def dict_put_new handle_name_inj less_Suc_eq map_of_append map_add_def
      split: option.splits dest: order_less_le_trans) 

lemma same_handles_put:
  "same_handles s s' \<Longrightarrow> h \<in> fst ` set (folder_table s') \<Longrightarrow> same_handles s (s'\<lparr>folder_table := dict_put h l (folder_table s')\<rparr>)"
proof -
  assume a: "same_handles s s'" "h \<in> fst ` set (folder_table s')"
  have "map fst (dict_put h l d) = map fst d" if "h \<in> fst ` set d" for d :: "(bytes \<times> sftp_attributes list) list"
    using that by (induction d) (auto, force)
  with a have "map fst (dict_put h l (folder_table s')) = map fst (folder_table s')" by blast
  moreover from this have "fst ` set (dict_put h l (folder_table s')) = fst ` set (folder_table s')"
    by (metis set_map)
  ultimately show ?thesis using a(1) by (simp add: same_handles_def tables_ok_def)
qed

text \<open>No handler changes what a handle means.\<close>

definition steady_handles :: "(('f, 'h) sftp_server, 'a) sm \<Rightarrow> bool" where
  "steady_handles f \<longleftrightarrow> (\<forall>s0. keeps (same_handles s0) f)"

named_theorems steady_rules \<open>handlers that leave the handles alone\<close>

lemma steady_bind [steady_rules]: "steady_handles f \<Longrightarrow> (\<And>x. steady_handles (g x)) \<Longrightarrow> steady_handles (bindS f g)"
  by (simp add: steady_handles_def keeps_bind)

lemma steady_basic [steady_rules]: "steady_handles (retS x)" "steady_handles (raiseS e)" "steady_handles (liftR r)"
  by (simp_all add: steady_handles_def keeps_ret keeps_raise keeps_lift)

lemma steady_reading [steady_rules]: "(\<And>x m'. steady_handles (f x m')) \<Longrightarrow> steady_handles (reading p m f)"
  by (simp add: steady_handles_def keeps_reading)

lemma steady_if [steady_rules]: "steady_handles f \<Longrightarrow> steady_handles g \<Longrightarrow> steady_handles (if b then f else g)"
  by simp

lemma steady_state: "(\<And>s. steady_handles (f s)) \<Longrightarrow> steady_handles (\<lambda>s. f s s)"
  by (simp add: steady_handles_def keeps_state)

lemma steady_option [steady_rules]:
  "steady_handles A \<Longrightarrow> (\<And>x. steady_handles (B x)) \<Longrightarrow> steady_handles (\<lambda>s. case g s of None \<Rightarrow> A s | Some x \<Rightarrow> B x s)"
  by (rule steady_state [where f = "\<lambda>s. case g s of None \<Rightarrow> A | Some x \<Rightarrow> B x", THEN iffD1 [OF arg_cong [where f = steady_handles], rotated]])
     (auto split: option.split)

lemma steady_cond [steady_rules]: "steady_handles A \<Longrightarrow> steady_handles B \<Longrightarrow> steady_handles (\<lambda>s. if c s then A s else B s)"
  unfolding steady_handles_def keeps_def triple_def by simp

lemma steady_answer [steady_rules]:
  "(\<And>x. steady_handles (f x)) \<Longrightarrow> (\<And>c. steady_handles (g c)) \<Longrightarrow> steady_handles (case r of Given x \<Rightarrow> f x | Code c \<Rightarrow> g c)"
  by (cases r) auto

lemma steady_some [steady_rules]:
  "steady_handles A \<Longrightarrow> (\<And>x. steady_handles (B x)) \<Longrightarrow> steady_handles (case v of None \<Rightarrow> A | Some x \<Rightarrow> B x)"
  by (cases v) auto

lemma steady_app [steady_rules]: "steady_handles (app f)"
  unfolding steady_handles_def app_def by (auto intro!: keepsI split: prod.split)

lemma steady_send [steady_rules]: "steady_handles (sv_send t build)" "steady_handles (response n t items)" "steady_handles (send_status n c d)"
  unfolding response_def send_status_def sv_send_def Let_def
  by (intro steady_rules; simp add: steady_handles_def keeps_mod)+

lemma steady_del [steady_rules]:
  "steady_handles (modS (\<lambda>s. s\<lparr>file_table := dict_del h (file_table s)\<rparr>))" "steady_handles (modS (\<lambda>s. s\<lparr>folder_table := dict_del h (folder_table s)\<rparr>))"
  by (auto simp: steady_handles_def intro!: keeps_mod same_handles_del)

lemma steady_new [steady_rules]:
  "steady_handles (\<lambda>s. let name = handle_name (next_handle s)
      in bindS (modS (\<lambda>s. s\<lparr>next_handle := next_handle s + 1, file_table := dict_put name f (file_table s)\<rparr>)) (\<lambda>_. response n t (items name)) s)"
  "steady_handles (\<lambda>s. let name = handle_name (next_handle s)
      in bindS (modS (\<lambda>s. s\<lparr>next_handle := next_handle s + 1, folder_table := dict_put name l (folder_table s)\<rparr>)) (\<lambda>_. response n t (items name)) s)"
  by (auto simp: steady_handles_def Let_def bindS_def modS_def
      intro!: keepsI keepsD [OF steady_send(2) [unfolded steady_handles_def, rule_format]] same_handles_new [simplified])

lemma steady_file [steady_rules]: "(\<And>f. steady_handles (k f)) \<Longrightarrow> steady_handles (with_file n h k)"
  unfolding with_file_def by (intro steady_rules)

lemma bindS_modS: "bindS (modS u) g s = g () (u s)"
  by (simp add: bindS_def modS_def)

lemma steady_readdir [steady_rules]: "steady_handles (process_readdir env n h)"
  unfolding steady_handles_def
proof (intro allI keepsI)
  fix s0 s assume s: "same_handles s0 s"
  show "same_handles s0 (snd (process_readdir env n h s))"
  proof (cases "map_of (folder_table s) h")
    case None
    with s show ?thesis by (simp add: process_readdir_def keepsD [OF steady_send(3) [unfolded steady_handles_def, rule_format]])
  next
    case (Some files)
    then have "h \<in> fst ` set (folder_table s)" by (metis map_of_SomeD fst_conv image_eqI)
    from same_handles_put [OF s this] Some show ?thesis
      by (auto simp: process_readdir_def read_folder_def bindS_modS
          intro!: keepsD [OF steady_send(3) [unfolded steady_handles_def, rule_format]] keepsD [OF steady_send(1) [unfolded steady_handles_def, rule_format]])
  qed
qed

lemma steady_handlers [steady_rules]:
  "steady_handles (check_blocks env si n f algname alg start len bs)" "steady_handles (check_file env si n m)"
  "steady_handles (send_handle_response n h)" "steady_handles (open_folder si n path)" "steady_handles (send_attrs n a)" "steady_handles (app_status n g)"
  "steady_handles (process_close si n hdl)" "steady_handles (process_read si n hdl off len)" "steady_handles (process_fsetstat si n hdl av)"
  "steady_handles (send_name n path)" "steady_handles (process_extended env si n m)"
  unfolding check_blocks_def check_file_def Let_def [of "if _ then _ else _"] send_handle_response_def open_folder_def send_attrs_def
    app_status_def process_close_def process_read_def process_fsetstat_def send_name_def process_extended_def
  by (intro steady_rules)+

lemma steady_process [steady_rules]: "steady_handles (process env si t n m)"
  unfolding process_def by (intro steady_rules)

lemma steady_catch:
  fixes f :: "(('f, 'h) sftp_server, 'a) sm" and g :: "(('f, 'h) sftp_server, unit) sm"
  shows "steady_handles f \<Longrightarrow> steady_handles g \<Longrightarrow>
    steady_handles (\<lambda>s. case f s of (Inr x, s') \<Rightarrow> (Inr (), s') | (Inl Blocked, s') \<Rightarrow> (Inl Blocked, s') | (Inl e, s') \<Rightarrow> (Inr (), snd (g s')))"
  unfolding steady_handles_def
proof (intro allI keepsI)
  fix s0 s :: "('f, 'h) sftp_server"
  assume a: "\<forall>s0. keeps (same_handles s0) f" "\<forall>s0. keeps (same_handles s0) g" "same_handles s0 s"
  then have "same_handles s0 (snd (f s))" "same_handles s0 (snd (g (snd (f s))))" by (auto dest: keepsD)
  then show "same_handles s0 (snd (case f s of (Inr x, s') \<Rightarrow> (Inr (), s') | (Inl Blocked, s') \<Rightarrow> (Inl Blocked, s') | (Inl e, s') \<Rightarrow> (Inr (), snd (g s'))))"
    by (auto split: prod.split sum.split pyexc.split)
qed

lemma steady_serve_packet [steady_rules]: "steady_handles (serve_packet env si t data)"
  unfolding serve_packet_def by (intro steady_reading steady_catch steady_rules)

lemma steady_serve [steady_rules]: "steady_handles (serve_packets env si es)"
  by (induction env si es rule: serve_packets.induct) (auto intro!: steady_rules)

lemma tables_new: "tables_ok (new_server fs)"
  by (simp add: tables_ok_def new_server_def)

section \<open>Properties\<close>

text \<open>C14. A handle never changes its meaning: whatever packets a server has served before and whatever it serves
  afterwards, a name it has given out stands for the same file or for nothing, open names are distinct, and every new
  name is fresh.\<close>

theorem handles_keep_meaning:
  "let s = snd (serve_packets env si es (new_server fs))
   in tables_ok s \<and> same_handles s (snd (serve_packets env si es' s))"
proof -
  let ?s = "snd (serve_packets env si es (new_server fs))"
  have "same_handles (new_server fs) ?s"
    by (rule keepsD [OF steady_serve [unfolded steady_handles_def, rule_format] same_handles_refl [OF tables_new]])
  then have "tables_ok ?s" by (simp add: same_handles_def)
  moreover from this have "same_handles ?s (snd (serve_packets env si es' ?s))"
    by (rule keepsD [OF steady_serve [unfolded steady_handles_def, rule_format] same_handles_refl])
  ultimately show ?thesis by (simp add: Let_def)
qed

end
