(* ===== verification/Sftp_Handle.thy ===== *)
theory Sftp_Handle
  imports Sftp_Server
begin

text \<open>
  What an application of the SFTP server gets from the classes it derives from: \<^verbatim>\<open>paramiko/sftp_handle.py\<close> (reading and
  writing a Python file at an offset, with the position of the file remembered) and \<^verbatim>\<open>paramiko/sftp_si.py\<close> (everything
  unsupported, except for paths). A Python file is its contents and its position; \<open>pf_faults\<close> says how its next calls
  fail, with an errno or not at all. The objects of open files are a list, which the handles point into.
\<close>

section \<open>A Python file\<close>

record pyfile =
  pf_data :: bytes
  pf_pos :: nat
  pf_append :: bool
  pf_closed :: bool
  pf_faults :: "int option list"

definition file_call :: "(pyfile \<Rightarrow> 'a \<times> pyfile) \<Rightarrow> (pyfile, 'a) sm" where
  "file_call f = (\<lambda>p.
     if pf_closed p then (Inl (ValueError ''I/O operation on closed file''), p)
     else case pf_faults p of
       Some e # fs \<Rightarrow> (Inl (OSErr (Some e) []), p\<lparr>pf_faults := fs\<rparr>)
     | None # fs \<Rightarrow> (case f (p\<lparr>pf_faults := fs\<rparr>) of (x, p') \<Rightarrow> (Inr x, p'))
     | [] \<Rightarrow> (case f p of (x, p') \<Rightarrow> (Inr x, p')))"

definition file_tell :: "(pyfile, int) sm" where
  "file_tell = file_call (\<lambda>p. (int (pf_pos p), p))"

definition file_seek :: "int \<Rightarrow> (pyfile, unit) sm" where
  "file_seek offset = file_call (\<lambda>p. ((), p\<lparr>pf_pos := nat offset\<rparr>))"

definition slice_at :: "nat \<Rightarrow> nat \<Rightarrow> bytes \<Rightarrow> bytes" where
  "slice_at offset n data = take n (drop offset data)"

definition write_at :: "nat \<Rightarrow> bytes \<Rightarrow> bytes \<Rightarrow> bytes" where
  "write_at offset b data = take offset data @ replicate (offset - length data) 0 @ b @ drop (offset + length b) data"

definition file_read :: "int \<Rightarrow> (pyfile, bytes) sm" where
  "file_read n = file_call (\<lambda>p.
     let b = slice_at (pf_pos p) (nat n) (pf_data p) in (b, p\<lparr>pf_pos := pf_pos p + length b\<rparr>))"

text \<open>A file opened for appending writes at its end, wherever it stands. A write of nothing changes nothing.\<close>

definition file_write :: "bytes \<Rightarrow> (pyfile, unit) sm" where
  "file_write b = file_call (\<lambda>p.
     let start = (if pf_append p then length (pf_data p) else pf_pos p)
     in if b = [] then ((), p) else ((), p\<lparr>pf_data := write_at start b (pf_data p), pf_pos := start + length b\<rparr>))"

definition file_flush :: "(pyfile, unit) sm" where
  "file_flush = file_call (\<lambda>p. ((), p))"

definition file_close :: "(pyfile, unit) sm" where
  "file_close = modS (\<lambda>p. p\<lparr>pf_closed := True\<rparr>)"

section \<open>The default handle\<close>

record sftp_handle =
  hd_flags :: int
  hd_tell :: "int option"
  hd_file :: pyfile
  hd_readfile :: bool
  hd_writefile :: bool

definition new_handle :: "int \<Rightarrow> pyfile \<Rightarrow> sftp_handle" where
  "new_handle flags p = \<lparr>hd_flags = flags, hd_tell = None, hd_file = p, hd_readfile = True, hd_writefile = True\<rparr>"

definition on_file :: "(pyfile, 'a) sm \<Rightarrow> (sftp_handle, 'a) sm" where
  "on_file f = (\<lambda>h. case f (hd_file h) of (r, p) \<Rightarrow> (r, h\<lparr>hd_file := p\<rparr>))"

text \<open>The common start of reading and writing.\<close>

definition seek_to :: "int \<Rightarrow> (sftp_handle, unit) sm" where
  "seek_to offset =
     bindS (\<lambda>h. if hd_tell h = None then bindS (on_file file_tell) (\<lambda>p. modS (\<lambda>h. h\<lparr>hd_tell := Some p\<rparr>)) h else (Inr (), h)) (\<lambda>_ h.
       if hd_tell h \<noteq> Some offset
       then bindS (on_file (file_seek offset)) (\<lambda>_. modS (\<lambda>h. h\<lparr>hd_tell := Some offset\<rparr>)) h
       else (Inr (), h))"

text \<open>\<^verbatim>\<open>except IOError as e\<close>\<close>

definition errno_code :: "int option \<Rightarrow> int" where
  "errno_code e = (case e of Some n \<Rightarrow> convert_errno n | None \<Rightarrow> SFTP_FAILURE)"

definition handle_read :: "int \<Rightarrow> int \<Rightarrow> (sftp_handle, bytes app_value) sm" where
  "handle_read offset len = (\<lambda>h.
     if \<not> hd_readfile h then (Inr (Code SFTP_OP_UNSUPPORTED), h)
     else
       case bindS (seek_to offset) (\<lambda>_. on_file (file_read len)) h of
         (Inl (OSErr e _), h') \<Rightarrow> (Inr (Code (errno_code e)), h'\<lparr>hd_tell := None\<rparr>)
       | (Inl e, h') \<Rightarrow> (Inl e, h')
       | (Inr data, h') \<Rightarrow> (Inr (Given data), h'\<lparr>hd_tell := map_option (\<lambda>p. p + int (length data)) (hd_tell h')\<rparr>))"

definition handle_write :: "int \<Rightarrow> bytes \<Rightarrow> (sftp_handle, int) sm" where
  "handle_write offset data = (\<lambda>h.
     if \<not> hd_writefile h then (Inr SFTP_OP_UNSUPPORTED, h)
     else
       case bindS (whenS (\<not> has_flag (hd_flags h) O_APPEND) (seek_to offset)) (\<lambda>_.
            bindS (on_file (file_write data)) (\<lambda>_. on_file file_flush)) h of
         (Inl (OSErr e _), h') \<Rightarrow> (Inr (errno_code e), h'\<lparr>hd_tell := None\<rparr>)
       | (Inl e, h') \<Rightarrow> (Inl e, h')
       | (Inr _, h') \<Rightarrow> (Inr SFTP_OK, h'\<lparr>hd_tell := map_option (\<lambda>p. p + int (length data)) (hd_tell h')\<rparr>))"

definition hd_close :: "(sftp_handle, unit) sm" where
  "hd_close = (\<lambda>h.
     bindS (whenS (hd_readfile h) (on_file file_close)) (\<lambda>_. whenS (hd_writefile h) (on_file file_close)) h)"

section \<open>Paths\<close>

text \<open>\<^verbatim>\<open>os.path.normpath\<close> of the library, for POSIX.\<close>

fun norm_comps :: "bool \<Rightarrow> ustr list \<Rightarrow> ustr list \<Rightarrow> ustr list" where
  "norm_comps rooted acc [] = acc"
| "norm_comps rooted acc (c # cs) =
     (if c = [] \<or> c = lit ''.'' then norm_comps rooted acc cs
      else if c \<noteq> lit ''..'' \<or> (\<not> rooted \<and> acc = []) \<or> (acc \<noteq> [] \<and> last acc = lit ''..'') then norm_comps rooted (acc @ [c]) cs
      else norm_comps rooted (butlast acc) cs)"

definition normpath :: "ustr \<Rightarrow> ustr" where
  "normpath path =
     (if path = [] then lit ''.''
      else
        let slashes = (if startswith path (lit ''//'') \<and> \<not> startswith path (lit ''///'') then 2
                       else if startswith path (lit ''/'') then 1 else 0);
            out = replicate slashes 47 @ join [47] (norm_comps (slashes > 0) [] (split_on 47 path))
        in if out = [] then lit ''.'' else out)"

definition canonicalize :: "ustr \<Rightarrow> ustr" where
  "canonicalize path = (if startswith path (lit ''/'') then normpath path else normpath (lit ''/'' @ path))"

section \<open>The default interface\<close>

definition on_handle :: "nat \<Rightarrow> (sftp_handle, 'a) sm \<Rightarrow> (sftp_handle list, 'a) sm" where
  "on_handle i f = (\<lambda>st. case f (st ! i) of (r, h) \<Rightarrow> (r, st[i := h]))"

definition default_si :: "(sftp_handle list, nat) sftp_si" where
  "default_si =
     \<lparr>si_open = (\<lambda>_ _ _. retS (Code SFTP_OP_UNSUPPORTED)), si_list_folder = (\<lambda>_. retS (Code SFTP_OP_UNSUPPORTED)),
      si_stat = (\<lambda>_. retS (Code SFTP_OP_UNSUPPORTED)), si_lstat = (\<lambda>_. retS (Code SFTP_OP_UNSUPPORTED)),
      si_remove = (\<lambda>_. retS SFTP_OP_UNSUPPORTED), si_rename = (\<lambda>_ _. retS SFTP_OP_UNSUPPORTED),
      si_posix_rename = (\<lambda>_ _. retS SFTP_OP_UNSUPPORTED), si_mkdir = (\<lambda>_ _. retS SFTP_OP_UNSUPPORTED),
      si_rmdir = (\<lambda>_. retS SFTP_OP_UNSUPPORTED), si_chattr = (\<lambda>_ _. retS SFTP_OP_UNSUPPORTED),
      si_symlink = (\<lambda>_ _. retS SFTP_OP_UNSUPPORTED), si_readlink = (\<lambda>_. retS (Code SFTP_OP_UNSUPPORTED)),
      si_canonicalize = (\<lambda>path. retS (canonicalize path)),
      h_read = (\<lambda>i offset len. on_handle i (handle_read offset len)),
      h_write = (\<lambda>i offset data. on_handle i (handle_write offset data)),
      h_stat = (\<lambda>_. retS (Code SFTP_OP_UNSUPPORTED)), h_chattr = (\<lambda>_ _. retS SFTP_OP_UNSUPPORTED),
      h_close = (\<lambda>i. on_handle i hd_close)\<rparr>"

section \<open>Reading and writing at an offset\<close>

text \<open>A handle that remembers its position rightly, on a file that is open, not for appending, and does not fail.\<close>

definition coherent :: "sftp_handle \<Rightarrow> bool" where
  "coherent h \<longleftrightarrow>
     hd_readfile h \<and> hd_writefile h \<and> \<not> has_flag (hd_flags h) O_APPEND \<and> \<not> pf_append (hd_file h) \<and> \<not> pf_closed (hd_file h) \<and>
     pf_faults (hd_file h) = [] \<and> (case hd_tell h of None \<Rightarrow> True | Some p \<Rightarrow> p = int (pf_pos (hd_file h)))"

definition file_bytes :: "sftp_handle \<Rightarrow> bytes" where
  "file_bytes h = pf_data (hd_file h)"

lemma on_file_call:
  "\<not> pf_closed (hd_file h) \<Longrightarrow> pf_faults (hd_file h) = [] \<Longrightarrow>
     on_file (file_call f) h = (Inr (fst (f (hd_file h))), h\<lparr>hd_file := snd (f (hd_file h))\<rparr>)"
  by (simp add: on_file_def file_call_def split_beta)

lemma seek_to_coherent:
  assumes "coherent h" "0 \<le> offset"
  shows "seek_to offset h = (Inr (), h\<lparr>hd_tell := Some offset, hd_file := (hd_file h)\<lparr>pf_pos := nat offset\<rparr>\<rparr>)"
proof -
  let ?h = "h\<lparr>hd_tell := Some (int (pf_pos (hd_file h)))\<rparr>"
  have ok: "\<not> pf_closed (hd_file h)" "pf_faults (hd_file h) = []" using assms(1) by (simp_all add: coherent_def)
  have tell: "on_file file_tell h = (Inr (int (pf_pos (hd_file h))), h)" using ok by (simp add: file_tell_def on_file_call)
  have seek: "on_file (file_seek offset) ?h = (Inr (), ?h\<lparr>hd_file := (hd_file h)\<lparr>pf_pos := nat offset\<rparr>\<rparr>)"
    using ok by (simp add: file_seek_def on_file_call)
  have "(if hd_tell h = None then bindS (on_file file_tell) (\<lambda>p. modS (\<lambda>h. h\<lparr>hd_tell := Some p\<rparr>)) h else (Inr (), h)) = (Inr (), ?h)"
    using assms(1) bindS_step [where p = "on_file file_tell", OF tell] by (auto simp: coherent_def modS_def split: option.splits)
  then have "seek_to offset h = (if hd_tell ?h \<noteq> Some offset
       then bindS (on_file (file_seek offset)) (\<lambda>_. modS (\<lambda>h. h\<lparr>hd_tell := Some offset\<rparr>)) ?h else (Inr (), ?h))"
    unfolding seek_to_def by (rule bindS_step)
  also have "\<dots> = (Inr (), h\<lparr>hd_tell := Some offset, hd_file := (hd_file h)\<lparr>pf_pos := nat offset\<rparr>\<rparr>)"
    using bindS_step [where p = "on_file (file_seek offset)" and f = "\<lambda>_. modS (\<lambda>h. h\<lparr>hd_tell := Some offset\<rparr>)", OF seek] assms(2) by (auto simp: modS_def)
  finally show ?thesis .
qed

lemma handle_read_coherent:
  assumes "coherent h" "0 \<le> offset"
  shows "\<exists>h'. handle_read offset len h = (Inr (Given (slice_at (nat offset) (nat len) (file_bytes h))), h') \<and>
     coherent h' \<and> file_bytes h' = file_bytes h"
proof -
  let ?h = "h\<lparr>hd_tell := Some offset, hd_file := (hd_file h)\<lparr>pf_pos := nat offset\<rparr>\<rparr>"
  let ?b = "slice_at (nat offset) (nat len) (file_bytes h)"
  let ?h' = "?h\<lparr>hd_file := (hd_file ?h)\<lparr>pf_pos := nat offset + length ?b\<rparr>\<rparr>"
  have "on_file (file_read len) ?h = (Inr ?b, ?h')"
    using assms(1) by (simp add: file_read_def on_file_call coherent_def file_bytes_def Let_def)
  then have "handle_read offset len h = (Inr (Given ?b), ?h'\<lparr>hd_tell := Some (offset + int (length ?b))\<rparr>)"
    using assms(1) by (simp add: handle_read_def bindS_step [where p = "seek_to offset", OF seek_to_coherent [OF assms]] coherent_def)
  then show ?thesis using assms by (auto simp: coherent_def file_bytes_def)
qed

lemma handle_write_coherent:
  assumes "coherent h" "0 \<le> offset"
  shows "\<exists>h'. handle_write offset data h = (Inr SFTP_OK, h') \<and> coherent h' \<and>
     file_bytes h' = (if data = [] then file_bytes h else write_at (nat offset) data (file_bytes h))"
proof -
  let ?h = "h\<lparr>hd_tell := Some offset, hd_file := (hd_file h)\<lparr>pf_pos := nat offset\<rparr>\<rparr>"
  let ?h' = "if data = [] then ?h
     else ?h\<lparr>hd_file := (hd_file ?h)\<lparr>pf_data := write_at (nat offset) data (file_bytes h), pf_pos := nat offset + length data\<rparr>\<rparr>"
  have "on_file (file_write data) ?h = (Inr (), ?h')"
    using assms(1) by (simp add: file_write_def on_file_call coherent_def file_bytes_def Let_def)
  moreover have "on_file file_flush ?h' = (Inr (), ?h')"
    using assms(1) by (simp add: file_flush_def on_file_call coherent_def)
  ultimately have "handle_write offset data h = (Inr SFTP_OK, ?h'\<lparr>hd_tell := Some (offset + int (length data))\<rparr>)"
    using assms(1)
    by (simp only: handle_write_def whenS_def coherent_def not_False_eq_True if_True bindS_step [where p = "seek_to offset", OF seek_to_coherent [OF assms]] bindS_step) simp
  then show ?thesis using assms by (auto simp: coherent_def file_bytes_def)
qed

text \<open>In append mode the remembered position is wrong after a write, and a read that asks for it gets the end of the
  file instead of the bytes there.\<close>

definition appending :: sftp_handle where
  "appending = new_handle (O_RDWR OR O_APPEND) \<lparr>pf_data = [1, 2, 3], pf_pos = 0, pf_append = True, pf_closed = False, pf_faults = []\<rparr>"

lemma append_then_read:
  "fst (bindS (handle_read 0 1) (\<lambda>_. bindS (handle_write 0 [9]) (\<lambda>_. handle_read 2 2)) appending) = Inr (Given [])"
  "file_bytes (snd (bindS (handle_read 0 1) (\<lambda>_. handle_write 0 [9]) appending)) = [1, 2, 3, 9]"
  by code_simp+

section \<open>Canonical paths\<close>

definition plain_comp :: "ustr \<Rightarrow> bool" where
  "plain_comp c \<longleftrightarrow> c \<noteq> [] \<and> c \<noteq> lit ''.'' \<and> c \<noteq> lit ''..'' \<and> 47 \<notin> set c"

lemma norm_comps_plain:
  "list_all plain_comp acc \<Longrightarrow> list_all (\<lambda>c. 47 \<notin> set c) cs \<Longrightarrow> list_all plain_comp (norm_comps True acc cs)"
proof (induction "True" acc cs rule: norm_comps.induct)
  case (2 acc c cs)
  have "acc \<noteq> [] \<Longrightarrow> last acc \<noteq> lit ''..''"
    using 2(4) by (cases acc rule: rev_cases) (auto simp: plain_comp_def)
  moreover have "list_all plain_comp (butlast acc)" using 2(4) by (cases acc rule: rev_cases) auto
  ultimately show ?case using 2 by (auto simp: plain_comp_def)
qed simp

lemma norm_comps_skip: "norm_comps True acc (replicate n [] @ cs) = norm_comps True acc cs"
  by (induction n) simp_all

lemma norm_comps_keep: "list_all plain_comp cs \<Longrightarrow> norm_comps True acc cs = acc @ cs"
  by (induction cs arbitrary: acc) (simp_all add: plain_comp_def)

lemma split_on_slashes: "split_on d (replicate n d @ s) = replicate n [] @ split_on d s"
  by (induction n) (use split_on_append_sep [where w = "[]" and d = d] in simp_all)

definition rooted_path :: "nat \<Rightarrow> ustr list \<Rightarrow> ustr" where
  "rooted_path n cs = replicate n 47 @ join [47] cs"

definition slashes :: "ustr \<Rightarrow> nat" where
  "slashes path = (if startswith path (lit ''//'') \<and> \<not> startswith path (lit ''///'') then 2 else 1)"

lemma canonicalize_rooted:
  assumes "startswith path (lit ''/'')"
  shows "canonicalize path = rooted_path (slashes path) (norm_comps True [] (split_on 47 path))"
  using assms by (cases path) (auto simp: canonicalize_def normpath_def rooted_path_def slashes_def Let_def lit_simps)

lemma canonicalize_relative:
  "\<not> startswith path (lit ''/'') \<Longrightarrow> canonicalize path = canonicalize (lit ''/'' @ path)"
  by (simp add: canonicalize_def lit_simps)

lemma rooted_path_fixed:
  assumes "1 \<le> n" "n \<le> 2" "list_all plain_comp cs"
  shows "canonicalize (rooted_path n cs) = rooted_path n cs"
proof -
  have sl: "47 \<notin> set c" if "c \<in> set cs" for c using that assms(3) by (auto simp: list_all_iff plain_comp_def)
  have n: "n = 1 \<or> n = 2" using assms(1,2) by linarith
  have hd: "join [47] cs = [] \<or> hd (join [47] cs) \<noteq> 47"
  proof (cases cs)
    case (Cons c cs')
    then have "c \<noteq> []" "47 \<notin> set c" using assms(3) by (simp_all add: plain_comp_def)
    with Cons show ?thesis by (cases cs'; cases c) auto
  qed simp
  have "norm_comps True [] (split_on 47 (rooted_path n cs)) = norm_comps True [] (split_on 47 (join [47] cs))"
    by (simp add: rooted_path_def split_on_slashes norm_comps_skip)
  also have "\<dots> = cs"
    using sl assms(3) by (cases "cs = []") (simp_all add: split_on_join norm_comps_keep)
  moreover have "slashes (rooted_path n cs) = n"
    using n hd by (cases "join [47] cs") (auto simp: slashes_def rooted_path_def lit_simps numeral_2_eq_2)
  ultimately show ?thesis
    using canonicalize_rooted [of "rooted_path n cs"] n by (auto simp: rooted_path_def lit_simps numeral_2_eq_2)
qed

section \<open>Properties\<close>

text \<open>C40. What a client names as a path, the default interface takes to an absolute path with nothing of \<open>.\<close>, \<open>..\<close> or
  empty parts left in it, so that it cannot leave the root, and a canonical path stays what it is.\<close>

theorem canonical_path:
  "\<exists>n cs. canonicalize path = replicate n 47 @ join [47] cs \<and> 1 \<le> n \<and> n \<le> 2 \<and> list_all plain_comp cs \<and>
     canonicalize (canonicalize path) = canonicalize path"
proof -
  have "\<exists>p. startswith p (lit ''/'') \<and> canonicalize path = canonicalize p"
  proof (cases "startswith path (lit ''/'')")
    case False
    have "startswith (lit ''/'' @ path) (lit ''/'')" by (simp add: lit_simps)
    with canonicalize_relative [OF False] show ?thesis by blast
  qed blast
  then obtain p where p: "startswith p (lit ''/'')" "canonicalize path = canonicalize p" by blast
  let ?cs = "norm_comps True [] (split_on 47 p)"
  have cs: "list_all plain_comp ?cs"
    by (rule norm_comps_plain) (auto simp: list_all_iff dest: split_on_no_sep)
  have n: "1 \<le> slashes p" "slashes p \<le> 2" by (simp_all add: slashes_def)
  from rooted_path_fixed [OF n cs] canonicalize_rooted [OF p(1)] p(2) n cs show ?thesis
    by (intro exI [of _ "slashes p"] exI [of _ ?cs]) (simp add: rooted_path_def)
qed

section \<open>Files that are served\<close>

text \<open>What reading and writing a remote file relies on: a handle of the application whose file can be read and written
  at any offset. \<open>ready\<close> says when, and \<open>bytes_of\<close> is what the file holds.\<close>

locale served_file =
  fixes si :: "('f, 'h) sftp_si" and hdl :: 'h and ready :: "'f \<Rightarrow> bool" and bytes_of :: "'f \<Rightarrow> bytes"
  assumes serves_read: "ready fs \<Longrightarrow> 0 \<le> off \<Longrightarrow>
      \<exists>fs'. h_read si hdl off n fs = (Inr (Given (slice_at (nat off) (nat n) (bytes_of fs))), fs') \<and> ready fs' \<and>
        bytes_of fs' = bytes_of fs"
    and serves_write: "ready fs \<Longrightarrow> 0 \<le> off \<Longrightarrow>
      \<exists>fs'. h_write si hdl off b fs = (Inr SFTP_OK, fs') \<and> ready fs' \<and>
        bytes_of fs' = (if b = [] then bytes_of fs else write_at (nat off) b (bytes_of fs))"

text \<open>The default handle keeps this contract as long as it is coherent.\<close>

definition open_at :: "nat \<Rightarrow> sftp_handle list \<Rightarrow> bool" where
  "open_at i st \<longleftrightarrow> i < length st \<and> coherent (st ! i)"

interpretation default_file: served_file default_si i "open_at i" "\<lambda>st. file_bytes (st ! i)" for i
proof
  fix fs and off n :: int and b
  assume a: "open_at i fs" "0 \<le> off"
  then have c: "coherent (fs ! i)" "i < length fs" by (simp_all add: open_at_def)
  show "\<exists>fs'. h_read default_si i off n fs = (Inr (Given (slice_at (nat off) (nat n) (file_bytes (fs ! i)))), fs') \<and>
      open_at i fs' \<and> file_bytes (fs' ! i) = file_bytes (fs ! i)"
    using handle_read_coherent [OF c(1) a(2), of n] c(2) by (auto simp: default_si_def on_handle_def open_at_def)
  show "\<exists>fs'. h_write default_si i off b fs = (Inr SFTP_OK, fs') \<and> open_at i fs' \<and>
      file_bytes (fs' ! i) = (if b = [] then file_bytes (fs ! i) else write_at (nat off) b (file_bytes (fs ! i)))"
    using handle_write_coherent [OF c(1) a(2), of b] c(2) by (auto simp: default_si_def on_handle_def open_at_def)
qed

end
