(* ===== verification/Sftp_Answers.thy ===== *)
theory Sftp_Answers
  imports Sftp_Handle
begin

text \<open>
  The server answers every request. A method of the application that does not return, and a loop of check-file that does
  not end, leave the request unanswered (\<open>Blocked\<close>); shown is that nothing else does: \<open>comes_back\<close> goes through all the
  handlers.
\<close>

section \<open>Computations that end\<close>

definition comes_back :: "('s, 'a) sm \<Rightarrow> bool" where
  "comes_back f \<longleftrightarrow> (\<forall>s. fst (f s) \<noteq> Inl Blocked)"

named_theorems back_rules \<open>computations that do not wait\<close>

lemma back_bind [back_rules]: "comes_back f \<Longrightarrow> (\<And>x. comes_back (g x)) \<Longrightarrow> comes_back (bindS f g)"
  unfolding comes_back_def bindS_def by (auto split: prod.split sum.split) (metis fst_conv)+

lemma back_basic [back_rules]: "comes_back (retS x)" "comes_back (modS f)"
  by (simp_all add: comes_back_def retS_def modS_def)

lemma back_raise [back_rules]: "e \<noteq> Blocked \<Longrightarrow> comes_back (raiseS e)"
  by (simp add: comes_back_def raiseS_def)

lemma back_lift [back_rules]: "r \<noteq> Inl Blocked \<Longrightarrow> comes_back (liftR r)"
  by (simp add: comes_back_def liftR_def)

lemma back_reading [back_rules]: "comes_back p \<Longrightarrow> (\<And>x m'. comes_back (f x m')) \<Longrightarrow> comes_back (reading p m f)"
  unfolding comes_back_def reading_def raiseS_def by (auto split: prod.split sum.split) (metis fst_conv)

lemma back_if [back_rules]: "(b \<Longrightarrow> comes_back f) \<Longrightarrow> (\<not> b \<Longrightarrow> comes_back g) \<Longrightarrow> comes_back (if b then f else g)"
  by simp

lemma back_cond [back_rules]: "comes_back A \<Longrightarrow> comes_back B \<Longrightarrow> comes_back (\<lambda>s. if c s then A s else B s)"
  by (simp add: comes_back_def)

lemma back_state_option [back_rules]:
  "comes_back A \<Longrightarrow> (\<And>x. comes_back (B x)) \<Longrightarrow> comes_back (\<lambda>s. case g s of None \<Rightarrow> A s | Some x \<Rightarrow> B x s)"
  by (simp add: comes_back_def split: option.split)

lemma back_let [back_rules]: "(\<And>x. comes_back (F x)) \<Longrightarrow> comes_back (\<lambda>s. let x = g s in F x s)"
  by (simp add: comes_back_def Let_def)

lemma back_answer [back_rules]:
  "(\<And>x. comes_back (f x)) \<Longrightarrow> (\<And>c. comes_back (g c)) \<Longrightarrow> comes_back (case r of Given x \<Rightarrow> f x | Code c \<Rightarrow> g c)"
  by (cases r) auto

lemma back_some [back_rules]:
  "comes_back A \<Longrightarrow> (\<And>x. comes_back (B x)) \<Longrightarrow> comes_back (case v of None \<Rightarrow> A | Some x \<Rightarrow> B x)"
  by (cases v) auto

lemma back_app [back_rules]: "comes_back f \<Longrightarrow> comes_back (app f)"
  by (simp add: comes_back_def app_def split_beta)

section \<open>Messages\<close>

lemma back_decode: "utf8_decode b \<noteq> Inl Blocked"
proof (induction b rule: utf8_decode.induct)
  case (1 bs)
  then show ?case by (subst utf8_decode.simps) (auto simp: bindR_def split: option.split sum.split)
qed

lemma back_codecs: "unpack_be k b \<noteq> Inl Blocked" "pack_be k n \<noteq> Inl Blocked" "utf8_decode b \<noteq> Inl Blocked" "utf8_encode s \<noteq> Inl Blocked"
  by (simp_all add: unpack_be_def pack_be_def back_decode utf8_encode_def)

lemma back_bytes [back_rules]: "comes_back (get_bytes n)"
  by (simp add: comes_back_def get_bytes_def split_beta)

lemma back_get [back_rules]:
  "comes_back get_int" "comes_back get_int64" "comes_back get_binary" "comes_back get_string" "comes_back get_text" "comes_back get_list"
  unfolding get_int_def get_int64_def get_binary_def get_string_def get_text_def get_list_def
  by (intro back_rules back_codecs)+

lemma back_unpack_pairs [back_rules]: "comes_back (unpack_pairs n d)"
  by (induction n arbitrary: d) (auto intro!: back_rules)

lemma back_from_msg [back_rules]: "comes_back (from_msg f l)"
  unfolding from_msg_def attr_unpack_def when_flag_def by (intro back_rules)

lemma back_add [back_rules]:
  "comes_back (add_int n)" "comes_back (add_int64 n)" "comes_back (add_string b)" "comes_back (add_text s)" "comes_back (add_bytes b)"
  unfolding add_int_def add_int64_def add_string_def add_text_def add_bytes_def
  by (intro back_rules back_codecs)+

lemma back_pack_pairs [back_rules]: "comes_back (pack_pairs d)"
  by (induction d rule: pack_pairs.induct) (auto intro!: back_rules)

lemma back_attr_pack [back_rules]: "comes_back (attr_pack a)"
  unfolding attr_pack_def whenS_def Let_def by (intro back_rules)

lemma back_items [back_rules]: "comes_back (add_sftp_items xs)"
  by (induction xs rule: add_sftp_items.induct) (auto intro!: back_rules)

section \<open>Sending\<close>

lemma framed_back: "framed t m \<noteq> Inl Blocked"
  by (cases "pack_be 4 (int (length (asbytes m)) + 1)"; cases "pack_be 1 t") (use back_codecs in \<open>auto simp: framed_def\<close>)

lemma back_send [back_rules]: "comes_back build \<Longrightarrow> comes_back (sv_send t build)"
proof -
  assume b: "comes_back build"
  have "sftp_packet t build \<noteq> Inl Blocked"
    using b framed_back unfolding comes_back_def sftp_packet_def
    by (auto split: prod.split sum.split) (metis fst_conv)
  then show ?thesis unfolding sv_send_def by (intro back_rules)
qed

lemma back_response [back_rules]: "comes_back (response n t items)"
  unfolding response_def by (intro back_rules)

lemma back_status [back_rules]: "comes_back (send_status n c d)"
  unfolding send_status_def Let_def by (rule back_rules)

lemma back_file [back_rules]: "(\<And>f. comes_back (k f)) \<Longrightarrow> comes_back (with_file n h k)"
  unfolding with_file_def by (intro back_rules)


lemma back_names [back_rules]: "comes_back (add_names env fs)"
  by (induction env fs rule: add_names.induct)
    (auto intro!: back_rules simp: attr_asbytes_def back_codecs split: option.split)

section \<open>The application and the check of a file\<close>

text \<open>An application whose methods all return or raise.\<close>

definition app_returns :: "('f, 'h) sftp_si \<Rightarrow> bool" where
  "app_returns si \<longleftrightarrow>
     (\<forall>p n a. comes_back (si_open si p n a)) \<and> (\<forall>p. comes_back (si_list_folder si p)) \<and> (\<forall>p. comes_back (si_stat si p)) \<and>
     (\<forall>p. comes_back (si_lstat si p)) \<and> (\<forall>p. comes_back (si_remove si p)) \<and> (\<forall>p q. comes_back (si_rename si p q)) \<and>
     (\<forall>p q. comes_back (si_posix_rename si p q)) \<and> (\<forall>p a. comes_back (si_mkdir si p a)) \<and> (\<forall>p. comes_back (si_rmdir si p)) \<and>
     (\<forall>p a. comes_back (si_chattr si p a)) \<and> (\<forall>p q. comes_back (si_symlink si p q)) \<and> (\<forall>p. comes_back (si_readlink si p)) \<and>
     (\<forall>p. comes_back (si_canonicalize si p)) \<and> (\<forall>h off n. comes_back (h_read si h off n)) \<and>
     (\<forall>h off b. comes_back (h_write si h off b)) \<and> (\<forall>h. comes_back (h_stat si h)) \<and> (\<forall>h a. comes_back (h_chattr si h a)) \<and>
     (\<forall>h. comes_back (h_close si h))"

text \<open>An application that never answers a read with no data (but with an error code, at the end of a file).\<close>

definition reads_on :: "('f, 'h) sftp_si \<Rightarrow> bool" where
  "reads_on si \<longleftrightarrow> (\<forall>h off n fs. fst (h_read si h off n fs) \<noteq> Inr (Given []))"

definition asks_check_file :: "int \<times> bytes \<Rightarrow> bool" where
  "asks_check_file p \<longleftrightarrow>
     fst p = CMD_EXTENDED \<and> fst (bindS get_int (\<lambda>_. get_text) (new_message (Some (snd p)))) = Inr (lit ''check-file'')"

text \<open>With data in every answer the loops of check-file end; with an answer without data the inner one does not.\<close>

lemma hash_block_ends:
  assumes "\<And>off fs. fst (read off chunklen fs) \<noteq> Inr (Given [])" "\<And>off. comes_back (read off chunklen)" "0 \<le> count"
  shows "\<exists>r fs'. hash_block read blocklen chunklen offset count hashed fs = Some (r, fs') \<and> r \<noteq> Inl Blocked \<and>
     (\<forall>d offset'. r = Inr (Given (d, offset')) \<longrightarrow> offset \<le> offset' \<and> (count < blocklen \<longrightarrow> offset < offset'))"
  using assms(3)
proof (induction "nat (blocklen - count)" arbitrary: offset count hashed fs rule: less_induct)
  case less
  obtain r fs1 where r: "read offset chunklen fs = (r, fs1)" by fastforce
  have b: "r \<noteq> Inl Blocked" "r \<noteq> Inr (Given [])"
    using assms(1) [of offset fs] assms(2) [of offset] r by (auto simp: comes_back_def dest: spec [of _ fs])
  note step = hash_block.simps [of read blocklen chunklen offset count hashed fs]
  show ?case
  proof (cases "count < blocklen")
    case False
    then show ?thesis by (simp add: step)
  next
    case True
    show ?thesis
    proof (cases r)
      case (Inl e)
      with b True show ?thesis by (simp add: step r)
    next
      case (Inr a)
      show ?thesis
      proof (cases a)
        case (Code c)
        with Inr True show ?thesis by (simp add: step r)
      next
        case (Given data)
        let ?c = "count + int (length data)"
        have d: "0 < length data" using b Inr Given by simp
        with True less.prems have "nat (blocklen - ?c) < nat (blocklen - count)" "0 \<le> ?c" by linarith+
        from less.hyps [OF this, of "offset + ?c" "hashed @ data" fs1] obtain r' fs' where
          "hash_block read blocklen chunklen (offset + ?c) ?c (hashed @ data) fs1 = Some (r', fs')" "r' \<noteq> Inl Blocked"
          "\<forall>d offset'. r' = Inr (Given (d, offset')) \<longrightarrow> offset + ?c \<le> offset'" by blast
        moreover have "offset < offset + ?c" using d less.prems by linarith
        ultimately show ?thesis using True Inr Given
          by (intro exI [of _ r'] exI [of _ fs']) (auto simp: step r)
      qed
    qed
  qed
qed

lemma hash_blocks_end:
  assumes "\<And>off n fs. fst (read off n fs) \<noteq> Inr (Given [])" "\<And>off n. comes_back (read off n)" "0 < block_size"
  shows "\<exists>r fs'. hash_blocks alg read stop block_size offset sum_out fs = Some (r, fs') \<and> r \<noteq> Inl Blocked"
proof (induction "nat (stop - offset)" arbitrary: offset sum_out fs rule: less_induct)
  case less
  note step = hash_blocks.simps [of alg read stop block_size offset sum_out fs]
  show ?case
  proof (cases "offset < stop")
    case False
    then show ?thesis by (simp add: step)
  next
    case True
    let ?b = "min block_size (stop - offset)"
    have "0 < ?b" using True assms(3) by simp
    obtain r fs1 where r: "hash_block read ?b (min ?b 65536) offset 0 [] fs = Some (r, fs1)" "r \<noteq> Inl Blocked"
      "\<forall>d offset'. r = Inr (Given (d, offset')) \<longrightarrow> offset < offset'"
      using hash_block_ends [of read "min ?b 65536" 0 ?b offset "[]" fs] assms \<open>0 < ?b\<close> by blast
    show ?thesis
    proof (cases r)
      case (Inl e)
      with r True show ?thesis by (simp add: step)
    next
      case (Inr a)
      show ?thesis
      proof (cases a)
        case (Code c)
        with Inr r True show ?thesis by (simp add: step)
      next
        case (Given p)
        obtain d offset' where p: "p = (d, offset')" by fastforce
        with r(3) Inr Given True have "nat (stop - offset') < nat (stop - offset)" by auto
        from less.hyps [OF this, of "sum_out @ alg d" fs1] show ?thesis using r(1) True Inr Given p by (simp add: step)
      qed
    qed
  qed
qed

lemma hash_block_waits:
  assumes "\<And>off fs. read off chunklen fs = (Inr (Given []), fs)" "count < blocklen"
  shows "hash_block read blocklen chunklen offset count hashed fs = None"
proof -
  have "r = read \<and> b = blocklen \<and> k = chunklen \<longrightarrow> \<not> c < blocklen" if "hash_block r b k off c h fs = Some y" for r b k off c h fs y
    by (rule hash_block.raw_induct [where P = "\<lambda>r b k off c h fs y. r = read \<and> b = blocklen \<and> k = chunklen \<longrightarrow> \<not> c < blocklen", OF _ that])
      (auto simp: assms(1) split: if_splits)
  with assms(2) show ?thesis by (cases "hash_block read blocklen chunklen offset count hashed fs") auto
qed

lemma back_hash_blocks:
  assumes "reads_on si" "app_returns si" "0 < block_size"
  shows "comes_back (or_blocked (hash_blocks alg (h_read si f) stop block_size offset sum_out))"
  unfolding comes_back_def
proof
  fix fs
  have "\<And>off n fs. fst (h_read si f off n fs) \<noteq> Inr (Given [])" "\<And>off n. comes_back (h_read si f off n)"
    using assms(1,2) by (simp_all add: reads_on_def app_returns_def)
  with hash_blocks_end [of "h_read si f" block_size alg stop offset sum_out fs] assms(3)
  show "fst (or_blocked (hash_blocks alg (h_read si f) stop block_size offset sum_out) fs) \<noteq> Inl Blocked"
    by (auto simp: or_blocked_def)
qed

lemma back_check_blocks:
  assumes "reads_on si" "app_returns si"
  shows "comes_back (check_blocks env si n f algname alg start len bs)"
  unfolding check_blocks_def Let_def
  by (intro back_rules back_hash_blocks [OF assms]) simp

lemma back_check_file:
  assumes "reads_on si" "app_returns si"
  shows "comes_back (check_file env si n m)"
  unfolding check_file_def
  by (intro back_rules back_check_blocks [OF assms]) (use assms(2) in \<open>simp_all add: app_returns_def\<close>)

section \<open>Requests\<close>

lemma back_handlers [back_rules]:
  "comes_back (send_handle_response n h)" "comes_back (read_folder env n hdl files)" "comes_back (send_attrs n a)"
  "comes_back (process_readdir env n hdl)" "comes_back (send_name n path)"
  unfolding send_handle_response_def read_folder_def send_attrs_def process_readdir_def send_name_def
  by (intro back_rules)+

lemma back_status_of [back_rules]: "comes_back f \<Longrightarrow> comes_back (app_status n f)"
  unfolding app_status_def by (intro back_rules)

lemma back_calls:
  assumes "app_returns si"
  shows "comes_back (si_open si p k a)" "comes_back (si_list_folder si p)" "comes_back (si_stat si p)" "comes_back (si_lstat si p)"
    "comes_back (si_remove si p)" "comes_back (si_rename si p q)" "comes_back (si_posix_rename si p q)" "comes_back (si_mkdir si p a)"
    "comes_back (si_rmdir si p)" "comes_back (si_chattr si p a)" "comes_back (si_symlink si p q)" "comes_back (si_readlink si p)"
    "comes_back (si_canonicalize si p)" "comes_back (h_read si h k n)" "comes_back (h_write si h k b)" "comes_back (h_stat si h)"
    "comes_back (h_chattr si h a)" "comes_back (h_close si h)"
  using assms by (simp_all add: app_returns_def)

lemma back_table:
  assumes "app_returns si"
  shows "comes_back (open_folder si n path)" "comes_back (process_close si n hdl)" "comes_back (process_read si n hdl off len)"
    "comes_back (process_fsetstat si n hdl av)"
  unfolding open_folder_def process_close_def process_read_def process_fsetstat_def
  by (intro back_rules back_calls [OF assms])+

text \<open>Only the check of a file can wait, and only when it reads no data.\<close>

lemma back_process:
  assumes "app_returns si" "\<not> (t = CMD_EXTENDED \<and> fst (get_text m) = Inr (lit ''check-file'')) \<or> reads_on si"
  shows "comes_back (process env si t n m)"
proof -
  have x: "comes_back (process_extended env si n m)" if "t = CMD_EXTENDED"
  proof (cases "fst (get_text m) = Inr (lit ''check-file'')")
    case True
    with assms that have "reads_on si" by simp
    note back_check_file [OF this assms(1)]
    then show ?thesis unfolding process_extended_def by (intro back_rules back_calls [OF assms(1)])
  next
    case False
    then show ?thesis
    proof (cases "get_text m")
      case (Pair r m')
      show ?thesis
      proof (cases r)
        case (Inl e)
        then have "e \<noteq> Blocked" using Pair back_get(5) by (auto simp: comes_back_def dest: spec [of _ m])
        then show ?thesis using Pair Inl by (simp add: process_extended_def reading_def back_raise)
      next
        case (Inr tag)
        with False Pair have "tag \<noteq> lit ''check-file''" by simp
        then show ?thesis using Pair Inr unfolding process_extended_def
          by (simp add: reading_def [of get_text m] del: if_split) (intro impI conjI back_rules back_calls [OF assms(1)])
      qed
    qed
  qed
  show ?thesis unfolding process_def
    by (intro back_rules back_calls [OF assms(1)] back_table [OF assms(1)] x) simp_all
qed

lemma packet_served:
  assumes "app_returns si" "\<not> asks_check_file (t, data) \<or> reads_on si"
  shows "\<exists>s'. serve_packet env si t data s = (Inr (), s')"
proof -
  obtain m where m: "get_int (new_message (Some data)) = (Inr (request_number data), m)" using get_number by blast
  have "\<not> (t = CMD_EXTENDED \<and> fst (get_text m) = Inr (lit ''check-file'')) \<or> reads_on si"
    using assms(2) m by (simp add: asks_check_file_def bindS_def)
  from back_process [OF assms(1) this] have "fst (process env si t (request_number data) m s) \<noteq> Inl Blocked" by (simp add: comes_back_def)
  then show ?thesis using m by (auto simp: serve_packet_def reading_def split: prod.split sum.split pyexc.split)
qed

lemma packets_served:
  assumes "app_returns si" "\<forall>p \<in> set ps. \<not> asks_check_file p \<or> reads_on si"
  shows "\<exists>s'. serve_packets env si (map Inr ps @ [Inl e]) s = (Inr (), s')"
  using assms(2)
proof (induction ps arbitrary: s)
  case (Cons p ps)
  obtain t data where p: "p = (t, data)" by fastforce
  with Cons.prems obtain s1 where "serve_packet env si t data s = (Inr (), s1)" using packet_served [OF assms(1)] by force
  with Cons p show ?case by (simp add: bindS_def)
qed (simp add: retS_def)

lemma each_answered:
  assumes "serve_packets env si (map Inr ps @ [Inl e]) s = (Inr (), s')"
  shows "\<exists>as. sv_sent s' = sv_sent s @ as \<and> list_all2 (\<lambda>p a. answer_to (request_number (snd p)) a) ps as"
  using assms
proof (induction ps arbitrary: s)
  case (Cons p ps)
  obtain t data where p: "p = (t, data)" by fastforce
  from Cons.prems obtain s1 where s1: "serve_packet env si t data s = (Inr (), s1)"
    "serve_packets env si (map Inr ps @ [Inl e]) s1 = (Inr (), s')"
    by (auto simp: p bindS_Inr_iff)
  from serve_packet_answers [OF s1(1)] obtain a where a: "sv_sent s1 = sv_sent s @ [a]" "answer_to (request_number data) a" by blast
  from Cons.IH [OF s1(2)] obtain as where "sv_sent s' = sv_sent s1 @ as"
    "list_all2 (\<lambda>p a. answer_to (request_number (snd p)) a) ps as" by blast
  with a show ?case by (intro exI [of _ "a # as"]) (simp add: p)
qed (auto simp: retS_def)

text \<open>The default interface returns: its file objects raise what Python's raise.\<close>

lemma back_file_call: "fst (file_call f p) \<noteq> Inl Blocked"
  by (auto simp: file_call_def split: prod.split list.split option.split)

lemma back_on_file [back_rules]: "(\<And>p. fst (f p) \<noteq> Inl Blocked) \<Longrightarrow> comes_back (on_file f)"
  by (simp add: comes_back_def on_file_def split_beta)

lemma back_on_handle: "comes_back f \<Longrightarrow> comes_back (on_handle i f)"
  by (simp add: comes_back_def on_handle_def split_beta)

lemma back_seek_to [back_rules]: "comes_back (seek_to off)"
  unfolding seek_to_def
proof (intro back_bind back_cond)
  show "comes_back (on_file file_tell)" "comes_back (on_file (file_seek off))"
    by (intro back_on_file; simp add: file_tell_def file_seek_def back_file_call)+
qed (simp_all add: back_basic comes_back_def modS_def)

lemma back_handle_io: "comes_back (handle_read off n)" "comes_back (handle_write off b)" "comes_back hd_close"
proof -
  have r: "comes_back (bindS (seek_to off) (\<lambda>_. on_file (file_read n)))"
    by (intro back_rules) (simp add: file_read_def back_file_call)
  have w: "comes_back (bindS (whenS c (seek_to off)) (\<lambda>_. bindS (on_file (file_write b)) (\<lambda>_. on_file file_flush)))" for c
    unfolding whenS_def by (intro back_rules) (simp_all add: file_write_def file_flush_def back_file_call)
  have c: "comes_back (bindS (whenS c (on_file file_close)) (\<lambda>_. whenS d (on_file file_close)))" for c d
    unfolding whenS_def by (intro back_rules) (simp_all add: file_close_def modS_def)
  show "comes_back (handle_read off n)"
    using r unfolding comes_back_def handle_read_def
    by (auto split: prod.split sum.split pyexc.split) (metis fst_conv)
  show "comes_back (handle_write off b)"
    unfolding comes_back_def
  proof
    fix h
    obtain r h' where h': "bindS (whenS (\<not> has_flag (hd_flags h) O_APPEND) (seek_to off)) (\<lambda>_.
        bindS (on_file (file_write b)) (\<lambda>_. on_file file_flush)) h = (r, h')" by fastforce
    then have "r \<noteq> Inl Blocked" using w by (metis comes_back_def fst_conv)
    then show "fst (handle_write off b h) \<noteq> Inl Blocked"
      by (auto simp: handle_write_def h' split: sum.split pyexc.split)
  qed
  show "comes_back hd_close" using c by (simp add: comes_back_def hd_close_def)
qed

lemma default_returns: "app_returns default_si"
  by (simp add: app_returns_def default_si_def back_basic back_on_handle back_handle_io)

section \<open>Properties\<close>

text \<open>C13. The server answers every request, in order and once: serving any packets up to the end of the session comes to
  its end and sends exactly one packet for each request, which carries the number of the request, whatever the requests
  are and whatever values the application answers or exceptions it raises. The methods of the application return or raise
  (\<open>app_returns\<close>); and where check-file is asked for, the application never answers a read with no data (\<open>reads_on\<close>), for
  at an answer without data that request reads forever and is not answered (\<open>hash_block_waits\<close>).\<close>

theorem one_answer_each:
  assumes "app_returns si" "\<forall>p \<in> set ps. \<not> asks_check_file p \<or> reads_on si"
  shows "\<exists>s' as. serve_packets env si (map Inr ps @ [Inl e]) s = (Inr (), s') \<and> sv_sent s' = sv_sent s @ as \<and>
     list_all2 (\<lambda>p a. answer_to (request_number (snd p)) a) ps as"
proof -
  obtain s' where "serve_packets env si (map Inr ps @ [Inl e]) s = (Inr (), s')" using packets_served [OF assms] by blast
  from this each_answered [OF this] show ?thesis by blast
qed

theorem one_answer_each_witness:
  "\<forall>env. \<exists>s' p. serve_packets env default_si [Inr (99, [0, 0, 0, 7]), Inl EOFError] (new_server []) = (Inr (), s') \<and>
     sv_sent s' = [p] \<and> answer_to 7 p"
proof
  fix env
  have "\<forall>p \<in> set [(99, [0, 0, 0, 7])]. \<not> asks_check_file p \<or> reads_on default_si"
    by (simp add: asks_check_file_def CMD_EXTENDED_def)
  from one_answer_each [OF default_returns this, of env EOFError "new_server []"] show "\<exists>s' p.
     serve_packets env default_si [Inr (99, [0, 0, 0, 7]), Inl EOFError] (new_server []) = (Inr (), s') \<and> sv_sent s' = [p] \<and> answer_to 7 p"
    by (auto simp: new_server_def list_all2_Cons1 request_number_def be_int_def)
qed

end
