(* ===== verification/Sftp_Client.thy ===== *)
theory Sftp_Client
  imports Sftp_Server
begin

text \<open>
  \<^verbatim>\<open>paramiko/sftp_client.py\<close> and the operations that \<^verbatim>\<open>paramiko/sftp_file.py\<close> puts on the wire. The other end is a
  parameter: \<open>net\<close> takes a packet and the state \<open>'p\<close> of the peer and gives what the client's next reads of packets
  meet, packets or exceptions. What has arrived and is not read is the queue \<open>cl_in\<close>; reading from an empty queue waits
  (\<open>Blocked\<close>). File objects are a list, which the table of expected answers points into (\<open>None\<close> there is the source's
  \<^verbatim>\<open>type(None)\<close>); they are taken to live as long as the client. Log lines and the lock are left out.
\<close>

section \<open>State\<close>

record sftp_file =
  sf_handle :: bytes
  sf_realpos :: int
  sf_append :: bool
  sf_size :: int
  sf_closed :: bool
  sf_pipelined :: bool
  sf_prefetching :: bool
  sf_prefetch_done :: bool
  sf_prefetch_data :: "(int \<times> bytes) list"
  sf_prefetch_extents :: "(int \<times> int \<times> int) list"
  sf_saved_exception :: "pyexc option"
  sf_reqs :: "int list"

definition new_sftp_file :: "bytes \<Rightarrow> sftp_file" where
  "new_sftp_file handle =
     \<lparr>sf_handle = handle, sf_realpos = 0, sf_append = False, sf_size = 0, sf_closed = False, sf_pipelined = False, sf_prefetching = False,
      sf_prefetch_done = False, sf_prefetch_data = [], sf_prefetch_extents = [], sf_saved_exception = None, sf_reqs = []\<rparr>"

record 'p sftp_client =
  cl_request_number :: int
  cl_expecting :: "(int \<times> nat option) list"
  cl_cwd :: "bytes option"
  cl_in :: "(pyexc + int \<times> bytes) list"
  cl_files :: "sftp_file list"
  cl_peer :: 'p

definition new_client :: "'p \<Rightarrow> 'p sftp_client" where
  "new_client p = \<lparr>cl_request_number = 1, cl_expecting = [], cl_cwd = None, cl_in = [], cl_files = [], cl_peer = p\<rparr>"

type_synonym 'p net = "int \<times> bytes \<Rightarrow> 'p \<Rightarrow> (pyexc + int \<times> bytes) list \<times> 'p"

section \<open>Requests and answers\<close>

definition cl_send :: "'p net \<Rightarrow> int \<times> bytes \<Rightarrow> ('p sftp_client, unit) sm" where
  "cl_send net p = modS (\<lambda>c. case net p (cl_peer c) of (arrived, q) \<Rightarrow> c\<lparr>cl_in := cl_in c @ arrived, cl_peer := q\<rparr>)"

text \<open>The request is registered once its message is built, and stays so if sending it fails.\<close>

definition async_request :: "'p net \<Rightarrow> nat option \<Rightarrow> int \<Rightarrow> sftp_item list \<Rightarrow> ('p sftp_client, int) sm" where
  "async_request net fileobj t items = (\<lambda>c.
     let num = cl_request_number c
     in case bindS (add_int num) (\<lambda>_. add_sftp_items items) (new_message None) of
          (Inl e, _) \<Rightarrow> (Inl e, c)
        | (Inr _, msg) \<Rightarrow>
            bindS (modS (\<lambda>c. c\<lparr>cl_expecting := dict_put num fileobj (cl_expecting c), cl_request_number := num + 1\<rparr>)) (\<lambda>_.
            bindS (liftR (framed t msg)) (\<lambda>p.
            bindS (cl_send net p) (\<lambda>_. retS num))) c)"

definition convert_status :: "(message, unit) sm" where
  "convert_status =
     bindS get_int (\<lambda>code. bindS get_text (\<lambda>descr.
       if code = SFTP_OK then retS ()
       else if code = SFTP_EOF then raiseS EOFError
       else if code = SFTP_NO_SUCH_FILE then raiseS (OSErr (Some ENOENT) descr)
       else if code = SFTP_PERMISSION_DENIED then raiseS (OSErr (Some EACCES) descr)
       else raiseS (OSErr None descr)))"

definition upd_file :: "nat \<Rightarrow> (sftp_file \<Rightarrow> sftp_file) \<Rightarrow> ('p sftp_client, unit) sm" where
  "upd_file i f = modS (\<lambda>c. c\<lparr>cl_files := (cl_files c)[i := f (cl_files c ! i)]\<rparr>)"

text \<open>\<^verbatim>\<open>SFTPFile._async_response\<close>: an answer to a read-ahead of file \<open>i\<close>. It waits for the thread that sent the
  request to note the extent.\<close>

definition note_data :: "int \<Rightarrow> int \<Rightarrow> bytes \<Rightarrow> sftp_file \<Rightarrow> sftp_file" where
  "note_data num offset data f =
     (let rest = dict_del num (sf_prefetch_extents f)
      in f\<lparr>sf_prefetch_data := dict_put offset data (sf_prefetch_data f), sf_prefetch_extents := rest,
           sf_prefetch_done := (if rest = [] then True else sf_prefetch_done f)\<rparr>)"

definition async_response :: "nat \<Rightarrow> int \<Rightarrow> message \<Rightarrow> int \<Rightarrow> ('p sftp_client, unit) sm" where
  "async_response i t msg num =
     (if t = CMD_STATUS then
        (case convert_status msg of
           (Inl e, _) \<Rightarrow> upd_file i (\<lambda>f. f\<lparr>sf_saved_exception := Some e\<rparr>)
         | (Inr _, _) \<Rightarrow> retS ())
      else if t \<noteq> CMD_DATA then raiseS (SFTPError ''Expected data'')
      else
        reading get_string msg (\<lambda>data _ c.
          case map_of (sf_prefetch_extents (cl_files c ! i)) num of
            None \<Rightarrow> (Inl Blocked, c)
          | Some (offset, len) \<Rightarrow> upd_file i (note_data num offset data) c))"

definition dropped :: pyexc where "dropped = SSHException ''Server connection dropped''"

text \<open>\<^verbatim>\<open>_read_response\<close>: the answer to \<open>waitfor\<close>, or one answer of any kind when it is \<open>None\<close>.\<close>

fun response_loop :: "int option \<Rightarrow> (pyexc + int \<times> bytes) list \<Rightarrow> ('p sftp_client, (int \<times> message) option) sm" where
  "response_loop waitfor [] c = (Inl Blocked, c\<lparr>cl_in := []\<rparr>)"
| "response_loop waitfor (Inl e # evs) c = (Inl (if e = EOFError then dropped else e), c\<lparr>cl_in := evs\<rparr>)"
| "response_loop waitfor (Inr (t, data) # evs) c =
     (case get_int (new_message (Some data)) of
        (Inl e, _) \<Rightarrow> (Inl e, c\<lparr>cl_in := evs\<rparr>)
      | (Inr num, msg) \<Rightarrow>
          (case map_of (cl_expecting c) num of
             None \<Rightarrow> if waitfor = None then (Inr None, c\<lparr>cl_in := evs\<rparr>) else response_loop waitfor evs c
           | Some fileobj \<Rightarrow>
               (let c1 = c\<lparr>cl_expecting := dict_del num (cl_expecting c), cl_in := evs\<rparr>
                in if waitfor = Some num then
                     (if t = CMD_STATUS then
                        (case convert_status msg of (Inl e, _) \<Rightarrow> (Inl e, c1) | (Inr _, msg') \<Rightarrow> (Inr (Some (t, msg')), c1))
                      else (Inr (Some (t, msg)), c1))
                   else
                     (case (case fileobj of None \<Rightarrow> retS () | Some i \<Rightarrow> async_response i t msg num) c1 of
                        (Inl e, c2) \<Rightarrow> (Inl e, c2)
                      | (Inr _, c2) \<Rightarrow> if waitfor = None then (Inr None, c2) else response_loop waitfor evs c2))))"

definition read_response :: "int option \<Rightarrow> ('p sftp_client, (int \<times> message) option) sm" where
  "read_response waitfor = (\<lambda>c. response_loop waitfor (cl_in c) c)"

text \<open>Unpacking the pair \<^verbatim>\<open>(None, None)\<close> does not happen: with a number to wait for, there is an answer.\<close>

definition await :: "int \<Rightarrow> ('p sftp_client, int \<times> message) sm" where
  "await num = bindS (read_response (Some num)) (\<lambda>r. case r of Some x \<Rightarrow> retS x | None \<Rightarrow> raiseS TypeError)"

definition request :: "'p net \<Rightarrow> int \<Rightarrow> sftp_item list \<Rightarrow> ('p sftp_client, int \<times> message) sm" where
  "request net t items = bindS (async_request net None t items) await"

definition request_done :: "'p net \<Rightarrow> int \<Rightarrow> sftp_item list \<Rightarrow> ('p sftp_client, unit) sm" where
  "request_done net t items = bindS (request net t items) (\<lambda>_. retS ())"

section \<open>Paths\<close>

definition adjust_path :: "bytes option \<Rightarrow> bytes \<Rightarrow> bytes" where
  "adjust_path cwd path =
     (case cwd of
        None \<Rightarrow> path
      | Some d \<Rightarrow> if take 1 path = [47] then path else if d = [47] then d @ path else d @ [47] @ path)"

definition adjust_cwd :: "ustr \<Rightarrow> ('p sftp_client, bytes) sm" where
  "adjust_cwd path = bindS (liftR (utf8_encode path)) (\<lambda>p c. (Inr (adjust_path (cl_cwd c) p), c))"

definition cl_remove :: "'p net \<Rightarrow> ustr \<Rightarrow> ('p sftp_client, unit) sm" where
  "cl_remove net path = bindS (adjust_cwd path) (\<lambda>path. request_done net CMD_REMOVE [IBytes path])"

definition cl_rename :: "'p net \<Rightarrow> ustr \<Rightarrow> ustr \<Rightarrow> ('p sftp_client, unit) sm" where
  "cl_rename net oldpath newpath =
     bindS (adjust_cwd oldpath) (\<lambda>oldpath. bindS (adjust_cwd newpath) (\<lambda>newpath.
       request_done net CMD_RENAME [IBytes oldpath, IBytes newpath]))"

definition cl_posix_rename :: "'p net \<Rightarrow> ustr \<Rightarrow> ustr \<Rightarrow> ('p sftp_client, unit) sm" where
  "cl_posix_rename net oldpath newpath =
     bindS (adjust_cwd oldpath) (\<lambda>oldpath. bindS (adjust_cwd newpath) (\<lambda>newpath.
       request_done net CMD_EXTENDED [IText (lit ''posix-rename@openssh.com''), IBytes oldpath, IBytes newpath]))"

definition cl_mkdir :: "'p net \<Rightarrow> ustr \<Rightarrow> int \<Rightarrow> ('p sftp_client, unit) sm" where
  "cl_mkdir net path mode =
     bindS (adjust_cwd path) (\<lambda>path. request_done net CMD_MKDIR [IBytes path, IAttr (new_attributes\<lparr>st_mode := Some mode\<rparr>)])"

definition cl_rmdir :: "'p net \<Rightarrow> ustr \<Rightarrow> ('p sftp_client, unit) sm" where
  "cl_rmdir net path = bindS (adjust_cwd path) (\<lambda>path. request_done net CMD_RMDIR [IBytes path])"

definition expect_attrs :: "int \<times> message \<Rightarrow> ('p sftp_client, sftp_attributes) sm" where
  "expect_attrs r =
     (case r of (t, msg) \<Rightarrow>
        if t \<noteq> CMD_ATTRS then raiseS (SFTPError ''Expected attributes'')
        else reading (from_msg None None) msg (\<lambda>a _. retS a))"

definition cl_stat :: "'p net \<Rightarrow> ustr \<Rightarrow> ('p sftp_client, sftp_attributes) sm" where
  "cl_stat net path = bindS (adjust_cwd path) (\<lambda>path. bindS (request net CMD_STAT [IBytes path]) expect_attrs)"

definition cl_lstat :: "'p net \<Rightarrow> ustr \<Rightarrow> ('p sftp_client, sftp_attributes) sm" where
  "cl_lstat net path = bindS (adjust_cwd path) (\<lambda>path. bindS (request net CMD_LSTAT [IBytes path]) expect_attrs)"

definition cl_symlink :: "'p net \<Rightarrow> ustr \<Rightarrow> ustr \<Rightarrow> ('p sftp_client, unit) sm" where
  "cl_symlink net source dest =
     bindS (adjust_cwd dest) (\<lambda>dest. bindS (liftR (utf8_encode source)) (\<lambda>source.
       request_done net CMD_SYMLINK [IBytes source, IBytes dest]))"

definition set_attr :: "'p net \<Rightarrow> ustr \<Rightarrow> sftp_attributes \<Rightarrow> ('p sftp_client, unit) sm" where
  "set_attr net path a = bindS (adjust_cwd path) (\<lambda>path. request_done net CMD_SETSTAT [IBytes path, IAttr a])"

definition cl_chmod :: "'p net \<Rightarrow> ustr \<Rightarrow> int \<Rightarrow> ('p sftp_client, unit) sm" where
  "cl_chmod net path mode = set_attr net path (new_attributes\<lparr>st_mode := Some mode\<rparr>)"

definition cl_chown :: "'p net \<Rightarrow> ustr \<Rightarrow> int \<Rightarrow> int \<Rightarrow> ('p sftp_client, unit) sm" where
  "cl_chown net path uid gid = set_attr net path (new_attributes\<lparr>st_uid := Some uid, st_gid := Some gid\<rparr>)"

text \<open>\<open>now\<close> is the clock.\<close>

definition cl_utime :: "'p net \<Rightarrow> rat \<Rightarrow> ustr \<Rightarrow> (rat \<times> rat) option \<Rightarrow> ('p sftp_client, unit) sm" where
  "cl_utime net now path when =
     (case (case when of None \<Rightarrow> (now, now) | Some p \<Rightarrow> p) of (atime, mtime) \<Rightarrow>
        set_attr net path (new_attributes\<lparr>st_atime := Some atime, st_mtime := Some mtime\<rparr>))"

definition cl_truncate :: "'p net \<Rightarrow> ustr \<Rightarrow> int \<Rightarrow> ('p sftp_client, unit) sm" where
  "cl_truncate net path n = set_attr net path (new_attributes\<lparr>st_size := Some n\<rparr>)"

text \<open>\<^verbatim>\<open>_to_unicode\<close> of bytes, which have no \<^verbatim>\<open>encode\<close>: the text they encode, or themselves.\<close>

definition to_unicode :: "bytes \<Rightarrow> bytes + ustr" where
  "to_unicode s = (case utf8_decode s of Inr u \<Rightarrow> Inr u | Inl _ \<Rightarrow> Inl s)"

definition cl_readlink :: "'p net \<Rightarrow> ustr \<Rightarrow> ('p sftp_client, (bytes + ustr) option) sm" where
  "cl_readlink net path =
     bindS (adjust_cwd path) (\<lambda>path. bindS (request net CMD_READLINK [IBytes path]) (\<lambda>(t, msg).
       if t \<noteq> CMD_NAME then raiseS (SFTPError ''Expected name response'')
       else
         reading get_int msg (\<lambda>count msg.
           if count = 0 then retS None
           else if count \<noteq> 1 then raiseS (SFTPError ''Readlink returned results'')
           else reading get_string msg (\<lambda>s _. retS (Some (to_unicode s))))))"

definition cl_normalize :: "'p net \<Rightarrow> ustr \<Rightarrow> ('p sftp_client, ustr) sm" where
  "cl_normalize net path =
     bindS (adjust_cwd path) (\<lambda>path. bindS (request net CMD_REALPATH [IBytes path]) (\<lambda>(t, msg).
       if t \<noteq> CMD_NAME then raiseS (SFTPError ''Expected name response'')
       else
         reading get_int msg (\<lambda>count msg.
           if count \<noteq> 1 then raiseS (SFTPError ''Realpath returned results'')
           else reading get_text msg (\<lambda>s _. retS s))))"

text \<open>\<^verbatim>\<open>stat.S_ISDIR\<close>, of no mode a type error.\<close>

definition is_dir :: "int option \<Rightarrow> bool res" where
  "is_dir mode = (case mode of None \<Rightarrow> Inl TypeError | Some m \<Rightarrow> Inr (m AND 0xF000 = 0x4000))"

definition cl_chdir :: "'p net \<Rightarrow> ustr option \<Rightarrow> ('p sftp_client, unit) sm" where
  "cl_chdir net path =
     (case path of
        None \<Rightarrow> modS (\<lambda>c. c\<lparr>cl_cwd := None\<rparr>)
      | Some path \<Rightarrow>
          bindS (cl_stat net path) (\<lambda>a. bindS (liftR (is_dir (st_mode a))) (\<lambda>d.
            if \<not> d then raiseS (SFTPError ''Not a directory'')
            else bindS (cl_normalize net path) (\<lambda>p. bindS (liftR (utf8_encode p)) (\<lambda>b. modS (\<lambda>c. c\<lparr>cl_cwd := Some b\<rparr>))))))"

definition cl_getcwd :: "('p sftp_client, ustr option) sm" where
  "cl_getcwd = (\<lambda>c. case cl_cwd c of
     None \<Rightarrow> (Inr None, c)
   | Some b \<Rightarrow> if b = [] then (Inr (Some []), c) else bindS (liftR (utf8_decode b)) (\<lambda>s. retS (Some s)) c)"

section \<open>Folders\<close>

fun read_names :: "nat \<Rightarrow> sftp_attributes list \<Rightarrow> (message, sftp_attributes list) sm" where
  "read_names 0 acc = retS acc"
| "read_names (Suc n) acc =
     bindS get_text (\<lambda>filename. bindS get_text (\<lambda>longname. bindS (from_msg (Some filename) (Some longname)) (\<lambda>a.
       read_names n (if filename \<noteq> lit ''.'' \<and> filename \<noteq> lit ''..'' then acc @ [a] else acc))))"

text \<open>The loop of \<^verbatim>\<open>listdir_attr\<close> goes on as long as the server sends names.\<close>

partial_function (option) list_loop ::
  "'p net \<Rightarrow> bytes \<Rightarrow> sftp_attributes list \<Rightarrow> 'p sftp_client \<Rightarrow> (sftp_attributes list res \<times> 'p sftp_client) option" where
  "list_loop net handle acc c =
     (case request net CMD_READDIR [IBytes handle] c of
        (Inl e, c') \<Rightarrow> Some (if e = EOFError then Inr acc else Inl e, c')
      | (Inr (t, msg), c') \<Rightarrow>
          (if t \<noteq> CMD_NAME then Some (Inl (SFTPError ''Expected name response''), c')
           else
             (case bindS get_int (\<lambda>count. read_names (nat count) acc) msg of
                (Inl e, _) \<Rightarrow> Some (Inl e, c')
              | (Inr acc', _) \<Rightarrow> list_loop net handle acc' c')))"

definition open_handle :: "'p net \<Rightarrow> int \<Rightarrow> sftp_item list \<Rightarrow> ('p sftp_client, bytes) sm" where
  "open_handle net t items =
     bindS (request net t items) (\<lambda>(t, msg).
       if t \<noteq> CMD_HANDLE then raiseS (SFTPError ''Expected handle'') else reading get_binary msg (\<lambda>h _. retS h))"

definition listdir_attr :: "'p net \<Rightarrow> ustr \<Rightarrow> 'p sftp_client \<Rightarrow> (sftp_attributes list res \<times> 'p sftp_client) option" where
  "listdir_attr net path c =
     (case bindS (adjust_cwd path) (\<lambda>path. open_handle net CMD_OPENDIR [IBytes path]) c of
        (Inl e, c1) \<Rightarrow> Some (Inl e, c1)
      | (Inr handle, c1) \<Rightarrow>
          (case list_loop net handle [] c1 of
             None \<Rightarrow> None
           | Some (Inl e, c2) \<Rightarrow> Some (Inl e, c2)
           | Some (Inr filelist, c2) \<Rightarrow> Some (bindS (request_done net CMD_CLOSE [IBytes handle]) (\<lambda>_. retS filelist) c2)))"

fun all_names :: "sftp_attributes list \<Rightarrow> ustr list res" where
  "all_names [] = Inr []"
| "all_names (a # as) =
     (case at_filename a of None \<Rightarrow> Inl AttributeError | Some f \<Rightarrow> bindR (all_names as) (\<lambda>fs. Inr (f # fs)))"

definition listdir :: "'p net \<Rightarrow> ustr \<Rightarrow> 'p sftp_client \<Rightarrow> (ustr list res \<times> 'p sftp_client) option" where
  "listdir net path c =
     (case listdir_attr net path c of
        None \<Rightarrow> None
      | Some (Inl e, c') \<Rightarrow> Some (Inl e, c')
      | Some (Inr as, c') \<Rightarrow> Some (all_names as, c'))"

end
