(* ===== verification/Sftp_File.thy ===== *)
theory Sftp_File
  imports Sftp_Client
begin

text \<open>
  \<^verbatim>\<open>paramiko/sftp_file.py\<close> over the client: files are read and written in requests of at most 32 KB at the position the
  file keeps. Reading ahead is a thread of the source; here it sends its requests at once when it is started, and a limit
  on the requests under way, which only delays it, is left out. \<open>raw_slurp\<close> and \<open>raw_write_all\<close> are the loops of
  \<^verbatim>\<open>BufferedFile\<close> (\<open>Buffered_File\<close> has them over a trace) over these reads and writes.
\<close>

definition MAX_REQUEST_SIZE :: nat where "MAX_REQUEST_SIZE = 32768"

definition the_file :: "nat \<Rightarrow> 'p sftp_client \<Rightarrow> sftp_file" where
  "the_file i c = cl_files c ! i"

section \<open>Opening\<close>

definition open_mode :: "string \<Rightarrow> int" where
  "open_mode mode =
     (let has = (\<lambda>ch. ch \<in> set mode);
          m = flag_if (has CHR ''r'' \<or> has CHR ''+'') SFTP_FLAG_READ 0;
          m = flag_if (has CHR ''w'' \<or> has CHR ''+'' \<or> has CHR ''a'') SFTP_FLAG_WRITE m;
          m = flag_if (has CHR ''w'') (SFTP_FLAG_CREATE OR SFTP_FLAG_TRUNC) m;
          m = flag_if (has CHR ''a'') (SFTP_FLAG_CREATE OR SFTP_FLAG_APPEND) m
      in flag_if (has CHR ''x'') (SFTP_FLAG_CREATE OR SFTP_FLAG_EXCL) m)"

definition sf_stat :: "'p net \<Rightarrow> nat \<Rightarrow> ('p sftp_client, sftp_attributes) sm" where
  "sf_stat net i = (\<lambda>c. bindS (request net CMD_FSTAT [IBytes (sf_handle (the_file i c))]) expect_attrs c)"

text \<open>\<^verbatim>\<open>_get_size\<close> catches everything; a server that leaves out the size makes it \<open>None\<close>.\<close>

definition sf_get_size :: "'p net \<Rightarrow> nat \<Rightarrow> ('p sftp_client, int option) sm" where
  "sf_get_size net i = (\<lambda>c.
     case sf_stat net i c of
       (Inl Blocked, c') \<Rightarrow> (Inl Blocked, c')
     | (Inl _, c') \<Rightarrow> (Inr (Some 0), c')
     | (Inr a, c') \<Rightarrow> (Inr (st_size a), c'))"

text \<open>The new file object; in append mode \<^verbatim>\<open>_set_mode\<close> asks for its size, and without one the position is unusable.\<close>

definition cl_open :: "'p net \<Rightarrow> ustr \<Rightarrow> string \<Rightarrow> ('p sftp_client, nat) sm" where
  "cl_open net filename mode =
     bindS (adjust_cwd filename) (\<lambda>filename.
     bindS (open_handle net CMD_OPEN [IBytes filename, IInt (open_mode mode), IAttr new_attributes]) (\<lambda>handle c.
       let i = length (cl_files c)
       in bindS (modS (\<lambda>c. c\<lparr>cl_files := cl_files c @ [new_sftp_file handle]\<rparr>)) (\<lambda>_.
          bindS (if CHR ''a'' \<in> set mode
                 then bindS (sf_get_size net i) (\<lambda>n. case n of
                        Some n \<Rightarrow> upd_file i (\<lambda>f. f\<lparr>sf_append := True, sf_size := n, sf_realpos := n\<rparr>)
                      | None \<Rightarrow> raiseS TypeError)
                 else retS ()) (\<lambda>_. retS i)) c))"

section \<open>Reading ahead\<close>

definition data_in_prefetch_buffers :: "int \<Rightarrow> sftp_file \<Rightarrow> int option" where
  "data_in_prefetch_buffers offset f =
     (let k = filter (\<lambda>i. i \<le> offset) (map fst (sf_prefetch_data f))
      in if k = [] then None
         else
           let index = Max (set k)
           in if offset - index \<ge> int (length (the (map_of (sf_prefetch_data f) index))) then None else Some index)"

text \<open>The extent that starts last, of those that start at or before \<open>offset\<close> (of several, the one listed last).\<close>

definition last_extent :: "int \<Rightarrow> (int \<times> int) list \<Rightarrow> (int \<times> int) option" where
  "last_extent offset ext =
     (let k = filter (\<lambda>x. fst x \<le> offset) ext
      in if k = [] then None else Some (last (sort_key fst k)))"

function data_in_prefetch_requests :: "(int \<times> int) list \<Rightarrow> int \<Rightarrow> int \<Rightarrow> bool" where
  "data_in_prefetch_requests ext offset n =
     (case last_extent offset ext of
        None \<Rightarrow> False
      | Some (buf_offset, buf_size) \<Rightarrow>
          if buf_offset + buf_size \<le> offset then False
          else if buf_offset + buf_size \<ge> offset + n then True
          else data_in_prefetch_requests ext (buf_offset + buf_size) (offset + n - buf_offset - buf_size))"
  by pat_completeness auto
termination
  by (relation "measure (\<lambda>(ext, offset, n). nat n)") auto

declare data_in_prefetch_requests.simps [simp del]

function prefetch_chunks :: "int \<Rightarrow> int \<Rightarrow> (int \<times> int) list" where
  "prefetch_chunks n file_size =
     (if n < file_size then
        let chunk = min (int MAX_REQUEST_SIZE) (file_size - n) in (n, chunk) # prefetch_chunks (n + chunk) file_size
      else [])"
  by pat_completeness auto
termination
  by (relation "measure (\<lambda>(n, file_size). nat (file_size - n))") (auto simp: MAX_REQUEST_SIZE_def)

declare prefetch_chunks.simps [simp del]

fun prefetch_thread :: "'p net \<Rightarrow> nat \<Rightarrow> (int \<times> int) list \<Rightarrow> ('p sftp_client, unit) sm" where
  "prefetch_thread net i [] = retS ()"
| "prefetch_thread net i ((offset, len) # chunks) =
     bindS (\<lambda>c. async_request net (Some i) CMD_READ [IBytes (sf_handle (the_file i c)), IInt64 offset, IInt len] c) (\<lambda>num.
     bindS (upd_file i (\<lambda>f. f\<lparr>sf_prefetch_extents := dict_put num (offset, len) (sf_prefetch_extents f)\<rparr>)) (\<lambda>_.
       prefetch_thread net i chunks))"

definition start_prefetch :: "'p net \<Rightarrow> nat \<Rightarrow> (int \<times> int) list \<Rightarrow> ('p sftp_client, unit) sm" where
  "start_prefetch net i chunks =
     bindS (upd_file i (\<lambda>f. f\<lparr>sf_prefetching := True, sf_prefetch_done := False\<rparr>)) (\<lambda>_. prefetch_thread net i chunks)"

definition sf_prefetch :: "'p net \<Rightarrow> nat \<Rightarrow> int option \<Rightarrow> ('p sftp_client, unit) sm" where
  "sf_prefetch net i file_size =
     bindS (case file_size of
              Some n \<Rightarrow> retS n
            | None \<Rightarrow> bindS (sf_stat net i) (\<lambda>a. case st_size a of Some n \<Rightarrow> retS n | None \<Rightarrow> raiseS TypeError)) (\<lambda>file_size c.
       let chunks = prefetch_chunks (sf_realpos (the_file i c)) file_size
       in if chunks \<noteq> [] then start_prefetch net i chunks c else (Inr (), c))"

text \<open>\<^verbatim>\<open>_check_exception\<close>\<close>

definition check_exception :: "nat \<Rightarrow> ('p sftp_client, unit) sm" where
  "check_exception i = (\<lambda>c.
     case sf_saved_exception (the_file i c) of
       None \<Rightarrow> (Inr (), c)
     | Some e \<Rightarrow> bindS (upd_file i (\<lambda>f. f\<lparr>sf_saved_exception := None\<rparr>)) (\<lambda>_. raiseS e) c)"

text \<open>What \<^verbatim>\<open>_read_prefetch\<close> does with the buffer that holds the position: a part before it and a part after what was
  asked for go back.\<close>

definition cut_prefetch :: "int \<Rightarrow> nat \<Rightarrow> sftp_file \<Rightarrow> bytes \<times> sftp_file" where
  "cut_prefetch index n f =
     (let buf = the (map_of (sf_prefetch_data f) index);
          d = dict_del index (sf_prefetch_data f);
          buf_offset = nat (sf_realpos f - index);
          d = (if buf_offset > 0 then dict_put index (take buf_offset buf) d else d);
          buf = drop buf_offset buf;
          d = (if n < length buf then dict_put (sf_realpos f + int n) (drop n buf) d else d)
      in (take n buf, f\<lparr>sf_prefetch_data := d\<rparr>))"

text \<open>Its loop reads answers until the data is there; it need not end. \<open>None\<close> as a value: read it in the normal way.\<close>

partial_function (option) read_prefetch ::
  "nat \<Rightarrow> nat \<Rightarrow> 'p sftp_client \<Rightarrow> (bytes option res \<times> 'p sftp_client) option" where
  "read_prefetch i n c =
     (case data_in_prefetch_buffers (sf_realpos (the_file i c)) (the_file i c) of
        Some index \<Rightarrow>
          (case cut_prefetch index n (the_file i c) of (d, f) \<Rightarrow> Some (Inr (Some d), snd (upd_file i (\<lambda>_. f) c)))
      | None \<Rightarrow>
          if sf_prefetch_done (the_file i c) \<or> sf_closed (the_file i c)
          then Some (Inr None, snd (upd_file i (\<lambda>f. f\<lparr>sf_prefetching := False\<rparr>) c))
          else
            (case bindS (read_response None) (\<lambda>_. check_exception i) c of
               (Inl e, c') \<Rightarrow> Some (Inl e, c')
             | (Inr _, c') \<Rightarrow> read_prefetch i n c'))"

section \<open>Reading and writing\<close>

definition sf_read_request :: "'p net \<Rightarrow> nat \<Rightarrow> nat \<Rightarrow> ('p sftp_client, bytes) sm" where
  "sf_read_request net i n = (\<lambda>c.
     bindS (request net CMD_READ [IBytes (sf_handle (the_file i c)), IInt64 (sf_realpos (the_file i c)), IInt (int n)]) (\<lambda>(t, msg).
       if t \<noteq> CMD_DATA then raiseS (SFTPError ''Expected data'') else reading get_string msg (\<lambda>s _. retS s)) c)"

definition sf_read :: "'p net \<Rightarrow> nat \<Rightarrow> nat \<Rightarrow> 'p sftp_client \<Rightarrow> (bytes res \<times> 'p sftp_client) option" where
  "sf_read net i n0 c =
     (let n = min n0 MAX_REQUEST_SIZE
      in if sf_prefetching (the_file i c) then
           (case read_prefetch i n c of
              None \<Rightarrow> None
            | Some (Inl e, c') \<Rightarrow> Some (Inl e, c')
            | Some (Inr (Some d), c') \<Rightarrow> Some (Inr d, c')
            | Some (Inr None, c') \<Rightarrow> Some (sf_read_request net i n c'))
         else Some (sf_read_request net i n c))"

text \<open>The requests under way are forgotten as they are waited for; where one raises, the later ones stay.\<close>

fun drain_reqs :: "nat \<Rightarrow> int list \<Rightarrow> ('p sftp_client, unit) sm" where
  "drain_reqs i [] = retS ()"
| "drain_reqs i (r # rs) =
     bindS (upd_file i (\<lambda>f. f\<lparr>sf_reqs := rs\<rparr>)) (\<lambda>_.
     bindS (await r) (\<lambda>(t, msg). if t \<noteq> CMD_STATUS then raiseS (SFTPError ''Expected status'') else drain_reqs i rs))"

text \<open>\<^verbatim>\<open>recv_ready\<close> of the channel: an answer is there.\<close>

definition sf_write :: "'p net \<Rightarrow> nat \<Rightarrow> bytes \<Rightarrow> ('p sftp_client, nat) sm" where
  "sf_write net i data =
     (let chunk = min (length data) MAX_REQUEST_SIZE
      in bindS (\<lambda>c. async_request net None CMD_WRITE
                 [IBytes (sf_handle (the_file i c)), IInt64 (sf_realpos (the_file i c)), IBytes (take chunk data)] c) (\<lambda>req.
         bindS (upd_file i (\<lambda>f. f\<lparr>sf_reqs := sf_reqs f @ [req]\<rparr>)) (\<lambda>_.
         bindS (\<lambda>c. if \<not> sf_pipelined (the_file i c) \<or> (length (sf_reqs (the_file i c)) > 100 \<and> cl_in c \<noteq> [])
                 then drain_reqs i (sf_reqs (the_file i c)) c else (Inr (), c)) (\<lambda>_.
           retS chunk))))"

definition move_pos :: "nat \<Rightarrow> nat \<Rightarrow> ('p sftp_client, unit) sm" where
  "move_pos i n = upd_file i (\<lambda>f. f\<lparr>sf_realpos := sf_realpos f + int n\<rparr>)"

text \<open>After a write: a file in append mode counts its size and goes to the end of it.\<close>

definition wrote_pos :: "nat \<Rightarrow> nat \<Rightarrow> ('p sftp_client, unit) sm" where
  "wrote_pos i n = upd_file i (\<lambda>f.
     if sf_append f then f\<lparr>sf_size := sf_size f + int n, sf_realpos := sf_size f + int n\<rparr>
     else f\<lparr>sf_realpos := sf_realpos f + int n\<rparr>)"

text \<open>\<^verbatim>\<open>BufferedFile._write_all\<close> and \<^verbatim>\<open>BufferedFile.read()\<close> over these.\<close>

lemma sf_write_pos: "sf_write net i data c = (Inr n, c') \<Longrightarrow> n = min (length data) MAX_REQUEST_SIZE"
  by (auto simp: sf_write_def Let_def bindS_Inr_iff retS_def)

function raw_write_all :: "'p net \<Rightarrow> nat \<Rightarrow> bytes \<Rightarrow> ('p sftp_client, unit) sm" where
  "raw_write_all net i data c =
     (if data = [] then (Inr (), c)
      else
        (case sf_write net i data c of
           (Inl e, c') \<Rightarrow> (Inl e, c')
         | (Inr n, c') \<Rightarrow> raw_write_all net i (drop n data) (snd (wrote_pos i n c'))))"
  by pat_completeness auto
termination
  by (relation "measure (\<lambda>(net, i, data, c). length data)") (auto simp: MAX_REQUEST_SIZE_def dest: sf_write_pos [OF sym])

declare raw_write_all.simps [simp del]

partial_function (option) raw_slurp ::
  "'p net \<Rightarrow> nat \<Rightarrow> nat \<Rightarrow> bytes \<Rightarrow> 'p sftp_client \<Rightarrow> (bytes res \<times> 'p sftp_client) option" where
  "raw_slurp net i bufsize acc c =
     (case sf_read net i bufsize c of
        None \<Rightarrow> None
      | Some (Inl e, c') \<Rightarrow> Some (if e = EOFError then Inr acc else Inl e, c')
      | Some (Inr d, c') \<Rightarrow>
          if d = [] then Some (Inr acc, c') else raw_slurp net i bufsize (acc @ d) (snd (move_pos i (length d) c')))"

section \<open>The rest\<close>

definition fsetstat :: "'p net \<Rightarrow> nat \<Rightarrow> sftp_attributes \<Rightarrow> ('p sftp_client, unit) sm" where
  "fsetstat net i a = (\<lambda>c. request_done net CMD_FSETSTAT [IBytes (sf_handle (the_file i c)), IAttr a] c)"

definition sf_chmod :: "'p net \<Rightarrow> nat \<Rightarrow> int \<Rightarrow> ('p sftp_client, unit) sm" where
  "sf_chmod net i mode = fsetstat net i (new_attributes\<lparr>st_mode := Some mode\<rparr>)"

definition sf_chown :: "'p net \<Rightarrow> nat \<Rightarrow> int \<Rightarrow> int \<Rightarrow> ('p sftp_client, unit) sm" where
  "sf_chown net i uid gid = fsetstat net i (new_attributes\<lparr>st_uid := Some uid, st_gid := Some gid\<rparr>)"

definition sf_utime :: "'p net \<Rightarrow> rat \<Rightarrow> nat \<Rightarrow> (rat \<times> rat) option \<Rightarrow> ('p sftp_client, unit) sm" where
  "sf_utime net now i when =
     (case (case when of None \<Rightarrow> (now, now) | Some p \<Rightarrow> p) of (atime, mtime) \<Rightarrow>
        fsetstat net i (new_attributes\<lparr>st_atime := Some atime, st_mtime := Some mtime\<rparr>))"

definition sf_truncate :: "'p net \<Rightarrow> nat \<Rightarrow> int \<Rightarrow> ('p sftp_client, unit) sm" where
  "sf_truncate net i n = fsetstat net i (new_attributes\<lparr>st_size := Some n\<rparr>)"

definition sf_check :: "'p net \<Rightarrow> nat \<Rightarrow> ustr \<Rightarrow> int \<Rightarrow> int \<Rightarrow> int \<Rightarrow> ('p sftp_client, bytes) sm" where
  "sf_check net i hash_algorithm offset len block_size = (\<lambda>c.
     bindS (request net CMD_EXTENDED [IText (lit ''check-file''), IBytes (sf_handle (the_file i c)), IText hash_algorithm,
       IInt64 offset, IInt64 len, IInt block_size]) (\<lambda>(t, msg).
       reading get_text msg (\<lambda>_ msg. reading get_text msg (\<lambda>_ msg. retS (get_remainder msg)))) c)"

definition set_pipelined :: "nat \<Rightarrow> bool \<Rightarrow> ('p sftp_client, unit) sm" where
  "set_pipelined i b = upd_file i (\<lambda>f. f\<lparr>sf_pipelined := b\<rparr>)"

text \<open>\<^verbatim>\<open>_finish_responses\<close>: answers are read while one to this file is expected; each uses up one of what has arrived.\<close>

fun finish_responses :: "nat \<Rightarrow> nat \<Rightarrow> ('p sftp_client, unit) sm" where
  "finish_responses 0 i = (\<lambda>c. if Some i \<in> snd ` set (cl_expecting c) then (Inl Blocked, c) else (Inr (), c))"
| "finish_responses (Suc fuel) i = (\<lambda>c.
     if Some i \<in> snd ` set (cl_expecting c)
     then bindS (read_response None) (\<lambda>_. bindS (check_exception i) (\<lambda>_. finish_responses fuel i)) c
     else (Inr (), c))"

text \<open>\<^verbatim>\<open>_close\<close>; the flush of what \<open>Buffered_File\<close> has buffered comes between its two parts. Nothing that the request to close the
  handle raises as end of file or as an I/O error is passed on.\<close>

definition io_failure :: "pyexc \<Rightarrow> bool" where
  "io_failure e = (case e of EOFError \<Rightarrow> True | OSErr _ _ \<Rightarrow> True | IOError _ \<Rightarrow> True | OSError \<Rightarrow> True | SocketError \<Rightarrow> True | SocketTimeout \<Rightarrow> True | _ \<Rightarrow> False)"

definition sf_close :: "'p net \<Rightarrow> bool \<Rightarrow> nat \<Rightarrow> ('p sftp_client, unit) sm" where
  "sf_close net asyn i = (\<lambda>c.
     if sf_closed (the_file i c) then (Inr (), c)
     else
       bindS (if sf_pipelined (the_file i c) then finish_responses (length (cl_in c)) i else retS ()) (\<lambda>_.
       bindS (upd_file i (\<lambda>f. f\<lparr>sf_closed := True\<rparr>)) (\<lambda>_ c.
         case (if asyn then bindS (async_request net None CMD_CLOSE [IBytes (sf_handle (the_file i c))]) (\<lambda>_. retS ())
               else request_done net CMD_CLOSE [IBytes (sf_handle (the_file i c))]) c of
           (Inl e, c') \<Rightarrow> (if io_failure e then Inr () else Inl e, c')
         | (Inr _, c') \<Rightarrow> (Inr (), c'))) c)"

end
