(* ===== verification/Sftp_Remote.thy ===== *)
theory Sftp_Remote
  imports Sftp_Client Sftp_Handle
begin

text \<open>
  The client of \<open>Sftp_Client\<close> with the server of \<open>Sftp_Server\<close> as its peer: \<open>sftp_served\<close> is the net that hands a packet
  to the server and gives back what it sends. A call of the client does what the method of the application does that
  it stands for.
\<close>

section \<open>The server as a peer\<close>

definition sftp_served :: "sftp_env \<Rightarrow> ('f, 'h) sftp_si \<Rightarrow> ('f, 'h) sftp_server net" where
  "sftp_served env si = (\<lambda>(t, data) s.
     case serve_packet env si t data s of (_, s') \<Rightarrow> (map Inr (drop (length (sv_sent s)) (sv_sent s')), s'))"

text \<open>A client that waits for nothing.\<close>

definition idle :: "'p sftp_client \<Rightarrow> bool" where
  "idle c \<longleftrightarrow> cl_in c = [] \<and> cl_expecting c = [] \<and> 0 \<le> cl_request_number c \<and> cl_request_number c < 2 ^ 32"

definition after_call :: "'p sftp_client \<Rightarrow> 'p \<Rightarrow> 'p sftp_client" where
  "after_call c p = c\<lparr>cl_request_number := cl_request_number c + 1, cl_peer := p\<rparr>"

lemma retS_at: "retS x s = (Inr x, s)"
  by (simp add: retS_def)

lemma wire_Cons: "wire (f # fs) = enc_field f @ wire fs"
  by (simp add: wire_def)

lemma get_int_wire:
  assumes "0 \<le> n" "n < 2 ^ 32" "list_all ok_field fs"
  shows "\<exists>m. get_int (new_message (Some (wire (FInt n # fs)))) = (Inr n, m) \<and> holds_fields m fs"
proof -
  let ?m = "new_message (Some (wire (FInt n # fs)))"
  have r: "get_remainder ?m = be_bytes 4 n @ wire fs" by (simp add: get_remainder_def new_message_def wire_Cons)
  have "get_int ?m = (Inr n, advance ?m (length (be_bytes 4 n)))"
    by (rule f_int.get_prefix [of n ?m "wire fs"]) (use assms(1,2) r in simp_all)
  moreover have "holds_fields (advance ?m (length (be_bytes 4 n))) fs"
    using r assms(3) by (simp add: holds_fields_def wire_def)
  ultimately show ?thesis by blast
qed

text \<open>What the server makes of a request, and what the client makes of the answer.\<close>

definition answers_with :: "sftp_env \<Rightarrow> ('f, 'h) sftp_si \<Rightarrow> int \<Rightarrow> int \<Rightarrow> field list \<Rightarrow> ('f, 'h) sftp_server \<Rightarrow> int \<Rightarrow> field list \<Rightarrow>
    ('f, 'h) sftp_server \<Rightarrow> bool" where
  "answers_with env si n t fs s t' rs s' \<longleftrightarrow>
     serve_packet env si t (wire (FInt n # fs)) s = (Inr (), s') \<and>
     sv_sent s' = sv_sent s @ [(t', wire (FInt n # rs))] \<and> list_all ok_field rs"

definition client_sees :: "int \<Rightarrow> message \<Rightarrow> (int \<times> message) res" where
  "client_sees t m =
     (if t = CMD_STATUS then (case convert_status m of (Inl e, _) \<Rightarrow> Inl e | (Inr _, m') \<Rightarrow> Inr (t, m')) else Inr (t, m))"

text \<open>A client that has sent request \<open>n\<close> and has got the packet \<open>p\<close> for it.\<close>

definition has_asked :: "'p sftp_client \<Rightarrow> int \<times> bytes \<Rightarrow> 'p \<Rightarrow> 'p sftp_client" where
  "has_asked c p s = c\<lparr>cl_expecting := [(cl_request_number c, None)], cl_request_number := cl_request_number c + 1, cl_in := [Inr p], cl_peer := s\<rparr>"

lemma async_answered:
  assumes "idle c" "sendable (FInt (cl_request_number c) # concat (map item_fields items))" "0 \<le> t" "t < 256"
    and "answers_with env si (cl_request_number c) t (concat (map item_fields items)) (cl_peer c) t' rs s'"
  shows "async_request (sftp_served env si) None t items c =
     (Inr (cl_request_number c), has_asked c (t', wire (FInt (cl_request_number c) # rs)) s')"
proof -
  let ?n = "cl_request_number c" and ?fs = "concat (map item_fields items)"
  obtain b where b: "bindS (add_int ?n) (\<lambda>_. add_sftp_items items) (new_message None) = (Inr (), b)"
    "framed t b = Inr (t, wire (FInt ?n # ?fs))"
    using items_packet [OF assms(2-4)] unfolding sftp_packet_def by (auto split: prod.splits sum.splits)
  have "sftp_served env si (t, wire (FInt ?n # ?fs)) (cl_peer c) = ([Inr (t', wire (FInt ?n # rs))], s')"
    using assms(5) by (simp add: sftp_served_def answers_with_def)
  then show ?thesis
    using b assms(1) by (simp add: idle_def async_request_def Let_def bindS_modS liftR_Inr cl_send_def retS_at has_asked_def)
qed

lemma await_answer:
  assumes "0 \<le> n" "n < 2 ^ 32" "list_all ok_field rs" "cl_in c = [Inr (t', wire (FInt n # rs))]" "cl_expecting c = [(n, None)]"
  shows "\<exists>m. holds_fields m rs \<and> await n c = (client_sees t' m, c\<lparr>cl_in := [], cl_expecting := []\<rparr>)"
proof -
  obtain m where m: "get_int (new_message (Some (wire (FInt n # rs)))) = (Inr n, m)" "holds_fields m rs"
    using get_int_wire [OF assms(1-3)] by auto
  have "await n c = (client_sees t' m, c\<lparr>cl_in := [], cl_expecting := []\<rparr>)"
    using m(1) assms(4,5) by (auto simp: await_def read_response_def client_sees_def bindS_def retS_def dict_del_def Let_def
        split: prod.splits sum.splits)
  with m(2) show ?thesis by blast
qed

lemma request_answered:
  assumes "idle c" "sendable (FInt (cl_request_number c) # concat (map item_fields items))" "0 \<le> t" "t < 256"
    and "answers_with env si (cl_request_number c) t (concat (map item_fields items)) (cl_peer c) t' rs s'"
  shows "\<exists>m. holds_fields m rs \<and> request (sftp_served env si) t items c = (client_sees t' m, after_call c s')"
proof -
  let ?c = "has_asked c (t', wire (FInt (cl_request_number c) # rs)) s'"
  have n: "0 \<le> cl_request_number c" "cl_request_number c < 2 ^ 32" using assms(1) by (simp_all add: idle_def)
  have "list_all ok_field rs" using assms(5) by (simp add: answers_with_def)
  from await_answer [OF n this, of ?c t'] obtain m where m: "holds_fields m rs"
    "await (cl_request_number c) ?c = (client_sees t' m, ?c\<lparr>cl_in := [], cl_expecting := []\<rparr>)"
    by (auto simp: has_asked_def)
  moreover have "?c\<lparr>cl_in := [], cl_expecting := []\<rparr> = after_call c s'"
    using assms(1) by (simp add: has_asked_def after_call_def idle_def)
  ultimately show ?thesis
    by (auto simp: request_def bindS_step [where p = "async_request _ _ _ _", OF async_answered [OF assms]])
qed

lemma answers_if_done:
  assumes "0 \<le> n" "n < 2 ^ 32" "list_all ok_field fs" "list_all ok_field rs"
    and "\<And>m. holds_fields m fs \<Longrightarrow> process env si t n m s = (Inr (), s')"
    and "sv_sent s' = sv_sent s @ [(t', wire (FInt n # rs))]"
  shows "answers_with env si n t fs s t' rs s'"
proof -
  obtain m where "get_int (new_message (Some (wire (FInt n # fs)))) = (Inr n, m)" "holds_fields m fs"
    using get_int_wire [OF assms(1-3)] by blast
  with assms(4-6) show ?thesis by (simp add: answers_with_def serve_packet_def reading_def)
qed

definition with_status :: "int \<Rightarrow> int \<Rightarrow> ('f, 'h) sftp_server \<Rightarrow> ('f, 'h) sftp_server" where
  "with_status n code s = s\<lparr>sv_sent := sv_sent s @ [(CMD_STATUS, wire (status_fields n code (status_text code)))]\<rparr>"

lemma status_fields_ok: "0 \<le> code \<Longrightarrow> code < 2 ^ 32 \<Longrightarrow> list_all ok_field [FInt code, FText (status_text code), FText []]"
  using status_text_short [of code] short_text [of "[]"] by simp

lemma answers_if_raised:
  assumes "0 \<le> n" "n < 2 ^ 32" "list_all ok_field fs"
    and "\<And>m. holds_fields m fs \<Longrightarrow> process env si t n m s = (Inl e, s')" "e \<noteq> Blocked" "sv_sent s' = sv_sent s"
  shows "answers_with env si n t fs s CMD_STATUS [FInt SFTP_FAILURE, FText (status_text SFTP_FAILURE), FText []]
     (with_status n SFTP_FAILURE s')"
proof -
  obtain m where m: "get_int (new_message (Some (wire (FInt n # fs)))) = (Inr n, m)" "holds_fields m fs"
    using get_int_wire [OF assms(1-3)] by blast
  have "send_status n SFTP_FAILURE None s' = (Inr (), with_status n SFTP_FAILURE s')"
    using send_status_sends [OF assms(1,2), of SFTP_FAILURE s'] by (simp add: with_status_def SFTP_FAILURE_def)
  then have "serve_packet env si t (wire (FInt n # fs)) s = (Inr (), with_status n SFTP_FAILURE s')"
    using m assms(4) [OF m(2)] assms(5) by (cases e) (simp_all add: serve_packet_def reading_def)
  then show ?thesis
    using status_fields_ok [of SFTP_FAILURE] assms(6) by (simp add: answers_with_def with_status_def status_fields_def SFTP_FAILURE_def)
qed

section \<open>Calls that are answered with a status\<close>

lemma holds_int: "holds_fields m (FInt n # fs) \<Longrightarrow> \<exists>m'. get_int m = (Inr n, m') \<and> holds_fields m' fs"
  using f_int.get_prefix [of n m "concat (map enc_field fs)"] by (auto simp: holds_fields_def)

lemma holds_text: "holds_fields m (FText s # fs) \<Longrightarrow> \<exists>m'. get_text m = (Inr s, m') \<and> holds_fields m' fs"
  using f_text.get_prefix [of s m "concat (map enc_field fs)"] by (auto simp: holds_fields_def enc_field_def)

lemma holds_string: "holds_fields m (FString s # fs) \<Longrightarrow> \<exists>m'. get_string m = (Inr s, m') \<and> holds_fields m' fs"
  using f_string.get_prefix [of s m "concat (map enc_field fs)"] by (auto simp: holds_fields_def)

text \<open>What the client makes of a code.\<close>

definition code_result :: "int \<Rightarrow> unit res" where
  "code_result code =
     (if code = SFTP_OK then Inr ()
      else if code = SFTP_EOF then Inl EOFError
      else if code = SFTP_NO_SUCH_FILE then Inl (OSErr (Some ENOENT) (status_text code))
      else if code = SFTP_PERMISSION_DENIED then Inl (OSErr (Some EACCES) (status_text code))
      else Inl (OSErr None (status_text code)))"

text \<open>What the client is told of what the application gave for a code: where it raised, or gave a number that is no
  code, a failure.\<close>

definition told_code :: "int res \<Rightarrow> unit res" where
  "told_code r =
     (case r of
        Inr code \<Rightarrow> (if 0 \<le> code \<and> code < 2 ^ 32 then code_result code else code_result SFTP_FAILURE)
      | Inl _ \<Rightarrow> code_result SFTP_FAILURE)"

lemma convert_status_holds:
  assumes "holds_fields m [FInt code, FText (status_text code), FText []]"
  shows "fst (convert_status m) = code_result code"
proof -
  obtain m1 where 1: "get_int m = (Inr code, m1)" "holds_fields m1 [FText (status_text code), FText []]"
    using holds_int [OF assms] by blast
  obtain m2 where "get_text m1 = (Inr (status_text code), m2)" using holds_text [OF 1(2)] by blast
  with 1(1) show ?thesis
    by (simp add: convert_status_def bindS_step [where p = get_int] bindS_step [where p = get_text] code_result_def retS_def raiseS_def)
qed

lemma send_status_bad: "\<not> (0 \<le> code \<and> code < 2 ^ 32) \<Longrightarrow> 0 \<le> n \<Longrightarrow> n < 2 ^ 32 \<Longrightarrow> send_status n code None s = (Inl StructError, s)"
  by (auto simp: send_status_def response_def sv_send_def sftp_packet_def bindS_def [of "add_int _"] bindS_def [of "liftR _"]
      add_int_def [of n] add_int_def [of code] pack_be_def liftR_def modS_def bindS_def)

definition served_state :: "('f, 'h) sftp_server \<Rightarrow> 'f \<Rightarrow> ('f, 'h) sftp_server \<Rightarrow> bool" where
  "served_state s fs s' \<longleftrightarrow> (\<exists>S. s' = s\<lparr>sv_fs := fs, sv_sent := S\<rparr>)"

text \<open>The application gives \<open>r\<close>, which the server turns into a code.\<close>

lemma answers_code:
  assumes "0 \<le> n" "n < 2 ^ 32" "list_all ok_field fs" "f (sv_fs s) = (r, fs')" "r \<noteq> Inl Blocked"
    and "\<And>m. holds_fields m fs \<Longrightarrow> process env si t n m s = bindS (app f) k s"
    and "\<And>x. r = Inr x \<Longrightarrow> k x = send_status n (g x) None"
  shows "\<exists>s' code. answers_with env si n t fs s CMD_STATUS [FInt code, FText (status_text code), FText []] s' \<and>
     code_result code = told_code (bindR r (\<lambda>x. Inr (g x))) \<and> served_state s fs' s'"
proof -
  let ?s = "s\<lparr>sv_fs := fs'\<rparr>" and ?r = "bindR r (\<lambda>x. Inr (g x))"
  have raised: ?thesis if p: "\<And>m. holds_fields m fs \<Longrightarrow> process env si t n m s = (Inl e, ?s)"
    and e: "e \<noteq> Blocked" and r: "told_code ?r = code_result SFTP_FAILURE" for e
    using answers_if_raised [OF assms(1-3) p e] r
    by (intro exI [of _ "with_status n SFTP_FAILURE ?s"] exI [of _ SFTP_FAILURE]) (auto simp: served_state_def with_status_def)
  show ?thesis
  proof (cases r)
    case (Inl e)
    show ?thesis
    proof (rule raised [of e])
      show "process env si t n m s = (Inl e, ?s)" if "holds_fields m fs" for m
        using assms(6) [OF that] assms(4) Inl by (simp add: app_def bindS_def)
    qed (use Inl assms(5) in \<open>simp_all add: told_code_def\<close>)
  next
    case (Inr x)
    have p: "process env si t n m s = send_status n (g x) None ?s" if "holds_fields m fs" for m
      using assms(6) [OF that] assms(4,7) Inr by (simp add: app_def bindS_def)
    show ?thesis
    proof (cases "0 \<le> g x \<and> g x < 2 ^ 32")
      case True
      have "answers_with env si n t fs s CMD_STATUS [FInt (g x), FText (status_text (g x)), FText []] (with_status n (g x) ?s)"
        using True send_status_sends [OF assms(1,2), of "g x" ?s]
        by (intro answers_if_done [OF assms(1-3) status_fields_ok]) (simp_all add: p with_status_def status_fields_def)
      with True Inr show ?thesis
        by (intro exI [of _ "with_status n (g x) ?s"] exI [of _ "g x"]) (auto simp: told_code_def served_state_def with_status_def)
    next
      case False
      show ?thesis
      proof (rule raised [of StructError])
        show "process env si t n m s = (Inl StructError, ?s)" if "holds_fields m fs" for m
          using p [OF that] send_status_bad [OF False assms(1,2)] by simp
      qed (use Inr False in \<open>auto simp: told_code_def\<close>)
    qed
  qed
qed

text \<open>A request that the application can be asked, and the request as the client sends it.\<close>

definition asks :: "'p sftp_client \<Rightarrow> int \<Rightarrow> sftp_item list \<Rightarrow> bool" where
  "asks c t items \<longleftrightarrow> idle c \<and> sendable (FInt (cl_request_number c) # concat (map item_fields items)) \<and> 0 \<le> t \<and> t < 256"

lemma request_code:
  assumes "asks c t items" "f (sv_fs (cl_peer c)) = (r, fs')" "r \<noteq> Inl Blocked"
    and "\<And>m s. holds_fields m (concat (map item_fields items)) \<Longrightarrow> process env si t (cl_request_number c) m s = bindS (app f) k s"
    and "\<And>x. r = Inr x \<Longrightarrow> k x = send_status (cl_request_number c) (g x) None"
  shows "\<exists>s' m. request (sftp_served env si) t items c =
       (bindR (told_code (bindR r (\<lambda>x. Inr (g x)))) (\<lambda>_. Inr (CMD_STATUS, m)), after_call c s') \<and> served_state (cl_peer c) fs' s'"
proof -
  have n: "0 \<le> cl_request_number c" "cl_request_number c < 2 ^ 32" and q: "idle c"
      "sendable (FInt (cl_request_number c) # concat (map item_fields items))" "0 \<le> t" "t < 256"
    using assms(1) by (simp_all add: asks_def idle_def)
  have ok: "list_all ok_field (concat (map item_fields items))" using q(2) by (simp add: sendable_def)
  obtain s' code where a: "answers_with env si (cl_request_number c) t (concat (map item_fields items)) (cl_peer c) CMD_STATUS
      [FInt code, FText (status_text code), FText []] s'" "code_result code = told_code (bindR r (\<lambda>x. Inr (g x)))"
      "served_state (cl_peer c) fs' s'"
    using answers_code [OF n ok assms(2,3) assms(4,5)] by blast
  from request_answered [OF q a(1)] obtain m where m: "holds_fields m [FInt code, FText (status_text code), FText []]"
    "request (sftp_served env si) t items c = (client_sees CMD_STATUS m, after_call c s')" by blast
  obtain r' m' where cs: "convert_status m = (r', m')" by fastforce
  with convert_status_holds [OF m(1)] a(2) have r': "told_code (bindR r (\<lambda>x. Inr (g x))) = r'" by simp
  have "client_sees CMD_STATUS m = bindR r' (\<lambda>_. Inr (CMD_STATUS, m'))"
    using cs by (cases r') (simp_all add: client_sees_def)
  with m(2) a(3) show ?thesis unfolding r' by (intro exI [of _ s'] exI [of _ m']) simp
qed

lemma status_call:
  assumes "asks c t items" "f (sv_fs (cl_peer c)) = (r, fs')" "r \<noteq> Inl Blocked"
    and "\<And>m s. holds_fields m (concat (map item_fields items)) \<Longrightarrow>
        process env si t (cl_request_number c) m s = app_status (cl_request_number c) f s"
  shows "\<exists>s'. request_done (sftp_served env si) t items c = (told_code r, after_call c s') \<and> served_state (cl_peer c) fs' s'"
proof -
  obtain s' m where m: "request (sftp_served env si) t items c =
       (bindR (told_code (bindR r (\<lambda>x. Inr x))) (\<lambda>_. Inr (CMD_STATUS, m)), after_call c s')" "served_state (cl_peer c) fs' s'"
    using request_code [where f = f and k = "\<lambda>x. send_status (cl_request_number c) x None" and g = "\<lambda>x. x", OF assms(1-3)]
      assms(4) unfolding app_status_def by blast
  have "bindR r (\<lambda>x. Inr x) = r" by (cases r) simp_all
  with m have "request_done (sftp_served env si) t items c = (told_code r, after_call c s')"
    by (cases "told_code r") (simp_all add: request_done_def bindS_def retS_def)
  with m(2) show ?thesis by blast
qed

text \<open>A call whose answer is a value.\<close>

lemma request_value:
  assumes "asks c t items" "f (sv_fs (cl_peer c)) = (r, fs')" "r \<noteq> Inl Blocked"
    and "\<And>m s. holds_fields m (concat (map item_fields items)) \<Longrightarrow> process env si t (cl_request_number c) m s = bindS (app f) k s"
    and "r = Inr x" "\<And>s. k x s = (Inr (), s\<lparr>sv_sent := sv_sent s @ [(t', wire (FInt (cl_request_number c) # rs))]\<rparr>)"
    and "list_all ok_field rs" "t' \<noteq> CMD_STATUS"
  shows "\<exists>s' m. request (sftp_served env si) t items c = (Inr (t', m), after_call c s') \<and> holds_fields m rs \<and>
     served_state (cl_peer c) fs' s'"
proof -
  have n: "0 \<le> cl_request_number c" "cl_request_number c < 2 ^ 32" and q: "idle c"
      "sendable (FInt (cl_request_number c) # concat (map item_fields items))" "0 \<le> t" "t < 256"
    using assms(1) by (simp_all add: asks_def idle_def)
  have ok: "list_all ok_field (concat (map item_fields items))" using q(2) by (simp add: sendable_def)
  let ?s = "(cl_peer c)\<lparr>sv_fs := fs', sv_sent := sv_sent (cl_peer c) @ [(t', wire (FInt (cl_request_number c) # rs))]\<rparr>"
  have "answers_with env si (cl_request_number c) t (concat (map item_fields items)) (cl_peer c) t' rs ?s"
    by (rule answers_if_done [OF n ok assms(7)]) (use assms(2,4,5,6) in \<open>simp_all add: app_def bindS_def\<close>)
  from request_answered [OF q this] assms(8) show ?thesis
    by (auto simp: client_sees_def served_state_def)
qed

section \<open>The calls on paths\<close>

datatype path_call =
    Remove ustr | Rename ustr ustr | Posix_rename ustr ustr | Mkdir ustr int | Rmdir ustr | Set_attr ustr sftp_attributes
  | Symlink ustr ustr | Stat ustr | Lstat ustr | Readlink ustr | Normalize ustr

datatype call_value = Done | Attributes sftp_attributes | Target "(bytes + ustr) option" | Path ustr

text \<open>The client's methods.\<close>

fun remote_call :: "'p net \<Rightarrow> path_call \<Rightarrow> ('p sftp_client, call_value) sm" where
  "remote_call net (Remove p) = bindS (cl_remove net p) (\<lambda>_. retS Done)"
| "remote_call net (Rename p q) = bindS (cl_rename net p q) (\<lambda>_. retS Done)"
| "remote_call net (Posix_rename p q) = bindS (cl_posix_rename net p q) (\<lambda>_. retS Done)"
| "remote_call net (Mkdir p mode) = bindS (cl_mkdir net p mode) (\<lambda>_. retS Done)"
| "remote_call net (Rmdir p) = bindS (cl_rmdir net p) (\<lambda>_. retS Done)"
| "remote_call net (Set_attr p a) = bindS (set_attr net p a) (\<lambda>_. retS Done)"
| "remote_call net (Symlink p q) = bindS (cl_symlink net p q) (\<lambda>_. retS Done)"
| "remote_call net (Stat p) = bindS (cl_stat net p) (\<lambda>a. retS (Attributes a))"
| "remote_call net (Lstat p) = bindS (cl_lstat net p) (\<lambda>a. retS (Attributes a))"
| "remote_call net (Readlink p) = bindS (cl_readlink net p) (\<lambda>l. retS (Target l))"
| "remote_call net (Normalize p) = bindS (cl_normalize net p) (\<lambda>q. retS (Path q))"

text \<open>The application's methods that they stand for. A relative path counts from the client's folder \<open>cwd\<close>, the target
  of a link is left as it is, and attributes arrive as the wire carries them.\<close>

definition server_path :: "bytes option \<Rightarrow> ustr \<Rightarrow> ustr res" where
  "server_path cwd path = bindR (utf8_encode path) (\<lambda>b. utf8_decode (adjust_path cwd b))"

definition at_cwd :: "bytes option \<Rightarrow> ustr \<Rightarrow> ustr" where
  "at_cwd cwd path = (case server_path cwd path of Inr p \<Rightarrow> p | Inl _ \<Rightarrow> [])"

datatype app_answer =
    Gave_code int | Gave_attributes "sftp_attributes app_value" | Gave_target "ustr app_value" | Gave_path ustr

definition gave :: "('a \<Rightarrow> app_answer) \<Rightarrow> ('f, 'a) sm \<Rightarrow> ('f, app_answer) sm" where
  "gave g f = bindS f (\<lambda>x. retS (g x))"

fun local_call :: "('f, 'h) sftp_si \<Rightarrow> bytes option \<Rightarrow> path_call \<Rightarrow> ('f, app_answer) sm" where
  "local_call si cwd (Remove p) = gave Gave_code (si_remove si (at_cwd cwd p))"
| "local_call si cwd (Rename p q) = gave Gave_code (si_rename si (at_cwd cwd p) (at_cwd cwd q))"
| "local_call si cwd (Posix_rename p q) = gave Gave_code (si_posix_rename si (at_cwd cwd p) (at_cwd cwd q))"
| "local_call si cwd (Mkdir p mode) =
     gave Gave_code (si_mkdir si (at_cwd cwd p) (as_received (new_attributes\<lparr>st_mode := Some mode\<rparr>)))"
| "local_call si cwd (Rmdir p) = gave Gave_code (si_rmdir si (at_cwd cwd p))"
| "local_call si cwd (Set_attr p a) = gave Gave_code (si_chattr si (at_cwd cwd p) (as_received a))"
| "local_call si cwd (Symlink p q) = gave Gave_code (si_symlink si p (at_cwd cwd q))"
| "local_call si cwd (Stat p) = gave Gave_attributes (si_stat si (at_cwd cwd p))"
| "local_call si cwd (Lstat p) = gave Gave_attributes (si_lstat si (at_cwd cwd p))"
| "local_call si cwd (Readlink p) = gave Gave_target (si_readlink si (at_cwd cwd p))"
| "local_call si cwd (Normalize p) = gave Gave_path (si_canonicalize si (at_cwd cwd p))"

fun told :: "app_answer \<Rightarrow> call_value res" where
  "told (Gave_code code) = bindR (told_code (Inr code)) (\<lambda>_. Inr Done)"
| "told (Gave_attributes (Given a)) = Inr (Attributes (as_received a))"
| "told (Gave_attributes (Code code)) = bindR (told_code (Inr code)) (\<lambda>_. Inl (SFTPError ''Expected attributes''))"
| "told (Gave_target (Given l)) = Inr (Target (Some (Inr l)))"
| "told (Gave_target (Code code)) = bindR (told_code (Inr code)) (\<lambda>_. Inl (SFTPError ''Expected name response''))"
| "told (Gave_path p) = Inr (Path p)"

definition call_result :: "app_answer res \<Rightarrow> call_value res" where
  "call_result r = (case r of Inr x \<Rightarrow> told x | Inl _ \<Rightarrow> bindR (code_result SFTP_FAILURE) (\<lambda>_. Inr Done))"

text \<open>What has to fit the wire: texts that can be encoded, and messages that are not too long.\<close>

definition path_ok :: "bytes option \<Rightarrow> ustr \<Rightarrow> bool" where
  "path_ok cwd path \<longleftrightarrow>
     (\<exists>b p. utf8_encode path = Inr b \<and> utf8_decode (adjust_path cwd b) = Inr p \<and> length (adjust_path cwd b) < 2 ^ 24)"

definition attributes_fit :: "sftp_attributes \<Rightarrow> bool" where
  "attributes_fit a \<longleftrightarrow> packable a \<and> length (wire (attr_fields a)) < 2 ^ 24"

definition text_fits :: "ustr \<Rightarrow> bool" where
  "text_fits s \<longleftrightarrow> (\<exists>b. utf8_encode s = Inr b \<and> length b < 2 ^ 24)"

fun call_fits :: "bytes option \<Rightarrow> path_call \<Rightarrow> bool" where
  "call_fits cwd (Remove p) = path_ok cwd p"
| "call_fits cwd (Rename p q) = (path_ok cwd p \<and> path_ok cwd q)"
| "call_fits cwd (Posix_rename p q) = (path_ok cwd p \<and> path_ok cwd q)"
| "call_fits cwd (Mkdir p mode) = (path_ok cwd p \<and> 0 \<le> mode \<and> mode < 2 ^ 32)"
| "call_fits cwd (Rmdir p) = path_ok cwd p"
| "call_fits cwd (Set_attr p a) = (path_ok cwd p \<and> attributes_fit a)"
| "call_fits cwd (Symlink p q) = (path_ok None p \<and> path_ok cwd q)"
| "call_fits cwd (Stat p) = path_ok cwd p"
| "call_fits cwd (Lstat p) = path_ok cwd p"
| "call_fits cwd (Readlink p) = path_ok cwd p"
| "call_fits cwd (Normalize p) = path_ok cwd p"

fun answer_fits :: "app_answer \<Rightarrow> bool" where
  "answer_fits (Gave_attributes (Given a)) = attributes_fit a"
| "answer_fits (Gave_target (Given l)) = text_fits l"
| "answer_fits (Gave_path p) = text_fits p"
| "answer_fits _ = True"

definition result_fits :: "app_answer res \<Rightarrow> bool" where
  "result_fits r \<longleftrightarrow> (case r of Inr x \<Rightarrow> answer_fits x | Inl e \<Rightarrow> e \<noteq> Blocked)"

text \<open>Reading what the client has sent.\<close>

lemma reading_encoded:
  assumes "holds_fields m (FString b # fs)" "utf8_decode b = Inr p" "\<And>m'. holds_fields m' fs \<Longrightarrow> f p m' s = x"
  shows "reading get_text m f s = x"
proof -
  obtain m' where "get_string m = (Inr b, m')" "holds_fields m' fs" using holds_string [OF assms(1)] by blast
  then show ?thesis using assms(2,3) by (simp add: reading_def get_text_def bindS_def liftR_def)
qed

lemma reading_attributes:
  assumes "holds_fields m (attr_fields a @ fs)" "\<And>m'. holds_fields m' fs \<Longrightarrow> f (as_received a) m' s = x"
  shows "reading (from_msg None None) m f s = x"
proof -
  have "packable a" using assms(1) by (simp add: holds_fields_def packable_def)
  from reads_from_msg [OF this, of None None] assms(1)
  obtain m' where "from_msg None None m = (Inr (as_received a), m')" "get_remainder m' = concat (map enc_field fs)"
    by (auto simp: holds_fields_def reads_def)
  moreover from this assms(1) have "holds_fields m' fs" by (simp add: holds_fields_def)
  ultimately show ?thesis using assms(2) by (simp add: reading_def)
qed

lemma path_steps:
  assumes "path_ok cwd path"
  obtains b where "utf8_decode b = Inr (at_cwd cwd path)" "length b < 2 ^ 24"
    "\<And>c. cl_cwd c = cwd \<Longrightarrow> adjust_cwd path c = (Inr b, c)"
  using assms by (auto simp: path_ok_def at_cwd_def server_path_def adjust_cwd_def liftR_Inr)

lemma process_simps:
  "process env si CMD_REMOVE n m = reading get_text m (\<lambda>path m. app_status n (si_remove si path))"
  "process env si CMD_RENAME n m = reading get_text m (\<lambda>p m. reading get_text m (\<lambda>q m. app_status n (si_rename si p q)))"
  "process env si CMD_MKDIR n m = reading get_text m (\<lambda>p m. reading (from_msg None None) m (\<lambda>a m. app_status n (si_mkdir si p a)))"
  "process env si CMD_RMDIR n m = reading get_text m (\<lambda>path m. app_status n (si_rmdir si path))"
  "process env si CMD_SETSTAT n m = reading get_text m (\<lambda>p m. reading (from_msg None None) m (\<lambda>a m. app_status n (si_chattr si p a)))"
  "process env si CMD_SYMLINK n m = reading get_text m (\<lambda>p m. reading get_text m (\<lambda>q m. app_status n (si_symlink si p q)))"
  "process env si CMD_STAT n m = reading get_text m (\<lambda>p m. bindS (app (si_stat si p)) (send_attrs n))"
  "process env si CMD_LSTAT n m = reading get_text m (\<lambda>p m. bindS (app (si_lstat si p)) (send_attrs n))"
  "process env si CMD_READLINK n m = reading get_text m (\<lambda>p m. bindS (app (si_readlink si p)) (\<lambda>resp.
     case resp of Given link \<Rightarrow> send_name n link | Code c \<Rightarrow> send_status n c None))"
  "process env si CMD_REALPATH n m = reading get_text m (\<lambda>p m. bindS (app (si_canonicalize si p)) (send_name n))"
  "process env si CMD_EXTENDED n m = process_extended env si n m"
  by (simp_all add: process_def CMD_NAMES_def cmd_defs)

lemma gave_code:
  assumes "gave Gave_code f fs = (r, fs')" "result_fits r"
  obtains r0 where "f fs = (r0, fs')" "r0 \<noteq> Inl Blocked" "call_result r = bindR (told_code r0) (\<lambda>_. Inr Done)"
  using assms by (cases "f fs"; cases "fst (f fs)")
    (auto simp: gave_def bindS_def retS_def result_fits_def call_result_def told_code_def split: if_splits)

lemma status_calls:
  assumes "asks c t items" "gave Gave_code f (sv_fs (cl_peer c)) = (r, fs')" "result_fits r"
    and "\<And>m s. holds_fields m (concat (map item_fields items)) \<Longrightarrow>
        process env si t (cl_request_number c) m s = app_status (cl_request_number c) f s"
  shows "\<exists>s'. bindS (request_done (sftp_served env si) t items) (\<lambda>_. retS Done) c = (call_result r, after_call c s') \<and>
     served_state (cl_peer c) fs' s'"
proof -
  obtain r0 where r0: "f (sv_fs (cl_peer c)) = (r0, fs')" "r0 \<noteq> Inl Blocked" "call_result r = bindR (told_code r0) (\<lambda>_. Inr Done)"
    using gave_code [OF assms(2,3)] .
  from status_call [where f = f, OF assms(1) r0(1,2) assms(4)] obtain s' where
    s': "request_done (sftp_served env si) t items c = (told_code r0, after_call c s')" "served_state (cl_peer c) fs' s'" by blast
  then have "bindS (request_done (sftp_served env si) t items) (\<lambda>_. retS Done) c = (call_result r, after_call c s')"
    by (cases "told_code r0") (simp_all add: r0(3) bindS_def retS_def)
  with s'(2) show ?thesis by blast
qed

text \<open>A call whose answer is read by \<open>k'\<close>, which takes a status for a mistake.\<close>

lemma value_calls:
  assumes "asks c t items" "gave g f (sv_fs (cl_peer c)) = (r, fs')" "result_fits r"
    and "\<And>m s. holds_fields m (concat (map item_fields items)) \<Longrightarrow> process env si t (cl_request_number c) m s = bindS (app f) k s"
    and "\<And>m c. k' (CMD_STATUS, m) c = (Inl e', c)" "t' \<noteq> CMD_STATUS"
    and "\<And>x. answer_fits (g x) \<Longrightarrow>
      (\<exists>code. k x = send_status (cl_request_number c) code None \<and> told (g x) = bindR (told_code (Inr code)) (\<lambda>_. Inl e')) \<or>
      (\<exists>rs. (\<forall>s. k x s = (Inr (), s\<lparr>sv_sent := sv_sent s @ [(t', wire (FInt (cl_request_number c) # rs))]\<rparr>)) \<and> list_all ok_field rs \<and>
        (\<forall>m d. holds_fields m rs \<longrightarrow> k' (t', m) d = (told (g x), d)))"
  shows "\<exists>s'. bindS (request (sftp_served env si) t items) k' c = (call_result r, after_call c s') \<and> served_state (cl_peer c) fs' s'"
proof -
  obtain r0 where r0: "f (sv_fs (cl_peer c)) = (r0, fs')" "r = bindR r0 (\<lambda>x. Inr (g x))" "r0 \<noteq> Inl Blocked"
    using assms(2,3) by (cases "f (sv_fs (cl_peer c))"; cases "fst (f (sv_fs (cl_peer c)))")
      (auto simp: gave_def bindS_def retS_def result_fits_def)
  have coded: ?thesis if k: "\<And>x. r0 = Inr x \<Longrightarrow> k x = send_status (cl_request_number c) code None"
    and r: "call_result r = bindR (told_code (bindR r0 (\<lambda>_. Inr code))) (\<lambda>_. Inl e')" for code
  proof -
    from request_code [where f = f and k = k and g = "\<lambda>_. code", OF assms(1) r0(1,3) assms(4) k] obtain s' m where
      "request (sftp_served env si) t items c = (bindR (told_code (bindR r0 (\<lambda>_. Inr code))) (\<lambda>_. Inr (CMD_STATUS, m)), after_call c s')"
      "served_state (cl_peer c) fs' s'" by blast
    then show ?thesis using assms(5)
      by (intro exI [of _ s'], cases "told_code (bindR r0 (\<lambda>_. Inr code))") (simp_all add: bindS_def r)
  qed
  show ?thesis
  proof (cases r0)
    case (Inl e)
    have "told_code (Inl e) = Inl x \<Longrightarrow> code_result SFTP_FAILURE = Inl x" for x by (simp add: told_code_def)
    moreover have "\<exists>x. code_result SFTP_FAILURE = Inl x" by (simp add: code_result_def sftp_code_defs)
    ultimately show ?thesis using Inl r0(2)
      by (intro coded [of 0]) (auto simp: call_result_def told_code_def)
  next
    case (Inr x)
    then have "answer_fits (g x)" using assms(3) r0(2) by (simp add: result_fits_def)
    from assms(7) [OF this] show ?thesis
    proof (elim disjE exE conjE)
      fix code assume "k x = send_status (cl_request_number c) code None" "told (g x) = bindR (told_code (Inr code)) (\<lambda>_. Inl e')"
      then show ?thesis using Inr r0(2) by (intro coded [of code]) (simp_all add: call_result_def)
    next
      fix rs assume rs: "\<forall>s. k x s = (Inr (), s\<lparr>sv_sent := sv_sent s @ [(t', wire (FInt (cl_request_number c) # rs))]\<rparr>)"
        "list_all ok_field rs" "\<forall>m d. holds_fields m rs \<longrightarrow> k' (t', m) d = (told (g x), d)"
      from request_value [where f = f and k = k, OF assms(1) r0(1,3) assms(4) Inr rs(1) [rule_format] rs(2) assms(6)]
      obtain s' m where "request (sftp_served env si) t items c = (Inr (t', m), after_call c s')" "holds_fields m rs"
        "served_state (cl_peer c) fs' s'" by blast
      then show ?thesis using rs(3) Inr r0(2) by (intro exI [of _ s']) (simp add: bindS_def call_result_def)
    qed
  qed
qed

lemma send_attrs_sends:
  assumes "attributes_fit a" "0 \<le> n" "n < 2 ^ 32"
  shows "send_attrs n (Given a) s = (Inr (), s\<lparr>sv_sent := sv_sent s @ [(CMD_ATTRS, wire (FInt n # attr_fields a))]\<rparr>)"
proof -
  have "sendable (FInt n # concat (map item_fields [IAttr a]))"
    using assms by (simp add: sendable_def attributes_fit_def packable_def wire_def)
  then show ?thesis by (simp add: send_attrs_def response_sends CMD_ATTRS_def)
qed

lemma expect_attrs_reads:
  assumes "holds_fields m (attr_fields a)"
  shows "bindS (expect_attrs (CMD_ATTRS, m)) g d = g (as_received a) d"
proof -
  have "reading (from_msg None None) m (\<lambda>a _. retS a) d = (Inr (as_received a), d)"
    by (rule reading_attributes [of m a "[]"]) (use assms in \<open>simp_all add: retS_def\<close>)
  then show ?thesis by (simp add: expect_attrs_def bindS_def)
qed

lemma attribute_calls:
  assumes "asks c t items" "gave Gave_attributes f (sv_fs (cl_peer c)) = (r, fs')" "result_fits r"
    and "\<And>m s. holds_fields m (concat (map item_fields items)) \<Longrightarrow>
        process env si t (cl_request_number c) m s = bindS (app f) (send_attrs (cl_request_number c)) s"
  shows "\<exists>s'. bindS (request (sftp_served env si) t items) (\<lambda>x. bindS (expect_attrs x) (\<lambda>a. retS (Attributes a))) c =
     (call_result r, after_call c s') \<and> served_state (cl_peer c) fs' s'"
proof (rule value_calls [where f = f and k = "send_attrs (cl_request_number c)" and t' = CMD_ATTRS, OF assms])
  have n: "0 \<le> cl_request_number c" "cl_request_number c < 2 ^ 32" using assms(1) by (simp_all add: asks_def idle_def)
  show "bindS (expect_attrs (CMD_STATUS, m)) (\<lambda>a. retS (Attributes a)) d = (Inl (SFTPError ''Expected attributes''), d)" for m d
    by (simp add: expect_attrs_def cmd_defs raiseS_def bindS_def)
  fix x :: "sftp_attributes app_value" assume fits: "answer_fits (Gave_attributes x)"
  show "(\<exists>code. send_attrs (cl_request_number c) x = send_status (cl_request_number c) code None \<and>
        told (Gave_attributes x) = bindR (told_code (Inr code)) (\<lambda>_. Inl (SFTPError ''Expected attributes''))) \<or>
     (\<exists>rs. (\<forall>s. send_attrs (cl_request_number c) x s =
          (Inr (), s\<lparr>sv_sent := sv_sent s @ [(CMD_ATTRS, wire (FInt (cl_request_number c) # rs))]\<rparr>)) \<and> list_all ok_field rs \<and>
        (\<forall>m d. holds_fields m rs \<longrightarrow> bindS (expect_attrs (CMD_ATTRS, m)) (\<lambda>a. retS (Attributes a)) d = (told (Gave_attributes x), d)))"
  proof (cases x)
    case (Given a)
    with fits have "attributes_fit a" by simp
    then show ?thesis using n
      by (intro disjI2 exI [of _ "attr_fields a"]) (simp add: Given send_attrs_sends expect_attrs_reads attributes_fit_def packable_def retS_at)
  qed (auto simp: send_attrs_def)
qed (simp_all add: cmd_defs)

text \<open>Of the answers with a name both kinds have one.\<close>

definition name_fields :: "ustr \<Rightarrow> field list" where
  "name_fields p = [FInt 1, FText p, FText []] @ attr_fields new_attributes"

lemma send_name_sends:
  assumes "text_fits p" "0 \<le> n" "n < 2 ^ 32"
  shows "send_name n p s = (Inr (), s\<lparr>sv_sent := sv_sent s @ [(CMD_NAME, wire (FInt n # name_fields p))]\<rparr>)"
    and "list_all ok_field (name_fields p)"
proof -
  obtain b where b: "utf8_encode p = Inr b" "length b < 2 ^ 24" using assms(1) by (auto simp: text_fits_def)
  have w: "attr_fields new_attributes = [FInt 0]"
    by (simp add: attr_fields_def pack_flags_def flag_if_def new_attributes_def)
  have e: "length (enc_field (FText p)) = 4 + length b" "length (enc_field (FText [])) = 4"
    using b by (simp_all add: enc_field_def w_text.enc'_def utf8_encode_def)
  show ok: "list_all ok_field (name_fields p)"
    using b short_text [of "[]"] by (auto simp: name_fields_def w ok_string_def)
  then have "sendable (FInt n # concat (map item_fields [IInt 1, IText p, IText [], IAttr new_attributes]))"
    using assms(2,3) b(2) e by (simp add: sendable_def wire_def name_fields_def w)
  from response_sends [OF this, of CMD_NAME s]
  show "send_name n p s = (Inr (), s\<lparr>sv_sent := sv_sent s @ [(CMD_NAME, wire (FInt n # name_fields p))]\<rparr>)"
    by (simp add: send_name_def name_fields_def CMD_NAME_def)
qed

lemma readlink_reads:
  assumes "holds_fields m (name_fields p)" "text_fits p"
  shows "reading get_int m (\<lambda>count msg. if count = 0 then retS None else if count \<noteq> 1 then raiseS (SFTPError ''Readlink returned results'')
       else reading get_string msg (\<lambda>s _. retS (Some (to_unicode s)))) d = (Inr (Some (Inr p)), d)"
proof (rule reading_int [of m 1 "[FText p, FText []] @ attr_fields new_attributes"])
  fix m' assume m': "holds_fields m' ([FText p, FText []] @ attr_fields new_attributes)"
  obtain b where b: "utf8_encode p = Inr b" using assms(2) by (auto simp: text_fits_def)
  then have "enc_field (FText p) = enc_field (FString b)" by (simp add: enc_field_def w_text.enc'_def)
  then have "holds_fields m' ([FString b, FText []] @ attr_fields new_attributes)"
    using m' b by (auto simp: holds_fields_def)
  from holds_string [OF this [simplified]] b
  show "(if (1 :: int) = 0 then retS None else if (1 :: int) \<noteq> 1 then raiseS (SFTPError ''Readlink returned results'')
       else reading get_string m' (\<lambda>s _. retS (Some (to_unicode s)))) d = (Inr (Some (Inr p)), d)"
    using utf8_roundtrip [OF b] by (auto simp: reading_def retS_def to_unicode_def)
qed (use assms(1) in \<open>simp add: name_fields_def\<close>)

lemma realpath_reads:
  assumes "holds_fields m (name_fields p)"
  shows "reading get_int m (\<lambda>count msg. if count \<noteq> 1 then raiseS (SFTPError ''Realpath returned results'')
       else reading get_text msg (\<lambda>s _. retS s)) d = (Inr p, d)"
proof (rule reading_int [of m 1 "[FText p, FText []] @ attr_fields new_attributes"])
  fix m' assume m': "holds_fields m' ([FText p, FText []] @ attr_fields new_attributes)"
  show "(if (1 :: int) \<noteq> 1 then raiseS (SFTPError ''Realpath returned results'') else reading get_text m' (\<lambda>s _. retS s)) d = (Inr p, d)"
    using m' by (simp, intro reading_text [of m' p]) (simp_all add: retS_def)
qed (use assms in \<open>simp add: name_fields_def\<close>)

lemma readlink_calls:
  assumes "asks c t items" "gave Gave_target f (sv_fs (cl_peer c)) = (r, fs')" "result_fits r"
    and "\<And>m s. holds_fields m (concat (map item_fields items)) \<Longrightarrow>
        process env si t (cl_request_number c) m s = bindS (app f) (\<lambda>resp.
          case resp of Given link \<Rightarrow> send_name (cl_request_number c) link | Code code \<Rightarrow> send_status (cl_request_number c) code None) s"
  shows "\<exists>s'. bindS (request (sftp_served env si) t items) (\<lambda>x. bindS (case x of (t, msg) \<Rightarrow>
        if t \<noteq> CMD_NAME then raiseS (SFTPError ''Expected name response'')
        else reading get_int msg (\<lambda>count msg. if count = 0 then retS None
           else if count \<noteq> 1 then raiseS (SFTPError ''Readlink returned results'')
           else reading get_string msg (\<lambda>s _. retS (Some (to_unicode s))))) (\<lambda>l. retS (Target l))) c =
     (call_result r, after_call c s') \<and> served_state (cl_peer c) fs' s'"
proof (rule value_calls [where f = f and e' = "SFTPError ''Expected name response''" and t' = CMD_NAME, OF assms])
  fix x assume fits: "answer_fits (Gave_target x)"
  have n: "0 \<le> cl_request_number c" "cl_request_number c < 2 ^ 32" using assms(1) by (simp_all add: asks_def idle_def)
  show "(\<exists>code. (case x of Given link \<Rightarrow> send_name (cl_request_number c) link | Code code \<Rightarrow> send_status (cl_request_number c) code None) =
        send_status (cl_request_number c) code None \<and>
        told (Gave_target x) = bindR (told_code (Inr code)) (\<lambda>_. Inl (SFTPError ''Expected name response''))) \<or>
     (\<exists>rs. (\<forall>s. (case x of Given link \<Rightarrow> send_name (cl_request_number c) link | Code code \<Rightarrow> send_status (cl_request_number c) code None) s =
          (Inr (), s\<lparr>sv_sent := sv_sent s @ [(CMD_NAME, wire (FInt (cl_request_number c) # rs))]\<rparr>)) \<and> list_all ok_field rs \<and>
        (\<forall>m d. holds_fields m rs \<longrightarrow> bindS (case (CMD_NAME, m) of (t, msg) \<Rightarrow>
            if t \<noteq> CMD_NAME then raiseS (SFTPError ''Expected name response'')
            else reading get_int msg (\<lambda>count msg. if count = 0 then retS None
               else if count \<noteq> 1 then raiseS (SFTPError ''Readlink returned results'')
               else reading get_string msg (\<lambda>s _. retS (Some (to_unicode s))))) (\<lambda>l. retS (Target l)) d = (told (Gave_target x), d)))"
  proof (cases x)
    case (Given l)
    with fits have "text_fits l" by simp
    with n show ?thesis
      by (intro disjI2 exI [of _ "name_fields l"])
        (simp add: Given send_name_sends, intro allI impI, simp add: bindS_def retS_def readlink_reads)
  qed auto
qed (simp_all add: cmd_defs raiseS_def bindS_def)

lemma normalize_calls:
  assumes "asks c t items" "gave Gave_path f (sv_fs (cl_peer c)) = (r, fs')" "result_fits r"
    and "\<And>m s. holds_fields m (concat (map item_fields items)) \<Longrightarrow>
        process env si t (cl_request_number c) m s = bindS (app f) (send_name (cl_request_number c)) s"
  shows "\<exists>s'. bindS (request (sftp_served env si) t items) (\<lambda>x. bindS (case x of (t, msg) \<Rightarrow>
        if t \<noteq> CMD_NAME then raiseS (SFTPError ''Expected name response'')
        else reading get_int msg (\<lambda>count msg. if count \<noteq> 1 then raiseS (SFTPError ''Realpath returned results'')
           else reading get_text msg (\<lambda>s _. retS s))) (\<lambda>q. retS (Path q))) c =
     (call_result r, after_call c s') \<and> served_state (cl_peer c) fs' s'"
proof (rule value_calls [where f = f and e' = "SFTPError ''Expected name response''" and t' = CMD_NAME, OF assms])
  fix x assume fits: "answer_fits (Gave_path x)"
  have n: "0 \<le> cl_request_number c" "cl_request_number c < 2 ^ 32" using assms(1) by (simp_all add: asks_def idle_def)
  from fits have "text_fits x" by simp
  with n show "(\<exists>code. send_name (cl_request_number c) x = send_status (cl_request_number c) code None \<and>
        told (Gave_path x) = bindR (told_code (Inr code)) (\<lambda>_. Inl (SFTPError ''Expected name response''))) \<or>
     (\<exists>rs. (\<forall>s. send_name (cl_request_number c) x s =
          (Inr (), s\<lparr>sv_sent := sv_sent s @ [(CMD_NAME, wire (FInt (cl_request_number c) # rs))]\<rparr>)) \<and> list_all ok_field rs \<and>
        (\<forall>m d. holds_fields m rs \<longrightarrow> bindS (case (CMD_NAME, m) of (t, msg) \<Rightarrow>
            if t \<noteq> CMD_NAME then raiseS (SFTPError ''Expected name response'')
            else reading get_int msg (\<lambda>count msg. if count \<noteq> 1 then raiseS (SFTPError ''Realpath returned results'')
               else reading get_text msg (\<lambda>s _. retS s))) (\<lambda>q. retS (Path q)) d = (told (Gave_path x), d)))"
    by (intro disjI2 exI [of _ "name_fields x"])
      (simp add: send_name_sends, intro allI impI, simp add: bindS_def retS_def realpath_reads)
qed (simp_all add: cmd_defs raiseS_def bindS_def)

text \<open>The request of each call can be asked, and reading it gives the application what \<open>local_call\<close> gives it.\<close>

lemma asks_short:
  assumes "idle c" "0 \<le> t" "t < 256" "list_all ok_field (concat (map item_fields items))"
    "length (wire (concat (map item_fields items))) < 2 ^ 30"
  shows "asks c t items"
  using assms by (simp add: asks_def idle_def sendable_def wire_def)

lemma asks_paths:
  assumes "idle c" "0 \<le> t" "t < 256" "length b < 2 ^ 24" "length b' < 2 ^ 24" "attributes_fit a"
  shows "asks c t [IBytes b]" "asks c t [IBytes b, IBytes b']" "asks c t [IBytes b, IAttr a]"
    "asks c t [IText (lit ''posix-rename@openssh.com''), IBytes b, IBytes b']"
proof -
  have "ok_field (FText (lit ''posix-rename@openssh.com'')) \<and> length (enc_field (FText (lit ''posix-rename@openssh.com''))) < 104"
    by (rule short_text) (simp_all add: lit_simps)
  then show "asks c t [IBytes b]" "asks c t [IBytes b, IBytes b']" "asks c t [IBytes b, IAttr a]"
    "asks c t [IText (lit ''posix-rename@openssh.com''), IBytes b, IBytes b']"
    using assms by (auto intro!: asks_short simp: wire_def ok_string_def attributes_fit_def packable_def)
qed

lemma mode_fits: "0 \<le> mode \<Longrightarrow> mode < 2 ^ 32 \<Longrightarrow> attributes_fit (new_attributes\<lparr>st_mode := Some mode\<rparr>)"
  using pack_flags_range [of "new_attributes\<lparr>st_mode := Some mode\<rparr>"]
  by (simp add: attributes_fit_def packable_def attr_fields_def wire_def) (simp add: new_attributes_def)

lemma read_path: "holds_fields m [FString b] \<Longrightarrow> utf8_decode b = Inr p \<Longrightarrow> reading get_text m (\<lambda>p m. f p) s = f p s"
  by (rule reading_encoded) simp_all

lemma read_paths:
  assumes "holds_fields m [FString b, FString b']" "utf8_decode b = Inr p" "utf8_decode b' = Inr p'"
  shows "reading get_text m (\<lambda>p m. reading get_text m (\<lambda>q m. f p q)) s = f p p' s"
  by (rule reading_encoded [OF assms(1,2)], rule reading_encoded [OF _ assms(3)]) simp_all

lemma read_path_attributes:
  assumes "holds_fields m (FString b # attr_fields a)" "utf8_decode b = Inr p"
  shows "reading get_text m (\<lambda>p m. reading (from_msg None None) m (\<lambda>a m. f p a)) s = f p (as_received a) s"
proof (rule reading_encoded [OF assms])
  fix m' assume "holds_fields m' (attr_fields a)"
  then show "reading (from_msg None None) m' (\<lambda>a m. f p a) s = f p (as_received a) s"
    by (intro reading_attributes [of m' a "[]"]) simp_all
qed

lemma read_posix_rename:
  assumes "holds_fields m [FText (lit ''posix-rename@openssh.com''), FString b, FString b']" "utf8_decode b = Inr p" "utf8_decode b' = Inr p'"
  shows "process_extended env si n m s = app_status n (si_posix_rename si p p') s"
  unfolding process_extended_def
proof (rule reading_text [OF assms(1)])
  fix m' assume "holds_fields m' [FString b, FString b']"
  from read_paths [OF this assms(2,3), of "\<lambda>p q. app_status n (si_posix_rename si p q)" s]
  show "(if lit ''posix-rename@openssh.com'' = lit ''check-file'' then check_file env si n m'
       else if lit ''posix-rename@openssh.com'' = lit ''posix-rename@openssh.com'' then
         reading get_text m' (\<lambda>oldpath msg. reading get_text msg (\<lambda>newpath msg.
           app_status n (si_posix_rename si oldpath newpath)))
       else send_status n SFTP_OP_UNSUPPORTED None) s = app_status n (si_posix_rename si p p') s" by simp
qed

lemma cmd_range [simp]:
  "0 \<le> CMD_REMOVE" "CMD_REMOVE < 256"
  "0 \<le> CMD_RENAME" "CMD_RENAME < 256"
  "0 \<le> CMD_MKDIR" "CMD_MKDIR < 256"
  "0 \<le> CMD_RMDIR" "CMD_RMDIR < 256"
  "0 \<le> CMD_SETSTAT" "CMD_SETSTAT < 256"
  "0 \<le> CMD_SYMLINK" "CMD_SYMLINK < 256"
  "0 \<le> CMD_STAT" "CMD_STAT < 256"
  "0 \<le> CMD_LSTAT" "CMD_LSTAT < 256"
  "0 \<le> CMD_READLINK" "CMD_READLINK < 256"
  "0 \<le> CMD_REALPATH" "CMD_REALPATH < 256"
  "0 \<le> CMD_EXTENDED" "CMD_EXTENDED < 256"
  "0 \<le> CMD_OPENDIR" "CMD_OPENDIR < 256"
  "0 \<le> CMD_READDIR" "CMD_READDIR < 256"
  "0 \<le> CMD_CLOSE" "CMD_CLOSE < 256"
  "0 \<le> CMD_OPEN" "CMD_OPEN < 256"
  "0 \<le> CMD_READ" "CMD_READ < 256"
  "0 \<le> CMD_WRITE" "CMD_WRITE < 256"
  by (simp_all add: cmd_defs)

lemma call_agrees:
  assumes "idle c" "call_fits (cl_cwd c) call" "local_call si (cl_cwd c) call (sv_fs (cl_peer c)) = (r, fs')" "result_fits r"
  shows "\<exists>s'. remote_call (sftp_served env si) call c = (call_result r, after_call c s') \<and> served_state (cl_peer c) fs' s'"
proof -
  have empty: "attributes_fit new_attributes" "length ([] :: bytes) < 2 ^ 24"
    using mode_fits [of 0] pack_flags_range [of new_attributes]
    by (simp_all add: attributes_fit_def packable_def attr_fields_def wire_def new_attributes_def)
  have st: "?thesis"
    if "remote_call (sftp_served env si) call c = bindS (request_done (sftp_served env si) t items) (\<lambda>_. retS Done) c"
      "local_call si (cl_cwd c) call = gave Gave_code f" "asks c t items"
      "\<And>m s. holds_fields m (concat (map item_fields items)) \<Longrightarrow>
        process env si t (cl_request_number c) m s = app_status (cl_request_number c) f s" for t items f
    using status_calls [where f = f, OF that(3) assms(3) [unfolded that(2)] assms(4) that(4)] that(1) by simp
  note steps = bindS_step [where p = "adjust_cwd _"] bindS_assoc
  have path: "\<exists>b. utf8_decode b = Inr (at_cwd (cl_cwd c) p) \<and> length b < 2 ^ 24 \<and> adjust_cwd p c = (Inr b, c)"
    if "path_ok (cl_cwd c) p" for p
    using path_steps [OF that] by metis
  note has_asked = asks_paths [OF assms(1) _ _ _ empty(2,1)] asks_paths [OF assms(1) _ _ _ _ empty(1)]
  show ?thesis
  proof (cases call)
    case (Remove p)
    then obtain b where b: "utf8_decode b = Inr (at_cwd (cl_cwd c) p)" "length b < 2 ^ 24" "adjust_cwd p c = (Inr b, c)"
      using assms(2) path [of p] by auto
    show ?thesis
      by (rule st [of CMD_REMOVE "[IBytes b]" "si_remove si (at_cwd (cl_cwd c) p)"])
        (use b in \<open>simp_all add: has_asked Remove cl_remove_def steps process_simps read_path\<close>)
  next
    case (Rmdir p)
    then obtain b where b: "utf8_decode b = Inr (at_cwd (cl_cwd c) p)" "length b < 2 ^ 24" "adjust_cwd p c = (Inr b, c)"
      using assms(2) path [of p] by auto
    show ?thesis
      by (rule st [of CMD_RMDIR "[IBytes b]" "si_rmdir si (at_cwd (cl_cwd c) p)"])
        (use b in \<open>simp_all add: has_asked Rmdir cl_rmdir_def steps process_simps read_path\<close>)
  next
    case (Rename p q)
    then obtain b b' where b: "utf8_decode b = Inr (at_cwd (cl_cwd c) p)" "length b < 2 ^ 24" "adjust_cwd p c = (Inr b, c)"
      "utf8_decode b' = Inr (at_cwd (cl_cwd c) q)" "length b' < 2 ^ 24" "adjust_cwd q c = (Inr b', c)"
      using assms(2) path [of p] path [of q] by auto
    show ?thesis
      by (rule st [of CMD_RENAME "[IBytes b, IBytes b']" "si_rename si (at_cwd (cl_cwd c) p) (at_cwd (cl_cwd c) q)"])
        (use b in \<open>simp_all add: has_asked Rename cl_rename_def steps process_simps read_paths\<close>)
  next
    case (Posix_rename p q)
    then obtain b b' where b: "utf8_decode b = Inr (at_cwd (cl_cwd c) p)" "length b < 2 ^ 24" "adjust_cwd p c = (Inr b, c)"
      "utf8_decode b' = Inr (at_cwd (cl_cwd c) q)" "length b' < 2 ^ 24" "adjust_cwd q c = (Inr b', c)"
      using assms(2) path [of p] path [of q] by auto
    show ?thesis
      by (rule st [of CMD_EXTENDED "[IText (lit ''posix-rename@openssh.com''), IBytes b, IBytes b']"
            "si_posix_rename si (at_cwd (cl_cwd c) p) (at_cwd (cl_cwd c) q)"])
        (use b in \<open>simp_all add: has_asked Posix_rename cl_posix_rename_def steps process_simps read_posix_rename\<close>)
  next
    case (Symlink p q)
    obtain b where b: "utf8_encode p = Inr b" "utf8_decode b = Inr p" "length b < 2 ^ 24"
      using assms(2) Symlink utf8_roundtrip [of p] by (auto simp: path_ok_def adjust_path_def)
    obtain b' where b': "utf8_decode b' = Inr (at_cwd (cl_cwd c) q)" "length b' < 2 ^ 24" "adjust_cwd q c = (Inr b', c)"
      using assms(2) Symlink path [of q] by auto
    show ?thesis
      by (rule st [of CMD_SYMLINK "[IBytes b, IBytes b']" "si_symlink si p (at_cwd (cl_cwd c) q)"])
        (use b b' in \<open>simp_all add: has_asked Symlink cl_symlink_def steps liftR_Inr process_simps read_paths\<close>)
  next
    case (Mkdir p mode)
    then obtain b where b: "utf8_decode b = Inr (at_cwd (cl_cwd c) p)" "length b < 2 ^ 24" "adjust_cwd p c = (Inr b, c)"
      using assms(2) path [of p] by auto
    have a: "attributes_fit (new_attributes\<lparr>st_mode := Some mode\<rparr>)" using assms(2) Mkdir mode_fits [of mode] by simp
    show ?thesis
      by (rule st [of CMD_MKDIR "[IBytes b, IAttr (new_attributes\<lparr>st_mode := Some mode\<rparr>)]" "si_mkdir si (at_cwd (cl_cwd c) p) (as_received (new_attributes\<lparr>st_mode := Some mode\<rparr>))"])
        (use b in \<open>simp_all add: asks_paths(3) [OF assms(1) _ _ b(2) empty(2) a] Mkdir cl_mkdir_def steps process_simps read_path_attributes\<close>)
  next
    case (Set_attr p a)
    then obtain b where b: "utf8_decode b = Inr (at_cwd (cl_cwd c) p)" "length b < 2 ^ 24" "adjust_cwd p c = (Inr b, c)"
      using assms(2) path [of p] by auto
    have a: "attributes_fit a" using assms(2) Set_attr TrueI by simp
    show ?thesis
      by (rule st [of CMD_SETSTAT "[IBytes b, IAttr a]" "si_chattr si (at_cwd (cl_cwd c) p) (as_received a)"])
        (use b in \<open>simp_all add: asks_paths(3) [OF assms(1) _ _ b(2) empty(2) a] Set_attr set_attr_def steps process_simps read_path_attributes\<close>)
  next
    case (Stat p)
    then obtain b where b: "utf8_decode b = Inr (at_cwd (cl_cwd c) p)" "length b < 2 ^ 24" "adjust_cwd p c = (Inr b, c)"
      using assms(2) path [of p] by auto
    have l: "gave Gave_attributes (si_stat si (at_cwd (cl_cwd c) p)) (sv_fs (cl_peer c)) = (r, fs')"
      using assms(3) by (simp add: Stat)
    show ?thesis
      using attribute_calls [where f = "si_stat si (at_cwd (cl_cwd c) p)" and t = CMD_STAT and items = "[IBytes b]", OF has_asked(1) l assms(4), of env si] b
      by (simp add: Stat cl_stat_def steps process_simps read_path)
  next
    case (Lstat p)
    then obtain b where b: "utf8_decode b = Inr (at_cwd (cl_cwd c) p)" "length b < 2 ^ 24" "adjust_cwd p c = (Inr b, c)"
      using assms(2) path [of p] by auto
    have l: "gave Gave_attributes (si_lstat si (at_cwd (cl_cwd c) p)) (sv_fs (cl_peer c)) = (r, fs')"
      using assms(3) by (simp add: Lstat)
    show ?thesis
      using attribute_calls [where f = "si_lstat si (at_cwd (cl_cwd c) p)" and t = CMD_LSTAT and items = "[IBytes b]", OF has_asked(1) l assms(4), of env si] b
      by (simp add: Lstat cl_lstat_def steps process_simps read_path)
  next
    case (Readlink p)
    then obtain b where b: "utf8_decode b = Inr (at_cwd (cl_cwd c) p)" "length b < 2 ^ 24" "adjust_cwd p c = (Inr b, c)"
      using assms(2) path [of p] by auto
    have l: "gave Gave_target (si_readlink si (at_cwd (cl_cwd c) p)) (sv_fs (cl_peer c)) = (r, fs')"
      using assms(3) by (simp add: Readlink)
    show ?thesis
      using readlink_calls [where f = "si_readlink si (at_cwd (cl_cwd c) p)" and t = CMD_READLINK and items = "[IBytes b]", OF has_asked(1) l assms(4), of env si] b
      by (simp add: Readlink cl_readlink_def steps process_simps read_path)
  next
    case (Normalize p)
    then obtain b where b: "utf8_decode b = Inr (at_cwd (cl_cwd c) p)" "length b < 2 ^ 24" "adjust_cwd p c = (Inr b, c)"
      using assms(2) path [of p] by auto
    have l: "gave Gave_path (si_canonicalize si (at_cwd (cl_cwd c) p)) (sv_fs (cl_peer c)) = (r, fs')"
      using assms(3) by (simp add: Normalize)
    show ?thesis
      using normalize_calls [where f = "si_canonicalize si (at_cwd (cl_cwd c) p)" and t = CMD_REALPATH and items = "[IBytes b]", OF has_asked(1) l assms(4), of env si] b
      by (simp add: Normalize cl_normalize_def steps process_simps read_path)
  qed
qed

section \<open>Properties\<close>

text \<open>C10. A call on a remote path is the call of the server's application: the client's remove, rename, mkdir, rmdir,
  chmod and its like, symlink, stat, lstat, readlink and normalize change the application's state as its own method
  does on the path as it stands under the client's folder, return its value or raise the exception its code stands for
  (a failure where the method raised), leave the handles alone, and leave the client waiting for nothing.\<close>

theorem remote_calls_agree:
  assumes "idle c" "call_fits (cl_cwd c) call" "local_call si (cl_cwd c) call (sv_fs (cl_peer c)) = (r, fs')" "result_fits r"
  shows "\<exists>c'. remote_call (sftp_served env si) call c = (call_result r, c') \<and> sv_fs (cl_peer c') = fs' \<and>
     cl_in c' = [] \<and> cl_expecting c' = [] \<and> cl_cwd c' = cl_cwd c \<and>
     file_table (cl_peer c') = file_table (cl_peer c) \<and> folder_table (cl_peer c') = folder_table (cl_peer c)"
proof -
  obtain s' where "remote_call (sftp_served env si) call c = (call_result r, after_call c s')" "served_state (cl_peer c) fs' s'"
    using call_agrees [OF assms] by blast
  then show ?thesis using assms(1) by (auto simp: after_call_def served_state_def idle_def)
qed

theorem remote_calls_agree_witness:
  "\<forall>env. \<exists>c'. remote_call (sftp_served env default_si) (Normalize (lit ''a/../b'')) (new_client (new_server [])) = (Inr (Path (lit ''/b'')), c')"
proof
  fix env
  let ?c = "new_client (new_server []) :: (sftp_handle list, nat) sftp_server sftp_client"
  have e: "utf8_encode (lit ''a/../b'') = Inr [97, 47, 46, 46, 47, 98]"
    by (simp add: lit_simps utf8_encode_def utf8_char_def scalar_def)
  note b = e utf8_roundtrip [OF e]
  have c: "canonicalize (lit ''a/../b'') = lit ''/b''" by code_simp
  have 1: "idle ?c" by (simp add: idle_def new_client_def)
  have 2: "call_fits (cl_cwd ?c) (Normalize (lit ''a/../b''))"
    using b by (simp add: path_ok_def adjust_path_def new_client_def)
  have 3: "local_call default_si (cl_cwd ?c) (Normalize (lit ''a/../b'')) (sv_fs (cl_peer ?c)) = (Inr (Gave_path (lit ''/b'')), [])"
    using b c by (simp add: gave_def default_si_def new_client_def new_server_def at_cwd_def server_path_def adjust_path_def retS_at)
  have 4: "result_fits (Inr (Gave_path (lit ''/b'')))"
    by (simp add: result_fits_def text_fits_def lit_simps utf8_encode_def utf8_char_def scalar_def)
  from remote_calls_agree [OF 1 2 3 4, of env]
  show "\<exists>c'. remote_call (sftp_served env default_si) (Normalize (lit ''a/../b'')) ?c = (Inr (Path (lit ''/b'')), c')"
    by (auto simp: call_result_def)
qed

end
