(* ===== verification/Sftp_Folder.thy ===== *)
theory Sftp_Folder
  imports Sftp_Remote
begin

text \<open>
  Listing a folder of the server: the client opens the folder, asks for names until the server has none left, and closes
  the folder. The server gives sixteen names at a time.
\<close>

section \<open>Requests that change the server's tables\<close>

lemma request_reply:
  assumes "asks c t items" "\<And>m. holds_fields m (concat (map item_fields items)) \<Longrightarrow>
      process env si t (cl_request_number c) m (cl_peer c) = (Inr (), s')"
    and "sv_sent s' = sv_sent (cl_peer c) @ [(t', wire (FInt (cl_request_number c) # rs))]" "list_all ok_field rs" "t' \<noteq> CMD_STATUS"
  shows "\<exists>m. request (sftp_served env si) t items c = (Inr (t', m), after_call c s') \<and> holds_fields m rs"
proof -
  have n: "0 \<le> cl_request_number c" "cl_request_number c < 2 ^ 32" and q: "idle c"
      "sendable (FInt (cl_request_number c) # concat (map item_fields items))" "0 \<le> t" "t < 256"
    using assms(1) by (simp_all add: asks_def idle_def)
  have ok: "list_all ok_field (concat (map item_fields items))" using q(2) by (simp add: sendable_def)
  from request_answered [OF q answers_if_done [OF n ok assms(4,2,3)]] assms(5) show ?thesis
    by (auto simp: client_sees_def)
qed

lemma request_status:
  assumes "asks c t items" "\<And>m. holds_fields m (concat (map item_fields items)) \<Longrightarrow>
      process env si t (cl_request_number c) m (cl_peer c) = send_status (cl_request_number c) code None s"
    and "sv_sent s = sv_sent (cl_peer c)" "0 \<le> code" "code < 2 ^ 32"
  shows "\<exists>m. request (sftp_served env si) t items c =
     (bindR (code_result code) (\<lambda>_. Inr (CMD_STATUS, m)), after_call c (with_status (cl_request_number c) code s))"
proof -
  have n: "0 \<le> cl_request_number c" "cl_request_number c < 2 ^ 32" and q: "idle c"
      "sendable (FInt (cl_request_number c) # concat (map item_fields items))" "0 \<le> t" "t < 256"
    using assms(1) by (simp_all add: asks_def idle_def)
  have ok: "list_all ok_field (concat (map item_fields items))" using q(2) by (simp add: sendable_def)
  have "answers_with env si (cl_request_number c) t (concat (map item_fields items)) (cl_peer c) CMD_STATUS
      [FInt code, FText (status_text code), FText []] (with_status (cl_request_number c) code s)"
    using assms(2-5) send_status_sends [OF n assms(4,5), of s]
    by (intro answers_if_done [OF n ok status_fields_ok]) (simp_all add: with_status_def status_fields_def)
  from request_answered [OF q this] obtain m where m: "holds_fields m [FInt code, FText (status_text code), FText []]"
    "request (sftp_served env si) t items c = (client_sees CMD_STATUS m, after_call c (with_status (cl_request_number c) code s))" by blast
  obtain r' m' where cs: "convert_status m = (r', m')" by fastforce
  with convert_status_holds [OF m(1)] have r': "code_result code = r'" by simp
  have "client_sees CMD_STATUS m = bindR r' (\<lambda>_. Inr (CMD_STATUS, m'))"
    using cs by (cases r') (simp_all add: client_sees_def)
  with m(2) show ?thesis unfolding r' by (intro exI [of _ m']) simp
qed

section \<open>Names on the wire\<close>

definition entry_fields :: "sftp_env \<Rightarrow> sftp_attributes \<Rightarrow> field list" where
  "entry_fields env a =
     [FText (the (at_filename a)), FText (long_listing (env_strftime env) (env_now env) a)] @ attr_fields a"

definition entry_ok :: "sftp_env \<Rightarrow> sftp_attributes \<Rightarrow> bool" where
  "entry_ok env a \<longleftrightarrow> at_filename a \<noteq> None \<and> text_fits (the (at_filename a)) \<and>
     text_fits (long_listing (env_strftime env) (env_now env) a) \<and> attributes_fit a"

text \<open>An entry as the client gets it, and the entries it keeps.\<close>

definition listed :: "sftp_env \<Rightarrow> sftp_attributes \<Rightarrow> sftp_attributes" where
  "listed env a = named (at_filename a) (Some (long_listing (env_strftime env) (env_now env) a)) (as_received a)"

definition shown_entry :: "sftp_attributes \<Rightarrow> bool" where
  "shown_entry a \<longleftrightarrow> at_filename a \<noteq> Some (lit ''.'') \<and> at_filename a \<noteq> Some (lit ''..'')"

lemma add_names_fields:
  "list_all (entry_ok env) files \<Longrightarrow> add_names env files = put_fields (concat (map (entry_fields env) files))"
proof (induction files)
  case (Cons a files)
  then obtain f where "at_filename a = Some f" by (auto simp: entry_ok_def)
  with Cons show ?case
    by (simp add: entry_fields_def put_fields_append attr_pack_fields attr_asbytes_def add_text_def bindS_assoc)
qed simp

lemma text_fits_field: "text_fits s \<Longrightarrow> ok_field (FText s) \<and> length (enc_field (FText s)) < 4 + 2 ^ 24"
  by (auto simp: text_fits_def ok_string_def enc_field_def w_text.enc'_def)

lemma entry_fields_ok:
  assumes "entry_ok env a"
  shows "list_all ok_field (entry_fields env a)" "length (wire (entry_fields env a)) < 2 ^ 26"
proof -
  have t: "text_fits (the (at_filename a))" "text_fits (long_listing (env_strftime env) (env_now env) a)" "attributes_fit a"
    using assms by (simp_all add: entry_ok_def)
  then show "list_all ok_field (entry_fields env a)"
    using text_fits_field [OF t(1)] text_fits_field [OF t(2)] by (simp add: entry_fields_def attributes_fit_def packable_def)
  show "length (wire (entry_fields env a)) < 2 ^ 26"
    using text_fits_field [OF t(1)] text_fits_field [OF t(2)] t(3) by (simp add: entry_fields_def attributes_fit_def wire_def)
qed

lemma entries_ok:
  assumes "list_all (entry_ok env) files"
  shows "list_all ok_field (concat (map (entry_fields env) files))"
    "length (wire (concat (map (entry_fields env) files))) \<le> length files * 2 ^ 26"
proof -
  show "list_all ok_field (concat (map (entry_fields env) files))"
    using assms entry_fields_ok(1) by (induction files) auto
  show "length (wire (concat (map (entry_fields env) files))) \<le> length files * 2 ^ 26"
    using assms
  proof (induction files)
    case (Cons a files)
    with entry_fields_ok(2) [of env a] show ?case by (simp add: wire_def)
  qed (simp add: wire_def)
qed

lemma read_names_entries:
  assumes "list_all (entry_ok env) files" "holds_fields m (concat (map (entry_fields env) files))"
  shows "\<exists>m'. read_names (length files) acc m = (Inr (acc @ map (listed env) (filter shown_entry files)), m')"
  using assms
proof (induction files arbitrary: m acc)
  case (Cons a files)
  let ?long = "long_listing (env_strftime env) (env_now env) a"
  from Cons.prems obtain f where f: "at_filename a = Some f" and p: "packable a" by (auto simp: entry_ok_def attributes_fit_def)
  have h: "holds_fields m (FText f # FText ?long # attr_fields a @ concat (map (entry_fields env) files))"
    using Cons.prems(2) f by (simp add: entry_fields_def [of env a])
  from holds_text [OF h] obtain m1 where m1: "get_text m = (Inr f, m1)"
    "holds_fields m1 (FText ?long # attr_fields a @ concat (map (entry_fields env) files))" by blast
  from holds_text [OF m1(2)] obtain m2 where m2: "get_text m1 = (Inr ?long, m2)"
    "holds_fields m2 (attr_fields a @ concat (map (entry_fields env) files))" by blast
  obtain m3 where m3: "from_msg (Some f) (Some ?long) m2 = (Inr (listed env a), m3)"
    "get_remainder m3 = concat (map enc_field (concat (map (entry_fields env) files)))"
    using reads_from_msg [OF p, of "Some f" "Some ?long"] m2(2) f by (auto simp: holds_fields_def reads_def listed_def)
  then have "holds_fields m3 (concat (map (entry_fields env) files))" using m2(2) by (simp add: holds_fields_def)
  from Cons.IH [OF _ this, of "if f \<noteq> lit ''.'' \<and> f \<noteq> lit ''..'' then acc @ [listed env a] else acc"] Cons.prems(1)
  show ?case
    by (auto simp: bindS_step [where p = get_text, OF m1(1)] bindS_step [where p = get_text, OF m2(1)]
        bindS_step [where p = "from_msg _ _", OF m3(1)] shown_entry_def f)
qed (simp add: retS_at)

section \<open>The server's side\<close>

lemma process_folder_simps:
  "process env si CMD_OPENDIR n m = reading get_text m (\<lambda>path msg. open_folder si n path)"
  "process env si CMD_READDIR n m = reading get_binary m (\<lambda>h msg. process_readdir env n h)"
  "process env si CMD_CLOSE n m = reading get_binary m (\<lambda>h msg. process_close si n h)"
  by (simp_all add: process_def CMD_NAMES_def cmd_defs)

definition with_folder :: "bytes \<Rightarrow> sftp_attributes list \<Rightarrow> ('f, 'h) sftp_server \<Rightarrow> ('f, 'h) sftp_server" where
  "with_folder h files s = s\<lparr>folder_table := dict_put h files (folder_table s)\<rparr>"

definition names_fields :: "sftp_env \<Rightarrow> sftp_attributes list \<Rightarrow> field list" where
  "names_fields env files = FInt (int (length files)) # concat (map (entry_fields env) files)"

lemma names_sent:
  assumes "list_all (entry_ok env) files" "length files \<le> 16" "0 \<le> n" "n < 2 ^ 32"
  shows "sv_send CMD_NAME (bindS (add_int n) (\<lambda>_. bindS (add_int (int (length files))) (\<lambda>_. add_names env files))) s =
     (Inr (), s\<lparr>sv_sent := sv_sent s @ [(CMD_NAME, wire (FInt n # names_fields env files))]\<rparr>)"
    and "list_all ok_field (names_fields env files)"
proof -
  show ok: "list_all ok_field (names_fields env files)"
    using entries_ok(1) [OF assms(1)] assms(2) by (simp add: names_fields_def)
  have "length files * 2 ^ 26 \<le> 16 * 2 ^ 26" using assms(2) by simp
  then have "length (wire (concat (map (entry_fields env) files))) \<le> 2 ^ 30" using entries_ok(2) [OF assms(1)] by simp
  then have "sendable (FInt n # names_fields env files)"
    using ok assms(3,4) by (simp add: sendable_def names_fields_def wire_def)
  from sftp_packet_fields [OF this, of CMD_NAME] add_names_fields [OF assms(1)]
  have p: "sftp_packet CMD_NAME (bindS (add_int n) (\<lambda>_. bindS (add_int (int (length files))) (\<lambda>_. add_names env files))) =
      Inr (CMD_NAME, wire (FInt n # names_fields env files))"
    by (simp add: names_fields_def CMD_NAME_def)
  show "sv_send CMD_NAME (bindS (add_int n) (\<lambda>_. bindS (add_int (int (length files))) (\<lambda>_. add_names env files))) s =
     (Inr (), s\<lparr>sv_sent := sv_sent s @ [(CMD_NAME, wire (FInt n # names_fields env files))]\<rparr>)"
    unfolding sv_send_def p liftR_Inr by (simp add: modS_def)
qed

lemma read_handle: "holds_fields m [FString h] \<Longrightarrow> reading get_binary m (\<lambda>h m. f h) s = f h s"
  by (rule reading_binary) simp_all

section \<open>The client's loop\<close>

text \<open>The server \<open>s'\<close> is \<open>s\<close> but for the rest of the listing of folder \<open>h\<close>.\<close>

definition folder_moved :: "bytes \<Rightarrow> ('f, 'h) sftp_server \<Rightarrow> ('f, 'h) sftp_server \<Rightarrow> bool" where
  "folder_moved h s s' \<longleftrightarrow> (\<exists>ft S. s' = s\<lparr>folder_table := ft, sv_sent := S\<rparr> \<and> h \<in> fst ` set ft \<and>
     dict_del h ft = dict_del h (folder_table s))"

lemma dict_del_put: "dict_del h (dict_put h x d) = dict_del h d"
  by (induction d) (auto simp: dict_del_def)

lemma dict_put_dom: "h \<in> fst ` set (dict_put h x d)"
  by (induction d) (auto, force)

lemma folder_moved_step:
  "folder_moved h (with_folder h files s\<lparr>sv_sent := S\<rparr>) s' \<Longrightarrow> folder_moved h s s'"
  by (auto simp: folder_moved_def with_folder_def dict_del_put)

lemma folder_moved_with: "folder_moved h s (with_folder h files s\<lparr>sv_sent := S\<rparr>)"
  by (auto simp: folder_moved_def with_folder_def dict_del_put dict_put_dom)

lemma asks_handle: "idle c \<Longrightarrow> 0 \<le> t \<Longrightarrow> t < 256 \<Longrightarrow> length h < 2 ^ 24 \<Longrightarrow> asks c t [IBytes h]"
  by (rule asks_short) (simp_all add: ok_string_def wire_def)

lemma list_loop_serves:
  assumes "idle c" "map_of (folder_table (cl_peer c)) h = Some files" "list_all (entry_ok env) files" "length h < 2 ^ 24"
    "cl_request_number c + int (length files) + 1 < 2 ^ 32"
  shows "\<exists>c'. list_loop (sftp_served env si) h acc c = Some (Inr (acc @ map (listed env) (filter shown_entry files)), c') \<and> idle c' \<and>
     cl_request_number c' \<le> cl_request_number c + int (length files) + 1 \<and> cl_cwd c' = cl_cwd c \<and>
     folder_moved h (cl_peer c) (cl_peer c')"
  using assms
proof (induction "length files" arbitrary: files c acc rule: less_induct)
  case less
  let ?n = "cl_request_number c" and ?s = "with_folder h (drop 16 files) (cl_peer c)"
  have n: "0 \<le> ?n" "?n < 2 ^ 32" using less.prems(1) by (simp_all add: idle_def)
  have has_asked: "asks c CMD_READDIR [IBytes h]" using less.prems(1,4) by (intro asks_handle) simp_all
  have p: "process env si CMD_READDIR ?n m (cl_peer c) = (if files = [] then send_status ?n SFTP_EOF None ?s
      else sv_send CMD_NAME (bindS (add_int ?n) (\<lambda>_. bindS (add_int (int (length (take 16 files)))) (\<lambda>_. add_names env (take 16 files)))) ?s)"
    if "holds_fields m (concat (map item_fields [IBytes h]))" for m
    using that less.prems(2)
    by (simp add: process_folder_simps read_handle process_readdir_def read_folder_def bindS_modS with_folder_def del: length_take)
  show ?case
  proof (cases "files = []")
    case True
    from request_status [OF has_asked p [unfolded if_P [OF True]]] obtain m where
      "request (sftp_served env si) CMD_READDIR [IBytes h] c = (Inl EOFError, after_call c (with_status ?n SFTP_EOF ?s))"
      by (auto simp: code_result_def sftp_code_defs with_folder_def True)
    then have "list_loop (sftp_served env si) h acc c = Some (Inr acc, after_call c (with_status ?n SFTP_EOF ?s))"
      by (subst list_loop.simps) simp
    moreover have "folder_moved h (cl_peer c) (with_status ?n SFTP_EOF ?s)"
      using folder_moved_with [where h = h and s = "cl_peer c" and files = "drop 16 files"] by (simp add: with_status_def)
    ultimately show ?thesis using less.prems(1,5) True by (simp add: after_call_def idle_def)
  next
    case False
    have t: "list_all (entry_ok env) (take 16 files)" "length (take 16 files) \<le> 16"
      and d: "list_all (entry_ok env) (drop 16 files)"
      using less.prems(3) by (simp_all add: list_all_iff) (meson in_set_takeD in_set_dropD)+
    let ?s' = "?s\<lparr>sv_sent := sv_sent ?s @ [(CMD_NAME, wire (FInt ?n # names_fields env (take 16 files)))]\<rparr>"
    have q: "process env si CMD_READDIR ?n m (cl_peer c) = (Inr (), ?s')"
      if "holds_fields m (concat (map item_fields [IBytes h]))" for m
      using p [OF that] False names_sent(1) [OF t n, of ?s] by simp
    from request_reply [OF has_asked q _ names_sent(2) [OF t n]] obtain m where m:
      "request (sftp_served env si) CMD_READDIR [IBytes h] c = (Inr (CMD_NAME, m), after_call c ?s')"
      "holds_fields m (names_fields env (take 16 files))"
      by (auto simp: with_folder_def cmd_defs)
    from holds_int [OF m(2) [unfolded names_fields_def]] obtain m1 where m1: "get_int m = (Inr (int (length (take 16 files))), m1)"
      "holds_fields m1 (concat (map (entry_fields env) (take 16 files)))" by blast
    from read_names_entries [OF t(1) m1(2), of acc] obtain m2 where
      m2: "read_names (length (take 16 files)) acc m1 = (Inr (acc @ map (listed env) (filter shown_entry (take 16 files))), m2)" by blast
    have loop: "list_loop (sftp_served env si) h acc c =
        list_loop (sftp_served env si) h (acc @ map (listed env) (filter shown_entry (take 16 files))) (after_call c ?s')"
      using m1(1) m2 by (subst list_loop.simps) (simp add: m(1) bindS_step [where p = get_int, OF m1(1)] del: length_take)
    have le: "length (drop 16 files) < length files" using False by simp
    have i: "idle (after_call c ?s')" using less.prems(1,5) by (simp add: idle_def after_call_def)
    have f: "map_of (folder_table (cl_peer (after_call c ?s'))) h = Some (drop 16 files)"
      by (simp add: after_call_def with_folder_def map_of_dict_put)
    have k: "cl_request_number (after_call c ?s') + int (length (drop 16 files)) + 1 < 2 ^ 32"
      using less.prems(5) le by (simp add: after_call_def del: length_drop)
    obtain c' where c': "list_loop (sftp_served env si) h (acc @ map (listed env) (filter shown_entry (take 16 files))) (after_call c ?s') =
        Some (Inr ((acc @ map (listed env) (filter shown_entry (take 16 files))) @ map (listed env) (filter shown_entry (drop 16 files))), c')"
      "idle c'" "cl_request_number c' \<le> cl_request_number (after_call c ?s') + int (length (drop 16 files)) + 1"
      "cl_cwd c' = cl_cwd (after_call c ?s')" "folder_moved h (cl_peer (after_call c ?s')) (cl_peer c')"
      using less.hyps [OF le i f d less.prems(4) k] by blast
    have "map (listed env) (filter shown_entry (take 16 files)) @ map (listed env) (filter shown_entry (drop 16 files)) =
        map (listed env) (filter shown_entry files)"
      by (metis append_take_drop_id filter_append map_append)
    moreover have "folder_moved h (cl_peer c) (cl_peer c')"
      using c'(5) by (intro folder_moved_step [where files = "drop 16 files" and s = "cl_peer c"]) (simp add: after_call_def)
    moreover have "1 + int (length (drop 16 files)) \<le> int (length files)" using le by linarith
    ultimately show ?thesis using c' loop by (intro exI [of _ c']) (simp add: after_call_def)
  qed
qed

section \<open>Opening and closing\<close>

lemma length_dec_digits: "n < 10 ^ Suc k \<Longrightarrow> length (dec_digits n) \<le> Suc k"
proof (induction k arbitrary: n)
  case 0
  then show ?case by (simp add: dec_digits.simps [of n])
next
  case (Suc k)
  have "n div 10 < 10 ^ Suc k" using Suc.prems by (simp add: less_mult_imp_div_less)
  from Suc.IH [OF this] show ?case by (simp add: dec_digits.simps [of n])
qed

lemma length_handle_name: "n < 2 ^ 64 \<Longrightarrow> length (handle_name n) < 2 ^ 24"
  using length_dec_digits [of n 19] by (simp add: handle_name_def dec_str_def)

definition opened :: "sftp_attributes list \<Rightarrow> 'f \<Rightarrow> int \<Rightarrow> ('f, 'h) sftp_server \<Rightarrow> ('f, 'h) sftp_server" where
  "opened files fs n s =
     s\<lparr>sv_fs := fs, next_handle := next_handle s + 1, folder_table := dict_put (handle_name (next_handle s)) files (folder_table s),
       sv_sent := sv_sent s @ [(CMD_HANDLE, wire [FInt n, FString (handle_name (next_handle s))])]\<rparr>"

lemma open_folder_opens:
  assumes "si_list_folder si path (sv_fs s) = (Inr (Given files), fs')" "next_handle s < 2 ^ 64" "0 \<le> n" "n < 2 ^ 32"
  shows "open_folder si n path s = (Inr (), opened files fs' n s)"
proof -
  have "sendable (FInt n # concat (map item_fields [IBytes (handle_name (next_handle s))]))"
    using assms(3,4) length_handle_name [OF assms(2)] by (simp add: sendable_def ok_string_def wire_def)
  then show ?thesis
    using assms(1) by (simp add: open_folder_def app_def bindS_def [of "\<lambda>s. case si_list_folder si path (sv_fs s) of (r, fs) \<Rightarrow> (r, s\<lparr>sv_fs := fs\<rparr>)"] bindS_modS Let_def response_sends opened_def CMD_HANDLE_def)
qed

lemma folder_opened:
  assumes "idle c" "path_ok (cl_cwd c) path" "next_handle (cl_peer c) < 2 ^ 64"
    "si_list_folder si (at_cwd (cl_cwd c) path) (sv_fs (cl_peer c)) = (Inr (Given files), fs')"
  shows "bindS (adjust_cwd path) (\<lambda>path. open_handle (sftp_served env si) CMD_OPENDIR [IBytes path]) c =
     (Inr (handle_name (next_handle (cl_peer c))), after_call c (opened files fs' (cl_request_number c) (cl_peer c)))"
proof -
  let ?h = "handle_name (next_handle (cl_peer c))" and ?s' = "opened files fs' (cl_request_number c) (cl_peer c)"
  have n: "0 \<le> cl_request_number c" "cl_request_number c < 2 ^ 32" using assms(1) by (simp_all add: idle_def)
  obtain b where b: "utf8_decode b = Inr (at_cwd (cl_cwd c) path)" "length b < 2 ^ 24" "adjust_cwd path c = (Inr b, c)"
    using path_steps [OF assms(2)] by metis
  have "\<exists>m. request (sftp_served env si) CMD_OPENDIR [IBytes b] c = (Inr (CMD_HANDLE, m), after_call c ?s') \<and> holds_fields m [FString ?h]"
  proof (rule request_reply [OF asks_handle [OF assms(1) _ _ b(2)]])
    fix m assume "holds_fields m (concat (map item_fields [IBytes b]))"
    then show "process env si CMD_OPENDIR (cl_request_number c) m (cl_peer c) = (Inr (), ?s')"
      using b(1) open_folder_opens [where si = si, OF assms(4,3) n] by (simp add: process_folder_simps read_path)
  qed (use length_handle_name [OF assms(3)] in \<open>simp_all add: opened_def ok_string_def cmd_defs\<close>)
  then obtain m where m: "request (sftp_served env si) CMD_OPENDIR [IBytes b] c = (Inr (CMD_HANDLE, m), after_call c ?s')" "holds_fields m [FString ?h]"
    by blast
  have "bindS (adjust_cwd path) (\<lambda>path. open_handle (sftp_served env si) CMD_OPENDIR [IBytes path]) c =
      open_handle (sftp_served env si) CMD_OPENDIR [IBytes b] c"
    by (rule bindS_step [where p = "adjust_cwd path", OF b(3)])
  also have "\<dots> = (Inr ?h, after_call c ?s')"
    unfolding open_handle_def bindS_step [where p = "request _ _ _", OF m(1)]
    by (simp add: read_handle [OF m(2), of retS] retS_at)
  finally show ?thesis .
qed

lemma folder_closed:
  assumes "idle c" "h \<in> fst ` set (folder_table (cl_peer c))" "length h < 2 ^ 24"
  shows "\<exists>S. request_done (sftp_served env si) CMD_CLOSE [IBytes h] c =
     (Inr (), after_call c ((cl_peer c)\<lparr>folder_table := dict_del h (folder_table (cl_peer c)), sv_sent := S\<rparr>))"
proof -
  let ?s = "(cl_peer c)\<lparr>folder_table := dict_del h (folder_table (cl_peer c))\<rparr>"
  have "\<exists>m. request (sftp_served env si) CMD_CLOSE [IBytes h] c =
     (bindR (code_result SFTP_OK) (\<lambda>_. Inr (CMD_STATUS, m)), after_call c (with_status (cl_request_number c) SFTP_OK ?s))"
  proof (rule request_status [OF asks_handle [OF assms(1) _ _ assms(3)]])
    fix m assume "holds_fields m (concat (map item_fields [IBytes h]))"
    then show "process env si CMD_CLOSE (cl_request_number c) m (cl_peer c) = send_status (cl_request_number c) SFTP_OK None ?s"
      using assms(2) by (simp add: process_folder_simps read_handle process_close_def bindS_modS)
  qed (simp_all add: SFTP_OK_def)
  then show ?thesis
    by (auto simp: request_done_def bindS_def retS_at code_result_def with_status_def)
qed

section \<open>Properties\<close>

text \<open>C12. Listing a folder gives what is in it: the client's listdir over the server ends, with an entry for every file
  of the folder but \<open>.\<close> and \<open>..\<close>, in order, each with its name, its long name and its attributes as the wire carries
  them; afterwards the folder is closed again, and no other handle is touched.\<close>

theorem listdir_complete:
  assumes "idle c" "tables_ok (cl_peer c)" "path_ok (cl_cwd c) path" "next_handle (cl_peer c) < 2 ^ 64"
    and "si_list_folder si (at_cwd (cl_cwd c) path) (sv_fs (cl_peer c)) = (Inr (Given files), fs')"
    and "list_all (entry_ok env) files" "cl_request_number c + int (length files) + 3 < 2 ^ 32"
  shows "\<exists>c'. listdir_attr (sftp_served env si) path c = Some (Inr (map (listed env) (filter shown_entry files)), c') \<and> idle c' \<and>
     cl_cwd c' = cl_cwd c \<and> sv_fs (cl_peer c') = fs' \<and> file_table (cl_peer c') = file_table (cl_peer c) \<and>
     folder_table (cl_peer c') = folder_table (cl_peer c)"
proof -
  let ?h = "handle_name (next_handle (cl_peer c))"
  let ?c1 = "after_call c (opened files fs' (cl_request_number c) (cl_peer c))"
  have h: "length ?h < 2 ^ 24" using length_handle_name [OF assms(4)] .
  have i: "idle ?c1" using assms(1,7) by (simp add: idle_def after_call_def)
  have "\<exists>c2. list_loop (sftp_served env si) ?h [] ?c1 = Some (Inr ([] @ map (listed env) (filter shown_entry files)), c2) \<and> idle c2 \<and>
     cl_request_number c2 \<le> cl_request_number ?c1 + int (length files) + 1 \<and> cl_cwd c2 = cl_cwd ?c1 \<and>
     folder_moved ?h (cl_peer ?c1) (cl_peer c2)"
    by (rule list_loop_serves [OF i _ assms(6) h]) (use assms(7) in \<open>simp_all add: after_call_def opened_def map_of_dict_put\<close>)
  then obtain c2 where c2: "list_loop (sftp_served env si) ?h [] ?c1 = Some (Inr (map (listed env) (filter shown_entry files)), c2)" "idle c2"
     "cl_request_number c2 \<le> cl_request_number ?c1 + int (length files) + 1" "cl_cwd c2 = cl_cwd ?c1"
     "folder_moved ?h (cl_peer ?c1) (cl_peer c2)" by auto
  then have dom: "?h \<in> fst ` set (folder_table (cl_peer c2))" by (auto simp: folder_moved_def)
  obtain S where S: "request_done (sftp_served env si) CMD_CLOSE [IBytes ?h] c2 =
     (Inr (), after_call c2 ((cl_peer c2)\<lparr>folder_table := dict_del ?h (folder_table (cl_peer c2)), sv_sent := S\<rparr>))"
    using folder_closed [OF c2(2) dom h] by blast
  have "dict_del ?h (folder_table (cl_peer c)) = folder_table (cl_peer c)"
    using fresh_name [OF assms(2)] by (force simp: dict_del_def intro!: filter_True)
  then have "dict_del ?h (folder_table (cl_peer c2)) = folder_table (cl_peer c)"
    using c2(5) by (auto simp: folder_moved_def after_call_def opened_def dict_del_put)
  then show ?thesis
    using c2 S assms(1,7) folder_opened [where si = si, OF assms(1,3,4,5)]
    by (auto simp: listdir_attr_def bindS_def [of "request_done _ _ _"] retS_at after_call_def idle_def folder_moved_def opened_def)
qed

definition sample_env :: sftp_env where
  "sample_env = \<lparr>env_strftime = (\<lambda>_ _. []), env_now = 0, env_sha1 = (\<lambda>b. b), env_md5 = (\<lambda>b. b)\<rparr>"

definition sample_entry :: "string \<Rightarrow> sftp_attributes" where
  "sample_entry name = new_attributes\<lparr>at_filename := Some (lit name)\<rparr>"

lemma sample_entry_ok: "name = ''.'' \<or> name = ''a'' \<Longrightarrow> entry_ok sample_env (sample_entry name)"
proof -
  assume n: "name = ''.'' \<or> name = ''a''"
  have d: "dec_str 0 = [48]" by (simp add: dec_str_def dec_digits.simps [of 0])
  have r: "replicate 7 (32 :: nat) = [32, 32, 32, 32, 32, 32, 32]" by (simp add: numeral_eq_Suc)
  let ?l = "long_listing (env_strftime sample_env) (env_now sample_env) (sample_entry name)"
  have l: "list_all (\<lambda>c. c < 128) ?l \<and> length ?l < 100"
    using n by (auto simp: long_listing_def sample_env_def sample_entry_def new_attributes_def mode_string_def date_string_def
        ljust_def rjust_def lit_simps d r Let_def)
  have fits: "text_fits s" if "list_all (\<lambda>c. c < 128) s \<and> length s < 100" for s
  proof -
    from short_text [of s] that obtain b where "utf8_encode s = Inr b" "length (enc_field (FText s)) < 104" by auto
    then show ?thesis by (simp add: text_fits_def enc_field_def w_text.enc'_def)
  qed
  have "text_fits (lit name)" using n by (intro fits) (auto simp: lit_simps)
  moreover have "attributes_fit (sample_entry name)"
    by (simp add: attributes_fit_def packable_def attr_fields_def wire_def sample_entry_def new_attributes_def pack_flags_def flag_if_def)
  ultimately show ?thesis using fits [OF l] by (simp add: entry_ok_def) (simp add: sample_entry_def new_attributes_def)
qed

theorem listdir_complete_witness:
  "\<exists>as c'. listdir_attr (sftp_served sample_env (default_si\<lparr>si_list_folder := \<lambda>_. retS (Given [sample_entry ''.'', sample_entry ''a''])\<rparr>))
       (lit ''a'') (new_client (new_server [])) = Some (Inr as, c') \<and> map at_filename as = [Some (lit ''a'')]"
proof -
  let ?si = "default_si\<lparr>si_list_folder := \<lambda>_. retS (Given [sample_entry ''.'', sample_entry ''a''])\<rparr>"
  let ?c = "new_client (new_server []) :: (sftp_handle list, nat) sftp_server sftp_client"
  have e: "utf8_encode (lit ''a'') = Inr [97]" by (simp add: lit_simps utf8_encode_def utf8_char_def scalar_def)
  have p: "path_ok (cl_cwd ?c) (lit ''a'')" using e utf8_roundtrip [OF e] by (simp add: path_ok_def adjust_path_def new_client_def)
  have l: "si_list_folder ?si (at_cwd (cl_cwd ?c) (lit ''a'')) (sv_fs (cl_peer ?c)) = (Inr (Given [sample_entry ''.'', sample_entry ''a'']), [])"
    by (simp add: new_client_def new_server_def retS_at)
  have i: "idle ?c" "next_handle (cl_peer ?c) < 2 ^ 64" by (simp_all add: idle_def new_client_def new_server_def)
  have t: "tables_ok (cl_peer ?c)" by (simp add: new_client_def tables_new)
  have es: "list_all (entry_ok sample_env) [sample_entry ''.'', sample_entry ''a'']" by (simp add: sample_entry_ok)
  have k: "cl_request_number ?c + int (length [sample_entry ''.'', sample_entry ''a'']) + 3 < 2 ^ 32" by (simp add: new_client_def)
  from listdir_complete [OF i(1) t p i(2) l es k]
  have "\<exists>c'. listdir_attr (sftp_served sample_env ?si) (lit ''a'') ?c =
      Some (Inr (map (listed sample_env) (filter shown_entry [sample_entry ''.'', sample_entry ''a''])), c')" by blast
  moreover have "map at_filename (map (listed sample_env) (filter shown_entry [sample_entry ''.'', sample_entry ''a''])) = [Some (lit ''a'')]"
    by (simp add: shown_entry_def sample_entry_def listed_def named_def as_received_def new_attributes_def lit_inj)
  ultimately show ?thesis by (elim exE) (intro exI conjI)
qed

end
