(* ===== verification/Sftp_Transfer.thy ===== *)
theory Sftp_Transfer
  imports Sftp_File Sftp_Folder
begin

text \<open>
  Files of the server through the client: a handle that keeps the contract \<open>served_file\<close> reads and writes as the file
  itself does. The lemmas are proved once for the contract and used for the default handle.
\<close>

section \<open>A file that is open on both sides\<close>

text \<open>File \<open>i\<close> of the client, not one in append mode, stands for the handle \<open>hdl\<close> of the application, and nothing is under
  way.\<close>

definition attached :: "nat \<Rightarrow> 'h \<Rightarrow> ('f, 'h) sftp_server sftp_client \<Rightarrow> bool" where
  "attached i hdl c \<longleftrightarrow> idle c \<and> i < length (cl_files c) \<and>
     map_of (file_table (cl_peer c)) (sf_handle (the_file i c)) = Some hdl \<and> length (sf_handle (the_file i c)) < 2 ^ 24 \<and>
     \<not> sf_prefetching (the_file i c) \<and> \<not> sf_pipelined (the_file i c) \<and> sf_reqs (the_file i c) = [] \<and> 0 \<le> sf_realpos (the_file i c) \<and>
     \<not> sf_append (the_file i c)"

lemma attached_after:
  assumes "attached i hdl c" "served_state (cl_peer c) fs s'" "cl_request_number c + 1 < 2 ^ 32"
  shows "attached i hdl (after_call c s')" "the_file i (after_call c s') = the_file i c" "sv_fs (cl_peer (after_call c s')) = fs"
  using assms by (auto simp: attached_def after_call_def served_state_def idle_def the_file_def)

lemma attached_moved:
  assumes "attached i hdl c"
  shows "attached i hdl (snd (move_pos i n c))" "sf_realpos (the_file i (snd (move_pos i n c))) = sf_realpos (the_file i c) + int n"
    "cl_peer (snd (move_pos i n c)) = cl_peer c" "cl_request_number (snd (move_pos i n c)) = cl_request_number c"
  using assms by (simp_all add: attached_def move_pos_def upd_file_def modS_def idle_def the_file_def)

lemma attached_wrote: "attached i hdl c \<Longrightarrow> wrote_pos i n c = move_pos i n c"
  by (simp add: attached_def wrote_pos_def move_pos_def upd_file_def modS_def the_file_def)

lemma process_file_simps:
  "process env si CMD_READ n m = reading get_binary m (\<lambda>h m. reading get_int64 m (\<lambda>off m. reading get_int m (\<lambda>len m.
     process_read si n h off len)))"
  "process env si CMD_WRITE n m = reading get_binary m (\<lambda>h m. reading get_int64 m (\<lambda>off m. reading get_binary m (\<lambda>data m.
     with_file n h (\<lambda>f. app_status n (h_write si f off data)))))"
  by (simp_all add: process_def CMD_NAMES_def cmd_defs)

lemma reading_int64:
  assumes "holds_fields m (FInt64 n # fs)" "\<And>m'. holds_fields m' fs \<Longrightarrow> f n m' a = x"
  shows "reading get_int64 m f a = x"
proof -
  have "get_int64 m = (Inr n, advance m (length (enc_field (FInt64 n))))"
    using assms(1) f_int64.get_prefix [of n m "concat (map enc_field fs)"] by (simp add: holds_fields_def enc_field_def)
  from reading_field [where p = get_int64, OF assms(1) this, of f a] assms(2) show ?thesis by auto
qed

lemma process_read_request:
  assumes "holds_fields m [FString h, FInt64 off, FInt len]"
  shows "process env si CMD_READ n m s = process_read si n h off len s"
  unfolding process_file_simps
  by (rule reading_binary [OF assms], rule reading_int64, assumption, rule reading_int, assumption) (rule refl)

lemma process_write_request:
  assumes "holds_fields m [FString h, FInt64 off, FString data]" "map_of (file_table s) h = Some hdl"
  shows "process env si CMD_WRITE n m s = bindS (app (h_write si hdl off data)) (\<lambda>c. send_status n c None) s"
  unfolding process_file_simps
  by (rule reading_binary [OF assms(1)], rule reading_int64, assumption, rule reading_binary, assumption)
    (simp add: with_file_def assms(2) app_status_def)

lemma write_at_append: "write_at p (a @ b) d = write_at (p + length a) b (write_at p a d)"
proof -
  have "length (take p d @ replicate (p - length d) 0 @ a) = p + length a" by simp
  then show ?thesis
    unfolding write_at_def
    by (simp add: append_assoc [symmetric] add.assoc del: append_assoc) (simp add: add.commute add.left_commute)
qed

lemma slice_split: "slice_at p n d @ drop (p + length (slice_at p n d)) d = drop p d"
proof -
  have "take n x @ drop (length (take n x)) x = x" for x :: bytes by (cases "n \<le> length x") simp_all
  from this [of "drop p d"] show ?thesis by (simp add: slice_at_def add.commute)
qed

section \<open>One request\<close>

text \<open>The server \<open>s'\<close> is \<open>s\<close> but for the application, whose file now holds \<open>b\<close>.\<close>

definition now_holds :: "('f \<Rightarrow> bool) \<Rightarrow> ('f \<Rightarrow> bytes) \<Rightarrow> ('f, 'h) sftp_server \<Rightarrow> ('f, 'h) sftp_server \<Rightarrow> bytes \<Rightarrow> bool" where
  "now_holds ready bytes_of s s' b \<longleftrightarrow> (\<exists>fs'. served_state s fs' s' \<and> ready fs' \<and> bytes_of fs' = b)"

context served_file
begin

lemma read_served:
  assumes "attached i hdl c" "ready (sv_fs (cl_peer c))" "n \<le> MAX_REQUEST_SIZE" "sf_realpos (the_file i c) < 2 ^ 64"
  shows "\<exists>s'. sf_read_request (sftp_served env si) i n c =
       (let b = slice_at (nat (sf_realpos (the_file i c))) n (bytes_of (sv_fs (cl_peer c))) in if b = [] then Inl EOFError else Inr b,
        after_call c s') \<and> now_holds ready bytes_of (cl_peer c) s' (bytes_of (sv_fs (cl_peer c)))"
proof -
  let ?h = "sf_handle (the_file i c)" and ?p = "sf_realpos (the_file i c)" and ?n = "cl_request_number c" and ?s = "cl_peer c"
  let ?b = "slice_at (nat ?p) n (bytes_of (sv_fs ?s))"
  have at: "idle c" "map_of (file_table ?s) ?h = Some hdl" "length ?h < 2 ^ 24" "0 \<le> ?p"
    using assms(1) by (simp_all add: attached_def)
  have num: "0 \<le> ?n" "?n < 2 ^ 32" using at(1) by (simp_all add: idle_def)
  obtain fs' where fs': "h_read si hdl ?p (int n) (sv_fs ?s) = (Inr (Given ?b), fs')" "ready fs'" "bytes_of fs' = bytes_of (sv_fs ?s)"
    using serves_read [OF assms(2) at(4), of "int n"] by auto
  have q: "asks c CMD_READ [IBytes ?h, IInt64 ?p, IInt (int n)]"
    using at assms(3,4) by (intro asks_short) (simp_all add: ok_string_def wire_def MAX_REQUEST_SIZE_def enc_field_def)
  have p: "process env si CMD_READ ?n m ?s = (if ?b = [] then send_status ?n SFTP_EOF None (?s\<lparr>sv_fs := fs'\<rparr>)
      else response ?n CMD_DATA [IBytes ?b] (?s\<lparr>sv_fs := fs'\<rparr>))"
    if "holds_fields m (concat (map item_fields [IBytes ?h, IInt64 ?p, IInt (int n)]))" for m
    using process_read_request [of m ?h ?p "int n" env si ?n ?s] that at(2) fs'(1)
    by (simp add: process_read_def with_file_def app_def bindS_def)
  show ?thesis
  proof (cases "?b = []")
    case True
    from request_status [OF q p [unfolded if_P [OF True]]] obtain m where
      "request (sftp_served env si) CMD_READ [IBytes ?h, IInt64 ?p, IInt (int n)] c =
        (Inl EOFError, after_call c (with_status ?n SFTP_EOF (?s\<lparr>sv_fs := fs'\<rparr>)))"
      by (auto simp: code_result_def sftp_code_defs)
    then show ?thesis using True fs'(2,3)
      by (intro exI [of _ "with_status ?n SFTP_EOF (?s\<lparr>sv_fs := fs'\<rparr>)"])
        (auto simp: sf_read_request_def bindS_def now_holds_def served_state_def with_status_def)
  next
    case False
    have len: "length ?b \<le> 32768" using assms(3) by (simp add: slice_at_def MAX_REQUEST_SIZE_def)
    let ?s' = "?s\<lparr>sv_fs := fs', sv_sent := sv_sent ?s @ [(CMD_DATA, wire [FInt ?n, FString ?b])]\<rparr>"
    have "sendable (FInt ?n # concat (map item_fields [IBytes ?b]))"
      using num len by (simp add: sendable_def ok_string_def wire_def)
    then have r: "response ?n CMD_DATA [IBytes ?b] (?s\<lparr>sv_fs := fs'\<rparr>) = (Inr (), ?s')"
      by (simp add: response_sends CMD_DATA_def)
    have "\<exists>m. request (sftp_served env si) CMD_READ [IBytes ?h, IInt64 ?p, IInt (int n)] c = (Inr (CMD_DATA, m), after_call c ?s') \<and>
        holds_fields m [FString ?b]"
      by (rule request_reply [OF q])
        (use p False r len in \<open>simp_all add: ok_string_def cmd_defs\<close>)
    then obtain m where m: "request (sftp_served env si) CMD_READ [IBytes ?h, IInt64 ?p, IInt (int n)] c = (Inr (CMD_DATA, m), after_call c ?s')"
      "holds_fields m [FString ?b]" by blast
    from holds_string [OF m(2)] obtain m' where "get_string m = (Inr ?b, m')" by blast
    with m(1) False fs'(2,3) show ?thesis
      by (intro exI [of _ ?s']) (auto simp: sf_read_request_def bindS_def reading_def retS_at now_holds_def served_state_def)
  qed
qed

lemma write_served:
  assumes "attached i hdl c" "ready (sv_fs (cl_peer c))" "sf_realpos (the_file i c) < 2 ^ 64"
  shows "\<exists>s'. sf_write (sftp_served env si) i data c = (Inr (min (length data) MAX_REQUEST_SIZE), after_call c s') \<and>
     now_holds ready bytes_of (cl_peer c) s' (let b = take MAX_REQUEST_SIZE data; d = bytes_of (sv_fs (cl_peer c))
       in if b = [] then d else write_at (nat (sf_realpos (the_file i c))) b d)"
proof -
  let ?h = "sf_handle (the_file i c)" and ?p = "sf_realpos (the_file i c)" and ?n = "cl_request_number c" and ?s = "cl_peer c"
  let ?b = "take MAX_REQUEST_SIZE data"
  let ?items = "[IBytes ?h, IInt64 ?p, IBytes ?b]"
  have at: "idle c" "i < length (cl_files c)" "map_of (file_table ?s) ?h = Some hdl" "length ?h < 2 ^ 24" "0 \<le> ?p"
      "\<not> sf_pipelined (the_file i c)" "sf_reqs (the_file i c) = []"
    using assms(1) by (simp_all add: attached_def)
  have num: "0 \<le> ?n" "?n < 2 ^ 32" using at(1) by (simp_all add: idle_def)
  obtain fs' where fs': "h_write si hdl ?p ?b (sv_fs ?s) = (Inr SFTP_OK, fs')" "ready fs'"
      "bytes_of fs' = (if ?b = [] then bytes_of (sv_fs ?s) else write_at (nat ?p) ?b (bytes_of (sv_fs ?s)))"
    using serves_write [OF assms(2) at(5), of ?b] by auto
  have len: "length ?b \<le> 32768" by (simp add: MAX_REQUEST_SIZE_def)
  have wr: "0 \<le> CMD_WRITE" "CMD_WRITE < 256" by simp_all
  have q: "asks c CMD_WRITE ?items"
    using at assms(3) len by (intro asks_short) (simp_all add: ok_string_def wire_def enc_field_def del: length_take)
  let ?s' = "with_status ?n SFTP_OK (?s\<lparr>sv_fs := fs'\<rparr>)"
  have q': "sendable (FInt ?n # concat (map item_fields ?items))" using q by (simp only: asks_def)
  have ok: "list_all ok_field (concat (map item_fields ?items))" using q' by (simp add: sendable_def)
  have "answers_with env si ?n CMD_WRITE (concat (map item_fields ?items)) ?s CMD_STATUS
      [FInt SFTP_OK, FText (status_text SFTP_OK), FText []] ?s'"
  proof (rule answers_if_done [OF num ok status_fields_ok])
    fix m assume m: "holds_fields m (concat (map item_fields ?items))"
    have "process env si CMD_WRITE ?n m ?s = send_status ?n SFTP_OK None (?s\<lparr>sv_fs := fs'\<rparr>)"
      using process_write_request [of m ?h ?p ?b ?s hdl env si ?n] m at(3) fs'(1) by (simp add: app_def bindS_def)
    then show "process env si CMD_WRITE ?n m ?s = (Inr (), ?s')"
      using send_status_sends [OF num, of SFTP_OK "?s\<lparr>sv_fs := fs'\<rparr>"] by (simp add: with_status_def SFTP_OK_def)
  qed (simp_all add: SFTP_OK_def with_status_def status_fields_def)
  note async = async_answered [OF at(1) q' wr this]
  let ?c1 = "has_asked c (CMD_STATUS, wire (FInt ?n # [FInt SFTP_OK, FText (status_text SFTP_OK), FText []])) ?s'"
  let ?c2 = "?c1\<lparr>cl_files := (cl_files c)[i := (the_file i c)\<lparr>sf_reqs := [?n]\<rparr>]\<rparr>"
  have sok: "list_all ok_field [FInt SFTP_OK, FText (status_text SFTP_OK), FText []]"
    by (rule status_fields_ok) (simp_all add: SFTP_OK_def)
  from await_answer [OF num sok, of "?c2\<lparr>cl_files := cl_files c\<rparr>" CMD_STATUS] obtain m where
    m: "holds_fields m [FInt SFTP_OK, FText (status_text SFTP_OK), FText []]"
      "await ?n (?c2\<lparr>cl_files := cl_files c\<rparr>) = (client_sees CMD_STATUS m, after_call c ?s')"
    using at(1) by (auto simp: has_asked_def after_call_def idle_def)
  obtain m' where "convert_status m = (Inr (), m')"
    using convert_status_holds [OF m(1)] by (cases "convert_status m") (simp add: code_result_def)
  then have aw: "await ?n (?c2\<lparr>cl_files := cl_files c\<rparr>) = (Inr (CMD_STATUS, m'), after_call c ?s')"
    using m(2) by (simp add: client_sees_def)
  have "sf_write (sftp_served env si) i data c = (Inr (min (length data) MAX_REQUEST_SIZE), after_call c ?s')"
  proof -
    have u1: "upd_file i (\<lambda>f. f\<lparr>sf_reqs := sf_reqs f @ [?n]\<rparr>) ?c1 = (Inr (), ?c2)"
      using at(7) by (simp add: upd_file_def modS_def has_asked_def the_file_def)
    have f2: "the_file i ?c2 = (the_file i c)\<lparr>sf_reqs := [?n]\<rparr>" using at(2) by (simp add: the_file_def)
    have "(the_file i c)\<lparr>sf_reqs := []\<rparr> = the_file i c" using at(7) by (simp add: the_file_def)
    then have u2: "upd_file i (\<lambda>f. f\<lparr>sf_reqs := []\<rparr>) ?c2 = (Inr (), ?c2\<lparr>cl_files := cl_files c\<rparr>)"
      using at(2) by (simp add: upd_file_def modS_def the_file_def)
    have d: "drain_reqs i [?n] ?c2 = (Inr (), after_call c ?s')"
      using aw by (simp add: bindS_step [where p = "upd_file i _", OF u2]) (simp add: bindS_def retS_at)
    have t: "take (min (length data) MAX_REQUEST_SIZE) data = ?b" by (simp add: min_def)
    let ?A = "\<lambda>c. async_request (sftp_served env si) None CMD_WRITE
        [IBytes (sf_handle (the_file i c)), IInt64 (sf_realpos (the_file i c)), IBytes ?b] c"
    show ?thesis
      unfolding sf_write_def Let_def t
      by (subst bindS_step [where p = ?A and m = c, OF async], subst bindS_step [where p = "upd_file i _", OF u1])
        (use d f2 at(6) in \<open>simp add: bindS_def retS_at\<close>)
  qed
  then show ?thesis using fs'(2,3)
    by (intro exI [of _ ?s']) (auto simp: now_holds_def served_state_def with_status_def Let_def)
qed

lemma write_step:
  assumes "attached i hdl c" "ready (sv_fs (cl_peer c))" "sf_realpos (the_file i c) < 2 ^ 64" "cl_request_number c + 1 < 2 ^ 32"
    and n: "n = min (length data) MAX_REQUEST_SIZE" "0 < n"
  shows "\<exists>c1. sf_write (sftp_served env si) i data c = (Inr n, c1) \<and> wrote_pos i n c1 = move_pos i n c1 \<and>
     attached i hdl (snd (move_pos i n c1)) \<and>
     ready (sv_fs (cl_peer c1)) \<and> bytes_of (sv_fs (cl_peer c1)) = write_at (nat (sf_realpos (the_file i c))) (take n data) (bytes_of (sv_fs (cl_peer c))) \<and>
     sf_realpos (the_file i (snd (move_pos i n c1))) = sf_realpos (the_file i c) + int n \<and> cl_request_number c1 = cl_request_number c + 1"
proof -
  have t: "take MAX_REQUEST_SIZE data = take n data" "take n data \<noteq> []" using n by (auto simp: min_def)
  from write_served [OF assms(1-3), where env = env and data = data, unfolded Let_def t(1) if_not_P [OF t(2)], folded n(1)] obtain s' where s': "sf_write (sftp_served env si) i data c = (Inr n, after_call c s')"
    "now_holds ready bytes_of (cl_peer c) s' (write_at (nat (sf_realpos (the_file i c))) (take n data) (bytes_of (sv_fs (cl_peer c))))"
    by blast
  then obtain fs where fs: "served_state (cl_peer c) fs s'" "ready fs"
    "bytes_of fs = write_at (nat (sf_realpos (the_file i c))) (take n data) (bytes_of (sv_fs (cl_peer c)))" by (auto simp: now_holds_def)
  note a = attached_after [OF assms(1) fs(1) assms(4)]
  from attached_moved [OF a(1), of n] attached_wrote [OF a(1), of n] a s'(1) fs(2,3) show ?thesis
    by (intro exI [of _ "after_call c s'"]) (auto simp: after_call_def)
qed

lemma write_all_served:
  assumes "attached i hdl c" "ready (sv_fs (cl_peer c))" "sf_realpos (the_file i c) + int (length data) < 2 ^ 64"
    "cl_request_number c + int (length data) < 2 ^ 32"
  shows "\<exists>c'. raw_write_all (sftp_served env si) i data c = (Inr (), c') \<and> attached i hdl c' \<and> ready (sv_fs (cl_peer c')) \<and>
     bytes_of (sv_fs (cl_peer c')) = (if data = [] then bytes_of (sv_fs (cl_peer c))
        else write_at (nat (sf_realpos (the_file i c))) data (bytes_of (sv_fs (cl_peer c)))) \<and>
     cl_request_number c' \<le> cl_request_number c + int (length data)"
  using assms
proof (induction "length data" arbitrary: data c rule: less_induct)
  case less
  let ?p = "sf_realpos (the_file i c)" and ?d = "bytes_of (sv_fs (cl_peer c))"
  show ?case
  proof (cases "data = []")
    case True
    with less.prems show ?thesis by (simp add: raw_write_all.simps)
  next
    case False
    define n where "n = min (length data) MAX_REQUEST_SIZE"
    have n: "0 < n" "n \<le> length data" using False by (simp_all add: n_def MAX_REQUEST_SIZE_def)
    have p: "0 \<le> ?p" "?p < 2 ^ 64" "cl_request_number c + 1 < 2 ^ 32"
      using less.prems n by (auto simp: attached_def)
    obtain c1 where c1: "sf_write (sftp_served env si) i data c = (Inr n, c1)" "attached i hdl (snd (move_pos i n c1))"
      "wrote_pos i n c1 = move_pos i n c1"
      "ready (sv_fs (cl_peer c1))" "bytes_of (sv_fs (cl_peer c1)) = write_at (nat ?p) (take n data) ?d"
      "sf_realpos (the_file i (snd (move_pos i n c1))) = ?p + int n" "cl_request_number c1 = cl_request_number c + 1"
      using write_step [OF less.prems(1,2) p(2,3) n_def n(1)] by blast
    have peer: "cl_peer (snd (move_pos i n c1)) = cl_peer c1" "cl_request_number (snd (move_pos i n c1)) = cl_request_number c1"
      by (simp_all add: move_pos_def upd_file_def modS_def)
    have step: "raw_write_all (sftp_served env si) i data c = raw_write_all (sftp_served env si) i (drop n data) (snd (move_pos i n c1))"
      using False by (subst raw_write_all.simps) (simp add: c1(1,3))
    have le: "length (drop n data) < length data" using n by simp
    obtain c' where c': "raw_write_all (sftp_served env si) i (drop n data) (snd (move_pos i n c1)) = (Inr (), c')" "attached i hdl c'"
      "ready (sv_fs (cl_peer c'))"
      "bytes_of (sv_fs (cl_peer c')) = (if drop n data = [] then bytes_of (sv_fs (cl_peer c1))
          else write_at (nat (?p + int n)) (drop n data) (bytes_of (sv_fs (cl_peer c1))))"
      "cl_request_number c' \<le> cl_request_number c1 + int (length (drop n data))"
      using less.hyps [OF le c1(2)] less.prems(3,4) n c1(4,6,7) peer by (auto simp: of_nat_diff)
    have "nat (?p + int n) = nat ?p + length (take n data)" using p(1) n by (simp add: nat_add_distrib)
    then have "bytes_of (sv_fs (cl_peer c')) = write_at (nat ?p) data ?d"
      using c'(4) c1(5) write_at_append [of "nat ?p" "take n data" "drop n data" ?d]
      by (cases "drop n data = []") simp_all
    with False c' step c1(7) n show ?thesis by (intro exI [of _ c']) (auto simp: of_nat_diff)
  qed
qed

lemma slurp_served:
  assumes "attached i hdl c" "ready (sv_fs (cl_peer c))" "0 < bufsize"
    "sf_realpos (the_file i c) + int (length (drop (nat (sf_realpos (the_file i c))) (bytes_of (sv_fs (cl_peer c))))) < 2 ^ 64"
    "cl_request_number c + int (length (drop (nat (sf_realpos (the_file i c))) (bytes_of (sv_fs (cl_peer c))))) + 1 < 2 ^ 32"
  shows "\<exists>c'. raw_slurp (sftp_served env si) i bufsize acc c =
     Some (Inr (acc @ drop (nat (sf_realpos (the_file i c))) (bytes_of (sv_fs (cl_peer c)))), c') \<and>
     ready (sv_fs (cl_peer c')) \<and> bytes_of (sv_fs (cl_peer c')) = bytes_of (sv_fs (cl_peer c))"
  using assms
proof (induction "length (drop (nat (sf_realpos (the_file i c))) (bytes_of (sv_fs (cl_peer c))))" arbitrary: c acc rule: less_induct)
  case less
  let ?p = "sf_realpos (the_file i c)" and ?d = "bytes_of (sv_fs (cl_peer c))"
  let ?n = "min bufsize MAX_REQUEST_SIZE"
  let ?b = "slice_at (nat ?p) ?n ?d"
  have n: "0 < ?n" "?n \<le> MAX_REQUEST_SIZE" using less.prems(3) by (simp_all add: MAX_REQUEST_SIZE_def)
  have p: "0 \<le> ?p" "?p < 2 ^ 64" "cl_request_number c + 1 < 2 ^ 32" using less.prems by (auto simp: attached_def)
  have pre: "\<not> sf_prefetching (the_file i c)" using less.prems(1) by (simp add: attached_def)
  from read_served [OF less.prems(1,2) n(2) p(2), of env] obtain s' where s': "sf_read_request (sftp_served env si) i ?n c =
      (if ?b = [] then Inl EOFError else Inr ?b, after_call c s')" "now_holds ready bytes_of (cl_peer c) s' ?d"
    by (auto simp: Let_def)
  then obtain fs where fs: "served_state (cl_peer c) fs s'" "ready fs" "bytes_of fs = ?d" by (auto simp: now_holds_def)
  note a = attached_after [OF less.prems(1) fs(1) p(3)]
  have rd: "sf_read (sftp_served env si) i bufsize c = Some (if ?b = [] then Inl EOFError else Inr ?b, after_call c s')"
    using pre s'(1) by (simp add: sf_read_def Let_def)
  show ?case
  proof (cases "?b = []")
    case True
    then have "drop (nat ?p) ?d = []" using n(1) by (simp add: slice_at_def)
    moreover have "raw_slurp (sftp_served env si) i bufsize acc c = Some (Inr acc, after_call c s')"
      using rd True by (subst raw_slurp.simps) simp
    ultimately show ?thesis using a fs by auto
  next
    case False
    let ?k = "length ?b" and ?c1 = "snd (move_pos i (length ?b) (after_call c s'))"
    note m = attached_moved [OF a(1), of ?k]
    have step: "raw_slurp (sftp_served env si) i bufsize acc c = raw_slurp (sftp_served env si) i bufsize (acc @ ?b) ?c1"
      using rd False by (subst raw_slurp.simps) simp
    have q: "nat (sf_realpos (the_file i ?c1)) = nat ?p + ?k" using m(2) a(2) p(1) by (simp add: nat_add_distrib)
    have d1: "bytes_of (sv_fs (cl_peer ?c1)) = ?d" "ready (sv_fs (cl_peer ?c1))" using m(3) a(3) fs by simp_all
    have split: "?b @ drop (nat ?p + ?k) ?d = drop (nat ?p) ?d"
      by (rule slice_split)
    have k: "0 < ?k" "?k \<le> length (drop (nat ?p) ?d)" using False by (simp_all add: slice_at_def)
    have le: "length (drop (nat ?p + ?k) ?d) + ?k = length (drop (nat ?p) ?d)"
      using arg_cong [OF split, of length] unfolding length_append by (rule trans [OF add.commute])
    have num: "cl_request_number ?c1 = cl_request_number c + 1" using m(4) by (simp add: after_call_def)
    let ?rest = "drop (nat (sf_realpos (the_file i ?c1))) (bytes_of (sv_fs (cl_peer ?c1)))"
    have r: "length ?rest + ?k = length (drop (nat ?p) ?d)" unfolding q d1 by (rule le)
    have pos: "sf_realpos (the_file i ?c1) = ?p + int ?k" using m(2) a(2) by simp
    have 1: "length ?rest < length (drop (nat ?p) ?d)" using r k(1) by linarith
    have 2: "sf_realpos (the_file i ?c1) + int (length ?rest) < 2 ^ 64" using less.prems(4) r unfolding pos by linarith
    have 3: "cl_request_number ?c1 + int (length ?rest) + 1 < 2 ^ 32" using less.prems(5) r k(1) unfolding num by linarith
    from less.hyps [OF 1 m(1) d1(2) less.prems(3) 2 3, of "acc @ ?b"]
    obtain c' where c': "raw_slurp (sftp_served env si) i bufsize (acc @ ?b) ?c1 = Some (Inr ((acc @ ?b) @ drop (nat ?p + ?k) ?d), c')"
      "ready (sv_fs (cl_peer c'))" "bytes_of (sv_fs (cl_peer c')) = ?d" unfolding q d1 by blast
    with step split show ?thesis by (intro exI [of _ c']) simp
  qed
qed

end

section \<open>Properties\<close>

lemma length_write_at: "length (write_at p a d) = max (length d) (p + length a)"
  by (auto simp: write_at_def max_def)

text \<open>C11. What is written to a remote file is what is read from it, when the file is not open in append mode: the file
  object of the client is not pipelined, does not read ahead and is not in append mode (\<open>attached\<close>), and the handle of the
  server is one of the default interface, open for reading and writing without \<^verbatim>\<open>O_APPEND\<close>, whose file raises no errors
  (\<open>open_at\<close>). Then writing over the client returns, puts the bytes into the file of the server at the position of the file
  object and touches nothing else in it, in as many requests as it takes, and reading from any position afterwards gives
  the rest of the file and ends. (For a handle in append mode this is not so: \<open>append_then_read\<close> in \<open>Sftp_Handle\<close>.)\<close>

theorem remote_file_roundtrip:
  assumes "attached i k c" "open_at k (sv_fs (cl_peer c))" "0 < bufsize" "0 \<le> q" "q < 2 ^ 63"
    and "old = file_bytes (sv_fs (cl_peer c) ! k)" "p = nat (sf_realpos (the_file i c))"
    and "new = (if data = [] then old else write_at p data old)"
    and "cl_request_number c + int (length data) + int (p + length data) + int (length old) + 1 < 2 ^ 32"
  shows "\<exists>c1 c2. raw_write_all (sftp_served env default_si) i data c = (Inr (), c1) \<and> file_bytes (sv_fs (cl_peer c1) ! k) = new \<and>
     raw_slurp (sftp_served env default_si) i bufsize [] (snd (upd_file i (\<lambda>f. f\<lparr>sf_realpos := q\<rparr>) c1)) = Some (Inr (drop (nat q) new), c2)"
proof -
  have at: "0 \<le> sf_realpos (the_file i c)" "0 \<le> cl_request_number c" using assms(1) by (simp_all add: attached_def idle_def)
  have w: "sf_realpos (the_file i c) + int (length data) < 2 ^ 64" "cl_request_number c + int (length data) < 2 ^ 32"
    using assms(7,9) at by simp_all
  obtain c1 where c1: "raw_write_all (sftp_served env default_si) i data c = (Inr (), c1)" "attached i k c1" "open_at k (sv_fs (cl_peer c1))"
      "file_bytes (sv_fs (cl_peer c1) ! k) = new" "cl_request_number c1 \<le> cl_request_number c + int (length data)"
    using default_file.write_all_served [OF assms(1,2) w, of env] assms(6-8) by auto
  let ?c2 = "snd (upd_file i (\<lambda>f. f\<lparr>sf_realpos := q\<rparr>) c1)"
  have s2: "attached i k ?c2" "cl_peer ?c2 = cl_peer c1" "sf_realpos (the_file i ?c2) = q" "cl_request_number ?c2 = cl_request_number c1"
    using c1(2) assms(4) by (simp_all add: attached_def upd_file_def modS_def idle_def the_file_def)
  have len: "length new \<le> length old + (p + length data)"
    using assms(8) by (simp add: length_write_at)
  then have rest: "int (length (drop (nat q) new)) \<le> int (length old) + int (p + length data)" by simp
  have "\<exists>c'. raw_slurp (sftp_served env default_si) i bufsize [] ?c2 =
     Some (Inr ([] @ drop (nat (sf_realpos (the_file i ?c2))) (file_bytes (sv_fs (cl_peer ?c2) ! k))), c') \<and>
     open_at k (sv_fs (cl_peer c')) \<and> file_bytes (sv_fs (cl_peer c') ! k) = file_bytes (sv_fs (cl_peer ?c2) ! k)"
  proof (rule default_file.slurp_served [OF s2(1) _ assms(3)], unfold s2 c1(4))
    have "int (length (drop (nat q) new)) < 2 ^ 32" using rest assms(9) at(2) by linarith
    with assms(5) have "q + int (length (drop (nat q) new)) < 2 ^ 63 + 2 ^ 32" by (rule add_strict_mono)
    then show "q + int (length (drop (nat q) new)) < 2 ^ 64" by simp
    show "cl_request_number c1 + int (length (drop (nat q) new)) + 1 < 2 ^ 32" using rest assms(9) c1(5) by linarith
  qed (rule c1(3))
  with s2 c1 show ?thesis by auto
qed

definition sample_handle :: sftp_handle where
  "sample_handle = new_handle O_RDWR \<lparr>pf_data = [7, 8, 9, 10], pf_pos = 0, pf_append = False, pf_closed = False, pf_faults = []\<rparr>"

definition sample_client :: "(sftp_handle list, nat) sftp_server sftp_client" where
  "sample_client = (new_client ((new_server [sample_handle])\<lparr>next_handle := 2, file_table := [(handle_name 1, 0)]\<rparr>))
     \<lparr>cl_files := [new_sftp_file (handle_name 1)]\<rparr>"

theorem remote_file_roundtrip_witness:
  "\<exists>c1 c2. raw_write_all (sftp_served sample_env default_si) 0 [1, 2] sample_client = (Inr (), c1) \<and>
     raw_slurp (sftp_served sample_env default_si) 0 8192 [] (snd (upd_file 0 (\<lambda>f. f\<lparr>sf_realpos := 1\<rparr>) c1)) = Some (Inr [2, 9, 10], c2)"
proof -
  have 1: "attached 0 0 sample_client"
    using length_handle_name [of 1]
    by (simp add: attached_def sample_client_def new_client_def new_server_def new_sftp_file_def idle_def the_file_def)
  have 2: "open_at 0 (sv_fs (cl_peer sample_client))"
    by (simp add: open_at_def sample_client_def new_client_def new_server_def sample_handle_def new_handle_def coherent_def
        has_flag_def O_RDWR_def O_APPEND_def)
  have 3: "[7, 8, 9, 10] = file_bytes (sv_fs (cl_peer sample_client) ! 0)" "0 = nat (sf_realpos (the_file 0 sample_client))"
    by (simp_all add: sample_client_def new_client_def new_server_def sample_handle_def new_handle_def file_bytes_def the_file_def new_sftp_file_def)
  have 4: "[1, 2, 9, 10] = (if [1, 2 :: byte] = [] then [7, 8, 9, 10] else write_at 0 [1, 2] [7, 8, 9, 10])"
    by (simp add: write_at_def)
  have 5: "cl_request_number sample_client + int (length [1, 2 :: byte]) + int (0 + length [1, 2 :: byte]) + int (length [7, 8, 9, 10 :: byte]) + 1 < 2 ^ 32"
    by (simp add: sample_client_def new_client_def)
  from remote_file_roundtrip [OF 1 2 _ _ _ 3 4 5, of 8192 1 sample_env] show ?thesis by auto
qed

end
