(* ===== verification/Py_Shell.thy ===== *)
theory Py_Shell
  imports Py_Text
begin

text \<open>
  The rest of Python's text library that \<^verbatim>\<open>paramiko/config.py\<close> uses: \<^verbatim>\<open>shlex.split\<close>, \<^verbatim>\<open>fnmatch.fnmatch\<close> (on POSIX,
  where case is kept), \<^verbatim>\<open>str.replace\<close>, \<^verbatim>\<open>str.split()\<close>, \<^verbatim>\<open>int\<close> of a text and \<^verbatim>\<open>repr\<close> of one. What they take from the
  Unicode data base beyond ASCII is a parameter.
\<close>

section \<open>Words of a shell\<close>

text \<open>The states of the POSIX tokenizer with \<^verbatim>\<open>whitespace_split\<close>: between words, inside a word, inside quotes, after
  a backslash (with the state to go back to). \<open>tok\<close> is the word read so far, \<open>None\<close> when there is none yet.\<close>

datatype shell_state = Between | Within | Quoted nat | Escaped shell_state

definition shell_space :: "nat \<Rightarrow> bool" where
  "shell_space c \<longleftrightarrow> c = 32 \<or> c = 9 \<or> c = 13 \<or> c = 10"

fun shell_words :: "shell_state \<Rightarrow> ustr \<Rightarrow> ustr \<Rightarrow> ustr list res" where
  "shell_words Between tok [] = Inr []"
| "shell_words Within tok [] = Inr [tok]"
| "shell_words (Quoted q) tok [] = Inl (ValueError ''No closing quotation'')"
| "shell_words (Escaped st) tok [] = Inl (ValueError ''No escaped character'')"
| "shell_words Between tok (c # cs) =
     (if shell_space c then shell_words Between [] cs
      else if c = 92 then shell_words (Escaped Within) [] cs
      else if c = 34 \<or> c = 39 then shell_words (Quoted c) [] cs
      else shell_words Within [c] cs)"
| "shell_words Within tok (c # cs) =
     (if shell_space c then bindR (shell_words Between [] cs) (\<lambda>ws. Inr (tok # ws))
      else if c = 92 then shell_words (Escaped Within) tok cs
      else if c = 34 \<or> c = 39 then shell_words (Quoted c) tok cs
      else shell_words Within (tok @ [c]) cs)"
| "shell_words (Quoted q) tok (c # cs) =
     (if c = q then shell_words Within tok cs
      else if c = 92 \<and> q = 34 then shell_words (Escaped (Quoted q)) tok cs
      else shell_words (Quoted q) (tok @ [c]) cs)"
| "shell_words (Escaped st) tok (c # cs) =
     (case st of
        Quoted q \<Rightarrow> shell_words st (if c \<noteq> 92 \<and> c \<noteq> q then tok @ [92, c] else tok @ [c]) cs
      | _ \<Rightarrow> shell_words Within (tok @ [c]) cs)"

definition shlex_split :: "ustr \<Rightarrow> ustr list res" where
  "shlex_split s = shell_words Between [] s"

section \<open>Patterns\<close>

text \<open>A set of characters is a list of characters and ranges.\<close>

datatype glob_item = Single nat | Range nat nat

fun glob_items :: "ustr \<Rightarrow> glob_item list" where
  "glob_items (x # y # z # r) = (if y = 45 then Range x z # glob_items r else Single x # glob_items (y # z # r))"
| "glob_items (x # r) = Single x # glob_items r"
| "glob_items [] = []"

text \<open>A leading exclamation mark stays out of ranges; ranges that hold nothing are left out, and what then begins
  with an exclamation mark is a complement.\<close>

definition glob_set :: "ustr \<Rightarrow> bool \<times> glob_item list" where
  "glob_set body =
     (let items = (case body of [] \<Rightarrow> [] | c # r \<Rightarrow> if c = 33 then Single c # glob_items r else glob_items body);
          kept = filter (\<lambda>i. case i of Single _ \<Rightarrow> True | Range a b \<Rightarrow> a \<le> b) items
      in case kept of
           Single c # r \<Rightarrow> if c = 33 then (True, r) else (False, kept)
         | Range a b # r \<Rightarrow> if a = 33 then (True, Single 45 # Single b # r) else (False, kept)
         | [] \<Rightarrow> (False, []))"

fun in_item :: "nat \<Rightarrow> glob_item \<Rightarrow> bool" where
  "in_item c (Single x) = (c = x)"
| "in_item c (Range a b) = (a \<le> c \<and> c \<le> b)"

definition in_glob_set :: "nat \<Rightarrow> ustr \<Rightarrow> bool" where
  "in_glob_set c body = (let (neg, items) = glob_set body in neg \<noteq> list_ex (in_item c) items)"

text \<open>What follows an opening bracket up to the closing one, which may come first (after an exclamation mark) as a
  member of the set: the body of the set and the rest of the pattern.\<close>

definition glob_bracket :: "ustr \<Rightarrow> (ustr \<times> ustr) option" where
  "glob_bracket p =
     (let a = (if startswith p [33] then 1 else 0);
          b = (if startswith (drop a p) [93] then Suc a else a);
          body = take b p @ takeWhile (\<lambda>c. c \<noteq> 93) (drop b p)
      in if length body < length p then Some (body, drop (Suc (length body)) p) else None)"

lemma glob_bracket_shorter: "glob_bracket p = Some (body, r) \<Longrightarrow> length r < Suc (length p)"
  by (auto simp: glob_bracket_def Let_def split: if_splits)

text \<open>\<open>some_suffix f s\<close>: some end of \<open>s\<close> satisfies \<open>f\<close>.\<close>

fun some_suffix :: "(ustr \<Rightarrow> bool) \<Rightarrow> ustr \<Rightarrow> bool" where
  "some_suffix f [] = f []"
| "some_suffix f (c # cs) = (f (c # cs) \<or> some_suffix f cs)"

lemma some_suffix_cong [fundef_cong]: "(\<And>t. length t \<le> length s \<Longrightarrow> f t = g t) \<Longrightarrow> s = s' \<Longrightarrow> some_suffix f s = some_suffix g s'"
proof (induction s arbitrary: s')
  case (Cons c cs)
  then have "some_suffix f cs = some_suffix g cs" by (metis le_Suc_eq length_Cons)
  with Cons.prems show ?case by auto
qed auto

function glob :: "ustr \<Rightarrow> ustr \<Rightarrow> bool" where
  "glob [] s = (s = [])"
| "glob (p # ps) s =
     (if p = 42 then some_suffix (glob ps) s
      else if p = 91 then
        (case glob_bracket ps of
           None \<Rightarrow> (case s of c # cs \<Rightarrow> c = 91 \<and> glob ps cs | [] \<Rightarrow> False)
         | Some (body, r) \<Rightarrow> (case s of c # cs \<Rightarrow> in_glob_set c body \<and> glob r cs | [] \<Rightarrow> False))
      else (case s of c # cs \<Rightarrow> (p = 63 \<or> c = p) \<and> glob ps cs | [] \<Rightarrow> False))"
  by pat_completeness auto
termination by (relation "measure (\<lambda>(p, s). length p)") (auto dest: glob_bracket_shorter)

definition fnmatch :: "ustr \<Rightarrow> ustr \<Rightarrow> bool" where
  "fnmatch name pat = glob pat name"

lemma some_suffix_iff: "some_suffix f s \<longleftrightarrow> (\<exists>a b. s = a @ b \<and> f b)"
proof (induction s)
  case (Cons c cs)
  then show ?case by (auto simp: Cons_eq_append_conv)
qed auto

section \<open>Replacing, splitting, numbers\<close>

text \<open>\<open>replace_in k what rep s\<close> passes over \<open>k\<close> characters that belong to the last occurrence found.\<close>

fun replace_in :: "nat \<Rightarrow> ustr \<Rightarrow> ustr \<Rightarrow> ustr \<Rightarrow> ustr" where
  "replace_in k what rep [] = []"
| "replace_in (Suc k) what rep (c # cs) = replace_in k what rep cs"
| "replace_in 0 what rep (c # cs) =
     (if startswith (c # cs) what then rep @ replace_in (length what - 1) what rep cs
      else c # replace_in 0 what rep cs)"

text \<open>\<^verbatim>\<open>s.replace(what, rep)\<close> for a text \<open>what\<close> that is not empty.\<close>

definition str_replace :: "ustr \<Rightarrow> ustr \<Rightarrow> ustr \<Rightarrow> ustr" where
  "str_replace s what rep = replace_in 0 what rep s"

function split_space :: "ustr \<Rightarrow> ustr list" where
  "split_space s =
     (let t = dropWhile is_space s
      in if t = [] then [] else takeWhile (\<lambda>c. \<not> is_space c) t # split_space (dropWhile (\<lambda>c. \<not> is_space c) t))"
  by pat_completeness auto
termination
proof (relation "measure length")
  fix s t assume t: "t = dropWhile is_space s" "t \<noteq> []"
  then have "\<not> is_space (hd t)" by (metis hd_dropWhile)
  then have "length (dropWhile (\<lambda>c. \<not> is_space c) t) < length t"
    using t(2) by (cases t) (auto simp: le_imp_less_Suc length_dropWhile_le)
  also have "length t \<le> length s" unfolding t(1) by (rule length_dropWhile_le)
  finally show "(dropWhile (\<lambda>c. \<not> is_space c) t, s) \<in> measure length" by simp
qed simp

declare split_space.simps [simp del]

text \<open>Digits with single underscores between them.\<close>

definition digit_value :: "nat \<Rightarrow> nat" where
  "digit_value c = (case find (\<lambda>z. z \<le> c \<and> c < z + 10) digit_zeros of Some z \<Rightarrow> c - z | None \<Rightarrow> 0)"

fun int_digits :: "int \<Rightarrow> ustr \<Rightarrow> int option" where
  "int_digits acc [] = None"
| "int_digits acc [c] = (if is_digit c then Some (10 * acc + int (digit_value c)) else None)"
| "int_digits acc (c # d # cs) =
     (if is_digit c then
        int_digits (10 * acc + int (digit_value c)) (if d = 95 then cs else d # cs)
      else None)"

definition int_of_str :: "ustr \<Rightarrow> int res" where
  "int_of_str s =
     (let t = py_strip s;
          r = (if startswith t [45] then map_option uminus (int_digits 0 (tl t))
               else int_digits 0 (if startswith t [43] then tl t else t))
      in case r of Some n \<Rightarrow> Inr n | None \<Rightarrow> Inl (ValueError ''invalid literal for int()''))"

text \<open>\<^verbatim>\<open>repr\<close> of a text; \<open>printable\<close> tells which characters beyond ASCII are printable.\<close>

definition repr_hex :: "nat \<Rightarrow> nat" where
  "repr_hex n = (if n < 10 then 48 + n else 87 + n)"

fun hex_of :: "nat \<Rightarrow> nat \<Rightarrow> ustr" where
  "hex_of 0 n = []"
| "hex_of (Suc k) n = hex_of k (n div 16) @ [repr_hex (n mod 16)]"

definition repr_char :: "(nat \<Rightarrow> bool) \<Rightarrow> nat \<Rightarrow> nat \<Rightarrow> ustr" where
  "repr_char printable q c =
     (if c = q \<or> c = 92 then [92, c]
      else if c = 9 then [92, 116] else if c = 10 then [92, 110]
      else if c = 13 then [92, 114]
      else if 32 \<le> c \<and> c < 127 \<or> 128 \<le> c \<and> printable c then [c]
      else if c < 256 then [92, 120] @ hex_of 2 c
      else if c < 0x10000 then [92, 117] @ hex_of 4 c
      else [92, 85] @ hex_of 8 c)"

definition repr_str :: "(nat \<Rightarrow> bool) \<Rightarrow> ustr \<Rightarrow> ustr" where
  "repr_str printable s =
     (let q = (if 39 \<in> set s \<and> 34 \<notin> set s then 34 else 39)
      in [q] @ concat (map (repr_char printable q) s) @ [q])"

end
