(* ===== verification/Ssh_Config.thy ===== *)
theory Ssh_Config
  imports Py_Shell
begin

text \<open>
  \<^verbatim>\<open>paramiko/config.py\<close>: the client configuration. \<open>parse\<close> turns the lines of a file into contexts, one per
  \<^verbatim>\<open>Host\<close> or \<^verbatim>\<open>Match\<close> line after a first one for every host; \<open>cfg_lookup\<close> collects the options of the contexts that
  apply to a host and expands the tokens in them. The machine the client runs on (its user, its names, name
  service and commands), SHA-1 and the Unicode data base beyond ASCII are the parameter \<open>cfg_env\<close>.
\<close>

section \<open>The environment\<close>

text \<open>\<open>ev_addrinfo host inet\<close> has the canonical names \<^verbatim>\<open>socket.getaddrinfo\<close> gives for the family \<^verbatim>\<open>AF_INET\<close>
  (\<open>inet\<close>) or \<^verbatim>\<open>AF_INET6\<close>, \<open>None\<close> when it raises \<^verbatim>\<open>gaierror\<close>; \<open>ev_run\<close> is \<open>None\<close> when \<^verbatim>\<open>invoke\<close> cannot be
  imported, otherwise whether a command exits with 0.\<close>

record cfg_env =
  ev_alnum :: "nat \<Rightarrow> bool"
  ev_lower :: "ustr \<Rightarrow> ustr"
  ev_printable :: "nat \<Rightarrow> bool"
  ev_user :: ustr
  ev_hostname :: ustr
  ev_fqdn :: ustr
  ev_home :: ustr
  ev_sha1 :: "bytes \<Rightarrow> ustr"
  ev_addrinfo :: "ustr \<Rightarrow> bool \<Rightarrow> ustr list option"
  ev_gethostbyname :: "ustr \<Rightarrow> ustr option"
  ev_run :: "(ustr \<Rightarrow> bool) option"

definition word_char :: "cfg_env \<Rightarrow> nat \<Rightarrow> bool" where
  "word_char env c \<longleftrightarrow>
     48 \<le> c \<and> c \<le> 57 \<or> 65 \<le> c \<and> c \<le> 90 \<or> 97 \<le> c \<and> c \<le> 122 \<or> c = 95 \<or> 128 \<le> c \<and> \<not> is_space c \<and> ev_alnum env c"

definition str_lower :: "cfg_env \<Rightarrow> ustr \<Rightarrow> ustr" where
  "str_lower env s = (if list_all (\<lambda>c. c < 128) s then py_lower s else ev_lower env s)"

section \<open>Data\<close>

definition SSH_PORT :: int where "SSH_PORT = 22"

datatype cfg_value = VNone | VStr ustr | VList "ustr list"

type_synonym cfg_dict = "(ustr \<times> cfg_value) list"

text \<open>A criterion of a \<^verbatim>\<open>Match\<close> line.\<close>

record cfg_match =
  cm_type :: ustr
  cm_param :: "ustr option"
  cm_negate :: bool

record cfg_context =
  cc_host :: "ustr list option"
  cc_matches :: "cfg_match list option"
  cc_config :: cfg_dict

definition TOKENS_BY_CONFIG_KEY :: "(ustr \<times> ustr list) list" where
  "TOKENS_BY_CONFIG_KEY =
    [(lit ''controlpath'', map lit [''%C'', ''%h'', ''%l'', ''%L'', ''%n'', ''%p'', ''%r'', ''%u'']),
     (lit ''hostname'', map lit [''%h'']),
     (lit ''identityfile'', map lit [''%C'', ''~'', ''%d'', ''%h'', ''%l'', ''%u'', ''%r'']),
     (lit ''proxycommand'', map lit [''~'', ''%h'', ''%p'', ''%r'']),
     (lit ''proxyjump'', map lit [''%h'', ''%p'', ''%r'']),
     (lit ''match-exec'', map lit [''%C'', ''%d'', ''%h'', ''%L'', ''%l'', ''%n'', ''%p'', ''%r'', ''%u''])]"

definition MULTIPLE_KEYS :: "ustr list" where
  "MULTIPLE_KEYS = [lit ''identityfile'', lit ''localforward'', lit ''remoteforward'']"

section \<open>Parsing\<close>

text \<open>\<^verbatim>\<open>re.match\<close> of \<open>SETTINGS_REGEX\<close> with a line that is stripped of white space: a word, then an equals sign
  with white space around it or just white space, then the value up to the end of the line. On such a line the
  repetitions never give back what they have taken, except that an equals sign at the end is the value itself.\<close>

definition settings_match :: "cfg_env \<Rightarrow> ustr \<Rightarrow> (ustr \<times> ustr) option" where
  "settings_match env line =
     (let key = takeWhile (word_char env) line; rest = dropWhile (word_char env) line;
          r = dropWhile is_space rest;
          by_equals = (if r \<noteq> [] \<and> hd r = 61 then takeWhile (\<lambda>c. c \<noteq> 10) (dropWhile is_space (tl r)) else []);
          by_space = (if rest \<noteq> [] \<and> is_space (hd rest) then takeWhile (\<lambda>c. c \<noteq> 10) r else [])
      in if key = [] then None
         else if by_equals \<noteq> [] then Some (key, by_equals)
         else if by_space \<noteq> [] then Some (key, by_space)
         else None)"

definition get_hosts :: "ustr \<Rightarrow> ustr list res" where
  "get_hosts host =
     (case shlex_split host of
        Inl (ValueError _) \<Rightarrow> Inl (ConfigParseError (lit ''Unparsable host '' @ host))
      | r \<Rightarrow> r)"

definition ALONE_TYPES :: "ustr list" where
  "ALONE_TYPES = [lit ''all'', lit ''canonical'', lit ''final'']"

text \<open>The loop of \<open>_get_matches\<close> over the words of the line.\<close>

fun take_matches :: "ustr list \<Rightarrow> cfg_match list res" where
  "take_matches [] = Inr []"
| "take_matches (t # tokens) =
     (let negate = startswith t [33];
          ty = (if negate then drop 1 t else t)
      in if ty \<in> set ALONE_TYPES then
           bindR (take_matches tokens) (\<lambda>ms. Inr (\<lparr>cm_type = ty, cm_param = None, cm_negate = negate\<rparr> # ms))
         else (case tokens of
                 [] \<Rightarrow> Inl (ConfigParseError (lit ''Missing parameter to Match '' @ [39] @ ty @ [39] @ lit '' keyword''))
               | p # tokens' \<Rightarrow>
                   bindR (take_matches tokens') (\<lambda>ms. Inr (\<lparr>cm_type = ty, cm_param = Some p, cm_negate = negate\<rparr> # ms))))"

fun index_of :: "'a \<Rightarrow> 'a list \<Rightarrow> nat" where
  "index_of x [] = 0"
| "index_of x (y # ys) = (if x = y then 0 else Suc (index_of x ys))"

text \<open>What is wrong with the types of the criteria of a line, if anything; \<^verbatim>\<open>any(bad)\<close> passes over empty texts.\<close>

definition match_fault :: "ustr list \<Rightarrow> ustr option" where
  "match_fault keywords =
     (if lit ''all'' \<in> set keywords then
        (let allowable = [lit ''all'', lit ''canonical''];
             ok = filter (\<lambda>x. x \<in> set allowable) keywords;
             bad = filter (\<lambda>x. x \<notin> set allowable) keywords
         in if list_ex (\<lambda>x. x \<noteq> []) bad then
              Some (lit ''Match does not allow '' @ [39] @ lit ''all'' @ [39] @ lit '' mixed with anything but '' @
                    [39] @ lit ''canonical'' @ [39])
            else if lit ''canonical'' \<in> set ok \<and> index_of (lit ''canonical'') ok > index_of (lit ''all'') ok then
              Some (lit ''Match does not allow '' @ [39] @ lit ''all'' @ [39] @ lit '' before '' @ [39] @ lit ''canonical'' @ [39])
            else None)
      else None)"

definition get_matches :: "ustr \<Rightarrow> cfg_match list res" where
  "get_matches match =
     bindR (shlex_split match) (\<lambda>tokens.
     bindR (take_matches tokens) (\<lambda>matches.
       case match_fault (map cm_type matches) of
         Some err \<Rightarrow> Inl (ConfigParseError err)
       | None \<Rightarrow> Inr matches))"

definition first_context :: cfg_context where
  "first_context = \<lparr>cc_host = Some [lit ''*''], cc_matches = None, cc_config = []\<rparr>"

text \<open>A line that is neither \<^verbatim>\<open>Host\<close> nor \<^verbatim>\<open>Match\<close>. Only the keys that may be repeated hold lists.\<close>

definition unquote :: "ustr \<Rightarrow> ustr" where
  "unquote v = (if startswith v [34] \<and> endswith v [34] then py_slice v 1 (-1) else v)"

definition store_setting :: "ustr \<Rightarrow> ustr \<Rightarrow> cfg_dict \<Rightarrow> cfg_dict res" where
  "store_setting key value d =
     (if key = lit ''proxycommand'' \<and> py_lower value = lit ''none'' then Inr (dict_put key VNone d)
      else
        (let value = unquote value
         in if key \<in> set MULTIPLE_KEYS then
              (case map_of d key of
                 None \<Rightarrow> Inr (dict_put key (VList [value]) d)
               | Some (VList vs) \<Rightarrow> Inr (dict_put key (VList (vs @ [value])) d)
               | Some _ \<Rightarrow> Inl AttributeError)
            else Inr (if map_of d key = None then dict_put key (VStr value) d else d)))"

text \<open>One line: the context it leaves open. \<^verbatim>\<open>Host\<close> and \<^verbatim>\<open>Match\<close> close the open one, whatever becomes of them.\<close>

definition parse_line :: "cfg_env \<Rightarrow> cfg_context \<Rightarrow> ustr \<Rightarrow> (cfg_context list, cfg_context) sm" where
  "parse_line env context raw =
     (let line = py_strip raw in
      if line = [] \<or> startswith line [35] then retS context
      else
        (case settings_match env line of
           None \<Rightarrow> raiseS (ConfigParseError (lit ''Unparsable line '' @ line))
         | Some (k, value) \<Rightarrow>
             (let key = str_lower env k in
              if key = lit ''host'' then
                bindS (modS (\<lambda>cs. cs @ [context])) (\<lambda>_.
                bindS (liftR (get_hosts value)) (\<lambda>hs.
                  retS \<lparr>cc_host = Some hs, cc_matches = None, cc_config = []\<rparr>))
              else if key = lit ''match'' then
                bindS (modS (\<lambda>cs. cs @ [context])) (\<lambda>_.
                bindS (liftR (get_matches value)) (\<lambda>ms.
                  retS \<lparr>cc_host = None, cc_matches = Some ms, cc_config = []\<rparr>))
              else
                bindS (liftR (store_setting key value (cc_config context))) (\<lambda>d.
                  retS (context\<lparr>cc_config := d\<rparr>)))))"

fun cfg_lines :: "cfg_env \<Rightarrow> cfg_context \<Rightarrow> ustr list \<Rightarrow> (cfg_context list, unit) sm" where
  "cfg_lines env context [] = modS (\<lambda>cs. cs @ [context])"
| "cfg_lines env context (l # ls) = bindS (parse_line env context l) (\<lambda>c. cfg_lines env c ls)"

definition parse :: "cfg_env \<Rightarrow> ustr list \<Rightarrow> (cfg_context list, unit) sm" where
  "parse env ls = cfg_lines env first_context ls"

text \<open>\<^verbatim>\<open>from_file\<close>: a new configuration, or what parsing raises.\<close>

definition from_file :: "cfg_env \<Rightarrow> ustr list \<Rightarrow> cfg_context list res" where
  "from_file env ls = (case parse env ls [] of (Inl e, _) \<Rightarrow> Inl e | (Inr _, cs) \<Rightarrow> Inr cs)"

text \<open>The lines of a text as \<^verbatim>\<open>StringIO\<close> gives them: each with its newline.\<close>

fun text_lines :: "ustr \<Rightarrow> ustr list" where
  "text_lines [] = []"
| "text_lines (c # cs) =
     (if c = 10 then [c] # text_lines cs
      else (case text_lines cs of [] \<Rightarrow> [[c]] | l # ls \<Rightarrow> (c # l) # ls))"

definition from_text :: "cfg_env \<Rightarrow> ustr \<Rightarrow> cfg_context list res" where
  "from_text env text = from_file env (text_lines text)"

text \<open>\<^verbatim>\<open>get_hostnames\<close>: a context of a \<^verbatim>\<open>Match\<close> line has no hosts.\<close>

fun get_hostnames :: "cfg_context list \<Rightarrow> ustr set res" where
  "get_hostnames [] = Inr {}"
| "get_hostnames (c # cs) =
     (case cc_host c of
        None \<Rightarrow> Inl KeyError
      | Some hs \<Rightarrow> bindR (get_hostnames cs) (\<lambda>r. Inr (set hs \<union> r)))"

section \<open>Values of options\<close>

text \<open>A value where the code needs a text: \<open>None\<close> and lists raise.\<close>

fun as_text :: "pyexc \<Rightarrow> cfg_value \<Rightarrow> ustr res" where
  "as_text e (VStr s) = Inr s"
| "as_text e _ = Inl e"

text \<open>\<^verbatim>\<open>options.get(key, default)\<close> where a text is needed.\<close>

definition option_text :: "pyexc \<Rightarrow> cfg_dict \<Rightarrow> string \<Rightarrow> ustr \<Rightarrow> ustr res" where
  "option_text e options key dflt =
     (case map_of options (lit key) of None \<Rightarrow> Inr dflt | Some v \<Rightarrow> as_text e v)"

text \<open>\<^verbatim>\<open>options.get(key, None) or default\<close>, handed to a pattern match.\<close>

definition get_or :: "cfg_dict \<Rightarrow> string \<Rightarrow> ustr \<Rightarrow> ustr res" where
  "get_or options key dflt =
     (case map_of options (lit key) of
        None \<Rightarrow> Inr dflt
      | Some VNone \<Rightarrow> Inr dflt
      | Some (VStr s) \<Rightarrow> Inr (if s = [] then dflt else s)
      | Some (VList l) \<Rightarrow> if l = [] then Inr dflt else Inl TypeError)"

definition as_bool :: "cfg_dict \<Rightarrow> ustr \<Rightarrow> bool res" where
  "as_bool d key =
     (case map_of d key of
        None \<Rightarrow> Inl KeyError
      | Some v \<Rightarrow> bindR (as_text AttributeError v) (\<lambda>s. Inr (py_lower s = lit ''yes'')))"

definition as_int :: "cfg_dict \<Rightarrow> ustr \<Rightarrow> int res" where
  "as_int d key =
     (case map_of d key of None \<Rightarrow> Inl KeyError | Some v \<Rightarrow> bindR (as_text TypeError v) int_of_str)"

section \<open>Names\<close>

definition addressfamily_host_lookup :: "cfg_env \<Rightarrow> ustr \<Rightarrow> cfg_dict \<Rightarrow> ustr list option res" where
  "addressfamily_host_lookup env hostname options =
     bindR (option_text AttributeError options ''addressfamily'' (lit ''any'')) (\<lambda>family.
       if py_lower family = lit ''any'' then Inr None
       else Inr (ev_addrinfo env hostname (py_lower family = lit ''inet'')))"

text \<open>\<^verbatim>\<open>str\<close> of a \<^verbatim>\<open>LazyFqdn\<close>: the first canonical name with a dot, or the name the machine has.\<close>

definition lazy_fqdn :: "cfg_env \<Rightarrow> cfg_dict \<Rightarrow> ustr \<Rightarrow> ustr res" where
  "lazy_fqdn env config host =
     bindR (addressfamily_host_lookup env host config) (\<lambda>results.
       Inr (case results of
              None \<Rightarrow> ev_fqdn env
            | Some names \<Rightarrow>
                (case find (\<lambda>n. n \<noteq> [] \<and> 46 \<in> set n) names of Some n \<Rightarrow> n | None \<Rightarrow> ev_fqdn env)))"

fun try_domains :: "cfg_env \<Rightarrow> ustr \<Rightarrow> cfg_dict \<Rightarrow> ustr list \<Rightarrow> ustr option res" where
  "try_domains env hostname options [] = Inr None"
| "try_domains env hostname options (d # ds) =
     (let candidate = hostname @ [46] @ d in
      bindR (addressfamily_host_lookup env candidate options) (\<lambda>fam.
        case fam of
          Some [] \<Rightarrow> Inl IndexError
        | Some (_ # _) \<Rightarrow> Inr (Some candidate)
        | None \<Rightarrow>
            (case ev_gethostbyname env candidate of
               Some a \<Rightarrow> if a = [] then try_domains env hostname options ds else Inr (Some candidate)
             | None \<Rightarrow> try_domains env hostname options ds)))"

definition cfg_canonicalize :: "cfg_env \<Rightarrow> ustr \<Rightarrow> cfg_dict \<Rightarrow> ustr list \<Rightarrow> ustr res" where
  "cfg_canonicalize env hostname options domains =
     bindR (try_domains env hostname options domains) (\<lambda>found.
       case found of
         Some candidate \<Rightarrow> Inr candidate
       | None \<Rightarrow>
           if map_of options (lit ''canonicalizefallbacklocal'') \<in> {None, Some (VStr (lit ''yes''))} then Inr hostname
           else Inl (CouldNotCanonicalize hostname))"

section \<open>Tokens\<close>

definition allowed_tokens :: "ustr \<Rightarrow> ustr list" where
  "allowed_tokens key = (case map_of TOKENS_BY_CONFIG_KEY key of Some ts \<Rightarrow> ts | None \<Rightarrow> [])"

text \<open>\<^verbatim>\<open>str\<close> and \<^verbatim>\<open>repr\<close> of the port: a number when it comes from \<open>SSH_PORT\<close>, a text when it is configured.\<close>

definition port_texts :: "cfg_env \<Rightarrow> cfg_dict \<Rightarrow> (ustr \<times> ustr) res" where
  "port_texts env config =
     (case map_of config (lit ''port'') of
        None \<Rightarrow> Inr (dec_str SSH_PORT, dec_str SSH_PORT)
      | Some v \<Rightarrow> bindR (as_text TypeError v) (\<lambda>p. Inr (p, repr_str (ev_printable env) p)))"

definition local_name :: "cfg_env \<Rightarrow> ustr" where
  "local_name env = hd (split_on 46 (ev_hostname env))"

text \<open>The table of replacements, in its order: the full name of the machine is looked up only when it is used.\<close>

definition replacements :: "cfg_env \<Rightarrow> cfg_dict \<Rightarrow> ustr \<Rightarrow> ustr \<Rightarrow> (ustr \<times> ustr res) list res" where
  "replacements env config target key =
     bindR (if key \<noteq> lit ''hostname'' then option_text TypeError config ''hostname'' target else Inr target) (\<lambda>configured.
     bindR (port_texts env config) (\<lambda>(port, port_repr).
     bindR (option_text TypeError config ''user'' (ev_user env)) (\<lambda>remoteuser.
     bindR (utf8_encode (local_name env @ target @ port_repr @ remoteuser)) (\<lambda>tohash.
       Inr [(lit ''%C'', Inr (ev_sha1 env tohash)),
            (lit ''%d'', Inr (ev_home env)),
            (lit ''%h'', Inr configured),
            (lit ''%L'', Inr (local_name env)),
            (lit ''%l'', lazy_fqdn env config (local_name env)),
            (lit ''%n'', Inr target),
            (lit ''%p'', Inr port),
            (lit ''%r'', Inr remoteuser),
            (lit ''%u'', Inr (ev_user env)),
            (lit ''~'', Inr (ev_home env))]))))"

fun replace_tokens :: "ustr list \<Rightarrow> (ustr \<times> ustr res) list \<Rightarrow> ustr \<Rightarrow> ustr res" where
  "replace_tokens allowed [] s = Inr s"
| "replace_tokens allowed ((what, new) # rs) s =
     (if what \<in> set allowed then bindR new (\<lambda>r. replace_tokens allowed rs (str_replace s what r))
      else replace_tokens allowed rs s)"

definition tokenize :: "cfg_env \<Rightarrow> cfg_dict \<Rightarrow> ustr \<Rightarrow> ustr \<Rightarrow> ustr \<Rightarrow> ustr res" where
  "tokenize env config target key value =
     (if allowed_tokens key = [] then Inr value
      else bindR (replacements env config target key) (\<lambda>rs. replace_tokens (allowed_tokens key) rs value))"

text \<open>\<^verbatim>\<open>_expand_variables\<close>: the options are expanded one after the other, each with those before it expanded.\<close>

fun tokenize_all :: "cfg_env \<Rightarrow> cfg_dict \<Rightarrow> ustr \<Rightarrow> ustr \<Rightarrow> ustr list \<Rightarrow> ustr list res" where
  "tokenize_all env config target key [] = Inr []"
| "tokenize_all env config target key (v # vs) =
     bindR (tokenize env config target key v) (\<lambda>x. bindR (tokenize_all env config target key vs) (\<lambda>xs. Inr (x # xs)))"

fun expand_keys :: "cfg_env \<Rightarrow> ustr \<Rightarrow> ustr list \<Rightarrow> cfg_dict \<Rightarrow> cfg_dict res" where
  "expand_keys env target [] config = Inr config"
| "expand_keys env target (k # ks) config =
     (case map_of config k of
        Some (VStr s) \<Rightarrow>
          bindR (tokenize env config target k s) (\<lambda>t. expand_keys env target ks (dict_put k (VStr t) config))
      | Some (VList vs) \<Rightarrow>
          bindR (tokenize_all env config target k vs) (\<lambda>ts. expand_keys env target ks (dict_put k (VList ts) config))
      | _ \<Rightarrow> expand_keys env target ks config)"

definition expand_variables :: "cfg_env \<Rightarrow> cfg_dict \<Rightarrow> ustr \<Rightarrow> cfg_dict res" where
  "expand_variables env config target = expand_keys env target (map fst config) config"

section \<open>Contexts that apply\<close>

fun pattern_loop :: "bool \<Rightarrow> ustr list \<Rightarrow> ustr \<Rightarrow> bool" where
  "pattern_loop match [] target = match"
| "pattern_loop match (p # ps) target =
     (if startswith p [33] \<and> fnmatch target (drop 1 p) then False
      else if fnmatch target p then pattern_loop True ps target
      else pattern_loop match ps target)"

definition pattern_matches :: "ustr list \<Rightarrow> ustr \<Rightarrow> bool" where
  "pattern_matches patterns target = pattern_loop False patterns target"

text \<open>The parameter of a criterion, split at its commas.\<close>

definition param_matches :: "cfg_match \<Rightarrow> ustr \<Rightarrow> bool res" where
  "param_matches m target =
     (case cm_param m of None \<Rightarrow> Inl TypeError | Some p \<Rightarrow> Inr (pattern_matches (split_on 44 p) target))"

definition should_fail :: "bool \<Rightarrow> cfg_match \<Rightarrow> bool" where
  "should_fail would_pass m = (if cm_negate m then would_pass else \<not> would_pass)"

text \<open>Whether a criterion is passed, before negation; \<open>None\<close> where the code leaves the question open: after its own
  test of \<^verbatim>\<open>canonical\<close> and for a type it does not know.\<close>

definition criterion_passed :: "cfg_env \<Rightarrow> ustr \<Rightarrow> bool \<Rightarrow> cfg_dict \<Rightarrow> cfg_match \<Rightarrow> bool option res" where
  "criterion_passed env target final options m =
     (if cm_type m = lit ''final'' then Inr (Some final)
      else if cm_type m = lit ''host'' then
        bindR (get_or options ''hostname'' target) (\<lambda>h. map_sum id Some (param_matches m h))
      else if cm_type m = lit ''originalhost'' then map_sum id Some (param_matches m target)
      else if cm_type m = lit ''user'' then
        bindR (get_or options ''user'' (ev_user env)) (\<lambda>u. map_sum id Some (param_matches m u))
      else if cm_type m = lit ''localuser'' then map_sum id Some (param_matches m (ev_user env))
      else if cm_type m = lit ''exec'' then
        (case cm_param m of
           None \<Rightarrow> Inl AttributeError
         | Some p \<Rightarrow>
             bindR (tokenize env options target (lit ''match-exec'') p) (\<lambda>cmd.
               case ev_run env of None \<Rightarrow> Inl ImportError | Some run \<Rightarrow> Inr (Some (run cmd))))
      else Inr None)"

text \<open>The loop of \<open>_does_match\<close>; \<open>matched\<close> tells whether a criterion has been passed already.\<close>

fun match_loop :: "cfg_env \<Rightarrow> ustr \<Rightarrow> bool \<Rightarrow> bool \<Rightarrow> cfg_dict \<Rightarrow> bool \<Rightarrow> cfg_match list \<Rightarrow> bool res" where
  "match_loop env target canonical final options matched [] = Inr matched"
| "match_loop env target canonical final options matched (m # ms) =
     (if cm_type m = lit ''canonical'' \<and> should_fail canonical m then Inr False
      else if cm_type m = lit ''all'' then Inr True
      else
        bindR (criterion_passed env target final options m) (\<lambda>passed.
          if passed \<noteq> None \<and> should_fail (the passed) m then Inr False
          else match_loop env target canonical final options True ms))"

definition does_match :: "cfg_env \<Rightarrow> cfg_match list \<Rightarrow> ustr \<Rightarrow> bool \<Rightarrow> bool \<Rightarrow> cfg_dict \<Rightarrow> bool res" where
  "does_match env ms target canonical final options = match_loop env target canonical final options False ms"

definition context_applies :: "cfg_env \<Rightarrow> ustr \<Rightarrow> bool \<Rightarrow> bool \<Rightarrow> cfg_dict \<Rightarrow> cfg_context \<Rightarrow> bool res" where
  "context_applies env hostname canonical final options c =
     (if pattern_matches (case cc_host c of Some hs \<Rightarrow> hs | None \<Rightarrow> []) hostname then Inr True
      else does_match env (case cc_matches c of Some ms \<Rightarrow> ms | None \<Rightarrow> []) hostname canonical final options)"

section \<open>Looking up\<close>

text \<open>\<^verbatim>\<open>extend\<close> with those values that the list does not have yet, one by one.\<close>

fun extend_new :: "ustr list \<Rightarrow> ustr list \<Rightarrow> ustr list" where
  "extend_new held [] = held"
| "extend_new held (x # xs) = extend_new (if x \<in> set held then held else held @ [x]) xs"

definition merge_item :: "ustr \<Rightarrow> cfg_value \<Rightarrow> cfg_dict \<Rightarrow> cfg_dict res" where
  "merge_item key value options =
     (case map_of options key of
        None \<Rightarrow> Inr (dict_put key value options)
      | Some old \<Rightarrow>
          if key = lit ''identityfile'' then
            (case (old, value) of
               (VList held, VList new) \<Rightarrow> Inr (dict_put key (VList (extend_new held new)) options)
             | _ \<Rightarrow> Inl TypeError)
          else Inr options)"

fun merge_items :: "cfg_dict \<Rightarrow> cfg_dict \<Rightarrow> cfg_dict res" where
  "merge_items [] options = Inr options"
| "merge_items ((k, v) # kvs) options = bindR (merge_item k v options) (merge_items kvs)"

fun apply_contexts :: "cfg_env \<Rightarrow> ustr \<Rightarrow> bool \<Rightarrow> bool \<Rightarrow> cfg_context list \<Rightarrow> cfg_dict \<Rightarrow> cfg_dict res" where
  "apply_contexts env hostname canonical final [] options = Inr options"
| "apply_contexts env hostname canonical final (c # cs) options =
     bindR (context_applies env hostname canonical final options c) (\<lambda>applies.
     bindR (if applies then merge_items (cc_config c) options else Inr options)
       (apply_contexts env hostname canonical final cs))"

text \<open>\<^verbatim>\<open>_lookup\<close>\<close>

definition lookup_pass :: "cfg_env \<Rightarrow> cfg_context list \<Rightarrow> ustr \<Rightarrow> cfg_dict \<Rightarrow> bool \<Rightarrow> bool \<Rightarrow> cfg_dict res" where
  "lookup_pass env config hostname options canonical final =
     bindR (apply_contexts env hostname canonical final config options) (\<lambda>options.
       if final then expand_variables env options hostname else Inr options)"

definition max_dots :: "cfg_dict \<Rightarrow> int res" where
  "max_dots options =
     (case map_of options (lit ''canonicalizemaxdots'') of
        None \<Rightarrow> Inr 1
      | Some v \<Rightarrow> bindR (as_text TypeError v) int_of_str)"

definition canonical_domains :: "cfg_dict \<Rightarrow> ustr list res" where
  "canonical_domains options =
     (case map_of options (lit ''canonicaldomains'') of
        None \<Rightarrow> Inl KeyError
      | Some v \<Rightarrow> bindR (as_text AttributeError v) (\<lambda>s. Inr (split_space s)))"

definition cfg_lookup :: "cfg_env \<Rightarrow> cfg_context list \<Rightarrow> ustr \<Rightarrow> cfg_dict res" where
  "cfg_lookup env config hostname =
     bindR (lookup_pass env config hostname [] False False) (\<lambda>options.
       let options = (if map_of options (lit ''hostname'') = None
                      then dict_put (lit ''hostname'') (VStr hostname) options else options);
           canon = map_of options (lit ''canonicalizehostname'') \<in> {Some (VStr (lit ''yes'')), Some (VStr (lit ''always''))}
       in bindR (max_dots options) (\<lambda>maxdots.
            if canon \<and> int (count_list hostname 46) \<le> maxdots then
              bindR (canonical_domains options) (\<lambda>domains.
              bindR (cfg_canonicalize env hostname options domains) (\<lambda>hostname.
                lookup_pass env config hostname (dict_put (lit ''hostname'') (VStr hostname) options) True True))
            else lookup_pass env config hostname options False True))"

end
