(* ===== verification/Ssh_Config_Answers.thy ===== *)
theory Ssh_Config_Answers
  imports Ssh_Config
begin

text \<open>
  What a client configuration answers: the options of a host are typed, a \<^verbatim>\<open>Match\<close> line asks for all of its
  criteria, and a file of \<^verbatim>\<open>Host\<close> blocks gives each option the first value written for a host that the
  patterns of its block admit.
\<close>

declare lit_simps [simp del]

section \<open>Patterns and criteria\<close>

lemma pattern_loop_iff:
  "pattern_loop b ps t \<longleftrightarrow>
     (b \<or> list_ex (fnmatch t) ps) \<and> \<not> list_ex (\<lambda>p. startswith p [33] \<and> fnmatch t (drop 1 p)) ps"
  by (induction ps arbitrary: b) auto

text \<open>Some pattern matches, and none that is marked with an exclamation mark does.\<close>

definition admitted :: "ustr list \<Rightarrow> ustr \<Rightarrow> bool" where
  "admitted ps t \<longleftrightarrow> list_ex (fnmatch t) ps \<and> \<not> list_ex (\<lambda>p. startswith p [33] \<and> fnmatch t (drop 1 p)) ps"

lemma pattern_matches_admitted: "pattern_matches ps t = admitted ps t"
  by (simp add: pattern_matches_def pattern_loop_iff admitted_def)

lemma pattern_matches_Nil [simp]: "pattern_matches [] t = False"
  by (simp add: pattern_matches_def)

text \<open>What a criterion asks for. Types the code does not know ask for nothing.\<close>

definition value_or :: "cfg_dict \<Rightarrow> string \<Rightarrow> ustr \<Rightarrow> ustr" where
  "value_or options key dflt =
     (case map_of options (lit key) of Some (VStr s) \<Rightarrow> if s = [] then dflt else s | _ \<Rightarrow> dflt)"

definition param_admits :: "cfg_match \<Rightarrow> ustr \<Rightarrow> bool" where
  "param_admits m t = admitted (split_on 44 (the (cm_param m))) t"

definition criterion_holds :: "cfg_env \<Rightarrow> ustr \<Rightarrow> bool \<Rightarrow> bool \<Rightarrow> cfg_dict \<Rightarrow> cfg_match \<Rightarrow> bool" where
  "criterion_holds env target canonical final options m =
     (if cm_type m = lit ''canonical'' then canonical \<noteq> cm_negate m
      else if cm_type m = lit ''final'' then final \<noteq> cm_negate m
      else if cm_type m = lit ''host'' then param_admits m (value_or options ''hostname'' target) \<noteq> cm_negate m
      else if cm_type m = lit ''originalhost'' then param_admits m target \<noteq> cm_negate m
      else if cm_type m = lit ''user'' then param_admits m (value_or options ''user'' (ev_user env)) \<noteq> cm_negate m
      else if cm_type m = lit ''localuser'' then param_admits m (ev_user env) \<noteq> cm_negate m
      else if cm_type m = lit ''exec'' then
        (case tokenize env options target (lit ''match-exec'') (the (cm_param m)) of
           Inr cmd \<Rightarrow> the (ev_run env) cmd \<noteq> cm_negate m
         | Inl _ \<Rightarrow> False)
      else True)"

text \<open>A command to run can be run.\<close>

definition runnable :: "cfg_env \<Rightarrow> ustr \<Rightarrow> cfg_dict \<Rightarrow> cfg_match \<Rightarrow> bool" where
  "runnable env target options m \<longleftrightarrow>
     cm_type m = lit ''exec'' \<longrightarrow>
       ev_run env \<noteq> None \<and> \<not> isl (tokenize env options target (lit ''match-exec'') (the (cm_param m)))"

section \<open>Types\<close>

fun value_typed :: "ustr \<Rightarrow> cfg_value \<Rightarrow> bool" where
  "value_typed k VNone = (k = lit ''proxycommand'')"
| "value_typed k (VStr _) = (k \<notin> set MULTIPLE_KEYS)"
| "value_typed k (VList _) = (k \<in> set MULTIPLE_KEYS)"

definition dict_typed :: "cfg_dict \<Rightarrow> bool" where
  "dict_typed d \<longleftrightarrow> list_all (\<lambda>(k, v). value_typed k v) d \<and> distinct (map fst d)"

definition match_typed :: "cfg_match \<Rightarrow> bool" where
  "match_typed m \<longleftrightarrow> cm_type m \<in> set ALONE_TYPES \<or> cm_param m \<noteq> None"

definition context_typed :: "cfg_context \<Rightarrow> bool" where
  "context_typed c \<longleftrightarrow>
     dict_typed (cc_config c) \<and> (case cc_matches c of None \<Rightarrow> True | Some ms \<Rightarrow> list_all match_typed ms)"

lemma dict_put_keys: "fst ` set (dict_put k v d) = insert k (fst ` set d)"
  by (induction k v d rule: dict_put.induct) (simp_all add: insert_commute)

lemma dict_put_typed: "dict_typed d \<Longrightarrow> value_typed k v \<Longrightarrow> dict_typed (dict_put k v d)"
  unfolding dict_typed_def by (induction d) (auto simp: dict_put_keys)

lemma dict_typedD: "dict_typed d \<Longrightarrow> map_of d k = Some v \<Longrightarrow> value_typed k v"
  unfolding dict_typed_def list_all_iff by (auto dest: map_of_SomeD)

lemma dict_typed_Nil [simp]: "dict_typed []"
  by (simp add: dict_typed_def)

lemma dict_typed_Cons: "dict_typed ((k, v) # d) \<Longrightarrow> value_typed k v \<and> dict_typed d"
  by (simp add: dict_typed_def)

text \<open>The options that are read as texts are texts.\<close>

definition text_key :: "ustr \<Rightarrow> bool" where
  "text_key k \<longleftrightarrow> k \<notin> set MULTIPLE_KEYS \<and> k \<noteq> lit ''proxycommand''"

lemma text_keys [simp]:
  "text_key (lit ''hostname'')" "text_key (lit ''user'')" "text_key (lit ''port'')" "text_key (lit ''addressfamily'')"
  "text_key (lit ''canonicaldomains'')" "text_key (lit ''canonicalizemaxdots'')"
  by (simp_all add: text_key_def MULTIPLE_KEYS_def)

lemma typed_text: "dict_typed d \<Longrightarrow> text_key k \<Longrightarrow> map_of d k = Some v \<Longrightarrow> \<exists>s. v = VStr s"
  using dict_typedD [of d k v] by (cases v) (auto simp: text_key_def)

lemma option_text_typed:
  "dict_typed d \<Longrightarrow> text_key (lit k) \<Longrightarrow> \<exists>s. option_text e d k x = Inr s"
  by (auto simp: option_text_def split: option.splits dest: typed_text)

lemma get_or_typed:
  "dict_typed d \<Longrightarrow> text_key (lit k) \<Longrightarrow> get_or d k x = Inr (value_or d k x)"
  by (auto simp: get_or_def value_or_def split: option.splits dest!: typed_text)

lemma port_texts_typed: "dict_typed d \<Longrightarrow> \<exists>p r. port_texts env d = Inr (p, r)"
  by (auto simp: port_texts_def split: option.splits dest!: typed_text)

section \<open>A line of criteria asks for all of them\<close>

lemma param_matches_listed: "match_typed m \<Longrightarrow> cm_type m \<notin> set ALONE_TYPES \<Longrightarrow> param_matches m t = Inr (param_admits m t)"
  by (auto simp: match_typed_def param_matches_def param_admits_def pattern_matches_admitted split: option.splits)

lemma criterion_step:
  assumes "dict_typed options" "match_typed m" "runnable env target options m" "cm_type m \<noteq> lit ''all''"
  shows "match_loop env target canonical final options b (m # ms) =
    (if criterion_holds env target canonical final options m
     then match_loop env target canonical final options True ms else Inr False)"
proof -
  consider "cm_type m = lit ''canonical''" | "cm_type m = lit ''final''" | "cm_type m = lit ''exec''"
    | "cm_type m \<notin> set ALONE_TYPES" "cm_type m \<noteq> lit ''exec''"
    using assms(4) by (auto simp: ALONE_TYPES_def)
  then show ?thesis
  proof cases
    case 3
    with assms obtain run cmd p where "ev_run env = Some run" "cm_param m = Some p"
      "tokenize env options target (lit ''match-exec'') p = Inr cmd"
      by (auto simp: runnable_def match_typed_def ALONE_TYPES_def isl_def split: sum.splits) (metis sum.exhaust)
    with 3 show ?thesis
      by (auto simp: criterion_passed_def criterion_holds_def should_fail_def)
  next
    case 4
    then show ?thesis using assms
      by (auto simp: criterion_passed_def criterion_holds_def should_fail_def get_or_typed param_matches_listed ALONE_TYPES_def)
  qed (auto simp: criterion_passed_def criterion_holds_def should_fail_def)
qed

lemma match_loop_criteria:
  assumes "dict_typed options" "list_all match_typed ms" "list_all (runnable env target options) ms"
  shows "match_loop env target canonical final options b ms =
    Inr ((b \<or> ms \<noteq> []) \<and> list_all (criterion_holds env target canonical final options)
      (takeWhile (\<lambda>m. cm_type m \<noteq> lit ''all'') ms))"
  using assms(2,3)
proof (induction ms arbitrary: b)
  case (Cons m ms)
  show ?case
  proof (cases "cm_type m = lit ''all''")
    case True
    then show ?thesis by simp
  next
    case False
    with Cons assms(1) show ?thesis by (simp add: criterion_step del: match_loop.simps(2))
  qed
qed simp

lemma take_matches_typed: "take_matches ts = Inr ms \<Longrightarrow> list_all match_typed ms"
  by (induction ts arbitrary: ms rule: take_matches.induct)
    (auto simp: Let_def match_typed_def bindR_eq_Inr split: if_splits list.splits)

lemma get_matches_typed: "get_matches t = Inr ms \<Longrightarrow> list_all match_typed ms"
  by (auto simp: get_matches_def bindR_eq_Inr split: option.splits dest: take_matches_typed)

text \<open>C20. A \<^verbatim>\<open>Match\<close> line that parses applies exactly when every criterion before the first \<^verbatim>\<open>all\<close> holds, each with
  its own negation, whatever their order and number.\<close>

theorem match_asks_all:
  assumes "get_matches text = Inr ms" "dict_typed options" "list_all (runnable env target options) ms"
  shows "does_match env ms target canonical final options =
    Inr (ms \<noteq> [] \<and> list_all (criterion_holds env target canonical final options)
      (takeWhile (\<lambda>m. cm_type m \<noteq> lit ''all'') ms))"
  using assms get_matches_typed by (simp add: does_match_def match_loop_criteria)

section \<open>The types of the options\<close>

text \<open>A computation that does not fail on the type of a value, and what its result satisfies.\<close>

definition well_typed :: "('a \<Rightarrow> bool) \<Rightarrow> 'a res \<Rightarrow> bool" where
  "well_typed P r \<longleftrightarrow> (case r of Inl e \<Rightarrow> e \<notin> {TypeError, AttributeError} | Inr x \<Rightarrow> P x)"

lemma well_typed_simps [simp]:
  "well_typed P (Inr x) = P x" "well_typed P (Inl e) = (e \<notin> {TypeError, AttributeError})"
  by (simp_all add: well_typed_def)

lemma sound_bind: "well_typed P m \<Longrightarrow> (\<And>x. P x \<Longrightarrow> well_typed Q (f x)) \<Longrightarrow> well_typed Q (bindR m f)"
  by (cases m) auto

lemma sound_mono: "well_typed P m \<Longrightarrow> (\<And>x. P x \<Longrightarrow> Q x) \<Longrightarrow> well_typed Q m"
  by (cases m) auto

abbreviation any_value :: "'a \<Rightarrow> bool" where
  "any_value \<equiv> \<lambda>_. True"

lemma sound_then: "well_typed any_value m \<Longrightarrow> (\<And>x. well_typed Q (f x)) \<Longrightarrow> well_typed Q (bindR m f)"
  by (cases m) auto

lemma sound_encode: "well_typed any_value (utf8_encode s)"
  by (simp add: utf8_encode_def)

lemma sound_option_text: "dict_typed d \<Longrightarrow> text_key (lit k) \<Longrightarrow> well_typed any_value (option_text e d k x)"
  using option_text_typed [of d k e x] by auto

lemma sound_fqdn: "dict_typed d \<Longrightarrow> well_typed any_value (lazy_fqdn env d h)"
  unfolding lazy_fqdn_def addressfamily_host_lookup_def
  by (intro sound_then) (auto intro!: sound_option_text sound_then)

lemma sound_replacements:
  assumes "dict_typed d"
  shows "well_typed (list_all (\<lambda>(w, r). well_typed any_value r)) (replacements env d target key)"
proof -
  obtain p r where pr: "port_texts env d = Inr (p, r)" using port_texts_typed [OF assms] by blast
  show ?thesis unfolding replacements_def pr bindR_simps prod.case
    by (intro sound_then) (simp_all add: sound_option_text sound_encode sound_fqdn assms)
qed

lemma sound_replace: "list_all (\<lambda>(w, r). well_typed any_value r) rs \<Longrightarrow> well_typed any_value (replace_tokens allowed rs s)"
  by (induction rs arbitrary: s) (auto intro!: sound_then)

lemma sound_tokenize: "dict_typed d \<Longrightarrow> well_typed any_value (tokenize env d target key s)"
  unfolding tokenize_def by (auto intro: sound_bind [OF sound_replacements] sound_replace)

lemma sound_tokenize_all: "dict_typed d \<Longrightarrow> well_typed any_value (tokenize_all env d target key vs)"
  by (induction vs) (auto intro!: sound_then sound_tokenize)

lemma sound_expand: "dict_typed d \<Longrightarrow> well_typed dict_typed (expand_keys env target ks d)"
proof (induction ks arbitrary: d)
  case (Cons k ks)
  show ?case
  proof (cases "map_of d k")
    case None
    with Cons show ?thesis by simp
  next
    case (Some v)
    note t = dict_typedD [OF Cons.prems Some]
    show ?thesis
    proof (cases v)
      case VNone
      with Some Cons show ?thesis by simp
    next
      case (VStr s)
      with Some t Cons show ?thesis
        by (auto intro!: sound_then [OF sound_tokenize] Cons.IH dict_put_typed)
    next
      case (VList vs)
      with Some t Cons show ?thesis
        by (auto intro!: sound_then [OF sound_tokenize_all] Cons.IH dict_put_typed)
    qed
  qed
qed simp

text \<open>Parsing leaves typed contexts.\<close>

lemma store_setting_typed:
  assumes "dict_typed d"
  shows "well_typed dict_typed (store_setting k v d)"
proof (cases "map_of d k")
  case None
  then show ?thesis using assms
    by (auto simp: store_setting_def Let_def intro!: dict_put_typed)
next
  case (Some x)
  with dict_typedD [OF assms Some] show ?thesis using assms
    by (cases x) (auto simp: store_setting_def Let_def MULTIPLE_KEYS_def intro!: dict_put_typed)
qed

lemma store_setting_keeps: "store_setting k v d = Inr d' \<Longrightarrow> dict_typed d \<Longrightarrow> dict_typed d'"
  using store_setting_typed [of d k v] by simp

lemma parse_line_typed:
  assumes "context_typed c" "list_all context_typed cs" "parse_line env c l cs = (Inr c', cs')"
  shows "context_typed c' \<and> list_all context_typed cs'"
  using assms
  by (auto simp: parse_line_def Let_def sm_simps context_typed_def split: if_splits option.splits prod.splits sum.splits
    dest: get_matches_typed store_setting_keeps)

lemma parse_lines_typed:
  "cfg_lines env c ls cs = (Inr u, cs') \<Longrightarrow> context_typed c \<Longrightarrow> list_all context_typed cs \<Longrightarrow> list_all context_typed cs'"
proof (induction ls arbitrary: c cs)
  case Nil
  then show ?case by (auto simp: modS_def)
next
  case (Cons l ls)
  from Cons.prems(1) obtain c1 cs1 where "parse_line env c l cs = (Inr c1, cs1)" "cfg_lines env c1 ls cs1 = (Inr u, cs')"
    by (auto simp: bindS_Inr_iff)
  with Cons parse_line_typed show ?case by blast
qed

lemma from_file_typed: "from_file env ls = Inr cfg \<Longrightarrow> list_all context_typed cfg"
proof -
  assume "from_file env ls = Inr cfg"
  then obtain u where "cfg_lines env first_context ls [] = (Inr u, cfg)"
    by (auto simp: from_file_def parse_def split: prod.splits sum.splits)
  then show ?thesis by (rule parse_lines_typed) (simp_all add: first_context_def context_typed_def)
qed

text \<open>Looking up keeps the types.\<close>

lemma sound_merge_item:
  assumes "dict_typed d" "value_typed k v"
  shows "well_typed dict_typed (merge_item k v d)"
proof (cases "map_of d k")
  case None
  with assms show ?thesis by (simp add: merge_item_def dict_put_typed)
next
  case (Some x)
  with dict_typedD [OF assms(1) Some] assms show ?thesis
    by (cases x; cases v) (auto simp: merge_item_def MULTIPLE_KEYS_def intro!: dict_put_typed)
qed

lemma sound_merge_items: "dict_typed kvs \<Longrightarrow> dict_typed d \<Longrightarrow> well_typed dict_typed (merge_items kvs d)"
  by (induction kvs arbitrary: d)
    (auto dest!: dict_typed_Cons intro!: sound_bind [OF sound_merge_item])

lemma sound_criterion:
  assumes "dict_typed d" "match_typed m"
  shows "well_typed any_value (criterion_passed env target final d m)"
proof (cases "cm_type m \<in> set ALONE_TYPES")
  case True
  then show ?thesis by (auto simp: criterion_passed_def ALONE_TYPES_def)
next
  case False
  with assms obtain p where "cm_param m = Some p" by (auto simp: match_typed_def)
  with False assms show ?thesis
    by (auto simp: criterion_passed_def param_matches_listed get_or_typed split: option.splits
      intro!: sound_then [OF sound_tokenize])
qed

lemma sound_match_loop:
  "dict_typed d \<Longrightarrow> list_all match_typed ms \<Longrightarrow> well_typed any_value (match_loop env target canonical final d b ms)"
  by (induction ms arbitrary: b) (auto intro!: sound_then [OF sound_criterion])

lemma sound_applies: "dict_typed d \<Longrightarrow> context_typed c \<Longrightarrow> well_typed any_value (context_applies env h canonical final d c)"
  by (auto simp: context_applies_def does_match_def context_typed_def intro!: sound_match_loop split: option.splits)

lemma sound_apply_contexts:
  "list_all context_typed cs \<Longrightarrow> dict_typed d \<Longrightarrow> well_typed dict_typed (apply_contexts env h canonical final cs d)"
proof (induction cs arbitrary: d)
  case (Cons c cs)
  then have "dict_typed (cc_config c)" by (simp add: context_typed_def)
  with Cons show ?case
    by (auto intro!: sound_then [OF sound_applies] sound_bind [where P = dict_typed] sound_merge_items)
qed simp

lemma sound_pass:
  "list_all context_typed cs \<Longrightarrow> dict_typed d \<Longrightarrow> well_typed dict_typed (lookup_pass env cs h d canonical final)"
  unfolding lookup_pass_def expand_variables_def
  by (auto intro!: sound_bind [OF sound_apply_contexts] sound_expand)

text \<open>An option that is set stays set.\<close>

lemma merge_item_unset: "merge_item k v d = Inr d' \<Longrightarrow> map_of d' x = None \<Longrightarrow> map_of d x = None"
  by (auto simp: merge_item_def map_of_dict_put split: option.splits if_splits cfg_value.splits)

lemma merge_items_unset: "merge_items kvs d = Inr d' \<Longrightarrow> map_of d' x = None \<Longrightarrow> map_of d x = None"
proof (induction kvs arbitrary: d)
  case (Cons kv kvs)
  then obtain d1 where "merge_item (fst kv) (snd kv) d = Inr d1" "merge_items kvs d1 = Inr d'"
    by (cases kv) (auto simp: bindR_eq_Inr)
  with Cons merge_item_unset show ?case by blast
qed simp

lemma apply_contexts_unset:
  "apply_contexts env h canonical final cs d = Inr d' \<Longrightarrow> map_of d' x = None \<Longrightarrow> map_of d x = None"
proof (induction cs arbitrary: d)
  case (Cons c cs)
  then obtain d1 where "apply_contexts env h canonical final cs d1 = Inr d'" "d1 = d \<or> merge_items (cc_config c) d = Inr d1"
    by (auto simp: bindR_eq_Inr split: if_splits)
  with Cons merge_items_unset show ?case by blast
qed simp

lemma expand_keys_unset: "expand_keys env target ks d = Inr d' \<Longrightarrow> map_of d' x = None \<Longrightarrow> map_of d x = None"
proof (induction ks arbitrary: d)
  case (Cons k ks)
  then obtain d1 where "expand_keys env target ks d1 = Inr d'" "d1 = d \<or> (\<exists>v. d1 = dict_put k v d)"
    by (auto simp: bindR_eq_Inr split: option.splits cfg_value.splits)
  with Cons show ?case by (metis fun_upd_other map_of_dict_put option.distinct(1) fun_upd_same)
qed simp

lemma pass_unset: "lookup_pass env cs h d canonical final = Inr d' \<Longrightarrow> map_of d' x = None \<Longrightarrow> map_of d x = None"
  by (auto simp: lookup_pass_def expand_variables_def bindR_eq_Inr split: if_splits dest: apply_contexts_unset expand_keys_unset)

definition answer_typed :: "cfg_dict \<Rightarrow> bool" where
  "answer_typed d \<longleftrightarrow> dict_typed d \<and> (\<exists>h. map_of d (lit ''hostname'') = Some (VStr h))"

lemma sound_last_pass:
  assumes "list_all context_typed cs" "dict_typed d" "map_of d (lit ''hostname'') \<noteq> None"
  shows "well_typed answer_typed (lookup_pass env cs h d canonical final)"
proof (cases "lookup_pass env cs h d canonical final")
  case (Inl e)
  then show ?thesis using sound_pass [OF assms(1,2), of env h canonical final] by simp
next
  case (Inr d')
  then have "dict_typed d'" using sound_pass [OF assms(1,2), of env h canonical final] by simp
  moreover have "map_of d' (lit ''hostname'') \<noteq> None" using pass_unset [OF Inr, of "lit ''hostname''"] assms(3) by auto
  ultimately show ?thesis using Inr typed_text [of d' "lit ''hostname''"] by (auto simp: answer_typed_def)
qed

lemma sound_max_dots: "dict_typed d \<Longrightarrow> well_typed any_value (max_dots d)"
  by (auto simp: max_dots_def int_of_str_def Let_def split: option.splits dest!: typed_text)

lemma sound_domains: "dict_typed d \<Longrightarrow> well_typed any_value (canonical_domains d)"
  by (auto simp: canonical_domains_def split: option.splits dest!: typed_text)

lemma sound_try: "dict_typed d \<Longrightarrow> well_typed any_value (try_domains env h d ds)"
  by (induction ds)
    (auto simp: Let_def addressfamily_host_lookup_def bindR_assoc intro!: sound_then sound_option_text split: option.splits list.splits)

lemma sound_canonicalize: "dict_typed d \<Longrightarrow> well_typed any_value (cfg_canonicalize env h d ds)"
  unfolding cfg_canonicalize_def by (rule sound_then [OF sound_try]) (auto split: option.splits)

text \<open>C21. Looking up a host in a configuration that was parsed never fails on the type of a value, and what it answers
  is typed: each key at most once, lists exactly for the keys that may be repeated, \<^verbatim>\<open>None\<close> only for
  \<^verbatim>\<open>proxycommand\<close>, texts for all others, and always a host name.\<close>

theorem options_typed:
  assumes "from_file env ls = Inr cfg"
  shows "case cfg_lookup env cfg hostname of
      Inr options \<Rightarrow> answer_typed options
    | Inl e \<Rightarrow> e \<noteq> TypeError \<and> e \<noteq> AttributeError"
proof -
  note t = from_file_typed [OF assms]
  let ?with_host = "\<lambda>d. if map_of d (lit ''hostname'') = None then dict_put (lit ''hostname'') (VStr hostname) d else d"
  have w: "dict_typed (?with_host d)" "map_of (?with_host d) (lit ''hostname'') \<noteq> None" if "dict_typed d" for d
    using that by (auto simp: map_of_dict_put MULTIPLE_KEYS_def intro!: dict_put_typed)
  have "well_typed answer_typed (cfg_lookup env cfg hostname)"
    unfolding cfg_lookup_def Let_def
    by (rule sound_bind [OF sound_pass [OF t dict_typed_Nil]], rule sound_then [OF sound_max_dots [OF w(1)]], assumption)
      (auto simp: map_of_dict_put MULTIPLE_KEYS_def
        intro!: sound_then [OF sound_domains] sound_then [OF sound_canonicalize] sound_last_pass [OF t] dict_put_typed)
  then show ?thesis by (auto simp: well_typed_def split: sum.splits)
qed

text \<open>A machine without a name service, for examples.\<close>

definition sample_machine :: cfg_env where
  "sample_machine = \<lparr>ev_alnum = (\<lambda>_. False), ev_lower = id, ev_printable = (\<lambda>_. False), ev_user = lit ''alice'',
     ev_hostname = lit ''laptop'', ev_fqdn = lit ''laptop.lan'', ev_home = lit ''/home/alice'', ev_sha1 = (\<lambda>_. lit ''0''),
     ev_addrinfo = (\<lambda>_ _. None), ev_gethostbyname = (\<lambda>_. None), ev_run = None\<rparr>"

theorem match_asks_all_witness:
  "\<exists>ms. get_matches (lit ''host *.example.org !user root,admin'') = Inr ms \<and>
     does_match sample_machine ms (lit ''db.example.org'') False False [] = Inr True"
proof -
  let ?ms = "[\<lparr>cm_type = lit ''host'', cm_param = Some (lit ''*.example.org''), cm_negate = False\<rparr>,
    \<lparr>cm_type = lit ''user'', cm_param = Some (lit ''root,admin''), cm_negate = True\<rparr>]"
  have g: "get_matches (lit ''host *.example.org !user root,admin'') = Inr ?ms" by code_simp
  have "list_all (runnable sample_machine (lit ''db.example.org'') []) ?ms" by (simp add: runnable_def)
  from match_asks_all [OF g dict_typed_Nil this, of False False]
  have "does_match sample_machine ?ms (lit ''db.example.org'') False False [] =
    Inr (list_all (criterion_holds sample_machine (lit ''db.example.org'') False False []) ?ms)" by simp
  moreover have "list_all (criterion_holds sample_machine (lit ''db.example.org'') False False []) ?ms" by code_simp
  ultimately show ?thesis using g by auto
qed

theorem options_typed_witness:
  "\<exists>cfg. from_file sample_machine [lit ''User bob''] = Inr cfg \<and>
     (case cfg_lookup sample_machine cfg (lit ''db'') of
        Inr options \<Rightarrow> answer_typed options
      | Inl e \<Rightarrow> e \<noteq> TypeError \<and> e \<noteq> AttributeError)"
proof -
  have "from_file sample_machine [lit ''User bob''] =
    Inr [\<lparr>cc_host = Some [lit ''*''], cc_matches = None, cc_config = [(lit ''user'', VStr (lit ''bob''))]\<rparr>]"
    by (simp add: from_file_def parse_def first_context_def parse_line_def settings_match_def word_char_def str_lower_def
        py_lower_def lower_cp_def store_setting_def unquote_def py_strip_def strip_by_def is_space_def MULTIPLE_KEYS_def
        lit_def sm_simps)
  from this options_typed [OF this, of "lit ''db''"] show ?thesis by blast
qed

text \<open>The literal host names of a configuration cannot be asked for once it has a \<^verbatim>\<open>Match\<close> line.\<close>

lemma get_hostnames_iff:
  "get_hostnames cs =
     (if list_all (\<lambda>c. cc_host c \<noteq> None) cs then Inr (set (concat (map (the \<circ> cc_host) cs))) else Inl KeyError)"
  by (induction cs) (auto split: option.splits)

text \<open>\<^verbatim>\<open>ProxyCommand none\<close> replaces a command that was set before it in the same block.\<close>

lemma proxy_none_replaces:
  "store_setting (lit ''proxycommand'') (lit ''none'') d = Inr (dict_put (lit ''proxycommand'') VNone d)"
proof -
  have "py_lower (lit ''none'') = lit ''none''" by code_simp
  then show ?thesis by (simp add: store_setting_def)
qed

end
