(* ===== verification/Ssh_Config_Blocks.thy ===== *)
theory Ssh_Config_Blocks
  imports Ssh_Config_Answers
begin

text \<open>
  A configuration file of \<^verbatim>\<open>Host\<close> blocks, from its text to the options of a host: the first value written for an
  option in a block that admits the host wins, and identity files are collected from all such blocks.
\<close>

section \<open>Files\<close>

type_synonym settings = "(ustr \<times> ustr) list"
type_synonym host_block = "ustr list \<times> settings"

definition setting_line :: "ustr \<times> ustr \<Rightarrow> ustr" where
  "setting_line kv = lit ''    '' @ fst kv @ [32] @ snd kv @ [10]"

definition host_line :: "ustr list \<Rightarrow> ustr" where
  "host_line hs = lit ''Host '' @ join [32] hs @ [10]"

definition block_lines :: "host_block \<Rightarrow> ustr list" where
  "block_lines b = host_line (fst b) # map setting_line (snd b)"

definition config_text :: "settings \<Rightarrow> host_block list \<Rightarrow> ustr" where
  "config_text globals blocks = concat (map setting_line globals @ concat (map block_lines blocks))"

text \<open>What may be written: a key of lower-case letters and digits other than those that start a block or turn on
  canonicalization; a value of one line that is not quoted, and without token characters where they mean something.\<close>

definition key_ok :: "ustr \<Rightarrow> bool" where
  "key_ok k \<longleftrightarrow> k \<noteq> [] \<and> list_all (\<lambda>c. 97 \<le> c \<and> c \<le> 122 \<or> 48 \<le> c \<and> c \<le> 57) k \<and>
     k \<notin> set (map lit [''host'', ''match'', ''canonicalizehostname'', ''canonicalizemaxdots''])"

definition value_ok :: "ustr \<Rightarrow> bool" where
  "value_ok v \<longleftrightarrow> v \<noteq> [] \<and> 10 \<notin> set v \<and> \<not> is_space (hd v) \<and> \<not> is_space (last v) \<and> hd v \<notin> {61, 34} \<and> list_all scalar v"

definition no_tokens :: "ustr \<Rightarrow> bool" where
  "no_tokens v \<longleftrightarrow> 37 \<notin> set v \<and> 126 \<notin> set v"

definition setting_ok :: "ustr \<times> ustr \<Rightarrow> bool" where
  "setting_ok kv \<longleftrightarrow> key_ok (fst kv) \<and> value_ok (snd kv) \<and> (allowed_tokens (fst kv) = [] \<or> no_tokens (snd kv)) \<and>
     \<not> (fst kv = lit ''proxycommand'' \<and> py_lower (snd kv) = lit ''none'')"

definition host_ok :: "ustr \<Rightarrow> bool" where
  "host_ok h \<longleftrightarrow> h \<noteq> [] \<and> list_all (\<lambda>c. \<not> is_space c \<and> c \<notin> {34, 39, 92}) h"

definition block_ok :: "host_block \<Rightarrow> bool" where
  "block_ok b \<longleftrightarrow> fst b \<noteq> [] \<and> list_all host_ok (fst b) \<and> hd (hd (fst b)) \<noteq> 61 \<and> list_all setting_ok (snd b)"

section \<open>Answers\<close>

definition values_of :: "ustr \<Rightarrow> settings \<Rightarrow> ustr list" where
  "values_of k kvs = map snd (filter (\<lambda>kv. fst kv = k) kvs)"

text \<open>The settings of the blocks that admit a host, block by block.\<close>

definition applicable :: "ustr \<Rightarrow> host_block list \<Rightarrow> settings list" where
  "applicable h bs = map snd (filter (\<lambda>b. admitted (fst b) h) bs)"

text \<open>The value of an option: from the first block that sets it, its first value there, or all of them where a key may
  be repeated; identity files of later blocks are added, each once.\<close>

definition first_value :: "settings list \<Rightarrow> ustr \<Rightarrow> cfg_value option" where
  "first_value gs k =
     (case filter (\<lambda>l. l \<noteq> []) (map (values_of k) gs) of
        [] \<Rightarrow> None
      | f # r \<Rightarrow> Some (if k = lit ''identityfile'' then VList (extend_new f (concat r))
                     else if k \<in> set MULTIPLE_KEYS then VList f else VStr (hd f)))"

definition with_host :: "ustr \<Rightarrow> (ustr \<Rightarrow> cfg_value option) \<Rightarrow> ustr \<Rightarrow> cfg_value option" where
  "with_host h f k = (if f k = None \<and> k = lit ''hostname'' then Some (VStr h) else f k)"

section \<open>Lines\<close>

lemma text_lines_line: "10 \<notin> set w \<Longrightarrow> text_lines (w @ 10 # s) = (w @ [10]) # text_lines s"
  by (induction w) auto

lemma text_lines_concat:
  "list_all (\<lambda>l. \<exists>w. l = w @ [10] \<and> 10 \<notin> set w) ls \<Longrightarrow> text_lines (concat ls) = ls"
  by (induction ls) (auto simp: text_lines_line)

lemma is_space_small [simp]: "is_space 32" "is_space 10" "\<not> is_space 61" "\<not> is_space 72"
  by (simp_all add: is_space_def)

lemma strip_pad:
  assumes "list_all p a" "list_all p b" "s \<noteq> []" "\<not> p (hd s)" "\<not> p (last s)"
  shows "strip_by p (a @ s @ b) = s"
proof -
  have d: "dropWhile p (x @ y) = y" if "list_all p x" "y = [] \<or> \<not> p (hd y)" for x y
    using that by (induction x) (auto, cases y, auto)
  have "dropWhile p (a @ s @ b) = s @ b" using assms by (intro d) auto
  moreover have "dropWhile p (rev b @ rev s) = rev s"
    using assms by (intro d) (auto simp: hd_rev list_all_iff)
  ultimately show ?thesis by (simp add: strip_by_def)
qed

lemma strip_to:
  "raw = a @ s @ b \<Longrightarrow> list_all is_space a \<Longrightarrow> list_all is_space b \<Longrightarrow> s \<noteq> [] \<Longrightarrow> \<not> is_space (hd s) \<Longrightarrow> \<not> is_space (last s) \<Longrightarrow>
     py_strip raw = s"
  by (simp add: py_strip_def strip_pad)

lemma settings_match_plain:
  assumes "k \<noteq> []" "list_all (word_char env) k" "v \<noteq> []" "10 \<notin> set v" "\<not> is_space (hd v)" "hd v \<noteq> 61"
  shows "settings_match env (k @ 32 # v) = Some (k, v)"
proof -
  have w: "\<not> word_char env 32" by (simp add: word_char_def)
  have t: "takeWhile (word_char env) (k @ 32 # v) = k" "dropWhile (word_char env) (k @ 32 # v) = 32 # v"
    using assms(2) w by (auto simp: takeWhile_append2 dropWhile_append2 list_all_iff)
  have "dropWhile is_space v = v" using assms(3,5) by (cases v) auto
  moreover have "takeWhile (\<lambda>c. c \<noteq> 10) v = v" using assms(4) by (simp add: takeWhile_eq_all_conv) metis
  ultimately show ?thesis using assms by (simp add: settings_match_def t Let_def del: takeWhile_eq_all_conv)
qed

lemma key_chars: "key_ok k \<Longrightarrow> list_all (word_char env) k \<and> k \<noteq> [] \<and> \<not> is_space (hd k) \<and> hd k \<noteq> 35 \<and> str_lower env k = k"
proof -
  assume k: "key_ok k"
  have "py_lower k = k" if "list_all (\<lambda>c. 97 \<le> c \<and> c \<le> 122 \<or> 48 \<le> c \<and> c \<le> 57) k"
    using that unfolding py_lower_def by (induction k) (auto simp: lower_cp_def)
  with k have "str_lower env k = k" by (auto simp: str_lower_def key_ok_def list_all_iff)
  moreover have "list_all (word_char env) k" using k by (auto simp: key_ok_def word_char_def list_all_iff)
  moreover have "k \<noteq> []" using k by (simp add: key_ok_def)
  moreover have "97 \<le> hd k \<and> hd k \<le> 122 \<or> 48 \<le> hd k \<and> hd k \<le> 57"
    using k \<open>k \<noteq> []\<close> by (auto simp: key_ok_def list_all_iff)
  then have "\<not> is_space (hd k)" "hd k \<noteq> 35" by (auto simp: is_space_def)
  ultimately show ?thesis by blast
qed

lemma startswith_hd: "s \<noteq> [] \<Longrightarrow> startswith s [c] = (hd s = c)"
  by (cases s) auto

lemma parse_setting_line:
  assumes "setting_ok kv"
  shows "parse_line env ctx (setting_line kv) =
    bindS (liftR (store_setting (fst kv) (snd kv) (cc_config ctx))) (\<lambda>d. retS (ctx\<lparr>cc_config := d\<rparr>))"
proof -
  obtain k v where kv: "kv = (k, v)" by (cases kv)
  have k: "key_ok k" and v: "value_ok v" using assms kv by (simp_all add: setting_ok_def)
  note kc = key_chars [OF k, of env]
  have "list_all is_space (lit ''    '')" by (simp add: lit_def)
  then have "py_strip (setting_line kv) = k @ 32 # v"
    using kc v by (intro strip_to [where a = "lit ''    ''" and b = "[10]"]) (auto simp: value_ok_def setting_line_def kv)
  moreover have "settings_match env (k @ 32 # v) = Some (k, v)"
    using kc v by (intro settings_match_plain) (auto simp: value_ok_def)
  moreover have "k \<noteq> lit ''host''" "k \<noteq> lit ''match''" using k by (simp_all add: key_ok_def)
  ultimately show ?thesis using kc kv by (simp add: parse_line_def startswith_hd)
qed

section \<open>Host lines\<close>

lemma shell_within:
  "list_all (\<lambda>c. \<not> is_space c \<and> c \<notin> {34, 39, 92}) w \<Longrightarrow> shell_words Within tok (w @ s) = shell_words Within (tok @ w) s"
  by (induction w arbitrary: tok) (auto simp: shell_space_def is_space_def)

lemma shell_word:
  "host_ok w \<Longrightarrow> shell_words Between tok (w @ s) = shell_words Within w s"
  by (cases w) (auto simp: host_ok_def shell_within shell_space_def is_space_def)

lemma shell_join: "hs \<noteq> [] \<Longrightarrow> list_all host_ok hs \<Longrightarrow> shell_words Between tok (join [32] hs) = Inr hs"
proof (induction "[32] :: ustr" hs arbitrary: tok rule: join.induct)
  case (2 w)
  then show ?case using shell_word [of w tok "[]"] by simp
next
  case (3 w v ws)
  then show ?case by (simp add: shell_word shell_space_def)
qed simp

lemma join_host:
  assumes "hs \<noteq> []" "list_all host_ok hs"
  shows "join [32] hs \<noteq> [] \<and> 10 \<notin> set (join [32] hs) \<and> hd (join [32] hs) = hd (hd hs) \<and>
    \<not> is_space (hd (hd hs)) \<and> \<not> is_space (last (join [32] hs))"
  using assms
proof (induction "[32] :: ustr" hs rule: join.induct)
  case (2 w)
  then show ?case by (auto simp: host_ok_def list_all_iff)
next
  case (3 w v ws)
  then show ?case by (auto simp: host_ok_def list_all_iff)
qed simp

lemma parse_host_line:
  assumes "hs \<noteq> []" "list_all host_ok hs" "hd (hd hs) \<noteq> 61"
  shows "parse_line env ctx (host_line hs) cs = (Inr \<lparr>cc_host = Some hs, cc_matches = None, cc_config = []\<rparr>, cs @ [ctx])"
proof -
  note j = join_host [OF assms(1,2)]
  have "py_strip (host_line hs) = lit ''Host'' @ 32 # join [32] hs"
    using j by (intro strip_to [where a = "[]" and b = "[10]"]) (auto simp: lit_def host_line_def)
  moreover have "settings_match env (lit ''Host'' @ 32 # join [32] hs) = Some (lit ''Host'', join [32] hs)"
    using j assms(3) by (intro settings_match_plain) (auto simp: lit_def word_char_def)
  moreover have "str_lower env (lit ''Host'') = lit ''host''"
    by (simp add: str_lower_def py_lower_def lower_cp_def lit_def)
  moreover have "get_hosts (join [32] hs) = Inr hs"
    using assms shell_join by (simp add: get_hosts_def shlex_split_def)
  moreover have "\<not> startswith (lit ''Host'' @ 32 # join [32] hs) [35]" by (simp add: lit_def)
  ultimately show ?thesis by (simp add: parse_line_def sm_simps)
qed

section \<open>The dictionary of a block\<close>

definition settings_value :: "settings \<Rightarrow> ustr \<Rightarrow> cfg_value option" where
  "settings_value kvs k =
     (let vs = values_of k kvs
      in if vs = [] then None else Some (if k \<in> set MULTIPLE_KEYS then VList vs else VStr (hd vs)))"

lemma values_of_simps [simp]:
  "values_of k [] = []" "values_of k (a @ b) = values_of k a @ values_of k b"
  "values_of k [kv] = (if fst kv = k then [snd kv] else [])"
  by (simp_all add: values_of_def)

definition holds_settings :: "settings \<Rightarrow> cfg_dict \<Rightarrow> bool" where
  "holds_settings kvs d \<longleftrightarrow> dict_typed d \<and> map_of d = settings_value kvs"

lemma store_holds:
  assumes "holds_settings kvs d" "setting_ok (k, v)"
  obtains d' where "store_setting k v d = Inr d'" "holds_settings (kvs @ [(k, v)]) d'"
proof -
  have t: "dict_typed d" and m: "map_of d = settings_value kvs" using assms(1) by (simp_all add: holds_settings_def)
  have u: "unquote v = v" using assms(2)
    by (auto simp: setting_ok_def value_ok_def unquote_def startswith_hd)
  have n: "\<not> (k = lit ''proxycommand'' \<and> py_lower v = lit ''none'')" using assms(2) by (simp add: setting_ok_def)
  have "\<exists>d'. store_setting k v d = Inr d' \<and> map_of d' = settings_value (kvs @ [(k, v)])"
    using n by (auto simp: store_setting_def u m settings_value_def map_of_dict_put fun_eq_iff hd_append Let_def)
  then obtain d' where d: "store_setting k v d = Inr d'" "map_of d' = settings_value (kvs @ [(k, v)])" by blast
  then show ?thesis using that store_setting_keeps [OF d(1) t] by (simp add: holds_settings_def)
qed

lemma parse_settings:
  assumes "list_all setting_ok kvs" "holds_settings before (cc_config ctx)"
  shows "\<exists>d. holds_settings (before @ kvs) d \<and>
    (\<forall>ls cs. cfg_lines env ctx (map setting_line kvs @ ls) cs = cfg_lines env (ctx\<lparr>cc_config := d\<rparr>) ls cs)"
  using assms
proof (induction kvs arbitrary: before ctx)
  case Nil
  then show ?case by (intro exI [of _ "cc_config ctx"]) simp
next
  case (Cons kv kvs)
  obtain k v where kv: "kv = (k, v)" by (cases kv)
  obtain d1 where d1: "store_setting k v (cc_config ctx) = Inr d1" "holds_settings (before @ [(k, v)]) d1"
    using store_holds [OF Cons.prems(2), of k v] Cons.prems(1) kv by auto
  have "parse_line env ctx (setting_line kv) cs = (Inr (ctx\<lparr>cc_config := d1\<rparr>), cs)" for cs
    using Cons.prems(1) d1(1) kv by (simp add: parse_setting_line sm_simps)
  with Cons.IH [of "before @ [kv]" "ctx\<lparr>cc_config := d1\<rparr>"] Cons.prems(1) d1(2) kv show ?case
    by (simp add: bindS_step)
qed

text \<open>A context that comes of a block.\<close>

definition from_block :: "host_block \<Rightarrow> cfg_context \<Rightarrow> bool" where
  "from_block b c \<longleftrightarrow> cc_host c = Some (fst b) \<and> cc_matches c = None \<and> holds_settings (snd b) (cc_config c)"

lemma holds_Nil [simp]: "holds_settings [] []"
  by (auto simp: holds_settings_def settings_value_def)

lemma parse_blocks:
  "list_all block_ok bs \<Longrightarrow>
     \<exists>cs'. list_all2 from_block bs cs' \<and>
       (\<forall>ctx cs. cfg_lines env ctx (concat (map block_lines bs)) cs = (Inr (), cs @ ctx # cs'))"
proof (induction bs)
  case Nil
  then show ?case by (simp add: modS_def)
next
  case (Cons b bs)
  obtain hs kvs where b: "b = (hs, kvs)" by (cases b)
  let ?c0 = "\<lparr>cc_host = Some hs, cc_matches = None, cc_config = []\<rparr>"
  have ok: "hs \<noteq> []" "list_all host_ok hs" "hd (hd hs) \<noteq> 61" "list_all setting_ok kvs"
    using Cons.prems b by (simp_all add: block_ok_def)
  obtain d where d: "holds_settings kvs d"
    "\<And>ls cs. cfg_lines env ?c0 (map setting_line kvs @ ls) cs = cfg_lines env (?c0\<lparr>cc_config := d\<rparr>) ls cs"
    using parse_settings [OF ok(4), of "[]" ?c0 env] by auto
  obtain cs' where cs': "list_all2 from_block bs cs'"
    "\<And>ctx cs. cfg_lines env ctx (concat (map block_lines bs)) cs = (Inr (), cs @ ctx # cs')"
    using Cons by auto
  have "cfg_lines env ctx (concat (map block_lines (b # bs))) cs = (Inr (), cs @ ctx # (?c0\<lparr>cc_config := d\<rparr>) # cs')" for ctx cs
    using d(2) cs'(2) by (simp add: block_lines_def b bindS_step [OF parse_host_line [OF ok(1-3)]])
  moreover have "list_all2 from_block (b # bs) ((?c0\<lparr>cc_config := d\<rparr>) # cs')"
    using cs'(1) d(1) b by (simp add: from_block_def)
  ultimately show ?case by blast
qed

lemma line_ends:
  "setting_ok kv \<Longrightarrow> \<exists>w. setting_line kv = w @ [10] \<and> 10 \<notin> set w"
  "block_ok b \<Longrightarrow> \<exists>w. host_line (fst b) = w @ [10] \<and> 10 \<notin> set w"
proof -
  assume "setting_ok kv"
  then show "\<exists>w. setting_line kv = w @ [10] \<and> 10 \<notin> set w"
    by (intro exI [of _ "lit ''    '' @ fst kv @ [32] @ snd kv"])
      (auto simp: setting_line_def setting_ok_def key_ok_def value_ok_def lit_def list_all_iff)
next
  assume "block_ok b"
  with join_host [of "fst b"] show "\<exists>w. host_line (fst b) = w @ [10] \<and> 10 \<notin> set w"
    by (intro exI [of _ "lit ''Host '' @ join [32] (fst b)"]) (auto simp: host_line_def block_ok_def lit_def)
qed

text \<open>The global settings are a block for every host.\<close>

definition all_blocks :: "settings \<Rightarrow> host_block list \<Rightarrow> host_block list" where
  "all_blocks globals blocks = ([lit ''*''], globals) # blocks"

lemma config_parses:
  assumes "list_all setting_ok globals" "list_all block_ok blocks"
  obtains cfg where "from_text env (config_text globals blocks) = Inr cfg" "list_all2 from_block (all_blocks globals blocks) cfg"
proof -
  let ?ls = "map setting_line globals @ concat (map block_lines blocks)"
  have "list_all (\<lambda>l. \<exists>w. l = w @ [10] \<and> 10 \<notin> set w) (map setting_line kvs)" if "list_all setting_ok kvs" for kvs
    using that line_ends(1) by (simp add: list_all_iff)
  then have "list_all (\<lambda>l. \<exists>w. l = w @ [10] \<and> 10 \<notin> set w) (block_lines b)" if "block_ok b" for b
    using that line_ends(2) by (simp add: block_lines_def block_ok_def)
  then have "list_all (\<lambda>l. \<exists>w. l = w @ [10] \<and> 10 \<notin> set w) ?ls"
    using assms line_ends(1) by (simp add: list_all_iff) blast
  then have l: "text_lines (config_text globals blocks) = ?ls"
    unfolding config_text_def by (rule text_lines_concat)
  obtain d where d: "holds_settings globals d"
    "\<And>ls cs. cfg_lines env first_context (map setting_line globals @ ls) cs = cfg_lines env (first_context\<lparr>cc_config := d\<rparr>) ls cs"
    using parse_settings [OF assms(1), of "[]" first_context env] by (auto simp: first_context_def)
  obtain cs' where cs': "list_all2 from_block blocks cs'"
    "\<And>ctx cs. cfg_lines env ctx (concat (map block_lines blocks)) cs = (Inr (), cs @ ctx # cs')"
    using parse_blocks [OF assms(2)] by blast
  have "from_text env (config_text globals blocks) = Inr ((first_context\<lparr>cc_config := d\<rparr>) # cs')"
    by (simp add: from_text_def l from_file_def parse_def d(2) cs'(2))
  moreover have "list_all2 from_block (all_blocks globals blocks) ((first_context\<lparr>cc_config := d\<rparr>) # cs')"
    using cs'(1) d(1) by (simp add: all_blocks_def from_block_def first_context_def)
  ultimately show ?thesis by (rule that)
qed

section \<open>Collecting\<close>

lemma extend_new_append: "extend_new f (a @ b) = extend_new (extend_new f a) b"
  by (induction a arbitrary: f) auto

lemma set_extend_new: "set (extend_new a b) = set a \<union> set b"
  by (induction b arbitrary: a) auto

lemma extend_new_known: "set b \<subseteq> set a \<Longrightarrow> extend_new a b = a"
  by (induction b) auto

text \<open>The value of an option before and after a block is merged.\<close>

definition merged :: "ustr \<Rightarrow> cfg_value option \<Rightarrow> cfg_value option \<Rightarrow> cfg_value option" where
  "merged k old new =
     (case old of
        None \<Rightarrow> new
      | Some (VList a) \<Rightarrow>
          (case new of Some (VList b) \<Rightarrow> Some (VList (if k = lit ''identityfile'' then extend_new a b else a)) | _ \<Rightarrow> old)
      | _ \<Rightarrow> old)"

lemma identityfile_multiple: "lit ''identityfile'' \<in> set MULTIPLE_KEYS"
  by (simp add: MULTIPLE_KEYS_def)

lemma merge_item_merged:
  assumes "dict_typed d" "value_typed k v"
  obtains d' where "merge_item k v d = Inr d'" "dict_typed d'" "map_of d' = (map_of d)(k := merged k (map_of d k) (Some v))"
proof -
  have "\<exists>d'. merge_item k v d = Inr d' \<and> map_of d' = (map_of d)(k := merged k (map_of d k) (Some v))"
  proof (cases "map_of d k")
    case None
    then show ?thesis by (simp add: merge_item_def merged_def map_of_dict_put)
  next
    case (Some x)
    with dict_typedD [OF assms(1) Some] assms(2) identityfile_multiple show ?thesis
      by (cases x; cases v) (auto simp: merge_item_def merged_def map_of_dict_put fun_eq_iff MULTIPLE_KEYS_def)
  qed
  then obtain d' where d: "merge_item k v d = Inr d'" "map_of d' = (map_of d)(k := merged k (map_of d k) (Some v))" by blast
  then show ?thesis using that sound_merge_item [OF assms] by simp
qed

lemma merged_None [simp]: "merged k old None = old"
  by (auto simp: merged_def split: option.splits cfg_value.splits)

lemma merge_items_merged:
  "dict_typed kvs \<Longrightarrow> dict_typed d \<Longrightarrow>
     \<exists>d'. merge_items kvs d = Inr d' \<and> dict_typed d' \<and> (\<forall>k. map_of d' k = merged k (map_of d k) (map_of kvs k))"
proof (induction kvs arbitrary: d)
  case (Cons kv kvs)
  obtain k v where kv: "kv = (k, v)" by (cases kv)
  have t: "value_typed k v" "dict_typed kvs" and n: "k \<notin> fst ` set kvs"
    using Cons.prems(1) kv by (auto simp: dict_typed_def)
  obtain d1 where d1: "merge_item k v d = Inr d1" "dict_typed d1" "map_of d1 = (map_of d)(k := merged k (map_of d k) (Some v))"
    using merge_item_merged [OF Cons.prems(2) t(1)] by blast
  obtain d' where d': "merge_items kvs d1 = Inr d'" "dict_typed d'" "\<forall>k. map_of d' k = merged k (map_of d1 k) (map_of kvs k)"
    using Cons.IH [OF t(2) d1(2)] by blast
  have "map_of kvs k = None" using n by (simp add: map_of_eq_None_iff)
  then have "map_of d' x = merged x (map_of d x) (map_of (kv # kvs) x)" for x
    using d'(3) d1(3) kv by simp
  with d1 d' kv show ?case by auto
qed simp

lemma values_kept: "filter (\<lambda>l. l \<noteq> []) (map (values_of k) gs) = f # r \<Longrightarrow> f \<noteq> []"
  by (metis (mono_tags, lifting) filter_eq_Cons_iff)

lemma answer_step: "merged k (first_value gs k) (settings_value g k) = first_value (gs @ [g]) k"
  using identityfile_multiple
  by (auto simp: first_value_def merged_def settings_value_def Let_def extend_new_append split: list.splits)

text \<open>The contexts apply as their blocks admit the host.\<close>

lemma block_applies:
  "from_block b c \<Longrightarrow> context_applies env h canonical final d c = Inr (admitted (fst b) h)"
  by (simp add: context_applies_def from_block_def pattern_matches_admitted does_match_def)

lemma first_pass:
  assumes "list_all2 from_block bs cs" "dict_typed d" "\<forall>k. map_of d k = first_value gs k"
  shows "\<exists>d'. apply_contexts env h canonical final cs d = Inr d' \<and> dict_typed d' \<and>
    (\<forall>k. map_of d' k = first_value (gs @ applicable h bs) k)"
  using assms
proof (induction bs cs arbitrary: d gs rule: list_all2_induct)
  case Nil
  then show ?case by (simp add: applicable_def)
next
  case (Cons b bs c cs)
  have hc: "dict_typed (cc_config c)" "map_of (cc_config c) = settings_value (snd b)"
    using Cons.hyps(1) by (simp_all add: from_block_def holds_settings_def)
  show ?case
  proof (cases "admitted (fst b) h")
    case False
    with Cons.IH [OF Cons.prems] Cons.hyps(1) show ?thesis by (simp add: block_applies applicable_def)
  next
    case True
    obtain d1 where d1: "merge_items (cc_config c) d = Inr d1" "dict_typed d1"
      "\<forall>k. map_of d1 k = merged k (map_of d k) (settings_value (snd b) k)"
      using merge_items_merged [OF hc(1) Cons.prems(1)] hc(2) by auto
    then have "\<forall>k. map_of d1 k = first_value (gs @ [snd b]) k" using Cons.prems(2) answer_step by simp
    with Cons.IH [OF d1(2), of "gs @ [snd b]"] True d1(1) Cons.hyps(1) show ?thesis by (auto simp: block_applies applicable_def)
  qed
qed

text \<open>A second pass changes nothing.\<close>

lemma dict_put_same: "map_of d k = Some v \<Longrightarrow> dict_put k v d = d"
  by (induction d) (auto split: if_splits)

definition covers :: "cfg_dict \<Rightarrow> cfg_dict \<Rightarrow> bool" where
  "covers d kvs \<longleftrightarrow> (\<forall>k v. (k, v) \<in> set kvs \<longrightarrow>
     (\<exists>x. map_of d k = Some x \<and> (k = lit ''identityfile'' \<longrightarrow> (\<exists>a b. x = VList a \<and> v = VList b \<and> set b \<subseteq> set a))))"

lemma merge_items_covered: "covers d kvs \<Longrightarrow> merge_items kvs d = Inr d"
proof (induction kvs)
  case (Cons kv kvs)
  obtain k v where kv: "kv = (k, v)" by (cases kv)
  have "covers d kvs" using Cons.prems by (auto simp: covers_def)
  moreover have "merge_item k v d = Inr d"
    using Cons.prems kv by (fastforce simp: covers_def merge_item_def extend_new_known dict_put_same)
  ultimately show ?case using Cons.IH kv by simp
qed simp

lemma values_of_in: "x \<in> set (values_of k g) \<longleftrightarrow> (k, x) \<in> set g"
  by (auto simp: values_of_def image_iff)

lemma answer_covers:
  assumes "g \<in> set gs" "holds_settings g kvs" "\<forall>k. first_value gs k \<noteq> None \<longrightarrow> map_of d k = first_value gs k"
  shows "covers d kvs"
  unfolding covers_def
proof (intro allI impI)
  fix k v assume kv: "(k, v) \<in> set kvs"
  then have m: "settings_value g k = Some v"
    using assms(2) map_of_is_SomeI [of kvs k v] by (auto simp: holds_settings_def dict_typed_def)
  then have ne: "values_of k g \<noteq> []" by (auto simp: settings_value_def Let_def split: if_splits)
  then have "values_of k g \<in> set (filter (\<lambda>l. l \<noteq> []) (map (values_of k) gs))" using assms(1) by simp
  then obtain f r where fr: "filter (\<lambda>l. l \<noteq> []) (map (values_of k) gs) = f # r" "values_of k g \<in> set (f # r)"
    by (cases "filter (\<lambda>l. l \<noteq> []) (map (values_of k) gs)") auto
  then obtain x where x: "first_value gs k = Some x" "k = lit ''identityfile'' \<longrightarrow> x = VList (extend_new f (concat r))"
    by (auto simp: first_value_def)
  have "v = VList (values_of k g)" if "k = lit ''identityfile''"
    using m ne that identityfile_multiple by (auto simp: settings_value_def)
  moreover have "set (values_of k g) \<subseteq> set (extend_new f (concat r))"
    using fr(2) by (auto simp: set_extend_new)
  ultimately show "\<exists>x. map_of d k = Some x \<and>
      (k = lit ''identityfile'' \<longrightarrow> (\<exists>a b. x = VList a \<and> v = VList b \<and> set b \<subseteq> set a))"
    using x assms(3) by auto
qed

lemma second_pass:
  assumes "list_all2 from_block bs cs" "set (applicable h bs) \<subseteq> set gs" "\<forall>k. first_value gs k \<noteq> None \<longrightarrow> map_of d k = first_value gs k"
  shows "apply_contexts env h canonical final cs d = Inr d"
  using assms(1,2)
proof (induction bs cs rule: list_all2_induct)
  case (Cons b bs c cs)
  have "merge_items (cc_config c) d = Inr d" if "admitted (fst b) h"
    using that Cons.prems Cons.hyps(1)
    by (intro merge_items_covered answer_covers [OF _ _ assms(3)]) (auto simp: applicable_def from_block_def)
  moreover have "set (applicable h bs) \<subseteq> set (applicable h (b # bs))" by (auto simp: applicable_def)
  then have "set (applicable h bs) \<subseteq> set gs" using Cons.prems by blast
  ultimately show ?case using Cons.IH Cons.hyps(1) by (simp add: block_applies)
qed simp

section \<open>Texts without tokens\<close>

lemma replace_in_absent: "what \<noteq> [] \<Longrightarrow> hd what \<notin> set s \<Longrightarrow> replace_in 0 what r s = s"
  by (induction s) (auto simp: startswith_iff neq_Nil_conv)

lemma replace_tokens_absent:
  "list_all (\<lambda>(w, r). w \<noteq> [] \<and> hd w \<in> {37, 126} \<and> \<not> isl r) rs \<Longrightarrow> no_tokens s \<Longrightarrow> replace_tokens allowed rs s = Inr s"
proof (induction rs)
  case (Cons wr rs)
  obtain w r where wr: "wr = (w, r)" by (cases wr)
  then obtain x where x: "r = Inr x" using Cons.prems(1) by (cases r) auto
  have "str_replace s w x = s"
    using Cons.prems wr by (auto simp: str_replace_def no_tokens_def intro!: replace_in_absent)
  with Cons wr x show ?case by simp
qed simp

lemma scalar_small: "c < 0xD800 \<Longrightarrow> scalar c"
  by (simp add: scalar_def)

lemma repr_scalar: "list_all scalar s \<Longrightarrow> list_all scalar (repr_str p s)"
proof -
  have h: "scalar (repr_hex n)" if "n < 16" for n using that by (auto simp: repr_hex_def intro!: scalar_small)
  have "list_all scalar (hex_of k n)" for k n
    by (induction k arbitrary: n) (auto intro!: h)
  then have c: "scalar c \<Longrightarrow> list_all scalar (repr_char p q c)" if "q < 128" for q c
    using that by (auto simp: repr_char_def intro!: scalar_small)
  then have "list_all scalar (concat (map (repr_char p q) s))" if "q < 128" "list_all scalar s" for q
    using that by (induction s) auto
  moreover assume "list_all scalar s"
  ultimately show ?thesis by (simp add: repr_str_def Let_def scalar_small)
qed

text \<open>The names of the machine and its user can be encoded.\<close>

definition env_ok :: "cfg_env \<Rightarrow> bool" where
  "env_ok env \<longleftrightarrow> list_all scalar (ev_hostname env) \<and> list_all scalar (ev_user env)"

lemma local_name_scalar: "env_ok env \<Longrightarrow> list_all scalar (local_name env)"
proof -
  have "set (hd (split_on d s)) \<subseteq> set s" for d and s :: ustr
    by (induction s) (auto split: list.splits)
  then show "env_ok env \<Longrightarrow> ?thesis" by (auto simp: local_name_def env_ok_def list_all_iff)
qed

text \<open>Every text of an option is encodable, and without tokens where they would be replaced.\<close>

fun texts :: "cfg_value \<Rightarrow> ustr list" where
  "texts VNone = []"
| "texts (VStr s) = [s]"
| "texts (VList l) = l"

definition option_plain :: "ustr \<Rightarrow> cfg_value \<Rightarrow> bool" where
  "option_plain k v \<longleftrightarrow> list_all (\<lambda>s. list_all scalar s \<and> (allowed_tokens k = [] \<or> no_tokens s)) (texts v)"

definition plain_dict :: "cfg_dict \<Rightarrow> bool" where
  "plain_dict d \<longleftrightarrow> dict_typed d \<and> (\<forall>k v. map_of d k = Some v \<longrightarrow> option_plain k v)"

lemma plain_text_option:
  assumes "plain_dict d" "text_key (lit k)" "list_all scalar x"
  obtains s where "option_text e d k x = Inr s" "list_all scalar s"
proof (cases "map_of d (lit k)")
  case None
  with assms that show ?thesis by (simp add: option_text_def)
next
  case (Some v)
  with assms typed_text obtain s where "v = VStr s" unfolding plain_dict_def by blast
  moreover from this have "list_all scalar s" using Some assms(1) by (fastforce simp: plain_dict_def option_plain_def)
  ultimately show ?thesis using Some that by (simp add: option_text_def)
qed

lemma fqdn_total: "dict_typed d \<Longrightarrow> \<not> isl (lazy_fqdn env d h)"
  using option_text_typed [of d "''addressfamily''" AttributeError "lit ''any''"]
  by (auto simp: lazy_fqdn_def addressfamily_host_lookup_def split: if_splits)

lemma replacements_plain:
  assumes "plain_dict d" "env_ok env" "list_all scalar h"
  obtains rs where "replacements env d h key = Inr rs" "list_all (\<lambda>(w, r). w \<noteq> [] \<and> hd w \<in> {37, 126} \<and> \<not> isl r) rs"
proof -
  have t: "dict_typed d" using assms(1) by (simp add: plain_dict_def)
  obtain c0 where "option_text TypeError d ''hostname'' h = Inr c0"
    by (rule plain_text_option [OF assms(1) _ assms(3), of "''hostname''" TypeError]) simp_all
  then obtain c where c: "(if key \<noteq> lit ''hostname'' then option_text TypeError d ''hostname'' h else Inr h) = Inr c"
    by (cases "key = lit ''hostname''") simp_all
  obtain u where u: "option_text TypeError d ''user'' (ev_user env) = Inr u" "list_all scalar u"
    by (rule plain_text_option [OF assms(1), of "''user''" "ev_user env" TypeError])
      (use assms(2) in \<open>simp_all add: env_ok_def\<close>)
  obtain p q where p: "port_texts env d = Inr (p, q)" "list_all scalar q"
  proof (cases "map_of d (lit ''port'')")
    case None
    then show ?thesis using that by (simp add: port_texts_def SSH_PORT_def dec_str_def dec_digits.simps scalar_def)
  next
    case (Some v)
    with t obtain s where "v = VStr s" using typed_text [OF t _ Some] by auto
    moreover from this have "list_all scalar s" using Some assms(1) by (fastforce simp: plain_dict_def option_plain_def)
    ultimately show ?thesis using Some that by (simp add: port_texts_def repr_scalar)
  qed
  have "list_all scalar (local_name env @ h @ q @ u)"
    using local_name_scalar [OF assms(2)] assms(3) u p by simp
  then obtain b where "utf8_encode (local_name env @ h @ q @ u) = Inr b" by (simp add: utf8_encode_def)
  then show ?thesis using that c u p fqdn_total [OF t]
    by (simp add: replacements_def lit_def)
qed

lemma tokenize_plain:
  assumes "plain_dict d" "env_ok env" "list_all scalar h" "allowed_tokens k = [] \<or> no_tokens s"
  shows "tokenize env d h k s = Inr s"
proof -
  obtain rs where "replacements env d h k = Inr rs" "list_all (\<lambda>(w, r). w \<noteq> [] \<and> hd w \<in> {37, 126} \<and> \<not> isl r) rs"
    by (rule replacements_plain [OF assms(1-3)])
  with assms(4) show ?thesis by (auto simp: tokenize_def replace_tokens_absent)
qed

lemma expand_plain:
  assumes "plain_dict d" "env_ok env" "list_all scalar h"
  shows "expand_keys env h ks d = Inr d"
proof (induction ks)
  case (Cons k ks)
  have "tokenize_all env d h k l = Inr l" if "list_all (\<lambda>s. allowed_tokens k = [] \<or> no_tokens s) l" for l
    using that by (induction l) (simp_all add: tokenize_plain [OF assms])
  moreover have "list_all (\<lambda>s. allowed_tokens k = [] \<or> no_tokens s) (texts v)" if "map_of d k = Some v" for v
    using assms(1) that by (auto simp: plain_dict_def option_plain_def list_all_iff)
  ultimately show ?case using Cons.IH
    by (auto split: option.split cfg_value.split simp: tokenize_plain [OF assms] dict_put_same)
qed simp

lemma answer_texts:
  assumes "first_value gs k = Some v" "x \<in> set (texts v)"
  shows "\<exists>g \<in> set gs. (k, x) \<in> set g"
proof -
  obtain f r where fr: "filter (\<lambda>l. l \<noteq> []) (map (values_of k) gs) = f # r"
    using assms(1) by (auto simp: first_value_def split: list.splits)
  then have "f \<noteq> []" by (rule values_kept)
  then have "x \<in> set (concat (f # r))"
    using assms fr by (auto simp: first_value_def set_extend_new split: if_splits)
  also have "\<dots> \<subseteq> set (concat (map (values_of k) gs))"
    unfolding fr [symmetric] by auto
  finally show ?thesis by (auto simp: values_of_in)
qed

lemma answer_plain:
  assumes "list_all (list_all setting_ok) gs" "first_value gs k = Some v"
  shows "option_plain k v"
  unfolding option_plain_def list_all_iff [of _ "texts v"]
proof
  fix x assume "x \<in> set (texts v)"
  with answer_texts [OF assms(2)] obtain g where "g \<in> set gs" "(k, x) \<in> set g" by blast
  with assms(1) have "setting_ok (k, x)" by (auto simp: list_all_iff)
  then show "list_all scalar x \<and> (allowed_tokens k = [] \<or> no_tokens x)"
    by (simp add: setting_ok_def value_ok_def)
qed

lemma answer_key:
  assumes "list_all (list_all setting_ok) gs" "\<not> key_ok k"
  shows "first_value gs k = None"
proof (rule ccontr)
  assume "first_value gs k \<noteq> None"
  then have "filter (\<lambda>l. l \<noteq> []) (map (values_of k) gs) \<noteq> []" by (auto simp: first_value_def)
  then obtain l where "l \<in> set (map (values_of k) gs)" "l \<noteq> []" unfolding filter_empty_conv by blast
  then obtain g x where "g \<in> set gs" "(k, x) \<in> set g"
    by (auto simp: values_of_in neq_Nil_conv) (metis list.set_intros(1) values_of_in)
  with assms show False by (force simp: list_all_iff setting_ok_def)
qed

text \<open>The name to look up can be encoded and holds no tokens.\<close>

definition name_ok :: "ustr \<Rightarrow> bool" where
  "name_ok h \<longleftrightarrow> list_all scalar h \<and> no_tokens h"

lemma lookup_answers:
  assumes cfg: "list_all2 from_block bs cfg" and ok: "list_all (list_all setting_ok) (applicable h bs)"
    and env: "env_ok env" and h: "name_ok h"
  shows "\<exists>options. cfg_lookup env cfg h = Inr options \<and> map_of options = with_host h (first_value (applicable h bs))"
proof -
  let ?gs = "applicable h bs" and ?host = "lit ''hostname''"
  obtain d1 where d1: "apply_contexts env h False False cfg [] = Inr d1" "dict_typed d1" "\<forall>k. map_of d1 k = first_value ?gs k"
    using first_pass [OF cfg dict_typed_Nil, of "[]" env h False False] by (auto simp: first_value_def)
  define d2 where "d2 = (if map_of d1 ?host = None then dict_put ?host (VStr h) d1 else d1)"
  have m2: "map_of d2 = with_host h (first_value ?gs)"
    using d1(3) by (auto simp: d2_def with_host_def map_of_dict_put fun_eq_iff)
  have t2: "dict_typed d2" using d1(2) by (auto simp: d2_def MULTIPLE_KEYS_def intro!: dict_put_typed)
  have "option_plain k v" if "map_of d2 k = Some v" for k v
    using that answer_plain [OF ok] h
    by (auto simp: m2 with_host_def option_plain_def name_ok_def split: if_splits)
  with t2 have p2: "plain_dict d2" by (simp add: plain_dict_def)
  have a2: "apply_contexts env h False True cfg d2 = Inr d2"
    by (rule second_pass [OF cfg subset_refl]) (simp add: m2 with_host_def)
  have "expand_variables env d2 h = Inr d2"
    unfolding expand_variables_def using p2 env h by (intro expand_plain) (simp_all add: name_ok_def)
  then have l2: "lookup_pass env cfg h d2 False True = Inr d2" by (simp add: lookup_pass_def a2)
  have c: "map_of d2 (lit ''canonicalizehostname'') = None" "map_of d2 (lit ''canonicalizemaxdots'') = None"
    using answer_key [OF ok] by (simp_all add: m2 with_host_def key_ok_def)
  have "cfg_lookup env cfg h = Inr d2"
    using l2 by (simp add: cfg_lookup_def lookup_pass_def [of env cfg h "[]"] d1(1) d2_def [symmetric] Let_def c max_dots_def)
  with m2 show ?thesis by blast
qed

text \<open>C19. A file of settings and \<^verbatim>\<open>Host\<close> blocks gives every option, for every host, the first value written for it in
  a block whose patterns admit the host (some pattern matches, none marked with an exclamation mark does); the
  identity files of all these blocks are collected, each once; and the host name is the name asked for unless it is
  configured. Parsing and both passes of the lookup succeed. The settings (\<open>setting_ok\<close>, \<open>block_ok\<close>) have no tokens to
  expand and no white space around them, no value begins with a quote, no pattern has one, none of them is \<^verbatim>\<open>ProxyCommand none\<close>, and canonicalization of host
  names is not configured.\<close>

theorem config_answers:
  assumes "list_all setting_ok globals" "list_all block_ok blocks" "env_ok env" "name_ok h"
  shows "\<exists>options. bindR (from_text env (config_text globals blocks)) (\<lambda>cfg. cfg_lookup env cfg h) = Inr options \<and>
    map_of options = with_host h (first_value (applicable h (all_blocks globals blocks)))"
proof -
  obtain cfg where cfg: "from_text env (config_text globals blocks) = Inr cfg"
    "list_all2 from_block (all_blocks globals blocks) cfg"
    by (rule config_parses [OF assms(1,2)])
  have "list_all (list_all setting_ok) (applicable h (all_blocks globals blocks))"
    using assms(1,2) by (auto simp: applicable_def all_blocks_def list_all_iff block_ok_def)
  from lookup_answers [OF cfg(2) this assms(3,4)] show ?thesis by (simp add: cfg(1))
qed

definition sample_hosts :: "host_block list" where
  "sample_hosts =
    [([lit ''*.example.org'', lit ''!old.example.org''], [(lit ''port'', lit ''2222''), (lit ''identityfile'', lit ''/keys/a'')]),
     ([lit ''*''], [(lit ''port'', lit ''22''), (lit ''identityfile'', lit ''/keys/b'')])]"

lemma sample_ok:
  "list_all block_ok sample_hosts" "env_ok sample_machine" "name_ok (lit ''db.example.org'')"
  by (simp_all add: sample_hosts_def block_ok_def host_ok_def setting_ok_def key_ok_def value_ok_def no_tokens_def scalar_def
      is_space_def allowed_tokens_def TOKENS_BY_CONFIG_KEY_def lit_def env_ok_def sample_machine_def name_ok_def)

theorem config_answers_witness:
  "\<exists>options. bindR (from_text sample_machine (config_text [] sample_hosts)) (\<lambda>cfg. cfg_lookup sample_machine cfg (lit ''db.example.org'')) = Inr options \<and>
     map_of options (lit ''port'') = Some (VStr (lit ''2222'')) \<and>
     map_of options (lit ''identityfile'') = Some (VList [lit ''/keys/a'', lit ''/keys/b''])"
proof -
  let ?f = "with_host (lit ''db.example.org'') (first_value (applicable (lit ''db.example.org'') (all_blocks [] sample_hosts)))"
  have f: "?f (lit ''port'') = Some (VStr (lit ''2222''))"
    "?f (lit ''identityfile'') = Some (VList [lit ''/keys/a'', lit ''/keys/b''])" by code_simp+
  have "list_all setting_ok []" by simp
  from config_answers [OF this sample_ok] f show ?thesis by (elim exE) (intro exI conjI, auto)
qed

end
