(* ===== verification/Spec2Isabelle.thy ===== *)
theory Spec2Isabelle
  imports Deep_Tech_Docx Lens_Worker Gender_Age Ssh_Ber Ssh_Packet_Link Ssh_Channel_Flow Sftp_Attr Buffered_File Host_Keys Ssh_Dh Ssh_Connection_Safe Sftp_Answers Sftp_Transfer Ssh_Config_Blocks
begin

text \<open>
  Balii e-commerce platform: verification of its Python programs.

  The repository is a web shop. Its services and web client are TypeScript; its Python is (a) two report generators
  under \<^verbatim>\<open>scripts/\<close>, (b) two small services under \<^verbatim>\<open>ai-service/\<close>, and (c) a copy of the SSH library paramiko that was
  checked in under \<^verbatim>\<open>.tmp_paramiko/\<close> for deployment. This development models the Python code: every definition
  follows one function, method or loop of it, and PROJECT.json says which lines.

  How the parts hang together.
  \<^item> \<open>Balii_Prelude\<close> and \<open>Py_Text\<close> are the vocabulary: exceptions as values, state-passing computations that may
    raise, bytes as 8-bit words, big-endian integers, Python slices, texts as lists of code points, UTF-8. \<open>Py_Base64\<close>
    adds the base64 codec of the standard library with the fact that decoding undoes encoding.
  \<^item> Reports: \<open>Md_Blocks\<close> (the block parser of markdown_to_docx.py), \<open>Docx_Model\<close> (the document the library calls
    build), \<open>Md_Docx\<close> (the converter), \<open>Deep_Tech_Docx\<close> (create_deep_tech_explainer_docx.py). Shown: blocks are read
    back from their canonical text, no line is lost, inline formatting keeps the text up to lone markers, the calls for
    a document carry the text of the blocks in order, and table widths add up. The calls of the document library are
    recorded and taken not to raise; reading the Markdown and saving the document are arguments and may fail.
  \<^item> Services: \<open>Lens_Worker\<close> (google-lens-worker: main.py, real_lens.py) and \<open>Gender_Age\<close> (ai-gender-age-service).
    Shown: which answers the handlers give for every way the child process ends, that temporary files stay in one case
    only (an upload whose write fails), which rows get labels, that training keeps the best epoch.
  \<^item> SSH base: \<open>Ssh_Util\<close> (util.py), \<open>Ssh_Common\<close> (common.py), \<open>Ssh_Message\<close> (message.py), \<open>Ssh_Ber\<close> (ber.py).
    A message is a byte stream with a position; the locale \<open>message_field\<close> is the contract of one kind of field and
    is interpreted for each. Shown: every sequence of fields is read back, integers have their shortest form, BER
    values decode to themselves and decoding any bytes is total.
  \<^item> SSH transport of bytes: \<open>Ssh_Packet\<close> (packet.py) over a trace of what the socket does, with ciphers, MAC and
    compression as parameters, and \<open>Ssh_Packet_Link\<close>, which puts a sender and a receiver together: what one
    packetizer sends its peer reads, in all four cipher modes and however the bytes are cut up.
  \<^item> SSH channels: \<open>Buffered_Pipe\<close> (buffered_pipe.py), \<open>Ssh_Channel\<close> (channel.py: every operation of Channel) and
    \<open>Ssh_Channel_Flow\<close>: the steps of a channel under any interleaving of threads and incoming messages, as an
    inductive relation. \<open>Step_System\<close> holds reachability and the locales \<open>step_invariant\<close> and
    \<open>step_invariant_with\<close>, interpreted there for the sending and the receiving side. Shown: data stays within the
    peer's window and the packet size the channel goes by, how often end and close are handed over and in which runs the
    order of data, end and close is kept, that the window never starves a reader, what sendall does.
  \<^item> SFTP: \<open>Sftp\<close> (sftp.py: packets and version handshake), \<open>Sftp_Attr\<close> (sftp_attr.py), \<open>Buffered_File\<close> (file.py).
    Shown: framing, what arrives of packed attributes, that buffered reads equal a reference reader on the whole
    contents (as bytes: \<open>bf_readline_text\<close> adds the decoding of files that are not binary), that readlines ends, that writes keep their order. \<open>Sftp_Server\<close> (sftp_server.py) has the tables of
    handles and the handler of every request over an application, the record \<open>sftp_si\<close>; \<open>Sftp_Handle\<close> what an
    application inherits (sftp_handle.py, sftp_si.py); \<open>Sftp_Client\<close> and \<open>Sftp_File\<close> the client (sftp_client.py,
    sftp_file.py) over a peer, a function from a packet to the packets it brings. Shown: each request is answered once
    (\<open>Sftp_Answers\<close>: check-file may read forever when the application answers a read with no data), a handle never
    changes its meaning, for any requests and any application, canonical paths stay below the root (POSIX paths: the
    replacement of separators on Windows is not modelled),
    and, with the server as the peer, that a call on a path is the application's own method (\<open>Sftp_Remote\<close>), that a
    listing is complete and ends (\<open>Sftp_Folder\<close>), and that a remote file not in append mode reads and writes as the file does
    (\<open>Sftp_Transfer\<close>, on the contract \<open>served_file\<close>, which the default handle keeps).
  \<^item> Keys: \<open>Public_Keys\<close> (the public side of pkey.py, rsakey.py, ed25519key.py, ecdsakey.py), \<open>Signatures\<close> (their
    signatures on the wire) and \<open>Host_Keys\<close> (hostkeys.py, over a store of shared entries). Shown: keys survive their
    wire form and certificates, what a key signs its public side verifies (and which key objects loaded from a private
    file do), the table survives its file, and adding a key has the effect it should have, unless a hashed entry hides
    it, and no other.
  \<^item> Key exchange: \<open>Ssh_Kex\<close> (transport.py: the offer of algorithms and the choice), \<open>Ssh_Kex_Agree\<close> (both ends choose
    the same, or both refuse, but for a group exchange announced by a server without primes), \<open>Ssh_Keying\<close> (computing keys and switching both directions to them) and \<open>Ssh_Dh\<close>
    (kex_group14.py, kex_group16.py: both ends get the same secret and hash, and the client has verified the host key).
  \<^item> Authentication: \<open>Ssh_Auth\<close> (auth_handler.py, both sides; \<open>Ssh_Fields\<close> reads messages field by field),
    \<open>Ssh_Auth_Agree\<close> (what the server's application decides is what the client's call returns) and \<open>Ssh_Auth_Safe\<close>
    (no sequence of messages makes the server hold a client for authenticated that its application has not granted,
    by public key only with a verified signature). \<open>Sm_Hoare\<close> has the rules for triples these proofs use.
  \<^item> Connection: \<open>Ssh_Connection\<close> (transport.py: one message through the loop of run, its handlers, the table of
    channels, opening channels, global requests) over any layer below, the record \<open>lower\<close>. \<open>Ssh_Connection_Table\<close> shows
    that the table stays well typed and that a free number is found, \<open>Ssh_Connection_Open\<close> that an opened channel
    is the same channel on both ends, \<open>Ssh_Connection_Safe\<close> that nothing is reached before authentication and that a
    strict key exchange refuses what it must.
  \<^item> Client configuration: \<open>Py_Shell\<close> (words of a shell, file name patterns and the rest of the text library it needs) and
    \<open>Ssh_Config\<close> (config.py: the parser, the criteria of Host and Match, tokens and both passes of the lookup) on a
    machine that is the record \<open>cfg_env\<close>. \<open>Ssh_Config_Answers\<close> shows that lookups never fail on a type and that a Match
    line asks for all of its criteria, \<open>Ssh_Config_Blocks\<close> that a file of Host blocks answers with the first value
    written for a host.

  Conventions. A raise is \<open>Inl\<close> of an exception, an early return a branch. Waiting for the outside (a socket, a
  condition variable, a subclass's read) reads the next event of a trace that is an argument; the trace used up is the
  exception \<open>Blocked\<close>, which no modelled code catches. Loops over a trace recurse on its length; loops that need not
  end are partial functions into \<open>option\<close> (\<open>sendall\<close>, \<open>readlines\<close>, \<open>list_loop\<close>, \<open>raw_slurp\<close>, and
  \<open>hash_block\<close> with \<open>hash_blocks\<close>, whose \<open>None\<close> the request turns into \<open>Blocked\<close>) or have fuel:
  \<open>key_bytes_loop\<close>, where one unit per wanted byte is enough as long as digests are not empty; \<open>next_free\<close>, where the
  number of channels is enough (\<open>next_channel_finds\<close>); and \<open>generate_x\<close>, where the trace of random bytes is the fuel.

  What is assumed of code outside the repository is an argument of the definitions: the hash functions and HMAC, the
  ciphers (that decrypting undoes encrypting block by block, as a hypothesis of \<open>link_delivers\<close>), the compressor, the
  numbers and points the cryptography library accepts, the network of the gender and age service, the calendar.

  Not modelled: log lines and debugging strings; fileno and its select pipe; Windows and agent bridges; starting threads
  and sockets, the banner and the moduli files of transport.py, GSSAPI (not in this copy), the group exchange and the
  elliptic curve exchanges, private keys and their files, listdir_iter, readv, put and get of the SFTP client, the
  authentication strategies and the opening of configuration files; the cryptography, cffi, nacl, pycparser and invoke
  packages, which paramiko or its build only call; the thesis test-case script, a fixed document; everything that is
  not Python.
\<close>

end
